(* ===== verification/Prelude.thy ===== *)
theory Prelude
  imports Main "HOL-Library.Word" "HOL-Library.Char_ord" "HOL-Library.List_Lexorder"
begin

text \<open>
  Shared vocabulary of the development: Rust strings as UTF-8 byte lists, decimal rendering
  and parsing of counters, saturating 64-bit arithmetic, and the results of fallible
  operations. A Rust \<open>String\<close> or \<open>&str\<close> is a \<open>string\<close> whose characters are the bytes of its
  UTF-8 encoding, so that equality, order, length and concatenation agree with the code's.
\<close>

subsection \<open>Results\<close>

text \<open>Rust's \<open>Result<T, E>\<close>: \<open>Inl\<close> is \<open>Err\<close>, \<open>Inr\<close> is \<open>Ok\<close>.\<close>

type_synonym ('e, 'a) result = "'e + 'a"

definition is_ok :: "('e, 'a) result \<Rightarrow> bool" where
  "is_ok r = (case r of Inl _ \<Rightarrow> False | Inr _ \<Rightarrow> True)"

lemma is_ok_simps [simp]: "is_ok (Inr x)" "\<not> is_ok (Inl e)"
  by (simp_all add: is_ok_def)

lemma map_sum_Inr_iff [simp]: "map_sum f h r = Inr y \<longleftrightarrow> (\<exists>x. r = Inr x \<and> y = h x)"
  by (cases r) auto

lemma map_sum_Inl_iff [simp]: "map_sum f h r = Inl e \<longleftrightarrow> (\<exists>x. r = Inl x \<and> e = f x)"
  by (cases r) auto

subsection \<open>64-bit arithmetic\<close>

type_synonym u64 = "64 word"

definition u64_max :: nat where
  "u64_max = 18446744073709551615"

text \<open>\<open>u64::saturating_add\<close> and \<open>u64::saturating_mul\<close> on the numbers the words denote.\<close>

definition sat_add :: "nat \<Rightarrow> nat \<Rightarrow> nat" where
  "sat_add a b = min (a + b) u64_max"

definition sat_mul :: "nat \<Rightarrow> nat \<Rightarrow> nat" where
  "sat_mul a b = min (a * b) u64_max"

lemma sat_add_exact: "a + b \<le> u64_max \<Longrightarrow> sat_add a b = a + b"
  by (simp add: sat_add_def)

lemma sat_mul_exact: "a * b \<le> u64_max \<Longrightarrow> sat_mul a b = a * b"
  by (simp add: sat_mul_def)

lemma sat_bounds [simp]: "sat_add a b \<le> u64_max" "sat_mul a b \<le> u64_max"
  by (simp_all add: sat_add_def sat_mul_def)

text \<open>Evaluation goes through binary integers.\<close>

lemma nat_min_u64_max: "nat (min (int n) 18446744073709551615) = min n u64_max"
proof -
  have "(18446744073709551615 :: int) = int u64_max"
    by (simp add: u64_max_def)
  then show ?thesis
    by (metis nat_int of_nat_min)
qed

lemma sat_add_code [code]: "sat_add a b = nat (min (int a + int b) 18446744073709551615)"
  using nat_min_u64_max [of "a + b"] by (simp add: sat_add_def)

lemma sat_mul_code [code]: "sat_mul a b = nat (min (int a * int b) 18446744073709551615)"
  using nat_min_u64_max [of "a * b"] by (simp add: sat_mul_def)

lemma u64_max_word: "u64_max = 2 ^ 64 - 1"
  by (simp add: u64_max_def)

lemma unat_le_u64_max: "unat (w :: u64) \<le> u64_max"
proof -
  have "unat w < 2 ^ LENGTH(64)"
    by (rule unsigned_less)
  then show ?thesis by (simp add: u64_max_def)
qed

text \<open>An increment that stays in range is the mathematical one.\<close>

lemma unat_Suc_u64: "unat (w :: u64) < u64_max \<Longrightarrow> unat (w + 1) = Suc (unat w)"
  by (simp add: unat_plus_if' u64_max_def)

subsection \<open>Decimal rendering: \<open>format!("{}", n)\<close> of an unsigned integer\<close>

definition digit_char :: "nat \<Rightarrow> char" where
  "digit_char d = char_of (48 + d)"

fun dec :: "nat \<Rightarrow> string" where
  "dec n = (if n < 10 then [digit_char n] else dec (n div 10) @ [digit_char (n mod 10)])"

declare dec.simps [simp del]

text \<open>\<open>char::to_digit(10)\<close>.\<close>

definition to_digit10 :: "char \<Rightarrow> nat option" where
  "to_digit10 c = (let b = of_char c :: nat in if 48 \<le> b \<and> b \<le> 57 then Some (b - 48) else None)"

lemma digit_char_eval:
  "digit_char 0 = CHR ''0''" "digit_char (Suc 0) = CHR ''1''" "digit_char 2 = CHR ''2''"
  "digit_char 3 = CHR ''3''" "digit_char 4 = CHR ''4''" "digit_char 5 = CHR ''5''"
  "digit_char 6 = CHR ''6''" "digit_char 7 = CHR ''7''" "digit_char 8 = CHR ''8''"
  "digit_char 9 = CHR ''9''"
  by code_simp+

text \<open>What code evaluation uses for a digit: no byte arithmetic.\<close>

lemma digit_char_code [code]:
  "digit_char d =
     (if d = 0 then CHR ''0'' else if d = 1 then CHR ''1'' else if d = 2 then CHR ''2'' else if d = 3 then CHR ''3''
      else if d = 4 then CHR ''4'' else if d = 5 then CHR ''5'' else if d = 6 then CHR ''6'' else if d = 7 then CHR ''7''
      else if d = 8 then CHR ''8'' else if d = 9 then CHR ''9'' else char_of (48 + d))"
  by (simp add: digit_char_eval) (simp add: digit_char_def)

text \<open>What evaluates a rendered or parsed counter on concrete input.\<close>

lemmas dec_eval = dec.simps digit_char_eval

lemma of_char_digit: "d < 10 \<Longrightarrow> (of_char (digit_char d) :: nat) = 48 + d"
  by (simp add: digit_char_def)

lemma to_digit10_digit [simp]: "d < 10 \<Longrightarrow> to_digit10 (digit_char d) = Some d"
  by (simp add: to_digit10_def of_char_digit Let_def)

lemma dec_not_Nil [simp]: "dec n \<noteq> []"
  by (subst dec.simps) simp

lemma dec_digits: "c \<in> set (dec n) \<Longrightarrow> to_digit10 c \<noteq> None"
proof (induction n rule: dec.induct)
  case (1 n)
  show ?case
  proof (cases "n < 10")
    case True
    with "1.prems" show ?thesis by (simp add: dec.simps [of n])
  next
    case False
    with "1.prems" consider "c \<in> set (dec (n div 10))" | "c = digit_char (n mod 10)"
      by (auto simp: dec.simps [of n])
    then show ?thesis
      using "1.IH" [OF False] by cases auto
  qed
qed

text \<open>Rendering is injective: reading the digits from the left gives the number back.\<close>

definition undec :: "string \<Rightarrow> nat" where
  "undec s = foldl (\<lambda>a c. 10 * a + (case to_digit10 c of Some d \<Rightarrow> d | None \<Rightarrow> 0)) 0 s"

lemma undec_dec [simp]: "undec (dec n) = n"
proof (induction n rule: dec.induct)
  case (1 n)
  then show ?case
    by (cases "n < 10") (simp_all add: undec_def dec.simps [of n])
qed

lemma dec_inj [simp]: "dec m = dec n \<longleftrightarrow> m = n"
  by (metis undec_dec)

text \<open>Fields joined by a separator that the first ones do not contain can be told apart.\<close>

lemma append_sep_inj:
  "\<forall>c \<in> set xs. c \<noteq> d \<Longrightarrow> \<forall>c \<in> set ys. c \<noteq> d \<Longrightarrow> xs @ d # us = ys @ d # vs \<longleftrightarrow> xs = ys \<and> us = vs"
proof (induction xs arbitrary: ys)
  case Nil
  then show ?case by (cases ys) auto
next
  case (Cons x xs)
  then show ?case by (cases ys) auto
qed

lemma dec_no_dash: "\<forall>c \<in> set (dec n). c \<noteq> CHR ''-''"
proof -
  have "to_digit10 CHR ''-'' = None"
    by code_simp
  then show ?thesis
    using dec_digits by blast
qed

subsection \<open>White space: \<open>str::trim\<close>\<close>

text \<open>
  The UTF-8 encodings of the code points with the Unicode property \<open>White_Space\<close>, by length:
  U+0009 to U+000D and U+0020; U+0085 and U+00A0; U+1680, U+2000 to U+200A, U+2028, U+2029,
  U+202F, U+205F and U+3000.
\<close>

definition ws1 :: "char \<Rightarrow> bool" where
  "ws1 a = (let x = of_char a :: nat in (9 \<le> x \<and> x \<le> 13) \<or> x = 32)"

definition ws2 :: "char \<Rightarrow> char \<Rightarrow> bool" where
  "ws2 a b = (let x = of_char a :: nat; y = of_char b :: nat in x = 194 \<and> (y = 133 \<or> y = 160))"

definition ws3 :: "char \<Rightarrow> char \<Rightarrow> char \<Rightarrow> bool" where
  "ws3 a b c = (let x = of_char a :: nat; y = of_char b :: nat; z = of_char c :: nat in
     (x = 225 \<and> y = 154 \<and> z = 128)
   \<or> (x = 226 \<and> y = 128 \<and> ((128 \<le> z \<and> z \<le> 138) \<or> z = 168 \<or> z = 169 \<or> z = 175))
   \<or> (x = 226 \<and> y = 129 \<and> z = 159)
   \<or> (x = 227 \<and> y = 128 \<and> z = 128))"

fun trim_start :: "string \<Rightarrow> string" where
  "trim_start [] = []"
| "trim_start (a # s) =
     (if ws1 a then trim_start s
      else case s of
        [] \<Rightarrow> a # s
      | b # s2 \<Rightarrow>
          (if ws2 a b then trim_start s2
           else case s2 of
             [] \<Rightarrow> a # s
           | c # s3 \<Rightarrow> (if ws3 a b c then trim_start s3 else a # s)))"

text \<open>\<open>s.trim().is_empty()\<close>: nothing is left once leading white space is gone.\<close>

definition is_blank :: "string \<Rightarrow> bool" where
  "is_blank s = (trim_start s = [])"

lemma is_blank_Nil [simp]: "is_blank []"
  by (simp add: is_blank_def)

lemma not_blank_ascii: "\<not> ws1 a \<Longrightarrow> (of_char a :: nat) < 128 \<Longrightarrow> \<not> is_blank (a # s)"
  by (auto simp: is_blank_def ws2_def ws3_def Let_def split: list.splits)

text \<open>\<open>str::trim_end\<close> on the reversed bytes, and \<open>str::trim\<close>.\<close>

fun trim_rev :: "string \<Rightarrow> string" where
  "trim_rev [] = []"
| "trim_rev (a # s) =
     (if ws1 a then trim_rev s
      else case s of
        [] \<Rightarrow> a # s
      | b # s2 \<Rightarrow>
          (if ws2 b a then trim_rev s2
           else case s2 of
             [] \<Rightarrow> a # s
           | c # s3 \<Rightarrow> (if ws3 c b a then trim_rev s3 else a # s)))"

definition trim :: "string \<Rightarrow> string" where
  "trim s = rev (trim_rev (rev (trim_start s)))"

lemma set_trim_rev: "set (trim_rev s) \<subseteq> set s"
proof (induction "length s" arbitrary: s rule: less_induct)
  case less
  consider "s = []" | a where "s = [a]" | a b where "s = [a, b]" | a b c t where "s = a # b # c # t"
    by (cases s; cases "tl s"; cases "tl (tl s)") auto
  then show ?case
  proof cases
    case (4 a b c t)
    then show ?thesis
      using less.hyps [of "b # c # t"] less.hyps [of "c # t"] less.hyps [of t] by auto
  next
    case (3 a b)
    then show ?thesis
      using less.hyps [of "[b]"] less.hyps [of "[]"] by auto
  qed auto
qed

lemma set_trim_start: "set (trim_start s) \<subseteq> set s"
proof (induction "length s" arbitrary: s rule: less_induct)
  case less
  consider "s = []" | a where "s = [a]" | a b where "s = [a, b]" | a b c t where "s = a # b # c # t"
    by (cases s; cases "tl s"; cases "tl (tl s)") auto
  then show ?case
  proof cases
    case (4 a b c t)
    then show ?thesis
      using less.hyps [of "b # c # t"] less.hyps [of "c # t"] less.hyps [of t] by auto
  next
    case (3 a b)
    then show ?thesis
      using less.hyps [of "[b]"] less.hyps [of "[]"] by auto
  qed auto
qed

lemma set_trim: "set (trim s) \<subseteq> set s"
  using set_trim_rev [of "rev (trim_start s)"] set_trim_start [of s] by (auto simp: trim_def)

subsection \<open>Text: ASCII case, \<open>starts_with\<close> and \<open>ends_with\<close>\<close>

definition ascii_upper :: "char \<Rightarrow> bool" where
  "ascii_upper c = (let x = of_char c :: nat in 65 \<le> x \<and> x \<le> 90)"

definition to_lower :: "string \<Rightarrow> string" where
  "to_lower s = map (\<lambda>c. if ascii_upper c then char_of ((of_char c :: nat) + 32) else c) s"

definition eq_ignore_case :: "string \<Rightarrow> string \<Rightarrow> bool" where
  "eq_ignore_case a b \<longleftrightarrow> to_lower a = to_lower b"

definition starts_with :: "string \<Rightarrow> string \<Rightarrow> bool" where
  "starts_with pre s \<longleftrightarrow> take (length pre) s = pre"

definition ends_with :: "string \<Rightarrow> string \<Rightarrow> bool" where
  "ends_with suf s \<longleftrightarrow> starts_with (rev suf) (rev s)"

subsection \<open>Lists\<close>

lemma list_all_filter_subset: "set (filter P xs) \<subseteq> set xs"
  by auto

lemma distinct_map_filter: "distinct (map f xs) \<Longrightarrow> distinct (map f (filter P xs))"
  by (induction xs) auto

subsection \<open>Splitting and joining\<close>

text \<open>\<open>str::split\<close> at one character.\<close>

fun split_on :: "char \<Rightarrow> string \<Rightarrow> string list" where
  "split_on c [] = [[]]"
| "split_on c (x # s) =
     (if x = c then [] # split_on c s
      else (case split_on c s of y # ys \<Rightarrow> (x # y) # ys | [] \<Rightarrow> [[x]]))"

lemma split_on_not_Nil [simp]: "split_on c s \<noteq> []"
  by (induction s) (auto split: list.split)

lemma split_on_cons: "x \<noteq> c \<Longrightarrow> split_on c (x # s) = (x # hd (split_on c s)) # tl (split_on c s)"
  by (cases "split_on c s") simp_all

lemma split_on_none: "c \<notin> set l \<Longrightarrow> split_on c l = [l]"
  by (induction l) (auto simp: split_on_cons)

lemma split_on_piece: "c \<notin> set l \<Longrightarrow> split_on c (l @ c # s) = l # split_on c s"
  by (induction l) (auto simp: split_on_cons)

fun join_on :: "char \<Rightarrow> string list \<Rightarrow> string" where
  "join_on c [] = []"
| "join_on c [x] = x"
| "join_on c (x # y # xs) = x @ c # join_on c (y # xs)"

lemma join_split [simp]: "join_on c (split_on c s) = s"
proof (induction s)
  case (Cons x s)
  obtain y ys where y: "split_on c s = y # ys"
    by (cases "split_on c s") simp_all
  then show ?case
    using Cons by (cases ys) auto
qed simp

end
