(* ===== verification/PlanModel.thy ===== *)
theory PlanModel
  imports Prelude
begin

text \<open>
  The plan aggregate: the canonical types of \<open>crates/domain/src/workflow.rs\<close> that a plan uses
  (step and review status, step snapshots, comment anchors, the eight plan events) and the
  event-sourcing fold of \<open>crates/workflow/src/plan/state.rs\<close> (\<open>apply\<close> and \<open>replay\<close>).
\<close>

subsection \<open>Domain types\<close>

datatype plan_step_status = StepPending | StepInProgress | StepCompleted | StepBlocked

datatype plan_review_status = Draft | InReview | ChangesRequested | Approved | Rejected

record plan_step =
  step_id :: string
  step_text :: string
  step_status :: plan_step_status

record plan_comment_anchor =
  anchor_step_id :: string
  anchor_line_offset :: "32 word option"
  anchor_file :: "string option"
  anchor_file_line :: "32 word option"

text \<open>
  \<open>PlanEvent\<close>: the fields are in the order of the Rust variants. Every event carries the plan
  id first; the version, where there is one, second.
\<close>

datatype plan_event =
    PlanCreated string string string "plan_step list"
  | PlanStepUpdated string string plan_step_status "string option"
  | PlanReplaced string string string string "plan_step list"
  | PlanReviewRequested string string
  | PlanRevised string string string string "plan_step list"
  | PlanApproved string string "string option"
  | PlanRejected string string string
  | PlanCommentAdded string string plan_comment_anchor string

subsection \<open>Aggregate state\<close>

record plan_comment =
  comment_anchor :: plan_comment_anchor
  comment_body :: string

record plan_version_info =
  vi_version :: string
  vi_parent :: "string option"
  vi_title :: string
  vi_steps :: "plan_step list"

record plan_state =
  ps_plan_id :: "string option"
  ps_title :: "string option"
  ps_steps :: "plan_step list"
  ps_current_version :: "string option"
  ps_parent_version :: "string option"
  ps_history :: "plan_version_info list"
  ps_review_status :: plan_review_status
  ps_comments :: "plan_comment list"
  ps_approved_checkpoint :: "string option"

text \<open>\<open>PlanState::default()\<close>.\<close>

definition plan_state_default :: plan_state where
  "plan_state_default =
     \<lparr>ps_plan_id = None, ps_title = None, ps_steps = [], ps_current_version = None,
      ps_parent_version = None, ps_history = [], ps_review_status = Draft, ps_comments = [],
      ps_approved_checkpoint = None\<rparr>"

record plan_snapshot =
  snap_plan_id :: string
  snap_version :: string
  snap_title :: string
  snap_steps :: "plan_step list"
  snap_review_status :: plan_review_status
  snap_comments :: "plan_comment list"
  snap_approved_checkpoint :: "string option"

text \<open>\<open>PlanState::snapshot\<close>: nothing before the plan and its version exist.\<close>

definition plan_state_snapshot :: "plan_state \<Rightarrow> plan_snapshot option" where
  "plan_state_snapshot s =
     (case ps_plan_id s of
        None \<Rightarrow> None
      | Some p \<Rightarrow>
          (case ps_current_version s of
             None \<Rightarrow> None
           | Some v \<Rightarrow>
               Some \<lparr>snap_plan_id = p, snap_version = v,
                     snap_title = (case ps_title s of None \<Rightarrow> [] | Some t \<Rightarrow> t),
                     snap_steps = ps_steps s, snap_review_status = ps_review_status s,
                     snap_comments = ps_comments s,
                     snap_approved_checkpoint = ps_approved_checkpoint s\<rparr>))"

subsection \<open>The fold\<close>

text \<open>\<open>step_mut\<close> finds the first step with the id; the update changes its status only.\<close>

fun set_step_status :: "string \<Rightarrow> plan_step_status \<Rightarrow> plan_step list \<Rightarrow> plan_step list" where
  "set_step_status i st [] = []"
| "set_step_status i st (x # xs) =
     (if step_id x = i then x\<lparr>step_status := st\<rparr> # xs else x # set_step_status i st xs)"

fun next_review_round :: "plan_review_status \<Rightarrow> plan_review_status" where
  "next_review_round Draft = InReview"
| "next_review_round InReview = ChangesRequested"
| "next_review_round other = other"

fun plan_apply :: "plan_event \<Rightarrow> plan_state \<Rightarrow> plan_state" where
  "plan_apply (PlanCreated p v t ss) s =
     s\<lparr>ps_plan_id := Some p, ps_title := Some t, ps_steps := ss,
       ps_current_version := Some v, ps_parent_version := None,
       ps_history := [\<lparr>vi_version = v, vi_parent = None, vi_title = t, vi_steps = ss\<rparr>],
       ps_review_status := Draft, ps_comments := [], ps_approved_checkpoint := None\<rparr>"
| "plan_apply (PlanStepUpdated p i st note) s =
     s\<lparr>ps_steps := set_step_status i st (ps_steps s)\<rparr>"
| "plan_apply (PlanReplaced p v pv t ss) s =
     s\<lparr>ps_title := Some t, ps_steps := ss, ps_current_version := Some v,
       ps_parent_version := Some pv,
       ps_history := ps_history s @ [\<lparr>vi_version = v, vi_parent = Some pv, vi_title = t, vi_steps = ss\<rparr>],
       ps_review_status := Draft, ps_comments := [], ps_approved_checkpoint := None\<rparr>"
| "plan_apply (PlanReviewRequested p v) s =
     (if ps_current_version s = Some v
      then s\<lparr>ps_review_status := next_review_round (ps_review_status s)\<rparr> else s)"
| "plan_apply (PlanRevised p v pv t ss) s =
     (let s1 = s\<lparr>ps_title := Some t, ps_steps := ss, ps_current_version := Some v,
                ps_parent_version := Some pv, ps_review_status := Draft,
                ps_approved_checkpoint := None\<rparr>
      in if list_ex (\<lambda>h. vi_version h = v) (ps_history s1) then s1
         else s1\<lparr>ps_history := ps_history s1 @
                   [\<lparr>vi_version = v, vi_parent = Some pv, vi_title = t, vi_steps = ss\<rparr>]\<rparr>)"
| "plan_apply (PlanApproved p v ck) s =
     (if ps_current_version s = Some v
      then s\<lparr>ps_review_status := Approved, ps_approved_checkpoint := ck\<rparr> else s)"
| "plan_apply (PlanRejected p v r) s =
     (if ps_current_version s = Some v
      then s\<lparr>ps_review_status := Rejected, ps_approved_checkpoint := None\<rparr> else s)"
| "plan_apply (PlanCommentAdded p v a b) s =
     s\<lparr>ps_comments := ps_comments s @ [\<lparr>comment_anchor = a, comment_body = b\<rparr>]\<rparr>"

definition plan_replay :: "plan_event list \<Rightarrow> plan_state" where
  "plan_replay es = fold plan_apply es plan_state_default"

subsection \<open>What every fold keeps\<close>

text \<open>
  Well-formedness of a folded state: the plan id and the title come with the version, the
  current version is one of the history's, and a checkpoint is recorded for an approved plan
  only.
\<close>

definition plan_state_wf :: "plan_state \<Rightarrow> bool" where
  "plan_state_wf s \<longleftrightarrow>
     (\<forall>v. ps_current_version s = Some v \<longrightarrow> v \<in> vi_version ` set (ps_history s)) \<and>
     (ps_current_version s = None \<longrightarrow> ps_history s = [] \<and> ps_plan_id s = None) \<and>
     (ps_approved_checkpoint s \<noteq> None \<longrightarrow> ps_review_status s = Approved)"

lemma plan_state_wf_default: "plan_state_wf plan_state_default"
  by (simp add: plan_state_wf_def plan_state_default_def)

lemma plan_apply_wf: "plan_state_wf s \<Longrightarrow> plan_state_wf (plan_apply e s)"
proof (cases e)
  case (PlanReviewRequested p v)
  then show "plan_state_wf s \<Longrightarrow> ?thesis"
    by (cases "ps_review_status s") (auto simp: plan_state_wf_def)
qed (auto simp: plan_state_wf_def Let_def list_ex_iff image_iff)

lemma plan_fold_wf: "plan_state_wf s \<Longrightarrow> plan_state_wf (fold plan_apply es s)"
  by (induction es arbitrary: s) (auto intro: plan_apply_wf)

text \<open>A content event (created, replaced or revised) always leaves the plan unapproved.\<close>

fun is_content_event :: "plan_event \<Rightarrow> bool" where
  "is_content_event (PlanCreated _ _ _ _) = True"
| "is_content_event (PlanReplaced _ _ _ _ _) = True"
| "is_content_event (PlanRevised _ _ _ _ _) = True"
| "is_content_event _ = False"

lemma content_event_resets:
  "is_content_event e \<Longrightarrow>
     ps_review_status (plan_apply e s) = Draft \<and> ps_approved_checkpoint (plan_apply e s) = None"
  by (cases e) (auto simp: Let_def)

lemma plan_apply_approvedD:
  assumes "ps_review_status (plan_apply e s) = Approved" and "ps_review_status s \<noteq> Approved"
  shows "\<exists>p v ck. e = PlanApproved p v ck \<and> ps_current_version s = Some v"
proof (cases e)
  case (PlanReviewRequested p v)
  with assms show ?thesis
    by (cases "ps_review_status s") (auto split: if_splits)
qed (use assms in \<open>auto simp: Let_def split: if_splits\<close>)

end
