(* ===== verification/EventSourcing.thy ===== *)
theory EventSourcing
  imports Prelude
begin

text \<open>
  The event-sourcing contract that the plan service and the background task manager share:
  a command is either rejected, leaving the state as it is, or accepted, returning the new
  state and the events to persist; folding those events over a view of the old state gives
  the view of the new one. The locale proves once that replaying the persisted log rebuilds
  the view of the live state.
\<close>

text \<open>A caller that issues commands one by one and appends the returned events to a log.\<close>

fun run_cmds ::
  "('s \<Rightarrow> 'c \<Rightarrow> ('err, 's \<times> 'e list) result) \<Rightarrow> 's \<times> 'e list \<Rightarrow> 'c list \<Rightarrow> 's \<times> 'e list" where
  "run_cmds exec sl [] = sl"
| "run_cmds exec (s, l) (c # cs) =
     (case exec s c of
        Inl _ \<Rightarrow> run_cmds exec (s, l) cs
      | Inr (s', es) \<Rightarrow> run_cmds exec (s', l @ es) cs)"

lemma run_cmds_append: "run_cmds exec sl (cs @ ds) = run_cmds exec (run_cmds exec sl cs) ds"
  by (induction exec sl cs rule: run_cmds.induct) (auto split: sum.splits)

text \<open>An invariant of states and logs that every accepted command keeps holds after any run.\<close>

lemma run_cmds_invariant:
  assumes step: "\<And>s l c s' es. I s l \<Longrightarrow> exec s c = Inr (s', es) \<Longrightarrow> I s' (l @ es)"
    and init: "I s l"
    and run: "run_cmds exec (s, l) cs = (s', l')"
  shows "I s' l'"
  using init run
proof (induction cs arbitrary: s l)
  case Nil
  then show ?case by simp
next
  case (Cons c cs)
  show ?case
  proof (cases "exec s c")
    case (Inl e)
    with Cons show ?thesis by simp
  next
    case (Inr r)
    obtain t es where r: "r = (t, es)" by force
    have "I t (l @ es)"
      using Cons.prems(1) Inr unfolding r by (rule step)
    then show ?thesis
      by (rule Cons.IH) (use Cons.prems(2) Inr in \<open>simp add: r\<close>)
  qed
qed

locale event_sourced =
  fixes exec :: "'s \<Rightarrow> 'c \<Rightarrow> ('err, 's \<times> 'e list) result"
    and view :: "'s \<Rightarrow> 'v"
    and foldev :: "'e \<Rightarrow> 'v \<Rightarrow> 'v"
    and inv :: "'s \<Rightarrow> bool"
    and initial :: "'s"
  assumes inv_initial: "inv initial"
    and inv_exec: "inv s \<Longrightarrow> exec s c = Inr (s', es) \<Longrightarrow> inv s'"
    and view_exec: "inv s \<Longrightarrow> exec s c = Inr (s', es) \<Longrightarrow> view s' = fold foldev es (view s)"
begin

lemma run_inv_view:
  assumes "run_cmds exec (initial, []) cs = (s, l)"
  shows "inv s \<and> view s = fold foldev l (view initial)"
proof (rule run_cmds_invariant [where I = "\<lambda>s l. inv s \<and> view s = fold foldev l (view initial)", OF _ _ assms])
  show "inv initial \<and> view initial = fold foldev [] (view initial)"
    by (simp add: inv_initial)
next
  fix s l c s' es
  assume "inv s \<and> view s = fold foldev l (view initial)" and "exec s c = Inr (s', es)"
  then show "inv s' \<and> view s' = fold foldev (l @ es) (view initial)"
    using inv_exec [of s c s' es] view_exec [of s c s' es] by simp
qed

lemma run_inv: "run_cmds exec (initial, []) cs = (s, l) \<Longrightarrow> inv s"
  using run_inv_view by blast

lemma replay_rebuilds: "run_cmds exec (initial, []) cs = (s, l) \<Longrightarrow> fold foldev l (view initial) = view s"
  using run_inv_view by simp

end

end
