(* ===== verification/PlanService.thy ===== *)
theory PlanService
  imports PlanModel EventSourcing
begin

text \<open>
  The command side of the plan: \<open>crates/workflow/src/plan/service.rs\<close>. Each command checks the
  state machine, builds one event, applies it to the state and returns it for persistence. The
  mutex around the state makes every command atomic; a command is a function from the service's
  inner state to an error or to the new inner state and the event. The three counters are
  \<open>u64\<close>: their increment wraps here, as in a release build (a debug build panics there).
\<close>

datatype plan_error =
    AlreadyExists string
  | NotCreated
  | EmptyPlan
  | EmptyStepText
  | IllegalReviewTransition plan_review_status plan_review_status
  | VersionMismatch string string
  | PlanIdMismatch string string
  | EmptyReason

record plan_service =
  svc_state :: plan_state
  svc_next_plan :: u64
  svc_next_version :: u64
  svc_next_step :: u64

definition plan_service_new :: plan_service where
  "plan_service_new =
     \<lparr>svc_state = plan_state_default, svc_next_plan = 1, svc_next_version = 1, svc_next_step = 1\<rparr>"

subsection \<open>Identifiers\<close>

definition render_id :: "string \<Rightarrow> u64 \<Rightarrow> string" where
  "render_id prefix n = prefix @ dec (unat n)"

text \<open>\<open>suffix\<close>: the decimal digits at the end of an id, read from the right.\<close>

fun suffix_go :: "nat \<Rightarrow> nat \<Rightarrow> string \<Rightarrow> nat" where
  "suffix_go acc mult [] = acc"
| "suffix_go acc mult (c # cs) =
     (case to_digit10 c of
        Some d \<Rightarrow> suffix_go (sat_add acc (sat_mul d mult)) (sat_mul mult 10) cs
      | None \<Rightarrow> acc)"

definition suffix_num :: "string \<Rightarrow> nat" where
  "suffix_num s = suffix_go 0 1 (rev s)"

fun build_steps :: "u64 \<Rightarrow> string list \<Rightarrow> plan_step list \<times> u64" where
  "build_steps n [] = ([], n)"
| "build_steps n (t # ts) =
     (let (ss, n') = build_steps (n + 1) ts
      in (\<lparr>step_id = render_id ''step_'' n, step_text = t, step_status = StepPending\<rparr> # ss, n'))"

subsection \<open>Commands\<close>

definition check_texts :: "string list \<Rightarrow> plan_error option" where
  "check_texts ts =
     (if ts = [] then Some EmptyPlan
      else if list_ex is_blank ts then Some EmptyStepText else None)"

definition create_plan ::
  "string \<Rightarrow> string list \<Rightarrow> plan_service \<Rightarrow> (plan_error, plan_service \<times> plan_event) result" where
  "create_plan title ts sv =
     (case check_texts ts of
        Some e \<Rightarrow> Inl e
      | None \<Rightarrow>
          (case ps_plan_id (svc_state sv) of
             Some p \<Rightarrow> Inl (AlreadyExists p)
           | None \<Rightarrow>
               (let p = render_id ''plan_'' (svc_next_plan sv);
                    v = render_id ''planver_'' (svc_next_version sv);
                    (ss, n) = build_steps (svc_next_step sv) ts;
                    ev = PlanCreated p v title ss
                in Inr (\<lparr>svc_state = plan_apply ev (svc_state sv),
                         svc_next_plan = svc_next_plan sv + 1,
                         svc_next_version = svc_next_version sv + 1,
                         svc_next_step = n\<rparr>, ev))))"

definition replace_plan ::
  "string \<Rightarrow> string list \<Rightarrow> plan_service \<Rightarrow> (plan_error, plan_service \<times> plan_event) result" where
  "replace_plan title ts sv =
     (case check_texts ts of
        Some e \<Rightarrow> Inl e
      | None \<Rightarrow>
          (case ps_plan_id (svc_state sv) of
             None \<Rightarrow> Inl NotCreated
           | Some p \<Rightarrow>
               (case ps_current_version (svc_state sv) of
                  None \<Rightarrow> Inl NotCreated
                | Some pv \<Rightarrow>
                    (let v = render_id ''planver_'' (svc_next_version sv);
                         (ss, n) = build_steps (svc_next_step sv) ts;
                         ev = PlanReplaced p v pv title ss
                     in Inr (sv\<lparr>svc_state := plan_apply ev (svc_state sv),
                               svc_next_version := svc_next_version sv + 1,
                               svc_next_step := n\<rparr>, ev)))))"

definition check_current_version :: "plan_state \<Rightarrow> string \<Rightarrow> plan_error option" where
  "check_current_version s v =
     (case ps_current_version s of
        None \<Rightarrow> Some NotCreated
      | Some cur \<Rightarrow> if cur \<noteq> v then Some (VersionMismatch cur v) else None)"

definition check_plan_version :: "plan_state \<Rightarrow> string \<Rightarrow> string \<Rightarrow> plan_error option" where
  "check_plan_version s p v =
     (case ps_plan_id s of
        None \<Rightarrow> Some NotCreated
      | Some cur \<Rightarrow> if cur \<noteq> p then Some (PlanIdMismatch cur p) else check_current_version s v)"

definition commit_plan_event ::
  "plan_event \<Rightarrow> plan_service \<Rightarrow> (plan_error, plan_service \<times> plan_event) result" where
  "commit_plan_event ev sv = Inr (sv\<lparr>svc_state := plan_apply ev (svc_state sv)\<rparr>, ev)"

definition request_review ::
  "string \<Rightarrow> plan_service \<Rightarrow> (plan_error, plan_service \<times> plan_event) result" where
  "request_review v sv =
     (let s = svc_state sv in
      case ps_plan_id s of
        None \<Rightarrow> Inl NotCreated
      | Some p \<Rightarrow>
          (case check_current_version s v of
             Some e \<Rightarrow> Inl e
           | None \<Rightarrow>
               (if ps_review_status s \<noteq> Draft
                then Inl (IllegalReviewTransition (ps_review_status s) InReview)
                else commit_plan_event (PlanReviewRequested p v) sv)))"

definition decidable_review :: "plan_review_status \<Rightarrow> bool" where
  "decidable_review st \<longleftrightarrow> st = InReview \<or> st = ChangesRequested"

definition approve ::
  "string \<Rightarrow> string \<Rightarrow> string option \<Rightarrow> plan_service \<Rightarrow>
     (plan_error, plan_service \<times> plan_event) result" where
  "approve p v ck sv =
     (let s = svc_state sv in
      case check_plan_version s p v of
        Some e \<Rightarrow> Inl e
      | None \<Rightarrow>
          (if \<not> decidable_review (ps_review_status s)
           then Inl (IllegalReviewTransition (ps_review_status s) Approved)
           else commit_plan_event (PlanApproved p v ck) sv))"

definition reject ::
  "string \<Rightarrow> string \<Rightarrow> string \<Rightarrow> plan_service \<Rightarrow>
     (plan_error, plan_service \<times> plan_event) result" where
  "reject p v reason sv =
     (if is_blank reason then Inl EmptyReason
      else
        (let s = svc_state sv in
         case check_plan_version s p v of
           Some e \<Rightarrow> Inl e
         | None \<Rightarrow>
             (if \<not> decidable_review (ps_review_status s)
              then Inl (IllegalReviewTransition (ps_review_status s) Rejected)
              else commit_plan_event (PlanRejected p v reason) sv)))"

definition is_approved_for_execution :: "plan_service \<Rightarrow> string \<Rightarrow> string \<Rightarrow> bool" where
  "is_approved_for_execution sv p v \<longleftrightarrow>
     ps_plan_id (svc_state sv) = Some p \<and>
     ps_current_version (svc_state sv) = Some v \<and>
     ps_review_status (svc_state sv) = Approved"

subsection \<open>The command alphabet\<close>

datatype plan_command =
    CreatePlan string "string list"
  | ReplacePlan string "string list"
  | RequestReview string
  | Approve string string "string option"
  | Reject string string string

definition one_event :: "('e, 's \<times> 'ev) result \<Rightarrow> ('e, 's \<times> 'ev list) result" where
  "one_event r = (case r of Inl e \<Rightarrow> Inl e | Inr (s, ev) \<Rightarrow> Inr (s, [ev]))"

lemma one_event_InrE:
  assumes "one_event r = Inr (s, es)"
  obtains ev where "r = Inr (s, ev)" "es = [ev]"
  using assms by (auto simp: one_event_def split: sum.splits prod.splits)

fun plan_exec ::
  "plan_service \<Rightarrow> plan_command \<Rightarrow> (plan_error, plan_service \<times> plan_event list) result" where
  "plan_exec sv (CreatePlan t ts) = one_event (create_plan t ts sv)"
| "plan_exec sv (ReplacePlan t ts) = one_event (replace_plan t ts sv)"
| "plan_exec sv (RequestReview v) = one_event (request_review v sv)"
| "plan_exec sv (Approve p v ck) = one_event (approve p v ck sv)"
| "plan_exec sv (Reject p v r) = one_event (reject p v r sv)"

text \<open>An accepted command, by cases: which event it returns and under which guard.\<close>

lemma create_planE:
  assumes "create_plan t ts sv = Inr (sv', e)"
  obtains ss where "check_texts ts = None" "ps_plan_id (svc_state sv) = None"
    "fst (build_steps (svc_next_step sv) ts) = ss"
    "e = PlanCreated (render_id ''plan_'' (svc_next_plan sv)) (render_id ''planver_'' (svc_next_version sv)) t ss"
    "svc_state sv' = plan_apply e (svc_state sv)"
  using assms
  by (auto simp: create_plan_def Let_def split: option.splits prod.splits)

lemma replace_planE:
  assumes "replace_plan t ts sv = Inr (sv', e)"
  obtains p pv ss where "check_texts ts = None" "ps_plan_id (svc_state sv) = Some p"
    "ps_current_version (svc_state sv) = Some pv"
    "fst (build_steps (svc_next_step sv) ts) = ss"
    "e = PlanReplaced p (render_id ''planver_'' (svc_next_version sv)) pv t ss"
    "svc_state sv' = plan_apply e (svc_state sv)"
  using assms
  by (auto simp: replace_plan_def Let_def split: option.splits prod.splits)

lemma request_reviewE:
  assumes "request_review v sv = Inr (sv', e)"
  obtains p where "ps_plan_id (svc_state sv) = Some p" "ps_current_version (svc_state sv) = Some v"
    "ps_review_status (svc_state sv) = Draft" "e = PlanReviewRequested p v"
    "sv' = sv\<lparr>svc_state := plan_apply e (svc_state sv)\<rparr>"
  using assms
  by (auto simp: request_review_def check_current_version_def commit_plan_event_def Let_def
      split: option.splits if_splits)

lemma approveE:
  assumes "approve p v ck sv = Inr (sv', e)"
  obtains "ps_plan_id (svc_state sv) = Some p" "ps_current_version (svc_state sv) = Some v"
    "decidable_review (ps_review_status (svc_state sv))" "e = PlanApproved p v ck"
    "sv' = sv\<lparr>svc_state := plan_apply e (svc_state sv)\<rparr>"
  using assms
  by (auto simp: approve_def check_plan_version_def check_current_version_def
      commit_plan_event_def Let_def split: option.splits if_splits)

lemma rejectE:
  assumes "reject p v r sv = Inr (sv', e)"
  obtains "ps_plan_id (svc_state sv) = Some p" "ps_current_version (svc_state sv) = Some v"
    "decidable_review (ps_review_status (svc_state sv))" "e = PlanRejected p v r"
    "\<not> is_blank r"
    "sv' = sv\<lparr>svc_state := plan_apply e (svc_state sv)\<rparr>"
  using assms
  by (auto simp: reject_def check_plan_version_def check_current_version_def
      commit_plan_event_def Let_def split: option.splits if_splits)

lemma plan_execE:
  assumes "plan_exec sv c = Inr (sv', es)"
  obtains (content) e where "es = [e]" "is_content_event e" "svc_state sv' = plan_apply e (svc_state sv)"
  | (review) p v where "es = [PlanReviewRequested p v]" "ps_plan_id (svc_state sv) = Some p"
      "ps_current_version (svc_state sv) = Some v" "ps_review_status (svc_state sv) = Draft"
      "svc_state sv' = plan_apply (PlanReviewRequested p v) (svc_state sv)"
  | (decide) p v e where "es = [e]" "ps_plan_id (svc_state sv) = Some p"
      "ps_current_version (svc_state sv) = Some v"
      "decidable_review (ps_review_status (svc_state sv))"
      "(\<exists>ck. e = PlanApproved p v ck) \<or> (\<exists>r. e = PlanRejected p v r \<and> \<not> is_blank r)"
      "svc_state sv' = plan_apply e (svc_state sv)"
  using assms
  by (cases c)
    (auto elim!: one_event_InrE create_planE replace_planE request_reviewE approveE rejectE)

lemma plan_exec_apply:
  assumes "plan_exec sv c = Inr (sv', es)"
  shows "svc_state sv' = fold plan_apply es (svc_state sv)"
  using assms by (rule plan_execE) auto

text \<open>The plan service meets the event-sourcing contract, viewed through its aggregate state.\<close>

interpretation plan: event_sourced plan_exec svc_state plan_apply
  "\<lambda>sv. plan_state_wf (svc_state sv)" plan_service_new
proof
  show "plan_state_wf (svc_state plan_service_new)"
    by (simp add: plan_service_new_def plan_state_wf_default)
next
  show "plan_state_wf (svc_state sv')"
    if "plan_state_wf (svc_state sv)" "plan_exec sv c = Inr (sv', es)" for sv sv' c es
    using that by (simp add: plan_exec_apply plan_fold_wf)
qed (rule plan_exec_apply)

subsection \<open>Restart: counters from the log\<close>

fun max_suffix :: "nat \<Rightarrow> plan_step list \<Rightarrow> nat" where
  "max_suffix m [] = m"
| "max_suffix m (s # ss) = max_suffix (max m (suffix_num (step_id s))) ss"

fun seed_event :: "plan_event \<Rightarrow> nat \<times> nat \<times> nat \<Rightarrow> nat \<times> nat \<times> nat" where
  "seed_event (PlanCreated p v t ss) (a, b, c) =
     (max a (suffix_num p), max b (suffix_num v), max_suffix c ss)"
| "seed_event (PlanReplaced p v pv t ss) (a, b, c) = (a, max b (suffix_num v), max_suffix c ss)"
| "seed_event (PlanRevised p v pv t ss) (a, b, c) = (a, max b (suffix_num v), max_suffix c ss)"
| "seed_event (PlanReviewRequested p v) (a, b, c) = (a, max b (suffix_num v), c)"
| "seed_event (PlanApproved p v ck) (a, b, c) = (a, max b (suffix_num v), c)"
| "seed_event (PlanRejected p v r) (a, b, c) = (a, max b (suffix_num v), c)"
| "seed_event (PlanCommentAdded p v an bd) (a, b, c) = (a, max b (suffix_num v), c)"
| "seed_event (PlanStepUpdated p i st n) (a, b, c) = (a, b, c)"

definition seed_counters :: "plan_event list \<Rightarrow> nat \<times> nat \<times> nat" where
  "seed_counters es = fold seed_event es (0, 0, 0)"

definition plan_from_events :: "plan_event list \<Rightarrow> plan_service" where
  "plan_from_events es =
     (let (a, b, c) = seed_counters es
      in \<lparr>svc_state = plan_replay es,
          svc_next_plan = word_of_nat a + 1,
          svc_next_version = word_of_nat b + 1,
          svc_next_step = word_of_nat c + 1\<rparr>)"

end
