(* ===== verification/PlanProps.thy ===== *)
theory PlanProps
  imports PlanService
begin

text \<open>
  Properties of the plan component: the execution gate opens only on a reviewed and approved
  version, replaying the log rebuilds the live aggregate, ids issued after a restart are fresh,
  and the numeric suffix of a rendered id is the counter it was rendered from.
\<close>

subsection \<open>Rendered ids parse back\<close>

lemma suffix_go_dec:
  "acc + n * 10 ^ k \<le> u64_max \<Longrightarrow> rest = [] \<or> to_digit10 (hd rest) = None \<Longrightarrow>
     suffix_go acc (10 ^ k) (rev (dec n) @ rest) = acc + n * 10 ^ k"
proof (induction n arbitrary: acc k rule: dec.induct)
  case (1 n)
  show ?case
  proof (cases "n < 10")
    case True
    have "suffix_go x m rest = x" for x m
      using "1.prems"(2) by (cases rest) auto
    with True "1.prems"(1) show ?thesis
      by (simp add: dec.simps [of n] sat_mul_exact sat_add_exact)
  next
    case False
    let ?d = "n mod 10" and ?q = "n div 10"
    have split: "n * 10 ^ k = ?d * 10 ^ k + ?q * 10 ^ (k + 1)"
    proof -
      have "(d + 10 * q) * 10 ^ k = d * 10 ^ k + q * 10 ^ (k + 1)" for d q :: nat
        by (simp add: algebra_simps)
      from this [of ?d ?q] show ?thesis by simp
    qed
    have "10 ^ (k + 1) \<le> ?q * 10 ^ (k + 1)"
      using False by (simp add: div_greater_zero_iff Suc_leI)
    then have "10 ^ (k + 1) \<le> u64_max"
      using split "1.prems"(1) by linarith
    then have mult: "(10 :: nat) ^ k * 10 \<le> u64_max"
      by simp
    have step: "acc + ?d * 10 ^ k + ?q * 10 ^ (k + 1) \<le> u64_max"
      using split "1.prems"(1) by linarith
    then have "suffix_go acc (10 ^ k) (rev (dec n) @ rest)
      = suffix_go (acc + ?d * 10 ^ k) (10 ^ (k + 1)) (rev (dec ?q) @ rest)"
      using False mult
      by (simp add: dec.simps [of n] sat_mul_exact sat_add_exact mult.commute)
    also have "\<dots> = acc + ?d * 10 ^ k + ?q * 10 ^ (k + 1)"
      by (rule "1.IH" [OF False step "1.prems"(2)])
    finally show ?thesis using split by simp
  qed
qed

lemma suffix_num_dec:
  assumes "n \<le> u64_max" and "prefix = [] \<or> to_digit10 (last prefix) = None"
  shows "suffix_num (prefix @ dec n) = n"
proof -
  have "suffix_go 0 (10 ^ 0) (rev (dec n) @ rev prefix) = 0 + n * 10 ^ 0"
    by (rule suffix_go_dec) (use assms in \<open>auto simp: hd_rev\<close>)
  then show ?thesis by (simp add: suffix_num_def)
qed

lemma suffix_render [simp]:
  "prefix = ''plan_'' \<or> prefix = ''planver_'' \<or> prefix = ''step_'' \<Longrightarrow>
     suffix_num (render_id prefix n) = unat n"
  unfolding render_id_def
  by (rule suffix_num_dec) (auto simp: unat_le_u64_max to_digit10_def)

text \<open>\<open>suffix\<close> inverts \<open>format!("<prefix>{n}")\<close> for every \<open>u64\<close> counter and every prefix
  that does not end in a digit, although it accumulates with saturating arithmetic.\<close>

theorem suffix_of_rendered_id:
  assumes "prefix = [] \<or> to_digit10 (last prefix) = None"
  shows "suffix_num (render_id prefix n) = unat n"
  unfolding render_id_def using unat_le_u64_max assms by (rule suffix_num_dec)

theorem suffix_of_rendered_id_witness:
  "suffix_num (render_id ''planver_'' 18446744073709551615) = 18446744073709551615"
  using suffix_of_rendered_id [of "''planver_''" "18446744073709551615"]
  by (simp add: to_digit10_def)

subsection \<open>The execution gate\<close>

text \<open>What a reachable service's log says about its review status.\<close>

definition review_log_inv :: "plan_service \<Rightarrow> plan_event list \<Rightarrow> bool" where
  "review_log_inv sv l \<longleftrightarrow>
     (let s = svc_state sv in
      case ps_review_status s of
        InReview \<Rightarrow> (\<exists>p v l0. ps_plan_id s = Some p \<and> ps_current_version s = Some v \<and>
                       l = l0 @ [PlanReviewRequested p v])
      | Approved \<Rightarrow> (\<exists>p v ck l0. ps_plan_id s = Some p \<and> ps_current_version s = Some v \<and>
                       l = l0 @ [PlanReviewRequested p v, PlanApproved p v ck])
      | ChangesRequested \<Rightarrow> False
      | _ \<Rightarrow> (\<forall>p v ck l0. l \<noteq> l0 @ [PlanApproved p v ck]))"

lemma review_log_inv_init: "review_log_inv plan_service_new []"
  by (simp add: review_log_inv_def plan_service_new_def plan_state_default_def)

lemma review_log_inv_step:
  assumes inv: "review_log_inv sv l" and ex: "plan_exec sv c = Inr (sv', es)"
  shows "review_log_inv sv' (l @ es)"
  using ex
proof (cases rule: plan_execE)
  case (content e)
  then show ?thesis
    using content_event_resets [OF content(2), of "svc_state sv"]
    by (auto simp: review_log_inv_def Let_def)
next
  case (review p v)
  then show ?thesis by (auto simp: review_log_inv_def Let_def)
next
  case (decide p v e)
  from decide(4) inv have "ps_review_status (svc_state sv) = InReview"
    by (auto simp: decidable_review_def review_log_inv_def Let_def)
  with inv decide show ?thesis
    by (auto simp: review_log_inv_def Let_def)
qed

lemma run_review_log_inv:
  "run_cmds plan_exec (plan_service_new, []) cs = (sv, l) \<Longrightarrow> review_log_inv sv l"
  by (rule run_cmds_invariant [where I = review_log_inv])
    (auto intro: review_log_inv_init review_log_inv_step)

text \<open>C30: after any sequence of commands on a new service, accepted or rejected, the execution
  gate is open for a plan id and version exactly when the two last persisted events are the
  review request and the approval of that very plan and version: no approval without a review,
  and none that survives a later change of the plan.\<close>

theorem gate_open_iff_reviewed_and_approved:
  assumes "run_cmds plan_exec (plan_service_new, []) cs = (sv, l)"
  shows "is_approved_for_execution sv p v \<longleftrightarrow>
           (\<exists>pre ck. l = pre @ [PlanReviewRequested p v, PlanApproved p v ck])"
proof -
  have "review_log_inv sv l"
    using assms by (rule run_review_log_inv)
  then show ?thesis
    by (cases "ps_review_status (svc_state sv)")
      (auto simp: review_log_inv_def is_approved_for_execution_def Let_def)
qed

theorem gate_open_iff_reviewed_and_approved_witness:
  "\<exists>sv l. run_cmds plan_exec (plan_service_new, [])
      [CreatePlan ''t'' [''a''], RequestReview ''planver_1'', Approve ''plan_1'' ''planver_1'' None] = (sv, l)
    \<and> is_approved_for_execution sv ''plan_1'' ''planver_1''
    \<and> (\<exists>pre ck. l = pre @ [PlanReviewRequested ''plan_1'' ''planver_1'', PlanApproved ''plan_1'' ''planver_1'' ck])"
proof -
  let ?cs = "[CreatePlan ''t'' [''a''], RequestReview ''planver_1'', Approve ''plan_1'' ''planver_1'' None]"
  obtain sv l where run: "run_cmds plan_exec (plan_service_new, []) ?cs = (sv, l)"
    by force
  have "is_approved_for_execution (fst (run_cmds plan_exec (plan_service_new, []) ?cs)) ''plan_1'' ''planver_1''"
    by code_simp
  with run have open_gate: "is_approved_for_execution sv ''plan_1'' ''planver_1''"
    by simp
  then show ?thesis
    using run gate_open_iff_reviewed_and_approved [OF run, of "''plan_1''" "''planver_1''"] by blast
qed

subsection \<open>Replay\<close>

text \<open>replaying the log that any sequence of commands on a new service has persisted rebuilds
  exactly the live aggregate: the fold is the only recovery entry, and it is enough.\<close>

theorem plan_replay_rebuilds_state:
  assumes "run_cmds plan_exec (plan_service_new, []) cs = (sv, l)"
  shows "plan_replay l = svc_state sv \<and> plan_state_wf (svc_state sv)"
  using plan.replay_rebuilds [OF assms] plan.run_inv [OF assms]
  by (simp add: plan_replay_def plan_service_new_def)

theorem plan_replay_rebuilds_state_witness:
  "\<exists>sv l. run_cmds plan_exec (plan_service_new, [])
      [CreatePlan ''t'' [''a''], ReplacePlan ''u'' [''b''], RequestReview ''planver_2''] = (sv, l)
    \<and> length l = 3 \<and> plan_replay l = svc_state sv"
proof -
  let ?cs = "[CreatePlan ''t'' [''a''], ReplacePlan ''u'' [''b''], RequestReview ''planver_2'']"
  obtain sv l where run: "run_cmds plan_exec (plan_service_new, []) ?cs = (sv, l)"
    by force
  have "length (snd (run_cmds plan_exec (plan_service_new, []) ?cs)) = 3"
    by code_simp
  with run plan_replay_rebuilds_state [OF run] show ?thesis by auto
qed

subsection \<open>Fresh identifiers after a restart\<close>

fun event_version :: "plan_event \<Rightarrow> string set" where
  "event_version (PlanCreated _ v _ _) = {v}"
| "event_version (PlanReplaced _ v _ _ _) = {v}"
| "event_version (PlanRevised _ v _ _ _) = {v}"
| "event_version (PlanReviewRequested _ v) = {v}"
| "event_version (PlanApproved _ v _) = {v}"
| "event_version (PlanRejected _ v _) = {v}"
| "event_version (PlanCommentAdded _ v _ _) = {v}"
| "event_version (PlanStepUpdated _ _ _ _) = {}"

fun event_step_ids :: "plan_event \<Rightarrow> string set" where
  "event_step_ids (PlanCreated _ _ _ ss) = step_id ` set ss"
| "event_step_ids (PlanReplaced _ _ _ _ ss) = step_id ` set ss"
| "event_step_ids (PlanRevised _ _ _ _ ss) = step_id ` set ss"
| "event_step_ids _ = {}"

lemma max_suffix_base: "m \<le> max_suffix m ss"
  by (induction ss arbitrary: m) (auto intro: order_trans [OF max.cobounded1])

lemma max_suffix_step: "s \<in> set ss \<Longrightarrow> suffix_num (step_id s) \<le> max_suffix m ss"
proof (induction ss arbitrary: m)
  case (Cons x ss)
  have "suffix_num (step_id x) \<le> max_suffix (max m (suffix_num (step_id x))) ss"
    by (rule order_trans [OF max.cobounded2 max_suffix_base])
  with Cons show ?case by auto
qed simp

lemma seed_event_mono:
  "seed_event e (a, b, c) = (a', b', c') \<Longrightarrow> a \<le> a' \<and> b \<le> b' \<and> c \<le> c'"
  by (cases e) (auto simp: max_suffix_base)

lemma seed_event_covers:
  "seed_event e (a, b, c) = (a', b', c') \<Longrightarrow>
     (\<forall>v \<in> event_version e. suffix_num v \<le> b') \<and> (\<forall>i \<in> event_step_ids e. suffix_num i \<le> c')"
  by (cases e) (auto simp: max_suffix_step)

lemma seed_fold_covers:
  "fold seed_event es (a, b, c) = (a', b', c') \<Longrightarrow>
     b \<le> b' \<and> c \<le> c' \<and>
     (\<forall>e \<in> set es. (\<forall>v \<in> event_version e. suffix_num v \<le> b') \<and>
                    (\<forall>i \<in> event_step_ids e. suffix_num i \<le> c'))"
proof (induction es arbitrary: a b c)
  case Nil
  then show ?case by simp
next
  case (Cons e es)
  obtain a1 b1 c1 where e: "seed_event e (a, b, c) = (a1, b1, c1)"
    using prod_cases3 by blast
  with Cons.prems have "fold seed_event es (a1, b1, c1) = (a', b', c')"
    by simp
  from Cons.IH [OF this] seed_event_mono [OF e] seed_event_covers [OF e] show ?case
    by (auto intro: order_trans)
qed

lemma build_steps_suffixes:
  "unat n + length ts \<le> u64_max \<Longrightarrow>
     map (\<lambda>s. suffix_num (step_id s)) (fst (build_steps n ts)) = [unat n ..< unat n + length ts]"
proof (induction n ts rule: build_steps.induct)
  case (2 n t ts)
  have "unat n < u64_max"
    using "2.prems" by simp
  then have next_n: "unat (n + 1) = Suc (unat n)"
    by (rule unat_Suc_u64)
  then have "map (\<lambda>s. suffix_num (step_id s)) (fst (build_steps (n + 1) ts))
      = [Suc (unat n) ..< Suc (unat n) + length ts]"
    using "2.IH" "2.prems" by simp
  moreover have "[unat n ..< unat n + length (t # ts)] = unat n # [Suc (unat n) ..< Suc (unat n) + length ts]"
    by (simp add: upt_conv_Cons del: upt_Suc)
  ultimately show ?case
    by (simp add: Let_def split_beta)
qed simp

text \<open>a service rebuilt from a log never reissues an identifier: as long as the counters are
  not exhausted, the version of a plan replaced after the restart occurs in no event of the log,
  and its step ids are distinct and occur in no event of the log.\<close>

theorem ids_after_restart_are_fresh:
  assumes acc: "replace_plan t ts (plan_from_events es) = Inr (sv, PlanReplaced p v pv t ss)"
    and seed: "seed_counters es = (a, b, c)"
    and room: "b < u64_max" "c + length ts < u64_max"
  shows "(\<forall>e \<in> set es. v \<notin> event_version e) \<and> distinct (map step_id ss) \<and>
         (\<forall>e \<in> set es. \<forall>s \<in> set ss. step_id s \<notin> event_step_ids e)"
proof -
  have next_b: "unat (word_of_nat b + 1 :: u64) = Suc b" and next_c: "unat (word_of_nat c + 1 :: u64) = Suc c"
    using room by (simp_all add: unat_Suc_u64 u64_max_def unat_of_nat)
  from acc seed have v: "v = render_id ''planver_'' (word_of_nat b + 1)"
    and ss: "fst (build_steps (word_of_nat c + 1) ts) = ss"
    by (auto elim!: replace_planE simp: plan_from_events_def)
  have "suffix_num v = Suc b"
    by (simp add: v next_b)
  moreover have suffixes: "map (\<lambda>s. suffix_num (step_id s)) ss = [Suc c ..< Suc c + length ts]"
    using build_steps_suffixes [of "word_of_nat c + 1" ts] room by (simp add: next_c ss)
  have step_gt: "c < suffix_num (step_id s)" if "s \<in> set ss" for s
  proof -
    have "suffix_num (step_id s) \<in> set (map (\<lambda>s. suffix_num (step_id s)) ss)"
      using that by simp
    then show ?thesis unfolding suffixes by auto
  qed
  moreover have "distinct (map step_id ss)"
  proof -
    have "distinct (map suffix_num (map step_id ss))"
      by (simp only: map_map comp_def suffixes distinct_upt)
    then show ?thesis by (simp only: distinct_map)
  qed
  moreover have "suffix_num w \<le> b" if "e \<in> set es" "w \<in> event_version e" for e w
    using seed_fold_covers [of es 0 0 0 a b c] seed that by (simp add: seed_counters_def)
  moreover have "suffix_num i \<le> c" if "e \<in> set es" "i \<in> event_step_ids e" for e i
    using seed_fold_covers [of es 0 0 0 a b c] seed that by (simp add: seed_counters_def)
  ultimately show ?thesis
    by fastforce
qed

theorem ids_after_restart_are_fresh_witness:
  "\<exists>sv v ss. replace_plan ''u'' [''x'', ''y''] (plan_from_events
       [PlanCreated ''plan_1'' ''planver_7'' ''t'' [\<lparr>step_id = ''step_4'', step_text = ''a'', step_status = StepPending\<rparr>]])
     = Inr (sv, PlanReplaced ''plan_1'' v ''planver_7'' ''u'' ss)
   \<and> v \<noteq> ''planver_7'' \<and> distinct (map step_id ss)"
proof -
  let ?es = "[PlanCreated ''plan_1'' ''planver_7'' ''t'' [\<lparr>step_id = ''step_4'', step_text = ''a'', step_status = StepPending\<rparr>]]"
  let ?ss = "[\<lparr>step_id = ''step_5'', step_text = ''x'', step_status = StepPending\<rparr>,
              \<lparr>step_id = ''step_6'', step_text = ''y'', step_status = StepPending\<rparr>]"
  have seed: "seed_counters ?es = (1, 7, 4)"
    by (simp add: seed_counters_def suffix_num_def sat_add_def sat_mul_def u64_max_def to_digit10_def)
  have "\<exists>sv. replace_plan ''u'' [''x'', ''y''] (plan_from_events ?es)
      = Inr (sv, PlanReplaced ''plan_1'' ''planver_8'' ''planver_7'' ''u'' ?ss)"
    by (simp add: replace_plan_def check_texts_def is_blank_def ws1_def ws2_def ws3_def
        plan_from_events_def seed plan_replay_def plan_state_default_def render_id_def dec_eval Let_def)
  then obtain sv where acc: "replace_plan ''u'' [''x'', ''y''] (plan_from_events ?es)
      = Inr (sv, PlanReplaced ''plan_1'' ''planver_8'' ''planver_7'' ''u'' ?ss)"
    by blast
  from ids_after_restart_are_fresh [OF acc seed] acc show ?thesis
    by (auto simp: u64_max_def)
qed

end
