(* ===== verification/OrdMap.thy ===== *)
theory OrdMap
  imports Prelude
begin

text \<open>
  Rust's \<open>BTreeMap<K, V>\<close>: an association list kept strictly increasing in its keys, with
  lookup, insertion, removal, in-place update of a present value and iteration in key order.
  The locale \<open>ordered_map\<close> states what the components rely on; it is interpreted on the
  association list at the end of the theory.
\<close>

type_synonym ('k, 'v) btree = "('k \<times> 'v) list"

subsection \<open>Operations\<close>

fun bt_get :: "('k::linorder, 'v) btree \<Rightarrow> 'k \<Rightarrow> 'v option" where
  "bt_get [] k = None"
| "bt_get ((k', v) # m) k = (if k = k' then Some v else bt_get m k)"

fun bt_put :: "'k::linorder \<Rightarrow> 'v \<Rightarrow> ('k, 'v) btree \<Rightarrow> ('k, 'v) btree" where
  "bt_put k v [] = [(k, v)]"
| "bt_put k v ((k', v') # m) =
     (if k = k' then (k, v) # m
      else if k < k' then (k, v) # (k', v') # m
      else (k', v') # bt_put k v m)"

fun bt_del :: "'k::linorder \<Rightarrow> ('k, 'v) btree \<Rightarrow> ('k, 'v) btree" where
  "bt_del k [] = []"
| "bt_del k ((k', v') # m) = (if k = k' then m else (k', v') # bt_del k m)"

definition bt_keys :: "('k, 'v) btree \<Rightarrow> 'k list" where
  "bt_keys m = map fst m"

definition bt_values :: "('k, 'v) btree \<Rightarrow> 'v list" where
  "bt_values m = map snd m"

definition bt_wf :: "('k::linorder, 'v) btree \<Rightarrow> bool" where
  "bt_wf m = sorted_wrt (<) (bt_keys m)"

abbreviation bt_has :: "('k::linorder, 'v) btree \<Rightarrow> 'k \<Rightarrow> bool" where
  "bt_has m k \<equiv> bt_get m k \<noteq> None"

subsection \<open>Laws\<close>

lemma bt_keys_simps [simp]:
  "bt_keys [] = []" "bt_keys ((k, v) # m) = k # bt_keys m"
  by (simp_all add: bt_keys_def)

lemma bt_wf_simps [simp]:
  "bt_wf []" "bt_wf ((k, v) # m) \<longleftrightarrow> (\<forall>k' \<in> set (bt_keys m). k < k') \<and> bt_wf m"
  by (simp_all add: bt_wf_def)

lemma bt_get_None_iff: "bt_get m k = None \<longleftrightarrow> k \<notin> set (bt_keys m)"
  by (induction m) (auto split: if_splits)

lemma bt_get_key: "bt_get m k = Some v \<Longrightarrow> k \<in> set (bt_keys m)"
  by (induction m) (auto split: if_splits)

lemma bt_get_put: "bt_get (bt_put k v m) = (bt_get m)(k := Some v)"
  by (induction m) (auto simp: fun_eq_iff)

lemma bt_get_put_same [simp]: "bt_get (bt_put k v m) k = Some v"
  by (simp add: bt_get_put)

lemma bt_get_put_other [simp]: "k' \<noteq> k \<Longrightarrow> bt_get (bt_put k v m) k' = bt_get m k'"
  by (simp add: bt_get_put)

lemma set_keys_put: "set (bt_keys (bt_put k v m)) = insert k (set (bt_keys m))"
  by (induction m) (auto split: if_splits)

lemma bt_wf_put: "bt_wf m \<Longrightarrow> bt_wf (bt_put k v m)"
proof (induction m)
  case (Cons p m)
  obtain a b where p: "p = (a, b)" by force
  have lt: "a < x" if "x \<in> set (bt_keys m)" for x
    using Cons.prems that by (simp add: p)
  have "k < x" if "k < a" "x \<in> set (bt_keys m)" for x
    using that(1) lt [OF that(2)] by (rule order.strict_trans)
  then show ?case
    using Cons lt by (auto simp: p set_keys_put not_less_iff_gr_or_eq)
qed simp

lemma set_keys_del_subset: "set (bt_keys (bt_del k m)) \<subseteq> set (bt_keys m)"
  by (induction m) (auto split: if_splits)

lemma bt_wf_del: "bt_wf m \<Longrightarrow> bt_wf (bt_del k m)"
  using set_keys_del_subset by (induction m) fastforce+

lemma bt_get_del: "bt_wf m \<Longrightarrow> bt_get (bt_del k m) = (bt_get m)(k := None)"
proof (induction m)
  case (Cons p m)
  obtain k' v where p: "p = (k', v)" by force
  have "k' \<notin> set (bt_keys m)"
    using Cons.prems by (auto simp: p)
  then show ?case
    using Cons by (auto simp: p fun_eq_iff bt_get_None_iff)
qed auto

lemma bt_mem_keys: "(k, v) \<in> set m \<Longrightarrow> k \<in> set (bt_keys m)"
  by (force simp: bt_keys_def)

lemma bt_get_iff_mem: "bt_wf m \<Longrightarrow> bt_get m k = Some v \<longleftrightarrow> (k, v) \<in> set m"
proof (induction m)
  case (Cons p m)
  obtain a b where p: "p = (a, b)" by force
  have "a \<notin> set (bt_keys m)"
    using Cons.prems by (auto simp: p)
  then have "(a, v) \<notin> set m"
    by (auto dest: bt_mem_keys)
  then show ?case
    using Cons by (auto simp: p)
qed simp

lemma bt_keys_put_present: "bt_wf m \<Longrightarrow> k \<in> set (bt_keys m) \<Longrightarrow> bt_keys (bt_put k v m) = bt_keys m"
proof (induction m)
  case (Cons p m)
  obtain a b where p: "p = (a, b)" by force
  have "\<not> k < a" if "k \<in> set (bt_keys m)"
    using Cons.prems(1) that by (auto simp: p not_less_iff_gr_or_eq)
  then show ?case
    using Cons by (auto simp: p)
qed simp

lemma bt_wf_distinct: "bt_wf m \<Longrightarrow> distinct (bt_keys m)"
  by (induction m) auto

lemma bt_wf_sorted: "bt_wf m \<Longrightarrow> sorted (bt_keys m)"
  by (induction m) (auto simp: order.strict_implies_order)

text \<open>Two well-formed maps with the same lookups are the same tree.\<close>

lemma bt_get_ext:
  assumes "bt_wf m" and "bt_wf m'" and "bt_get m = bt_get m'"
  shows "m = m'"
proof -
  have "set m = set m'"
    using assms by (auto simp flip: bt_get_iff_mem)
  moreover have "sorted_wrt (\<lambda>x y. fst x < fst y) m" "sorted_wrt (\<lambda>x y. fst x < fst y) m'"
    using assms(1,2) by (simp_all add: bt_wf_def bt_keys_def sorted_wrt_map)
  ultimately show ?thesis
  proof (induction m arbitrary: m')
    case Nil
    then show ?case by simp
  next
    case (Cons p m)
    from Cons.prems(1) obtain q n where m': "m' = q # n"
      by (cases m') auto
    have "p = q"
    proof (rule ccontr)
      assume ne: "p \<noteq> q"
      have "p \<in> set (q # n)" "q \<in> set (p # m)"
        using Cons.prems(1) unfolding m' by (metis list.set_intros(1))+
      with ne have "p \<in> set n" "q \<in> set m"
        by auto
      then have "fst q < fst p" "fst p < fst q"
        using Cons.prems(2,3) unfolding m' by auto
      then show False by simp
    qed
    moreover have "set m = set n"
    proof -
      have "p \<notin> set m" "q \<notin> set n"
        using Cons.prems unfolding m' by auto
      then show ?thesis
        using Cons.prems(1) \<open>p = q\<close> unfolding m' by auto
    qed
    ultimately show ?case
      using Cons unfolding m' by auto
  qed
qed

text \<open>Counting the values with a property, across a write and a removal.\<close>

definition bt_count :: "('v \<Rightarrow> bool) \<Rightarrow> ('k, 'v) btree \<Rightarrow> nat" where
  "bt_count P m = length (filter P (bt_values m))"

abbreviation opt_count :: "('v \<Rightarrow> bool) \<Rightarrow> 'v option \<Rightarrow> nat" where
  "opt_count P v \<equiv> (case v of None \<Rightarrow> 0 | Some x \<Rightarrow> of_bool (P x))"

lemma bt_count_simps [simp]:
  "bt_count P [] = 0" "bt_count P ((k, v) # m) = of_bool (P v) + bt_count P m"
  by (simp_all add: bt_count_def bt_values_def)

lemma bt_count_put:
  "bt_wf m \<Longrightarrow> bt_count P (bt_put k v m) + opt_count P (bt_get m k) = bt_count P m + of_bool (P v)"
proof (induction m)
  case (Cons p m)
  obtain k' v' where p: "p = (k', v')" by force
  have "bt_get m k = None" if "k < k'"
  proof -
    have "k \<notin> set (bt_keys m)"
      using Cons.prems that by (auto simp: p dest: less_trans)
    then show ?thesis by (simp add: bt_get_None_iff)
  qed
  then show ?case
    using Cons by (auto simp: p)
qed simp

lemma bt_count_del: "bt_wf m \<Longrightarrow> bt_count P (bt_del k m) + opt_count P (bt_get m k) = bt_count P m"
  by (induction m) auto

lemma bt_count_card: "bt_wf m \<Longrightarrow> bt_count P m = card {k. \<exists>v. bt_get m k = Some v \<and> P v}"
proof (induction m)
  case (Cons p m)
  obtain a b where p: "p = (a, b)" by force
  have fresh: "bt_get m a = None"
    using Cons.prems by (auto simp: p bt_get_None_iff)
  let ?S = "{k. \<exists>v. bt_get m k = Some v \<and> P v}"
  have fin: "finite ?S"
    by (rule finite_subset [of _ "set (bt_keys m)"]) (auto intro: bt_get_key)
  have "{k. \<exists>v. bt_get (p # m) k = Some v \<and> P v} = (if P b then insert a ?S else ?S)"
    using fresh by (auto simp: p)
  moreover have "a \<notin> ?S"
    using fresh by simp
  ultimately show ?case
    using Cons fin by (simp add: p)
qed simp

text \<open>A map whose counted keys are counted in another has no larger count.\<close>

lemma bt_count_mono:
  assumes "bt_wf m" and "bt_wf m'"
    and "\<And>k v. bt_get m k = Some v \<Longrightarrow> P v \<Longrightarrow> \<exists>v'. bt_get m' k = Some v' \<and> P v'"
  shows "bt_count P m \<le> bt_count P m'"
proof -
  have "finite {k. \<exists>v. bt_get m' k = Some v \<and> P v}"
    by (rule finite_subset [of _ "set (bt_keys m')"]) (auto intro: bt_get_key)
  then show ?thesis
    unfolding bt_count_card [OF assms(1)] bt_count_card [OF assms(2)]
    by (rule card_mono) (use assms(3) in auto)
qed

subsection \<open>The contract\<close>

text \<open>
  What the components use of a \<open>BTreeMap\<close>. The lemmas inside the locale are the ones their
  proofs apply; the interpretation below makes them available as \<open>bt.\<dots>\<close>.
\<close>

locale ordered_map =
  fixes get :: "'m \<Rightarrow> 'k::linorder \<Rightarrow> 'v option"
    and put :: "'k \<Rightarrow> 'v \<Rightarrow> 'm \<Rightarrow> 'm"
    and del :: "'k \<Rightarrow> 'm \<Rightarrow> 'm"
    and keys :: "'m \<Rightarrow> 'k list"
    and wf :: "'m \<Rightarrow> bool"
    and emp :: "'m"
  assumes get_emp: "get emp k = None"
    and get_put: "get (put k v m) = (get m)(k := Some v)"
    and get_del: "wf m \<Longrightarrow> get (del k m) = (get m)(k := None)"
    and keys_get: "set (keys m) = dom (get m)"
    and keys_sorted: "wf m \<Longrightarrow> sorted_wrt (<) (keys m)"
    and wf_emp: "wf emp"
    and wf_put: "wf m \<Longrightarrow> wf (put k v m)"
    and wf_del: "wf m \<Longrightarrow> wf (del k m)"
    and ext: "wf m \<Longrightarrow> wf m' \<Longrightarrow> get m = get m' \<Longrightarrow> m = m'"
begin

lemma put_put: "wf m \<Longrightarrow> put k v (put k v' m) = put k v m"
  by (rule ext) (auto simp: wf_put get_put)

lemma put_same: "wf m \<Longrightarrow> get m k = Some v \<Longrightarrow> put k v m = m"
  by (rule ext) (auto simp: wf_put get_put)

lemma put_swap: "wf m \<Longrightarrow> k \<noteq> k' \<Longrightarrow> put k v (put k' v' m) = put k' v' (put k v m)"
  by (rule ext) (auto simp: wf_put get_put)

lemma del_absent: "wf m \<Longrightarrow> get m k = None \<Longrightarrow> del k m = m"
  by (rule ext) (auto simp: wf_del get_del)

lemma keys_put: "wf m \<Longrightarrow> set (keys (put k v m)) = insert k (set (keys m))"
  by (auto simp: keys_get get_put)

lemma keys_distinct: "wf m \<Longrightarrow> distinct (keys m)"
  using keys_sorted [of m] by (induction "keys m") (auto simp: strict_sorted_iff)

lemma finite_dom: "finite (dom (get m))"
  by (metis keys_get List.finite_set)

end

interpretation bt: ordered_map bt_get bt_put bt_del bt_keys bt_wf "[]"
proof unfold_locales
  show "set (bt_keys m) = dom (bt_get m)" for m :: "('a, 'b) btree"
    by (auto simp: dom_def bt_get_None_iff)
  show "bt_wf m \<Longrightarrow> sorted_wrt (<) (bt_keys m)" for m :: "('a, 'b) btree"
    by (simp add: bt_wf_def)
qed (auto simp: bt_get_put bt_get_del bt_wf_put bt_wf_del intro: bt_get_ext)

end
