(* ===== verification/TreeWalk.thy ===== *)
theory TreeWalk
  imports Prelude "HOL-Library.Multiset"
begin

text \<open>
  The work-list walk that the task manager's \<open>subtree\<close> and the supervisor's \<open>cancel_tree\<close> share:
  pop the last element, record it, push its children in order. It keeps no visited set, so it
  does not return on a cycle; on a well-founded child relation it returns the reachable nodes.
\<close>

partial_function (option) walk :: "('a \<Rightarrow> 'a list) \<Rightarrow> 'a list \<Rightarrow> 'a list \<Rightarrow> 'a list option" where
  "walk kids queue ids =
     (if queue = [] then Some ids
      else walk kids (butlast queue @ kids (last queue)) (ids @ [last queue]))"

declare walk.simps [code]

definition kid_rel :: "('a \<Rightarrow> 'a list) \<Rightarrow> ('a \<times> 'a) set" where
  "kid_rel kids = {(c, p). c \<in> set (kids p)}"

text \<open>Below the nodes under which the walk is well founded, the relation is well founded as a whole.\<close>

lemma wf_below_acc: "wf {(c, p). (c, p) \<in> R \<and> p \<in> Wellfounded.acc R}"
  unfolding wf_iff_acc
proof
  fix x
  show "x \<in> Wellfounded.acc {(c, p). (c, p) \<in> R \<and> p \<in> Wellfounded.acc R}"
  proof (cases "x \<in> Wellfounded.acc R")
    case True
    then show ?thesis
      by (induction rule: Wellfounded.acc.induct) (rule Wellfounded.acc.intros, blast)
  next
    case False
    then show ?thesis
      by (intro Wellfounded.acc.intros [of x]) blast
  qed
qed

lemma walk_returns_below:
  assumes "set q \<subseteq> Wellfounded.acc (kid_rel kids)"
  shows "\<exists>ds. walk kids q ids = Some (ids @ ds) \<and>
           set ds = {x. \<exists>y \<in> set q. (x, y) \<in> (kid_rel kids)\<^sup>*}"
proof -
  let ?A = "Wellfounded.acc (kid_rel kids)"
  let ?R = "{(c, p). (c, p) \<in> kid_rel kids \<and> p \<in> ?A}"
  have "wf (mult ?R)"
    by (intro wf_mult wf_below_acc)
  then show ?thesis
    using assms
  proof (induction "mset q" arbitrary: q ids rule: wf_induct_rule)
    case less
    show ?case
    proof (cases q rule: rev_cases)
      case Nil
      then show ?thesis by (simp add: walk.simps)
    next
      case (snoc q0 x)
      let ?q' = "q0 @ kids x"
      have x: "x \<in> ?A" "set q0 \<subseteq> ?A"
        using less.prems by (auto simp: snoc)
      have "(mset q0 + mset (kids x), mset q0 + {#x#}) \<in> mult ?R"
        by (rule one_step_implies_mult) (use x in \<open>auto simp: kid_rel_def\<close>)
      then have "(mset ?q', mset q) \<in> mult ?R"
        by (simp add: snoc)
      moreover have "set ?q' \<subseteq> ?A"
        using x by (auto simp: kid_rel_def intro: acc_downward)
      ultimately obtain ds where
        ds: "walk kids ?q' (ids @ [x]) = Some ((ids @ [x]) @ ds)"
          "set ds = {z. \<exists>y \<in> set ?q'. (z, y) \<in> (kid_rel kids)\<^sup>*}"
        using less.hyps by blast
      have "walk kids q ids = Some (ids @ x # ds)"
        using ds(1) by (subst walk.simps) (simp add: snoc)
      moreover have "set (x # ds) = {z. \<exists>y \<in> set q. (z, y) \<in> (kid_rel kids)\<^sup>*}"
        unfolding snoc
        by (auto simp: ds(2) kid_rel_def intro: rtrancl_into_rtrancl elim: rtranclE)
      ultimately show ?thesis by (intro exI [of _ "x # ds"]) simp
    qed
  qed
qed

lemma walk_returns:
  assumes "wf (kid_rel kids)"
  shows "\<exists>ds. walk kids q ids = Some (ids @ ds) \<and>
           set ds = {x. \<exists>y \<in> set q. (x, y) \<in> (kid_rel kids)\<^sup>*}"
  by (rule walk_returns_below) (use assms in \<open>auto simp: wf_iff_acc\<close>)

text \<open>And a walk that returns has met only such nodes.\<close>

lemma walk_returned:
  assumes "walk kids q ids = Some ds"
  shows "set q \<subseteq> Wellfounded.acc (kid_rel kids)"
proof (rule walk.raw_induct [where P = "\<lambda>k q ids y. set q \<subseteq> Wellfounded.acc (kid_rel k)", OF _ assms])
  fix f :: "('a \<Rightarrow> 'a list) \<Rightarrow> 'a list \<Rightarrow> 'a list \<Rightarrow> 'a list option" and k q ids y
  assume IH: "\<And>k q ids y. f k q ids = Some y \<Longrightarrow> set q \<subseteq> Wellfounded.acc (kid_rel k)"
    and eq: "(if q = [] then Some ids else f k (butlast q @ k (last q)) (ids @ [last q])) = Some y"
  show "set q \<subseteq> Wellfounded.acc (kid_rel k)"
  proof (cases q rule: rev_cases)
    case (snoc q0 x)
    have *: "set (q0 @ k x) \<subseteq> Wellfounded.acc (kid_rel k)"
      using eq by (intro IH) (simp add: snoc)
    have "x \<in> Wellfounded.acc (kid_rel k)"
      by (rule Wellfounded.acc.intros) (use * in \<open>auto simp: kid_rel_def\<close>)
    then show ?thesis
      using * by (simp add: snoc)
  qed simp
qed

text \<open>In a finite relation these are the nodes with no cycle at or below them.\<close>

lemma acc_has_no_cycle:
  assumes "x \<in> Wellfounded.acc R"
  shows "(x, x) \<notin> R\<^sup>+"
  using assms
proof (induction rule: Wellfounded.acc.induct)
  case (accI x)
  show ?case
  proof
    assume "(x, x) \<in> R\<^sup>+"
    then obtain y where "(x, y) \<in> R\<^sup>*" "(y, x) \<in> R"
      by (auto dest: tranclD2)
    then show False
      using accI(2) [of y] by (auto dest: rtrancl_into_trancl2)
  qed
qed

lemma finite_acc_iff:
  assumes "finite R"
  shows "x \<in> Wellfounded.acc R \<longleftrightarrow> \<not> (\<exists>y. (y, x) \<in> R\<^sup>* \<and> (y, y) \<in> R\<^sup>+)"
proof
  assume "x \<in> Wellfounded.acc R"
  then show "\<not> (\<exists>y. (y, x) \<in> R\<^sup>* \<and> (y, y) \<in> R\<^sup>+)"
    using acc_downwards acc_has_no_cycle by metis
next
  assume no: "\<not> (\<exists>y. (y, x) \<in> R\<^sup>* \<and> (y, y) \<in> R\<^sup>+)"
  let ?S = "{(c, p). (c, p) \<in> R \<and> (p, x) \<in> R\<^sup>*}"
  have "acyclic ?S"
    unfolding acyclic_def
  proof (intro allI notI)
    fix y
    assume *: "(y, y) \<in> ?S\<^sup>+"
    have "?S \<subseteq> R"
      by auto
    then have "(y, y) \<in> R\<^sup>+"
      using * trancl_mono by blast
    moreover have "(y, x) \<in> R\<^sup>*"
      using tranclD2 [OF *] by auto
    ultimately show False
      using no by blast
  qed
  moreover have "finite ?S"
    using assms by (rule finite_subset [rotated]) auto
  ultimately have "wf ?S"
    by (intro finite_acyclic_wf)
  then have "(y, x) \<in> R\<^sup>* \<longrightarrow> y \<in> Wellfounded.acc R" for y
  proof (induction y rule: wf_induct_rule)
    case (less y)
    have "z \<in> Wellfounded.acc R" if "(y, x) \<in> R\<^sup>*" "(z, y) \<in> R" for z
      using less [of z] that by (auto dest: converse_rtrancl_into_rtrancl)
    then show ?case
      by (blast intro: Wellfounded.acc.intros)
  qed
  then show "x \<in> Wellfounded.acc R"
    by simp
qed

text \<open>A self-loop keeps the work list at one element for ever.\<close>

lemma walk_self_loop:
  assumes "kids a = [a]"
  shows "walk kids [a] ids = None"
proof (rule ccontr)
  assume "walk kids [a] ids \<noteq> None"
  then obtain y where y: "walk kids [a] ids = Some y"
    by blast
  have "\<not> (k = kids \<and> q = [a])" if "walk k q ids' = Some y'" for k q ids' y'
  proof (rule walk.raw_induct [where P = "\<lambda>k q ids' y. \<not> (k = kids \<and> q = [a])", OF _ that])
    fix f k q ids' y'
    assume IH: "\<And>k q ids' y'. f k q ids' = Some y' \<Longrightarrow> \<not> (k = kids \<and> q = [a])"
      and eq: "(if q = [] then Some ids'
        else f k (butlast q @ k (last q)) (ids' @ [last q])) = Some y'"
    show "\<not> (k = kids \<and> q = [a])"
    proof
      assume "k = kids \<and> q = [a]"
      with eq assms have "f kids [a] (ids' @ [a]) = Some y'"
        by simp
      from IH [OF this] show False by simp
    qed
  qed
  from this [OF y] show False by simp
qed

end
