(* ===== verification/TaskModel.thy ===== *)
theory TaskModel
  imports OrdMap EventSourcing TreeWalk
begin

text \<open>
  The background task aggregate: task kinds, states and events of
  \<open>crates/domain/src/workflow.rs\<close>, and the task table with its event log of
  \<open>crates/workflow/src/task/state.rs\<close>. A cancellation token is an identity shared between the
  record and the execution body, so it is a number; the allocator of new tokens is a counter
  in the state.
\<close>

subsection \<open>Types\<close>

datatype task_kind = ProcessTask | AgentRunTask | MonitorTask | AutomationTask

datatype task_status =
  TaskQueued | TaskRunning | TaskSuspendedSt | TaskCompleted | TaskFailed | TaskCanceled

datatype task_event =
    TaskStarted string task_kind "string option"
  | TaskSuspended string
  | TaskResumed string
  | TaskFinished string task_status "string option"

datatype task_error =
    UnknownTask string
  | UnknownParent string
  | InvalidTransition string task_status task_status
  | InvalidFinishedStatus task_status

definition is_terminal_status :: "task_status \<Rightarrow> bool" where
  "is_terminal_status st \<longleftrightarrow> st = TaskCompleted \<or> st = TaskFailed \<or> st = TaskCanceled"

record task_snapshot =
  tk_id :: string
  tk_kind :: task_kind
  tk_parent :: "string option"
  tk_status :: task_status
  tk_detail :: "string option"
  tk_output_seq :: u64
  tk_output_bytes :: u64

record task_record =
  tr_snapshot :: task_snapshot
  tr_token :: nat

definition task_record_with_token ::
  "string \<Rightarrow> task_kind \<Rightarrow> string option \<Rightarrow> task_status \<Rightarrow> nat \<Rightarrow> task_record" where
  "task_record_with_token i k p st tok =
     \<lparr>tr_snapshot = \<lparr>tk_id = i, tk_kind = k, tk_parent = p, tk_status = st, tk_detail = None,
                     tk_output_seq = 0, tk_output_bytes = 0\<rparr>,
      tr_token = tok\<rparr>"

record task_state =
  tks_tasks :: "(string, task_record) btree"
  tks_log :: "task_event list"
  tks_next_token :: nat

definition task_state_new :: task_state where
  "task_state_new = \<lparr>tks_tasks = [], tks_log = [], tks_next_token = 0\<rparr>"

definition set_status :: "task_status \<Rightarrow> string option \<Rightarrow> task_record \<Rightarrow> task_record" where
  "set_status st d r = r\<lparr>tr_snapshot := (tr_snapshot r)\<lparr>tk_status := st, tk_detail := d\<rparr>\<rparr>"

abbreviation rec_status :: "task_record \<Rightarrow> task_status" where
  "rec_status r \<equiv> tk_status (tr_snapshot r)"

abbreviation rec_parent :: "task_record \<Rightarrow> string option" where
  "rec_parent r \<equiv> tk_parent (tr_snapshot r)"

subsection \<open>The fold\<close>

definition task_transition ::
  "string \<Rightarrow> task_status \<Rightarrow> task_status \<Rightarrow> string option \<Rightarrow> task_state \<Rightarrow> (task_error, task_state) result" where
  "task_transition i from to d s =
     (case bt_get (tks_tasks s) i of
        None \<Rightarrow> Inl (UnknownTask i)
      | Some r \<Rightarrow>
          (if rec_status r \<noteq> from then Inl (InvalidTransition i (rec_status r) to)
           else Inr (s\<lparr>tks_tasks := bt_put i (set_status to d r) (tks_tasks s)\<rparr>)))"

definition log_event :: "task_event \<Rightarrow> task_state \<Rightarrow> task_state" where
  "log_event e s = s\<lparr>tks_log := tks_log s @ [e]\<rparr>"

fun task_apply :: "task_event \<Rightarrow> task_state \<Rightarrow> (task_error, task_state) result" where
  "task_apply (TaskStarted i k p) s =
     (let (r, tok) = (case bt_get (tks_tasks s) i of
                        Some r \<Rightarrow> (r, tks_next_token s)
                      | None \<Rightarrow> (task_record_with_token i k p TaskRunning (tks_next_token s),
                                 Suc (tks_next_token s)));
          r' = r\<lparr>tr_snapshot := (tr_snapshot r)\<lparr>tk_kind := k, tk_parent := p,
                                               tk_status := TaskRunning, tk_detail := None\<rparr>\<rparr>
      in Inr (log_event (TaskStarted i k p)
                (s\<lparr>tks_tasks := bt_put i r' (tks_tasks s), tks_next_token := tok\<rparr>)))"
| "task_apply (TaskSuspended i) s =
     map_sum id (log_event (TaskSuspended i)) (task_transition i TaskRunning TaskSuspendedSt None s)"
| "task_apply (TaskResumed i) s =
     map_sum id (log_event (TaskResumed i)) (task_transition i TaskSuspendedSt TaskRunning None s)"
| "task_apply (TaskFinished i st d) s =
     (if \<not> is_terminal_status st then Inl (InvalidFinishedStatus st)
      else case bt_get (tks_tasks s) i of
             None \<Rightarrow> Inl (UnknownTask i)
           | Some r \<Rightarrow>
               (if rec_status r \<noteq> TaskRunning \<and> rec_status r \<noteq> TaskSuspendedSt
                then Inl (InvalidTransition i (rec_status r) st)
                else Inr (log_event (TaskFinished i st d)
                            (s\<lparr>tks_tasks := bt_put i (set_status st d r) (tks_tasks s)\<rparr>))))"

subsection \<open>Queries\<close>

definition task_lookup :: "task_state \<Rightarrow> string \<Rightarrow> task_snapshot option" where
  "task_lookup s i = map_option tr_snapshot (bt_get (tks_tasks s) i)"

definition task_list :: "task_state \<Rightarrow> task_snapshot list" where
  "task_list s = map tr_snapshot (bt_values (tks_tasks s))"

definition task_status_of :: "task_state \<Rightarrow> string \<Rightarrow> task_status option" where
  "task_status_of s i = map_option rec_status (bt_get (tks_tasks s) i)"

definition task_token_of :: "task_state \<Rightarrow> string \<Rightarrow> nat option" where
  "task_token_of s i = map_option tr_token (bt_get (tks_tasks s) i)"

subsection \<open>Registration\<close>

text \<open>
  Ids are \<open>task_<namespace>-<n>\<close> with a process-wide \<open>u64\<close> counter. The loop skips ids that are
  taken; it does not return when all of them are, hence \<open>partial_function\<close>.
\<close>

definition mk_task_id :: "string \<Rightarrow> u64 \<Rightarrow> string" where
  "mk_task_id ns n = ''task_'' @ ns @ ''-'' @ dec (unat n)"

partial_function (option) allocate_task_id ::
  "string \<Rightarrow> (string, task_record) btree \<Rightarrow> u64 \<Rightarrow> (string \<times> u64) option" where
  "allocate_task_id ns m n =
     (let i = mk_task_id ns n
      in if bt_get m i = None then Some (i, n + 1) else allocate_task_id ns m (n + 1))"

declare allocate_task_id.simps [code]

definition insert_queued_with_cancel_token ::
  "string \<Rightarrow> task_kind \<Rightarrow> string option \<Rightarrow> nat \<Rightarrow> u64 \<Rightarrow> task_state \<Rightarrow>
     (task_error, string \<times> u64 \<times> task_state) result option" where
  "insert_queued_with_cancel_token ns k p tok n s =
     (case Option.bind p (\<lambda>parent. if bt_get (tks_tasks s) parent = None then Some parent else None) of
        Some parent \<Rightarrow> Some (Inl (UnknownParent parent))
      | None \<Rightarrow>
          map_option (\<lambda>(i, n'). Inr (i, n', s\<lparr>tks_tasks :=
             bt_put i (task_record_with_token i k p TaskQueued tok) (tks_tasks s)\<rparr>))
           (allocate_task_id ns (tks_tasks s) n))"

definition insert_queued ::
  "string \<Rightarrow> task_kind \<Rightarrow> string option \<Rightarrow> u64 \<Rightarrow> task_state \<Rightarrow>
     (task_error, string \<times> u64 \<times> task_state) result option" where
  "insert_queued ns k p n s =
     insert_queued_with_cancel_token ns k p (tks_next_token s) n
       (s\<lparr>tks_next_token := Suc (tks_next_token s)\<rparr>)"

definition remove_queued :: "string \<Rightarrow> task_state \<Rightarrow> task_state" where
  "remove_queued i s =
     (if task_status_of s i = Some TaskQueued
      then s\<lparr>tks_tasks := bt_del i (tks_tasks s)\<rparr> else s)"

subsection \<open>The subtree walk\<close>

text \<open>
  The children of a task in id order, and the walk from a root. The walk keeps no visited set,
  so it does not return on a cyclic parent chain.
\<close>

definition children_of :: "(string, task_record) btree \<Rightarrow> string \<Rightarrow> string list" where
  "children_of m p = map fst (filter (\<lambda>(i, r). rec_parent r = Some p) m)"

definition subtree :: "task_state \<Rightarrow> string \<Rightarrow> string list option" where
  "subtree s root = walk (children_of (tks_tasks s)) [root] []"

end
