(* ===== verification/TaskManager.thy ===== *)
theory TaskManager
  imports TaskModel
begin

text \<open>
  The background task manager, \<open>crates/workflow/src/task/manager.rs\<close>: commands check the state
  machine under one lock, fold the event into the aggregate and return it. The manager's world
  is the aggregate, the id namespace with its process-wide counter, and the set of cancelled
  tokens. \<open>None\<close> is a call that does not return.
\<close>

record task_manager =
  tm_state :: task_state
  tm_namespace :: string
  tm_next :: u64
  tm_cancelled :: "nat set"

definition task_manager_new :: "string \<Rightarrow> u64 \<Rightarrow> task_manager" where
  "task_manager_new ns n =
     \<lparr>tm_state = task_state_new, tm_namespace = ns, tm_next = n, tm_cancelled = {}\<rparr>"

subsection \<open>Commands\<close>

definition tm_register ::
  "task_kind \<Rightarrow> string option \<Rightarrow> task_manager \<Rightarrow> (task_error, task_manager \<times> string) result option" where
  "tm_register k p tm =
     map_option (map_sum id (\<lambda>(i, n, s). (tm\<lparr>tm_state := s, tm_next := n\<rparr>, i)))
       (insert_queued (tm_namespace tm) k p (tm_next tm) (tm_state tm))"

definition tm_register_with_cancel_token ::
  "task_kind \<Rightarrow> string option \<Rightarrow> nat \<Rightarrow> task_manager \<Rightarrow>
     (task_error, task_manager \<times> string) result option" where
  "tm_register_with_cancel_token k p tok tm =
     map_option (map_sum id (\<lambda>(i, n, s). (tm\<lparr>tm_state := s, tm_next := n\<rparr>, i)))
       (insert_queued_with_cancel_token (tm_namespace tm) k p tok (tm_next tm) (tm_state tm))"

definition tm_apply ::
  "task_event \<Rightarrow> task_manager \<Rightarrow> (task_error, task_manager \<times> task_event) result" where
  "tm_apply e tm = map_sum id (\<lambda>s. (tm\<lparr>tm_state := s\<rparr>, e)) (task_apply e (tm_state tm))"

definition tm_start ::
  "string \<Rightarrow> task_manager \<Rightarrow> (task_error, task_manager \<times> task_event) result" where
  "tm_start i tm =
     (case bt_get (tks_tasks (tm_state tm)) i of
        None \<Rightarrow> Inl (UnknownTask i)
      | Some r \<Rightarrow>
          (if rec_status r \<noteq> TaskQueued then Inl (InvalidTransition i (rec_status r) TaskRunning)
           else tm_apply (TaskStarted i (tk_kind (tr_snapshot r)) (rec_parent r)) tm))"

definition tm_finish ::
  "string \<Rightarrow> task_status \<Rightarrow> string option \<Rightarrow> task_manager \<Rightarrow>
     (task_error, task_manager \<times> task_event) result" where
  "tm_finish i st d tm =
     (if st \<noteq> TaskCompleted \<and> st \<noteq> TaskFailed then Inl (InvalidFinishedStatus st)
      else case task_status_of (tm_state tm) i of
             None \<Rightarrow> Inl (UnknownTask i)
           | Some from \<Rightarrow>
               (if from \<noteq> TaskRunning \<and> from \<noteq> TaskSuspendedSt
                then Inl (InvalidTransition i from st)
                else tm_apply (TaskFinished i st d) tm))"

text \<open>
  The loop of \<open>cancel\<close> over the collected ids. An error of \<open>apply\<close> would leave the loop with
  the state reached so far; the tokens are triggered after the loop.
\<close>

definition cancel_detail :: "string \<Rightarrow> string \<Rightarrow> string" where
  "cancel_detail root i =
     (if i = root then ''canceled by user'' else ''canceled via parent task'')"

fun cancel_loop ::
  "string \<Rightarrow> string list \<Rightarrow> task_state \<Rightarrow> task_event list \<Rightarrow> nat list \<Rightarrow>
     task_state \<times> (task_error, task_event list \<times> nat list) result" where
  "cancel_loop root [] s es toks = (s, Inr (es, toks))"
| "cancel_loop root (i # is) s es toks =
     (case task_status_of s i of
        None \<Rightarrow> cancel_loop root is s es toks
      | Some TaskQueued \<Rightarrow> cancel_loop root is (remove_queued i s) es toks
      | Some st \<Rightarrow>
          (if st = TaskRunning \<or> st = TaskSuspendedSt
           then (let toks' = (case task_token_of s i of Some t \<Rightarrow> toks @ [t] | None \<Rightarrow> toks);
                     e = TaskFinished i TaskCanceled (Some (cancel_detail root i))
                 in case task_apply e s of
                      Inl err \<Rightarrow> (s, Inl err)
                    | Inr s' \<Rightarrow> cancel_loop root is s' (es @ [e]) toks')
           else cancel_loop root is s es toks))"

definition tm_cancel ::
  "string \<Rightarrow> task_manager \<Rightarrow> (task_manager \<times> (task_error, task_event list) result) option" where
  "tm_cancel i tm =
     (if task_status_of (tm_state tm) i = None then Some (tm, Inl (UnknownTask i))
      else case subtree (tm_state tm) i of
             None \<Rightarrow> None
           | Some ids \<Rightarrow>
               Some (case cancel_loop i ids (tm_state tm) [] [] of
                       (s, Inl e) \<Rightarrow> (tm\<lparr>tm_state := s\<rparr>, Inl e)
                     | (s, Inr (es, toks)) \<Rightarrow>
                         (tm\<lparr>tm_state := s, tm_cancelled := tm_cancelled tm \<union> set toks\<rparr>, Inr es)))"

text \<open>\<open>replay\<close> folds a log and stops at the first event the state machine refuses.\<close>

fun tm_replay :: "task_event list \<Rightarrow> nat \<Rightarrow> task_manager \<Rightarrow> task_manager \<times> (task_error, nat) result" where
  "tm_replay [] n tm = (tm, Inr n)"
| "tm_replay (e # es) n tm =
     (case task_apply e (tm_state tm) of
        Inl err \<Rightarrow> (tm, Inl err)
      | Inr s \<Rightarrow> tm_replay es (Suc n) (tm\<lparr>tm_state := s\<rparr>))"

subsection \<open>The command alphabet\<close>

datatype task_command =
    Register task_kind "string option"
  | RegisterShared task_kind "string option" nat
  | StartTask string
  | FinishTask string task_status "string option"
  | CancelTask string

text \<open>
  One accepted command with the events it returns. \<open>Inl None\<close> is a command that does not
  return; \<open>Inl (Some e)\<close> is a rejected one.
\<close>

definition of_call ::
  "(task_error, 's \<times> 'x) result option \<Rightarrow> ('s \<times> 'x \<Rightarrow> 's \<times> 'e list) \<Rightarrow>
     (task_error option, 's \<times> 'e list) result" where
  "of_call r f = (case r of None \<Rightarrow> Inl None | Some (Inl e) \<Rightarrow> Inl (Some e) | Some (Inr x) \<Rightarrow> Inr (f x))"

fun task_exec ::
  "task_manager \<Rightarrow> task_command \<Rightarrow> (task_error option, task_manager \<times> task_event list) result" where
  "task_exec tm (Register k p) = of_call (tm_register k p tm) (\<lambda>(tm', i). (tm', []))"
| "task_exec tm (RegisterShared k p tok) =
     of_call (tm_register_with_cancel_token k p tok tm) (\<lambda>(tm', i). (tm', []))"
| "task_exec tm (StartTask i) = of_call (Some (tm_start i tm)) (\<lambda>(tm', e). (tm', [e]))"
| "task_exec tm (FinishTask i st d) = of_call (Some (tm_finish i st d tm)) (\<lambda>(tm', e). (tm', [e]))"
| "task_exec tm (CancelTask i) =
     (case tm_cancel i tm of
        None \<Rightarrow> Inl None
      | Some (tm', Inl e) \<Rightarrow> Inl (Some e)
      | Some (tm', Inr es) \<Rightarrow> Inr (tm', es))"

end
