(* ===== verification/TaskProps.thy ===== *)
theory TaskProps
  imports TaskManager
begin

text \<open>
  Properties of the background task manager: replaying the persisted log rebuilds every started
  task, a cancel reaches the whole subtree and nothing else, it returns on every manager driven
  by its own commands, and a task table replayed from a log with a parent cycle makes it loop.
\<close>

subsection \<open>The view that events determine\<close>

text \<open>Queued tasks are transient: no event tells of them, so the view leaves them out.\<close>

definition task_view :: "task_state \<Rightarrow> string \<Rightarrow> task_snapshot option" where
  "task_view s i =
     (case task_lookup s i of
        None \<Rightarrow> None
      | Some t \<Rightarrow> if tk_status t = TaskQueued then None else Some t)"

definition task_inv :: "task_state \<Rightarrow> bool" where
  "task_inv s \<longleftrightarrow> bt_wf (tks_tasks s) \<and>
     (\<forall>i r. bt_get (tks_tasks s) i = Some r \<longrightarrow>
        tk_id (tr_snapshot r) = i \<and> tk_output_seq (tr_snapshot r) = 0 \<and> tk_output_bytes (tr_snapshot r) = 0)"

fun event_enabled :: "task_event \<Rightarrow> (string \<Rightarrow> task_snapshot option) \<Rightarrow> bool" where
  "event_enabled (TaskStarted i k p) v = True"
| "event_enabled (TaskSuspended i) v = (map_option tk_status (v i) = Some TaskRunning)"
| "event_enabled (TaskResumed i) v = (map_option tk_status (v i) = Some TaskSuspendedSt)"
| "event_enabled (TaskFinished i st d) v =
     (is_terminal_status st \<and> map_option tk_status (v i) \<in> {Some TaskRunning, Some TaskSuspendedSt})"

definition restatus :: "task_status \<Rightarrow> string option \<Rightarrow> task_snapshot option \<Rightarrow> task_snapshot option" where
  "restatus st d = map_option (\<lambda>t. t\<lparr>tk_status := st, tk_detail := d\<rparr>)"

fun view_fold ::
  "task_event \<Rightarrow> (string \<Rightarrow> task_snapshot option) \<Rightarrow> (string \<Rightarrow> task_snapshot option)" where
  "view_fold (TaskStarted i k p) v =
     v(i \<mapsto> tr_snapshot (task_record_with_token i k p TaskRunning 0))"
| "view_fold (TaskSuspended i) v = v(i := restatus TaskSuspendedSt None (v i))"
| "view_fold (TaskResumed i) v = v(i := restatus TaskRunning None (v i))"
| "view_fold (TaskFinished i st d) v = v(i := restatus st d (v i))"

text \<open>The fold with a flag that stays true as long as every event was enabled.\<close>

fun checked_fold ::
  "task_event \<Rightarrow> (string \<Rightarrow> task_snapshot option) \<times> bool \<Rightarrow> (string \<Rightarrow> task_snapshot option) \<times> bool" where
  "checked_fold e (v, ok) = (view_fold e v, ok \<and> event_enabled e v)"

lemmas view_defs = task_view_def task_lookup_def task_inv_def log_event_def
  task_transition_def set_status_def restatus_def is_terminal_status_def task_record_with_token_def

fun event_task :: "task_event \<Rightarrow> string" where
  "event_task (TaskStarted i _ _) = i"
| "event_task (TaskSuspended i) = i"
| "event_task (TaskResumed i) = i"
| "event_task (TaskFinished i _ _) = i"

lemma view_fold_other: "j \<noteq> event_task e \<Longrightarrow> view_fold e v j = v j"
  by (cases e) auto

text \<open>An accepted event writes one record, logs itself, and was enabled.\<close>

lemma task_apply_cases:
  assumes inv: "task_inv s" and acc: "task_apply e s = Inr s'"
  shows "\<exists>r. tks_tasks s' = bt_put (event_task e) r (tks_tasks s) \<and> tks_log s' = tks_log s @ [e] \<and>
           rec_status r \<noteq> TaskQueued \<and> tk_id (tr_snapshot r) = event_task e \<and>
           tk_output_seq (tr_snapshot r) = 0 \<and> tk_output_bytes (tr_snapshot r) = 0 \<and>
           Some (tr_snapshot r) = view_fold e (task_view s) (event_task e) \<and>
           event_enabled e (task_view s)"
proof (cases e)
  case (TaskStarted i k p)
  with inv acc show ?thesis
    by (cases "bt_get (tks_tasks s) i") (auto simp: view_defs)
next
  case (TaskSuspended i)
  with inv acc show ?thesis
    by (cases "bt_get (tks_tasks s) i") (auto simp: view_defs split: if_splits)
next
  case (TaskResumed i)
  with inv acc show ?thesis
    by (cases "bt_get (tks_tasks s) i") (auto simp: view_defs split: if_splits)
next
  case (TaskFinished i st d)
  with inv acc show ?thesis
    by (cases "bt_get (tks_tasks s) i") (auto simp: view_defs split: if_splits)
qed

lemma enabled_task_apply:
  assumes "event_enabled e (task_view s)"
  shows "\<exists>s'. task_apply e s = Inr s'"
proof (cases e)
  case (TaskStarted i k p)
  then show ?thesis
    by (cases "bt_get (tks_tasks s) i") simp_all
qed (use assms in \<open>auto simp: view_defs split: option.splits if_splits\<close>)

lemma task_apply_inv:
  assumes "task_inv s" and "task_apply e s = Inr s'"
  shows "task_inv s'"
  using task_apply_cases [OF assms] assms(1) by (auto simp: task_inv_def bt_wf_put bt_get_put split: if_splits)

lemma task_apply_log: "task_inv s \<Longrightarrow> task_apply e s = Inr s' \<Longrightarrow> tks_log s' = tks_log s @ [e]"
  using task_apply_cases by blast

lemma task_apply_view:
  assumes "task_inv s" and "task_apply e s = Inr s'"
  shows "task_view s' = view_fold e (task_view s)"
proof
  fix j
  from task_apply_cases [OF assms] obtain r where
    r: "tks_tasks s' = bt_put (event_task e) r (tks_tasks s)" "rec_status r \<noteq> TaskQueued"
      "Some (tr_snapshot r) = view_fold e (task_view s) (event_task e)"
    by blast
  show "task_view s' j = view_fold e (task_view s) j"
  proof (cases "j = event_task e")
    case True
    then show ?thesis
      using r(1,2) by (simp add: r(3) [symmetric] task_view_def task_lookup_def)
  next
    case False
    with r(1) show ?thesis by (simp add: view_fold_other task_view_def task_lookup_def)
  qed
qed

lemma task_apply_enabled: "task_inv s \<Longrightarrow> task_apply e s = Inr s' \<Longrightarrow> event_enabled e (task_view s)"
  using task_apply_cases by blast

lemma task_apply_checked:
  assumes "task_inv s" and "task_apply e s = Inr s'"
  shows "(task_view s', True) = checked_fold e (task_view s, True)"
  using task_apply_view [OF assms] task_apply_enabled [OF assms] by simp

subsection \<open>Commands against the view\<close>

lemma task_inv_put_queued:
  assumes "task_inv s" and "bt_get (tks_tasks s) i = None"
  shows "task_inv (s\<lparr>tks_tasks := bt_put i (task_record_with_token i k p TaskQueued tok) (tks_tasks s)\<rparr>)"
    and "task_view (s\<lparr>tks_tasks := bt_put i (task_record_with_token i k p TaskQueued tok) (tks_tasks s)\<rparr>) = task_view s"
  using assms
  by (auto simp: task_inv_def task_view_def task_lookup_def bt_wf_put bt_get_put task_record_with_token_def)

lemma allocate_fresh:
  assumes "allocate_task_id ns m n = Some (i, n')"
  shows "bt_get m i = None \<and> (\<exists>k. i = mk_task_id ns k \<and> n' = k + 1)"
proof -
  have "bt_get m (fst r) = None \<and> (\<exists>k. fst r = mk_task_id ns k \<and> snd r = k + 1)"
    if "allocate_task_id ns m n = Some r" for r
  proof (rule allocate_task_id.raw_induct [where
      P = "\<lambda>ns m n r. bt_get m (fst r) = None \<and> (\<exists>k. fst r = mk_task_id ns k \<and> snd r = k + 1)", OF _ that])
    fix f ns m n r
    assume IH: "\<And>ns m n r. f ns m n = Some r \<Longrightarrow>
        bt_get m (fst r) = None \<and> (\<exists>k. fst r = mk_task_id ns k \<and> snd r = k + 1)"
      and eq: "(let i = mk_task_id ns n
        in if bt_get m i = None then Some (i, n + 1) else f ns m (n + 1)) = Some r"
    show "bt_get m (fst r) = None \<and> (\<exists>k. fst r = mk_task_id ns k \<and> snd r = k + 1)"
      using eq IH by (auto simp: Let_def split: if_splits)
  qed
  from this [OF assms] show ?thesis by simp
qed

lemma insert_queued_view:
  assumes "task_inv s" and "insert_queued_with_cancel_token ns k p tok n s = Some (Inr (i, n', s'))"
  shows "task_inv s' \<and> task_view s' = task_view s \<and> tks_log s' = tks_log s"
  using assms task_inv_put_queued
  by (auto simp: insert_queued_with_cancel_token_def dest!: allocate_fresh split: option.splits)

lemma remove_queued_view:
  assumes "task_inv s"
  shows "task_inv (remove_queued i s) \<and> task_view (remove_queued i s) = task_view s \<and>
    tks_log (remove_queued i s) = tks_log s"
  using assms
  by (auto simp: remove_queued_def task_inv_def task_view_def task_lookup_def task_status_of_def
      bt_wf_del bt_get_del fun_eq_iff split: if_splits)

text \<open>What a cancel does to one record of the subtree.\<close>

definition is_active :: "task_status \<Rightarrow> bool" where
  "is_active st \<longleftrightarrow> st = TaskRunning \<or> st = TaskSuspendedSt"

definition canceled_record :: "string \<Rightarrow> string \<Rightarrow> task_record option \<Rightarrow> task_record option" where
  "canceled_record root i m =
     (case m of
        None \<Rightarrow> None
      | Some r \<Rightarrow>
          (if rec_status r = TaskQueued then None
           else if is_active (rec_status r)
           then Some (set_status TaskCanceled (Some (cancel_detail root i)) r) else Some r))"

lemma cancel_loop_queued:
  "task_status_of s i = Some TaskQueued \<Longrightarrow>
     cancel_loop root (i # is) s es toks = cancel_loop root is (remove_queued i s) es toks"
  by simp

lemma cancel_loop_terminal:
  "task_status_of s i = Some st \<Longrightarrow> is_terminal_status st \<Longrightarrow>
     cancel_loop root (i # is) s es toks = cancel_loop root is s es toks"
  by (auto simp: is_terminal_status_def)

lemma finish_active:
  assumes "bt_get (tks_tasks s) i = Some r" and "is_active (rec_status r)"
  shows "task_apply (TaskFinished i TaskCanceled d) s =
    Inr (log_event (TaskFinished i TaskCanceled d)
      (s\<lparr>tks_tasks := bt_put i (set_status TaskCanceled d r) (tks_tasks s)\<rparr>))"
  using assms by (auto simp: is_active_def is_terminal_status_def)

lemma cancel_loop_active:
  assumes r: "bt_get (tks_tasks s) i = Some r" and active: "is_active (rec_status r)"
    and s1: "task_apply (TaskFinished i TaskCanceled (Some (cancel_detail root i))) s = Inr s1"
  shows "cancel_loop root (i # is) s es toks =
    cancel_loop root is s1 (es @ [TaskFinished i TaskCanceled (Some (cancel_detail root i))])
      (toks @ [tr_token r])"
  using active r s1
  by (auto simp: is_active_def task_status_of_def task_token_of_def Let_def simp del: task_apply.simps)

lemma status_cases:
  obtains "st = TaskQueued" | "is_active st" | "is_terminal_status st"
  by (cases st) (auto simp: is_active_def is_terminal_status_def)

lemma cancel_loop_view:
  assumes "task_inv s" and "cancel_loop root is s es toks = (s', Inr (es', toks'))"
  shows "\<exists>new. es' = es @ new \<and> task_inv s' \<and> tks_log s' = tks_log s @ new \<and>
           (task_view s', True) = fold checked_fold new (task_view s, True)"
  using assms
proof (induction "is" arbitrary: s es toks)
  case Nil
  then show ?case by simp
next
  case (Cons i "is")
  show ?case
  proof (cases "bt_get (tks_tasks s) i")
    case None
    with Cons show ?thesis by (simp add: task_status_of_def)
  next
    case (Some r)
    then have st: "task_status_of s i = Some (rec_status r)"
      by (simp add: task_status_of_def)
    show ?thesis
    proof (cases rule: status_cases [of "rec_status r"])
      case 1
      have q: "task_inv (remove_queued i s)" "task_view (remove_queued i s) = task_view s"
        "tks_log (remove_queued i s) = tks_log s"
        using remove_queued_view [OF Cons.prems(1)] by simp_all
      show ?thesis
        using Cons.IH [OF q(1)] Cons.prems(2) 1 st by (simp add: q(2,3))
    next
      case 3
      with Cons st show ?thesis by (simp add: cancel_loop_terminal del: cancel_loop.simps)
    next
      case active: 2
      let ?e = "TaskFinished i TaskCanceled (Some (cancel_detail root i))"
      obtain s1 where s1: "task_apply ?e s = Inr s1"
        using finish_active [OF Some active] by blast
      have inv1: "task_inv s1"
        using Cons.prems(1) s1 by (rule task_apply_inv)
      obtain new where new: "es' = (es @ [?e]) @ new" "task_inv s'" "tks_log s' = tks_log s1 @ new"
           "(task_view s', True) = fold checked_fold new (task_view s1, True)"
        using Cons.IH [OF inv1 Cons.prems(2) [unfolded cancel_loop_active [OF Some active s1]]] by blast
      then show ?thesis
        using task_apply_checked [OF Cons.prems(1) s1] task_apply_log [OF Cons.prems(1) s1]
        by (intro exI [of _ "?e # new"]) (simp del: checked_fold.simps)
    qed
  qed
qed

text \<open>The manager's own commands keep the invariant, and the events they return move the view.\<close>

lemma tm_apply_step:
  assumes "task_inv (tm_state tm)" and "tm_apply e tm = Inr (tm', e')"
  shows "task_inv (tm_state tm') \<and> (task_view (tm_state tm'), True) = fold checked_fold [e'] (task_view (tm_state tm), True)"
  using assms task_apply_inv task_apply_checked
  by (auto simp: tm_apply_def map_sum_def split: sum.splits simp del: checked_fold.simps)

lemma inserted_elim:
  assumes "map_option (map_sum id (\<lambda>(i, n, s). (tm\<lparr>tm_state := s, tm_next := n\<rparr>, i))) r = Some (Inr (tm', i))"
  obtains n s where "r = Some (Inr (i, n, s))" "tm' = tm\<lparr>tm_state := s, tm_next := n\<rparr>"
  using assms by (cases r rule: option.exhaust; cases "the r") auto

lemma tm_register_step:
  assumes "task_inv (tm_state tm)" and "tm_register k p tm = Some (Inr (tm', i))"
  shows "task_inv (tm_state tm') \<and> task_view (tm_state tm') = task_view (tm_state tm) \<and>
    tks_log (tm_state tm') = tks_log (tm_state tm)"
proof -
  let ?s = "(tm_state tm)\<lparr>tks_next_token := Suc (tks_next_token (tm_state tm))\<rparr>"
  have "task_inv ?s" "task_view ?s = task_view (tm_state tm)"
    using assms(1) by (simp_all add: task_inv_def task_view_def task_lookup_def fun_eq_iff)
  then show ?thesis
    using assms(2) unfolding tm_register_def insert_queued_def
    by (elim inserted_elim) (use insert_queued_view [of ?s] in simp)
qed

lemma tm_register_shared_step:
  assumes "task_inv (tm_state tm)" and "tm_register_with_cancel_token k p tok tm = Some (Inr (tm', i))"
  shows "task_inv (tm_state tm') \<and> task_view (tm_state tm') = task_view (tm_state tm) \<and>
    tks_log (tm_state tm') = tks_log (tm_state tm)"
  using assms(2) unfolding tm_register_with_cancel_token_def
  by (elim inserted_elim) (use insert_queued_view [OF assms(1)] in simp)

lemma tm_start_is_apply:
  assumes "tm_start i tm = Inr x"
  obtains r where "bt_get (tks_tasks (tm_state tm)) i = Some r" "rec_status r = TaskQueued"
    "tm_apply (TaskStarted i (tk_kind (tr_snapshot r)) (rec_parent r)) tm = Inr x"
  using assms by (auto simp: tm_start_def split: option.splits if_splits)

lemma tm_finish_is_apply:
  "tm_finish i st d tm = Inr x \<Longrightarrow> tm_apply (TaskFinished i st d) tm = Inr x"
  by (auto simp: tm_finish_def split: option.splits if_splits)

lemma tm_cancel_elim:
  assumes "tm_cancel i tm = Some (tm', Inr es)"
  obtains ids s toks where "subtree (tm_state tm) i = Some ids"
    "cancel_loop i ids (tm_state tm) [] [] = (s, Inr (es, toks))"
    "tm' = tm\<lparr>tm_state := s, tm_cancelled := tm_cancelled tm \<union> set toks\<rparr>"
  using assms by (auto simp: tm_cancel_def split: option.splits if_splits prod.splits sum.splits)

lemma task_exec_elim:
  assumes "task_exec tm c = Inr (tm', es)"
  obtains (register) k p i where "c = Register k p" "tm_register k p tm = Some (Inr (tm', i))" "es = []"
  | (shared) k p tok i where "c = RegisterShared k p tok"
      "tm_register_with_cancel_token k p tok tm = Some (Inr (tm', i))" "es = []"
  | (start) i e where "c = StartTask i" "tm_start i tm = Inr (tm', e)" "es = [e]"
  | (finish) i st d e where "c = FinishTask i st d" "tm_finish i st d tm = Inr (tm', e)" "es = [e]"
  | (cancel) i where "c = CancelTask i" "tm_cancel i tm = Some (tm', Inr es)"
  using assms by (cases c) (auto simp: of_call_def split: option.splits sum.splits)

lemma task_exec_step:
  assumes inv: "task_inv (tm_state tm)" and ex: "task_exec tm c = Inr (tm', es)"
  shows "task_inv (tm_state tm') \<and>
    (task_view (tm_state tm'), True) = fold checked_fold es (task_view (tm_state tm), True)"
  using ex
proof (cases rule: task_exec_elim)
  case register
  with inv tm_register_step show ?thesis by fastforce
next
  case shared
  with inv tm_register_shared_step show ?thesis by fastforce
next
  case start
  then show ?thesis
    by (metis inv tm_start_is_apply tm_apply_step)
next
  case finish
  then show ?thesis
    by (metis inv tm_finish_is_apply tm_apply_step)
next
  case (cancel i)
  from cancel(2) show ?thesis
  proof (cases rule: tm_cancel_elim)
    case (1 ids s toks)
    with cancel_loop_view [OF inv] show ?thesis by fastforce
  qed
qed

interpretation tasks: event_sourced task_exec "\<lambda>tm. (task_view (tm_state tm), True)" checked_fold
  "\<lambda>tm. task_inv (tm_state tm)" "task_manager_new ns n0"
proof unfold_locales
  show "task_inv (tm_state (task_manager_new ns n0))"
    by (simp add: task_manager_new_def task_state_new_def task_inv_def)
qed (use task_exec_step in blast)+

subsection \<open>Replay\<close>

definition no_queued :: "task_state \<Rightarrow> bool" where
  "no_queued s \<longleftrightarrow> (\<forall>i. task_status_of s i \<noteq> Some TaskQueued)"

lemma task_apply_no_queued:
  assumes "task_inv s" and "task_apply e s = Inr s'" and "no_queued s"
  shows "no_queued s'"
proof -
  from task_apply_cases [OF assms(1,2)] obtain r where
    "tks_tasks s' = bt_put (event_task e) r (tks_tasks s)" "rec_status r \<noteq> TaskQueued"
    by blast
  then show ?thesis
    using assms(3) by (simp add: no_queued_def task_status_of_def bt_get_put)
qed

lemma no_queued_view: "no_queued s \<Longrightarrow> task_lookup s = task_view s"
  by (auto simp: no_queued_def task_status_of_def task_view_def task_lookup_def fun_eq_iff split: option.splits)

lemma fold_checked_False: "snd (fold checked_fold l (v, False)) = False"
  by (induction l arbitrary: v) simp_all

lemma fold_checked_Cons:
  assumes "fold checked_fold (e # l) (v, True) = (v', True)"
  shows "event_enabled e v \<and> fold checked_fold l (view_fold e v, True) = (v', True)"
  using assms fold_checked_False [of l "view_fold e v"] by (cases "event_enabled e v") auto

lemma tm_replay_enabled:
  assumes "task_inv (tm_state tm)" and "no_queued (tm_state tm)"
    and "fold checked_fold l (task_view (tm_state tm), True) = (v, True)"
  shows "\<exists>tm'. tm_replay l n tm = (tm', Inr (n + length l)) \<and> task_lookup (tm_state tm') = v \<and>
           tks_log (tm_state tm') = tks_log (tm_state tm) @ l"
  using assms
proof (induction l arbitrary: n tm)
  case Nil
  then show ?case by (simp add: no_queued_view)
next
  case (Cons e l)
  note en = fold_checked_Cons [OF Cons.prems(3)]
  obtain s where s: "task_apply e (tm_state tm) = Inr s"
    using en enabled_task_apply by blast
  have "\<exists>tm'. tm_replay l (Suc n) (tm\<lparr>tm_state := s\<rparr>) = (tm', Inr (Suc n + length l)) \<and>
      task_lookup (tm_state tm') = v \<and> tks_log (tm_state tm') = tks_log s @ l"
    using Cons.IH [of "tm\<lparr>tm_state := s\<rparr>" "Suc n"] en task_apply_inv [OF Cons.prems(1) s]
      task_apply_no_queued [OF Cons.prems(1) s Cons.prems(2)] task_apply_view [OF Cons.prems(1) s]
    by simp
  then show ?case
    using s task_apply_log [OF Cons.prems(1) s] by auto
qed

lemma task_exec_log:
  assumes inv: "task_inv (tm_state tm)" and ex: "task_exec tm c = Inr (tm', es)"
  shows "tks_log (tm_state tm') = tks_log (tm_state tm) @ es"
proof -
  have ap: "tks_log (tm_state tm') = tks_log (tm_state tm) @ [e']" if "tm_apply e tm = Inr (tm', e')" for e e'
    using that task_apply_log [OF inv] by (auto simp: tm_apply_def map_sum_def split: sum.splits)
  from ex show ?thesis
  proof (cases rule: task_exec_elim)
    case register
    with tm_register_step [OF inv] show ?thesis by simp
  next
    case shared
    with tm_register_shared_step [OF inv] show ?thesis by simp
  next
    case start
    with ap show ?thesis by (metis tm_start_is_apply)
  next
    case finish
    with ap show ?thesis by (metis tm_finish_is_apply)
  next
    case (cancel i)
    from cancel(2) show ?thesis
    proof (cases rule: tm_cancel_elim)
      case (1 ids s toks)
      with cancel_loop_view [OF inv] show ?thesis by fastforce
    qed
  qed
qed

lemma run_log:
  assumes "run_cmds task_exec (task_manager_new ns n0, []) cs = (tm, l)"
  shows "tks_log (tm_state tm) = l"
proof -
  have "task_inv (tm_state tm) \<and> tks_log (tm_state tm) = l"
  proof (rule run_cmds_invariant [where I = "\<lambda>tm l. task_inv (tm_state tm) \<and> tks_log (tm_state tm) = l",
        OF _ _ assms])
    show "task_inv (tm_state (task_manager_new ns n0)) \<and> tks_log (tm_state (task_manager_new ns n0)) = []"
      by (simp add: task_manager_new_def task_state_new_def task_inv_def)
  qed (use task_exec_step task_exec_log in blast)
  then show ?thesis by simp
qed

lemma task_view_new: "task_view (tm_state (task_manager_new ns n)) = (\<lambda>_. None)"
  by (simp add: task_manager_new_def task_state_new_def task_view_def task_lookup_def fun_eq_iff)

text \<open>
  The log is enough to restart from. Whatever commands a manager has served, replaying the
  events it returned on a fresh manager accepts every one of them, and the fresh manager then
  holds exactly the tasks that ever started, each with the kind, parent, status and detail it
  has in the live manager; only tasks still queued are forgotten.
\<close>

theorem task_replay_rebuilds_started_tasks:
  assumes "run_cmds task_exec (task_manager_new ns n0, []) cs = (tm, l)"
  shows "\<exists>tm'. tm_replay l 0 (task_manager_new ns' n0') = (tm', Inr (length l)) \<and>
           tks_log (tm_state tm') = l \<and> tks_log (tm_state tm) = l \<and>
           (\<forall>i. task_lookup (tm_state tm') i =
              (case task_lookup (tm_state tm) i of
                 None \<Rightarrow> None
               | Some t \<Rightarrow> if tk_status t = TaskQueued then None else Some t))"
proof -
  let ?new = "task_manager_new ns' n0'"
  have "fold checked_fold l (task_view (tm_state ?new), True) = (task_view (tm_state tm), True)"
    using tasks.replay_rebuilds [OF assms] by (simp add: task_view_new)
  moreover have "task_inv (tm_state ?new)" "no_queued (tm_state ?new)" "tks_log (tm_state ?new) = []"
    by (simp_all add: task_manager_new_def task_state_new_def task_inv_def no_queued_def task_status_of_def)
  ultimately obtain tm' where "tm_replay l 0 ?new = (tm', Inr (length l))"
      "task_lookup (tm_state tm') = task_view (tm_state tm)" "tks_log (tm_state tm') = l"
    using tm_replay_enabled [of ?new l "task_view (tm_state tm)" 0] by auto
  then show ?thesis
    using run_log [OF assms] by (auto simp: task_view_def)
qed

lemma task_replay_rebuilds_started_tasks_witness:
  "\<exists>(tm :: task_manager) tm' i. tm_replay (tks_log (tm_state tm)) 0 (task_manager_new ''b'' 7) = (tm', Inr 1) \<and>
     task_lookup (tm_state tm) i \<noteq> None \<and> task_lookup (tm_state tm') i = task_lookup (tm_state tm) i"
proof -
  let ?cs = "[Register AgentRunTask None, StartTask ''task_a-1'']"
  obtain tm l where run: "run_cmds task_exec (task_manager_new ''a'' 1, []) ?cs = (tm, l)"
    by force
  have tm: "length l = 1" "\<exists>t. task_lookup (tm_state tm) ''task_a-1'' = Some t \<and> tk_status t = TaskRunning"
    using run
    by (auto simp: task_manager_new_def task_state_new_def tm_register_def insert_queued_def
        insert_queued_with_cancel_token_def allocate_task_id.simps Let_def mk_task_id_def dec_eval
        of_call_def tm_start_def tm_apply_def task_record_with_token_def log_event_def task_lookup_def)
  from task_replay_rebuilds_started_tasks [OF run, of "''b''" 7] obtain tm' where
    "tm_replay l 0 (task_manager_new ''b'' 7) = (tm', Inr (length l))" "tks_log (tm_state tm) = l"
    "task_lookup (tm_state tm') ''task_a-1'' =
       (case task_lookup (tm_state tm) ''task_a-1'' of
          None \<Rightarrow> None | Some t \<Rightarrow> if tk_status t = TaskQueued then None else Some t)"
    by blast
  then show ?thesis
    using tm by (intro exI [of _ tm] exI [of _ tm'] exI [of _ "''task_a-1''"]) auto
qed

subsection \<open>Parents and the subtree walk\<close>

text \<open>\<open>(c, p)\<close> when the table records \<open>p\<close> as the parent of \<open>c\<close>.\<close>

definition child_rel :: "(string, task_record) btree \<Rightarrow> (string \<times> string) set" where
  "child_rel m = {(c, p). \<exists>r. (c, r) \<in> set m \<and> rec_parent r = Some p}"

lemma set_children_of: "set (children_of m p) = {c. (c, p) \<in> child_rel m}"
  by (auto simp: children_of_def child_rel_def) force+

lemma kid_rel_children_of: "kid_rel (children_of m) = child_rel m"
  by (auto simp: kid_rel_def set_children_of)

subsection \<open>The parent order of a manager\<close>

text \<open>
  Every id the manager allocates is numbered, and a task's parent has a smaller number, as long
  as the counter has not wrapped.
\<close>

definition id_rank :: "string \<Rightarrow> string \<Rightarrow> nat" where
  "id_rank ns i = undec (drop (length ns + 6) i)"

definition numbered :: "task_manager \<Rightarrow> bool" where
  "numbered tm \<longleftrightarrow> (\<forall>i r. bt_get (tks_tasks (tm_state tm)) i = Some r \<longrightarrow>
     (\<exists>n. i = mk_task_id (tm_namespace tm) n \<and> unat n < unat (tm_next tm) \<and>
        (\<forall>p. rec_parent r = Some p \<longrightarrow> id_rank (tm_namespace tm) p < unat n)))"

lemma id_rank_mk [simp]: "id_rank ns (mk_task_id ns n) = unat n"
  by (simp add: id_rank_def mk_task_id_def numeral_eq_Suc)

lemma numberedD:
  "numbered tm \<Longrightarrow> bt_get (tks_tasks (tm_state tm)) i = Some r \<Longrightarrow>
     \<exists>n. i = mk_task_id (tm_namespace tm) n \<and> unat n < unat (tm_next tm) \<and>
        (\<forall>p. rec_parent r = Some p \<longrightarrow> id_rank (tm_namespace tm) p < unat n)"
  by (simp add: numbered_def)

lemma numbered_wf:
  assumes "numbered tm" and "bt_wf (tks_tasks (tm_state tm))"
  shows "wf (child_rel (tks_tasks (tm_state tm)))"
proof (rule wf_subset [OF wf_measure])
  let ?rank = "id_rank (tm_namespace tm)"
  show "child_rel (tks_tasks (tm_state tm)) \<subseteq> measure (\<lambda>i. unat (tm_next tm) - ?rank i)"
  proof (clarsimp simp: child_rel_def)
    fix c p r
    assume "(c, r) \<in> set (tks_tasks (tm_state tm))" and p: "rec_parent r = Some p"
    then have "bt_get (tks_tasks (tm_state tm)) c = Some r"
      using assms(2) by (simp add: bt_get_iff_mem)
    with numberedD [OF assms(1)] p have "?rank c < unat (tm_next tm)" "?rank p < ?rank c"
      by fastforce+
    then show "unat (tm_next tm) - ?rank c < unat (tm_next tm) - ?rank p"
      by simp
  qed
qed

text \<open>Commands keep the numbering: a registration takes the counter's next value, which is free.\<close>

lemma allocate_numbered:
  assumes "numbered tm" and "tm_namespace tm = ns" and "tks_tasks (tm_state tm) = m"
  shows "allocate_task_id ns m (tm_next tm) = Some (mk_task_id ns (tm_next tm), tm_next tm + 1)"
proof -
  have "bt_get m (mk_task_id ns (tm_next tm)) = None"
  proof (rule ccontr)
    assume "bt_get m (mk_task_id ns (tm_next tm)) \<noteq> None"
    then obtain n where "mk_task_id ns (tm_next tm) = mk_task_id ns n" "unat n < unat (tm_next tm)"
      using assms unfolding numbered_def by fastforce
    then show False
      by (metis id_rank_mk less_irrefl)
  qed
  then show ?thesis
    by (simp add: allocate_task_id.simps Let_def)
qed

lemma numbered_insert:
  assumes num: "numbered tm" and room: "unat (tm_next tm) < u64_max"
    and ns: "tm_namespace tm = ns" and m: "tks_tasks s = tks_tasks (tm_state tm)"
    and ins: "insert_queued_with_cancel_token ns k p tok (tm_next tm) s = Some (Inr (i, n', s'))"
  shows "numbered (tm\<lparr>tm_state := s', tm_next := n'\<rparr>) \<and> unat n' = Suc (unat (tm_next tm))"
proof -
  let ?n = "tm_next tm"
  have al: "allocate_task_id ns (tks_tasks s) ?n = Some (mk_task_id ns ?n, ?n + 1)"
    using allocate_numbered [OF num ns] m by simp
  have n': "n' = ?n + 1" and i: "i = mk_task_id ns ?n"
    and s': "tks_tasks s' = bt_put i (task_record_with_token i k p TaskQueued tok) (tks_tasks s)"
    and par: "\<And>q. p = Some q \<Longrightarrow> bt_get (tks_tasks s) q \<noteq> None"
    using ins al by (auto simp: insert_queued_with_cancel_token_def split: option.splits if_splits)
  have "id_rank ns q < unat ?n" if "p = Some q" for q
    using par [OF that] num ns m unfolding numbered_def by fastforce
  then show ?thesis
    using num ns m room unfolding numbered_def
    by (auto simp: n' i s' bt_get_put unat_Suc_u64 task_record_with_token_def split: if_splits)
      (metis less_SucI)
qed

lemma numbered_mono:
  assumes "numbered tm" and "tm_namespace tm' = tm_namespace tm" and "tm_next tm' = tm_next tm"
    and "\<And>i r. bt_get (tks_tasks (tm_state tm')) i = Some r \<Longrightarrow>
           \<exists>r0. bt_get (tks_tasks (tm_state tm)) i = Some r0 \<and> rec_parent r0 = rec_parent r"
  shows "numbered tm'"
  unfolding numbered_def using numberedD [OF assms(1)] assms(2-4) by metis

subsection \<open>What the cancel loop does\<close>

lemma bt_get_remove_queued:
  "bt_wf (tks_tasks s) \<Longrightarrow> task_status_of s i = Some TaskQueued \<Longrightarrow>
     bt_get (tks_tasks (remove_queued i s)) = (bt_get (tks_tasks s))(i := None)"
  by (simp add: remove_queued_def bt_get_del)

lemma canceled_record_idem: "canceled_record root i (canceled_record root i m) = canceled_record root i m"
  by (auto simp: canceled_record_def is_active_def set_status_def split: option.splits)

definition cancel_fun ::
  "string \<Rightarrow> string set \<Rightarrow> (string \<Rightarrow> task_record option) \<Rightarrow> string \<Rightarrow> task_record option" where
  "cancel_fun root J g j = (if j \<in> J then canceled_record root j (g j) else g j)"

definition active_tokens :: "string set \<Rightarrow> (string \<Rightarrow> task_record option) \<Rightarrow> nat set" where
  "active_tokens J g = {t. \<exists>j \<in> J. \<exists>r. g j = Some r \<and> is_active (rec_status r) \<and> t = tr_token r}"

lemma cancel_fun_insert:
  "cancel_fun root (insert i J) g = cancel_fun root J (g(i := canceled_record root i (g i)))"
  by (auto simp: cancel_fun_def canceled_record_idem fun_eq_iff)

lemma canceled_not_active: "canceled_record root i m = Some r \<Longrightarrow> \<not> is_active (rec_status r)"
  by (auto simp: canceled_record_def is_active_def set_status_def split: option.splits if_splits)

lemma active_tokens_insert:
  "active_tokens (insert i J) g =
     active_tokens {i} g \<union> active_tokens J (g(i := canceled_record root i (g i)))"
proof -
  have "(\<exists>r. (g(i := canceled_record root i (g i))) j = Some r \<and> is_active (rec_status r) \<and> t = tr_token r) \<longleftrightarrow>
      j \<noteq> i \<and> (\<exists>r. g j = Some r \<and> is_active (rec_status r) \<and> t = tr_token r)" for j t
    using canceled_not_active [of root i "g i"] by auto
  then show ?thesis
    unfolding active_tokens_def by blast
qed

lemma cancel_loop_spec:
  assumes "bt_wf (tks_tasks s)"
  shows "\<exists>s' es' toks'. cancel_loop root is s es toks = (s', Inr (es', toks')) \<and>
    bt_get (tks_tasks s') = cancel_fun root (set is) (bt_get (tks_tasks s)) \<and>
    set toks' = set toks \<union> active_tokens (set is) (bt_get (tks_tasks s))"
  using assms
proof (induction "is" arbitrary: s es toks)
  case Nil
  then show ?case by (simp add: cancel_fun_def active_tokens_def fun_eq_iff)
next
  case (Cons i "is")
  let ?g = "bt_get (tks_tasks s)"
  have step: ?case if "bt_wf (tks_tasks t)"
    and "cancel_loop root (i # is) s es toks = cancel_loop root is t es1 (toks @ new)"
    and "bt_get (tks_tasks t) = ?g(i := canceled_record root i (?g i))"
    and "set new = active_tokens {i} ?g" for t es1 new
    using Cons.IH [OF that(1), of es1 "toks @ new"] that(2-4)
    by (simp add: cancel_fun_insert active_tokens_insert [of i "set is" ?g root] Un_assoc
        del: cancel_loop.simps fun_upd_apply)
  show ?case
  proof (cases "?g i")
    case None
    then show ?thesis
      by (intro step [of s es "[]"])
        (auto simp: Cons.prems task_status_of_def canceled_record_def active_tokens_def)
  next
    case (Some r)
    then have st: "task_status_of s i = Some (rec_status r)"
      by (simp add: task_status_of_def)
    show ?thesis
    proof (cases rule: status_cases [of "rec_status r"])
      case 1
      then show ?thesis
        using Some st Cons.prems bt_get_remove_queued [OF Cons.prems, of i]
        by (intro step [of "remove_queued i s" es "[]"])
          (auto simp: remove_queued_def bt_wf_del canceled_record_def active_tokens_def is_active_def)
    next
      case 3
      then show ?thesis
        using Some st Cons.prems cancel_loop_terminal [OF st 3, of root "is" es toks]
        by (intro step [of s es "[]"])
          (auto simp: canceled_record_def active_tokens_def is_active_def
            is_terminal_status_def simp del: cancel_loop.simps)
    next
      case 2
      let ?d = "Some (cancel_detail root i)"
      show ?thesis
        using 2 Some st Cons.prems cancel_loop_active [OF Some 2 finish_active [OF Some 2]]
        by (intro step [of "log_event (TaskFinished i TaskCanceled ?d)
              (s\<lparr>tks_tasks := bt_put i (set_status TaskCanceled ?d r) (tks_tasks s)\<rparr>)"
            "es @ [TaskFinished i TaskCanceled ?d]" "[tr_token r]"])
          (auto simp: log_event_def bt_wf_put bt_get_put canceled_record_def active_tokens_def is_active_def
            simp del: cancel_loop.simps)
    qed
  qed
qed

text \<open>No command changes a recorded parent.\<close>

definition parents_kept :: "task_state \<Rightarrow> task_state \<Rightarrow> bool" where
  "parents_kept s s' \<longleftrightarrow> (\<forall>i r. bt_get (tks_tasks s') i = Some r \<longrightarrow>
     (\<exists>r0. bt_get (tks_tasks s) i = Some r0 \<and> rec_parent r0 = rec_parent r))"

lemma numbered_kept:
  "numbered tm \<Longrightarrow> tm_namespace tm' = tm_namespace tm \<Longrightarrow> tm_next tm' = tm_next tm \<Longrightarrow>
     parents_kept (tm_state tm) (tm_state tm') \<Longrightarrow> numbered tm'"
  by (rule numbered_mono) (auto simp: parents_kept_def)

lemma task_apply_parents:
  assumes "task_apply e s = Inr s'"
    and "\<And>i k p. e = TaskStarted i k p \<Longrightarrow> \<exists>r. bt_get (tks_tasks s) i = Some r \<and> rec_parent r = p"
  shows "parents_kept s s'"
proof (cases e)
  case (TaskStarted i k p)
  with assms show ?thesis
    by (fastforce simp: parents_kept_def log_event_def bt_get_put split: if_splits)
qed (use assms(1) in \<open>auto simp: parents_kept_def task_transition_def log_event_def set_status_def bt_get_put
      split: option.splits if_splits\<close>)

lemma canceled_record_parent:
  "canceled_record root i m = Some r \<Longrightarrow> \<exists>r0. m = Some r0 \<and> rec_parent r0 = rec_parent r"
  by (auto simp: canceled_record_def set_status_def split: option.splits if_splits)

lemma cancel_loop_parents:
  assumes "bt_wf (tks_tasks s)" and "cancel_loop root is s es toks = (s', r)"
  shows "parents_kept s s'"
  using cancel_loop_spec [OF assms(1), of root "is" es toks] assms(2)
  by (auto simp: parents_kept_def cancel_fun_def dest: canceled_record_parent split: if_splits)

lemma tm_apply_kept:
  assumes "tm_apply e tm = Inr (tm', e')" and "numbered tm"
    and "\<And>i k p. e = TaskStarted i k p \<Longrightarrow>
           \<exists>r. bt_get (tks_tasks (tm_state tm)) i = Some r \<and> rec_parent r = p"
  shows "numbered tm' \<and> tm_next tm' = tm_next tm"
proof -
  obtain s where s: "task_apply e (tm_state tm) = Inr s" "tm' = tm\<lparr>tm_state := s\<rparr>"
    using assms(1) by (auto simp: tm_apply_def map_sum_def split: sum.splits)
  from task_apply_parents [OF s(1) assms(3)] s(2) show ?thesis
    using numbered_kept [OF assms(2), of tm'] by simp
qed

lemma task_exec_numbered:
  assumes num: "numbered tm" and room: "unat (tm_next tm) < u64_max"
    and inv: "task_inv (tm_state tm)" and ex: "task_exec tm c = Inr (tm', es)"
  shows "numbered tm' \<and> unat (tm_next tm') \<le> Suc (unat (tm_next tm))"
  using ex
proof (cases rule: task_exec_elim)
  case (register k p i)
  from register(2) show ?thesis
    unfolding tm_register_def insert_queued_def
  proof (rule inserted_elim)
    fix n s
    assume ins: "insert_queued_with_cancel_token (tm_namespace tm) k p (tks_next_token (tm_state tm)) (tm_next tm) 
      ((tm_state tm)\<lparr>tks_next_token := Suc (tks_next_token (tm_state tm))\<rparr>) = Some (Inr (i, n, s))"
      and tm': "tm' = tm\<lparr>tm_state := s, tm_next := n\<rparr>"
    show ?thesis
      using numbered_insert [OF num room refl _ ins] by (simp add: tm')
  qed
next
  case (shared k p tok i)
  from shared(2) show ?thesis
    unfolding tm_register_with_cancel_token_def
  proof (rule inserted_elim)
    fix n s
    assume ins: "insert_queued_with_cancel_token (tm_namespace tm) k p tok (tm_next tm) (tm_state tm) = Some (Inr (i, n, s))"
      and tm': "tm' = tm\<lparr>tm_state := s, tm_next := n\<rparr>"
    show ?thesis
      using numbered_insert [OF num room refl _ ins] by (simp add: tm')
  qed
next
  case (start i e)
  from start(2) obtain r where "bt_get (tks_tasks (tm_state tm)) i = Some r"
    "tm_apply (TaskStarted i (tk_kind (tr_snapshot r)) (rec_parent r)) tm = Inr (tm', e)"
    by (rule tm_start_is_apply)
  then show ?thesis
    using tm_apply_kept [OF _ num] by fastforce
next
  case (finish i st d e)
  from tm_finish_is_apply [OF finish(2)] show ?thesis
    using tm_apply_kept [OF _ num] by fastforce
next
  case (cancel i)
  from cancel(2) show ?thesis
  proof (cases rule: tm_cancel_elim)
    case (1 ids s toks)
    have "bt_wf (tks_tasks (tm_state tm))"
      using inv by (simp add: task_inv_def)
    from cancel_loop_parents [OF this 1(2)] 1(3) show ?thesis
      using numbered_kept [OF num, of tm'] by simp
  qed
qed

lemma run_numbered:
  assumes "numbered tm" and "task_inv (tm_state tm)" and "unat (tm_next tm) + length cs \<le> u64_max"
    and "run_cmds task_exec (tm, l) cs = (tm', l')"
  shows "numbered tm' \<and> task_inv (tm_state tm')"
  using assms
proof (induction cs arbitrary: tm l)
  case Nil
  then show ?case by simp
next
  case (Cons c cs)
  show ?case
  proof (cases "task_exec tm c")
    case (Inl e)
    with Cons show ?thesis by simp
  next
    case (Inr x)
    obtain t es where t: "task_exec tm c = Inr (t, es)"
      using Inr by (cases x) simp
    have "unat (tm_next tm) < u64_max"
      using Cons.prems(3) by simp
    from task_exec_numbered [OF Cons.prems(1) this Cons.prems(2) t] task_exec_step [OF Cons.prems(2) t]
    show ?thesis
      using Cons.IH [of t "l @ es"] Cons.prems(3,4) t by simp
  qed
qed

text \<open>
  The life of a manager: commands, and logs that are replayed into it, in any order. What a log tells is
  the caller's; a replay may stop half-way.
\<close>

datatype task_input = Issue task_command | Replay "task_event list"

fun task_input_step :: "task_input \<Rightarrow> task_manager \<Rightarrow> task_manager" where
  "task_input_step (Issue c) tm = (case task_exec tm c of Inl _ \<Rightarrow> tm | Inr (tm', _) \<Rightarrow> tm')"
| "task_input_step (Replay es) tm = fst (tm_replay es 0 tm)"

definition task_life :: "task_input list \<Rightarrow> task_manager \<Rightarrow> task_manager" where
  "task_life = fold task_input_step"

lemma replay_inv: "task_inv (tm_state tm) \<Longrightarrow> task_inv (tm_state (fst (tm_replay es n tm)))"
  by (induction es n tm rule: tm_replay.induct) (auto split: sum.split dest: task_apply_inv)

lemma task_life_inv:
  assumes "task_inv (tm_state tm)"
  shows "task_inv (tm_state (task_life xs tm))"
  using assms
proof (induction xs arbitrary: tm)
  case (Cons x xs)
  have "task_inv (tm_state (task_input_step x tm))"
    using Cons.prems by (cases x) (auto simp: replay_inv split: sum.split dest: task_exec_step)
  then show ?case
    using Cons.IH by (simp add: task_life_def)
qed (simp add: task_life_def)

lemma task_life_issues: "task_life (map Issue cs) tm = fst (run_cmds task_exec (tm, l) cs)"
  by (induction cs arbitrary: tm l) (auto simp: task_life_def split: sum.split)

text \<open>No task is its own ancestor, at the root or below it.\<close>

definition cycle_below :: "(string, task_record) btree \<Rightarrow> string \<Rightarrow> bool" where
  "cycle_below m root \<longleftrightarrow> (\<exists>j. (j, root) \<in> (child_rel m)\<^sup>* \<and> (j, j) \<in> (child_rel m)\<^sup>+)"

lemma finite_child_rel: "finite (child_rel m)"
proof (rule finite_subset)
  show "child_rel m \<subseteq> (\<lambda>(i, r). (i, the (rec_parent r))) ` set m"
    by (force simp: child_rel_def)
qed simp

lemma subtree_returns_iff: "subtree s root \<noteq> None \<longleftrightarrow> \<not> cycle_below (tks_tasks s) root"
proof -
  have "subtree s root \<noteq> None \<longleftrightarrow> root \<in> Wellfounded.acc (child_rel (tks_tasks s))"
    using walk_returned [of "children_of (tks_tasks s)" "[root]" "[]"]
      walk_returns_below [of "[root]" "children_of (tks_tasks s)" "[]"]
    by (auto simp: subtree_def kid_rel_children_of)
  then show ?thesis
    by (simp add: finite_acc_iff [OF finite_child_rel] cycle_below_def)
qed

lemma subtree_members:
  assumes "subtree s root = Some ids"
  shows "set ids = {j. (j, root) \<in> (child_rel (tks_tasks s))\<^sup>*}"
  using assms walk_returned [of "children_of (tks_tasks s)" "[root]" "[]"]
    walk_returns_below [of "[root]" "children_of (tks_tasks s)" "[]"]
  by (auto simp: subtree_def kid_rel_children_of)

lemma commands_make_no_cycle:
  assumes "unat n0 + length cs \<le> u64_max"
  shows "\<not> cycle_below (tks_tasks (tm_state (task_life (map Issue cs) (task_manager_new ns n0)))) root"
proof -
  let ?tm = "task_manager_new ns n0"
  obtain tm l where run: "run_cmds task_exec (?tm, []) cs = (tm, l)"
    by force
  have "numbered ?tm" "task_inv (tm_state ?tm)"
    by (simp_all add: numbered_def task_manager_new_def task_state_new_def task_inv_def)
  then have "numbered tm" "bt_wf (tks_tasks (tm_state tm))"
    using run_numbered [OF _ _ _ run] assms by (simp_all add: task_manager_new_def task_inv_def)
  from numbered_wf [OF this] have "acyclic (child_rel (tks_tasks (tm_state tm)))"
    by (rule wf_acyclic)
  then show ?thesis
    using task_life_issues [of cs ?tm "[]"] by (simp add: run cycle_below_def acyclic_def)
qed

definition subtree_cancelled :: "string \<Rightarrow> task_manager \<Rightarrow> task_manager \<Rightarrow> bool" where
  "subtree_cancelled root tm tm' \<longleftrightarrow>
     (let g = bt_get (tks_tasks (tm_state tm)); J = {j. (j, root) \<in> (child_rel (tks_tasks (tm_state tm)))\<^sup>*}
      in (\<forall>j. bt_get (tks_tasks (tm_state tm')) j = (if j \<in> J then canceled_record root j (g j) else g j)) \<and>
         tm_cancelled tm' = tm_cancelled tm \<union>
           {t. \<exists>j \<in> J. \<exists>r. g j = Some r \<and> is_active (rec_status r) \<and> t = tr_token r})"

lemma cancel_that_returns:
  assumes inv: "task_inv (tm_state tm)" and known: "task_status_of (tm_state tm) root \<noteq> None"
    and ids: "subtree (tm_state tm) root = Some ids"
  shows "\<exists>tm' es. tm_cancel root tm = Some (tm', Inr es) \<and> subtree_cancelled root tm tm'"
proof -
  have "bt_wf (tks_tasks (tm_state tm))"
    using inv by (simp add: task_inv_def)
  from cancel_loop_spec [OF this, of root ids "[]" "[]"] obtain s' es' toks' where
    s': "cancel_loop root ids (tm_state tm) [] [] = (s', Inr (es', toks'))"
    "bt_get (tks_tasks s') = cancel_fun root (set ids) (bt_get (tks_tasks (tm_state tm)))"
    "set toks' = active_tokens (set ids) (bt_get (tks_tasks (tm_state tm)))"
    by auto
  then have "tm_cancel root tm = Some (tm\<lparr>tm_state := s', tm_cancelled := tm_cancelled tm \<union> set toks'\<rparr>, Inr es')"
    using known ids by (simp add: tm_cancel_def)
  moreover have "subtree_cancelled root tm (tm\<lparr>tm_state := s', tm_cancelled := tm_cancelled tm \<union> set toks'\<rparr>)"
    using s'(2,3)
    by (simp add: subtree_cancelled_def Let_def subtree_members [OF ids] cancel_fun_def active_tokens_def)
  ultimately show ?thesis
    by blast
qed

text \<open>
  C28: A cancel reaches the whole subtree and only it. Whatever commands a manager was given and whatever
  logs were replayed into it, cancelling a known task returns exactly when no task at or below it is its own
  ancestor, which is always so for a manager without replays (and fewer than \<open>2^64\<close> ids). When it
  returns, each task of the subtree that is queued is dropped, each that is running or suspended becomes
  canceled with the detail naming why, finished ones and tasks outside the subtree keep their records, and
  the tokens triggered are those of the active tasks of the subtree; the token of a task dropped from the
  queue is not triggered.
\<close>

theorem cancel_reaches_exactly_the_subtree:
  assumes "tm = task_life xs (task_manager_new ns n0)" and "task_lookup (tm_state tm) root \<noteq> None"
  shows "(tm_cancel root tm = None \<longleftrightarrow> cycle_below (tks_tasks (tm_state tm)) root)
    \<and> (\<forall>cs. xs = map Issue cs \<and> unat n0 + length cs \<le> u64_max \<longrightarrow> tm_cancel root tm \<noteq> None)
    \<and> (tm_cancel root tm \<noteq> None \<longrightarrow>
        (\<exists>tm' es. tm_cancel root tm = Some (tm', Inr es) \<and> subtree_cancelled root tm tm'))"
proof -
  have inv: "task_inv (tm_state tm)"
    unfolding assms(1)
    by (rule task_life_inv) (simp add: task_manager_new_def task_state_new_def task_inv_def)
  have known: "task_status_of (tm_state tm) root \<noteq> None"
    using assms(2) by (simp add: task_lookup_def task_status_of_def)
  then have returns: "tm_cancel root tm = None \<longleftrightarrow> cycle_below (tks_tasks (tm_state tm)) root"
    using subtree_returns_iff [of "tm_state tm" root] by (auto simp: tm_cancel_def split: option.split)
  moreover have "\<forall>cs. xs = map Issue cs \<and> unat n0 + length cs \<le> u64_max \<longrightarrow> tm_cancel root tm \<noteq> None"
    using returns commands_make_no_cycle [of n0 _ ns root] by (auto simp: assms(1))
  moreover have "\<exists>tm' es. tm_cancel root tm = Some (tm', Inr es) \<and> subtree_cancelled root tm tm'"
    if "tm_cancel root tm \<noteq> None"
    using that returns subtree_returns_iff [of "tm_state tm" root] cancel_that_returns [OF inv known] by auto
  ultimately show ?thesis
    by blast
qed

lemma cancel_reaches_exactly_the_subtree_witness:
  "\<exists>tm tm' es. task_life [Replay [TaskStarted ''old'' ProcessTask None], Issue (Register AgentRunTask None),
       Issue (StartTask ''task_a-1''), Issue (Register ProcessTask (Some ''task_a-1''))] (task_manager_new ''a'' 1) = tm \<and>
     tm_cancel ''task_a-1'' tm = Some (tm', Inr es) \<and>
     task_status_of (tm_state tm') ''task_a-1'' = Some TaskCanceled"
proof -
  let ?xs = "[Replay [TaskStarted ''old'' ProcessTask None], Issue (Register AgentRunTask None),
       Issue (StartTask ''task_a-1''), Issue (Register ProcessTask (Some ''task_a-1''))]"
  let ?tm = "task_life ?xs (task_manager_new ''a'' 1)"
  have rows: "\<exists>r0 r1 r2. tks_tasks (tm_state ?tm) = [(''old'', r0), (''task_a-1'', r1), (''task_a-2'', r2)]
      \<and> rec_parent r0 = None \<and> rec_parent r1 = None \<and> rec_parent r2 = Some ''task_a-1'' \<and> rec_status r1 = TaskRunning"
    by (simp add: task_life_def task_manager_new_def task_state_new_def tm_register_def insert_queued_def
        insert_queued_with_cancel_token_def allocate_task_id.simps Let_def mk_task_id_def dec_eval
        of_call_def tm_start_def tm_apply_def task_record_with_token_def log_event_def)
  then have r: "\<exists>r. bt_get (tks_tasks (tm_state ?tm)) ''task_a-1'' = Some r \<and> rec_status r = TaskRunning"
    by auto
  have "child_rel (tks_tasks (tm_state ?tm)) = {(''task_a-2'', ''task_a-1'')}"
    using rows by (auto simp: child_rel_def)
  then have "\<not> cycle_below (tks_tasks (tm_state ?tm)) ''task_a-1''"
    by (auto simp: cycle_below_def trancl_insert)
  then obtain tm' es where "tm_cancel ''task_a-1'' ?tm = Some (tm', Inr es)"
      "subtree_cancelled ''task_a-1'' ?tm tm'"
    using cancel_reaches_exactly_the_subtree [OF refl, of ?xs "''a''" 1 "''task_a-1''"] r
    by (auto simp: task_lookup_def)
  then show ?thesis
    using r by (intro exI [of _ ?tm] exI [of _ tm'] exI [of _ es])
      (auto simp: subtree_cancelled_def Let_def canceled_record_def is_active_def task_status_of_def set_status_def)
qed

text \<open>
  Replay accepts a start event that names the task as its own parent, and cancelling that
  task afterwards does not return: the subtree walk keeps no visited set.
\<close>

theorem cancel_loops_on_replayed_parent_cycle:
  "\<exists>tm. tm_replay [TaskStarted a k (Some a)] 0 (task_manager_new ns n) = (tm, Inr 1) \<and>
        tm_cancel a tm = None"
proof -
  let ?r = "task_record_with_token a k (Some a) TaskRunning 0"
  let ?s = "log_event (TaskStarted a k (Some a)) (task_state_new\<lparr>tks_tasks := [(a, ?r)], tks_next_token := Suc 0\<rparr>)"
  let ?tm = "(task_manager_new ns n)\<lparr>tm_state := ?s\<rparr>"
  have rep: "tm_replay [TaskStarted a k (Some a)] 0 (task_manager_new ns n) = (?tm, Inr 1)"
    by (simp add: task_manager_new_def task_state_new_def task_record_with_token_def)
  have "children_of [(a, ?r)] a = [a]"
    by (simp add: children_of_def task_record_with_token_def)
  from walk_self_loop [of "children_of [(a, ?r)]", OF this, of "[]"] have "subtree ?s a = None"
    by (simp add: subtree_def log_event_def)
  then have "tm_cancel a ?tm = None"
    by (simp add: tm_cancel_def task_status_of_def log_event_def)
  with rep show ?thesis by blast
qed

end
