(* ===== verification/TaskGraph.thy ===== *)
theory TaskGraph
  imports OrdMap EventSourcing
begin

text \<open>
  The task dependency graph, \<open>crates/orchestration/src/task_graph.rs\<close>: agent tasks keyed by
  id, the cycle check of \<open>add_task\<close> and the state transitions. The depth-first search is
  modelled with a fuel bound on the recursion depth; \<open>TaskGraphProps\<close> shows the bound is enough.
\<close>

subsection \<open>Types\<close>

type_synonym u32 = "32 word"

datatype graph_state =
  GCreated | GReady | GAssigned | GRunning | GBlocked | GCompleted | GFailed | GCancelled

definition gs_terminal :: "graph_state \<Rightarrow> bool" where
  "gs_terminal st \<longleftrightarrow> st = GCompleted \<or> st = GFailed \<or> st = GCancelled"

record agent_task =
  at_id :: string
  at_tenant :: string
  at_owner :: string
  at_description :: string
  at_deps :: "string list"
  at_retries :: u32
  at_max_retries :: u32
  at_state :: graph_state

datatype graph_error =
    GDuplicate string
  | GUnknownTask string
  | GCycle
  | GCrossTenant string string
  | GUnknownDependency string
  | GIllegalState graph_state

type_synonym task_graph = "(string, agent_task) btree"

subsection \<open>Cycle detection\<close>

datatype mark = Visiting | Visited

type_synonym deps = "(string, string list) btree"

definition succs :: "deps \<Rightarrow> string \<Rightarrow> string list" where
  "succs deps i = (case bt_get deps i of Some l \<Rightarrow> l | None \<Rightarrow> [])"

text \<open>
  \<open>visit\<close> answers whether a cycle was met, with the marks left behind; \<open>visit_all\<close> is the loop
  over a list of ids with its early return. \<open>None\<close> is a recursion deeper than the fuel.
\<close>

fun visit :: "nat \<Rightarrow> deps \<Rightarrow> string \<Rightarrow> (string, mark) btree \<Rightarrow> (bool \<times> (string, mark) btree) option"
  and visit_all :: "nat \<Rightarrow> deps \<Rightarrow> string list \<Rightarrow> (string, mark) btree \<Rightarrow> (bool \<times> (string, mark) btree) option"
where
  "visit 0 deps i m = None"
| "visit (Suc n) deps i m =
     (case bt_get m i of
        Some Visiting \<Rightarrow> Some (True, m)
      | Some Visited \<Rightarrow> Some (False, m)
      | None \<Rightarrow>
          (case visit_all n deps (succs deps i) (bt_put i Visiting m) of
             None \<Rightarrow> None
           | Some (True, m') \<Rightarrow> Some (True, m')
           | Some (False, m') \<Rightarrow> Some (False, bt_put i Visited m')))"
| "visit_all n deps [] m = Some (False, m)"
| "visit_all n deps (i # is) m =
     (case visit n deps i m of
        None \<Rightarrow> None
      | Some (True, m') \<Rightarrow> Some (True, m')
      | Some (False, m') \<Rightarrow> visit_all n deps is m')"

definition visit_fuel :: "deps \<Rightarrow> nat" where
  "visit_fuel deps = Suc (length (bt_keys deps) + length (concat (bt_values deps)))"

definition detect_cycle :: "deps \<Rightarrow> bool option" where
  "detect_cycle deps = map_option fst (visit_all (visit_fuel deps) deps (bt_keys deps) [])"

subsection \<open>Operations\<close>

definition deps_done :: "task_graph \<Rightarrow> agent_task \<Rightarrow> bool" where
  "deps_done g t = list_all (\<lambda>d. map_option at_state (bt_get g d) = Some GCompleted) (at_deps t)"

definition graph_deps :: "task_graph \<Rightarrow> deps" where
  "graph_deps g = map (\<lambda>(i, t). (i, at_deps t)) g"

fun cross_tenant :: "task_graph \<Rightarrow> agent_task \<Rightarrow> string list \<Rightarrow> graph_error option" where
  "cross_tenant g t [] = None"
| "cross_tenant g t (d # ds) =
     (case bt_get g d of
        Some dt \<Rightarrow>
          (if at_tenant dt \<noteq> at_tenant t then Some (GCrossTenant (at_tenant t) (at_tenant dt))
           else cross_tenant g t ds)
      | None \<Rightarrow> cross_tenant g t ds)"

definition add_task :: "agent_task \<Rightarrow> task_graph \<Rightarrow> (graph_error, task_graph) result option" where
  "add_task t g =
     (if bt_has g (at_id t) then Some (Inl (GDuplicate (at_id t)))
      else case cross_tenant g t (at_deps t) of
        Some e \<Rightarrow> Some (Inl e)
      | None \<Rightarrow>
          (case detect_cycle (bt_put (at_id t) (at_deps t) (graph_deps g)) of
             None \<Rightarrow> None
           | Some True \<Rightarrow> Some (Inl GCycle)
           | Some False \<Rightarrow>
               Some (Inr (bt_put (at_id t)
                 (t\<lparr>at_state := if deps_done g t then GReady else GBlocked\<rparr>) g))))"

text \<open>The writes go through the map entry found for the id, so the key is the looked-up id.\<close>

definition set_state :: "string \<Rightarrow> graph_state \<Rightarrow> graph_state \<Rightarrow> task_graph \<Rightarrow> (graph_error, task_graph) result" where
  "set_state i from to g =
     (case bt_get g i of
        None \<Rightarrow> Inl (GUnknownTask i)
      | Some t \<Rightarrow>
          (if at_state t \<noteq> from then Inl (GIllegalState (at_state t))
           else Inr (bt_put i (t\<lparr>at_state := to\<rparr>) g)))"

definition mark_ready :: "string \<Rightarrow> task_graph \<Rightarrow> (graph_error, task_graph) result" where
  "mark_ready i g =
     (case bt_get g i of
        None \<Rightarrow> Inl (GUnknownTask i)
      | Some t \<Rightarrow>
          (if at_state t = GCreated \<or> at_state t = GBlocked
           then Inr (bt_put i (t\<lparr>at_state := GReady\<rparr>) g)
           else Inl (GIllegalState (at_state t))))"

definition assign :: "string \<Rightarrow> task_graph \<Rightarrow> (graph_error, task_graph) result" where
  "assign i = set_state i GReady GAssigned"

definition start_task :: "string \<Rightarrow> task_graph \<Rightarrow> (graph_error, task_graph) result" where
  "start_task i = set_state i GAssigned GRunning"

definition complete_task :: "string \<Rightarrow> task_graph \<Rightarrow> (graph_error, task_graph) result" where
  "complete_task i g =
     (case bt_get g i of
        None \<Rightarrow> Inl (GUnknownTask i)
      | Some t \<Rightarrow>
          (if at_state t = GCompleted then Inr g
           else if at_state t = GRunning then Inr (bt_put i (t\<lparr>at_state := GCompleted\<rparr>) g)
           else Inl (GIllegalState (at_state t))))"

definition fail_task :: "string \<Rightarrow> task_graph \<Rightarrow> (graph_error, task_graph) result" where
  "fail_task i = set_state i GRunning GFailed"

definition cancel_task :: "string \<Rightarrow> task_graph \<Rightarrow> (graph_error, task_graph) result" where
  "cancel_task i g =
     (case bt_get g i of
        None \<Rightarrow> Inl (GUnknownTask i)
      | Some t \<Rightarrow>
          (if gs_terminal (at_state t) then Inl (GIllegalState (at_state t))
           else Inr (bt_put i (t\<lparr>at_state := GCancelled\<rparr>) g)))"

definition ready_tasks :: "task_graph \<Rightarrow> string list" where
  "ready_tasks g = map fst (filter (\<lambda>(i, t). at_state t = GBlocked \<and> deps_done g t) g)"

definition retry_task :: "string \<Rightarrow> task_graph \<Rightarrow> (graph_error, task_graph \<times> u32) result" where
  "retry_task i g =
     (case bt_get g i of
        None \<Rightarrow> Inl (GUnknownTask i)
      | Some t \<Rightarrow>
          (if at_state t \<noteq> GFailed then Inl (GIllegalState (at_state t))
           else if at_retries t \<ge> at_max_retries t then Inl (GIllegalState (at_state t))
           else Inr (bt_put i (t\<lparr>at_retries := at_retries t + 1, at_state := GCreated\<rparr>) g,
                     at_retries t + 1)))"

definition tenant_of :: "string \<Rightarrow> task_graph \<Rightarrow> string option" where
  "tenant_of i g = map_option at_tenant (bt_get g i)"

definition state_of :: "string \<Rightarrow> task_graph \<Rightarrow> graph_state option" where
  "state_of i g = map_option at_state (bt_get g i)"

subsection \<open>The command alphabet\<close>

datatype graph_command =
    AddTask agent_task
  | MarkReady string
  | Assign string
  | StartTask string
  | CompleteTask string
  | FailTask string
  | CancelTask string
  | RetryTask string

text \<open>A command that returns \<open>Ok\<close>, with the retry attempts it hands out. \<open>Inl None\<close> does not return.\<close>

fun graph_exec :: "task_graph \<Rightarrow> graph_command \<Rightarrow> (graph_error option, task_graph \<times> u32 list) result" where
  "graph_exec g (AddTask t) =
     (case add_task t g of None \<Rightarrow> Inl None | Some r \<Rightarrow> map_sum Some (\<lambda>g. (g, [])) r)"
| "graph_exec g (MarkReady i) = map_sum Some (\<lambda>g. (g, [])) (mark_ready i g)"
| "graph_exec g (Assign i) = map_sum Some (\<lambda>g. (g, [])) (assign i g)"
| "graph_exec g (StartTask i) = map_sum Some (\<lambda>g. (g, [])) (start_task i g)"
| "graph_exec g (CompleteTask i) = map_sum Some (\<lambda>g. (g, [])) (complete_task i g)"
| "graph_exec g (FailTask i) = map_sum Some (\<lambda>g. (g, [])) (fail_task i g)"
| "graph_exec g (CancelTask i) = map_sum Some (\<lambda>g. (g, [])) (cancel_task i g)"
| "graph_exec g (RetryTask i) = map_sum Some (\<lambda>(g, n). (g, [n])) (retry_task i g)"

end
