(* ===== verification/TaskGraphProps.thy ===== *)
theory TaskGraphProps
  imports TaskGraph
begin

text \<open>
  Properties of the task dependency graph: the depth-first search decides whether the edges
  contain a cycle, accepted additions keep the graph acyclic, finished tasks stay finished, a
  caller that only releases what \<open>ready_tasks\<close> offers runs no task before its dependencies, and
  the tenant check can be passed by adding the dependency last.
\<close>

subsection \<open>The depth-first search\<close>

definition edges :: "deps \<Rightarrow> (string \<times> string) set" where
  "edges deps = {(x, y). y \<in> set (succs deps x)}"

definition marked :: "mark \<Rightarrow> (string, mark) btree \<Rightarrow> string set" where
  "marked k m = {i. bt_get m i = Some k}"

lemma marked_put [simp]:
  "marked k (bt_put i k' m) = (if k = k' then insert i (marked k m) else marked k m - {i})"
  by (auto simp: marked_def bt_get_put)

lemma marked_Nil [simp]: "marked k [] = {}"
  by (simp add: marked_def)

text \<open>
  What the search maintains: the finished nodes are closed under edges and lie on no cycle.
\<close>

definition finished_ok :: "deps \<Rightarrow> (string, mark) btree \<Rightarrow> bool" where
  "finished_ok deps m \<longleftrightarrow>
     (\<forall>x \<in> marked Visited m. (\<forall>y. (x, y) \<in> edges deps \<longrightarrow> y \<in> marked Visited m) \<and>
        (x, x) \<notin> (edges deps)\<^sup>+)"

lemma closed_trancl:
  assumes "(x, y) \<in> E\<^sup>+" and "x \<in> V" and "\<And>a b. a \<in> V \<Longrightarrow> (a, b) \<in> E \<Longrightarrow> b \<in> V"
  shows "y \<in> V"
  using assms by (induction rule: trancl_induct) auto

lemma visit_correct:
  "visit n deps i m = Some (b, m') \<Longrightarrow> finished_ok deps m \<Longrightarrow>
     (\<forall>v \<in> marked Visiting m. (v, i) \<in> (edges deps)\<^sup>+) \<Longrightarrow>
     (b \<longrightarrow> \<not> acyclic (edges deps)) \<and>
     (\<not> b \<longrightarrow> finished_ok deps m' \<and> marked Visiting m' = marked Visiting m \<and>
        marked Visited m \<subseteq> marked Visited m' \<and> i \<in> marked Visited m')"
  "visit_all n deps is m = Some (b, m') \<Longrightarrow> finished_ok deps m \<Longrightarrow>
     (\<forall>i \<in> set is. \<forall>v \<in> marked Visiting m. (v, i) \<in> (edges deps)\<^sup>+) \<Longrightarrow>
     (b \<longrightarrow> \<not> acyclic (edges deps)) \<and>
     (\<not> b \<longrightarrow> finished_ok deps m' \<and> marked Visiting m' = marked Visiting m \<and>
        marked Visited m \<subseteq> marked Visited m' \<and> set is \<subseteq> marked Visited m')"
proof (induction n deps i m and n deps "is" m arbitrary: b m' and b m' rule: visit_visit_all.induct)
  case (2 n deps i m)
  show ?case
  proof (cases "bt_get m i")
    case None
    let ?m = "bt_put i Visiting m"
    have fresh: "i \<notin> marked Visited m" "i \<notin> marked Visiting m"
      using None by (simp_all add: marked_def)
    have ok: "finished_ok deps ?m"
      using "2.prems"(2) fresh by (auto simp: finished_ok_def)
    have reach: "\<forall>d \<in> set (succs deps i). \<forall>v \<in> marked Visiting ?m. (v, d) \<in> (edges deps)\<^sup>+"
      using "2.prems"(3) by (auto simp: edges_def intro: trancl_into_trancl)
    obtain c m1 where all: "visit_all n deps (succs deps i) ?m = Some (c, m1)"
      using "2.prems"(1) None by (auto split: option.splits bool.splits prod.splits)
    note IH = "2.IH" [OF None all ok reach]
    show ?thesis
    proof (cases c)
      case True
      with IH show ?thesis using "2.prems"(1) None all by simp
    next
      case False
      then have b: "\<not> b" "m' = bt_put i Visited m1"
        using "2.prems"(1) None all by auto
      have m1: "finished_ok deps m1" "marked Visiting m1 = insert i (marked Visiting m)"
        "marked Visited m \<subseteq> marked Visited m1" "set (succs deps i) \<subseteq> marked Visited m1"
        using IH False fresh by auto
      have notin: "i \<notin> marked Visited m1"
      proof -
        have "i \<in> marked Visiting m1"
          by (simp add: m1(2))
        then show ?thesis by (simp add: marked_def)
      qed
      have acyc: "(i, i) \<notin> (edges deps)\<^sup>+"
      proof
        assume "(i, i) \<in> (edges deps)\<^sup>+"
        then obtain d where "(i, d) \<in> edges deps" "d = i \<or> (d, i) \<in> (edges deps)\<^sup>+"
          by (meson tranclD rtranclD)
        moreover from this(1) have "d \<in> marked Visited m1"
          using m1(4) by (auto simp: edges_def)
        ultimately have "i \<in> marked Visited m1"
          using closed_trancl [of d i "edges deps" "marked Visited m1"] m1(1)
          by (auto simp: finished_ok_def)
        with notin show False ..
      qed
      have "finished_ok deps m'"
        using m1(1,4) acyc by (auto simp: b(2) finished_ok_def edges_def)
      moreover have "marked Visiting m' = marked Visiting m"
        using m1(2) fresh(2) by (auto simp: b(2))
      ultimately show ?thesis
        using m1(3) b by auto
    qed
  next
    case (Some k)
    show ?thesis
    proof (cases k)
      case Visiting
      then have "(i, i) \<in> (edges deps)\<^sup>+"
        using Some "2.prems"(3) by (simp add: marked_def)
      then show ?thesis
        using "2.prems"(1) Some Visiting by (auto simp: acyclic_def)
    next
      case Visited
      then show ?thesis
        using "2.prems" Some by (auto simp: marked_def)
    qed
  qed
next
  case (4 n deps i "is" m)
  obtain c m1 where v: "visit n deps i m = Some (c, m1)"
    using "4.prems"(1) by (auto split: option.splits)
  note IH = "4.IH"(1) [OF v "4.prems"(2)]
  show ?case
  proof (cases c)
    case True
    with IH v "4.prems" show ?thesis by auto
  next
    case False
    have one: "finished_ok deps m1" "marked Visiting m1 = marked Visiting m"
      "marked Visited m \<subseteq> marked Visited m1" "i \<in> marked Visited m1"
      using IH False "4.prems"(3) by auto
    have rest: "visit_all n deps is m1 = Some (b, m')"
      using "4.prems"(1) v False by simp
    have "\<forall>j \<in> set is. \<forall>v \<in> marked Visiting m1. (v, j) \<in> (edges deps)\<^sup>+"
      using "4.prems"(3) one(2) by simp
    from "4.IH"(2) [OF v refl _ rest one(1) this] False one show ?thesis
      by auto
  qed
qed auto

lemma visit_enough:
  "finite U \<Longrightarrow> \<forall>x \<in> U. set (succs deps x) \<subseteq> U \<Longrightarrow> i \<in> U \<Longrightarrow> card (U - set (bt_keys m)) < n \<Longrightarrow>
     \<exists>b m'. visit n deps i m = Some (b, m') \<and> set (bt_keys m) \<subseteq> set (bt_keys m')"
  "finite U \<Longrightarrow> \<forall>x \<in> U. set (succs deps x) \<subseteq> U \<Longrightarrow> set is \<subseteq> U \<Longrightarrow> card (U - set (bt_keys m)) < n \<Longrightarrow>
     \<exists>b m'. visit_all n deps is m = Some (b, m') \<and> set (bt_keys m) \<subseteq> set (bt_keys m')"
proof (induction n deps i m and n deps "is" m rule: visit_visit_all.induct)
  case (2 n deps i m)
  show ?case
  proof (cases "bt_get m i")
    case None
    let ?m = "bt_put i Visiting m"
    have "U - set (bt_keys ?m) \<subset> U - set (bt_keys m)"
      using None "2.prems"(3) by (auto simp: set_keys_put bt_get_None_iff)
    then have "card (U - set (bt_keys ?m)) < card (U - set (bt_keys m))"
      using "2.prems"(1) by (intro psubset_card_mono) auto
    then have "\<exists>b m'. visit_all n deps (succs deps i) ?m = Some (b, m') \<and> set (bt_keys ?m) \<subseteq> set (bt_keys m')"
      using "2.IH" [OF None "2.prems"(1,2)] "2.prems" by auto
    then obtain b m' where "visit_all n deps (succs deps i) ?m = Some (b, m')"
      "insert i (set (bt_keys m)) \<subseteq> set (bt_keys m')"
      by (auto simp: set_keys_put)
    then show ?thesis
      using None by (cases b) (auto simp: set_keys_put)
  next
    case (Some k)
    then show ?thesis by (cases k) auto
  qed
next
  case (4 n deps i "is" m)
  then obtain b m1 where v: "visit n deps i m = Some (b, m1)" "set (bt_keys m) \<subseteq> set (bt_keys m1)"
    by auto
  show ?case
  proof (cases b)
    case True
    with v show ?thesis by auto
  next
    case False
    have "card (U - set (bt_keys m1)) \<le> card (U - set (bt_keys m))"
      using v(2) "4.prems"(1) by (intro card_mono) auto
    then have "card (U - set (bt_keys m1)) < n"
      using "4.prems"(4) by simp
    with "4.IH"(2) [OF v(1) refl] False "4.prems"(1-3)
    have "\<exists>b m'. visit_all n deps is m1 = Some (b, m') \<and> set (bt_keys m1) \<subseteq> set (bt_keys m')"
      by simp
    then show ?thesis
      using False v by auto
  qed
qed auto

lemma succs_in_values: "set (succs deps x) \<subseteq> set (concat (bt_values deps))"
proof (cases "bt_get deps x")
  case (Some l)
  have "l \<in> set (bt_values deps)"
    using Some by (induction deps) (auto simp: bt_values_def split: if_splits)
  then show ?thesis
    using Some by (auto simp: succs_def)
qed (simp add: succs_def)

lemma succs_iff: "y \<in> set (succs deps x) \<longleftrightarrow> (\<exists>l. bt_get deps x = Some l \<and> y \<in> set l)"
  by (cases "bt_get deps x") (auto simp: succs_def)

text \<open>The check answers, and its answer is whether the edges contain a cycle.\<close>

lemma detect_cycle_eq: "detect_cycle deps = Some (\<not> acyclic (edges deps))"
proof -
  let ?U = "set (bt_keys deps) \<union> set (concat (bt_values deps))"
  have "card ?U \<le> length (bt_keys deps) + length (concat (bt_values deps))"
    by (metis card_Un_le card_length add_mono order_trans)
  then have "card (?U - set (bt_keys [])) < visit_fuel deps"
    by (simp add: visit_fuel_def)
  then obtain b m where all: "visit_all (visit_fuel deps) deps (bt_keys deps) [] = Some (b, m)"
    using visit_enough(2) [of ?U deps "bt_keys deps" "[]" "visit_fuel deps"] succs_in_values
    by fastforce
  have ok: "finished_ok deps []"
    by (simp add: finished_ok_def)
  have res: "b \<Longrightarrow> \<not> acyclic (edges deps)"
    "\<not> b \<Longrightarrow> finished_ok deps m \<and> set (bt_keys deps) \<subseteq> marked Visited m"
    using visit_correct(2) [OF all ok] by auto
  have "acyclic (edges deps)" if "\<not> b"
  proof (rule acyclicI, intro allI notI)
    fix x
    assume cyc: "(x, x) \<in> (edges deps)\<^sup>+"
    then obtain y where "(x, y) \<in> edges deps"
      by (meson tranclD)
    then have "bt_get deps x \<noteq> None"
      by (auto simp: edges_def succs_iff)
    then have "x \<in> set (bt_keys deps)"
      by (auto simp: bt_get_None_iff)
    then show False
      using res(2) [OF that] cyc by (auto simp: finished_ok_def)
  qed
  then have "b = (\<not> acyclic (edges deps))"
    using res(1) by auto
  then show ?thesis
    by (simp add: detect_cycle_def all)
qed

subsection \<open>The graph invariant\<close>

definition dep_edges :: "task_graph \<Rightarrow> (string \<times> string) set" where
  "dep_edges g = {(x, y). \<exists>t. bt_get g x = Some t \<and> y \<in> set (at_deps t)}"

definition graph_inv :: "task_graph \<Rightarrow> bool" where
  "graph_inv g \<longleftrightarrow> bt_wf g \<and> acyclic (dep_edges g) \<and>
     (\<forall>i t. bt_get g i = Some t \<longrightarrow> at_id t = i \<and> at_retries t \<le> at_max_retries t)"

lemma bt_get_graph_deps: "bt_get (graph_deps g) i = map_option at_deps (bt_get g i)"
  by (induction g) (auto simp: graph_deps_def)

lemma edges_graph_deps: "edges (graph_deps g) = dep_edges g"
  by (auto simp: edges_def dep_edges_def succs_iff bt_get_graph_deps)

lemma edges_put: "edges (bt_put i (at_deps t) (graph_deps g)) = dep_edges (bt_put i t' g)"
  if "at_deps t' = at_deps t"
  using that by (auto simp: edges_def dep_edges_def succs_iff bt_get_graph_deps bt_get_put split: if_splits)

text \<open>How a command that is not \<open>add_task\<close> may change the one task it writes.\<close>

definition task_step :: "agent_task \<Rightarrow> agent_task \<Rightarrow> bool" where
  "task_step t0 t \<longleftrightarrow> at_id t = at_id t0 \<and> at_tenant t = at_tenant t0 \<and> at_deps t = at_deps t0 \<and>
     at_max_retries t = at_max_retries t0 \<and>
     (at_retries t = at_retries t0 \<and> \<not> gs_terminal (at_state t0) \<and> at_state t \<noteq> GCreated \<and>
        (at_state t = GReady \<longrightarrow> at_state t0 = GCreated \<or> at_state t0 = GBlocked) \<and>
        (at_state t0 = GBlocked \<longrightarrow> at_state t = GReady \<or> at_state t = GCancelled)
      \<or> at_retries t = at_retries t0 + 1 \<and> at_state t0 = GFailed \<and> at_state t = GCreated \<and>
        at_retries t0 < at_max_retries t0)"

lemma add_task_eq:
  "add_task t g =
     (if bt_has g (at_id t) then Some (Inl (GDuplicate (at_id t)))
      else case cross_tenant g t (at_deps t) of
        Some e \<Rightarrow> Some (Inl e)
      | None \<Rightarrow>
          (if acyclic (dep_edges (bt_put (at_id t) t g))
           then Some (Inr (bt_put (at_id t) (t\<lparr>at_state := if deps_done g t then GReady else GBlocked\<rparr>) g))
           else Some (Inl GCycle)))"
  by (auto simp: add_task_def detect_cycle_eq edges_put [OF refl] split: option.splits bool.splits)

lemma set_state_step:
  assumes "set_state i from to g = Inr g'" and "\<not> gs_terminal from" and "from \<noteq> GBlocked"
    and "to \<noteq> GCreated" and "to \<noteq> GReady"
  shows "\<exists>j t0 t. bt_get g j = Some t0 \<and> task_step t0 t \<and> g' = bt_put j t g"
proof -
  obtain t0 where t0: "bt_get g i = Some t0" "at_state t0 = from" "g' = bt_put i (t0\<lparr>at_state := to\<rparr>) g"
    using assms(1) by (auto simp: set_state_def split: option.splits if_splits)
  then have "task_step t0 (t0\<lparr>at_state := to\<rparr>)"
    using assms(2-5) by (auto simp: task_step_def)
  with t0 show ?thesis by metis
qed

lemma graph_exec_cases:
  assumes "graph_exec g c = Inr (g', l)"
  obtains (same) "g' = g"
  | (add) t where "c = AddTask t" "add_task t g = Some (Inr g')"
  | (step) i t0 t where "bt_get g i = Some t0" "task_step t0 t" "g' = bt_put i t g"
proof (cases c)
  case (AddTask t)
  with assms show ?thesis
    by (intro add) (auto split: option.splits)
next
  case (RetryTask i)
  with assms show ?thesis
    by (auto simp: retry_task_def not_le split: option.splits if_splits intro!: step)
      (auto simp: task_step_def)
next
  case (MarkReady i)
  with assms show ?thesis
    by (auto simp: mark_ready_def split: option.splits if_splits intro!: step)
      (auto simp: task_step_def gs_terminal_def)
next
  case (CompleteTask i)
  show ?thesis
  proof (cases "g' = g")
    case False
    with CompleteTask assms show ?thesis
      by (auto simp: complete_task_def split: option.splits if_splits intro!: step)
        (auto simp: task_step_def gs_terminal_def)
  qed (rule same)
next
  case (CancelTask i)
  with assms show ?thesis
    by (auto simp: cancel_task_def split: option.splits if_splits intro!: step)
      (auto simp: task_step_def gs_terminal_def)
next
  case (Assign i)
  with assms set_state_step [of i GReady GAssigned g g'] show ?thesis
    by (auto simp: assign_def gs_terminal_def intro: step)
next
  case (StartTask i)
  with assms set_state_step [of i GAssigned GRunning g g'] show ?thesis
    by (auto simp: start_task_def gs_terminal_def intro: step)
next
  case (FailTask i)
  with assms set_state_step [of i GRunning GFailed g g'] show ?thesis
    by (auto simp: fail_task_def gs_terminal_def intro: step)
qed

lemma graph_inv_put:
  assumes "graph_inv g" and "bt_get g i = Some t0" and "task_step t0 t"
  shows "graph_inv (bt_put i t g)"
proof -
  have "dep_edges (bt_put i t g) = dep_edges g"
    using assms(2,3) by (auto simp: dep_edges_def bt_get_put task_step_def split: if_splits)
  moreover have "at_retries t \<le> at_max_retries t" "at_id t = i"
    using assms by (auto simp: graph_inv_def task_step_def inc_le)
  ultimately show ?thesis
    using assms(1) by (auto simp: graph_inv_def bt_wf_put bt_get_put)
qed

lemma add_task_inv:
  assumes "graph_inv g" and "add_task t g = Some (Inr g')" and "at_retries t \<le> at_max_retries t"
  shows "graph_inv g'"
proof -
  let ?t = "t\<lparr>at_state := if deps_done g t then GReady else GBlocked\<rparr>"
  have g': "g' = bt_put (at_id t) ?t g" "acyclic (dep_edges (bt_put (at_id t) t g))"
    using assms(2) by (auto simp: add_task_eq split: option.splits if_splits)
  have "dep_edges (bt_put (at_id t) t g) = dep_edges (bt_put (at_id t) ?t g)"
    by (auto simp: dep_edges_def bt_get_put split: if_splits)
  then show ?thesis
    using assms(1,3) g' by (auto simp: graph_inv_def bt_wf_put bt_get_put)
qed

text \<open>A new task comes with a retry count within its bound.\<close>

fun fresh_counts :: "graph_command \<Rightarrow> bool" where
  "fresh_counts (AddTask t) = (at_retries t \<le> at_max_retries t)"
| "fresh_counts _ = True"

lemma graph_exec_inv:
  assumes "graph_inv g" and "graph_exec g c = Inr (g', l)" and "fresh_counts c"
  shows "graph_inv g'"
  using assms(2)
proof (cases rule: graph_exec_cases)
  case same
  with assms(1) show ?thesis by simp
next
  case (add t)
  with assms(1,3) add_task_inv show ?thesis by simp
next
  case (step i t0 t)
  with assms(1) graph_inv_put show ?thesis by simp
qed

lemma run_graph_inv:
  assumes "graph_inv g" and "run_cmds graph_exec (g, l) cs = (g', l')" and "\<forall>c \<in> set cs. fresh_counts c"
  shows "graph_inv g'"
  using assms
proof (induction cs arbitrary: g l)
  case (Cons c cs)
  then show ?case
    by (cases "graph_exec g c") (auto dest: graph_exec_inv)
qed simp

lemma graph_inv_Nil [simp]: "graph_inv []"
  by (simp add: graph_inv_def dep_edges_def acyclic_def)

text \<open>
  The depth-first search of \<open>detect_cycle\<close> always answers, and it answers \<open>true\<close> exactly
  when the dependency edges contain a cycle, forward references included.
\<close>

theorem detect_cycle_decides_cycles:
  "detect_cycle deps = Some (\<exists>i. (i, i) \<in> {(x, y). \<exists>l. bt_get deps x = Some l \<and> y \<in> set l}\<^sup>+)"
  using detect_cycle_eq [of deps] by (simp add: edges_def succs_iff acyclic_def)

text \<open>
  C32: Whatever commands a task graph serves, its dependencies stay acyclic, every task sits
  under its own id, no task is retried beyond its bound, and no command fails to return.
\<close>

theorem graph_stays_acyclic:
  assumes "run_cmds graph_exec ([], []) cs = (g, l)" and "\<forall>c \<in> set cs. fresh_counts c"
  shows "acyclic (dep_edges g) \<and>
    (\<forall>i t. bt_get g i = Some t \<longrightarrow> at_id t = i \<and> at_retries t \<le> at_max_retries t) \<and>
    graph_exec g c \<noteq> Inl None"
proof -
  have "graph_exec g c \<noteq> Inl None"
    by (cases c) (auto simp: add_task_eq split: option.splits)
  then show ?thesis
    using run_graph_inv [OF graph_inv_Nil assms] by (auto simp: graph_inv_def)
qed

definition sample_task :: "string \<Rightarrow> string \<Rightarrow> string list \<Rightarrow> agent_task" where
  "sample_task i tenant ds = \<lparr>at_id = i, at_tenant = tenant, at_owner = ''a'', at_description = [],
     at_deps = ds, at_retries = 0, at_max_retries = 1, at_state = GCreated\<rparr>"

lemma graph_stays_acyclic_witness:
  "\<exists>g. run_cmds graph_exec ([], [])
      [AddTask (sample_task ''x'' ''t'' [''y'']), AddTask (sample_task ''y'' ''t'' [''x''])] = (g, []) \<and>
     acyclic (dep_edges g) \<and> state_of ''x'' g = Some GBlocked \<and> state_of ''y'' g = None"
proof -
  let ?cs = "[AddTask (sample_task ''x'' ''t'' [''y'']), AddTask (sample_task ''y'' ''t'' [''x''])]"
  have run: "run_cmds graph_exec ([], []) ?cs =
      ([(''x'', (sample_task ''x'' ''t'' [''y''])\<lparr>at_state := GBlocked\<rparr>)], [])"
    by code_simp
  have "\<forall>c \<in> set ?cs. fresh_counts c"
    by (simp add: sample_task_def)
  from graph_stays_acyclic [OF run this] show ?thesis
    unfolding run by (simp add: state_of_def)
qed

subsection \<open>Progress of the states\<close>

text \<open>
  A completed or cancelled task is final: no command the graph accepts changes its record.
\<close>

theorem finished_tasks_stay:
  assumes "graph_exec g c = Inr (g', l)" and "bt_get g i = Some t"
    and "at_state t = GCompleted \<or> at_state t = GCancelled"
  shows "bt_get g' i = Some t"
  using assms(1)
proof (cases rule: graph_exec_cases)
  case same
  with assms(2) show ?thesis by simp
next
  case (add t')
  with assms(2) show ?thesis
    by (auto simp: add_task_eq bt_get_put split: option.splits if_splits)
next
  case (step j t0 t')
  with assms(2,3) show ?thesis
    by (auto simp: task_step_def gs_terminal_def bt_get_put)
qed

text \<open>A caller that marks ready only what \<open>ready_tasks\<close> offers, or a task that was retried.\<close>

fun allowed :: "task_graph \<Rightarrow> graph_command \<Rightarrow> bool" where
  "allowed g (MarkReady i) = (i \<in> set (ready_tasks g) \<or> state_of i g = Some GCreated)"
| "allowed g _ = True"

fun disciplined :: "task_graph \<Rightarrow> graph_command list \<Rightarrow> bool" where
  "disciplined g [] = True"
| "disciplined g (c # cs) =
     (allowed g c \<and>
      disciplined (case graph_exec g c of Inl _ \<Rightarrow> g | Inr (g', _) \<Rightarrow> g') cs)"

definition started_after_deps :: "task_graph \<Rightarrow> bool" where
  "started_after_deps g \<longleftrightarrow>
     (\<forall>i t. bt_get g i = Some t \<longrightarrow> at_state t \<noteq> GBlocked \<longrightarrow> at_state t \<noteq> GCancelled \<longrightarrow> deps_done g t)"

lemma deps_done_mono:
  assumes "graph_exec g c = Inr (g', l)" and "deps_done g t"
  shows "deps_done g' t"
proof -
  have "map_option at_state (bt_get g' d) = Some GCompleted" if "map_option at_state (bt_get g d) = Some GCompleted" for d
    using that finished_tasks_stay [OF assms(1)] by auto
  with assms(2) show ?thesis
    by (auto simp: deps_done_def list_all_iff)
qed

lemma set_ready_tasks:
  "bt_wf g \<Longrightarrow> i \<in> set (ready_tasks g) \<longleftrightarrow>
     (\<exists>t. bt_get g i = Some t \<and> at_state t = GBlocked \<and> deps_done g t)"
  by (force simp: ready_tasks_def bt_get_iff_mem)

text \<open>
  \<open>ready_tasks\<close> lists, in id order and once each, exactly the blocked tasks all of whose
  dependencies are present and completed.
\<close>

theorem ready_tasks_exact:
  assumes "run_cmds graph_exec ([], []) cs = (g, l)" and "\<forall>c \<in> set cs. fresh_counts c"
  shows "sorted_wrt (<) (ready_tasks g) \<and>
    (\<forall>i. i \<in> set (ready_tasks g) \<longleftrightarrow>
       (\<exists>t. bt_get g i = Some t \<and> at_state t = GBlocked \<and>
          (\<forall>d \<in> set (at_deps t). state_of d g = Some GCompleted)))"
proof -
  have wf: "bt_wf g"
    using run_graph_inv [OF graph_inv_Nil assms] by (simp add: graph_inv_def)
  then have "sorted_wrt (\<lambda>x y. fst x < fst y) g"
    by (simp add: bt_wf_def bt_keys_def sorted_wrt_map)
  then have "sorted_wrt (<) (ready_tasks g)"
    by (simp add: ready_tasks_def sorted_wrt_map sorted_wrt_filter)
  then show ?thesis
    using set_ready_tasks [OF wf] by (auto simp: deps_done_def list_all_iff state_of_def)
qed

lemma ready_tasks_exact_witness:
  "\<exists>g. run_cmds graph_exec ([], [])
      [AddTask (sample_task ''x'' ''t'' [''y'']), AddTask (sample_task ''y'' ''t'' []),
       Assign ''y'', StartTask ''y'', CompleteTask ''y''] = (g, []) \<and> ''x'' \<in> set (ready_tasks g)"
proof -
  let ?cs = "[AddTask (sample_task ''x'' ''t'' [''y'']), AddTask (sample_task ''y'' ''t'' []),
       Assign ''y'', StartTask ''y'', CompleteTask ''y'']"
  have run: "run_cmds graph_exec ([], []) ?cs =
      ([(''x'', (sample_task ''x'' ''t'' [''y''])\<lparr>at_state := GBlocked\<rparr>),
        (''y'', (sample_task ''y'' ''t'' [])\<lparr>at_state := GCompleted\<rparr>)], [])"
    by code_simp
  have "\<forall>c \<in> set ?cs. fresh_counts c"
    by (simp add: sample_task_def)
  from ready_tasks_exact [OF run this] show ?thesis
    unfolding run by (simp add: state_of_def sample_task_def)
qed

lemma finished_tasks_stay_witness:
  "\<exists>g'. graph_exec [(''y'', (sample_task ''y'' ''t'' [])\<lparr>at_state := GCompleted\<rparr>)] (CompleteTask ''y'') = Inr (g', []) \<and>
     bt_get g' ''y'' = Some ((sample_task ''y'' ''t'' [])\<lparr>at_state := GCompleted\<rparr>)"
  using finished_tasks_stay [of "[(''y'', (sample_task ''y'' ''t'' [])\<lparr>at_state := GCompleted\<rparr>)]"
      "CompleteTask ''y''" _ _ "''y''"]
  by (simp add: complete_task_def)

lemma only_mark_ready_releases:
  assumes "graph_exec g c = Inr (g', l)" and "bt_get g i = Some t0" and "at_state t0 = GBlocked"
    and "bt_get g' i = Some t" and "at_state t = GReady"
  shows "c = MarkReady i"
  using assms
  by (cases c) (auto simp: add_task_eq mark_ready_def assign_def start_task_def complete_task_def
      fail_task_def cancel_task_def retry_task_def set_state_def bt_get_put split: option.splits if_splits)

lemma started_step:
  assumes wf: "bt_wf g" and inv: "started_after_deps g" and ex: "graph_exec g c = Inr (g', l)"
    and disc: "allowed g c"
  shows "started_after_deps g'"
proof -
  note mono = deps_done_mono [OF ex]
  from ex show ?thesis
  proof (cases rule: graph_exec_cases)
    case same
    with inv show ?thesis by simp
  next
    case (add t)
    let ?t = "t\<lparr>at_state := if deps_done g t then GReady else GBlocked\<rparr>"
    have g': "g' = bt_put (at_id t) ?t g"
      using add(2) by (auto simp: add_task_eq split: option.splits if_splits)
    have "deps_done g' ?t" if "deps_done g t"
      using mono [of ?t] that by (simp add: deps_done_def)
    then show ?thesis
      using inv mono unfolding started_after_deps_def
      by (auto simp: g' bt_get_put split: if_splits)
  next
    case (step i t0 t)
    have old: "deps_done g' t'" if "bt_get g j = Some t'" "at_state t' \<noteq> GBlocked" "at_state t' \<noteq> GCancelled" for j t'
      using inv mono that unfolding started_after_deps_def by blast
    have "deps_done g' t" if "at_state t \<noteq> GBlocked" "at_state t \<noteq> GCancelled"
    proof -
      have same_deps: "deps_done g' t = deps_done g' t0"
        using step(2) by (simp add: task_step_def deps_done_def)
      show ?thesis
      proof (cases "at_state t0 = GBlocked")
        case True
        then have "at_state t = GReady"
          using step(2) that by (auto simp: task_step_def)
        then have "c = MarkReady i \<and> deps_done g t0"
          using only_mark_ready_releases [OF ex step(1) True, of t] disc step(1,3) True
          by (auto simp: set_ready_tasks [OF wf] state_of_def)
        then show ?thesis
          using mono same_deps by blast
      next
        case False
        have "at_state t0 \<noteq> GCancelled"
          using step(2) by (auto simp: task_step_def gs_terminal_def)
        with False old step(1) same_deps show ?thesis by simp
      qed
    qed
    then show ?thesis
      using old step(3) unfolding started_after_deps_def by (auto simp: bt_get_put split: if_splits)
  qed
qed

text \<open>
  C33: A caller that releases only what \<open>ready_tasks\<close> offers (or a task put back by \<open>retry\<close>) never
  runs a task early: in every state it reaches, each task that is past \<open>Blocked\<close> and not
  cancelled has all its dependencies completed.
\<close>

theorem tasks_start_after_their_dependencies:
  assumes "disciplined [] cs" and "\<forall>c \<in> set cs. fresh_counts c"
    and "run_cmds graph_exec ([], []) cs = (g, l)"
    and "bt_get g i = Some t" and "at_state t \<noteq> GBlocked" and "at_state t \<noteq> GCancelled"
    and "d \<in> set (at_deps t)"
  shows "state_of d g = Some GCompleted"
proof -
  have "started_after_deps g'" if "disciplined g0 cs" "\<forall>c \<in> set cs. fresh_counts c"
    "run_cmds graph_exec (g0, l0) cs = (g', l')" "graph_inv g0" "started_after_deps g0" for g0 l0 g' l' cs
    using that
  proof (induction cs arbitrary: g0 l0)
    case Nil
    then show ?case by simp
  next
    case (Cons c cs)
    show ?case
    proof (cases "graph_exec g0 c")
      case (Inl e)
      then have "disciplined g0 cs" "run_cmds graph_exec (g0, l0) cs = (g', l')"
        using Cons.prems(1,3) by simp_all
      then show ?thesis
        using Cons.IH Cons.prems(2,4,5) by auto
    next
      case (Inr x)
      obtain g1 l1 where ex: "graph_exec g0 c = Inr (g1, l1)"
        using Inr by (cases x) simp
      have "graph_inv g1"
        using Cons.prems(2,4) ex graph_exec_inv by simp
      moreover have "started_after_deps g1"
        using started_step [OF _ Cons.prems(5) ex] Cons.prems(1,4) by (simp add: graph_inv_def)
      ultimately show ?thesis
        using Cons.IH [of g1 "l0 @ l1"] Cons.prems(1-3) ex by simp
    qed
  qed
  from this [OF assms(1-3)] have "started_after_deps g"
    by (simp add: started_after_deps_def)
  then show ?thesis
    using assms(4-7) by (auto simp: started_after_deps_def deps_done_def list_all_iff state_of_def)
qed

lemma tasks_start_after_their_dependencies_witness:
  "state_of ''y'' [(''x'', (sample_task ''x'' ''t'' [''y''])\<lparr>at_state := GRunning\<rparr>),
        (''y'', (sample_task ''y'' ''t'' [])\<lparr>at_state := GCompleted\<rparr>)] = Some GCompleted"
proof -
  let ?cs = "[AddTask (sample_task ''x'' ''t'' [''y'']), AddTask (sample_task ''y'' ''t'' []),
       Assign ''y'', StartTask ''y'', CompleteTask ''y'', MarkReady ''x'', Assign ''x'', StartTask ''x'']"
  have run: "run_cmds graph_exec ([], []) ?cs =
      ([(''x'', (sample_task ''x'' ''t'' [''y''])\<lparr>at_state := GRunning\<rparr>),
        (''y'', (sample_task ''y'' ''t'' [])\<lparr>at_state := GCompleted\<rparr>)], [])"
    by code_simp
  have disc: "disciplined [] ?cs"
    by code_simp
  have fresh: "\<forall>c \<in> set ?cs. fresh_counts c"
    by (simp add: sample_task_def)
  show ?thesis
    by (rule tasks_start_after_their_dependencies [OF disc fresh run, of "''x''" "(sample_task ''x'' ''t'' [''y''])\<lparr>at_state := GRunning\<rparr>"])
      (simp_all add: sample_task_def)
qed

text \<open>
  The tenant check looks only at dependencies already present. A task may name a dependency
  that is added afterwards by another tenant: both additions are accepted and the graph then
  holds a cross-tenant edge.
\<close>

theorem late_dependency_crosses_tenants:
  assumes "x \<noteq> y" and "a \<noteq> b"
  shows "\<exists>g. run_cmds graph_exec ([], [])
           [AddTask (sample_task x a [y]), AddTask (sample_task y b [])] = (g, []) \<and>
         (x, y) \<in> dep_edges g \<and> tenant_of x g = Some a \<and> tenant_of y g = Some b"
proof -
  let ?x = "sample_task x a [y]" and ?y = "sample_task y b []"
  let ?g1 = "[(x, ?x\<lparr>at_state := GBlocked\<rparr>)]"
  let ?g2 = "bt_put y (?y\<lparr>at_state := GReady\<rparr>) ?g1"
  have ed: "dep_edges (bt_put x ?x []) = {(x, y)}" "dep_edges (bt_put y ?y ?g1) = {(x, y)}"
    "dep_edges ?g2 = {(x, y)}"
    using assms(1) by (auto simp: dep_edges_def sample_task_def bt_get_put split: if_splits)
  have acyc: "acyclic {(x, y)}"
    using assms(1) by (simp add: acyclic_def trancl_insert)
  have "add_task ?x [] = Some (Inr ?g1)"
    unfolding add_task_eq using ed(1) acyc by (simp add: sample_task_def deps_done_def)
  moreover have "add_task ?y ?g1 = Some (Inr ?g2)"
    unfolding add_task_eq using ed(2) acyc assms(1) by (simp add: sample_task_def deps_done_def)
  ultimately have "run_cmds graph_exec ([], []) [AddTask ?x, AddTask ?y] = (?g2, [])"
    by simp
  then show ?thesis
    using ed(3) assms by (auto simp: tenant_of_def bt_get_put sample_task_def)
qed

lemma late_dependency_crosses_tenants_witness:
  "\<exists>g. run_cmds graph_exec ([], [])
      [AddTask (sample_task ''x'' ''a'' [''y'']), AddTask (sample_task ''y'' ''b'' [])] = (g, []) \<and>
    tenant_of ''x'' g \<noteq> tenant_of ''y'' g"
  using late_dependency_crosses_tenants [of "''x''" "''y''" "''a''" "''b''"] by auto

end
