(* ===== verification/Lifecycle.thy ===== *)
theory Lifecycle
  imports OrdMap EventSourcing
begin

text \<open>
  The worker life cycle, \<open>crates/orchestration/src/lifecycle.rs\<close>: the strict state machine, the
  orchestration events, and the tolerant replay that rebuilds each worker's state from a log.
\<close>

subsection \<open>The state machine\<close>

datatype worker_state =
  WCreated | WAdmitted | WStarting | WRunning | WWaiting | WCompleted | WCancelling | WCancelled | WFailed

definition ws_terminal :: "worker_state \<Rightarrow> bool" where
  "ws_terminal s \<longleftrightarrow> s = WCompleted \<or> s = WCancelled \<or> s = WFailed"

definition ws_active :: "worker_state \<Rightarrow> bool" where
  "ws_active s \<longleftrightarrow> \<not> ws_terminal s"

fun ws_name :: "worker_state \<Rightarrow> string" where
  "ws_name WCreated = ''created''"
| "ws_name WAdmitted = ''admitted''"
| "ws_name WStarting = ''starting''"
| "ws_name WRunning = ''running''"
| "ws_name WWaiting = ''waiting''"
| "ws_name WCompleted = ''completed''"
| "ws_name WCancelling = ''cancelling''"
| "ws_name WCancelled = ''cancelled''"
| "ws_name WFailed = ''failed''"

datatype worker_transition =
  Admit | Start | BeginRunning | BeginWaiting | Resume | Complete | BeginCancel | Cancel | Fail

datatype lifecycle_error = IllegalTransition worker_state worker_transition | FromTerminal

definition transition :: "worker_state \<Rightarrow> worker_transition \<Rightarrow> (lifecycle_error, worker_state) result" where
  "transition from t =
     (if ws_terminal from then Inl FromTerminal
      else case (from, t) of
        (WCreated, Admit) \<Rightarrow> Inr WAdmitted
      | (WAdmitted, Start) \<Rightarrow> Inr WStarting
      | (WStarting, BeginRunning) \<Rightarrow> Inr WRunning
      | (WRunning, BeginWaiting) \<Rightarrow> Inr WWaiting
      | (WWaiting, Resume) \<Rightarrow> Inr WRunning
      | (WStarting, Complete) \<Rightarrow> Inr WCompleted
      | (WRunning, Complete) \<Rightarrow> Inr WCompleted
      | (WWaiting, Complete) \<Rightarrow> Inr WCompleted
      | (s, BeginCancel) \<Rightarrow> (if ws_active s then Inr WCancelling else Inl (IllegalTransition from t))
      | (WCancelling, Cancel) \<Rightarrow> Inr WCancelled
      | (s, Fail) \<Rightarrow> (if ws_active s then Inr WFailed else Inl (IllegalTransition from t))
      | _ \<Rightarrow> Inl (IllegalTransition from t))"

text \<open>\<open>WorkerStateMachine\<close> is its state; \<open>apply\<close> keeps the state when the transition is refused.\<close>

definition machine_apply ::
  "worker_transition \<Rightarrow> worker_state \<Rightarrow> worker_state \<times> (lifecycle_error, worker_state) result" where
  "machine_apply t s =
     (case transition s t of
        Inl e \<Rightarrow> (s, Inl e)
      | Inr s' \<Rightarrow> (s', Inr s'))"

subsection \<open>Events\<close>

datatype worker_role = ParentRole | WorkerRole

datatype orchestration_event =
    EvWorkerCreated string string "string option" worker_role string "string option" u64
  | EvWorkerAdmitted string u64
  | EvWorkerStarted string u64
  | EvWorkerRunning string u64
  | EvWorkerWaiting string u64
  | EvWorkerCompleted string u64
  | EvWorkerCancelling string u64
  | EvWorkerCancelled string u64
  | EvWorkerFailed string u64 string
  | EvTaskCreated string string string
  | EvTaskReady string
  | EvTaskAssigned string string
  | EvTaskCompleted string
  | EvTaskFailed string string
  | EvTaskRetried string "32 word"
  | EvTaskCancelled string
  | EvBudgetExceeded string string u64 u64
  | EvConcurrencyDenied string u64 u64
  | EvPatchProposed string "string list"
  | EvPatchMerged string "string list"
  | EvPatchConflict string "string list"

type_synonym worker_states = "(string, worker_state) btree"

definition apply_replay :: "string \<Rightarrow> worker_transition \<Rightarrow> worker_states \<Rightarrow> worker_states" where
  "apply_replay a t m =
     (case bt_get m a of
        None \<Rightarrow> m
      | Some s \<Rightarrow>
          (let next = (case t of
                         Complete \<Rightarrow> Some WCompleted
                       | Cancel \<Rightarrow> Some WCancelled
                       | Fail \<Rightarrow> Some WFailed
                       | _ \<Rightarrow> (case transition s t of Inl _ \<Rightarrow> None | Inr s' \<Rightarrow> Some s'))
           in case next of None \<Rightarrow> m | Some s' \<Rightarrow> bt_put a s' m))"

fun replay_event :: "orchestration_event \<Rightarrow> worker_states \<Rightarrow> worker_states" where
  "replay_event (EvWorkerCreated a _ _ _ _ _ _) m = bt_put a WCreated m"
| "replay_event (EvWorkerAdmitted a _) m = apply_replay a Admit m"
| "replay_event (EvWorkerStarted a _) m = apply_replay a Start m"
| "replay_event (EvWorkerRunning a _) m = apply_replay a BeginRunning m"
| "replay_event (EvWorkerWaiting a _) m = apply_replay a BeginWaiting m"
| "replay_event (EvWorkerCompleted a _) m = apply_replay a Complete m"
| "replay_event (EvWorkerCancelling a _) m = apply_replay a BeginCancel m"
| "replay_event (EvWorkerCancelled a _) m = apply_replay a Cancel m"
| "replay_event (EvWorkerFailed a _ _) m = apply_replay a Fail m"
| "replay_event _ m = m"

definition replay_workers :: "orchestration_event list \<Rightarrow> worker_states" where
  "replay_workers es = fold replay_event es []"

end
