(* ===== verification/LifecycleProps.thy ===== *)
theory LifecycleProps
  imports Lifecycle
begin

text \<open>
  Properties of the worker life cycle: the order in which a worker can reach each state, the
  absorption of terminal states, and what the tolerant replay does with truncated and late
  events.
\<close>

subsection \<open>Accepted transitions as a step relation\<close>

inductive wstep :: "worker_state \<Rightarrow> worker_transition \<Rightarrow> worker_state \<Rightarrow> bool" where
  accept: "transition s t = Inr s' \<Longrightarrow> wstep s t s'"

inductive_cases wstepE: "wstep s t s'"
inductive_simps wstep_iff: "wstep s t s'"

inductive wsteps :: "worker_state \<Rightarrow> worker_transition list \<Rightarrow> worker_state \<Rightarrow> bool" where
  wnil: "wsteps s [] s"
| wsnoc: "wsteps s ts s' \<Longrightarrow> wstep s' t s'' \<Longrightarrow> wsteps s (ts @ [t]) s''"

text \<open>The accepted transitions of a machine driven by any list of calls.\<close>

fun machine_run :: "worker_transition list \<Rightarrow> worker_state \<Rightarrow> worker_state \<times> worker_transition list" where
  "machine_run [] s = (s, [])"
| "machine_run (t # ts) s =
     (case machine_apply t s of
        (s', Inl e) \<Rightarrow> machine_run ts s'
      | (s', Inr _) \<Rightarrow> (let (s'', acc) = machine_run ts s' in (s'', t # acc)))"

lemma transition_terminal: "ws_terminal s \<Longrightarrow> transition s t = Inl FromTerminal"
  by (simp add: transition_def)

lemma transition_facts:
  assumes "transition s t = Inr s'"
  shows "\<not> ws_terminal s"
    and "s' = WAdmitted \<longleftrightarrow> t = Admit" and "s' = WStarting \<longleftrightarrow> t = Start"
    and "s' = WCompleted \<longleftrightarrow> t = Complete" and "s' = WCancelled \<longleftrightarrow> t = Cancel"
    and "s' = WFailed \<longleftrightarrow> t = Fail" and "s' = WCancelling \<longleftrightarrow> t = BeginCancel"
    and "s' \<noteq> WCreated" and "t = Admit \<Longrightarrow> s = WCreated" and "t = Start \<Longrightarrow> s = WAdmitted"
    and "t = Cancel \<Longrightarrow> s = WCancelling"
    and "t = Complete \<Longrightarrow> s = WStarting \<or> s = WRunning \<or> s = WWaiting"
    and "t = BeginRunning \<Longrightarrow> s = WStarting" and "t = BeginWaiting \<Longrightarrow> s = WRunning"
    and "t = Resume \<Longrightarrow> s = WWaiting"
    and "s' = WRunning \<longleftrightarrow> t = BeginRunning \<or> t = Resume" and "s' = WWaiting \<longleftrightarrow> t = BeginWaiting"
  using assms by (auto simp: transition_def ws_terminal_def ws_active_def split: if_splits worker_state.splits worker_transition.splits)

definition started :: "worker_state \<Rightarrow> bool" where
  "started s \<longleftrightarrow> s = WStarting \<or> s = WRunning \<or> s = WWaiting \<or> s = WCompleted"

definition closing :: "worker_transition \<Rightarrow> bool" where
  "closing t \<longleftrightarrow> t = Complete \<or> t = Cancel \<or> t = Fail"

lemma wsteps_history:
  assumes "wsteps s0 ts s" and "s0 = WCreated"
  shows "(s = WCreated \<longrightarrow> ts = []) \<and> (s = WAdmitted \<longrightarrow> ts = [Admit]) \<and>
    (started s \<longrightarrow> take 2 ts = [Admit, Start]) \<and>
    (s = WCancelling \<or> s = WCancelled \<longrightarrow> BeginCancel \<in> set ts) \<and>
    (ws_terminal s \<longleftrightarrow> ts \<noteq> [] \<and> closing (last ts)) \<and> (\<forall>t \<in> set (butlast ts). \<not> closing t)"
  using assms
proof (induction rule: wsteps.induct)
  case (wnil s)
  then show ?case by (simp add: started_def ws_terminal_def)
next
  case (wsnoc s ts s' t s'')
  from wsnoc.hyps(2) have tr: "transition s' t = Inr s''"
    by (rule wstepE)
  note IH = wsnoc.IH [OF wsnoc.prems]
  note tf = transition_facts [OF tr]
  have "take 2 (ts @ [t]) = [Admit, Start]" if "started s''"
  proof (cases "s' = WAdmitted")
    case True
    then have "t = Start"
      using that tf by (auto simp: started_def)
    with True IH show ?thesis by simp
  next
    case False
    then have "started s'"
      using that tf by (auto simp: started_def)
    with IH have "take 2 ts = [Admit, Start]" by simp
    then show ?thesis
      by (cases ts; cases "tl ts") auto
  qed
  moreover have "\<forall>u \<in> set (butlast (ts @ [t])). \<not> closing u"
  proof -
    have "ts = [] \<or> \<not> closing (last ts)" "\<forall>u \<in> set (butlast ts). \<not> closing u"
      using IH tf(1) by simp_all
    then have "\<forall>u \<in> set ts. \<not> closing u"
      by (cases ts rule: rev_cases) auto
    then show ?thesis by simp
  qed
  moreover have "ws_terminal s'' \<longleftrightarrow> closing t"
    using tf by (auto simp: ws_terminal_def closing_def)
  moreover have "s'' = WAdmitted \<longrightarrow> ts @ [t] = [Admit]"
    using IH tf(2,9) by simp
  moreover have "s'' = WCancelling \<or> s'' = WCancelled \<longrightarrow> BeginCancel \<in> set (ts @ [t])"
    using IH tf(5,7,11) by auto
  ultimately show ?case
    using tf(8) by simp
qed

lemma machine_run_wsteps:
  "machine_run ts s = (s', acc) \<Longrightarrow> wsteps s0 pre s \<Longrightarrow> wsteps s0 (pre @ acc) s'"
proof (induction ts arbitrary: s acc pre)
  case (Cons t ts)
  show ?case
  proof (cases "transition s t")
    case (Inl e)
    with Cons show ?thesis by (simp add: machine_apply_def)
  next
    case (Inr s1)
    then obtain acc' where run: "machine_run ts s1 = (s', acc')" "acc = t # acc'"
      using Cons.prems(1) by (auto simp: machine_apply_def split: prod.splits)
    have "wsteps s0 (pre @ [t]) s1"
      using Cons.prems(2) Inr by (intro wsteps.wsnoc wstep.accept)
    from Cons.IH [OF run(1) this] run(2) show ?thesis by simp
  qed
qed simp

text \<open>
  C35: However a worker's state machine is driven, it reaches \<open>Starting\<close>, \<open>Running\<close>, \<open>Waiting\<close> or
  \<open>Completed\<close> only after being admitted and then started, it is cancelled only after a
  cancellation began, and a closing transition (complete, cancel, fail) is the last one it ever
  accepts.
\<close>

theorem worker_history_is_ordered:
  assumes "machine_run ts WCreated = (s, acc)"
  shows "(started s \<longrightarrow> take 2 acc = [Admit, Start]) \<and>
    (s = WCancelled \<longrightarrow> BeginCancel \<in> set acc \<and> last acc = Cancel) \<and>
    (ws_terminal s \<longleftrightarrow> acc \<noteq> [] \<and> closing (last acc)) \<and>
    (\<forall>t \<in> set (butlast acc). \<not> closing t)"
proof -
  have steps: "wsteps WCreated acc s"
    using machine_run_wsteps [OF assms wsteps.wnil [of WCreated]] by simp
  have "last acc = Cancel" if "s = WCancelled"
    using steps that
  proof (cases rule: wsteps.cases)
    case (wsnoc ts s' t)
    from wsnoc(3) that have "t = Cancel"
      by (auto elim!: wstepE dest: transition_facts(5))
    with wsnoc(1) show ?thesis by simp
  qed simp
  with wsteps_history [OF steps refl] show ?thesis
    by simp
qed

lemma worker_history_is_ordered_witness:
  "\<exists>acc. machine_run [Start, Admit, Start, Cancel, BeginRunning, Complete, Fail] WCreated = (WCompleted, acc) \<and>
     take 2 acc = [Admit, Start] \<and> last acc = Complete"
proof -
  have run: "machine_run [Start, Admit, Start, Cancel, BeginRunning, Complete, Fail] WCreated =
      (WCompleted, [Admit, Start, BeginRunning, Complete])"
    by code_simp
  from worker_history_is_ordered [OF run] show ?thesis
    unfolding run by (simp add: started_def)
qed

subsection \<open>Replay\<close>

lemma replay_workers_snoc: "replay_workers (es @ [e]) = replay_event e (replay_workers es)"
  by (simp add: replay_workers_def)

lemma replay_workers_append: "replay_workers (es @ es') = fold replay_event es' (replay_workers es)"
  by (simp add: replay_workers_def)

fun creates :: "string \<Rightarrow> orchestration_event \<Rightarrow> bool" where
  "creates a (EvWorkerCreated b _ _ _ _ _ _) = (a = b)"
| "creates a _ = False"

lemma apply_replay_other: "a \<noteq> b \<Longrightarrow> bt_get (apply_replay b t m) a = bt_get m a"
  by (simp add: apply_replay_def Let_def split: option.splits)

lemma apply_replay_same:
  "bt_get (apply_replay a t m) a =
     (case bt_get m a of
        None \<Rightarrow> None
      | Some s \<Rightarrow> Some (if t = Complete then WCompleted else if t = Cancel then WCancelled
                    else if t = Fail then WFailed
                    else case transition s t of Inl _ \<Rightarrow> s | Inr s' \<Rightarrow> s'))"
  by (cases t) (auto simp: apply_replay_def split: option.splits sum.splits)

lemma replay_keeps_terminal:
  assumes "bt_get m a = Some s" and "ws_terminal s" and "\<not> creates a e"
  shows "\<exists>s'. bt_get (replay_event e m) a = Some s' \<and> ws_terminal s'"
proof -
  have one: "\<exists>s'. bt_get (apply_replay b t m) a = Some s' \<and> ws_terminal s'" for b t
    using assms(1,2) transition_terminal [OF assms(2), of t]
    by (cases "a = b") (auto simp: apply_replay_same apply_replay_other ws_terminal_def)
  show ?thesis
    using one assms by (cases e) (auto simp: bt_get_put)
qed

text \<open>
  Replay settles a worker for good: once a log has brought it to a terminal state, no later
  event short of a new creation brings it back to an active one; and a closing event decides the
  state of a known worker even when the events before it were lost.
\<close>

theorem replayed_terminal_states_persist:
  assumes "bt_get (replay_workers es) a = Some s" and "\<forall>e \<in> set es'. \<not> creates a e"
  shows "(ws_terminal s \<longrightarrow> (\<exists>s'. bt_get (replay_workers (es @ es')) a = Some s' \<and> ws_terminal s')) \<and>
    bt_get (replay_workers (es @ [EvWorkerCompleted a t])) a = Some WCompleted \<and>
    bt_get (replay_workers (es @ [EvWorkerCancelled a t])) a = Some WCancelled \<and>
    bt_get (replay_workers (es @ [EvWorkerFailed a t why])) a = Some WFailed"
proof -
  have "\<exists>s'. bt_get (fold replay_event es' m) a = Some s' \<and> ws_terminal s'"
    if "bt_get m a = Some s" "ws_terminal s" for m s
    using that assms(2)
  proof (induction es' arbitrary: m s)
    case (Cons e es')
    from replay_keeps_terminal [OF Cons.prems(1,2), of e] Cons.prems(3) obtain s1 where
      "bt_get (replay_event e m) a = Some s1" "ws_terminal s1"
      by auto
    from Cons.IH [OF this] Cons.prems(3) show ?case by simp
  qed simp
  then show ?thesis
    using assms(1) by (auto simp: replay_workers_append replay_workers_snoc apply_replay_same)
qed

lemma replayed_terminal_states_persist_witness:
  "bt_get (replay_workers ([EvWorkerCreated ''a'' ''t'' None ParentRole ''s'' None 0] @ [EvWorkerFailed ''a'' 1 ''x''])) ''a'' =
     Some WFailed"
proof -
  have "bt_get (replay_workers [EvWorkerCreated ''a'' ''t'' None ParentRole ''s'' None 0]) ''a'' = Some WCreated"
    by code_simp
  from replayed_terminal_states_persist [OF this, of "[]" 1 "''x''"] show ?thesis
    by simp
qed

text \<open>
  A late closing event is not ignored by replay: a worker whose log says it completed is
  reported failed when a failure event follows, and cancelled when a cancellation follows.
\<close>

theorem late_closing_event_overwrites:
  assumes "bt_get (replay_workers es) a \<noteq> None"
  shows "bt_get (replay_workers (es @ [EvWorkerCompleted a t, EvWorkerFailed a u why])) a = Some WFailed \<and>
    bt_get (replay_workers (es @ [EvWorkerCompleted a t, EvWorkerCancelled a u])) a = Some WCancelled"
  using assms by (auto simp: replay_workers_append apply_replay_same split: option.splits)

lemma late_closing_event_overwrites_witness:
  "bt_get (replay_workers ([EvWorkerCreated ''a'' ''t'' None ParentRole ''s'' None 0] @
     [EvWorkerCompleted ''a'' 1, EvWorkerFailed ''a'' 2 ''x''])) ''a'' = Some WFailed"
proof -
  have "bt_get (replay_workers [EvWorkerCreated ''a'' ''t'' None ParentRole ''s'' None 0]) ''a'' \<noteq> None"
    by code_simp
  from late_closing_event_overwrites [OF this, of 1 2 "''x''"] show ?thesis
    by simp
qed

text \<open>
  Resuming a waiting worker leaves no trace in the log: no event that replay knows takes a
  worker from waiting back to running, although the state machine accepts that transition.
\<close>

theorem replay_cannot_resume_a_waiting_worker:
  "transition WWaiting Resume = Inr WRunning \<and>
   (bt_get m a = Some WWaiting \<longrightarrow> bt_get (replay_event e m) a \<noteq> Some WRunning)"
proof -
  have "bt_get (apply_replay b t m) a \<noteq> Some WRunning" if "bt_get m a = Some WWaiting" "t \<noteq> Resume" for b t
    using that by (cases "a = b"; cases t) (auto simp: apply_replay_same apply_replay_other transition_def
        ws_terminal_def ws_active_def)
  then show ?thesis
    by (cases e) (auto simp: transition_def ws_terminal_def bt_get_put)
qed

lemma replay_cannot_resume_a_waiting_worker_witness:
  "bt_get (replay_event (EvWorkerRunning ''a'' 5) [(''a'', WWaiting)]) ''a'' \<noteq> Some WRunning"
  using replay_cannot_resume_a_waiting_worker [of "[(''a'', WWaiting)]" "''a''" "EvWorkerRunning ''a'' 5"]
  by simp

end
