(* ===== verification/UsageLedger.thy ===== *)
theory UsageLedger
  imports OrdMap
begin

text \<open>
  The usage ledger of \<open>crates/control-plane/src/usage.rs\<close>: the versioned usage record, its
  validation, the in-memory append-only store with its idempotency key, queries and aggregation.
  The locale \<open>usage_ledger\<close> is the part of the trait's contract that budget flushing relies on;
  the in-memory ledger interprets it. The SQLite store is not modelled.
\<close>

subsection \<open>Records\<close>

datatype cost_confidence = EstimatedCost | ActualCost | UnknownCost

record usage_record =
  ur_id :: string
  ur_version :: "32 word"
  ur_tenant :: string
  ur_principal :: string
  ur_account :: string
  ur_credential :: "string option"
  ur_session :: string
  ur_agent :: string
  ur_run :: "string option"
  ur_provider :: string
  ur_model :: string
  ur_input :: u64
  ur_output :: u64
  ur_cache_read :: u64
  ur_cache_write :: u64
  ur_cost :: u64
  ur_currency :: string
  ur_at :: u64
  ur_request :: "string option"
  ur_event :: "string option"
  ur_attempt :: "u64 option"
  ur_trace :: "string option"
  ur_rate_card :: "string option"
  ur_rate_version :: "string option"
  ur_confidence :: "cost_confidence option"
  ur_provenance :: "string option"

definition auto_record_id_prefix :: string where
  "auto_record_id_prefix = ''auto-rec-''"

text \<open>\<open>UsageRecord::default()\<close>; the id comes from the process-wide counter.\<close>

definition usage_record_default :: "u64 \<Rightarrow> usage_record" where
  "usage_record_default n =
     \<lparr>ur_id = auto_record_id_prefix @ dec (unat n), ur_version = 2, ur_tenant = [], ur_principal = [],
      ur_account = [], ur_credential = None, ur_session = [], ur_agent = [], ur_run = None,
      ur_provider = [], ur_model = [], ur_input = 0, ur_output = 0, ur_cache_read = 0,
      ur_cache_write = 0, ur_cost = 0, ur_currency = [], ur_at = 0, ur_request = None,
      ur_event = None, ur_attempt = None, ur_trace = None, ur_rate_card = None,
      ur_rate_version = None, ur_confidence = None, ur_provenance = None\<rparr>"

definition same_content :: "usage_record \<Rightarrow> usage_record \<Rightarrow> bool" where
  "same_content a b \<longleftrightarrow>
     ur_version a = ur_version b \<and> ur_tenant a = ur_tenant b \<and> ur_principal a = ur_principal b \<and>
     ur_account a = ur_account b \<and> ur_credential a = ur_credential b \<and> ur_session a = ur_session b \<and>
     ur_agent a = ur_agent b \<and> ur_run a = ur_run b \<and> ur_provider a = ur_provider b \<and>
     ur_model a = ur_model b \<and> ur_input a = ur_input b \<and> ur_output a = ur_output b \<and>
     ur_cache_read a = ur_cache_read b \<and> ur_cache_write a = ur_cache_write b \<and>
     ur_cost a = ur_cost b \<and> ur_currency a = ur_currency b \<and> ur_at a = ur_at b \<and>
     ur_request a = ur_request b \<and> ur_event a = ur_event b \<and> ur_attempt a = ur_attempt b \<and>
     ur_trace a = ur_trace b \<and> ur_rate_card a = ur_rate_card b \<and>
     ur_rate_version a = ur_rate_version b \<and> ur_confidence a = ur_confidence b \<and>
     ur_provenance a = ur_provenance b"

subsection \<open>Totals\<close>

record usage_totals =
  ut_input :: nat
  ut_output :: nat
  ut_cache_read :: nat
  ut_cache_write :: nat
  ut_cost :: nat

definition totals_zero :: usage_totals where
  "totals_zero = \<lparr>ut_input = 0, ut_output = 0, ut_cache_read = 0, ut_cache_write = 0, ut_cost = 0\<rparr>"

definition totals_add :: "usage_record \<Rightarrow> usage_totals \<Rightarrow> usage_totals" where
  "totals_add r t =
     \<lparr>ut_input = sat_add (ut_input t) (unat (ur_input r)),
      ut_output = sat_add (ut_output t) (unat (ur_output r)),
      ut_cache_read = sat_add (ut_cache_read t) (unat (ur_cache_read r)),
      ut_cache_write = sat_add (ut_cache_write t) (unat (ur_cache_write r)),
      ut_cost = sat_add (ut_cost t) (unat (ur_cost r))\<rparr>"

definition totals_merge :: "usage_totals \<Rightarrow> usage_totals \<Rightarrow> usage_totals" where
  "totals_merge a b =
     \<lparr>ut_input = sat_add (ut_input a) (ut_input b),
      ut_output = sat_add (ut_output a) (ut_output b),
      ut_cache_read = sat_add (ut_cache_read a) (ut_cache_read b),
      ut_cache_write = sat_add (ut_cache_write a) (ut_cache_write b),
      ut_cost = sat_add (ut_cost a) (ut_cost b)\<rparr>"

subsection \<open>Queries\<close>

record usage_query =
  uq_tenant :: "string option"
  uq_principal :: "string option"
  uq_account :: "string option"
  uq_credential :: "string option"
  uq_session :: "string option"
  uq_agent :: "string option"
  uq_run :: "string option"
  uq_provider :: "string option"
  uq_model :: "string option"
  uq_currency :: "string option"
  uq_start :: "u64 option"
  uq_end :: "u64 option"

definition usage_query_all :: usage_query where
  "usage_query_all = \<lparr>uq_tenant = None, uq_principal = None, uq_account = None, uq_credential = None,
     uq_session = None, uq_agent = None, uq_run = None, uq_provider = None, uq_model = None,
     uq_currency = None, uq_start = None, uq_end = None\<rparr>"

definition q_eq :: "string option \<Rightarrow> string \<Rightarrow> bool" where
  "q_eq q v = (case q of None \<Rightarrow> True | Some w \<Rightarrow> v = w)"

definition q_opt :: "string option \<Rightarrow> string option \<Rightarrow> bool" where
  "q_opt q v = (case q of None \<Rightarrow> True | Some w \<Rightarrow> v = Some w)"

definition usage_matches :: "usage_record \<Rightarrow> usage_query \<Rightarrow> bool" where
  "usage_matches r q \<longleftrightarrow>
     q_eq (uq_tenant q) (ur_tenant r) \<and> q_eq (uq_principal q) (ur_principal r) \<and>
     q_eq (uq_account q) (ur_account r) \<and> q_opt (uq_credential q) (ur_credential r) \<and>
     q_eq (uq_session q) (ur_session r) \<and> q_eq (uq_agent q) (ur_agent r) \<and>
     q_opt (uq_run q) (ur_run r) \<and> q_eq (uq_provider q) (ur_provider r) \<and>
     q_eq (uq_model q) (ur_model r) \<and> q_eq (uq_currency q) (ur_currency r) \<and>
     (case uq_start q of None \<Rightarrow> True | Some s \<Rightarrow> \<not> ur_at r < s) \<and>
     (case uq_end q of None \<Rightarrow> True | Some e \<Rightarrow> \<not> ur_at r \<ge> e)"

subsection \<open>The in-memory ledger\<close>

datatype ledger_error =
    LInvalid string
  | LConflict string
  | LMixed "string list"
  | LStorage string

definition is_ascii_uppercase :: "char \<Rightarrow> bool" where
  "is_ascii_uppercase c = (let b = of_char c :: nat in 65 \<le> b \<and> b \<le> 90)"

text \<open>The reasons are abbreviated to the field they name.\<close>

definition validate_record :: "usage_record \<Rightarrow> ledger_error option" where
  "validate_record r =
     (if ur_version r = 0 then Some (LInvalid ''version'')
      else if ur_tenant r = [] then Some (LInvalid ''tenant_id'')
      else if ur_account r = [] then Some (LInvalid ''account_id'')
      else if ur_provider r = [] then Some (LInvalid ''provider_id'')
      else if ur_model r = [] then Some (LInvalid ''model_id'')
      else if length (ur_currency r) \<noteq> 3 \<or> \<not> list_all is_ascii_uppercase (ur_currency r)
      then Some (LInvalid ''currency'')
      else if sat_add (sat_add (sat_add (unat (ur_input r)) (unat (ur_output r)))
                (unat (ur_cache_read r))) (unat (ur_cache_write r)) = 0 \<and> ur_cost r = 0
      then Some (LInvalid ''usage'')
      else if ur_at r = 0 then Some (LInvalid ''occurred_at_ms'')
      else None)"

text \<open>The store with the process-wide id counter.\<close>

record mem_ledger =
  ml_records :: "usage_record list"
  ml_next_id :: u64

definition mem_ledger_new :: "u64 \<Rightarrow> mem_ledger" where
  "mem_ledger_new n = \<lparr>ml_records = [], ml_next_id = n\<rparr>"

definition record_key :: "usage_record \<Rightarrow> string \<times> string \<times> string" where
  "record_key r = (ur_tenant r, ur_account r, ur_id r)"

definition same_attempt :: "usage_record \<Rightarrow> string \<Rightarrow> usage_record \<Rightarrow> bool" where
  "same_attempt r req e \<longleftrightarrow> ur_tenant e = ur_tenant r \<and> ur_account e = ur_account r \<and>
     ur_request e = Some req \<and>
     (case ur_attempt e of None \<Rightarrow> 0 | Some n \<Rightarrow> n) = (case ur_attempt r of None \<Rightarrow> 0 | Some n \<Rightarrow> n)"

definition mem_record :: "mem_ledger \<Rightarrow> usage_record \<Rightarrow> mem_ledger \<times> (ledger_error, unit) result" where
  "mem_record l r0 =
     (case validate_record r0 of
        Some e \<Rightarrow> (l, Inl e)
      | None \<Rightarrow>
          (let (r, l1) = (if ur_id r0 = []
                          then (r0\<lparr>ur_id := auto_record_id_prefix @ dec (unat (ml_next_id l))\<rparr>,
                                l\<lparr>ml_next_id := ml_next_id l + 1\<rparr>)
                          else (r0, l))
           in case find (\<lambda>e. record_key e = record_key r) (ml_records l1) of
                Some e \<Rightarrow> (l1, if same_content e r then Inr () else Inl (LConflict (ur_id r)))
              | None \<Rightarrow>
                  (case Option.bind (ur_request r) (\<lambda>req. find (same_attempt r req) (ml_records l1)) of
                     Some e \<Rightarrow> (l1, Inl (LConflict (ur_id e)))
                   | None \<Rightarrow> (l1\<lparr>ml_records := ml_records l1 @ [r]\<rparr>, Inr ()))))"

definition mem_query :: "mem_ledger \<Rightarrow> usage_query \<Rightarrow> usage_record list" where
  "mem_query l q = filter (\<lambda>r. usage_matches r q) (ml_records l)"

definition mem_aggregate :: "mem_ledger \<Rightarrow> usage_query \<Rightarrow> (ledger_error, usage_totals) result" where
  "mem_aggregate l q =
     (let rs = mem_query l q;
          totals = fold totals_add rs totals_zero;
          currencies = bt_keys (fold (\<lambda>r. bt_put (ur_currency r) ()) rs [])
      in if length currencies > 1 then Inl (LMixed currencies) else Inr totals)"

subsection \<open>The contract\<close>

text \<open>
  What a caller with its own idempotency keys relies on. A record is \<open>postable\<close> when it passes
  validation, carries an id, and is not tied to an upstream request.
\<close>

definition postable :: "usage_record \<Rightarrow> bool" where
  "postable r \<longleftrightarrow> validate_record r = None \<and> ur_id r \<noteq> [] \<and> ur_request r = None"

definition keys_distinct :: "mem_ledger \<Rightarrow> bool" where
  "keys_distinct l \<longleftrightarrow> distinct (map record_key (ml_records l))"

locale usage_ledger =
  fixes rec :: "'l \<Rightarrow> usage_record \<Rightarrow> 'l \<times> (ledger_error, unit) result"
    and entries :: "'l \<Rightarrow> usage_record list"
    and inv :: "'l \<Rightarrow> bool"
  assumes inv_rec: "inv l \<Longrightarrow> inv (fst (rec l r))"
    and rec_fresh: "inv l \<Longrightarrow> postable r \<Longrightarrow> record_key r \<notin> record_key ` set (entries l) \<Longrightarrow>
      snd (rec l r) = Inr () \<and> entries (fst (rec l r)) = entries l @ [r]"
    and rec_again: "inv l \<Longrightarrow> postable r \<Longrightarrow> r \<in> set (entries l) \<Longrightarrow> rec l r = (l, Inr ())"
begin

text \<open>Posting a fresh record twice leaves the ledger as posting it once.\<close>

lemma rec_twice:
  assumes "inv l" and "postable r" and "record_key r \<notin> record_key ` set (entries l)"
  shows "rec (fst (rec l r)) r = (fst (rec l r), Inr ())"
  using rec_fresh [OF assms] inv_rec [OF assms(1)] assms(2) by (intro rec_again) auto

end

lemma same_content_refl [simp]: "same_content r r"
  by (simp add: same_content_def)

lemma find_key_distinct:
  assumes "distinct (map record_key rs)" and "r \<in> set rs"
  shows "find (\<lambda>e. record_key e = record_key r) rs = Some r"
  using assms by (induction rs) (auto simp: image_iff)

lemma mem_record_keys:
  assumes "keys_distinct l"
  shows "keys_distinct (fst (mem_record l r0))"
proof -
  have "distinct (map record_key (rs @ [r]))"
    if "distinct (map record_key rs)" "find (\<lambda>e. record_key e = record_key r) rs = None" for rs and r :: usage_record
    using that by (auto simp: find_None_iff)
  then show ?thesis
    using assms
    by (auto simp: mem_record_def keys_distinct_def Let_def split: option.splits prod.splits if_splits)
qed

lemma mem_record_postable:
  assumes "postable r"
  shows "mem_record l r =
    (case find (\<lambda>e. record_key e = record_key r) (ml_records l) of
       Some e \<Rightarrow> (l, if same_content e r then Inr () else Inl (LConflict (ur_id r)))
     | None \<Rightarrow> (l\<lparr>ml_records := ml_records l @ [r]\<rparr>, Inr ()))"
  using assms by (auto simp: mem_record_def postable_def split: option.splits)

interpretation mem: usage_ledger mem_record ml_records keys_distinct
proof unfold_locales
  show "keys_distinct (fst (mem_record l r))" if "keys_distinct l" for l r
    using that by (rule mem_record_keys)
  show "snd (mem_record l r) = Inr () \<and> ml_records (fst (mem_record l r)) = ml_records l @ [r]"
    if "keys_distinct l" "postable r" "record_key r \<notin> record_key ` set (ml_records l)" for l r
  proof -
    have "find (\<lambda>e. record_key e = record_key r) (ml_records l) = None"
      using that(3) by (auto simp: find_None_iff image_iff)
    then show ?thesis
      using that(2) by (simp add: mem_record_postable)
  qed
  show "mem_record l r = (l, Inr ())" if "keys_distinct l" "postable r" "r \<in> set (ml_records l)" for l r
    using that find_key_distinct [of "ml_records l" r] by (simp add: mem_record_postable keys_distinct_def)
qed

end
