(* ===== verification/Budget.thy ===== *)
theory Budget
  imports UsageLedger
begin

text \<open>
  The worker budget controller, \<open>crates/orchestration/src/budget.rs\<close>: usage counters, the soft and
  hard limit report, the edge-triggered alarms, and the flush of unbilled usage to a ledger that
  may lose calls or acknowledgements. \<open>with_soft_ratio\<close> takes a float and is left out; the ratio is
  a field in parts per million.
\<close>

subsection \<open>Limits and usage\<close>

record budget_limits =
  bl_input :: "u64 option"
  bl_output :: "u64 option"
  bl_cost :: "u64 option"
  bl_concurrency :: "u64 option"

record usage_snapshot =
  us_input :: u64
  us_output :: u64
  us_cost :: u64

definition snapshot_zero :: usage_snapshot where
  "snapshot_zero = \<lparr>us_input = 0, us_output = 0, us_cost = 0\<rparr>"

text \<open>\<open>fetch_add\<close> on the atomics wraps.\<close>

definition add_tokens :: "u64 \<Rightarrow> u64 \<Rightarrow> usage_snapshot \<Rightarrow> usage_snapshot" where
  "add_tokens i out u = u\<lparr>us_input := us_input u + i, us_output := us_output u + out\<rparr>"

definition add_cost :: "u64 \<Rightarrow> usage_snapshot \<Rightarrow> usage_snapshot" where
  "add_cost c u = u\<lparr>us_cost := us_cost u + c\<rparr>"

definition sat_sub_word :: "u64 \<Rightarrow> u64 \<Rightarrow> u64" where
  "sat_sub_word a b = (if b \<le> a then a - b else 0)"

definition delta_since :: "usage_snapshot \<Rightarrow> usage_snapshot \<Rightarrow> usage_snapshot" where
  "delta_since u p =
     \<lparr>us_input = sat_sub_word (us_input u) (us_input p),
      us_output = sat_sub_word (us_output u) (us_output p),
      us_cost = sat_sub_word (us_cost u) (us_cost p)\<rparr>"

definition has_tokens :: "usage_snapshot \<Rightarrow> bool" where
  "has_tokens u \<longleftrightarrow> sat_add (unat (us_input u)) (unat (us_output u)) > 0"

definition has_usage :: "usage_snapshot \<Rightarrow> bool" where
  "has_usage u \<longleftrightarrow> has_tokens u \<or> us_cost u > 0"

subsection \<open>Reports\<close>

definition dim_input_tokens :: string where "dim_input_tokens = ''input_tokens''"
definition dim_output_tokens :: string where "dim_output_tokens = ''output_tokens''"
definition dim_cost_micros :: string where "dim_cost_micros = ''cost_micros''"

definition soft_ratio_scale :: u64 where "soft_ratio_scale = 1000000"
definition default_soft_ratio_ppm :: u64 where "default_soft_ratio_ppm = 800000"

record budget_report =
  br_soft :: "string set"
  br_hard :: "string set"

record budget_controller =
  bc_limits :: budget_limits
  bc_usage :: usage_snapshot
  bc_soft_ppm :: u64
  bc_id :: string
  bc_committed :: usage_snapshot
  bc_pending :: "(usage_snapshot \<times> usage_record) option"
  bc_signaled :: "string set"

text \<open>The id, built from the process id, the clock and a counter, is a parameter.\<close>

definition budget_new :: "budget_limits \<Rightarrow> string \<Rightarrow> budget_controller" where
  "budget_new lim cid =
     \<lparr>bc_limits = lim, bc_usage = snapshot_zero, bc_soft_ppm = default_soft_ratio_ppm, bc_id = cid,
      bc_committed = snapshot_zero, bc_pending = None, bc_signaled = {}\<rparr>"

definition record_tokens :: "u64 \<Rightarrow> u64 \<Rightarrow> budget_controller \<Rightarrow> budget_controller" where
  "record_tokens i out c = c\<lparr>bc_usage := add_tokens i out (bc_usage c)\<rparr>"

definition record_cost :: "u64 \<Rightarrow> budget_controller \<Rightarrow> budget_controller" where
  "record_cost m c = c\<lparr>bc_usage := add_cost m (bc_usage c)\<rparr>"

text \<open>One turn of the loop of \<open>check\<close>; the products are taken in 128 bits.\<close>

definition check_dim :: "u64 \<Rightarrow> u64 \<times> u64 option \<times> string \<Rightarrow> budget_report \<Rightarrow> budget_report" where
  "check_dim ppm d rep =
     (case d of (used, limit, dim) \<Rightarrow>
       (case limit of
          None \<Rightarrow> rep
        | Some lim \<Rightarrow>
            (let rep1 = (if used \<ge> lim then rep\<lparr>br_hard := insert dim (br_hard rep)\<rparr> else rep);
                 used_scaled = (ucast used :: 128 word) * ucast soft_ratio_scale;
                 limit_scaled = (ucast lim :: 128 word) * ucast ppm
             in if used_scaled \<ge> limit_scaled then rep1\<lparr>br_soft := insert dim (br_soft rep1)\<rparr> else rep1)))"

definition check_budget :: "budget_controller \<Rightarrow> budget_report" where
  "check_budget c =
     fold (check_dim (bc_soft_ppm c))
       [(us_input (bc_usage c), bl_input (bc_limits c), dim_input_tokens),
        (us_output (bc_usage c), bl_output (bc_limits c), dim_output_tokens),
        (us_cost (bc_usage c), bl_cost (bc_limits c), dim_cost_micros)]
       \<lparr>br_soft = {}, br_hard = {}\<rparr>"

definition diff_hard_exceeded :: "budget_report \<Rightarrow> budget_controller \<Rightarrow> budget_controller \<times> string set" where
  "diff_hard_exceeded rep c =
     (let recovered = {d \<in> bc_signaled c. d \<notin> br_hard rep};
          kept = bc_signaled c - recovered;
          newly = {d \<in> br_hard rep. d \<notin> kept}
      in (c\<lparr>bc_signaled := kept \<union> newly\<rparr>, newly))"

subsection \<open>Flushing\<close>

record ledger_context =
  lc_credential :: "string option"
  lc_tenant :: string
  lc_principal :: string
  lc_account :: string
  lc_session :: string
  lc_agent :: string
  lc_run :: "string option"
  lc_provider :: string
  lc_model :: string

definition budget_id_prefix :: "string \<Rightarrow> string" where
  "budget_id_prefix cid = auto_record_id_prefix @ ''budget-'' @ cid @ ''-''"

definition budget_record_id :: "string \<Rightarrow> usage_snapshot \<Rightarrow> string" where
  "budget_record_id cid t =
     budget_id_prefix cid @ dec (unat (us_input t)) @ ''-'' @ dec (unat (us_output t)) @ ''-'' @
     dec (unat (us_cost t))"

definition make_usage_record ::
  "string \<Rightarrow> ledger_context \<Rightarrow> u64 \<Rightarrow> usage_snapshot \<Rightarrow> usage_snapshot \<Rightarrow> usage_record" where
  "make_usage_record cid ctx now target delta =
     (usage_record_default 0)
       \<lparr>ur_id := budget_record_id cid target, ur_tenant := lc_tenant ctx,
        ur_principal := lc_principal ctx, ur_account := lc_account ctx,
        ur_credential := lc_credential ctx, ur_session := lc_session ctx, ur_agent := lc_agent ctx,
        ur_run := lc_run ctx, ur_provider := lc_provider ctx, ur_model := lc_model ctx,
        ur_input := us_input delta, ur_output := us_output delta, ur_cache_read := 0,
        ur_cache_write := 0, ur_cost := us_cost delta, ur_currency := ''USD'', ur_at := now\<rparr>"

text \<open>
  One call of \<open>ledger.record\<close>: it returns what the ledger says, or the ledger stores the record and
  the answer is lost (an error, or the future is dropped), or the call never arrives.
\<close>

datatype delivery = Delivered | AnswerLost | CallLost

fun deliver ::
  "('l \<Rightarrow> usage_record \<Rightarrow> 'l \<times> (ledger_error, unit) result) \<Rightarrow> delivery \<Rightarrow> 'l \<Rightarrow> usage_record \<Rightarrow>
     'l \<times> (ledger_error, unit) result" where
  "deliver rec Delivered l r = rec l r"
| "deliver rec AnswerLost l r = (fst (rec l r), Inl (LStorage []))"
| "deliver rec CallLost l r = (l, Inl (LStorage []))"

text \<open>
  The loop of \<open>flush_to_ledger\<close>, with fuel; \<open>ds\<close> gives the fate of each call, in order, and all
  later calls are delivered. The clock is read once, when a new record is made.
\<close>

fun flush_loop ::
  "nat \<Rightarrow> ('l \<Rightarrow> usage_record \<Rightarrow> 'l \<times> (ledger_error, unit) result) \<Rightarrow> ledger_context \<Rightarrow> u64 \<Rightarrow>
     delivery list \<Rightarrow> usage_snapshot \<Rightarrow> budget_controller \<Rightarrow> 'l \<Rightarrow>
     (budget_controller \<times> 'l \<times> (ledger_error, unit) result) option" where
  "flush_loop 0 rec ctx now ds goal c l = None"
| "flush_loop (Suc n) rec ctx now ds goal c l =
     (let delta = delta_since goal (bc_committed c) in
      if bc_pending c = None \<and> \<not> has_usage delta then Some (c, l, Inr ())
      else
        (let p = (case bc_pending c of
                    Some p \<Rightarrow> p
                  | None \<Rightarrow> (goal, make_usage_record (bc_id c) ctx now goal delta));
             c1 = c\<lparr>bc_pending := Some p\<rparr>;
             d = (case ds of [] \<Rightarrow> Delivered | d # _ \<Rightarrow> d)
         in case deliver rec d l (snd p) of
              (l1, Inl e) \<Rightarrow> Some (c1, l1, Inl e)
            | (l1, Inr _) \<Rightarrow>
                (let c2 = c1\<lparr>bc_committed := fst p, bc_pending := None\<rparr> in
                 if bc_committed c2 = goal then Some (c2, l1, Inr ())
                 else flush_loop n rec ctx now (tl ds) goal c2 l1)))"

text \<open>A flush makes at most two calls: a pending record left behind, then the current one.\<close>

definition flush_to_ledger ::
  "('l \<Rightarrow> usage_record \<Rightarrow> 'l \<times> (ledger_error, unit) result) \<Rightarrow> ledger_context \<Rightarrow> u64 \<Rightarrow>
     delivery list \<Rightarrow> budget_controller \<Rightarrow> 'l \<Rightarrow>
     (budget_controller \<times> 'l \<times> (ledger_error, unit) result) option" where
  "flush_to_ledger rec ctx now ds c l = flush_loop 3 rec ctx now ds (bc_usage c) c l"

subsection \<open>Runs\<close>

datatype budget_op = RecordTokens u64 u64 | RecordCost u64 | Flush u64 "delivery list"

fun budget_run ::
  "('l \<Rightarrow> usage_record \<Rightarrow> 'l \<times> (ledger_error, unit) result) \<Rightarrow> ledger_context \<Rightarrow> budget_op list \<Rightarrow>
     budget_controller \<times> 'l \<Rightarrow> (budget_controller \<times> 'l) option" where
  "budget_run rec ctx [] s = Some s"
| "budget_run rec ctx (RecordTokens i out # ops) (c, l) = budget_run rec ctx ops (record_tokens i out c, l)"
| "budget_run rec ctx (RecordCost m # ops) (c, l) = budget_run rec ctx ops (record_cost m c, l)"
| "budget_run rec ctx (Flush now ds # ops) (c, l) =
     (case flush_to_ledger rec ctx now ds c l of
        None \<Rightarrow> None
      | Some (c', l', _) \<Rightarrow> budget_run rec ctx ops (c', l'))"

end
