(* ===== verification/BudgetProps.thy ===== *)
theory BudgetProps
  imports Budget
begin

text \<open>
  Properties of budgets and the usage ledger: the report compares exactly, alarms fire on the
  rising edge, the ledger keeps its keys unique, and a flush bills every recorded unit once
  whatever calls and answers are lost on the way.
\<close>

subsection \<open>Snapshots as numbers\<close>

definition vals :: "usage_snapshot \<Rightarrow> nat \<times> nat \<times> nat" where
  "vals u = (unat (us_input u), unat (us_output u), unat (us_cost u))"

definition plus3 :: "nat \<times> nat \<times> nat \<Rightarrow> nat \<times> nat \<times> nat \<Rightarrow> nat \<times> nat \<times> nat" where
  "plus3 a b = (fst a + fst b, fst (snd a) + fst (snd b), snd (snd a) + snd (snd b))"

definition le3 :: "nat \<times> nat \<times> nat \<Rightarrow> nat \<times> nat \<times> nat \<Rightarrow> bool" where
  "le3 a b \<longleftrightarrow> fst a \<le> fst b \<and> fst (snd a) \<le> fst (snd b) \<and> snd (snd a) \<le> snd (snd b)"

lemma plus3_simps: "plus3 (a, b, c) (x, y, z) = (a + x, b + y, c + z)"
  by (simp add: plus3_def)

lemma le3_simps: "le3 (a, b, c) (x, y, z) \<longleftrightarrow> a \<le> x \<and> b \<le> y \<and> c \<le> z"
  by (simp add: le3_def)

lemma le3_refl [simp]: "le3 a a"
  by (simp add: le3_def)

lemma le3_trans: "le3 a b \<Longrightarrow> le3 b c \<Longrightarrow> le3 a c"
  by (auto simp: le3_def)

lemma vals_inj: "vals u = vals v \<Longrightarrow> u = v"
  by (cases u; cases v) (simp add: vals_def word_unat_eq_iff)

lemma unat_sat_sub: "unat (sat_sub_word a b) = unat a - unat b"
  by (auto simp: sat_sub_word_def unat_sub word_le_nat_alt)

lemma vals_delta: "le3 (vals p) (vals u) \<Longrightarrow> plus3 (vals p) (vals (delta_since u p)) = vals u"
  by (simp add: vals_def delta_since_def plus3_simps le3_simps unat_sat_sub)

lemma has_usage_iff: "has_usage u \<longleftrightarrow> vals u \<noteq> (0, 0, 0)"
  by (auto simp: has_usage_def has_tokens_def vals_def sat_add_def u64_max_def word_greater_zero_iff unat_eq_zero)

lemma no_usage_eq: "le3 (vals p) (vals u) \<Longrightarrow> \<not> has_usage (delta_since u p) \<Longrightarrow> u = p"
  using vals_delta [of p u] by (intro vals_inj) (simp add: has_usage_iff plus3_def)

lemma budget_id_inj [simp]: "budget_record_id cid t = budget_record_id cid t' \<longleftrightarrow> t = t'"
proof -
  have "t = t'" if "budget_record_id cid t = budget_record_id cid t'"
    using that by (intro vals_inj) (simp add: budget_record_id_def vals_def append_sep_inj dec_no_dash)
  then show ?thesis by blast
qed

subsection \<open>What the ledger holds for one controller\<close>

definition own :: "string \<Rightarrow> ledger_context \<Rightarrow> usage_record \<Rightarrow> bool" where
  "own cid ctx r \<longleftrightarrow> ur_tenant r = lc_tenant ctx \<and> ur_account r = lc_account ctx \<and>
     take (length (budget_id_prefix cid)) (ur_id r) = budget_id_prefix cid"

definition billed :: "string \<Rightarrow> ledger_context \<Rightarrow> usage_record list \<Rightarrow> nat \<times> nat \<times> nat" where
  "billed cid ctx rs =
     (let mine = filter (own cid ctx) rs
      in (sum_list (map (\<lambda>r. unat (ur_input r)) mine), sum_list (map (\<lambda>r. unat (ur_output r)) mine),
          sum_list (map (\<lambda>r. unat (ur_cost r)) mine)))"

definition ids_upto :: "string \<Rightarrow> ledger_context \<Rightarrow> usage_snapshot \<Rightarrow> usage_record list \<Rightarrow> bool" where
  "ids_upto cid ctx t rs \<longleftrightarrow>
     (\<forall>r \<in> set rs. own cid ctx r \<longrightarrow> (\<exists>u. ur_id r = budget_record_id cid u \<and> le3 (vals u) (vals t)))"

definition ctx_ok :: "ledger_context \<Rightarrow> bool" where
  "ctx_ok ctx \<longleftrightarrow> lc_tenant ctx \<noteq> [] \<and> lc_account ctx \<noteq> [] \<and> lc_provider ctx \<noteq> [] \<and> lc_model ctx \<noteq> []"

abbreviation posting :: "string \<Rightarrow> ledger_context \<Rightarrow> u64 \<Rightarrow> usage_snapshot \<Rightarrow> usage_snapshot \<Rightarrow> usage_record" where
  "posting cid ctx now t p \<equiv> make_usage_record cid ctx now t (delta_since t p)"

lemma posting_own [simp]: "own cid ctx (make_usage_record cid ctx now t d)"
  by (simp add: own_def make_usage_record_def budget_record_id_def)

lemma posting_postable:
  assumes "ctx_ok ctx" and "now \<noteq> 0" and "has_usage d"
  shows "postable (make_usage_record cid ctx now t d)"
proof -
  have "list_all is_ascii_uppercase ''USD''"
    by code_simp
  moreover have "budget_record_id cid t \<noteq> []"
    by (simp add: budget_record_id_def budget_id_prefix_def)
  moreover have "sat_add (sat_add (sat_add (unat (us_input d)) (unat (us_output d))) 0) 0 \<noteq> 0 \<or> us_cost d \<noteq> 0"
    using assms(3) by (auto simp: has_usage_def has_tokens_def sat_add_def word_greater_zero_iff)
  ultimately show ?thesis
    using assms(1,2)
    by (auto simp: postable_def validate_record_def make_usage_record_def usage_record_default_def ctx_ok_def)
qed

lemma billed_snoc:
  "billed cid ctx (rs @ [make_usage_record cid ctx now t d]) = plus3 (billed cid ctx rs) (vals d)"
  by (simp add: billed_def Let_def plus3_simps vals_def) (simp add: make_usage_record_def)

lemma ids_upto_mono: "ids_upto cid ctx t rs \<Longrightarrow> le3 (vals t) (vals u) \<Longrightarrow> ids_upto cid ctx u rs"
  unfolding ids_upto_def by (meson le3_trans)

lemma ids_upto_snoc:
  "ids_upto cid ctx t rs \<Longrightarrow> ids_upto cid ctx t (rs @ [make_usage_record cid ctx now t d])"
  by (auto simp: ids_upto_def make_usage_record_def)

lemma fresh_key:
  assumes "ids_upto cid ctx p rs" and "le3 (vals p) (vals t)" and "t \<noteq> p"
  shows "record_key (make_usage_record cid ctx now t d) \<notin> record_key ` set rs"
proof
  assume "record_key (make_usage_record cid ctx now t d) \<in> record_key ` set rs"
  then obtain r where r: "r \<in> set rs" "record_key r = record_key (make_usage_record cid ctx now t d)"
    by auto
  then have id: "ur_id r = budget_record_id cid t" and "own cid ctx r"
    using posting_own [of cid ctx now t d] by (auto simp: record_key_def own_def make_usage_record_def)
  then obtain u where "ur_id r = budget_record_id cid u" "le3 (vals u) (vals p)"
    using assms(1) r(1) by (auto simp: ids_upto_def)
  then have "le3 (vals t) (vals p)"
    using id by simp
  then have "vals t = vals p"
    using assms(2) by (simp add: le3_def prod_eq_iff)
  then show False
    using assms(3) vals_inj by blast
qed

subsection \<open>The flush invariant\<close>

text \<open>
  What the ledger holds for the controller is what it has committed; or, while a record is
  pending, possibly that record on top.
\<close>

definition flush_inv :: "string \<Rightarrow> ledger_context \<Rightarrow> budget_controller \<Rightarrow> usage_record list \<Rightarrow> bool" where
  "flush_inv cid ctx c rs \<longleftrightarrow> bc_id c = cid \<and>
     (case bc_pending c of
        None \<Rightarrow> le3 (vals (bc_committed c)) (vals (bc_usage c)) \<and>
          billed cid ctx rs = vals (bc_committed c) \<and> ids_upto cid ctx (bc_committed c) rs
      | Some (t, r) \<Rightarrow>
          le3 (vals (bc_committed c)) (vals t) \<and> le3 (vals t) (vals (bc_usage c)) \<and>
          has_usage (delta_since t (bc_committed c)) \<and>
          (\<exists>now. now \<noteq> 0 \<and> r = posting cid ctx now t (bc_committed c)) \<and>
          (r \<in> set rs \<and> billed cid ctx rs = vals t \<and> ids_upto cid ctx t rs \<or>
           billed cid ctx rs = vals (bc_committed c) \<and> ids_upto cid ctx (bc_committed c) rs))"

lemma flush_inv_make:
  assumes "flush_inv cid ctx c rs" and "bc_pending c = None" and "now \<noteq> 0"
    and "has_usage (delta_since (bc_usage c) (bc_committed c))"
  shows "flush_inv cid ctx
    (c\<lparr>bc_pending := Some (bc_usage c, posting cid ctx now (bc_usage c) (bc_committed c))\<rparr>) rs"
  using assms by (auto simp: flush_inv_def)

context usage_ledger
begin

text \<open>One call with a pending record: an answer of \<open>Ok\<close> commits it, anything else keeps it pending.\<close>

lemma deliver_pending:
  assumes inv: "inv l" and ctx: "ctx_ok ctx" and fi: "flush_inv cid ctx c (entries l)"
    and p: "bc_pending c = Some (t, r)" and del: "deliver rec d l r = (l', res)"
  shows "inv l' \<and> flush_inv cid ctx c (entries l') \<and>
    (res = Inr () \<longrightarrow> flush_inv cid ctx (c\<lparr>bc_committed := t, bc_pending := None\<rparr>) (entries l'))"
proof -
  let ?p = "bc_committed c"
  have le: "le3 (vals ?p) (vals t)" "le3 (vals t) (vals (bc_usage c))"
    and use: "has_usage (delta_since t ?p)" and id: "bc_id c = cid"
    and alt: "r \<in> set (entries l) \<and> billed cid ctx (entries l) = vals t \<and> ids_upto cid ctx t (entries l) \<or>
      billed cid ctx (entries l) = vals ?p \<and> ids_upto cid ctx ?p (entries l)"
    using fi by (auto simp: flush_inv_def p)
  obtain now where now: "now \<noteq> 0" "r = posting cid ctx now t ?p"
    using fi by (auto simp: flush_inv_def p)
  have post: "postable r"
    unfolding now(2) using ctx now(1) use by (rule posting_postable)
  have ne: "t \<noteq> ?p"
    using use by (auto simp: has_usage_iff vals_def delta_since_def sat_sub_word_def)
  let ?l = "fst (rec l r)"
  have stored: "snd (rec l r) = Inr () \<and> inv ?l \<and> r \<in> set (entries ?l) \<and>
      billed cid ctx (entries ?l) = vals t \<and> ids_upto cid ctx t (entries ?l)"
    using alt
  proof
    assume a: "r \<in> set (entries l) \<and> billed cid ctx (entries l) = vals t \<and> ids_upto cid ctx t (entries l)"
    then show ?thesis
      using rec_again [OF inv post] inv by simp
  next
    assume b: "billed cid ctx (entries l) = vals ?p \<and> ids_upto cid ctx ?p (entries l)"
    have "record_key r \<notin> record_key ` set (entries l)"
      unfolding now(2) using b le(1) ne by (intro fresh_key) auto
    from rec_fresh [OF inv post this] have e: "snd (rec l r) = Inr ()" "entries ?l = entries l @ [r]"
      by auto
    have "billed cid ctx (entries ?l) = vals t"
      unfolding e(2) unfolding now(2) billed_snoc using b vals_delta [OF le(1)] by simp
    moreover have "ids_upto cid ctx t (entries ?l)"
      unfolding e(2) unfolding now(2) using b ids_upto_mono [OF _ le(1)] by (intro ids_upto_snoc) auto
    ultimately show ?thesis
      using e inv_rec [OF inv] by simp
  qed
  have "flush_inv cid ctx c (entries ?l)" "flush_inv cid ctx (c\<lparr>bc_committed := t, bc_pending := None\<rparr>) (entries ?l)"
    using stored le use now id by (auto simp: flush_inv_def p)
  then show ?thesis
    using del stored inv fi by (cases d) auto
qed

lemma flush_loop_inv:
  assumes "inv l" and "ctx_ok ctx" and "now \<noteq> 0" and "flush_inv cid ctx c (entries l)"
    and "flush_loop n rec ctx now ds (bc_usage c) c l = Some (c', l', res)"
  shows "inv l' \<and> flush_inv cid ctx c' (entries l') \<and> bc_usage c' = bc_usage c \<and>
    (res = Inr () \<longrightarrow> bc_pending c' = None \<and> bc_committed c' = bc_usage c)"
  using assms
proof (induction n arbitrary: c l ds)
  case 0
  then show ?case by simp
next
  case (Suc n)
  let ?delta = "delta_since (bc_usage c) (bc_committed c)"
  show ?case
  proof (cases "bc_pending c = None \<and> \<not> has_usage ?delta")
    case True
    then have "bc_committed c = bc_usage c"
      using Suc.prems(4) by (intro no_usage_eq [symmetric]) (auto simp: flush_inv_def)
    then show ?thesis
      using Suc.prems True by auto
  next
    case False
    define p where "p = (case bc_pending c of Some p \<Rightarrow> p
        | None \<Rightarrow> (bc_usage c, make_usage_record (bc_id c) ctx now (bc_usage c) ?delta))"
    let ?c = "c\<lparr>bc_pending := Some p\<rparr>"
    have fi: "flush_inv cid ctx ?c (entries l)"
    proof (cases "bc_pending c")
      case None
      with False Suc.prems(3,4) flush_inv_make [of cid ctx c "entries l" now] show ?thesis
        by (simp add: p_def flush_inv_def)
    next
      case (Some q)
      then have "?c = c"
        by (simp add: p_def)
      with Suc.prems(4) show ?thesis by simp
    qed
    obtain l1 r where del: "deliver rec (case ds of [] \<Rightarrow> Delivered | d # _ \<Rightarrow> d) l (snd p) = (l1, r)"
      by force
    note dp = deliver_pending [OF Suc.prems(1,2) fi _ del, of "fst p"]
    show ?thesis
    proof (cases r)
      case (Inl e)
      then show ?thesis
        using Suc.prems(5) False del dp by (auto simp: p_def [symmetric] Let_def)
    next
      case (Inr u)
      let ?c2 = "?c\<lparr>bc_committed := fst p, bc_pending := None\<rparr>"
      have fi2: "inv l1" "flush_inv cid ctx ?c2 (entries l1)"
        using dp Inr by auto
      show ?thesis
      proof (cases "fst p = bc_usage c")
        case True
        then show ?thesis
          using Suc.prems(5) False del Inr fi2 by (auto simp: p_def [symmetric] Let_def)
      next
        case notyet: False
        have "flush_loop n rec ctx now (tl ds) (bc_usage ?c2) ?c2 l1 = Some (c', l', res)"
          using Suc.prems(5) False del Inr notyet by (auto simp: p_def [symmetric] Let_def)
        from Suc.IH [OF fi2(1) Suc.prems(2,3) fi2(2) this] show ?thesis
          by simp
      qed
    qed
  qed
qed

end

lemma flush_loop_fresh_returns:
  assumes "bc_pending c = None"
  shows "\<exists>x. flush_loop (Suc n) rec ctx now ds goal c l = Some x"
  using assms by (auto simp: Let_def split: prod.splits sum.splits)

lemma flush_returns: "\<exists>c' l' res. flush_to_ledger rec ctx now ds c l = Some (c', l', res)"
proof -
  have "\<exists>x. flush_loop (Suc (Suc n)) rec ctx now ds goal c l = Some x" for n goal
  proof (cases "bc_pending c")
    case None
    then show ?thesis by (rule flush_loop_fresh_returns)
  next
    case (Some p)
    obtain l1 r where del: "deliver rec (case ds of [] \<Rightarrow> Delivered | d # _ \<Rightarrow> d) l (snd p) = (l1, r)"
      by force
    have "\<exists>x. flush_loop (Suc n) rec ctx now (tl ds) goal (c\<lparr>bc_committed := fst p, bc_pending := None\<rparr>) l1 = Some x"
      by (intro flush_loop_fresh_returns) simp
    then show ?thesis
      using Some by (subst flush_loop.simps) (cases r; simp add: del Let_def del: flush_loop.simps)
  qed
  from this [of "Suc 0" "bc_usage c"] show ?thesis
    by (simp add: flush_to_ledger_def numeral_3_eq_3 del: flush_loop.simps)
qed

subsection \<open>Runs\<close>

fun recorded :: "budget_op list \<Rightarrow> nat \<times> nat \<times> nat" where
  "recorded [] = (0, 0, 0)"
| "recorded (RecordTokens i out # ops) = plus3 (unat i, unat out, 0) (recorded ops)"
| "recorded (RecordCost m # ops) = plus3 (0, 0, unat m) (recorded ops)"
| "recorded (Flush now ds # ops) = recorded ops"

fun clocked :: "budget_op \<Rightarrow> bool" where
  "clocked (Flush now ds) = (now \<noteq> 0)"
| "clocked _ = True"

abbreviation max3 :: "nat \<times> nat \<times> nat" where
  "max3 \<equiv> (u64_max, u64_max, u64_max)"

lemma unat_plus_exact: "unat (a :: u64) + unat b \<le> u64_max \<Longrightarrow> unat (a + b) = unat a + unat b"
  by (simp add: unat_plus_if' u64_max_def)

lemma flush_inv_grow:
  assumes "flush_inv cid ctx c rs" and "le3 (vals (bc_usage c)) (vals u)"
  shows "flush_inv cid ctx (c\<lparr>bc_usage := u\<rparr>) rs"
  using assms(1) le3_trans [OF _ assms(2)] by (simp add: flush_inv_def split: option.splits prod.splits)

context usage_ledger
begin

lemma budget_run_inv:
  assumes "inv l" and "ctx_ok ctx" and "\<forall>op \<in> set ops. clocked op"
    and "le3 (plus3 (vals (bc_usage c)) (recorded ops)) max3"
    and "flush_inv cid ctx c (entries l)" and "budget_run rec ctx ops (c, l) = Some (c', l')"
  shows "inv l' \<and> flush_inv cid ctx c' (entries l') \<and> vals (bc_usage c') = plus3 (vals (bc_usage c)) (recorded ops)"
  using assms
proof (induction ops arbitrary: c l)
  case Nil
  then show ?case by (simp add: plus3_def)
next
  case (Cons op ops)
  show ?case
  proof (cases op)
    case (RecordTokens i out)
    let ?u = "add_tokens i out (bc_usage c)"
    have v: "vals ?u = plus3 (vals (bc_usage c)) (unat i, unat out, 0)"
      using Cons.prems(4) RecordTokens
      by (simp add: vals_def add_tokens_def plus3_def le3_def unat_plus_exact)
    then have "le3 (vals (bc_usage c)) (vals ?u)"
      by (simp add: le3_def plus3_def)
    from Cons.IH [OF Cons.prems(1,2) _ _ flush_inv_grow [OF Cons.prems(5) this]] show ?thesis
      using Cons.prems(3,4,6) RecordTokens v by (simp add: record_tokens_def plus3_def add.assoc)
  next
    case (RecordCost m)
    let ?u = "add_cost m (bc_usage c)"
    have v: "vals ?u = plus3 (vals (bc_usage c)) (0, 0, unat m)"
      using Cons.prems(4) RecordCost
      by (simp add: vals_def add_cost_def plus3_def le3_def unat_plus_exact)
    then have "le3 (vals (bc_usage c)) (vals ?u)"
      by (simp add: le3_def plus3_def)
    from Cons.IH [OF Cons.prems(1,2) _ _ flush_inv_grow [OF Cons.prems(5) this]] show ?thesis
      using Cons.prems(3,4,6) RecordCost v by (simp add: record_cost_def plus3_def add.assoc)
  next
    case (Flush now ds)
    obtain c1 l1 r where f: "flush_to_ledger rec ctx now ds c l = Some (c1, l1, r)"
      by (metis flush_returns)
    have "now \<noteq> 0"
      using Cons.prems(3) Flush by simp
    from flush_loop_inv [OF Cons.prems(1,2) this Cons.prems(5) f [unfolded flush_to_ledger_def]]
    have i: "inv l1" "flush_inv cid ctx c1 (entries l1)" "bc_usage c1 = bc_usage c"
      by auto
    from Cons.IH [OF i(1) Cons.prems(2) _ _ i(2)] show ?thesis
      using Cons.prems(3,4,6) Flush f i(3) by simp
  qed
qed

end

lemma budget_run_returns: "\<exists>c' l'. budget_run rec ctx ops (c, l) = Some (c', l')"
proof (induction ops arbitrary: c l)
  case (Cons op ops)
  show ?case
  proof (cases op)
    case (Flush now ds)
    then show ?thesis
      using flush_returns [of rec ctx now ds c l] Cons.IH by fastforce
  qed (use Cons.IH in simp_all)
qed simp

text \<open>
  C3: Billing is exactly once. However usage recording and flushes interleave, and whichever
  ledger calls or answers are lost on the way, once a flush reports success the ledger holds for
  this controller exactly the input tokens, output tokens and cost recorded so far; and every
  flush returns.
\<close>

theorem flush_bills_exactly_once:
  assumes "ctx_ok ctx" and "\<forall>op \<in> set ops. clocked op" and "now \<noteq> 0"
    and "le3 (recorded ops) (u64_max, u64_max, u64_max)"
    and "keys_distinct l0" and "\<forall>r \<in> set (ml_records l0). \<not> own cid ctx r"
    and "budget_run mem_record ctx ops (budget_new lim cid, l0) = Some (c, l)"
  shows "\<exists>c' l' res. flush_to_ledger mem_record ctx now ds c l = Some (c', l', res) \<and>
    (res = Inr () \<longrightarrow> billed cid ctx (ml_records l') = recorded ops)"
proof -
  let ?c = "budget_new lim cid"
  have "billed cid ctx (ml_records l0) = (0, 0, 0)"
    using assms(6) by (simp add: billed_def Let_def filter_empty_conv)
  then have "flush_inv cid ctx ?c (ml_records l0)"
    using assms(6) by (simp add: flush_inv_def budget_new_def snapshot_zero_def vals_def ids_upto_def)
  moreover have "plus3 (vals (bc_usage ?c)) (recorded ops) = recorded ops"
    by (simp add: budget_new_def snapshot_zero_def vals_def plus3_def)
  ultimately have run: "keys_distinct l" "flush_inv cid ctx c (ml_records l)" "vals (bc_usage c) = recorded ops"
    using mem.budget_run_inv [OF assms(5,1,2) _ _ assms(7)] assms(4) by auto
  obtain c' l' res where f: "flush_to_ledger mem_record ctx now ds c l = Some (c', l', res)"
    by (metis flush_returns)
  from mem.flush_loop_inv [OF run(1) assms(1,3) run(2) f [unfolded flush_to_ledger_def]] f run(3)
  show ?thesis
    by (auto simp: flush_inv_def)
qed

definition sample_ctx :: ledger_context where
  "sample_ctx = \<lparr>lc_credential = None, lc_tenant = ''t'', lc_principal = ''p'', lc_account = ''acc'',
     lc_session = ''s'', lc_agent = ''a'', lc_run = None, lc_provider = ''pr'', lc_model = ''m''\<rparr>"

definition no_limits :: budget_limits where
  "no_limits = \<lparr>bl_input = None, bl_output = None, bl_cost = None, bl_concurrency = None\<rparr>"

lemma flush_bills_exactly_once_witness:
  "\<exists>c l c' l' res. budget_run mem_record sample_ctx
       [RecordTokens 5 7, Flush 1 [AnswerLost], RecordCost 3, Flush 2 [CallLost]]
       (budget_new no_limits ''c'', mem_ledger_new 0) = Some (c, l) \<and>
     flush_to_ledger mem_record sample_ctx 9 [] c l = Some (c', l', res) \<and>
     (res = Inr () \<longrightarrow> billed ''c'' sample_ctx (ml_records l') = (5, 7, 3))"
proof -
  let ?ops = "[RecordTokens 5 7, Flush 1 [AnswerLost], RecordCost 3, Flush 2 [CallLost]]"
  let ?s = "(budget_new no_limits ''c'', mem_ledger_new 0)"
  obtain c l where run: "budget_run mem_record sample_ctx ?ops ?s = Some (c, l)"
    by (metis budget_run_returns)
  have "ctx_ok sample_ctx" "\<forall>op \<in> set ?ops. clocked op" "(9 :: u64) \<noteq> 0"
    "le3 (recorded ?ops) (u64_max, u64_max, u64_max)" "keys_distinct (mem_ledger_new 0)"
    "\<forall>r \<in> set (ml_records (mem_ledger_new 0)). \<not> own ''c'' sample_ctx r"
    by (simp_all add: sample_ctx_def ctx_ok_def le3_def plus3_def u64_max_def mem_ledger_new_def keys_distinct_def)
  from flush_bills_exactly_once [OF this run, of "[]"] obtain c' l' res where
    "flush_to_ledger mem_record sample_ctx 9 [] c l = Some (c', l', res)"
    "res = Inr () \<longrightarrow> billed ''c'' sample_ctx (ml_records l') = recorded ?ops"
    by blast
  moreover have "recorded ?ops = (5, 7, 3)"
    by (simp add: plus3_def)
  ultimately show ?thesis
    using run by metis
qed

subsection \<open>Reports and alarms\<close>

lemma scaled_exact:
  "unat ((ucast (a :: u64) :: 128 word) * ucast (b :: u64)) = unat a * unat b"
proof -
  have lt: "unat a < 2 ^ 64" "unat b < 2 ^ 64"
    using unat_le_u64_max [of a] unat_le_u64_max [of b] by (simp_all add: u64_max_def)
  then have "unat a * unat b < 2 ^ 64 * 2 ^ 64"
    by (intro mult_strict_mono) simp_all
  then have "unat a * unat b < 2 ^ LENGTH(128)"
    by simp
  moreover have "unat (ucast a :: 128 word) = unat a" "unat (ucast b :: 128 word) = unat b"
    using lt by (simp_all add: unsigned_ucast_eq take_bit_nat_eq_self_iff)
  ultimately show ?thesis
    by (simp add: unat_word_ariths)
qed

text \<open>
  The budget report is exact. A dimension is over its hard limit exactly when a limit is set
  and usage has reached it, and in the warning zone exactly when usage times one million reaches
  limit times ratio as numbers: the 128-bit products never overflow.
\<close>

theorem budget_report_is_exact:
  "br_hard (check_budget c) \<union> br_soft (check_budget c) \<subseteq> {dim_input_tokens, dim_output_tokens, dim_cost_micros} \<and>
   (\<forall>(lim, used, d) \<in> {(bl_input (bc_limits c), us_input (bc_usage c), dim_input_tokens),
                         (bl_output (bc_limits c), us_output (bc_usage c), dim_output_tokens),
                         (bl_cost (bc_limits c), us_cost (bc_usage c), dim_cost_micros)}.
      (d \<in> br_hard (check_budget c) \<longleftrightarrow> (\<exists>m. lim = Some m \<and> m \<le> used)) \<and>
      (d \<in> br_soft (check_budget c) \<longleftrightarrow>
         (\<exists>m. lim = Some m \<and> unat m * unat (bc_soft_ppm c) \<le> unat used * 1000000)))"
proof -
  have one: "check_dim ppm (used, lim, d) rep =
      rep\<lparr>br_soft := br_soft rep \<union> {x. x = d \<and> (\<exists>m. lim = Some m \<and> unat m * unat ppm \<le> unat used * 1000000)},
          br_hard := br_hard rep \<union> {x. x = d \<and> (\<exists>m. lim = Some m \<and> m \<le> used)}\<rparr>" for ppm used lim d rep
  proof -
    have scale: "unat soft_ratio_scale = 1000000"
      by (simp add: soft_ratio_scale_def)
    show ?thesis
      by (cases lim; cases rep) (auto simp: check_dim_def Let_def word_le_nat_alt scaled_exact scale)
  qed
  have ne: "dim_input_tokens \<noteq> dim_output_tokens" "dim_input_tokens \<noteq> dim_cost_micros"
    "dim_output_tokens \<noteq> dim_cost_micros"
    by (simp_all add: dim_input_tokens_def dim_output_tokens_def dim_cost_micros_def)
  show ?thesis
    unfolding check_budget_def by (auto simp: one ne ne [symmetric])
qed

lemma budget_report_is_exact_witness:
  "dim_cost_micros \<in> br_soft (check_budget ((budget_new (no_limits\<lparr>bl_cost := Some 10\<rparr>) ''c'')\<lparr>bc_usage :=
     \<lparr>us_input = 0, us_output = 0, us_cost = 8\<rparr>\<rparr>))"
  using budget_report_is_exact [of "(budget_new (no_limits\<lparr>bl_cost := Some 10\<rparr>) ''c'')\<lparr>bc_usage :=
     \<lparr>us_input = 0, us_output = 0, us_cost = 8\<rparr>\<rparr>"]
  by (simp add: budget_new_def default_soft_ratio_ppm_def)

text \<open>Feeding a sequence of reports to the alarm memory.\<close>

fun alarms :: "budget_report list \<Rightarrow> budget_controller \<Rightarrow> string set list" where
  "alarms [] c = []"
| "alarms (rep # reps) c = (let (c', newly) = diff_hard_exceeded rep c in newly # alarms reps c')"

lemma diff_hard_exceeded_eq:
  "diff_hard_exceeded rep c = (c\<lparr>bc_signaled := br_hard rep\<rparr>, br_hard rep - bc_signaled c)"
proof -
  have "bc_signaled c - {d \<in> bc_signaled c. d \<notin> br_hard rep} \<union>
      {d \<in> br_hard rep. d \<notin> bc_signaled c - {d \<in> bc_signaled c. d \<notin> br_hard rep}} = br_hard rep"
    by auto
  then show ?thesis
    by (auto simp: diff_hard_exceeded_def Let_def)
qed

text \<open>
  Budget alarms fire on the rising edge. Along any sequence of reports, a dimension is
  announced exactly at those reports where it is over its hard limit and was not so in the
  report before: once per excursion, and again after a recovery.
\<close>

theorem alarms_fire_on_the_rising_edge:
  assumes "k < length reps"
  shows "alarms reps (budget_new lim cid) ! k =
    br_hard (reps ! k) - (if k = 0 then {} else br_hard (reps ! (k - 1)))"
proof -
  have "alarms reps c ! k = br_hard (reps ! k) - (if k = 0 then bc_signaled c else br_hard (reps ! (k - 1)))"
    if "k < length reps" for c k
    using that
  proof (induction reps arbitrary: c k)
    case (Cons rep reps)
    then show ?case
      by (cases k) (auto simp: diff_hard_exceeded_eq nth_Cons')
  qed simp
  from this [OF assms, of "budget_new lim cid"] show ?thesis
    by (simp add: budget_new_def)
qed

lemma alarms_fire_on_the_rising_edge_witness:
  "alarms [\<lparr>br_soft = {}, br_hard = {''a''}\<rparr>, \<lparr>br_soft = {}, br_hard = {}\<rparr>, \<lparr>br_soft = {}, br_hard = {''a''}\<rparr>]
     (budget_new no_limits ''c'') ! 2 = {''a''}"
  using alarms_fire_on_the_rising_edge [of 2 "[\<lparr>br_soft = {}, br_hard = {''a''}\<rparr>,
      \<lparr>br_soft = {}, br_hard = {}\<rparr>, \<lparr>br_soft = {}, br_hard = {''a''}\<rparr>]" no_limits "''c''"]
  by simp

subsection \<open>The ledger\<close>

fun record_all :: "usage_record list \<Rightarrow> mem_ledger \<Rightarrow> mem_ledger" where
  "record_all [] l = l"
| "record_all (r # rs) l = record_all rs (fst (mem_record l r))"

lemma record_all_keys: "keys_distinct l \<Longrightarrow> keys_distinct (record_all rs l)"
  by (induction rs arbitrary: l) (auto simp: mem_record_keys)

lemma mem_record_valid:
  assumes "\<forall>r \<in> set (ml_records l). validate_record r = None"
  shows "\<forall>r \<in> set (ml_records (fst (mem_record l r0))). validate_record r = None"
proof -
  have "validate_record (r0\<lparr>ur_id := i\<rparr>) = validate_record r0" for i
    by (simp add: validate_record_def)
  then show ?thesis
    using assms by (auto simp: mem_record_def Let_def split: option.splits if_splits)
qed

text \<open>
  The in-memory ledger is append-only with unique keys: whatever records are posted, all
  stored ones are valid and no two share tenant, account and id; posting any of them again is
  accepted and changes nothing; and posting a different record under a stored key is refused as
  a conflict.
\<close>

theorem ledger_is_idempotent:
  assumes "l = record_all rs (mem_ledger_new n)" and "r \<in> set (ml_records l)"
  shows "distinct (map record_key (ml_records l)) \<and> validate_record r = None \<and>
    (ur_id r \<noteq> [] \<longrightarrow> mem_record l r = (l, Inr ())) \<and>
    (\<forall>r'. ur_id r' \<noteq> [] \<longrightarrow> validate_record r' = None \<longrightarrow> record_key r' = record_key r \<longrightarrow>
       \<not> same_content r r' \<longrightarrow> mem_record l r' = (l, Inl (LConflict (ur_id r'))))"
proof -
  have keys: "keys_distinct l"
    unfolding assms(1) by (rule record_all_keys) (simp add: mem_ledger_new_def keys_distinct_def)
  have valid: "\<forall>r \<in> set (ml_records (record_all rs l0)). validate_record r = None"
    if "\<forall>r \<in> set (ml_records l0). validate_record r = None" for l0
    using that by (induction rs arbitrary: l0) (auto dest: mem_record_valid)
  have "validate_record r = None"
    using valid [of "mem_ledger_new n"] assms by (simp add: mem_ledger_new_def)
  moreover have "find (\<lambda>e. record_key e = record_key r) (ml_records l) = Some r"
    using keys assms(2) by (simp add: keys_distinct_def find_key_distinct)
  ultimately show ?thesis
    using keys by (auto simp: keys_distinct_def mem_record_def)
qed

definition sample_record :: usage_record where
  "sample_record = make_usage_record ''c'' sample_ctx 1 snapshot_zero \<lparr>us_input = 2, us_output = 0, us_cost = 0\<rparr>"

lemma sample_record_postable: "postable sample_record"
  unfolding sample_record_def
  by (rule posting_postable) (simp_all add: sample_ctx_def ctx_ok_def has_usage_iff vals_def)

lemma ledger_is_idempotent_witness:
  "\<exists>l. l = record_all [sample_record, sample_record] (mem_ledger_new 0) \<and> sample_record \<in> set (ml_records l) \<and>
     mem_record l sample_record = (l, Inr ())"
proof -
  have l: "record_all [sample_record, sample_record] (mem_ledger_new 0) =
      \<lparr>ml_records = [sample_record], ml_next_id = 0\<rparr>"
    using sample_record_postable by (simp add: mem_record_postable mem_ledger_new_def)
  have "ur_id sample_record \<noteq> []"
    using sample_record_postable by (simp add: postable_def)
  then show ?thesis
    using ledger_is_idempotent [OF l [symmetric], of sample_record] l by simp
qed

end
