(* ===== verification/TenantPolicy.thy ===== *)
theory TenantPolicy
  imports OrdMap
begin

text \<open>
  Roles, permissions and tenant policies: \<open>crates/control-plane/src/rbac.rs\<close> and \<open>tenant.rs\<close>. The
  engine is the in-memory one; its asynchronous checks read the policy and decide. The reasons
  carried by denials are messages and are not modelled.
\<close>

subsection \<open>Roles and permissions\<close>

datatype principal_role = AdminRole | UserRole | ServiceRole | ViewerRole

definition principal_role_default :: principal_role where
  "principal_role_default = ViewerRole"

datatype permission =
    AgentSpawn | RouteCandidate | LeaseAcquire | SessionRead | UsageRead | AuditRead | AuditExport
  | PolicyManage

fun permission_str :: "permission \<Rightarrow> string" where
  "permission_str AgentSpawn = ''agent_spawn''"
| "permission_str RouteCandidate = ''route_candidate''"
| "permission_str LeaseAcquire = ''lease_acquire''"
| "permission_str SessionRead = ''session_read''"
| "permission_str UsageRead = ''usage_read''"
| "permission_str AuditRead = ''audit_read''"
| "permission_str AuditExport = ''audit_export''"
| "permission_str PolicyManage = ''policy_manage''"

fun role_rank :: "principal_role \<Rightarrow> nat" where
  "role_rank AdminRole = 4"
| "role_rank UserRole = 3"
| "role_rank ServiceRole = 2"
| "role_rank ViewerRole = 1"

fun role_str :: "principal_role \<Rightarrow> string" where
  "role_str AdminRole = ''admin''"
| "role_str UserRole = ''user''"
| "role_str ServiceRole = ''service''"
| "role_str ViewerRole = ''viewer''"

fun role_permissions :: "principal_role \<Rightarrow> permission list" where
  "role_permissions AdminRole =
     [AgentSpawn, RouteCandidate, LeaseAcquire, SessionRead, UsageRead, AuditRead, AuditExport, PolicyManage]"
| "role_permissions UserRole =
     [AgentSpawn, RouteCandidate, LeaseAcquire, SessionRead, UsageRead, AuditRead]"
| "role_permissions ServiceRole = [AgentSpawn, RouteCandidate, LeaseAcquire, UsageRead]"
| "role_permissions ViewerRole = [SessionRead, UsageRead]"

definition role_allows :: "principal_role \<Rightarrow> permission \<Rightarrow> bool" where
  "role_allows r p \<longleftrightarrow> List.member (role_permissions r) p"

definition merge_deny_first :: "principal_role \<Rightarrow> principal_role \<Rightarrow> principal_role" where
  "merge_deny_first a b = (if role_rank a \<le> role_rank b then a else b)"

record permission_profile =
  pp_default :: "principal_role option"
  pp_roles :: "(string, principal_role) btree"

definition effective_role :: "permission_profile \<Rightarrow> string \<Rightarrow> principal_role option" where
  "effective_role prof who =
     (case (bt_get (pp_roles prof) who, pp_default prof) of
        (Some r, Some d) \<Rightarrow> Some (merge_deny_first r d)
      | (Some r, None) \<Rightarrow> Some r
      | (None, Some d) \<Rightarrow> Some d
      | (None, None) \<Rightarrow> None)"

subsection \<open>Policies\<close>

record tenant_policy =
  tp_max_agents :: "u64 option"
  tp_daily_input :: "u64 option"
  tp_daily_output :: "u64 option"
  tp_daily_cost :: "u64 option"
  tp_models :: "string list option"
  tp_providers :: "string list option"
  tp_accounts :: "string list option"
  tp_profile :: "permission_profile option"

definition tenant_policy_default :: tenant_policy where
  "tenant_policy_default = \<lparr>tp_max_agents = None, tp_daily_input = None, tp_daily_output = None,
     tp_daily_cost = None, tp_models = None, tp_providers = None, tp_accounts = None, tp_profile = None\<rparr>"

datatype policy_verdict = VAllow | VDeny | VLimit | VFallback

datatype budget_dimension = TokensDim | CostDim

datatype tenant_policy_error =
    TBudgetExceeded budget_dimension u64 u64
  | TModelNotAllowed string
  | TProviderNotAllowed string
  | TAccountNotAllowed string
  | TPermissionDenied string permission

definition default_tenant :: string where
  "default_tenant = ''local/default''"

text \<open>\<open>decide_model\<close>, \<open>decide_provider\<close> and \<open>decide_account\<close> are the same match on their list.\<close>

definition decide_listed :: "string \<Rightarrow> string list option \<Rightarrow> policy_verdict" where
  "decide_listed x allowed =
     (case allowed of
        None \<Rightarrow> VAllow
      | Some [] \<Rightarrow> VDeny
      | Some l \<Rightarrow> (if List.member l x then VAllow else VDeny))"

definition decide_permission :: "principal_role \<Rightarrow> permission \<Rightarrow> policy_verdict" where
  "decide_permission r p = (if role_allows r p then VAllow else VDeny)"

record policy_engine =
  pe_policies :: "(string, tenant_policy) btree"
  pe_versions :: "(string, u64) btree"

definition policy_engine_new :: "tenant_policy \<Rightarrow> policy_engine" where
  "policy_engine_new p = \<lparr>pe_policies = [(default_tenant, p)], pe_versions = [(default_tenant, 1)]\<rparr>"

definition engine_policy :: "policy_engine \<Rightarrow> string \<Rightarrow> tenant_policy" where
  "engine_policy e t = (case bt_get (pe_policies e) t of Some p \<Rightarrow> p | None \<Rightarrow> tenant_policy_default)"

definition set_policy :: "string \<Rightarrow> tenant_policy \<Rightarrow> policy_engine \<Rightarrow> policy_engine" where
  "set_policy t p e =
     (let next = (case bt_get (pe_versions e) t of Some v \<Rightarrow> v | None \<Rightarrow> 0) + 1
      in e\<lparr>pe_versions := bt_put t next (pe_versions e), pe_policies := bt_put t p (pe_policies e)\<rparr>)"

definition policy_version :: "policy_engine \<Rightarrow> string \<Rightarrow> u64" where
  "policy_version e t = (case bt_get (pe_versions e) t of Some v \<Rightarrow> v | None \<Rightarrow> 0)"

definition engine_role :: "policy_engine \<Rightarrow> string \<Rightarrow> string \<Rightarrow> principal_role" where
  "engine_role e t who =
     (case tp_profile (engine_policy e t) of
        Some prof \<Rightarrow> (case effective_role prof who of Some r \<Rightarrow> r | None \<Rightarrow> principal_role_default)
      | None \<Rightarrow> (if t = default_tenant then AdminRole else ViewerRole))"

definition check_model :: "policy_engine \<Rightarrow> string \<Rightarrow> string \<Rightarrow> (tenant_policy_error, unit) result" where
  "check_model e t m =
     (if decide_listed m (tp_models (engine_policy e t)) = VAllow then Inr () else Inl (TModelNotAllowed m))"

definition check_provider :: "policy_engine \<Rightarrow> string \<Rightarrow> string \<Rightarrow> (tenant_policy_error, unit) result" where
  "check_provider e t p =
     (if decide_listed p (tp_providers (engine_policy e t)) = VAllow then Inr () else Inl (TProviderNotAllowed p))"

definition check_account :: "policy_engine \<Rightarrow> string \<Rightarrow> string \<Rightarrow> (tenant_policy_error, unit) result" where
  "check_account e t a =
     (if decide_listed a (tp_accounts (engine_policy e t)) = VAllow then Inr () else Inl (TAccountNotAllowed a))"

definition check_permission ::
  "policy_engine \<Rightarrow> string \<Rightarrow> string \<Rightarrow> permission \<Rightarrow> (tenant_policy_error, unit) result" where
  "check_permission e t who p =
     (if decide_permission (engine_role e t who) p = VAllow then Inr ()
      else Inl (TPermissionDenied who p))"

fun within_budget :: "budget_dimension \<Rightarrow> u64 \<Rightarrow> u64 option \<Rightarrow> tenant_policy_error option" where
  "within_budget dim used None = None"
| "within_budget dim used (Some limit) = (if used \<ge> limit then Some (TBudgetExceeded dim used limit) else None)"

definition check_budget_limits ::
  "policy_engine \<Rightarrow> string \<Rightarrow> u64 \<Rightarrow> u64 \<Rightarrow> u64 \<Rightarrow> (tenant_policy_error, unit) result" where
  "check_budget_limits e t input output cost =
     (let p = engine_policy e t
      in case within_budget TokensDim input (tp_daily_input p) of
           Some err \<Rightarrow> Inl err
         | None \<Rightarrow>
             (case within_budget TokensDim output (tp_daily_output p) of
                Some err \<Rightarrow> Inl err
              | None \<Rightarrow>
                  (case within_budget CostDim cost (tp_daily_cost p) of
                     Some err \<Rightarrow> Inl err
                   | None \<Rightarrow> Inr ())))"

subsection \<open>Properties\<close>

text \<open>
  An effective role comes from the profile and is never above an explicit role or the default
  in rank; with neither, or for a tenant other than the default one without a profile, the
  principal is a viewer and can only read sessions and usage.
\<close>

theorem effective_role_is_deny_first:
  "(case tp_profile (engine_policy e t) of
      Some prof \<Rightarrow>
        (\<forall>r. bt_get (pp_roles prof) who = Some r \<longrightarrow> role_rank (engine_role e t who) \<le> role_rank r) \<and>
        (\<forall>d. pp_default prof = Some d \<longrightarrow> role_rank (engine_role e t who) \<le> role_rank d) \<and>
        (bt_get (pp_roles prof) who = None \<longrightarrow> pp_default prof = None \<longrightarrow>
           engine_role e t who = ViewerRole)
    | None \<Rightarrow> t \<noteq> default_tenant \<longrightarrow> engine_role e t who = ViewerRole) \<and>
   (engine_role e t who = ViewerRole \<longrightarrow>
      is_ok (check_permission e t who p) \<longrightarrow> p = SessionRead \<or> p = UsageRead)"
  by (auto simp: engine_role_def effective_role_def merge_deny_first_def principal_role_default_def
      check_permission_def decide_permission_def role_allows_def split: option.splits)

lemma effective_role_is_deny_first_witness:
  "engine_role (set_policy ''t'' (tenant_policy_default\<lparr>tp_profile :=
      Some \<lparr>pp_default = Some ServiceRole, pp_roles = [(''p'', AdminRole)]\<rparr>\<rparr>)
      (policy_engine_new tenant_policy_default)) ''t'' ''p'' \<noteq> AdminRole"
  using effective_role_is_deny_first [where e = "set_policy ''t'' (tenant_policy_default\<lparr>tp_profile :=
      Some \<lparr>pp_default = Some ServiceRole, pp_roles = [(''p'', AdminRole)]\<rparr>\<rparr>)
      (policy_engine_new tenant_policy_default)" and t = "''t''" and who = "''p''" and p = AgentSpawn]
  by (auto simp: set_policy_def engine_policy_def policy_engine_new_def Let_def)

text \<open>
  Merging two roles by rank does not always take away: the merged role stays within the
  permissions of both except when a service account meets the viewer default, where it gains
  reading sessions, which a service account may not do.
\<close>

theorem merged_role_may_gain_session_read:
  "(\<exists>p. role_allows (merge_deny_first a b) p \<and> \<not> (role_allows a p \<and> role_allows b p)) \<longleftrightarrow>
     {a, b} = {ServiceRole, ViewerRole}"
proof -
  have "role_allows ViewerRole SessionRead" "\<not> role_allows ServiceRole SessionRead"
    by code_simp+
  then show ?thesis
    by (cases a; cases b) (auto simp: merge_deny_first_def role_allows_def doubleton_eq_iff)
qed

end
