(* ===== verification/Lease.thy ===== *)
theory Lease
  imports OrdMap
begin

text \<open>
  The versioned lease state machine of \<open>crates/control-plane/src/credential/lease.rs\<close>, its events
  and the in-memory projection, with the request and lease types of \<open>credential/mod.rs\<close>.
  Times are Unix milliseconds.
\<close>

subsection \<open>Requests, leases and records\<close>

datatype lease_outcome = LeaseCompleted | LeaseCancelled | LeaseFailed | LeaseReleased

record acquire_request =
  aq_tenant :: string
  aq_principal :: string
  aq_session :: string
  aq_agent :: string
  aq_provider :: "string option"
  aq_account :: "string option"
  aq_trace :: "string option"

record credential_lease =
  le_id :: string
  le_schema :: "32 word"
  le_credential :: string
  le_tenant :: string
  le_principal :: string
  le_session :: string
  le_agent :: string
  le_provider :: string
  le_account :: string
  le_acquired_at :: u64
  le_expires_at :: u64
  le_version :: u64

datatype lease_state = LsRequested | LsAcquired | LsReleased | LsExpired | LsReclaimed

fun as_db_str :: "lease_state \<Rightarrow> string" where
  "as_db_str LsRequested = ''requested''"
| "as_db_str LsAcquired = ''acquired''"
| "as_db_str LsReleased = ''released''"
| "as_db_str LsExpired = ''expired''"
| "as_db_str LsReclaimed = ''reclaimed''"

definition from_db_str :: "string \<Rightarrow> lease_state option" where
  "from_db_str v =
     (if v = ''requested'' then Some LsRequested
      else if v = ''acquired'' then Some LsAcquired
      else if v = ''released'' then Some LsReleased
      else if v = ''expired'' then Some LsExpired
      else if v = ''reclaimed'' then Some LsReclaimed
      else None)"

definition holds_slot :: "lease_state \<Rightarrow> bool" where
  "holds_slot s \<longleftrightarrow> s = LsAcquired"

definition is_settled :: "lease_state \<Rightarrow> bool" where
  "is_settled s \<longleftrightarrow> s = LsReleased \<or> s = LsExpired \<or> s = LsReclaimed"

definition is_terminal_lease :: "lease_state \<Rightarrow> bool" where
  "is_terminal_lease s \<longleftrightarrow> s = LsReclaimed"

record lease_record =
  lr_id :: string
  lr_schema :: "32 word"
  lr_state :: lease_state
  lr_version :: u64
  lr_tenant :: string
  lr_account :: string
  lr_provider :: string
  lr_credential :: string
  lr_principal :: string
  lr_agent :: string
  lr_session :: string
  lr_acquired_at :: u64
  lr_ttl_ms :: u64
  lr_expires_at :: u64
  lr_outcome :: "lease_outcome option"
  lr_trace :: "string option"

datatype lease_event =
    EvRequested string u64 string string string u64
  | EvAcquired string u64 string u64 u64
  | EvReleased string u64 lease_outcome u64
  | EvExpired string u64 u64
  | EvReclaimed string u64 u64

fun event_lease :: "lease_event \<Rightarrow> string" where
  "event_lease (EvRequested i _ _ _ _ _) = i"
| "event_lease (EvAcquired i _ _ _ _) = i"
| "event_lease (EvReleased i _ _ _) = i"
| "event_lease (EvExpired i _ _) = i"
| "event_lease (EvReclaimed i _ _) = i"

fun event_version :: "lease_event \<Rightarrow> u64" where
  "event_version (EvRequested _ v _ _ _ _) = v"
| "event_version (EvAcquired _ v _ _ _) = v"
| "event_version (EvReleased _ v _ _) = v"
| "event_version (EvExpired _ v _) = v"
| "event_version (EvReclaimed _ v _) = v"

datatype lease_error =
    InvalidRelease string lease_state
  | InvalidExpire string lease_state
  | InvalidReclaim string lease_state
  | AlreadyTerminal string

subsection \<open>Transitions\<close>

definition sat_add_word :: "u64 \<Rightarrow> u64 \<Rightarrow> u64" where
  "sat_add_word a b = of_nat (sat_add (unat a) (unat b))"

text \<open>How it evaluates: a sum that wrapped is smaller than its first operand.\<close>

lemma sat_add_word_code [code]: "sat_add_word a b = (let s = a + b in if s < a then - 1 else s)"
proof (cases "unat a + unat b \<le> u64_max")
  case True
  then have "unat (a + b) = unat a + unat b"
    by (simp add: unat_plus_if' u64_max_def)
  moreover from this have "\<not> a + b < a"
    by (simp add: word_less_nat_alt)
  moreover have "sat_add (unat a) (unat b) = unat (a + b)"
    using True calculation(1) by (simp add: sat_add_def)
  ultimately show ?thesis
    by (simp add: sat_add_word_def)
next
  case False
  then have "unat (a + b) = unat a + unat b - 2 ^ 64"
    by (simp add: unat_plus_if' u64_max_def)
  moreover have "unat b < 2 ^ 64" "0 < unat a"
    using unat_le_u64_max [of b] unat_le_u64_max [of a] False by (simp_all add: u64_max_def)
  ultimately have "a + b < a"
    using False by (simp add: word_less_nat_alt u64_max_def)
  moreover have "(of_nat u64_max :: u64) = - 1"
    by (simp add: u64_max_def)
  ultimately show ?thesis
    using False by (simp add: sat_add_word_def sat_add_def min_def)
qed

definition default_account :: string where
  "default_account = ''local/default''"

definition account_of :: "acquire_request \<Rightarrow> string" where
  "account_of req = (case aq_account req of Some a \<Rightarrow> a | None \<Rightarrow> default_account)"

definition lease_open ::
  "acquire_request \<Rightarrow> string \<Rightarrow> string \<Rightarrow> u64 \<Rightarrow> u64 \<Rightarrow> lease_record \<times> lease_event \<times> lease_event" where
  "lease_open req i cred now ttl =
     (let expires = sat_add_word now ttl;
          r = \<lparr>lr_id = i, lr_schema = 2, lr_state = LsAcquired, lr_version = 2, lr_tenant = aq_tenant req,
               lr_account = account_of req,
               lr_provider = (case aq_provider req of Some p \<Rightarrow> p | None \<Rightarrow> ''default''),
               lr_credential = cred, lr_principal = aq_principal req, lr_agent = aq_agent req,
               lr_session = aq_session req, lr_acquired_at = now, lr_ttl_ms = ttl, lr_expires_at = expires,
               lr_outcome = None, lr_trace = aq_trace req\<rparr>
      in (r, EvRequested i 1 (lr_tenant r) (lr_account r) (lr_agent r) now, EvAcquired i 2 cred now expires))"

definition lease_release ::
  "lease_outcome \<Rightarrow> u64 \<Rightarrow> lease_record \<Rightarrow> (lease_error, lease_record \<times> lease_event) result" where
  "lease_release out now r =
     (if lr_state r \<noteq> LsAcquired then Inl (InvalidRelease (lr_id r) (lr_state r))
      else let v = sat_add_word (lr_version r) 1 in
        Inr (r\<lparr>lr_version := v, lr_state := LsReleased, lr_outcome := Some out\<rparr>, EvReleased (lr_id r) v out now))"

definition lease_expire :: "u64 \<Rightarrow> lease_record \<Rightarrow> (lease_error, lease_record \<times> lease_event) result" where
  "lease_expire now r =
     (if lr_state r \<noteq> LsAcquired then Inl (InvalidExpire (lr_id r) (lr_state r))
      else let v = sat_add_word (lr_version r) 1 in
        Inr (r\<lparr>lr_version := v, lr_state := LsExpired\<rparr>, EvExpired (lr_id r) v now))"

definition lease_reclaim :: "u64 \<Rightarrow> lease_record \<Rightarrow> (lease_error, lease_record \<times> lease_event) result" where
  "lease_reclaim now r =
     (if is_terminal_lease (lr_state r) then Inl (AlreadyTerminal (lr_id r))
      else if \<not> is_settled (lr_state r) then Inl (InvalidReclaim (lr_id r) (lr_state r))
      else let v = sat_add_word (lr_version r) 1 in
        Inr (r\<lparr>lr_version := v, lr_state := LsReclaimed\<rparr>, EvReclaimed (lr_id r) v now))"

definition is_past_ttl :: "u64 \<Rightarrow> lease_record \<Rightarrow> bool" where
  "is_past_ttl now r \<longleftrightarrow> lr_state r = LsAcquired \<and> now \<ge> lr_expires_at r"

definition to_public_lease :: "lease_record \<Rightarrow> credential_lease" where
  "to_public_lease r =
     \<lparr>le_id = lr_id r, le_schema = lr_schema r, le_credential = lr_credential r, le_tenant = lr_tenant r,
      le_principal = lr_principal r, le_session = lr_session r, le_agent = lr_agent r,
      le_provider = lr_provider r, le_account = lr_account r, le_acquired_at = lr_acquired_at r,
      le_expires_at = lr_expires_at r, le_version = lr_version r\<rparr>"

subsection \<open>The in-memory projection\<close>

text \<open>The non-terminal snapshots and the append-only event log.\<close>

record projection =
  pj_snapshots :: "(string, lease_record) btree"
  pj_events :: "lease_event list"

definition projection_new :: projection where
  "projection_new = \<lparr>pj_snapshots = [], pj_events = []\<rparr>"

definition projection_apply :: "lease_record \<Rightarrow> lease_event list \<Rightarrow> projection \<Rightarrow> projection" where
  "projection_apply r es p =
     p\<lparr>pj_snapshots := (if is_terminal_lease (lr_state r) then bt_del (lr_id r) (pj_snapshots p)
                       else bt_put (lr_id r) r (pj_snapshots p)),
       pj_events := pj_events p @ es\<rparr>"

definition projection_settle :: "string \<Rightarrow> projection \<Rightarrow> projection" where
  "projection_settle i p = p\<lparr>pj_snapshots := bt_del i (pj_snapshots p)\<rparr>"

definition load_outstanding :: "projection \<Rightarrow> lease_record list" where
  "load_outstanding p = bt_values (pj_snapshots p)"

end
