(* ===== verification/Supervisor.thy ===== *)
theory Supervisor
  imports Lifecycle TenantPolicy Budget TreeWalk Lease
begin

text \<open>
  The agent supervisor, \<open>crates/orchestration/src/supervisor/\<close> (\<open>mod.rs\<close>, \<open>spawn.rs\<close>, \<open>registry.rs\<close>,
  \<open>cancel_tree.rs\<close>), as it is assembled in production: no task graph, no worktree allocator and no
  patch merger, so the task fields of a request are not read. \<open>spawn\<close> awaits between its steps, and so do \<open>complete\<close>, \<open>fail\<close> and \<open>cancel_tree\<close>;
  each stretch between two awaits is one command here, and commands of different calls interleave
  freely. What a call still has to do after it left a lock is an explicit queue of actions. The
  answers of the credential pool, the clock, the fresh controller ids and the fate of each message
  to the ledger are parameters of the commands; the ledger is the in-memory one. Releases handed to
  the pool are collected in \<open>sv_releases\<close>. Denial messages are values of \<open>denial\<close>.
\<close>

subsection \<open>Requests and instances\<close>

record agent_instance =
  ai_agent :: string
  ai_tenant :: string
  ai_principal :: string
  ai_parent :: "string option"
  ai_role :: worker_role
  ai_session :: string
  ai_worktree :: "string option"
  ai_created :: u64

record spawn_request =
  sr_tenant :: string
  sr_principal :: string
  sr_parent :: "string option"
  sr_session :: string
  sr_worktree :: "string option"
  sr_budget :: "budget_limits option"
  sr_model :: "string option"
  sr_acquire :: "acquire_request option"
  sr_task_deps :: "string list"
  sr_task_description :: "string option"
  sr_task_max_retries :: "32 word option"

definition new_instance :: "string \<Rightarrow> spawn_request \<Rightarrow> u64 \<Rightarrow> agent_instance" where
  "new_instance a req now =
     \<lparr>ai_agent = a, ai_tenant = sr_tenant req, ai_principal = sr_principal req,
      ai_parent = sr_parent req,
      ai_role = (case sr_parent req of Some _ \<Rightarrow> WorkerRole | None \<Rightarrow> ParentRole),
      ai_session = sr_session req, ai_worktree = sr_worktree req, ai_created = now\<rparr>"

datatype denial =
    ParentMissing string
  | ParentTenantMismatch string
  | ParentSessionMismatch string
  | ParentStateRefuses string worker_state
  | DepthExceeded nat u64
  | ConcurrencyReached nat u64
  | TenantConcurrencyReached nat u64
  | GateRefuses tenant_policy_error
  | AcquireMismatch
  | LedgerUnavailable ledger_error
  | LeaseScopeMismatch string

datatype supervisor_error =
    UnknownAgent string
  | IllegalLifecycle lifecycle_error
  | PolicyDenied denial
  | PoolAcquire string
  | WorkerTerminal string
  | UsageFlushPending string
  | FlushNotTerminal string
  | FlushContextMissing string

subsection \<open>State\<close>

record worker_entry =
  we_instance :: agent_instance
  we_state :: worker_state
  we_lease :: "credential_lease option"
  we_model :: "string option"

text \<open>How far a call to \<open>spawn\<close> has come; \<open>SpawnAborted\<close> still holds its reservation.\<close>

datatype spawn_phase =
    SpawnReserved
  | SpawnAdmitted
  | SpawnLeased "credential_lease option"
  | SpawnRegistered "credential_lease option"
  | SpawnAborted

record spawn_call =
  sc_request :: spawn_request
  sc_phase :: spawn_phase
  sc_instance :: agent_instance
  sc_machine :: worker_state

datatype action =
    Emit orchestration_event
  | RemoveChild "string option" string
  | ReleaseLease string lease_outcome
  | FlushController string ledger_context budget_controller
  | DropTicket string
  | InsertController string budget_controller
  | AddUsage string u64 u64 u64

record supervisor =
  sv_workers :: "(string, worker_entry) btree"
  sv_tokens :: "(string, bool) btree"
  sv_children :: "(string, string list) btree"
  sv_reservations :: "(string, string) btree"
  sv_log :: "orchestration_event list"
  sv_next :: u64
  sv_budget :: "(string, budget_controller) btree"
  sv_validated :: "spawn_request list"
  sv_spawns :: "(string, spawn_call) btree"
  sv_queues :: "action list list"
  sv_cancels :: "string list list"
  sv_flush_ctx :: "(string, ledger_context) btree"
  sv_in_flight :: "string set"
  sv_releases :: "(string \<times> lease_outcome) list"
  sv_ledger :: mem_ledger

record supervisor_config =
  cf_max_agents :: u64
  cf_budget :: budget_limits
  cf_max_depth :: "u64 option"

definition supervisor_new :: supervisor where
  "supervisor_new = \<lparr>sv_workers = [], sv_tokens = [], sv_children = [], sv_reservations = [], sv_log = [],
     sv_next = 0, sv_budget = [], sv_validated = [], sv_spawns = [], sv_queues = [], sv_cancels = [],
     sv_flush_ctx = [], sv_in_flight = {}, sv_releases = [], sv_ledger = mem_ledger_new 0\<rparr>"

definition emit :: "orchestration_event \<Rightarrow> supervisor \<Rightarrow> supervisor" where
  "emit e s = s\<lparr>sv_log := sv_log s @ [e]\<rparr>"

definition remove_child :: "string option \<Rightarrow> string \<Rightarrow> supervisor \<Rightarrow> supervisor" where
  "remove_child parent child s =
     (case parent of
        None \<Rightarrow> s
      | Some p \<Rightarrow>
          (case bt_get (sv_children s) p of
             None \<Rightarrow> s
           | Some kids \<Rightarrow> s\<lparr>sv_children := bt_put p (filter (\<lambda>k. k \<noteq> child) kids) (sv_children s)\<rparr>))"

subsection \<open>Spawning\<close>

definition validate_parent :: "spawn_request \<Rightarrow> supervisor \<Rightarrow> (supervisor_error, unit) result" where
  "validate_parent req s =
     (case sr_parent req of
        None \<Rightarrow> Inr ()
      | Some p \<Rightarrow>
          (case bt_get (sv_workers s) p of
             None \<Rightarrow> Inl (PolicyDenied (ParentMissing p))
           | Some w \<Rightarrow>
               (if ai_tenant (we_instance w) \<noteq> sr_tenant req
                then Inl (PolicyDenied (ParentTenantMismatch p))
                else if ai_session (we_instance w) \<noteq> sr_session req
                then Inl (PolicyDenied (ParentSessionMismatch p))
                else if \<not> ws_active (we_state w) \<or> we_state w = WCancelling
                then Inl (PolicyDenied (ParentStateRefuses p (we_state w)))
                else Inr ())))"

text \<open>\<open>worker_depth\<close>: the loop along the parents with its set of seen ids.\<close>

function depth_loop :: "(string, worker_entry) btree \<Rightarrow> string list \<Rightarrow> string option \<Rightarrow> nat \<Rightarrow> nat" where
  "depth_loop ws seen None d = d"
| "depth_loop ws seen (Some i) d =
     (if i \<in> set seen then d
      else case bt_get ws i of
        None \<Rightarrow> sat_add d 1
      | Some w \<Rightarrow> depth_loop ws (i # seen) (ai_parent (we_instance w)) (sat_add d 1))"
  by pat_completeness auto

termination depth_loop
proof (relation "measure (\<lambda>(ws, seen, cur, d). card (set (bt_keys ws) - set seen))", goal_cases)
  case 1
  then show ?case by simp
next
  case (2 ws seen i d w)
  then have "i \<in> set (bt_keys ws)"
    by (auto dest: bt_get_key)
  then have "set (bt_keys ws) - set (i # seen) \<subset> set (bt_keys ws) - set seen"
    using 2(1) by auto
  then show ?case
    by (auto intro!: psubset_card_mono)
qed

definition worker_depth :: "supervisor \<Rightarrow> string option \<Rightarrow> nat" where
  "worker_depth s parent = depth_loop (sv_workers s) [] parent 0"

definition in_tenant :: "string option \<Rightarrow> string \<Rightarrow> bool" where
  "in_tenant wanted t = (case wanted of None \<Rightarrow> True | Some w \<Rightarrow> t = w)"

definition active_in :: "string option \<Rightarrow> worker_entry \<Rightarrow> bool" where
  "active_in wanted w \<longleftrightarrow> ws_active (we_state w) \<and> in_tenant wanted (ai_tenant (we_instance w))"

definition count_agents :: "string option \<Rightarrow> supervisor \<Rightarrow> nat" where
  "count_agents wanted s =
     length (filter (in_tenant wanted) (bt_values (sv_reservations s))) +
     length (filter (active_in wanted) (bt_values (sv_workers s)))"

definition agent_name :: "u64 \<Rightarrow> string" where
  "agent_name n = ''agent-'' @ dec (unat n)"

text \<open>\<open>reserve_concurrency\<close>, one critical section, with the events of its callers.\<close>

definition reserve_concurrency ::
  "supervisor_config \<Rightarrow> policy_engine \<Rightarrow> spawn_request \<Rightarrow> string \<Rightarrow> supervisor \<Rightarrow>
     supervisor \<times> (supervisor_error, string) result" where
  "reserve_concurrency cfg pe req a s =
     (let total = count_agents None s; mine = count_agents (Some (sr_tenant req)) s in
      if total \<ge> unat (cf_max_agents cfg)
      then (emit (EvConcurrencyDenied ''agents'' (of_nat total) (cf_max_agents cfg)) s,
            Inl (PolicyDenied (ConcurrencyReached total (cf_max_agents cfg))))
      else case tp_max_agents (engine_policy pe (sr_tenant req)) of
        Some m \<Rightarrow>
          (if mine \<ge> unat m then (s, Inl (PolicyDenied (TenantConcurrencyReached mine m)))
           else (s\<lparr>sv_reservations := bt_put a (sr_tenant req) (sv_reservations s)\<rparr>, Inr a))
      | None \<Rightarrow> (s\<lparr>sv_reservations := bt_put a (sr_tenant req) (sv_reservations s)\<rparr>, Inr a))"

text \<open>The new id and the depth gate come first.\<close>

definition reserve_spawn ::
  "supervisor_config \<Rightarrow> policy_engine \<Rightarrow> spawn_request \<Rightarrow> supervisor \<Rightarrow>
     supervisor \<times> (supervisor_error, string) result" where
  "reserve_spawn cfg pe req s0 =
     (let a = agent_name (sv_next s0);
          s = s0\<lparr>sv_next := sv_next s0 + 1\<rparr>;
          depth = worker_depth s (sr_parent req)
      in case cf_max_depth cfg of
           Some m \<Rightarrow>
             (if depth > unat m
              then (emit (EvConcurrencyDenied ''depth'' (of_nat depth) m) s, Inl (PolicyDenied (DepthExceeded depth m)))
              else reserve_concurrency cfg pe req a s)
         | None \<Rightarrow> reserve_concurrency cfg pe req a s)"

text \<open>
  The policy gates, in the order of the code; \<open>daily\<close> is what the ledger answers for the day, used
  only when the tenant has a daily budget.
\<close>

definition ms_per_day :: u64 where
  "ms_per_day = 86400000"

definition daily_totals :: "string \<Rightarrow> u64 \<Rightarrow> supervisor \<Rightarrow> (ledger_error, usage_totals) result" where
  "daily_totals tenant now s =
     mem_aggregate (sv_ledger s)
       (usage_query_all\<lparr>uq_tenant := Some tenant, uq_start := Some (now - now mod ms_per_day)\<rparr>)"

definition gate :: "(tenant_policy_error, unit) result \<Rightarrow> (supervisor_error, unit) result \<Rightarrow> (supervisor_error, unit) result" where
  "gate r next = (case r of Inl e \<Rightarrow> Inl (PolicyDenied (GateRefuses e)) | Inr _ \<Rightarrow> next)"

definition acquire_gates ::
  "policy_engine \<Rightarrow> spawn_request \<Rightarrow> (supervisor_error, unit) result \<Rightarrow> (supervisor_error, unit) result" where
  "acquire_gates pe req next =
     (case sr_acquire req of
        None \<Rightarrow> next
      | Some aq \<Rightarrow>
          (if aq_tenant aq \<noteq> sr_tenant req \<or> aq_principal aq \<noteq> sr_principal req \<or> aq_session aq \<noteq> sr_session req
           then Inl (PolicyDenied AcquireMismatch)
           else gate (check_permission pe (sr_tenant req) (sr_principal req) LeaseAcquire)
             (case aq_provider aq of
                Some p \<Rightarrow> gate (check_provider pe (sr_tenant req) p)
                  (case aq_account aq of
                     Some acc \<Rightarrow> gate (check_account pe (sr_tenant req) acc) next
                   | None \<Rightarrow> next)
              | None \<Rightarrow>
                  (case aq_account aq of
                     Some acc \<Rightarrow> gate (check_account pe (sr_tenant req) acc) next
                   | None \<Rightarrow> next))))"

definition budget_gate ::
  "policy_engine \<Rightarrow> spawn_request \<Rightarrow> (ledger_error, usage_totals) result \<Rightarrow> (supervisor_error, unit) result" where
  "budget_gate pe req daily =
     (let p = engine_policy pe (sr_tenant req) in
      if tp_daily_input p \<noteq> None \<or> tp_daily_output p \<noteq> None \<or> tp_daily_cost p \<noteq> None
      then case daily of
             Inr t \<Rightarrow> gate (check_budget_limits pe (sr_tenant req) (of_nat (ut_input t))
                         (of_nat (ut_output t)) (of_nat (ut_cost t))) (Inr ())
           | Inl e \<Rightarrow> Inl (PolicyDenied (LedgerUnavailable e))
      else Inr ())"

definition admission ::
  "policy_engine \<Rightarrow> spawn_request \<Rightarrow> (ledger_error, usage_totals) result \<Rightarrow> (supervisor_error, unit) result" where
  "admission pe req daily =
     gate (check_permission pe (sr_tenant req) (sr_principal req) AgentSpawn)
       (case sr_model req of
          Some m \<Rightarrow> gate (check_model pe (sr_tenant req) m) (acquire_gates pe req (budget_gate pe req daily))
        | None \<Rightarrow> acquire_gates pe req (budget_gate pe req daily))"

definition validate_lease_scope ::
  "credential_lease \<Rightarrow> spawn_request \<Rightarrow> string \<Rightarrow> acquire_request \<Rightarrow> (string, unit) result" where
  "validate_lease_scope l req a aq =
     (if le_tenant l \<noteq> sr_tenant req then Inl ''tenant mismatch''
      else if le_principal l \<noteq> sr_principal req then Inl ''principal mismatch''
      else if le_session l \<noteq> sr_session req then Inl ''session mismatch''
      else if le_agent l \<noteq> a then Inl ''agent mismatch''
      else if (case aq_provider aq of Some p \<Rightarrow> le_provider l \<noteq> p | None \<Rightarrow> False) then Inl ''provider mismatch''
      else if (case aq_account aq of Some acc \<Rightarrow> le_account l \<noteq> acc | None \<Rightarrow> False) then Inl ''account mismatch''
      else Inr ())"

text \<open>A spawn that fails before admission drops its reservation guard and returns.\<close>

definition drop_spawn :: "string \<Rightarrow> supervisor \<Rightarrow> supervisor" where
  "drop_spawn a s = s\<lparr>sv_reservations := bt_del a (sv_reservations s), sv_spawns := bt_del a (sv_spawns s)\<rparr>"

definition admit_spawn ::
  "policy_engine \<Rightarrow> u64 \<Rightarrow> string \<Rightarrow> spawn_call \<Rightarrow> supervisor \<Rightarrow>
     supervisor \<times> (supervisor_error, unit) result" where
  "admit_spawn pe now a c s =
     (let req = sc_request c in
      case admission pe req (daily_totals (sr_tenant req) now s) of
        Inl e \<Rightarrow> (drop_spawn a s, Inl e)
      | Inr _ \<Rightarrow>
          (let inst = new_instance a req now in
           case machine_apply Admit WCreated of
             (m, Inl e) \<Rightarrow> (drop_spawn a s, Inl (IllegalLifecycle e))
           | (m, Inr _) \<Rightarrow>
               (emit (EvWorkerAdmitted a now)
                 (emit (EvWorkerCreated a (sr_tenant req) (sr_parent req) (ai_role inst) (sr_session req)
                          (ai_worktree inst) now)
                   (s\<lparr>sv_spawns := bt_put a (c\<lparr>sc_phase := SpawnAdmitted, sc_instance := inst,
                                               sc_machine := m\<rparr>) (sv_spawns s)\<rparr>)), Inr ())))"

text \<open>\<open>abort_spawn_as_failed\<close>; the reservation guard is dropped when the call returns, after the releases.\<close>

definition abort_spawn :: "u64 \<Rightarrow> string \<Rightarrow> string \<Rightarrow> spawn_call \<Rightarrow> supervisor \<Rightarrow> supervisor" where
  "abort_spawn now why a c s =
     (let m = fst (machine_apply Fail (sc_machine c));
          s1 = remove_child (ai_parent (sc_instance c)) a s;
          s2 = s1\<lparr>sv_tokens := bt_del a (sv_tokens s1),
                  sv_workers := bt_put a \<lparr>we_instance = sc_instance c, we_state = m, we_lease = None,
                                          we_model = sr_model (sc_request c)\<rparr> (sv_workers s1),
                  sv_spawns := bt_put a (c\<lparr>sc_phase := SpawnAborted, sc_machine := m\<rparr>) (sv_spawns s1)\<rparr>
      in emit (EvWorkerFailed a now why) s2)"

definition release_lease :: "string \<Rightarrow> lease_outcome \<Rightarrow> supervisor \<Rightarrow> supervisor" where
  "release_lease l out s = s\<lparr>sv_releases := sv_releases s @ [(l, out)]\<rparr>"

text \<open>What the pool answers to \<open>acquire_guard\<close>.\<close>

datatype pool_answer = PoolGrants credential_lease | PoolRefuses string

definition lease_spawn :: "pool_answer \<Rightarrow> u64 \<Rightarrow> string \<Rightarrow> spawn_call \<Rightarrow> supervisor \<Rightarrow>
     supervisor \<times> (supervisor_error, unit) result" where
  "lease_spawn answer now a c s =
     (case sr_acquire (sc_request c) of
        None \<Rightarrow> (s\<lparr>sv_spawns := bt_put a (c\<lparr>sc_phase := SpawnLeased None\<rparr>) (sv_spawns s)\<rparr>, Inr ())
      | Some aq \<Rightarrow>
          (case answer of
             PoolRefuses why \<Rightarrow> (abort_spawn now why a c s, Inl (PoolAcquire why))
           | PoolGrants l \<Rightarrow>
               (case validate_lease_scope l (sc_request c) a aq of
                  Inl why \<Rightarrow> (abort_spawn now why a c (release_lease (le_id l) LeaseReleased s), Inl (PolicyDenied (LeaseScopeMismatch why)))
                | Inr _ \<Rightarrow>
                    (s\<lparr>sv_spawns := bt_put a (c\<lparr>sc_phase := SpawnLeased (Some l)\<rparr>) (sv_spawns s)\<rparr>, Inr ()))))"

definition push_child :: "string option \<Rightarrow> string \<Rightarrow> (string, string list) btree \<Rightarrow> (string, string list) btree" where
  "push_child parent a m =
     (case parent of
        None \<Rightarrow> m
      | Some p \<Rightarrow> bt_put p ((case bt_get m p of Some kids \<Rightarrow> kids | None \<Rightarrow> []) @ [a]) m)"

definition register_spawn :: "credential_lease option \<Rightarrow> u64 \<Rightarrow> string \<Rightarrow> spawn_call \<Rightarrow> supervisor \<Rightarrow> supervisor" where
  "register_spawn l now a c s =
     (let s1 = emit (EvWorkerStarted a now) s in
      s1\<lparr>sv_children := push_child (sr_parent (sc_request c)) a (sv_children s1),
         sv_tokens := bt_put a False (sv_tokens s1),
         sv_spawns := bt_put a (c\<lparr>sc_phase := SpawnRegistered l, sc_machine := fst (machine_apply Start (sc_machine c))\<rparr>)
                        (sv_spawns s1)\<rparr>)"

text \<open>The events of a call are emitted after the lock is left: its queue is appended.\<close>

definition enqueue :: "action list \<Rightarrow> supervisor \<Rightarrow> supervisor" where
  "enqueue acts s = s\<lparr>sv_queues := sv_queues s @ [acts]\<rparr>"

text \<open>The worker and its reservation change in one critical section; the controller is inserted later.\<close>

definition commit_spawn ::
  "supervisor_config \<Rightarrow> string \<Rightarrow> credential_lease option \<Rightarrow> string \<Rightarrow> spawn_call \<Rightarrow> supervisor \<Rightarrow> supervisor" where
  "commit_spawn cfg cid l a c s =
     (let limits = (case sr_budget (sc_request c) of Some b \<Rightarrow> b | None \<Rightarrow> cf_budget cfg)
      in enqueue [InsertController a (budget_new limits cid)]
           (s\<lparr>sv_reservations := bt_del a (sv_reservations s),
              sv_workers := bt_put a \<lparr>we_instance = sc_instance c, we_state = sc_machine c, we_lease = l,
                                      we_model = sr_model (sc_request c)\<rparr> (sv_workers s),
              sv_spawns := bt_del a (sv_spawns s)\<rparr>))"

subsection \<open>Running, finishing and cancelling\<close>

definition start_worker :: "u64 \<Rightarrow> string \<Rightarrow> supervisor \<Rightarrow> supervisor \<times> (supervisor_error, unit) result" where
  "start_worker now a s =
     (case bt_get (sv_workers s) a of
        None \<Rightarrow> (s, Inl (UnknownAgent a))
      | Some w \<Rightarrow>
          (case machine_apply BeginRunning (we_state w) of
             (_, Inl e) \<Rightarrow> (s, Inl (IllegalLifecycle e))
           | (m, Inr _) \<Rightarrow>
               (enqueue [Emit (EvWorkerRunning a now)]
                  (s\<lparr>sv_workers := bt_put a (w\<lparr>we_state := m\<rparr>) (sv_workers s)\<rparr>), Inr ())))"

datatype terminal_outcome = OutcomeComplete | OutcomeFail string

fun outcome_transition :: "terminal_outcome \<Rightarrow> worker_transition" where
  "outcome_transition OutcomeComplete = Complete"
| "outcome_transition (OutcomeFail _) = Fail"

fun outcome_event :: "terminal_outcome \<Rightarrow> string \<Rightarrow> u64 \<Rightarrow> orchestration_event" where
  "outcome_event OutcomeComplete a now = EvWorkerCompleted a now"
| "outcome_event (OutcomeFail why) a now = EvWorkerFailed a now why"

fun outcome_lease :: "terminal_outcome \<Rightarrow> lease_outcome" where
  "outcome_lease OutcomeComplete = LeaseCompleted"
| "outcome_lease (OutcomeFail _) = LeaseFailed"

text \<open>Who a terminal flush is billed to: account and provider of the lease, model of the request.\<close>

definition terminal_context :: "string \<Rightarrow> worker_entry \<Rightarrow> ledger_context" where
  "terminal_context a w =
     \<lparr>lc_credential = None, lc_tenant = ai_tenant (we_instance w), lc_principal = ai_principal (we_instance w),
      lc_account = (case we_lease w of Some l \<Rightarrow> le_account l | None \<Rightarrow> ''local/default''),
      lc_session = ai_session (we_instance w), lc_agent = ai_agent (we_instance w), lc_run = None,
      lc_provider = (case we_lease w of Some l \<Rightarrow> le_provider l | None \<Rightarrow> ''local''),
      lc_model = (case we_model w of Some m \<Rightarrow> m | None \<Rightarrow> ''unknown'')\<rparr>"

text \<open>What a closing call still owes after the lock: the release of the lease, then the flush.\<close>

definition closing_actions :: "string \<Rightarrow> lease_outcome \<Rightarrow> worker_entry \<Rightarrow> budget_controller option \<Rightarrow> action list" where
  "closing_actions a out w ctl =
     (case we_lease w of Some l \<Rightarrow> [ReleaseLease (le_id l) out] | None \<Rightarrow> []) @
     (case ctl of Some c \<Rightarrow> [FlushController a (terminal_context a w) c, DropTicket a] | None \<Rightarrow> [])"

text \<open>The part under the lock, shared by \<open>apply_terminal_and_take\<close> and \<open>cancel_tree\<close>.\<close>

definition take_worker :: "string \<Rightarrow> worker_state \<Rightarrow> worker_entry \<Rightarrow> supervisor \<Rightarrow> supervisor" where
  "take_worker a m w s =
     s\<lparr>sv_workers := bt_put a (w\<lparr>we_state := m, we_lease := None\<rparr>) (sv_workers s),
       sv_budget := bt_del a (sv_budget s),
       sv_in_flight := (case bt_get (sv_budget s) a of Some _ \<Rightarrow> insert a (sv_in_flight s)
                                                     | None \<Rightarrow> sv_in_flight s)\<rparr>"

text \<open>\<open>finish_terminal\<close>: release, flush, closing event, removal from the parent's children.\<close>

definition finish_worker ::
  "terminal_outcome \<Rightarrow> u64 \<Rightarrow> string \<Rightarrow> supervisor \<Rightarrow> supervisor \<times> (supervisor_error, unit) result" where
  "finish_worker out now a s =
     (case bt_get (sv_workers s) a of
        None \<Rightarrow> (s, Inl (UnknownAgent a))
      | Some w \<Rightarrow>
          (case machine_apply (outcome_transition out) (we_state w) of
             (_, Inl e) \<Rightarrow> (s, Inl (IllegalLifecycle e))
           | (m, Inr _) \<Rightarrow>
               (enqueue (closing_actions a (outcome_lease out) w (bt_get (sv_budget s) a) @
                         [Emit (outcome_event out a now), RemoveChild (ai_parent (we_instance w)) a])
                  (take_worker a m w s), Inr ())))"

definition kids_of :: "supervisor \<Rightarrow> string \<Rightarrow> string list" where
  "kids_of s p = (case bt_get (sv_children s) p of Some kids \<Rightarrow> kids | None \<Rightarrow> [])"

definition cancel_begin :: "string \<Rightarrow> supervisor \<Rightarrow> (supervisor \<times> (supervisor_error, unit) result) option" where
  "cancel_begin root s =
     (if \<not> bt_has (sv_workers s) root then Some (s, Inl (UnknownAgent root))
      else case walk (kids_of s) [root] [] of
             None \<Rightarrow> None
           | Some nodes \<Rightarrow> Some (s\<lparr>sv_cancels := sv_cancels s @ [nodes]\<rparr>, Inr ()))"

text \<open>One turn of the loop over the collected nodes.\<close>

definition cancel_node :: "u64 \<Rightarrow> string \<Rightarrow> supervisor \<Rightarrow> supervisor" where
  "cancel_node now i s0 =
     (let s = (case bt_get (sv_tokens s0) i of
                 Some _ \<Rightarrow> s0\<lparr>sv_tokens := bt_put i True (sv_tokens s0)\<rparr>
               | None \<Rightarrow> s0)
      in case bt_get (sv_workers s) i of
           None \<Rightarrow> s
         | Some w \<Rightarrow>
             (if ws_terminal (we_state w) then s
              else enqueue ([Emit (EvWorkerCancelling i now), Emit (EvWorkerCancelled i now)] @
                            closing_actions i LeaseCancelled w (bt_get (sv_budget s) i))
                (take_worker i (fst (machine_apply Cancel (fst (machine_apply BeginCancel (we_state w))))) w s)))"

subsection \<open>Usage\<close>

text \<open>\<open>record_usage\<close>: the terminal check first, the controller in a later critical section.\<close>

definition record_usage_begin ::
  "string \<Rightarrow> u64 \<Rightarrow> u64 \<Rightarrow> u64 \<Rightarrow> supervisor \<Rightarrow> supervisor \<times> (supervisor_error, unit) result" where
  "record_usage_begin a i out m s =
     (if (case bt_get (sv_workers s) a of Some w \<Rightarrow> ws_terminal (we_state w) | None \<Rightarrow> False)
      then (s, Inl (WorkerTerminal a))
      else (enqueue [AddUsage a i out m] s, Inr ()))"

text \<open>The event for a dimension that newly exceeds its limit.\<close>

definition exceeded_event :: "string \<Rightarrow> budget_controller \<Rightarrow> string \<Rightarrow> orchestration_event" where
  "exceeded_event a c d =
     (let lim = (\<lambda>l. case l of Some m \<Rightarrow> m | None \<Rightarrow> 0) in
      if d = dim_input_tokens
      then EvBudgetExceeded a d (us_input (bc_usage c)) (lim (bl_input (bc_limits c)))
      else if d = dim_output_tokens
      then EvBudgetExceeded a d (us_output (bc_usage c)) (lim (bl_output (bc_limits c)))
      else EvBudgetExceeded a d (us_cost (bc_usage c)) (lim (bl_cost (bc_limits c))))"

text \<open>The set of new dimensions is walked in the order of a \<open>BTreeSet\<close>.\<close>

definition add_usage :: "string \<Rightarrow> u64 \<Rightarrow> u64 \<Rightarrow> u64 \<Rightarrow> supervisor \<Rightarrow> supervisor \<times> (supervisor_error, unit) result" where
  "add_usage a i out m s =
     (case bt_get (sv_budget s) a of
        None \<Rightarrow> (s, Inl (UnknownAgent a))
      | Some c \<Rightarrow>
          (let c1 = record_cost m (record_tokens i out c);
               (c2, newly) = diff_hard_exceeded (check_budget c1) c1
           in (fold (\<lambda>d. emit (exceeded_event a c2 d))
                 (filter (\<lambda>d. d \<in> newly) [dim_cost_micros, dim_input_tokens, dim_output_tokens])
                 (s\<lparr>sv_budget := bt_put a c2 (sv_budget s)\<rparr>), Inr ())))"

text \<open>\<open>flush_usage\<close> up to the claim; the flush itself is the action it enqueues.\<close>

definition flush_usage_begin :: "string \<Rightarrow> supervisor \<Rightarrow> supervisor \<times> (supervisor_error, unit) result" where
  "flush_usage_begin a s =
     (case bt_get (sv_workers s) a of
        None \<Rightarrow> (s, Inl (UnknownAgent a))
      | Some w \<Rightarrow>
          (if \<not> ws_terminal (we_state w) then (s, Inl (FlushNotTerminal a))
           else if a \<in> sv_in_flight s then (s, Inl (UsageFlushPending a))
           else case (bt_get (sv_budget s) a, bt_get (sv_flush_ctx s) a) of
             (None, None) \<Rightarrow> (s, Inr ())
           | (Some c, Some ctx) \<Rightarrow>
               (enqueue [FlushController a ctx c, DropTicket a]
                  (s\<lparr>sv_budget := bt_del a (sv_budget s), sv_flush_ctx := bt_del a (sv_flush_ctx s),
                     sv_in_flight := insert a (sv_in_flight s)\<rparr>), Inr ())
           | (Some c, None) \<Rightarrow> (s, Inl (FlushContextMissing a))
           | (None, Some ctx) \<Rightarrow> (s\<lparr>sv_flush_ctx := bt_del a (sv_flush_ctx s)\<rparr>, Inr ())))"

text \<open>\<open>flush_terminal_usage\<close>, and the flush of \<open>flush_usage\<close>: on an error controller and context go back.\<close>

definition flush_controller ::
  "u64 \<Rightarrow> delivery list \<Rightarrow> string \<Rightarrow> ledger_context \<Rightarrow> budget_controller \<Rightarrow> supervisor \<Rightarrow> supervisor" where
  "flush_controller now ds a ctx c s =
     (case flush_to_ledger mem_record ctx now ds c (sv_ledger s) of
        None \<Rightarrow> s
      | Some (c', l, Inr _) \<Rightarrow> s\<lparr>sv_ledger := l\<rparr>
      | Some (c', l, Inl e) \<Rightarrow>
          s\<lparr>sv_ledger := l, sv_budget := bt_put a c' (sv_budget s),
            sv_flush_ctx := bt_put a ctx (sv_flush_ctx s)\<rparr>)"

text \<open>One action; the clock and the fate of the messages matter to a flush only.\<close>

fun run_action :: "u64 \<Rightarrow> delivery list \<Rightarrow> action \<Rightarrow> supervisor \<Rightarrow> supervisor" where
  "run_action now ds (Emit e) s = emit e s"
| "run_action now ds (RemoveChild p a) s = remove_child p a s"
| "run_action now ds (ReleaseLease l out) s = release_lease l out s"
| "run_action now ds (FlushController a ctx c) s = flush_controller now ds a ctx c s"
| "run_action now ds (DropTicket a) s = s\<lparr>sv_in_flight := sv_in_flight s - {a}\<rparr>"
| "run_action now ds (InsertController a c) s = s\<lparr>sv_budget := bt_put a c (sv_budget s)\<rparr>"
| "run_action now ds (AddUsage a i out m) s = fst (add_usage a i out m s)"

subsection \<open>Commands\<close>

datatype sv_command =
    Validate spawn_request
  | Reserve spawn_request
  | AdmitSpawn string u64
  | LeaseSpawn string pool_answer u64
  | ReturnAborted string
  | RegisterSpawn string u64
  | CommitSpawn string string
  | StartWorker string u64
  | FinishWorker string terminal_outcome u64
  | CancelTree string
  | CancelNext nat u64
  | RecordUsage string u64 u64 u64
  | FlushUsage string
  | RunAction nat u64 "delivery list"

text \<open>\<open>None\<close> is a command that is not enabled: no call is at that point.\<close>

fun sv_exec :: "supervisor_config \<Rightarrow> policy_engine \<Rightarrow> sv_command \<Rightarrow> supervisor \<Rightarrow> supervisor option" where
  "sv_exec cfg pe (Validate req) s =
     (case validate_parent req s of Inl _ \<Rightarrow> Some s | Inr _ \<Rightarrow> Some (s\<lparr>sv_validated := req # sv_validated s\<rparr>))"
| "sv_exec cfg pe (Reserve req) s =
     (if req \<notin> set (sv_validated s) then None
      else case reserve_spawn cfg pe req (s\<lparr>sv_validated := remove1 req (sv_validated s)\<rparr>) of
        (s', Inl _) \<Rightarrow> Some s'
      | (s', Inr a) \<Rightarrow> Some (s'\<lparr>sv_spawns := bt_put a \<lparr>sc_request = req, sc_phase = SpawnReserved,
            sc_instance = new_instance a req 0, sc_machine = WCreated\<rparr> (sv_spawns s')\<rparr>))"
| "sv_exec cfg pe (AdmitSpawn a now) s =
     (case bt_get (sv_spawns s) a of
        Some c \<Rightarrow> (if sc_phase c = SpawnReserved then Some (fst (admit_spawn pe now a c s)) else None)
      | None \<Rightarrow> None)"
| "sv_exec cfg pe (LeaseSpawn a answer now) s =
     (case bt_get (sv_spawns s) a of
        Some c \<Rightarrow> (if sc_phase c = SpawnAdmitted then Some (fst (lease_spawn answer now a c s)) else None)
      | None \<Rightarrow> None)"
| "sv_exec cfg pe (ReturnAborted a) s =
     (case bt_get (sv_spawns s) a of
        Some c \<Rightarrow> (if sc_phase c = SpawnAborted then Some (drop_spawn a s) else None)
      | None \<Rightarrow> None)"
| "sv_exec cfg pe (RegisterSpawn a now) s =
     (case bt_get (sv_spawns s) a of
        Some c \<Rightarrow> (case sc_phase c of SpawnLeased l \<Rightarrow> Some (register_spawn l now a c s) | _ \<Rightarrow> None)
      | None \<Rightarrow> None)"
| "sv_exec cfg pe (CommitSpawn a cid) s =
     (case bt_get (sv_spawns s) a of
        Some c \<Rightarrow> (case sc_phase c of SpawnRegistered l \<Rightarrow> Some (commit_spawn cfg cid l a c s) | _ \<Rightarrow> None)
      | None \<Rightarrow> None)"
| "sv_exec cfg pe (StartWorker a now) s = Some (fst (start_worker now a s))"
| "sv_exec cfg pe (FinishWorker a out now) s = Some (fst (finish_worker out now a s))"
| "sv_exec cfg pe (CancelTree root) s = map_option fst (cancel_begin root s)"
| "sv_exec cfg pe (CancelNext k now) s =
     (if k < length (sv_cancels s)
      then case sv_cancels s ! k of
             [] \<Rightarrow> None
           | i # rest \<Rightarrow> Some (cancel_node now i (s\<lparr>sv_cancels := (sv_cancels s)[k := rest]\<rparr>))
      else None)"
| "sv_exec cfg pe (RecordUsage a i out m) s = Some (fst (record_usage_begin a i out m s))"
| "sv_exec cfg pe (FlushUsage a) s = Some (fst (flush_usage_begin a s))"
| "sv_exec cfg pe (RunAction k now ds) s =
     (if k < length (sv_queues s)
      then case sv_queues s ! k of
             [] \<Rightarrow> None
           | act # rest \<Rightarrow> Some (run_action now ds act (s\<lparr>sv_queues := (sv_queues s)[k := rest]\<rparr>))
      else None)"

fun sv_run :: "supervisor_config \<Rightarrow> policy_engine \<Rightarrow> sv_command list \<Rightarrow> supervisor \<Rightarrow> supervisor option" where
  "sv_run cfg pe [] s = Some s"
| "sv_run cfg pe (c # cs) s = (case sv_exec cfg pe c s of None \<Rightarrow> None | Some s' \<Rightarrow> sv_run cfg pe cs s')"

end
