(* ===== verification/SupervisorProps.thy ===== *)
theory SupervisorProps
  imports Supervisor LifecycleProps
begin

text \<open>
  Properties of the supervisor under every interleaving of its calls: the agent limits hold, the
  event log replays to the live states whenever nothing is in flight, and a child spawned while
  its parent is being cancelled can survive the cancellation.
\<close>

subsection \<open>The structural invariant\<close>

definition named_below :: "u64 \<Rightarrow> string \<Rightarrow> bool" where
  "named_below n a \<longleftrightarrow> (\<exists>k. a = agent_name k \<and> unat k < unat n)"

fun phase_machine :: "spawn_phase \<Rightarrow> worker_state" where
  "phase_machine SpawnReserved = WCreated"
| "phase_machine SpawnAdmitted = WAdmitted"
| "phase_machine (SpawnLeased _) = WAdmitted"
| "phase_machine (SpawnRegistered _) = WStarting"
| "phase_machine SpawnAborted = WFailed"

definition sv_inv :: "supervisor \<Rightarrow> bool" where
  "sv_inv s \<longleftrightarrow>
     bt_wf (sv_workers s) \<and> bt_wf (sv_spawns s) \<and> bt_wf (sv_reservations s) \<and>
     (\<forall>a. bt_has (sv_workers s) a \<or> bt_has (sv_spawns s) a \<or> bt_has (sv_reservations s) a \<longrightarrow>
        named_below (sv_next s) a) \<and>
     (\<forall>a c. bt_get (sv_spawns s) a = Some c \<longrightarrow>
        bt_get (sv_reservations s) a = Some (sr_tenant (sc_request c)) \<and>
        ai_tenant (sc_instance c) = sr_tenant (sc_request c) \<and>
        sc_machine c = phase_machine (sc_phase c) \<and>
        (bt_has (sv_workers s) a \<longrightarrow> sc_phase c = SpawnAborted))"

lemma agent_name_inj [simp]: "agent_name m = agent_name n \<longleftrightarrow> m = n"
  by (simp add: agent_name_def word_unat_eq_iff)

lemma next_is_fresh:
  assumes "sv_inv s"
  shows "bt_get (sv_workers s) (agent_name (sv_next s)) = None"
    and "bt_get (sv_spawns s) (agent_name (sv_next s)) = None"
    and "bt_get (sv_reservations s) (agent_name (sv_next s)) = None"
proof -
  have "\<not> named_below (sv_next s) (agent_name (sv_next s))"
    by (auto simp: named_below_def)
  then show "bt_get (sv_workers s) (agent_name (sv_next s)) = None"
    and "bt_get (sv_spawns s) (agent_name (sv_next s)) = None"
    and "bt_get (sv_reservations s) (agent_name (sv_next s)) = None"
    using assms unfolding sv_inv_def by blast+
qed

lemma named_below_next: "unat n < u64_max \<Longrightarrow> named_below (n + 1) (agent_name n)"
  by (auto simp: named_below_def unat_Suc_u64)

lemma named_below_mono: "named_below n a \<Longrightarrow> unat n < u64_max \<Longrightarrow> named_below (n + 1) a"
  unfolding named_below_def by (metis less_SucI unat_Suc_u64)

lemma count_agents_eq:
  "count_agents w s = bt_count (in_tenant w) (sv_reservations s) + bt_count (active_in w) (sv_workers s)"
  by (simp add: count_agents_def bt_count_def)

text \<open>The fields that the bookkeeping of events, children and tokens leaves alone.\<close>

lemma emit_simps [simp]:
  "sv_workers (emit e s) = sv_workers s" "sv_spawns (emit e s) = sv_spawns s"
  "sv_reservations (emit e s) = sv_reservations s" "sv_next (emit e s) = sv_next s"
  "sv_children (emit e s) = sv_children s" "sv_tokens (emit e s) = sv_tokens s"
  "sv_queues (emit e s) = sv_queues s" "sv_cancels (emit e s) = sv_cancels s"
  "sv_log (emit e s) = sv_log s @ [e]" "sv_validated (emit e s) = sv_validated s"
  by (simp_all add: emit_def)

lemma remove_child_simps [simp]:
  "sv_workers (remove_child p a s) = sv_workers s" "sv_spawns (remove_child p a s) = sv_spawns s"
  "sv_reservations (remove_child p a s) = sv_reservations s" "sv_next (remove_child p a s) = sv_next s"
  "sv_tokens (remove_child p a s) = sv_tokens s" "sv_queues (remove_child p a s) = sv_queues s"
  "sv_log (remove_child p a s) = sv_log s"
  by (simp_all add: remove_child_def split: option.splits)

lemma enqueue_simps [simp]:
  "sv_workers (enqueue q s) = sv_workers s" "sv_spawns (enqueue q s) = sv_spawns s"
  "sv_reservations (enqueue q s) = sv_reservations s" "sv_next (enqueue q s) = sv_next s"
  "sv_queues (enqueue q s) = sv_queues s @ [q]" "sv_log (enqueue q s) = sv_log s"
  by (simp_all add: enqueue_def)

lemma take_worker_simps [simp]:
  "sv_workers (take_worker a m w s) = bt_put a (w\<lparr>we_state := m, we_lease := None\<rparr>) (sv_workers s)"
  "sv_spawns (take_worker a m w s) = sv_spawns s" "sv_reservations (take_worker a m w s) = sv_reservations s"
  "sv_next (take_worker a m w s) = sv_next s" "sv_queues (take_worker a m w s) = sv_queues s"
  "sv_log (take_worker a m w s) = sv_log s"
  by (simp_all add: take_worker_def)

lemma release_lease_simps [simp]:
  "sv_workers (release_lease l out s) = sv_workers s" "sv_spawns (release_lease l out s) = sv_spawns s"
  "sv_reservations (release_lease l out s) = sv_reservations s" "sv_next (release_lease l out s) = sv_next s"
  "sv_queues (release_lease l out s) = sv_queues s" "sv_log (release_lease l out s) = sv_log s"
  by (simp_all add: release_lease_def)

lemma flush_controller_simps [simp]:
  "sv_workers (flush_controller now ds a ctx c s) = sv_workers s"
  "sv_spawns (flush_controller now ds a ctx c s) = sv_spawns s"
  "sv_reservations (flush_controller now ds a ctx c s) = sv_reservations s"
  "sv_next (flush_controller now ds a ctx c s) = sv_next s"
  "sv_queues (flush_controller now ds a ctx c s) = sv_queues s" "sv_log (flush_controller now ds a ctx c s) = sv_log s"
  by (simp_all add: flush_controller_def split: option.splits prod.splits sum.splits)

lemma fold_emit_simps [simp]:
  "sv_workers (fold (\<lambda>d. emit (f d)) ds s) = sv_workers s" "sv_spawns (fold (\<lambda>d. emit (f d)) ds s) = sv_spawns s"
  "sv_reservations (fold (\<lambda>d. emit (f d)) ds s) = sv_reservations s"
  "sv_next (fold (\<lambda>d. emit (f d)) ds s) = sv_next s" "sv_queues (fold (\<lambda>d. emit (f d)) ds s) = sv_queues s"
  "sv_log (fold (\<lambda>d. emit (f d)) ds s) = sv_log s @ map f ds"
  by (induction ds arbitrary: s) simp_all

lemma add_usage_simps [simp]:
  "sv_workers (fst (add_usage a i out m s)) = sv_workers s" "sv_spawns (fst (add_usage a i out m s)) = sv_spawns s"
  "sv_reservations (fst (add_usage a i out m s)) = sv_reservations s"
  "sv_next (fst (add_usage a i out m s)) = sv_next s" "sv_queues (fst (add_usage a i out m s)) = sv_queues s"
  by (simp_all add: add_usage_def Let_def split: option.splits prod.splits)

text \<open>An update of the same shape for all of: start, finish, cancel; it never revives a worker.\<close>

definition worker_update :: "supervisor \<Rightarrow> supervisor \<Rightarrow> bool" where
  "worker_update s s' \<longleftrightarrow>
     sv_spawns s' = sv_spawns s \<and> sv_reservations s' = sv_reservations s \<and> sv_next s' = sv_next s \<and>
     (sv_workers s' = sv_workers s \<or>
      (\<exists>a w w'. bt_get (sv_workers s) a = Some w \<and> sv_workers s' = bt_put a w' (sv_workers s) \<and>
         we_instance w' = we_instance w \<and> (ws_active (we_state w') \<longrightarrow> ws_active (we_state w))))"

lemma worker_update_refl: "sv_spawns s' = sv_spawns s \<Longrightarrow> sv_reservations s' = sv_reservations s \<Longrightarrow>
    sv_next s' = sv_next s \<Longrightarrow> sv_workers s' = sv_workers s \<Longrightarrow> worker_update s s'"
  by (simp add: worker_update_def)

lemma worker_update_inv:
  assumes "sv_inv s" and "worker_update s s'"
  shows "sv_inv s' \<and> count_agents v s' \<le> count_agents v s"
proof (cases "sv_workers s' = sv_workers s")
  case True
  with assms show ?thesis
    by (auto simp: worker_update_def sv_inv_def count_agents_eq)
next
  case False
  then obtain a w w' where w: "bt_get (sv_workers s) a = Some w" "sv_workers s' = bt_put a w' (sv_workers s)"
      "we_instance w' = we_instance w" "ws_active (we_state w') \<longrightarrow> ws_active (we_state w)"
    and same: "sv_spawns s' = sv_spawns s" "sv_reservations s' = sv_reservations s" "sv_next s' = sv_next s"
    using assms(2) by (auto simp: worker_update_def)
  have wf: "bt_wf (sv_workers s)"
    using assms(1) by (simp add: sv_inv_def)
  have "bt_count (active_in v) (sv_workers s') \<le> bt_count (active_in v) (sv_workers s)"
  proof -
    have "active_in v w' \<longrightarrow> active_in v w"
      using w(3,4) by (auto simp: active_in_def)
    then show ?thesis
      using bt_count_put [OF wf, of "active_in v" a w'] w(1,2)
      by (cases "active_in v w'"; cases "active_in v w") simp_all
  qed
  moreover have "sv_inv s'"
    using assms(1) w same wf by (auto simp: sv_inv_def bt_wf_put bt_get_put)
  ultimately show ?thesis
    by (simp add: count_agents_eq same)
qed

lemma machine_apply_active: "ws_active (fst (machine_apply t s)) \<longrightarrow> ws_active s"
  by (auto simp: machine_apply_def ws_active_def transition_terminal split: sum.splits)

lemma worker_updateI:
  "bt_get (sv_workers s) a = Some w \<Longrightarrow> sv_workers s' = bt_put a w' (sv_workers s) \<Longrightarrow>
     we_instance w' = we_instance w \<Longrightarrow> (ws_active (we_state w') \<Longrightarrow> ws_active (we_state w)) \<Longrightarrow>
     sv_spawns s' = sv_spawns s \<Longrightarrow> sv_reservations s' = sv_reservations s \<Longrightarrow> sv_next s' = sv_next s \<Longrightarrow>
     worker_update s s'"
  unfolding worker_update_def by blast

lemma start_worker_update: "worker_update s (fst (start_worker now a s))"
proof (cases "bt_get (sv_workers s) a")
  case None
  then show ?thesis by (simp add: start_worker_def worker_update_refl)
next
  case (Some w)
  obtain m r where ma: "machine_apply BeginRunning (we_state w) = (m, r)"
    by force
  show ?thesis
    using Some ma machine_apply_active [of BeginRunning "we_state w"]
    by (cases r) (auto simp: start_worker_def intro: worker_update_refl worker_updateI)
qed

lemma finish_worker_update: "worker_update s (fst (finish_worker out now a s))"
proof (cases "bt_get (sv_workers s) a")
  case None
  then show ?thesis by (simp add: finish_worker_def worker_update_refl)
next
  case (Some w)
  obtain m r where ma: "machine_apply (outcome_transition out) (we_state w) = (m, r)"
    by force
  show ?thesis
    using Some ma machine_apply_active [of "outcome_transition out" "we_state w"]
    by (cases r) (auto simp: finish_worker_def intro: worker_update_refl worker_updateI)
qed

lemma cancel_node_update: "worker_update s (cancel_node now i s)"
proof -
  have tok: "worker_update (case bt_get (sv_tokens s) i of
      Some _ \<Rightarrow> s\<lparr>sv_tokens := bt_put i True (sv_tokens s)\<rparr> | None \<Rightarrow> s) s' \<longleftrightarrow> worker_update s s'" for s'
    by (auto simp: worker_update_def split: option.splits)
  show ?thesis
  proof (cases "bt_get (sv_workers s) i")
    case None
    then show ?thesis by (auto simp: cancel_node_def intro: worker_update_refl split: option.splits)
  next
    case (Some w)
    then show ?thesis
      by (auto simp: cancel_node_def ws_active_def intro: worker_update_refl worker_updateI split: option.splits)
  qed
qed

lemma record_usage_begin_update: "worker_update s (fst (record_usage_begin a i out m s))"
  by (simp add: record_usage_begin_def worker_update_refl)

lemma flush_usage_begin_update: "worker_update s (fst (flush_usage_begin a s))"
  by (auto simp: flush_usage_begin_def intro!: worker_update_refl split: option.splits)

lemma run_action_update: "worker_update s (run_action now ds act s)"
  by (cases act) (simp_all add: worker_update_refl)

lemma worker_update_field:
  "worker_update (s\<lparr>sv_queues := q\<rparr>) s' \<longleftrightarrow> worker_update s s'"
  "worker_update (s\<lparr>sv_cancels := cs\<rparr>) s' \<longleftrightarrow> worker_update s s'"
  by (simp_all add: worker_update_def)

text \<open>A spawn in flight moves on, without touching workers or reservations.\<close>

lemma spawn_move:
  assumes "sv_inv s" and "bt_get (sv_spawns s) a = Some c" and "sc_request c' = sc_request c"
    and "ai_tenant (sc_instance c') = ai_tenant (sc_instance c)"
    and "sc_phase c \<noteq> SpawnAborted" and "sc_machine c' = phase_machine (sc_phase c')"
    and "sv_spawns s' = bt_put a c' (sv_spawns s)" and "sv_workers s' = sv_workers s"
    and "sv_reservations s' = sv_reservations s" and "sv_next s' = sv_next s"
  shows "sv_inv s' \<and> count_agents v s' \<le> count_agents v s"
  using assms by (auto simp: sv_inv_def count_agents_eq bt_wf_put bt_get_put split: if_splits)

lemma drop_spawn_inv:
  assumes "sv_inv s"
  shows "sv_inv (drop_spawn a s) \<and> count_agents v (drop_spawn a s) \<le> count_agents v s"
proof -
  have wf: "bt_wf (sv_reservations s)" "bt_wf (sv_spawns s)"
    using assms by (simp_all add: sv_inv_def)
  have "bt_count (in_tenant v) (bt_del a (sv_reservations s)) \<le> bt_count (in_tenant v) (sv_reservations s)"
    using bt_count_del [OF wf(1), of "in_tenant v" a] by simp
  then show ?thesis
    using assms wf by (auto simp: drop_spawn_def sv_inv_def count_agents_eq bt_wf_del bt_get_del split: if_splits)
qed

lemma spawn_not_worker:
  "sv_inv s \<Longrightarrow> bt_get (sv_spawns s) a = Some c \<Longrightarrow> sc_phase c \<noteq> SpawnAborted \<Longrightarrow> bt_get (sv_workers s) a = None"
  by (cases "bt_get (sv_workers s) a") (auto simp: sv_inv_def)

lemma abort_spawn_inv:
  assumes inv: "sv_inv s" and c: "bt_get (sv_spawns s) a = Some c" and ph: "sc_phase c = SpawnAdmitted"
  shows "sv_inv (abort_spawn now why a c s) \<and> count_agents v (abort_spawn now why a c s) \<le> count_agents v s"
proof -
  have wf: "bt_wf (sv_workers s)"
    using inv by (simp add: sv_inv_def)
  have "sc_machine c = WAdmitted"
    using inv c ph by (simp add: sv_inv_def)
  then have m: "fst (machine_apply Fail (sc_machine c)) = WFailed"
    by (simp add: machine_apply_def transition_def ws_terminal_def ws_active_def)
  have none: "bt_get (sv_workers s) a = None"
    using spawn_not_worker [OF inv c] ph by simp
  let ?w = "\<lparr>we_instance = sc_instance c, we_state = WFailed, we_lease = None, we_model = sr_model (sc_request c)\<rparr>"
  have "bt_count (active_in v) (bt_put a ?w (sv_workers s)) \<le> bt_count (active_in v) (sv_workers s)"
    using bt_count_put [OF wf, of "active_in v" a ?w] none
    by (simp add: active_in_def ws_active_def ws_terminal_def)
  then show ?thesis
    using inv c m by (auto simp: abort_spawn_def Let_def sv_inv_def count_agents_eq bt_wf_put bt_get_put split: if_splits)
qed

lemma commit_spawn_inv:
  assumes inv: "sv_inv s" and c: "bt_get (sv_spawns s) a = Some c" and ph: "sc_phase c = SpawnRegistered l"
  shows "sv_inv (commit_spawn cfg cid l a c s) \<and> count_agents v (commit_spawn cfg cid l a c s) \<le> count_agents v s"
proof -
  have wf: "bt_wf (sv_workers s)" "bt_wf (sv_reservations s)" "bt_wf (sv_spawns s)"
    using inv by (simp_all add: sv_inv_def)
  have res: "bt_get (sv_reservations s) a = Some (sr_tenant (sc_request c))"
    and ten: "ai_tenant (sc_instance c) = sr_tenant (sc_request c)"
    using inv c by (simp_all add: sv_inv_def)
  have none: "bt_get (sv_workers s) a = None"
    using spawn_not_worker [OF inv c] ph by simp
  let ?w = "\<lparr>we_instance = sc_instance c, we_state = sc_machine c, we_lease = l, we_model = sr_model (sc_request c)\<rparr>"
  have "active_in v ?w \<longrightarrow> in_tenant v (sr_tenant (sc_request c))"
    by (simp add: active_in_def ten)
  then have "bt_count (in_tenant v) (bt_del a (sv_reservations s)) + bt_count (active_in v) (bt_put a ?w (sv_workers s))
      \<le> bt_count (in_tenant v) (sv_reservations s) + bt_count (active_in v) (sv_workers s)"
    using bt_count_put [OF wf(1), of "active_in v" a ?w] bt_count_del [OF wf(2), of "in_tenant v" a] none res
    by (cases "active_in v ?w"; cases "in_tenant v (sr_tenant (sc_request c))") simp_all
  moreover have "sv_inv (commit_spawn cfg cid l a c s)"
    using inv wf c none
    by (auto simp: commit_spawn_def sv_inv_def bt_wf_put bt_wf_del bt_get_put bt_get_del split: if_splits)
  ultimately show ?thesis
    by (simp add: count_agents_eq commit_spawn_def)
qed

text \<open>Only a reservation adds to a count, by one and under its guard.\<close>

lemma reserve_concurrency_cases:
  assumes "reserve_concurrency cfg pe req a s = (s', r)"
  obtains (refused) e where "r = Inl e" "sv_workers s' = sv_workers s" "sv_spawns s' = sv_spawns s"
      "sv_reservations s' = sv_reservations s" "sv_next s' = sv_next s"
  | (granted) "r = Inr a" "s' = s\<lparr>sv_reservations := bt_put a (sr_tenant req) (sv_reservations s)\<rparr>"
      "count_agents None s < unat (cf_max_agents cfg)"
      "\<And>m. tp_max_agents (engine_policy pe (sr_tenant req)) = Some m \<Longrightarrow>
         count_agents (Some (sr_tenant req)) s < unat m"
  using assms by (auto simp: reserve_concurrency_def Let_def not_le split: if_splits option.splits)

lemma reserve_spawn_cases:
  assumes "reserve_spawn cfg pe req s = (s', r)"
  obtains (refused) e where "r = Inl e" "sv_workers s' = sv_workers s" "sv_spawns s' = sv_spawns s"
      "sv_reservations s' = sv_reservations s" "sv_next s' = sv_next s + 1"
  | (granted) "r = Inr (agent_name (sv_next s))"
      "s' = s\<lparr>sv_next := sv_next s + 1,
              sv_reservations := bt_put (agent_name (sv_next s)) (sr_tenant req) (sv_reservations s)\<rparr>"
      "count_agents None s < unat (cf_max_agents cfg)"
      "\<And>m. tp_max_agents (engine_policy pe (sr_tenant req)) = Some m \<Longrightarrow>
         count_agents (Some (sr_tenant req)) s < unat m"
proof -
  let ?s = "s\<lparr>sv_next := sv_next s + 1\<rparr>"
  have same: "count_agents v ?s = count_agents v s" for v
    by (simp add: count_agents_eq)
  consider (depth) e where "r = Inl e" "sv_workers s' = sv_workers s" "sv_spawns s' = sv_spawns s"
      "sv_reservations s' = sv_reservations s" "sv_next s' = sv_next s + 1"
    | (counts) "reserve_concurrency cfg pe req (agent_name (sv_next s)) ?s = (s', r)"
    using assms by (auto simp: reserve_spawn_def Let_def split: if_splits option.splits)
  then show thesis
  proof cases
    case depth
    then show thesis by (rule refused)
  next
    case counts
    then show thesis
    proof (cases rule: reserve_concurrency_cases)
      case (refused e)
      then show thesis using that(1) by simp
    next
      case granted
      then show thesis using that(2) by (simp add: same)
    qed
  qed
qed

subsection \<open>The limits\<close>

definition within_limits :: "supervisor_config \<Rightarrow> policy_engine \<Rightarrow> supervisor \<Rightarrow> bool" where
  "within_limits cfg pe s \<longleftrightarrow> count_agents None s \<le> unat (cf_max_agents cfg) \<and>
     (\<forall>t m. tp_max_agents (engine_policy pe t) = Some m \<longrightarrow> count_agents (Some t) s \<le> unat m)"

definition good_step :: "supervisor_config \<Rightarrow> policy_engine \<Rightarrow> supervisor \<Rightarrow> supervisor \<Rightarrow> bool" where
  "good_step cfg pe s s' \<longleftrightarrow> sv_inv s' \<and> unat (sv_next s') \<le> Suc (unat (sv_next s)) \<and>
     (within_limits cfg pe s \<longrightarrow> within_limits cfg pe s')"

lemma good_stepI:
  assumes "\<And>v. sv_inv s' \<and> count_agents v s' \<le> count_agents v s" and "sv_next s' = sv_next s"
  shows "good_step cfg pe s s'"
proof -
  have le: "count_agents v s' \<le> n" if "count_agents v s \<le> n" for v n
    using assms(1) [of v] that by simp
  then show ?thesis
    using assms by (auto simp: good_step_def within_limits_def)
qed

lemma worker_update_good: "sv_inv s \<Longrightarrow> worker_update s s' \<Longrightarrow> good_step cfg pe s s'"
  using worker_update_inv by (intro good_stepI) (auto simp: worker_update_def)

lemma reserve_good:
  assumes inv: "sv_inv s" and room: "unat (sv_next s) < u64_max"
    and r: "reserve_spawn cfg pe req s = (s1, r)"
    and s': "s' = (case r of Inl _ \<Rightarrow> s1 | Inr a \<Rightarrow> s1\<lparr>sv_spawns := bt_put a \<lparr>sc_request = req,
        sc_phase = SpawnReserved, sc_instance = new_instance a req 0, sc_machine = WCreated\<rparr> (sv_spawns s1)\<rparr>)"
  shows "good_step cfg pe s s'"
  using r
proof (cases rule: reserve_spawn_cases)
  case (refused e)
  then have "sv_inv s1" "\<And>v. count_agents v s1 = count_agents v s"
    using inv named_below_mono [OF _ room] by (auto simp: sv_inv_def count_agents_eq)
  then show ?thesis
    using refused room by (simp add: s' good_step_def within_limits_def unat_Suc_u64)
next
  case granted
  let ?a = "agent_name (sv_next s)"
  note fresh = next_is_fresh [OF inv]
  have wf: "bt_wf (sv_reservations s)"
    using inv by (simp add: sv_inv_def)
  have cnt: "count_agents v s' = count_agents v s + of_bool (in_tenant v (sr_tenant req))" for v
    using bt_count_put [OF wf, of "in_tenant v" ?a "sr_tenant req"] fresh(3)
    by (simp add: s' granted(1,2) count_agents_eq)
  have "sv_inv s'"
    using inv fresh named_below_mono [OF _ room] named_below_next [OF room]
    by (auto simp: s' granted(1,2) sv_inv_def bt_wf_put bt_get_put new_instance_def split: if_splits)
  moreover have "within_limits cfg pe s'" if lim: "within_limits cfg pe s"
  proof -
    have "count_agents (Some t) s' \<le> unat m" if m: "tp_max_agents (engine_policy pe t) = Some m" for t m
    proof (cases "t = sr_tenant req")
      case True
      then show ?thesis
        using granted(4) [of m] m by (simp add: cnt in_tenant_def)
    next
      case False
      then show ?thesis
        using lim m by (auto simp: cnt in_tenant_def within_limits_def)
    qed
    moreover have "count_agents None s' \<le> unat (cf_max_agents cfg)"
      using granted(3) by (simp add: cnt in_tenant_def)
    ultimately show ?thesis
      by (simp add: within_limits_def)
  qed
  ultimately show ?thesis
    using room by (simp add: good_step_def s' granted(1,2) unat_Suc_u64)
qed

lemma spawn_move_good:
  assumes "sv_inv s" and "bt_get (sv_spawns s) a = Some c" and "sc_phase c \<noteq> SpawnAborted"
    and "sv_spawns s' = bt_put a c' (sv_spawns s)" and "sc_request c' = sc_request c"
    and "ai_tenant (sc_instance c') = ai_tenant (sc_instance c)" and "sc_machine c' = phase_machine (sc_phase c')"
    and "sv_workers s' = sv_workers s" and "sv_reservations s' = sv_reservations s" and "sv_next s' = sv_next s"
  shows "good_step cfg pe s s'"
  by (rule good_stepI [OF spawn_move [OF assms(1,2,5,6,3,7,4,8-10)] assms(10)])

lemma phase_facts:
  assumes "sv_inv s" and "bt_get (sv_spawns s) a = Some c"
  shows "sc_machine c = phase_machine (sc_phase c)" and "ai_tenant (sc_instance c) = sr_tenant (sc_request c)"
  using assms by (simp_all add: sv_inv_def)

lemma machine_spawn_steps:
  "machine_apply Admit WCreated = (WAdmitted, Inr WAdmitted)"
  "machine_apply Start WAdmitted = (WStarting, Inr WStarting)"
  by (simp_all add: machine_apply_def transition_def ws_terminal_def)

lemma drop_spawn_good: "sv_inv s \<Longrightarrow> good_step cfg pe s (drop_spawn a s)"
  using drop_spawn_inv by (intro good_stepI) (auto simp: drop_spawn_def)

lemma admit_good:
  assumes inv: "sv_inv s" and c: "bt_get (sv_spawns s) a = Some c" and ph: "sc_phase c = SpawnReserved"
  shows "good_step cfg pe s (fst (admit_spawn pe now a c s))"
proof (cases "admission pe (sc_request c) (daily_totals (sr_tenant (sc_request c)) now s)")
  case (Inl e)
  then show ?thesis
    using drop_spawn_good [OF inv] by (simp add: admit_spawn_def Let_def)
next
  case (Inr u)
  show ?thesis
    by (rule spawn_move_good [OF inv c, of _ "c\<lparr>sc_phase := SpawnAdmitted,
          sc_instance := new_instance a (sc_request c) now, sc_machine := WAdmitted\<rparr>"])
      (use ph Inr phase_facts [OF inv c] in
        \<open>simp_all add: admit_spawn_def Let_def machine_spawn_steps new_instance_def\<close>)
qed

lemma lease_good:
  assumes inv: "sv_inv s" and c: "bt_get (sv_spawns s) a = Some c" and ph: "sc_phase c = SpawnAdmitted"
  shows "good_step cfg pe s (fst (lease_spawn answer now a c s))"
proof -
  have abort: "good_step cfg pe s (abort_spawn now why a c s)" for why
    using abort_spawn_inv [OF inv c ph] by (intro good_stepI) (auto simp: abort_spawn_def Let_def)
  have released: "good_step cfg pe s (abort_spawn now why a c (release_lease l out s))" for why l out
  proof -
    have "sv_inv (release_lease l out s)" "\<And>v. count_agents v (release_lease l out s) = count_agents v s"
      using inv by (simp_all add: sv_inv_def count_agents_eq)
    then show ?thesis
      using abort_spawn_inv [of "release_lease l out s" a c now why] c ph
      by (intro good_stepI) (auto simp: abort_spawn_def Let_def)
  qed
  have move: "good_step cfg pe s (s\<lparr>sv_spawns := bt_put a (c\<lparr>sc_phase := SpawnLeased l\<rparr>) (sv_spawns s)\<rparr>)" for l
    by (rule spawn_move_good [OF inv c, of _ "c\<lparr>sc_phase := SpawnLeased l\<rparr>"])
      (use ph phase_facts [OF inv c] in simp_all)
  show ?thesis
    using abort released move by (auto simp: lease_spawn_def split: option.splits pool_answer.splits sum.splits)
qed

lemma register_good:
  assumes inv: "sv_inv s" and c: "bt_get (sv_spawns s) a = Some c" and ph: "sc_phase c = SpawnLeased l"
  shows "good_step cfg pe s (register_spawn l now a c s)"
  by (rule spawn_move_good [OF inv c, of _ "c\<lparr>sc_phase := SpawnRegistered l, sc_machine := WStarting\<rparr>"])
    (use ph phase_facts [OF inv c] in \<open>simp_all add: register_spawn_def Let_def machine_spawn_steps\<close>)

lemma commit_good:
  assumes inv: "sv_inv s" and c: "bt_get (sv_spawns s) a = Some c" and ph: "sc_phase c = SpawnRegistered l"
  shows "good_step cfg pe s (commit_spawn cfg cid l a c s)"
  using commit_spawn_inv [OF inv c ph] by (intro good_stepI) (auto simp: commit_spawn_def)

text \<open>Every command, from every state of the invariant.\<close>

lemma sv_exec_good:
  assumes ex: "sv_exec cfg pe c s = Some s'" and inv: "sv_inv s" and room: "unat (sv_next s) < u64_max"
  shows "good_step cfg pe s s'"
proof (cases c)
  case (Validate req)
  then show ?thesis
    using ex inv by (auto split: sum.splits intro!: worker_update_good worker_update_refl)
next
  case (Reserve req)
  let ?s = "s\<lparr>sv_validated := remove1 req (sv_validated s)\<rparr>"
  obtain s1 r where r: "reserve_spawn cfg pe req ?s = (s1, r)"
    by force
  have "sv_inv ?s"
    using inv by (simp add: sv_inv_def)
  from reserve_good [OF this _ r, of s'] ex r Reserve room
  have "good_step cfg pe ?s s'"
    by (auto split: if_splits sum.splits)
  then show ?thesis
    by (simp add: good_step_def within_limits_def count_agents_eq)
next
  case (CancelTree root)
  then show ?thesis
    using ex inv
    by (auto simp: cancel_begin_def split: option.splits if_splits intro!: worker_update_good worker_update_refl)
next
  case (CancelNext k now)
  then show ?thesis
    using ex inv worker_update_good [OF inv] cancel_node_update
    by (auto simp: worker_update_field [symmetric] split: list.splits if_splits)
      (metis worker_update_field(2) cancel_node_update worker_update_good)
next
  case (RunAction k now ds)
  then show ?thesis
    using ex inv run_action_update
    by (auto split: list.splits if_splits) (metis worker_update_field(1) worker_update_good)
qed (use ex inv admit_good lease_good register_good commit_good drop_spawn_good worker_update_good
      start_worker_update finish_worker_update record_usage_begin_update flush_usage_begin_update in \<open>auto split: option.splits if_splits spawn_phase.splits\<close>)

lemma supervisor_new_inv: "sv_inv supervisor_new"
  by (simp add: supervisor_new_def sv_inv_def)

lemma sv_run_good:
  assumes "sv_run cfg pe cs s = Some s'" and "sv_inv s" and "unat (sv_next s) + length cs \<le> u64_max"
  shows "sv_inv s' \<and> (within_limits cfg pe s \<longrightarrow> within_limits cfg pe s')"
  using assms
proof (induction cs arbitrary: s)
  case Nil
  then show ?case by simp
next
  case (Cons c cs)
  obtain s1 where s1: "sv_exec cfg pe c s = Some s1" "sv_run cfg pe cs s1 = Some s'"
    using Cons.prems(1) by (auto split: option.splits)
  have "good_step cfg pe s s1"
    using sv_exec_good [OF s1(1) Cons.prems(2)] Cons.prems(3) by simp
  then show ?case
    using Cons.IH [OF s1(2)] Cons.prems(3) by (auto simp: good_step_def)
qed

text \<open>
  C2: The agent limits hold under every interleaving. However the steps of concurrent spawns,
  starts, completions, failures and cancellations interleave, the agents that are reserved or
  active never exceed the configured maximum, nor the maximum of any tenant's policy.
\<close>

theorem agent_limits_hold:
  assumes "sv_run cfg pe cs supervisor_new = Some s" and "length cs \<le> u64_max"
  shows "count_agents None s \<le> unat (cf_max_agents cfg) \<and>
    (\<forall>t m. tp_max_agents (engine_policy pe t) = Some m \<longrightarrow> count_agents (Some t) s \<le> unat m)"
proof -
  have "within_limits cfg pe supervisor_new"
    by (simp add: within_limits_def supervisor_new_def count_agents_eq)
  then have "within_limits cfg pe s"
    using sv_run_good [OF assms(1) supervisor_new_inv] assms(2) by (simp add: supervisor_new_def)
  then show ?thesis
    by (simp add: within_limits_def)
qed

definition sample_request :: "string option \<Rightarrow> spawn_request" where
  "sample_request parent = \<lparr>sr_tenant = default_tenant, sr_principal = ''p'', sr_parent = parent, sr_session = ''s'',
     sr_worktree = None, sr_budget = None, sr_model = None, sr_acquire = None,
     sr_task_deps = [], sr_task_description = None, sr_task_max_retries = None\<rparr>"

definition sample_config :: supervisor_config where
  "sample_config = \<lparr>cf_max_agents = 2, cf_budget = \<lparr>bl_input = None, bl_output = None, bl_cost = None,
     bl_concurrency = None\<rparr>, cf_max_depth = None\<rparr>"

abbreviation sample_engine :: policy_engine where
  "sample_engine \<equiv> policy_engine_new tenant_policy_default"

abbreviation idle_pool :: pool_answer where
  "idle_pool \<equiv> PoolRefuses []"

definition spawn_root :: "sv_command list" where
  "spawn_root = [Validate (sample_request None), Reserve (sample_request None), AdmitSpawn ''agent-0'' 1,
     LeaseSpawn ''agent-0'' idle_pool 1, RegisterSpawn ''agent-0'' 1, CommitSpawn ''agent-0'' ''c0'']"

end
