(* ===== verification/SupervisorReplay.thy ===== *)
theory SupervisorReplay
  imports SupervisorProps "HOL-Library.Multiset"
begin

text \<open>
  The event log of the supervisor against its live states. Calls emit their events after they
  have left the lock, so events of concurrent calls may land in the log in another order than
  their effects; the tolerant replay still ends in the live states once every call has emitted
  what it owes.
\<close>

subsection \<open>Events owed\<close>

fun worker_of :: "orchestration_event \<Rightarrow> string option" where
  "worker_of (EvWorkerCreated a _ _ _ _ _ _) = Some a"
| "worker_of (EvWorkerAdmitted a _) = Some a"
| "worker_of (EvWorkerStarted a _) = Some a"
| "worker_of (EvWorkerRunning a _) = Some a"
| "worker_of (EvWorkerWaiting a _) = Some a"
| "worker_of (EvWorkerCompleted a _) = Some a"
| "worker_of (EvWorkerCancelling a _) = Some a"
| "worker_of (EvWorkerCancelled a _) = Some a"
| "worker_of (EvWorkerFailed a _ _) = Some a"
| "worker_of _ = None"

definition concerns :: "string \<Rightarrow> action \<Rightarrow> bool" where
  "concerns a act = (case act of Emit e \<Rightarrow> worker_of e = Some a | _ \<Rightarrow> False)"

definition owed :: "string \<Rightarrow> supervisor \<Rightarrow> action multiset" where
  "owed a s = filter_mset (concerns a) (mset (concat (sv_queues s)))"

lemma concerns_simps [simp]:
  "\<not> concerns a (RemoveChild p b)" "\<not> concerns a (ReleaseLease l out)" "\<not> concerns a (FlushController b ctx c)"
  "\<not> concerns a (DropTicket b)" "\<not> concerns a (InsertController b c)" "\<not> concerns a (AddUsage b i out' m)"
  by (simp_all add: concerns_def)

lemma closing_actions_concern [simp]: "filter_mset (concerns a) (mset (closing_actions b out w ctl)) = {#}"
  by (auto simp: closing_actions_def split: option.splits)

text \<open>The state a closing event puts a worker in.\<close>

fun close_state :: "action \<Rightarrow> worker_state option" where
  "close_state (Emit (EvWorkerCompleted _ _)) = Some WCompleted"
| "close_state (Emit (EvWorkerCancelled _ _)) = Some WCancelled"
| "close_state (Emit (EvWorkerFailed _ _ _)) = Some WFailed"
| "close_state _ = None"

definition closings :: "action multiset \<Rightarrow> action multiset" where
  "closings E = filter_mset (\<lambda>act. close_state act \<noteq> None) E"

fun births :: "action \<Rightarrow> bool" where
  "births (Emit (EvWorkerCreated _ _ _ _ _ _ _)) = True"
| "births _ = False"

text \<open>What the log says so far and what is owed, for a worker in a given live state.\<close>

definition live_ok :: "string \<Rightarrow> worker_state \<Rightarrow> worker_state option \<Rightarrow> action multiset \<Rightarrow> bool" where
  "live_ok a st m E \<longleftrightarrow>
     (if st = WStarting then m = Some WStarting \<and> E = {#}
      else if st = WRunning
      then m = Some WStarting \<and> (\<exists>t. E = {#Emit (EvWorkerRunning a t)#}) \<or> m = Some WRunning \<and> E = {#}
      else ws_terminal st \<and> m \<noteq> None \<and> (\<forall>act \<in># E. \<not> births act) \<and>
        (closings E = {#} \<and> m = Some st \<or> (\<exists>act. closings E = {#act#} \<and> close_state act = Some st)))"

fun phase_ok :: "spawn_phase \<Rightarrow> worker_state option \<Rightarrow> bool" where
  "phase_ok SpawnAdmitted m = (m = Some WAdmitted)"
| "phase_ok (SpawnLeased _) m = (m = Some WAdmitted)"
| "phase_ok (SpawnRegistered _) m = (m = Some WStarting)"
| "phase_ok _ m = True"

definition agent_ok :: "supervisor \<Rightarrow> string \<Rightarrow> bool" where
  "agent_ok s a \<longleftrightarrow>
     (case bt_get (sv_workers s) a of
        Some w \<Rightarrow> live_ok a (we_state w) (bt_get (replay_workers (sv_log s)) a) (owed a s)
      | None \<Rightarrow> owed a s = {#} \<and>
          (case bt_get (sv_spawns s) a of
             None \<Rightarrow> True
           | Some c \<Rightarrow> phase_ok (sc_phase c) (bt_get (replay_workers (sv_log s)) a)))"

lemma replay_other: "worker_of e \<noteq> Some a \<Longrightarrow> bt_get (replay_event e m) a = bt_get m a"
  by (cases e) (auto simp: apply_replay_other bt_get_put)

lemma replay_known: "bt_get m a \<noteq> None \<Longrightarrow> bt_get (replay_event e m) a \<noteq> None"
proof -
  assume known: "bt_get m a \<noteq> None"
  have "bt_get (apply_replay b t m) a \<noteq> None" for b t
    using known by (cases "a = b") (auto simp: apply_replay_other apply_replay_same split: option.splits)
  then show ?thesis
    using known by (cases e) (auto simp: bt_get_put)
qed

lemma replay_closing:
  assumes "concerns a (Emit e)" and "close_state (Emit e) = Some st" and "bt_get m a \<noteq> None"
  shows "bt_get (replay_event e m) a = Some st"
  using assms by (cases e) (auto simp: concerns_def apply_replay_same split: option.splits)

lemma replay_terminal_stays:
  assumes "bt_get m a = Some st" and "ws_terminal st" and "close_state (Emit e) = None" and "\<not> births (Emit e)"
  shows "bt_get (replay_event e m) a = Some st"
proof -
  have "bt_get (apply_replay b t m) a = Some st" if "t \<noteq> Complete" "t \<noteq> Cancel" "t \<noteq> Fail" for b t
    using that assms(1) transition_terminal [OF assms(2), of t]
    by (cases "a = b") (simp_all add: apply_replay_same apply_replay_other)
  then show ?thesis
    using assms by (cases e) auto
qed

text \<open>Emitting what is owed keeps the account.\<close>

lemma live_ok_emit:
  assumes ok: "live_ok a st (bt_get m a) (add_mset (Emit e) E)" and con: "concerns a (Emit e)"
  shows "live_ok a st (bt_get (replay_event e m) a) E"
proof -
  consider (running) t where "st = WRunning" "bt_get m a = Some WStarting" "e = EvWorkerRunning a t" "E = {#}"
    | (terminal) "ws_terminal st" "bt_get m a \<noteq> None" "\<not> births (Emit e)" "\<forall>act \<in># E. \<not> births act"
        "closings (add_mset (Emit e) E) = {#} \<and> bt_get m a = Some st \<or>
         (\<exists>act. closings (add_mset (Emit e) E) = {#act#} \<and> close_state act = Some st)"
    using ok by (auto simp: live_ok_def ws_terminal_def split: if_splits)
  then show ?thesis
  proof cases
    case running
    then show ?thesis
      by (simp add: live_ok_def apply_replay_same transition_def ws_terminal_def)
  next
    case terminal
    have ne: "st \<noteq> WStarting" "st \<noteq> WRunning"
      using terminal(1) by (auto simp: ws_terminal_def)
    show ?thesis
    proof (cases "close_state (Emit e)")
      case None
      then have "closings (add_mset (Emit e) E) = closings E"
        by (simp add: closings_def)
      then show ?thesis
        using terminal None ne replay_known [OF terminal(2)] replay_terminal_stays [OF _ terminal(1) None terminal(3)]
        by (auto simp: live_ok_def)
    next
      case (Some st')
      then have "closings (add_mset (Emit e) E) = add_mset (Emit e) (closings E)"
        by (simp add: closings_def)
      then have "closings E = {#}" "st' = st"
        using terminal(5) Some by auto
      then show ?thesis
        using terminal ne replay_closing [OF con Some terminal(2)] by (simp add: live_ok_def)
    qed
  qed
qed

subsection \<open>Commands keep the account\<close>

abbreviation logged :: "supervisor \<Rightarrow> string \<Rightarrow> worker_state option" where
  "logged s a \<equiv> bt_get (replay_workers (sv_log s)) a"

definition same_at :: "string \<Rightarrow> supervisor \<Rightarrow> supervisor \<Rightarrow> bool" where
  "same_at b s s' \<longleftrightarrow> bt_get (sv_workers s') b = bt_get (sv_workers s) b \<and>
     bt_get (sv_spawns s') b = bt_get (sv_spawns s) b \<and> logged s' b = logged s b \<and> owed b s' = owed b s"

definition account_ok :: "supervisor \<Rightarrow> bool" where
  "account_ok s \<longleftrightarrow> (\<forall>a. agent_ok s a)"

lemma same_at_ok: "same_at b s s' \<Longrightarrow> agent_ok s' b = agent_ok s b"
  unfolding same_at_def agent_ok_def by (elim conjE) (simp only:)

lemma account_upd:
  assumes "account_ok s" and "\<And>b. b \<noteq> a \<Longrightarrow> same_at b s s'" and "agent_ok s' a"
  shows "account_ok s'"
  unfolding account_ok_def using assms same_at_ok by (metis account_ok_def)

lemma account_same:
  assumes "account_ok s" and "\<And>b. same_at b s s'"
  shows "account_ok s'"
  unfolding account_ok_def using assms same_at_ok by (metis account_ok_def)

lemma logged_emit:
  "logged (emit e s) a = (if worker_of e = Some a then bt_get (replay_event e (replay_workers (sv_log s))) a else logged s a)"
  by (simp add: replay_workers_snoc replay_other)

lemma owed_simps [simp]:
  "owed a (emit e s) = owed a s" "owed a (remove_child p b s) = owed a s"
  "owed a (enqueue q s) = owed a s + filter_mset (concerns a) (mset q)"
  by (simp_all add: owed_def)

lemma replay_exceeded [simp]:
  "replay_workers (es @ map (exceeded_event a c) ds) = replay_workers es"
  by (induction ds arbitrary: es rule: rev_induct)
    (auto simp: exceeded_event_def Let_def replay_workers_snoc simp flip: append_assoc)

lemma logged_add_usage [simp]: "replay_workers (sv_log (fst (add_usage a i out m s))) = replay_workers (sv_log s)"
  by (simp add: add_usage_def Let_def split: option.splits prod.splits)

lemma owed_cong: "sv_queues s' = sv_queues s \<Longrightarrow> owed a s' = owed a s"
  by (simp add: owed_def)

lemma spawn_state:
  assumes "account_ok s" and "bt_get (sv_workers s) a = None"
  shows "owed a s = {#}" and "bt_get (sv_spawns s) a = Some c \<Longrightarrow> phase_ok (sc_phase c) (logged s a)"
  using assms by (auto simp: account_ok_def agent_ok_def split: option.splits dest!: spec [of _ a])

lemma drop_spawn_simps [simp]:
  "sv_workers (drop_spawn b s) = sv_workers s" "sv_log (drop_spawn b s) = sv_log s"
  "sv_spawns (drop_spawn b s) = bt_del b (sv_spawns s)" "owed a (drop_spawn b s) = owed a s"
  by (simp_all add: drop_spawn_def owed_def)

lemma drop_spawn_account:
  assumes "account_ok s"
    and "sv_inv s"
  shows "account_ok (drop_spawn a s)"
proof -
  have "bt_wf (sv_spawns s)"
    using assms(2) by (simp add: sv_inv_def)
  then have "agent_ok (drop_spawn a s) b" for b
    using assms(1) by (auto simp: account_ok_def agent_ok_def bt_get_del
        split: option.splits dest!: spec [of _ b])
  then show ?thesis by (simp add: account_ok_def)
qed

lemma admit_account:
  assumes ok: "account_ok s" and inv: "sv_inv s" and c: "bt_get (sv_spawns s) a = Some c"
    and ph: "sc_phase c = SpawnReserved"
  shows "account_ok (fst (admit_spawn pe now a c s))"
proof (cases "admission pe (sc_request c) (daily_totals (sr_tenant (sc_request c)) now s)")
  case (Inl e)
  then show ?thesis
    using drop_spawn_account [OF ok inv] by (simp add: admit_spawn_def Let_def)
next
  case (Inr u)
  have none: "bt_get (sv_workers s) a = None"
    using spawn_not_worker [OF inv c] ph by simp
  show ?thesis
  proof (rule account_upd [OF ok, of a])
    show "same_at b s (fst (admit_spawn pe now a c s))" if "b \<noteq> a" for b
      using that Inr by (simp add: same_at_def admit_spawn_def Let_def machine_spawn_steps replay_workers_append
          apply_replay_other bt_get_put owed_def)
    show "agent_ok (fst (admit_spawn pe now a c s)) a"
      using Inr none spawn_state(1) [OF ok none]
      by (simp add: agent_ok_def admit_spawn_def Let_def machine_spawn_steps replay_workers_append
          apply_replay_same transition_def ws_terminal_def owed_def)
  qed
qed

lemma abort_account:
  assumes ok: "account_ok s" and inv: "sv_inv s" and c: "bt_get (sv_spawns s) a = Some c"
    and ph: "sc_phase c = SpawnAdmitted"
  shows "account_ok (abort_spawn now why a c s)"
proof -
  have none: "bt_get (sv_workers s) a = None"
    using spawn_not_worker [OF inv c] ph by simp
  have "sc_machine c = WAdmitted"
    using phase_facts(1) [OF inv c] ph by simp
  then have m: "fst (machine_apply Fail (sc_machine c)) = WFailed"
    by (simp add: machine_apply_def transition_def ws_terminal_def ws_active_def)
  have lg: "logged s a = Some WAdmitted" and ow: "owed a s = {#}"
    using spawn_state [OF ok none] c ph by auto
  show ?thesis
  proof (rule account_upd [OF ok, of a])
    show "same_at b s (abort_spawn now why a c s)" if "b \<noteq> a" for b
      using that by (simp add: same_at_def abort_spawn_def Let_def replay_workers_snoc apply_replay_other owed_def)
    have "owed a (abort_spawn now why a c s) = owed a s"
      by (rule owed_cong) (simp add: abort_spawn_def Let_def)
    moreover have "logged (abort_spawn now why a c s) a = Some WFailed"
      "\<exists>w. bt_get (sv_workers (abort_spawn now why a c s)) a = Some w \<and> we_state w = WFailed"
      using m lg by (simp_all add: abort_spawn_def Let_def replay_workers_snoc apply_replay_same)
    ultimately show "agent_ok (abort_spawn now why a c s) a"
      using ow by (auto simp: agent_ok_def live_ok_def closings_def ws_terminal_def)
  qed
qed

lemma lease_account:
  assumes ok: "account_ok s" and inv: "sv_inv s" and c: "bt_get (sv_spawns s) a = Some c"
    and ph: "sc_phase c = SpawnAdmitted"
  shows "account_ok (fst (lease_spawn answer now a c s))"
proof -
  have none: "bt_get (sv_workers s) a = None"
    using spawn_not_worker [OF inv c] ph by simp
  have "account_ok (s\<lparr>sv_spawns := bt_put a (c\<lparr>sc_phase := SpawnLeased l\<rparr>) (sv_spawns s)\<rparr>)" for l
    using spawn_state [OF ok none] c ph none
    by (intro account_upd [OF ok, of a]) (auto simp: same_at_def agent_ok_def owed_def)
  moreover have "account_ok (abort_spawn now why a c (release_lease l out s))" for why l out
  proof (rule abort_account [OF _ _ _ ph])
    show "account_ok (release_lease l out s)"
      by (rule account_same [OF ok]) (simp add: same_at_def owed_def)
    show "sv_inv (release_lease l out s)"
      using inv by (simp add: sv_inv_def)
  qed (use c in simp)
  ultimately show ?thesis
    using abort_account [OF ok inv c ph]
    by (auto simp: lease_spawn_def split: option.splits pool_answer.splits sum.splits)
qed

lemma register_account:
  assumes ok: "account_ok s" and inv: "sv_inv s" and c: "bt_get (sv_spawns s) a = Some c"
    and ph: "sc_phase c = SpawnLeased l"
  shows "account_ok (register_spawn l now a c s)"
proof -
  have none: "bt_get (sv_workers s) a = None"
    using spawn_not_worker [OF inv c] ph by simp
  have lg: "logged s a = Some WAdmitted" and ow: "owed a s = {#}"
    using spawn_state [OF ok none] c ph by auto
  show ?thesis
  proof (rule account_upd [OF ok, of a])
    show "same_at b s (register_spawn l now a c s)" if "b \<noteq> a" for b
      using that by (simp add: same_at_def register_spawn_def Let_def replay_workers_snoc apply_replay_other owed_def)
    show "agent_ok (register_spawn l now a c s) a"
      using none lg ow by (simp add: agent_ok_def register_spawn_def Let_def replay_workers_snoc
          apply_replay_same transition_def ws_terminal_def owed_def)
  qed
qed

lemma commit_account:
  assumes ok: "account_ok s" and inv: "sv_inv s" and c: "bt_get (sv_spawns s) a = Some c"
    and ph: "sc_phase c = SpawnRegistered l"
  shows "account_ok (commit_spawn cfg cid l a c s)"
proof -
  have none: "bt_get (sv_workers s) a = None"
    using spawn_not_worker [OF inv c] ph by simp
  have lg: "logged s a = Some WStarting" and ow: "owed a s = {#}"
    using spawn_state [OF ok none] c ph by auto
  have wf: "bt_wf (sv_spawns s)"
    using inv by (simp add: sv_inv_def)
  have "sc_machine c = WStarting"
    using phase_facts(1) [OF inv c] ph by simp
  then show ?thesis
    using lg ow wf by (intro account_upd [OF ok, of a])
      (auto simp: same_at_def agent_ok_def commit_spawn_def bt_get_del owed_def live_ok_def)
qed

text \<open>Starting, finishing and cancelling a live worker.\<close>

lemma worker_state_ok:
  assumes "account_ok s" and "bt_get (sv_workers s) a = Some w"
  shows "live_ok a (we_state w) (logged s a) (owed a s)"
  using assms by (auto simp: account_ok_def agent_ok_def dest!: spec [of _ a])

lemma active_state_cases:
  assumes "live_ok a st m E" and "\<not> ws_terminal st"
  obtains "st = WStarting" "m = Some WStarting" "E = {#}"
  | t where "st = WRunning" "m = Some WStarting" "E = {#Emit (EvWorkerRunning a t)#}"
  | "st = WRunning" "m = Some WRunning" "E = {#}"
  using assms by (auto simp: live_ok_def split: if_splits)

text \<open>A worker that closes owes its closing event on top of what it owed before.\<close>

lemma live_ok_close:
  assumes "live_ok a st m E" and "\<not> ws_terminal st" and "ws_terminal st'"
    and "close_state act = Some st'" and "\<not> births act" and "\<forall>x \<in># F. \<not> births x \<and> close_state x = None"
  shows "live_ok a st' m (add_mset act (E + F))"
proof -
  have ne: "st' \<noteq> WStarting" "st' \<noteq> WRunning"
    using assms(3) by (auto simp: ws_terminal_def)
  have "closings F = {#}"
    using assms(6) by (induction F) (auto simp: closings_def)
  from assms(1,2) show ?thesis
    by (cases rule: active_state_cases) (use assms ne \<open>closings F = {#}\<close> in \<open>auto simp: live_ok_def closings_def\<close>)
qed

lemma update_account:
  assumes ok: "account_ok s" and w: "bt_get (sv_workers s) a = Some w"
    and q: "\<And>b. b \<noteq> a \<Longrightarrow> filter_mset (concerns b) (mset q) = {#}"
    and s': "sv_workers s' = bt_put a w' (sv_workers s)" "sv_spawns s' = sv_spawns s"
      "sv_log s' = sv_log s" "sv_queues s' = sv_queues s @ [q]"
    and live: "live_ok a (we_state w') (logged s a) (owed a s + filter_mset (concerns a) (mset q))"
  shows "account_ok s'"
proof -
  have ow: "owed b s' = owed b s + filter_mset (concerns b) (mset q)" for b
    by (simp add: owed_def s')
  show ?thesis
    by (rule account_upd [OF ok, of a]) (use live q in \<open>auto simp: same_at_def s' ow agent_ok_def\<close>)
qed

lemma start_worker_account:
  assumes ok: "account_ok s"
  shows "account_ok (fst (start_worker now a s))"
proof (cases "bt_get (sv_workers s) a")
  case None
  with ok show ?thesis by (simp add: start_worker_def)
next
  case (Some w)
  show ?thesis
  proof (cases "transition (we_state w) BeginRunning")
    case (Inl e)
    with ok Some show ?thesis by (simp add: start_worker_def machine_apply_def)
  next
    case (Inr m)
    then have st: "we_state w = WStarting" "m = WRunning"
      using transition_facts(13,16) [OF Inr] by auto
    then have "logged s a = Some WStarting" "owed a s = {#}"
      using worker_state_ok [OF ok Some] by (simp_all add: live_ok_def)
    then show ?thesis
      using Inr Some st
      by (intro update_account [OF ok Some, of "[Emit (EvWorkerRunning a now)]" _ "w\<lparr>we_state := WRunning\<rparr>"])
        (auto simp: start_worker_def machine_apply_def concerns_def live_ok_def enqueue_def)
  qed
qed

lemma finish_worker_account:
  assumes ok: "account_ok s"
  shows "account_ok (fst (finish_worker out now a s))"
proof (cases "bt_get (sv_workers s) a")
  case None
  with ok show ?thesis by (simp add: finish_worker_def)
next
  case (Some w)
  show ?thesis
  proof (cases "transition (we_state w) (outcome_transition out)")
    case (Inl e)
    with ok Some show ?thesis by (simp add: finish_worker_def machine_apply_def)
  next
    case (Inr m)
    have m: "m = (case out of OutcomeComplete \<Rightarrow> WCompleted | OutcomeFail _ \<Rightarrow> WFailed)"
      using transition_facts(4,6) [OF Inr] by (cases out) auto
    let ?act = "Emit (outcome_event out a now)"
    have "live_ok a m (logged s a) (add_mset ?act (owed a s + {#}))"
      using worker_state_ok [OF ok Some] transition_facts(1) [OF Inr] m
      by (intro live_ok_close) (auto simp: ws_terminal_def split: terminal_outcome.splits)
    then show ?thesis
      using Inr Some
      by (intro update_account [OF ok Some, of "closing_actions a (outcome_lease out) w (bt_get (sv_budget s) a) @
            [?act, RemoveChild (ai_parent (we_instance w)) a]" _
            "w\<lparr>we_state := m, we_lease := None\<rparr>"])
        (cases out; auto simp: finish_worker_def machine_apply_def concerns_def enqueue_def)+
  qed
qed

lemma cancel_node_account:
  assumes ok: "account_ok s"
  shows "account_ok (cancel_node now i s)"
proof -
  let ?s = "case bt_get (sv_tokens s) i of Some _ \<Rightarrow> s\<lparr>sv_tokens := bt_put i True (sv_tokens s)\<rparr> | None \<Rightarrow> s"
  have tok: "sv_workers ?s = sv_workers s" "sv_spawns ?s = sv_spawns s" "sv_log ?s = sv_log s"
    "sv_queues ?s = sv_queues s"
    by (simp_all split: option.splits)
  then have ok': "account_ok ?s"
    using ok by (intro account_same [OF ok]) (simp add: same_at_def owed_def)
  show ?thesis
  proof (cases "bt_get (sv_workers s) i")
    case None
    then show ?thesis
      using ok' tok by (simp add: cancel_node_def Let_def)
  next
    case (Some w)
    then have w: "bt_get (sv_workers ?s) i = Some w"
      using tok by simp
    show ?thesis
    proof (cases "ws_terminal (we_state w)")
      case True
      then show ?thesis
        using ok' w by (simp add: cancel_node_def Let_def)
    next
      case False
      have m: "fst (machine_apply Cancel (fst (machine_apply BeginCancel (we_state w)))) = WCancelled"
        using False by (cases "we_state w")
          (simp_all add: machine_apply_def transition_def ws_terminal_def ws_active_def)
      let ?act = "Emit (EvWorkerCancelled i now)" and ?pre = "Emit (EvWorkerCancelling i now)"
      have "live_ok i WCancelled (logged ?s i) (add_mset ?act (owed i ?s + {#?pre#}))"
        using worker_state_ok [OF ok' w] False
        by (intro live_ok_close) (auto simp: ws_terminal_def)
      then show ?thesis
        using w False m
        by (intro update_account [OF ok' w, of "[?pre, ?act] @ closing_actions i LeaseCancelled w (bt_get (sv_budget ?s) i)" _ "w\<lparr>we_state := WCancelled, we_lease := None\<rparr>"])
          (auto simp: cancel_node_def Let_def concerns_def enqueue_def add_mset_commute)
    qed
  qed
qed

lemma record_usage_account: "account_ok s \<Longrightarrow> account_ok (fst (record_usage_begin a i out m s))"
  by (erule account_same) (simp add: same_at_def record_usage_begin_def enqueue_def owed_def)

lemma flush_usage_account: "account_ok s \<Longrightarrow> account_ok (fst (flush_usage_begin a s))"
  by (erule account_same) (simp add: same_at_def flush_usage_begin_def enqueue_def owed_def split: option.splits)

lemma mset_concat_pop:
  "k < length qs \<Longrightarrow> qs ! k = x # rest \<Longrightarrow> mset (concat qs) = add_mset x (mset (concat (qs[k := rest])))"
proof (induction qs arbitrary: k)
  case (Cons q qs)
  then show ?case by (cases k) auto
qed simp

lemma run_action_account:
  assumes ok: "account_ok s" and k: "k < length (sv_queues s)" "sv_queues s ! k = act # rest"
  shows "account_ok (run_action now ds act (s\<lparr>sv_queues := (sv_queues s)[k := rest]\<rparr>))"
proof -
  let ?s = "s\<lparr>sv_queues := (sv_queues s)[k := rest]\<rparr>"
  have ow: "owed b s = (if concerns b act then add_mset act (owed b ?s) else owed b ?s)" for b
    using mset_concat_pop [OF k] by (simp add: owed_def)
  show ?thesis
  proof (cases "\<exists>e. act = Emit e")
    case False
    then have "same_at b s (run_action now ds act ?s)" for b
      using ow [of b] owed_cong [of "run_action now ds act ?s" ?s b]
      by (cases act) (simp_all add: same_at_def)
    then show ?thesis
      by (rule account_same [OF ok])
  next
    case True
    then obtain e where Emit: "act = Emit e"
      by blast
    have "agent_ok (emit e ?s) b" for b
    proof (cases "concerns b act")
      case False
      then have "same_at b s (emit e ?s)"
        using Emit by (simp add: same_at_def ow logged_emit concerns_def del: emit_simps(9))
      then show ?thesis
        using ok same_at_ok by (simp add: account_ok_def)
    next
      case True
      have "agent_ok s b"
        using ok by (simp add: account_ok_def)
      then obtain w where w: "bt_get (sv_workers s) b = Some w"
        using ow [of b] True by (auto simp: agent_ok_def split: option.splits)
      have "live_ok b (we_state w) (bt_get (replay_event e (replay_workers (sv_log s))) b) (owed b ?s)"
        using worker_state_ok [OF ok w] ow [of b] True Emit by (intro live_ok_emit) simp_all
      then show ?thesis
        using w by (simp add: agent_ok_def replay_workers_snoc)
    qed
    then show ?thesis
      using Emit by (simp add: account_ok_def)
  qed
qed

lemma reserve_account:
  assumes ok: "account_ok s" and inv: "sv_inv s" and r: "reserve_spawn cfg pe req s = (s1, r)"
    and s': "s' = (case r of Inl _ \<Rightarrow> s1 | Inr a \<Rightarrow> s1\<lparr>sv_spawns := bt_put a \<lparr>sc_request = req,
        sc_phase = SpawnReserved, sc_instance = new_instance a req 0, sc_machine = WCreated\<rparr> (sv_spawns s1)\<rparr>)"
  shows "account_ok s'"
proof -
  have log: "sv_queues s1 = sv_queues s \<and> (\<forall>b. logged s1 b = logged s b)"
    using r by (auto simp: reserve_spawn_def reserve_concurrency_def Let_def replay_workers_snoc
        split: if_splits option.splits)
  from r show ?thesis
  proof (cases rule: reserve_spawn_cases)
    case (refused e)
    then show ?thesis
      using log by (intro account_same [OF ok]) (simp add: same_at_def s' owed_def)
  next
    case granted
    let ?a = "agent_name (sv_next s)"
    have none: "bt_get (sv_workers s) ?a = None"
      using next_is_fresh [OF inv] by simp
    show ?thesis
      using spawn_state(1) [OF ok none] none
      by (intro account_upd [OF ok, of ?a]) (auto simp: same_at_def s' granted(1,2) owed_def agent_ok_def)
  qed
qed

lemma sv_exec_account:
  assumes ex: "sv_exec cfg pe c s = Some s'" and inv: "sv_inv s" and ok: "account_ok s"
  shows "account_ok s'"
proof (cases c)
  case (Validate req)
  then show ?thesis
    using ex ok by (auto split: sum.splits intro!: account_same [OF ok] simp: same_at_def owed_def)
next
  case (Reserve req)
  let ?s = "s\<lparr>sv_validated := remove1 req (sv_validated s)\<rparr>"
  obtain s1 r where r: "reserve_spawn cfg pe req ?s = (s1, r)"
    by force
  have "sv_inv ?s" "account_ok ?s"
    using inv ok by (auto simp: sv_inv_def intro!: account_same [OF ok] simp: same_at_def owed_def)
  from reserve_account [OF this(2,1) r, of s'] ex r Reserve show ?thesis
    by (auto split: if_splits sum.splits)
next
  case (CancelTree root)
  then show ?thesis
    using ex ok by (auto simp: cancel_begin_def same_at_def owed_def split: option.splits if_splits
        intro!: account_same [OF ok])
next
  case (CancelNext k now)
  then obtain i rest where s': "s' = cancel_node now i (s\<lparr>sv_cancels := (sv_cancels s)[k := rest]\<rparr>)"
    using ex by (auto split: list.splits if_splits)
  have "account_ok (s\<lparr>sv_cancels := (sv_cancels s)[k := rest]\<rparr>)"
    using ok by (intro account_same [OF ok]) (simp add: same_at_def owed_def)
  then show ?thesis
    unfolding s' by (rule cancel_node_account)
next
  case (RunAction k now ds)
  then show ?thesis
    using ex ok run_action_account by (auto split: list.splits if_splits)
qed (use ex inv ok admit_account lease_account register_account commit_account drop_spawn_account
      start_worker_account finish_worker_account record_usage_account flush_usage_account in \<open>auto split: option.splits if_splits spawn_phase.splits\<close>)

lemma sv_run_account:
  assumes "sv_run cfg pe cs s = Some s'" and "sv_inv s" and "account_ok s"
    and "unat (sv_next s) + length cs \<le> u64_max"
  shows "account_ok s'"
  using assms
proof (induction cs arbitrary: s)
  case Nil
  then show ?case by simp
next
  case (Cons c cs)
  obtain s1 where s1: "sv_exec cfg pe c s = Some s1" "sv_run cfg pe cs s1 = Some s'"
    using Cons.prems(1) by (auto split: option.splits)
  have "good_step cfg pe s s1"
    using sv_exec_good [OF s1(1) Cons.prems(2)] Cons.prems(4) by simp
  then show ?case
    using Cons.IH [OF s1(2) _ sv_exec_account [OF s1(1) Cons.prems(2,3)]] Cons.prems(4)
    by (simp add: good_step_def)
qed

text \<open>
  C1: The event log tells the truth once the dust settles. Calls emit events after leaving the
  lock, so the log may order them differently from their effects; still, under every
  interleaving, whenever no call owes an event any more, replaying the log gives every registered
  worker exactly its live state.
\<close>

theorem settled_log_replays_live_states:
  assumes "sv_run cfg pe cs supervisor_new = Some s" and "length cs \<le> u64_max"
    and "\<forall>q \<in> set (sv_queues s). q = []" and "bt_get (sv_workers s) a = Some w"
  shows "bt_get (replay_workers (sv_log s)) a = Some (we_state w)"
proof -
  have "account_ok supervisor_new"
    by (simp add: account_ok_def agent_ok_def supervisor_new_def owed_def)
  then have "account_ok s"
    using sv_run_account [OF assms(1) supervisor_new_inv] assms(2) by (simp add: supervisor_new_def)
  from worker_state_ok [OF this assms(4)] have "live_ok a (we_state w) (logged s a) (owed a s)" .
  moreover have "owed a s = {#}"
  proof -
    have empty: "concat (sv_queues s) = []"
      using assms(3) by simp
    show ?thesis
      unfolding owed_def empty by simp
  qed
  ultimately show ?thesis
    by (auto simp: live_ok_def closings_def split: if_splits)
qed

text \<open>A run in which the closing event of a worker is logged before its running event.\<close>

definition reordered_run :: "sv_command list" where
  "reordered_run = spawn_root @ [RunAction 0 1 [], StartWorker ''agent-0'' 2,
     FinishWorker ''agent-0'' OutcomeComplete 3, RunAction 2 3 [], RunAction 2 3 [], RunAction 2 3 [], RunAction 2 3 [], RunAction 1 3 []]"

lemma settled_log_replays_live_states_witness:
  "\<exists>s w. sv_run sample_config sample_engine reordered_run supervisor_new = Some s \<and>
     bt_get (sv_workers s) ''agent-0'' = Some w \<and> we_state w = WCompleted \<and>
     bt_get (replay_workers (sv_log s)) ''agent-0'' = Some WCompleted"
proof -
  let ?r = "sv_run sample_config sample_engine reordered_run supervisor_new"
  have "map_option (\<lambda>s. (sv_queues s, map_option we_state (bt_get (sv_workers s) ''agent-0''))) ?r =
      Some ([[], [], []], Some WCompleted)"
    by code_simp
  then obtain s w where s: "?r = Some s" "sv_queues s = [[], [], []]" "bt_get (sv_workers s) ''agent-0'' = Some w"
      "we_state w = WCompleted"
    by auto
  have "length reordered_run \<le> u64_max"
    by (simp add: reordered_run_def spawn_root_def u64_max_def)
  from settled_log_replays_live_states [OF s(1) this _ s(3)] s show ?thesis
    by auto
qed

text \<open>The same run shows the limits at work.\<close>

lemma agent_limits_hold_witness:
  "\<exists>s. sv_run sample_config sample_engine spawn_root supervisor_new = Some s \<and> count_agents None s \<le> 2"
proof -
  have "sv_run sample_config sample_engine spawn_root supervisor_new \<noteq> None"
    by code_simp
  then obtain s where s: "sv_run sample_config sample_engine spawn_root supervisor_new = Some s"
    by blast
  have "length spawn_root \<le> u64_max"
    by (simp add: spawn_root_def u64_max_def)
  from agent_limits_hold [OF s this] s show ?thesis
    by (simp add: sample_config_def)
qed

subsection \<open>Cancellation against a spawn in flight\<close>

text \<open>
  The parent passes the check of \<open>validate_parent\<close>, is then cancelled with its whole tree, and
  the spawn goes on to register and start its child.
\<close>

definition orphan_run :: "sv_command list" where
  "orphan_run = spawn_root @
     [Validate (sample_request (Some ''agent-0'')), Reserve (sample_request (Some ''agent-0'')),
      AdmitSpawn ''agent-1'' 2, RunAction 0 2 [],
      CancelTree ''agent-0'', CancelNext 0 3, RunAction 1 3 [], RunAction 1 3 [], RunAction 1 3 [], RunAction 1 3 [],
      LeaseSpawn ''agent-1'' idle_pool 4, RegisterSpawn ''agent-1'' 4, CommitSpawn ''agent-1'' ''c1'',
      RunAction 2 5 [], StartWorker ''agent-1'' 5, RunAction 3 5 []]"

text \<open>
  Cancelling a tree can miss a child being spawned. There is a run in which a spawn under a
  parent has passed its parent check, the parent's whole tree is cancelled and the cancellation
  finishes, and the child then runs, uncancelled, under its cancelled parent, with no call left
  that would stop it.
\<close>

theorem cancel_tree_misses_a_spawning_child:
  "\<exists>s parent child. sv_run sample_config sample_engine orphan_run supervisor_new = Some s \<and>
     bt_get (sv_workers s) ''agent-0'' = Some parent \<and> we_state parent = WCancelled \<and>
     bt_get (sv_workers s) ''agent-1'' = Some child \<and> we_state child = WRunning \<and>
     ai_parent (we_instance child) = Some ''agent-0'' \<and> bt_get (sv_tokens s) ''agent-1'' = Some False \<and>
     sv_spawns s = [] \<and> list_all (\<lambda>q. q = []) (sv_queues s) \<and> list_all (\<lambda>c. c = []) (sv_cancels s)"
proof -
  let ?r = "sv_run sample_config sample_engine orphan_run supervisor_new"
  have "map_option (\<lambda>s. (map_option we_state (bt_get (sv_workers s) ''agent-0''),
        map_option (\<lambda>w. (we_state w, ai_parent (we_instance w))) (bt_get (sv_workers s) ''agent-1''),
        bt_get (sv_tokens s) ''agent-1'', sv_spawns s, sv_queues s, sv_cancels s)) ?r =
      Some (Some WCancelled, Some (WRunning, Some ''agent-0''), Some False, [], [[], [], [], []], [[]])"
    by code_simp
  then show ?thesis
    by auto
qed

end
