(* ===== verification/ShellLexer.thy ===== *)
theory ShellLexer
  imports Prelude
begin

text \<open>
  The hand-written tokenizer of \<open>crates/policy/src/shell.rs\<close>. The lexer's position in the text is
  the list of characters that remain; a scanner takes the word built so far and returns it with
  what remains. Texts are UTF-8 bytes: every character the lexer looks for is ASCII, and no byte
  of a longer code point equals one, so scanning bytes or characters gives the same text.
\<close>

subsection \<open>Words and tokens\<close>

record word_tok =
  wd_text :: string
  wd_dynamic :: bool
  wd_subs :: "string list"

definition word_default :: word_tok where
  "word_default = \<lparr>wd_text = [], wd_dynamic = False, wd_subs = []\<rparr>"

datatype tok = TWord word_tok | TRedirect "word_tok option" | TPipe | TAnd | TOr | TSemi | TAmp | TNewline

definition push :: "char \<Rightarrow> word_tok \<Rightarrow> word_tok" where
  "push c w = w\<lparr>wd_text := wd_text w @ [c]\<rparr>"

definition set_dynamic :: "word_tok \<Rightarrow> word_tok" where
  "set_dynamic w = w\<lparr>wd_dynamic := True\<rparr>"

definition add_sub :: "string \<Rightarrow> word_tok \<Rightarrow> word_tok" where
  "add_sub s w = w\<lparr>wd_dynamic := True, wd_subs := wd_subs w @ [s]\<rparr>"

abbreviation squote :: char where "squote \<equiv> CHR 0x27"
abbreviation dquote :: char where "dquote \<equiv> CHR 0x22"
abbreviation backslash :: char where "backslash \<equiv> CHR 0x5C"
abbreviation backtick :: char where "backtick \<equiv> CHR 0x60"
abbreviation newline :: char where "newline \<equiv> CHR 0x0A"

definition inline_ws :: "char \<Rightarrow> bool" where
  "inline_ws c \<longleftrightarrow> c = CHR '' '' \<or> c = CHR 0x09 \<or> c = CHR 0x0D"

definition ascii_digit :: "char \<Rightarrow> bool" where
  "ascii_digit c = (let x = of_char c :: nat in 48 \<le> x \<and> x \<le> 57)"

definition ascii_alpha :: "char \<Rightarrow> bool" where
  "ascii_alpha c = (let x = of_char c :: nat in ascii_upper c \<or> 97 \<le> x \<and> x \<le> 122)"

subsection \<open>Quotes and substitutions\<close>

fun take_single_quoted :: "string \<Rightarrow> word_tok \<Rightarrow> word_tok \<times> string" where
  "take_single_quoted [] w = (w, [])"
| "take_single_quoted (c # cs) w = (if c = squote then (w, cs) else take_single_quoted cs (push c w))"

fun take_brace :: "string \<Rightarrow> word_tok \<Rightarrow> word_tok \<times> string" where
  "take_brace [] w = (w, [])"
| "take_brace (c # cs) w = (if c = CHR ''}'' then (push c w, cs) else take_brace cs (push c w))"

fun take_name :: "string \<Rightarrow> word_tok \<Rightarrow> word_tok \<times> string" where
  "take_name [] w = (w, [])"
| "take_name (c # cs) w =
     (if ascii_alpha c \<or> ascii_digit c \<or> c = CHR ''_'' then take_name cs (push c w) else (w, c # cs))"

text \<open>A quoted region inside \<open>$(...)\<close>, copied to the word and to the inner script.\<close>

fun copy_quoted :: "char \<Rightarrow> string \<Rightarrow> word_tok \<Rightarrow> string \<Rightarrow> word_tok \<times> string \<times> string" where
  "copy_quoted q [] w inner = (w, inner, [])"
| "copy_quoted q (c # cs) w inner =
     (if c = backslash
      then case cs of
             [] \<Rightarrow> (push c w, inner @ [c], [])
           | e # cs' \<Rightarrow> copy_quoted q cs' (push e (push c w)) (inner @ [c, e])
      else if c = q then (push c w, inner @ [c], cs)
      else copy_quoted q cs (push c w) (inner @ [c]))"

lemma copy_quoted_length: "length (snd (snd (copy_quoted q cs w inner))) \<le> length cs"
proof (induction q cs w inner rule: copy_quoted.induct)
  case (2 q c cs w inner)
  then show ?case
    by (cases cs) (simp_all add: le_SucI)
qed simp

function take_command_substitution :: "nat \<Rightarrow> string \<Rightarrow> word_tok \<Rightarrow> string \<Rightarrow> word_tok \<times> string \<times> string" where
  "take_command_substitution d [] w inner = (w, inner, [])"
| "take_command_substitution d (c # cs) w inner =
     (if c = squote \<or> c = dquote \<or> c = backtick
      then (case copy_quoted c cs (push c w) (inner @ [c]) of
              (w', inner', cs') \<Rightarrow> take_command_substitution d cs' w' inner')
      else if c = backslash
      then (case cs of
              [] \<Rightarrow> (push c w, inner @ [c], [])
            | n # cs' \<Rightarrow> take_command_substitution d cs' (push n (push c w)) (inner @ [c, n]))
      else if c = CHR ''('' then take_command_substitution (d + 1) cs (push c w) (inner @ [c])
      else if c = CHR '')''
      then (if d = 1 then (push c w, inner, cs)
            else take_command_substitution (d - 1) cs (push c w) (inner @ [c]))
      else take_command_substitution d cs (push c w) (inner @ [c]))"
  by pat_completeness auto

termination take_command_substitution
proof (relation "measure (\<lambda>(d, cs, w, inner). length cs)", goal_cases)
  case (2 d c cs w inner w' x inner' cs')
  then show ?case
    using copy_quoted_length [of c cs "push c w" "inner @ [c]"] by (metis in_measure case_prod_conv snd_conv le_imp_less_Suc length_Cons)
qed auto

fun take_backtick :: "string \<Rightarrow> word_tok \<Rightarrow> string \<Rightarrow> word_tok \<times> string \<times> string" where
  "take_backtick [] w inner = (w, inner, [])"
| "take_backtick (c # cs) w inner =
     (if c = backslash
      then case cs of
             [] \<Rightarrow> (push c w, inner @ [c], [])
           | n # cs' \<Rightarrow> take_backtick cs' (push n (push c w)) (inner @ [c, n])
      else if c = backtick then (push c w, inner, cs)
      else take_backtick cs (push c w) (inner @ [c]))"

text \<open>Both close a substitution: the word becomes dynamic and keeps the inner script.\<close>

definition close_sub :: "word_tok \<times> string \<times> string \<Rightarrow> word_tok \<times> string" where
  "close_sub r = (case r of (w, inner, cs) \<Rightarrow> (add_sub inner w, cs))"

definition special_parameter :: "char \<Rightarrow> bool" where
  "special_parameter c \<longleftrightarrow> c \<in> set ''?#$!*-@'' \<or> ascii_digit c"

text \<open>After the \<open>$\<close>, which is kept in the text.\<close>

definition take_dollar :: "string \<Rightarrow> word_tok \<Rightarrow> word_tok \<times> string" where
  "take_dollar cs w0 =
     (let w = push (CHR ''$'') w0 in
      case cs of
        [] \<Rightarrow> (w, [])
      | c # cs' \<Rightarrow>
          (if c = CHR ''('' then close_sub (take_command_substitution 1 cs' (push c w) [])
           else if c = CHR ''{''
           then (case take_brace cs' (push c w) of (w', r) \<Rightarrow> (set_dynamic w', r))
           else if ascii_alpha c \<or> c = CHR ''_''
           then (case take_name cs w of (w', r) \<Rightarrow> (set_dynamic w', r))
           else if special_parameter c then (set_dynamic (push c w), cs')
           else (w, cs)))"

definition start_backtick :: "string \<Rightarrow> word_tok \<Rightarrow> word_tok \<times> string" where
  "start_backtick cs w = close_sub (take_backtick cs (push backtick w) [])"

text \<open>No scanner gives back more than it got.\<close>

lemma take_single_quoted_length: "length (snd (take_single_quoted cs w)) \<le> length cs"
  by (induction cs w rule: take_single_quoted.induct) auto

lemma take_brace_length: "length (snd (take_brace cs w)) \<le> length cs"
  by (induction cs w rule: take_brace.induct) auto

lemma take_name_length: "length (snd (take_name cs w)) \<le> length cs"
  by (induction cs w rule: take_name.induct) auto

lemma take_command_substitution_length:
  "length (snd (snd (take_command_substitution d cs w inner))) \<le> length cs"
proof (induction d cs w inner rule: take_command_substitution.induct)
  case (2 d c cs w inner)
  obtain w' inner' cs' where cq: "copy_quoted c cs (push c w) (inner @ [c]) = (w', inner', cs')"
    by (metis prod_cases3)
  then have "length cs' \<le> length cs"
    using copy_quoted_length [of c cs "push c w" "inner @ [c]"] by simp
  note le = this
  show ?case
  proof (cases "c = squote \<or> c = dquote \<or> c = backtick")
    case True
    then show ?thesis
      using 2(1) [OF True cq [symmetric] refl] cq le by simp
  next
    case False
    then show ?thesis
      using 2(2-) by (cases cs) (simp_all add: le_SucI)
  qed
qed simp

lemma take_backtick_length: "length (snd (snd (take_backtick cs w inner))) \<le> length cs"
proof (induction cs w inner rule: take_backtick.induct)
  case (2 c cs w inner)
  then show ?case
    by (cases cs) (simp_all add: le_SucI)
qed simp

lemma close_sub_length: "length (snd (close_sub r)) = length (snd (snd r))"
  by (simp add: close_sub_def split: prod.splits)

lemma take_dollar_length: "length (snd (take_dollar cs w)) \<le> length cs"
proof (cases cs)
  case (Cons c cs')
  show ?thesis
    using Cons take_command_substitution_length [of 1 cs' "push c (push (CHR ''$'') w)" "[]"]
      take_brace_length [of cs' "push c (push (CHR ''$'') w)"] take_name_length [of cs "push (CHR ''$'') w"]
    by (auto simp: take_dollar_def Let_def close_sub_length split: prod.splits)
qed (simp add: take_dollar_def)

lemma start_backtick_length: "length (snd (start_backtick cs w)) \<le> length cs"
  by (simp add: start_backtick_def close_sub_length take_backtick_length)

function take_double_quoted :: "string \<Rightarrow> word_tok \<Rightarrow> word_tok \<times> string" where
  "take_double_quoted [] w = (w, [])"
| "take_double_quoted (c # cs) w =
     (if c = dquote then (w, cs)
      else if c = backslash
      then (case cs of
              [] \<Rightarrow> (push c w, [])
            | n # cs' \<Rightarrow>
                (if n = dquote \<or> n = backslash \<or> n = CHR ''$'' \<or> n = backtick
                 then take_double_quoted cs' (push n w)
                 else if n = newline then take_double_quoted cs' w
                 else take_double_quoted cs (push c w)))
      else if c = CHR ''$''
      then (case take_dollar cs w of (w', cs') \<Rightarrow> take_double_quoted cs' w')
      else if c = backtick
      then (case start_backtick cs w of (w', cs') \<Rightarrow> take_double_quoted cs' w')
      else take_double_quoted cs (push c w))"
  by pat_completeness auto

termination take_double_quoted
proof (relation "measure (\<lambda>(cs, w). length cs)", goal_cases)
  case (5 c cs w w' cs')
  then show ?case
    by (metis in_measure case_prod_conv snd_conv le_imp_less_Suc length_Cons take_dollar_length)
next
  case (6 c cs w w' cs')
  then show ?case
    by (metis in_measure case_prod_conv snd_conv le_imp_less_Suc length_Cons start_backtick_length)
qed auto

lemma take_double_quoted_length: "length (snd (take_double_quoted cs w)) \<le> length cs"
proof (induction cs w rule: take_double_quoted.induct)
  case (2 c cs w)
  consider (dollar) "c = CHR ''$''" | (tick) "c = backtick" | (other) "c \<noteq> CHR ''$''" "c \<noteq> backtick"
    by blast
  then show ?case
  proof cases
    case dollar
    obtain w' cs' where r: "take_dollar cs w = (w', cs')"
      by force
    then show ?thesis
      using 2(4) [OF _ _ dollar r [symmetric]] take_dollar_length [of cs w] dollar by simp
  next
    case tick
    obtain w' cs' where r: "start_backtick cs w = (w', cs')"
      by force
    then show ?thesis
      using 2(5) [OF _ _ _ tick r [symmetric]] start_backtick_length [of cs w] tick by simp
  next
    case other
    then show ?thesis
      using 2(1-3,6) by (cases cs) (simp_all add: le_SucI)
  qed
qed simp

subsection \<open>Words, redirections and tokens\<close>

definition ends_word :: "char \<Rightarrow> bool" where
  "ends_word c \<longleftrightarrow> inline_ws c \<or> c = newline \<or> c = CHR '';'' \<or> c = CHR ''|'' \<or> c = CHR ''&''"

text \<open>
  \<open>scan_word\<close>; the flag of the result says that the word was the number of a redirection, which
  then starts at the \<open>>\<close> that remains.
\<close>

function scan_word :: "bool \<Rightarrow> string \<Rightarrow> word_tok \<Rightarrow> bool \<times> word_tok \<times> string" where
  "scan_word fd [] w = (False, w, [])"
| "scan_word fd (c # cs) w =
     (if ends_word c then (False, w, c # cs)
      else if c = CHR ''>''
      then (fd \<and> wd_text w \<noteq> [] \<and> list_all ascii_digit (wd_text w), w, c # cs)
      else if c = squote then (case take_single_quoted cs w of (w', cs') \<Rightarrow> scan_word fd cs' w')
      else if c = dquote then (case take_double_quoted cs w of (w', cs') \<Rightarrow> scan_word fd cs' w')
      else if c = backslash
      then (case cs of [] \<Rightarrow> (False, push c w, []) | n # cs' \<Rightarrow> scan_word fd cs' (push n w))
      else if c = backtick then (case start_backtick cs w of (w', cs') \<Rightarrow> scan_word fd cs' w')
      else if c = CHR ''$'' then (case take_dollar cs w of (w', cs') \<Rightarrow> scan_word fd cs' w')
      else scan_word fd cs (push c w))"
  by pat_completeness auto

termination scan_word
proof (relation "measure (\<lambda>(fd, cs, w). length cs)", goal_cases)
  case (2 fd c cs w w' cs')
  then show ?case
    by (metis in_measure case_prod_conv snd_conv le_imp_less_Suc length_Cons take_single_quoted_length)
next
  case (3 fd c cs w w' cs')
  then show ?case
    by (metis in_measure case_prod_conv snd_conv le_imp_less_Suc length_Cons take_double_quoted_length)
next
  case (5 fd c cs w w' cs')
  then show ?case
    by (metis in_measure case_prod_conv snd_conv le_imp_less_Suc length_Cons start_backtick_length)
next
  case (6 fd c cs w w' cs')
  then show ?case
    by (metis in_measure case_prod_conv snd_conv le_imp_less_Suc length_Cons take_dollar_length)
qed auto

lemma scan_word_length: "length (snd (snd (scan_word fd cs w))) \<le> length cs"
proof (induction fd cs w rule: scan_word.induct)
  case (2 fd c cs w)
  show ?case
  proof (cases "ends_word c \<or> c = CHR ''>''")
    case False
    then have "\<not> ends_word c" "c \<noteq> CHR ''>''"
      by auto
    note rec = 2 [OF this]
    consider (sq) "c = squote" | (dq) "c = dquote" | (tick) "c = backtick" | (dollar) "c = CHR ''$''"
      | (other) "c \<noteq> squote" "c \<noteq> dquote" "c \<noteq> backtick" "c \<noteq> CHR ''$''"
      by blast
    then show ?thesis
    proof cases
      case sq
      then show ?thesis
        using rec(1) take_single_quoted_length [of cs w] False by (auto split: prod.splits)
    next
      case dq
      then show ?thesis
        using rec(2) take_double_quoted_length [of cs w] False by (auto split: prod.splits)
    next
      case tick
      then show ?thesis
        using rec(4) start_backtick_length [of cs w] False by (auto split: prod.splits)
    next
      case dollar
      then show ?thesis
        using rec(5) take_dollar_length [of cs w] False by (auto split: prod.splits)
    next
      case other
      then show ?thesis
        using rec(3,6) False by (cases cs) (simp_all add: le_SucI)
    qed
  qed auto
qed simp

text \<open>A word that starts at a character that is no separator uses that character up.\<close>

lemma scan_word_progress:
  assumes "\<not> ends_word c" and "c \<noteq> CHR ''>''"
  shows "length (snd (snd (scan_word fd (c # cs) w))) \<le> length cs"
proof -
  have le: "length (snd (snd (scan_word fd r v))) \<le> length cs" if "length r \<le> length cs" for r v
    using scan_word_length [of fd r v] that by simp
  have le': "length (snd (snd (case p of (v, r) \<Rightarrow> scan_word fd r v))) \<le> length cs"
    if "length (snd p) \<le> length cs" for p
    using le [of "snd p" "fst p"] that by (simp add: split_beta)
  consider (sq) "c = squote" | (dq) "c = dquote" | (tick) "c = backtick" | (dollar) "c = CHR ''$''"
    | (bs) "c = backslash"
    | (other) "c \<noteq> squote" "c \<noteq> dquote" "c \<noteq> backtick" "c \<noteq> CHR ''$''" "c \<noteq> backslash"
    by blast
  then show ?thesis
  proof cases
    case sq
    then show ?thesis using assms le' [OF take_single_quoted_length, of w] by simp
  next
    case dq
    then show ?thesis using assms le' [OF take_double_quoted_length, of w] by simp
  next
    case tick
    then show ?thesis using assms le' [OF start_backtick_length, of w] by simp
  next
    case dollar
    then show ?thesis using assms le' [OF take_dollar_length, of w] by simp
  next
    case bs
    then show ?thesis using assms le by (cases cs) simp_all
  next
    case other
    then show ?thesis using assms le by simp
  qed
qed

text \<open>\<open>lex_redirect_target\<close>: the text starts at the \<open>>\<close>.\<close>

definition redirect_target :: "string \<Rightarrow> word_tok option \<times> string" where
  "redirect_target cs0 =
     (let cs1 = tl cs0;
          cs2 = (case cs1 of c # r \<Rightarrow> (if c = CHR ''>'' then r else cs1) | [] \<Rightarrow> cs1)
      in case dropWhile inline_ws cs2 of
           [] \<Rightarrow> (None, [])
         | c # r \<Rightarrow>
             (if c = CHR ''&'' \<and> (case r of d # _ \<Rightarrow> ascii_digit d | [] \<Rightarrow> False)
              then (case scan_word False r word_default of
                      (_, w, r') \<Rightarrow> (Some (w\<lparr>wd_text := CHR ''&'' # wd_text w\<rparr>), r'))
              else if c \<in> set '';|&>'' \<or> c = newline then (None, c # r)
              else (case scan_word False (c # r) word_default of (_, w, r') \<Rightarrow> (Some w, r'))))"

lemma redirect_target_length: "cs \<noteq> [] \<Longrightarrow> length (snd (redirect_target cs)) < length cs"
proof -
  assume "cs \<noteq> []"
  define cs2 where "cs2 = (case tl cs of c # r \<Rightarrow> (if c = CHR ''>'' then r else tl cs) | [] \<Rightarrow> tl cs)"
  have "length (dropWhile inline_ws cs2) \<le> length cs2"
    by (rule length_dropWhile_le)
  also have "length cs2 < length cs"
    using \<open>cs \<noteq> []\<close> by (cases cs) (auto simp: cs2_def split: list.splits)
  finally have lt: "length (dropWhile inline_ws cs2) < length cs" .
  show ?thesis
  proof (cases "dropWhile inline_ws cs2")
    case Nil
    show ?thesis
      unfolding redirect_target_def Let_def cs2_def [symmetric] Nil using \<open>cs \<noteq> []\<close> by simp
  next
    case (Cons c r)
    then show ?thesis
      unfolding redirect_target_def Let_def cs2_def [symmetric] Cons
      using lt [unfolded Cons] scan_word_length [of False r word_default] scan_word_length [of False "c # r" word_default]
      by (auto simp del: scan_word.simps split: prod.splits)
  qed
qed

function lex_run :: "string \<Rightarrow> tok list" where
  "lex_run [] = []"
| "lex_run (c # cs) =
     (if inline_ws c then lex_run cs
      else if c = newline then TNewline # lex_run cs
      else if c = CHR ''#'' then lex_run (dropWhile (\<lambda>x. x \<noteq> newline) cs)
      else if c = CHR ''|''
      then (case cs of
              x # cs' \<Rightarrow> (if x = CHR ''|'' then TOr # lex_run cs' else TPipe # lex_run cs)
            | [] \<Rightarrow> [TPipe])
      else if c = CHR ''&''
      then (case cs of
              x # cs' \<Rightarrow>
                (if x = CHR ''&'' then TAnd # lex_run cs'
                 else if x = CHR ''>''
                 then (case redirect_target (x # cs') of (t, r) \<Rightarrow> TRedirect t # lex_run r)
                 else TAmp # lex_run cs)
            | [] \<Rightarrow> [TAmp])
      else if c = CHR '';'' then TSemi # lex_run cs
      else if c = CHR ''>''
      then (case redirect_target (c # cs) of (t, r) \<Rightarrow> TRedirect t # lex_run r)
      else (case scan_word True (c # cs) word_default of
              (is_fd, w, r) \<Rightarrow>
                (if is_fd \<and> r \<noteq> [] then (case redirect_target r of (t, r') \<Rightarrow> TRedirect t # lex_run r')
                 else TWord w # lex_run r)))"
  by pat_completeness auto

lemma redirect_less: "(t, r) = redirect_target cs \<Longrightarrow> cs \<noteq> [] \<Longrightarrow> length r < length cs"
  by (metis redirect_target_length snd_conv)

lemma scan_less: "(b, w, r) = scan_word fd (c # cs) v \<Longrightarrow> \<not> ends_word c \<Longrightarrow> c \<noteq> CHR ''>'' \<Longrightarrow> length r \<le> length cs"
  by (metis scan_word_progress snd_conv)

termination lex_run
proof (relation "measure length", goal_cases)
  case (3 c cs)
  then show ?case
    by (simp add: length_dropWhile_le le_imp_less_Suc)
next
  case (12 c cs b y w r t r')
  then have "length r \<le> length cs" "length r' < length r"
    using scan_less [of b w r True c cs] redirect_less [of t r' r] by (auto simp: ends_word_def)
  then show ?case by simp
next
  case (13 c cs b y w r)
  then have "length r \<le> length cs"
    using scan_less [of b w r True c cs] by (auto simp: ends_word_def)
  then show ?case by simp
qed (auto simp: length_dropWhile_le le_imp_less_Suc simp del: scan_word.simps dest!: redirect_less)

definition tokenize :: "string \<Rightarrow> tok list" where
  "tokenize text = lex_run text"

end
