(* ===== verification/ShellRisk.thy ===== *)
theory ShellRisk
  imports ShellLexer
begin

text \<open>
  The risk classification of \<open>crates/policy/src/shell.rs\<close>: tokens to pipelines of commands, the
  fixed vocabulary, the classification of a script and the floor of catastrophic commands.
  The recursion depth of the code is counted down from thirteen levels, \<open>MAX_SCRIPT_DEPTH + 1\<close>.
\<close>

subsection \<open>Commands and pipelines\<close>

record shell_cmd =
  cmd_program :: "word_tok option"
  cmd_args :: "word_tok list"
  cmd_redirects :: "word_tok list"

definition cmd_default :: shell_cmd where
  "cmd_default = \<lparr>cmd_program = None, cmd_args = [], cmd_redirects = []\<rparr>"

definition cmd_words :: "shell_cmd \<Rightarrow> word_tok list" where
  "cmd_words c = (case cmd_program c of Some p \<Rightarrow> [p] | None \<Rightarrow> []) @ cmd_args c @ cmd_redirects c"

definition add_word :: "word_tok \<Rightarrow> shell_cmd \<Rightarrow> shell_cmd" where
  "add_word w c =
     (case cmd_program c of None \<Rightarrow> c\<lparr>cmd_program := Some w\<rparr> | Some _ \<Rightarrow> c\<lparr>cmd_args := cmd_args c @ [w]\<rparr>)"

definition the_cmd :: "shell_cmd option \<Rightarrow> shell_cmd" where
  "the_cmd c = (case c of Some x \<Rightarrow> x | None \<Rightarrow> cmd_default)"

text \<open>The loop of \<open>parse_commands\<close>: finished pipelines, the current one, the current command.\<close>

type_synonym parse_state = "shell_cmd list list \<times> shell_cmd list \<times> shell_cmd option"

definition end_command :: "shell_cmd option \<Rightarrow> shell_cmd list \<Rightarrow> shell_cmd list" where
  "end_command c pl = (case c of Some x \<Rightarrow> pl @ [x] | None \<Rightarrow> pl)"

definition end_pipeline :: "parse_state \<Rightarrow> parse_state" where
  "end_pipeline st =
     (case st of (pls, pl, c) \<Rightarrow>
        (let pl' = end_command c pl in (if pl' = [] then pls else pls @ [pl'], [], None)))"

fun parse_tok :: "tok \<Rightarrow> parse_state \<Rightarrow> parse_state" where
  "parse_tok (TWord w) (pls, pl, c) = (pls, pl, Some (add_word w (the_cmd c)))"
| "parse_tok (TRedirect (Some t)) (pls, pl, c) =
     (pls, pl, Some ((the_cmd c)\<lparr>cmd_redirects := cmd_redirects (the_cmd c) @ [t]\<rparr>))"
| "parse_tok (TRedirect None) st = st"
| "parse_tok TPipe (pls, pl, c) = (pls, end_command c pl, None)"
| "parse_tok _ st = end_pipeline st"

definition parse_commands :: "tok list \<Rightarrow> shell_cmd list list" where
  "parse_commands toks = fst (end_pipeline (fold parse_tok toks ([], [], None)))"

subsection \<open>Text helpers\<close>

definition strip_exe :: "string \<Rightarrow> string" where
  "strip_exe s = (if ends_with ''.exe'' s then take (length s - 4) s else s)"

definition trim_quotes :: "string \<Rightarrow> string" where
  "trim_quotes s =
     (let q = (\<lambda>c. c = squote \<or> c = dquote) in rev (dropWhile q (rev (dropWhile q s))))"

text \<open>
  \<open>Path::file_name\<close>: the last component, empty and \<open>.\<close> components aside (a leading \<open>.\<close> is one), and
  none for a root, an empty path or a path ending in \<open>..\<close>.
\<close>

fun split_slash :: "string \<Rightarrow> string \<Rightarrow> string list" where
  "split_slash acc [] = [acc]"
| "split_slash acc (c # cs) = (if c = CHR ''/'' then acc # split_slash [] cs else split_slash (acc @ [c]) cs)"

definition path_components :: "string \<Rightarrow> string list" where
  "path_components s = filter (\<lambda>p. p \<noteq> [] \<and> p \<noteq> ''.'') (split_slash [] s)"

definition basename :: "string \<Rightarrow> string" where
  "basename s =
     (case rev (path_components s) of
        [] \<Rightarrow> s
      | p # _ \<Rightarrow> (if p = ''..'' then s else p))"

definition folded :: "string \<Rightarrow> string" where
  "folded base = strip_exe (to_lower base)"

subsection \<open>Vocabulary\<close>

definition is_fetch_program :: "string \<Rightarrow> bool" where
  "is_fetch_program base \<longleftrightarrow> to_lower base \<in> {''curl'', ''wget''}"

definition is_python_program :: "string \<Rightarrow> bool" where
  "is_python_program base =
     (let f = folded base in
      f = ''python'' \<or> f = ''python3'' \<or>
      starts_with ''python'' f \<and> (case drop 6 f of c # _ \<Rightarrow> ascii_digit c \<or> c = CHR ''.'' | [] \<Rightarrow> False))"

definition is_perl_program :: "string \<Rightarrow> bool" where
  "is_perl_program base \<longleftrightarrow> folded base = ''perl''"

definition is_remote_pipe_interpreter :: "string \<Rightarrow> bool" where
  "is_remote_pipe_interpreter base \<longleftrightarrow>
     to_lower base \<in> {''sh'', ''bash'', ''zsh'', ''dash'', ''ksh'', ''ash''} \<or>
     is_python_program base \<or> is_perl_program base"

definition is_mkfs :: "string \<Rightarrow> bool" where
  "is_mkfs f \<longleftrightarrow> f = ''mkfs'' \<or> starts_with ''mkfs.'' f"

definition is_dangerous_program :: "string \<Rightarrow> bool" where
  "is_dangerous_program base =
     (let f = folded base in
      f \<in> {''sudo'', ''su'', ''dd'', ''shutdown'', ''reboot'', ''halt'', ''poweroff'', ''format'', ''reg''} \<or>
      is_mkfs f \<or>
      f \<in> {''remove-item'', ''del'', ''erase'', ''osascript'', ''diskpart'', ''schtasks'', ''launchctl''})"

definition is_recursive_flag :: "string \<Rightarrow> bool" where
  "is_recursive_flag arg \<longleftrightarrow>
     arg = ''--recursive'' \<or> arg = ''-R'' \<or> arg = ''-r'' \<or>
     (case arg of
        c # rest \<Rightarrow> c = CHR ''-'' \<and> rest \<noteq> [] \<and> hd rest \<noteq> CHR ''-'' \<and>
                    (CHR ''r'' \<in> set rest \<or> CHR ''R'' \<in> set rest)
      | [] \<Rightarrow> False)"

definition is_force_flag :: "string \<Rightarrow> bool" where
  "is_force_flag arg \<longleftrightarrow>
     arg = ''--force'' \<or> arg = ''-f'' \<or>
     (case arg of
        c # rest \<Rightarrow> c = CHR ''-'' \<and> \<not> starts_with ''-'' rest \<and> CHR ''f'' \<in> set rest
      | [] \<Rightarrow> False)"

definition rm_dangerous :: "string list \<Rightarrow> bool" where
  "rm_dangerous args \<longleftrightarrow>
     list_ex is_recursive_flag args \<or>
     list_ex (\<lambda>a. a \<in> {''/'', ''~'', ''$HOME'', ''*'', ''.'', ''..'', ''/etc'', ''/usr'', ''/var'', ''/home'', ''/boot''}) args"

definition git_push_force :: "string list \<Rightarrow> bool" where
  "git_push_force args \<longleftrightarrow> ''push'' \<in> set args \<and> (''--force'' \<in> set args \<or> ''-f'' \<in> set args)"

definition git_branch_delete :: "string list \<Rightarrow> bool" where
  "git_branch_delete args \<longleftrightarrow>
     ''branch'' \<in> set args \<and> (''-D'' \<in> set args \<or> ''-d'' \<in> set args \<or> ''--delete'' \<in> set args)"

definition is_dangerous_redirect_target :: "string \<Rightarrow> bool" where
  "is_dangerous_redirect_target t \<longleftrightarrow>
     t = ''/'' \<or> t = ''/etc'' \<or>
     list_ex (\<lambda>p. starts_with p t) [''/dev/'', ''/etc/'', ''/usr/'', ''/proc/'', ''/sys/'', ''/boot/'', ''/var/'']"

definition classify_single :: "string \<Rightarrow> string list \<Rightarrow> bool" where
  "classify_single program args =
     (let base = basename program; f = folded base in
      if is_dangerous_program base then True
      else if is_python_program base \<and> ''-c'' \<in> set args then True
      else if is_perl_program base \<and> ''-e'' \<in> set args then True
      else if f = ''rm'' then rm_dangerous args
      else if f = ''chmod'' \<or> f = ''chown'' then list_ex is_recursive_flag args
      else if f = ''git'' then git_push_force args \<or> git_branch_delete args
      else False)"

definition catastrophic_single :: "string \<Rightarrow> string list \<Rightarrow> bool" where
  "catastrophic_single program args =
     (let f = folded (basename program) in
      if is_mkfs f then True
      else if f = ''dd''
      then list_ex (\<lambda>a. trim_quotes a = ''of=/dev'' \<or> starts_with ''of=/dev/'' (trim_quotes a)) args
      else if f = ''rm''
      then list_ex is_recursive_flag args \<and> list_ex is_force_flag args \<and>
           list_ex (\<lambda>a. trim_quotes a = ''/'') args
      else False)"

subsection \<open>Shells and their script argument\<close>

definition is_cmd_program :: "string \<Rightarrow> bool" where
  "is_cmd_program program \<longleftrightarrow> folded (basename program) = ''cmd''"

definition is_powershell_program :: "string \<Rightarrow> bool" where
  "is_powershell_program program \<longleftrightarrow> folded (basename program) \<in> {''powershell'', ''pwsh''}"

definition is_shell_program :: "string \<Rightarrow> bool" where
  "is_shell_program program \<longleftrightarrow>
     folded (basename program) \<in> {''sh'', ''bash'', ''zsh'', ''dash'', ''ksh'', ''ash'', ''fish'', ''csh'', ''tcsh''} \<or>
     folded (basename program) \<in> {''cmd'', ''powershell'', ''pwsh''}"

definition is_shell_script_flag :: "string \<Rightarrow> string \<Rightarrow> bool" where
  "is_shell_script_flag program arg =
     (if is_cmd_program program then eq_ignore_case arg ''/c'' \<or> eq_ignore_case arg ''-c''
      else if is_powershell_program program
      then list_ex (eq_ignore_case arg) [''-command'', ''/command'', ''-c'', ''/c'']
      else arg = ''-c'')"

definition is_rcfile_option :: "string \<Rightarrow> bool" where
  "is_rcfile_option arg \<longleftrightarrow>
     arg \<in> {''--rcfile'', ''-rcfile'', ''--init-file'', ''-init-file''} \<or>
     list_ex (\<lambda>p. starts_with p arg) [''--rcfile='', ''--init-file='', ''-rcfile='', ''-init-file='']"

definition short_cluster_with_c :: "string \<Rightarrow> bool" where
  "short_cluster_with_c arg \<longleftrightarrow>
     \<not> is_rcfile_option arg \<and> length arg > 1 \<and> starts_with ''-'' arg \<and> \<not> starts_with ''--'' arg \<and>
     CHR ''c'' \<in> set arg"

fun join_words :: "string list \<Rightarrow> string" where
  "join_words [] = []"
| "join_words [x] = x"
| "join_words (x # y # ys) = x @ '' '' @ join_words (y # ys)"

definition posix_shell :: "string \<Rightarrow> bool" where
  "posix_shell program \<longleftrightarrow> \<not> is_cmd_program program \<and> \<not> is_powershell_program program"

text \<open>The loop of \<open>extract_shell_script\<close> over the arguments.\<close>

fun extract_loop :: "string \<Rightarrow> string list \<Rightarrow> string option" where
  "extract_loop program [] = None"
| "extract_loop program (arg # rest) =
     (if posix_shell program \<and> is_rcfile_option arg
      then extract_loop program (if CHR ''='' \<in> set arg then rest else drop 1 rest)
      else if is_shell_script_flag program arg
      then (if rest = [] then None else Some (join_words rest))
      else if posix_shell program \<and> short_cluster_with_c arg
      then List.find (\<lambda>a. \<not> starts_with ''-'' a) rest
      else extract_loop program rest)"

definition extract_shell_script :: "string \<Rightarrow> string list \<Rightarrow> string option" where
  "extract_shell_script program args =
     (if is_shell_program program then extract_loop program args else None)"

definition loads_rc_or_init_file :: "string \<Rightarrow> string list \<Rightarrow> bool" where
  "loads_rc_or_init_file program args \<longleftrightarrow>
     is_shell_program program \<and> posix_shell program \<and> list_ex is_rcfile_option args"

subsection \<open>Classification of scripts\<close>

fun remote_pipe_loop :: "bool \<Rightarrow> shell_cmd list \<Rightarrow> bool" where
  "remote_pipe_loop fetched [] = False"
| "remote_pipe_loop fetched (c # cs) =
     (case cmd_program c of
        None \<Rightarrow> remote_pipe_loop fetched cs
      | Some p \<Rightarrow>
          (if wd_text p = [] then remote_pipe_loop fetched cs
           else let base = basename (wd_text p) in
             if is_fetch_program base then remote_pipe_loop True cs
             else fetched \<and> is_remote_pipe_interpreter base \<or> remote_pipe_loop fetched cs))"

definition pipeline_remote_pipe :: "shell_cmd list \<Rightarrow> bool" where
  "pipeline_remote_pipe pl = remote_pipe_loop False pl"

text \<open>\<open>deeper\<close> classifies a script one level down.\<close>

definition command_dangerous :: "(string \<Rightarrow> bool) \<Rightarrow> shell_cmd \<Rightarrow> bool" where
  "command_dangerous deeper c \<longleftrightarrow>
     list_ex (\<lambda>t. wd_text t \<noteq> [] \<and> is_dangerous_redirect_target (wd_text t)) (cmd_redirects c) \<or>
     list_ex (\<lambda>w. list_ex deeper (wd_subs w)) (cmd_words c) \<or>
     (case cmd_program c of
        None \<Rightarrow> False
      | Some p \<Rightarrow>
          (let args = map wd_text (cmd_args c) in
           if wd_text p = [] then False
           else if wd_dynamic p then True
           else if loads_rc_or_init_file (wd_text p) args then True
           else case extract_shell_script (wd_text p) args of
             Some script \<Rightarrow> deeper script
           | None \<Rightarrow> classify_single (wd_text p) args))"

fun script_dangerous :: "nat \<Rightarrow> string \<Rightarrow> bool" where
  "script_dangerous 0 text = False"
| "script_dangerous (Suc n) text =
     (text \<noteq> [] \<and>
      list_ex (\<lambda>pl. pipeline_remote_pipe pl \<or> list_ex (command_dangerous (script_dangerous n)) pl)
        (parse_commands (tokenize text)))"

definition command_floor :: "(string \<Rightarrow> bool) \<Rightarrow> shell_cmd \<Rightarrow> bool" where
  "command_floor deeper c \<longleftrightarrow>
     list_ex (\<lambda>w. list_ex deeper (wd_subs w)) (cmd_words c) \<or>
     (case cmd_program c of
        None \<Rightarrow> False
      | Some p \<Rightarrow>
          (let args = map wd_text (cmd_args c) in
           if wd_text p = [] \<or> wd_dynamic p then False
           else case extract_shell_script (wd_text p) args of
             Some script \<Rightarrow> deeper script
           | None \<Rightarrow> catastrophic_single (wd_text p) args))"

fun script_floor :: "nat \<Rightarrow> string \<Rightarrow> bool" where
  "script_floor 0 text = False"
| "script_floor (Suc n) text =
     (text \<noteq> [] \<and> list_ex (list_ex (command_floor (script_floor n))) (parse_commands (tokenize text)))"

definition script_levels :: nat where
  "script_levels = 13"

datatype command_risk = CmdSafe | CmdDangerous

definition classify_snippet :: "string \<Rightarrow> command_risk" where
  "classify_snippet text = (if script_dangerous script_levels text then CmdDangerous else CmdSafe)"

text \<open>\<open>invocation_text\<close>: no space is put before the first non-empty part.\<close>

definition invocation_text :: "string \<Rightarrow> string list \<Rightarrow> string" where
  "invocation_text program args =
     fold (\<lambda>arg text. if text = [] then arg else text @ '' '' @ arg) args program"

definition classify_command :: "string \<Rightarrow> string list \<Rightarrow> command_risk" where
  "classify_command program args =
     (if loads_rc_or_init_file program args then CmdDangerous
      else case extract_shell_script program args of
        Some script \<Rightarrow> classify_snippet script
      | None \<Rightarrow> classify_snippet (invocation_text program args))"

definition hits_danger_floor :: "string \<Rightarrow> string list \<Rightarrow> bool" where
  "hits_danger_floor program args =
     (case extract_shell_script program args of
        Some script \<Rightarrow> script_floor script_levels script
      | None \<Rightarrow> script_floor script_levels (invocation_text program args))"

end
