(* ===== verification/PolicyGate.thy ===== *)
theory PolicyGate
  imports ShellRisk Json
begin

text \<open>
  The policy engine of \<open>crates/policy/src/engine.rs\<close>: capability, trust, approval mode and the risk
  of the command decide whether a tool call runs, is asked about or is refused. Tool inputs are
  JSON values as the code reads them.
\<close>

subsection \<open>Inputs and decisions\<close>

datatype tool_capability =
  CapReadOnly | CapWorkspaceWrite | CapGitWrite | CapProcess | CapNetwork | CapUserInteraction | CapExternalPlugin

datatype approval_mode = AlwaysAsk | AskForWrites | AskForDangerous | NeverAsk | ReadOnlyMode

record policy_input =
  pi_capability :: tool_capability
  pi_input :: json
  pi_trusted :: bool
  pi_allowed_untrusted :: bool
  pi_mode :: approval_mode

datatype risk_level = RiskSafe | RiskModerate | RiskDangerous

record execution_constraints =
  ec_timeout_ms :: "nat option"
  ec_max_output :: "nat option"

record approval_prompt =
  ap_message :: string
  ap_risk :: risk_level

datatype policy_decision =
    Allow
  | Deny string
  | AskUser approval_prompt
  | AllowWithConstraints execution_constraints

subsection \<open>Reading the command of a call\<close>

text \<open>\<open>iter().filter_map(as_str)\<close>.\<close>

definition strings_of :: "json list \<Rightarrow> string list" where
  "strings_of xs = List.map_filter as_str xs"

definition read_args :: "json \<Rightarrow> string list" where
  "read_args v =
     (case get_array ''argv'' v of
        Some (x # xs) \<Rightarrow> strings_of xs
      | _ \<Rightarrow> (case get_array ''args'' v of Some xs \<Rightarrow> strings_of xs | None \<Rightarrow> []))"

definition extract_plain :: "json \<Rightarrow> (string \<times> string list) option" where
  "extract_plain v =
     (case get_str ''program'' v of
        Some p \<Rightarrow> Some (p, read_args v)
      | None \<Rightarrow>
          (case get_str ''command'' v of
             Some c \<Rightarrow> Some (c, read_args v)
           | None \<Rightarrow> (case get_str ''cmd'' v of Some c \<Rightarrow> Some (c, read_args v) | None \<Rightarrow> None)))"

definition extract_command :: "json \<Rightarrow> (string \<times> string list) option" where
  "extract_command v =
     (case get_array ''argv'' v of
        Some (x # xs) \<Rightarrow>
          (case as_str x of Some p \<Rightarrow> Some (p, read_args v) | None \<Rightarrow> extract_plain v)
      | _ \<Rightarrow> extract_plain v)"

definition command_risk_of :: "json \<Rightarrow> command_risk" where
  "command_risk_of v =
     (case extract_command v of Some (p, args) \<Rightarrow> classify_command p args | None \<Rightarrow> CmdSafe)"

definition command_hits_danger_floor :: "json \<Rightarrow> bool" where
  "command_hits_danger_floor v =
     (case extract_command v of Some (p, args) \<Rightarrow> hits_danger_floor p args | None \<Rightarrow> False)"

subsection \<open>The decision\<close>

definition is_side_effecting :: "tool_capability \<Rightarrow> bool" where
  "is_side_effecting cap \<longleftrightarrow> cap \<noteq> CapReadOnly \<and> cap \<noteq> CapUserInteraction"

definition allow_or_constrained :: "tool_capability \<Rightarrow> policy_decision" where
  "allow_or_constrained cap =
     (if cap = CapProcess
      then AllowWithConstraints \<lparr>ec_timeout_ms = Some 60000, ec_max_output = Some 1048576\<rparr>
      else Allow)"

fun effective_risk :: "tool_capability \<Rightarrow> json \<Rightarrow> risk_level" where
  "effective_risk CapReadOnly v = RiskSafe"
| "effective_risk CapUserInteraction v = RiskSafe"
| "effective_risk CapProcess v = (case command_risk_of v of CmdDangerous \<Rightarrow> RiskDangerous | CmdSafe \<Rightarrow> RiskModerate)"
| "effective_risk _ v = RiskModerate"

fun ask_message :: "tool_capability \<Rightarrow> json \<Rightarrow> string" where
  "ask_message CapProcess v =
     (case (case extract_command v of Some x \<Rightarrow> x | None \<Rightarrow> ([], [])) of
        (p, args) \<Rightarrow> ''Approve command: '' @ p @ '' '' @ join_words args)"
| "ask_message CapWorkspaceWrite v = ''Approve workspace file write''"
| "ask_message CapGitWrite v = ''Approve git write''"
| "ask_message CapNetwork v = ''Approve network access''"
| "ask_message CapExternalPlugin v = ''Approve external plugin execution''"
| "ask_message CapUserInteraction v = ''Approve user interaction''"
| "ask_message CapReadOnly v = ''Approve read''"

definition ask :: "policy_input \<Rightarrow> risk_level \<Rightarrow> policy_decision" where
  "ask i r = AskUser \<lparr>ap_message = ask_message (pi_capability i) (pi_input i), ap_risk = r\<rparr>"

definition decide :: "policy_input \<Rightarrow> policy_decision" where
  "decide i =
     (let cap = pi_capability i; mode = pi_mode i in
      if \<not> pi_trusted i \<and> \<not> pi_allowed_untrusted i
      then Deny ''tool is not allowed in an untrusted workspace''
      else if cap = CapProcess \<and> command_hits_danger_floor (pi_input i)
      then (case mode of
              NeverAsk \<Rightarrow> Deny ''catastrophic command cannot run without explicit pre-approval''
            | ReadOnlyMode \<Rightarrow> Deny ''catastrophic command cannot run without explicit pre-approval''
            | _ \<Rightarrow> ask i RiskDangerous)
      else if cap = CapReadOnly then Allow
      else case mode of
        ReadOnlyMode \<Rightarrow> Deny ''read_only approval mode forbids non-read-only capabilities''
      | NeverAsk \<Rightarrow> allow_or_constrained cap
      | AlwaysAsk \<Rightarrow> ask i (effective_risk cap (pi_input i))
      | AskForWrites \<Rightarrow>
          (if is_side_effecting cap then ask i (effective_risk cap (pi_input i)) else Allow)
      | AskForDangerous \<Rightarrow>
          (if effective_risk cap (pi_input i) = RiskDangerous then ask i RiskDangerous
           else allow_or_constrained cap))"

end
