(* ===== verification/ShellProps.thy ===== *)
theory ShellProps
  imports PolicyGate
begin

text \<open>
  Properties of the command policy: quoting is read back exactly and hides nothing from the
  classification, catastrophic commands are dangerous and never run silently, the decisions follow
  the strictness of the approval modes, and two ways past the classification.
\<close>

subsection \<open>Quoting\<close>

definition quote_char :: "char \<Rightarrow> string" where
  "quote_char c = (if c = squote then [squote, backslash, squote, squote] else [c])"

text \<open>A word in single quotes, as a careful caller writes it: \<open>'\<close> becomes \<open>'\''\<close>.\<close>

definition quote_word :: "string \<Rightarrow> string" where
  "quote_word w = squote # concat (map quote_char w) @ [squote]"

definition static_word :: "string \<Rightarrow> word_tok" where
  "static_word w = \<lparr>wd_text = w, wd_dynamic = False, wd_subs = []\<rparr>"

definition push_all :: "string \<Rightarrow> word_tok \<Rightarrow> word_tok" where
  "push_all v w = w\<lparr>wd_text := wd_text w @ v\<rparr>"

lemma push_all_simps [simp]: "push_all [] w = w" "push_all (c # v) w = push_all v (push c w)"
  by (simp_all add: push_all_def push_def)

lemma push_all_default: "push_all v word_default = static_word v"
  by (simp add: push_all_def word_default_def static_word_def)

lemma not_ends_word [simp]: "\<not> ends_word squote" "\<not> ends_word backslash"
  by (simp_all add: ends_word_def inline_ws_def)

lemma scan_squote: "scan_word fd (squote # cs) w = (case take_single_quoted cs w of (w', r) \<Rightarrow> scan_word fd r w')"
  by simp

lemma scan_escaped: "scan_word fd (backslash # c # cs) w = scan_word fd cs (push c w)"
  by simp

lemma scan_quoted_body:
  "(case take_single_quoted (concat (map quote_char v) @ squote # r) w of (w', r') \<Rightarrow> scan_word fd r' w') =
     scan_word fd r (push_all v w)"
proof (induction v arbitrary: w)
  case (Cons c v)
  show ?case
  proof (cases "c = squote")
    case True
    then have "(case take_single_quoted (concat (map quote_char (c # v)) @ squote # r) w of (w', r') \<Rightarrow> scan_word fd r' w') =
        scan_word fd (backslash # squote # squote # concat (map quote_char v) @ squote # r) w"
      by (simp add: quote_char_def del: scan_word.simps)
    also have "\<dots> = (case take_single_quoted (concat (map quote_char v) @ squote # r) (push squote w) of
        (w', r') \<Rightarrow> scan_word fd r' w')"
      by (simp only: scan_escaped scan_squote)
    finally show ?thesis
      using Cons.IH True by simp
  next
    case False
    then show ?thesis
      using Cons.IH by (simp add: quote_char_def del: scan_word.simps)
  qed
qed (simp del: scan_word.simps)

lemma scan_quoted: "scan_word fd (quote_word v @ r) w = scan_word fd r (push_all v w)"
  using scan_quoted_body [where v = v and r = r and w = w and fd = fd]
  by (simp add: quote_word_def scan_squote del: scan_word.simps)

lemma lex_quoted_word:
  assumes "r = [] \<or> hd r = CHR '' ''"
  shows "lex_run (quote_word v @ r) = TWord (static_word v) # lex_run r"
proof -
  have "scan_word True (quote_word v @ r) word_default = (False, static_word v, r)"
  proof -
    have "scan_word True r (static_word v) = (False, static_word v, r)"
      using assms by (cases r) (simp_all add: ends_word_def inline_ws_def)
    then show ?thesis
      by (simp only: scan_quoted push_all_default)
  qed
  then show ?thesis
    by (simp add: quote_word_def inline_ws_def del: scan_word.simps)
qed

lemma tokenizer_quoted:
  "tokenize (join_words (map quote_word ws)) = map (\<lambda>w. TWord (static_word w)) ws"
proof -
  have sp: "lex_run (CHR '' '' # cs) = lex_run cs" for cs
    by (simp add: inline_ws_def)
  have "lex_run (join_words (map quote_word ws)) = map (\<lambda>w. TWord (static_word w)) ws"
  proof (induction ws rule: join_words.induct)
    case (2 x)
    then show ?case
      using lex_quoted_word [of "[]" x] by simp
  next
    case (3 x y ys)
    then show ?case
      using lex_quoted_word [of "CHR '' '' # join_words (map quote_word (y # ys))" x] sp by simp
  qed simp
  then show ?thesis
    by (simp add: tokenize_def)
qed

text \<open>
  C38: The tokenizer inverts single quoting: whatever bytes the words of a command hold, writing
  each of them in single quotes and joining them by spaces is read back as exactly these words,
  none of them dynamic and none with a substitution.
\<close>

theorem tokenizer_inverts_quoting:
  "tokenize (join_words (map quote_word ws)) = map (\<lambda>w. TWord (static_word w)) ws"
  by (rule tokenizer_quoted)

lemma parse_words:
  "parse_commands (map TWord (w # ws)) = [[\<lparr>cmd_program = Some w, cmd_args = ws, cmd_redirects = []\<rparr>]]"
proof -
  have "fold parse_tok (map TWord ws) (pls, pl, Some \<lparr>cmd_program = Some w, cmd_args = as, cmd_redirects = []\<rparr>) =
      (pls, pl, Some \<lparr>cmd_program = Some w, cmd_args = as @ ws, cmd_redirects = []\<rparr>)" for pls pl as
    by (induction ws arbitrary: as) (simp_all add: the_cmd_def add_word_def)
  then show ?thesis
    by (simp add: parse_commands_def the_cmd_def add_word_def cmd_default_def end_pipeline_def end_command_def)
qed

lemma quoted_not_Nil: "join_words (map quote_word (p # args)) \<noteq> []"
  by (cases args) (simp_all add: quote_word_def)

text \<open>
  Quoting hides nothing. A script that is one command with every word in single quotes is
  classified, at every depth, exactly as the program and arguments it stands for.
\<close>

theorem quoting_hides_nothing:
  "script_dangerous (Suc n) (join_words (map quote_word (p # args))) \<longleftrightarrow>
     (if p = [] then False
      else if loads_rc_or_init_file p args then True
      else case extract_shell_script p args of
        Some script \<Rightarrow> script_dangerous n script
      | None \<Rightarrow> classify_single p args)"
proof -
  let ?c = "\<lparr>cmd_program = Some (static_word p), cmd_args = map static_word args, cmd_redirects = []\<rparr>"
  have "parse_commands (tokenize (join_words (map quote_word (p # args)))) = [[?c]]"
    unfolding tokenizer_quoted using parse_words [of "static_word p" "map static_word args"] by (simp add: comp_def)
  moreover have "\<not> pipeline_remote_pipe [?c]"
    by (simp add: pipeline_remote_pipe_def Let_def)
  moreover have "map (\<lambda>w. wd_text (static_word w)) args = args"
    by (simp add: static_word_def)
  ultimately show ?thesis
    using quoted_not_Nil [of p args]
    by (auto simp: command_dangerous_def cmd_words_def static_word_def comp_def list_ex_iff Let_def
        simp del: join_words.simps list.map split: option.splits)
qed

subsection \<open>The floor\<close>

lemma catastrophic_dangerous: "catastrophic_single p args \<Longrightarrow> classify_single p args"
  by (auto simp: catastrophic_single_def classify_single_def is_dangerous_program_def rm_dangerous_def
      Let_def split: if_splits)

lemma command_floor_dangerous:
  assumes "command_floor f c" and "\<And>x. f x \<Longrightarrow> g x"
  shows "command_dangerous g c"
proof -
  have "list_ex (\<lambda>w. list_ex g (wd_subs w)) (cmd_words c)" if "list_ex (\<lambda>w. list_ex f (wd_subs w)) (cmd_words c)"
    using that assms(2) by (auto simp: list_ex_iff)
  then show ?thesis
    using assms catastrophic_dangerous
    by (auto simp: command_floor_def command_dangerous_def Let_def split: option.splits if_splits)
qed

lemma script_floor_dangerous: "script_floor n t \<Longrightarrow> script_dangerous n t"
proof (induction n arbitrary: t)
  case (Suc n)
  then show ?case
    using command_floor_dangerous [of "script_floor n" _ "script_dangerous n"]
    by (auto simp: list_ex_iff)
qed simp

text \<open>
  C36: Every command on the catastrophic floor is also classified dangerous, through any nesting of
  shells and substitutions; so no approval mode that asks about dangerous commands lets one pass.
\<close>

theorem floor_commands_are_dangerous:
  assumes "hits_danger_floor p args"
  shows "classify_command p args = CmdDangerous"
  using assms script_floor_dangerous
  by (auto simp: hits_danger_floor_def classify_command_def classify_snippet_def split: option.splits)

lemma floor_commands_are_dangerous_witness:
  "classify_command ''bash'' [''-lc'', ''echo $(rm -rf /)''] = CmdDangerous"
proof -
  have "hits_danger_floor ''bash'' [''-lc'', ''echo $(rm -rf /)'']"
    by code_simp
  then show ?thesis
    by (rule floor_commands_are_dangerous)
qed

subsection \<open>Decisions\<close>

fun runs_unasked :: "policy_decision \<Rightarrow> bool" where
  "runs_unasked Allow = True"
| "runs_unasked (AllowWithConstraints _) = True"
| "runs_unasked _ = False"

lemma decision_simps [simp]:
  "runs_unasked (allow_or_constrained cap)" "\<not> runs_unasked (ask i r)"
  by (simp_all add: allow_or_constrained_def ask_def)

text \<open>
  C37: Exactly when a tool call runs without asking anyone: the workspace is trusted or the tool is
  cleared for untrusted ones, the command is not on the catastrophic floor, and it is a read, or
  the mode never asks, or the mode asks about writes only and the call talks to the user, or the
  mode asks about danger only and the call is not dangerous. In particular a command on the floor
  is always refused or put to the user as dangerous.
\<close>

theorem runs_without_asking_iff:
  "(runs_unasked (decide i) \<longleftrightarrow>
      (pi_trusted i \<or> pi_allowed_untrusted i) \<and>
      \<not> (pi_capability i = CapProcess \<and> command_hits_danger_floor (pi_input i)) \<and>
      (pi_capability i = CapReadOnly \<or> pi_mode i = NeverAsk \<or>
       pi_mode i = AskForWrites \<and> pi_capability i = CapUserInteraction \<or>
       pi_mode i = AskForDangerous \<and> effective_risk (pi_capability i) (pi_input i) \<noteq> RiskDangerous)) \<and>
   (case decide i of
      AskUser p \<Rightarrow> pi_capability i = CapProcess \<and> command_hits_danger_floor (pi_input i) \<longrightarrow> ap_risk p = RiskDangerous
    | AllowWithConstraints k \<Rightarrow> pi_capability i = CapProcess \<and> ec_timeout_ms k \<noteq> None \<and> ec_max_output k \<noteq> None
    | _ \<Rightarrow> True)"
proof -
  have "(case decide i of
      AskUser p \<Rightarrow> pi_capability i = CapProcess \<and> command_hits_danger_floor (pi_input i) \<longrightarrow> ap_risk p = RiskDangerous
    | AllowWithConstraints k \<Rightarrow> pi_capability i = CapProcess \<and> ec_timeout_ms k \<noteq> None \<and> ec_max_output k \<noteq> None
    | _ \<Rightarrow> True)"
    by (cases "pi_mode i") (auto simp: decide_def Let_def ask_def allow_or_constrained_def)
  moreover have "runs_unasked (decide i) \<longleftrightarrow>
      (pi_trusted i \<or> pi_allowed_untrusted i) \<and>
      \<not> (pi_capability i = CapProcess \<and> command_hits_danger_floor (pi_input i)) \<and>
      (pi_capability i = CapReadOnly \<or> pi_mode i = NeverAsk \<or>
       pi_mode i = AskForWrites \<and> pi_capability i = CapUserInteraction \<or>
       pi_mode i = AskForDangerous \<and> effective_risk (pi_capability i) (pi_input i) \<noteq> RiskDangerous)"
    by (cases "pi_mode i"; cases "pi_capability i") (simp_all add: decide_def Let_def is_side_effecting_def)
  ultimately show ?thesis
    by blast
qed

definition sample_call :: "tool_capability \<Rightarrow> approval_mode \<Rightarrow> json \<Rightarrow> policy_input" where
  "sample_call cap mode v = \<lparr>pi_capability = cap, pi_input = v, pi_trusted = True, pi_allowed_untrusted = True, pi_mode = mode\<rparr>"

definition argv :: "string list \<Rightarrow> json" where
  "argv ws = JObject [(''argv'', JArray (map JString ws))]"

lemma runs_without_asking_iff_witness:
  "\<not> runs_unasked (decide (sample_call CapProcess NeverAsk (argv [''rm'', ''-rf'', ''/''])))"
proof -
  have "command_hits_danger_floor (argv [''rm'', ''-rf'', ''/''])"
    by code_simp
  then show ?thesis
    using runs_without_asking_iff [of "sample_call CapProcess NeverAsk (argv [''rm'', ''-rf'', ''/''])"]
    by (simp add: sample_call_def)
qed

fun decision_rank :: "policy_decision \<Rightarrow> nat" where
  "decision_rank Allow = 0"
| "decision_rank (AllowWithConstraints _) = 0"
| "decision_rank (AskUser _) = 1"
| "decision_rank (Deny _) = 2"

fun mode_rank :: "approval_mode \<Rightarrow> nat" where
  "mode_rank NeverAsk = 0"
| "mode_rank AskForDangerous = 1"
| "mode_rank AskForWrites = 2"
| "mode_rank AlwaysAsk = 3"
| "mode_rank ReadOnlyMode = 4"

lemma rank_simps [simp]: "decision_rank (allow_or_constrained cap) = 0" "decision_rank (ask i r) = 1"
  by (simp_all add: allow_or_constrained_def ask_def)

text \<open>
  The documented order of the approval modes is the order of their strictness: raising the mode
  never turns a question into a permission, nor a refusal into either; the only exception is a
  command on the catastrophic floor under the mode that never asks, which is refused outright.
\<close>

theorem stricter_modes_decide_stricter:
  assumes "mode_rank (pi_mode i) \<le> mode_rank m"
    and "\<not> (pi_mode i = NeverAsk \<and> pi_capability i = CapProcess \<and> command_hits_danger_floor (pi_input i))"
  shows "decision_rank (decide i) \<le> decision_rank (decide (i\<lparr>pi_mode := m\<rparr>))"
  using assms by (cases "pi_mode i"; cases m) (auto simp: decide_def Let_def is_side_effecting_def)

lemma stricter_modes_decide_stricter_witness:
  "decision_rank (decide (sample_call CapProcess AskForDangerous (argv [''ls'']))) \<le> 1"
proof -
  have "decision_rank (decide (sample_call CapProcess AskForDangerous (argv [''ls'']))) \<le>
      decision_rank (decide ((sample_call CapProcess AskForDangerous (argv [''ls'']))\<lparr>pi_mode := AskForWrites\<rparr>))"
    by (rule stricter_modes_decide_stricter) (simp_all add: sample_call_def)
  moreover have "decision_rank (decide ((sample_call CapProcess AskForDangerous (argv [''ls'']))\<lparr>pi_mode := AskForWrites\<rparr>)) = 1"
    by code_simp
  ultimately show ?thesis
    by simp
qed

subsection \<open>Past the classification\<close>

lemma invocation_text_Cons:
  "t \<noteq> [] \<Longrightarrow> invocation_text t args = t @ concat (map (\<lambda>a. CHR '' '' # a) args)"
  by (induction args arbitrary: t) (simp_all add: invocation_text_def)

lemma rm_comment_tokens:
  assumes "newline \<notin> set rest"
  shows "tokenize (''rm #'' @ rest) = [TWord (static_word ''rm'')]"
proof -
  have w: "scan_word True (''rm #'' @ rest) word_default = (False, static_word ''rm'', '' #'' @ rest)"
    by (simp add: ends_word_def inline_ws_def push_def word_default_def static_word_def)
  have c: "lex_run ('' #'' @ rest) = []"
  proof -
    have none: "dropWhile (\<lambda>x. x \<noteq> newline) rest = []"
      using assms by (simp add: dropWhile_eq_Nil_conv) metis
    have "lex_run ('' #'' @ rest) = lex_run (dropWhile (\<lambda>x. x \<noteq> newline) rest)"
      by (simp add: inline_ws_def)
    then show ?thesis
      by (simp only: none lex_run.simps)
  qed
  show ?thesis
    using w c by (simp add: tokenize_def inline_ws_def del: scan_word.simps)
qed

text \<open>
  An argument \<open>#\<close> hides the rest. The arguments of a call run without a shell are joined by
  spaces and read as a script, so a literal \<open>#\<close> argument starts a comment: whatever follows it,
  \<open>rm\<close> is classified safe and is not on the floor, although all arguments reach \<open>rm\<close>.
\<close>

theorem hash_argument_hides_the_rest:
  assumes "list_all (\<lambda>a. newline \<notin> set a) args"
  shows "classify_command ''rm'' (''#'' # args) = CmdSafe \<and> \<not> hits_danger_floor ''rm'' (''#'' # args)"
proof -
  have joined: "invocation_text ''rm'' (''#'' # args) = ''rm #'' @ concat (map (\<lambda>a. CHR '' '' # a) args)"
    by (simp add: invocation_text_Cons)
  have nonl: "newline \<notin> set (concat (map (\<lambda>a. CHR '' '' # a) args))"
    using assms by (auto simp: list_all_iff)
  note toks = rm_comment_tokens [OF nonl]
  have shell: "\<not> is_shell_program ''rm''"
    by code_simp
  then have x: "extract_shell_script ''rm'' a = None" "\<not> loads_rc_or_init_file ''rm'' a" for a
    by (simp_all add: extract_shell_script_def loads_rc_or_init_file_def)
  have single: "\<not> classify_single ''rm'' []" "\<not> catastrophic_single ''rm'' []"
    by code_simp+
  have cmds: "parse_commands [TWord (static_word ''rm'')] =
      [[\<lparr>cmd_program = Some (static_word ''rm''), cmd_args = [], cmd_redirects = []\<rparr>]]"
    using parse_words [of "static_word ''rm''" "[]"] by simp
  let ?t = "''rm #'' @ concat (map (\<lambda>a. CHR '' '' # a) args)"
  have "\<not> script_dangerous (Suc n) ?t" "\<not> script_floor (Suc n) ?t" for n
    unfolding script_dangerous.simps script_floor.simps toks cmds
    using x single by (auto simp: pipeline_remote_pipe_def Let_def command_dangerous_def command_floor_def
        cmd_words_def static_word_def)
  from this [of 12] show ?thesis
    by (simp add: classify_command_def hits_danger_floor_def x joined classify_snippet_def script_levels_def
        del: script_dangerous.simps script_floor.simps)
qed

lemma hash_argument_hides_the_rest_witness:
  "classify_command ''rm'' [''#'', ''-rf'', ''/''] = CmdSafe \<and> \<not> hits_danger_floor ''rm'' [''#'', ''-rf'', ''/'']"
  by (rule hash_argument_hides_the_rest) simp

text \<open>
  Shell syntax in front of a command hides it. In a subshell, after \<open>!\<close>, after an assignment,
  in a compound command and with an input redirection glued to its name, a recursive removal of
  the root is classified safe and is not on the floor.
\<close>

theorem shell_syntax_hides_commands:
  "list_all (\<lambda>s. classify_command ''sh'' [''-c'', s] = CmdSafe \<and> \<not> hits_danger_floor ''sh'' [''-c'', s])
     [''(rm -rf /)'', ''! rm -rf /'', ''X=1 rm -rf /'', ''if true; then rm -rf /; fi'', ''rm</dev/null -rf /'']"
  by code_simp

end
