(* ===== verification/CredentialPool.thy ===== *)
theory CredentialPool
  imports Lease "HOL-Library.Product_Lexorder"
begin

text \<open>
  The in-memory credential pool of \<open>crates/control-plane/src/credential/mod.rs\<close>. Its mutex is
  never held across an await, so each operation is cut where it awaits the projection: a section
  under the lock that plans (\<open>Acquire\<close>, \<open>Release\<close>, \<open>PlanExpire\<close>, \<open>PlanReclaim\<close>), the projection's
  answer (\<open>Persist\<close>), and a section under the lock that commits or rolls back (\<open>Settle\<close>). What is
  between two sections waits in \<open>po_pending\<close>, and the sections of different operations
  interleave freely. The maps of the code are hash maps: the lease a scan picks is an argument of
  its command. A restart loses the memory and the pending operations and restores from the
  projection. Counters are natural numbers.
\<close>

subsection \<open>Configuration and state\<close>

record pool_config =
  pc_per_account :: u64
  pc_per_tenant :: "u64 option"
  pc_ttl_ms :: u64
  pc_overrides :: "(string \<times> string, u64) btree"

definition pool_config_new :: "u64 \<Rightarrow> pool_config" where
  "pool_config_new m = \<lparr>pc_per_account = m, pc_per_tenant = None, pc_ttl_ms = 3600000, pc_overrides = []\<rparr>"

definition max_for :: "pool_config \<Rightarrow> string \<Rightarrow> string \<Rightarrow> u64" where
  "max_for cfg t a = (case bt_get (pc_overrides cfg) (t, a) of Some m \<Rightarrow> m | None \<Rightarrow> pc_per_account cfg)"

record account_state =
  as_active :: nat
  as_failures :: nat
  as_cancelled :: nat

definition account_default :: account_state where
  "account_default = \<lparr>as_active = 0, as_failures = 0, as_cancelled = 0\<rparr>"

datatype pool_error =
    ConcurrencyExhausted string nat u64
  | TenantConcurrencyExhausted string nat u64
  | ProjectionFailed

text \<open>An operation that waits for the projection or for its answer to be settled.\<close>

datatype op_kind = OpAcquire | OpRelease lease_outcome | OpExpire | OpReclaim

datatype op_stage = Waiting | Persisted | Refused

record pending_op =
  pd_kind :: op_kind
  pd_next :: lease_record
  pd_events :: "lease_event list"
  pd_version :: u64
  pd_stage :: op_stage

record pool =
  po_accounts :: "(string \<times> string, account_state) btree"
  po_tenants :: "(string, nat) btree"
  po_leases :: "(string, lease_record) btree"
  po_inflight :: "(string, lease_record) btree"
  po_prefix :: string
  po_counter :: u64
  po_pending :: "pending_op list"
  po_durable :: projection
  po_up :: bool
  po_used :: "string list"

definition pool_new :: "string \<Rightarrow> pool" where
  "pool_new prefix =
     \<lparr>po_accounts = [], po_tenants = [], po_leases = [], po_inflight = [], po_prefix = prefix, po_counter = 0,
      po_pending = [], po_durable = projection_new, po_up = True, po_used = []\<rparr>"

definition mk_lease_id :: "string \<Rightarrow> u64 \<Rightarrow> string" where
  "mk_lease_id prefix n = ''lease-'' @ prefix @ ''-'' @ dec (unat n)"

subsection \<open>Slots\<close>

definition account_at :: "pool \<Rightarrow> string \<Rightarrow> string \<Rightarrow> account_state" where
  "account_at p t a = (case bt_get (po_accounts p) (t, a) of Some s \<Rightarrow> s | None \<Rightarrow> account_default)"

definition tenant_active :: "pool \<Rightarrow> string \<Rightarrow> nat" where
  "tenant_active p t = (case bt_get (po_tenants p) t of Some n \<Rightarrow> n | None \<Rightarrow> 0)"

definition active_count_for :: "pool \<Rightarrow> string \<Rightarrow> string \<Rightarrow> nat" where
  "active_count_for p t a = as_active (account_at p t a)"

text \<open>The views by account name alone, over all tenants.\<close>

record account_health =
  ah_active :: nat
  ah_failures :: nat
  ah_cancelled :: nat

definition states_named :: "pool \<Rightarrow> string \<Rightarrow> account_state list" where
  "states_named p a = map snd (filter (\<lambda>((t, a'), s). a' = a) (po_accounts p))"

definition active_count :: "pool \<Rightarrow> string \<Rightarrow> nat" where
  "active_count p a = sum_list (map as_active (states_named p a))"

definition account_health :: "pool \<Rightarrow> string \<Rightarrow> account_health" where
  "account_health p a =
     (let ss = states_named p a
      in \<lparr>ah_active = sum_list (map as_active ss), ah_failures = sum_list (map as_failures ss),
          ah_cancelled = sum_list (map as_cancelled ss)\<rparr>)"

definition lease_state_of :: "pool \<Rightarrow> string \<Rightarrow> lease_state option" where
  "lease_state_of p i = map_option lr_state (bt_get (po_leases p) i)"

text \<open>\<open>entry(...).or_insert(0) += 1\<close> on both counters.\<close>

definition take_slot :: "lease_record \<Rightarrow> pool \<Rightarrow> pool" where
  "take_slot r p =
     (let t = lr_tenant r; a = lr_account r; s = account_at p t a
      in p\<lparr>po_tenants := bt_put t (tenant_active p t + 1) (po_tenants p),
           po_accounts := bt_put (t, a) (s\<lparr>as_active := as_active s + 1\<rparr>) (po_accounts p)\<rparr>)"

definition count_outcome :: "op_kind \<Rightarrow> account_state \<Rightarrow> account_state" where
  "count_outcome k s =
     (case k of
        OpRelease LeaseCancelled \<Rightarrow> s\<lparr>as_cancelled := as_cancelled s + 1\<rparr>
      | OpRelease LeaseFailed \<Rightarrow> s\<lparr>as_failures := as_failures s + 1\<rparr>
      | _ \<Rightarrow> s)"

text \<open>The counters that exist go down, not below zero.\<close>

definition free_slot :: "op_kind \<Rightarrow> lease_record \<Rightarrow> pool \<Rightarrow> pool" where
  "free_slot k r p =
     (let t = lr_tenant r; a = lr_account r
      in p\<lparr>po_accounts := (case bt_get (po_accounts p) (t, a) of
                             Some s \<Rightarrow> bt_put (t, a) (count_outcome k (s\<lparr>as_active := as_active s - 1\<rparr>)) (po_accounts p)
                           | None \<Rightarrow> po_accounts p),
           po_tenants := (case bt_get (po_tenants p) t of
                            Some n \<Rightarrow> bt_put t (n - 1) (po_tenants p)
                          | None \<Rightarrow> po_tenants p)\<rparr>)"

subsection \<open>Planning, under the lock\<close>

definition enlist :: "pending_op \<Rightarrow> pool \<Rightarrow> pool" where
  "enlist op p = p\<lparr>po_pending := po_pending p @ [op]\<rparr>"

definition acquire_begin ::
  "pool_config \<Rightarrow> acquire_request \<Rightarrow> u64 \<Rightarrow> pool \<Rightarrow> pool \<times> (pool_error, string) result" where
  "acquire_begin cfg req now p =
     (let t = aq_tenant req; a = account_of req; active = active_count_for p t a; limit = max_for cfg t a in
      case (case pc_per_tenant cfg of
              Some m \<Rightarrow> (if tenant_active p t \<ge> unat m
                         then Some (TenantConcurrencyExhausted t (tenant_active p t) m) else None)
            | None \<Rightarrow> None) of
        Some e \<Rightarrow> (p, Inl e)
      | None \<Rightarrow>
          (if active \<ge> unat limit then (p, Inl (ConcurrencyExhausted a active limit))
           else let i = mk_lease_id (po_prefix p) (po_counter p);
                    (r, e1, e2) = lease_open req i ''default'' now (pc_ttl_ms cfg);
                    p1 = take_slot r (p\<lparr>po_counter := po_counter p + 1\<rparr>)
             in (enlist \<lparr>pd_kind = OpAcquire, pd_next = r, pd_events = [e1, e2], pd_version = lr_version r,
                         pd_stage = Waiting\<rparr>
                   (p1\<lparr>po_leases := bt_put i r (po_leases p1)\<rparr>), Inr i)))"

text \<open>The inflight mark and the pending operation of a planned transition.\<close>

definition plan_op :: "op_kind \<Rightarrow> lease_record \<Rightarrow> lease_record \<times> lease_event \<Rightarrow> pool \<Rightarrow> pool" where
  "plan_op k r ne p =
     enlist \<lparr>pd_kind = k, pd_next = fst ne, pd_events = [snd ne], pd_version = lr_version r, pd_stage = Waiting\<rparr>
       (p\<lparr>po_inflight := bt_put (lr_id r) (fst ne) (po_inflight p)\<rparr>)"

text \<open>\<open>True\<close> is the receipt \<open>already_released\<close>.\<close>

definition release_begin :: "string \<Rightarrow> lease_outcome \<Rightarrow> u64 \<Rightarrow> pool \<Rightarrow> pool \<times> bool" where
  "release_begin i out now p =
     (case bt_get (po_leases p) i of
        None \<Rightarrow> (p, True)
      | Some r \<Rightarrow>
          (if is_settled (lr_state r) \<or> bt_has (po_inflight p) i then (p, True)
           else case lease_release out now r of
             Inl _ \<Rightarrow> (p, True)
           | Inr ne \<Rightarrow> (plan_op (OpRelease out) r ne p, False)))"

text \<open>\<open>None\<close>: the lease is no candidate of the scan.\<close>

definition plan_expire :: "string \<Rightarrow> u64 \<Rightarrow> pool \<Rightarrow> pool option" where
  "plan_expire i now p =
     (case bt_get (po_leases p) i of
        None \<Rightarrow> None
      | Some r \<Rightarrow>
          (if is_past_ttl now r \<and> \<not> bt_has (po_inflight p) i
           then case lease_expire now r of Inl _ \<Rightarrow> None | Inr ne \<Rightarrow> Some (plan_op OpExpire r ne p)
           else None))"

definition plan_reclaim :: "string \<Rightarrow> u64 \<Rightarrow> pool \<Rightarrow> pool option" where
  "plan_reclaim i now p =
     (case bt_get (po_leases p) i of
        None \<Rightarrow> None
      | Some r \<Rightarrow>
          (if is_settled (lr_state r) \<and> \<not> bt_has (po_inflight p) i
           then case lease_reclaim now r of Inl _ \<Rightarrow> None | Inr ne \<Rightarrow> Some (plan_op OpReclaim r ne p)
           else None))"

subsection \<open>Persisting and settling\<close>

definition persist_op :: "bool \<Rightarrow> pending_op \<Rightarrow> pool \<Rightarrow> pool" where
  "persist_op ok op p =
     (if ok then p\<lparr>po_durable := projection_apply (pd_next op) (pd_events op) (po_durable p)\<rparr> else p)"

text \<open>\<open>rollback_acquire\<close>: the lease goes, whatever its state has become.\<close>

definition rollback_acquire :: "lease_record \<Rightarrow> pool \<Rightarrow> pool" where
  "rollback_acquire r p = free_slot OpAcquire r (p\<lparr>po_leases := bt_del (lr_id r) (po_leases p)\<rparr>)"

definition still_ours :: "pending_op \<Rightarrow> pool \<Rightarrow> bool" where
  "still_ours op p =
     (case bt_get (po_leases p) (lr_id (pd_next op)) of Some r \<Rightarrow> lr_version r = pd_version op | None \<Rightarrow> False)"

definition clear_inflight :: "string \<Rightarrow> pool \<Rightarrow> pool" where
  "clear_inflight i p = p\<lparr>po_inflight := bt_del i (po_inflight p)\<rparr>"

definition commit_op :: "pending_op \<Rightarrow> pool \<Rightarrow> pool" where
  "commit_op op p0 =
     (let r = pd_next op; p = clear_inflight (lr_id r) p0 in
      if \<not> still_ours op p then p
      else if pd_kind op = OpReclaim then p\<lparr>po_leases := bt_del (lr_id r) (po_leases p)\<rparr>
      else free_slot (pd_kind op) r (p\<lparr>po_leases := bt_put (lr_id r) r (po_leases p)\<rparr>))"

definition settle_op :: "pending_op \<Rightarrow> pool \<Rightarrow> pool" where
  "settle_op op p =
     (if pd_kind op = OpAcquire
      then (if pd_stage op = Refused then rollback_acquire (pd_next op) p else p)
      else if pd_stage op = Refused then clear_inflight (lr_id (pd_next op)) p
      else commit_op op p)"

subsection \<open>Restart\<close>

text \<open>One record of \<open>plan_restore\<close>: the terminal transitions to persist, or a live lease.\<close>

fun plan_restore_one ::
  "u64 \<Rightarrow> lease_record \<Rightarrow> (lease_record \<times> lease_event list) list \<times> lease_record list" where
  "plan_restore_one now r =
     (case lr_state r of
        LsAcquired \<Rightarrow>
          (if \<not> is_past_ttl now r then ([], [r])
           else case lease_expire now r of
             Inl _ \<Rightarrow> ([], [])
           | Inr (r1, e1) \<Rightarrow>
               (case lease_reclaim now r1 of Inl _ \<Rightarrow> ([], []) | Inr (r2, e2) \<Rightarrow> ([(r2, [e1, e2])], [])))
      | LsReleased \<Rightarrow> (case lease_reclaim now r of Inl _ \<Rightarrow> ([], []) | Inr (r1, e1) \<Rightarrow> ([(r1, [e1])], []))
      | LsExpired \<Rightarrow> (case lease_reclaim now r of Inl _ \<Rightarrow> ([], []) | Inr (r1, e1) \<Rightarrow> ([(r1, [e1])], []))
      | _ \<Rightarrow> ([], []))"

definition restore_batch :: "u64 \<Rightarrow> lease_record list \<Rightarrow> (lease_record \<times> lease_event list) list" where
  "restore_batch now rs = concat (map (\<lambda>r. fst (plan_restore_one now r)) rs)"

definition restore_live :: "u64 \<Rightarrow> lease_record list \<Rightarrow> lease_record list" where
  "restore_live now rs = concat (map (\<lambda>r. snd (plan_restore_one now r)) rs)"

text \<open>The report of \<open>plan_restore\<close>.\<close>

record reclaim_report =
  rr_expired :: nat
  rr_reclaimed :: nat
  rr_lease_ids :: "string list"
  rr_persist_errors :: nat

definition restore_report :: "u64 \<Rightarrow> lease_record list \<Rightarrow> reclaim_report" where
  "restore_report now rs =
     (let ids = map (\<lambda>(r, es). lr_id r) (restore_batch now rs)
      in \<lparr>rr_expired = length (filter (is_past_ttl now) rs), rr_reclaimed = length ids, rr_lease_ids = ids,
          rr_persist_errors = 0\<rparr>)"

definition admit_live :: "lease_record \<Rightarrow> pool \<Rightarrow> pool" where
  "admit_live r p = (let p1 = take_slot r p in p1\<lparr>po_leases := bt_put (lr_id r) r (po_leases p1)\<rparr>)"

text \<open>
  A new process with a new id prefix; \<open>n\<close> of the terminal transitions are persisted before the
  projection fails, all of them when \<open>n\<close> is large enough. A failed restore leaves the pool empty
  and not serving.
\<close>

definition restart :: "string \<Rightarrow> u64 \<Rightarrow> nat \<Rightarrow> pool \<Rightarrow> pool" where
  "restart prefix now n p =
     (let rs = load_outstanding (po_durable p); batch = restore_batch now rs;
          d = fold (\<lambda>(r, es). projection_apply r es) (take n batch) (po_durable p);
          p0 = (pool_new prefix)\<lparr>po_durable := d, po_used := po_prefix p # po_used p, po_up := False\<rparr>
      in if n < length batch then p0 else fold admit_live (restore_live now rs) (p0\<lparr>po_up := True\<rparr>))"

subsection \<open>Commands\<close>

datatype pool_command =
    Acquire acquire_request u64
  | Release string lease_outcome u64
  | PlanExpire string u64
  | PlanReclaim string u64
  | Persist nat bool
  | Settle nat
  | Restart string u64 nat

definition acquiring :: "pool \<Rightarrow> string \<Rightarrow> bool" where
  "acquiring p i = list_ex (\<lambda>op. pd_kind op = OpAcquire \<and> lr_id (pd_next op) = i) (po_pending p)"

definition drop_nth :: "nat \<Rightarrow> 'a list \<Rightarrow> 'a list" where
  "drop_nth k xs = take k xs @ drop (Suc k) xs"

text \<open>
  \<open>None\<close> is a command that is not enabled. The id of a lease is known to a caller once its \<open>acquire\<close>
  has returned, and a prefix is never used twice.
\<close>

fun pool_exec :: "pool_config \<Rightarrow> pool_command \<Rightarrow> pool \<Rightarrow> pool option" where
  "pool_exec cfg (Acquire req now) p = (if po_up p then Some (fst (acquire_begin cfg req now p)) else None)"
| "pool_exec cfg (Release i out now) p =
     (if po_up p \<and> \<not> acquiring p i then Some (fst (release_begin i out now p)) else None)"
| "pool_exec cfg (PlanExpire i now) p = (if po_up p then plan_expire i now p else None)"
| "pool_exec cfg (PlanReclaim i now) p = (if po_up p then plan_reclaim i now p else None)"
| "pool_exec cfg (Persist k ok) p =
     (if k < length (po_pending p) \<and> pd_stage (po_pending p ! k) = Waiting
      then let op = po_pending p ! k in
        Some (persist_op ok op
          (p\<lparr>po_pending := (po_pending p)[k := op\<lparr>pd_stage := if ok then Persisted else Refused\<rparr>]\<rparr>))
      else None)"
| "pool_exec cfg (Settle k) p =
     (if k < length (po_pending p) \<and> pd_stage (po_pending p ! k) \<noteq> Waiting
      then Some (settle_op (po_pending p ! k) (p\<lparr>po_pending := drop_nth k (po_pending p)\<rparr>))
      else None)"
| "pool_exec cfg (Restart prefix now n) p =
     (if prefix = po_prefix p \<or> prefix \<in> set (po_used p) then None else Some (restart prefix now n p))"

fun pool_run :: "pool_config \<Rightarrow> pool_command list \<Rightarrow> pool \<Rightarrow> pool option" where
  "pool_run cfg [] p = Some p"
| "pool_run cfg (c # cs) p = (case pool_exec cfg c p of None \<Rightarrow> None | Some p' \<Rightarrow> pool_run cfg cs p')"

subsection \<open>The reclaim scan\<close>

text \<open>
  \<open>reclaim_expired\<close> when nothing else runs and the clock stands still: lease by lease, first those past their time to
  live, then the settled ones. \<open>answer n\<close> is what the projection says to the write number \<open>n\<close> of the scan; the first
  refusal ends the scan with an error. \<open>None\<close> is fuel that did not suffice.
\<close>

definition expire_candidate :: "u64 \<Rightarrow> pool \<Rightarrow> string option" where
  "expire_candidate now p =
     find (\<lambda>i. (case bt_get (po_leases p) i of None \<Rightarrow> False | Some r \<Rightarrow> is_past_ttl now r) \<and> \<not> bt_has (po_inflight p) i)
       (bt_keys (po_leases p))"

definition reclaim_candidate :: "pool \<Rightarrow> string option" where
  "reclaim_candidate p =
     find (\<lambda>i. (case bt_get (po_leases p) i of None \<Rightarrow> False | Some r \<Rightarrow> is_settled (lr_state r)) \<and> \<not> bt_has (po_inflight p) i)
       (bt_keys (po_leases p))"

definition report_empty :: reclaim_report where
  "report_empty = \<lparr>rr_expired = 0, rr_reclaimed = 0, rr_lease_ids = [], rr_persist_errors = 0\<rparr>"

type_synonym scan_result = "(pool_error, reclaim_report) result \<times> pool"

definition scan_write :: "reclaim_report \<Rightarrow> nat" where
  "scan_write rp = rr_expired rp + rr_reclaimed rp"

fun expire_phase :: "pool_config \<Rightarrow> u64 \<Rightarrow> (nat \<Rightarrow> bool) \<Rightarrow> nat \<Rightarrow> reclaim_report \<Rightarrow> pool \<Rightarrow> scan_result option" where
  "expire_phase cfg now answer fuel rp p =
     (case expire_candidate now p of
        None \<Rightarrow> Some (Inr rp, p)
      | Some i \<Rightarrow>
          (case fuel of
             0 \<Rightarrow> None
           | Suc f \<Rightarrow>
               (let k = length (po_pending p); ok = answer (scan_write rp) in
                case pool_run cfg [PlanExpire i now, Persist k ok, Settle k] p of
                  None \<Rightarrow> None
                | Some p' \<Rightarrow>
                    (if ok then expire_phase cfg now answer f (rp\<lparr>rr_expired := rr_expired rp + 1\<rparr>) p'
                     else Some (Inl ProjectionFailed, p')))))"

fun reclaim_phase :: "pool_config \<Rightarrow> u64 \<Rightarrow> (nat \<Rightarrow> bool) \<Rightarrow> nat \<Rightarrow> reclaim_report \<Rightarrow> pool \<Rightarrow> scan_result option" where
  "reclaim_phase cfg now answer fuel rp p =
     (case reclaim_candidate p of
        None \<Rightarrow> Some (Inr rp, p)
      | Some i \<Rightarrow>
          (case fuel of
             0 \<Rightarrow> None
           | Suc f \<Rightarrow>
               (let k = length (po_pending p); ok = answer (scan_write rp) in
                case pool_run cfg [PlanReclaim i now, Persist k ok, Settle k] p of
                  None \<Rightarrow> None
                | Some p' \<Rightarrow>
                    (if ok
                     then reclaim_phase cfg now answer f
                            (rp\<lparr>rr_reclaimed := rr_reclaimed rp + 1, rr_lease_ids := rr_lease_ids rp @ [i]\<rparr>) p'
                     else Some (Inl ProjectionFailed, p')))))"

definition reclaim_expired :: "pool_config \<Rightarrow> u64 \<Rightarrow> (nat \<Rightarrow> bool) \<Rightarrow> nat \<Rightarrow> pool \<Rightarrow> scan_result option" where
  "reclaim_expired cfg now answer fuel p =
     (case expire_phase cfg now answer fuel report_empty p of
        Some (Inr rp, q) \<Rightarrow> reclaim_phase cfg now answer fuel rp q
      | r \<Rightarrow> r)"

end
