(* ===== verification/CredentialPoolProps.thy ===== *)
theory CredentialPoolProps
  imports CredentialPool
begin

text \<open>
  The credential pool under interleaved operations, projection failures and restarts: an invariant
  on the per-lease state, from which the slot counters are exact and within the limits, the
  persisted event log is canonical, and a restart rebuilds the live leases.
\<close>

subsection \<open>The state of one lease\<close>

text \<open>What memory, projection, in-flight marks, pending operations and log say of one id.\<close>

definition ops_of :: "pool \<Rightarrow> string \<Rightarrow> pending_op list" where
  "ops_of p i = filter (\<lambda>op. lr_id (pd_next op) = i) (po_pending p)"

definition versions_of :: "projection \<Rightarrow> string \<Rightarrow> u64 list" where
  "versions_of d i = map event_version (filter (\<lambda>e. event_lease e = i) (pj_events d))"

type_synonym cell =
  "lease_record option \<times> lease_record option \<times> lease_record option \<times> pending_op list \<times> u64 list"

definition cell :: "pool \<Rightarrow> string \<Rightarrow> cell" where
  "cell p i = (bt_get (po_leases p) i, bt_get (pj_snapshots (po_durable p)) i, bt_get (po_inflight p) i,
               ops_of p i, versions_of (po_durable p) i)"

text \<open>A record of the store: acquired at version 2, settled at version 3.\<close>

definition rec_ok :: "string \<Rightarrow> lease_record \<Rightarrow> bool" where
  "rec_ok i r \<longleftrightarrow> lr_id r = i \<and>
     (lr_state r = LsAcquired \<and> lr_version r = 2
    \<or> lr_state r = LsReleased \<and> lr_version r = 3
    \<or> lr_state r = LsExpired \<and> lr_version r = 3)"

text \<open>The projection holds the snapshot the log ends in.\<close>

fun stored_ok :: "string \<Rightarrow> lease_record option \<Rightarrow> u64 list \<Rightarrow> bool" where
  "stored_ok i None vs \<longleftrightarrow> vs = [] \<or> vs = [1, 2, 3, 4]"
| "stored_ok i (Some r) vs \<longleftrightarrow> rec_ok i r \<and> vs = (if lr_state r = LsAcquired then [1, 2] else [1, 2, 3])"

text \<open>The transition an operation plans from the lease in memory.\<close>

definition step_ok :: "op_kind \<Rightarrow> lease_record \<Rightarrow> lease_record \<Rightarrow> bool" where
  "step_ok k r n \<longleftrightarrow> lr_id n = lr_id r \<and> lr_tenant n = lr_tenant r \<and> lr_account n = lr_account r \<and>
     (case k of
        OpAcquire \<Rightarrow> False
      | OpRelease _ \<Rightarrow> lr_state r = LsAcquired \<and> lr_state n = LsReleased \<and> lr_version n = 3
      | OpExpire \<Rightarrow> lr_state r = LsAcquired \<and> lr_state n = LsExpired \<and> lr_version n = 3
      | OpReclaim \<Rightarrow> lr_state r \<noteq> LsAcquired \<and> lr_state n = LsReclaimed \<and> lr_version n = 4)"

text \<open>The kind of an event is the one of its version.\<close>

fun event_rank :: "lease_event \<Rightarrow> u64" where
  "event_rank (EvRequested _ _ _ _ _ _) = 1"
| "event_rank (EvAcquired _ _ _ _ _) = 2"
| "event_rank (EvReleased _ _ _ _) = 3"
| "event_rank (EvExpired _ _ _) = 3"
| "event_rank (EvReclaimed _ _ _) = 4"

definition ranked :: "lease_event \<Rightarrow> bool" where
  "ranked e \<longleftrightarrow> event_version e = event_rank e"

definition events_ok :: "string \<Rightarrow> pending_op \<Rightarrow> u64 list \<Rightarrow> bool" where
  "events_ok i op vs \<longleftrightarrow> list_all (\<lambda>e. event_lease e = i \<and> ranked e) (pd_events op) \<and> map event_version (pd_events op) = vs"

definition acquire_ok :: "string \<Rightarrow> pending_op \<Rightarrow> cell \<Rightarrow> bool" where
  "acquire_ok i op c =
     (case c of (mem, dur, fly, ops, vs) \<Rightarrow>
        fly = None \<and> mem = Some (pd_next op) \<and> rec_ok i (pd_next op) \<and> lr_state (pd_next op) = LsAcquired
      \<and> events_ok i op [1, 2]
      \<and> (if pd_stage op = Persisted then dur = Some (pd_next op) else dur = None \<and> vs = []))"

definition transition_ok :: "string \<Rightarrow> pending_op \<Rightarrow> cell \<Rightarrow> bool" where
  "transition_ok i op c =
     (case c of (mem, dur, fly, ops, vs) \<Rightarrow>
        fly = Some (pd_next op) \<and>
        (case mem of
           None \<Rightarrow> False
         | Some r \<Rightarrow> rec_ok i r \<and> pd_version op = lr_version r \<and> step_ok (pd_kind op) r (pd_next op)
             \<and> events_ok i op [lr_version r + 1]
             \<and> dur = (if pd_stage op \<noteq> Persisted then Some r
                      else if pd_kind op = OpReclaim then None else Some (pd_next op))))"

definition cell_ok :: "bool \<Rightarrow> string \<Rightarrow> cell \<Rightarrow> bool" where
  "cell_ok up i c =
     (case c of (mem, dur, fly, ops, vs) \<Rightarrow>
        stored_ok i dur vs \<and>
        (case ops of
           [] \<Rightarrow> fly = None \<and> mem = (if up then dur else None)
         | [op] \<Rightarrow> lr_id (pd_next op) = i
             \<and> (if pd_kind op = OpAcquire then acquire_ok i op c else transition_ok i op c)
         | _ \<Rightarrow> False))"

lemmas cell_defs = cell_ok_def acquire_ok_def transition_ok_def rec_ok_def step_ok_def events_ok_def

subsection \<open>Slots\<close>

definition holds :: "string \<Rightarrow> string \<Rightarrow> lease_record \<Rightarrow> bool" where
  "holds t a r \<longleftrightarrow> lr_state r = LsAcquired \<and> lr_tenant r = t \<and> lr_account r = a"

definition holds_in :: "string \<Rightarrow> lease_record \<Rightarrow> bool" where
  "holds_in t r \<longleftrightarrow> lr_state r = LsAcquired \<and> lr_tenant r = t"

definition counted :: "pool \<Rightarrow> bool" where
  "counted p \<longleftrightarrow>
     (\<forall>t a. active_count_for p t a = bt_count (holds t a) (po_leases p))
   \<and> (\<forall>t. tenant_active p t = bt_count (holds_in t) (po_leases p))"

definition within :: "pool_config \<Rightarrow> (string, lease_record) btree \<Rightarrow> bool" where
  "within cfg m \<longleftrightarrow>
     (\<forall>t a. bt_count (holds t a) m \<le> unat (max_for cfg t a))
   \<and> (\<forall>t mx. pc_per_tenant cfg = Some mx \<longrightarrow> bt_count (holds_in t) m \<le> unat mx)"

lemma bt_count_pos: "bt_get m k = Some v \<Longrightarrow> P v \<Longrightarrow> bt_count P m > 0"
  by (induction m) (auto split: if_splits)

lemma counted_take:
  assumes "counted p" and "bt_wf (po_leases p)" and "bt_get (po_leases p) (lr_id r) = None"
    and "lr_state r = LsAcquired"
  shows "counted ((take_slot r p)\<lparr>po_leases := bt_put (lr_id r) r (po_leases p)\<rparr>)"
proof -
  have "bt_count P (bt_put (lr_id r) r (po_leases p)) = bt_count P (po_leases p) + of_bool (P r)" for P
    using bt_count_put [OF assms(2), of P "lr_id r" r] assms(3) by simp
  then show ?thesis
    using assms(1,4)
    by (auto simp: counted_def active_count_for_def account_at_def tenant_active_def take_slot_def Let_def
        bt_get_put holds_def holds_in_def split: option.splits)
qed

text \<open>The slot of a lease that stops holding one.\<close>

lemma counted_free:
  assumes "counted p" and r: "bt_get (po_leases p) i = Some r" "lr_state r = LsAcquired"
    and n: "lr_tenant n = lr_tenant r" "lr_account n = lr_account r"
    and d: "\<And>t a. bt_count (holds t a) m + of_bool (holds t a r) = bt_count (holds t a) (po_leases p)"
      "\<And>t. bt_count (holds_in t) m + of_bool (holds_in t r) = bt_count (holds_in t) (po_leases p)"
  shows "counted (free_slot k n (p\<lparr>po_leases := m\<rparr>))"
proof -
  have "0 < active_count_for p (lr_tenant r) (lr_account r)" "0 < tenant_active p (lr_tenant r)"
    using bt_count_pos [OF r(1), of "holds (lr_tenant r) (lr_account r)"]
      bt_count_pos [OF r(1), of "holds_in (lr_tenant r)"] r(2) assms(1)
    by (auto simp: counted_def holds_def holds_in_def)
  then obtain s c where s: "bt_get (po_accounts p) (lr_tenant r, lr_account r) = Some s"
    and c: "bt_get (po_tenants p) (lr_tenant r) = Some c"
    by (auto simp: active_count_for_def account_at_def account_default_def tenant_active_def split: option.splits)
  have co: "as_active (count_outcome k s') = as_active s'" for s'
    by (simp add: count_outcome_def split: op_kind.split lease_outcome.split)
  have A: "active_count_for (free_slot k n (p\<lparr>po_leases := m\<rparr>)) t a = active_count_for p t a - of_bool (holds t a r)"
    for t a
    using s r(2) by (simp add: free_slot_def n Let_def active_count_for_def account_at_def bt_get_put co holds_def
        split: option.splits)
  have T: "tenant_active (free_slot k n (p\<lparr>po_leases := m\<rparr>)) t = tenant_active p t - of_bool (holds_in t r)" for t
    using c r(2) by (simp add: free_slot_def n Let_def tenant_active_def bt_get_put holds_in_def
        split: option.splits)
  have "po_leases (free_slot k n (p\<lparr>po_leases := m\<rparr>)) = m"
    by (simp add: free_slot_def Let_def)
  then show ?thesis
    unfolding counted_def A T using assms(1) by (simp add: counted_def flip: d)
qed

subsection \<open>The invariant\<close>

definition known :: "pool \<Rightarrow> string \<Rightarrow> bool" where
  "known p i \<longleftrightarrow>
     (\<exists>pre n. i = mk_lease_id pre n \<and> (pre \<in> set (po_used p) \<or> pre = po_prefix p \<and> n < po_counter p))"

definition fresh_ids :: "pool \<Rightarrow> bool" where
  "fresh_ids p \<longleftrightarrow> po_prefix p \<notin> set (po_used p)
     \<and> (\<forall>i. ops_of p i \<noteq> [] \<or> versions_of (po_durable p) i \<noteq> [] \<longrightarrow> known p i)"

definition pool_inv :: "pool_config \<Rightarrow> pool \<Rightarrow> bool" where
  "pool_inv cfg p \<longleftrightarrow>
     bt_wf (po_leases p) \<and> bt_wf (po_inflight p) \<and> bt_wf (pj_snapshots (po_durable p))
   \<and> (\<forall>i. cell_ok (po_up p) i (cell p i)) \<and> (\<not> po_up p \<longrightarrow> po_pending p = [])
   \<and> list_all ranked (pj_events (po_durable p))
   \<and> fresh_ids p \<and> counted p \<and> within cfg (po_leases p) \<and> within cfg (pj_snapshots (po_durable p))"

lemma pool_invD:
  assumes "pool_inv cfg p"
  shows "bt_wf (po_leases p)" "bt_wf (po_inflight p)" "bt_wf (pj_snapshots (po_durable p))"
    "cell_ok (po_up p) i (cell p i)" "fresh_ids p" "counted p" "within cfg (po_leases p)"
    "within cfg (pj_snapshots (po_durable p))" "list_all ranked (pj_events (po_durable p))"
  using assms by (simp_all add: pool_inv_def)

lemma known_mono:
  "known p j \<Longrightarrow> po_prefix p' = po_prefix p \<Longrightarrow> po_used p' = po_used p \<Longrightarrow> po_counter p \<le> po_counter p' \<Longrightarrow> known p' j"
  unfolding known_def by (metis order.strict_trans2)

lemma append_dash_inj:
  assumes "\<forall>c \<in> set u. c \<noteq> d" and "\<forall>c \<in> set v. c \<noteq> d"
  shows "xs @ d # u = ys @ d # v \<longleftrightarrow> xs = ys \<and> u = v"
proof -
  have "xs @ d # u = ys @ d # v \<longleftrightarrow> rev u @ d # rev xs = rev v @ d # rev ys"
    by (metis append.assoc append_Cons append_Nil rev.simps(2) rev_append rev_rev_ident)
  also have "\<dots> \<longleftrightarrow> xs = ys \<and> u = v"
    using assms append_sep_inj [of "rev u" d "rev v" "rev xs" "rev ys"] by auto
  finally show ?thesis .
qed

lemma mk_lease_id_inj [simp]: "mk_lease_id pre n = mk_lease_id pre' n' \<longleftrightarrow> pre = pre' \<and> n = n'"
  using append_dash_inj [OF dec_no_dash dec_no_dash, of pre "unat n" pre' "unat n'"]
  by (auto simp: mk_lease_id_def word_unat_eq_iff)

text \<open>A lease id that nothing mentions, and one that something does.\<close>

lemma next_id_fresh:
  assumes "pool_inv cfg p" and i: "i = mk_lease_id (po_prefix p) (po_counter p)"
  shows "cell p i = (None, None, None, [], [])"
proof -
  have no: "\<not> known p i"
    using pool_invD(5) [OF assms(1)] by (auto simp: known_def i fresh_ids_def)
  then have "ops_of p i = [] \<and> versions_of (po_durable p) i = []"
    using pool_invD(5) [OF assms(1)] by (auto simp: fresh_ids_def)
  then show ?thesis
    using pool_invD(4) [OF assms(1), of i]
    by (cases "bt_get (pj_snapshots (po_durable p)) i") (auto simp: cell_def cell_ok_def split: if_splits)
qed

lemma lease_known: "pool_inv cfg p \<Longrightarrow> bt_get (po_leases p) i = Some r \<Longrightarrow> known p i"
  using pool_invD(4) [of cfg p i] pool_invD(5) [of cfg p]
  by (cases "bt_get (pj_snapshots (po_durable p)) i"; cases "ops_of p i")
    (auto simp: cell_def cell_ok_def fresh_ids_def split: if_splits)

text \<open>What the projection counts is counted in memory.\<close>

lemma durable_slot:
  assumes "cell_ok True i (m, Some r, fly, ops, vs)" and "lr_state r = LsAcquired"
  shows "m = Some r"
  using assms
  by (auto simp: cell_defs split: list.splits option.splits if_splits op_kind.splits)

lemma within_durable:
  assumes "bt_wf m" "bt_wf d" "within cfg m"
    and "\<And>i r. bt_get d i = Some r \<Longrightarrow> lr_state r = LsAcquired \<Longrightarrow> bt_get m i = Some r"
  shows "within cfg d"
proof -
  have "bt_count (holds t a) d \<le> bt_count (holds t a) m" "bt_count (holds_in t) d \<le> bt_count (holds_in t) m" for t a
    by (rule bt_count_mono [OF assms(2,1)]; use assms(4) in \<open>auto simp: holds_def holds_in_def\<close>)+
  then show ?thesis
    using assms(3) by (fastforce simp: within_def intro: order_trans)
qed

text \<open>A step that changes one lease of a running pool.\<close>

lemma inv_local:
  assumes p: "pool_inv cfg p" "po_up p'" "po_prefix p' = po_prefix p" "po_used p' = po_used p"
    and ids: "\<And>j. known p j \<Longrightarrow> known p' j" and i: "known p' i"
    and wf: "bt_wf (po_leases p')" "bt_wf (po_inflight p')" "bt_wf (pj_snapshots (po_durable p'))"
    and up: "po_up p" and others: "\<And>j. j \<noteq> i \<Longrightarrow> cell p' j = cell p j"
    and mine: "cell_ok True i (cell p' i)"
    and slots: "counted p'" "within cfg (po_leases p')" and log: "list_all ranked (pj_events (po_durable p'))"
  shows "pool_inv cfg p'"
proof -
  have cells: "cell_ok True j (cell p' j)" for j
    using mine others [of j] pool_invD(4) [OF p(1), of j] up by (cases "j = i") auto
  have "known p' j" if "ops_of p' j \<noteq> [] \<or> versions_of (po_durable p') j \<noteq> []" for j
    using that i ids others [of j] pool_invD(5) [OF p(1)]
    by (cases "j = i") (auto simp: fresh_ids_def cell_def)
  then have "fresh_ids p'"
    using pool_invD(5) [OF p(1)] p(3,4) by (simp add: fresh_ids_def)
  moreover have "within cfg (pj_snapshots (po_durable p'))"
  proof (rule within_durable [OF wf(1,3) slots(2)])
    fix j r
    assume "bt_get (pj_snapshots (po_durable p')) j = Some r" "lr_state r = LsAcquired"
    then show "bt_get (po_leases p') j = Some r"
      using cells [of j] by (auto simp: cell_def intro: durable_slot)
  qed
  ultimately show ?thesis
    using cells p(2) wf slots log by (simp add: pool_inv_def)
qed

subsection \<open>Planning keeps the invariant\<close>

lemma ops_enlist: "ops_of (enlist op p) i = ops_of p i @ (if lr_id (pd_next op) = i then [op] else [])"
  by (simp add: ops_of_def enlist_def)

lemma inv_acquire:
  assumes p: "pool_inv cfg p" and up: "po_up p" and room: "unat (po_counter p) < u64_max"
  shows "pool_inv cfg (fst (acquire_begin cfg req now p))"
proof -
  let ?t = "aq_tenant req" and ?a = "account_of req"
  let ?i = "mk_lease_id (po_prefix p) (po_counter p)"
  obtain r e1 e2 where op: "lease_open req ?i ''default'' now (pc_ttl_ms cfg) = (r, e1, e2)"
    by (metis prod_cases3)
  have r: "lr_id r = ?i" "lr_state r = LsAcquired" "lr_version r = 2" "lr_tenant r = ?t" "lr_account r = ?a"
    "event_lease e1 = ?i" "event_lease e2 = ?i" "event_version e1 = 1" "event_version e2 = 2" "ranked e1" "ranked e2"
    using op by (auto simp: lease_open_def Let_def ranked_def)
  let ?ok = "(\<forall>mx. pc_per_tenant cfg = Some mx \<longrightarrow> tenant_active p ?t < unat mx)
      \<and> active_count_for p ?t ?a < unat (max_for cfg ?t ?a)"
  let ?q = "p\<lparr>po_counter := po_counter p + 1\<rparr>"
  let ?op = "\<lparr>pd_kind = OpAcquire, pd_next = r, pd_events = [e1, e2], pd_version = lr_version r, pd_stage = Waiting\<rparr>"
  let ?p' = "enlist ?op ((take_slot r ?q)\<lparr>po_leases := bt_put ?i r (po_leases p)\<rparr>)"
  show ?thesis
  proof (cases ?ok)
    case False
    then have "fst (acquire_begin cfg req now p) = p"
      by (auto simp: acquire_begin_def Let_def op not_less split: option.splits)
    then show ?thesis using p by simp
  next
    case True
    have res: "fst (acquire_begin cfg req now p) = ?p'"
      using True by (auto simp: acquire_begin_def Let_def op take_slot_def split: option.splits)
    have none: "cell p ?i = (None, None, None, [], [])"
      by (rule next_id_fresh [OF p]) simp
    note wf = pool_invD(1-3) [OF p]
    have lt: "po_counter p < po_counter p + 1"
      using unat_Suc_u64 [OF room] by (simp add: word_less_nat_alt)
    have eq: "po_up ?p' = po_up p" "po_prefix ?p' = po_prefix p" "po_used ?p' = po_used p"
      "po_counter ?p' = po_counter p + 1" "po_inflight ?p' = po_inflight p" "po_durable ?p' = po_durable p"
      "po_leases ?p' = bt_put ?i r (po_leases p)" "po_pending ?p' = po_pending p @ [?op]"
      by (simp_all add: enlist_def take_slot_def Let_def)
    have slots: "counted ?p'"
      using counted_take [of ?q r] pool_invD(6) [OF p] wf(1) none r
      by (simp add: counted_def enlist_def active_count_for_def account_at_def tenant_active_def take_slot_def
          Let_def cell_def)
    have cnt: "bt_count P (bt_put ?i r (po_leases p)) = bt_count P (po_leases p) + of_bool (P r)" for P
      using bt_count_put [OF wf(1), of P ?i r] none by (simp add: cell_def)
    have cap: "within cfg (po_leases ?p')"
      unfolding eq within_def cnt using True pool_invD(6,7) [OF p] r(4,5)
      by (fastforce simp: counted_def within_def holds_def holds_in_def)
    show ?thesis
      unfolding res
    proof (rule inv_local [OF p, where i = ?i])
      show "known ?p' j" if "known p j" for j
        by (rule known_mono [OF that]) (use lt eq in auto)
      show "known ?p' ?i"
        using lt unfolding known_def eq by blast
      show "cell ?p' j = cell p j" if "j \<noteq> ?i" for j
        using that r(1) by (simp add: cell_def eq ops_of_def bt_get_put)
      have "cell ?p' ?i = (Some r, None, None, [?op], [])"
        unfolding cell_def eq ops_of_def using none r(1) by (simp add: cell_def ops_of_def)
      then show "cell_ok True ?i (cell ?p' ?i)"
        using r by (simp add: cell_defs)
    qed (use eq up wf slots cap bt_wf_put pool_invD(9) [OF p] in auto)
  qed
qed

lemma acquiring_ops: "acquiring p i \<longleftrightarrow> list_ex (\<lambda>op. pd_kind op = OpAcquire) (ops_of p i)"
  by (auto simp: acquiring_def ops_of_def list_ex_iff)

text \<open>A lease that no operation waits for is the one the projection holds.\<close>

lemma idle_cell:
  assumes "cell_ok True i (cell p i)" and "bt_get (po_leases p) i = Some r" and "bt_get (po_inflight p) i = None"
    and "lr_state r = LsAcquired \<longrightarrow> \<not> acquiring p i"
  shows "ops_of p i = [] \<and> bt_get (pj_snapshots (po_durable p)) i = Some r \<and> rec_ok i r"
  using assms by (cases "bt_get (pj_snapshots (po_durable p)) i")
    (auto simp: cell_def acquiring_ops cell_ok_def acquire_ok_def transition_ok_def split: list.splits if_splits)

lemma inv_plan:
  assumes p: "pool_inv cfg p" and up: "po_up p"
    and r: "bt_get (po_leases p) i = Some r" "bt_get (po_inflight p) i = None"
      "lr_state r = LsAcquired \<longrightarrow> \<not> acquiring p i"
    and n: "step_ok k r (fst ne)" "event_lease (snd ne) = i" "event_version (snd ne) = lr_version r + 1"
      "ranked (snd ne)"
  shows "pool_inv cfg (plan_op k r ne p)"
proof -
  note wf = pool_invD(1-3) [OF p]
  have idle: "ops_of p i = []" "bt_get (pj_snapshots (po_durable p)) i = Some r" "rec_ok i r"
    using idle_cell [OF _ r] pool_invD(4) [OF p, of i] up by auto
  then have ri: "lr_id r = i" "lr_id (fst ne) = i" "k \<noteq> OpAcquire"
    using n(1) by (auto simp: rec_ok_def step_ok_def)
  let ?op = "\<lparr>pd_kind = k, pd_next = fst ne, pd_events = [snd ne], pd_version = lr_version r, pd_stage = Waiting\<rparr>"
  let ?p' = "plan_op k r ne p"
  have eq: "po_up ?p' = po_up p" "po_prefix ?p' = po_prefix p" "po_used ?p' = po_used p"
    "po_counter ?p' = po_counter p" "po_inflight ?p' = bt_put i (fst ne) (po_inflight p)"
    "po_durable ?p' = po_durable p" "po_leases ?p' = po_leases p" "po_pending ?p' = po_pending p @ [?op]"
    "po_accounts ?p' = po_accounts p" "po_tenants ?p' = po_tenants p"
    by (simp_all add: plan_op_def enlist_def ri)
  show ?thesis
  proof (rule inv_local [OF p, where i = i])
    show "known ?p' j" if "known p j" for j
      by (rule known_mono [OF that]) (use eq in auto)
    show "known ?p' i"
      by (rule known_mono [OF lease_known [OF p r(1)]]) (use eq in auto)
    show "cell ?p' j = cell p j" if "j \<noteq> i" for j
      using that ri by (simp add: cell_def eq ops_of_def bt_get_put)
    have "stored_ok i (Some r) (versions_of (po_durable p) i)"
      using pool_invD(4) [OF p, of i] up idle by (simp add: cell_def cell_ok_def)
    then show "cell_ok True i (cell ?p' i)"
      using idle r n ri
      by (simp add: cell_def eq ops_of_def cell_ok_def transition_ok_def events_ok_def)
    show "counted ?p'"
      using pool_invD(6) [OF p]
      by (simp add: counted_def active_count_for_def account_at_def tenant_active_def eq)
  qed (use eq up wf pool_invD(7,9) [OF p] bt_wf_put in auto)
qed

lemma sat_add_word_small: "unat a + unat b \<le> u64_max \<Longrightarrow> sat_add_word a b = a + b"
  by (simp add: sat_add_word_def sat_add_def)

lemma rec_next:
  "rec_ok i r \<Longrightarrow> sat_add_word (lr_version r) 1 = (if lr_state r = LsAcquired then 3 else 4)"
  by (auto simp: rec_ok_def sat_add_word_small u64_max_def)

lemma rec_next_add: "rec_ok i r \<Longrightarrow> lr_version r + 1 = (if lr_state r = LsAcquired then 3 else 4)"
  by (auto simp: rec_ok_def)

lemma release_step:
  "rec_ok i r \<Longrightarrow> lease_release out now r = Inr ne \<Longrightarrow>
     step_ok (OpRelease out) r (fst ne) \<and> event_lease (snd ne) = i \<and> event_version (snd ne) = lr_version r + 1
     \<and> ranked (snd ne)"
  by (auto simp: lease_release_def Let_def step_ok_def rec_next rec_next_add ranked_def split: if_splits) (simp add: rec_ok_def)

lemma expire_step:
  "rec_ok i r \<Longrightarrow> lease_expire now r = Inr ne \<Longrightarrow>
     step_ok OpExpire r (fst ne) \<and> event_lease (snd ne) = i \<and> event_version (snd ne) = lr_version r + 1
     \<and> ranked (snd ne)"
  by (auto simp: lease_expire_def Let_def step_ok_def rec_next rec_next_add ranked_def split: if_splits) (simp add: rec_ok_def)

lemma reclaim_step:
  "rec_ok i r \<Longrightarrow> lease_reclaim now r = Inr ne \<Longrightarrow>
     step_ok OpReclaim r (fst ne) \<and> event_lease (snd ne) = i \<and> event_version (snd ne) = lr_version r + 1
     \<and> ranked (snd ne)"
  by (auto simp: lease_reclaim_def Let_def step_ok_def is_settled_def is_terminal_lease_def rec_next rec_next_add
      ranked_def split: if_splits) (simp_all add: rec_ok_def)

lemma inv_release:
  assumes p: "pool_inv cfg p" "po_up p" "\<not> acquiring p i"
  shows "pool_inv cfg (fst (release_begin i out now p))"
proof -
  have "rec_ok i r" if "bt_get (po_leases p) i = Some r" "bt_get (po_inflight p) i = None" for r
    using idle_cell [OF _ that] pool_invD(4) [OF p(1), of i] p(2,3) by simp
  then show ?thesis
    using p by (auto simp: release_begin_def split: option.splits sum.splits
        dest!: release_step intro!: inv_plan)
qed

lemma inv_expire:
  assumes p: "pool_inv cfg p" "po_up p" "\<not> acquiring p i" and step: "plan_expire i now p = Some p'"
  shows "pool_inv cfg p'"
proof -
  have "rec_ok i r" if "bt_get (po_leases p) i = Some r" "bt_get (po_inflight p) i = None" for r
    using idle_cell [OF _ that] pool_invD(4) [OF p(1), of i] p(2,3) by simp
  then show ?thesis
    using p step by (auto simp: plan_expire_def split: option.splits sum.splits if_splits
        dest!: expire_step intro!: inv_plan)
qed

lemma inv_reclaim:
  assumes p: "pool_inv cfg p" "po_up p" and step: "plan_reclaim i now p = Some p'"
  shows "pool_inv cfg p'"
proof -
  have "rec_ok i r" if "bt_get (po_leases p) i = Some r" "bt_get (po_inflight p) i = None" "is_settled (lr_state r)" for r
    using idle_cell [OF _ that(1,2)] pool_invD(4) [OF p(1), of i] p(2) that(3) by (auto simp: is_settled_def)
  then show ?thesis
    using p step by (auto simp: plan_reclaim_def is_settled_def split: option.splits sum.splits if_splits
        dest!: reclaim_step intro!: inv_plan)
qed

subsection \<open>The answer of the projection\<close>

lemma within_le:
  assumes "within cfg m" and "\<And>t a. bt_count (holds t a) m' \<le> bt_count (holds t a) m"
    and "\<And>t. bt_count (holds_in t) m' \<le> bt_count (holds_in t) m"
  shows "within cfg m'"
  using assms unfolding within_def by (meson order_trans)

text \<open>The one pending operation of its lease, and the pending list without it or with its answer.\<close>

lemma pending_split:
  assumes "k < length (po_pending p)" and op: "op = po_pending p ! k" and i: "i = lr_id (pd_next op)"
    and "cell_ok up i (cell p i)"
  shows "ops_of p i = [op]"
    and "lr_id (pd_next y) = i \<Longrightarrow>
      filter (\<lambda>op. lr_id (pd_next op) = j) ((po_pending p)[k := y]) = (if j = i then [y] else ops_of p j)"
    and "filter (\<lambda>op. lr_id (pd_next op) = j) (drop_nth k (po_pending p)) = (if j = i then [] else ops_of p j)"
proof -
  let ?xs = "take k (po_pending p)" and ?zs = "drop (Suc k) (po_pending p)"
  have l: "po_pending p = ?xs @ op # ?zs"
    using assms(1) unfolding op by (rule id_take_nth_drop)
  have u: "(po_pending p)[k := y] = ?xs @ y # ?zs" for y
    using assms(1) by (rule upd_conv_take_nth_drop)
  have o: "ops_of p j = filter (\<lambda>op. lr_id (pd_next op) = j) ?xs @ (if j = i then [op] else [])
      @ filter (\<lambda>op. lr_id (pd_next op) = j) ?zs" for j
    unfolding ops_of_def by (subst l) (use i in auto)
  have "length (ops_of p i) \<le> 1"
    using assms(4) by (auto simp: cell_def cell_ok_def split: list.splits)
  then have e: "filter (\<lambda>op. lr_id (pd_next op) = i) ?xs = []" "filter (\<lambda>op. lr_id (pd_next op) = i) ?zs = []"
    unfolding o by auto
  show "ops_of p i = [op]"
    using e by (simp add: o)
  show "filter (\<lambda>op. lr_id (pd_next op) = j) ((po_pending p)[k := y]) = (if j = i then [y] else ops_of p j)"
    if "lr_id (pd_next y) = i"
    using that e unfolding u by (simp add: o)
  show "filter (\<lambda>op. lr_id (pd_next op) = j) (drop_nth k (po_pending p)) = (if j = i then [] else ops_of p j)"
    using e by (simp add: o drop_nth_def)
qed

lemma versions_apply:
  "versions_of (projection_apply r es d) i = versions_of d i @ map event_version (filter (\<lambda>e. event_lease e = i) es)"
  by (simp add: versions_of_def projection_apply_def)

lemma snapshots_apply:
  "bt_wf (pj_snapshots d) \<Longrightarrow>
     bt_get (pj_snapshots (projection_apply r es d)) i
     = (if lr_id r = i then (if is_terminal_lease (lr_state r) then None else Some r) else bt_get (pj_snapshots d) i)"
  by (simp add: projection_apply_def bt_get_put bt_get_del)

lemma snapshots_apply_wf: "bt_wf (pj_snapshots d) \<Longrightarrow> bt_wf (pj_snapshots (projection_apply r es d))"
  by (simp add: projection_apply_def bt_wf_put bt_wf_del)

lemma filter_all_eq: "list_all P xs \<Longrightarrow> filter P xs = xs"
  by (simp add: list_all_iff)

lemma transition_okE:
  assumes "cell_ok True i (m, d, f, [op], vs)" and "pd_kind op \<noteq> OpAcquire"
  obtains r where "m = Some r" "f = Some (pd_next op)" "lr_id (pd_next op) = i" "rec_ok i r"
    "pd_version op = lr_version r"
    "step_ok (pd_kind op) r (pd_next op)" "events_ok i op [lr_version r + 1]"
    "d = (if pd_stage op \<noteq> Persisted then Some r else if pd_kind op = OpReclaim then None else Some (pd_next op))"
    "stored_ok i d vs"
  using assms by (auto simp: cell_ok_def transition_ok_def split: option.splits)

lemma transition_okI:
  assumes "rec_ok i r" "pd_version op = lr_version r" "step_ok (pd_kind op) r (pd_next op)"
    "events_ok i op [lr_version r + 1]"
    "d = (if pd_stage op \<noteq> Persisted then Some r else if pd_kind op = OpReclaim then None else Some (pd_next op))"
    "stored_ok i d vs"
  shows "cell_ok True i (Some r, d, Some (pd_next op), [op], vs)"
  using assms by (cases "pd_kind op") (auto simp: cell_ok_def transition_ok_def step_ok_def rec_ok_def)

lemma step_shape:
  assumes "rec_ok i r" and "step_ok k r n"
  shows "if k = OpReclaim then lr_state n = LsReclaimed \<and> lr_state r \<noteq> LsAcquired
         else rec_ok i n \<and> lr_state n \<noteq> LsAcquired \<and> lr_state n \<noteq> LsReclaimed \<and> lr_state r = LsAcquired"
  using assms by (cases k) (auto simp: rec_ok_def step_ok_def)

lemma persist_cell:
  assumes c: "cell_ok True i (m, d, f, [op], vs)" and w: "pd_stage op = Waiting"
  shows "cell_ok True i (m,
      if ok then (if is_terminal_lease (lr_state (pd_next op)) then None else Some (pd_next op)) else d, f,
      [op\<lparr>pd_stage := if ok then Persisted else Refused\<rparr>], vs @ (if ok then map event_version (pd_events op) else []))"
proof (cases "pd_kind op = OpAcquire")
  case True
  then show ?thesis
    using c w by (auto simp: cell_ok_def acquire_ok_def events_ok_def is_terminal_lease_def)
next
  case False
  from c False show ?thesis
  proof (rule transition_okE)
    fix r
    assume r: "m = Some r" "f = Some (pd_next op)" "lr_id (pd_next op) = i" "rec_ok i r" "pd_version op = lr_version r"
      "step_ok (pd_kind op) r (pd_next op)" "events_ok i op [lr_version r + 1]" "stored_ok i d vs"
      "d = (if pd_stage op \<noteq> Persisted then Some r else if pd_kind op = OpReclaim then None else Some (pd_next op))"
    let ?op = "op\<lparr>pd_stage := if ok then Persisted else Refused\<rparr>"
    have d: "d = Some r"
      using r(9) w by simp
    have st: "stored_ok i (if pd_kind op = OpReclaim then None else Some (pd_next op))
        (vs @ map event_version (pd_events op))"
      using step_shape [OF r(4,6)] r(4,7,8) by (auto simp: d events_ok_def rec_next_add split: if_splits)
    have "cell_ok True i (Some r,
        if ok then (if is_terminal_lease (lr_state (pd_next op)) then None else Some (pd_next op)) else d,
        Some (pd_next ?op), [?op], vs @ (if ok then map event_version (pd_events op) else []))"
      by (rule transition_okI)
        (use r d st step_shape [OF r(4,6)] in \<open>auto simp: events_ok_def is_terminal_lease_def split: if_splits\<close>)
    then show ?thesis
      by (simp add: r(1,2))
  qed
qed

lemma inv_persist:
  assumes p: "pool_inv cfg p" and k: "k < length (po_pending p)" "pd_stage (po_pending p ! k) = Waiting"
    and op: "op = po_pending p ! k"
  shows "pool_inv cfg (persist_op ok op
           (p\<lparr>po_pending := (po_pending p)[k := op\<lparr>pd_stage := if ok then Persisted else Refused\<rparr>]\<rparr>))"
    (is "pool_inv cfg ?p'")
proof -
  note wf = pool_invD(1-3) [OF p]
  have up: "po_up p"
    using p k(1) by (auto simp: pool_inv_def)
  define i where i: "i = lr_id (pd_next op)"
  let ?op' = "op\<lparr>pd_stage := if ok then Persisted else Refused\<rparr>"
  have ci: "cell_ok True i (cell p i)"
    using pool_invD(4) [OF p, of i] up by simp
  note sp = pending_split [OF k(1) op i ci]
  have eq: "po_up ?p' = po_up p" "po_prefix ?p' = po_prefix p" "po_used ?p' = po_used p"
    "po_counter ?p' = po_counter p" "po_inflight ?p' = po_inflight p" "po_leases ?p' = po_leases p"
    "po_accounts ?p' = po_accounts p" "po_tenants ?p' = po_tenants p"
    "po_pending ?p' = (po_pending p)[k := ?op']"
    "po_durable ?p' = (if ok then projection_apply (pd_next op) (pd_events op) (po_durable p) else po_durable p)"
    by (simp_all add: persist_op_def)
  have evr: "list_all (\<lambda>e. event_lease e = i \<and> ranked e) (pd_events op)"
    using ci sp(1) by (auto simp: cell_def cell_ok_def acquire_ok_def transition_ok_def events_ok_def
        split: if_splits option.splits)
  then have ev: "list_all (\<lambda>e. event_lease e = i) (pd_events op)"
    by (simp add: list_all_iff)
  have ops: "ops_of ?p' j = (if j = i then [?op'] else ops_of p j)" for j
    unfolding ops_of_def [of ?p'] eq by (rule sp(2)) (simp add: i)
  show ?thesis
  proof (rule inv_local [OF p, where i = i])
    show "known ?p' j" if "known p j" for j
      by (rule known_mono [OF that]) (use eq in auto)
    show "known ?p' i"
      by (rule known_mono [of p]) (use eq sp(1) pool_invD(5) [OF p] in \<open>auto simp: fresh_ids_def\<close>)
    have "filter (\<lambda>e. event_lease e = j) (pd_events op) = []" if "j \<noteq> i" for j
      using ev that by (auto simp: list_all_iff filter_empty_conv)
    then show "cell ?p' j = cell p j" if "j \<noteq> i" for j
      using that wf(3) by (auto simp: cell_def ops eq versions_apply snapshots_apply i)
    have c: "cell ?p' i = (bt_get (po_leases p) i,
        if ok then (if is_terminal_lease (lr_state (pd_next op)) then None else Some (pd_next op))
        else bt_get (pj_snapshots (po_durable p)) i,
        bt_get (po_inflight p) i, [?op'],
        versions_of (po_durable p) i @ (if ok then map event_version (pd_events op) else []))"
      unfolding cell_def ops eq using wf(3)
      by (simp add: versions_apply snapshots_apply i [symmetric] filter_all_eq [OF ev])
    show "cell_ok True i (cell ?p' i)"
      unfolding c by (rule persist_cell) (use ci sp(1) k(2) op in \<open>simp_all add: cell_def\<close>)
    show "counted ?p'"
      using pool_invD(6) [OF p]
      by (simp add: counted_def active_count_for_def account_at_def tenant_active_def eq)
    show "bt_wf (pj_snapshots (po_durable ?p'))"
      unfolding eq using wf(3) by (simp add: snapshots_apply_wf)
    show "list_all ranked (pj_events (po_durable ?p'))"
      unfolding eq using evr pool_invD(9) [OF p] by (auto simp: projection_apply_def list_all_iff)
  qed (use eq up wf pool_invD(7) [OF p] in auto)
qed

subsection \<open>Settling an operation\<close>

text \<open>The pending operation \<open>k\<close> leaves the list and its lease is as the projection has it.\<close>

lemma inv_drop_eq:
  assumes p: "pool_inv cfg p" and k: "k < length (po_pending p)" and op: "op = po_pending p ! k"
    and i: "i = lr_id (pd_next op)"
    and eq: "po_up p' = po_up p" "po_prefix p' = po_prefix p" "po_used p' = po_used p"
      "po_counter p' = po_counter p" "po_durable p' = po_durable p" "po_pending p' = drop_nth k (po_pending p)"
    and rest: "\<And>j. j \<noteq> i \<Longrightarrow> bt_get (po_leases p') j = bt_get (po_leases p) j"
      "\<And>j. j \<noteq> i \<Longrightarrow> bt_get (po_inflight p') j = bt_get (po_inflight p) j"
    and wf: "bt_wf (po_leases p')" "bt_wf (po_inflight p')"
    and mine: "bt_get (po_inflight p') i = None" "bt_get (po_leases p') i = bt_get (pj_snapshots (po_durable p)) i"
    and slots: "counted p'" "within cfg (po_leases p')"
  shows "pool_inv cfg p'"
proof -
  have up: "po_up p"
    using p k by (auto simp: pool_inv_def)
  note sp = pending_split [OF k op i pool_invD(4) [OF p, of i]]
  have ops: "ops_of p' j = (if j = i then [] else ops_of p j)" for j
    unfolding ops_of_def [of p'] eq by (rule sp(3))
  show ?thesis
  proof (rule inv_local [OF p, where i = i])
    show "known p' j" if "known p j" for j
      by (rule known_mono [OF that]) (use eq in auto)
    show "known p' i"
      by (rule known_mono [of p]) (use eq sp(1) pool_invD(5) [OF p] in \<open>auto simp: fresh_ids_def\<close>)
    show "cell p' j = cell p j" if "j \<noteq> i" for j
      using that rest ops by (simp add: cell_def eq)
    show "cell_ok True i (cell p' i)"
      using pool_invD(4) [OF p, of i] mine ops by (auto simp: cell_def cell_ok_def eq)
  qed (use eq up wf slots pool_invD(3,9) [OF p] in auto)
qed

lemma slots_same: "counted p \<Longrightarrow> po_accounts p' = po_accounts p \<Longrightarrow> po_tenants p' = po_tenants p \<Longrightarrow>
    (\<And>t a. bt_count (holds t a) (po_leases p') = bt_count (holds t a) (po_leases p)) \<Longrightarrow>
    (\<And>t. bt_count (holds_in t) (po_leases p') = bt_count (holds_in t) (po_leases p)) \<Longrightarrow> counted p'"
  by (simp add: counted_def active_count_for_def account_at_def tenant_active_def)

lemma within_drop:
  "within cfg m \<Longrightarrow> (\<And>t a. bt_count (holds t a) m' + of_bool (holds t a r) = bt_count (holds t a) m) \<Longrightarrow>
     (\<And>t. bt_count (holds_in t) m' + of_bool (holds_in t r) = bt_count (holds_in t) m) \<Longrightarrow> within cfg m'"
  unfolding within_def by (metis add_leE)

lemma pending_cell:
  assumes p: "pool_inv cfg p" and k: "k < length (po_pending p)" and op: "op = po_pending p ! k"
    and i: "i = lr_id (pd_next op)"
  shows "po_up p"
    and "cell_ok True i (bt_get (po_leases p) i, bt_get (pj_snapshots (po_durable p)) i, bt_get (po_inflight p) i,
      [op], versions_of (po_durable p) i)"
proof -
  show up: "po_up p"
    using p k by (auto simp: pool_inv_def)
  have ci: "cell_ok True i (cell p i)"
    using pool_invD(4) [OF p, of i] up by simp
  then show "cell_ok True i (bt_get (po_leases p) i, bt_get (pj_snapshots (po_durable p)) i, bt_get (po_inflight p) i,
      [op], versions_of (po_durable p) i)"
    using pending_split(1) [OF k op i ci] by (simp add: cell_def)
qed

lemma stage_cases: "s \<noteq> Waiting \<Longrightarrow> s \<noteq> Refused \<Longrightarrow> s = Persisted"
  by (cases s) auto

lemma inv_settle_acquire:
  assumes p: "pool_inv cfg p" and k: "k < length (po_pending p)" "pd_stage op \<noteq> Waiting"
    and op: "op = po_pending p ! k" and kind: "pd_kind op = OpAcquire"
  shows "pool_inv cfg (settle_op op (p\<lparr>po_pending := drop_nth k (po_pending p)\<rparr>))"
proof -
  note wf = pool_invD(1-3) [OF p] and cnt = pool_invD(6) [OF p] and cap = pool_invD(7) [OF p]
  define i where i: "i = lr_id (pd_next op)"
  let ?q = "p\<lparr>po_pending := drop_nth k (po_pending p)\<rparr>"
  note rule = inv_drop_eq [OF p k(1) op i]
  have cq: "counted ?q"
    by (rule slots_same [OF cnt]) auto
  from pending_cell(2) [OF p k(1) op i] kind
  have a: "bt_get (po_inflight p) i = None" "bt_get (po_leases p) i = Some (pd_next op)"
    "lr_state (pd_next op) = LsAcquired"
    "bt_get (pj_snapshots (po_durable p)) i = (if pd_stage op = Persisted then Some (pd_next op) else None)"
    by (auto simp: cell_ok_def acquire_ok_def split: if_splits)
  show ?thesis
  proof (cases "pd_stage op = Refused")
    case False
    then show ?thesis
      unfolding settle_op_def using kind
      by (simp, intro rule) (use a stage_cases [OF k(2)] wf cap cq in auto)
  next
    case True
    let ?m = "bt_del i (po_leases p)"
    have d: "bt_count P ?m + of_bool (P (pd_next op)) = bt_count P (po_leases p)" for P
      using bt_count_del [OF wf(1), of P i] a(2) by simp
    have e: "settle_op op ?q = free_slot OpAcquire (pd_next op) (?q\<lparr>po_leases := ?m\<rparr>)"
      using True kind by (simp add: settle_op_def rollback_acquire_def i)
    have cm: "counted (settle_op op ?q)"
      unfolding e by (rule counted_free [OF cq, of i "pd_next op"]) (use a d in simp_all)
    have f: "po_leases (settle_op op ?q) = ?m"
      by (simp add: e free_slot_def Let_def)
    show ?thesis
      by (rule rule) (use cm f a True wf within_drop [OF cap d d] bt_wf_del in
          \<open>auto simp: e free_slot_def Let_def bt_get_del\<close>)
  qed
qed

lemma inv_settle_commit:
  assumes p: "pool_inv cfg p" and k: "k < length (po_pending p)" "pd_stage op = Persisted"
    and op: "op = po_pending p ! k" and kind: "pd_kind op \<noteq> OpAcquire"
  shows "pool_inv cfg (commit_op op (p\<lparr>po_pending := drop_nth k (po_pending p)\<rparr>))"
proof -
  note wf = pool_invD(1-3) [OF p] and cnt = pool_invD(6) [OF p] and cap = pool_invD(7) [OF p]
  define i where i: "i = lr_id (pd_next op)"
  let ?q1 = "clear_inflight i (p\<lparr>po_pending := drop_nth k (po_pending p)\<rparr>)"
  note rule = inv_drop_eq [OF p k(1) op i]
  obtain r where r: "bt_get (po_leases p) i = Some r" "rec_ok i r" "pd_version op = lr_version r"
    "step_ok (pd_kind op) r (pd_next op)"
    and dur: "bt_get (pj_snapshots (po_durable p)) i = (if pd_kind op = OpReclaim then None else Some (pd_next op))"
    by (rule transition_okE [OF pending_cell(2) [OF p k(1) op i] kind]) (use k(2) that in auto)
  have ours: "still_ours op (p\<lparr>po_pending := drop_nth k (po_pending p)\<rparr>)" "still_ours op ?q1"
    using r by (simp_all add: still_ours_def clear_inflight_def i [symmetric])
  note sh = step_shape [OF r(2,4)]
  show ?thesis
  proof (cases "pd_kind op = OpReclaim")
    case True
    let ?m = "bt_del i (po_leases p)"
    have e: "commit_op op (p\<lparr>po_pending := drop_nth k (po_pending p)\<rparr>) = ?q1\<lparr>po_leases := ?m\<rparr>"
      using True ours by (simp add: commit_op_def Let_def i [symmetric]) (simp add: clear_inflight_def)
    have d: "bt_count (holds t a) ?m = bt_count (holds t a) (po_leases p)"
      "bt_count (holds_in t) ?m = bt_count (holds_in t) (po_leases p)" for t a
      using bt_count_del [OF wf(1), of "holds t a" i] bt_count_del [OF wf(1), of "holds_in t" i] r(1) sh True
      by (simp_all add: holds_def holds_in_def)
    have "counted (?q1\<lparr>po_leases := ?m\<rparr>)"
      by (rule slots_same [OF cnt]) (use d in \<open>auto simp: clear_inflight_def\<close>)
    moreover have "within cfg ?m"
      by (rule within_le [OF cap]) (simp_all add: d)
    ultimately show ?thesis
      unfolding e by (intro rule) (use True dur wf bt_wf_del in \<open>auto simp: clear_inflight_def bt_get_del\<close>)
  next
    case False
    let ?m = "bt_put i (pd_next op) (po_leases p)"
    have e: "commit_op op (p\<lparr>po_pending := drop_nth k (po_pending p)\<rparr>)
        = free_slot (pd_kind op) (pd_next op) (?q1\<lparr>po_leases := ?m\<rparr>)"
      using False ours by (simp add: commit_op_def Let_def i [symmetric]) (simp add: clear_inflight_def)
    have d: "bt_count (holds t a) ?m + of_bool (holds t a r) = bt_count (holds t a) (po_leases p)"
      "bt_count (holds_in t) ?m + of_bool (holds_in t r) = bt_count (holds_in t) (po_leases p)" for t a
      using bt_count_put [OF wf(1), of "holds t a" i "pd_next op"]
        bt_count_put [OF wf(1), of "holds_in t" i "pd_next op"] r(1) sh False
      by (simp_all add: holds_def holds_in_def)
    have q1: "counted ?q1" "po_leases ?q1 = po_leases p"
      using slots_same [OF cnt, of ?q1] by (simp_all add: clear_inflight_def)
    have "counted (free_slot (pd_kind op) (pd_next op) (?q1\<lparr>po_leases := ?m\<rparr>))"
      by (rule counted_free [OF q1(1), of i r]) (use r sh False d q1(2) in \<open>auto simp: step_ok_def\<close>)
    then show ?thesis
      unfolding e by (intro rule) (use False dur wf within_drop [OF cap d] bt_wf_del bt_wf_put in
          \<open>auto simp: free_slot_def Let_def clear_inflight_def bt_get_del bt_get_put\<close>)
  qed
qed

lemma inv_settle:
  assumes p: "pool_inv cfg p" and k: "k < length (po_pending p)" "pd_stage (po_pending p ! k) \<noteq> Waiting"
    and op: "op = po_pending p ! k"
  shows "pool_inv cfg (settle_op op (p\<lparr>po_pending := drop_nth k (po_pending p)\<rparr>))"
proof -
  consider (acquire) "pd_kind op = OpAcquire" | (commit) "pd_kind op \<noteq> OpAcquire" "pd_stage op \<noteq> Refused"
    | (abort) "pd_kind op \<noteq> OpAcquire" "pd_stage op = Refused"
    by blast
  then show ?thesis
  proof cases
    case acquire
    then show ?thesis
      using inv_settle_acquire [OF p k(1) _ op] k(2) op by simp
  next
    case commit
    then show ?thesis
      using inv_settle_commit [OF p k(1) _ op] stage_cases k(2) op by (simp add: settle_op_def)
  next
    case abort
    define i where i: "i = lr_id (pd_next op)"
    have d: "bt_get (pj_snapshots (po_durable p)) i = bt_get (po_leases p) i"
      by (rule transition_okE [OF pending_cell(2) [OF p k(1) op i] abort(1)]) (use abort(2) in auto)
    have "counted (clear_inflight i (p\<lparr>po_pending := drop_nth k (po_pending p)\<rparr>))"
      by (rule slots_same [OF pool_invD(6) [OF p]]) (auto simp: clear_inflight_def)
    then have "pool_inv cfg (clear_inflight i (p\<lparr>po_pending := drop_nth k (po_pending p)\<rparr>))"
      by (intro inv_drop_eq [OF p k(1) op i])
        (use d pool_invD [OF p] bt_wf_del in \<open>auto simp: clear_inflight_def bt_get_del\<close>)
    then show ?thesis
      using abort by (simp add: settle_op_def i)
  qed
qed

subsection \<open>Restart\<close>

definition stored :: "projection \<Rightarrow> bool" where
  "stored d \<longleftrightarrow> bt_wf (pj_snapshots d) \<and> list_all ranked (pj_events d) \<and> (\<forall>i. stored_ok i (bt_get (pj_snapshots d) i) (versions_of d i))"

definition keeps :: "u64 \<Rightarrow> lease_record \<Rightarrow> bool" where
  "keeps now r \<longleftrightarrow> lr_state r = LsAcquired \<and> \<not> is_past_ttl now r"

text \<open>The transition of a restart takes an outstanding lease to the end of its life.\<close>

definition closes :: "projection \<Rightarrow> lease_record \<times> lease_event list \<Rightarrow> bool" where
  "closes d re \<longleftrightarrow> lr_state (fst re) = LsReclaimed
     \<and> list_all (\<lambda>e. event_lease e = lr_id (fst re)) (snd re) \<and> list_all ranked (snd re)
     \<and> bt_get (pj_snapshots d) (lr_id (fst re)) \<noteq> None
     \<and> versions_of d (lr_id (fst re)) @ map event_version (snd re) = [1, 2, 3, 4]"

lemma fold_closing:
  assumes "stored d" and "distinct (map (lr_id \<circ> fst) batch)" and "list_all (closes d) batch"
  shows "stored (fold (\<lambda>(r, es). projection_apply r es) batch d)
    \<and> (\<forall>i. bt_get (pj_snapshots (fold (\<lambda>(r, es). projection_apply r es) batch d)) i
           = (if i \<in> set (map (lr_id \<circ> fst) batch) then None else bt_get (pj_snapshots d) i))
    \<and> (\<forall>i. versions_of (fold (\<lambda>(r, es). projection_apply r es) batch d) i
           = (if i \<in> set (map (lr_id \<circ> fst) batch) then [1, 2, 3, 4] else versions_of d i))"
  using assms
proof (induction batch arbitrary: d)
  case (Cons re batch)
  obtain r es where re: "re = (r, es)" by force
  let ?d = "projection_apply r es d"
  have cl: "lr_state r = LsReclaimed" "list_all (\<lambda>e. event_lease e = lr_id r) es"
    "versions_of d (lr_id r) @ map event_version es = [1, 2, 3, 4]" and wf: "bt_wf (pj_snapshots d)"
    using Cons.prems by (simp_all add: re closes_def stored_def)
  have g: "bt_get (pj_snapshots ?d) i = (if i = lr_id r then None else bt_get (pj_snapshots d) i)" for i
    using wf cl(1) by (simp add: snapshots_apply is_terminal_lease_def)
  have "filter (\<lambda>e. event_lease e = i) es = (if i = lr_id r then es else [])" for i
    using cl(2) by (auto simp: list_all_iff filter_empty_conv intro: filter_True)
  then have v: "versions_of ?d i = (if i = lr_id r then [1, 2, 3, 4] else versions_of d i)" for i
    using cl(3) by (simp add: versions_apply)
  have "list_all ranked (pj_events ?d)"
    using Cons.prems(1,3) by (simp add: re closes_def stored_def projection_apply_def)
  then have st: "stored ?d"
    using Cons.prems(1) g v snapshots_apply_wf [OF wf] by (simp add: stored_def)
  have ne: "lr_id (fst x) \<noteq> lr_id r" if "x \<in> set batch" for x
    using Cons.prems(2) that by (force simp: re)
  have "list_all (closes ?d) batch"
    using Cons.prems(3) by (simp add: list_all_iff closes_def re g v ne)
  from Cons.IH [OF st _ this] Cons.prems(2) show ?case
    by (simp add: re g v)
qed simp

lemma plan_restore_cases:
  assumes "rec_ok i r"
  shows "snd (plan_restore_one now r) = (if keeps now r then [r] else [])"
    and "if keeps now r then fst (plan_restore_one now r) = []
      else \<exists>r' es. fst (plan_restore_one now r) = [(r', es)] \<and> lr_id r' = i \<and> lr_state r' = LsReclaimed
        \<and> list_all (\<lambda>e. event_lease e = i) es \<and> list_all ranked es
        \<and> map event_version es = (if lr_state r = LsAcquired then [3, 4] else [4])"
proof -
  have v: "sat_add_word 2 1 = (3 :: u64)" "sat_add_word 3 1 = (4 :: u64)"
    by (simp_all add: sat_add_word_small u64_max_def)
  note defs = rec_ok_def keeps_def is_past_ttl_def lease_expire_def lease_reclaim_def Let_def
    is_terminal_lease_def is_settled_def ranked_def v
  show "snd (plan_restore_one now r) = (if keeps now r then [r] else [])"
    using assms by (auto simp: defs)
  show "if keeps now r then fst (plan_restore_one now r) = []
      else \<exists>r' es. fst (plan_restore_one now r) = [(r', es)] \<and> lr_id r' = i \<and> lr_state r' = LsReclaimed
        \<and> list_all (\<lambda>e. event_lease e = i) es \<and> list_all ranked es
        \<and> map event_version es = (if lr_state r = LsAcquired then [3, 4] else [4])"
    using assms by (auto simp: defs)
qed

lemma restore_live_filter:
  "list_all (\<lambda>r. rec_ok (lr_id r) r) rs \<Longrightarrow> restore_live now rs = filter (keeps now) rs"
proof (induction rs)
  case (Cons r rs)
  then show ?case
    using plan_restore_cases(1) [of "lr_id r" r now] by (simp add: restore_live_def del: plan_restore_one.simps)
qed (simp add: restore_live_def)

lemma restore_batch_ids:
  "list_all (\<lambda>r. rec_ok (lr_id r) r) rs \<Longrightarrow>
     map (lr_id \<circ> fst) (restore_batch now rs) = map lr_id (filter (\<lambda>r. \<not> keeps now r) rs)"
proof (induction rs)
  case (Cons r rs)
  then show ?case
    using plan_restore_cases(2) [of "lr_id r" r now]
    by (auto simp: restore_batch_def simp del: plan_restore_one.simps split: if_splits)
qed (simp add: restore_batch_def)

lemma restore_batch_mem:
  assumes "list_all (\<lambda>r. rec_ok (lr_id r) r) rs" and "re \<in> set (restore_batch now rs)"
  shows "\<exists>r \<in> set rs. lr_id (fst re) = lr_id r \<and> lr_state (fst re) = LsReclaimed
        \<and> list_all (\<lambda>e. event_lease e = lr_id r) (snd re) \<and> list_all ranked (snd re)
        \<and> map event_version (snd re) = (if lr_state r = LsAcquired then [3, 4] else [4])"
proof -
  obtain r where r: "r \<in> set rs" "re \<in> set (fst (plan_restore_one now r))"
    using assms(2) by (auto simp: restore_batch_def simp del: plan_restore_one.simps)
  have "rec_ok (lr_id r) r"
    using assms(1) r(1) by (simp add: list_all_iff)
  from plan_restore_cases(2) [OF this, of now] r show ?thesis
    by (intro bexI [of _ r]) (auto simp del: plan_restore_one.simps split: if_splits)
qed

text \<open>Admitting the live leases again.\<close>

lemma admit_live_fields [simp]:
  "po_up (admit_live r p) = po_up p" "po_prefix (admit_live r p) = po_prefix p" "po_used (admit_live r p) = po_used p"
  "po_counter (admit_live r p) = po_counter p" "po_durable (admit_live r p) = po_durable p"
  "po_inflight (admit_live r p) = po_inflight p" "po_pending (admit_live r p) = po_pending p"
  "po_leases (admit_live r p) = bt_put (lr_id r) r (po_leases p)"
  by (simp_all add: admit_live_def take_slot_def Let_def)

lemma fold_admit_fields:
  "po_up (fold admit_live rs p) = po_up p" "po_prefix (fold admit_live rs p) = po_prefix p"
  "po_used (fold admit_live rs p) = po_used p" "po_counter (fold admit_live rs p) = po_counter p"
  "po_durable (fold admit_live rs p) = po_durable p" "po_inflight (fold admit_live rs p) = po_inflight p"
  "po_pending (fold admit_live rs p) = po_pending p"
  by (induction rs arbitrary: p) simp_all

lemma fold_admit:
  assumes "distinct (map lr_id rs)" and "list_all (\<lambda>r. lr_state r = LsAcquired) rs"
    and "list_all (\<lambda>r. bt_get (po_leases p) (lr_id r) = None) rs" and "counted p" and "bt_wf (po_leases p)"
  shows "counted (fold admit_live rs p) \<and> bt_wf (po_leases (fold admit_live rs p))
    \<and> (\<forall>i r. bt_get (po_leases (fold admit_live rs p)) i = Some r
          \<longleftrightarrow> bt_get (po_leases p) i = Some r \<or> r \<in> set rs \<and> lr_id r = i)"
  using assms
proof (induction rs arbitrary: p)
  case (Cons r rs)
  have "counted (admit_live r p)"
    using counted_take [of p r] Cons.prems by (simp add: admit_live_def Let_def take_slot_def)
  moreover have "list_all (\<lambda>x. bt_get (po_leases (admit_live r p)) (lr_id x) = None) rs"
    using Cons.prems by (auto simp: list_all_iff bt_get_put image_iff)
  ultimately have ih: "counted (fold admit_live rs (admit_live r p))
      \<and> bt_wf (po_leases (fold admit_live rs (admit_live r p)))
      \<and> (\<forall>i x. bt_get (po_leases (fold admit_live rs (admit_live r p))) i = Some x
          \<longleftrightarrow> bt_get (po_leases (admit_live r p)) i = Some x \<or> x \<in> set rs \<and> lr_id x = i)"
    using Cons.prems by (intro Cons.IH) (simp_all add: bt_wf_put)
  then show ?case
    using Cons.prems(3) by (auto simp: bt_get_put)
qed simp

text \<open>The outstanding snapshots of a sound projection and what a restart makes of them.\<close>

lemma option_eqI: "(\<And>x. a = Some x \<longleftrightarrow> b = Some x) \<Longrightarrow> a = b"
  by (cases a; cases b) auto

lemma load_mem:
  "stored d \<Longrightarrow> r \<in> set (load_outstanding d) \<longleftrightarrow> bt_get (pj_snapshots d) (lr_id r) = Some r"
proof -
  assume st: "stored d"
  then have wf: "bt_wf (pj_snapshots d)" and id: "bt_get (pj_snapshots d) i = Some x \<Longrightarrow> lr_id x = i" for i x
    by (auto simp: stored_def rec_ok_def dest!: spec [of _ i])
  have "r \<in> set (load_outstanding d) \<longleftrightarrow> (\<exists>i. bt_get (pj_snapshots d) i = Some r)"
    using wf by (force simp: load_outstanding_def bt_values_def bt_get_iff_mem)
  then show ?thesis
    using id by blast
qed

lemma load_ids: "stored d \<Longrightarrow> distinct (map lr_id (load_outstanding d))"
proof -
  assume st: "stored d"
  then have wf: "bt_wf (pj_snapshots d)" and id: "bt_get (pj_snapshots d) i = Some x \<Longrightarrow> lr_id x = i" for i x
    by (auto simp: stored_def rec_ok_def dest!: spec [of _ i])
  have "map lr_id (load_outstanding d) = bt_keys (pj_snapshots d)"
    unfolding load_outstanding_def bt_values_def bt_keys_def
    using wf id by (auto simp: bt_get_iff_mem)
  then show ?thesis
    using bt_wf_distinct [OF wf] by simp
qed

lemma restart_durable:
  fixes now n d
  assumes st: "stored d"
  defines "batch \<equiv> restore_batch now (load_outstanding d)"
  defines "d' \<equiv> fold (\<lambda>(r, es). projection_apply r es) (take n batch) d"
  shows "stored d'"
    and "bt_get (pj_snapshots d') i = Some r \<Longrightarrow> bt_get (pj_snapshots d) i = Some r"
    and "versions_of d' i \<noteq> [] \<Longrightarrow> versions_of d i \<noteq> []"
    and "length batch \<le> n \<Longrightarrow>
      bt_get (pj_snapshots d') i = Some r \<longleftrightarrow> bt_get (pj_snapshots d) i = Some r \<and> keeps now r"
proof -
  let ?rs = "load_outstanding d"
  have so: "stored_ok i (bt_get (pj_snapshots d) i) (versions_of d i)" for i
    using st by (simp add: stored_def)
  have ok: "rec_ok i x" if "bt_get (pj_snapshots d) i = Some x" for i x
    using so [of i] that by simp
  then have oks: "list_all (\<lambda>r. rec_ok (lr_id r) r) ?rs"
    using load_mem [OF st] by (auto simp: list_all_iff)
  have ids: "map (lr_id \<circ> fst) batch = map lr_id (filter (\<lambda>r. \<not> keeps now r) ?rs)"
    unfolding batch_def by (rule restore_batch_ids [OF oks])
  have dist: "distinct (map (lr_id \<circ> fst) batch)"
    unfolding ids by (rule distinct_map_filter [OF load_ids [OF st]])
  have "closes d re" if re: "re \<in> set batch" for re
  proof -
    obtain r where r: "r \<in> set ?rs" "lr_id (fst re) = lr_id r" "lr_state (fst re) = LsReclaimed"
      "list_all (\<lambda>e. event_lease e = lr_id r) (snd re)" "list_all ranked (snd re)"
      "map event_version (snd re) = (if lr_state r = LsAcquired then [3, 4] else [4])"
      using restore_batch_mem [OF oks re [unfolded batch_def]] by blast
    then have "bt_get (pj_snapshots d) (lr_id r) = Some r"
      using load_mem [OF st] by simp
    then show ?thesis
      using r so [of "lr_id r"] by (simp add: closes_def)
  qed
  then have cl: "list_all (closes d) (take n batch)"
    by (auto simp: list_all_iff dest: in_set_takeD)
  have dn: "distinct (map (lr_id \<circ> fst) (take n batch))"
    using dist by (simp add: take_map [symmetric])
  note f = fold_closing [OF st dn cl, folded d'_def]
  show "stored d'"
    using f by simp
  show "bt_get (pj_snapshots d') i = Some r \<Longrightarrow> bt_get (pj_snapshots d) i = Some r"
    using f by (simp split: if_splits)
  show "versions_of d' i \<noteq> [] \<Longrightarrow> versions_of d i \<noteq> []"
  proof -
    assume "versions_of d' i \<noteq> []"
    moreover have "versions_of d i \<noteq> []" if i: "i \<in> set (map (lr_id \<circ> fst) (take n batch))"
    proof -
      obtain re where "re \<in> set (take n batch)" "i = lr_id (fst re)"
        using i by auto
      then obtain r where "bt_get (pj_snapshots d) i = Some r"
        using cl by (auto simp: list_all_iff closes_def)
      then show ?thesis
        using so [of i] by (auto split: if_splits)
    qed
    ultimately show ?thesis
      using f by (simp split: if_splits)
  qed
  show "bt_get (pj_snapshots d') i = Some r \<longleftrightarrow> bt_get (pj_snapshots d) i = Some r \<and> keeps now r" if "length batch \<le> n"
  proof -
    have "i \<in> set (map (lr_id \<circ> fst) batch) \<longleftrightarrow> \<not> keeps now r" if "bt_get (pj_snapshots d) i = Some r"
    proof -
      have "lr_id r = i" "r \<in> set ?rs"
        using ok [OF that] load_mem [OF st, of r] that by (auto simp: rec_ok_def)
      moreover have "x = r" if "x \<in> set ?rs" "lr_id x = i" for x
        using load_mem [OF st, of x] that \<open>bt_get (pj_snapshots d) i = Some r\<close> by simp
      ultimately show ?thesis
        unfolding ids set_map set_filter by (metis (mono_tags, lifting) image_iff mem_Collect_eq)
    qed
    moreover have "bt_get (pj_snapshots d') i
        = (if i \<in> set (map (lr_id \<circ> fst) batch) then None else bt_get (pj_snapshots d) i)"
      using conjunct1 [OF conjunct2 [OF f], rule_format, of i] that by (simp only: take_all)
    ultimately show ?thesis
      by (metis option.distinct(1))
  qed
qed

lemma inv_stored: "pool_inv cfg p \<Longrightarrow> stored (po_durable p)"
  by (auto simp: pool_inv_def stored_def cell_ok_def cell_def)

lemma counted_empty: "po_accounts p = [] \<Longrightarrow> po_tenants p = [] \<Longrightarrow> po_leases p = [] \<Longrightarrow> counted p"
  by (simp add: counted_def active_count_for_def account_at_def tenant_active_def account_default_def)

lemma within_Nil [simp]: "within cfg []"
  by (simp add: within_def)

lemma inv_restart:
  assumes p: "pool_inv cfg p" and prefix: "prefix \<noteq> po_prefix p" "prefix \<notin> set (po_used p)"
  shows "pool_inv cfg (restart prefix now n p)"
    and "po_up (restart prefix now n p) \<Longrightarrow>
      (\<forall>i r. bt_get (po_leases (restart prefix now n p)) i = Some r
        \<longleftrightarrow> bt_get (pj_snapshots (po_durable p)) i = Some r \<and> keeps now r)"
proof -
  let ?d = "po_durable p" and ?p' = "restart prefix now n p"
  let ?rs = "load_outstanding ?d"
  let ?batch = "restore_batch now ?rs"
  let ?d' = "fold (\<lambda>(r, es). projection_apply r es) (take n ?batch) ?d"
  let ?p0 = "(pool_new prefix)\<lparr>po_durable := ?d', po_used := po_prefix p # po_used p, po_up := False\<rparr>"
  have st: "stored ?d"
    by (rule inv_stored [OF p])
  note rd = restart_durable [OF st, where now = now and n = n]
  have ok: "rec_ok i r" if "bt_get (pj_snapshots ?d) i = Some r" for i r
    using st that by (auto simp: stored_def dest!: spec [of _ i])
  have oks: "list_all (\<lambda>r. rec_ok (lr_id r) r) ?rs"
    using load_mem [OF st] ok by (auto simp: list_all_iff)
  have live: "restore_live now ?rs = filter (keeps now) ?rs"
    by (rule restore_live_filter [OF oks])
  have wd: "within cfg (pj_snapshots ?d')"
    by (rule within_durable [OF pool_invD(3) [OF p] _ pool_invD(8) [OF p]])
      (use rd(1) rd(2) in \<open>auto simp: stored_def\<close>)
  have fr: "fresh_ids q" if "po_prefix q = prefix" "po_used q = po_prefix p # po_used p" "po_durable q = ?d'"
    "po_pending q = []" for q
  proof -
    have "known q i" if "versions_of (po_durable q) i \<noteq> []" for i
    proof -
      have "versions_of ?d i \<noteq> []"
        by (rule rd(3)) (use that \<open>po_durable q = ?d'\<close> in simp)
      then have "known p i"
        using pool_invD(5) [OF p] by (simp add: fresh_ids_def)
      then show ?thesis
        unfolding known_def \<open>po_used q = po_prefix p # po_used p\<close> by auto
    qed
    then show ?thesis
      using that prefix by (simp add: fresh_ids_def ops_of_def)
  qed
  have cells: "cell_ok up i (m, bt_get (pj_snapshots ?d') i, None, [], versions_of ?d' i)"
    if "m = (if up then bt_get (pj_snapshots ?d') i else None)" for up i m
    using that rd(1) by (simp add: cell_ok_def stored_def)
  have "pool_inv cfg ?p' \<and> (po_up ?p' \<longrightarrow> (\<forall>i r. bt_get (po_leases ?p') i = Some r
        \<longleftrightarrow> bt_get (pj_snapshots ?d) i = Some r \<and> keeps now r))"
  proof (cases "n < length ?batch")
    case True
    then have e: "?p' = ?p0"
      by (simp add: restart_def Let_def)
    have "pool_inv cfg ?p0"
      using wd rd(1) fr [of ?p0] cells [where up = False] counted_empty [of ?p0]
      by (simp add: pool_inv_def pool_new_def cell_def ops_of_def stored_def)
    then show ?thesis
      unfolding e by simp
  next
    case False
    let ?q = "?p0\<lparr>po_up := True\<rparr>"
    let ?live = "filter (keeps now) ?rs"
    have e: "?p' = fold admit_live ?live ?q"
      using False by (simp add: restart_def Let_def live)
    have f: "counted ?p' \<and> bt_wf (po_leases ?p') \<and>
      (\<forall>i r. bt_get (po_leases ?p') i = Some r \<longleftrightarrow> bt_get (po_leases ?q) i = Some r \<or> r \<in> set ?live \<and> lr_id r = i)"
      unfolding e
      by (rule fold_admit) (use load_ids [OF st] in
        \<open>auto simp: distinct_map_filter list_all_iff keeps_def pool_new_def intro: counted_empty\<close>)
    have l: "bt_get (po_leases ?p') i = Some r \<longleftrightarrow> bt_get (pj_snapshots ?d) i = Some r \<and> keeps now r" for i r
      using f load_mem [OF st, of r] ok [of i r] by (auto simp: pool_new_def rec_ok_def)
    have ld: "bt_get (po_leases ?p') i = bt_get (pj_snapshots ?d') i" for i
      by (rule option_eqI) (use l [of i] rd(4) [of i] False in \<open>simp add: not_less\<close>)
    have fields: "po_up ?p' = True" "po_prefix ?p' = prefix" "po_used ?p' = po_prefix p # po_used p"
      "po_durable ?p' = ?d'" "po_inflight ?p' = []" "po_pending ?p' = []"
      unfolding e fold_admit_fields by (simp_all add: pool_new_def)
    have wl: "within cfg (po_leases ?p')"
      by (rule within_durable [OF _ _ wd]) (use f rd(1) ld in \<open>auto simp: stored_def\<close>)
    have "pool_inv cfg ?p'"
      using f wl wd rd(1) fr [of ?p'] fields cells [where up = True] ld
      by (simp add: pool_inv_def cell_def ops_of_def stored_def)
    then show ?thesis
      using l by simp
  qed
  then show "pool_inv cfg ?p'" and "po_up ?p' \<Longrightarrow> (\<forall>i r. bt_get (po_leases ?p') i = Some r
        \<longleftrightarrow> bt_get (pj_snapshots ?d) i = Some r \<and> keeps now r)"
    by blast+
qed

subsection \<open>Runs\<close>

text \<open>
  An orderly run: the scan for expired leases does not pick a lease whose \<open>acquire\<close> still waits for
  the projection, as when the time to live is longer than any write.
\<close>

fun orderly_step :: "pool_command \<Rightarrow> pool \<Rightarrow> bool" where
  "orderly_step (PlanExpire i now) p \<longleftrightarrow> \<not> acquiring p i"
| "orderly_step _ p \<longleftrightarrow> True"

fun orderly :: "pool_config \<Rightarrow> pool_command list \<Rightarrow> pool \<Rightarrow> bool" where
  "orderly cfg [] p \<longleftrightarrow> True"
| "orderly cfg (c # cs) p \<longleftrightarrow> orderly_step c p \<and>
     (case pool_exec cfg c p of None \<Rightarrow> True | Some p' \<Rightarrow> orderly cfg cs p')"

lemma inv_exec:
  assumes "pool_inv cfg p" and "pool_exec cfg c p = Some p'" and "orderly_step c p"
    and "unat (po_counter p) < u64_max"
  shows "pool_inv cfg p'"
proof (cases c)
  case (Persist k ok)
  then show ?thesis
    using assms inv_persist [OF assms(1), of k "po_pending p ! k" ok] by (simp add: Let_def split: if_splits)
next
  case (Settle k)
  then show ?thesis
    using assms inv_settle [OF assms(1), of k "po_pending p ! k"] by (simp split: if_splits)
qed (use assms in \<open>auto split: if_splits intro: inv_acquire inv_release inv_expire inv_reclaim inv_restart\<close>)

lemma inv_new: "pool_inv cfg (pool_new prefix)"
  by (auto simp: pool_inv_def pool_new_def projection_new_def cell_def cell_ok_def ops_of_def versions_of_def
      fresh_ids_def intro: counted_empty)

lemma counter_exec:
  assumes "pool_exec cfg c p = Some p'" and "unat (po_counter p) < u64_max"
  shows "unat (po_counter p') \<le> unat (po_counter p) + 1"
proof (cases c)
  case (Acquire req now)
  then show ?thesis
    using assms unat_Suc_u64 [OF assms(2)]
    by (auto simp: acquire_begin_def Let_def enlist_def take_slot_def split: if_splits option.splits prod.splits)
next
  case (Restart prefix now n)
  then show ?thesis
    using assms by (auto simp: restart_def Let_def fold_admit_fields pool_new_def split: if_splits)
qed (use assms in \<open>auto simp: release_begin_def plan_expire_def plan_reclaim_def plan_op_def enlist_def
      persist_op_def settle_op_def rollback_acquire_def commit_op_def clear_inflight_def free_slot_def Let_def
      split: if_splits option.splits sum.splits\<close>)

lemma inv_run:
  assumes "pool_inv cfg p" and "pool_run cfg cs p = Some p'" and "orderly cfg cs p"
    and "unat (po_counter p) + length cs \<le> u64_max"
  shows "pool_inv cfg p'"
  using assms
proof (induction cs arbitrary: p)
  case (Cons c cs)
  obtain q where q: "pool_exec cfg c p = Some q" "pool_run cfg cs q = Some p'"
    using Cons.prems(2) by (auto split: option.splits)
  have lt: "unat (po_counter p) < u64_max"
    using Cons.prems(4) by simp
  show ?case
  proof (rule Cons.IH)
    show "pool_inv cfg q"
      by (rule inv_exec [OF Cons.prems(1) q(1) _ lt]) (use Cons.prems(3) in simp)
    show "unat (po_counter q) + length cs \<le> u64_max"
      using counter_exec [OF q(1) lt] Cons.prems(4) by simp
  qed (use Cons.prems(3) q in auto)
qed simp

lemma inv_reachable:
  assumes "pool_run cfg cs (pool_new prefix) = Some p" and "orderly cfg cs (pool_new prefix)" and "length cs \<le> u64_max"
  shows "pool_inv cfg p"
  by (rule inv_run [OF inv_new assms(1,2)]) (use assms(3) in \<open>simp add: pool_new_def\<close>)

subsection \<open>Properties\<close>

text \<open>
  C4: Admission is exact and never overbooks. After any interleaving of acquires, releases, expiry
  and reclaim scans, projection failures and restarts in which no lease expires before its own
  acquire was persisted, the active count of every tenant and account is the number of leases in
  memory that are acquired for them, and it is at most the configured limit; the same holds of the
  tenant counter and the tenant cap.
\<close>

theorem pool_never_overbooks:
  assumes "pool_run cfg cs (pool_new prefix) = Some p" and "orderly cfg cs (pool_new prefix)"
    and "length cs \<le> u64_max"
  shows "active_count_for p t a
      = length (filter (\<lambda>r. lr_state r = LsAcquired \<and> lr_tenant r = t \<and> lr_account r = a) (bt_values (po_leases p)))
    \<and> tenant_active p t
      = length (filter (\<lambda>r. lr_state r = LsAcquired \<and> lr_tenant r = t) (bt_values (po_leases p)))
    \<and> active_count_for p t a \<le> unat (max_for cfg t a)
    \<and> (case pc_per_tenant cfg of None \<Rightarrow> True | Some m \<Rightarrow> tenant_active p t \<le> unat m)"
proof -
  have h: "holds t a = (\<lambda>r. lr_state r = LsAcquired \<and> lr_tenant r = t \<and> lr_account r = a)"
    "holds_in t = (\<lambda>r. lr_state r = LsAcquired \<and> lr_tenant r = t)" for t a
    by (simp_all add: fun_eq_iff holds_def holds_in_def)
  have "counted p" "within cfg (po_leases p)"
    using inv_reachable [OF assms] by (simp_all add: pool_inv_def)
  then show ?thesis
    unfolding counted_def within_def by (auto simp: bt_count_def h split: option.splits)
qed

text \<open>
  C5: In every orderly run, in which no lease expires before its own acquire is persisted, the persisted log of
  every lease is canonical, across crashes in the middle of any operation and across restarts: no event of it is
  repeated or missing. Its versions count from 1, the events
  are requested, acquired, then released or expired, then reclaimed, and the snapshot the
  projection holds is the one the log ends in; a lease without a snapshot has no event or all four. (The run of the
  slow acquire at the end of this theory is not orderly, and its log has a gap.)
\<close>

theorem lease_log_is_canonical:
  fixes i :: string and p :: pool
  assumes "pool_run cfg cs (pool_new prefix) = Some p" and "orderly cfg cs (pool_new prefix)"
    and "length cs \<le> u64_max"
  defines "es \<equiv> filter (\<lambda>e. event_lease e = i) (pj_events (po_durable p))"
  shows "map event_rank es = map event_version es
    \<and> (case bt_get (pj_snapshots (po_durable p)) i of
         None \<Rightarrow> map event_version es = [] \<or> map event_version es = [1, 2, 3, 4]
       | Some r \<Rightarrow> lr_id r = i \<and> map event_version es = (if lr_state r = LsAcquired then [1, 2] else [1, 2, 3])
           \<and> (lr_state r = LsAcquired \<or> lr_state r = LsReleased \<or> lr_state r = LsExpired)
           \<and> lr_version r = last (map event_version es))"
proof -
  note inv = inv_reachable [OF assms(1-3)]
  have "stored_ok i (bt_get (pj_snapshots (po_durable p)) i) (map event_version es)"
    using inv_stored [OF inv] by (simp add: stored_def versions_of_def es_def)
  moreover have "list_all ranked es"
    using pool_invD(9) [OF inv] by (auto simp: es_def list_all_iff)
  ultimately show ?thesis
    by (auto simp: rec_ok_def list_all_iff ranked_def split: option.splits)
qed

text \<open>
  A restart that completes rebuilds exactly the leases the projection holds as acquired and that
  are not past their time to live, and counts them; every other outstanding lease has been taken to
  its end in the log.
\<close>

theorem restart_rebuilds_live_leases:
  assumes "pool_run cfg cs (pool_new prefix) = Some p" and "orderly cfg cs (pool_new prefix)"
    and "length cs \<le> u64_max" and "pool_exec cfg (Restart prefix' now n) p = Some p'" and "po_up p'"
  shows "(\<forall>i r. bt_get (po_leases p') i = Some r \<longleftrightarrow>
        bt_get (pj_snapshots (po_durable p)) i = Some r \<and> lr_state r = LsAcquired \<and> now < lr_expires_at r)
    \<and> po_leases p' = pj_snapshots (po_durable p')
    \<and> active_count_for p' t a
      = length (filter (\<lambda>r. lr_state r = LsAcquired \<and> lr_tenant r = t \<and> lr_account r = a) (bt_values (po_leases p')))"
proof -
  note inv = inv_reachable [OF assms(1-3)]
  have g: "prefix' \<noteq> po_prefix p" "prefix' \<notin> set (po_used p)" and e: "p' = restart prefix' now n p"
    using assms(4) by (auto split: if_splits)
  note inv' = inv_restart(1) [OF inv g, of now n, folded e]
    and live = inv_restart(2) [OF inv g, of now n, folded e]
  have "po_pending p' = []"
    by (simp add: e restart_def Let_def fold_admit_fields pool_new_def)
  then have "bt_get (po_leases p') i = bt_get (pj_snapshots (po_durable p')) i" for i
    using pool_invD(4) [OF inv', of i] assms(5) by (simp add: cell_ok_def cell_def ops_of_def)
  then have "po_leases p' = pj_snapshots (po_durable p')"
    using pool_invD(1,3) [OF inv'] by (auto intro: bt_get_ext)
  moreover have "keeps now r \<longleftrightarrow> lr_state r = LsAcquired \<and> now < lr_expires_at r" for r
    by (auto simp: keeps_def is_past_ttl_def)
  ultimately show ?thesis
    using live assms(5) pool_invD(6) [OF inv'] unfolding counted_def bt_count_def holds_def by simp
qed

text \<open>
  An acquire that outlives its own lease overbooks the pool. The limit is one lease. While the
  write of the first lease is under way its time to live passes and a reclaim scan expires it, which
  frees its slot; a second lease takes the slot; then the write fails and the roll-back frees the
  slot a second time, so a third lease is admitted beside the second one.
\<close>

definition slow_request :: "string \<Rightarrow> acquire_request" where
  "slow_request ag = \<lparr>aq_tenant = ''t'', aq_principal = ''p'', aq_session = ''s'', aq_agent = ag,
     aq_provider = None, aq_account = Some ''a'', aq_trace = None\<rparr>"

definition slow_acquire :: "pool_command list" where
  "slow_acquire =
     [Acquire (slow_request ''x'') 0, PlanExpire ''lease-b-0'' 3600000, Persist 1 True, Settle 1,
      Acquire (slow_request ''y'') 3600000, Persist 1 True, Settle 1,
      Persist 0 False, Settle 0,
      Acquire (slow_request ''z'') 3600001]"

theorem slow_acquire_overbooks:
  "case pool_run (pool_config_new 1) slow_acquire (pool_new ''b'') of
     None \<Rightarrow> False
   | Some p \<Rightarrow> max_for (pool_config_new 1) ''t'' ''a'' = 1 \<and> active_count_for p ''t'' ''a'' = 1
       \<and> map lr_agent (filter (\<lambda>r. lr_state r = LsAcquired) (bt_values (po_leases p))) = [''y'', ''z'']"
  by code_simp

text \<open>Of the lease whose acquire was overtaken, only the expiry is persisted: its log starts at version 3.\<close>

lemma slow_acquire_log_has_a_gap:
  "case pool_run (pool_config_new 1) slow_acquire (pool_new ''b'') of
     None \<Rightarrow> False
   | Some p \<Rightarrow> map event_version (filter (\<lambda>e. event_lease e = ''lease-b-0'') (pj_events (po_durable p))) = [3]"
  by code_simp

end
