(* ===== verification/CredentialPoolLive.thy ===== *)
theory CredentialPoolLive
  imports CredentialPoolProps
begin

text \<open>
  What a single operation of the pool does when nothing interferes: a refused write changes
  nothing, and the reclaim scan gives back every slot held past its time to live.
\<close>

lemma drop_nth_last: "drop_nth (length xs) (xs @ [x]) = xs"
  by (simp add: drop_nth_def)

lemma bt_del_put_fresh: "bt_wf m \<Longrightarrow> bt_get m k = None \<Longrightarrow> bt_del k (bt_put k v m) = m"
  by (rule bt_get_ext) (auto simp: bt_wf_del bt_wf_put bt_get_del bt_get_put)

text \<open>The answers of the projection to an operation that was just planned.\<close>

lemma refused_plan:
  assumes p: "pool_inv cfg p" and r: "lr_id r = i" "bt_get (po_inflight p) i = None" "lr_id (fst ne) = i"
    and k: "k \<noteq> OpAcquire" and n: "n = length (po_pending p)"
  shows "pool_run cfg [Persist n False, Settle n] (plan_op k r ne p) = Some p"
  using k r n pool_invD(2) [OF p]
  by (simp add: plan_op_def enlist_def persist_op_def Let_def settle_op_def drop_nth_last clear_inflight_def
      bt_del_put_fresh)

lemma idle_inflight:
  "pool_inv cfg p \<Longrightarrow> po_pending p = [] \<Longrightarrow> bt_get (po_inflight p) i = None"
  using pool_invD(4) [of cfg p i] by (auto simp: cell_def cell_ok_def ops_of_def)

lemma idle_rec:
  "pool_inv cfg p \<Longrightarrow> po_pending p = [] \<Longrightarrow> po_up p \<Longrightarrow> bt_get (po_leases p) i = Some r \<Longrightarrow> rec_ok i r"
  using pool_invD(4) [of cfg p i]
  by (cases "bt_get (pj_snapshots (po_durable p)) i") (auto simp: cell_def cell_ok_def ops_of_def)

text \<open>An operation planned alone, accepted by the projection.\<close>

lemma plan_op_fields [simp]:
  "po_pending (plan_op k r ne p) = po_pending p @
     [\<lparr>pd_kind = k, pd_next = fst ne, pd_events = [snd ne], pd_version = lr_version r, pd_stage = Waiting\<rparr>]"
  "po_leases (plan_op k r ne p) = po_leases p" "po_up (plan_op k r ne p) = po_up p"
  by (simp_all add: plan_op_def enlist_def)

lemma persist_op_fields [simp]:
  "po_pending (persist_op ok op p) = po_pending p" "po_leases (persist_op ok op p) = po_leases p"
  "po_up (persist_op ok op p) = po_up p"
  by (simp_all add: persist_op_def)

lemma commit_op_fields:
  assumes "bt_get (po_leases p) (lr_id (pd_next op)) = Some r" and "pd_version op = lr_version r"
  shows "po_leases (commit_op op p) = (if pd_kind op = OpReclaim then bt_del (lr_id (pd_next op)) (po_leases p)
      else bt_put (lr_id (pd_next op)) (pd_next op) (po_leases p))"
    and "po_pending (commit_op op p) = po_pending p" and "po_up (commit_op op p) = po_up p"
  using assms by (simp_all add: commit_op_def Let_def still_ours_def clear_inflight_def free_slot_def)

lemma accepted_plan:
  assumes inv: "pool_inv cfg (plan_op k r ne p)" and up: "po_up p" and idle: "po_pending p = []"
    and k: "k \<noteq> OpAcquire" and r: "bt_get (po_leases p) i = Some r" and i: "lr_id (fst ne) = i"
  shows "\<exists>q. pool_run cfg [Persist 0 True, Settle 0] (plan_op k r ne p) = Some q \<and> pool_inv cfg q \<and> po_up q
    \<and> po_pending q = []
    \<and> po_leases q = (if k = OpReclaim then bt_del i (po_leases p) else bt_put i (fst ne) (po_leases p))"
proof -
  let ?p1 = "plan_op k r ne p"
  let ?op = "\<lparr>pd_kind = k, pd_next = fst ne, pd_events = [snd ne], pd_version = lr_version r, pd_stage = Waiting\<rparr>"
  let ?op' = "\<lparr>pd_kind = k, pd_next = fst ne, pd_events = [snd ne], pd_version = lr_version r, pd_stage = Persisted\<rparr>"
  define p2 where "p2 = persist_op True ?op (?p1\<lparr>po_pending := [?op']\<rparr>)"
  define p3 where "p3 = commit_op ?op' (p2\<lparr>po_pending := []\<rparr>)"
  have two: "pool_exec cfg (Persist 0 True) ?p1 = Some p2"
    by (simp add: idle Let_def p2_def)
  have three: "pool_exec cfg (Settle 0) p2 = Some p3"
    by (simp add: p2_def p3_def drop_nth_def settle_op_def k)
  have pend: "(po_pending ?p1)[0 := ?op\<lparr>pd_stage := if True then Persisted else Refused\<rparr>] = [?op']"
    by (simp add: idle)
  have inv2: "pool_inv cfg p2"
    unfolding p2_def pend [symmetric] by (rule inv_persist [OF inv]) (simp_all add: idle)
  have pend2: "po_pending p2 = [?op']"
    by (simp add: p2_def)
  have settle: "settle_op ?op' (p2\<lparr>po_pending := drop_nth 0 (po_pending p2)\<rparr>) = p3"
    by (simp add: p3_def pend2 drop_nth_def settle_op_def k)
  have "pool_inv cfg p3"
    unfolding settle [symmetric] by (rule inv_settle [OF inv2]) (simp_all add: pend2)
  moreover have "po_leases p3 = (if k = OpReclaim then bt_del i (po_leases p) else bt_put i (fst ne) (po_leases p))
      \<and> po_pending p3 = [] \<and> po_up p3"
  proof -
    have q: "po_leases (p2\<lparr>po_pending := []\<rparr>) = po_leases p" "po_up p2"
      by (simp_all add: p2_def up)
    have o: "lr_id (pd_next ?op') = i" "pd_version ?op' = lr_version r" "pd_kind ?op' = k" "pd_next ?op' = fst ne"
      by (simp_all add: i)
    have g: "bt_get (po_leases (p2\<lparr>po_pending := []\<rparr>)) (lr_id (pd_next ?op')) = Some r"
      using r by (simp add: q i)
    show ?thesis
      unfolding p3_def using commit_op_fields [OF g o(2)] unfolding q o by (simp add: q i)
  qed
  ultimately show ?thesis
    using two three by simp
qed

text \<open>One round of each phase.\<close>

lemma expire_round:
  assumes p: "pool_inv cfg p" and up: "po_up p" and idle: "po_pending p = []"
    and r: "bt_get (po_leases p) i = Some r" "is_past_ttl now r"
  shows "\<exists>q n. pool_run cfg [PlanExpire i now, Persist 0 True, Settle 0] p = Some q \<and> pool_inv cfg q \<and> po_up q
    \<and> po_pending q = [] \<and> po_leases q = bt_put i n (po_leases p) \<and> lr_state n = LsExpired"
proof -
  have ok: "rec_ok i r" and fly: "bt_get (po_inflight p) i = None"
    using idle_rec [OF p idle up r(1)] idle_inflight [OF p idle] by auto
  obtain ne where ne: "lease_expire now r = Inr ne"
    using r(2) by (auto simp: lease_expire_def is_past_ttl_def Let_def)
  have plan: "plan_expire i now p = Some (plan_op OpExpire r ne p)"
    using r fly ne by (simp add: plan_expire_def)
  have st: "lr_state (fst ne) = LsExpired" "lr_id (fst ne) = i"
    using expire_step [OF ok ne] ok by (simp_all add: step_ok_def rec_ok_def)
  have "pool_inv cfg (plan_op OpExpire r ne p)"
    by (rule inv_expire [OF p up _ plan]) (simp add: acquiring_def idle)
  moreover have "pool_run cfg (PlanExpire i now # cs) p = pool_run cfg cs (plan_op OpExpire r ne p)" for cs
    using plan up by simp
  ultimately show ?thesis
    using accepted_plan [OF _ up idle _ r(1) st(2), of cfg OpExpire] st(1) by (metis op_kind.distinct(3,11))
qed

lemma refused_expire_round:
  assumes p: "pool_inv cfg p" and up: "po_up p" and idle: "po_pending p = []"
    and r: "bt_get (po_leases p) i = Some r" "is_past_ttl now r"
  shows "pool_run cfg [PlanExpire i now, Persist 0 False, Settle 0] p = Some p"
proof -
  have ok: "rec_ok i r" and fly: "bt_get (po_inflight p) i = None"
    using idle_rec [OF p idle up r(1)] idle_inflight [OF p idle] by auto
  obtain ne where ne: "lease_expire now r = Inr ne"
    using r(2) by (auto simp: lease_expire_def is_past_ttl_def Let_def)
  have plan: "plan_expire i now p = Some (plan_op OpExpire r ne p)"
    using r fly ne by (simp add: plan_expire_def)
  have "lr_id r = i" "lr_id (fst ne) = i"
    using expire_step [OF ok ne] ok by (simp_all add: step_ok_def rec_ok_def)
  from refused_plan [OF p this(1) fly this(2)] idle have "pool_run cfg [Persist 0 False, Settle 0] (plan_op OpExpire r ne p) = Some p"
    by simp
  moreover have "pool_run cfg (PlanExpire i now # cs) p = pool_run cfg cs (plan_op OpExpire r ne p)" for cs
    using plan up by simp
  ultimately show ?thesis
    by (simp only:)
qed

lemma refused_reclaim_round:
  assumes p: "pool_inv cfg p" and up: "po_up p" and idle: "po_pending p = []"
    and r: "bt_get (po_leases p) i = Some r" "is_settled (lr_state r)"
  shows "pool_run cfg [PlanReclaim i now, Persist 0 False, Settle 0] p = Some p"
proof -
  have ok: "rec_ok i r" and fly: "bt_get (po_inflight p) i = None"
    using idle_rec [OF p idle up r(1)] idle_inflight [OF p idle] by auto
  obtain ne where ne: "lease_reclaim now r = Inr ne"
    using r(2) ok by (auto simp: lease_reclaim_def is_settled_def is_terminal_lease_def rec_ok_def Let_def)
  have plan: "plan_reclaim i now p = Some (plan_op OpReclaim r ne p)"
    using r fly ne by (simp add: plan_reclaim_def)
  have "lr_id r = i" "lr_id (fst ne) = i"
    using reclaim_step [OF ok ne] ok by (simp_all add: step_ok_def rec_ok_def)
  from refused_plan [OF p this(1) fly this(2)] idle have "pool_run cfg [Persist 0 False, Settle 0] (plan_op OpReclaim r ne p) = Some p"
    by simp
  moreover have "pool_run cfg (PlanReclaim i now # cs) p = pool_run cfg cs (plan_op OpReclaim r ne p)" for cs
    using plan up by simp
  ultimately show ?thesis
    by (simp only:)
qed

lemma reclaim_round:
  assumes p: "pool_inv cfg p" and up: "po_up p" and idle: "po_pending p = []"
    and r: "bt_get (po_leases p) i = Some r" "is_settled (lr_state r)"
  shows "\<exists>q. pool_run cfg [PlanReclaim i now, Persist 0 True, Settle 0] p = Some q \<and> pool_inv cfg q \<and> po_up q
    \<and> po_pending q = [] \<and> po_leases q = bt_del i (po_leases p)"
proof -
  have ok: "rec_ok i r" and fly: "bt_get (po_inflight p) i = None"
    using idle_rec [OF p idle up r(1)] idle_inflight [OF p idle] by auto
  obtain ne where ne: "lease_reclaim now r = Inr ne"
    using r(2) ok by (auto simp: lease_reclaim_def is_settled_def is_terminal_lease_def rec_ok_def Let_def)
  have plan: "plan_reclaim i now p = Some (plan_op OpReclaim r ne p)"
    using r fly ne by (simp add: plan_reclaim_def)
  have st: "lr_id (fst ne) = i"
    using reclaim_step [OF ok ne] ok by (simp add: step_ok_def rec_ok_def)
  have "pool_inv cfg (plan_op OpReclaim r ne p)"
    by (rule inv_reclaim [OF p up plan])
  moreover have "pool_run cfg (PlanReclaim i now # cs) p = pool_run cfg cs (plan_op OpReclaim r ne p)" for cs
    using plan up by simp
  ultimately show ?thesis
    using accepted_plan [OF _ up idle _ r(1) st, of cfg OpReclaim] by (metis op_kind.distinct(5))
qed

subsection \<open>The scan\<close>

text \<open>What both phases keep: the pool is idle and sound, and the live leases stay as they are.\<close>

definition live_of :: "u64 \<Rightarrow> pool \<Rightarrow> string \<Rightarrow> lease_record option" where
  "live_of now p i = (case bt_get (po_leases p) i of None \<Rightarrow> None | Some r \<Rightarrow> if keeps now r then Some r else None)"

definition quiet :: "pool_config \<Rightarrow> pool \<Rightarrow> bool" where
  "quiet cfg p \<longleftrightarrow> pool_inv cfg p \<and> po_up p \<and> po_pending p = []"

lemma candidate_None:
  assumes "quiet cfg p"
  shows "expire_candidate now p = None \<longleftrightarrow> (\<forall>i r. bt_get (po_leases p) i = Some r \<longrightarrow> \<not> is_past_ttl now r)"
    and "reclaim_candidate p = None \<longleftrightarrow> (\<forall>i r. bt_get (po_leases p) i = Some r \<longrightarrow> \<not> is_settled (lr_state r))"
  using assms idle_inflight [of cfg p]
  by (auto simp: quiet_def expire_candidate_def reclaim_candidate_def find_None_iff bt_get_None_iff
      dest: bt_get_key split: option.splits)

lemma candidate_Some:
  "expire_candidate now p = Some i \<Longrightarrow> \<exists>r. bt_get (po_leases p) i = Some r \<and> is_past_ttl now r"
  "reclaim_candidate p = Some i \<Longrightarrow> \<exists>r. bt_get (po_leases p) i = Some r \<and> is_settled (lr_state r)"
  by (auto simp: expire_candidate_def reclaim_candidate_def find_Some_iff split: option.splits)

text \<open>The leases that hold a slot, and how a phase may end.\<close>

definition held :: "pool \<Rightarrow> (string \<times> lease_record) set" where
  "held p = {(i, r). bt_get (po_leases p) i = Some r \<and> lr_state r = LsAcquired}"

definition scan_end :: "(nat \<Rightarrow> bool) \<Rightarrow> (pool_error, reclaim_report) result \<Rightarrow> bool \<Rightarrow> bool" where
  "scan_end answer res finished \<longleftrightarrow>
     (case res of Inr rp \<Rightarrow> finished | Inl e \<Rightarrow> e = ProjectionFailed \<and> \<not> (\<forall>n. answer n))"

lemma scan_end_simps [simp]:
  "scan_end answer (Inr rp) b = b" "\<not> answer n \<Longrightarrow> scan_end answer (Inl ProjectionFailed) b"
  by (auto simp: scan_end_def)

lemma expire_phase_run:
  assumes "quiet cfg p" and "bt_count (is_past_ttl now) (po_leases p) \<le> fuel"
  shows "\<exists>res q. expire_phase cfg now answer fuel rp p = Some (res, q) \<and> quiet cfg q \<and> live_of now q = live_of now p
    \<and> length (po_leases q) = length (po_leases p) \<and> held q \<subseteq> held p
    \<and> scan_end answer res (\<forall>i r. bt_get (po_leases q) i = Some r \<longrightarrow> \<not> is_past_ttl now r)"
  using assms
proof (induction fuel arbitrary: p rp)
  case (Suc f)
  show ?case
  proof (cases "expire_candidate now p")
    case None
    then show ?thesis
      using Suc.prems(1) candidate_None(1) [OF Suc.prems(1), of now] by simp
  next
    case (Some i)
    obtain r where r: "bt_get (po_leases p) i = Some r" "is_past_ttl now r"
      using candidate_Some(1) [OF Some] by blast
    have qp: "pool_inv cfg p" "po_up p" "po_pending p = []"
      using Suc.prems(1) by (simp_all add: quiet_def)
    show ?thesis
    proof (cases "answer (scan_write rp)")
      case False
      then show ?thesis
        using Some qp(3) refused_expire_round [OF qp r] Suc.prems(1) by (simp add: Let_def del: pool_run.simps)
    next
      case True
      obtain q n where q: "pool_run cfg [PlanExpire i now, Persist 0 True, Settle 0] p = Some q" "quiet cfg q"
        "po_leases q = bt_put i n (po_leases p)" "lr_state n = LsExpired"
        using expire_round [OF qp r] unfolding quiet_def by blast
      have n: "\<not> is_past_ttl now n" "\<not> keeps now n" "\<not> keeps now r"
        using q(4) r(2) by (auto simp: is_past_ttl_def keeps_def)
      have "bt_count (is_past_ttl now) (po_leases q) < bt_count (is_past_ttl now) (po_leases p)"
        using bt_count_put [OF pool_invD(1) [OF qp(1)], of "is_past_ttl now" i n] r n by (simp add: q(3))
      then have less: "bt_count (is_past_ttl now) (po_leases q) \<le> f"
        using Suc.prems(2) by simp
      have keep: "live_of now q = live_of now p" "held q \<subseteq> held p"
        using r n q(4) by (auto simp: live_of_def held_def q(3) bt_get_put fun_eq_iff split: if_splits)
      have len: "length (po_leases q) = length (po_leases p)"
        using bt_keys_put_present [OF pool_invD(1) [OF qp(1)] bt_get_key [OF r(1)], of n] q(3)
        by (metis bt_keys_def length_map)
      have "expire_phase cfg now answer (Suc f) rp p = expire_phase cfg now answer f (rp\<lparr>rr_expired := rr_expired rp + 1\<rparr>) q"
        using Some q(1) qp(3) True by (simp add: Let_def del: pool_run.simps)
      then show ?thesis
        using Suc.IH [OF q(2) less, of "rp\<lparr>rr_expired := rr_expired rp + 1\<rparr>"] keep len
        by (simp only: keep(1) len) (blast intro: order_trans)
    qed
  qed
next
  case 0
  then have "bt_count (is_past_ttl now) (po_leases p) = 0"
    by simp
  then have "\<forall>i r. bt_get (po_leases p) i = Some r \<longrightarrow> \<not> is_past_ttl now r"
    using bt_count_pos by (metis less_irrefl)
  then show ?case
    using 0(1) candidate_None(1) [OF 0(1), of now] by simp
qed

lemma all_live:
  assumes "quiet cfg p" and "\<forall>i r. bt_get (po_leases p) i = Some r \<longrightarrow> \<not> is_past_ttl now r"
    and "\<forall>i r. bt_get (po_leases p) i = Some r \<longrightarrow> \<not> is_settled (lr_state r)"
  shows "bt_get (po_leases p) = live_of now p"
proof
  fix i
  show "bt_get (po_leases p) i = live_of now p i"
  proof (cases "bt_get (po_leases p) i")
    case (Some r)
    then have "rec_ok i r"
      using assms(1) idle_rec by (auto simp: quiet_def)
    then show ?thesis
      using Some assms(2,3) by (auto simp: live_of_def keeps_def rec_ok_def is_settled_def)
  qed (simp add: live_of_def)
qed

lemma reclaim_phase_run:
  assumes "quiet cfg p" and "bt_count (\<lambda>r. is_settled (lr_state r)) (po_leases p) \<le> fuel"
    and "\<forall>i r. bt_get (po_leases p) i = Some r \<longrightarrow> \<not> is_past_ttl now r"
  shows "\<exists>res q. reclaim_phase cfg now answer fuel rp p = Some (res, q) \<and> quiet cfg q \<and> live_of now q = live_of now p
    \<and> held q \<subseteq> held p \<and> scan_end answer res (bt_get (po_leases q) = live_of now p)"
  using assms
proof (induction fuel arbitrary: p rp)
  case (Suc f)
  show ?case
  proof (cases "reclaim_candidate p")
    case None
    then show ?thesis
      using Suc.prems(1) candidate_None(2) [OF Suc.prems(1)] all_live [OF Suc.prems(1,3)] by simp
  next
    case (Some i)
    obtain r where r: "bt_get (po_leases p) i = Some r" "is_settled (lr_state r)"
      using candidate_Some(2) [OF Some] by blast
    have qp: "pool_inv cfg p" "po_up p" "po_pending p = []"
      using Suc.prems(1) by (simp_all add: quiet_def)
    note wf = pool_invD(1) [OF qp(1)]
    show ?thesis
    proof (cases "answer (scan_write rp)")
      case False
      then show ?thesis
        using Some qp(3) refused_reclaim_round [OF qp r, of now] Suc.prems(1) by (simp add: Let_def del: pool_run.simps)
    next
      case True
      obtain q where q: "pool_run cfg [PlanReclaim i now, Persist 0 True, Settle 0] p = Some q" "quiet cfg q"
        "po_leases q = bt_del i (po_leases p)"
        using reclaim_round [OF qp r] unfolding quiet_def by blast
      have "bt_count (\<lambda>r. is_settled (lr_state r)) (po_leases q) < bt_count (\<lambda>r. is_settled (lr_state r)) (po_leases p)"
        using bt_count_del [OF wf, of "\<lambda>r. is_settled (lr_state r)" i] r by (simp add: q(3))
      then have less: "bt_count (\<lambda>r. is_settled (lr_state r)) (po_leases q) \<le> f"
        using Suc.prems(2) by simp
      have keep: "live_of now q = live_of now p" "held q \<subseteq> held p"
        using r wf by (auto simp: live_of_def held_def q(3) bt_get_del fun_eq_iff keeps_def is_settled_def split: if_splits)
      have old: "\<forall>i r. bt_get (po_leases q) i = Some r \<longrightarrow> \<not> is_past_ttl now r"
        using Suc.prems(3) wf by (auto simp: q(3) bt_get_del)
      let ?rp = "rp\<lparr>rr_reclaimed := rr_reclaimed rp + 1, rr_lease_ids := rr_lease_ids rp @ [i]\<rparr>"
      have "reclaim_phase cfg now answer (Suc f) rp p = reclaim_phase cfg now answer f ?rp q"
        using Some q(1) qp(3) True by (simp add: Let_def del: pool_run.simps)
      then show ?thesis
        using Suc.IH [OF q(2) less old, of ?rp] keep by (simp only: keep(1)) (blast intro: order_trans)
    qed
  qed
next
  case 0
  then have "bt_count (\<lambda>r. is_settled (lr_state r)) (po_leases p) = 0"
    by simp
  then have no: "\<forall>i r. bt_get (po_leases p) i = Some r \<longrightarrow> \<not> is_settled (lr_state r)"
    using bt_count_pos by (metis less_irrefl)
  then show ?case
    using 0(1) candidate_None(2) [OF 0(1)] all_live [OF 0(1,3) no] by simp
qed

lemma reclaim_expired_run:
  assumes "quiet cfg p" and "length (po_leases p) \<le> fuel"
  shows "\<exists>res q. reclaim_expired cfg now answer fuel p = Some (res, q) \<and> quiet cfg q \<and> live_of now q = live_of now p
    \<and> held q \<subseteq> held p \<and> scan_end answer res (bt_get (po_leases q) = live_of now p)"
proof -
  have len: "bt_count P m \<le> length m" for P and m :: "(string, lease_record) btree"
    using length_filter_le [of P "map snd m"] by (simp add: bt_count_def bt_values_def)
  obtain res q where q: "expire_phase cfg now answer fuel report_empty p = Some (res, q)" "quiet cfg q" "live_of now q = live_of now p"
    "length (po_leases q) = length (po_leases p)" "held q \<subseteq> held p"
    "scan_end answer res (\<forall>i r. bt_get (po_leases q) i = Some r \<longrightarrow> \<not> is_past_ttl now r)"
    using expire_phase_run [OF assms(1) order_trans [OF len assms(2)], of now answer report_empty] by blast
  show ?thesis
  proof (cases res)
    case (Inl e)
    then show ?thesis
      using q by (simp add: reclaim_expired_def scan_end_def del: expire_phase.simps)
  next
    case (Inr rp)
    then have "\<forall>i r. bt_get (po_leases q) i = Some r \<longrightarrow> \<not> is_past_ttl now r"
      using q(6) by simp
    then obtain res' s where "reclaim_phase cfg now answer fuel rp q = Some (res', s)" "quiet cfg s" "live_of now s = live_of now q"
      "held s \<subseteq> held q" "scan_end answer res' (bt_get (po_leases s) = live_of now q)"
      using reclaim_phase_run [OF q(2) order_trans [OF len], of fuel now answer rp] q(4) assms(2) by auto
    then show ?thesis
      using q Inr by (auto simp: reclaim_expired_def simp del: expire_phase.simps reclaim_phase.simps)
  qed
qed

text \<open>Of a quiet pool the active counts are the numbers of leases that hold a slot.\<close>

lemma quiet_counts:
  assumes "quiet cfg q"
  shows "active_count_for q t a
    = length (filter (\<lambda>r. lr_tenant r = t \<and> lr_account r = a \<and> lr_state r = LsAcquired) (bt_values (po_leases q)))"
proof -
  have "pool_inv cfg q"
    using assms by (simp add: quiet_def)
  moreover have "holds t a = (\<lambda>r. lr_tenant r = t \<and> lr_account r = a \<and> lr_state r = LsAcquired)"
    by (auto simp: holds_def fun_eq_iff)
  ultimately show ?thesis
    using pool_invD(6) [of cfg q] by (simp add: counted_def bt_count_def)
qed

subsection \<open>Properties\<close>

text \<open>
  A refused write costs nothing. When the projection refuses the write of a release that was
  under way, the pool is exactly the one before the release, whatever else is pending: the lease
  holds its slot, no event was persisted, and the release can be tried again.
\<close>

theorem refused_release_changes_nothing:
  assumes "pool_run cfg cs (pool_new prefix) = Some p" and "orderly cfg cs (pool_new prefix)"
    and "length cs \<le> u64_max" and "po_up p" and "\<not> acquiring p i" and "\<not> snd (release_begin i out now p)"
  shows "pool_run cfg [Release i out now, Persist (length (po_pending p)) False, Settle (length (po_pending p))] p = Some p"
proof -
  note inv = inv_reachable [OF assms(1-3)]
  obtain r ne where r: "bt_get (po_leases p) i = Some r" "bt_get (po_inflight p) i = None"
    and ne: "lease_release out now r = Inr ne" and e: "fst (release_begin i out now p) = plan_op (OpRelease out) r ne p"
    using assms(6) by (auto simp: release_begin_def split: option.splits sum.splits if_splits)
  have "rec_ok i r"
    using idle_cell [OF _ r] pool_invD(4) [OF inv, of i] assms(4,5) by simp
  then have "lr_id r = i" "lr_id (fst ne) = i"
    using release_step [OF _ ne] by (auto simp: rec_ok_def step_ok_def)
  from refused_plan [OF inv this(1) r(2) this(2)] show ?thesis
    using assms(4,5) e by (simp del: pool_exec.simps(5,6))
qed

text \<open>
  C39: No slot is leaked for good. When nothing else is under way and the clock stands still, the reclaim scan ends,
  within as many rounds in each phase as there are leases, whatever the projection answers to its writes. If it
  succeeds, it leaves exactly the leases that are acquired and within their time to live. It fails only where the
  projection refused a write; then it stops there, every lease that is acquired and within its time to live is as
  it was, no lease got a slot, and the pool is again one from which the scan can run: the next scan whose
  writes are all accepted leaves exactly the same leases as a scan that never failed. At every end the active count of
  every account is the number of its leases that are acquired.
\<close>

theorem reclaim_gives_slots_back:
  assumes "pool_run cfg cs (pool_new prefix) = Some p" and "orderly cfg cs (pool_new prefix)"
    and "length cs \<le> u64_max" and "po_up p" and "po_pending p = []" and "length (po_leases p) \<le> fuel"
  shows "case reclaim_expired cfg now answer fuel p of
      None \<Rightarrow> False
    | Some (res, q) \<Rightarrow>
        (case res of
           Inr rp \<Rightarrow> (\<forall>i r. bt_get (po_leases q) i = Some r \<longleftrightarrow>
             bt_get (po_leases p) i = Some r \<and> lr_state r = LsAcquired \<and> now < lr_expires_at r)
         | Inl e \<Rightarrow> e = ProjectionFailed \<and> \<not> (\<forall>n. answer n) \<and> held q \<subseteq> held p
             \<and> (\<forall>i r. bt_get (po_leases p) i = Some r \<and> lr_state r = LsAcquired \<and> now < lr_expires_at r
                  \<longrightarrow> bt_get (po_leases q) i = Some r)
             \<and> (case reclaim_expired cfg now (\<lambda>_. True) (length (po_leases q)) q of
                  Some (Inr _, s) \<Rightarrow> (\<forall>i r. bt_get (po_leases s) i = Some r \<longleftrightarrow>
                    bt_get (po_leases p) i = Some r \<and> lr_state r = LsAcquired \<and> now < lr_expires_at r)
                | _ \<Rightarrow> False))
        \<and> active_count_for q t a
          = length (filter (\<lambda>r. lr_tenant r = t \<and> lr_account r = a \<and> lr_state r = LsAcquired) (bt_values (po_leases q)))"
proof -
  have q0: "quiet cfg p"
    using inv_reachable [OF assms(1-3)] assms(4,5) by (simp add: quiet_def)
  obtain res q where q: "reclaim_expired cfg now answer fuel p = Some (res, q)" "quiet cfg q" "live_of now q = live_of now p"
    "held q \<subseteq> held p" "scan_end answer res (bt_get (po_leases q) = live_of now p)"
    using reclaim_expired_run [OF q0 assms(6), of now answer] by blast
  obtain res' s where s: "reclaim_expired cfg now (\<lambda>_. True) (length (po_leases q)) q = Some (res', s)"
    "scan_end (\<lambda>_. True) res' (bt_get (po_leases s) = live_of now q)"
    using reclaim_expired_run [OF q(2) order_refl, of now "\<lambda>_. True"] by blast
  then obtain rp where again: "res' = Inr rp" "bt_get (po_leases s) = live_of now p"
    using q(3) by (cases res') (simp_all add: scan_end_def)
  have live: "live_of now p i = Some r \<longleftrightarrow> bt_get (po_leases p) i = Some r \<and> lr_state r = LsAcquired \<and> now < lr_expires_at r" for i r
    by (auto simp: live_of_def keeps_def is_past_ttl_def split: option.splits)
  have stays: "bt_get (po_leases q) i = Some r" if "live_of now p i = Some r" for i r
    using that q(3) by (auto simp: live_of_def fun_eq_iff split: option.splits if_splits)
  show ?thesis
    using q s(1) again stays quiet_counts [OF q(2)] by (cases res) (simp_all add: scan_end_def live)
qed

subsection \<open>The properties on a concrete run\<close>

text \<open>
  Two acquires under a limit of two, a release whose write is refused and then tried again, a reclaim
  whose commit is lost in a crash, a restart and a third acquire.
\<close>

definition demo_config :: pool_config where
  "demo_config = pool_config_new 2"

definition demo_run :: "pool_command list" where
  "demo_run =
     [Acquire (slow_request ''x'') 0, Persist 0 True, Settle 0,
      Acquire (slow_request ''y'') 5, Persist 0 True, Settle 0,
      Release ''lease-b-0'' LeaseFailed 6, Persist 0 False, Settle 0,
      Release ''lease-b-0'' LeaseCompleted 7, Persist 0 True, Settle 0,
      PlanReclaim ''lease-b-0'' 8, Persist 0 True,
      Restart ''c'' 10 5, Acquire (slow_request ''z'') 11, Persist 0 True, Settle 0]"

definition demo_pool :: pool where
  "demo_pool = the (pool_run demo_config demo_run (pool_new ''b''))"

lemma demo_facts:
  "pool_run demo_config demo_run (pool_new ''b'') = Some demo_pool"
  "orderly demo_config demo_run (pool_new ''b'')" "length demo_run \<le> u64_max"
proof -
  have "pool_run demo_config demo_run (pool_new ''b'') \<noteq> None"
    by code_simp
  then show "pool_run demo_config demo_run (pool_new ''b'') = Some demo_pool"
    by (auto simp: demo_pool_def)
  show "orderly demo_config demo_run (pool_new ''b'')"
    by code_simp
  show "length demo_run \<le> u64_max"
    by (simp add: demo_run_def u64_max_def)
qed

lemma pool_never_overbooks_witness:
  "active_count_for demo_pool ''t'' ''a'' = 2 \<and> active_count_for demo_pool ''t'' ''a'' \<le> unat (max_for demo_config ''t'' ''a'')"
proof -
  have "active_count_for demo_pool ''t'' ''a'' = 2"
    by code_simp
  then show ?thesis
    using pool_never_overbooks [OF demo_facts, of "''t''" "''a''"] by blast
qed

lemma lease_log_is_canonical_witness:
  "map event_rank (filter (\<lambda>e. event_lease e = ''lease-b-0'') (pj_events (po_durable demo_pool))) = [1, 2, 3, 4]"
proof -
  have v: "map event_version (filter (\<lambda>e. event_lease e = ''lease-b-0'') (pj_events (po_durable demo_pool))) = [1, 2, 3, 4]"
    by code_simp
  show ?thesis
    using lease_log_is_canonical [OF demo_facts, of "''lease-b-0''"] unfolding v by blast
qed

lemma restart_rebuilds_live_leases_witness:
  "\<exists>p'. pool_exec demo_config (Restart ''d'' 20 5) demo_pool = Some p' \<and> po_leases p' = pj_snapshots (po_durable p')"
proof -
  have "(case pool_exec demo_config (Restart ''d'' 20 5) demo_pool of None \<Rightarrow> False | Some p' \<Rightarrow> po_up p')"
    by code_simp
  then obtain p' where p': "pool_exec demo_config (Restart ''d'' 20 5) demo_pool = Some p'" "po_up p'"
    by (auto split: option.splits)
  then show ?thesis
    using restart_rebuilds_live_leases [OF demo_facts p'] by blast
qed

lemma refused_release_changes_nothing_witness:
  "pool_run demo_config [Release ''lease-b-1'' LeaseCompleted 12, Persist 0 False, Settle 0] demo_pool = Some demo_pool"
proof -
  have "po_up demo_pool" "\<not> acquiring demo_pool ''lease-b-1''"
    "\<not> snd (release_begin ''lease-b-1'' LeaseCompleted 12 demo_pool)" "length (po_pending demo_pool) = 0"
    by code_simp+
  then show ?thesis
    using refused_release_changes_nothing [OF demo_facts, of "''lease-b-1''" LeaseCompleted 12] by metis
qed

lemma reclaim_gives_slots_back_witness:
  "(case reclaim_expired demo_config 3600006 (\<lambda>_. True) 2 demo_pool of
      Some (Inr _, q) \<Rightarrow> (bt_get (po_leases q) ''lease-b-1'' = None \<and> active_count_for q ''t'' ''a'' = 1) | _ \<Rightarrow> False)
   \<and> (case reclaim_expired demo_config 3600006 (\<lambda>n. n = 0) 2 demo_pool of
      Some (Inl e, q) \<Rightarrow> (e = ProjectionFailed \<and> active_count_for q ''t'' ''a'' = 1) | _ \<Rightarrow> False)"
proof -
  have idle: "po_up demo_pool" "po_pending demo_pool = []" "length (po_leases demo_pool) \<le> 2"
    and old: "(case bt_get (po_leases demo_pool) ''lease-b-1'' of None \<Rightarrow> False | Some r \<Rightarrow> \<not> 3600006 < lr_expires_at r)"
    and c: "(case reclaim_expired demo_config 3600006 (\<lambda>_. True) 2 demo_pool of
        Some (Inr _, q) \<Rightarrow> active_count_for q ''t'' ''a'' = 1 | _ \<Rightarrow> False)"
    and f: "(case reclaim_expired demo_config 3600006 (\<lambda>n. n = 0) 2 demo_pool of
        Some (Inl e, q) \<Rightarrow> active_count_for q ''t'' ''a'' = 1 | _ \<Rightarrow> False)"
    by code_simp+
  obtain res q where rq: "reclaim_expired demo_config 3600006 (\<lambda>_. True) 2 demo_pool = Some (res, q)"
    using c by (auto split: option.splits)
  then obtain rp where q: "reclaim_expired demo_config 3600006 (\<lambda>_. True) 2 demo_pool = Some (Inr rp, q)"
    using c by (cases res) auto
  have "bt_get (po_leases demo_pool) ''lease-b-1'' = Some r \<and> 3600006 < lr_expires_at r"
    if "bt_get (po_leases q) ''lease-b-1'' = Some r" for r
    using that reclaim_gives_slots_back [OF demo_facts idle, where now = 3600006 and answer = "\<lambda>_. True"] unfolding q by simp
  then have one: "bt_get (po_leases q) ''lease-b-1'' = None"
    using old by (cases "bt_get (po_leases q) ''lease-b-1''") fastforce+
  obtain res' s where rs: "reclaim_expired demo_config 3600006 (\<lambda>n. n = 0) 2 demo_pool = Some (res', s)"
    using f by (auto split: option.splits)
  then obtain e where s: "reclaim_expired demo_config 3600006 (\<lambda>n. n = 0) 2 demo_pool = Some (Inl e, s)"
    using f by (cases res') auto
  have "e = ProjectionFailed"
    using reclaim_gives_slots_back [OF demo_facts idle, where now = 3600006 and answer = "\<lambda>n. n = 0"] unfolding s by simp
  then show ?thesis
    using one c f by (simp add: q s)
qed

end
