(* ===== verification/EngineMsg.thy ===== *)
theory EngineMsg
  imports Json OrdMap
begin

text \<open>
  Messages, provider stream events and agent events as \<open>crates/domain/src\<close> has them, and the
  assembly of a streamed turn, \<open>crates/engine/src/appender.rs\<close>. Ids are strings.
\<close>

subsection \<open>Messages\<close>

datatype message_role = RoleSystem | RoleUser | RoleAssistant | RoleTool

datatype image_source = ImgArtifact string | ImgUrl string | ImgBase64 string

datatype stop_reason =
    StopCompleted | StopSequence | StopMaxTokens | StopToolUse | StopContentFiltered | StopCancelled | StopError
  | StopOther string

record token_usage =
  tu_input :: u64
  tu_output :: u64
  tu_cache_read :: u64
  tu_cache_write :: u64

definition usage_zero :: token_usage where
  "usage_zero = \<lparr>tu_input = 0, tu_output = 0, tu_cache_read = 0, tu_cache_write = 0\<rparr>"

definition usage_is_zero :: "token_usage \<Rightarrow> bool" where
  "usage_is_zero u \<longleftrightarrow> tu_input u = 0 \<and> tu_output u = 0 \<and> tu_cache_read u = 0 \<and> tu_cache_write u = 0"

record artifact_ref =
  ar_id :: string
  ar_media :: string
  ar_bytes :: u64
  ar_hash :: "string option"
  ar_label :: "string option"

record reasoning_item =
  ri_id :: string
  ri_summary :: "string option"
  ri_blob :: string
  ri_opaque :: "(string, json) btree"
  ri_continuation :: "(string, json) btree"

record tool_call_content =
  ca_id :: string
  ca_name :: string
  ca_arguments :: json
  ca_raw :: "string option"
  ca_complete :: bool

text \<open>
  A tool result nests content parts: its id, tool name, content, error flag, metadata and artifacts.
\<close>

datatype content_part =
    PartText string
  | PartImage image_source string "string option"
  | PartVideo string string
  | PartThinking string "string option" bool
  | PartReasoning reasoning_item
  | PartToolCall tool_call_content
  | PartToolResult string "string option" "content_part list" bool json "artifact_ref list"
  | PartArtifact artifact_ref

record message_meta =
  mm_model :: "string option"
  mm_provider :: "string option"
  mm_usage :: "token_usage option"
  mm_cost :: "(string \<times> u64) option"
  mm_timestamp :: "u64 option"
  mm_artifacts :: "artifact_ref list"
  mm_stop_reason :: "stop_reason option"
  mm_incomplete :: bool
  mm_trace :: "string option"
  mm_provider_metadata :: "(string, json) btree"

definition meta_default :: message_meta where
  "meta_default = \<lparr>mm_model = None, mm_provider = None, mm_usage = None, mm_cost = None, mm_timestamp = None,
     mm_artifacts = [], mm_stop_reason = None, mm_incomplete = False, mm_trace = None, mm_provider_metadata = []\<rparr>"

record message =
  ms_id :: string
  ms_role :: message_role
  ms_content :: "content_part list"
  ms_meta :: message_meta

subsection \<open>Errors\<close>

datatype provider_error_kind =
    PkAuthentication | PkAuthorization | PkRateLimited | PkQuotaExceeded | PkInvalidRequest | PkModelNotFound
  | PkContextTooLarge | PkContentFiltered | PkNetwork | PkTimeout | PkProviderUnavailable | PkStreamInterrupted
  | PkMalformedResponse | PkCancelled | PkUnknown

record provider_error =
  pe_kind :: provider_error_kind
  pe_message :: string
  pe_retryable :: bool
  pe_retry_after :: "u64 option"
  pe_request_id :: "string option"
  pe_http_status :: "nat option"
  pe_details :: "string option"
  pe_diagnostics :: "(string, string) btree"

datatype error_category =
    EcProvider | EcTool | EcInternal | EcCancelled | EcRateLimit | EcTimeout | EcAuthentication | EcAuthorization
  | EcInvalidRequest | EcNotFound | EcConflict | EcResourceExhausted | EcUnavailable | EcMalformedData

record error_context =
  ex_category :: error_category
  ex_message :: string
  ex_retryable :: bool
  ex_retry_after :: "u64 option"
  ex_diagnostics :: "(string, string) btree"

definition default_retryability :: "provider_error_kind \<Rightarrow> bool" where
  "default_retryability k \<longleftrightarrow>
     k = PkRateLimited \<or> k = PkNetwork \<or> k = PkTimeout \<or> k = PkProviderUnavailable \<or> k = PkStreamInterrupted"

definition provider_error_new :: "provider_error_kind \<Rightarrow> string \<Rightarrow> provider_error" where
  "provider_error_new k m = \<lparr>pe_kind = k, pe_message = m, pe_retryable = default_retryability k,
     pe_retry_after = None, pe_request_id = None, pe_http_status = None, pe_details = None, pe_diagnostics = []\<rparr>"

definition provider_cancelled :: "string \<Rightarrow> provider_error" where
  "provider_cancelled m = provider_error_new PkCancelled m"

fun error_category_of :: "provider_error_kind \<Rightarrow> error_category" where
  "error_category_of PkAuthentication = EcAuthentication"
| "error_category_of PkAuthorization = EcAuthorization"
| "error_category_of PkContentFiltered = EcAuthorization"
| "error_category_of PkRateLimited = EcRateLimit"
| "error_category_of PkQuotaExceeded = EcResourceExhausted"
| "error_category_of PkInvalidRequest = EcInvalidRequest"
| "error_category_of PkContextTooLarge = EcInvalidRequest"
| "error_category_of PkModelNotFound = EcNotFound"
| "error_category_of PkTimeout = EcTimeout"
| "error_category_of PkProviderUnavailable = EcUnavailable"
| "error_category_of PkNetwork = EcUnavailable"
| "error_category_of PkStreamInterrupted = EcUnavailable"
| "error_category_of PkMalformedResponse = EcMalformedData"
| "error_category_of PkCancelled = EcCancelled"
| "error_category_of PkUnknown = EcProvider"

definition error_context_of :: "provider_error \<Rightarrow> error_context" where
  "error_context_of e = \<lparr>ex_category = error_category_of (pe_kind e), ex_message = pe_message e,
     ex_retryable = pe_retryable e, ex_retry_after = pe_retry_after e, ex_diagnostics = pe_diagnostics e\<rparr>"

subsection \<open>Tool results\<close>

record tool_result =
  tr_content :: "content_part list"
  tr_artifacts :: "artifact_ref list"
  tr_metadata :: json
  tr_truncated :: bool
  tr_success :: bool
  tr_error :: "error_context option"

definition tool_failure :: "error_context \<Rightarrow> tool_result" where
  "tool_failure e = \<lparr>tr_content = [], tr_artifacts = [], tr_metadata = JNull, tr_truncated = False,
     tr_success = False, tr_error = Some e\<rparr>"

record tool_call_result =
  tc_id :: string
  tc_name :: string
  tc_arguments :: json
  tc_result :: tool_result

definition result_part :: "tool_call_result \<Rightarrow> content_part" where
  "result_part r =
     PartToolResult (tc_id r) (Some (tc_name r)) (tr_content (tc_result r)) (\<not> tr_success (tc_result r))
       (tr_metadata (tc_result r)) (tr_artifacts (tc_result r))"

definition tool_results_message :: "string \<Rightarrow> tool_call_result list \<Rightarrow> message" where
  "tool_results_message i rs = \<lparr>ms_id = i, ms_role = RoleTool, ms_content = map result_part rs, ms_meta = meta_default\<rparr>"

subsection \<open>Provider stream events and their assembly\<close>

record response_summary =
  su_stop_reason :: stop_reason
  su_usage :: token_usage
  su_response_id :: "string option"
  su_metadata :: json

text \<open>Server tool events and transcript envelopes are passed through unread: their JSON.\<close>

datatype provider_event =
    PvResponseStarted "string option"
  | PvTextDelta string
  | PvThinkingDelta string
  | PvImageOutput string
  | PvReasoningItem reasoning_item
  | PvToolCallStarted string string
  | PvToolCallArgumentsDelta string string
  | PvToolCallCompleted string
  | PvUsageUpdated token_usage
  | PvResponseCompleted stop_reason
  | PvProviderMetadata json
  | PvServerTool json
  | PvTranscriptEnvelope json
  | PvError provider_error

record pending_call =
  pc_id :: string
  pc_name :: string
  pc_raw :: string
  pc_completed :: bool

record assembled_turn =
  at_message_id :: string
  at_text :: string
  at_thinking :: string
  at_reasoning :: "reasoning_item list"
  at_calls :: "(string, pending_call) btree"
  at_order :: "string list"
  at_summary :: "response_summary option"

definition assembled_new :: "string \<Rightarrow> assembled_turn" where
  "assembled_new i = \<lparr>at_message_id = i, at_text = [], at_thinking = [], at_reasoning = [], at_calls = [],
     at_order = [], at_summary = None\<rparr>"

definition has_tool_calls :: "assembled_turn \<Rightarrow> bool" where
  "has_tool_calls t \<longleftrightarrow> at_calls t \<noteq> []"

definition summary_or :: "response_summary \<Rightarrow> assembled_turn \<Rightarrow> response_summary" where
  "summary_or d t = (case at_summary t of Some s \<Rightarrow> s | None \<Rightarrow> d)"

definition summary_blank :: response_summary where
  "summary_blank = \<lparr>su_stop_reason = StopCompleted, su_usage = usage_zero, su_response_id = None, su_metadata = JNull\<rparr>"

definition add_call :: "string \<Rightarrow> string \<Rightarrow> string \<Rightarrow> assembled_turn \<Rightarrow> assembled_turn" where
  "add_call i nm raw t =
     t\<lparr>at_order := at_order t @ [i],
       at_calls := bt_put i \<lparr>pc_id = i, pc_name = nm, pc_raw = raw, pc_completed = False\<rparr> (at_calls t)\<rparr>"

fun turn_apply :: "provider_event \<Rightarrow> assembled_turn \<Rightarrow> assembled_turn" where
  "turn_apply (PvTextDelta d) t = t\<lparr>at_text := at_text t @ d\<rparr>"
| "turn_apply (PvThinkingDelta d) t = t\<lparr>at_thinking := at_thinking t @ d\<rparr>"
| "turn_apply (PvReasoningItem r) t = t\<lparr>at_reasoning := at_reasoning t @ [r]\<rparr>"
| "turn_apply (PvToolCallStarted i nm) t = (if bt_has (at_calls t) i then t else add_call i nm [] t)"
| "turn_apply (PvToolCallArgumentsDelta i j) t =
     (case bt_get (at_calls t) i of
        Some c \<Rightarrow> t\<lparr>at_calls := bt_put i (c\<lparr>pc_raw := pc_raw c @ j\<rparr>) (at_calls t)\<rparr>
      | None \<Rightarrow> add_call i [] j t)"
| "turn_apply (PvToolCallCompleted i) t =
     (case bt_get (at_calls t) i of
        Some c \<Rightarrow> t\<lparr>at_calls := bt_put i (c\<lparr>pc_completed := True\<rparr>) (at_calls t)\<rparr>
      | None \<Rightarrow> t)"
| "turn_apply (PvUsageUpdated u) t = t\<lparr>at_summary := Some ((summary_or summary_blank t)\<lparr>su_usage := u\<rparr>)\<rparr>"
| "turn_apply (PvResponseStarted r) t =
     (case r of
        Some i \<Rightarrow> t\<lparr>at_summary := Some ((summary_or summary_blank t)\<lparr>su_response_id := Some i\<rparr>)\<rparr>
      | None \<Rightarrow> t)"
| "turn_apply (PvResponseCompleted s) t = t\<lparr>at_summary := Some ((summary_or summary_blank t)\<lparr>su_stop_reason := s\<rparr>)\<rparr>"
| "turn_apply (PvProviderMetadata m) t = t\<lparr>at_summary := Some ((summary_or summary_blank t)\<lparr>su_metadata := m\<rparr>)\<rparr>"
| "turn_apply (PvImageOutput _) t = t"
| "turn_apply (PvServerTool _) t = t"
| "turn_apply (PvTranscriptEnvelope _) t = t"
| "turn_apply (PvError _) t = t"

text \<open>The JSON parser is \<open>serde_json\<close>'s, an argument here; what it refuses is \<open>null\<close>.\<close>

definition call_arguments :: "(string \<Rightarrow> json option) \<Rightarrow> pending_call \<Rightarrow> json" where
  "call_arguments parse c =
     (if is_blank (pc_raw c) then JNull else case parse (pc_raw c) of Some v \<Rightarrow> v | None \<Rightarrow> JNull)"

definition call_content :: "(string \<Rightarrow> json option) \<Rightarrow> pending_call \<Rightarrow> tool_call_content" where
  "call_content parse c = \<lparr>ca_id = pc_id c, ca_name = pc_name c, ca_arguments = call_arguments parse c,
     ca_raw = Some (pc_raw c), ca_complete = pc_completed c\<rparr>"

definition ordered_calls :: "assembled_turn \<Rightarrow> pending_call list" where
  "ordered_calls t = List.map_filter (bt_get (at_calls t)) (at_order t)"

definition turn_message :: "(string \<Rightarrow> json option) \<Rightarrow> message_meta \<Rightarrow> assembled_turn \<Rightarrow> message" where
  "turn_message parse meta t =
     \<lparr>ms_id = at_message_id t, ms_role = RoleAssistant,
      ms_content =
        (if at_thinking t = [] then []
         else [PartThinking (at_thinking t) (if at_reasoning t = [] then None else Some (ri_id (last (at_reasoning t)))) False])
        @ map PartReasoning (at_reasoning t)
        @ (if at_text t = [] then [] else [PartText (at_text t)])
        @ map (\<lambda>c. PartToolCall (call_content parse c)) (ordered_calls t),
      ms_meta = meta\<rparr>"

subsection \<open>Agent events\<close>

datatype approval_decision = ApprovedOnce | ApprovedForRun | Denied | ApprovalCancelled

datatype output_stream = OutStdout | OutStderr | OutStructured

text \<open>
  The events of one run. The plan, goal, task, automation, monitor, memory and review events and the
  rolled-back checkpoints of the same enumeration do not come from the engine: \<open>AeForeign\<close>.
\<close>

datatype agent_event =
    AeRunStarted string
  | AeContextPrepared nat nat
  | AeProviderRequestStarted string string string
  | AeUsageUpdated token_usage
  | AeAssistantTextDelta string string
  | AeAssistantThinkingDelta string string
  | AeToolCallStarted string string
  | AeToolCallArgumentsDelta string string
  | AeToolApprovalRequested string string
  | AeToolApprovalResponded string approval_decision "string option"
  | AeToolExecutionStarted string
  | AeToolOutputDelta string output_stream string
  | AeToolExecutionCompleted string content_part
  | AeMessageCommitted message
  | AeServerTool json
  | AeTranscriptEnvelope json
  | AeCompactionStarted u64
  | AeCompactionCompleted string u64
  | AeCheckpointCreated string "string list"
  | AeRunCompleted stop_reason token_usage
  | AeRunCancelled "string option" "token_usage option"
  | AeRunFailed error_context "token_usage option"
  | AeDiagnostic string json
  | AeForeign string json

fun map_provider_event :: "string \<Rightarrow> provider_event \<Rightarrow> agent_event option" where
  "map_provider_event m (PvTextDelta d) = Some (AeAssistantTextDelta m d)"
| "map_provider_event m (PvThinkingDelta d) = Some (AeAssistantThinkingDelta m d)"
| "map_provider_event m (PvToolCallStarted i nm) = Some (AeToolCallStarted i nm)"
| "map_provider_event m (PvToolCallArgumentsDelta i j) = Some (AeToolCallArgumentsDelta i j)"
| "map_provider_event m (PvUsageUpdated u) = Some (AeUsageUpdated u)"
| "map_provider_event m (PvServerTool v) = Some (AeServerTool v)"
| "map_provider_event m (PvTranscriptEnvelope v) = Some (AeTranscriptEnvelope v)"
| "map_provider_event m _ = None"

definition optional_usage :: "token_usage \<Rightarrow> token_usage option" where
  "optional_usage u = (if usage_is_zero u then None else Some u)"

text \<open>The last usage the stream reported.\<close>

definition last_stream_usage :: "provider_event list \<Rightarrow> token_usage" where
  "last_stream_usage es = fold (\<lambda>e u. case e of PvUsageUpdated v \<Rightarrow> v | _ \<Rightarrow> u) es usage_zero"

record envelope =
  en_schema :: nat
  en_event_id :: string
  en_session :: string
  en_run :: string
  en_sequence :: u64
  en_parent :: "string option"
  en_payload :: agent_event

end
