(* ===== verification/EngineContext.thy ===== *)
theory EngineContext
  imports EngineMsg
begin

text \<open>
  The request context of \<open>crates/engine/src/context\<close> and \<open>tool_loop/compaction.rs\<close>: token estimates,
  the budget and its triggers, the trimming of older screenshots, injected resource layers and the
  hard truncation. Token and byte counts are natural numbers: the code adds them in \<open>u64\<close>.
\<close>

subsection \<open>Token estimates\<close>

record tool_def =
  td_name :: string
  td_description :: string
  td_schema :: json

text \<open>An estimator is its \<open>count_text\<close>; \<open>to_string\<close> of a JSON value and of a tool definition is \<open>serde_json\<close>'s.\<close>

record estimator =
  es_text :: "string \<Rightarrow> nat"
  es_json :: "json \<Rightarrow> string"
  es_schema :: "tool_def \<Rightarrow> string"

fun count_part :: "estimator \<Rightarrow> content_part \<Rightarrow> nat" where
  "count_part es (PartText t) = es_text es t"
| "count_part es (PartThinking t _ _) = es_text es t"
| "count_part es (PartReasoning r) = (case ri_summary r of Some s \<Rightarrow> es_text es s | None \<Rightarrow> 0)"
| "count_part es (PartImage _ _ alt) = 85 + (case alt of Some a \<Rightarrow> es_text es a | None \<Rightarrow> 0)"
| "count_part es (PartVideo url _) = es_text es url"
| "count_part es (PartToolCall c) =
     es_text es (ca_name c) + es_text es (es_json es (ca_arguments c))
     + (case ca_raw c of Some r \<Rightarrow> es_text es r | None \<Rightarrow> 0)"
| "count_part es (PartToolResult _ nm ps _ md _) =
     (case nm of Some n \<Rightarrow> es_text es n | None \<Rightarrow> 0) + sum_list (map (count_part es) ps) + es_text es (es_json es md)"
| "count_part es (PartArtifact a) =
     es_text es (ar_id a) + es_text es (ar_media a) + (case ar_label a of Some l \<Rightarrow> es_text es l | None \<Rightarrow> 0)"

fun role_label :: "message_role \<Rightarrow> string" where
  "role_label RoleSystem = ''system''"
| "role_label RoleUser = ''user''"
| "role_label RoleAssistant = ''assistant''"
| "role_label RoleTool = ''tool''"

definition count_message :: "estimator \<Rightarrow> message \<Rightarrow> nat" where
  "count_message es m = 4 + es_text es (role_label (ms_role m)) + sum_list (map (count_part es) (ms_content m))"

definition count_tool_schemas :: "estimator \<Rightarrow> tool_def list \<Rightarrow> nat" where
  "count_tool_schemas es ts = sum_list (map (\<lambda>t. es_text es (es_schema es t) + 8) ts)"

definition reply_primer :: nat where
  "reply_primer = 3"

subsection \<open>The heuristic estimator\<close>

text \<open>
  The code points of a string, from its UTF-8 bytes: the first byte of a character tells how many
  bytes follow. A \<open>str\<close> is always well formed; a byte out of place counts as one character here.
\<close>

fun utf8_chars :: "string \<Rightarrow> nat list" where
  "utf8_chars [] = []"
| "utf8_chars (a # s) =
     (let x = of_char a :: nat; tail = (\<lambda>c. of_char c mod 64 :: nat) in
      if x < 192 then x # utf8_chars s
      else if x < 224 then (case s of b # s1 \<Rightarrow> ((x mod 32) * 64 + tail b) # utf8_chars s1 | _ \<Rightarrow> [x])
      else if x < 240 then (case s of b # c # s2 \<Rightarrow> (((x mod 16) * 64 + tail b) * 64 + tail c) # utf8_chars s2 | _ \<Rightarrow> [x])
      else (case s of b # c # d # s3 \<Rightarrow>
              ((((x mod 8) * 64 + tail b) * 64 + tail c) * 64 + tail d) # utf8_chars s3 | _ \<Rightarrow> [x]))"

definition is_cjk_like :: "nat \<Rightarrow> bool" where
  "is_cjk_like c \<longleftrightarrow>
     list_ex (\<lambda>(lo, hi). lo \<le> c \<and> c \<le> hi)
       [(0x1100, 0x11FF), (0x2E80, 0x2FFF), (0x3000, 0x303F), (0x3040, 0x30FF), (0x3100, 0x312F), (0x3130, 0x318F),
        (0x31A0, 0x31BF), (0x31F0, 0x31FF), (0x3400, 0x4DBF), (0x4E00, 0x9FFF), (0xA960, 0xA97F), (0xAC00, 0xD7AF),
        (0xD7B0, 0xD7FF), (0xF900, 0xFAFF), (0x20000, 0x2FA1F)]"

definition heuristic_count :: "nat \<Rightarrow> string \<Rightarrow> nat" where
  "heuristic_count ratio s =
     (let cs = utf8_chars s; cjk = length (filter is_cjk_like cs); other = length (filter (\<lambda>c. \<not> is_cjk_like c) cs);
          k = max ratio 1
      in cjk + (other + k - 1) div k)"

subsection \<open>Budget and triggers\<close>

record context_budget =
  cb_window :: nat
  cb_output_reserve :: nat
  cb_thinking_reserve :: nat
  cb_max_input :: nat

definition budget_from_window :: "nat \<Rightarrow> nat \<Rightarrow> nat \<Rightarrow> context_budget" where
  "budget_from_window w out think =
     \<lparr>cb_window = w, cb_output_reserve = out, cb_thinking_reserve = think, cb_max_input = w - sat_add out think\<rparr>"

record context_limits =
  cl_budget :: context_budget
  cl_soft :: "nat option"

record injected_layer =
  il_kind :: string
  il_resource :: string
  il_content :: string

record turn_context =
  cx_limits :: "context_limits option"
  cx_estimator :: "estimator option"
  cx_retained :: nat
  cx_layers :: "injected_layer list"

record input_estimate =
  ie_system :: nat
  ie_tools :: nat
  ie_history :: nat
  ie_total :: nat

definition estimate_zero :: input_estimate where
  "estimate_zero = \<lparr>ie_system = 0, ie_tools = 0, ie_history = 0, ie_total = 0\<rparr>"

record request =
  rq_id :: string
  rq_session :: "string option"
  rq_model :: string
  rq_messages :: "message list"
  rq_tools :: "tool_def list"

definition is_system :: "message \<Rightarrow> bool" where
  "is_system m \<longleftrightarrow> ms_role m = RoleSystem"

definition estimate_at :: "estimator \<Rightarrow> request \<Rightarrow> input_estimate" where
  "estimate_at es rq =
     (let tools = count_tool_schemas es (rq_tools rq);
          sys = sum_list (map (count_message es) (filter is_system (rq_messages rq)));
          hist = sum_list (map (count_message es) (filter (\<lambda>m. \<not> is_system m) (rq_messages rq)))
      in \<lparr>ie_system = sys, ie_tools = tools, ie_history = hist, ie_total = sys + tools + hist + reply_primer\<rparr>)"

definition estimate_input :: "turn_context \<Rightarrow> request \<Rightarrow> input_estimate" where
  "estimate_input cx rq = (case cx_estimator cx of Some es \<Rightarrow> estimate_at es rq | None \<Rightarrow> estimate_zero)"

datatype compaction_reason = CrManual | CrHistorySoftLimit | CrInputBudgetExceeded

text \<open>The trigger and by how much the limit is exceeded: the hard limit first.\<close>

definition compute_compaction :: "nat \<Rightarrow> nat \<Rightarrow> nat \<Rightarrow> nat option \<Rightarrow> (compaction_reason \<times> nat) option" where
  "compute_compaction est maxi hist soft =
     (if est > maxi then Some (CrInputBudgetExceeded, est - maxi)
      else case soft of
        Some s \<Rightarrow> (if hist > s then Some (CrHistorySoftLimit, hist - s) else None)
      | None \<Rightarrow> None)"

subsection \<open>Injected resource layers\<close>

definition injected_id :: string where
  "injected_id = ''msg-resources''"

fun join_with :: "string \<Rightarrow> string list \<Rightarrow> string" where
  "join_with sep [] = []"
| "join_with sep [x] = x"
| "join_with sep (x # y # xs) = x @ sep @ join_with sep (y # xs)"

definition nl :: string where
  "nl = [char_of (10 :: nat)]"

definition layer_text :: "injected_layer \<Rightarrow> string" where
  "layer_text l = ''['' @ il_kind l @ ''] '' @ il_resource l @ nl @ il_content l"

definition injected_message :: "injected_layer list \<Rightarrow> message option" where
  "injected_message ls =
     (if ls = [] then None
      else Some \<lparr>ms_id = injected_id, ms_role = RoleSystem,
                 ms_content = [PartText (join_with (nl @ nl) (map layer_text ls))], ms_meta = meta_default\<rparr>)"

definition ensure_prefix :: "injected_layer list \<Rightarrow> message list \<Rightarrow> message list" where
  "ensure_prefix ls ms =
     (case injected_message ls of
        None \<Rightarrow> ms
      | Some sys \<Rightarrow> sys # filter (\<lambda>m. ms_id m \<noteq> injected_id) ms)"

definition layers_details :: "injected_layer list \<Rightarrow> json" where
  "layers_details ls =
     JObject [(''layers'', JArray (map (\<lambda>l. JObject [(''kind'', JString (il_kind l)), (''resource_id'', JString (il_resource l)),
                                                     (''byte_len'', json_nat (length (il_content l)))]) ls)),
              (''byte_len'', json_nat (sum_list (map (length \<circ> il_content) ls)))]"

subsection \<open>Hard truncation\<close>

text \<open>
  The loop of \<open>truncate_for_budget\<close>: \<open>protect\<close> messages may still be dropped from here on, and
  \<open>remaining\<close> is the estimate of what is left.
\<close>

fun truncate_loop :: "estimator \<Rightarrow> nat \<Rightarrow> nat \<Rightarrow> nat \<Rightarrow> message list \<Rightarrow> message list \<times> nat" where
  "truncate_loop es maxi protect remaining [] = ([], 0)"
| "truncate_loop es maxi protect remaining (m # ms) =
     (if protect > 0 \<and> \<not> is_system m \<and> remaining > maxi
      then (let (kept, d) = truncate_loop es maxi (protect - 1) (remaining - count_message es m) ms in (kept, d + 1))
      else (let (kept, d) = truncate_loop es maxi (protect - 1) remaining ms in (m # kept, d)))"

definition truncate_for_budget :: "estimator \<Rightarrow> nat \<Rightarrow> nat \<Rightarrow> request \<Rightarrow> request \<times> nat \<times> input_estimate" where
  "truncate_for_budget es maxi retained rq =
     (let ms = rq_messages rq;
          protect = length ms - min retained (length ms);
          est = count_tool_schemas es (rq_tools rq) + sum_list (map (count_message es) ms) + reply_primer;
          (kept, d) = truncate_loop es maxi protect est ms;
          rq' = rq\<lparr>rq_messages := kept\<rparr>
      in (rq', d, estimate_at es rq'))"

subsection \<open>Trimming of older screenshots\<close>

definition image_budget :: "context_budget \<Rightarrow> nat" where
  "image_budget b = sat_mul (cb_max_input b) 4"

record trim_stats =
  ts_trimmed :: nat
  ts_trimmed_bytes :: nat
  ts_retained :: nat
  ts_retained_bytes :: nat

definition stats_zero :: trim_stats where
  "stats_zero = \<lparr>ts_trimmed = 0, ts_trimmed_bytes = 0, ts_retained = 0, ts_retained_bytes = 0\<rparr>"

text \<open>The candidates below a tool result, in order: their base64 lengths.\<close>

fun part_images :: "content_part \<Rightarrow> nat list" where
  "part_images (PartImage (ImgBase64 v) _ _) = [length v]"
| "part_images (PartToolResult _ _ ps _ _ _) = concat (map part_images ps)"
| "part_images _ = []"

definition is_result :: "content_part \<Rightarrow> bool" where
  "is_result p = (case p of PartToolResult _ _ _ _ _ _ \<Rightarrow> True | _ \<Rightarrow> False)"

definition message_images :: "message \<Rightarrow> nat list" where
  "message_images m =
     (if ms_role m = RoleTool then concat (map part_images (filter is_result (ms_content m))) else [])"

text \<open>First pass: the message and the size of every candidate.\<close>

definition occurrences :: "message list \<Rightarrow> (nat \<times> nat) list" where
  "occurrences ms = concat (map (\<lambda>(k, m). map (Pair k) (message_images m)) (enumerate 0 ms))"

text \<open>
  What is kept: every image of the last message that has one, and the others from the newest to the
  oldest as long as the budget lasts. The list runs from the newest to the oldest.
\<close>

fun keep_rev :: "nat \<Rightarrow> nat \<Rightarrow> nat \<Rightarrow> (nat \<times> nat) list \<Rightarrow> bool list" where
  "keep_rev latest budget used [] = []"
| "keep_rev latest budget used ((k, b) # os) =
     (if k = latest then True # keep_rev latest budget used os
      else if sat_add used b \<le> budget then True # keep_rev latest budget (used + b) os
      else False # keep_rev latest budget used os)"

definition retained_flags :: "nat \<Rightarrow> (nat \<times> nat) list \<Rightarrow> bool list" where
  "retained_flags budget os = (if os = [] then [] else rev (keep_rev (fst (last os)) budget 0 (rev os)))"

definition trim_note :: "string \<Rightarrow> nat \<Rightarrow> string" where
  "trim_note media bytes =
     ''[image trimmed: earlier tool result image ('' @ media @ '', ~'' @ dec (sat_mul bytes 3 div 4)
     @ '' bytes) removed from this request to fit the context budget; the full image is retained in session history]''"

definition count_image :: "bool \<Rightarrow> nat \<Rightarrow> trim_stats \<Rightarrow> trim_stats" where
  "count_image keep b st =
     (if keep then st\<lparr>ts_retained := ts_retained st + 1, ts_retained_bytes := sat_add (ts_retained_bytes st) b\<rparr>
      else st\<lparr>ts_trimmed := ts_trimmed st + 1, ts_trimmed_bytes := sat_add (ts_trimmed_bytes st) b\<rparr>)"

text \<open>Second pass: the flags are consumed in the order of the first.\<close>

fun trim_part :: "content_part \<Rightarrow> bool list \<times> trim_stats \<Rightarrow> content_part \<times> bool list \<times> trim_stats"
  and trim_parts :: "content_part list \<Rightarrow> bool list \<times> trim_stats \<Rightarrow> content_part list \<times> bool list \<times> trim_stats" where
  "trim_part (PartImage (ImgBase64 v) media alt) (fs, st) =
     (let keep = (case fs of f # _ \<Rightarrow> f | [] \<Rightarrow> False); st' = count_image keep (length v) st
      in (if keep then PartImage (ImgBase64 v) media alt else PartText (trim_note media (length v)), tl fs, st'))"
| "trim_part (PartToolResult i nm ps err md ars) (fs, st) =
     (let (ps', fs', st') = trim_parts ps (fs, st) in (PartToolResult i nm ps' err md ars, fs', st'))"
| "trim_part p (fs, st) = (p, fs, st)"
| "trim_parts [] (fs, st) = ([], fs, st)"
| "trim_parts (p # ps) (fs, st) =
     (let (p', fs', st') = trim_part p (fs, st); (ps', fs'', st'') = trim_parts ps (fs', st') in (p' # ps', fs'', st''))"

fun trim_top :: "content_part list \<Rightarrow> bool list \<times> trim_stats \<Rightarrow> content_part list \<times> bool list \<times> trim_stats" where
  "trim_top [] (fs, st) = ([], fs, st)"
| "trim_top (p # ps) (fs, st) =
     (let (p', fs', st') = (if is_result p then trim_part p (fs, st) else (p, fs, st));
          (ps', fs'', st'') = trim_top ps (fs', st')
      in (p' # ps', fs'', st''))"

fun trim_messages :: "message list \<Rightarrow> bool list \<times> trim_stats \<Rightarrow> message list \<times> bool list \<times> trim_stats" where
  "trim_messages [] (fs, st) = ([], fs, st)"
| "trim_messages (m # ms) (fs, st) =
     (let (m', fs', st') =
            (if ms_role m = RoleTool
             then (let (ps, fs1, st1) = trim_top (ms_content m) (fs, st) in (m\<lparr>ms_content := ps\<rparr>, fs1, st1))
             else (m, fs, st));
          (ms', fs'', st'') = trim_messages ms (fs', st')
      in (m' # ms', fs'', st''))"

definition trim_observation_images :: "message list \<Rightarrow> nat \<Rightarrow> message list \<times> trim_stats" where
  "trim_observation_images ms budget =
     (let os = occurrences ms in
      if os = [] then (ms, stats_zero)
      else let (ms', _, st) = trim_messages ms (retained_flags budget os, stats_zero) in (ms', st))"

end
