(* ===== verification/EngineLoop.thy ===== *)
theory EngineLoop
  imports EngineContext
begin

text \<open>
  The tool loop of \<open>crates/engine/src/tool_loop\<close>: \<open>run_session\<close>, its rounds, the approval gate, the
  execution of tools and the compaction chain.

  The engine runs as one task; between two of its steps the provider, the host and the user act.
  What they do is the argument \<open>host\<close>: functions on a state \<open>'w\<close> of the outside, one for each question
  the engine asks (is the run cancelled, is this event persisted, what does the provider stream, what
  does the host answer). The engine's own state is the next sequence number, the log of the
  envelopes the sink accepted and a trace of what it asked for. Envelopes carry no time stamp here.
\<close>

subsection \<open>The outside\<close>

record invocation =
  iv_id :: string
  iv_name :: string
  iv_arguments :: json

datatype approval_gate = NotRequired | Asked approval_decision

record write_checkpoint =
  wc_id :: string
  wc_artifacts :: "string list"

record compaction_outcome =
  co_source_events :: u64
  co_through :: u64

datatype engine_error = ErProvider provider_error | ErSink string | ErMaxRounds u64

definition is_cancelled_error :: "engine_error \<Rightarrow> bool" where
  "is_cancelled_error e = (case e of ErProvider p \<Rightarrow> pe_kind p = PkCancelled | _ \<Rightarrow> False)"

text \<open>
  \<open>ho_stream\<close> is what the provider streams, \<open>ho_stream_end\<close> how the stream ends; the host emits
  \<open>ho_ask_events\<close> before it answers \<open>ho_ask\<close>, and likewise for snapshots and tools.
\<close>

record 'w host =
  ho_cancelled :: "'w \<Rightarrow> bool \<times> 'w"
  ho_sink :: "envelope \<Rightarrow> 'w \<Rightarrow> engine_error option \<times> 'w"
  ho_stream :: "request \<Rightarrow> 'w \<Rightarrow> provider_event list \<times> 'w"
  ho_stream_end :: "request \<Rightarrow> 'w \<Rightarrow> (provider_error, response_summary) result \<times> 'w"
  ho_ask_events :: "invocation list \<Rightarrow> bool \<Rightarrow> 'w \<Rightarrow> agent_event list \<times> 'w"
  ho_ask :: "invocation list \<Rightarrow> bool \<Rightarrow> 'w \<Rightarrow> (engine_error, approval_gate list) result \<times> 'w"
  ho_snapshot_events :: "invocation list \<Rightarrow> 'w \<Rightarrow> agent_event list \<times> 'w"
  ho_snapshot :: "invocation list \<Rightarrow> 'w \<Rightarrow> write_checkpoint list \<times> 'w"
  ho_tool_events :: "invocation list \<Rightarrow> 'w \<Rightarrow> agent_event list \<times> 'w"
  ho_tools :: "invocation list \<Rightarrow> 'w \<Rightarrow> tool_call_result list \<times> 'w"
  ho_compact :: "compaction_reason \<Rightarrow> string \<Rightarrow> 'w \<Rightarrow> (engine_error, compaction_outcome option) result \<times> 'w"
  ho_message_id :: "'w \<Rightarrow> string \<times> 'w"
  ho_request_id :: "'w \<Rightarrow> string \<times> 'w"
  ho_parse :: "string \<Rightarrow> json option"

record session_turn =
  tn_session :: string
  tn_run :: string
  tn_provider :: string
  tn_model :: string
  tn_start :: u64
  tn_trigger :: message

subsection \<open>The engine's state and steps\<close>

datatype host_call =
    CallAsk "invocation list" bool "approval_gate list"
  | CallTools "invocation list"
  | CallStream request
  | CallSummary request

record 'w eng =
  eg_world :: 'w
  eg_seq :: u64
  eg_log :: "envelope list"
  eg_trace :: "host_call list"

type_synonym ('w, 'a) act = "'w eng \<Rightarrow> (engine_error, 'a) result \<times> 'w eng"

definition ret :: "'a \<Rightarrow> ('w, 'a) act" where
  "ret x s = (Inr x, s)"

definition fail :: "engine_error \<Rightarrow> ('w, 'a) act" where
  "fail e s = (Inl e, s)"

text \<open>Sequencing with the \<open>?\<close> of the code: an error ends the computation.\<close>

definition and_then :: "('w, 'a) act \<Rightarrow> ('a \<Rightarrow> ('w, 'b) act) \<Rightarrow> ('w, 'b) act" where
  "and_then m f s = (case m s of (Inl e, s') \<Rightarrow> (Inl e, s') | (Inr x, s') \<Rightarrow> f x s')"

fun for_each :: "('a \<Rightarrow> ('w, unit) act) \<Rightarrow> 'a list \<Rightarrow> ('w, unit) act" where
  "for_each f [] = ret ()"
| "for_each f (x # xs) = and_then (f x) (\<lambda>_. for_each f xs)"

definition outside :: "('w \<Rightarrow> 'a \<times> 'w) \<Rightarrow> ('w, 'a) act" where
  "outside f s = (let (x, w) = f (eg_world s) in (Inr x, s\<lparr>eg_world := w\<rparr>))"

definition outside_result :: "('w \<Rightarrow> (engine_error, 'a) result \<times> 'w) \<Rightarrow> ('w, 'a) act" where
  "outside_result f s = (let (x, w) = f (eg_world s) in (x, s\<lparr>eg_world := w\<rparr>))"

definition note_call :: "host_call \<Rightarrow> ('w, unit) act" where
  "note_call c s = (Inr (), s\<lparr>eg_trace := eg_trace s @ [c]\<rparr>)"

definition make_envelope :: "session_turn \<Rightarrow> u64 \<Rightarrow> agent_event \<Rightarrow> envelope" where
  "make_envelope t n ev =
     \<lparr>en_schema = 1, en_event_id = ''evt-'' @ tn_run t @ ''-'' @ dec (unat n), en_session = tn_session t,
      en_run = tn_run t, en_sequence = n, en_parent = None, en_payload = ev\<rparr>"

definition emit :: "'w host \<Rightarrow> session_turn \<Rightarrow> agent_event \<Rightarrow> ('w, unit) act" where
  "emit h t ev s =
     (let e = make_envelope t (eg_seq s) ev; (r, w) = ho_sink h e (eg_world s);
          s' = s\<lparr>eg_seq := eg_seq s + 1, eg_world := w\<rparr>
      in case r of
        Some x \<Rightarrow> (Inl x, s')
      | None \<Rightarrow> (Inr (), s'\<lparr>eg_log := eg_log s @ [e]\<rparr>))"

text \<open>Events of the host go through the same emitter; their fate is the host's concern.\<close>

fun emit_for_host :: "'w host \<Rightarrow> session_turn \<Rightarrow> agent_event list \<Rightarrow> ('w, unit) act" where
  "emit_for_host h t [] = ret ()"
| "emit_for_host h t (ev # evs) = (\<lambda>s. emit_for_host h t evs (snd (emit h t ev s)))"

definition emit_cancelled :: "'w host \<Rightarrow> session_turn \<Rightarrow> string \<Rightarrow> token_usage \<Rightarrow> ('w, 'a) act" where
  "emit_cancelled h t reason u =
     and_then (emit h t (AeRunCancelled (Some reason) (optional_usage u)))
       (\<lambda>_. fail (ErProvider (provider_cancelled reason)))"

subsection \<open>One stream\<close>

datatype stream_round =
    StreamSucceeded assembled_turn response_summary
  | StreamCancelled string token_usage
  | StreamFailed provider_error token_usage

text \<open>
  \<open>LoopSink\<close>: what was buffered, or the error of the first event that was not persisted; the provider
  stops there, as its sink's error tells it to.
\<close>

fun deliver ::
  "'w host \<Rightarrow> session_turn \<Rightarrow> string \<Rightarrow> provider_event list \<Rightarrow> provider_event list \<Rightarrow> ('w, provider_event list) act" where
  "deliver h t mid buf [] = ret buf"
| "deliver h t mid buf (e # es) =
     (case map_provider_event mid e of
        None \<Rightarrow> deliver h t mid (buf @ [e]) es
      | Some ev \<Rightarrow> and_then (emit h t ev) (\<lambda>_. deliver h t mid (buf @ [e]) es))"

definition fold_turn :: "string \<Rightarrow> provider_event list \<Rightarrow> response_summary \<Rightarrow> assembled_turn" where
  "fold_turn mid buf su = (fold turn_apply buf (assembled_new mid))\<lparr>at_summary := Some su\<rparr>"

definition stream_end :: "string \<Rightarrow> provider_event list \<Rightarrow> (provider_error, response_summary) result \<Rightarrow> stream_round" where
  "stream_end mid buf r =
     (case r of
        Inr su \<Rightarrow> StreamSucceeded (fold_turn mid buf su) su
      | Inl e \<Rightarrow>
          (if pe_kind e = PkCancelled then StreamCancelled (pe_message e) (last_stream_usage buf)
           else StreamFailed e (last_stream_usage buf)))"

definition collect_stream_round :: "'w host \<Rightarrow> session_turn \<Rightarrow> request \<Rightarrow> string \<Rightarrow> ('w, stream_round) act" where
  "collect_stream_round h t rq mid =
     and_then (outside (ho_cancelled h)) (\<lambda>c.
       if c then ret (stream_end mid [] (Inl (provider_cancelled ''turn cancelled'')))
       else and_then (note_call (CallStream rq)) (\<lambda>_.
            and_then (outside (ho_stream h rq)) (\<lambda>evs.
            and_then (deliver h t mid [] evs) (\<lambda>buf.
            and_then (outside (ho_stream_end h rq)) (\<lambda>r. ret (stream_end mid buf r))))))"

definition saturating_add_usage :: "token_usage \<Rightarrow> token_usage \<Rightarrow> token_usage" where
  "saturating_add_usage a b =
     (let plus = (\<lambda>x y. of_nat (sat_add (unat x) (unat y)) :: u64) in
      \<lparr>tu_input = plus (tu_input a) (tu_input b), tu_output = plus (tu_output a) (tu_output b),
       tu_cache_read = plus (tu_cache_read a) (tu_cache_read b),
       tu_cache_write = plus (tu_cache_write a) (tu_cache_write b)\<rparr>)"

definition assistant_message :: "'w host \<Rightarrow> session_turn \<Rightarrow> assembled_turn \<Rightarrow> response_summary \<Rightarrow> message" where
  "assistant_message h t a su =
     turn_message (ho_parse h)
       (meta_default\<lparr>mm_usage := Some (su_usage su), mm_stop_reason := Some (su_stop_reason su),
                     mm_provider := Some (tn_provider t), mm_model := Some (tn_model t)\<rparr>) a"

definition pending_invocations :: "(string \<Rightarrow> json option) \<Rightarrow> assembled_turn \<Rightarrow> invocation list" where
  "pending_invocations parse a =
     List.map_filter (\<lambda>i. map_option (\<lambda>c. \<lparr>iv_id = i, iv_name = pc_name c, iv_arguments = call_arguments parse c\<rparr>)
                            (bt_get (at_calls a) i)) (at_order a)"

subsection \<open>Compaction\<close>

definition bytes :: "nat list \<Rightarrow> string" where
  "bytes ns = map char_of ns"

definition compaction_instruction :: string where
  "compaction_instruction = bytes
    [232, 175, 183, 230, 138, 138, 228, 187, 165, 228, 184, 139, 229, 175, 185, 232, 175, 157, 229, 142,
    134, 229, 143, 178, 229, 142, 139, 231, 188, 169, 230, 136, 144, 228, 184, 128, 230, 174, 181, 230,
    145, 152, 232, 166, 129, 239, 188, 140, 228, 191, 157, 231, 149, 153, 229, 133, 179, 233, 148, 174,
    228, 186, 139, 229, 174, 158, 227, 128, 129, 231, 186, 166, 230, 157, 159, 229, 146, 140, 230, 156,
    170, 229, 174, 140, 230, 136, 144, 231, 154, 132, 229, 183, 165, 228, 189, 156, 239, 188, 140, 229,
    143, 170, 232, 190, 147, 229, 135, 186, 230, 145, 152, 232, 166, 129, 230, 173, 163, 230, 150, 135,
    239, 188, 154]"

definition ellipsis :: string where
  "ellipsis = bytes [226, 128, 166]"

definition char_width :: "char \<Rightarrow> nat" where
  "char_width c = (let x = of_char c :: nat in if x < 192 then 1 else if x < 224 then 2 else if x < 240 then 3 else 4)"

primrec truncate_chars :: "nat \<Rightarrow> string \<Rightarrow> string" where
  "truncate_chars 0 s = []"
| "truncate_chars (Suc n) s =
     (case s of [] \<Rightarrow> [] | c # _ \<Rightarrow> take (char_width c) s @ truncate_chars n (drop (char_width c) s))"

definition message_text :: "message \<Rightarrow> string" where
  "message_text m = join_with nl (List.map_filter (\<lambda>p. case p of PartText x \<Rightarrow> Some x | _ \<Rightarrow> None) (ms_content m))"

definition structural_summary :: "message list \<Rightarrow> string" where
  "structural_summary ms =
     (case find (\<lambda>m. ms_role m = RoleUser) ms of
        Some m \<Rightarrow> truncate_chars 2000 (message_text m) @ ellipsis
      | None \<Rightarrow> [])
     @ (if ms = [] then [] else truncate_chars 500 (message_text (last ms)))"

definition summary_request :: "string \<Rightarrow> string \<Rightarrow> string option \<Rightarrow> message list \<Rightarrow> request" where
  "summary_request i model session ms =
     \<lparr>rq_id = i, rq_session = session, rq_model = model,
      rq_messages = [\<lparr>ms_id = ''engine:compaction-prompt'', ms_role = RoleUser,
        ms_content = [PartText (compaction_instruction @ nl @ nl
          @ join_with nl (filter (\<lambda>x. x \<noteq> []) (map message_text ms)))],
        ms_meta = meta_default\<rparr>],
      rq_tools = []\<rparr>"

definition text_of_stream :: "provider_event list \<Rightarrow> string" where
  "text_of_stream es = concat (map (\<lambda>e. case e of PvTextDelta d \<Rightarrow> d | _ \<Rightarrow> []) es)"

text \<open>The fallback once the request gave no usable text.\<close>

definition summary_fallback :: "'w host \<Rightarrow> message list \<Rightarrow> ('w, string) act" where
  "summary_fallback h ms =
     and_then (outside (ho_cancelled h)) (\<lambda>c.
       if c then fail (ErProvider (provider_cancelled ''compaction summary cancelled''))
       else ret (structural_summary ms))"

definition summarize_history ::
  "'w host \<Rightarrow> string \<Rightarrow> string option \<Rightarrow> message list \<Rightarrow> ('w, string) act" where
  "summarize_history h model session ms =
     and_then (outside (ho_request_id h)) (\<lambda>i.
       let rq = summary_request i model session ms in
       and_then (outside (ho_cancelled h)) (\<lambda>c.
         if c then fail (ErProvider (provider_cancelled ''turn cancelled''))
         else and_then (note_call (CallSummary rq)) (\<lambda>_.
              and_then (outside (ho_stream h rq)) (\<lambda>evs.
              and_then (outside (ho_stream_end h rq)) (\<lambda>r.
                case r of
                  Inr _ \<Rightarrow>
                    (if \<not> is_blank (text_of_stream evs) then ret (text_of_stream evs) else summary_fallback h ms)
                | Inl e \<Rightarrow>
                    (if pe_kind e = PkCancelled then fail (ErProvider e) else summary_fallback h ms))))))"

definition compact_messages ::
  "'w host \<Rightarrow> session_turn \<Rightarrow> string option \<Rightarrow> compaction_reason \<Rightarrow> message list \<Rightarrow> nat \<Rightarrow> ('w, message list option) act" where
  "compact_messages h t session reason ms retained =
     (if length ms \<le> retained then ret None
      else let split = length ms - retained; old = take split ms; recent = drop split ms in
        and_then (summarize_history h (tn_model t) session old) (\<lambda>txt.
        and_then (outside (ho_cancelled h)) (\<lambda>c.
          if c then fail (ErProvider (provider_cancelled ''compaction cancelled before commit''))
          else and_then (outside_result (ho_compact h reason txt)) (\<lambda>out.
               and_then (emit h t (AeCompactionStarted
                  (case out of Some o' \<Rightarrow> co_source_events o' | None \<Rightarrow> of_nat (length old)))) (\<lambda>_.
               and_then (outside (ho_message_id h)) (\<lambda>mid.
                 let summary = \<lparr>ms_id = mid, ms_role = RoleUser, ms_content = [PartText txt], ms_meta = meta_default\<rparr> in
                 and_then (emit h t (AeMessageCommitted summary)) (\<lambda>_.
                 and_then (emit h t (AeCompactionCompleted mid
                    (case out of Some o' \<Rightarrow> co_through o' | None \<Rightarrow> 0))) (\<lambda>_.
                   ret (Some (summary # recent))))))))))"

text \<open>The messages after a soft-limit compaction, where one happened.\<close>

definition compact_if_soft ::
  "'w host \<Rightarrow> session_turn \<Rightarrow> turn_context \<Rightarrow> context_limits \<Rightarrow> request \<Rightarrow> input_estimate \<Rightarrow> ('w, request option) act" where
  "compact_if_soft h t cx lim rq est =
     (let soft_hit = (case cl_soft lim of Some s \<Rightarrow> ie_history est > s | None \<Rightarrow> False) in
      case compute_compaction (ie_total est) (cb_max_input (cl_budget lim)) (ie_history est) (cl_soft lim) of
        Some (reason, _) \<Rightarrow>
          (if soft_hit
           then and_then (compact_messages h t (rq_session rq) reason (rq_messages rq) (cx_retained cx))
                  (\<lambda>r. ret (map_option (\<lambda>ms. rq\<lparr>rq_messages := ensure_prefix (cx_layers cx) ms\<rparr>) r))
           else ret None)
      | None \<Rightarrow> ret None)"

definition truncated_details :: "nat \<Rightarrow> nat \<Rightarrow> json" where
  "truncated_details d est = JObject [(''dropped_messages'', json_nat d), (''estimated_input_tokens'', json_nat est)]"

definition apply_context_limits ::
  "'w host \<Rightarrow> session_turn \<Rightarrow> turn_context \<Rightarrow> request \<Rightarrow> input_estimate \<Rightarrow> ('w, request) act" where
  "apply_context_limits h t cx rq est =
     (case (cx_limits cx, cx_estimator cx) of
        (Some lim, Some es) \<Rightarrow>
          and_then (compact_if_soft h t cx lim rq est) (\<lambda>r.
            let (rq1, est1) = (case r of Some q \<Rightarrow> (q, estimate_at es q) | None \<Rightarrow> (rq, est));
                maxi = cb_max_input (cl_budget lim) in
            if ie_total est1 > maxi
            then (let (rq2, d, est2) = truncate_for_budget es maxi (cx_retained cx) rq1 in
                  and_then (emit h t (AeDiagnostic ''context_hard_truncated'' (truncated_details d (ie_total est2)))) (\<lambda>_.
                  and_then (emit h t (AeContextPrepared (length (rq_messages rq2)) (ie_total est2))) (\<lambda>_.
                    ret rq2)))
            else ret rq1)
      | _ \<Rightarrow> ret rq)"

subsection \<open>Approval\<close>

definition allows :: "approval_decision \<Rightarrow> bool" where
  "allows d \<longleftrightarrow> d = ApprovedOnce \<or> d = ApprovedForRun"

text \<open>The calls to run, the decisions by call and whether the run is approved from now on.\<close>

fun apply_gates ::
  "(invocation \<times> approval_gate) list \<Rightarrow> bool \<Rightarrow> invocation list \<times> (string, approval_decision) btree \<Rightarrow>
   (invocation list \<times> (string, approval_decision) btree) \<times> bool" where
  "apply_gates [] approved (run, dcs) = ((run, dcs), approved)"
| "apply_gates ((i, g) # igs) approved (run, dcs) =
     (case g of
        NotRequired \<Rightarrow> apply_gates igs approved (run @ [i], dcs)
      | Asked d0 \<Rightarrow>
          (let d = (if approved \<and> allows d0 then ApprovedForRun else d0);
               approved' = (approved \<or> d = ApprovedForRun);
               dcs' = bt_put (iv_id i) d dcs
           in apply_gates igs approved' (if allows d then run @ [i] else run, dcs')))"

definition approval_reason :: "invocation \<Rightarrow> string" where
  "approval_reason i = ''tool `'' @ iv_name i @ ''` requires approval''"

definition emit_decision ::
  "'w host \<Rightarrow> session_turn \<Rightarrow> bool \<Rightarrow> (string, approval_decision) btree \<Rightarrow> invocation \<Rightarrow> ('w, unit) act" where
  "emit_decision h t mismatch dcs i =
     (case bt_get dcs (iv_id i) of
        None \<Rightarrow> ret ()
      | Some d \<Rightarrow>
          and_then (if mismatch then emit h t (AeToolApprovalRequested (iv_id i) (approval_reason i)) else ret ())
            (\<lambda>_. emit h t (AeToolApprovalResponded (iv_id i) d None)))"

text \<open>The plan and the new approval of the run; \<open>None\<close> is a run cancelled while it waited.\<close>

type_synonym approval_plan = "(invocation list \<times> (string, approval_decision) btree) \<times> bool"

definition wait_and_apply :: "'w host \<Rightarrow> session_turn \<Rightarrow> invocation list \<Rightarrow> bool \<Rightarrow> ('w, approval_plan option) act" where
  "wait_and_apply h t is approved =
     and_then (outside (ho_ask_events h is approved)) (\<lambda>evs.
     and_then (emit_for_host h t evs) (\<lambda>_.
     and_then (outside_result (ho_ask h is approved)) (\<lambda>gates.
     and_then (note_call (CallAsk is approved gates)) (\<lambda>_.
     and_then (outside (ho_cancelled h)) (\<lambda>c.
       if c then ret None
       else let mismatch = (length gates \<noteq> length is);
                plan = (if mismatch then (([], fold (\<lambda>i. bt_put (iv_id i) Denied) is []), approved)
                        else apply_gates (zip is gates) approved ([], []))
            in and_then (for_each (emit_decision h t mismatch (snd (fst plan))) is) (\<lambda>_. ret (Some plan)))))))"

subsection \<open>Execution\<close>

definition is_dispatch_fact :: "tool_call_result \<Rightarrow> bool" where
  "is_dispatch_fact r \<longleftrightarrow>
     tr_success (tc_result r)
     \<or> Option.bind (json_get ''input_dispatched'' (tr_metadata (tc_result r))) as_bool = Some True"

definition failed_result :: "invocation \<Rightarrow> error_category \<Rightarrow> string \<Rightarrow> content_part list \<Rightarrow> tool_call_result" where
  "failed_result i cat msg ps =
     \<lparr>tc_id = iv_id i, tc_name = iv_name i, tc_arguments = iv_arguments i,
      tc_result = (tool_failure \<lparr>ex_category = cat, ex_message = msg, ex_retryable = False, ex_retry_after = None,
                                 ex_diagnostics = []\<rparr>)\<lparr>tr_content := ps\<rparr>\<rparr>"

definition denied_tool_result :: "invocation \<Rightarrow> tool_call_result" where
  "denied_tool_result i = failed_result i EcAuthorization ''tool call denied by user'' [PartText ''tool call denied by user'']"

definition cancelled_tool_result :: "invocation \<Rightarrow> tool_call_result" where
  "cancelled_tool_result i =
     failed_result i EcCancelled ''tool call cancelled with no dispatch fact''
       [PartText ''tool call cancelled with no dispatch fact'']"

definition missing_tool_result :: "invocation \<Rightarrow> tool_call_result" where
  "missing_tool_result i = failed_result i EcNotFound ''missing tool result'' []"

definition by_id :: "tool_call_result list \<Rightarrow> (string, tool_call_result) btree" where
  "by_id rs = fold (\<lambda>r. bt_put (tc_id r) r) rs []"

fun align_loop :: "invocation list \<Rightarrow> (string, tool_call_result) btree \<Rightarrow> tool_call_result list" where
  "align_loop [] m = []"
| "align_loop (i # is) m =
     (case bt_get m (iv_id i) of Some r \<Rightarrow> r | None \<Rightarrow> missing_tool_result i) # align_loop is (bt_del (iv_id i) m)"

definition align_tool_results :: "invocation list \<Rightarrow> tool_call_result list \<Rightarrow> tool_call_result list" where
  "align_tool_results is rs = align_loop is (by_id rs)"

fun pair_loop ::
  "invocation list \<Rightarrow> (string, tool_call_result) btree \<Rightarrow> (string, approval_decision) btree \<Rightarrow> tool_call_result list" where
  "pair_loop [] m dcs = []"
| "pair_loop (i # is) m dcs =
     (let rest = pair_loop is (bt_del (iv_id i) m) (bt_del (iv_id i) dcs);
          decided = (case bt_get dcs (iv_id i) of
                       Some Denied \<Rightarrow> denied_tool_result i | _ \<Rightarrow> cancelled_tool_result i)
      in (case bt_get m (iv_id i) of
            Some r \<Rightarrow> (if is_dispatch_fact r then r else decided)
          | None \<Rightarrow> decided) # rest)"

definition pair_cancelled_results ::
  "invocation list \<Rightarrow> tool_call_result list \<Rightarrow> (string, approval_decision) btree \<Rightarrow> tool_call_result list" where
  "pair_cancelled_results is raw dcs = pair_loop is (by_id raw) dcs"

text \<open>The results of the calls that were decided against, in the order of the decision map.\<close>

definition refused_results ::
  "invocation list \<Rightarrow> (string, approval_decision) btree \<Rightarrow> tool_call_result list" where
  "refused_results is dcs =
     List.map_filter (\<lambda>(k, d). if d = Denied \<or> d = ApprovalCancelled
        then map_option denied_tool_result (find (\<lambda>i. iv_id i = k) is) else None) dcs"

definition merge_results ::
  "invocation list \<Rightarrow> tool_call_result list \<Rightarrow> (string, approval_decision) btree \<Rightarrow> tool_call_result list" where
  "merge_results is raw dcs =
     align_tool_results is (raw @ refused_results is (fold (\<lambda>r. bt_del (tc_id r)) raw dcs))"

definition json_text :: "string \<Rightarrow> string \<Rightarrow> json \<Rightarrow> string" where
  "json_text k d v = (case Option.bind (json_get k v) as_str of Some x \<Rightarrow> x | None \<Rightarrow> d)"

definition sandbox_fallback_details :: "json \<Rightarrow> json option" where
  "sandbox_fallback_details md =
     (case json_get ''sandbox'' md of
        None \<Rightarrow> None
      | Some sb \<Rightarrow>
          (if Option.bind (json_get ''fallback'' sb) as_bool = Some True
           then (let iso = json_text ''isolation'' ''unknown'' sb; be = json_text ''backend'' ''unknown'' sb;
                     nt = json_text ''note'' [] sb;
                     msg = bytes [230, 178, 153, 231, 174, 177, 229, 155, 158, 233, 128, 128, 239, 188, 154]
                       @ ''isolation='' @ iso @ '' backend='' @ be
                       @ (if nt = [] then [] else bytes [239, 188, 136] @ nt @ bytes [239, 188, 137])
                 in Some (JObject [(''message'', JString msg), (''isolation'', JString iso), (''backend'', JString be),
                                   (''note'', JString nt), (''fallback'', JBool True)]))
           else None))"

definition emit_result :: "'w host \<Rightarrow> session_turn \<Rightarrow> tool_call_result \<Rightarrow> ('w, unit) act" where
  "emit_result h t r =
     and_then (emit h t (AeToolExecutionCompleted (tc_id r) (result_part r))) (\<lambda>_.
       case sandbox_fallback_details (tr_metadata (tc_result r)) of
         Some d \<Rightarrow> emit h t (AeDiagnostic ''sandbox.fallback'' d)
       | None \<Rightarrow> ret ())"

definition commit_tool_results :: "'w host \<Rightarrow> session_turn \<Rightarrow> tool_call_result list \<Rightarrow> ('w, message) act" where
  "commit_tool_results h t rs =
     and_then (for_each (emit_result h t) rs) (\<lambda>_.
     and_then (outside (ho_message_id h)) (\<lambda>mid.
       let m = tool_results_message mid rs in and_then (emit h t (AeMessageCommitted m)) (\<lambda>_. ret m)))"

definition run_tools :: "'w host \<Rightarrow> session_turn \<Rightarrow> invocation list \<Rightarrow> ('w, tool_call_result list) act" where
  "run_tools h t to_run =
     (if to_run = [] then ret []
      else and_then (note_call (CallTools to_run)) (\<lambda>_.
           and_then (outside (ho_tool_events h to_run)) (\<lambda>evs.
           and_then (emit_for_host h t evs) (\<lambda>_. outside (ho_tools h to_run)))))"

text \<open>The committed tool message; \<open>None\<close> is a cancelled round.\<close>

definition snapshot_execute_commit ::
  "'w host \<Rightarrow> session_turn \<Rightarrow> invocation list \<Rightarrow> invocation list \<Rightarrow> (string, approval_decision) btree \<Rightarrow>
   ('w, message option) act" where
  "snapshot_execute_commit h t is to_run dcs =
     and_then (outside (ho_snapshot_events h to_run)) (\<lambda>evs.
     and_then (emit_for_host h t evs) (\<lambda>_.
     and_then (outside (ho_snapshot h to_run)) (\<lambda>cps.
     and_then (for_each (\<lambda>c. emit h t (AeCheckpointCreated (wc_id c) (wc_artifacts c))) cps) (\<lambda>_.
     and_then (for_each (\<lambda>i. emit h t (AeToolExecutionStarted (iv_id i))) to_run) (\<lambda>_.
     and_then (run_tools h t to_run) (\<lambda>raw.
     and_then (outside (ho_cancelled h)) (\<lambda>c.
       if c
       then (if \<not> list_ex is_dispatch_fact raw then ret None
             else and_then (commit_tool_results h t (pair_cancelled_results is raw dcs)) (\<lambda>_. ret None))
       else and_then (commit_tool_results h t (merge_results is raw dcs)) (\<lambda>m. ret (Some m)))))))))"

subsection \<open>The session\<close>

text \<open>How a pass through the loop body ends: with the summary of the run, or with the next request.\<close>

datatype round_end = Finished response_summary | Again request bool token_usage

definition trim_details :: "trim_stats \<Rightarrow> nat \<Rightarrow> json" where
  "trim_details st b =
     JObject [(''trimmed_images'', json_nat (ts_trimmed st)), (''trimmed_bytes'', json_nat (ts_trimmed_bytes st)),
              (''retained_images'', json_nat (ts_retained st)), (''retained_bytes'', json_nat (ts_retained_bytes st)),
              (''retained_image_bytes_budget'', json_nat b)]"

definition trim_step :: "'w host \<Rightarrow> session_turn \<Rightarrow> turn_context \<Rightarrow> request \<Rightarrow> ('w, request) act" where
  "trim_step h t cx rq =
     (case cx_limits cx of
        None \<Rightarrow> ret rq
      | Some lim \<Rightarrow>
          (let b = image_budget (cl_budget lim); (ms, st) = trim_observation_images (rq_messages rq) b;
               rq' = rq\<lparr>rq_messages := ms\<rparr> in
           if ts_trimmed st > 0
           then and_then (emit h t (AeDiagnostic ''context.observation_images_trimmed'' (trim_details st b))) (\<lambda>_. ret rq')
           else ret rq'))"

definition prepare_request :: "'w host \<Rightarrow> session_turn \<Rightarrow> turn_context \<Rightarrow> request \<Rightarrow> ('w, request) act" where
  "prepare_request h t cx rq0 =
     and_then (trim_step h t cx rq0) (\<lambda>rq.
       let est = estimate_input cx rq in
       and_then (emit h t (AeContextPrepared (length (rq_messages rq)) (ie_total est))) (\<lambda>_.
         apply_context_limits h t cx rq est))"

definition tool_phase ::
  "'w host \<Rightarrow> session_turn \<Rightarrow> request \<Rightarrow> message \<Rightarrow> invocation list \<Rightarrow> bool \<Rightarrow> token_usage \<Rightarrow> ('w, round_end) act" where
  "tool_phase h t rq assistant is approved u =
     and_then (wait_and_apply h t is approved) (\<lambda>w.
       case w of
         None \<Rightarrow> emit_cancelled h t ''turn cancelled'' u
       | Some ((to_run, dcs), approved') \<Rightarrow>
           and_then (snapshot_execute_commit h t is to_run dcs) (\<lambda>m.
             case m of
               None \<Rightarrow> emit_cancelled h t ''turn cancelled'' u
             | Some tool \<Rightarrow>
                 and_then (outside (ho_request_id h)) (\<lambda>i.
                   ret (Again (rq\<lparr>rq_messages := rq_messages rq @ [assistant, tool], rq_id := i\<rparr>) approved' u))))"

definition stream_phase ::
  "'w host \<Rightarrow> session_turn \<Rightarrow> request \<Rightarrow> bool \<Rightarrow> token_usage \<Rightarrow> stream_round \<Rightarrow> ('w, round_end) act" where
  "stream_phase h t rq approved u0 sr =
     (case sr of
        StreamSucceeded a su \<Rightarrow>
          (let assistant = assistant_message h t a su; u = saturating_add_usage u0 (su_usage su) in
           and_then (emit h t (AeMessageCommitted assistant)) (\<lambda>_.
             if \<not> has_tool_calls a
             then and_then (emit h t (AeRunCompleted (su_stop_reason su) u)) (\<lambda>_. ret (Finished (su\<lparr>su_usage := u\<rparr>)))
             else tool_phase h t rq assistant (pending_invocations (ho_parse h) a) approved u))
      | StreamCancelled msg su \<Rightarrow> emit_cancelled h t msg (saturating_add_usage u0 su)
      | StreamFailed e su \<Rightarrow>
          and_then (emit h t (AeRunFailed (error_context_of e) (optional_usage (saturating_add_usage u0 su))))
            (\<lambda>_. fail (ErProvider e)))"

definition session_round ::
  "'w host \<Rightarrow> session_turn \<Rightarrow> turn_context \<Rightarrow> request \<Rightarrow> bool \<Rightarrow> token_usage \<Rightarrow> ('w, round_end) act" where
  "session_round h t cx rq0 approved u =
     and_then (outside (ho_cancelled h)) (\<lambda>c.
       if c then emit_cancelled h t ''turn cancelled'' u
       else and_then (prepare_request h t cx rq0) (\<lambda>rq.
            and_then (emit h t (AeProviderRequestStarted (rq_id rq) (tn_provider t) (tn_model t))) (\<lambda>_.
            and_then (outside (ho_message_id h)) (\<lambda>mid.
            and_then (collect_stream_round h t rq mid) (\<lambda>sr. stream_phase h t rq approved u sr)))))"

definition max_rounds_error :: "u64 \<Rightarrow> error_context" where
  "max_rounds_error m =
     \<lparr>ex_category = EcResourceExhausted, ex_message = ''maximum tool rounds exceeded ('' @ dec (unat m) @ '')'',
      ex_retryable = False, ex_retry_after = None, ex_diagnostics = []\<rparr>"

text \<open>The loop, with the number of tool rounds made; it ends because the rounds are bounded.\<close>

function session_loop ::
  "'w host \<Rightarrow> session_turn \<Rightarrow> turn_context \<Rightarrow> u64 \<Rightarrow> nat \<Rightarrow> request \<Rightarrow> bool \<Rightarrow> token_usage \<Rightarrow> ('w, response_summary) act" where
  "session_loop h t cx maxr n rq approved u s =
     (case session_round h t cx rq approved u s of
        (Inl e, s1) \<Rightarrow> (Inl e, s1)
      | (Inr (Finished su), s1) \<Rightarrow> (Inr su, s1)
      | (Inr (Again rq1 approved1 u1), s1) \<Rightarrow>
          (if n + 1 \<ge> unat maxr
           then and_then (emit h t (AeRunFailed (max_rounds_error maxr) (optional_usage u1)))
                  (\<lambda>_. fail (ErMaxRounds maxr)) s1
           else session_loop h t cx maxr (n + 1) rq1 approved1 u1 s1))"
  by pat_completeness auto
termination
  by (relation "measure (\<lambda>(h, t, cx, maxr, n, rq, approved, u, s). unat maxr - n)") auto

declare session_loop.simps [simp del]

definition session_start :: "session_turn \<Rightarrow> 'w \<Rightarrow> 'w eng" where
  "session_start t w = \<lparr>eg_world = w, eg_seq = tn_start t, eg_log = [], eg_trace = []\<rparr>"

definition run_session ::
  "'w host \<Rightarrow> session_turn \<Rightarrow> turn_context \<Rightarrow> u64 \<Rightarrow> request \<Rightarrow> ('w, response_summary) act" where
  "run_session h t cx maxr rq =
     (if tn_start t = 0 then fail (ErSink ''start_sequence must be >= 1 (session_events CHECK)'')
      else and_then (emit h t (AeRunStarted (ms_id (tn_trigger t)))) (\<lambda>_.
           and_then (emit h t (AeMessageCommitted (tn_trigger t))) (\<lambda>_.
           and_then (outside (ho_cancelled h)) (\<lambda>c.
             if c then emit_cancelled h t ''turn cancelled'' usage_zero
             else let rq1 = rq\<lparr>rq_messages := ensure_prefix (cx_layers cx) (rq_messages rq), rq_session := Some (tn_session t)\<rparr> in
                  and_then (if cx_layers cx = [] then ret ()
                            else emit h t (AeDiagnostic ''resources.injected'' (layers_details (cx_layers cx)))) (\<lambda>_.
                    session_loop h t cx maxr 0 rq1 False usage_zero)))))"

definition run_manual_compaction ::
  "'w host \<Rightarrow> session_turn \<Rightarrow> turn_context \<Rightarrow> request \<Rightarrow> ('w, message list) act" where
  "run_manual_compaction h t cx rq =
     (if tn_start t = 0 then fail (ErSink ''start_sequence must be >= 1 (session_events CHECK)'')
      else if length (rq_messages rq) \<le> cx_retained cx
      then fail (ErSink (''nothing to compact: '' @ dec (length (rq_messages rq)) @ '' message(s) <= retained '' @ dec (cx_retained cx)))
      else and_then (compact_messages h t (Some (tn_session t)) CrManual (rq_messages rq) (cx_retained cx))
             (\<lambda>r. case r of Some ms \<Rightarrow> ret ms | None \<Rightarrow> fail (ErSink ''compaction range checked non-empty above'')))"

end
