(* ===== verification/EngineProps.thy ===== *)
theory EngineProps
  imports EngineLoop
begin

text \<open>
  The tool loop, whatever the provider, the host and the user do: which calls run, what the log of a
  run looks like, what the requests to the provider contain and when the run ends. The proofs go
  through triples: a precondition on the engine's state, a step, a condition on its result and one
  on its error.
\<close>

subsection \<open>Triples\<close>

definition triple ::
  "('w eng \<Rightarrow> bool) \<Rightarrow> ('w, 'a) act \<Rightarrow> ('a \<Rightarrow> 'w eng \<Rightarrow> bool) \<Rightarrow> (engine_error \<Rightarrow> 'w eng \<Rightarrow> bool) \<Rightarrow> bool" where
  "triple P m Q E \<longleftrightarrow> (\<forall>s. P s \<longrightarrow> (case m s of (Inr x, s') \<Rightarrow> Q x s' | (Inl e, s') \<Rightarrow> E e s'))"

lemma tripleI: "(\<And>s. P s \<Longrightarrow> case m s of (Inr x, s') \<Rightarrow> Q x s' | (Inl e, s') \<Rightarrow> E e s') \<Longrightarrow> triple P m Q E"
  by (simp add: triple_def)

lemma tripleD: "triple P m Q E \<Longrightarrow> P s \<Longrightarrow> case m s of (Inr x, s') \<Rightarrow> Q x s' | (Inl e, s') \<Rightarrow> E e s'"
  by (simp add: triple_def)

lemma triple_pre: "triple P m Q E \<Longrightarrow> (\<And>s. P' s \<Longrightarrow> P s) \<Longrightarrow> triple P' m Q E"
  by (simp add: triple_def)

lemma triple_conseq:
  "triple P m Q E \<Longrightarrow> (\<And>s. P' s \<Longrightarrow> P s) \<Longrightarrow> (\<And>x s. Q x s \<Longrightarrow> Q' x s) \<Longrightarrow> (\<And>e s. E e s \<Longrightarrow> E' e s) \<Longrightarrow>
   triple P' m Q' E'"
  unfolding triple_def by (force split: prod.splits sum.splits)

lemma triple_ret: "(\<And>s. P s \<Longrightarrow> Q x s) \<Longrightarrow> triple P (ret x) Q E"
  by (simp add: triple_def ret_def)

lemma triple_fail: "(\<And>s. P s \<Longrightarrow> E e s) \<Longrightarrow> triple P (fail e) Q E"
  by (simp add: triple_def fail_def)

lemma triple_then:
  assumes "triple P m R E" and "\<And>x. triple (R x) (f x) Q E"
  shows "triple P (and_then m f) Q E"
proof (rule tripleI)
  fix s
  assume "P s"
  obtain r s' where m: "m s = (r, s')"
    by fastforce
  show "case and_then m f s of (Inr x, s') \<Rightarrow> Q x s' | (Inl e, s') \<Rightarrow> E e s'"
  proof (cases r)
    case (Inl e)
    then show ?thesis using tripleD [OF assms(1) \<open>P s\<close>] m by (simp add: and_then_def)
  next
    case (Inr x)
    then have "R x s'"
      using tripleD [OF assms(1) \<open>P s\<close>] m by simp
    then show ?thesis
      using tripleD [OF assms(2), of x s'] m Inr by (simp add: and_then_def)
  qed
qed

lemma triple_for_each:
  "(\<And>x. x \<in> set xs \<Longrightarrow> triple P (f x) (\<lambda>_. P) E) \<Longrightarrow> triple P (for_each f xs) (\<lambda>_. P) E"
proof (induction xs)
  case Nil
  then show ?case by (simp add: triple_ret)
next
  case (Cons x xs)
  show ?case
    unfolding for_each.simps by (rule triple_then [where R = "\<lambda>_. P"]) (use Cons in auto)
qed

text \<open>Steps that only the world, the log or the trace see.\<close>

lemma triple_outside: "(\<And>s w x. P s \<Longrightarrow> Q x (s\<lparr>eg_world := w\<rparr>)) \<Longrightarrow> triple P (outside f) Q E"
  by (simp add: triple_def outside_def split: prod.splits)

lemma triple_outside_result:
  "(\<And>s w x. P s \<Longrightarrow> Q x (s\<lparr>eg_world := w\<rparr>)) \<Longrightarrow> (\<And>s w e. P s \<Longrightarrow> E e (s\<lparr>eg_world := w\<rparr>)) \<Longrightarrow>
   triple P (outside_result f) Q E"
  by (simp add: triple_def outside_result_def split: prod.splits sum.splits)

subsection \<open>What the host is asked for\<close>

text \<open>The calls a host may run on its own answer.\<close>

definition approved_calls :: "invocation list \<Rightarrow> approval_gate list \<Rightarrow> invocation list" where
  "approved_calls is gs =
     map fst (filter (\<lambda>(i, g). case g of NotRequired \<Rightarrow> True | Asked d \<Rightarrow> allows d) (zip is gs))"

fun call_ok :: "host_call option \<Rightarrow> host_call \<Rightarrow> bool" where
  "call_ok prev (CallTools cs) =
     (case prev of
        Some (CallAsk is b gs) \<Rightarrow> length gs = length is \<and> cs = approved_calls is gs \<and> cs \<noteq> []
      | _ \<Rightarrow> False)"
| "call_ok prev c = True"

fun trace_ok :: "host_call option \<Rightarrow> host_call list \<Rightarrow> bool" where
  "trace_ok prev [] = True"
| "trace_ok prev (c # cs) = (call_ok prev c \<and> trace_ok (Some c) cs)"

definition streams :: "host_call list \<Rightarrow> request list" where
  "streams cs = List.map_filter (\<lambda>c. case c of CallStream rq \<Rightarrow> Some rq | _ \<Rightarrow> None) cs"

lemma trace_ok_snoc:
  "trace_ok prev (cs @ [c]) \<longleftrightarrow> trace_ok prev cs \<and> call_ok (if cs = [] then prev else Some (last cs)) c"
  by (induction prev cs rule: trace_ok.induct) auto

lemma streams_snoc: "streams (cs @ [c]) = streams cs @ (case c of CallStream rq \<Rightarrow> [rq] | _ \<Rightarrow> [])"
  by (simp add: streams_def List.map_filter_def split: host_call.split)

text \<open>Steps that leave the trace alone.\<close>

definition untraced :: "('w, 'a) act \<Rightarrow> bool" where
  "untraced m \<longleftrightarrow> (\<forall>s. eg_trace (snd (m s)) = eg_trace s)"

lemma untraced_triple:
  "untraced m \<Longrightarrow> triple (\<lambda>s. P (eg_trace s)) m (\<lambda>_ s. P (eg_trace s)) (\<lambda>_ s. P (eg_trace s))"
  unfolding untraced_def triple_def by (metis (mono_tags, lifting) case_prod_conv prod.exhaust_sel sum.case_eq_if)

named_theorems untraced_intros

lemma untraced_simple [untraced_intros]: "untraced (ret x)" "untraced (fail e)" "untraced (outside f)"
  "untraced (outside_result f')" "untraced (emit h t ev)"
  by (auto simp: untraced_def ret_def fail_def outside_def outside_result_def emit_def Let_def
      split: prod.splits option.splits)

lemma untraced_then [untraced_intros]: "untraced m \<Longrightarrow> (\<And>x. untraced (f x)) \<Longrightarrow> untraced (and_then m f)"
  unfolding untraced_def and_then_def by (auto split: prod.splits sum.splits) (metis snd_conv)+

lemma untraced_for_each [untraced_intros]: "(\<And>x. untraced (f x)) \<Longrightarrow> untraced (for_each f xs)"
  by (induction xs) (auto intro: untraced_intros)

lemma untraced_for_host [untraced_intros]: "untraced (emit_for_host h t evs)"
proof (induction evs)
  case (Cons ev evs)
  then show ?case
    using untraced_simple(5) [of h t ev] by (simp add: untraced_def)
qed (simp add: untraced_intros)

lemma untraced_deliver [untraced_intros]: "untraced (deliver h t mid buf evs)"
  by (induction h t mid buf evs rule: deliver.induct) (auto intro: untraced_intros split: option.split)

lemma untraced_emits [untraced_intros]:
  "untraced (emit_cancelled h t r u)" "untraced (emit_decision h t mm dcs i)" "untraced (emit_result h t x)"
  by (auto simp: emit_cancelled_def emit_decision_def emit_result_def intro!: untraced_intros split: option.split)

lemma untraced_commit [untraced_intros]: "untraced (commit_tool_results h t rs)"
  by (auto simp: commit_tool_results_def Let_def intro!: untraced_intros)

lemma untraced_trim [untraced_intros]: "untraced (trim_step h t cx rq)"
  by (auto simp: trim_step_def Let_def intro!: untraced_intros split: option.split prod.split)

text \<open>
  What holds of the trace at every moment: the calls are as they should be, at most \<open>n\<close> streams were
  asked for and each of their requests satisfies \<open>R\<close>. \<open>ready\<close> says in addition that \<open>to_run\<close> may run next.
\<close>

definition fine :: "(request \<Rightarrow> bool) \<Rightarrow> nat \<Rightarrow> host_call list \<Rightarrow> bool" where
  "fine R n tr \<longleftrightarrow> trace_ok None tr \<and> length (streams tr) \<le> n \<and> (\<forall>rq \<in> set (streams tr). R rq)"

definition ready :: "(request \<Rightarrow> bool) \<Rightarrow> nat \<Rightarrow> invocation list \<Rightarrow> host_call list \<Rightarrow> bool" where
  "ready R n to_run tr \<longleftrightarrow>
     fine R n tr \<and> (to_run = [] \<or> tr \<noteq> [] \<and> call_ok (Some (last tr)) (CallTools to_run))"

lemma fine_note:
  "fine R n tr \<Longrightarrow> call_ok (if tr = [] then None else Some (last tr)) c \<Longrightarrow> (\<And>rq. c \<noteq> CallStream rq) \<Longrightarrow>
   fine R n (tr @ [c])"
  by (auto simp: fine_def trace_ok_snoc streams_snoc split: host_call.split)

lemma fine_stream: "fine R n tr \<Longrightarrow> R rq \<Longrightarrow> fine R (Suc n) (tr @ [CallStream rq])"
  by (auto simp: fine_def trace_ok_snoc streams_snoc)

lemma fine_mono: "fine R n tr \<Longrightarrow> n \<le> m \<Longrightarrow> fine R m tr"
  by (auto simp: fine_def)

lemma ready_fine: "ready R n to_run tr \<Longrightarrow> fine R n tr"
  by (simp add: ready_def)

lemma triple_note: "(\<And>tr. P tr \<Longrightarrow> Q () (tr @ [c])) \<Longrightarrow>
    triple (\<lambda>s. P (eg_trace s)) (note_call c) (\<lambda>x s. Q x (eg_trace s)) E"
  by (simp add: triple_def note_call_def)

text \<open>A step off the trace, then the rest.\<close>

lemma untraced_step:
  assumes "untraced m" and "\<And>x. triple (\<lambda>s. P (eg_trace s)) (f x) Q E" and "\<And>e s. P (eg_trace s) \<Longrightarrow> E e s"
  shows "triple (\<lambda>s. P (eg_trace s)) (and_then m f) Q E"
  by (rule triple_then [where R = "\<lambda>_ s. P (eg_trace s)"],
      rule triple_conseq [OF untraced_triple [OF assms(1), of P]]) (use assms in auto)

lemma untraced_last:
  assumes "untraced m" and "\<And>x s. P (eg_trace s) \<Longrightarrow> Q x s" and "\<And>e s. P (eg_trace s) \<Longrightarrow> E e s"
  shows "triple (\<lambda>s. P (eg_trace s)) m Q E"
  by (rule triple_conseq [OF untraced_triple [OF assms(1), of P]]) (use assms in auto)

subsection \<open>Only approved calls run\<close>

lemma allows_for_run: "allows (if a \<and> allows d then ApprovedForRun else d) = allows d"
  by (simp add: allows_def)

lemma apply_gates_runs:
  "length gs = length is \<Longrightarrow> fst (fst (apply_gates (zip is gs) a (run, dcs))) = run @ approved_calls is gs"
proof (induction "is" gs arbitrary: a run dcs rule: list_induct2')
  case (4 i "is" g gs)
  then show ?case
    by (cases g) (auto simp: Let_def approved_calls_def allows_for_run)
qed (auto simp: approved_calls_def)

lemma note_step:
  assumes "\<And>tr. P tr \<Longrightarrow> P' (tr @ [c])" and "triple (\<lambda>s. P' (eg_trace s)) (f ()) Q E"
  shows "triple (\<lambda>s. P (eg_trace s)) (and_then (note_call c) f) Q E"
  by (rule triple_then [OF triple_note [where Q = "\<lambda>_. P'"]]) (use assms in auto)

definition asked ::
  "(request \<Rightarrow> bool) \<Rightarrow> nat \<Rightarrow> invocation list \<Rightarrow> bool \<Rightarrow> approval_gate list \<Rightarrow> host_call list \<Rightarrow> bool" where
  "asked R n is a gates tr \<longleftrightarrow> fine R n tr \<and> tr \<noteq> [] \<and> last tr = CallAsk is a gates"

definition planned :: "(request \<Rightarrow> bool) \<Rightarrow> nat \<Rightarrow> approval_plan option \<Rightarrow> host_call list \<Rightarrow> bool" where
  "planned R n r tr = (case r of None \<Rightarrow> fine R n tr | Some p \<Rightarrow> ready R n (fst (fst p)) tr)"

lemma asked_note: "fine R n tr \<Longrightarrow> asked R n is a gates (tr @ [CallAsk is a gates])"
  by (auto simp: asked_def intro: fine_note)

lemma ask_step:
  assumes "triple (\<lambda>s. asked R n is a gates (eg_trace s)) (f ()) Q E"
  shows "triple (\<lambda>s. fine R n (eg_trace s)) (and_then (note_call (CallAsk is a gates)) f) Q E"
  by (rule note_step [where P = "fine R n" and P' = "asked R n is a gates"]) (use assms asked_note in auto)

lemma asked_mismatch: "asked R n is a gates tr \<Longrightarrow> planned R n (Some (([], m), b)) tr"
  by (simp add: asked_def planned_def ready_def)

lemma asked_match:
  "asked R n is a gates tr \<Longrightarrow> length gates = length is \<Longrightarrow>
   planned R n (Some (apply_gates (zip is gates) a ([], []))) tr"
  by (auto simp: asked_def planned_def ready_def apply_gates_runs)

lemma wait_tail:
  assumes "\<And>tr. asked R n is a gates tr \<Longrightarrow> planned R n (Some plan) tr"
  shows "triple (\<lambda>s. asked R n is a gates (eg_trace s))
     (and_then (outside (ho_cancelled h)) (\<lambda>c.
        if c then ret None else and_then (for_each (emit_decision h t b p) is) (\<lambda>_. ret (Some plan))))
     (\<lambda>r s. planned R n r (eg_trace s)) (\<lambda>_ s. fine R n (eg_trace s))"
proof -
  have fine: "fine R n tr" if "asked R n is a gates tr" for tr
    using that by (simp add: asked_def)
  have tail: "triple (\<lambda>s. asked R n is a gates (eg_trace s))
      (and_then (for_each (emit_decision h t b p) is) (\<lambda>_. ret (Some plan)))
      (\<lambda>r s. planned R n r (eg_trace s)) (\<lambda>_ s. fine R n (eg_trace s))"
    by (rule untraced_step, intro untraced_intros, rule triple_ret) (use assms fine in auto)
  have stop: "triple (\<lambda>s. asked R n is a gates (eg_trace s)) (ret None)
      (\<lambda>r s. planned R n r (eg_trace s)) (\<lambda>_ s. fine R n (eg_trace s))"
    by (rule triple_ret) (use fine in \<open>auto simp: planned_def\<close>)
  show ?thesis
    by (rule untraced_step, rule untraced_intros) (use tail stop fine in auto)
qed

lemma wait_ready:
  "triple (\<lambda>s. fine R n (eg_trace s)) (wait_and_apply h t is a)
     (\<lambda>r s. planned R n r (eg_trace s)) (\<lambda>_ s. fine R n (eg_trace s))"
  unfolding wait_and_apply_def Let_def
  by (rule untraced_step [where P = "fine R n"], rule untraced_intros)+
     (auto intro!: ask_step wait_tail asked_mismatch asked_match)

text \<open>A stream that is asked for is noted, then nothing more is.\<close>

lemma stream_fine:
  assumes "R rq"
  shows "triple (\<lambda>s. fine R n (eg_trace s)) (collect_stream_round h t rq mid)
     (\<lambda>_ s. fine R (Suc n) (eg_trace s)) (\<lambda>_ s. fine R (Suc n) (eg_trace s))"
proof -
  have more: "fine R (Suc n) tr" if "fine R n tr" for tr
    using that by (rule fine_mono) simp
  have rest: "triple (\<lambda>s. fine R (Suc n) (eg_trace s))
     (and_then (outside (ho_stream h rq)) (\<lambda>evs. and_then (deliver h t mid [] evs) (\<lambda>buf.
        and_then (outside (ho_stream_end h rq)) (\<lambda>r. ret (stream_end mid buf r)))))
     (\<lambda>_ s. fine R (Suc n) (eg_trace s)) (\<lambda>_ s. fine R (Suc n) (eg_trace s))"
    by (rule untraced_last) (auto intro!: untraced_intros)
  have noted: "triple (\<lambda>s. fine R n (eg_trace s)) (and_then (note_call (CallStream rq)) (\<lambda>_.
     (and_then (outside (ho_stream h rq)) (\<lambda>evs. and_then (deliver h t mid [] evs) (\<lambda>buf.
        and_then (outside (ho_stream_end h rq)) (\<lambda>r. ret (stream_end mid buf r)))))))
     (\<lambda>_ s. fine R (Suc n) (eg_trace s)) (\<lambda>_ s. fine R (Suc n) (eg_trace s))"
    by (rule note_step [where P' = "fine R (Suc n)"]) (use assms rest in \<open>auto intro: fine_stream\<close>)
  show ?thesis
    unfolding collect_stream_round_def
    by (rule untraced_step, rule untraced_intros) (use noted more in \<open>auto intro: triple_ret\<close>)
qed

lemma run_tools_fine:
  "triple (\<lambda>s. ready R n to_run (eg_trace s)) (run_tools h t to_run)
     (\<lambda>_ s. fine R n (eg_trace s)) (\<lambda>_ s. fine R n (eg_trace s))"
proof -
  have rest: "triple (\<lambda>s. fine R n (eg_trace s))
      (and_then (outside (ho_tool_events h to_run)) (\<lambda>evs. and_then (emit_for_host h t evs) (\<lambda>_. outside (ho_tools h to_run))))
      (\<lambda>_ s. fine R n (eg_trace s)) (\<lambda>_ s. fine R n (eg_trace s))"
    by (rule untraced_last) (auto intro!: untraced_intros)
  show ?thesis
  proof (cases "to_run = []")
    case True
    then show ?thesis by (auto simp: run_tools_def intro!: triple_ret ready_fine)
  next
    case False
    have noted: "fine R n (tr @ [CallTools to_run])" if "ready R n to_run tr" for tr
      using that False by (intro fine_note) (auto simp: ready_def)
    show ?thesis
      unfolding run_tools_def if_not_P [OF False]
      by (rule note_step [where P = "ready R n to_run" and P' = "fine R n"]) (use noted rest in auto)
  qed
qed

lemma execute_fine:
  "triple (\<lambda>s. ready R n to_run (eg_trace s)) (snapshot_execute_commit h t is to_run dcs)
     (\<lambda>_ s. fine R n (eg_trace s)) (\<lambda>_ s. fine R n (eg_trace s))"
proof -
  have tail: "triple (\<lambda>s. fine R n (eg_trace s)) (and_then (outside (ho_cancelled h)) (\<lambda>c.
       if c
       then (if \<not> list_ex is_dispatch_fact raw then ret None
             else and_then (commit_tool_results h t (pair_cancelled_results is raw dcs)) (\<lambda>_. ret None))
       else and_then (commit_tool_results h t (merge_results is raw dcs)) (\<lambda>m. ret (Some m))))
     (\<lambda>_ s. fine R n (eg_trace s)) (\<lambda>_ s. fine R n (eg_trace s))" for raw
    by (rule untraced_last) (auto intro!: untraced_intros)
  show ?thesis
    unfolding snapshot_execute_commit_def
    by (rule untraced_step [where P = "ready R n to_run"], intro untraced_intros)+
       (auto intro!: triple_then [OF run_tools_fine] tail intro: ready_fine)
qed

text \<open>Compaction asks for summaries only.\<close>

lemma summarize_fine:
  "triple (\<lambda>s. fine R n (eg_trace s)) (summarize_history h model sid ms)
     (\<lambda>_ s. fine R n (eg_trace s)) (\<lambda>_ s. fine R n (eg_trace s))"
proof -
  have fallback: "untraced (summary_fallback h ms)"
    by (auto simp: summary_fallback_def intro!: untraced_intros)
  have rest: "triple (\<lambda>s. fine R n (eg_trace s))
      (and_then (outside (ho_stream h rq)) (\<lambda>evs. and_then (outside (ho_stream_end h rq)) (\<lambda>r.
         case r of
           Inr _ \<Rightarrow> (if \<not> is_blank (text_of_stream evs) then ret (text_of_stream evs) else summary_fallback h ms)
         | Inl e \<Rightarrow> (if pe_kind e = PkCancelled then fail (ErProvider e) else summary_fallback h ms))))
      (\<lambda>_ s. fine R n (eg_trace s)) (\<lambda>_ s. fine R n (eg_trace s))" for rq
    by (rule untraced_last) (auto intro!: untraced_intros fallback split: sum.split)
  have noted: "fine R n (tr @ [CallSummary rq])" if "fine R n tr" for tr rq
    using that by (auto intro: fine_note)
  show ?thesis
    unfolding summarize_history_def Let_def
    by (rule untraced_step [where P = "fine R n"], rule untraced_intros)+
       (auto intro!: triple_fail note_step [where P = "fine R n" and P' = "fine R n"] noted rest)
qed

lemma compact_fine:
  "triple (\<lambda>s. fine R n (eg_trace s)) (compact_messages h t sid reason ms k)
     (\<lambda>_ s. fine R n (eg_trace s)) (\<lambda>_ s. fine R n (eg_trace s))"
  unfolding compact_messages_def Let_def
  by (auto intro!: triple_ret triple_then [OF summarize_fine] untraced_last untraced_intros split: option.split)

lemma soft_fine:
  "triple (\<lambda>s. fine R n (eg_trace s)) (compact_if_soft h t cx lim rq est)
     (\<lambda>_ s. fine R n (eg_trace s)) (\<lambda>_ s. fine R n (eg_trace s))"
  unfolding compact_if_soft_def Let_def
  by (auto intro!: triple_ret triple_then [OF compact_fine] split: option.split)

lemma limits_fine:
  "triple (\<lambda>s. fine R n (eg_trace s)) (apply_context_limits h t cx rq est)
     (\<lambda>_ s. fine R n (eg_trace s)) (\<lambda>_ s. fine R n (eg_trace s))"
  unfolding apply_context_limits_def Let_def
  by (auto intro!: triple_ret triple_then [OF soft_fine] untraced_last untraced_intros
      split: option.split prod.split)

lemma prepare_fine:
  "triple (\<lambda>s. fine R n (eg_trace s)) (prepare_request h t cx rq)
     (\<lambda>_ s. fine R n (eg_trace s)) (\<lambda>_ s. fine R n (eg_trace s))"
  unfolding prepare_request_def Let_def
  by (rule untraced_step, rule untraced_trim, rule untraced_step, rule untraced_intros)
     (auto intro: limits_fine)

lemma tool_fine:
  "triple (\<lambda>s. fine R n (eg_trace s)) (tool_phase h t rq m is a u)
     (\<lambda>_ s. fine R n (eg_trace s)) (\<lambda>_ s. fine R n (eg_trace s))"
proof -
  have tail: "triple (\<lambda>s. fine R n (eg_trace s)) (case r of
       None \<Rightarrow> emit_cancelled h t x u
     | Some tool \<Rightarrow> and_then (outside (ho_request_id h)) (\<lambda>i. ret (f tool i)))
     (\<lambda>_ s. fine R n (eg_trace s)) (\<lambda>_ s. fine R n (eg_trace s))"
    for r x and f :: "message \<Rightarrow> string \<Rightarrow> round_end"
    by (rule untraced_last) (auto intro!: untraced_intros split: option.split)
  have run: "triple (\<lambda>s. planned R n (Some ((to_run, dcs), a')) (eg_trace s))
     (and_then (snapshot_execute_commit h t is to_run dcs) f)
     (\<lambda>_ s. fine R n (eg_trace s)) (\<lambda>_ s. fine R n (eg_trace s))"
    if "\<And>r. triple (\<lambda>s. fine R n (eg_trace s)) (f r) (\<lambda>_ s. fine R n (eg_trace s)) (\<lambda>_ s. fine R n (eg_trace s))"
    for to_run dcs a' and f :: "message option \<Rightarrow> ('a, round_end) act"
    unfolding planned_def by (simp add: triple_then [OF execute_fine that])
  have stop: "triple (\<lambda>s. planned R n None (eg_trace s)) (emit_cancelled h t x u)
     (\<lambda>_ s. fine R n (eg_trace s)) (\<lambda>_ s. fine R n (eg_trace s))" for x
    by (rule untraced_last) (auto intro!: untraced_intros simp: planned_def)
  show ?thesis
    unfolding tool_phase_def
    by (rule triple_then, rule wait_ready) (auto intro!: run tail stop split: option.split)
qed

lemma triple_and_result:
  "triple P m Q E \<Longrightarrow> (\<And>s x s'. m s = (Inr x, s') \<Longrightarrow> S x) \<Longrightarrow> triple P m (\<lambda>x s. Q x s \<and> S x) E"
  unfolding triple_def by (force split: prod.splits sum.splits)

lemma triple_if_result: "(S \<Longrightarrow> triple P m Q E) \<Longrightarrow> triple (\<lambda>s. P s \<and> S) m Q E"
  by (auto simp: triple_def)

subsection \<open>What the requests to the provider satisfy\<close>

text \<open>
  A condition on requests that survives the preparation of a request and the two messages a round
  with tool calls appends holds of every request the provider is asked to stream.
\<close>

locale request_law =
  fixes R :: "request \<Rightarrow> bool" and h :: "'w host" and t :: session_turn and cx :: turn_context
  assumes prepared: "R rq \<Longrightarrow> prepare_request h t cx rq s = (Inr rq', s') \<Longrightarrow> R rq'"
    and extended: "R rq \<Longrightarrow> a = fold_turn mid buf su \<Longrightarrow> has_tool_calls a \<Longrightarrow>
      tool_phase h t rq (assistant_message h t a su) (pending_invocations (ho_parse h) a) ok u s
        = (Inr (Again rq' ok' u'), s') \<Longrightarrow> R rq'"
begin

definition again_ok :: "round_end \<Rightarrow> bool" where
  "again_ok e = (case e of Finished _ \<Rightarrow> True | Again rq _ _ \<Rightarrow> R rq)"

definition turn_ok :: "stream_round \<Rightarrow> bool" where
  "turn_ok sr = (case sr of StreamSucceeded a su \<Rightarrow> \<exists>mid buf. a = fold_turn mid buf su | _ \<Rightarrow> True)"

lemma turn_ok_end: "turn_ok (stream_end mid buf r)"
  by (auto simp: turn_ok_def stream_end_def split: sum.split)

lemma collect_turn_ok: "collect_stream_round h t rq mid s = (Inr sr, s') \<Longrightarrow> turn_ok sr"
  by (auto simp: collect_stream_round_def and_then_def outside_def note_call_def ret_def turn_ok_end
      split: prod.splits sum.splits if_splits)

lemma tool_phase_again:
  assumes "R rq" and "turn_ok (StreamSucceeded a su)" and "has_tool_calls a"
    and "tool_phase h t rq (assistant_message h t a su) (pending_invocations (ho_parse h) a) ok u s = (Inr e, s')"
  shows "again_ok e"
  using assms extended by (cases e) (fastforce simp: again_ok_def turn_ok_def)+

lemma stream_phase_fine:
  assumes "R rq" and "turn_ok sr"
  shows "triple (\<lambda>s. fine R n (eg_trace s)) (stream_phase h t rq ok u sr)
     (\<lambda>e s. fine R n (eg_trace s) \<and> again_ok e) (\<lambda>_ s. fine R n (eg_trace s))"
proof (cases sr)
  case (StreamSucceeded a su)
  have done_ok: "triple (\<lambda>s. fine R n (eg_trace s)) (and_then (emit h t ev) (\<lambda>_. ret (Finished su')))
     (\<lambda>e s. fine R n (eg_trace s) \<and> again_ok e) (\<lambda>_ s. fine R n (eg_trace s))" for ev su'
    by (rule untraced_step, rule untraced_intros, rule triple_ret) (auto simp: again_ok_def)
  have tools: "triple (\<lambda>s. fine R n (eg_trace s))
     (tool_phase h t rq (assistant_message h t a su) (pending_invocations (ho_parse h) a) ok u')
     (\<lambda>e s. fine R n (eg_trace s) \<and> again_ok e) (\<lambda>_ s. fine R n (eg_trace s))" if "has_tool_calls a" for u'
    using assms that StreamSucceeded by (intro triple_and_result tool_fine) (blast intro: tool_phase_again)
  show ?thesis
    unfolding StreamSucceeded stream_phase_def stream_round.case Let_def
    by (rule untraced_step, rule untraced_intros) (auto intro!: done_ok tools)
next
  case (StreamCancelled msg v)
  then show ?thesis
    by (auto simp: stream_phase_def emit_cancelled_def intro!: untraced_step triple_fail untraced_intros)
next
  case (StreamFailed e v)
  then show ?thesis
    by (auto simp: stream_phase_def intro!: untraced_step triple_fail untraced_intros)
qed

lemma round_fine:
  assumes "R rq"
  shows "triple (\<lambda>s. fine R n (eg_trace s)) (session_round h t cx rq ok u)
     (\<lambda>e s. fine R (Suc n) (eg_trace s) \<and> again_ok e) (\<lambda>_ s. fine R (Suc n) (eg_trace s))"
proof -
  have more: "fine R (Suc n) tr" if "fine R n tr" for tr
    using that by (rule fine_mono) simp
  have stop: "triple (\<lambda>s. fine R n (eg_trace s)) (emit_cancelled h t x u)
     (\<lambda>e s. fine R (Suc n) (eg_trace s) \<and> again_ok e) (\<lambda>_ s. fine R (Suc n) (eg_trace s))" for x
    by (auto simp: emit_cancelled_def intro!: untraced_step triple_fail untraced_intros more)
  have stream: "triple (\<lambda>s. fine R n (eg_trace s))
     (and_then (collect_stream_round h t rq' mid) (\<lambda>sr. stream_phase h t rq' ok u sr))
     (\<lambda>e s. fine R (Suc n) (eg_trace s) \<and> again_ok e) (\<lambda>_ s. fine R (Suc n) (eg_trace s))" if "R rq'" for rq' mid
    by (rule triple_then, rule triple_and_result, rule stream_fine [of R, OF that], rule collect_turn_ok, assumption)
       (auto intro!: triple_if_result stream_phase_fine that)
  have rest: "triple (\<lambda>s. fine R n (eg_trace s)) (and_then (emit h t ev) (\<lambda>_. and_then (outside g) (\<lambda>mid.
     and_then (collect_stream_round h t rq' mid) (\<lambda>sr. stream_phase h t rq' ok u sr))))
     (\<lambda>e s. fine R (Suc n) (eg_trace s) \<and> again_ok e) (\<lambda>_ s. fine R (Suc n) (eg_trace s))" if "R rq'" for rq' ev g
    by (rule untraced_step, rule untraced_intros, rule untraced_step, rule untraced_intros)
       (use stream [OF that] more in auto)
  have known: "triple (\<lambda>s. fine R n (eg_trace s)) (prepare_request h t cx rq)
     (\<lambda>rq' s. fine R n (eg_trace s) \<and> R rq') (\<lambda>_ s. fine R (Suc n) (eg_trace s))"
    by (rule triple_conseq [OF triple_and_result [OF prepare_fine [of R n], where S = R]])
       (use assms more in \<open>auto intro: prepared\<close>)
  have prep: "triple (\<lambda>s. fine R n (eg_trace s)) (and_then (prepare_request h t cx rq) (\<lambda>rq'.
     and_then (emit h t (ev rq')) (\<lambda>_. and_then (outside g) (\<lambda>mid.
     and_then (collect_stream_round h t rq' mid) (\<lambda>sr. stream_phase h t rq' ok u sr)))))
     (\<lambda>e s. fine R (Suc n) (eg_trace s) \<and> again_ok e) (\<lambda>_ s. fine R (Suc n) (eg_trace s))" for ev g
    by (rule triple_then [OF known triple_if_result]) (rule rest)
  show ?thesis
    unfolding session_round_def
    by (rule untraced_step, rule untraced_intros) (use stop prep more in auto)
qed

text \<open>The errors of the round bound come after the last stream.\<close>

lemma give_up_untraced: "untraced (and_then (emit h t ev) (\<lambda>_. fail e))"
  by (intro untraced_intros)

lemma give_up_fine:
  "fine R k (eg_trace s) \<Longrightarrow> fine R k (eg_trace (snd (and_then (emit h t ev) (\<lambda>_. fail e) s)))"
  by (simp add: give_up_untraced [unfolded untraced_def])

lemma loop_fine:
  "R rq \<Longrightarrow> fine R n (eg_trace s) \<Longrightarrow>
   fine R (max (Suc n) (unat maxr)) (eg_trace (snd (session_loop h t cx maxr n rq ok u s)))"
proof (induction "unat maxr - n" arbitrary: n rq ok u s rule: less_induct)
  case less
  note round = tripleD [OF round_fine [OF less.prems(1), of n ok u], of s, OF less.prems(2)]
  obtain r s1 where r: "session_round h t cx rq ok u s = (r, s1)"
    by fastforce
  have one: "fine R (max (Suc n) (unat maxr)) (eg_trace s1)"
    using round r by (auto split: sum.splits intro: fine_mono)
  show ?case
  proof (cases "\<exists>rq1 ok1 u1. r = Inr (Again rq1 ok1 u1)")
    case True
    then obtain rq1 ok1 u1 where again: "r = Inr (Again rq1 ok1 u1)"
      by blast
    show ?thesis
    proof (cases "n + 1 \<ge> unat maxr")
      case True
      then show ?thesis
        using give_up_fine [OF one] r again by (subst session_loop.simps) (simp add: Let_def)
    next
      case False
      have "fine R (max (Suc (n + 1)) (unat maxr)) (eg_trace (snd (session_loop h t cx maxr (n + 1) rq1 ok1 u1 s1)))"
        by (rule less.hyps) (use False round r again in \<open>auto simp: again_ok_def\<close>)
      then show ?thesis
        using False r again by (subst session_loop.simps) (auto elim: fine_mono)
    qed
  next
    case False
    then show ?thesis
      using one r by (subst session_loop.simps) (auto split: sum.split round_end.split)
  qed
qed

lemma run_fine:
  assumes "R (rq\<lparr>rq_messages := ensure_prefix (cx_layers cx) (rq_messages rq), rq_session := Some (tn_session t)\<rparr>)"
  shows "fine R (max 1 (unat maxr)) (eg_trace (snd (run_session h t cx maxr rq (session_start t w))))"
proof -
  let ?rq = "rq\<lparr>rq_messages := ensure_prefix (cx_layers cx) (rq_messages rq), rq_session := Some (tn_session t)\<rparr>"
  let ?F = "\<lambda>s :: 'w eng. fine R (max 1 (unat maxr)) (eg_trace s)"
  have more: "fine R (max 1 (unat maxr)) tr" if "fine R 0 tr" for tr
    using that by (rule fine_mono) simp
  have loop: "triple (\<lambda>s. fine R 0 (eg_trace s)) (session_loop h t cx maxr 0 ?rq ok u) (\<lambda>_. ?F) (\<lambda>_. ?F)" for ok u
    using loop_fine [of ?rq 0, OF assms]
    by (intro tripleI) (auto split: prod.split sum.split, metis One_nat_def snd_conv)+
  have "triple (\<lambda>s. fine R 0 (eg_trace s)) (run_session h t cx maxr rq) (\<lambda>_. ?F) (\<lambda>_. ?F)"
  proof (cases "tn_start t = 0")
    case True
    then show ?thesis by (simp add: run_session_def triple_fail more del: One_nat_def)
  next
    case False
    have layers: "untraced (if cx_layers cx = [] then ret () else emit h t ev)" for ev
      by (simp add: untraced_intros)
    have go: "triple (\<lambda>s. fine R 0 (eg_trace s))
        (and_then (if cx_layers cx = [] then ret () else emit h t ev) (\<lambda>_. session_loop h t cx maxr 0 ?rq False usage_zero))
        (\<lambda>_. ?F) (\<lambda>_. ?F)" for ev
      by (rule untraced_step [OF layers loop more])
    have stop: "triple (\<lambda>s. fine R 0 (eg_trace s)) (emit_cancelled h t x u) (\<lambda>_. ?F) (\<lambda>_. ?F)" for x u
      by (rule untraced_last) (auto intro!: untraced_intros more simp del: One_nat_def)
    show ?thesis
      unfolding run_session_def Let_def if_not_P [OF False]
      by (rule untraced_step [where P = "fine R 0"], rule untraced_intros)+
         (use go stop more in \<open>auto simp del: One_nat_def\<close>)
  qed
  from tripleD [OF this, of "session_start t w"]
  show ?thesis
    by (auto simp: session_start_def fine_def streams_def split: prod.splits sum.splits)
qed

end

interpretation any_request: request_law "\<lambda>_. True" h t cx for h t cx
  by unfold_locales auto

text \<open>
  C6: Whatever the provider, the host and the user do, a tool call only ever runs right after the host
  was asked about the calls of that round and gave one answer for each of them, and what runs is
  exactly the calls that need no approval or were approved: a denied, cancelled or unanswered call, or
  a round whose answer has the wrong length, never reaches the executor.
\<close>

theorem unapproved_calls_never_run:
  "trace_ok None (eg_trace (snd (run_session h t cx maxr rq (session_start t w))))"
  using any_request.run_fine [where h = h and t = t and cx = cx and maxr = maxr and rq = rq and w = w] by (simp add: fine_def)

text \<open>
  A session asks the provider for at most \<open>max_tool_rounds\<close> streams (for one, when the bound is
  0), whatever tools the model keeps calling.
\<close>

theorem provider_calls_are_bounded:
  "length (streams (eg_trace (snd (run_session h t cx maxr rq (session_start t w))))) \<le> max 1 (unat maxr)"
  using any_request.run_fine [where h = h and t = t and cx = cx and maxr = maxr and rq = rq and w = w] by (simp add: fine_def)

end
