(* ===== verification/EnginePairs.thy ===== *)
theory EnginePairs
  imports EngineProps
begin

text \<open>
  Tool calls and their results in the requests to the provider: how a streamed turn becomes a
  message, how the results of a round are aligned with its calls, and what trimming and the injected
  layers leave of both.
\<close>

subsection \<open>Paired messages\<close>

definition call_ids :: "message \<Rightarrow> string list" where
  "call_ids m =
     (if ms_role m = RoleAssistant
      then List.map_filter (\<lambda>p. case p of PartToolCall c \<Rightarrow> Some (ca_id c) | _ \<Rightarrow> None) (ms_content m) else [])"

definition part_result_id :: "content_part \<Rightarrow> string option" where
  "part_result_id p = (case p of PartToolResult i _ _ _ _ _ \<Rightarrow> Some i | _ \<Rightarrow> None)"

definition result_ids :: "message \<Rightarrow> string list" where
  "result_ids m = List.map_filter part_result_id (ms_content m)"

text \<open>Every message with tool calls is followed by the tool message that answers them, in order.\<close>

fun paired :: "message list \<Rightarrow> bool" where
  "paired [] = True"
| "paired [m] = (call_ids m = [] \<and> result_ids m = [])"
| "paired (m # t # ms) =
     (result_ids m = []
      \<and> (if call_ids m = [] then paired (t # ms)
         else ms_role t = RoleTool \<and> result_ids t = call_ids m \<and> paired ms))"

definition plain :: "message \<Rightarrow> bool" where
  "plain m \<longleftrightarrow> call_ids m = [] \<and> result_ids m = []"

lemma paired_Cons_plain [simp]: "plain m \<Longrightarrow> paired (m # ms) = paired ms"
  by (cases ms) (auto simp: plain_def)

lemma paired_append: "paired ms \<Longrightarrow> paired ms' \<Longrightarrow> paired (ms @ ms')"
proof (induction ms rule: paired.induct)
  case (2 m)
  then show ?case by (simp add: plain_def)
next
  case (3 m t ms)
  then show ?case by (cases "call_ids m = []") auto
qed simp

lemma paired_filter: "paired ms \<Longrightarrow> (\<And>m. m \<in> set ms \<Longrightarrow> \<not> P m \<Longrightarrow> plain m) \<Longrightarrow> paired (filter P ms)"
proof (induction ms rule: paired.induct)
  case (3 m t ms)
  show ?case
  proof (cases "call_ids m = []")
    case True
    then have "paired (filter P (t # ms))" "plain m"
      using 3 by (auto simp: plain_def)
    then show ?thesis by simp
  next
    case False
    then have "\<not> plain m" "\<not> plain t"
      using "3.prems"(1) by (auto simp: plain_def)
    then have "P m" "P t"
      using "3.prems"(2) by auto
    then show ?thesis using 3 False by auto
  qed
qed auto

definition shape :: "message \<Rightarrow> message_role \<times> string list \<times> string list" where
  "shape m = (ms_role m, call_ids m, result_ids m)"

lemma paired_shape: "map shape ms = map shape ms' \<Longrightarrow> paired ms = paired ms'"
proof (induction ms arbitrary: ms' rule: paired.induct)
  case (2 m)
  then show ?case by (auto simp: shape_def)
next
  case (3 m t ms)
  then obtain m' t' ms'' where "ms' = m' # t' # ms''"
    by (auto simp: map_eq_Cons_conv Cons_eq_map_conv)
  then show ?case
    using 3(1) [of "t' # ms''"] 3(2) [of ms''] 3(3) by (auto simp: shape_def)
qed auto

subsection \<open>Trimming keeps the pairs\<close>

lemma trim_part_id: "part_result_id (fst (trim_part p fst')) = part_result_id p"
proof (cases p)
  case (PartImage src media alt)
  then show ?thesis by (cases src; cases fst') (auto simp: part_result_id_def Let_def)
qed (cases fst'; auto simp: part_result_id_def split: prod.splits)+

lemma trim_top_ids: "List.map_filter part_result_id (fst (trim_top ps (fs, st))) = List.map_filter part_result_id ps"
proof (induction ps arbitrary: fs st)
  case (Cons p ps)
  obtain p' fs' st' where p: "(if is_result p then trim_part p (fs, st) else (p, fs, st)) = (p', fs', st')"
    by (cases "if is_result p then trim_part p (fs, st) else (p, fs, st)") auto
  have "part_result_id p' = part_result_id p"
    using p trim_part_id [of p "(fs, st)"] by (auto split: if_splits)
  then show ?case
    using Cons.IH [of fs' st'] p
    by (cases "trim_top ps (fs', st')") (simp add: Let_def map_filter_simps split: option.split)
qed (simp add: map_filter_simps)

lemma trim_messages_shape: "map shape (fst (trim_messages ms (fs, st))) = map shape ms"
proof (induction ms arbitrary: fs st)
  case (Cons m ms)
  show ?case
  proof (cases "ms_role m = RoleTool")
    case True
    obtain ps fs' st' where top: "trim_top (ms_content m) (fs, st) = (ps, fs', st')"
      by (cases "trim_top (ms_content m) (fs, st)") auto
    have "shape (m\<lparr>ms_content := ps\<rparr>) = shape m"
      using True trim_top_ids [of "ms_content m" fs st] top by (simp add: shape_def call_ids_def result_ids_def)
    then show ?thesis
      using True top Cons.IH [of fs' st'] by (cases "trim_messages ms (fs', st')") simp
  next
    case False
    then show ?thesis
      using Cons.IH [of fs st] by (cases "trim_messages ms (fs, st)") simp
  qed
qed simp

lemma trim_shape: "map shape (fst (trim_observation_images ms b)) = map shape ms"
  using trim_messages_shape [of ms "retained_flags b (occurrences ms)" stats_zero]
  by (auto simp: trim_observation_images_def Let_def split: prod.splits)

subsection \<open>The calls of a streamed turn\<close>

definition turn_inv :: "assembled_turn \<Rightarrow> bool" where
  "turn_inv a \<longleftrightarrow> (\<forall>k. k \<in> set (at_order a) \<longleftrightarrow> bt_has (at_calls a) k)
     \<and> (\<forall>k c. bt_get (at_calls a) k = Some c \<longrightarrow> pc_id c = k)"

lemma turn_inv_apply: "turn_inv a \<Longrightarrow> turn_inv (turn_apply e a)"
  by (cases e) (auto simp: turn_inv_def add_call_def bt_get_put split: option.split if_splits)

lemma turn_inv_fold: "turn_inv a \<Longrightarrow> turn_inv (fold turn_apply es a)"
  by (induction es arbitrary: a) (auto intro: turn_inv_apply)

lemma fold_turn_inv: "turn_inv (fold_turn mid es su)"
proof -
  have "turn_inv (fold turn_apply es (assembled_new mid))"
    by (rule turn_inv_fold) (simp add: turn_inv_def assembled_new_def)
  then show ?thesis by (simp add: fold_turn_def turn_inv_def)
qed

lemma turn_inv_order: "turn_inv a \<Longrightarrow> has_tool_calls a \<Longrightarrow> at_order a \<noteq> []"
proof
  assume inv: "turn_inv a" and calls: "has_tool_calls a" and empty: "at_order a = []"
  obtain k c l where "at_calls a = (k, c) # l"
    using calls by (cases "at_calls a") (auto simp: has_tool_calls_def)
  then have "bt_has (at_calls a) k" by simp
  then show False using inv empty by (simp add: turn_inv_def)
qed

lemma map_filter_known: "(\<And>x. x \<in> set xs \<Longrightarrow> f x = Some (g x)) \<Longrightarrow> List.map_filter f xs = map g xs"
  by (induction xs) (auto simp: map_filter_simps)

lemma pending_ids: "turn_inv a \<Longrightarrow> map iv_id (pending_invocations parse a) = at_order a"
proof -
  assume inv: "turn_inv a"
  have "pending_invocations parse a =
    map (\<lambda>i. let c = the (bt_get (at_calls a) i) in
      \<lparr>iv_id = i, iv_name = pc_name c, iv_arguments = call_arguments parse c\<rparr>) (at_order a)"
    unfolding pending_invocations_def by (rule map_filter_known) (use inv in \<open>auto simp: turn_inv_def Let_def\<close>)
  then show ?thesis by (simp add: o_def Let_def)
qed

lemma ordered_ids: "turn_inv a \<Longrightarrow> map pc_id (ordered_calls a) = at_order a"
proof -
  assume inv: "turn_inv a"
  have "ordered_calls a = map (\<lambda>i. the (bt_get (at_calls a) i)) (at_order a)"
    unfolding ordered_calls_def by (rule map_filter_known) (use inv in \<open>auto simp: turn_inv_def\<close>)
  then have "map pc_id (ordered_calls a) = map (\<lambda>i. pc_id (the (bt_get (at_calls a) i))) (at_order a)"
    by simp
  also have "\<dots> = map (\<lambda>i. i) (at_order a)"
    by (rule map_cong) (use inv in \<open>auto simp: turn_inv_def\<close>)
  finally show ?thesis by simp
qed

lemma map_filter_append: "List.map_filter f (xs @ ys) = List.map_filter f xs @ List.map_filter f ys"
  by (simp add: List.map_filter_def)

lemma map_filter_map: "List.map_filter f (map g xs) = List.map_filter (f \<circ> g) xs"
  by (simp add: List.map_filter_def o_def filter_map)

lemma map_filter_None: "List.map_filter (\<lambda>_. None) xs = []"
  by (simp add: List.map_filter_def)

lemma map_filter_Some: "List.map_filter (\<lambda>x. Some (f x)) xs = map f xs"
  by (simp add: List.map_filter_def)

lemma assistant_ids:
  assumes "turn_inv a"
  shows "call_ids (assistant_message h t a su) = at_order a" and "result_ids (assistant_message h t a su) = []"
proof -
  have "call_ids (assistant_message h t a su) = map pc_id (ordered_calls a)"
    by (auto simp: call_ids_def assistant_message_def turn_message_def map_filter_append map_filter_map o_def
        map_filter_None map_filter_Some call_content_def map_filter_simps)
  then show "call_ids (assistant_message h t a su) = at_order a"
    using ordered_ids [OF assms] by simp
  show "result_ids (assistant_message h t a su) = []"
    by (auto simp: result_ids_def part_result_id_def assistant_message_def turn_message_def map_filter_append
        map_filter_map o_def map_filter_None map_filter_simps)
qed

subsection \<open>The results of a round\<close>

definition keyed :: "('v \<Rightarrow> 'k) \<Rightarrow> ('k, 'v) btree \<Rightarrow> bool" where
  "keyed f m \<longleftrightarrow> (\<forall>(k, v) \<in> set m. f v = k)"

lemma keyed_simps [simp]: "keyed f []" "keyed f ((k, v) # m) \<longleftrightarrow> f v = k \<and> keyed f m"
  by (auto simp: keyed_def)

lemma keyed_put: "keyed f m \<Longrightarrow> f v' = k' \<Longrightarrow> keyed f (bt_put k' v' m)"
  by (induction m) auto

lemma keyed_del: "keyed f m \<Longrightarrow> keyed f (bt_del k' m)"
  by (induction m) auto

lemma keyed_get: "keyed f m \<Longrightarrow> bt_get m k = Some v \<Longrightarrow> f v = k"
  by (induction m) (auto split: if_splits)

lemma by_id_keyed: "keyed tc_id (by_id rs)"
proof -
  have "keyed tc_id m \<Longrightarrow> keyed tc_id (fold (\<lambda>r. bt_put (tc_id r) r) rs m)" for m
    by (induction rs arbitrary: m) (auto intro: keyed_put)
  then show ?thesis by (simp add: by_id_def)
qed

lemma align_ids: "keyed tc_id m \<Longrightarrow> map tc_id (align_loop is m) = map iv_id is"
proof (induction "is" arbitrary: m)
  case (Cons i "is")
  then show ?case
    using keyed_get [OF Cons.prems, of "iv_id i"] keyed_del [OF Cons.prems]
    by (auto simp: missing_tool_result_def failed_result_def split: option.split)
qed simp

lemma merge_ids: "map tc_id (merge_results is raw dcs) = map iv_id is"
  by (simp add: merge_results_def align_tool_results_def align_ids [OF by_id_keyed])

lemma tool_message_ids:
  "result_ids (tool_results_message mid rs) = map tc_id rs" "ms_role (tool_results_message mid rs) = RoleTool"
  by (simp_all add: result_ids_def part_result_id_def tool_results_message_def result_part_def map_filter_map o_def
      map_filter_Some)

subsection \<open>What a step yields\<close>

definition yields :: "('w, 'a) act \<Rightarrow> ('a \<Rightarrow> bool) \<Rightarrow> bool" where
  "yields m S \<longleftrightarrow> (\<forall>s x s'. m s = (Inr x, s') \<longrightarrow> S x)"

lemma yieldsD: "yields m S \<Longrightarrow> m s = (Inr x, s') \<Longrightarrow> S x"
  by (auto simp: yields_def)

lemma yields_ret: "S x \<Longrightarrow> yields (ret x) S"
  by (simp add: yields_def ret_def)

lemma yields_fail: "yields (fail e) S"
  by (simp add: yields_def fail_def)

lemma yields_then: "yields m S' \<Longrightarrow> (\<And>x. S' x \<Longrightarrow> yields (f x) S) \<Longrightarrow> yields (and_then m f) S"
  unfolding yields_def and_then_def by (auto split: prod.splits sum.splits) blast

lemma yields_any: "yields m (\<lambda>_. True)"
  by (simp add: yields_def)

lemmas yields_rest = yields_then [OF yields_any]

lemma yields_cancelled: "yields (emit_cancelled h t r u) S"
  unfolding emit_cancelled_def by (intro yields_rest yields_fail)

text \<open>A committed tool message carries the ids of the round's calls.\<close>

lemma commit_yields:
  "yields (commit_tool_results h t rs) (\<lambda>m. ms_role m = RoleTool \<and> result_ids m = map tc_id rs)"
  unfolding commit_tool_results_def Let_def by (intro yields_rest yields_ret) (simp add: tool_message_ids)

lemma execute_yields:
  "yields (snapshot_execute_commit h t is to_run dcs)
     (\<lambda>r. \<forall>m. r = Some m \<longrightarrow> ms_role m = RoleTool \<and> result_ids m = map iv_id is)"
proof -
  have merged: "yields (and_then (commit_tool_results h t (merge_results is raw dcs)) (\<lambda>m. ret (Some m)))
     (\<lambda>r. \<forall>m. r = Some m \<longrightarrow> ms_role m = RoleTool \<and> result_ids m = map iv_id is)" for raw
    by (rule yields_then [OF commit_yields], rule yields_ret) (simp add: merge_ids)
  show ?thesis
    unfolding snapshot_execute_commit_def
    by (intro yields_rest) (auto intro!: merged yields_ret intro: yields_rest)
qed

definition extends :: "request \<Rightarrow> message \<Rightarrow> invocation list \<Rightarrow> round_end \<Rightarrow> bool" where
  "extends rq m is e \<longleftrightarrow>
     (case e of
        Finished _ \<Rightarrow> True
      | Again rq' _ _ \<Rightarrow>
          (\<exists>i tool. rq' = rq\<lparr>rq_messages := rq_messages rq @ [m, tool], rq_id := i\<rparr>
             \<and> ms_role tool = RoleTool \<and> result_ids tool = map iv_id is))"

lemma extends_Again:
  "ms_role tool = RoleTool \<Longrightarrow> result_ids tool = map iv_id is \<Longrightarrow>
   extends rq m is (Again (rq\<lparr>rq_messages := rq_messages rq @ [m, tool], rq_id := i\<rparr>) ok u)"
  unfolding extends_def by (simp, intro exI conjI) simp_all

lemma tool_phase_yields: "yields (tool_phase h t rq m is ok u) (extends rq m is)"
proof -
  have run: "yields (and_then (snapshot_execute_commit h t is to_run dcs) (\<lambda>r. case r of
       None \<Rightarrow> emit_cancelled h t x u
     | Some tool \<Rightarrow> and_then (outside (ho_request_id h)) (\<lambda>i.
         ret (Again (rq\<lparr>rq_messages := rq_messages rq @ [m, tool], rq_id := i\<rparr>) ok' u)))) (extends rq m is)" for to_run dcs x ok'
    by (rule yields_then [OF execute_yields])
       (auto intro!: yields_cancelled yields_rest yields_ret extends_Again split: option.split)
  show ?thesis
    unfolding tool_phase_def
    by (rule yields_rest) (auto intro!: yields_cancelled run split: option.split)
qed

definition unlimited :: "turn_context \<Rightarrow> bool" where
  "unlimited cx \<longleftrightarrow> cx_limits cx = None \<or> cx_estimator cx = None"

lemma trim_yields: "yields (trim_step h t cx rq) (\<lambda>rq'. map shape (rq_messages rq') = map shape (rq_messages rq))"
proof (cases "cx_limits cx")
  case (Some lim)
  obtain ms st where trim: "trim_observation_images (rq_messages rq) (image_budget (cl_budget lim)) = (ms, st)"
    by fastforce
  then have "map shape ms = map shape (rq_messages rq)"
    by (metis trim_shape fst_conv)
  then show ?thesis
    by (auto simp: trim_step_def Some trim Let_def intro!: yields_rest yields_ret)
qed (simp add: trim_step_def yields_ret)

lemma prepare_yields:
  "unlimited cx \<Longrightarrow>
   yields (prepare_request h t cx rq) (\<lambda>rq'. map shape (rq_messages rq') = map shape (rq_messages rq))"
  unfolding prepare_request_def Let_def
  by (rule yields_then [OF trim_yields], rule yields_rest)
     (auto simp: unlimited_def apply_context_limits_def intro!: yields_ret split: option.split)

text \<open>The messages are the given ones, up to what is trimmed within them, and paired ones after them.\<close>

definition grown :: "message list \<Rightarrow> message list \<Rightarrow> bool" where
  "grown start ms \<longleftrightarrow>
     (\<exists>given added. ms = given @ added \<and> map shape given = map shape start \<and> paired added)"

lemma grown_start: "grown start start"
  unfolding grown_def by (intro exI [of _ start] exI [of _ "[]"]) simp

lemma grown_shape:
  assumes "grown start ms" and "map shape ms' = map shape ms"
  shows "grown start ms'"
proof -
  obtain given added where g: "ms = given @ added" "map shape given = map shape start" "paired added"
    using assms(1) by (auto simp: grown_def)
  then have "map shape ms' = map shape given @ map shape added"
    using assms(2) by simp
  then obtain us vs where "ms' = us @ vs" "map shape us = map shape given" "map shape vs = map shape added"
    by (auto simp: map_eq_append_conv)
  then show ?thesis
    using g paired_shape [of vs added] unfolding grown_def by (intro exI [of _ us] exI [of _ vs]) simp
qed

lemma grown_more: "grown start ms \<Longrightarrow> paired new \<Longrightarrow> grown start (ms @ new)"
  unfolding grown_def by (metis append.assoc paired_append)

lemma grown_paired: "grown start ms \<Longrightarrow> paired start \<Longrightarrow> paired ms"
  unfolding grown_def using paired_append paired_shape by metis

interpretation pairs: request_law "\<lambda>rq. unlimited cx \<longrightarrow> grown start (rq_messages rq)" h t cx for h t cx start
proof
  fix rq s rq' s'
  assume "unlimited cx \<longrightarrow> grown start (rq_messages rq)" and "prepare_request h t cx rq s = (Inr rq', s')"
  then show "unlimited cx \<longrightarrow> grown start (rq_messages rq')"
    using yieldsD [OF prepare_yields] grown_shape by blast
next
  fix rq a mid buf su ok u s rq' ok' u' s'
  assume R: "unlimited cx \<longrightarrow> grown start (rq_messages rq)" and a: "a = fold_turn mid buf su" and calls: "has_tool_calls a"
    and run: "tool_phase h t rq (assistant_message h t a su) (pending_invocations (ho_parse h) a) ok u s
        = (Inr (Again rq' ok' u'), s')"
  have inv: "turn_inv a"
    by (simp add: a fold_turn_inv)
  obtain i tool where rq': "rq' = rq\<lparr>rq_messages := rq_messages rq @ [assistant_message h t a su, tool], rq_id := i\<rparr>"
    and tool: "ms_role tool = RoleTool" "result_ids tool = at_order a"
    using yieldsD [OF tool_phase_yields run] pending_ids [OF inv] by (auto simp: extends_def)
  have "call_ids tool = []"
    using tool by (simp add: call_ids_def)
  moreover have "at_order a \<noteq> []"
    using inv calls by (rule turn_inv_order)
  ultimately have "paired [assistant_message h t a su, tool]"
    using assistant_ids [OF inv, of h t su] tool by simp
  then show "unlimited cx \<longrightarrow> grown start (rq_messages rq')"
    using R grown_more by (auto simp: rq' simp del: paired.simps)
qed

text \<open>
  C7: In a session without context limits, every request the provider is asked to stream is the history the
  session was given behind its injected layers, with the same roles, calls and results, and after
  it messages of the session in which each assistant message with tool calls is directly followed by the
  tool message that answers exactly those calls in their order, whatever ran, was denied, went missing or
  came back twice. So where the given history is paired in this way itself and the messages
  that carry the id of injected ones hold no calls and results, each request is paired as a whole; an unpaired history
  is sent as it was given.
\<close>

theorem every_call_is_answered:
  assumes "unlimited cx"
    and "q \<in> set (streams (eg_trace (snd (run_session h t cx maxr rq (session_start t w)))))"
  shows "(\<exists>given added. rq_messages q = given @ added
        \<and> map shape given = map shape (ensure_prefix (cx_layers cx) (rq_messages rq)) \<and> paired added)
    \<and> (paired (rq_messages rq) \<and> (\<forall>m \<in> set (rq_messages rq). ms_id m = injected_id \<longrightarrow> plain m)
        \<longrightarrow> paired (rq_messages q))"
proof -
  let ?start = "ensure_prefix (cx_layers cx) (rq_messages rq)"
  have grown: "grown ?start (rq_messages q)"
    using pairs.run_fine [where h = h and t = t and cx = cx and maxr = maxr and rq = rq and w = w and start = ?start] assms
    by (simp add: fine_def grown_start)
  have "paired ?start" if "paired (rq_messages rq)" "\<forall>m \<in> set (rq_messages rq). ms_id m = injected_id \<longrightarrow> plain m"
    using that paired_filter [OF that(1), of "\<lambda>m. ms_id m \<noteq> injected_id"]
    by (auto simp: ensure_prefix_def injected_message_def plain_def call_ids_def result_ids_def part_result_id_def
        map_filter_simps)
  then show ?thesis
    using grown_paired [OF grown] grown unfolding grown_def by blast
qed

end
