(* ===== verification/EngineLog.thy ===== *)
theory EngineLog
  imports EnginePairs
begin

text \<open>
  The log of a run: which event closes it, what a success reports and what a failure leaves. The
  host's own events are assumed to be about approvals and tools: \<open>honest\<close>.
\<close>

subsection \<open>The log\<close>

fun closing :: "agent_event \<Rightarrow> bool" where
  "closing (AeRunCompleted _ _) = True"
| "closing (AeRunCancelled _ _) = True"
| "closing (AeRunFailed _ _) = True"
| "closing _ = False"

text \<open>What a committed assistant message cost, and what the messages of a log cost together.\<close>

fun cost :: "agent_event \<Rightarrow> token_usage option" where
  "cost (AeMessageCommitted m) = (if ms_role m = RoleAssistant then mm_usage (ms_meta m) else None)"
| "cost _ = None"

definition charge :: "agent_event \<Rightarrow> token_usage \<Rightarrow> token_usage" where
  "charge e u = (case cost e of Some v \<Rightarrow> saturating_add_usage u v | None \<Rightarrow> u)"

definition spent :: "agent_event list \<Rightarrow> token_usage" where
  "spent es = fold charge es usage_zero"

definition payloads :: "'w eng \<Rightarrow> agent_event list" where
  "payloads s = map en_payload (eg_log s)"

definition small :: "agent_event \<Rightarrow> bool" where
  "small e \<longleftrightarrow> \<not> closing e \<and> cost e = None"

definition honest :: "'w host \<Rightarrow> bool" where
  "honest h \<longleftrightarrow>
     (\<forall>is b w. \<forall>e \<in> set (fst (ho_ask_events h is b w)). small e)
     \<and> (\<forall>is w. \<forall>e \<in> set (fst (ho_snapshot_events h is w)). small e)
     \<and> (\<forall>is w. \<forall>e \<in> set (fst (ho_tool_events h is w)). small e)"

text \<open>Nothing outside the model's own reasons makes the run fail: the sink persists, the host answers.\<close>

definition steady :: "'w host \<Rightarrow> turn_context \<Rightarrow> bool" where
  "steady h cx \<longleftrightarrow>
     unlimited cx \<and> (\<forall>e w. fst (ho_sink h e w) = None) \<and> (\<forall>is b w. \<exists>gs. fst (ho_ask h is b w) = Inr gs)"

definition open_log :: "token_usage \<Rightarrow> 'w eng \<Rightarrow> bool" where
  "open_log u s \<longleftrightarrow> (\<forall>e \<in> set (payloads s). \<not> closing e) \<and> spent (payloads s) = u"

fun outcome :: "engine_error \<Rightarrow> agent_event \<Rightarrow> bool" where
  "outcome (ErProvider x) (AeRunCancelled r _) = (pe_kind x = PkCancelled \<and> r = Some (pe_message x))"
| "outcome (ErProvider x) (AeRunFailed c _) = (pe_kind x \<noteq> PkCancelled \<and> c = error_context_of x)"
| "outcome (ErMaxRounds m) (AeRunFailed c _) = (c = max_rounds_error m)"
| "outcome _ _ = False"

definition ended :: "bool \<Rightarrow> engine_error \<Rightarrow> 'w eng \<Rightarrow> bool" where
  "ended G e s \<longleftrightarrow>
     (\<forall>x \<in> set (butlast (payloads s)). \<not> closing x)
     \<and> (G \<longrightarrow> payloads s \<noteq> [] \<and> outcome e (last (payloads s)))"

lemma spent_snoc: "spent (es @ [e]) = charge e (spent es)"
  by (simp add: spent_def)

lemma spent_small: "\<forall>e \<in> set es'. small e \<Longrightarrow> spent (es @ es') = spent es"
  by (induction es' rule: rev_induct) (auto simp: spent_snoc charge_def small_def simp flip: append_assoc)

lemma open_ended: "open_log u s \<Longrightarrow> \<not> G \<Longrightarrow> ended G e s"
  by (auto simp: open_log_def ended_def dest: in_set_butlastD)

subsection \<open>Calm steps\<close>

text \<open>
  A calm step appends small events only and, where \<open>G\<close> holds, does not fail.
\<close>

definition calm :: "bool \<Rightarrow> ('w, 'a) act \<Rightarrow> bool" where
  "calm G m \<longleftrightarrow> (\<forall>s. (\<exists>es. payloads (snd (m s)) = payloads s @ es \<and> (\<forall>e \<in> set es. small e))
     \<and> (G \<longrightarrow> (\<exists>x. fst (m s) = Inr x)))"

lemma calm_open: "calm G m \<Longrightarrow> open_log u s \<Longrightarrow> open_log u (snd (m s))"
  unfolding calm_def open_log_def using spent_small by (metis Un_iff set_append small_def)

lemma calm_last:
  fixes m :: "('w, 'a) act"
  assumes "calm G m" and "\<And>x s. open_log u s \<Longrightarrow> Q x s"
  shows "triple (open_log u) m Q (ended G)"
proof (rule tripleI)
  fix s :: "'w eng"
  assume s: "open_log u s"
  have "open_log u (snd (m s))" and "\<And>e. fst (m s) = Inl e \<Longrightarrow> \<not> G"
    using calm_open [OF assms(1) s] assms(1) by (auto simp: calm_def) (metis Inl_Inr_False)
  then show "case m s of (Inr x, s') \<Rightarrow> Q x s' | (Inl e, s') \<Rightarrow> ended G e s'"
    using assms(2) by (auto split: prod.splits sum.splits intro: open_ended)
qed

lemma calm_step:
  assumes "calm G m" and "\<And>x. triple (open_log u) (f x) Q (ended G)"
  shows "triple (open_log u) (and_then m f) Q (ended G)"
  by (rule triple_then [OF calm_last [OF assms(1), where Q = "\<lambda>_. open_log u"]]) (use assms(2) in auto)

named_theorems calm_intros

lemma calm_pure [calm_intros]: "calm G (ret x)" "calm G (outside f)" "calm G (note_call c)"
  by (auto simp: calm_def ret_def outside_def note_call_def payloads_def split: prod.splits)

lemma calm_fail: "\<not> G \<Longrightarrow> calm G (fail e)"
  by (simp add: calm_def fail_def)

lemma calm_outside_result: "(\<And>w. G \<Longrightarrow> \<exists>x. fst (f w) = Inr x) \<Longrightarrow> calm G (outside_result f)"
  by (auto simp: calm_def outside_result_def payloads_def split: prod.splits) (metis fst_conv)

lemma calm_then [calm_intros]:
  fixes m :: "('w, 'a) act"
  assumes "calm G m" and "\<And>x. calm G (f x)"
  shows "calm G (and_then m f)"
  unfolding calm_def
proof (intro allI conjI impI)
  fix s :: "'w eng"
  obtain r s' where m: "m s = (r, s')"
    by fastforce
  obtain es where es: "payloads s' = payloads s @ es" "\<forall>e \<in> set es. small e"
    using assms(1) m unfolding calm_def by (metis snd_conv)
  show "\<exists>es. payloads (snd (and_then m f s)) = payloads s @ es \<and> (\<forall>e \<in> set es. small e)"
  proof (cases r)
    case (Inl e)
    then show ?thesis using m es by (auto simp: and_then_def)
  next
    case (Inr x)
    obtain es' where "payloads (snd (f x s')) = payloads s' @ es'" "\<forall>e \<in> set es'. small e"
      using assms(2) unfolding calm_def by metis
    then show ?thesis
      using m es Inr by (intro exI [of _ "es @ es'"]) (auto simp: and_then_def)
  qed
  assume G
  then obtain x where "r = Inr x"
    using assms(1) m unfolding calm_def by (metis fst_conv)
  then show "\<exists>y. fst (and_then m f s) = Inr y"
    using assms(2) \<open>G\<close> m by (auto simp: and_then_def calm_def)
qed

lemma calm_for_each [calm_intros]: "(\<And>x. calm G (f x)) \<Longrightarrow> calm G (for_each f xs)"
  by (induction xs) (auto intro: calm_intros)

text \<open>What the host emits, and what the engine does.\<close>

lemma calm_emit: "small ev \<Longrightarrow> (\<And>e w. G \<Longrightarrow> fst (ho_sink h e w) = None) \<Longrightarrow> calm G (emit h t ev)"
  by (auto simp: calm_def emit_def Let_def payloads_def make_envelope_def split: prod.splits option.splits)
     (metis fst_conv option.simps(3))

lemma calm_for_host: "\<forall>e \<in> set evs. small e \<Longrightarrow> calm G (emit_for_host h t evs)"
proof (induction evs)
  case (Cons ev evs)
  have ev: "calm False (emit h t ev)"
    using Cons.prems by (auto intro: calm_emit)
  have evs: "calm G (emit_for_host h t evs)"
    using Cons by simp
  show ?case
    unfolding calm_def emit_for_host.simps
  proof (intro allI conjI impI)
    fix s
    obtain es where es: "payloads (snd (emit h t ev s)) = payloads s @ es" "\<forall>e \<in> set es. small e"
      using ev unfolding calm_def by metis
    obtain es' where es': "payloads (snd (emit_for_host h t evs (snd (emit h t ev s)))) = payloads (snd (emit h t ev s)) @ es'"
      "\<forall>e \<in> set es'. small e"
      using evs unfolding calm_def by metis
    show "\<exists>es. payloads (snd (emit_for_host h t evs (snd (emit h t ev s)))) = payloads s @ es \<and> (\<forall>e \<in> set es. small e)"
      using es es' by (intro exI [of _ "es @ es'"]) auto
  next
    fix s
    assume G
    then show "\<exists>x. fst (emit_for_host h t evs (snd (emit h t ev s))) = Inr x"
      using evs by (simp add: calm_def)
  qed
qed (simp add: calm_intros)

lemma calm_outside_then:
  fixes g :: "'w \<Rightarrow> 'b \<times> 'w"
  assumes "\<And>x. S x \<Longrightarrow> calm G (f x)" and "\<And>w. S (fst (g w))"
  shows "calm G (and_then (outside g) f)"
  unfolding calm_def
proof (intro allI conjI impI)
  fix s :: "'w eng"
  let ?x = "fst (g (eg_world s))" and ?s = "s\<lparr>eg_world := snd (g (eg_world s))\<rparr>"
  have run: "and_then (outside g) f s = f ?x ?s" and same: "payloads ?s = payloads s"
    by (auto simp: and_then_def outside_def payloads_def split: prod.splits)
  have calm: "calm G (f ?x)"
    using assms by blast
  then show "\<exists>es. payloads (snd (and_then (outside g) f s)) = payloads s @ es \<and> (\<forall>e \<in> set es. small e)"
    unfolding run calm_def by (metis same)
  show "\<exists>x. fst (and_then (outside g) f s) = Inr x" if G
    unfolding run using calm that by (simp add: calm_def)
qed

lemma steadyD:
  "steady h cx \<Longrightarrow> unlimited cx" "steady h cx \<Longrightarrow> fst (ho_sink h e w) = None"
  "steady h cx \<Longrightarrow> \<exists>gs. fst (ho_ask h is b w) = Inr gs"
  by (auto simp: steady_def)

lemma honestD:
  assumes "honest h"
  shows "\<forall>e \<in> set (fst (ho_ask_events h is b w)). small e" "\<forall>e \<in> set (fst (ho_snapshot_events h is w)). small e"
    "\<forall>e \<in> set (fst (ho_tool_events h is w)). small e"
  using assms unfolding honest_def by blast+

lemma small_simps [simp]:
  "small (AeContextPrepared a b)" "small (AeProviderRequestStarted i p q')" "small (AeUsageUpdated v)"
  "small (AeToolApprovalRequested i r)" "small (AeToolApprovalResponded i q n)" "small (AeToolExecutionStarted i)"
  "small (AeToolExecutionCompleted i c)" "small (AeCheckpointCreated i as)" "small (AeDiagnostic k js)"
  "small (AeRunStarted i)" "small (AeCompactionStarted c1)" "small (AeCompactionCompleted i c2)"
  "ms_role m \<noteq> RoleAssistant \<Longrightarrow> small (AeMessageCommitted m)"
  by (simp_all add: small_def)

lemma small_mapped: "map_provider_event mid e = Some ev \<Longrightarrow> small ev"
  by (cases e) (auto simp: small_def)

abbreviation calmly :: "'w host \<Rightarrow> turn_context \<Rightarrow> ('w, 'a) act \<Rightarrow> bool" where
  "calmly h cx \<equiv> calm (steady h cx)"

lemma calmly_emit [calm_intros]: "small ev \<Longrightarrow> calmly h cx (emit h t ev)"
  by (rule calm_emit) (auto intro: steadyD)

lemma calmly_deliver [calm_intros]: "calmly h cx (deliver h t mid buf evs)"
  by (induction h t mid buf evs rule: deliver.induct)
     (auto intro!: calm_intros dest: small_mapped split: option.split)

lemma calmly_collect: "calmly h cx (collect_stream_round h t rq mid)"
  unfolding collect_stream_round_def by (auto intro!: calm_intros)

lemma calmly_wait: "honest h \<Longrightarrow> calmly h cx (wait_and_apply h t is a)"
  unfolding wait_and_apply_def Let_def
  by (rule calm_outside_then [where S = "\<lambda>evs. \<forall>e \<in> set evs. small e"])
     (auto simp: emit_decision_def intro!: calm_intros calm_for_host calm_outside_result steadyD(3) dest: honestD split: option.split)

lemma calmly_commit: "calmly h cx (commit_tool_results h t rs)"
  unfolding commit_tool_results_def Let_def emit_result_def
  by (auto intro!: calm_intros small_simps split: option.split simp: tool_message_ids)

lemma calmly_execute:
  assumes "honest h"
  shows "calmly h cx (snapshot_execute_commit h t is to_run dcs)"
proof -
  have tools: "calmly h cx (run_tools h t to_run)"
    unfolding run_tools_def
    by (auto intro!: calm_intros calm_for_host calm_outside_then [where S = "\<lambda>evs. \<forall>e \<in> set evs. small e"] honestD [OF assms])
  have rest: "calmly h cx (and_then (emit_for_host h t evs) (\<lambda>_.
     and_then (outside (ho_snapshot h to_run)) (\<lambda>cps.
     and_then (for_each (\<lambda>c. emit h t (AeCheckpointCreated (wc_id c) (wc_artifacts c))) cps) (\<lambda>_.
     and_then (for_each (\<lambda>i. emit h t (AeToolExecutionStarted (iv_id i))) to_run) (\<lambda>_.
     and_then (run_tools h t to_run) (\<lambda>raw.
     and_then (outside (ho_cancelled h)) (\<lambda>c.
       if c
       then (if \<not> list_ex is_dispatch_fact raw then ret None
             else and_then (commit_tool_results h t (pair_cancelled_results is raw dcs)) (\<lambda>_. ret None))
       else and_then (commit_tool_results h t (merge_results is raw dcs)) (\<lambda>m. ret (Some m)))))))))"
    if "\<forall>e \<in> set evs. small e" for evs
    by (auto intro!: calm_intros calm_for_host tools calmly_commit that small_simps)
  show ?thesis
    unfolding snapshot_execute_commit_def
    by (rule calm_outside_then [where S = "\<lambda>evs. \<forall>e \<in> set evs. small e"]) (use rest honestD [OF assms] in auto)
qed

text \<open>Where the run may fail, failing is calm.\<close>

lemma calm_weaken: "\<not> G \<Longrightarrow> calm False m \<Longrightarrow> calm G m"
  by simp

lemma calm_free: "calm False (fail e)" "small ev \<Longrightarrow> calm False (emit h t ev)" "calm False (outside_result f)"
  by (auto intro: calm_fail calm_emit calm_outside_result)

lemma calm_summarize: "calm False (summarize_history h model sid ms)"
  unfolding summarize_history_def summary_fallback_def Let_def
  by (auto intro!: calm_intros calm_free split: sum.split)

lemma calm_compact: "calm False (compact_messages h t sid reason ms k)"
  unfolding compact_messages_def Let_def
  by (auto intro!: calm_pure calm_then calm_summarize calm_free small_simps split: option.split)

lemma calmly_limits: "calmly h cx (apply_context_limits h t cx rq est)"
proof (cases "unlimited cx")
  case True
  then show ?thesis
    by (auto simp: unlimited_def apply_context_limits_def intro!: calm_intros split: option.split)
next
  case False
  then have "\<not> steady h cx"
    by (auto dest: steadyD)
  then show ?thesis
    unfolding apply_context_limits_def compact_if_soft_def Let_def
    by (rule calm_weaken) (auto intro!: calm_pure calm_then calm_free small_simps calm_compact split: option.split prod.split)
qed

lemma calmly_prepare: "calmly h cx (prepare_request h t cx rq)"
  unfolding prepare_request_def trim_step_def Let_def
  by (auto intro!: calm_intros small_simps calmly_limits split: option.split prod.split)

subsection \<open>Phases\<close>

text \<open>A success: the log ends with the summary, and what the run reports is what its messages cost.\<close>

definition done_with :: "response_summary \<Rightarrow> 'w eng \<Rightarrow> bool" where
  "done_with su s \<longleftrightarrow>
     payloads s \<noteq> [] \<and> last (payloads s) = AeRunCompleted (su_stop_reason su) (su_usage su)
     \<and> (\<forall>e \<in> set (butlast (payloads s)). \<not> closing e) \<and> spent (butlast (payloads s)) = su_usage su"

definition after_round :: "round_end \<Rightarrow> 'w eng \<Rightarrow> bool" where
  "after_round e = (case e of Finished su \<Rightarrow> done_with su | Again _ _ v \<Rightarrow> open_log v)"

lemma emit_cases:
  obtains "fst (emit h t ev s) = Inr ()" and "payloads (snd (emit h t ev s)) = payloads s @ [ev]"
  | e where "fst (emit h t ev s) = Inl e" and "payloads (snd (emit h t ev s)) = payloads s"
      and "\<not> steady h cx"
  by (cases "ho_sink h (make_envelope t (eg_seq s) ev) (eg_world s)"; cases "fst (ho_sink h (make_envelope t (eg_seq s) ev) (eg_world s))")
     (auto simp: emit_def payloads_def make_envelope_def steady_def Let_def, metis fst_conv option.simps(3))

lemma close_fail:
  assumes "outcome e ev"
  shows "triple (open_log u) (and_then (emit h t ev) (\<lambda>_. fail e)) Q (ended (steady h cx))"
proof (rule tripleI)
  fix s :: "'a eng"
  assume s: "open_log u s"
  show "case and_then (emit h t ev) (\<lambda>_. fail e) s of (Inr x, s') \<Rightarrow> Q x s' | (Inl e, s') \<Rightarrow> ended (steady h cx) e s'"
  proof (cases rule: emit_cases [where h = h and t = t and ev = ev and s = s and cx = cx])
    case 1
    then show ?thesis
      using assms s by (cases "emit h t ev s") (auto simp: and_then_def fail_def ended_def open_log_def)
  next
    case (2 x)
    then show ?thesis
      using open_ended [of u "snd (emit h t ev s)"] s
      by (cases "emit h t ev s") (auto simp: and_then_def open_log_def)
  qed
qed

lemma cancelled_log: "triple (open_log u) (emit_cancelled h t r v) Q (ended (steady h cx))"
  unfolding emit_cancelled_def
  by (rule close_fail) (simp add: provider_cancelled_def provider_error_new_def)

lemma finish_log:
  assumes "su_usage su = u"
  shows "triple (open_log u) (and_then (emit h t (AeRunCompleted (su_stop_reason su) u)) (\<lambda>_. ret (Finished su)))
     after_round (ended (steady h cx))"
proof (rule tripleI)
  fix s :: "'a eng"
  let ?m = "emit h t (AeRunCompleted (su_stop_reason su) u)"
  assume s: "open_log u s"
  show "case and_then ?m (\<lambda>_. ret (Finished su)) s of (Inr x, s') \<Rightarrow> after_round x s' | (Inl e, s') \<Rightarrow> ended (steady h cx) e s'"
  proof (cases rule: emit_cases [where h = h and t = t and s = s and cx = cx and ev = "AeRunCompleted (su_stop_reason su) u"])
    case 1
    then show ?thesis
      using assms s by (cases "?m s") (auto simp: and_then_def ret_def after_round_def done_with_def open_log_def)
  next
    case (2 x)
    then show ?thesis
      using open_ended [of u "snd (?m s)"] s by (cases "?m s") (auto simp: and_then_def open_log_def)
  qed
qed

lemma charge_step:
  assumes "\<not> closing ev" and "charge ev u = v" and "\<And>x. triple (open_log v) (f x) Q (ended (steady h cx))"
  shows "triple (open_log u) (and_then (emit h t ev) f) Q (ended (steady h cx))"
proof (rule triple_then [where R = "\<lambda>_. open_log v"])
  show "triple (open_log u) (emit h t ev) (\<lambda>_. open_log v) (ended (steady h cx))"
  proof (rule tripleI)
    fix s :: "'a eng"
    assume s: "open_log u s"
    show "case emit h t ev s of (Inr x, s') \<Rightarrow> open_log v s' | (Inl e, s') \<Rightarrow> ended (steady h cx) e s'"
    proof (cases rule: emit_cases [where h = h and t = t and ev = ev and s = s and cx = cx])
      case 1
      then show ?thesis
        using assms(1,2) s by (cases "emit h t ev s") (auto simp: open_log_def spent_snoc)
    next
      case (2 x)
      then show ?thesis
        using open_ended [of u "snd (emit h t ev s)"] s by (cases "emit h t ev s") (auto simp: open_log_def)
    qed
  qed
qed (rule assms(3))

lemma tool_phase_log:
  assumes "honest h"
  shows "triple (open_log u) (tool_phase h t rq m is ok u) after_round (ended (steady h cx))"
proof -
  have again: "triple (open_log u) (and_then (outside g) (\<lambda>i. ret (Again (f i) ok' u))) after_round (ended (steady h cx))"
    for g and f :: "string \<Rightarrow> request" and ok'
    by (rule calm_step, rule calm_pure, rule triple_ret) (simp add: after_round_def)
  show ?thesis
    unfolding tool_phase_def
    by (rule calm_step [OF calmly_wait [OF assms]])
       (auto intro!: cancelled_log calm_step [OF calmly_execute [OF assms]] again split: option.split)
qed

text \<open>A stream that failed did not fail by cancellation.\<close>

definition failure_ok :: "stream_round \<Rightarrow> bool" where
  "failure_ok sr = (case sr of StreamFailed e _ \<Rightarrow> pe_kind e \<noteq> PkCancelled | _ \<Rightarrow> True)"

lemma collect_failure_ok: "yields (collect_stream_round h t rq mid) failure_ok"
proof -
  have "failure_ok (stream_end mid buf r)" for mid buf r
    by (simp add: failure_ok_def stream_end_def split: sum.split)
  then show ?thesis
    unfolding collect_stream_round_def by (auto intro!: yields_rest yields_ret)
qed

lemma collect_log:
  "triple (open_log u) (collect_stream_round h t rq mid) (\<lambda>sr s. open_log u s \<and> failure_ok sr) (ended (steady h cx))"
  by (rule triple_and_result [OF calm_last [OF calmly_collect]]) (auto intro: yieldsD [OF collect_failure_ok])

lemma stream_phase_log:
  assumes "honest h" and "failure_ok sr"
  shows "triple (open_log u) (stream_phase h t rq ok u sr) after_round (ended (steady h cx))"
proof (cases sr)
  case (StreamSucceeded a su)
  let ?u = "saturating_add_usage u (su_usage su)" and ?m = "assistant_message h t a su"
  have "charge (AeMessageCommitted ?m) u = ?u"
    by (simp add: charge_def assistant_message_def turn_message_def)
  moreover have "triple (open_log ?u) (if \<not> has_tool_calls a
      then and_then (emit h t (AeRunCompleted (su_stop_reason su) ?u)) (\<lambda>_. ret (Finished (su\<lparr>su_usage := ?u\<rparr>)))
      else tool_phase h t rq ?m (pending_invocations (ho_parse h) a) ok ?u) after_round (ended (steady h cx))"
    using finish_log [of "su\<lparr>su_usage := ?u\<rparr>" ?u h t cx] by (auto intro: tool_phase_log [OF assms(1)])
  ultimately show ?thesis
    unfolding StreamSucceeded stream_phase_def stream_round.case Let_def
    by (intro charge_step) (simp_all only: closing.simps not_False_eq_True)
next
  case (StreamCancelled msg v)
  then show ?thesis by (simp add: stream_phase_def cancelled_log)
next
  case (StreamFailed e v)
  then show ?thesis using assms(2) by (simp add: stream_phase_def close_fail failure_ok_def)
qed

lemma round_log:
  assumes "honest h"
  shows "triple (open_log u) (session_round h t cx rq ok u) after_round (ended (steady h cx))"
proof -
  have stream: "triple (open_log u) (and_then (emit h t (AeProviderRequestStarted i p q)) (\<lambda>_.
      and_then (outside g) (\<lambda>mid. and_then (collect_stream_round h t rq' mid) (\<lambda>sr. stream_phase h t rq' ok u sr))))
      after_round (ended (steady h cx))" for i p q g rq'
    by (rule calm_step, rule calmly_emit, rule small_simps, rule calm_step, rule calm_pure,
        rule triple_then [OF collect_log triple_if_result], rule stream_phase_log [OF assms])
  have prep: "triple (open_log u) (and_then (prepare_request h t cx rq) (\<lambda>rq'.
      and_then (emit h t (AeProviderRequestStarted (rq_id rq') p q)) (\<lambda>_.
      and_then (outside g) (\<lambda>mid. and_then (collect_stream_round h t rq' mid) (\<lambda>sr. stream_phase h t rq' ok u sr)))))
      after_round (ended (steady h cx))" for p q g
    by (rule calm_step [OF calmly_prepare stream])
  show ?thesis
    unfolding session_round_def
    by (rule calm_step, rule calm_pure) (auto intro: cancelled_log prep)
qed

lemma loop_log:
  assumes "honest h"
  shows "triple (open_log u) (session_loop h t cx maxr n rq ok u) done_with (ended (steady h cx))"
proof (induction "unat maxr - n" arbitrary: n rq ok u rule: less_induct)
  case less
  show ?case
  proof (rule tripleI)
    fix s :: "'a eng"
    assume s: "open_log u s"
    note round = tripleD [OF round_log [OF assms, where t = t and cx = cx and rq = rq and ok = ok] s]
    obtain r s1 where r: "session_round h t cx rq ok u s = (r, s1)"
      by fastforce
    let ?goal = "\<lambda>p. case p of (Inr x, s') \<Rightarrow> done_with x s' | (Inl e, s') \<Rightarrow> ended (steady h cx) e s'"
    show "?goal (session_loop h t cx maxr n rq ok u s)"
    proof (cases "\<exists>rq1 ok1 u1. r = Inr (Again rq1 ok1 u1)")
      case True
      then obtain rq1 ok1 u1 where again: "r = Inr (Again rq1 ok1 u1)"
        by blast
      have s1: "open_log u1 s1"
        using round r again by (simp add: after_round_def)
      show ?thesis
      proof (cases "n + 1 \<ge> unat maxr")
        case True
        then have "session_loop h t cx maxr n rq ok u s =
          and_then (emit h t (AeRunFailed (max_rounds_error maxr) (optional_usage u1))) (\<lambda>_. fail (ErMaxRounds maxr)) s1"
          using r again by (subst session_loop.simps) simp
        moreover have "?goal (and_then (emit h t (AeRunFailed (max_rounds_error maxr) (optional_usage u1)))
            (\<lambda>_. fail (ErMaxRounds maxr)) s1)"
          by (rule tripleD [OF close_fail s1]) simp
        ultimately show ?thesis by simp
      next
        case False
        then show ?thesis
          using tripleD [OF less.hyps s1, of "n + 1" rq1 ok1] r again by (subst session_loop.simps) auto
      qed
    next
      case False
      then show ?thesis
        using round r by (subst session_loop.simps) (auto simp: after_round_def split: sum.splits round_end.splits)
    qed
  qed
qed

lemma session_run_log:
  assumes "honest h" and "tn_start t \<noteq> 0" and "ms_role (tn_trigger t) \<noteq> RoleAssistant"
  shows "triple (open_log usage_zero) (run_session h t cx maxr rq) done_with (ended (steady h cx))"
  unfolding run_session_def Let_def if_not_P [OF assms(2)]
  by (rule calm_step, rule calmly_emit, rule small_simps, rule calm_step, rule calmly_emit, rule small_simps, rule assms,
      rule calm_step, rule calm_pure)
     (auto intro!: cancelled_log calm_step calm_intros small_simps loop_log assms(1))

end
