(* ===== verification/EngineTrim.thy ===== *)
theory EngineTrim
  imports EngineContext "HOL-Library.Sublist"
begin

text \<open>
  What the two ways of making a request smaller leave: dropping the oldest messages until the estimate
  fits, and replacing older screenshots until their bytes fit.
\<close>

subsection \<open>Dropping the oldest messages\<close>

text \<open>A request without the first \<open>k\<close> messages, its system messages apart.\<close>

definition dropped :: "nat \<Rightarrow> message list \<Rightarrow> message list" where
  "dropped k ms = filter is_system (take k ms) @ drop k ms"

abbreviation weight :: "estimator \<Rightarrow> message list \<Rightarrow> nat" where
  "weight es ms \<equiv> sum_list (map (count_message es) ms)"

lemma dropped_simps [simp]:
  "dropped 0 ms = ms"
  "dropped (Suc k) (m # ms) = (if is_system m then m # dropped k ms else dropped k ms)"
  by (simp_all add: dropped_def)

lemma truncate_rest: "remaining \<le> maxi \<or> protect = 0 \<Longrightarrow> truncate_loop es maxi protect remaining ms = (ms, 0)"
  by (induction ms arbitrary: protect) auto

lemma truncate_loop_drops:
  "\<exists>k \<le> min protect (length ms).
     truncate_loop es maxi protect (base + weight es ms) ms
       = (dropped k ms, length (filter (\<lambda>m. \<not> is_system m) (take k ms)))
     \<and> (base + weight es (dropped k ms) \<le> maxi \<or> k = min protect (length ms))
     \<and> (\<forall>j < k. maxi < base + weight es (dropped j ms))"
proof (induction ms arbitrary: protect base)
  case (Cons m ms)
  show ?case
  proof (cases "base + weight es (m # ms) \<le> maxi \<or> protect = 0")
    case True
    then show ?thesis
      using truncate_rest [of "base + weight es (m # ms)" maxi protect es "m # ms"]
      by (intro exI [of _ 0]) auto
  next
    case False
    then obtain p where p: "protect = Suc p"
      by (cases protect) auto
    let ?base = "if is_system m then base + count_message es m else base"
    obtain k where k: "k \<le> min p (length ms)"
      "truncate_loop es maxi p (?base + weight es ms) ms
        = (dropped k ms, length (filter (\<lambda>m. \<not> is_system m) (take k ms)))"
      "?base + weight es (dropped k ms) \<le> maxi \<or> k = min p (length ms)"
      "\<forall>j < k. maxi < ?base + weight es (dropped j ms)"
      using Cons.IH [of p ?base] by blast
    have "\<forall>j < Suc k. maxi < base + weight es (dropped j (m # ms))"
      using k(4) False by (auto simp: less_Suc_eq_0_disj split: if_splits)
    then show ?thesis
      using k p False by (intro exI [of _ "Suc k"]) (auto simp: add.assoc [symmetric] split: if_splits)
  qed
qed simp

lemma estimate_total:
  "ie_total (estimate_at es rq) = count_tool_schemas es (rq_tools rq) + weight es (rq_messages rq) + reply_primer"
proof -
  have "weight es ms = weight es (filter is_system ms) + weight es (filter (\<lambda>m. \<not> is_system m) ms)" for ms
    by (induction ms) auto
  from this [of "rq_messages rq"] show ?thesis by (simp add: estimate_at_def Let_def)
qed

text \<open>
  The hard truncation drops the oldest messages first, no system message and none of the last
  \<open>retained_recent\<close>, exactly as many as it takes: it stops as soon as the estimate of what is left fits the
  input limit or nothing more may go, it reports the number it dropped, and the estimate it returns is
  that of the request it returns.
\<close>

theorem truncation_drops_the_oldest:
  "\<exists>k \<le> length (rq_messages rq) - retained.
     truncate_for_budget es maxi retained rq =
       (let rq' = rq\<lparr>rq_messages := dropped k (rq_messages rq)\<rparr>
        in (rq', length (filter (\<lambda>m. \<not> is_system m) (take k (rq_messages rq))), estimate_at es rq'))
     \<and> (ie_total (estimate_at es (rq\<lparr>rq_messages := dropped k (rq_messages rq)\<rparr>)) \<le> maxi
        \<or> k = length (rq_messages rq) - retained)
     \<and> (\<forall>j < k. maxi < ie_total (estimate_at es (rq\<lparr>rq_messages := dropped j (rq_messages rq)\<rparr>)))"
proof -
  let ?ms = "rq_messages rq" and ?base = "count_tool_schemas es (rq_tools rq) + reply_primer"
  let ?p = "length ?ms - min retained (length ?ms)"
  have p: "min ?p (length ?ms) = length ?ms - retained" "?p = length ?ms - retained"
    by auto
  obtain k where k: "k \<le> length ?ms - retained"
    "truncate_loop es maxi ?p (?base + weight es ?ms) ?ms
      = (dropped k ?ms, length (filter (\<lambda>m. \<not> is_system m) (take k ?ms)))"
    "?base + weight es (dropped k ?ms) \<le> maxi \<or> k = length ?ms - retained"
    "\<forall>j < k. maxi < ?base + weight es (dropped j ?ms)"
    using truncate_loop_drops [of ?p ?ms es maxi ?base] p by auto
  have est: "count_tool_schemas es (rq_tools rq) + weight es ?ms + reply_primer = ?base + weight es ?ms"
    by simp
  show ?thesis
    using k by (intro exI [of _ k]) (simp add: truncate_for_budget_def Let_def est estimate_total ac_simps)
qed

subsection \<open>Trimming older screenshots\<close>

text \<open>The elements whose flag is set.\<close>

definition sel :: "'a list \<Rightarrow> bool list \<Rightarrow> 'a list" where
  "sel xs fs = map fst (filter snd (zip xs fs))"

lemma sel_append: "sel (xs @ ys) fs = sel xs fs @ sel ys (drop (length xs) fs)"
proof -
  have "zip xs (take (length xs) fs) = zip xs fs"
    by (simp add: zip_map_fst_snd min_def list_eq_iff_nth_eq)
  then show ?thesis by (simp add: sel_def zip_append1)
qed

lemma sel_simps [simp]: "sel [] fs = []" "sel (x # xs) (f # fs) = (if f then x # sel xs fs else sel xs fs)" "sel xs [] = []"
  by (simp_all add: sel_def)

lemma sel_map: "sel (map f xs) fs = map f (sel xs fs)"
  by (simp add: sel_def zip_map1 filter_map o_def split_def)

text \<open>The counters after a run of images.\<close>

definition counted :: "nat list \<Rightarrow> bool list \<Rightarrow> trim_stats \<Rightarrow> trim_stats" where
  "counted bs fs st = fold (\<lambda>(b, f). count_image f b) (zip bs fs) st"

lemma counted_simps [simp]: "counted [] fs st = st" "counted (b # bs) (f # fs) st = counted bs fs (count_image f b st)"
  by (simp_all add: counted_def)

lemma counted_append: "counted (bs @ cs) fs st = counted cs (drop (length bs) fs) (counted bs fs st)"
proof -
  have "zip bs (take (length bs) fs) = zip bs fs"
    by (simp add: list_eq_iff_nth_eq)
  then show ?thesis by (simp add: counted_def zip_append1)
qed

text \<open>
  A traversal that consumes the flags of the images \<open>bs\<close> and keeps those that are set: what is left of
  them, the flags and the counters.
\<close>

definition keeps_flagged :: "nat list \<Rightarrow> nat list \<Rightarrow> bool list \<times> trim_stats \<Rightarrow> bool list \<times> trim_stats \<Rightarrow> bool" where
  "keeps_flagged bs bs' a b \<longleftrightarrow>
     (length bs \<le> length (fst a) \<longrightarrow>
        bs' = sel bs (fst a) \<and> fst b = drop (length bs) (fst a) \<and> snd b = counted bs (fst a) (snd a))"

lemma keeps_flagged_none: "keeps_flagged [] [] a a"
  by (simp add: keeps_flagged_def)

lemma keeps_flagged_append:
  "keeps_flagged bs bs' a b \<Longrightarrow> keeps_flagged cs cs' b c \<Longrightarrow> keeps_flagged (bs @ cs) (bs' @ cs') a c"
  by (auto simp: keeps_flagged_def sel_append counted_append add.commute)

lemma trim_part_flags:
  "keeps_flagged (part_images p) (part_images (fst (trim_part p a))) a (snd (trim_part p a))"
  "keeps_flagged (concat (map part_images ps)) (concat (map part_images (fst (trim_parts ps a)))) a (snd (trim_parts ps a))"
proof (induction p a and ps a rule: trim_part_trim_parts.induct)
  case (1 v media alt fs st)
  then show ?case
    by (cases fs) (auto simp: keeps_flagged_def)
next
  case (2 i nm ps err md ars fs st)
  then show ?case
    by (cases "trim_parts ps (fs, st)") auto
next
  case (4 fs st)
  then show ?case by (simp add: keeps_flagged_none)
next
  case (5 p ps fs st)
  obtain p' fs' st' where p: "trim_part p (fs, st) = (p', fs', st')"
    by (cases "trim_part p (fs, st)") auto
  obtain ps' r where ps: "trim_parts ps (fs', st') = (ps', r)"
    by (rule prod.exhaust)
  have "keeps_flagged (part_images p) (part_images p') (fs, st) (fs', st')"
    using 5(1) p by simp
  moreover have "keeps_flagged (concat (map part_images ps)) (concat (map part_images ps')) (fs', st') r"
    using 5(2) p ps by simp
  ultimately show ?case
    using p ps by (cases r) (auto intro: keeps_flagged_append)
qed (simp_all add: keeps_flagged_none)

lemma trim_part_result: "is_result (fst (trim_part p a)) = is_result p"
proof (cases p)
  case (PartImage src media alt)
  then show ?thesis by (cases src; cases a) (auto simp: is_result_def Let_def)
qed (cases a; auto simp: is_result_def split: prod.splits)+

definition top_images :: "content_part list \<Rightarrow> nat list" where
  "top_images ps = concat (map part_images (filter is_result ps))"

lemma trim_top_flags: "keeps_flagged (top_images ps) (top_images (fst (trim_top ps a))) a (snd (trim_top ps a))"
proof (induction ps arbitrary: a)
  case Nil
  then show ?case by (cases a) (simp add: top_images_def keeps_flagged_none)
next
  case (Cons p ps)
  obtain fs st where a: "a = (fs, st)"
    by fastforce
  obtain p' fs' st' where p: "(if is_result p then trim_part p (fs, st) else (p, fs, st)) = (p', fs', st')"
    by (cases "if is_result p then trim_part p (fs, st) else (p, fs, st)") auto
  obtain ps' r where ps: "trim_top ps (fs', st') = (ps', r)"
    by (rule prod.exhaust)
  have one: "keeps_flagged (top_images [p]) (top_images [p']) a (fs', st')"
    using p trim_part_flags(1) [of p a] trim_part_result [of p a] a
    by (auto simp: top_images_def keeps_flagged_none split: if_splits)
  have "keeps_flagged (top_images [p] @ top_images ps) (top_images [p'] @ top_images ps') a r"
    using keeps_flagged_append [OF one] Cons.IH [of "(fs', st')"] ps by simp
  then show ?case
    using p ps a by (cases r) (simp add: top_images_def split: if_splits)
qed

text \<open>The same over messages, with the position of each image.\<close>

definition occ :: "nat \<Rightarrow> message list \<Rightarrow> (nat \<times> nat) list" where
  "occ n ms = concat (map (\<lambda>(k, m). map (Pair k) (message_images m)) (enumerate n ms))"

lemma occ_simps [simp]: "occ n [] = []" "occ n (m # ms) = map (Pair n) (message_images m) @ occ (Suc n) ms"
  by (simp_all add: occ_def)

definition trim_one :: "message \<Rightarrow> bool list \<times> trim_stats \<Rightarrow> message \<times> bool list \<times> trim_stats" where
  "trim_one m a =
     (if ms_role m = RoleTool
      then (let (ps, fs1, st1) = trim_top (ms_content m) a in (m\<lparr>ms_content := ps\<rparr>, fs1, st1))
      else (m, fst a, snd a))"

lemma trim_messages_Cons:
  "trim_messages (m # ms) a =
     (let (m', b) = trim_one m a; (ms', c) = trim_messages ms b in (m' # ms', c))"
  by (cases a) (auto simp: trim_one_def Let_def split: prod.split)

lemma trim_one_flags: "keeps_flagged (message_images m) (message_images (fst (trim_one m a))) a (snd (trim_one m a))"
  using trim_top_flags [of "ms_content m" a]
  by (auto simp: trim_one_def message_images_def top_images_def keeps_flagged_none split: prod.splits)

lemma trim_messages_flags:
  assumes "length (occ n ms) \<le> length fs"
  shows "occ n (fst (trim_messages ms (fs, st))) = sel (occ n ms) fs
    \<and> snd (snd (trim_messages ms (fs, st))) = counted (map snd (occ n ms)) fs st"
  using assms
proof (induction ms arbitrary: n fs st)
  case (Cons m ms)
  obtain m' b where one: "trim_one m (fs, st) = (m', b)"
    by (rule prod.exhaust)
  have flags: "message_images m' = sel (message_images m) fs" "fst b = drop (length (message_images m)) fs"
    "snd b = counted (message_images m) fs st"
    using trim_one_flags [of m "(fs, st)"] Cons.prems one by (auto simp: keeps_flagged_def)
  have "length (occ (Suc n) ms) \<le> length (fst b)"
    using Cons.prems flags(2) by simp
  then have rest: "occ (Suc n) (fst (trim_messages ms b)) = sel (occ (Suc n) ms) (fst b)"
    "snd (snd (trim_messages ms b)) = counted (map snd (occ (Suc n) ms)) (fst b) (snd b)"
    using Cons.IH [of "Suc n" "fst b" "snd b"] by simp_all
  have images: "map snd (map (Pair n) (message_images m)) = message_images m"
    by (simp add: o_def)
  show ?case
    using rest flags one
    by (cases "trim_messages ms b")
      (simp add: trim_messages_Cons sel_append sel_map counted_append images del: map_map)
qed simp

subsection \<open>The budget\<close>

lemma keep_rev_length [simp]: "length (keep_rev l b u os) = length os"
  by (induction l b u os rule: keep_rev.induct) simp_all

lemma keep_rev_latest: "filter (\<lambda>x. fst x = l) (sel os (keep_rev l b u os)) = filter (\<lambda>x. fst x = l) os"
  by (induction l b u os rule: keep_rev.induct) auto

definition older_bytes :: "nat \<Rightarrow> (nat \<times> nat) list \<Rightarrow> nat" where
  "older_bytes l os = sum_list (map snd (filter (\<lambda>x. fst x \<noteq> l) os))"

lemma older_simps [simp]: "older_bytes l [] = 0"
  "older_bytes l ((k, c) # os) = (if k = l then older_bytes l os else c + older_bytes l os)"
  by (simp_all add: older_bytes_def)

lemma older_append [simp]: "older_bytes l (os @ os') = older_bytes l os + older_bytes l os'"
  by (simp add: older_bytes_def)

lemma older_rev [simp]: "older_bytes l (rev os) = older_bytes l os"
  by (induction os) auto

lemma keep_rev_budget:
  "u \<le> b \<Longrightarrow> u + older_bytes l os \<le> u64_max \<Longrightarrow> u + older_bytes l (sel os (keep_rev l b u os)) \<le> b"
proof (induction l b u os rule: keep_rev.induct)
  case (2 l b u k c os)
  show ?case
  proof (cases "k \<noteq> l \<and> sat_add u c \<le> b")
    case True
    then have "u + c \<le> b"
      using "2.prems" by (simp add: sat_add_def)
    then show ?thesis
      using 2 True by (auto simp: add.assoc)
  next
    case False
    then show ?thesis using 2 by (auto split: if_splits)
  qed
qed simp

lemma keep_rev_all:
  "u + older_bytes l os \<le> b \<Longrightarrow> u + older_bytes l os \<le> u64_max \<Longrightarrow> keep_rev l b u os = replicate (length os) True"
  by (induction l b u os rule: keep_rev.induct) (auto simp: sat_add_def split: if_splits)

lemma sel_rev: "length xs = length fs \<Longrightarrow> sel xs (rev fs) = rev (sel (rev xs) fs)"
  by (simp add: sel_def rev_map rev_filter zip_rev [symmetric])

lemma sel_all: "sel xs (replicate (length xs) True) = xs"
  by (induction xs) auto

lemma sel_subseq: "subseq (sel xs fs) xs"
proof -
  have "subseq (sel xs fs) (map fst (zip xs fs))"
    unfolding sel_def by (intro subseq_map subseq_filter_left)
  also have "map fst (zip xs fs) = take (length fs) xs"
    by (simp add: map_fst_zip_take min_def)
  also have "subseq \<dots> xs"
    by (rule prefix_imp_subseq, rule take_is_prefix)
  finally show ?thesis .
qed

lemma counted_totals:
  "length bs \<le> length fs \<Longrightarrow> ts_retained_bytes st + ts_trimmed_bytes st + sum_list bs \<le> u64_max \<Longrightarrow>
   ts_retained (counted bs fs st) = ts_retained st + length (sel bs fs)
   \<and> ts_retained_bytes (counted bs fs st) = ts_retained_bytes st + sum_list (sel bs fs)
   \<and> ts_trimmed (counted bs fs st) + ts_retained (counted bs fs st) = ts_trimmed st + ts_retained st + length bs
   \<and> ts_trimmed_bytes (counted bs fs st) + ts_retained_bytes (counted bs fs st)
       = ts_trimmed_bytes st + ts_retained_bytes st + sum_list bs"
proof (induction bs arbitrary: fs st)
  case (Cons b bs)
  then obtain f fs' where fs: "fs = f # fs'"
    by (cases fs) auto
  show ?case
    using Cons.IH [of fs' "count_image f b st"] Cons.prems fs by (auto simp: count_image_def sat_add_exact)
qed simp

text \<open>
  Of the screenshots in the tool results, trimming keeps a subsequence: every screenshot of the newest message that has one stays, the older ones that stay fit the byte
  budget together, the reported counts and bytes are those of what stayed and what went, and where
  all older ones fit together every screenshot stays. (The sizes of all screenshots together are a 64-bit number.)
\<close>

theorem trimming_respects_the_budget:
  assumes "trim_observation_images ms b = (ms', st)" and "sum_list (map snd (occurrences ms)) \<le> u64_max"
  defines "newest \<equiv> fst (last (occurrences ms))"
  shows "subseq (occurrences ms') (occurrences ms)
    \<and> filter (\<lambda>x. fst x = newest) (occurrences ms') = filter (\<lambda>x. fst x = newest) (occurrences ms)
    \<and> older_bytes newest (occurrences ms') \<le> b
    \<and> (older_bytes newest (occurrences ms) \<le> b \<longrightarrow> occurrences ms' = occurrences ms)
    \<and> ts_retained st = length (occurrences ms') \<and> ts_trimmed st + ts_retained st = length (occurrences ms)
    \<and> ts_retained_bytes st = sum_list (map snd (occurrences ms'))
    \<and> ts_trimmed_bytes st + ts_retained_bytes st = sum_list (map snd (occurrences ms))"
proof (cases "occurrences ms = []")
  case True
  then show ?thesis
    using assms(1) by (auto simp: trim_observation_images_def stats_zero_def)
next
  case False
  let ?os = "occurrences ms"
  let ?ks = "keep_rev newest b 0 (rev ?os)"
  have flags: "retained_flags b ?os = rev ?ks" and len: "length (rev ?ks) = length ?os"
    using False by (simp_all add: retained_flags_def newest_def)
  have occ: "occurrences = occ 0"
    by (simp add: fun_eq_iff occurrences_def occ_def)
  have trim: "occurrences ms' = sel ?os (rev ?ks)" and st: "st = counted (map snd ?os) (rev ?ks) stats_zero"
    using trim_messages_flags [of 0 ms "rev ?ks" stats_zero] assms(1) False len flags
    by (auto simp: trim_observation_images_def Let_def occ split: prod.splits)
  have rev: "occurrences ms' = rev (sel (rev ?os) ?ks)"
    using trim len by (simp add: sel_rev)
  have older: "older_bytes newest xs \<le> sum_list (map snd xs)" for xs :: "(nat \<times> nat) list"
    by (induction xs) auto
  note small = order_trans [OF older assms(2)]
  have "older_bytes newest (occurrences ms') \<le> b"
    using keep_rev_budget [of 0 b newest "rev ?os"] small by (simp add: rev)
  moreover have "filter (\<lambda>x. fst x = newest) (occurrences ms') = filter (\<lambda>x. fst x = newest) ?os"
    using keep_rev_latest [of newest "rev ?os" b 0] by (simp add: rev flip: rev_filter)
  moreover have "occurrences ms' = ?os" if "older_bytes newest ?os \<le> b"
    using keep_rev_all [of 0 newest "rev ?os" b] that small sel_all [of "rev ?os"] by (simp add: rev)
  moreover have "subseq (occurrences ms') ?os"
    by (simp add: trim sel_subseq)
  ultimately show ?thesis
    using counted_totals [of "map snd ?os" "rev ?ks" stats_zero] len assms(2)
    by (simp add: st trim sel_map stats_zero_def)
qed

subsection \<open>Samples\<close>

definition length_estimator :: estimator where
  "length_estimator = \<lparr>es_text = length, es_json = (\<lambda>_. []), es_schema = (\<lambda>_. [])\<rparr>"

definition says :: "message_role \<Rightarrow> content_part list \<Rightarrow> message" where
  "says r ps = \<lparr>ms_id = ''m'', ms_role = r, ms_content = ps, ms_meta = meta_default\<rparr>"

definition shot :: "string \<Rightarrow> content_part" where
  "shot v = PartToolResult ''c'' None [PartImage (ImgBase64 v) ''image/png'' None] False JNull []"

definition three_messages :: request where
  "three_messages = \<lparr>rq_id = ''q'', rq_session = None, rq_model = ''x'',
     rq_messages = [says RoleUser [PartText ''first''], says RoleSystem [PartText ''rules''], says RoleUser [PartText ''last'']],
     rq_tools = []\<rparr>"

theorem truncation_drops_the_oldest_witness:
  "\<exists>k \<le> 2. fst (truncate_for_budget length_estimator 30 1 three_messages)
      = three_messages\<lparr>rq_messages := dropped k (rq_messages three_messages)\<rparr>
    \<and> (k = 2 \<or> ie_total (estimate_at length_estimator (fst (truncate_for_budget length_estimator 30 1 three_messages))) \<le> 30)"
proof -
  have two: "length (rq_messages three_messages) - 1 = 2"
    by (simp add: three_messages_def)
  show ?thesis
    using truncation_drops_the_oldest [of three_messages 1 length_estimator 30]
    unfolding two by (auto simp: Let_def)
qed

definition two_shots :: "message list" where
  "two_shots = [says RoleTool [shot ''AAAAAAAA''], says RoleUser [PartText ''and now''], says RoleTool [shot ''BBBB'']]"

theorem trimming_respects_the_budget_witness:
  "ts_trimmed (snd (trim_observation_images two_shots 5)) = 1
    \<and> older_bytes 2 (occurrences (fst (trim_observation_images two_shots 5))) \<le> 5
    \<and> filter (\<lambda>x. fst x = 2) (occurrences (fst (trim_observation_images two_shots 5))) = [(2, 4)]"
proof -
  have os: "occurrences two_shots = [(0, 8), (2, 4)]"
    by (simp add: occurrences_def two_shots_def says_def shot_def message_images_def is_result_def)
  have one: "ts_trimmed (snd (trim_observation_images two_shots 5)) = 1"
    by (simp add: trim_observation_images_def os)
      (simp add: two_shots_def says_def shot_def is_result_def retained_flags_def sat_add_def u64_max_def stats_zero_def count_image_def)
  show ?thesis
    using trimming_respects_the_budget [of two_shots 5, OF prod.collapse [symmetric]] one
    by (simp add: os u64_max_def)
qed

end
