(* ===== verification/EngineRuns.thy ===== *)
theory EngineRuns
  imports EngineLog EngineTrim
begin

text \<open>
  Whole runs: how their envelopes are numbered, which log a success and a failure leave, and sample
  runs of a scripted host that the theorems are applied to.
\<close>

subsection \<open>What every emission keeps\<close>

text \<open>
  A property of the engine's state that does not look at the outside or the trace and survives every
  emission holds after a session and after a manual compaction.
\<close>

locale emission_law =
  fixes I :: "'w eng \<Rightarrow> bool" and h :: "'w host" and t :: session_turn
  assumes world: "I s \<Longrightarrow> I (s\<lparr>eg_world := w\<rparr>)"
    and trace: "I s \<Longrightarrow> I (s\<lparr>eg_trace := c\<rparr>)"
    and emitted: "I s \<Longrightarrow> I (snd (emit h t ev s))"
begin

definition keeps :: "('w, 'a) act \<Rightarrow> bool" where
  "keeps m \<longleftrightarrow> (\<forall>s. I s \<longrightarrow> I (snd (m s)))"

lemma keeps_simple: "keeps (ret x)" "keeps (fail e)" "keeps (outside f)" "keeps (outside_result g)"
  "keeps (note_call c)" "keeps (emit h t ev)"
  using world trace emitted
  by (auto simp: keeps_def ret_def fail_def outside_def outside_result_def note_call_def split: prod.splits)

lemma keeps_then: "keeps m \<Longrightarrow> (\<And>x. keeps (f x)) \<Longrightarrow> keeps (and_then m f)"
  unfolding keeps_def and_then_def by (force split: prod.splits sum.splits)

lemma keeps_for_each: "(\<And>x. keeps (f x)) \<Longrightarrow> keeps (for_each f xs)"
  by (induction xs) (auto intro: keeps_then keeps_simple)

lemma keeps_for_host: "keeps (emit_for_host h t evs)"
  by (induction evs) (use emitted in \<open>auto simp: keeps_def ret_def\<close>)

lemma keeps_deliver: "keeps (deliver h t mid buf evs)"
  by (induction evs arbitrary: buf) (auto intro!: keeps_then keeps_simple split: option.split)

lemmas keeps_intros = keeps_simple keeps_then keeps_for_each keeps_for_host keeps_deliver

lemma keeps_cancelled: "keeps (emit_cancelled h t r u)"
  unfolding emit_cancelled_def by (intro keeps_intros)

lemma keeps_compact: "keeps (compact_messages h t sid reason ms k)"
  unfolding compact_messages_def summarize_history_def summary_fallback_def Let_def
  by (auto intro!: keeps_intros split: sum.split option.split)

lemma keeps_prepare: "keeps (prepare_request h t cx rq)"
  unfolding prepare_request_def trim_step_def apply_context_limits_def compact_if_soft_def Let_def
  by (auto intro!: keeps_intros keeps_compact split: option.split prod.split)

lemma keeps_collect: "keeps (collect_stream_round h t rq mid)"
  unfolding collect_stream_round_def by (auto intro!: keeps_intros)

lemma keeps_wait: "keeps (wait_and_apply h t is a)"
  unfolding wait_and_apply_def emit_decision_def Let_def by (auto intro!: keeps_intros split: option.split)

lemma keeps_execute: "keeps (snapshot_execute_commit h t is to_run dcs)"
  unfolding snapshot_execute_commit_def run_tools_def commit_tool_results_def emit_result_def Let_def
  by (auto intro!: keeps_intros split: option.split)

lemma keeps_tools: "keeps (tool_phase h t rq m is a u)"
  unfolding tool_phase_def by (auto intro!: keeps_intros keeps_wait keeps_execute keeps_cancelled split: option.split)

lemma keeps_stream: "keeps (stream_phase h t rq a u sr)"
  unfolding stream_phase_def Let_def
  by (auto intro!: keeps_intros keeps_tools keeps_cancelled split: stream_round.split)

lemma keeps_round: "keeps (session_round h t cx rq a u)"
  unfolding session_round_def
  by (auto intro!: keeps_intros keeps_prepare keeps_collect keeps_stream keeps_cancelled)

lemma keeps_loop: "I s \<Longrightarrow> I (snd (session_loop h t cx maxr n rq a u s))"
proof (induction "unat maxr - n" arbitrary: n rq a u s rule: less_induct)
  case less
  obtain r s1 where r: "session_round h t cx rq a u s = (r, s1)"
    by fastforce
  have s1: "I s1"
    using keeps_round less.prems r unfolding keeps_def by (metis snd_conv)
  have give_up: "I (snd (and_then (emit h t ev) (\<lambda>_. fail e) s1))" for ev and e
    using emitted [OF s1, of ev] by (auto simp: and_then_def fail_def split: prod.splits sum.splits)
  show ?case
    using s1 r less.hyps
    by (subst session_loop.simps) (auto simp: give_up split: sum.split round_end.split)
qed

lemma keeps_run: "I s \<Longrightarrow> I (snd (run_session h t cx maxr rq s))"
proof -
  have "keeps (session_loop h t cx maxr n rq' a u)" for n rq' a u
    by (simp add: keeps_def keeps_loop)
  then have "keeps (run_session h t cx maxr rq)"
    unfolding run_session_def Let_def by (auto intro!: keeps_intros keeps_cancelled)
  then show "I s \<Longrightarrow> ?thesis" by (simp add: keeps_def)
qed

lemma keeps_manual: "I s \<Longrightarrow> I (snd (run_manual_compaction h t cx rq s))"
proof -
  have "keeps (run_manual_compaction h t cx rq)"
    unfolding run_manual_compaction_def by (auto intro!: keeps_intros keeps_compact split: option.split)
  then show "I s \<Longrightarrow> ?thesis" by (simp add: keeps_def)
qed

end

subsection \<open>Numbering\<close>

definition persists :: "'w host \<Rightarrow> bool" where
  "persists h \<longleftrightarrow> (\<forall>e w. fst (ho_sink h e w) = None)"

definition labelled :: "session_turn \<Rightarrow> envelope \<Rightarrow> bool" where
  "labelled t e \<longleftrightarrow> en_session e = tn_session t \<and> en_run e = tn_run t
     \<and> en_event_id e = ''evt-'' @ tn_run t @ ''-'' @ dec (unat (en_sequence e))"

definition numbered :: "'w host \<Rightarrow> session_turn \<Rightarrow> 'w eng \<Rightarrow> bool" where
  "numbered h t s \<longleftrightarrow> (\<forall>e \<in> set (eg_log s). labelled t e)
     \<and> (persists h \<longrightarrow> eg_seq s = tn_start t + of_nat (length (eg_log s))
          \<and> map en_sequence (eg_log s) = map (\<lambda>i. tn_start t + of_nat i) [0..<length (eg_log s)])"

interpretation numbering: emission_law "numbered h t" h t for h t
proof
  fix s and ev
  assume s: "numbered h t s"
  let ?e = "make_envelope t (eg_seq s) ev"
  have label: "labelled t ?e" and seq: "en_sequence ?e = eg_seq s"
    by (simp_all add: labelled_def make_envelope_def)
  obtain r w where sink: "ho_sink h ?e (eg_world s) = (r, w)"
    by fastforce
  have "persists h \<Longrightarrow> r = None"
    using sink unfolding persists_def by (metis fst_conv)
  then show "numbered h t (snd (emit h t ev s))"
    using s sink label seq by (auto simp: numbered_def emit_def Let_def split: option.split)
qed (auto simp: numbered_def)

subsection \<open>A scripted host\<close>

text \<open>
  The outside of the sample runs: the streams come from a script, \<open>rm\<close> is denied, every other tool needs
  no approval and succeeds, everything persists and nobody cancels.
\<close>

type_synonym script = "(provider_event list \<times> (provider_error, response_summary) result) list"

definition tool_ok :: "invocation \<Rightarrow> tool_call_result" where
  "tool_ok i = \<lparr>tc_id = iv_id i, tc_name = iv_name i, tc_arguments = iv_arguments i,
     tc_result = \<lparr>tr_content = [PartText ''ok''], tr_artifacts = [], tr_metadata = JNull, tr_truncated = False,
       tr_success = True, tr_error = None\<rparr>\<rparr>"

definition sc_cancelled :: "script \<Rightarrow> bool \<times> script" where
  "sc_cancelled w = (False, w)"

definition sc_sink :: "envelope \<Rightarrow> script \<Rightarrow> engine_error option \<times> script" where
  "sc_sink e w = (None, w)"

definition sc_stream :: "request \<Rightarrow> script \<Rightarrow> provider_event list \<times> script" where
  "sc_stream rq w = (case w of [] \<Rightarrow> [] | p # _ \<Rightarrow> fst p, w)"

definition sc_stream_end :: "request \<Rightarrow> script \<Rightarrow> (provider_error, response_summary) result \<times> script" where
  "sc_stream_end rq w =
     (case w of [] \<Rightarrow> (Inl (provider_error_new PkNetwork ''script over''), w) | p # w' \<Rightarrow> (snd p, w'))"

definition sc_ask_events :: "invocation list \<Rightarrow> bool \<Rightarrow> script \<Rightarrow> agent_event list \<times> script" where
  "sc_ask_events is b w = ([], w)"

definition sc_gate :: "invocation \<Rightarrow> approval_gate" where
  "sc_gate i = (if iv_name i = ''rm'' then Asked Denied else NotRequired)"

definition sc_ask :: "invocation list \<Rightarrow> bool \<Rightarrow> script \<Rightarrow> (engine_error, approval_gate list) result \<times> script" where
  "sc_ask is b w = (Inr (map sc_gate is), w)"

definition sc_silent :: "invocation list \<Rightarrow> script \<Rightarrow> agent_event list \<times> script" where
  "sc_silent is w = ([], w)"

definition sc_snapshot :: "invocation list \<Rightarrow> script \<Rightarrow> write_checkpoint list \<times> script" where
  "sc_snapshot is w = ([], w)"

definition sc_tools :: "invocation list \<Rightarrow> script \<Rightarrow> tool_call_result list \<times> script" where
  "sc_tools is w = (map tool_ok is, w)"

definition sc_compact :: "compaction_reason \<Rightarrow> string \<Rightarrow> script \<Rightarrow> (engine_error, compaction_outcome option) result \<times> script" where
  "sc_compact r x w = (Inr None, w)"

definition sc_id :: "script \<Rightarrow> string \<times> script" where
  "sc_id w = (''i'', w)"

definition sc_parse :: "string \<Rightarrow> json option" where
  "sc_parse x = Some JNull"

definition scripted :: "script host" where
  "scripted =
     \<lparr>ho_cancelled = sc_cancelled, ho_sink = sc_sink, ho_stream = sc_stream, ho_stream_end = sc_stream_end,
      ho_ask_events = sc_ask_events, ho_ask = sc_ask, ho_snapshot_events = sc_silent, ho_snapshot = sc_snapshot,
      ho_tool_events = sc_silent, ho_tools = sc_tools, ho_compact = sc_compact, ho_message_id = sc_id,
      ho_request_id = sc_id, ho_parse = sc_parse\<rparr>"

definition user_says :: "string \<Rightarrow> message" where
  "user_says x = \<lparr>ms_id = ''u'', ms_role = RoleUser, ms_content = [PartText x], ms_meta = meta_default\<rparr>"

definition sample_turn :: session_turn where
  "sample_turn = \<lparr>tn_session = ''s'', tn_run = ''r'', tn_provider = ''p'', tn_model = ''x'', tn_start = 1,
     tn_trigger = user_says ''go''\<rparr>"

definition sample_request :: "message list \<Rightarrow> request" where
  "sample_request ms = \<lparr>rq_id = ''q0'', rq_session = None, rq_model = ''x'', rq_messages = ms, rq_tools = []\<rparr>"

definition free_context :: turn_context where
  "free_context = \<lparr>cx_limits = None, cx_estimator = None, cx_retained = 1, cx_layers = []\<rparr>"

definition summary_of :: "stop_reason \<Rightarrow> u64 \<Rightarrow> response_summary" where
  "summary_of r n = \<lparr>su_stop_reason = r,
     su_usage = \<lparr>tu_input = n, tu_output = 1, tu_cache_read = 0, tu_cache_write = 0\<rparr>, su_response_id = None, su_metadata = JNull\<rparr>"

definition one_call :: script where
  "one_call =
     [([PvToolCallStarted ''c'' ''read''], Inr (summary_of StopToolUse 10)),
      ([PvTextDelta ''done''], Inr (summary_of StopCompleted 5))]"

text \<open>
  Evaluation of a scripted run, one step after the other: nothing is rewritten inside a continuation
  before the step in front of it has its result.
\<close>

lemma and_then_weak: "and_then m f s = and_then m f s"
  by (rule refl)

lemma and_then_eval:
  "and_then (ret x) f s = f x s"
  "and_then (fail e) f s = (Inl e, s)"
  "and_then (note_call c) f0 s = f0 () (s\<lparr>eg_trace := eg_trace s @ [c]\<rparr>)"
  "and_then (and_then m0 g) f s = and_then m0 (\<lambda>x. and_then (g x) f) s"
  "and_then (if b then m else m') f s = (if b then and_then m f s else and_then m' f s)"
  "and_then (Let a1 k1) f s = (let y = a1 in and_then (k1 y) f s)"
  "and_then (case_option m k o1) f s = (case o1 of None \<Rightarrow> and_then m f s | Some y \<Rightarrow> and_then (k y) f s)"
  "and_then (case_prod k2 p2) f s = and_then (k2 (fst p2) (snd p2)) f s"
  by (simp_all add: and_then_def ret_def fail_def note_call_def fun_eq_iff split: option.split prod.split sum.split)

lemma outside_scripted:
  "and_then (outside (ho_cancelled scripted)) f s = f False s"
  "and_then (outside (ho_stream scripted rq)) f1 s = (case eg_world s of [] \<Rightarrow> f1 [] s | (es, r) # w \<Rightarrow> f1 es s)"
  "and_then (outside (ho_stream_end scripted rq)) f2 s =
     (case eg_world s of
        [] \<Rightarrow> f2 (Inl (provider_error_new PkNetwork ''script over'')) (s\<lparr>eg_world := []\<rparr>)
      | (es, r) # w \<Rightarrow> f2 r (s\<lparr>eg_world := w\<rparr>))"
  "and_then (outside (ho_ask_events scripted is b)) f3 s = f3 [] s"
  "and_then (outside_result (ho_ask scripted is b)) f4 s = f4 (map sc_gate is) s"
  "and_then (outside (ho_snapshot_events scripted is)) f5 s = f5 [] s"
  "and_then (outside (ho_snapshot scripted is)) f6 s = f6 [] s"
  "and_then (outside (ho_tool_events scripted is)) f7 s = f7 [] s"
  "and_then (outside (ho_tools scripted is)) f8 s = f8 (map tool_ok is) s"
  "and_then (outside_result (ho_compact scripted r y)) f9 s = f9 None s"
  "and_then (outside (ho_message_id scripted)) f10 s = f10 ''i'' s"
  "and_then (outside (ho_request_id scripted)) f11 s = f11 ''i'' s"
  "and_then (emit scripted t ev) f12 s =
     f12 () (s\<lparr>eg_seq := eg_seq s + 1, eg_log := eg_log s @ [make_envelope t (eg_seq s) ev]\<rparr>)"
  by (simp_all add: and_then_def outside_def outside_result_def scripted_def sc_cancelled_def sc_stream_def sc_stream_end_def
      sc_ask_events_def sc_ask_def sc_silent_def sc_snapshot_def sc_tools_def sc_compact_def sc_id_def Let_def
      emit_def sc_sink_def split: prod.splits list.split)

lemma unlimited_eval:
  "and_then (trim_step h t free_context rq) f s = f rq s"
  "and_then (apply_context_limits h t free_context rq est) f s = f rq s"
  by (simp_all add: and_then_def trim_step_def apply_context_limits_def free_context_def ret_def)

text \<open>The phases, unfolded where they come first.\<close>

lemmas phase_eval =
  arg_cong [OF prepare_request_def, of "\<lambda>m. and_then m f s" for f s]
  unlimited_eval
  arg_cong [OF collect_stream_round_def, of "\<lambda>m. and_then m f s" for f s]
  arg_cong [OF wait_and_apply_def, of "\<lambda>m. and_then m f s" for f s]
  arg_cong [OF emit_decision_def, of "\<lambda>m. and_then m f s" for f s]
  arg_cong [OF snapshot_execute_commit_def, of "\<lambda>m. and_then m f s" for f s]
  arg_cong [OF run_tools_def, of "\<lambda>m. and_then m f s" for f s]
  arg_cong [OF commit_tool_results_def, of "\<lambda>m. and_then m f s" for f s]
  arg_cong [OF emit_result_def, of "\<lambda>m. and_then m f s" for f s]
  arg_cong [OF for_each.simps(1), of "\<lambda>m. and_then m f s" for f s]
  arg_cong [OF for_each.simps(2), of "\<lambda>m. and_then m f s" for f s]
  arg_cong [OF emit_for_host.simps(1), of "\<lambda>m. and_then m f s" for f s]
  arg_cong [OF deliver.simps(1), of "\<lambda>m. and_then m f s" for f s]
  arg_cong [OF deliver.simps(2), of "\<lambda>m. and_then m f s" for f s]
  fun_cong [OF session_round_def] fun_cong [OF stream_phase_def] fun_cong [OF tool_phase_def]

lemmas data_eval = stream_end_def fold_turn_def assembled_new_def has_tool_calls_def add_call_def
  assistant_message_def turn_message_def pending_invocations_def ordered_calls_def map_filter_simps Let_def
  sc_stream_def sc_stream_end_def summary_or_def estimate_input_def estimate_zero_def ret_def fail_def
  sc_gate_def sandbox_fallback_details_def call_arguments_def is_blank_def is_dispatch_fact_def merge_results_def align_tool_results_def refused_results_def by_id_def tool_ok_def

lemmas run_eval = and_then_eval outside_scripted phase_eval data_eval

lemma sample_eval:
  "tn_session sample_turn = ''s''" "tn_run sample_turn = ''r''" "tn_provider sample_turn = ''p''"
  "tn_model sample_turn = ''x''" "tn_start sample_turn = 1" "tn_trigger sample_turn = user_says ''go''"
  "cx_limits free_context = None" "cx_estimator free_context = None" "cx_layers free_context = []"
  "ho_parse scripted x = Some JNull"
  "ensure_prefix [] ms = ms"
  "sample_request ms = \<lparr>rq_id = ''q0'', rq_session = None, rq_model = ''x'', rq_messages = ms, rq_tools = []\<rparr>"
  "session_start t w = \<lparr>eg_world = w, eg_seq = tn_start t, eg_log = [], eg_trace = []\<rparr>"
  by (simp_all add: sample_turn_def free_context_def scripted_def sc_parse_def ensure_prefix_def injected_message_def
      sample_request_def session_start_def)

definition one_call_run :: "(engine_error, response_summary) result \<times> script eng" where
  "one_call_run =
     run_session scripted sample_turn free_context 5 (sample_request [user_says ''go'']) (session_start sample_turn one_call)"

definition one_call_summary :: response_summary where
  "one_call_summary = \<lparr>su_stop_reason = StopCompleted,
     su_usage = \<lparr>tu_input = 15, tu_output = 2, tu_cache_read = 0, tu_cache_write = 0\<rparr>, su_response_id = None, su_metadata = JNull\<rparr>"

lemmas one_call_eval = one_call_run_def run_session_def run_eval sample_eval one_call_def session_loop.simps

lemma one_call_result: "fst one_call_run = Inr one_call_summary"
  by (simp add: one_call_eval cong: and_then_weak) code_simp

lemma one_call_streams: "map (length \<circ> rq_messages) (streams (eg_trace (snd one_call_run))) = [1, 3]"
  by (simp add: one_call_eval streams_def cong: and_then_weak)

definition silent_run :: "(engine_error, response_summary) result \<times> script eng" where
  "silent_run = run_session scripted sample_turn free_context 5 (sample_request [user_says ''go'']) (session_start sample_turn [])"

lemma silent_result: "fst silent_run = Inl (ErProvider (provider_error_new PkNetwork ''script over''))"
  by (simp add: silent_run_def run_session_def run_eval sample_eval session_loop.simps provider_error_new_def
      cong: and_then_weak)

lemma sample_user: "ms_role (tn_trigger sample_turn) \<noteq> RoleAssistant" "tn_start sample_turn \<noteq> 0"
  by (simp_all add: sample_turn_def user_says_def)

lemma scripted_honest: "honest scripted"
  by (simp add: honest_def scripted_def sc_ask_events_def sc_silent_def)

lemma scripted_steady: "steady scripted free_context"
  by (simp add: steady_def unlimited_def scripted_def sc_sink_def sc_ask_def free_context_def)

lemma scripted_persists: "persists scripted"
  by (simp add: persists_def scripted_def sc_sink_def)

subsection \<open>The properties of a run\<close>

theorem every_call_is_answered_witness:
  "\<exists>q \<in> set (streams (eg_trace (snd one_call_run))). length (rq_messages q) = 3 \<and> paired (rq_messages q)"
proof -
  have "3 \<in> set (map (length \<circ> rq_messages) (streams (eg_trace (snd one_call_run))))"
    by (simp add: one_call_streams)
  then obtain q where q: "q \<in> set (streams (eg_trace (snd one_call_run)))" "length (rq_messages q) = 3"
    by auto
  have "unlimited free_context" "paired (rq_messages (sample_request [user_says ''go'']))"
      "\<forall>m \<in> set (rq_messages (sample_request [user_says ''go''])). plain m"
    by (auto simp: unlimited_def free_context_def sample_request_def user_says_def plain_def
        call_ids_def result_ids_def part_result_id_def map_filter_simps)
  then have "paired (rq_messages q)"
    using every_call_is_answered [of free_context q scripted sample_turn 5 "sample_request [user_says ''go'']" one_call] q(1)
    by (simp add: one_call_run_def)
  then show ?thesis using q by blast
qed

lemma session_log:
  assumes "honest h" and "ms_role (tn_trigger t) \<noteq> RoleAssistant" and "tn_start t \<noteq> 0"
  shows "case run_session h t cx maxr rq (session_start t w) of
     (Inr su, s) \<Rightarrow> done_with su s | (Inl e, s) \<Rightarrow> ended (steady h cx) e s"
  by (rule tripleD [OF session_run_log [OF assms(1,3,2)]])
     (simp add: open_log_def payloads_def session_start_def spent_def)

text \<open>
  C8: When a session returns, its log is closed by one completed event, the last, with the stop reason and
  usage the session returns, and that usage is the saturating sum of what the committed assistant
  messages of all its rounds cost.
\<close>

theorem success_reports_what_was_spent:
  assumes "honest h" and "ms_role (tn_trigger t) \<noteq> RoleAssistant"
    and "run_session h t cx maxr rq (session_start t w) = (Inr su, s)"
  shows "\<exists>es. payloads s = es @ [AeRunCompleted (su_stop_reason su) (su_usage su)]
    \<and> (\<forall>e \<in> set es. \<not> closing e) \<and> su_usage su = spent es"
proof -
  have "tn_start t \<noteq> 0"
    using assms(3) by (auto simp: run_session_def fail_def)
  then have "done_with su s"
    using session_log [OF assms(1,2), of cx maxr rq w] assms(3) by simp
  then show ?thesis
    unfolding done_with_def by (metis append_butlast_last_id)
qed

theorem success_reports_what_was_spent_witness:
  "\<exists>es. payloads (snd one_call_run) = es @ [AeRunCompleted StopCompleted (su_usage one_call_summary)]
    \<and> (\<forall>e \<in> set es. \<not> closing e) \<and> su_usage one_call_summary = spent es"
  using success_reports_what_was_spent [OF scripted_honest sample_user(1),
      of free_context 5 "sample_request [user_says ''go'']" one_call one_call_summary "snd one_call_run"]
    one_call_result
  by (simp add: one_call_run_def one_call_summary_def prod_eq_iff)

text \<open>
  C9: When a session fails, at most the last event of its log closes the run. Where everything persists,
  the host answers and no context limits apply, the last event does close it and says why: cancelled
  with the reason of the error, or failed with the provider's error or the round bound.
\<close>

theorem failure_closes_the_run:
  assumes "honest h" and "ms_role (tn_trigger t) \<noteq> RoleAssistant" and "tn_start t \<noteq> 0"
    and "run_session h t cx maxr rq (session_start t w) = (Inl e, s)"
  shows "(\<forall>x \<in> set (butlast (payloads s)). \<not> closing x)
    \<and> (steady h cx \<longrightarrow> payloads s \<noteq> [] \<and> outcome e (last (payloads s)))"
  using session_log [OF assms(1-3), of cx maxr rq w] assms(4) by (simp add: ended_def)

theorem failure_closes_the_run_witness:
  "payloads (snd silent_run) \<noteq> []
    \<and> outcome (ErProvider (provider_error_new PkNetwork ''script over'')) (last (payloads (snd silent_run)))"
  using failure_closes_the_run [OF scripted_honest sample_user, of free_context 5 "sample_request [user_says ''go'']" "[]"
      "ErProvider (provider_error_new PkNetwork ''script over'')" "snd silent_run"]
    silent_result scripted_steady
  by (simp add: silent_run_def prod_eq_iff)

text \<open>
  Where everything persists, the envelopes of a session and of a manual compaction carry the
  session's and the run's ids, their sequence numbers are the run's first number and its successors with
  no gap, and the event id is made of the run and that number.
\<close>

theorem envelopes_are_numbered:
  assumes "persists h" and "s = session_start t w"
    and "log = eg_log (snd (run_session h t cx maxr rq s)) \<or> log = eg_log (snd (run_manual_compaction h t cx rq s))"
  shows "map en_sequence log = map (\<lambda>i. tn_start t + of_nat i) [0..<length log] \<and> (\<forall>e \<in> set log. labelled t e)"
proof -
  have "numbered h t s"
    using assms(2) by (simp add: numbered_def session_start_def)
  then have "numbered h t (snd (run_session h t cx maxr rq s))" "numbered h t (snd (run_manual_compaction h t cx rq s))"
    by (rule numbering.keeps_run, rule numbering.keeps_manual)
  then show ?thesis
    using assms(1,3) by (auto simp: numbered_def)
qed

theorem envelopes_are_numbered_witness:
  "map en_sequence (eg_log (snd one_call_run)) = map (\<lambda>i. 1 + of_nat i) [0..<length (eg_log (snd one_call_run))]"
  using envelopes_are_numbered [of scripted "session_start sample_turn one_call" sample_turn one_call
      "eg_log (snd one_call_run)" free_context 5 "sample_request [user_says ''go'']"] scripted_persists
  by (simp add: one_call_run_def sample_turn_def)

text \<open>
  With context limits the pairing is lost: dropping the oldest messages can drop a call and keep its
  result, as can a compaction that keeps the last messages as they are.
\<close>

definition long_history :: "message list" where
  "long_history =
     [says RoleUser [PartText ''look''],
      says RoleAssistant [PartToolCall \<lparr>ca_id = ''c'', ca_name = ''read'', ca_arguments = JNull, ca_raw = None, ca_complete = True\<rparr>],
      says RoleTool [PartToolResult ''c'' None [PartText ''found''] False JNull []]]"

theorem truncation_orphans_a_result:
  "paired long_history
   \<and> \<not> paired (rq_messages (fst (truncate_for_budget length_estimator 20 1 (sample_request long_history))))"
  by code_simp

end
