(* ===== verification/ToolScheduler.thy ===== *)
theory ToolScheduler
  imports PolicyGate EngineMsg
begin

text \<open>
  The tool scheduler of \<open>crates/tools/src/scheduler.rs\<close>: the registry of local tools, the gate of policy
  and approval in front of every call, the constraints a call runs under and the slot it waits for.
  What the scheduler cannot decide (the answers of the user, cancellation, the semaphore and the tools
  themselves) are functions on a state of the outside. A tool is an arbitrary value \<open>'x\<close>.
\<close>

subsection \<open>Descriptors\<close>

datatype tool_kind = KindClientFunction | KindProviderHosted | KindProviderExtension

datatype tool_tag =
    TagWebSearch | TagWebFetch | TagFileOrCollectionSearch | TagXSearch | TagCodeExecution | TagHostedShell
  | TagProviderApplyPatch | TagComputerUse | TagImageGeneration | TagServerSideMcp | TagToolSearch | TagMemory
  | TagProgrammaticToolCalling | TagServerSideMultiAgent

datatype tool_hosting = HostLocal | HostProvider string tool_tag | HostExtension string

fun hosting_kind :: "tool_hosting \<Rightarrow> tool_kind" where
  "hosting_kind HostLocal = KindClientFunction"
| "hosting_kind (HostProvider _ _) = KindProviderHosted"
| "hosting_kind (HostExtension _) = KindProviderExtension"

record tool_descriptor =
  ds_name :: string
  ds_description :: string
  ds_schema :: json
  ds_capability :: tool_capability
  ds_kind :: tool_kind
  ds_hosting :: tool_hosting
  ds_tags :: "tool_tag list"
  ds_requires_approval :: bool
  ds_read_only :: bool
  ds_concurrent :: bool
  ds_timeout :: "nat option"
  ds_max_output :: nat
  ds_allowed_untrusted :: bool

definition has_consistent_hosting :: "tool_descriptor \<Rightarrow> bool" where
  "has_consistent_hosting d \<longleftrightarrow> ds_kind d = hosting_kind (ds_hosting d)"

subsection \<open>The registry\<close>

record 'x registry_entry =
  re_descriptor :: tool_descriptor
  re_executor :: 'x

type_synonym 'x registry = "(string, 'x registry_entry) btree"

datatype registry_error =
    KindHostingMismatch string tool_kind tool_kind
  | ExecutorForNonClientFunction string tool_kind

definition validate_descriptor :: "tool_descriptor \<Rightarrow> (registry_error, unit) result" where
  "validate_descriptor d =
     (if has_consistent_hosting d then Inr ()
      else Inl (KindHostingMismatch (ds_name d) (ds_kind d) (hosting_kind (ds_hosting d))))"

definition register_tool :: "tool_descriptor \<Rightarrow> 'x \<Rightarrow> 'x registry \<Rightarrow> (registry_error, 'x registry) result" where
  "register_tool d x reg =
     (case validate_descriptor d of
        Inl e \<Rightarrow> Inl e
      | Inr _ \<Rightarrow>
          (if ds_kind d \<noteq> KindClientFunction then Inl (ExecutorForNonClientFunction (ds_name d) (ds_kind d))
           else Inr (bt_put (ds_name d) \<lparr>re_descriptor = d, re_executor = x\<rparr> reg)))"

text \<open>The first refused tool ends the loop; the ones before it stay registered.\<close>

fun extend_registry :: "(tool_descriptor \<times> 'x) list \<Rightarrow> 'x registry \<Rightarrow> registry_error option \<times> 'x registry" where
  "extend_registry [] reg = (None, reg)"
| "extend_registry ((d, x) # ts) reg =
     (case register_tool d x reg of
        Inl e \<Rightarrow> (Some e, reg)
      | Inr reg' \<Rightarrow> extend_registry ts reg')"

definition registry_tool :: "'x registry \<Rightarrow> string \<Rightarrow> 'x option" where
  "registry_tool reg nm = map_option re_executor (bt_get reg nm)"

definition registry_descriptor :: "'x registry \<Rightarrow> string \<Rightarrow> tool_descriptor option" where
  "registry_descriptor reg nm = map_option re_descriptor (bt_get reg nm)"

definition registry_descriptors :: "'x registry \<Rightarrow> tool_descriptor list" where
  "registry_descriptors reg = map re_descriptor (bt_values reg)"

subsection \<open>Configuration and the outside\<close>

record scheduler_config =
  kc_max_concurrent :: nat
  kc_mode :: approval_mode
  kc_trusted :: bool

definition scheduler_config_default :: scheduler_config where
  "scheduler_config_default = \<lparr>kc_max_concurrent = 8, kc_mode = ReadOnlyMode, kc_trusted = False\<rparr>"

record 'x tool_scheduler =
  ks_registry :: "'x registry"
  ks_slots :: nat
  ks_config :: scheduler_config

definition scheduler_new :: "'x registry \<Rightarrow> scheduler_config \<Rightarrow> 'x tool_scheduler" where
  "scheduler_new reg c = \<lparr>ks_registry = reg, ks_slots = max (kc_max_concurrent c) 1, ks_config = c\<rparr>"

definition with_approval_snapshot :: "approval_mode \<Rightarrow> bool \<Rightarrow> 'x tool_scheduler \<Rightarrow> 'x tool_scheduler" where
  "with_approval_snapshot mode trusted k =
     scheduler_new (ks_registry k)
       \<lparr>kc_max_concurrent = kc_max_concurrent (ks_config k), kc_mode = mode, kc_trusted = trusted\<rparr>"

definition with_tools :: "(tool_descriptor \<times> 'x) list \<Rightarrow> 'x tool_scheduler \<Rightarrow> (registry_error, 'x tool_scheduler) result" where
  "with_tools ts k =
     (case extend_registry ts (ks_registry k) of
        (Some e, _) \<Rightarrow> Inl e
      | (None, reg) \<Rightarrow> Inr (scheduler_new reg (ks_config k)))"

record tool_request =
  tq_call :: string
  tq_input :: json

datatype approval_outcome = OutcomeApproved | OutcomeDenied

text \<open>A resolver tells whether it is a real approval channel, and answers requests.\<close>

record 'w resolver =
  rv_real :: bool
  rv_resolve :: "tool_request \<Rightarrow> 'w \<Rightarrow> approval_outcome list \<times> 'w"

definition auto_approve :: "'w resolver" where
  "auto_approve = \<lparr>rv_real = False, rv_resolve = (\<lambda>rq w. ([OutcomeApproved], w))\<rparr>"

datatype tool_error_kind =
    TeCancelled | TeTimeout | TeInvalidInput | TeNotLocallyExecutable | TePermissionDenied | TeNotFound | TeConflict
  | TeExecutionFailed | TeInternal

record tool_error =
  te_kind :: tool_error_kind
  te_message :: string
  te_retryable :: bool
  te_retry_after :: "nat option"

definition plain_error :: "tool_error_kind \<Rightarrow> string \<Rightarrow> tool_error" where
  "plain_error k msg = \<lparr>te_kind = k, te_message = msg, te_retryable = False, te_retry_after = None\<rparr>"

definition tool_cancelled :: "string \<Rightarrow> tool_error" where
  "tool_cancelled msg = plain_error TeCancelled msg"

definition not_locally_executable :: "string \<Rightarrow> string \<Rightarrow> tool_error" where
  "not_locally_executable nm site =
     plain_error TeNotLocallyExecutable
       (''tool `'' @ nm @ ''` is '' @ site @ '' and must not be executed locally by core; ''
        @ ''its result is provided via the provider transcript'')"

datatype slot_answer = SlotGranted | SlotCancelled | SlotClosed

text \<open>A run tells whether it was late (the deadline came first) and what the tool returned in the end.\<close>

record ('x, 'w) tool_world =
  tw_cancelled :: "'w \<Rightarrow> bool \<times> 'w"
  tw_slot :: "'w \<Rightarrow> slot_answer \<times> 'w"
  tw_run :: "'x \<Rightarrow> tool_request \<Rightarrow> 'w \<Rightarrow> (bool \<times> (tool_error, tool_result) result) \<times> 'w"

text \<open>What a call did outside: the questions asked with their answers, and the tool that ran.\<close>

datatype 'x tool_step = StepAsked tool_request "approval_outcome list" | StepRan 'x tool_request

subsection \<open>The gate\<close>

definition denied_result :: "string \<Rightarrow> tool_result" where
  "denied_result reason =
     tool_failure \<lparr>ex_category = EcAuthorization, ex_message = reason, ex_retryable = False, ex_retry_after = None,
                   ex_diagnostics = []\<rparr>"

text \<open>\<open>as_u64\<close>: an unsigned integer of at most 64 bits, written without sign, fraction or exponent.\<close>

fun as_u64 :: "json \<Rightarrow> nat option" where
  "as_u64 (JNumber t) =
     (if t \<noteq> [] \<and> list_all (\<lambda>c. to_digit10 c \<noteq> None) t \<and> undec t \<le> u64_max then Some (undec t) else None)"
| "as_u64 _ = None"

fun set_key :: "string \<Rightarrow> json \<Rightarrow> (string \<times> json) list \<Rightarrow> (string \<times> json) list" where
  "set_key k v [] = [(k, v)]"
| "set_key k v ((k', v') # kvs) = (if k = k' then (k, v) # kvs else (k', v') # set_key k v kvs)"

definition limit_key :: "string \<Rightarrow> nat option \<Rightarrow> (string \<times> json) list \<Rightarrow> (string \<times> json) list" where
  "limit_key k limit kvs =
     (case limit of
        None \<Rightarrow> kvs
      | Some l \<Rightarrow>
          (if (case Option.bind (map_of kvs k) as_u64 of Some v \<Rightarrow> v > l | None \<Rightarrow> True)
           then set_key k (json_nat l) kvs else kvs))"

definition apply_execution_constraints :: "execution_constraints \<Rightarrow> tool_request \<Rightarrow> tool_request" where
  "apply_execution_constraints c rq =
     (case tq_input rq of
        JObject kvs \<Rightarrow>
          rq\<lparr>tq_input := JObject (limit_key ''max_output_bytes'' (ec_max_output c)
                                   (limit_key ''timeout_ms'' (ec_timeout_ms c) kvs))\<rparr>
      | _ \<Rightarrow> rq)"

datatype gate_outcome = GateDenied string | GateApproved bool

definition policy_view :: "scheduler_config \<Rightarrow> tool_descriptor \<Rightarrow> tool_request \<Rightarrow> policy_input" where
  "policy_view c d rq = \<lparr>pi_capability = ds_capability d, pi_input = tq_input rq, pi_trusted = kc_trusted c,
     pi_allowed_untrusted = ds_allowed_untrusted d, pi_mode = kc_mode c\<rparr>"

definition gate_decision :: "scheduler_config \<Rightarrow> tool_descriptor \<Rightarrow> tool_request \<Rightarrow> policy_decision" where
  "gate_decision c d rq =
     (let base = decide (policy_view c d rq)
      in if ds_requires_approval d \<and> (case base of Deny _ \<Rightarrow> False | _ \<Rightarrow> True)
         then AskUser \<lparr>ap_message = ''tool `'' @ ds_name d @ ''` requires explicit approval'', ap_risk = RiskModerate\<rparr>
         else base)"

definition first_approved :: "approval_outcome list \<Rightarrow> bool" where
  "first_approved os = (case os of OutcomeApproved # _ \<Rightarrow> True | _ \<Rightarrow> False)"

definition check_gate ::
  "scheduler_config \<Rightarrow> tool_descriptor \<Rightarrow> tool_request \<Rightarrow> 'w resolver option \<Rightarrow> 'w \<Rightarrow>
   gate_outcome \<times> tool_request \<times> (tool_request \<times> approval_outcome list) list \<times> 'w" where
  "check_gate c d rq approval w =
     (case gate_decision c d rq of
        Deny r \<Rightarrow> (GateDenied r, rq, [], w)
      | AskUser _ \<Rightarrow>
          (let rv = (case approval of Some r \<Rightarrow> r | None \<Rightarrow> auto_approve) in
           if \<not> rv_real rv
           then (GateDenied ''policy requires explicit user approval; automatic approval is forbidden'', rq, [], w)
           else (let (os, w') = rv_resolve rv rq w in
                 (if first_approved os then GateApproved True
                  else GateDenied ''tool call denied or approval was not provided'', rq, [(rq, os)], w')))
      | AllowWithConstraints k \<Rightarrow> (GateApproved False, apply_execution_constraints k rq, [], w)
      | Allow \<Rightarrow> (GateApproved False, rq, [], w))"

subsection \<open>Execution\<close>

definition finish_run :: "tool_descriptor \<Rightarrow> bool \<times> (tool_error, tool_result) result \<Rightarrow> (tool_error, tool_result) result" where
  "finish_run d ans =
     (case ds_timeout d of
        None \<Rightarrow> snd ans
      | Some ms \<Rightarrow>
          (if fst ans
           then (case snd ans of
                   Inr r \<Rightarrow> Inr r
                 | Inl _ \<Rightarrow> Inl (plain_error TeTimeout (''tool `'' @ ds_name d @ ''` timed out after '' @ dec ms @ ''ms'')))
           else snd ans))"

text \<open>From the cancellation check on: the slot, the run and its deadline.\<close>

definition run_in_slot ::
  "('x, 'w) tool_world \<Rightarrow> tool_descriptor \<Rightarrow> 'x \<Rightarrow> tool_request \<Rightarrow> 'x tool_step list \<Rightarrow> 'w \<Rightarrow>
   (tool_error, tool_result) result \<times> 'x tool_step list \<times> 'w" where
  "run_in_slot tw d x rq steps w =
     (let (c, w1) = tw_cancelled tw w in
      if c then (Inl (tool_cancelled ''tool cancelled before execution''), steps, w1)
      else (let (a, w2) = tw_slot tw w1 in
        case a of
          SlotCancelled \<Rightarrow> (Inl (tool_cancelled ''tool cancelled while waiting for scheduling slot''), steps, w2)
        | SlotClosed \<Rightarrow> (Inl (plain_error TeInternal ''scheduler semaphore closed''), steps, w2)
        | SlotGranted \<Rightarrow>
            (let (ans, w3) = tw_run tw x rq w2 in (finish_run d ans, steps @ [StepRan x rq], w3))))"

definition execute_with_tool ::
  "('x, 'w) tool_world \<Rightarrow> 'x tool_scheduler \<Rightarrow> tool_descriptor \<Rightarrow> tool_request \<Rightarrow> 'w resolver option \<Rightarrow> 'w \<Rightarrow>
   (tool_error, tool_result) result \<times> 'x tool_step list \<times> 'w" where
  "execute_with_tool tw k d rq approval w =
     (case registry_tool (ks_registry k) (ds_name d) of
        None \<Rightarrow> (Inl (plain_error TeInternal (''ClientFunction `'' @ ds_name d @ ''` has no local executor'')), [], w)
      | Some x \<Rightarrow>
          (let (g, rq1, qs, w1) = check_gate (ks_config k) d rq approval w; steps = map (case_prod StepAsked) qs in
           case g of
             GateDenied r \<Rightarrow> (Inr (denied_result r), steps, w1)
           | GateApproved asked \<Rightarrow>
               (case (if asked then None else approval) of
                  None \<Rightarrow> run_in_slot tw d x rq1 steps w1
                | Some rv \<Rightarrow>
                    (let (os, w2) = rv_resolve rv rq1 w1; steps' = steps @ [StepAsked rq1 os] in
                     if \<not> first_approved os
                     then (Inr (denied_result ''tool call denied or approval was not provided''), steps', w2)
                     else run_in_slot tw d x rq1 steps' w2))))"

definition execute_named ::
  "('x, 'w) tool_world \<Rightarrow> 'x tool_scheduler \<Rightarrow> string \<Rightarrow> tool_request \<Rightarrow> 'w resolver option \<Rightarrow> 'w \<Rightarrow>
   (tool_error, tool_result) result \<times> 'x tool_step list \<times> 'w" where
  "execute_named tw k nm rq approval w =
     (case registry_descriptor (ks_registry k) nm of
        None \<Rightarrow> (Inl (plain_error TeNotFound (''unknown tool: '' @ nm)), [], w)
      | Some d \<Rightarrow>
          (case ds_kind d of
             KindClientFunction \<Rightarrow> execute_with_tool tw k d rq approval w
           | KindProviderHosted \<Rightarrow> (Inl (not_locally_executable nm ''provider-hosted''), [], w)
           | KindProviderExtension \<Rightarrow> (Inl (not_locally_executable nm ''provider-extension''), [], w)))"

end
