(* ===== verification/ToolSchedulerProps.thy ===== *)
theory ToolSchedulerProps
  imports ToolScheduler
begin

text \<open>
  What reaches a tool: the gate between a call and its execution, the commands that need a person,
  the limits of what runs unasked, and what the registry holds.
\<close>

subsection \<open>The gate\<close>

abbreviation steps_of :: "'a \<times> 'x tool_step list \<times> 'w \<Rightarrow> 'x tool_step list" where
  "steps_of r \<equiv> fst (snd r)"

definition ran :: "'x \<Rightarrow> tool_request \<Rightarrow> 'x tool_step list \<Rightarrow> bool" where
  "ran x rq steps \<longleftrightarrow> StepRan x rq \<in> set steps"

text \<open>The steps of a call whose tool ran without a question, or after one that was answered.\<close>

definition ran_after_hook :: "'w resolver option \<Rightarrow> 'x \<Rightarrow> tool_request \<Rightarrow> 'x tool_step list \<Rightarrow> bool" where
  "ran_after_hook approval x rq steps \<longleftrightarrow>
     (case approval of
        None \<Rightarrow> steps = [StepRan x rq]
      | Some _ \<Rightarrow> \<exists>os. first_approved os \<and> steps = [StepAsked rq os, StepRan x rq])"

definition ran_after_person :: "'w resolver option \<Rightarrow> 'x \<Rightarrow> tool_request \<Rightarrow> 'x tool_step list \<Rightarrow> bool" where
  "ran_after_person approval x rq steps \<longleftrightarrow>
     (\<exists>rv os. approval = Some rv \<and> rv_real rv \<and> first_approved os \<and> steps = [StepAsked rq os, StepRan x rq])"

lemma run_in_slot_steps:
  "steps_of (run_in_slot tw d x rq steps w) = steps \<or> steps_of (run_in_slot tw d x rq steps w) = steps @ [StepRan x rq]"
  by (auto simp: run_in_slot_def Let_def split: prod.split slot_answer.split)

lemma ran_in_slot:
  "ran x' rq' (steps_of (run_in_slot tw d x rq steps w)) \<Longrightarrow> \<forall>s \<in> set steps. \<exists>rq os. s = StepAsked rq os \<Longrightarrow>
   x' = x \<and> rq' = rq \<and> steps_of (run_in_slot tw d x rq steps w) = steps @ [StepRan x rq]"
  using run_in_slot_steps [of tw d x rq steps w] by (auto simp: ran_def)

lemma check_gate_cases:
  obtains (denied) r qs w' where "check_gate c d rq approval w = (GateDenied r, rq, qs, w')"
  | (person) p rv os w' where "gate_decision c d rq = AskUser p" and "approval = Some rv" and "rv_real rv"
      and "first_approved os" and "check_gate c d rq approval w = (GateApproved True, rq, [(rq, os)], w')"
  | (limits) k where "gate_decision c d rq = AllowWithConstraints k"
      and "check_gate c d rq approval w = (GateApproved False, apply_execution_constraints k rq, [], w)"
  | (free) "gate_decision c d rq = Allow" and "check_gate c d rq approval w = (GateApproved False, rq, [], w)"
proof (cases "gate_decision c d rq")
  case Allow
  then show ?thesis using free by (simp add: check_gate_def)
next
  case (Deny r)
  then show ?thesis using denied by (simp add: check_gate_def)
next
  case (AllowWithConstraints k)
  then show ?thesis using limits by (simp add: check_gate_def)
next
  case (AskUser p)
  show ?thesis
  proof (cases approval)
    case None
    then show ?thesis using denied AskUser by (simp add: check_gate_def auto_approve_def)
  next
    case (Some rv)
    obtain os w' where "rv_resolve rv rq w = (os, w')"
      by fastforce
    then show ?thesis
      using AskUser Some denied person by (cases "rv_real rv"; cases "first_approved os") (auto simp: check_gate_def)
  qed
qed

lemma after_hook:
  assumes "ran x rq' (steps_of (execute_with_tool tw k d rq approval w))"
    and "check_gate (ks_config k) d rq approval w = (GateApproved False, rq1, [], w1)"
  shows "registry_tool (ks_registry k) (ds_name d) = Some x \<and> rq' = rq1
    \<and> ran_after_hook approval x rq1 (steps_of (execute_with_tool tw k d rq approval w))"
proof -
  obtain x' where x': "registry_tool (ks_registry k) (ds_name d) = Some x'"
    using assms(1) by (cases "registry_tool (ks_registry k) (ds_name d)") (auto simp: execute_with_tool_def ran_def)
  show ?thesis
  proof (cases approval)
    case None
    then have run: "execute_with_tool tw k d rq approval w = run_in_slot tw d x' rq1 [] w1"
      using x' assms(2) by (simp add: execute_with_tool_def)
    show ?thesis
      using ran_in_slot [of x rq' tw d x' rq1 "[]" w1] assms(1) x' None unfolding run by (simp add: ran_after_hook_def)
  next
    case (Some rv)
    obtain os w2 where os: "rv_resolve rv rq1 w1 = (os, w2)"
      by fastforce
    have ok: "first_approved os"
      using assms Some os x' by (auto simp: execute_with_tool_def ran_def Let_def split: if_splits)
    then have run: "execute_with_tool tw k d rq approval w = run_in_slot tw d x' rq1 [StepAsked rq1 os] w2"
      using x' assms(2) os Some by (simp add: execute_with_tool_def)
    show ?thesis
      using ran_in_slot [of x rq' tw d x' rq1 "[StepAsked rq1 os]" w2] assms(1) x' Some ok unfolding run
      by (auto simp: ran_after_hook_def)
  qed
qed

lemma after_person:
  assumes "ran x rq' (steps_of (execute_with_tool tw k d rq approval w))"
    and "check_gate (ks_config k) d rq approval w = (GateApproved True, rq, [(rq, os)], w1)"
  shows "registry_tool (ks_registry k) (ds_name d) = Some x \<and> rq' = rq
    \<and> steps_of (execute_with_tool tw k d rq approval w) = [StepAsked rq os, StepRan x rq]"
proof -
  obtain x' where x': "registry_tool (ks_registry k) (ds_name d) = Some x'"
    using assms(1) by (cases "registry_tool (ks_registry k) (ds_name d)") (auto simp: execute_with_tool_def ran_def)
  then have run: "execute_with_tool tw k d rq approval w = run_in_slot tw d x' rq [StepAsked rq os] w1"
    using assms(2) by (simp add: execute_with_tool_def)
  show ?thesis
    using ran_in_slot [of x rq' tw d x' rq "[StepAsked rq os]" w1] assms(1) x' unfolding run by auto
qed

text \<open>What the policy decided about a call whose tool ran.\<close>

definition gate_passed ::
  "policy_decision \<Rightarrow> 'w resolver option \<Rightarrow> tool_request \<Rightarrow> 'x \<Rightarrow> tool_request \<Rightarrow> 'x tool_step list \<Rightarrow> bool" where
  "gate_passed dc approval rq x rq' steps \<longleftrightarrow>
     (case dc of
        Deny _ \<Rightarrow> False
      | AskUser _ \<Rightarrow> rq' = rq \<and> ran_after_person approval x rq steps
      | AllowWithConstraints c \<Rightarrow> rq' = apply_execution_constraints c rq \<and> ran_after_hook approval x rq' steps
      | Allow \<Rightarrow> rq' = rq \<and> ran_after_hook approval x rq steps)"

lemma execute_passed:
  assumes "ran x rq' (steps_of (execute_with_tool tw k d rq approval w))"
  shows "registry_tool (ks_registry k) (ds_name d) = Some x
    \<and> gate_passed (gate_decision (ks_config k) d rq) approval rq x rq' (steps_of (execute_with_tool tw k d rq approval w))"
proof (cases rule: check_gate_cases [of "ks_config k" d rq approval w])
  case (denied r qs w')
  then show ?thesis
    using assms by (cases "registry_tool (ks_registry k) (ds_name d)") (auto simp: execute_with_tool_def ran_def)
next
  case (person p rv os w')
  then show ?thesis
    using after_person [OF assms person(5)] by (simp add: gate_passed_def ran_after_person_def)
next
  case (limits c)
  then show ?thesis
    using after_hook [OF assms limits(2)] by (simp add: gate_passed_def)
next
  case free
  then show ?thesis
    using after_hook [OF assms free(2)] by (simp add: gate_passed_def)
qed

lemma named_passed:
  assumes "ran x rq' (steps_of (execute_named tw k nm rq approval w))"
  obtains d where "registry_descriptor (ks_registry k) nm = Some d" and "ds_kind d = KindClientFunction"
    and "registry_tool (ks_registry k) (ds_name d) = Some x"
    and "gate_passed (gate_decision (ks_config k) d rq) approval rq x rq' (steps_of (execute_named tw k nm rq approval w))"
proof -
  obtain d where d: "registry_descriptor (ks_registry k) nm = Some d" "ds_kind d = KindClientFunction"
    using assms by (auto simp: execute_named_def ran_def split: option.splits tool_kind.splits)
  then have "execute_named tw k nm rq approval w = execute_with_tool tw k d rq approval w"
    by (simp add: execute_named_def)
  then show ?thesis
    using that d execute_passed [of x rq' tw k d rq approval w] assms by simp
qed

text \<open>
  C10: A call by name runs a tool only when that name is registered as a local tool, the policy did not
  refuse, and the questions that were due were answered with yes first: a call the policy wants a person
  for, or whose descriptor requires approval, runs unchanged after a real approval channel approved it,
  asked once; any other call runs (under the policy's limits) after the resolver, if there is one, approved it.
\<close>

theorem tools_run_only_past_the_gate:
  assumes "steps = steps_of (execute_named tw k nm rq approval w)" and "StepRan x rq' \<in> set steps"
  shows "\<exists>d. registry_descriptor (ks_registry k) nm = Some d \<and> ds_kind d = KindClientFunction
    \<and> registry_tool (ks_registry k) (ds_name d) = Some x
    \<and> (case gate_decision (ks_config k) d rq of
         Deny _ \<Rightarrow> False
       | AskUser _ \<Rightarrow> rq' = rq \<and> ran_after_person approval x rq steps
       | AllowWithConstraints c \<Rightarrow> rq' = apply_execution_constraints c rq \<and> ran_after_hook approval x rq' steps
       | Allow \<Rightarrow> rq' = rq \<and> ran_after_hook approval x rq steps)
    \<and> (ds_requires_approval d \<longrightarrow> ran_after_person approval x rq steps)"
proof -
  have "ran x rq' (steps_of (execute_named tw k nm rq approval w))"
    using assms by (simp add: ran_def)
  then obtain d where d: "registry_descriptor (ks_registry k) nm = Some d" "ds_kind d = KindClientFunction"
    "registry_tool (ks_registry k) (ds_name d) = Some x"
    "gate_passed (gate_decision (ks_config k) d rq) approval rq x rq' steps"
    unfolding assms(1) by (rule named_passed)
  have "ran_after_person approval x rq steps" if "ds_requires_approval d"
    using d(4) that by (auto simp: gate_passed_def gate_decision_def Let_def split: policy_decision.splits if_splits)
  then show ?thesis
    using d by (auto simp: gate_passed_def)
qed

subsection \<open>Commands that need a person\<close>

lemma decide_floor:
  "pi_capability i = CapProcess \<Longrightarrow> command_hits_danger_floor (pi_input i) \<Longrightarrow>
   (\<exists>r. decide i = Deny r) \<or> (\<exists>p. decide i = AskUser p) \<and> pi_mode i \<noteq> NeverAsk \<and> pi_mode i \<noteq> ReadOnlyMode"
  by (cases "pi_mode i") (auto simp: decide_def ask_def)

lemma decide_process:
  "pi_capability i = CapProcess \<Longrightarrow>
   (\<exists>r. decide i = Deny r) \<or> (\<exists>p. decide i = AskUser p)
   \<or> decide i = AllowWithConstraints \<lparr>ec_timeout_ms = Some 60000, ec_max_output = Some 1048576\<rparr>"
  by (cases "pi_mode i") (auto simp: decide_def ask_def allow_or_constrained_def is_side_effecting_def Let_def)

lemma gate_view:
  "pi_capability (policy_view c d rq) = ds_capability d" "pi_input (policy_view c d rq) = tq_input rq"
  "pi_mode (policy_view c d rq) = kc_mode c"
  by (simp_all add: policy_view_def)

lemma gate_decision_cases:
  "decide (policy_view c d rq) = Deny r \<Longrightarrow> gate_decision c d rq = Deny r"
  "decide (policy_view c d rq) = AskUser p \<Longrightarrow> \<exists>p'. gate_decision c d rq = AskUser p'"
  "decide (policy_view c d rq) = AllowWithConstraints k \<Longrightarrow>
     (\<exists>p. gate_decision c d rq = AskUser p) \<or> gate_decision c d rq = AllowWithConstraints k"
  by (auto simp: gate_decision_def)

lemma floor_asks:
  assumes "ds_capability d = CapProcess" and "command_hits_danger_floor (tq_input rq)"
    and "\<And>r. gate_decision c d rq \<noteq> Deny r"
  shows "(\<exists>p. gate_decision c d rq = AskUser p) \<and> kc_mode c \<noteq> NeverAsk \<and> kc_mode c \<noteq> ReadOnlyMode"
  using decide_floor [of "policy_view c d rq"] gate_decision_cases(1,2) [of c d rq] assms
  by (auto simp: gate_view)

text \<open>
  C11: However the scheduler is configured, a process call whose command is on the catastrophic floor runs
  only after a real approval channel was asked about exactly this call and approved it, and never in the
  modes that ask nobody.
\<close>

theorem floor_commands_need_a_person:
  assumes "steps = steps_of (execute_named tw k nm rq approval w)" and "StepRan x rq' \<in> set steps"
    and "registry_descriptor (ks_registry k) nm = Some d" and "ds_capability d = CapProcess"
    and "command_hits_danger_floor (tq_input rq)"
  shows "rq' = rq \<and> ran_after_person approval x rq steps
    \<and> kc_mode (ks_config k) \<noteq> NeverAsk \<and> kc_mode (ks_config k) \<noteq> ReadOnlyMode"
proof -
  have "ran x rq' (steps_of (execute_named tw k nm rq approval w))"
    using assms by (simp add: ran_def)
  then obtain d' where "registry_descriptor (ks_registry k) nm = Some d'"
    "gate_passed (gate_decision (ks_config k) d' rq) approval rq x rq' steps"
    unfolding assms(1) by (rule named_passed)
  then have passed: "gate_passed (gate_decision (ks_config k) d rq) approval rq x rq' steps"
    using assms(3) by simp
  then have "\<And>r. gate_decision (ks_config k) d rq \<noteq> Deny r"
    by (auto simp: gate_passed_def)
  from floor_asks [OF assms(4,5) this] passed show ?thesis
    by (auto simp: gate_passed_def)
qed

subsection \<open>Limits\<close>

lemma map_of_set_key: "map_of (set_key k v kvs) = (map_of kvs)(k \<mapsto> v)"
  by (induction kvs) (auto simp: fun_eq_iff)

lemma dec_all_digits: "list_all (\<lambda>c. to_digit10 c \<noteq> None) (dec n)"
  using dec_digits by (auto simp: list_all_iff)

lemma as_u64_nat: "n \<le> u64_max \<Longrightarrow> as_u64 (json_nat n) = Some n"
  using dec_all_digits [of n] by (simp add: json_nat_def)

lemma limit_key_bounds:
  assumes "l \<le> u64_max"
  shows "\<exists>v. Option.bind (map_of (limit_key k (Some l) kvs) k) as_u64 = Some v \<and> v \<le> l"
  using as_u64_nat [OF assms]
  by (cases "Option.bind (map_of kvs k) as_u64") (auto simp: limit_key_def map_of_set_key)

lemma limit_key_other: "k' \<noteq> k \<Longrightarrow> map_of (limit_key k l kvs) k' = map_of kvs k'"
  by (auto simp: limit_key_def map_of_set_key split: option.split)

text \<open>
  A process call that runs without a question runs within the limits: where its input is an object,
  the tool gets that object with a timeout of at most a minute and an output bound of at most a mebibyte,
  readable as unsigned integers whatever the caller wrote there, and with every other key as it was.
\<close>

theorem unasked_processes_are_limited:
  assumes "steps = steps_of (execute_named tw k nm rq approval w)" and "StepRan x rq' \<in> set steps"
    and "registry_descriptor (ks_registry k) nm = Some d" and "ds_capability d = CapProcess"
    and "\<And>p. gate_decision (ks_config k) d rq \<noteq> AskUser p" and "tq_input rq = JObject kvs"
  shows "\<exists>kvs' t b. tq_input rq' = JObject kvs' \<and> tq_call rq' = tq_call rq
    \<and> Option.bind (map_of kvs' ''timeout_ms'') as_u64 = Some t \<and> t \<le> 60000
    \<and> Option.bind (map_of kvs' ''max_output_bytes'') as_u64 = Some b \<and> b \<le> 1048576
    \<and> (\<forall>key. key \<noteq> ''timeout_ms'' \<and> key \<noteq> ''max_output_bytes'' \<longrightarrow> map_of kvs' key = map_of kvs key)"
proof -
  have "ran x rq' (steps_of (execute_named tw k nm rq approval w))"
    using assms by (simp add: ran_def)
  then obtain d' where "registry_descriptor (ks_registry k) nm = Some d'"
    "gate_passed (gate_decision (ks_config k) d' rq) approval rq x rq' steps"
    unfolding assms(1) by (rule named_passed)
  then have passed: "gate_passed (gate_decision (ks_config k) d rq) approval rq x rq' steps"
    using assms(3) by simp
  have "gate_decision (ks_config k) d rq = AllowWithConstraints \<lparr>ec_timeout_ms = Some 60000, ec_max_output = Some 1048576\<rparr>"
    using passed assms(4,5) decide_process [of "policy_view (ks_config k) d rq"]
      gate_decision_cases [where c = "ks_config k" and d = d and rq = rq]
    by (auto simp: gate_view gate_passed_def)
  then have rq': "rq' = apply_execution_constraints \<lparr>ec_timeout_ms = Some 60000, ec_max_output = Some 1048576\<rparr> rq"
    using passed by (simp add: gate_passed_def)
  let ?kvs = "limit_key ''max_output_bytes'' (Some 1048576) (limit_key ''timeout_ms'' (Some 60000) kvs)"
  have "\<exists>t. Option.bind (map_of ?kvs ''timeout_ms'') as_u64 = Some t \<and> t \<le> 60000"
    using limit_key_bounds [of 60000 "''timeout_ms''" kvs] by (simp add: limit_key_other u64_max_def)
  moreover have "\<exists>b. Option.bind (map_of ?kvs ''max_output_bytes'') as_u64 = Some b \<and> b \<le> 1048576"
    using limit_key_bounds [of 1048576 "''max_output_bytes''"] by (simp add: u64_max_def)
  ultimately show ?thesis
    using rq' assms(6) by (auto simp: apply_execution_constraints_def limit_key_other)
qed

subsection \<open>What the registry holds\<close>

text \<open>Every entry is a local tool under its own name.\<close>

definition typed_entry :: "string \<Rightarrow> 'x registry_entry \<Rightarrow> bool" where
  "typed_entry nm e \<longleftrightarrow> ds_name (re_descriptor e) = nm \<and> ds_kind (re_descriptor e) = KindClientFunction
     \<and> ds_hosting (re_descriptor e) = HostLocal"

definition typed_registry :: "'x registry \<Rightarrow> bool" where
  "typed_registry reg \<longleftrightarrow> (\<forall>nm e. bt_get reg nm = Some e \<longrightarrow> typed_entry nm e)"

lemma register_tool_cases:
  obtains (mismatch) "\<not> has_consistent_hosting d" and "register_tool d x reg = Inl (KindHostingMismatch (ds_name d) (ds_kind d) (hosting_kind (ds_hosting d)))"
  | (remote) "ds_kind d \<noteq> KindClientFunction" and "register_tool d x reg = Inl (ExecutorForNonClientFunction (ds_name d) (ds_kind d))"
  | (stored) "typed_entry (ds_name d) \<lparr>re_descriptor = d, re_executor = x\<rparr>"
      and "register_tool d x reg = Inr (bt_put (ds_name d) \<lparr>re_descriptor = d, re_executor = x\<rparr> reg)"
proof (cases "has_consistent_hosting d")
  case False
  then show ?thesis using mismatch by (simp add: register_tool_def validate_descriptor_def)
next
  case True
  then show ?thesis
    using remote stored
    by (cases "ds_hosting d") (auto simp: register_tool_def validate_descriptor_def typed_entry_def has_consistent_hosting_def)
qed

lemma typed_put: "typed_registry reg \<Longrightarrow> typed_entry nm e \<Longrightarrow> typed_registry (bt_put nm e reg)"
  by (auto simp: typed_registry_def bt_get_put)

lemma extend_typed: "typed_registry reg \<Longrightarrow> typed_registry (snd (extend_registry ts reg))"
proof (induction ts reg rule: extend_registry.induct)
  case (2 d x ts reg)
  show ?case
  proof (cases rule: register_tool_cases [of d x reg])
    case stored
    then show ?thesis using 2 by (simp add: typed_put)
  qed (use 2 in simp_all)
qed simp

lemma extend_lookup:
  "fst (extend_registry ts reg) = None \<Longrightarrow>
   bt_get (snd (extend_registry ts reg)) nm
     = (case map_of (rev (map (\<lambda>(d, x). (ds_name d, \<lparr>re_descriptor = d, re_executor = x\<rparr>)) ts)) nm of
          Some e \<Rightarrow> Some e | None \<Rightarrow> bt_get reg nm)"
proof (induction ts reg rule: extend_registry.induct)
  case (2 d x ts reg)
  show ?case
  proof (cases rule: register_tool_cases [of d x reg])
    case stored
    then show ?thesis using 2 by (auto simp: bt_get_put map_add_def split: option.split)
  qed (use 2 in simp_all)
qed simp

text \<open>
  The registry is well typed: whatever is registered in whatever order, every entry is a local tool
  under its own name with an executor, so a name it knows is never answered as remote or as without
  executor; and after a batch that was accepted the last tool of a name is the one that is called,
  tools of other names stay.
\<close>

theorem registry_only_holds_local_tools:
  assumes "typed_registry reg" and "extend_registry ts reg = (err, reg')"
  shows "typed_registry reg'
    \<and> (\<forall>d. registry_descriptor reg' nm = Some d \<longrightarrow>
         (\<exists>x. registry_tool reg' (ds_name d) = Some x) \<and> ds_name d = nm \<and> has_consistent_hosting d
         \<and> execute_named tw (scheduler_new reg' c) nm rq approval w
             = execute_with_tool tw (scheduler_new reg' c) d rq approval w)
    \<and> (err = None \<longrightarrow> registry_tool reg' nm
         = (case map_of (rev (map (\<lambda>(d, x). (ds_name d, x)) ts)) nm of Some x \<Rightarrow> Some x | None \<Rightarrow> registry_tool reg nm))"
proof -
  have typed: "typed_registry reg'"
    using extend_typed [OF assms(1), of ts] assms(2) by simp
  have known: "(\<exists>x. registry_tool reg' (ds_name d) = Some x) \<and> ds_name d = nm \<and> has_consistent_hosting d
      \<and> execute_named tw (scheduler_new reg' c) nm rq approval w
          = execute_with_tool tw (scheduler_new reg' c) d rq approval w"
    if d: "registry_descriptor reg' nm = Some d" for d
  proof -
    obtain e where e: "bt_get reg' nm = Some e" "re_descriptor e = d"
      using d by (auto simp: registry_descriptor_def)
    then have "typed_entry nm e"
      using typed by (simp add: typed_registry_def)
    then show ?thesis
      using d e by (auto simp: typed_entry_def registry_tool_def has_consistent_hosting_def execute_named_def scheduler_new_def)
  qed
  have map: "map_of (rev (map (\<lambda>(d, x). (ds_name d, x)) ts)) nm
      = map_option re_executor (map_of (rev (map (\<lambda>(d, x). (ds_name d, \<lparr>re_descriptor = d, re_executor = x\<rparr>)) ts)) nm)"
    by (induction ts rule: rev_induct) auto
  have "registry_tool reg' nm
      = (case map_of (rev (map (\<lambda>(d, x). (ds_name d, x)) ts)) nm of Some x \<Rightarrow> Some x | None \<Rightarrow> registry_tool reg nm)"
    if "err = None"
    using extend_lookup [of ts reg nm] that assms(2) unfolding map registry_tool_def by (auto split: option.split)
  then show ?thesis
    using typed known by blast
qed

subsection \<open>A sample call\<close>

definition sample_tool :: tool_descriptor where
  "sample_tool = \<lparr>ds_name = ''shell'', ds_description = [], ds_schema = JNull, ds_capability = CapProcess,
     ds_kind = KindClientFunction, ds_hosting = HostLocal, ds_tags = [], ds_requires_approval = False,
     ds_read_only = False, ds_concurrent = False, ds_timeout = None, ds_max_output = 0, ds_allowed_untrusted = False\<rparr>"

definition sample_registry :: "nat registry" where
  "sample_registry = [(''shell'', \<lparr>re_descriptor = sample_tool, re_executor = 7\<rparr>)]"

definition sample_scheduler :: "approval_mode \<Rightarrow> nat tool_scheduler" where
  "sample_scheduler mode = scheduler_new sample_registry \<lparr>kc_max_concurrent = 1, kc_mode = mode, kc_trusted = True\<rparr>"

definition sample_go :: "unit \<Rightarrow> bool \<times> unit" where "sample_go w = (False, w)"
definition sample_slot :: "unit \<Rightarrow> slot_answer \<times> unit" where "sample_slot w = (SlotGranted, w)"

definition sample_run :: "nat \<Rightarrow> tool_request \<Rightarrow> unit \<Rightarrow> (bool \<times> (tool_error, tool_result) result) \<times> unit" where
  "sample_run x rq w = ((False, Inl (tool_cancelled [])), w)"

definition sample_world :: "(nat, unit) tool_world" where
  "sample_world = \<lparr>tw_cancelled = sample_go, tw_slot = sample_slot, tw_run = sample_run\<rparr>"

definition sample_yes :: "tool_request \<Rightarrow> unit \<Rightarrow> approval_outcome list \<times> unit" where
  "sample_yes rq w = ([OutcomeApproved], w)"

definition sample_person :: "unit resolver" where
  "sample_person = \<lparr>rv_real = True, rv_resolve = sample_yes\<rparr>"

definition sample_call :: "string list \<Rightarrow> tool_request" where
  "sample_call args = \<lparr>tq_call = ''c1'', tq_input = JObject [(''argv'', JArray (map JString args))]\<rparr>"

definition sample_steps :: "approval_mode \<Rightarrow> string list \<Rightarrow> unit resolver option \<Rightarrow> nat tool_step list" where
  "sample_steps mode args approval =
     steps_of (execute_named sample_world (sample_scheduler mode) ''shell'' (sample_call args) approval ())"

lemma sample_steps_eval:
  "sample_steps AskForDangerous [''rm'', ''-rf'', ''/''] (Some sample_person)
     = [StepAsked (sample_call [''rm'', ''-rf'', ''/'']) [OutcomeApproved], StepRan 7 (sample_call [''rm'', ''-rf'', ''/''])]"
  "command_hits_danger_floor (tq_input (sample_call [''rm'', ''-rf'', ''/'']))"
  "registry_descriptor (ks_registry (sample_scheduler mode)) ''shell'' = Some sample_tool"
  by (code_simp, code_simp, simp add: sample_scheduler_def scheduler_new_def sample_registry_def registry_descriptor_def)

lemma sample_ran:
  "StepRan 7 (sample_call [''rm'', ''-rf'', ''/'']) \<in> set (sample_steps AskForDangerous [''rm'', ''-rf'', ''/''] (Some sample_person))"
  unfolding sample_steps_eval(1) by simp

lemma tools_run_only_past_the_gate_witness:
  "\<exists>d. registry_descriptor (ks_registry (sample_scheduler AskForDangerous)) ''shell'' = Some d \<and> ds_kind d = KindClientFunction
    \<and> registry_tool (ks_registry (sample_scheduler AskForDangerous)) (ds_name d) = Some 7"
  using tools_run_only_past_the_gate [OF sample_steps_def sample_ran] by blast

lemma floor_commands_need_a_person_witness:
  "ran_after_person (Some sample_person) 7 (sample_call [''rm'', ''-rf'', ''/''])
     (sample_steps AskForDangerous [''rm'', ''-rf'', ''/''] (Some sample_person))"
proof -
  have "ds_capability sample_tool = CapProcess"
    by (simp add: sample_tool_def)
  from floor_commands_need_a_person [OF sample_steps_def sample_ran sample_steps_eval(3) this sample_steps_eval(2)]
  show ?thesis by blast
qed

lemma unasked_processes_are_limited_witness:
  "\<exists>rq' kvs' t. StepRan 7 rq' \<in> set (sample_steps NeverAsk [''ls''] None) \<and> tq_input rq' = JObject kvs'
     \<and> Option.bind (map_of kvs' ''timeout_ms'') as_u64 = Some t \<and> t \<le> 60000"
proof -
  let ?c = "ks_config (sample_scheduler NeverAsk)"
  have "\<not> command_hits_danger_floor (tq_input (sample_call [''ls'']))"
    by code_simp
  then have "gate_decision ?c sample_tool (sample_call [''ls'']) = allow_or_constrained CapProcess"
    by (simp add: gate_decision_def sample_tool_def decide_def policy_view_def sample_scheduler_def scheduler_new_def
        allow_or_constrained_def Let_def)
  then obtain k where k: "gate_decision ?c sample_tool (sample_call [''ls'']) = AllowWithConstraints k"
    by (simp add: allow_or_constrained_def)
  then have gate: "check_gate ?c sample_tool (sample_call [''ls'']) None () =
      (GateApproved False, apply_execution_constraints k (sample_call [''ls'']), [], ())"
    by (simp add: check_gate_def)
  have tool: "registry_tool (ks_registry (sample_scheduler NeverAsk)) (ds_name sample_tool) = Some 7"
    and kind: "ds_kind sample_tool = KindClientFunction" and cap: "ds_capability sample_tool = CapProcess"
    by (simp_all add: sample_tool_def sample_scheduler_def scheduler_new_def sample_registry_def registry_tool_def)
  have "sample_steps NeverAsk [''ls''] None = [StepRan 7 (apply_execution_constraints k (sample_call [''ls'']))]"
    by (simp add: sample_steps_def execute_named_def sample_steps_eval(3) kind execute_with_tool_def tool gate
        run_in_slot_def sample_world_def sample_go_def sample_slot_def sample_run_def)
  then have mem: "StepRan 7 (apply_execution_constraints k (sample_call [''ls''])) \<in> set (sample_steps NeverAsk [''ls''] None)"
    by simp
  have quiet: "gate_decision ?c sample_tool (sample_call [''ls'']) \<noteq> AskUser p" for p
    using k by simp
  have input: "tq_input (sample_call [''ls'']) = JObject [(''argv'', JArray (map JString [''ls'']))]"
    by (simp add: sample_call_def)
  from unasked_processes_are_limited [OF sample_steps_def mem sample_steps_eval(3) cap quiet input]
  obtain kvs' t where kv: "tq_input (apply_execution_constraints k (sample_call [''ls''])) = JObject kvs'"
    "Option.bind (map_of kvs' ''timeout_ms'') as_u64 = Some t" "t \<le> 60000"
    by (elim exE conjE)
  show ?thesis
    by (intro exI conjI, rule mem, rule kv(1), rule kv(2), rule kv(3))
qed

lemma registry_only_holds_local_tools_witness:
  "registry_tool (snd (extend_registry [(sample_tool, 1 :: nat), (sample_tool, 2)] [])) ''shell'' = Some 2"
proof -
  have typed: "typed_registry []"
    by (simp add: typed_registry_def)
  have name: "ds_name sample_tool = ''shell''"
    by (simp add: sample_tool_def)
  have "extend_registry [(sample_tool, 1 :: nat), (sample_tool, 2)] []
      = (None, snd (extend_registry [(sample_tool, 1 :: nat), (sample_tool, 2)] []))"
    by code_simp
  from conjunct2 [OF conjunct2 [OF registry_only_holds_local_tools [OF typed this, where nm = "''shell''"]]] show ?thesis
    by (simp add: name del: extend_registry.simps)
qed

end
