(* ===== verification/Utf8.thy ===== *)
theory Utf8
  imports Prelude
begin

text \<open>
  What the sources use of Rust's \<open>str::from_utf8\<close>: how far a byte sequence is valid UTF-8 and how
  long the first broken sequence is, and the lemmas on cutting a byte stream into pieces.
\<close>

subsection \<open>The first sequence of a byte string\<close>

definition byte_in :: "nat \<Rightarrow> nat \<Rightarrow> char \<Rightarrow> bool" where
  "byte_in lo hi c \<longleftrightarrow> lo \<le> of_char c \<and> of_char c \<le> hi"

text \<open>Whole sequences, broken ones (\<open>error_len\<close> bytes are wrong) and ones that more bytes may complete.\<close>

datatype utf8_front = Whole nat | Broken nat | Partial

definition is_cont :: "char \<Rightarrow> bool" where
  "is_cont c \<longleftrightarrow> byte_in 128 191 c"

text \<open>The second bytes a first byte of three or four bytes admits.\<close>

definition second3 :: "char \<Rightarrow> char \<Rightarrow> bool" where
  "second3 a b \<longleftrightarrow> (if byte_in 224 224 a then byte_in 160 191 b
                   else if byte_in 237 237 a then byte_in 128 159 b else is_cont b)"

definition second4 :: "char \<Rightarrow> char \<Rightarrow> bool" where
  "second4 a b \<longleftrightarrow> (if byte_in 240 240 a then byte_in 144 191 b
                   else if byte_in 244 244 a then byte_in 128 143 b else is_cont b)"

definition front2 :: "string \<Rightarrow> utf8_front" where
  "front2 s = (case s of [] \<Rightarrow> Partial | b # _ \<Rightarrow> if is_cont b then Whole 2 else Broken 1)"

definition front3 :: "char \<Rightarrow> string \<Rightarrow> utf8_front" where
  "front3 a s =
     (case s of
        [] \<Rightarrow> Partial
      | b # s2 \<Rightarrow>
          (if \<not> second3 a b then Broken 1
           else case s2 of [] \<Rightarrow> Partial | c # _ \<Rightarrow> if is_cont c then Whole 3 else Broken 2))"

definition front4 :: "char \<Rightarrow> string \<Rightarrow> utf8_front" where
  "front4 a s =
     (case s of
        [] \<Rightarrow> Partial
      | b # s2 \<Rightarrow>
          (if \<not> second4 a b then Broken 1
           else case s2 of
             [] \<Rightarrow> Partial
           | c # s3 \<Rightarrow>
               (if \<not> is_cont c then Broken 2
                else case s3 of [] \<Rightarrow> Partial | d # _ \<Rightarrow> if is_cont d then Whole 4 else Broken 3)))"

definition utf8_front_of :: "char \<Rightarrow> string \<Rightarrow> utf8_front" where
  "utf8_front_of a s =
     (if byte_in 0 127 a then Whole 1
      else if byte_in 194 223 a then front2 s
      else if byte_in 224 239 a then front3 a s
      else if byte_in 240 244 a then front4 a s
      else Broken 1)"

lemmas utf8_front_defs = utf8_front_of_def front2_def front3_def front4_def

lemma front_bounds:
  "utf8_front_of a s = Whole n \<Longrightarrow> 0 < n \<and> n \<le> Suc (length s)"
  "utf8_front_of a s = Broken n \<Longrightarrow> 0 < n \<and> n \<le> Suc (length s)"
  by (auto simp: utf8_front_defs split: if_splits list.splits)

text \<open>A decided front stays what it is when bytes follow.\<close>

lemma front_append:
  "utf8_front_of a s \<noteq> Partial \<Longrightarrow> utf8_front_of a (s @ t) = utf8_front_of a s"
  by (auto simp: utf8_front_defs split: if_splits list.splits)

lemma front_take:
  "utf8_front_of a s = Whole (Suc n) \<Longrightarrow> utf8_front_of a (take n s) = Whole (Suc n)"
  by (auto simp: utf8_front_defs numeral_2_eq_2 numeral_3_eq_3 split: if_splits list.splits)

subsection \<open>\<open>from_utf8\<close>: \<open>valid_up_to\<close> and \<open>error_len\<close>\<close>

text \<open>\<open>Ok\<close> is read as the whole length without an error; so is a partial tail, without its bytes.\<close>

function utf8_check :: "string \<Rightarrow> nat \<times> nat option" where
  "utf8_check [] = (0, None)"
| "utf8_check (a # s) =
     (case utf8_front_of a s of
        Whole n \<Rightarrow> (let (v, e) = utf8_check (drop (n - 1) s) in (n + v, e))
      | Broken n \<Rightarrow> (0, Some n)
      | Partial \<Rightarrow> (0, None))"
  by pat_completeness auto
termination
  by (relation "measure length") auto

declare utf8_check.simps(2) [simp del]

definition utf8_valid :: "string \<Rightarrow> bool" where
  "utf8_valid s \<longleftrightarrow> utf8_check s = (length s, None)"

lemma utf8_check_bounds: "utf8_check s = (v, e) \<Longrightarrow> v \<le> length s \<and> (\<forall>k. e = Some k \<longrightarrow> 0 < k \<and> v + k \<le> length s)"
proof (induction s arbitrary: v e rule: utf8_check.induct)
  case (2 a s)
  show ?case
  proof (cases "utf8_front_of a s")
    case (Whole n)
    obtain v' where v': "utf8_check (drop (n - 1) s) = (v', e)" "v = n + v'"
      using "2.prems" Whole by (auto simp: utf8_check.simps(2) split: prod.splits)
    show ?thesis
      using "2.IH" [OF Whole v'(1)] v'(2) front_bounds(1) [OF Whole] by auto
  next
    case (Broken n)
    then show ?thesis
      using "2.prems" front_bounds(2) [OF Broken] by (auto simp: utf8_check.simps(2))
  next
    case Partial
    then show ?thesis
      using "2.prems" by (auto simp: utf8_check.simps(2))
  qed
qed simp

lemma utf8_check_valid_append:
  "utf8_valid s \<Longrightarrow> utf8_check (s @ t) = (let (v, e) = utf8_check t in (length s + v, e))"
proof (induction s rule: utf8_check.induct)
  case (2 a s)
  from "2.prems" obtain n where n: "utf8_front_of a s = Whole n"
    by (cases "utf8_front_of a s") (auto simp: utf8_valid_def utf8_check.simps(2))
  have b: "0 < n" "n \<le> Suc (length s)"
    using front_bounds(1) [OF n] by auto
  have "utf8_valid (drop (n - 1) s)"
    using "2.prems" n b by (auto simp: utf8_valid_def utf8_check.simps(2) split: prod.splits)
  from "2.IH" [OF n this] show ?case
    using n b by (auto simp: utf8_check.simps(2) front_append split: prod.splits)
qed simp

lemma utf8_valid_Nil [simp]: "utf8_valid []"
  by (simp add: utf8_valid_def)

lemma utf8_valid_append: "utf8_valid s \<Longrightarrow> utf8_valid t \<Longrightarrow> utf8_valid (s @ t)"
  by (simp add: utf8_valid_def [of "s @ t"] utf8_check_valid_append) (simp add: utf8_valid_def)

lemma utf8_valid_append_iff: "utf8_valid s \<Longrightarrow> utf8_valid (s @ t) \<longleftrightarrow> utf8_valid t"
  by (auto simp: utf8_valid_def [of "s @ t"] utf8_check_valid_append utf8_valid_def [of t] split: prod.splits)

lemma utf8_check_ascii: "byte_in 0 127 a \<Longrightarrow> utf8_check (a # s) = (let (v, e) = utf8_check s in (Suc v, e))"
  by (simp add: utf8_check.simps(2) utf8_front_of_def)

lemma utf8_valid_ascii: "byte_in 0 127 a \<Longrightarrow> utf8_valid (a # s) \<longleftrightarrow> utf8_valid s"
  by (auto simp: utf8_valid_def utf8_check_ascii split: prod.splits)

text \<open>The valid prefix is valid.\<close>

lemma utf8_take_valid: "utf8_check s = (v, e) \<Longrightarrow> utf8_valid (take v s)"
proof (induction s arbitrary: v e rule: utf8_check.induct)
  case (2 a s)
  show ?case
  proof (cases "utf8_front_of a s")
    case (Whole n)
    obtain v' where v': "utf8_check (drop (n - 1) s) = (v', e)" "v = n + v'"
      using "2.prems" Whole by (auto simp: utf8_check.simps(2) split: prod.splits)
    have b: "0 < n" "n \<le> Suc (length s)"
      using front_bounds(1) [OF Whole] by auto
    have "take v (a # s) = (a # take (n - 1) s) @ take v' (drop (n - 1) s)"
      using b v'(2) by (cases n) (auto simp: take_add)
    moreover have "utf8_valid (a # take (n - 1) s)"
      using front_take [of a s "n - 1"] Whole b by (simp add: utf8_valid_def utf8_check.simps(2))
    ultimately show ?thesis
      by (simp only: utf8_valid_append [OF _ "2.IH" [OF Whole v'(1)]])
  qed (use "2.prems" in \<open>auto simp: utf8_check.simps(2)\<close>)
qed simp

subsection \<open>A cut before an ASCII byte\<close>

text \<open>Bytes below 128 never occur inside a longer sequence, so a valid string is valid up to each of them.\<close>

lemma front_whole_ascii_free:
  "utf8_front_of a s = Whole n \<Longrightarrow> n \<noteq> 1 \<Longrightarrow> \<forall>c \<in> set (a # take (n - 1) s). \<not> byte_in 0 127 c"
  by (auto simp: utf8_front_defs second3_def second4_def is_cont_def byte_in_def numeral_2_eq_2 numeral_3_eq_3
      split: if_splits list.splits)

lemma front_broken_ascii_free:
  "utf8_front_of a s = Broken n \<Longrightarrow> \<forall>c \<in> set (a # take (n - 1) s). \<not> byte_in 0 127 c"
  by (auto simp: utf8_front_defs second3_def second4_def is_cont_def byte_in_def numeral_2_eq_2 numeral_3_eq_3
      split: if_splits list.splits)

lemma front_partial_ascii_free:
  "utf8_front_of a s = Partial \<Longrightarrow> \<forall>c \<in> set (a # s). \<not> byte_in 0 127 c"
  by (auto simp: utf8_front_defs second3_def second4_def is_cont_def byte_in_def split: if_splits list.splits)

end
