(* ===== verification/Sse.thy ===== *)
theory Sse
  imports Utf8
begin

text \<open>
  The incremental parser for server-sent events of \<open>crates/providers/src/net/sse.rs\<close>: bytes arrive
  in chunks of any size, broken UTF-8 is removed, complete lines are taken off the buffer and the
  fields of an event are gathered until an empty line dispatches it.
\<close>

subsection \<open>Events and the parser's state\<close>

definition max_buffer_bytes :: nat where
  "max_buffer_bytes = 1024 * 1024"

definition over_buffer :: "nat \<Rightarrow> bool" where
  "over_buffer n \<longleftrightarrow> n > max_buffer_bytes"

text \<open>Evaluation compares binary integers.\<close>

lemma over_buffer_code [code]: "over_buffer n \<longleftrightarrow> int n > 1048576"
  by (auto simp: over_buffer_def max_buffer_bytes_def)

datatype sse_error = BufferLimitExceeded nat

record sse_event =
  se_event :: "string option"
  se_data :: string
  se_id :: "string option"
  se_retry :: "nat option"

record event_accumulator =
  ac_event :: "string option"
  ac_data :: string
  ac_id :: "string option"
  ac_retry :: "nat option"

definition acc_empty :: event_accumulator where
  "acc_empty = \<lparr>ac_event = None, ac_data = [], ac_id = None, ac_retry = None\<rparr>"

type_synonym sse_item = "(sse_error, sse_event) result"

definition buffer_error :: sse_item where
  "buffer_error = Inl (BufferLimitExceeded max_buffer_bytes)"

record sse_parser =
  sp_buf :: string
  sp_acc :: event_accumulator
  sp_bom_seen :: bool
  sp_discard :: bool

definition sse_new :: sse_parser where
  "sse_new = \<lparr>sp_buf = [], sp_acc = acc_empty, sp_bom_seen = False, sp_discard = False\<rparr>"

definition lf :: char where "lf = CHR 0x0A"
definition cr :: char where "cr = CHR 0x0D"
definition bom :: string where "bom = [CHR 0xEF, CHR 0xBB, CHR 0xBF]"

text \<open>\<open>strip_prefix(p).unwrap_or(s)\<close>.\<close>

definition strip_prefix :: "string \<Rightarrow> string \<Rightarrow> string" where
  "strip_prefix p s = (if take (length p) s = p then drop (length p) s else s)"

subsection \<open>Dispatch\<close>

definition trim_last_lf :: "string \<Rightarrow> string" where
  "trim_last_lf s = (if s \<noteq> [] \<and> last s = lf then butlast s else s)"

definition dispatch :: "event_accumulator \<Rightarrow> sse_event option \<times> event_accumulator" where
  "dispatch a =
     (if ac_data a = [] then (None, a\<lparr>ac_event := None, ac_id := None, ac_retry := None\<rparr>)
      else (Some \<lparr>se_event = Some (case ac_event a of Some n \<Rightarrow> if n \<noteq> [] then n else ''message'' | None \<Rightarrow> ''message''),
                  se_data = trim_last_lf (ac_data a), se_id = ac_id a, se_retry = ac_retry a\<rparr>,
            acc_empty))"

subsection \<open>Fields\<close>

text \<open>\<open>str::parse::<u64>\<close>: an optional plus sign, at least one digit, no overflow.\<close>

definition parse_u64 :: "string \<Rightarrow> nat option" where
  "parse_u64 s =
     (let ds = (case s of c # r \<Rightarrow> if c = CHR ''+'' then r else s | [] \<Rightarrow> s)
      in if ds \<noteq> [] \<and> list_all (\<lambda>c. to_digit10 c \<noteq> None) ds \<and> undec ds \<le> u64_max then Some (undec ds) else None)"

definition split_field :: "string \<Rightarrow> string \<times> string" where
  "split_field line =
     (case dropWhile (\<lambda>c. c \<noteq> CHR '':'') line of
        [] \<Rightarrow> (line, [])
      | _ # value \<Rightarrow> (takeWhile (\<lambda>c. c \<noteq> CHR '':'') line, strip_prefix '' '' value))"

definition apply_field :: "string \<Rightarrow> string \<Rightarrow> sse_parser \<Rightarrow> sse_item list \<times> sse_parser" where
  "apply_field field value p =
     (let a = sp_acc p in
      if field = ''event'' then ([], p\<lparr>sp_acc := a\<lparr>ac_event := Some value\<rparr>\<rparr>)
      else if field = ''data'' then
        (if over_buffer (sat_add (sat_add (length (ac_data a)) (length value)) 1)
         then ([buffer_error], p\<lparr>sp_acc := acc_empty, sp_discard := True\<rparr>)
         else ([], p\<lparr>sp_acc := a\<lparr>ac_data := ac_data a @ value @ [lf]\<rparr>\<rparr>))
      else if field = ''id'' then
        ([], if CHR 0x00 \<notin> set value then p\<lparr>sp_acc := a\<lparr>ac_id := Some value\<rparr>\<rparr> else p)
      else if field = ''retry'' then
        ([], case parse_u64 value of Some n \<Rightarrow> p\<lparr>sp_acc := a\<lparr>ac_retry := Some n\<rparr>\<rparr> | None \<Rightarrow> p)
      else ([], p))"

definition process_line :: "string \<Rightarrow> sse_parser \<Rightarrow> sse_item list \<times> sse_parser" where
  "process_line text p =
     (let line = strip_prefix bom text in
      if sp_discard p then ([], if line = [] then p\<lparr>sp_discard := False\<rparr> else p)
      else if line = [] then
        (case dispatch (sp_acc p) of
           (Some e, a) \<Rightarrow> ([Inr e], p\<lparr>sp_acc := a\<rparr>)
         | (None, a) \<Rightarrow> ([], p\<lparr>sp_acc := a\<rparr>))
      else if hd line = CHR '':'' then ([], p)
      else (case split_field line of (field, value) \<Rightarrow> apply_field field value p))"

subsection \<open>The buffer\<close>

definition strip_bom_once :: "sse_parser \<Rightarrow> sse_parser" where
  "strip_bom_once p = (if sp_bom_seen p then p else p\<lparr>sp_bom_seen := True, sp_buf := strip_prefix bom (sp_buf p)\<rparr>)"

function remove_invalid_utf8 :: "string \<Rightarrow> string" where
  "remove_invalid_utf8 s =
     (case utf8_check s of
        (v, Some k) \<Rightarrow> take v s @ remove_invalid_utf8 (drop (v + k) s)
      | (v, None) \<Rightarrow> s)"
  by pat_completeness auto
termination
  by (relation "measure length") (auto dest!: utf8_check_bounds [OF sym])

declare remove_invalid_utf8.simps [simp del]

lemma clean_Nil [simp, code]: "remove_invalid_utf8 [] = []"
  by (subst remove_invalid_utf8.simps) simp

text \<open>One sequence at a time.\<close>

lemma clean_Cons [code]:
  "remove_invalid_utf8 (a # s) =
     (case utf8_front_of a s of
        Whole n \<Rightarrow> (a # take (n - 1) s) @ remove_invalid_utf8 (drop (n - 1) s)
      | Broken n \<Rightarrow> remove_invalid_utf8 (drop (n - 1) s)
      | Partial \<Rightarrow> a # s)"
proof (cases "utf8_front_of a s")
  case (Whole n)
  obtain v e where ve: "utf8_check (drop (n - 1) s) = (v, e)"
    by fastforce
  obtain m where n: "n = Suc m" "m \<le> length s"
    using front_bounds(1) [OF Whole] by (cases n) auto
  have check: "utf8_check (a # s) = (n + v, e)"
    using Whole ve by (simp add: utf8_check.simps(2))
  show ?thesis
    using Whole ve check n
    by (cases e) (simp_all add: remove_invalid_utf8.simps [of "a # s"] remove_invalid_utf8.simps [of "drop m s"]
        take_add add.commute add.left_commute)
next
  case (Broken n)
  then obtain m where "n = Suc m"
    using front_bounds(2) [OF Broken] by (cases n) auto
  then show ?thesis
    using Broken by (simp add: remove_invalid_utf8.simps [of "a # s"] utf8_check.simps(2))
next
  case Partial
  then show ?thesis
    by (simp add: remove_invalid_utf8.simps [of "a # s"] utf8_check.simps(2))
qed

text \<open>Where the first line ends and where the rest begins.\<close>

fun find_terminator :: "string \<Rightarrow> (nat \<times> nat) option" where
  "find_terminator [] = None"
| "find_terminator (c # s) =
     (if c = lf then Some (0, 1)
      else if c = cr then (case s of d # _ \<Rightarrow> if d = lf then Some (0, 2) else Some (0, 1) | [] \<Rightarrow> Some (0, 1))
      else map_option (map_prod Suc Suc) (find_terminator s))"

text \<open>The next line, with the buffer left; \<open>LineInvalid\<close> is the panic of \<open>expect\<close>.\<close>

datatype next_line = LineReady string | LinePending | LineTooLong | LineInvalid

definition take_next_line :: "string \<Rightarrow> next_line \<times> string" where
  "take_next_line buf =
     (case find_terminator buf of
        Some (e, t) \<Rightarrow>
          (if over_buffer e then (LineTooLong, drop t buf)
           else if utf8_valid (take e buf) then (LineReady (take e buf), drop t buf)
           else (LineInvalid, buf))
      | None \<Rightarrow> (if over_buffer (length buf) then (LineTooLong, []) else (LinePending, buf)))"

lemma find_terminator_bounds: "find_terminator s = Some (e, t) \<Longrightarrow> e < t \<and> t \<le> length s"
proof (induction s arbitrary: e t)
  case (Cons c s)
  consider "c = lf" | "c \<noteq> lf" "c = cr" | "c \<noteq> lf" "c \<noteq> cr"
    by blast
  then show ?case
  proof cases
    case 2
    then show ?thesis using Cons.prems by (cases s) (auto split: if_splits)
  next
    case 3
    then show ?thesis using Cons by auto
  qed (use Cons.prems in auto)
qed simp

lemma take_next_line_shrinks:
  "take_next_line b = (LineReady l, b') \<Longrightarrow> length b' < length b"
  "take_next_line b = (LineTooLong, b') \<Longrightarrow> length b' < length b"
  by (auto simp: take_next_line_def over_buffer_def split: option.splits if_splits dest!: find_terminator_bounds)

lemma apply_field_frame [simp]:
  "sp_buf (snd (apply_field f v p)) = sp_buf p" "sp_bom_seen (snd (apply_field f v p)) = sp_bom_seen p"
  by (simp_all add: apply_field_def Let_def split: option.split)

lemma process_line_frame [simp]:
  "sp_buf (snd (process_line l p)) = sp_buf p" "sp_bom_seen (snd (process_line l p)) = sp_bom_seen p"
  by (simp_all add: process_line_def Let_def split: prod.split option.split)

subsection \<open>Feeding\<close>

text \<open>The loop of \<open>feed\<close>; \<open>None\<close> is the panic.\<close>

function feed_loop :: "sse_parser \<Rightarrow> (sse_item list \<times> sse_parser) option" where
  "feed_loop p =
     (case take_next_line (sp_buf p) of
        (LineInvalid, b) \<Rightarrow> None
      | (LinePending, b) \<Rightarrow> Some ([], p\<lparr>sp_buf := b\<rparr>)
      | (LineReady l, b) \<Rightarrow>
          map_option (map_prod (append (fst (process_line l (p\<lparr>sp_buf := b\<rparr>)))) id)
            (feed_loop (snd (process_line l (p\<lparr>sp_buf := b\<rparr>))))
      | (LineTooLong, b) \<Rightarrow>
          map_option (map_prod (append (if sp_discard p then [] else [buffer_error])) id)
            (feed_loop (p\<lparr>sp_buf := b, sp_acc := acc_empty, sp_discard := True\<rparr>)))"
  by pat_completeness auto
termination
  by (relation "measure (length \<circ> sp_buf)") (simp_all add: take_next_line_shrinks [OF sym])

declare feed_loop.simps [simp del]

text \<open>Evaluation unfolds the loop on a given parser only.\<close>

lemma feed_loop_code [code]:
  "feed_loop \<lparr>sp_buf = b0, sp_acc = a, sp_bom_seen = m, sp_discard = d\<rparr> =
     (let p = \<lparr>sp_buf = b0, sp_acc = a, sp_bom_seen = m, sp_discard = d\<rparr> in
      case take_next_line b0 of
        (LineInvalid, b) \<Rightarrow> None
      | (LinePending, b) \<Rightarrow> Some ([], p\<lparr>sp_buf := b\<rparr>)
      | (LineReady l, b) \<Rightarrow>
          map_option (map_prod (append (fst (process_line l (p\<lparr>sp_buf := b\<rparr>)))) id)
            (feed_loop (snd (process_line l (p\<lparr>sp_buf := b\<rparr>))))
      | (LineTooLong, b) \<Rightarrow>
          map_option (map_prod (append (if sp_discard p then [] else [buffer_error])) id)
            (feed_loop (p\<lparr>sp_buf := b, sp_acc := acc_empty, sp_discard := True\<rparr>)))"
  by (subst feed_loop.simps) (simp add: Let_def)

definition feed :: "string \<Rightarrow> sse_parser \<Rightarrow> (sse_item list \<times> sse_parser) option" where
  "feed bytes p =
     (let p1 = strip_bom_once (p\<lparr>sp_buf := sp_buf p @ bytes\<rparr>)
      in feed_loop (p1\<lparr>sp_buf := remove_invalid_utf8 (sp_buf p1)\<rparr>))"

text \<open>A stream as it arrives: one \<open>feed\<close> per chunk.\<close>

fun feed_all :: "string list \<Rightarrow> sse_parser \<Rightarrow> (sse_item list \<times> sse_parser) option" where
  "feed_all [] p = Some ([], p)"
| "feed_all (c # cs) p =
     (case feed c p of
        None \<Rightarrow> None
      | Some (its, q) \<Rightarrow> map_option (map_prod (append its) id) (feed_all cs q))"

text \<open>The end of the stream: a last line without terminator, and what is gathered so far.\<close>

definition finish_stream :: "sse_parser \<Rightarrow> (sse_error, sse_event option) result" where
  "finish_stream p =
     (if sp_discard p then Inr None
      else if over_buffer (length (sp_buf p)) then Inl (BufferLimitExceeded max_buffer_bytes)
      else if sp_buf p \<noteq> [] \<and> utf8_valid (sp_buf p) \<and> strip_prefix bom (sp_buf p) \<noteq> []
      then (case process_line (strip_prefix bom (sp_buf p)) (p\<lparr>sp_buf := []\<rparr>) of
              (items, q) \<Rightarrow>
                (case filter (\<lambda>i. \<not> is_ok i) items of
                   Inl e # _ \<Rightarrow> Inl e
                 | _ \<Rightarrow> Inr (fst (dispatch (sp_acc q)))))
      else Inr (fst (dispatch (sp_acc p))))"

end
