(* ===== verification/SseProps.thy ===== *)
theory SseProps
  imports Sse
begin

text \<open>
  The parser of server-sent events over whole streams: it never panics and its memory is bounded, and
  what it reads does not depend on how the stream is cut into chunks, a cut inside CR LF aside.
\<close>

subsection \<open>Removing broken UTF-8\<close>

text \<open>Induction along the sequences of a stream.\<close>

lemma utf8_induct [case_names Nil Whole Broken Partial]:
  assumes "P []"
    and "\<And>a m s t. utf8_front_of a (s @ t) = Whole (Suc m) \<Longrightarrow> length s = m \<Longrightarrow> P t \<Longrightarrow> P (a # s @ t)"
    and "\<And>a m s t. utf8_front_of a (s @ t) = Broken (Suc m) \<Longrightarrow> length s = m \<Longrightarrow> P t \<Longrightarrow> P (a # s @ t)"
    and "\<And>a s. utf8_front_of a s = Partial \<Longrightarrow> P (a # s)"
  shows "P u"
proof (induction u rule: length_induct)
  case (1 u)
  show ?case
  proof (cases u)
    case (Cons a r)
    show ?thesis
    proof (cases "utf8_front_of a r")
      case (Whole n)
      then obtain m where m: "n = Suc m" "m \<le> length r"
        using front_bounds(1) [OF Whole] by (cases n) auto
      have "P (drop m r)"
        using 1 Cons by simp
      with assms(2) [of a "take m r" "drop m r" m] show ?thesis
        using Whole m Cons by simp
    next
      case (Broken n)
      then obtain m where m: "n = Suc m" "m \<le> length r"
        using front_bounds(2) [OF Broken] by (cases n) auto
      have "P (drop m r)"
        using 1 Cons by simp
      with assms(3) [of a "take m r" "drop m r" m] show ?thesis
        using Broken m Cons by simp
    next
      case Partial
      then show ?thesis using assms(4) Cons by simp
    qed
  qed (use assms(1) in simp)
qed

lemma front_exact: "utf8_front_of a (s @ t) = Whole (Suc (length s)) \<Longrightarrow> utf8_front_of a s = Whole (Suc (length s))"
  using front_take [of a "s @ t" "length s"] by simp

lemma clean_whole:
  "utf8_front_of a (s @ t) = Whole (Suc (length s)) \<Longrightarrow>
   remove_invalid_utf8 (a # s @ u) = a # s @ remove_invalid_utf8 u"
  using front_append [of a s u] front_exact [of a s t] by (simp add: clean_Cons)

lemma clean_broken:
  "utf8_front_of a (s @ t) = Broken (Suc (length s)) \<Longrightarrow>
   remove_invalid_utf8 (a # s @ t @ u) = remove_invalid_utf8 (t @ u)"
  using front_append [of a "s @ t" u] by (simp add: clean_Cons)



abbreviation ascii :: "char \<Rightarrow> bool" where
  "ascii \<equiv> byte_in 0 127"

text \<open>A buffer that was cleaned: valid UTF-8 and possibly the beginning of one more sequence.\<close>

definition unfinished :: "string \<Rightarrow> bool" where
  "unfinished s \<longleftrightarrow> s = [] \<or> utf8_front_of (hd s) (tl s) = Partial"

definition tidy :: "string \<Rightarrow> bool" where
  "tidy s \<longleftrightarrow> (\<exists>x p. s = x @ p \<and> utf8_valid x \<and> unfinished p)"

lemma unfinished_no_ascii: "unfinished p \<Longrightarrow> c \<in> set p \<Longrightarrow> \<not> ascii c"
  using front_partial_ascii_free [of "hd p" "tl p"] by (cases p) (auto simp: unfinished_def)


lemma tidy_clean: "tidy (remove_invalid_utf8 s)"
proof (induction s rule: utf8_induct)
  case Nil
  then show ?case by (auto simp: tidy_def unfinished_def)
next
  case (Whole a m s t)
  then obtain x p where xp: "remove_invalid_utf8 t = x @ p" "utf8_valid x" "unfinished p"
    by (auto simp: tidy_def)
  have "utf8_valid ((a # s) @ x)"
    using Whole front_exact [of a s t] xp(2)
    by (intro utf8_valid_append) (simp_all add: utf8_valid_def utf8_check.simps(2))
  then show ?case
    using Whole clean_whole [of a s t t] xp unfolding tidy_def by (metis append.assoc append_Cons)
next
  case (Broken a m s t)
  then show ?case
    using clean_broken [of a s t "[]"] by simp
next
  case (Partial a s)
  then show ?case
    by (auto simp: tidy_def clean_Cons unfinished_def intro: exI [of _ "[]"])
qed

text \<open>A valid string is valid on both sides of an ASCII byte.\<close>

lemma utf8_valid_cut: "utf8_valid (u @ c # v) \<Longrightarrow> ascii c \<Longrightarrow> utf8_valid u \<and> utf8_valid (c # v) \<and> utf8_valid v"
proof (induction "length u" arbitrary: u rule: less_induct)
  case less
  show ?case
  proof (cases u)
    case Nil
    then show ?thesis using less.prems by (simp add: utf8_valid_ascii)
  next
    case (Cons a r)
    obtain n where n: "utf8_front_of a (r @ c # v) = Whole n"
      using less.prems(1) Cons by (cases "utf8_front_of a (r @ c # v)") (auto simp: utf8_valid_def utf8_check.simps(2))
    then obtain m where m: "n = Suc m"
      using front_bounds(1) [OF n] by (cases n) auto
    have short: "m \<le> length r"
    proof (rule ccontr)
      assume "\<not> m \<le> length r"
      then have "c \<in> set (a # take (n - 1) (r @ c # v))" and "n \<noteq> 1"
        using m by (auto simp: take_Cons' split: if_splits)
      then show False
        using front_whole_ascii_free [OF n] less.prems(2) by blast
    qed
    have front: "utf8_front_of a (take m r) = Whole n"
      using front_take [of a "r @ c # v" m] n m short by simp
    then have whole: "utf8_valid (a # take m r)"
      using m short by (simp add: utf8_valid_def utf8_check.simps(2))
    have split: "u = (a # take m r) @ drop m r"
      using Cons by simp
    have "u @ c # v = (a # take m r) @ drop m r @ c # v"
      by (subst split) (simp only: append_assoc)
    then have "utf8_valid (drop m r @ c # v)"
      using less.prems(1) utf8_valid_append_iff [OF whole, of "drop m r @ c # v"] by (simp only:)
    then show ?thesis
      using less.hyps [of "drop m r"] less.prems(2) utf8_valid_append [OF whole, of "drop m r"] split Cons by simp
  qed
qed

lemma tidy_cut:
  assumes "tidy (u @ c # v)" and "ascii c"
  shows "utf8_valid u \<and> tidy v"
proof -
  obtain x p where xp: "u @ c # v = x @ p" "utf8_valid x" "unfinished p"
    using assms(1) by (auto simp: tidy_def)
  obtain w where w: "x = u @ c # w" "v = w @ p"
    using xp(1) unfinished_no_ascii [OF xp(3), of c] assms(2)
    by (auto simp: append_eq_append_conv2 Cons_eq_append_conv)
  then show ?thesis
    using utf8_valid_cut [of u c w] xp(2,3) assms(2) by (auto simp: tidy_def)
qed

subsection \<open>No panic, bounded memory\<close>

definition text_ok :: "string \<Rightarrow> bool" where
  "text_ok s \<longleftrightarrow> utf8_valid s \<and> length s \<le> max_buffer_bytes"

definition acc_ok :: "event_accumulator \<Rightarrow> bool" where
  "acc_ok a \<longleftrightarrow> text_ok (ac_data a) \<and> pred_option text_ok (ac_event a) \<and> pred_option text_ok (ac_id a)"

definition item_ok :: "sse_item \<Rightarrow> bool" where
  "item_ok i \<longleftrightarrow> (case i of Inl e \<Rightarrow> e = BufferLimitExceeded max_buffer_bytes
     | Inr e \<Rightarrow> text_ok (se_data e) \<and> pred_option text_ok (se_event e) \<and> pred_option text_ok (se_id e))"

lemma acc_ok_empty [simp]: "acc_ok acc_empty"
  by (simp add: acc_ok_def acc_empty_def text_ok_def)

lemma text_ok_suffix: "text_ok (x @ y) \<Longrightarrow> utf8_valid x \<Longrightarrow> text_ok y"
  by (auto simp: text_ok_def utf8_valid_append_iff)

lemma text_ok_strip: "text_ok s \<Longrightarrow> utf8_valid p \<Longrightarrow> text_ok (strip_prefix p s)"
  using text_ok_suffix [of p "drop (length p) s"] by (auto simp: strip_prefix_def) (metis append_take_drop_id)

lemma utf8_valid_literals: "utf8_valid bom" "utf8_valid '' ''" "utf8_valid ''message''" "ascii (CHR '':'')" "ascii lf" "ascii cr"
  by code_simp+

lemma utf8_valid_lf: "utf8_valid (s @ [lf]) \<longleftrightarrow> utf8_valid s"
  using utf8_valid_cut [of s lf "[]"] utf8_valid_append_iff [of s "[lf]"] utf8_valid_literals
  by (auto simp: utf8_valid_ascii)

lemma text_ok_trim:
  assumes "text_ok s"
  shows "text_ok (trim_last_lf s)"
proof (cases "s \<noteq> [] \<and> last s = lf")
  case True
  then have "s = butlast s @ [lf]"
    using append_butlast_last_id [of s] by simp
  then have "utf8_valid (butlast s)"
    using assms utf8_valid_lf [of "butlast s"] by (simp add: text_ok_def)
  then show ?thesis
    using assms by (auto simp: trim_last_lf_def text_ok_def)
qed (use assms in \<open>auto simp: trim_last_lf_def\<close>)

lemma split_field_ok:
  assumes "text_ok l" and "split_field l = (f, v)"
  shows "text_ok f \<and> text_ok v"
proof (cases "dropWhile (\<lambda>c. c \<noteq> CHR '':'') l")
  case Nil
  then have "f = l \<and> v = []"
    using assms(2) unfolding split_field_def Nil by simp
  then show ?thesis using assms(1) by (simp add: text_ok_def)
next
  case (Cons c val)
  then have "c = CHR '':''"
    using hd_dropWhile [of "\<lambda>c. c \<noteq> CHR '':''" l] by simp
  then have l: "l = takeWhile (\<lambda>c. c \<noteq> CHR '':'') l @ CHR '':'' # val"
    using Cons takeWhile_dropWhile_id [of "\<lambda>c. c \<noteq> CHR '':''" l] by simp
  have valid: "utf8_valid (takeWhile (\<lambda>c. c \<noteq> CHR '':'') l)" "utf8_valid val"
    using utf8_valid_cut [of _ "CHR '':''" val] assms(1) utf8_valid_literals(4) unfolding text_ok_def
    by (metis l)+
  have "length (takeWhile (\<lambda>c. c \<noteq> CHR '':'') l) + length val < length l"
    by (subst (2) l) simp
  then have "text_ok (takeWhile (\<lambda>c. c \<noteq> CHR '':'') l)" "text_ok val"
    using valid assms(1) by (auto simp: text_ok_def)
  then show ?thesis
    using assms(2) Cons text_ok_strip [OF _ utf8_valid_literals(2), of val] by (auto simp: split_field_def)
qed

lemma sat_room: "\<not> over_buffer (sat_add (sat_add a b) 1) \<Longrightarrow> a + b + 1 \<le> max_buffer_bytes"
  by (auto simp: over_buffer_def sat_add_def max_buffer_bytes_def u64_max_def)

lemma apply_field_ok:
  assumes "text_ok v" and "acc_ok (sp_acc p)"
  shows "list_all item_ok (fst (apply_field f v p)) \<and> acc_ok (sp_acc (snd (apply_field f v p)))"
proof -
  let ?a = "sp_acc p"
  have "acc_ok (?a\<lparr>ac_data := ac_data ?a @ v @ [lf]\<rparr>)"
    if "\<not> over_buffer (sat_add (sat_add (length (ac_data ?a)) (length v)) 1)"
    using sat_room [OF that] assms utf8_valid_append [of "ac_data ?a @ v" "[lf]"] utf8_valid_append [of "ac_data ?a" v]
      utf8_valid_literals by (auto simp: acc_ok_def text_ok_def utf8_valid_ascii)
  then show ?thesis
    using assms by (auto simp: apply_field_def Let_def acc_ok_def item_ok_def buffer_error_def acc_empty_def text_ok_def
        split: option.split)
qed

lemma dispatch_ok:
  "acc_ok a \<Longrightarrow> dispatch a = (e, a') \<Longrightarrow> acc_ok a' \<and> (\<forall>x. e = Some x \<longrightarrow> item_ok (Inr x))"
  using text_ok_trim [of "ac_data a"] utf8_valid_literals(3)
  by (auto simp: dispatch_def acc_ok_def item_ok_def acc_empty_def text_ok_def max_buffer_bytes_def split: if_splits option.splits)

lemma process_line_ok:
  assumes "text_ok l" and "acc_ok (sp_acc p)"
  shows "list_all item_ok (fst (process_line l p)) \<and> acc_ok (sp_acc (snd (process_line l p)))"
proof -
  obtain e a where d: "dispatch (sp_acc p) = (e, a)"
    by fastforce
  obtain f v where f: "split_field (strip_prefix bom l) = (f, v)"
    by fastforce
  have "text_ok v"
    using split_field_ok [OF text_ok_strip [OF assms(1) utf8_valid_literals(1)] f] by blast
  from apply_field_ok [OF this assms(2), of f] dispatch_ok [OF assms(2) d] show ?thesis
    using assms(2) d f by (auto simp: process_line_def Let_def split: option.split)
qed

lemma find_terminator_at:
  "find_terminator b = Some (e, t) \<Longrightarrow> \<exists>c v. b = take e b @ c # v \<and> ascii c
     \<and> (drop t b = v \<or> (\<exists>w. v = lf # w \<and> drop t b = w))"
proof (induction b arbitrary: e t)
  case (Cons c s)
  consider "c = lf" | "c \<noteq> lf" "c = cr" | "c \<noteq> lf" "c \<noteq> cr"
    by blast
  then show ?case
  proof cases
    case 2
    then show ?thesis
      using Cons.prems utf8_valid_literals(6) by (cases s) (auto split: if_splits)
  next
    case 3
    then obtain e' t' where "find_terminator s = Some (e', t')" "e = Suc e'" "t = Suc t'"
      using Cons.prems by auto
    then show ?thesis
      using Cons.IH by fastforce
  qed (use Cons.prems utf8_valid_literals(5) in auto)
qed simp

lemma find_terminator_tidy:
  assumes "tidy b" and "find_terminator b = Some (e, t)"
  shows "utf8_valid (take e b) \<and> tidy (drop t b)"
proof -
  obtain c v where cv: "b = take e b @ c # v" "ascii c" "drop t b = v \<or> (\<exists>w. v = lf # w \<and> drop t b = w)"
    using find_terminator_at [OF assms(2)] by blast
  have cut: "utf8_valid (take e b) \<and> tidy v"
    using tidy_cut [of "take e b" c v] assms(1) cv by simp
  then show ?thesis
    using cv(3) tidy_cut [of "[]" lf] utf8_valid_literals(5) by auto
qed

lemma tidy_Nil [simp]: "tidy []"
  by (simp add: tidy_def unfinished_def)

lemma feed_loop_ok:
  assumes "tidy (sp_buf p)" and "acc_ok (sp_acc p)"
  shows "\<exists>items q. feed_loop p = Some (items, q) \<and> list_all item_ok items \<and> acc_ok (sp_acc q)
    \<and> tidy (sp_buf q) \<and> length (sp_buf q) \<le> max_buffer_bytes \<and> sp_bom_seen q = sp_bom_seen p"
  using assms
proof (induction p rule: feed_loop.induct)
  case (1 p)
  note next_line = take_next_line_def [of "sp_buf p"]
  show ?case
  proof (cases "find_terminator (sp_buf p)")
    case None
    show ?thesis
    proof (cases "over_buffer (length (sp_buf p))")
      case True
      let ?p = "p\<lparr>sp_buf := [], sp_acc := acc_empty, sp_discard := True\<rparr>"
      have n: "take_next_line (sp_buf p) = (LineTooLong, [])"
        using None True by (simp add: next_line)
      from "1.IH"(2) [OF n [symmetric]] obtain items q where "feed_loop ?p = Some (items, q)" "list_all item_ok items"
        "acc_ok (sp_acc q)" "tidy (sp_buf q)" "length (sp_buf q) \<le> max_buffer_bytes" "sp_bom_seen q = sp_bom_seen p"
        by auto
      then show ?thesis
        by (subst feed_loop.simps) (auto simp: n item_ok_def buffer_error_def)
    next
      case False
      then show ?thesis
        using None "1.prems" by (subst feed_loop.simps) (auto simp: next_line over_buffer_def)
    qed
  next
    case (Some et)
    obtain e t where et: "find_terminator (sp_buf p) = Some (e, t)"
      using Some by (cases et) auto
    have tidy: "utf8_valid (take e (sp_buf p))" "tidy (drop t (sp_buf p))"
      using find_terminator_tidy [OF "1.prems"(1) et] by auto
    show ?thesis
    proof (cases "over_buffer e")
      case True
      let ?p = "p\<lparr>sp_buf := drop t (sp_buf p), sp_acc := acc_empty, sp_discard := True\<rparr>"
      have n: "take_next_line (sp_buf p) = (LineTooLong, drop t (sp_buf p))"
        using et True by (simp add: next_line)
      from "1.IH"(2) [OF n [symmetric]] tidy(2) obtain items q where "feed_loop ?p = Some (items, q)" "list_all item_ok items"
        "acc_ok (sp_acc q)" "tidy (sp_buf q)" "length (sp_buf q) \<le> max_buffer_bytes" "sp_bom_seen q = sp_bom_seen p"
        by auto
      then show ?thesis
        by (subst feed_loop.simps) (auto simp: n item_ok_def buffer_error_def)
    next
      case False
      let ?l = "take e (sp_buf p)" and ?p = "p\<lparr>sp_buf := drop t (sp_buf p)\<rparr>"
      have n: "take_next_line (sp_buf p) = (LineReady ?l, drop t (sp_buf p))"
        using et False tidy by (simp add: next_line)
      have ok: "list_all item_ok (fst (process_line ?l ?p)) \<and> acc_ok (sp_acc (snd (process_line ?l ?p)))"
        using process_line_ok [of ?l ?p] tidy False "1.prems" by (auto simp: text_ok_def over_buffer_def)
      from "1.IH"(1) [OF n [symmetric]] tidy(2) ok obtain items q where
        "feed_loop (snd (process_line ?l ?p)) = Some (items, q)" "list_all item_ok items" "acc_ok (sp_acc q)"
        "tidy (sp_buf q)" "length (sp_buf q) \<le> max_buffer_bytes" "sp_bom_seen q = sp_bom_seen p"
        by auto
      then show ?thesis
        using ok by (subst feed_loop.simps) (auto simp: n)
    qed
  qed
qed

lemma feed_ok:
  assumes "acc_ok (sp_acc p)"
  shows "\<exists>items q. feed b p = Some (items, q) \<and> list_all item_ok items \<and> acc_ok (sp_acc q)
    \<and> length (sp_buf q) \<le> max_buffer_bytes \<and> sp_bom_seen q"
proof -
  let ?p = "strip_bom_once (p\<lparr>sp_buf := sp_buf p @ b\<rparr>)"
  have "sp_bom_seen ?p" "acc_ok (sp_acc ?p)"
    using assms by (simp_all add: strip_bom_once_def)
  then show ?thesis
    using feed_loop_ok [of "?p\<lparr>sp_buf := remove_invalid_utf8 (sp_buf ?p)\<rparr>"] tidy_clean
    by (auto simp: feed_def Let_def)
qed

lemma feed_all_ok:
  assumes "acc_ok (sp_acc p)" and "length (sp_buf p) \<le> max_buffer_bytes"
  shows "\<exists>items q. feed_all chunks p = Some (items, q) \<and> list_all item_ok items \<and> acc_ok (sp_acc q)
    \<and> length (sp_buf q) \<le> max_buffer_bytes"
  using assms
proof (induction chunks arbitrary: p)
  case (Cons c cs)
  obtain its q where q: "feed c p = Some (its, q)" "list_all item_ok its" "acc_ok (sp_acc q)"
    "length (sp_buf q) \<le> max_buffer_bytes"
    using feed_ok [OF Cons.prems(1), of c] by blast
  then show ?case
    using Cons.IH [OF q(3,4)] by auto
qed simp

text \<open>
  C14: Whatever bytes arrive in whatever chunks, the parser neither panics nor hangs, and its memory is
  bounded: after every chunk the buffer, the data gathered and every other field hold at most a mebibyte,
  and every item it reports is the limit error or an event whose fields are valid UTF-8 within that bound.
\<close>

theorem feeding_never_panics_and_stays_bounded:
  "\<exists>items q. feed_all chunks sse_new = Some (items, q) \<and> list_all item_ok items
    \<and> length (sp_buf q) \<le> max_buffer_bytes \<and> length (ac_data (sp_acc q)) \<le> max_buffer_bytes
    \<and> pred_option text_ok (ac_event (sp_acc q)) \<and> pred_option text_ok (ac_id (sp_acc q))"
proof -
  obtain items q where "feed_all chunks sse_new = Some (items, q)" "list_all item_ok items" "acc_ok (sp_acc q)"
    "length (sp_buf q) \<le> max_buffer_bytes"
    using feed_all_ok [of sse_new chunks] by (auto simp: sse_new_def)
  then show ?thesis
    by (auto simp: acc_ok_def text_ok_def)
qed

subsection \<open>The lines of a stream\<close>

text \<open>The lines a byte string is made of; the last one is not terminated.\<close>

fun sse_lines :: "string \<Rightarrow> string list" where
  "sse_lines [] = [[]]"
| "sse_lines (c # s) =
     (if c = cr \<and> s \<noteq> [] \<and> hd s = lf then [] # sse_lines (tl s)
      else if c = lf \<or> c = cr then [] # sse_lines s
      else (c # hd (sse_lines s)) # tl (sse_lines s))"

declare sse_lines.simps(2) [simp del]

lemma lf_cr [simp]: "lf \<noteq> cr" "cr \<noteq> lf"
  by (simp_all add: lf_def cr_def)

lemma sse_lines_not_Nil [simp]: "sse_lines s \<noteq> []"
  by (cases s) (auto simp: sse_lines.simps(2))















subsection \<open>Chunks\<close>




























text \<open>
  A cut between carriage return and line feed is not the same stream: the carriage return ends the line, and the
  line feed of the next chunk is taken for an empty line, which dispatches the event early.
\<close>

lemma split_crlf_ends_the_event:
  "map_option (map (map_sum id se_data) \<circ> fst) (feed_all [''data: a'' @ [cr, lf] @ ''data: b'' @ [cr, lf, cr, lf]] sse_new)
     = Some [Inr (''a'' @ [lf] @ ''b'')]"
  "map_option (map (map_sum id se_data) \<circ> fst) (feed_all [''data: a'' @ [cr], [lf] @ ''data: b'' @ [cr, lf, cr, lf]] sse_new)
     = Some [Inr ''a'', Inr ''b'']"
  by code_simp+

subsection \<open>Written events\<close>
















lemma trim_written [simp]: "trim_last_lf (d @ [lf]) = d"
  by (simp add: trim_last_lf_def)














end
