(* ===== verification/QuotaDomain.thy ===== *)
theory QuotaDomain
  imports UsageLedger
begin

text \<open>
  The quota domain of \<open>crates/control-plane/src/quota\<close> (\<open>domain.rs\<close>, \<open>error.rs\<close>, \<open>adapter.rs\<close> and
  \<open>util.rs\<close>): scopes, windows, units, measures, snapshots with their provenance, and the errors.
\<close>

subsection \<open>64-bit operations with an outcome\<close>

definition checked_add :: "u64 \<Rightarrow> u64 \<Rightarrow> u64 option" where
  "checked_add a b = (if unat a + unat b \<le> u64_max then Some (a + b) else None)"

definition saturating_add :: "u64 \<Rightarrow> u64 \<Rightarrow> u64" where
  "saturating_add a b = (if unat a + unat b \<le> u64_max then a + b else - 1)"

definition saturating_sub :: "u64 \<Rightarrow> u64 \<Rightarrow> u64" where
  "saturating_sub a b = (if b \<le> a then a - b else 0)"

lemma unat_add_u64: "unat a + unat b \<le> u64_max \<Longrightarrow> unat (a + b :: u64) = unat a + unat b"
  by (simp add: unat_plus_if' u64_max_def)

lemma unat_max_u64: "unat (- 1 :: u64) = u64_max"
  by (simp add: unsigned_minus_1_eq_mask mask_eq_exp_minus_1 u64_max_word)

lemma unat_saturating_add: "unat (saturating_add a b) = sat_add (unat a) (unat b)"
  by (simp add: saturating_add_def unat_add_u64 unat_max_u64 sat_add_def)

lemma unat_saturating_sub: "unat (saturating_sub a b) = unat a - unat b"
  by (simp add: saturating_sub_def unat_sub_if_size word_le_nat_alt)

lemma checked_add_Some: "checked_add a b = Some c \<longleftrightarrow> unat a + unat b \<le> u64_max \<and> unat c = unat a + unat b"
  by (auto simp: checked_add_def unat_add_u64 word_unat_eq_iff)

lemma checked_add_None: "checked_add a b = None \<longleftrightarrow> u64_max < unat a + unat b"
  by (auto simp: checked_add_def)

subsection \<open>Scopes, windows, units and measures\<close>

record quota_scope =
  qs_tenant :: string
  qs_account :: string
  qs_credential :: "string option"
  qs_provider :: string
  qs_model :: "string option"

datatype quota_window = Overall | Rolling5h | Weekly | Monthly

datatype quota_unit = UnitCount | UnitToken | UnitPercent | UnitCost string

datatype quota_measure = MExact u64 | MInfinite | MUnknown

fun exact_value :: "quota_measure \<Rightarrow> u64 option" where
  "exact_value (MExact v) = Some v"
| "exact_value _ = None"

record quota_values =
  qv_used :: quota_measure
  qv_limit :: quota_measure
  qv_remaining :: quota_measure

datatype confidence = ConfExact | ConfDerived | ConfScraped

fun confidence_priority :: "confidence \<Rightarrow> nat" where
  "confidence_priority ConfExact = 3"
| "confidence_priority ConfDerived = 2"
| "confidence_priority ConfScraped = 1"

datatype quota_reset = ResetAbsolute u64 bool | ResetRelative u64 u64 bool | ResetUnknown

datatype adapter_kind = ApiKeyApi | OAuthApi | WebScrape | LocalLedger

subsection \<open>Snapshots\<close>

record quota_provenance =
  qp_kind :: adapter_kind
  qp_source :: string
  qp_endpoint :: "string option"
  qp_fetched_at :: u64
  qp_observed_at :: "u64 option"
  qp_selector :: "string option"
  qp_stale :: bool

definition provenance_new :: "adapter_kind \<Rightarrow> string \<Rightarrow> u64 \<Rightarrow> quota_provenance" where
  "provenance_new k src at = \<lparr>qp_kind = k, qp_source = src, qp_endpoint = None, qp_fetched_at = at,
     qp_observed_at = None, qp_selector = None, qp_stale = False\<rparr>"

record quota_request =
  qr_scope :: quota_scope
  qr_window :: quota_window
  qr_unit :: quota_unit

record quota_snapshot =
  sn_scope :: quota_scope
  sn_window :: quota_window
  sn_unit :: quota_unit
  sn_values :: quota_values
  sn_reset :: quota_reset
  sn_confidence :: confidence
  sn_provenance :: quota_provenance

subsection \<open>Endpoints without query and fragment\<close>

definition canonical_endpoint :: "string \<Rightarrow> string option" where
  "canonical_endpoint raw =
     (let cleaned = trim (takeWhile (\<lambda>c. c \<noteq> CHR ''?'' \<and> c \<noteq> CHR ''#'') (trim raw))
      in if cleaned = [] then None else Some cleaned)"

definition with_endpoint :: "string \<Rightarrow> quota_provenance \<Rightarrow> quota_provenance" where
  "with_endpoint raw p = p\<lparr>qp_endpoint := canonical_endpoint raw\<rparr>"

subsection \<open>Errors\<close>

datatype quota_error =
    QUnsupported string
  | QUnauthorized string
  | QForbidden string
  | QRateLimited string "u64 option"
  | QReauthorization string
  | QTimeout string "16 word option" "u64 option"
  | QTransient string "16 word option" "u64 option"
  | QParse string
  | QCancelled
  | QOther string

fun quota_retryable :: "quota_error \<Rightarrow> bool" where
  "quota_retryable (QTimeout _ _ _) = True"
| "quota_retryable (QTransient _ _ _) = True"
| "quota_retryable (QRateLimited _ _) = True"
| "quota_retryable _ = False"

fun quota_retry_after :: "quota_error \<Rightarrow> u64 option" where
  "quota_retry_after (QRateLimited _ ms) = ms"
| "quota_retry_after (QTransient _ _ ms) = ms"
| "quota_retry_after _ = None"

definition validate_scope :: "quota_scope \<Rightarrow> (quota_error, unit) result" where
  "validate_scope s =
     (if is_blank (qs_tenant s) then Inl (QUnsupported ''quota scope tenant_id must not be empty'')
      else if is_blank (qs_account s) then Inl (QUnsupported ''quota scope account_id must not be empty'')
      else if is_blank (qs_provider s) then Inl (QUnsupported ''quota scope provider_id must not be empty'')
      else Inr ())"

text \<open>Cleaned endpoints carry no query and no fragment.\<close>

lemma endpoint_has_no_query:
  assumes "canonical_endpoint raw = Some e"
  shows "e \<noteq> [] \<and> CHR ''?'' \<notin> set e \<and> CHR ''#'' \<notin> set e \<and> set e \<subseteq> set raw"
proof -
  let ?cut = "takeWhile (\<lambda>c. c \<noteq> CHR ''?'' \<and> c \<noteq> CHR ''#'') (trim raw)"
  have e: "e = trim ?cut" "e \<noteq> []"
    using assms by (auto simp: canonical_endpoint_def Let_def split: if_splits)
  have "set e \<subseteq> set ?cut"
    using set_trim [of ?cut] e(1) by simp
  moreover have "CHR ''?'' \<notin> set ?cut" "CHR ''#'' \<notin> set ?cut"
    by (auto dest: set_takeWhileD)
  moreover have "set ?cut \<subseteq> set raw"
    using set_trim [of raw] by (auto dest: set_takeWhileD)
  ultimately show ?thesis
    using e(2) by blast
qed

end
