(* ===== verification/QuotaLedger.thy ===== *)
theory QuotaLedger
  imports QuotaDomain
begin

text \<open>
  The adapter that derives quotas from the usage ledger, \<open>crates/control-plane/src/quota/ledger.rs\<close>:
  usage in a window, the budget cap, and the overlay of local usage on a remote baseline. The ledger is
  any query function; the clock's answer and what the cancellation token says at each check are arguments.
\<close>

type_synonym ledger_reader = "usage_query \<Rightarrow> (string, usage_record list) result"

text \<open>The budget cap: \<open>None\<close> is \<open>BudgetCap::none\<close>.\<close>

type_synonym budget_cap = "quota_measure option"

subsection \<open>Windows\<close>

fun window_length_ms :: "quota_window \<Rightarrow> u64 option" where
  "window_length_ms Overall = None"
| "window_length_ms Rolling5h = Some (5 * 60 * 60 * 1000)"
| "window_length_ms Weekly = Some (7 * 24 * 60 * 60 * 1000)"
| "window_length_ms Monthly = Some (30 * 24 * 60 * 60 * 1000)"

definition window_start_ms :: "quota_window \<Rightarrow> u64 \<Rightarrow> u64" where
  "window_start_ms w now = (case window_length_ms w of Some len \<Rightarrow> saturating_sub now len | None \<Rightarrow> 0)"

definition window_reset :: "quota_window \<Rightarrow> u64 \<Rightarrow> quota_reset" where
  "window_reset w now =
     (case window_length_ms w of Some len \<Rightarrow> ResetRelative (len div 1000) now True | None \<Rightarrow> ResetUnknown)"

definition scope_query :: "quota_scope \<Rightarrow> u64 \<Rightarrow> u64 option \<Rightarrow> usage_query" where
  "scope_query s start end_ms = usage_query_all\<lparr>uq_tenant := Some (qs_tenant s), uq_account := Some (qs_account s),
     uq_credential := qs_credential s, uq_provider := Some (qs_provider s), uq_model := qs_model s,
     uq_start := Some start, uq_end := end_ms\<rparr>"

definition build_query :: "quota_request \<Rightarrow> u64 \<Rightarrow> u64 option \<Rightarrow> usage_query" where
  "build_query rq start end_ms = scope_query (qr_scope rq) start end_ms"

subsection \<open>Deriving a quota\<close>

definition record_tokens_sat :: "usage_record \<Rightarrow> u64" where
  "record_tokens_sat r =
     saturating_add (saturating_add (saturating_add (ur_input r) (ur_output r)) (ur_cache_read r)) (ur_cache_write r)"

definition sum_sat :: "u64 list \<Rightarrow> u64" where
  "sum_sat vs = foldl saturating_add 0 vs"

definition in_currency :: "string \<Rightarrow> usage_record \<Rightarrow> bool" where
  "in_currency c r \<longleftrightarrow> eq_ignore_case (ur_currency r) c"

fun used_measure :: "quota_unit \<Rightarrow> usage_record list \<Rightarrow> (quota_error, quota_measure) result" where
  "used_measure UnitPercent rs = Inl (QUnsupported ''local ledger cannot derive percentage quotas'')"
| "used_measure UnitCount rs =
     (if length rs \<le> u64_max then Inr (MExact (of_nat (length rs)))
      else Inl (QParse ''ledger record count exceeds canonical u64 range''))"
| "used_measure UnitToken rs = Inr (MExact (sum_sat (map record_tokens_sat rs)))"
| "used_measure (UnitCost c) rs = Inr (MExact (sum_sat (map ur_cost (filter (in_currency c) rs))))"

fun remaining_measure :: "quota_measure \<Rightarrow> quota_measure \<Rightarrow> quota_measure" where
  "remaining_measure MInfinite _ = MInfinite"
| "remaining_measure MUnknown _ = MUnknown"
| "remaining_measure (MExact l) (MExact u) = MExact (saturating_sub l u)"
| "remaining_measure (MExact _) _ = MUnknown"

definition ledger_supports :: "quota_request \<Rightarrow> bool" where
  "ledger_supports rq \<longleftrightarrow> qr_unit rq \<noteq> UnitPercent"

definition ledger_fetch ::
  "budget_cap \<Rightarrow> ledger_reader \<Rightarrow> u64 \<Rightarrow> bool \<Rightarrow> bool \<Rightarrow> quota_request \<Rightarrow> (quota_error, quota_snapshot) result" where
  "ledger_fetch cap query now cancelled_before cancelled_after rq =
     (if cancelled_before then Inl QCancelled
      else if qr_unit rq = UnitPercent then Inl (QUnsupported ''local ledger cannot derive percentage quotas'')
      else case query (build_query rq (window_start_ms (qr_window rq) now) (checked_add now 1)) of
        Inl e \<Rightarrow> Inl (QOther (''ledger fetch query failed: '' @ e))
      | Inr rs \<Rightarrow>
          (if cancelled_after then Inl QCancelled
           else case used_measure (qr_unit rq) rs of
             Inl e \<Rightarrow> Inl e
           | Inr used \<Rightarrow>
               (let limit = (case cap of Some l \<Rightarrow> l | None \<Rightarrow> MInfinite) in
                Inr \<lparr>sn_scope = qr_scope rq, sn_window = qr_window rq, sn_unit = qr_unit rq,
                     sn_values = \<lparr>qv_used = used, qv_limit = limit, qv_remaining = remaining_measure limit used\<rparr>,
                     sn_reset = window_reset (qr_window rq) now, sn_confidence = ConfDerived,
                     sn_provenance = provenance_new LocalLedger ''usage-ledger'' now\<rparr>)))"

subsection \<open>Overlaying local usage on a remote baseline\<close>

fun sum_checked :: "string \<Rightarrow> u64 list \<Rightarrow> u64 \<Rightarrow> (quota_error, u64) result" where
  "sum_checked msg [] acc = Inr acc"
| "sum_checked msg (v # vs) acc =
     (case checked_add acc v of None \<Rightarrow> Inl (QParse msg) | Some acc' \<Rightarrow> sum_checked msg vs acc')"

definition record_tokens :: "usage_record \<Rightarrow> (quota_error, u64) result" where
  "record_tokens r = sum_checked ''reconcile token overflow: record token sum exceeds u64''
     [ur_input r, ur_output r, ur_cache_read r, ur_cache_write r] 0"

fun delta_tokens :: "usage_record list \<Rightarrow> u64 \<Rightarrow> (quota_error, u64) result" where
  "delta_tokens [] acc = Inr acc"
| "delta_tokens (r # rs) acc =
     (case record_tokens r of
        Inl e \<Rightarrow> Inl e
      | Inr t \<Rightarrow>
          (case checked_add acc t of
             None \<Rightarrow> Inl (QParse ''reconcile token overflow: delta exceeds u64'')
           | Some acc' \<Rightarrow> delta_tokens rs acc'))"

fun delta_of :: "quota_unit \<Rightarrow> usage_record list \<Rightarrow> (quota_error, u64) result" where
  "delta_of UnitPercent rs = Inl (QUnsupported ''local ledger cannot reconcile percentage quotas'')"
| "delta_of UnitCount rs = Inr (of_nat (length rs))"
| "delta_of UnitToken rs = delta_tokens rs 0"
| "delta_of (UnitCost c) rs =
     sum_checked ''reconcile cost overflow: delta exceeds u64'' (map ur_cost (filter (in_currency c) rs)) 0"

definition delta_since_fetch :: "ledger_reader \<Rightarrow> quota_snapshot \<Rightarrow> u64 \<Rightarrow> (quota_error, u64) result" where
  "delta_since_fetch query remote now =
     (let start = max (window_start_ms (sn_window remote) now) (saturating_add (qp_fetched_at (sn_provenance remote)) 1) in
      case query (scope_query (sn_scope remote) start (Some now)) of
        Inl e \<Rightarrow> Inl (QOther (''ledger delta query failed: '' @ e))
      | Inr rs \<Rightarrow> delta_of (sn_unit remote) rs)"

definition overlay_values :: "quota_values \<Rightarrow> u64 \<Rightarrow> (quota_error, quota_values) result" where
  "overlay_values v delta =
     (let remaining = (case qv_remaining v of MExact x \<Rightarrow> MExact (saturating_sub x delta) | other \<Rightarrow> other) in
      case qv_used v of
        MExact x \<Rightarrow>
          (case checked_add x delta of
             None \<Rightarrow> Inl (QParse ''reconcile overflow: used exceeds u64'')
           | Some y \<Rightarrow> Inr (v\<lparr>qv_used := MExact y, qv_remaining := remaining\<rparr>))
      | _ \<Rightarrow> Inr (v\<lparr>qv_remaining := remaining\<rparr>))"

definition overlay_provenance :: "quota_provenance \<Rightarrow> u64 \<Rightarrow> quota_provenance" where
  "overlay_provenance p now = \<lparr>qp_kind = LocalLedger, qp_source = ''remote:'' @ qp_source p @ '' + usage-ledger'',
     qp_endpoint = qp_endpoint p, qp_fetched_at = now, qp_observed_at = Some (qp_fetched_at p),
     qp_selector = None, qp_stale = qp_stale p\<rparr>"

definition reconcile ::
  "ledger_reader \<Rightarrow> u64 \<Rightarrow> bool \<Rightarrow> bool \<Rightarrow> quota_snapshot \<Rightarrow> (quota_error, quota_snapshot) result" where
  "reconcile query now cancelled_before cancelled_after remote =
     (if cancelled_before then Inl QCancelled
      else if sn_unit remote = UnitPercent
      then Inl (QUnsupported ''local ledger cannot reconcile percentage quotas'')
      else if qp_kind (sn_provenance remote) = LocalLedger
      then Inl (QOther ''reconcile baseline is already ledger-derived; refusing to overlay twice'')
      else if qp_fetched_at (sn_provenance remote) \<ge> now
      then Inl (QOther ''reconcile baseline fetched_at is not strictly before now'')
      else case delta_since_fetch query remote now of
        Inl e \<Rightarrow> Inl e
      | Inr delta \<Rightarrow>
          (if cancelled_after then Inl QCancelled
           else if delta = 0 then Inr remote
           else case overlay_values (sn_values remote) delta of
             Inl e \<Rightarrow> Inl e
           | Inr values \<Rightarrow>
               Inr (remote\<lparr>sn_values := values, sn_confidence := ConfDerived,
                      sn_provenance := overlay_provenance (sn_provenance remote) now\<rparr>)))"

end
