(* ===== verification/QuotaLedgerProps.thy ===== *)
theory QuotaLedgerProps
  imports QuotaLedger
begin

text \<open>
  What the ledger-derived quotas say about the ledger: the usage of a window, and the overlay of local
  usage on a remote baseline without gap and without double counting.
\<close>

subsection \<open>The usage of a scope between two times\<close>

definition in_scope :: "quota_scope \<Rightarrow> usage_record \<Rightarrow> bool" where
  "in_scope s r \<longleftrightarrow> ur_tenant r = qs_tenant s \<and> ur_account r = qs_account s \<and> ur_provider r = qs_provider s
     \<and> q_opt (qs_credential s) (ur_credential r) \<and> q_eq (qs_model s) (ur_model r)"

fun usage_amount :: "quota_unit \<Rightarrow> usage_record \<Rightarrow> nat" where
  "usage_amount UnitCount r = 1"
| "usage_amount UnitToken r =
     unat (ur_input r) + unat (ur_output r) + unat (ur_cache_read r) + unat (ur_cache_write r)"
| "usage_amount (UnitCost c) r = (if in_currency c r then unat (ur_cost r) else 0)"
| "usage_amount UnitPercent r = 0"

definition usage_between :: "usage_record list \<Rightarrow> quota_scope \<Rightarrow> quota_unit \<Rightarrow> nat \<Rightarrow> nat \<Rightarrow> nat" where
  "usage_between rs s u lo hi =
     sum_list (map (usage_amount u) (filter (\<lambda>r. in_scope s r \<and> lo \<le> unat (ur_at r) \<and> unat (ur_at r) < hi) rs))"

fun window_hours :: "quota_window \<Rightarrow> nat option" where
  "window_hours Overall = None"
| "window_hours Rolling5h = Some 5"
| "window_hours Weekly = Some (7 * 24)"
| "window_hours Monthly = Some (30 * 24)"

text \<open>The first millisecond of a window that ends now.\<close>

definition window_begin :: "quota_window \<Rightarrow> nat \<Rightarrow> nat" where
  "window_begin w now = (case window_hours w of Some h \<Rightarrow> now - h * 3600000 | None \<Rightarrow> 0)"

lemma unat_window_start: "unat (window_start_ms w now) = window_begin w (unat now)"
  by (cases w) (simp_all add: window_start_ms_def window_begin_def unat_saturating_sub)

lemma usage_between_split:
  assumes "lo \<le> mid" and "mid \<le> hi"
  shows "usage_between rs s u lo hi = usage_between rs s u lo mid + usage_between rs s u mid hi"
  using assms by (induction rs) (auto simp: usage_between_def)

text \<open>The records a query of the adapter returns.\<close>

lemma mem_scope_query:
  "mem_query l (scope_query s a (Some b))
     = filter (\<lambda>r. in_scope s r \<and> unat a \<le> unat (ur_at r) \<and> unat (ur_at r) < unat b) (ml_records l)"
  "mem_query l (scope_query s a None) = filter (\<lambda>r. in_scope s r \<and> unat a \<le> unat (ur_at r)) (ml_records l)"
  by (auto simp: mem_query_def usage_matches_def scope_query_def usage_query_all_def in_scope_def q_eq_def q_opt_def
      word_less_nat_alt word_le_nat_alt not_less not_le intro!: filter_cong)

subsection \<open>Sums\<close>

lemma foldl_saturating: "unat (foldl saturating_add a vs) = min u64_max (unat a + sum_list (map unat vs))"
proof (induction vs arbitrary: a)
  case Nil
  then show ?case
    using unat_le_u64_max [of a] by simp
next
  case (Cons v vs)
  then show ?case
    by (simp add: unat_saturating_add sat_add_def)
qed

lemma unat_of_nat_u64: "n \<le> u64_max \<Longrightarrow> unat (of_nat n :: u64) = n"
  by (simp add: unsigned_of_nat take_bit_nat_eq_self_iff u64_max_def)

lemma unat_sum_sat: "unat (sum_sat vs) = min u64_max (sum_list (map unat vs))"
  by (simp add: sum_sat_def foldl_saturating)

lemma unat_record_tokens_sat: "unat (record_tokens_sat r) = min u64_max (usage_amount UnitToken r)"
  by (auto simp: record_tokens_sat_def unat_saturating_add sat_add_def)

lemma min_sum_list: "min m (sum_list (map (\<lambda>x. min m (f x)) xs)) = min m (sum_list (map f xs) :: nat)"
proof (induction xs)
  case (Cons x xs)
  then show ?case
    by (simp add: min_def split: if_splits)
qed simp

lemma cost_sum: "sum_list (map (unat \<circ> ur_cost) (filter (in_currency c) rs)) = sum_list (map (usage_amount (UnitCost c)) rs)"
  by (induction rs) auto

lemma count_sum: "sum_list (map (usage_amount UnitCount) rs) = length rs"
  by (induction rs) auto

lemma used_measure_exact:
  assumes "u \<noteq> UnitPercent" and "length rs \<le> u64_max"
  shows "\<exists>v. used_measure u rs = Inr (MExact v) \<and> unat v = min u64_max (sum_list (map (usage_amount u) rs))"
proof (cases u)
  case UnitCount
  then show ?thesis
    using assms(2) by (simp add: count_sum unat_of_nat_u64)
next
  case UnitToken
  have "sum_list (map (unat \<circ> record_tokens_sat) rs) = sum_list (map (\<lambda>r. min u64_max (usage_amount UnitToken r)) rs)"
    by (rule arg_cong [where f = sum_list]) (simp add: unat_record_tokens_sat)
  then show ?thesis
    using min_sum_list [of u64_max "usage_amount UnitToken" rs] UnitToken by (simp add: unat_sum_sat)
next
  case (UnitCost c)
  then show ?thesis
    by (simp add: unat_sum_sat cost_sum)
qed (use assms in simp)

lemma checked_sum:
  "(case sum_checked msg vs a of
      Inr v \<Rightarrow> unat v = unat a + sum_list (map unat vs)
    | Inl e \<Rightarrow> e = QParse msg \<and> u64_max < unat a + sum_list (map unat vs))"
proof (induction vs arbitrary: a)
  case (Cons v vs)
  show ?case
  proof (cases "checked_add a v")
    case None
    then have "u64_max < unat a + unat v"
      by (simp only: checked_add_None)
    then show ?thesis using None by simp
  next
    case (Some w)
    then have "unat w = unat a + unat v"
      by (simp add: checked_add_Some)
    then show ?thesis
      using Cons.IH [of w] Some by (simp add: add.assoc split: sum.splits)
  qed
qed simp

lemma checked_delta_tokens:
  "(case delta_tokens rs a of
      Inr v \<Rightarrow> unat v = unat a + sum_list (map (usage_amount UnitToken) rs)
    | Inl e \<Rightarrow> (\<exists>msg. e = QParse msg) \<and> u64_max < unat a + sum_list (map (usage_amount UnitToken) rs))"
proof (induction rs arbitrary: a)
  case (Cons r rs)
  note sum = checked_sum [where msg = "''reconcile token overflow: record token sum exceeds u64''"
      and vs = "[ur_input r, ur_output r, ur_cache_read r, ur_cache_write r]" and a = 0]
  show ?case
  proof (cases "record_tokens r")
    case (Inl e)
    then show ?thesis
      using sum by (simp add: record_tokens_def)
  next
    case (Inr t)
    then have t: "unat t = usage_amount UnitToken r"
      using sum by (simp add: record_tokens_def)
    show ?thesis
    proof (cases "checked_add a t")
      case None
      then have "u64_max < unat a + unat t"
        by (simp only: checked_add_None)
      then show ?thesis
        using None Inr t by simp
    next
      case (Some w)
      then have "unat w = unat a + unat t"
        by (simp add: checked_add_Some)
      then show ?thesis
        using Cons.IH [of w] Inr Some t by (simp add: add.assoc split: sum.splits)
    qed
  qed
qed simp

lemma checked_delta:
  assumes "u \<noteq> UnitPercent" and "length rs \<le> u64_max"
  shows "(case delta_of u rs of
      Inr v \<Rightarrow> unat v = sum_list (map (usage_amount u) rs)
    | Inl e \<Rightarrow> (\<exists>msg. e = QParse msg) \<and> u64_max < sum_list (map (usage_amount u) rs))"
proof (cases u)
  case UnitCount
  then show ?thesis
    using assms(2) by (simp add: count_sum unat_of_nat_u64)
next
  case UnitToken
  then show ?thesis
    using checked_delta_tokens [where rs = rs and a = 0] by (simp split: sum.splits)
next
  case (UnitCost c)
  then show ?thesis
    using checked_sum [where msg = "''reconcile cost overflow: delta exceeds u64''"
      and vs = "map ur_cost (filter (in_currency c) rs)" and a = 0]
    by (simp add: cost_sum split: sum.splits)
qed (use assms in simp)

subsection \<open>Derived quotas\<close>

abbreviation mem_reader :: "mem_ledger \<Rightarrow> ledger_reader" where
  "mem_reader l \<equiv> (\<lambda>q. Inr (mem_query l q))"

text \<open>What a limit leaves of it.\<close>

fun remaining_after :: "quota_measure \<Rightarrow> nat \<Rightarrow> quota_measure \<Rightarrow> bool" where
  "remaining_after (MExact l) n m \<longleftrightarrow> (\<exists>v. m = MExact v \<and> unat v = unat l - n)"
| "remaining_after other n m \<longleftrightarrow> m = other"

text \<open>
  A quota derived from the in-memory ledger says what the ledger holds: the usage of exactly the records
  of the scope from the beginning of the window to now inclusive, saturated at 64 bits, with what the
  budget leaves of its limit; never an estimate that claims to be exact.
\<close>

theorem ledger_quota_is_the_window_usage:
  assumes "qr_unit rq \<noteq> UnitPercent" and "length (ml_records l) \<le> u64_max"
  shows "\<exists>sn v. ledger_fetch cap (mem_reader l) now False False rq = Inr sn
    \<and> qv_used (sn_values sn) = MExact v
    \<and> unat v = min u64_max (usage_between (ml_records l) (qr_scope rq) (qr_unit rq)
        (window_begin (qr_window rq) (unat now)) (unat now + 1))
    \<and> qv_limit (sn_values sn) = (case cap of Some c \<Rightarrow> c | None \<Rightarrow> MInfinite)
    \<and> remaining_after (qv_limit (sn_values sn)) (unat v) (qv_remaining (sn_values sn))
    \<and> sn_scope sn = qr_scope rq \<and> sn_window sn = qr_window rq \<and> sn_unit sn = qr_unit rq
    \<and> sn_confidence sn = ConfDerived \<and> qp_kind (sn_provenance sn) = LocalLedger \<and> \<not> qp_stale (sn_provenance sn)"
proof -
  let ?rs = "mem_query l (build_query rq (window_start_ms (qr_window rq) now) (checked_add now 1))"
  let ?lo = "window_begin (qr_window rq) (unat now)"
  have rs: "?rs = filter (\<lambda>r. in_scope (qr_scope rq) r \<and> ?lo \<le> unat (ur_at r) \<and> unat (ur_at r) < unat now + 1) (ml_records l)"
  proof (cases "checked_add now 1")
    case None
    have bound: "unat (ur_at r) < unat now + 1" for r
      using None unat_le_u64_max [of "ur_at r"] by (simp add: checked_add_None)
    then show ?thesis
      using None by (auto simp: build_query_def mem_scope_query unat_window_start intro: filter_cong)
  next
    case (Some e)
    then have "unat e = unat now + 1"
      by (simp add: checked_add_Some)
    then show ?thesis
      using Some by (simp add: build_query_def mem_scope_query unat_window_start)
  qed
  have "length ?rs \<le> u64_max"
    using assms(2) length_filter_le [of _ "ml_records l"] unfolding mem_query_def by (rule order_trans [rotated])
  from used_measure_exact [OF assms(1) this] obtain v where v: "used_measure (qr_unit rq) ?rs = Inr (MExact v)"
    "unat v = min u64_max (sum_list (map (usage_amount (qr_unit rq)) ?rs))"
    by blast
  have amount: "unat v = min u64_max (usage_between (ml_records l) (qr_scope rq) (qr_unit rq) ?lo (unat now + 1))"
    using v(2) unfolding rs usage_between_def .
  have "remaining_after lim (unat v) (remaining_measure lim (MExact v))" for lim
    by (cases lim) (simp_all add: unat_saturating_sub)
  then show ?thesis
    using assms(1) v(1) amount by (auto simp: ledger_fetch_def provenance_new_def Let_def)
qed

text \<open>A budget of ten tokens of which the one record of the window used three.\<close>

definition sample_scope :: quota_scope where
  "sample_scope = \<lparr>qs_tenant = ''t'', qs_account = ''a'', qs_credential = None, qs_provider = ''p'', qs_model = None\<rparr>"

definition sample_usage :: "u64 \<Rightarrow> usage_record" where
  "sample_usage at = (usage_record_default 0)\<lparr>ur_tenant := ''t'', ur_account := ''a'', ur_provider := ''p'',
     ur_input := 2, ur_output := 1, ur_cost := 5, ur_currency := ''USD'', ur_at := at\<rparr>"

lemma sample_usage_facts [simp]:
  "in_scope sample_scope (sample_usage at)" "usage_amount UnitToken (sample_usage at) = 3" "ur_at (sample_usage at) = at"
  by (simp_all add: in_scope_def sample_scope_def sample_usage_def usage_record_default_def q_opt_def q_eq_def)

lemma ledger_quota_is_the_window_usage_witness:
  "\<exists>sn v. ledger_fetch (Some (MExact 10)) (mem_reader \<lparr>ml_records = [sample_usage 100], ml_next_id = 0\<rparr>) 200 False False
      \<lparr>qr_scope = sample_scope, qr_window = Weekly, qr_unit = UnitToken\<rparr> = Inr sn
    \<and> qv_used (sn_values sn) = MExact v \<and> unat v = 3"
proof -
  let ?l = "\<lparr>ml_records = [sample_usage 100], ml_next_id = 0\<rparr>"
  let ?rq = "\<lparr>qr_scope = sample_scope, qr_window = Weekly, qr_unit = UnitToken\<rparr>"
  have "usage_between [sample_usage 100] sample_scope UnitToken (window_begin Weekly 200) 201 = 3"
    by (simp add: usage_between_def window_begin_def del: usage_amount.simps)
  then show ?thesis
    using ledger_quota_is_the_window_usage [of ?rq ?l "Some (MExact 10)" 200] by (fastforce simp: u64_max_def)
qed

subsection \<open>Reconciled quotas\<close>

text \<open>The usage a baseline has not seen: after it was fetched, inside its window, before now.\<close>

definition unseen_usage :: "usage_record list \<Rightarrow> quota_snapshot \<Rightarrow> nat \<Rightarrow> nat" where
  "unseen_usage rs sn now = usage_between rs (sn_scope sn) (sn_unit sn)
     (max (window_begin (sn_window sn) now) (unat (qp_fetched_at (sn_provenance sn)) + 1)) now"

lemma delta_since_fetch_mem:
  assumes "sn_unit sn \<noteq> UnitPercent" and "length (ml_records l) \<le> u64_max"
    and "qp_fetched_at (sn_provenance sn) < now"
  shows "(case delta_since_fetch (mem_reader l) sn now of
      Inr v \<Rightarrow> unat v = unseen_usage (ml_records l) sn (unat now)
    | Inl e \<Rightarrow> (\<exists>msg. e = QParse msg) \<and> u64_max < unseen_usage (ml_records l) sn (unat now))"
proof -
  let ?f = "qp_fetched_at (sn_provenance sn)"
  let ?start = "max (window_start_ms (sn_window sn) now) (saturating_add ?f 1)"
  let ?rs = "mem_query l (scope_query (sn_scope sn) ?start (Some now))"
  have f: "unat ?f + 1 \<le> u64_max"
    using assms(3) unat_le_u64_max [of now] by (simp add: word_less_nat_alt)
  have "unat ?start = max (window_begin (sn_window sn) (unat now)) (unat ?f + 1)"
    using f by (simp add: max_def word_le_nat_alt unat_window_start unat_saturating_add sat_add_def)
  then have "sum_list (map (usage_amount (sn_unit sn)) ?rs) = unseen_usage (ml_records l) sn (unat now)"
    by (simp add: mem_scope_query unseen_usage_def usage_between_def)
  moreover have "length ?rs \<le> u64_max"
    using assms(2) length_filter_le [of _ "ml_records l"] unfolding mem_query_def by (rule order_trans [rotated])
  ultimately show ?thesis
    using checked_delta [OF assms(1), of ?rs] by (simp add: delta_since_fetch_def Let_def split: sum.splits)
qed

text \<open>A baseline the adapter accepts at a time.\<close>

definition reconcilable :: "quota_snapshot \<Rightarrow> u64 \<Rightarrow> bool" where
  "reconcilable sn now \<longleftrightarrow> sn_unit sn \<noteq> UnitPercent \<and> qp_kind (sn_provenance sn) \<noteq> LocalLedger
     \<and> qp_fetched_at (sn_provenance sn) < now"

lemma reconcile_delta:
  assumes "reconcilable sn now" and "length (ml_records l) \<le> u64_max"
  shows "(case delta_since_fetch (mem_reader l) sn now of
      Inl e \<Rightarrow> reconcile (mem_reader l) now False False sn = Inl e \<and> (\<exists>msg. e = QParse msg)
        \<and> u64_max < unseen_usage (ml_records l) sn (unat now)
    | Inr d \<Rightarrow> unat d = unseen_usage (ml_records l) sn (unat now)
        \<and> reconcile (mem_reader l) now False False sn =
            (if d = 0 then Inr sn
             else case overlay_values (sn_values sn) d of
               Inl e \<Rightarrow> Inl e
             | Inr vs \<Rightarrow> Inr (sn\<lparr>sn_values := vs, sn_confidence := ConfDerived,
                 sn_provenance := overlay_provenance (sn_provenance sn) now\<rparr>)))"
  using delta_since_fetch_mem [of sn l now] assms
  by (auto simp: reconcile_def reconcilable_def not_le split: sum.splits)

text \<open>
  Reconciling a remote quota with the in-memory ledger adds exactly the usage the provider had not seen: the
  records of the scope strictly after the baseline was fetched, within its window and strictly before now.
  Without such usage the baseline passes through unchanged; with it the amount used is exact or, where it does not
  fit 64 bits, a parse error, what remains never goes below zero, and a second overlay of the result is refused.
\<close>

theorem reconcile_adds_the_unseen_usage:
  assumes "reconcilable sn now" and "length (ml_records l) \<le> u64_max" and "qv_used (sn_values sn) = MExact u"
    and "d = unseen_usage (ml_records l) sn (unat now)"
  shows "(d = 0 \<longrightarrow> reconcile (mem_reader l) now False False sn = Inr sn)
    \<and> (u64_max < unat u + d \<longrightarrow> (\<exists>msg. reconcile (mem_reader l) now False False sn = Inl (QParse msg)))
    \<and> (0 < d \<and> unat u + d \<le> u64_max \<longrightarrow>
        (\<exists>sn' v. reconcile (mem_reader l) now False False sn = Inr sn' \<and> qv_used (sn_values sn') = MExact v
          \<and> unat v = unat u + d \<and> qv_limit (sn_values sn') = qv_limit (sn_values sn)
          \<and> remaining_after (qv_remaining (sn_values sn)) d (qv_remaining (sn_values sn'))
          \<and> sn_confidence sn' = ConfDerived \<and> sn_scope sn' = sn_scope sn \<and> sn_reset sn' = sn_reset sn
          \<and> (\<forall>query later. \<exists>msg. reconcile query later False False sn' = Inl (QOther msg))))"
proof (cases "delta_since_fetch (mem_reader l) sn now")
  case (Inl e)
  then have "u64_max < d" "\<exists>msg. reconcile (mem_reader l) now False False sn = Inl (QParse msg)"
    using reconcile_delta [OF assms(1,2)] assms(4) by auto
  then show ?thesis by auto
next
  case (Inr w)
  then have w: "unat w = d" and run: "reconcile (mem_reader l) now False False sn =
      (if w = 0 then Inr sn
       else case overlay_values (sn_values sn) w of
         Inl e \<Rightarrow> Inl e
       | Inr vs \<Rightarrow> Inr (sn\<lparr>sn_values := vs, sn_confidence := ConfDerived,
           sn_provenance := overlay_provenance (sn_provenance sn) now\<rparr>))"
    using reconcile_delta [OF assms(1,2)] assms(4) by auto
  have zero: "w = 0 \<longleftrightarrow> d = 0"
    using w by (metis unat_eq_zero)
  have small: "d = 0 \<Longrightarrow> unat u + d \<le> u64_max"
    using unat_le_u64_max [of u] by simp
  show ?thesis
  proof (cases "checked_add u w")
    case None
    then have "u64_max < unat u + d"
      using w by (simp add: checked_add_None)
    then show ?thesis
      using None run zero small assms(3) by (auto simp: overlay_values_def Let_def)
  next
    case (Some v)
    then have v: "unat u + d \<le> u64_max" "unat v = unat u + d"
      using w by (auto simp: checked_add_Some)
    have rem: "remaining_after m d (case m of MExact x \<Rightarrow> MExact (saturating_sub x w) | other \<Rightarrow> other)" for m
      using w by (cases m) (simp_all add: unat_saturating_sub)
    have again: "\<exists>msg. reconcile query later False False
        (sn\<lparr>sn_values := vs, sn_confidence := ConfDerived, sn_provenance := overlay_provenance (sn_provenance sn) now\<rparr>)
        = Inl (QOther msg)" for query later vs
      using assms(1) by (simp add: reconcile_def overlay_provenance_def reconcilable_def)
    show ?thesis
      using Some run zero v rem again assms(3) by (auto simp: overlay_values_def Let_def)
  qed
qed

lemma unseen_usage_exact:
  assumes "sn_window sn = Overall"
  shows "unseen_usage rs sn now = usage_between rs (sn_scope sn) (sn_unit sn) (unat (qp_fetched_at (sn_provenance sn)) + 1) now"
  using assms by (simp add: unseen_usage_def window_begin_def)

text \<open>
  C23: No gap and no double counting: where a provider's overall count was right when it was fetched, the
  reconciled count is right now: it is the usage of all records of the scope before now.
\<close>

theorem reconciled_counts_stay_right:
  assumes "reconcilable sn now" and "length (ml_records l) \<le> u64_max" and "sn_window sn = Overall"
    and "qv_used (sn_values sn) = MExact u"
    and "unat u = usage_between (ml_records l) (sn_scope sn) (sn_unit sn) 0 (unat (qp_fetched_at (sn_provenance sn)) + 1)"
    and "reconcile (mem_reader l) now False False sn = Inr sn'"
  shows "\<exists>v. qv_used (sn_values sn') = MExact v
    \<and> unat v = usage_between (ml_records l) (sn_scope sn) (sn_unit sn) 0 (unat now)"
proof -
  let ?f = "unat (qp_fetched_at (sn_provenance sn)) + 1"
  have "?f \<le> unat now"
    using assms(1) by (simp add: reconcilable_def word_less_nat_alt)
  then have total: "usage_between (ml_records l) (sn_scope sn) (sn_unit sn) 0 (unat now)
      = unat u + unseen_usage (ml_records l) sn (unat now)"
    using usage_between_split [of 0 ?f "unat now"] unseen_usage_exact [OF assms(3)] assms(5) by simp
  show ?thesis
  proof (cases "delta_since_fetch (mem_reader l) sn now")
    case (Inl e)
    then show ?thesis
      using reconcile_delta [OF assms(1,2)] assms(6) by auto
  next
    case (Inr d)
    then have d: "unat d = unseen_usage (ml_records l) sn (unat now)"
      and run: "reconcile (mem_reader l) now False False sn =
        (if d = 0 then Inr sn
         else case overlay_values (sn_values sn) d of
           Inl e \<Rightarrow> Inl e
         | Inr vs \<Rightarrow> Inr (sn\<lparr>sn_values := vs, sn_confidence := ConfDerived,
             sn_provenance := overlay_provenance (sn_provenance sn) now\<rparr>))"
      using reconcile_delta [OF assms(1,2)] by auto
    show ?thesis
    proof (cases "d = 0")
      case True
      then show ?thesis
        using run d total assms(4,6) by auto
    next
      case False
      then obtain v where "checked_add u d = Some v" "qv_used (sn_values sn') = MExact v"
        using run assms(4,6) by (cases "checked_add u d") (auto simp: overlay_values_def Let_def)
      then show ?thesis
        using d total by (auto simp: checked_add_Some)
    qed
  qed
qed

text \<open>A provider counted three tokens at 60; one record since then.\<close>

definition sample_baseline :: quota_snapshot where
  "sample_baseline = \<lparr>sn_scope = sample_scope, sn_window = Overall, sn_unit = UnitToken,
     sn_values = \<lparr>qv_used = MExact 3, qv_limit = MInfinite, qv_remaining = MInfinite\<rparr>, sn_reset = ResetUnknown,
     sn_confidence = ConfExact, sn_provenance = provenance_new ApiKeyApi ''api'' 60\<rparr>"

definition sample_ledger :: mem_ledger where
  "sample_ledger = \<lparr>ml_records = [sample_usage 50, sample_usage 100], ml_next_id = 0\<rparr>"

lemma sample_baseline_facts [simp]:
  "reconcilable sample_baseline 200" "sn_window sample_baseline = Overall" "length (ml_records sample_ledger) \<le> u64_max"
  "qv_used (sn_values sample_baseline) = MExact 3" "unseen_usage (ml_records sample_ledger) sample_baseline 200 = 3"
  "usage_between (ml_records sample_ledger) (sn_scope sample_baseline) (sn_unit sample_baseline) 0 61 = 3"
  "qp_fetched_at (sn_provenance sample_baseline) = 60"
  by (simp_all add: reconcilable_def sample_baseline_def provenance_new_def sample_ledger_def u64_max_def unseen_usage_exact
      usage_between_def del: usage_amount.simps)

lemma reconcile_adds_the_unseen_usage_witness:
  "\<exists>sn v. reconcile (mem_reader sample_ledger) 200 False False sample_baseline = Inr sn
    \<and> qv_used (sn_values sn) = MExact v \<and> unat v = 6 \<and> sn_confidence sn = ConfDerived"
  using reconcile_adds_the_unseen_usage [OF sample_baseline_facts(1,3,4), of 3] by (auto simp: u64_max_def)

lemma reconciled_counts_stay_right_witness:
  "\<exists>sn v. reconcile (mem_reader sample_ledger) 200 False False sample_baseline = Inr sn \<and> qv_used (sn_values sn) = MExact v
    \<and> unat v = usage_between (ml_records sample_ledger) sample_scope UnitToken 0 200"
proof -
  have counted: "sn_scope sample_baseline = sample_scope" "sn_unit sample_baseline = UnitToken"
    "usage_between (ml_records sample_ledger) sample_scope UnitToken 0 (Suc 60) = 3"
    using sample_baseline_facts(6) by (simp_all add: sample_baseline_def)
  obtain sn where "reconcile (mem_reader sample_ledger) 200 False False sample_baseline = Inr sn"
    using reconcile_delta [OF sample_baseline_facts(1,3)]
    by (auto simp: overlay_values_def checked_add_def u64_max_def Let_def split: sum.splits if_splits)
  then show ?thesis
    using reconciled_counts_stay_right [OF sample_baseline_facts(1,3,2,4) _ , of sn] counted by auto
qed

end
