(* ===== verification/QuotaService.thy ===== *)
theory QuotaService
  imports QuotaLedger "HOL-Library.AList" "HOL-Library.Product_Lexorder"
begin

text \<open>
  The quota service of \<open>crates/control-plane/src/quota/service.rs\<close>: routing to adapters, choice of the best
  answer, cache with stale fallback, and the singleflight that lets concurrent reads of one key share
  a fetch. Calls run concurrently: a step is one stretch between two points where another call can come in
  (a lock, an atomic, an await), and a run is any sequence of steps.
\<close>

subsection \<open>Routing\<close>

record scope_match =
  sm_tenant :: "string option"
  sm_account :: "string option"
  sm_provider :: "string option"
  sm_credential :: "string option"
  sm_model :: "string option"

definition scope_match_any :: scope_match where
  "scope_match_any = \<lparr>sm_tenant = None, sm_account = None, sm_provider = None, sm_credential = None, sm_model = None\<rparr>"

definition match_for_provider :: "string \<Rightarrow> scope_match" where
  "match_for_provider p = scope_match_any\<lparr>sm_provider := Some p\<rparr>"

definition scope_matches :: "scope_match \<Rightarrow> quota_scope \<Rightarrow> bool" where
  "scope_matches m s \<longleftrightarrow> q_eq (sm_tenant m) (qs_tenant s) \<and> q_eq (sm_account m) (qs_account s)
     \<and> q_eq (sm_provider m) (qs_provider s) \<and> q_opt (sm_credential m) (qs_credential s) \<and> q_opt (sm_model m) (qs_model s)"

text \<open>What the service sees of an adapter, its answers aside.\<close>

record quota_adapter =
  qa_kind :: adapter_kind
  qa_supports :: "quota_request \<Rightarrow> bool"

definition candidates_for :: "(scope_match \<times> quota_adapter) list \<Rightarrow> quota_request \<Rightarrow> quota_adapter list" where
  "candidates_for reg rq = map snd (filter (\<lambda>(m, a). scope_matches m (qr_scope rq) \<and> qa_supports a rq) reg)"

subsection \<open>Outcomes\<close>

record quota_failure =
  qf_adapter :: "adapter_kind option"
  qf_error :: quota_error

definition adapter_failure :: "adapter_kind \<Rightarrow> quota_error \<Rightarrow> quota_failure" where
  "adapter_failure k e = \<lparr>qf_adapter = Some k, qf_error = e\<rparr>"

definition domain_failure :: "quota_error \<Rightarrow> quota_failure" where
  "domain_failure e = \<lparr>qf_adapter = None, qf_error = e\<rparr>"

record quota_read =
  rd_snapshot :: quota_snapshot
  rd_failures :: "quota_failure list"
  rd_stale :: bool

datatype read_outcome = ReadOk quota_snapshot "quota_failure list" | ReadAllFailed "quota_failure list"

fun snapshot_for_cache :: "read_outcome \<Rightarrow> quota_snapshot option" where
  "snapshot_for_cache (ReadOk sn _) = Some sn"
| "snapshot_for_cache (ReadAllFailed _) = None"

type_synonym read_result = "(quota_failure list, quota_read) result"

datatype window_read = WindowOk quota_read | WindowFailed "quota_failure list"

definition window_read_of :: "read_result \<Rightarrow> window_read" where
  "window_read_of r = (case r of Inr rd \<Rightarrow> WindowOk rd | Inl fs \<Rightarrow> WindowFailed fs)"

record quota_overview =
  ov_scope :: quota_scope
  ov_windows :: "(quota_window \<times> window_read) list"

definition overview_of :: "quota_scope \<Rightarrow> (quota_window \<times> read_result) list \<Rightarrow> quota_overview" where
  "overview_of s results = \<lparr>ov_scope = s,
     ov_windows = fold (\<lambda>(w, r). AList.update w (window_read_of r)) results []\<rparr>"

definition ok_count :: "quota_overview \<Rightarrow> nat" where
  "ok_count ov = length (filter (\<lambda>(w, r). case r of WindowOk _ \<Rightarrow> True | WindowFailed _ \<Rightarrow> False) (ov_windows ov))"

definition all_failures :: "quota_overview \<Rightarrow> quota_failure list" where
  "all_failures ov =
     concat (map (\<lambda>(w, r). case r of WindowOk rd \<Rightarrow> rd_failures rd | WindowFailed fs \<Rightarrow> fs) (ov_windows ov))"

subsection \<open>The fetch\<close>

text \<open>
  Every candidate answers; the answers are gathered in the order of the candidates. The sort is stable:
  higher confidence first, then the later fetch.
\<close>

type_synonym fetch_answer = "(quota_error, quota_snapshot) result"

definition successes :: "(adapter_kind \<times> fetch_answer) list \<Rightarrow> quota_snapshot list" where
  "successes rs = List.map_filter (\<lambda>(k, r). case r of Inr sn \<Rightarrow> Some sn | Inl _ \<Rightarrow> None) rs"

definition adapter_failures :: "(adapter_kind \<times> fetch_answer) list \<Rightarrow> quota_failure list" where
  "adapter_failures rs = List.map_filter (\<lambda>(k, r). case r of Inl e \<Rightarrow> Some (adapter_failure k e) | Inr _ \<Rightarrow> None) rs"

definition source_rank :: "quota_snapshot \<Rightarrow> int \<times> int" where
  "source_rank sn = (- int (confidence_priority (sn_confidence sn)), - uint (qp_fetched_at (sn_provenance sn)))"

definition overlay_ledger_delta ::
  "(quota_snapshot \<Rightarrow> fetch_answer) option \<Rightarrow> quota_snapshot \<Rightarrow> quota_failure list \<Rightarrow> quota_snapshot \<times> quota_failure list" where
  "overlay_ledger_delta reconciler best fs =
     (case reconciler of
        None \<Rightarrow> (best, fs)
      | Some rc \<Rightarrow>
          (if sn_confidence best \<noteq> ConfExact \<or> qp_kind (sn_provenance best) = LocalLedger then (best, fs)
           else case rc best of
             Inr sn \<Rightarrow> (sn, fs)
           | Inl e \<Rightarrow> (best, fs @ [adapter_failure LocalLedger e])))"

definition fetch_fresh ::
  "quota_adapter list \<Rightarrow> fetch_answer list \<Rightarrow> (quota_snapshot \<Rightarrow> fetch_answer) option \<Rightarrow> read_outcome" where
  "fetch_fresh cands answers reconciler =
     (if cands = [] then ReadAllFailed [domain_failure (QUnsupported ''no adapter supports this scope/window/unit'')]
      else (let rs = zip (map qa_kind cands) answers; fs = adapter_failures rs in
        case sort_key source_rank (successes rs) of
          [] \<Rightarrow> ReadAllFailed fs
        | best # _ \<Rightarrow> (case overlay_ledger_delta reconciler best fs of (sn, fs') \<Rightarrow> ReadOk sn fs')))"

subsection \<open>The cache\<close>

record cache_key =
  ck_scope :: quota_scope
  ck_window :: quota_window
  ck_unit :: quota_unit

record cache_entry =
  ce_snapshot :: quota_snapshot
  ce_stored_at :: u64

type_synonym quota_cache = "(cache_key \<times> cache_entry) list"

definition request_key :: "quota_request \<Rightarrow> cache_key" where
  "request_key rq = \<lparr>ck_scope = qr_scope rq, ck_window = qr_window rq, ck_unit = qr_unit rq\<rparr>"

definition snapshot_key :: "quota_snapshot \<Rightarrow> cache_key" where
  "snapshot_key sn = \<lparr>ck_scope = sn_scope sn, ck_window = sn_window sn, ck_unit = sn_unit sn\<rparr>"

text \<open>Durations in nanoseconds.\<close>

definition is_fresh :: "cache_entry \<Rightarrow> u64 \<Rightarrow> nat \<Rightarrow> bool" where
  "is_fresh e now ttl \<longleftrightarrow> unat (saturating_sub now (ce_stored_at e)) * 1000000 < ttl"

definition cache_put :: "cache_key \<Rightarrow> quota_snapshot \<Rightarrow> u64 \<Rightarrow> quota_cache \<Rightarrow> quota_cache" where
  "cache_put k sn at c = AList.update k \<lparr>ce_snapshot = sn, ce_stored_at = at\<rparr> c"

definition snapshots_for_scope :: "quota_scope \<Rightarrow> quota_cache \<Rightarrow> quota_snapshot list" where
  "snapshots_for_scope s c = map (ce_snapshot \<circ> snd) (filter (\<lambda>(k, e). ck_scope k = s) c)"

definition is_local :: "quota_snapshot \<Rightarrow> bool" where
  "is_local sn \<longleftrightarrow> qp_kind (sn_provenance sn) = LocalLedger \<or> sn_confidence sn = ConfDerived"

definition remove_local_for_scope :: "quota_scope \<Rightarrow> quota_cache \<Rightarrow> quota_cache" where
  "remove_local_for_scope s c = filter (\<lambda>(k, e). \<not> (ck_scope k = s \<and> is_local (ce_snapshot e))) c"

subsection \<open>Flights, calls and the service\<close>

text \<open>
  A flight is shared by reference: its number is its place in \<open>qx_flights\<close>. \<open>fl_notified\<close> counts the
  notifications sent so far; a waiter registered at count \<open>n\<close> is woken once the count exceeds \<open>n\<close>.
  \<open>fl_key\<close> is the key the flight was made for; no operation reads it.
\<close>

record flight =
  fl_key :: cache_key
  fl_result :: "read_outcome option"
  fl_alive :: bool
  fl_notified :: nat

definition flight_new :: "cache_key \<Rightarrow> flight" where
  "flight_new k = \<lparr>fl_key = k, fl_result = None, fl_alive = False, fl_notified = 0\<rparr>"

definition max_promotions :: nat where
  "max_promotions = 8"

text \<open>How leadership ends: with a published outcome, by the caller's token, or by dropping the call.\<close>

datatype release_end = EndOutcome read_outcome | EndCancelled | EndDropped

text \<open>
  Where a call is. \<open>CallWaiting\<close> and \<open>CallChecked\<close> carry the count at which the waiter registered, or \<open>None\<close>
  for the two looks a woken waiter takes before it registers again.
\<close>

datatype call_state =
    CallStart
  | CallFallback
  | CallEnter
  | CallClaim nat
  | CallAsk nat
  | CallFetching nat "quota_adapter list"
  | CallPublish nat read_outcome
  | CallPublished nat read_outcome
  | CallRelease nat release_end
  | CallReleased nat release_end
  | CallRetire nat read_outcome
  | CallRegister nat
  | CallWaiting nat "nat option"
  | CallChecked nat "nat option"
  | CallAwaiting nat nat
  | CallDone read_result
  | CallGone

record quota_call =
  qc_request :: quota_request
  qc_stale :: "cache_entry option"
  qc_promotions :: nat
  qc_state :: call_state

record quota_service =
  qx_registry :: "(scope_match \<times> quota_adapter) list"
  qx_cache :: quota_cache
  qx_ttl :: nat
  qx_reconciles :: bool
  qx_in_flight :: "(cache_key \<times> nat) list"
  qx_flights :: "flight list"
  qx_calls :: "quota_call list"

definition quota_service_with_ttl :: "nat \<Rightarrow> quota_service" where
  "quota_service_with_ttl ttl = \<lparr>qx_registry = [], qx_cache = [], qx_ttl = ttl, qx_reconciles = False,
     qx_in_flight = [], qx_flights = [], qx_calls = []\<rparr>"

definition quota_service_new :: quota_service where
  "quota_service_new = quota_service_with_ttl 30000000000"

subsection \<open>Operations outside reads\<close>

definition register_adapter :: "scope_match \<Rightarrow> quota_adapter \<Rightarrow> quota_service \<Rightarrow> quota_service" where
  "register_adapter m a s = s\<lparr>qx_registry := qx_registry s @ [(m, a)]\<rparr>"

definition invalidate_local_scope :: "quota_scope \<Rightarrow> quota_service \<Rightarrow> quota_service" where
  "invalidate_local_scope sc s = s\<lparr>qx_cache := remove_local_for_scope sc (qx_cache s)\<rparr>"

definition set_ledger_reconciler :: "quota_service \<Rightarrow> quota_service" where
  "set_ledger_reconciler s = s\<lparr>qx_reconciles := True\<rparr>"

definition publish_local_snapshot ::
  "quota_snapshot \<Rightarrow> u64 \<Rightarrow> quota_service \<Rightarrow> quota_service \<times> (quota_error, unit) result" where
  "publish_local_snapshot sn now s =
     (case validate_scope (sn_scope sn) of
        Inl e \<Rightarrow> (s, Inl e)
      | Inr _ \<Rightarrow>
          (if \<not> is_local sn
           then (s, Inl (QUnsupported ''publish_local_snapshot only accepts LocalLedger/Derived snapshots''))
           else (s\<lparr>qx_cache := cache_put (snapshot_key sn) sn now (qx_cache s)\<rparr>, Inr ())))"

end
