(* ===== verification/QuotaReads.thy ===== *)
theory QuotaReads
  imports QuotaService
begin

text \<open>
  The reads of the quota service, \<open>read_impl\<close> and \<open>Singleflight::run\<close> of
  \<open>crates/control-plane/src/quota/service.rs\<close>, one step at a time.
\<close>

subsection \<open>Calls\<close>

definition new_call :: "quota_request \<Rightarrow> quota_call" where
  "new_call rq = \<lparr>qc_request = rq, qc_stale = None, qc_promotions = 0, qc_state = CallStart\<rparr>"

definition call_key :: "quota_call \<Rightarrow> cache_key" where
  "call_key c = request_key (qc_request c)"

definition set_call :: "nat \<Rightarrow> quota_call \<Rightarrow> quota_service \<Rightarrow> quota_service" where
  "set_call i c s = s\<lparr>qx_calls := (qx_calls s)[i := c]\<rparr>"

definition move :: "nat \<Rightarrow> quota_call \<Rightarrow> call_state \<Rightarrow> quota_service \<Rightarrow> quota_service" where
  "move i c st s = set_call i (c\<lparr>qc_state := st\<rparr>) s"

definition set_flight :: "nat \<Rightarrow> flight \<Rightarrow> quota_service \<Rightarrow> quota_service" where
  "set_flight f x s = s\<lparr>qx_flights := (qx_flights s)[f := x]\<rparr>"

text \<open>The scope check and the first look into the cache; then the second look, for the fallback.\<close>

definition begin_read :: "nat \<Rightarrow> quota_call \<Rightarrow> u64 \<Rightarrow> quota_service \<Rightarrow> quota_service" where
  "begin_read i c now s =
     (case validate_scope (qr_scope (qc_request c)) of
        Inl e \<Rightarrow> move i c (CallDone (Inl [domain_failure e])) s
      | Inr _ \<Rightarrow>
          (case map_of (qx_cache s) (call_key c) of
             Some e \<Rightarrow>
               (if is_fresh e now (qx_ttl s)
                then move i c (CallDone (Inr \<lparr>rd_snapshot = ce_snapshot e, rd_failures = [], rd_stale = False\<rparr>)) s
                else move i c CallFallback s)
           | None \<Rightarrow> move i c CallFallback s))"

definition take_fallback :: "nat \<Rightarrow> quota_call \<Rightarrow> quota_service \<Rightarrow> quota_service" where
  "take_fallback i c s = set_call i (c\<lparr>qc_stale := map_of (qx_cache s) (call_key c), qc_state := CallEnter\<rparr>) s"

text \<open>What a shared outcome means for this call.\<close>

definition outcome_result :: "cache_entry option \<Rightarrow> read_outcome \<Rightarrow> read_result" where
  "outcome_result stale oc =
     (case oc of
        ReadOk sn fs \<Rightarrow> Inr \<lparr>rd_snapshot = sn, rd_failures = fs, rd_stale = False\<rparr>
      | ReadAllFailed fs \<Rightarrow>
          (case stale of
             Some e \<Rightarrow>
               (let sn = ce_snapshot e in
                Inr \<lparr>rd_snapshot = sn\<lparr>sn_provenance := (sn_provenance sn)\<lparr>qp_stale := True\<rparr>\<rparr>, rd_failures = fs, rd_stale = True\<rparr>)
           | None \<Rightarrow> Inl fs))"

definition cancelled_result :: read_result where
  "cancelled_result = Inl [domain_failure QCancelled]"

definition exhausted_result :: read_result where
  "exhausted_result = Inl [domain_failure (QOther ''singleflight leader promotions exhausted'')]"

subsection \<open>The flight\<close>

text \<open>Under the lock of the map: the registered flight, or a new one.\<close>

definition enter_flight :: "nat \<Rightarrow> quota_call \<Rightarrow> quota_service \<Rightarrow> quota_service" where
  "enter_flight i c s =
     (case map_of (qx_in_flight s) (call_key c) of
        Some f \<Rightarrow> move i c (CallClaim f) s
      | None \<Rightarrow>
          (let f = length (qx_flights s) in
           move i c (CallClaim f) (s\<lparr>qx_in_flight := AList.update (call_key c) f (qx_in_flight s),
             qx_flights := qx_flights s @ [flight_new (call_key c)]\<rparr>)))"

definition try_claim_leader :: "flight \<Rightarrow> bool \<times> flight" where
  "try_claim_leader x =
     (if fl_result x \<noteq> None then (False, x)
      else if fl_alive x then (False, x)
      else (True, x\<lparr>fl_alive := True\<rparr>))"

definition claim_flight :: "nat \<Rightarrow> quota_call \<Rightarrow> nat \<Rightarrow> quota_service \<Rightarrow> quota_service" where
  "claim_flight i c f s =
     (case try_claim_leader (qx_flights s ! f) of
        (True, x) \<Rightarrow> move i c (CallAsk f) (set_flight f x s)
      | (False, _) \<Rightarrow> move i c (CallRegister f) s)"

text \<open>The work of a leader ends: the reconciler's answer, the cache, and the clock at that time.\<close>

definition finish_work ::
  "nat \<Rightarrow> quota_call \<Rightarrow> nat \<Rightarrow> quota_adapter list \<Rightarrow> fetch_answer list \<Rightarrow> ledger_reader \<Rightarrow> u64 \<Rightarrow> u64 \<Rightarrow> quota_service \<Rightarrow> quota_service" where
  "finish_work i c f cands answers reader reconciled_at now s =
     (let rc = (if qx_reconciles s then Some (reconcile reader reconciled_at False False) else None);
          oc = fetch_fresh cands answers rc;
          cache = (case snapshot_for_cache oc of Some sn \<Rightarrow> cache_put (call_key c) sn now (qx_cache s) | None \<Rightarrow> qx_cache s)
      in move i c (CallPublish f oc) (s\<lparr>qx_cache := cache\<rparr>))"

definition publish_result :: "nat \<Rightarrow> quota_call \<Rightarrow> nat \<Rightarrow> read_outcome \<Rightarrow> quota_service \<Rightarrow> quota_service" where
  "publish_result i c f oc s =
     move i c (CallPublished f oc) (set_flight f ((qx_flights s ! f)\<lparr>fl_result := Some oc\<rparr>) s)"

definition notify_waiters :: "nat \<Rightarrow> quota_service \<Rightarrow> quota_service" where
  "notify_waiters f s = set_flight f ((qx_flights s ! f)\<lparr>fl_notified := Suc (fl_notified (qx_flights s ! f))\<rparr>) s"

definition release_leader :: "nat \<Rightarrow> quota_call \<Rightarrow> nat \<Rightarrow> release_end \<Rightarrow> quota_service \<Rightarrow> quota_service" where
  "release_leader i c f en s =
     move i c (CallReleased f en) (set_flight f ((qx_flights s ! f)\<lparr>fl_alive := False\<rparr>) s)"

definition after_release :: "nat \<Rightarrow> release_end \<Rightarrow> call_state" where
  "after_release f en =
     (case en of EndOutcome oc \<Rightarrow> CallRetire f oc | EndCancelled \<Rightarrow> CallDone cancelled_result | EndDropped \<Rightarrow> CallGone)"

definition retire_flight :: "nat \<Rightarrow> quota_call \<Rightarrow> nat \<Rightarrow> read_outcome \<Rightarrow> quota_service \<Rightarrow> quota_service" where
  "retire_flight i c f oc s =
     move i c (CallDone (outcome_result (qc_stale c) oc))
       (s\<lparr>qx_in_flight := (if map_of (qx_in_flight s) (call_key c) = Some f
                          then AList.delete (call_key c) (qx_in_flight s) else qx_in_flight s)\<rparr>)"

subsection \<open>Waiting\<close>

definition look_at_result :: "nat \<Rightarrow> quota_call \<Rightarrow> nat \<Rightarrow> nat option \<Rightarrow> quota_service \<Rightarrow> quota_service" where
  "look_at_result i c f n s =
     (case fl_result (qx_flights s ! f) of
        Some oc \<Rightarrow> move i c (CallDone (outcome_result (qc_stale c) oc)) s
      | None \<Rightarrow> move i c (CallChecked f n) s)"

definition leader_died :: "nat \<Rightarrow> quota_call \<Rightarrow> quota_service \<Rightarrow> quota_service" where
  "leader_died i c s =
     (let p = qc_promotions c + 1 in
      if p > max_promotions then set_call i (c\<lparr>qc_promotions := p, qc_state := CallDone exhausted_result\<rparr>) s
      else set_call i (c\<lparr>qc_promotions := p, qc_state := CallEnter\<rparr>) s)"

definition look_at_leader :: "nat \<Rightarrow> quota_call \<Rightarrow> nat \<Rightarrow> nat option \<Rightarrow> quota_service \<Rightarrow> quota_service" where
  "look_at_leader i c f n s =
     (if \<not> fl_alive (qx_flights s ! f) then leader_died i c s
      else case n of
        Some k \<Rightarrow> move i c (CallAwaiting f k) s
      | None \<Rightarrow> move i c (CallRegister f) s)"

subsection \<open>Steps\<close>

text \<open>
  \<open>StepGo\<close> lets a call do what comes next; the data it needs from outside (the clock, the answers of the
  adapters, the ledger) comes with it. A caller's token may fire while its call awaits, and a call may be
  dropped there.
\<close>

record outside =
  out_now :: u64
  out_answers :: "fetch_answer list"
  out_reader :: ledger_reader
  out_reconciled_at :: u64

datatype quota_step =
    StepCall quota_request
  | StepGo nat outside
  | StepCancel nat
  | StepDrop nat
  | StepRegister scope_match quota_adapter
  | StepInvalidate quota_scope
  | StepPublishLocal quota_snapshot u64
  | StepReconciler

fun advance :: "nat \<Rightarrow> quota_call \<Rightarrow> call_state \<Rightarrow> outside \<Rightarrow> quota_service \<Rightarrow> quota_service" where
  "advance i c CallStart w s = begin_read i c (out_now w) s"
| "advance i c CallFallback w s = take_fallback i c s"
| "advance i c CallEnter w s = enter_flight i c s"
| "advance i c (CallClaim f) w s = claim_flight i c f s"
| "advance i c (CallAsk f) w s = move i c (CallFetching f (candidates_for (qx_registry s) (qc_request c))) s"
| "advance i c (CallFetching f cands) w s =
     finish_work i c f cands (out_answers w) (out_reader w) (out_reconciled_at w) (out_now w) s"
| "advance i c (CallPublish f oc) w s = publish_result i c f oc s"
| "advance i c (CallPublished f oc) w s = move i c (CallRelease f (EndOutcome oc)) (notify_waiters f s)"
| "advance i c (CallRelease f en) w s = release_leader i c f en s"
| "advance i c (CallReleased f en) w s = move i c (after_release f en) (notify_waiters f s)"
| "advance i c (CallRetire f oc) w s = retire_flight i c f oc s"
| "advance i c (CallRegister f) w s = move i c (CallWaiting f (Some (fl_notified (qx_flights s ! f)))) s"
| "advance i c (CallWaiting f n) w s = look_at_result i c f n s"
| "advance i c (CallChecked f n) w s = look_at_leader i c f n s"
| "advance i c (CallAwaiting f n) w s =
     (if n < fl_notified (qx_flights s ! f) then move i c (CallWaiting f None) s else s)"
| "advance i c (CallDone r) w s = s"
| "advance i c CallGone w s = s"

text \<open>The points where a call awaits: a leader before and during its work, a waiter.\<close>

fun cancel_call :: "nat \<Rightarrow> quota_call \<Rightarrow> call_state \<Rightarrow> quota_service \<Rightarrow> quota_service" where
  "cancel_call i c (CallAsk f) s = move i c (CallRelease f EndCancelled) s"
| "cancel_call i c (CallFetching f cands) s = move i c (CallRelease f EndCancelled) s"
| "cancel_call i c (CallAwaiting f n) s = move i c (CallDone cancelled_result) s"
| "cancel_call i c _ s = s"

fun drop_call :: "nat \<Rightarrow> quota_call \<Rightarrow> call_state \<Rightarrow> quota_service \<Rightarrow> quota_service" where
  "drop_call i c CallStart s = move i c CallGone s"
| "drop_call i c (CallFetching f cands) s = move i c (CallRelease f EndDropped) s"
| "drop_call i c (CallAwaiting f n) s = move i c CallGone s"
| "drop_call i c _ s = s"

fun quota_step_run :: "quota_step \<Rightarrow> quota_service \<Rightarrow> quota_service" where
  "quota_step_run (StepCall rq) s = s\<lparr>qx_calls := qx_calls s @ [new_call rq]\<rparr>"
| "quota_step_run (StepGo i w) s =
     (if i < length (qx_calls s) then advance i (qx_calls s ! i) (qc_state (qx_calls s ! i)) w s else s)"
| "quota_step_run (StepCancel i) s =
     (if i < length (qx_calls s) then cancel_call i (qx_calls s ! i) (qc_state (qx_calls s ! i)) s else s)"
| "quota_step_run (StepDrop i) s =
     (if i < length (qx_calls s) then drop_call i (qx_calls s ! i) (qc_state (qx_calls s ! i)) s else s)"
| "quota_step_run (StepRegister m a) s = register_adapter m a s"
| "quota_step_run (StepInvalidate sc) s = invalidate_local_scope sc s"
| "quota_step_run (StepPublishLocal sn now) s = fst (publish_local_snapshot sn now s)"
| "quota_step_run StepReconciler s = set_ledger_reconciler s"

definition run_steps :: "quota_step list \<Rightarrow> quota_service \<Rightarrow> quota_service" where
  "run_steps steps s = fold quota_step_run steps s"

end
