(* ===== verification/QuotaReadsLive.thy ===== *)
theory QuotaReadsLive
  imports QuotaReadsProps
begin

text \<open>
  Waiting and isolation in the quota service: nobody misses a wake-up, some call can always go on, and every
  answer is about the scope, window and unit it was asked for.
\<close>

subsection \<open>One fetch per key\<close>

text \<open>
  C20: Concurrent reads of one scope, window and unit share a fetch: under every interleaving, with callers that cancel
  or vanish at any point, no two calls of the same key are at their adapters at the same time.
\<close>

theorem one_fetch_per_key:
  assumes "quota_reachable s" and "i < length (qx_calls s)" and "j < length (qx_calls s)"
    and "state_of s i = CallFetching f cands" and "state_of s j = CallFetching g cands'"
    and "call_key (qx_calls s ! i) = call_key (qx_calls s ! j)"
  shows "i = j"
proof -
  have wf: "registered s" "led s"
    using wf_reachable [OF assms(1)] by (simp_all add: quota_wf_def)
  have i: "f < length (qx_flights s)" "fl_key (qx_flights s ! f) = call_key (qx_calls s ! i)"
    "fl_result (qx_flights s ! f) = None"
    using placed_at [OF wf(1) assms(2), of f] ledD(3) [OF wf(2) assms(2), of f] assms(4) by simp_all
  have j: "g < length (qx_flights s)" "fl_key (qx_flights s ! g) = call_key (qx_calls s ! j)"
    "fl_result (qx_flights s ! g) = None"
    using placed_at [OF wf(1) assms(3), of g] ledD(3) [OF wf(2) assms(3), of g] assms(5) by simp_all
  have "map_of (qx_in_flight s) (call_key (qx_calls s ! i)) = Some f"
    and "map_of (qx_in_flight s) (call_key (qx_calls s ! j)) = Some g"
    using wf(1) i j unfolding registered_def by metis+
  then have "f = g"
    using assms(6) by simp
  then show ?thesis
    using ledD(4) [OF wf(2) assms(2), of f j] assms(3-5) by simp
qed

subsection \<open>Waiting\<close>

text \<open>A call that will notify the waiters of a flight: its leader, or one that has just let go.\<close>

definition attends :: "call_state \<Rightarrow> nat \<Rightarrow> bool" where
  "attends st f \<longleftrightarrow> leads st = Some f \<or> (\<exists>en. st = CallReleased f en)"

fun registered_at :: "call_state \<Rightarrow> (nat \<times> nat) option" where
  "registered_at (CallWaiting f (Some n)) = Some (f, n)"
| "registered_at (CallChecked f (Some n)) = Some (f, n)"
| "registered_at (CallAwaiting f n) = Some (f, n)"
| "registered_at _ = None"

definition attended :: "quota_service \<Rightarrow> call_state \<Rightarrow> bool" where
  "attended s st \<longleftrightarrow>
     (\<forall>f n. registered_at st = Some (f, n) \<longrightarrow> n \<le> fl_notified (qx_flights s ! f))
     \<and> (\<forall>f n. st = CallAwaiting f n \<longrightarrow> n < fl_notified (qx_flights s ! f)
          \<or> (\<exists>j < length (qx_calls s). attends (state_of s j) f))"

definition wakes :: "quota_service \<Rightarrow> bool" where
  "wakes s \<longleftrightarrow> (\<forall>i < length (qx_calls s). attended s (state_of s i))"

lemma registered_at_flight: "registered_at st = Some (f, n) \<Longrightarrow> flight_of st = Some f"
  by (cases st rule: registered_at.cases) auto

text \<open>One call moves; notifications only grow, and a call that stops attending has notified.\<close>

lemma wakes_step:
  assumes "wakes s" and "registered s" and "i < length (qx_calls s)" and "qx_calls s' = (qx_calls s)[i := c]"
    and mono: "\<And>f. f < length (qx_flights s) \<Longrightarrow> fl_notified (qx_flights s ! f) \<le> fl_notified (qx_flights s' ! f)"
    and stop: "\<And>f. f < length (qx_flights s) \<Longrightarrow> attends (state_of s i) f \<Longrightarrow>
      attends (qc_state c) f \<or> fl_notified (qx_flights s ! f) < fl_notified (qx_flights s' ! f)"
    and self: "attended s' (qc_state c)"
  shows "wakes s'"
  unfolding wakes_def
proof (intro allI impI)
  fix k
  assume "k < length (qx_calls s')"
  then have k: "k < length (qx_calls s)"
    using assms(4) by simp
  show "attended s' (state_of s' k)"
  proof (cases "k = i")
    case True
    then show ?thesis using self assms(3,4) by simp
  next
    case False
    then have same: "state_of s' k = state_of s k"
      using assms(4) by simp
    have old: "attended s (state_of s k)"
      using assms(1) k by (simp add: wakes_def)
    have place: "f < length (qx_flights s)" if "registered_at (state_of s k) = Some (f, n)" for f n
      using placed_at [OF assms(2) k registered_at_flight [OF that]] by simp
    have awaiting: "n < fl_notified (qx_flights s' ! f) \<or> (\<exists>j < length (qx_calls s'). attends (state_of s' j) f)"
      if st: "state_of s k = CallAwaiting f n" for f n
    proof -
      have f: "f < length (qx_flights s)" and n: "n \<le> fl_notified (qx_flights s ! f)"
        using place [of f n] old st by (auto simp: attended_def)
      consider "n < fl_notified (qx_flights s ! f)" | j where "j < length (qx_calls s)" "attends (state_of s j) f"
        using old st by (auto simp: attended_def)
      then show ?thesis
      proof cases
        case 1
        then show ?thesis using mono [OF f] by simp
      next
        case (2 j)
        show ?thesis
        proof (cases "j = i")
          case True
          then show ?thesis
            using stop [OF f] 2(2) n assms(3,4) by (metis le_less_trans length_list_update nth_list_update_eq)
        next
          case False
          then show ?thesis using 2 assms(4) by (metis length_list_update nth_list_update_neq)
        qed
      qed
    qed
    have "n \<le> fl_notified (qx_flights s' ! f)" if "registered_at (state_of s k) = Some (f, n)" for f n
      using old that mono [OF place [OF that]] by (meson attended_def le_trans)
    then show ?thesis
      using awaiting by (simp add: attended_def same)
  qed
qed

lemma attended_plain: "registered_at st = None \<Longrightarrow> attended s st"
  by (auto simp: attended_def)

text \<open>The calls of a state after a step that moves call \<open>i\<close>.\<close>

lemma notified_simps [simp]:
  "fl_notified (qx_flights (notify_waiters f s) ! g)
     = (if g = f \<and> f < length (qx_flights s) then Suc (fl_notified (qx_flights s ! f)) else fl_notified (qx_flights s ! g))"
  by (auto simp: notify_waiters_def nth_list_update list_update_beyond not_less)

lemma wakes_move:
  assumes "wakes s" and "registered s" and "i < length (qx_calls s)" and "registered_at (qc_state c) = None"
    and "\<And>f. attends (state_of s i) f \<Longrightarrow> attends (qc_state c) f"
  shows "wakes (set_call i c s)"
  by (rule wakes_step [OF assms(1-3), where c = c]) (use assms attended_plain in auto)

lemma wakes_flight_move:
  assumes "wakes s" and "registered s" and "i < length (qx_calls s)" and "registered_at (qc_state c) = None"
    and "\<And>f. attends (state_of s i) f \<Longrightarrow> attends (qc_state c) f" and "fl_notified x = fl_notified (qx_flights s ! f)"
  shows "wakes (set_call i c (set_flight f x s))"
  by (rule wakes_step [OF assms(1-3), where c = c])
    (use assms attended_plain field_update [where h = fl_notified and xs = "qx_flights s" and f = f and x = x] in auto)

lemma wakes_notify_move:
  assumes "wakes s" and "registered s" and "i < length (qx_calls s)" and "registered_at (qc_state c) = None"
    and "\<And>g. attends (state_of s i) g \<Longrightarrow> g = f"
  shows "wakes (set_call i c (notify_waiters f s))"
  by (rule wakes_step [OF assms(1-3), where c = c]) (use assms attended_plain in auto)

lemma wakes_frame: "qx_calls s' = qx_calls s \<Longrightarrow> qx_flights s' = qx_flights s \<Longrightarrow> wakes s' = wakes s"
  by (simp add: wakes_def attended_def)

lemma attends_simps [simp]:
  "attends CallStart f = False" "attends CallFallback f = False" "attends CallEnter f = False" "attends (CallClaim g) f = False"
  "attends (CallAsk g) f = (f = g)" "attends (CallFetching g cs) f = (f = g)" "attends (CallPublish g oc) f = (f = g)"
  "attends (CallPublished g oc) f = (f = g)" "attends (CallRelease g en) f = (f = g)" "attends (CallReleased g en) f = (f = g)"
  "attends (CallRetire g oc) f = False" "attends (CallRegister g) f = False" "attends (CallWaiting g n) f = False"
  "attends (CallChecked g n) f = False" "attends (CallAwaiting g k) f = False" "attends (CallDone r) f = False" "attends CallGone f = False"
  by (auto simp: attends_def)

lemma wakes_enter:
  assumes "wakes s" and "registered s" and "i < length (qx_calls s)" and "state_of s i = CallEnter"
  shows "wakes (enter_flight i (qx_calls s ! i) s)"
proof (cases "map_of (qx_in_flight s) (call_key (qx_calls s ! i))")
  case (Some f)
  then show ?thesis
    using wakes_move [OF assms(1-3)] assms(4) by (simp add: enter_flight_def move_def)
next
  case None
  let ?c = "(qx_calls s ! i)\<lparr>qc_state := CallClaim (length (qx_flights s))\<rparr>"
  let ?s = "enter_flight i (qx_calls s ! i) s"
  have s: "qx_calls ?s = (qx_calls s)[i := ?c]" "qx_flights ?s = qx_flights s @ [flight_new (call_key (qx_calls s ! i))]"
    using None by (simp_all add: enter_flight_def move_def Let_def)
  show ?thesis
    by (rule wakes_step [OF assms(1-3) s(1)]) (use assms(4) in \<open>auto simp: s(2) nth_append attended_plain\<close>)
qed

lemma wakes_await:
  assumes "quota_wf s" and "wakes s" and "i < length (qx_calls s)" and "state_of s i = CallChecked f (Some n)"
    and "fl_alive (qx_flights s ! f)"
  shows "wakes (move i (qx_calls s ! i) (CallAwaiting f n) s)"
proof -
  have f: "f < length (qx_flights s)"
    using placed_at [of s i f] assms by (simp add: quota_wf_def)
  then obtain j where j: "j < length (qx_calls s)" "leads (state_of s j) = Some f"
    using assms(1,5) unfolding quota_wf_def led_def by blast
  then have "j \<noteq> i"
    using assms(4) by auto
  then have "attends (state_of (move i (qx_calls s ! i) (CallAwaiting f n) s) j) f"
    using j by (simp add: move_def attends_def)
  moreover have "n \<le> fl_notified (qx_flights s ! f)"
    using assms(2,3,4) by (auto simp: wakes_def attended_def)
  ultimately have "attended (move i (qx_calls s ! i) (CallAwaiting f n) s) (CallAwaiting f n)"
    using j(1) by (auto simp: attended_def move_def)
  then show ?thesis
    by (intro wakes_step [OF assms(2) _ assms(3), where c = "(qx_calls s ! i)\<lparr>qc_state := CallAwaiting f n\<rparr>"])
      (use assms in \<open>auto simp: move_def quota_wf_def\<close>)
qed

text \<open>Moves between the looks of a waiter.\<close>

lemma wakes_look:
  assumes "wakes s" and "registered s" and "i < length (qx_calls s)" and "\<And>f. \<not> attends (state_of s i) f"
    and "\<And>f n. registered_at (qc_state c) = Some (f, n) \<Longrightarrow> n \<le> fl_notified (qx_flights s ! f)"
    and "\<And>f n. qc_state c \<noteq> CallAwaiting f n"
  shows "wakes (set_call i c s)"
  by (rule wakes_step [OF assms(1-3), where c = c]) (use assms(4-) in \<open>auto simp: attended_def\<close>)

lemma registered_count:
  "wakes s \<Longrightarrow> i < length (qx_calls s) \<Longrightarrow> registered_at (state_of s i) = Some (f, n) \<Longrightarrow> n \<le> fl_notified (qx_flights s ! f)"
  by (auto simp: wakes_def attended_def)

lemma wakes_advance:
  assumes wf: "quota_wf s" and w: "wakes s" and i: "i < length (qx_calls s)"
  shows "wakes (advance i (qx_calls s ! i) (state_of s i) ow s)"
proof -
  have r: "registered s"
    using wf by (simp add: quota_wf_def)
  note go = wakes_move [OF w r i] and flight = wakes_flight_move [OF w r i] and wake = wakes_notify_move [OF w r i]
    and look = wakes_look [OF w r i]
  show ?thesis
  proof (cases "state_of s i")
    case CallStart
    then show ?thesis
      using go by (simp add: begin_read_def move_def split: sum.split option.split)
  next
    case CallFallback
    then show ?thesis
      using go by (simp add: take_fallback_def)
  next
    case CallEnter
    then show ?thesis
      using wakes_enter [OF w r i] by simp
  next
    case (CallClaim f)
    then show ?thesis
      using go flight [where f = f] by (auto simp: claim_flight_def try_claim_leader_def move_def)
  next
    case (CallAsk f)
    then show ?thesis
      using go by (simp add: move_def)
  next
    case (CallFetching f cands)
    let ?s = "advance i (qx_calls s ! i) (state_of s i) ow s"
    obtain oc where "wakes ?s = wakes (set_call i ((qx_calls s ! i)\<lparr>qc_state := CallPublish f oc\<rparr>) s)"
      using CallFetching by (simp add: finish_work_def Let_def move_def wakes_def attended_def set_call_def)
    then show ?thesis
      using go CallFetching by simp
  next
    case (CallPublish f oc)
    then show ?thesis
      using flight [where f = f] by (simp add: publish_result_def move_def)
  next
    case (CallPublished f oc)
    then show ?thesis
      using wake [where f = f] by (simp add: move_def)
  next
    case (CallRelease f en)
    then show ?thesis
      using flight [where f = f] by (simp add: release_leader_def move_def)
  next
    case (CallReleased f en)
    then show ?thesis
      using wake [where f = f] by (cases en) (simp_all add: move_def after_release_def)
  next
    case (CallRetire f oc)
    let ?c = "(qx_calls s ! i)\<lparr>qc_state := CallDone (outcome_result (qc_stale (qx_calls s ! i)) oc)\<rparr>"
    have "wakes (retire_flight i (qx_calls s ! i) f oc s) = wakes (set_call i ?c s)"
      by (rule wakes_frame) (simp_all add: retire_flight_def move_def set_call_def)
    then show ?thesis
      using go [of ?c] CallRetire by simp
  next
    case (CallRegister f)
    then show ?thesis
      using look [of "(qx_calls s ! i)\<lparr>qc_state := CallWaiting f (Some (fl_notified (qx_flights s ! f)))\<rparr>"]
      by (auto simp: move_def)
  next
    case (CallWaiting f n)
    then show ?thesis
      using look [of "(qx_calls s ! i)\<lparr>qc_state := CallChecked f n\<rparr>"] go registered_count [OF w i]
      by (cases n) (simp_all add: look_at_result_def move_def split: option.split)
  next
    case (CallChecked f n)
    then show ?thesis
      using go wakes_await [OF wf w i]
      by (cases n) (simp_all add: look_at_leader_def leader_died_def Let_def move_def)
  next
    case (CallAwaiting f n)
    then show ?thesis
      using go w by (simp add: move_def)
  qed (use w in simp_all)
qed

lemma wakes_quota_step: "quota_wf s \<Longrightarrow> wakes s \<Longrightarrow> wakes (quota_step_run st s)"
proof (induction st s rule: quota_step_run.induct)
  case (1 rq s)
  have "attended (s\<lparr>qx_calls := qx_calls s @ [new_call rq]\<rparr>) st" if "attended s st" for st
    using that by (auto simp: attended_def nth_append)
  moreover have "attended (s\<lparr>qx_calls := qx_calls s @ [new_call rq]\<rparr>) CallStart"
    by (simp add: attended_plain)
  ultimately show ?case
    using 1(2) by (auto simp: wakes_def nth_append new_call_def less_Suc_eq)
next
  case (2 i w s)
  then show ?case
    using wakes_advance by simp
next
  case (3 i s)
  then show ?case
    using wakes_move [of s i] by (cases "state_of s i") (simp_all add: quota_wf_def move_def)
next
  case (4 i s)
  then show ?case
    using wakes_move [of s i] by (cases "state_of s i") (simp_all add: quota_wf_def move_def)
next
  case (7 sn now s)
  then show ?case
    by (auto simp: publish_local_snapshot_def wakes_def attended_def split: sum.split)
qed (simp_all add: register_adapter_def invalidate_local_scope_def set_ledger_reconciler_def wakes_def attended_def)

lemma wakes_reachable: "quota_reachable s \<Longrightarrow> wakes s"
proof (induction rule: quota_reachable.induct)
  case (reach_start ttl)
  then show ?case
    by (simp add: wakes_def quota_service_with_ttl_def)
next
  case (reach_step s st)
  then show ?case
    using wakes_quota_step wf_reachable by blast
qed

subsection \<open>Nobody waits for ever\<close>

lemma awaiting_attended:
  assumes "wakes s" and "i < length (qx_calls s)" and "state_of s i = CallAwaiting f n"
  shows "n < fl_notified (qx_flights s ! f) \<or> (\<exists>j < length (qx_calls s). attends (state_of s j) f)"
proof -
  have "attended s (CallAwaiting f n)"
    using assms by (metis wakes_def)
  then show ?thesis
    by (simp add: attended_def)
qed

text \<open>The steps an attending call is away from its next notification.\<close>

fun distance :: "call_state \<Rightarrow> nat" where
  "distance (CallAsk f) = 4"
| "distance (CallFetching f cands) = 3"
| "distance (CallPublish f oc) = 2"
| "distance (CallPublished f oc) = 1"
| "distance (CallRelease f en) = 2"
| "distance (CallReleased f en) = 1"
| "distance _ = 0"

definition failing_outside :: "nat \<Rightarrow> outside" where
  "failing_outside n = \<lparr>out_now = 0, out_answers = replicate n (Inl QCancelled), out_reader = (\<lambda>_. Inr []), out_reconciled_at = 0\<rparr>"

lemma some_lawful_step: "\<exists>w. lawful_step (StepGo j w) s"
proof -
  have "lawful_step (StepGo j (failing_outside (case state_of s j of CallFetching f cands \<Rightarrow> length cands | _ \<Rightarrow> 0))) s"
    by (auto simp: lawful_step_def failing_outside_def answers_about_def list_all_iff split: call_state.split)
  then show ?thesis ..
qed

lemma attending_step:
  fixes w :: outside
  assumes "j < length (qx_calls s)" and "attends (state_of s j) f" and "f < length (qx_flights s)"
  defines "s' \<equiv> quota_step_run (StepGo j w) s"
  shows "length (qx_calls s') = length (qx_calls s)" and "\<And>i. i \<noteq> j \<Longrightarrow> state_of s' i = state_of s i"
    and "length (qx_flights s') = length (qx_flights s)"
    and "fl_notified (qx_flights s ! f) < fl_notified (qx_flights s' ! f)
      \<or> fl_notified (qx_flights s' ! f) = fl_notified (qx_flights s ! f) \<and> attends (state_of s' j) f
        \<and> distance (state_of s' j) < distance (state_of s j)"
  using assms
  by (cases "state_of s j"; simp add: move_def finish_work_def publish_result_def release_leader_def Let_def
        field_update [where h = fl_notified])+

lemma attending_call_notifies:
  assumes "quota_reachable s" and "j < length (qx_calls s)" and "attends (state_of s j) f" and "f < length (qx_flights s)"
  shows "\<exists>steps. length steps \<le> distance (state_of s j) \<and> quota_reachable (run_steps steps s)
    \<and> fl_notified (qx_flights s ! f) < fl_notified (qx_flights (run_steps steps s) ! f)
    \<and> length (qx_calls (run_steps steps s)) = length (qx_calls s)
    \<and> (\<forall>i. i \<noteq> j \<longrightarrow> state_of (run_steps steps s) i = state_of s i)"
  using assms
proof (induction "distance (state_of s j)" arbitrary: s rule: less_induct)
  case less
  obtain w where w: "lawful_step (StepGo j w) s"
    using some_lawful_step by blast
  let ?s = "quota_step_run (StepGo j w) s"
  note step = attending_step [OF less.prems(2-4), where w = w]
  have r: "quota_reachable ?s"
    using less.prems(1) w by (rule reach_step)
  have d: "0 < distance (state_of s j)"
    using less.prems(3) by (cases "state_of s j") auto
  show ?case
  proof (cases "fl_notified (qx_flights s ! f) < fl_notified (qx_flights ?s ! f)")
    case True
    then show ?thesis
      using r d step(1,2) by (intro exI [where x = "[StepGo j w]"]) (simp add: run_steps_def)
  next
    case False
    then obtain steps where "length steps \<le> distance (state_of ?s j)" "quota_reachable (run_steps steps ?s)"
      "fl_notified (qx_flights ?s ! f) < fl_notified (qx_flights (run_steps steps ?s) ! f)"
      "length (qx_calls (run_steps steps ?s)) = length (qx_calls ?s)"
      "\<forall>i. i \<noteq> j \<longrightarrow> state_of (run_steps steps ?s) i = state_of ?s i"
      using less.hyps [of ?s] step r less.prems(2,4) by auto
    then show ?thesis
      using False step by (intro exI [where x = "StepGo j w # steps"]) (auto simp: run_steps_def)
  qed
qed

text \<open>
  C21: No wake-up is lost: from every reachable state, whatever callers have cancelled, vanished or joined in the
  meantime, a reader that awaits a flight can be woken: at most four steps of the rest of the service and one
  of its own take it to its next look at the flight.
\<close>

theorem waiter_is_woken:
  assumes "quota_reachable s" and "i < length (qx_calls s)" and "state_of s i = CallAwaiting f n"
  shows "\<exists>steps ow. length steps \<le> 4 \<and> quota_reachable (run_steps steps s) \<and> state_of (run_steps steps s) i = CallAwaiting f n
    \<and> quota_reachable (run_steps (steps @ [StepGo i ow]) s) \<and> state_of (run_steps (steps @ [StepGo i ow]) s) i = CallWaiting f None"
proof -
  have wf: "quota_wf s" and w: "wakes s"
    using wf_reachable wakes_reachable assms(1) by blast+
  have f: "f < length (qx_flights s)"
    using placed_at [of s i f] wf assms by (simp add: quota_wf_def)
  have "n \<le> fl_notified (qx_flights s ! f)"
    using registered_count [OF w assms(2), of f n] assms(3) by simp
  have "\<exists>steps. length steps \<le> 4 \<and> quota_reachable (run_steps steps s) \<and> n < fl_notified (qx_flights (run_steps steps s) ! f)
    \<and> length (qx_calls (run_steps steps s)) = length (qx_calls s) \<and> state_of (run_steps steps s) i = state_of s i"
  proof (cases "n < fl_notified (qx_flights s ! f)")
    case True
    then show ?thesis
      using assms(1) by (intro exI [where x = "[]"]) (simp add: run_steps_def)
  next
    case False
    then obtain j where j: "j < length (qx_calls s)" "attends (state_of s j) f"
      using awaiting_attended [OF w assms(2,3)] by blast
    moreover have "distance (state_of s j) \<le> 4"
      by (cases "state_of s j") simp_all
    moreover have "i \<noteq> j"
      using j(2) assms(3) by auto
    ultimately show ?thesis
      using attending_call_notifies [OF assms(1) j f] \<open>n \<le> fl_notified (qx_flights s ! f)\<close>
      by (meson le_trans order.strict_trans1)
  qed
  then obtain steps where steps: "length steps \<le> 4" "quota_reachable (run_steps steps s)"
    "n < fl_notified (qx_flights (run_steps steps s) ! f)" "length (qx_calls (run_steps steps s)) = length (qx_calls s)"
    "state_of (run_steps steps s) i = CallAwaiting f n"
    using assms(3) by auto
  obtain ow where "lawful_step (StepGo i ow) (run_steps steps s)"
    using some_lawful_step by blast
  then have "quota_reachable (run_steps (steps @ [StepGo i ow]) s)"
    using reach_step [OF steps(2)] by (simp add: run_steps_def del: quota_step_run.simps)
  moreover have "state_of (run_steps (steps @ [StepGo i ow]) s) i = CallWaiting f None"
    using steps(3-5) assms(2) by (simp add: run_steps_def move_def)
  ultimately show ?thesis
    using steps by blast
qed

text \<open>A call that is not finished and not stuck in its wait moves.\<close>

fun may_go :: "call_state \<Rightarrow> quota_service \<Rightarrow> bool" where
  "may_go (CallDone r) s = False"
| "may_go CallGone s = False"
| "may_go (CallAwaiting f n) s = (n < fl_notified (qx_flights s ! f))"
| "may_go _ s = True"

lemma goes_on:
  assumes "j < length (qx_calls s)" and "may_go (state_of s j) s"
  shows "state_of (quota_step_run (StepGo j w) s) j \<noteq> state_of s j"
proof (cases "state_of s j")
  case CallStart
  then show ?thesis
    using assms(1) by (simp add: begin_read_def move_def split: sum.split option.split)
next
  case CallFallback
  then show ?thesis
    using assms(1) by (simp add: take_fallback_def)
next
  case CallEnter
  then show ?thesis
    using assms(1) by (simp add: enter_flight_def move_def Let_def split: option.split)
next
  case (CallClaim f)
  then show ?thesis
    using assms(1) by (simp add: claim_flight_def try_claim_leader_def move_def)
next
  case (CallReleased f en)
  then show ?thesis
    using assms(1) by (cases en) (simp_all add: move_def after_release_def)
next
  case (CallWaiting f n)
  then show ?thesis
    using assms(1) by (simp add: look_at_result_def move_def split: option.split)
next
  case (CallChecked f n)
  then show ?thesis
    using assms(1) by (simp add: look_at_leader_def leader_died_def move_def Let_def split: option.split)
qed (use assms in \<open>simp_all add: move_def finish_work_def publish_result_def release_leader_def retire_flight_def Let_def\<close>)

text \<open>
  The service does not deadlock: while any read is neither finished nor dropped, some read can take a step that
  changes the state, and adapters answering with errors suffice for it.
\<close>

theorem some_read_can_go_on:
  assumes "quota_reachable s" and "i < length (qx_calls s)"
    and "\<forall>r. state_of s i \<noteq> CallDone r" and "state_of s i \<noteq> CallGone"
  shows "\<exists>j w. j < length (qx_calls s) \<and> lawful_step (StepGo j w) s
    \<and> state_of (quota_step_run (StepGo j w) s) j \<noteq> state_of s j"
proof -
  have "\<exists>j < length (qx_calls s). may_go (state_of s j) s"
  proof (cases "may_go (state_of s i) s")
    case True
    then show ?thesis using assms(2) by blast
  next
    case False
    then obtain f n where await: "state_of s i = CallAwaiting f n" "\<not> n < fl_notified (qx_flights s ! f)"
      using assms(3,4) by (cases "state_of s i") auto
    moreover have "wakes s"
      using wakes_reachable assms(1) .
    ultimately obtain j where "j < length (qx_calls s)" "attends (state_of s j) f"
      using awaiting_attended [OF _ assms(2)] by blast
    moreover from this(2) have "may_go (state_of s j) s"
      by (cases "state_of s j") auto
    ultimately show ?thesis by blast
  qed
  then obtain j where j: "j < length (qx_calls s)" "may_go (state_of s j) s"
    by blast
  moreover obtain w where "lawful_step (StepGo j w) s"
    using some_lawful_step by blast
  ultimately show ?thesis
    using goes_on by blast
qed

subsection \<open>A concrete run\<close>

text \<open>Two readers of one key: the first is at its adapters, the second awaits it.\<close>

fun lawful_run :: "quota_step list \<Rightarrow> quota_service \<Rightarrow> bool" where
  "lawful_run [] s = True"
| "lawful_run (st # sts) s = (lawful_step st s \<and> lawful_run sts (quota_step_run st s))"

lemma reachable_run: "quota_reachable s \<Longrightarrow> lawful_run steps s \<Longrightarrow> quota_reachable (run_steps steps s)"
  by (induction steps arbitrary: s) (auto simp: run_steps_def intro: reach_step simp del: quota_step_run.simps)

definition demo_request :: quota_request where
  "demo_request = \<lparr>qr_scope = \<lparr>qs_tenant = ''t'', qs_account = ''a'', qs_credential = None, qs_provider = ''p'', qs_model = None\<rparr>,
     qr_window = Weekly, qr_unit = UnitToken\<rparr>"

definition demo_snapshot :: "u64 \<Rightarrow> quota_snapshot" where
  "demo_snapshot n = \<lparr>sn_scope = qr_scope demo_request, sn_window = Weekly, sn_unit = UnitToken,
     sn_values = \<lparr>qv_used = MExact n, qv_limit = MInfinite, qv_remaining = MInfinite\<rparr>, sn_reset = ResetUnknown,
     sn_confidence = ConfDerived, sn_provenance = provenance_new LocalLedger ''x'' 7\<rparr>"

definition demo_adapter :: quota_adapter where
  "demo_adapter = \<lparr>qa_kind = LocalLedger, qa_supports = ledger_supports\<rparr>"

definition demo_outside :: "fetch_answer list \<Rightarrow> outside" where
  "demo_outside rs = \<lparr>out_now = 9, out_answers = rs, out_reader = (\<lambda>_. Inr []), out_reconciled_at = 8\<rparr>"

definition demo_steps :: "quota_step list" where
  "demo_steps = [StepRegister scope_match_any demo_adapter, StepCall demo_request, StepCall demo_request]
     @ replicate 5 (StepGo 0 (demo_outside [])) @ replicate 7 (StepGo 1 (demo_outside []))"

definition demo_start :: quota_service where
  "demo_start = quota_service_with_ttl 5"

lemma demo_step_facts:
  "lawful_run demo_steps demo_start"
  "length (qx_calls (run_steps demo_steps demo_start)) = 2"
  "(case state_of (run_steps demo_steps demo_start) 0 of CallFetching f cands \<Rightarrow> f = 0 | _ \<Rightarrow> False)"
  "(case state_of (run_steps demo_steps demo_start) 1 of CallAwaiting f n \<Rightarrow> f = 0 \<and> n = 0 | _ \<Rightarrow> False)"
  "map call_key (qx_calls (run_steps demo_steps demo_start)) = [request_key demo_request, request_key demo_request]"
  by code_simp+

lemma demo_reads:
  "quota_reachable (run_steps demo_steps demo_start)" "length (qx_calls (run_steps demo_steps demo_start)) = 2"
  "\<exists>cands. state_of (run_steps demo_steps demo_start) 0 = CallFetching 0 cands"
  "state_of (run_steps demo_steps demo_start) 1 = CallAwaiting 0 0"
  "call_key (qx_calls (run_steps demo_steps demo_start) ! 0) = request_key demo_request"
  "call_key (qx_calls (run_steps demo_steps demo_start) ! 1) = request_key demo_request"
proof -
  have "quota_reachable demo_start"
    unfolding demo_start_def by (rule reach_start)
  then show "quota_reachable (run_steps demo_steps demo_start)"
    using demo_step_facts(1) by (rule reachable_run)
  show "length (qx_calls (run_steps demo_steps demo_start)) = 2"
    by (rule demo_step_facts(2))
  show "\<exists>cands. state_of (run_steps demo_steps demo_start) 0 = CallFetching 0 cands"
    and "state_of (run_steps demo_steps demo_start) 1 = CallAwaiting 0 0"
    using demo_step_facts(3,4) by (auto split: call_state.splits)
  show "call_key (qx_calls (run_steps demo_steps demo_start) ! 0) = request_key demo_request"
    and "call_key (qx_calls (run_steps demo_steps demo_start) ! 1) = request_key demo_request"
    using demo_step_facts(5) by (auto simp: list_eq_iff_nth_eq demo_step_facts(2) numeral_2_eq_2 dest: spec [of _ 1])
qed

lemma one_fetch_per_key_witness:
  "(\<exists>cands. state_of (run_steps demo_steps demo_start) 0 = CallFetching 0 cands)
   \<and> call_key (qx_calls (run_steps demo_steps demo_start) ! 1) = call_key (qx_calls (run_steps demo_steps demo_start) ! 0)
   \<and> (\<forall>g cands. state_of (run_steps demo_steps demo_start) 1 \<noteq> CallFetching g cands)"
  using one_fetch_per_key [OF demo_reads(1), of 0 1] demo_reads by fastforce

lemma waiter_is_woken_witness:
  "\<exists>steps ow. length steps \<le> 4 \<and> quota_reachable (run_steps steps (run_steps demo_steps demo_start))
    \<and> state_of (run_steps (steps @ [StepGo 1 ow]) (run_steps demo_steps demo_start)) 1 = CallWaiting 0 None"
  using waiter_is_woken [OF demo_reads(1), of 1 0 0] demo_reads(2,4) by auto

lemma some_read_can_go_on_witness:
  "\<exists>j w. j < 2 \<and> lawful_step (StepGo j w) (run_steps demo_steps demo_start)
    \<and> state_of (quota_step_run (StepGo j w) (run_steps demo_steps demo_start)) j \<noteq> state_of (run_steps demo_steps demo_start) j"
  using some_read_can_go_on [OF demo_reads(1), of 1] demo_reads(2,4) by auto

end
