(* ===== verification/QuotaReadsSafe.thy ===== *)
theory QuotaReadsSafe
  imports QuotaReadsLive
begin

text \<open>
  What the reads of the quota service answer: the best of the adapters' answers, and never a snapshot of
  another scope, window or unit than the one asked for.
\<close>

subsection \<open>The choice among the answers\<close>

text \<open>Confidence first, then the later fetch.\<close>

definition at_least_as_good :: "quota_snapshot \<Rightarrow> quota_snapshot \<Rightarrow> bool" where
  "at_least_as_good a b \<longleftrightarrow> confidence_priority (sn_confidence b) < confidence_priority (sn_confidence a)
     \<or> confidence_priority (sn_confidence b) = confidence_priority (sn_confidence a)
       \<and> qp_fetched_at (sn_provenance b) \<le> qp_fetched_at (sn_provenance a)"

lemma source_rank_le: "source_rank a \<le> source_rank b \<longleftrightarrow> at_least_as_good a b"
  by (auto simp: source_rank_def at_least_as_good_def less_eq_prod_def word_le_def)

lemma sort_key_head:
  assumes "sort_key k xs = x # ys" and "y \<in> set xs"
  shows "k x \<le> k y"
proof -
  have "sorted (map k (x # ys))"
    using sorted_sort_key [of k xs] assms(1) by simp
  moreover have "y \<in> set (x # ys)"
    using set_sort [of k xs] assms by simp
  ultimately show ?thesis
    by auto
qed

lemma sort_key_head_in: "sort_key k xs = x # ys \<Longrightarrow> x \<in> set xs"
  using set_sort [of k xs] by auto

lemma set_successes: "sn \<in> set (successes rs) \<longleftrightarrow> (\<exists>k. (k, Inr sn) \<in> set rs)"
  by (force simp: successes_def List.map_filter_def split: sum.splits)

text \<open>
  A read without a reconciler answers with a snapshot some adapter gave, and none of the others is better (higher
  confidence, or the same confidence and fetched later); it fails only when every candidate failed. Either
  way the failure of each candidate is reported, in the order of the candidates.
\<close>

theorem best_answer_wins:
  assumes "cands \<noteq> []" and "length answers = length cands"
  shows "(case fetch_fresh cands answers None of
      ReadOk sn fs \<Rightarrow> Inr sn \<in> set answers \<and> (\<forall>sn'. Inr sn' \<in> set answers \<longrightarrow> at_least_as_good sn sn')
        \<and> fs = adapter_failures (zip (map qa_kind cands) answers)
    | ReadAllFailed fs \<Rightarrow> (\<forall>r \<in> set answers. \<exists>e. r = Inl e) \<and> fs = adapter_failures (zip (map qa_kind cands) answers)
        \<and> map qf_error fs = map projl answers)"
proof -
  let ?rs = "zip (map qa_kind cands) answers"
  have snd: "map snd ?rs = answers"
    using assms(2) by simp
  have some: "sn \<in> set (successes ?rs) \<longleftrightarrow> Inr sn \<in> set answers" for sn
  proof -
    have "(\<exists>k. (k, Inr sn) \<in> set ?rs) \<longleftrightarrow> Inr sn \<in> set (map snd ?rs)"
      by force
    then show ?thesis
      by (simp add: set_successes snd)
  qed
  show ?thesis
  proof (cases "sort_key source_rank (successes ?rs)")
    case Nil
    then have "successes ?rs = []"
      by (metis length_0_conv length_sort)
    then have none: "\<forall>r \<in> set answers. \<exists>e. r = Inl e"
      using some by (metis empty_iff list.set(1) obj_sumE)
    have "map qf_error (adapter_failures rs) = map (projl \<circ> snd) rs" if "\<forall>r \<in> set (map snd rs). \<exists>e. r = Inl e"
      for rs :: "(adapter_kind \<times> fetch_answer) list"
      using that by (induction rs) (auto simp: adapter_failures_def List.map_filter_simps adapter_failure_def)
    from this [of ?rs] have "map qf_error (adapter_failures ?rs) = map projl answers"
      using none snd by (metis map_map)
    then show ?thesis
      using Nil none assms(1) by (simp add: fetch_fresh_def Let_def)
  next
    case (Cons best others)
    then have "Inr best \<in> set answers" and "\<forall>sn'. Inr sn' \<in> set answers \<longrightarrow> at_least_as_good best sn'"
      using sort_key_head_in [OF Cons] sort_key_head [OF Cons] some source_rank_le by blast+
    then show ?thesis
      using Cons assms(1) by (simp add: fetch_fresh_def overlay_ledger_delta_def Let_def)
  qed
qed

definition demo_rated :: "confidence \<Rightarrow> u64 \<Rightarrow> quota_snapshot" where
  "demo_rated cf at = (demo_snapshot 1)\<lparr>sn_confidence := cf, sn_provenance := provenance_new ApiKeyApi ''x'' at\<rparr>"

lemma best_answer_wins_witness:
  "\<exists>fs. fetch_fresh [demo_adapter, demo_adapter, demo_adapter] [Inr (demo_rated ConfScraped 9), Inl QCancelled, Inr (demo_rated ConfExact 3)] None
    = ReadOk (demo_rated ConfExact 3) fs \<and> map qf_error fs = [QCancelled]"
proof -
  let ?as = "[Inr (demo_rated ConfScraped 9), Inl QCancelled, Inr (demo_rated ConfExact 3)] :: fetch_answer list"
  have "\<not> at_least_as_good (demo_rated ConfScraped 9) (demo_rated ConfExact 3)"
    by (simp add: at_least_as_good_def demo_rated_def)
  then show ?thesis
    using best_answer_wins [of "[demo_adapter, demo_adapter, demo_adapter]" ?as]
    by (auto split: read_outcome.splits simp: adapter_failures_def List.map_filter_simps adapter_failure_def)
qed

subsection \<open>Answers are about their request\<close>

text \<open>
  What the service relies on in an adapter: its snapshots are about the request. The adapter over the usage ledger
  keeps this; so candidates that all do give lawful steps.
\<close>

locale quota_source =
  fixes answer :: "quota_request \<Rightarrow> fetch_answer"
  assumes answer_key: "answer rq = Inr sn \<Longrightarrow> snapshot_key sn = request_key rq"
begin

lemma one_answer: "answers_about (request_key rq) [answer rq]"
  using answer_key by (auto simp: answers_about_def split: sum.split)

lemma answers_append: "answers_about (request_key rq) rs \<Longrightarrow> answers_about (request_key rq) (answer rq # rs)"
  using one_answer [of rq] by (simp add: answers_about_def)

end

interpretation ledger_source: quota_source "ledger_fetch cap query now b a"
  by unfold_locales (auto simp: ledger_fetch_def snapshot_key_def request_key_def Let_def split: if_splits sum.splits)

fun outcome_about :: "cache_key \<Rightarrow> read_outcome \<Rightarrow> bool" where
  "outcome_about k (ReadOk sn fs) = (snapshot_key sn = k)"
| "outcome_about k (ReadAllFailed fs) = True"

definition result_about :: "cache_key \<Rightarrow> read_result \<Rightarrow> bool" where
  "result_about k r = (case r of
     Inr rd \<Rightarrow> snapshot_key (rd_snapshot rd) = k \<and> (rd_stale rd \<longrightarrow> qp_stale (sn_provenance (rd_snapshot rd)))
   | Inl fs \<Rightarrow> True)"

fun state_about :: "cache_key \<Rightarrow> call_state \<Rightarrow> bool" where
  "state_about k (CallPublish f oc) = outcome_about k oc"
| "state_about k (CallDone r) = result_about k r"
| "state_about k st = (\<forall>f oc. published st = Some (f, oc) \<longrightarrow> outcome_about k oc)"

definition call_about :: "quota_call \<Rightarrow> bool" where
  "call_about c \<longleftrightarrow> (\<forall>e. qc_stale c = Some e \<longrightarrow> snapshot_key (ce_snapshot e) = call_key c)
     \<and> state_about (call_key c) (qc_state c)"

definition cache_about :: "quota_cache \<Rightarrow> bool" where
  "cache_about c \<longleftrightarrow> (\<forall>k e. (k, e) \<in> set c \<longrightarrow> snapshot_key (ce_snapshot e) = k)"

definition flight_about :: "flight \<Rightarrow> bool" where
  "flight_about x \<longleftrightarrow> (\<forall>oc. fl_result x = Some oc \<longrightarrow> outcome_about (fl_key x) oc)"

definition reads_about :: "quota_service \<Rightarrow> bool" where
  "reads_about s \<longleftrightarrow> cache_about (qx_cache s) \<and> list_all flight_about (qx_flights s) \<and> list_all call_about (qx_calls s)"

lemma cache_aboutD: "cache_about c \<Longrightarrow> map_of c k = Some e \<Longrightarrow> snapshot_key (ce_snapshot e) = k"
  by (auto simp: cache_about_def dest: map_of_SomeD)

lemma set_AList_update: "set (AList.update k v xs) \<subseteq> insert (k, v) (set xs)"
  by (induction xs) auto

lemma cache_about_put: "cache_about c \<Longrightarrow> snapshot_key sn = k \<Longrightarrow> cache_about (cache_put k sn at c)"
  using set_AList_update [of k "\<lparr>ce_snapshot = sn, ce_stored_at = at\<rparr>" c]
  unfolding cache_about_def cache_put_def by fastforce

lemma cache_about_remove: "cache_about c \<Longrightarrow> cache_about (remove_local_for_scope sc c)"
  by (auto simp: cache_about_def remove_local_for_scope_def)

lemma reconcile_key: "reconcile query now b a remote = Inr sn \<Longrightarrow> snapshot_key sn = snapshot_key remote"
  by (auto simp: reconcile_def snapshot_key_def split: if_splits sum.splits)

lemma fetch_fresh_about:
  assumes "answers_about k answers" and "length answers = length cands"
    and "\<And>rc sn sn'. reconciler = Some rc \<Longrightarrow> rc sn = Inr sn' \<Longrightarrow> snapshot_key sn' = snapshot_key sn"
  shows "outcome_about k (fetch_fresh cands answers reconciler)"
proof (cases "cands = [] \<or> sort_key source_rank (successes (zip (map qa_kind cands) answers)) = []")
  case True
  then show ?thesis
    by (auto simp: fetch_fresh_def Let_def)
next
  case False
  then obtain best others where b: "sort_key source_rank (successes (zip (map qa_kind cands) answers)) = best # others"
    by (meson list.exhaust)
  then have "best \<in> set (successes (zip (map qa_kind cands) answers))"
    by (rule sort_key_head_in)
  then have "snapshot_key best = k"
    using assms(1) by (auto simp: set_successes answers_about_def list_all_iff dest!: set_zip_rightD)
  then show ?thesis
    using b False assms(3) by (auto simp: fetch_fresh_def overlay_ledger_delta_def Let_def split: option.split sum.split)
qed

subsection \<open>Every step keeps it\<close>

lemma reads_about_set_call:
  "reads_about s \<Longrightarrow> call_about c \<Longrightarrow> reads_about (set_call i c s)"
  by (auto simp: reads_about_def list_all_iff dest!: set_update_subset_insert [THEN subsetD])

lemma reads_about_set_flight:
  "reads_about s \<Longrightarrow> flight_about x \<Longrightarrow> reads_about (set_flight f x s)"
  by (auto simp: reads_about_def list_all_iff dest!: set_update_subset_insert [THEN subsetD])

lemma call_aboutD: "reads_about s \<Longrightarrow> i < length (qx_calls s) \<Longrightarrow> call_about (qx_calls s ! i)"
  by (simp add: reads_about_def list_all_length)

lemma flight_aboutD: "reads_about s \<Longrightarrow> f < length (qx_flights s) \<Longrightarrow> flight_about (qx_flights s ! f)"
  by (simp add: reads_about_def list_all_length)

lemma call_about_move: "call_about c \<Longrightarrow> state_about (call_key c) st \<Longrightarrow> call_about (c\<lparr>qc_state := st\<rparr>)"
  by (simp add: call_about_def call_key_def)

lemma reads_about_move:
  assumes "reads_about s" and "i < length (qx_calls s)" and "state_about (call_key (qx_calls s ! i)) st"
  shows "reads_about (move i (qx_calls s ! i) st s)"
  unfolding move_def using assms by (intro reads_about_set_call call_about_move call_aboutD)

lemma reads_about_notify:
  assumes "reads_about s" and "f < length (qx_flights s)"
  shows "reads_about (notify_waiters f s)"
proof -
  have "flight_about ((qx_flights s ! f)\<lparr>fl_notified := n\<rparr>)" for n
    using flight_aboutD [OF assms] by (simp add: flight_about_def)
  then show ?thesis
    unfolding notify_waiters_def using assms(1) by (intro reads_about_set_flight)
qed

lemma outcome_result_about:
  assumes "call_about c" and "outcome_about (call_key c) oc"
  shows "result_about (call_key c) (outcome_result (qc_stale c) oc)"
  using assms by (cases oc) (auto simp: outcome_result_def result_about_def call_about_def snapshot_key_def Let_def split: option.split)

lemma reads_about_advance:
  assumes ab: "reads_about s" and wf: "quota_wf s" and i: "i < length (qx_calls s)" and law: "lawful_step (StepGo i w) s"
  shows "reads_about (advance i (qx_calls s ! i) (state_of s i) w s)"
proof -
  let ?c = "qx_calls s ! i"
  let ?k = "call_key ?c"
  note go = reads_about_move [OF ab i]
  have c: "call_about ?c"
    using call_aboutD [OF ab i] .
  have cache: "map_of (qx_cache s) ?k = Some e \<Longrightarrow> snapshot_key (ce_snapshot e) = ?k" for e
    using ab by (auto simp: reads_about_def dest: cache_aboutD)
  have place: "f < length (qx_flights s) \<and> fl_key (qx_flights s ! f) = ?k" if "flight_of (state_of s i) = Some f" for f
    using placed_at [of s i f] wf i that by (simp add: quota_wf_def)
  have st: "state_about ?k (state_of s i)"
    using c by (simp add: call_about_def)
  show ?thesis
  proof (cases "state_of s i")
    case CallStart
    then show ?thesis
      using go cache by (auto simp: begin_read_def result_about_def split: sum.split option.split)
  next
    case CallFallback
    have "call_about (?c\<lparr>qc_stale := map_of (qx_cache s) ?k, qc_state := CallEnter\<rparr>)"
      using cache by (auto simp: call_about_def call_key_def)
    then show ?thesis
      using CallFallback reads_about_set_call [OF ab] by (simp add: take_fallback_def)
  next
    case CallEnter
    have "reads_about (add_flight ?k s)"
      using ab by (simp add: reads_about_def add_flight_def flight_about_def flight_new_def)
    then have "reads_about (move i ?c (CallClaim f) (add_flight ?k s))" for f
      using reads_about_move [of "add_flight ?k s" i "CallClaim f"] i by (simp add: add_flight_def)
    then show ?thesis
      using CallEnter go by (simp add: enter_flight_def add_flight_def Let_def split: option.split)
  next
    case (CallClaim f)
    have "flight_about ((qx_flights s ! f)\<lparr>fl_alive := True\<rparr>)"
      using flight_aboutD [OF ab, of f] place [of f] CallClaim by (auto simp: flight_about_def)
    then have "reads_about (move i ?c (CallAsk f) (set_flight f ((qx_flights s ! f)\<lparr>fl_alive := True\<rparr>) s))"
      using reads_about_move [of "set_flight f ((qx_flights s ! f)\<lparr>fl_alive := True\<rparr>) s" i "CallAsk f"] i
        reads_about_set_flight [OF ab] by simp
    then show ?thesis
      using CallClaim go by (simp add: claim_flight_def try_claim_leader_def)
  next
    case (CallFetching f cands)
    let ?rc = "if qx_reconciles s then Some (reconcile (out_reader w) (out_reconciled_at w) False False) else None"
    let ?oc = "fetch_fresh cands (out_answers w) ?rc"
    let ?cache = "case snapshot_for_cache ?oc of Some sn \<Rightarrow> cache_put ?k sn (out_now w) (qx_cache s) | None \<Rightarrow> qx_cache s"
    have oc: "outcome_about ?k ?oc"
      using law i CallFetching reconcile_key
      by (intro fetch_fresh_about) (auto simp: lawful_step_def split: if_splits)
    have "cache_about ?cache"
      using ab oc cache_about_put by (cases ?oc) (auto simp: reads_about_def)
    then have "reads_about (s\<lparr>qx_cache := ?cache\<rparr>)"
      using ab by (simp add: reads_about_def)
    then show ?thesis
      using reads_about_move [of "s\<lparr>qx_cache := ?cache\<rparr>" i "CallPublish f ?oc"] i oc CallFetching
      by (simp add: finish_work_def Let_def)
  next
    case (CallPublish f oc)
    have "flight_about ((qx_flights s ! f)\<lparr>fl_result := Some oc\<rparr>)"
      using st place [of f] CallPublish by (simp add: flight_about_def)
    then show ?thesis
      using CallPublish st i reads_about_move [of "set_flight f ((qx_flights s ! f)\<lparr>fl_result := Some oc\<rparr>) s" i "CallPublished f oc"]
        reads_about_set_flight [OF ab] by (simp add: publish_result_def)
  next
    case (CallPublished f oc)
    then show ?thesis
      using st i place [of f] reads_about_move [OF reads_about_notify [OF ab], of f i "CallRelease f (EndOutcome oc)"] by simp
  next
    case (CallRelease f en)
    have "flight_about ((qx_flights s ! f)\<lparr>fl_alive := False\<rparr>)"
      using flight_aboutD [OF ab, of f] place [of f] CallRelease by (auto simp: flight_about_def)
    moreover have "state_about ?k (CallReleased f en)"
      using st CallRelease by (cases en) simp_all
    ultimately show ?thesis
      using CallRelease i reads_about_move [of "set_flight f ((qx_flights s ! f)\<lparr>fl_alive := False\<rparr>) s" i "CallReleased f en"]
        reads_about_set_flight [OF ab] by (simp add: release_leader_def)
  next
    case (CallReleased f en)
    have "state_about ?k (after_release f en)"
      using st CallReleased by (cases en) (simp_all add: after_release_def cancelled_result_def result_about_def)
    then show ?thesis
      using CallReleased i place [of f] reads_about_move [OF reads_about_notify [OF ab], of f i "after_release f en"] by simp
  next
    case (CallRetire f oc)
    have "reads_about (set_call i (?c\<lparr>qc_state := CallDone (outcome_result (qc_stale ?c) oc)\<rparr>) s)"
      using st CallRetire outcome_result_about [OF c] call_about_move [OF c] by (intro reads_about_set_call [OF ab]) simp
    then show ?thesis
      using CallRetire by (simp add: retire_flight_def move_def set_call_def reads_about_def)
  next
    case (CallRegister f)
    then show ?thesis
      using go by simp
  next
    case (CallWaiting f n)
    then have "fl_result (qx_flights s ! f) = Some oc \<Longrightarrow> outcome_about ?k oc" for oc
      using flight_aboutD [OF ab, of f] place [of f] by (auto simp: flight_about_def)
    then show ?thesis
      using CallWaiting go outcome_result_about [OF c] by (simp add: look_at_result_def split: option.split)
  next
    case (CallChecked f n)
    have "call_about (?c\<lparr>qc_promotions := p, qc_state := CallEnter\<rparr>)"
      "call_about (?c\<lparr>qc_promotions := p, qc_state := CallDone exhausted_result\<rparr>)" for p
      using c by (auto simp: call_about_def call_key_def exhausted_result_def result_about_def)
    then show ?thesis
      using CallChecked go reads_about_set_call [OF ab] by (simp add: look_at_leader_def leader_died_def Let_def split: option.split)
  next
    case (CallAwaiting f n)
    then show ?thesis
      using go ab by simp
  qed (use ab go in simp_all)
qed

lemma reads_about_step:
  assumes "reads_about s" and "quota_wf s" and "lawful_step st s"
  shows "reads_about (quota_step_run st s)"
proof (cases st)
  case (StepCall rq)
  then show ?thesis
    using assms(1) by (simp add: reads_about_def new_call_def call_about_def)
next
  case (StepGo i w)
  then show ?thesis
    using reads_about_advance [OF assms(1,2)] assms(1,3) by simp
next
  case (StepCancel i)
  then show ?thesis
    using assms(1) reads_about_move [OF assms(1), of i]
    by (cases "state_of s i") (simp_all add: cancelled_result_def result_about_def)
next
  case (StepDrop i)
  then show ?thesis
    using assms(1) reads_about_move [OF assms(1), of i] by (cases "state_of s i") simp_all
next
  case (StepPublishLocal sn now)
  then show ?thesis
    using assms(1) cache_about_put by (auto simp: publish_local_snapshot_def reads_about_def split: sum.split)
qed (use assms(1) cache_about_remove in
    \<open>auto simp: register_adapter_def invalidate_local_scope_def set_ledger_reconciler_def reads_about_def\<close>)

lemma reads_about_reachable: "quota_reachable s \<Longrightarrow> reads_about s"
proof (induction rule: quota_reachable.induct)
  case (reach_start ttl)
  then show ?case
    by (simp add: reads_about_def cache_about_def quota_service_with_ttl_def)
next
  case (reach_step s st)
  then show ?case
    using reads_about_step wf_reachable by blast
qed

text \<open>
  C19: No read is answered with the quota of another tenant, account, credential, provider, model, window or unit, be
  it from the cache, from the stale fallback, from a fetch shared with other callers or from published local
  snapshots, as long as each adapter answers about the request it is given; and an answer marked stale
  carries that mark in its provenance too.
\<close>

theorem reads_are_about_their_request:
  assumes "quota_reachable s" and "i < length (qx_calls s)" and "state_of s i = CallDone (Inr rd)"
  shows "sn_scope (rd_snapshot rd) = qr_scope (qc_request (qx_calls s ! i))
    \<and> sn_window (rd_snapshot rd) = qr_window (qc_request (qx_calls s ! i))
    \<and> sn_unit (rd_snapshot rd) = qr_unit (qc_request (qx_calls s ! i))
    \<and> (rd_stale rd \<longrightarrow> qp_stale (sn_provenance (rd_snapshot rd)))"
  using call_aboutD [OF reads_about_reachable [OF assms(1)] assms(2)] assms(3)
  by (simp add: call_about_def result_about_def call_key_def request_key_def snapshot_key_def)

text \<open>The two readers of the run before, to their common answer.\<close>

definition demo_end :: quota_service where
  "demo_end = run_steps (demo_steps @ replicate 6 (StepGo 0 (demo_outside [Inr (demo_snapshot 5)]))
     @ replicate 3 (StepGo 1 (demo_outside []))) demo_start"

lemma demo_end_facts:
  "lawful_run (demo_steps @ replicate 6 (StepGo 0 (demo_outside [Inr (demo_snapshot 5)]))
     @ replicate 3 (StepGo 1 (demo_outside []))) demo_start"
  "length (qx_calls demo_end) = 2" "qc_request (qx_calls demo_end ! 1) = demo_request"
  "(case state_of demo_end 1 of CallDone (Inr rd) \<Rightarrow> qv_used (sn_values (rd_snapshot rd)) = MExact 5 | _ \<Rightarrow> False)"
  by code_simp+

lemma reads_are_about_their_request_witness:
  "\<exists>rd. state_of demo_end 1 = CallDone (Inr rd) \<and> qv_used (sn_values (rd_snapshot rd)) = MExact 5
    \<and> sn_scope (rd_snapshot rd) = qr_scope demo_request \<and> sn_unit (rd_snapshot rd) = UnitToken"
proof -
  have "quota_reachable demo_end"
    using reachable_run [OF reach_start] demo_end_facts(1) by (simp add: demo_end_def demo_start_def)
  moreover obtain rd where "state_of demo_end 1 = CallDone (Inr rd)" "qv_used (sn_values (rd_snapshot rd)) = MExact 5"
    using demo_end_facts(4) by (auto split: call_state.splits sum.splits)
  ultimately show ?thesis
    using reads_are_about_their_request [of demo_end 1 rd] demo_end_facts(2,3) by (auto simp: demo_request_def)
qed

end
