(* ===== verification/Timeline.thy ===== *)
theory Timeline
  imports EngineMsg "HOL-Library.Product_Lexorder"
begin

text \<open>
  The timeline of a session as a client shows it, \<open>crates/protocol/src/projection/mod.rs\<close>: one reducer for
  the pages of persisted history and for live events. Strings are UTF-8 bytes; the JSON parser and the
  reading of a usage record are \<open>serde_json\<close>'s and are arguments.
\<close>

subsection \<open>Items and events\<close>

datatype item_kind =
    TkUserMessage | TkAssistantDelta | TkThinkingDelta | TkAssistantMessage | TkToolStarted | TkToolOutput
  | TkToolCompleted | TkApprovalRequested | TkApprovalResponded | TkRunStarted | TkRunCompleted | TkRunCancelled
  | TkRunFailed | TkDiagnostic | TkOther

record timeline_item =
  ti_sequence :: u64
  ti_event_id :: string
  ti_kind :: item_kind
  ti_run :: "string option"
  ti_text :: "string option"
  ti_message :: "string option"
  ti_thinking :: "string option"
  ti_tool_name :: "string option"
  ti_status :: "string option"
  ti_detail :: "string option"
  ti_timestamp :: string

datatype run_state =
    RsCreated | RsPreparingContext | RsWaitingForProvider | RsStreamingResponse | RsCollectingToolCalls
  | RsWaitingForApproval | RsExecutingTools | RsAppendingToolResults | RsCompleted | RsCancelled | RsFailed | RsInterrupted

text \<open>The events the timeline reads; all others are \<open>EvOther\<close>.\<close>

datatype app_event =
    EvRunChanged string run_state
  | EvAssistantDelta string string string
  | EvThinkingDelta string string string
  | EvToolStarted string string string
  | EvToolOutput string string string
  | EvToolCompleted string string bool
  | EvDiagnostic string string
  | EvOther

record app_envelope =
  ev_sequence :: u64
  ev_event_id :: string
  ev_timestamp :: u64
  ev_payload :: app_event

subsection \<open>Entries\<close>

datatype entry_kind =
    EkUserMessage string
  | EkAssistantMessage string
  | EkThinking string
  | EkToolCall string string "string option" "string option"
  | EkRunState string
  | EkError string

datatype fork_boundary = ForkCompleted | ForkCancelled | ForkFailed

record timeline_entry =
  te_sequence :: u64
  te_event_id :: string
  te_kind :: entry_kind
  te_fork :: "fork_boundary option"
  te_timestamp :: string
  te_run :: "string option"

definition is_fork_boundary :: "timeline_entry \<Rightarrow> bool" where
  "is_fork_boundary e \<longleftrightarrow> te_fork e \<noteq> None"

text \<open>The fragments of a stream that is not committed: event id, time and text by sequence.\<close>

record assistant_anchor =
  aa_run :: "string option"
  aa_message :: "string option"
  aa_event_id :: string
  aa_sequence :: u64
  aa_committed :: bool
  aa_thinking :: bool
  aa_fragments :: "(u64, string \<times> string \<times> string) btree"

record tool_anchor =
  ta_run :: "string option"
  ta_call :: "string option"
  ta_name :: "string option"
  ta_event_id :: string
  ta_sequence :: u64
  ta_completed :: "u64 option"

record timeline =
  tl_entries :: "timeline_entry list"
  tl_seen :: "u64 set"
  tl_assistants :: "assistant_anchor list"
  tl_tools :: "tool_anchor list"
  tl_arguments :: "(string \<times> string, (u64, string) btree) btree"
  tl_usages :: "(string, token_usage) btree"

definition timeline_empty :: timeline where
  "timeline_empty = \<lparr>tl_entries = [], tl_seen = {}, tl_assistants = [], tl_tools = [], tl_arguments = [], tl_usages = []\<rparr>"

subsection \<open>Lists\<close>

fun position :: "('a \<Rightarrow> bool) \<Rightarrow> 'a list \<Rightarrow> nat option" where
  "position P [] = None"
| "position P (x # xs) = (if P x then Some 0 else map_option Suc (position P xs))"

definition remove_nth :: "nat \<Rightarrow> 'a list \<Rightarrow> 'a list" where
  "remove_nth i xs = take i xs @ drop (Suc i) xs"

text \<open>\<open>Iterator::min_by_key\<close> keeps the first of equal elements, \<open>max_by_key\<close> the last.\<close>

fun min_by_key :: "('a \<Rightarrow> 'k::linorder) \<Rightarrow> 'a list \<Rightarrow> 'a option" where
  "min_by_key k [] = None"
| "min_by_key k (x # xs) =
     (case min_by_key k xs of None \<Rightarrow> Some x | Some y \<Rightarrow> (if k x \<le> k y then Some x else Some y))"

fun max_by_key :: "('a \<Rightarrow> 'k::linorder) \<Rightarrow> 'a list \<Rightarrow> 'a option" where
  "max_by_key k [] = None"
| "max_by_key k (x # xs) =
     (case max_by_key k xs of None \<Rightarrow> Some x | Some y \<Rightarrow> (if k y < k x then Some x else Some y))"

definition or_else :: "'a option \<Rightarrow> 'a option \<Rightarrow> 'a option" where
  "or_else a b = (case a of Some x \<Rightarrow> Some x | None \<Rightarrow> b)"

definition or_empty :: "string option \<Rightarrow> string" where
  "or_empty s = (case s of Some x \<Rightarrow> x | None \<Rightarrow> [])"

subsection \<open>Entries by place and identity\<close>

text \<open>
  \<open>Vec::partition_point\<close> on a vector that is partitioned, which the entries are because they stay sorted.
\<close>

fun is_thinking :: "entry_kind \<Rightarrow> bool" where
  "is_thinking (EkThinking _) = True"
| "is_thinking _ = False"

definition entry_rank :: "timeline_entry \<Rightarrow> u64 \<times> bool" where
  "entry_rank e = (te_sequence e, \<not> is_thinking (te_kind e))"

definition insert_entry :: "timeline_entry \<Rightarrow> timeline_entry list \<Rightarrow> timeline_entry list" where
  "insert_entry e es =
     takeWhile (\<lambda>x. entry_rank x < entry_rank e) es @ e # dropWhile (\<lambda>x. entry_rank x < entry_rank e) es"

definition entry_index_by_identity :: "string \<Rightarrow> u64 \<Rightarrow> timeline_entry list \<Rightarrow> nat option" where
  "entry_index_by_identity i s es =
     or_else (position (\<lambda>e. te_event_id e = i) es) (position (\<lambda>e. te_sequence e = s) es)"

definition anchor_after_insert :: "string \<Rightarrow> u64 \<Rightarrow> timeline_entry list \<Rightarrow> (string \<times> u64) option" where
  "anchor_after_insert i s es =
     map_option (\<lambda>ix. (te_event_id (es ! ix), te_sequence (es ! ix))) (entry_index_by_identity i s es)"

definition put_entry :: "timeline_entry \<Rightarrow> timeline \<Rightarrow> timeline" where
  "put_entry e t = t\<lparr>tl_entries := insert_entry e (tl_entries t)\<rparr>"

definition see :: "u64 \<Rightarrow> timeline \<Rightarrow> timeline" where
  "see s t = t\<lparr>tl_seen := insert s (tl_seen t)\<rparr>"

subsection \<open>Context of tool items\<close>

definition tool_context_id_key :: string where
  "tool_context_id_key = ''_pawork_tool_call_id''"

definition tool_context_detail_key :: string where
  "tool_context_detail_key = ''detail''"

definition parse_tool_timeline_context :: "(string \<Rightarrow> json option) \<Rightarrow> string option \<Rightarrow> string option \<times> string option" where
  "parse_tool_timeline_context rd detail =
     (case detail of
        None \<Rightarrow> (None, None)
      | Some raw \<Rightarrow>
          (case rd raw of
             None \<Rightarrow> (None, Some raw)
           | Some v \<Rightarrow>
               (case get_str tool_context_id_key v of
                  None \<Rightarrow> (None, Some raw)
                | Some c \<Rightarrow> (Some c, get_str tool_context_detail_key v))))"

end
