(* ===== verification/TimelineFold.thy ===== *)
theory TimelineFold
  imports Timeline
begin

text \<open>The reducer itself: assistant streams, tools, history items and live events.\<close>

subsection \<open>Assistant streams\<close>

definition same_stream :: "string option \<Rightarrow> bool \<Rightarrow> assistant_anchor \<Rightarrow> bool" where
  "same_stream run thinking a \<longleftrightarrow> aa_run a = run \<and> aa_thinking a = thinking"

definition assistant_anchor_index ::
  "string option \<Rightarrow> string option \<Rightarrow> bool \<Rightarrow> u64 \<Rightarrow> bool \<Rightarrow> assistant_anchor list \<Rightarrow> nat option" where
  "assistant_anchor_index run msg thinking s committed as =
     (case (if msg = None then None else position (\<lambda>a. same_stream run thinking a \<and> aa_message a = msg) as) of
        Some i \<Rightarrow> Some i
      | None \<Rightarrow>
          (let cands = filter (\<lambda>(i, a). same_stream run thinking a \<and> (msg = None \<or> aa_message a = None)) (List.enumerate 0 as) in
           case (if committed then None
                 else min_by_key (\<lambda>(i, a). aa_sequence a) (filter (\<lambda>(i, a). aa_committed a \<and> s < aa_sequence a) cands)) of
             Some (i, a) \<Rightarrow> Some i
           | None \<Rightarrow>
               map_option fst (max_by_key (\<lambda>(i, a). aa_sequence a)
                 (filter (\<lambda>(i, a). \<not> aa_committed a \<and> (\<not> committed \<or> aa_sequence a < s)) cands))))"

definition assistant_event_id :: "string \<Rightarrow> string option \<Rightarrow> string option \<Rightarrow> bool \<Rightarrow> string" where
  "assistant_event_id ev run msg thinking =
     (if thinking
      then (case msg of
              Some m \<Rightarrow> ''thinking:'' @ or_empty run @ '':'' @ m
            | None \<Rightarrow> ev @ '':thinking'')
      else ev)"

definition drop_entries :: "string \<Rightarrow> timeline_entry list \<Rightarrow> timeline_entry list" where
  "drop_entries i es = filter (\<lambda>e. te_event_id e \<noteq> i) es"

definition text_kind :: "bool \<Rightarrow> string \<Rightarrow> entry_kind" where
  "text_kind thinking s = (if thinking then EkThinking s else EkAssistantMessage s)"

definition assistant_entry :: "u64 \<Rightarrow> string \<Rightarrow> bool \<Rightarrow> string \<Rightarrow> string \<Rightarrow> string option \<Rightarrow> timeline_entry" where
  "assistant_entry s i thinking text ts run =
     \<lparr>te_sequence = s, te_event_id = i, te_kind = text_kind thinking text, te_fork = None, te_timestamp = ts, te_run = run\<rparr>"

text \<open>Where a committed thought stays: at the entry its stream had, if any.\<close>

definition commit_place :: "bool \<Rightarrow> assistant_anchor option \<Rightarrow> timeline_item \<Rightarrow> timeline_entry list \<Rightarrow> u64 \<times> string" where
  "commit_place thinking previous item es =
     (case (if thinking then previous else None) of
        Some a \<Rightarrow>
          (case find (\<lambda>e. te_event_id e = aa_event_id a) es of
             Some e \<Rightarrow> (te_sequence e, te_timestamp e)
           | None \<Rightarrow> (ti_sequence item, ti_timestamp item))
      | None \<Rightarrow> (ti_sequence item, ti_timestamp item))"

definition commit_assistant_text :: "timeline_item \<Rightarrow> bool \<Rightarrow> string \<Rightarrow> timeline \<Rightarrow> timeline" where
  "commit_assistant_text item thinking text t =
     (let index = assistant_anchor_index (ti_run item) (ti_message item) thinking (ti_sequence item) True (tl_assistants t);
          previous = map_option (\<lambda>i. tl_assistants t ! i) index;
          anchors = (case index of Some i \<Rightarrow> remove_nth i (tl_assistants t) | None \<Rightarrow> tl_assistants t);
          (s, ts) = commit_place thinking previous item (tl_entries t);
          es = (case previous of Some a \<Rightarrow> drop_entries (aa_event_id a) (tl_entries t) | None \<Rightarrow> tl_entries t);
          msg = or_else (ti_message item) (Option.bind previous aa_message);
          i = assistant_event_id (ti_event_id item) (ti_run item) msg thinking
      in t\<lparr>tl_entries := (if \<not> thinking \<or> text \<noteq> [] then insert_entry (assistant_entry s i thinking text ts (ti_run item)) es else es),
           tl_assistants := anchors @ [\<lparr>aa_run = ti_run item, aa_message = msg, aa_event_id = i, aa_sequence = s,
             aa_committed = True, aa_thinking = thinking, aa_fragments = []\<rparr>]\<rparr>)"

definition new_stream :: "u64 \<Rightarrow> string option \<Rightarrow> string option \<Rightarrow> bool \<Rightarrow> assistant_anchor" where
  "new_stream s run msg thinking = \<lparr>aa_run = run, aa_message = msg, aa_event_id = [], aa_sequence = s, aa_committed = False,
     aa_thinking = thinking, aa_fragments = []\<rparr>"

text \<open>A fragment joins its stream, whose entry is written anew.\<close>

definition join_stream ::
  "u64 \<Rightarrow> string \<Rightarrow> string \<Rightarrow> string option \<Rightarrow> string option \<Rightarrow> string \<Rightarrow> bool \<Rightarrow> assistant_anchor \<Rightarrow> timeline \<Rightarrow> timeline" where
  "join_stream s ev ts run msg delta thinking a t =
     (let es = drop_entries (aa_event_id a) (tl_entries t);
          m = or_else (aa_message a) msg;
          fs = bt_put s (ev, ts, delta) (aa_fragments a);
          (first_s, first_ev, first_ts, _) = hd fs;
          text = concat (map (\<lambda>(_, _, d). d) (bt_values fs));
          i = assistant_event_id first_ev run m thinking
      in t\<lparr>tl_entries := insert_entry (assistant_entry first_s i thinking text first_ts (aa_run a)) es,
           tl_assistants := tl_assistants t @ [a\<lparr>aa_message := m, aa_event_id := i, aa_sequence := first_s, aa_fragments := fs\<rparr>]\<rparr>)"

text \<open>A late fragment of a committed stream: a thought may move up to where it began.\<close>

definition late_fragment :: "u64 \<Rightarrow> string \<Rightarrow> bool \<Rightarrow> nat \<Rightarrow> timeline \<Rightarrow> bool \<times> timeline" where
  "late_fragment s ts thinking i t =
     (let a = tl_assistants t ! i in
      if thinking \<and> s < aa_sequence a
      then (case position (\<lambda>e. te_event_id e = aa_event_id a) (tl_entries t) of
              Some ix \<Rightarrow>
                (True, t\<lparr>tl_assistants := (tl_assistants t)[i := a\<lparr>aa_sequence := s\<rparr>],
                   tl_entries := insert_entry ((tl_entries t ! ix)\<lparr>te_sequence := s, te_timestamp := ts\<rparr>)
                     (remove_nth ix (tl_entries t))\<rparr>)
            | None \<Rightarrow> (False, t))
      else (False, t))"

definition append_assistant_delta ::
  "u64 \<Rightarrow> string \<Rightarrow> string \<Rightarrow> string option \<Rightarrow> string option \<Rightarrow> string \<Rightarrow> bool \<Rightarrow> timeline \<Rightarrow> bool \<times> timeline" where
  "append_assistant_delta s ev ts run msg delta thinking t =
     (case assistant_anchor_index run msg thinking s False (tl_assistants t) of
        Some i \<Rightarrow>
          (if aa_committed (tl_assistants t ! i) then late_fragment s ts thinking i t
           else (True, join_stream s ev ts run msg delta thinking (tl_assistants t ! i)
                         (t\<lparr>tl_assistants := remove_nth i (tl_assistants t)\<rparr>)))
      | None \<Rightarrow> (True, join_stream s ev ts run msg delta thinking (new_stream s run msg thinking) t))"

subsection \<open>Tools\<close>

fun set_arguments :: "string \<Rightarrow> entry_kind \<Rightarrow> entry_kind" where
  "set_arguments args (EkToolCall n st d _) = EkToolCall n st d (Some args)"
| "set_arguments args k = k"

text \<open>The body of the loop of \<open>refresh_tool_arguments\<close>.\<close>

definition refresh_anchor ::
  "(string \<times> string, (u64, string) btree) btree \<Rightarrow> tool_anchor \<Rightarrow> timeline_entry list \<Rightarrow> timeline_entry list" where
  "refresh_anchor args a es =
     (case (ta_run a, ta_call a) of
        (Some run, Some call) \<Rightarrow>
          (case bt_get args (run, call) of
             None \<Rightarrow> es
           | Some parts \<Rightarrow>
               (case entry_index_by_identity (ta_event_id a) (ta_sequence a) es of
                  None \<Rightarrow> es
                | Some ix \<Rightarrow> es[ix := (es ! ix)\<lparr>te_kind := set_arguments (concat (bt_values parts)) (te_kind (es ! ix))\<rparr>]))
      | _ \<Rightarrow> es)"

definition refresh_tool_arguments :: "timeline \<Rightarrow> timeline" where
  "refresh_tool_arguments t = t\<lparr>tl_entries := fold (refresh_anchor (tl_arguments t)) (tl_tools t) (tl_entries t)\<rparr>"

fun result_kind :: "string option \<Rightarrow> string option \<Rightarrow> entry_kind \<Rightarrow> entry_kind" where
  "result_kind text extra (EkToolCall n st d args) =
     (case text of
        Some x \<Rightarrow>
          (case extra of
             Some e \<Rightarrow> EkToolCall n st (Some (if e \<noteq> [] then x @ [CHR 10] @ e else x)) args
           | None \<Rightarrow> EkToolCall n st (Some x) args)
      | None \<Rightarrow>
          (case extra of
             Some e \<Rightarrow> EkToolCall n st (Some (if or_empty d = [] then e else or_empty d @ [CHR 10] @ e)) args
           | None \<Rightarrow> EkToolCall n st d args))"
| "result_kind text extra k = k"

definition replace_tool_result :: "nat \<Rightarrow> timeline_item \<Rightarrow> string option \<Rightarrow> timeline \<Rightarrow> timeline" where
  "replace_tool_result ix item extra t =
     refresh_tool_arguments (t\<lparr>tl_entries := (tl_entries t)[ix := (tl_entries t ! ix)\<lparr>te_kind :=
       result_kind (ti_text item) extra (te_kind (tl_entries t ! ix))\<rparr>]\<rparr>)"

fun open_tool :: "entry_kind \<Rightarrow> bool" where
  "open_tool (EkToolCall _ st _ _) = (st = ''running'' \<or> st = ''pending'')"
| "open_tool _ = False"

definition tool_candidate ::
  "string option \<Rightarrow> string option \<Rightarrow> string option \<Rightarrow> timeline_entry list \<Rightarrow> tool_anchor \<Rightarrow> bool" where
  "tool_candidate run call name es a \<longleftrightarrow> ta_run a = run \<and>
     (case call of
        Some c \<Rightarrow> ta_call a = Some c
      | None \<Rightarrow>
          (case entry_index_by_identity (ta_event_id a) (ta_sequence a) es of
             Some ix \<Rightarrow> open_tool (te_kind (es ! ix)) | None \<Rightarrow> False)
          \<and> (case name of Some n \<Rightarrow> ta_name a = Some n | None \<Rightarrow> True))"

definition closes_tool :: "string option \<Rightarrow> bool" where
  "closes_tool st \<longleftrightarrow> st = Some ''succeeded'' \<or> st = Some ''failed'' \<or> st = Some ''cancelled''"

fun tool_kind_update :: "string option \<Rightarrow> string option \<Rightarrow> bool \<Rightarrow> entry_kind \<Rightarrow> entry_kind option" where
  "tool_kind_update st delta newer (EkToolCall n old d args) =
     (let st' = (case st of Some x \<Rightarrow> x | None \<Rightarrow> old) in
      Some (case delta of
        Some x \<Rightarrow>
          (if (st \<noteq> None \<or> newer) \<and> x \<noteq> []
           then EkToolCall n st' (Some (or_empty d @ (if st \<noteq> None \<and> or_empty d \<noteq> [] then [CHR 10] else []) @ x)) args
           else EkToolCall n st' d args)
      | None \<Rightarrow> EkToolCall n st' d args))"
| "tool_kind_update st delta newer k = None"

definition close_anchor :: "u64 \<Rightarrow> string option \<Rightarrow> tool_anchor \<Rightarrow> tool_anchor" where
  "close_anchor s st a =
     (if closes_tool st
      then a\<lparr>ta_completed := Some (max (case ta_completed a of Some c \<Rightarrow> c | None \<Rightarrow> 0) s)\<rparr> else a)"

definition update_tool_entry ::
  "u64 \<Rightarrow> string option \<Rightarrow> string option \<Rightarrow> string option \<Rightarrow> string option \<Rightarrow> string option \<Rightarrow> timeline \<Rightarrow> nat option \<times> timeline" where
  "update_tool_entry s run call name st delta t =
     (case filter (\<lambda>(i, a). tool_candidate run call name (tl_entries t) a) (List.enumerate 0 (tl_tools t)) of
        [(i, a)] \<Rightarrow>
          (let a' = close_anchor s st a;
               newer = (case ta_completed a' of Some c \<Rightarrow> c < s | None \<Rightarrow> True);
               t' = t\<lparr>tl_tools := (tl_tools t)[i := a']\<rparr>
           in case entry_index_by_identity (ta_event_id a') (ta_sequence a') (tl_entries t') of
                None \<Rightarrow> (None, t')
              | Some ix \<Rightarrow>
                  (case tool_kind_update st delta newer (te_kind (tl_entries t' ! ix)) of
                     None \<Rightarrow> (None, t')
                   | Some k \<Rightarrow> (Some ix, t'\<lparr>tl_entries := (tl_entries t')[ix := (tl_entries t' ! ix)\<lparr>te_kind := k\<rparr>]\<rparr>)))
      | _ \<Rightarrow> (None, t))"

definition enrich_tool_anchor :: "u64 \<Rightarrow> string \<Rightarrow> string \<Rightarrow> string \<Rightarrow> timeline \<Rightarrow> timeline" where
  "enrich_tool_anchor s run call name t =
     (case position (\<lambda>a. ta_sequence a = s \<and> ta_run a = Some run) (tl_tools t) of
        Some i \<Rightarrow> t\<lparr>tl_tools := (tl_tools t)[i := (tl_tools t ! i)\<lparr>ta_call := Some call, ta_name := Some name\<rparr>]\<rparr>
      | None \<Rightarrow> t)"

end
