(* ===== verification/TimelineApply.thy ===== *)
theory TimelineApply
  imports TimelineFold
begin

text \<open>
  One definition per kind of history item and live event: \<open>apply_item\<close> and \<open>apply_event\<close>, and what a
  reconnect does to the timeline (\<open>resume.rs\<close>).
\<close>

subsection \<open>Labels\<close>

text \<open>The middle dot with its spaces, and the labels of the two diagnostics that are shown.\<close>

definition dot :: string where
  "dot = [CHR 32, CHR 0xC2, CHR 0xB7, CHR 32]"

definition sandbox_fallback_label :: string where
  "sandbox_fallback_label =
     [CHR 0xE6, CHR 0xB2, CHR 0x99, CHR 0xE7, CHR 0xAE, CHR 0xB1, CHR 0xE5, CHR 0x9B, CHR 0x9E, CHR 0xE9, CHR 0x80, CHR 0x80,
      CHR 0xEF, CHR 0xBC, CHR 0x9A, CHR 0xE9, CHR 0x9A, CHR 0x94, CHR 0xE7, CHR 0xA6, CHR 0xBB, CHR 0xE5, CHR 0xB7, CHR 0xB2,
      CHR 0xE9, CHR 0x99, CHR 0x8D, CHR 0xE7, CHR 0xBA, CHR 0xA7]"

definition checkpoint_snapshot_failed_label :: string where
  "checkpoint_snapshot_failed_label =
     ''checkpoint snapshot failed '' @ [CHR 0xE2, CHR 0x80, CHR 0x94] @ '' write proceeded without rollback point''"

definition hint_diagnostic_label :: "(string \<Rightarrow> json option) \<Rightarrow> string \<Rightarrow> string \<Rightarrow> string" where
  "hint_diagnostic_label rd message fallback =
     (case Option.bind (rd message) (get_str ''message'') of
        Some text \<Rightarrow> text
      | None \<Rightarrow> (if message = [] then fallback else message))"

definition strip_prefix :: "string \<Rightarrow> string \<Rightarrow> string option" where
  "strip_prefix p s = (if starts_with p s then Some (drop (length p) s) else None)"

definition historical_hint_diagnostic_message :: "string option \<Rightarrow> (string \<times> string) option" where
  "historical_hint_diagnostic_message detail =
     (case detail of
        None \<Rightarrow> None
      | Some d \<Rightarrow>
          or_else (map_option (\<lambda>m. (m, sandbox_fallback_label)) (strip_prefix ''sandbox.fallback: '' d))
            (map_option (\<lambda>m. (m, checkpoint_snapshot_failed_label)) (strip_prefix ''checkpoint.snapshot_failed: '' d)))"

fun run_state_label :: "run_state \<Rightarrow> string" where
  "run_state_label RsCreated = ''started''"
| "run_state_label RsPreparingContext = ''preparing_context''"
| "run_state_label RsWaitingForProvider = ''waiting_for_provider''"
| "run_state_label RsStreamingResponse = ''streaming_response''"
| "run_state_label RsCollectingToolCalls = ''collecting_tool_calls''"
| "run_state_label RsWaitingForApproval = ''waiting_for_approval''"
| "run_state_label RsExecutingTools = ''executing_tools''"
| "run_state_label RsAppendingToolResults = ''appending_tool_results''"
| "run_state_label RsCompleted = ''completed''"
| "run_state_label RsCancelled = ''cancelled''"
| "run_state_label RsFailed = ''failed''"
| "run_state_label RsInterrupted = ''interrupted''"

fun live_fork_boundary :: "run_state \<Rightarrow> fork_boundary option" where
  "live_fork_boundary RsCompleted = Some ForkCompleted"
| "live_fork_boundary RsCancelled = Some ForkCancelled"
| "live_fork_boundary RsFailed = Some ForkFailed"
| "live_fork_boundary _ = None"

subsection \<open>History items\<close>

definition item_entry :: "timeline_item \<Rightarrow> entry_kind \<Rightarrow> fork_boundary option \<Rightarrow> timeline_entry" where
  "item_entry item k fork = \<lparr>te_sequence = ti_sequence item, te_event_id = ti_event_id item, te_kind = k, te_fork = fork,
     te_timestamp = ti_timestamp item, te_run = ti_run item\<rparr>"

definition show_item :: "timeline_item \<Rightarrow> entry_kind \<Rightarrow> fork_boundary option \<Rightarrow> timeline \<Rightarrow> timeline" where
  "show_item item k fork t =
     (if ti_sequence item \<in> tl_seen t then t else put_entry (item_entry item k fork) (see (ti_sequence item) t))"

definition item_usage :: "(string \<Rightarrow> token_usage option) \<Rightarrow> timeline_item \<Rightarrow> timeline \<Rightarrow> timeline" where
  "item_usage ru item t =
     (if ti_kind item \<in> {TkRunCompleted, TkRunCancelled, TkRunFailed}
      then (case (ti_run item, Option.bind (ti_text item) ru) of
              (Some run, Some u) \<Rightarrow> t\<lparr>tl_usages := bt_put run u (tl_usages t)\<rparr>
            | _ \<Rightarrow> t)
      else t)"

definition item_delta :: "timeline_item \<Rightarrow> timeline \<Rightarrow> timeline" where
  "item_delta item t =
     (if ti_sequence item \<in> tl_seen t then t
      else snd (append_assistant_delta (ti_sequence item) (ti_event_id item) (ti_timestamp item) (ti_run item) (ti_message item)
        (or_empty (ti_text item)) (ti_kind item = TkThinkingDelta) (see (ti_sequence item) t)))"

definition item_message :: "timeline_item \<Rightarrow> timeline \<Rightarrow> timeline" where
  "item_message item t =
     (if ti_sequence item \<in> tl_seen t then t
      else commit_assistant_text item True (or_empty (ti_thinking item))
             (commit_assistant_text item False (or_empty (ti_text item)) (see (ti_sequence item) t)))"

definition tool_name_or :: "timeline_item \<Rightarrow> string" where
  "tool_name_or item = (case ti_tool_name item of Some n \<Rightarrow> n | None \<Rightarrow> ''tool'')"

fun rename_tool :: "string \<Rightarrow> entry_kind \<Rightarrow> entry_kind" where
  "rename_tool n (EkToolCall _ st d args) = EkToolCall n st d args"
| "rename_tool n k = k"

text \<open>The row of a completion that came first becomes the row of its start.\<close>

definition adopt_start :: "timeline_item \<Rightarrow> nat \<Rightarrow> nat \<Rightarrow> timeline \<Rightarrow> timeline" where
  "adopt_start item ai ix t =
     (let e = tl_entries t ! ix;
          e' = e\<lparr>te_sequence := ti_sequence item, te_event_id := ti_event_id item, te_timestamp := ti_timestamp item,
                 te_kind := rename_tool (tool_name_or item) (te_kind e)\<rparr>
      in refresh_tool_arguments
           (t\<lparr>tl_entries := insert_entry e' (remove_nth ix (tl_entries t)),
              tl_tools := (tl_tools t)[ai := (tl_tools t ! ai)\<lparr>ta_sequence := ti_sequence item, ta_event_id := ti_event_id item,
                ta_name := Some (tool_name_or item)\<rparr>]\<rparr>))"

definition push_tool_anchor ::
  "string option \<Rightarrow> string option \<Rightarrow> string option \<Rightarrow> string \<times> u64 \<Rightarrow> u64 option \<Rightarrow> timeline \<Rightarrow> timeline" where
  "push_tool_anchor run call name place completed t =
     t\<lparr>tl_tools := tl_tools t @ [\<lparr>ta_run = run, ta_call = call, ta_name = name, ta_event_id = fst place, ta_sequence = snd place,
       ta_completed = completed\<rparr>]\<rparr>"

definition open_row :: "timeline_item \<Rightarrow> string option \<Rightarrow> string option \<Rightarrow> timeline \<Rightarrow> timeline" where
  "open_row item call shown t =
     (let st = (case ti_status item of Some x \<Rightarrow> x | None \<Rightarrow> ''running'');
          t1 = put_entry (item_entry item (EkToolCall (tool_name_or item) st shown None) None) t
      in refresh_tool_arguments
           (case anchor_after_insert (ti_event_id item) (ti_sequence item) (tl_entries t1) of
              Some place \<Rightarrow> push_tool_anchor (ti_run item) call (Some (tool_name_or item)) place None t1
            | None \<Rightarrow> t1))"

definition item_tool_started :: "(string \<Rightarrow> json option) \<Rightarrow> timeline_item \<Rightarrow> timeline \<Rightarrow> timeline" where
  "item_tool_started rd item t =
     (if ti_sequence item \<in> tl_seen t then t
      else (let t1 = see (ti_sequence item) t; (call, shown) = parse_tool_timeline_context rd (ti_detail item) in
        case position (\<lambda>a. ta_run a = ti_run item \<and> call \<noteq> None \<and> ta_call a = call) (tl_tools t1) of
          Some ai \<Rightarrow>
            (case entry_index_by_identity (ta_event_id (tl_tools t1 ! ai)) (ta_sequence (tl_tools t1 ! ai)) (tl_entries t1) of
               Some ix \<Rightarrow> adopt_start item ai ix t1
             | None \<Rightarrow> open_row item call shown t1)
        | None \<Rightarrow> open_row item call shown t1))"

definition item_tool_output :: "(string \<Rightarrow> json option) \<Rightarrow> timeline_item \<Rightarrow> timeline \<Rightarrow> timeline" where
  "item_tool_output rd item t =
     (if ti_sequence item \<in> tl_seen t then t
      else snd (update_tool_entry (ti_sequence item) (ti_run item) (fst (parse_tool_timeline_context rd (ti_detail item)))
        (ti_tool_name item) None (Some (or_empty (ti_text item))) (see (ti_sequence item) t)))"

definition closed_row :: "timeline_item \<Rightarrow> string option \<Rightarrow> string option \<Rightarrow> string \<Rightarrow> timeline \<Rightarrow> timeline" where
  "closed_row item call shown st t =
     (let detail = (case (ti_text item, shown) of
            (Some text, Some extra) \<Rightarrow> Some (text @ [CHR 10] @ extra)
          | _ \<Rightarrow> or_else (ti_text item) shown)
      in refresh_tool_arguments
           (push_tool_anchor (ti_run item) call (Some (tool_name_or item)) (ti_event_id item, ti_sequence item)
             (Some (ti_sequence item)) (put_entry (item_entry item (EkToolCall (tool_name_or item) st detail None) None) t)))"

definition item_tool_completed :: "(string \<Rightarrow> json option) \<Rightarrow> timeline_item \<Rightarrow> timeline \<Rightarrow> timeline" where
  "item_tool_completed rd item t =
     (let st = (case ti_status item of Some x \<Rightarrow> x | None \<Rightarrow> ''succeeded'');
          (call, shown) = parse_tool_timeline_context rd (ti_detail item)
      in case update_tool_entry (ti_sequence item) (ti_run item) call (ti_tool_name item) (Some st) None (see (ti_sequence item) t) of
           (Some ix, t1) \<Rightarrow> replace_tool_result ix item shown t1
         | (None, t1) \<Rightarrow> (if ti_sequence item \<in> tl_seen t then t1 else closed_row item call shown st t1))"

definition failure_label :: "string \<Rightarrow> string" where
  "failure_label reason = (if reason = [] then ''run failed'' else ''run failed'' @ dot @ reason)"

definition item_run_failed :: "timeline_item \<Rightarrow> timeline \<Rightarrow> timeline" where
  "item_run_failed item t =
     (if ti_sequence item \<in> tl_seen t
      then (case position (\<lambda>e. te_sequence e = ti_sequence item \<and> te_run e = ti_run item) (tl_entries t) of
              Some ix \<Rightarrow>
                (if or_empty (ti_detail item) = [] then t
                 else t\<lparr>tl_entries := (tl_entries t)[ix := (tl_entries t ! ix)\<lparr>te_kind := EkRunState (failure_label (or_empty (ti_detail item)))\<rparr>]\<rparr>)
            | None \<Rightarrow> t)
      else show_item item (EkRunState (failure_label (or_empty (ti_detail item)))) (Some ForkFailed) t)"

definition item_approval_requested :: "timeline_item \<Rightarrow> timeline \<Rightarrow> timeline" where
  "item_approval_requested item t =
     (let reason = or_empty (or_else (ti_text item) (ti_detail item)) in
      show_item item (EkRunState (if reason = [] then ''approval requested'' @ dot @ tool_name_or item
        else ''approval requested'' @ dot @ tool_name_or item @ dot @ reason)) None t)"

definition item_approval_responded :: "timeline_item \<Rightarrow> timeline \<Rightarrow> timeline" where
  "item_approval_responded item t =
     (let decision = (case or_else (ti_status item) (or_else (ti_detail item) (ti_text item)) of Some d \<Rightarrow> d | None \<Rightarrow> ''responded'')
      in show_item item (EkRunState (''approval '' @ decision)) None t)"

definition item_diagnostic :: "(string \<Rightarrow> json option) \<Rightarrow> timeline_item \<Rightarrow> timeline \<Rightarrow> timeline" where
  "item_diagnostic rd item t =
     (case historical_hint_diagnostic_message (ti_detail item) of
        Some (message, fallback) \<Rightarrow> show_item item (EkRunState (hint_diagnostic_label rd message fallback)) None t
      | None \<Rightarrow> t)"

definition item_other :: "(string \<Rightarrow> json option) \<Rightarrow> timeline_item \<Rightarrow> timeline \<Rightarrow> timeline" where
  "item_other rd item t =
     (if ti_status item = Some ''tool_arguments''
      then (case (ti_run item, fst (parse_tool_timeline_context rd (ti_detail item)), ti_text item) of
              (Some run, Some call, Some text) \<Rightarrow>
                (let parts = (case bt_get (tl_arguments t) (run, call) of Some m \<Rightarrow> m | None \<Rightarrow> []) in
                 refresh_tool_arguments
                   (t\<lparr>tl_arguments := bt_put (run, call) (bt_put (ti_sequence item) text parts) (tl_arguments t)\<rparr>))
            | _ \<Rightarrow> t)
      else t)"

fun apply_kind :: "(string \<Rightarrow> json option) \<Rightarrow> item_kind \<Rightarrow> timeline_item \<Rightarrow> timeline \<Rightarrow> timeline" where
  "apply_kind rd TkUserMessage item t = show_item item (EkUserMessage (or_empty (ti_text item))) None t"
| "apply_kind rd TkAssistantDelta item t = item_delta item t"
| "apply_kind rd TkThinkingDelta item t = item_delta item t"
| "apply_kind rd TkAssistantMessage item t = item_message item t"
| "apply_kind rd TkToolStarted item t = item_tool_started rd item t"
| "apply_kind rd TkToolOutput item t = item_tool_output rd item t"
| "apply_kind rd TkToolCompleted item t = item_tool_completed rd item t"
| "apply_kind rd TkRunStarted item t = show_item item (EkRunState ''run started'') None t"
| "apply_kind rd TkRunCompleted item t = show_item item (EkRunState ''run completed'') (Some ForkCompleted) t"
| "apply_kind rd TkRunCancelled item t = show_item item (EkRunState ''run cancelled'') (Some ForkCancelled) t"
| "apply_kind rd TkRunFailed item t = item_run_failed item t"
| "apply_kind rd TkApprovalRequested item t = item_approval_requested item t"
| "apply_kind rd TkApprovalResponded item t = item_approval_responded item t"
| "apply_kind rd TkDiagnostic item t = item_diagnostic rd item t"
| "apply_kind rd TkOther item t = item_other rd item t"

definition apply_item ::
  "(string \<Rightarrow> json option) \<Rightarrow> (string \<Rightarrow> token_usage option) \<Rightarrow> timeline_item \<Rightarrow> timeline \<Rightarrow> timeline" where
  "apply_item rd ru item t = apply_kind rd (ti_kind item) item (item_usage ru item t)"

subsection \<open>Live events\<close>

definition event_entry :: "app_envelope \<Rightarrow> entry_kind \<Rightarrow> fork_boundary option \<Rightarrow> string option \<Rightarrow> timeline_entry" where
  "event_entry ev k fork run = \<lparr>te_sequence = ev_sequence ev, te_event_id = ev_event_id ev, te_kind = k, te_fork = fork,
     te_timestamp = dec (unat (ev_timestamp ev)), te_run = run\<rparr>"

definition event_tool_started :: "app_envelope \<Rightarrow> string \<Rightarrow> string \<Rightarrow> string \<Rightarrow> timeline \<Rightarrow> timeline" where
  "event_tool_started ev run call name t =
     (let t1 = put_entry (event_entry ev (EkToolCall name ''running'' None None) None (Some run)) t in
      case anchor_after_insert (ev_event_id ev) (ev_sequence ev) (tl_entries t1) of
        Some place \<Rightarrow> push_tool_anchor (Some run) (Some call) (Some name) place None t1
      | None \<Rightarrow> t1)"

definition event_tool_completed :: "app_envelope \<Rightarrow> string \<Rightarrow> string \<Rightarrow> bool \<Rightarrow> timeline \<Rightarrow> timeline" where
  "event_tool_completed ev run call success t =
     (let st = (if success then ''succeeded'' else ''failed'') in
      case update_tool_entry (ev_sequence ev) (Some run) (Some call) None (Some st) None t of
        (Some ix, t1) \<Rightarrow> t1
      | (None, t1) \<Rightarrow> push_tool_anchor (Some run) (Some call) None (ev_event_id ev, ev_sequence ev) (Some (ev_sequence ev))
          (put_entry (event_entry ev (EkToolCall call st None None) None (Some run)) t1))"

text \<open>Whether the entries changed, and the timeline.\<close>

fun apply_payload :: "(string \<Rightarrow> json option) \<Rightarrow> app_event \<Rightarrow> app_envelope \<Rightarrow> timeline \<Rightarrow> bool \<times> timeline" where
  "apply_payload rd (EvRunChanged run rs) ev t =
     (if ev_sequence ev \<in> tl_seen t then (False, t)
      else (True, put_entry (event_entry ev (EkRunState (''run '' @ run_state_label rs)) (live_fork_boundary rs) (Some run))
        (see (ev_sequence ev) t)))"
| "apply_payload rd (EvAssistantDelta run m d) ev t =
     (if ev_sequence ev \<in> tl_seen t then (False, t)
      else append_assistant_delta (ev_sequence ev) (ev_event_id ev) (dec (unat (ev_timestamp ev))) (Some run) (Some m) d False
        (see (ev_sequence ev) t))"
| "apply_payload rd (EvThinkingDelta run m d) ev t =
     (if ev_sequence ev \<in> tl_seen t then (False, t)
      else append_assistant_delta (ev_sequence ev) (ev_event_id ev) (dec (unat (ev_timestamp ev))) (Some run) (Some m) d True
        (see (ev_sequence ev) t))"
| "apply_payload rd (EvToolStarted run call name) ev t =
     (if ev_sequence ev \<in> tl_seen t then (False, enrich_tool_anchor (ev_sequence ev) run call name t)
      else (True, event_tool_started ev run call name (see (ev_sequence ev) t)))"
| "apply_payload rd (EvToolOutput run call d) ev t =
     (if ev_sequence ev \<in> tl_seen t then (False, t)
      else (case update_tool_entry (ev_sequence ev) (Some run) (Some call) None None (Some d) (see (ev_sequence ev) t) of
              (r, t1) \<Rightarrow> (r \<noteq> None, t1)))"
| "apply_payload rd (EvToolCompleted run call success) ev t =
     (if ev_sequence ev \<in> tl_seen t then (False, t)
      else (True, event_tool_completed ev run call success (see (ev_sequence ev) t)))"
| "apply_payload rd (EvDiagnostic code message) ev t =
     (case (if code = ''sandbox.fallback'' then Some sandbox_fallback_label
            else if code = ''checkpoint.snapshot_failed'' then Some checkpoint_snapshot_failed_label else None) of
        None \<Rightarrow> (False, t)
      | Some fallback \<Rightarrow>
          (if ev_sequence ev \<in> tl_seen t then (False, t)
           else (True, put_entry (event_entry ev (EkRunState (hint_diagnostic_label rd message fallback)) None None)
             (see (ev_sequence ev) t))))"
| "apply_payload rd EvOther ev t = (False, t)"

definition apply_event :: "(string \<Rightarrow> json option) \<Rightarrow> app_envelope \<Rightarrow> timeline \<Rightarrow> bool \<times> timeline" where
  "apply_event rd ev t = apply_payload rd (ev_payload ev) ev t"

definition run_usage :: "string \<Rightarrow> timeline \<Rightarrow> token_usage option" where
  "run_usage run t = bt_get (tl_usages t) run"

subsection \<open>Reconnecting\<close>

datatype resume_disposition = ResumeReplay u64 u64 | ResumeSnapshot u64 | ResumeUpToDate u64

definition compute_resume_disposition :: "u64 \<Rightarrow> u64 \<Rightarrow> u64 \<Rightarrow> resume_disposition" where
  "compute_resume_disposition earliest current last_seen =
     (if last_seen = current then ResumeUpToDate current
      else if last_seen < current \<and> earliest \<le> last_seen + 1 then ResumeReplay (last_seen + 1) current
      else ResumeSnapshot earliest)"

definition reset_baseline :: "timeline \<Rightarrow> timeline" where
  "reset_baseline t = timeline_empty"

definition apply_resume_disposition :: "resume_disposition \<Rightarrow> timeline \<Rightarrow> timeline" where
  "apply_resume_disposition d t = (case d of ResumeSnapshot _ \<Rightarrow> reset_baseline t | _ \<Rightarrow> t)"

end
