(* ===== verification/TimelineLists.thy ===== *)
theory TimelineLists
  imports TimelineApply
begin

text \<open>
  Places in lists, and what the operations on tools and runs leave alone: assistant entries and streams.
\<close>

subsection \<open>Lists\<close>

lemma position_Some: "position P xs = Some i \<Longrightarrow> i < length xs \<and> P (xs ! i)"
  by (induction P xs arbitrary: i rule: position.induct) (auto split: if_splits)

lemma position_None: "position P xs = None \<longleftrightarrow> (\<forall>x \<in> set xs. \<not> P x)"
  by (induction P xs rule: position.induct) auto

lemma set_remove_nth: "set (remove_nth i xs) \<subseteq> set xs"
  by (auto simp: remove_nth_def dest: in_set_takeD in_set_dropD)

lemma remove_nth_split: "i < length xs \<Longrightarrow> xs = take i xs @ xs ! i # drop (Suc i) xs"
  by (simp add: id_take_nth_drop)

lemma filter_split: "i < length xs \<Longrightarrow> filter P xs = filter P (take i xs) @ filter P [xs ! i] @ filter P (drop (Suc i) xs)"
  using arg_cong [OF remove_nth_split [of i xs], of "filter P"] by simp

lemma filter_remove_nth: "i < length xs \<Longrightarrow> \<not> P (xs ! i) \<Longrightarrow> filter P (remove_nth i xs) = filter P xs"
  using filter_split [of i xs P] by (simp add: remove_nth_def)

lemma filter_update: "i < length xs \<Longrightarrow> P x = P (xs ! i) \<Longrightarrow> P (xs ! i) \<longrightarrow> x = xs ! i \<Longrightarrow> filter P (xs[i := x]) = filter P xs"
  using filter_split [of i xs P] by (simp add: upd_conv_take_nth_drop split: if_splits)

lemma map_update_same: "i < length xs \<Longrightarrow> f x = f (xs ! i) \<Longrightarrow> map f (xs[i := x]) = map f xs"
  by (metis list_update_id map_update)

lemma sorted_remove_nth:
  assumes "sorted (map f xs)"
  shows "sorted (map f (remove_nth i xs))"
proof (cases "i < length xs")
  case True
  then have "sorted (map f (take i xs @ xs ! i # drop (Suc i) xs))"
    using assms by (simp add: id_take_nth_drop [symmetric])
  then show ?thesis
    by (simp add: remove_nth_def sorted_append)
qed (use assms in \<open>simp add: remove_nth_def\<close>)

lemma insert_entry_simps [simp]:
  "insert_entry e [] = [e]"
  "insert_entry e (x # xs) = (if entry_rank x < entry_rank e then x # insert_entry e xs else e # x # xs)"
  by (simp_all add: insert_entry_def)

lemma set_insert_entry [simp]: "set (insert_entry e es) = insert e (set es)"
  by (induction es) auto

lemma filter_insert_entry: "\<not> P e \<Longrightarrow> filter P (insert_entry e es) = filter P es"
  by (induction es) auto

lemma sorted_insert_entry: "sorted (map entry_rank es) \<Longrightarrow> sorted (map entry_rank (insert_entry e es))"
  by (induction es) (auto dest: less_imp_le)

end
