(* ===== verification/TimelineCalm.thy ===== *)
theory TimelineCalm
  imports TimelineLists
begin

text \<open>
  What the items and events of tools, runs, approvals and diagnostics leave alone: the entries and streams of the
  assistant. \<open>A\<close> and \<open>S\<close> are the event ids and sequences that belong to the assistant, \<open>N\<close> is the sequence of
  each event id.
\<close>

fun is_assistant :: "entry_kind \<Rightarrow> bool" where
  "is_assistant (EkAssistantMessage _) = True"
| "is_assistant (EkThinking _) = True"
| "is_assistant _ = False"

definition of_assistant :: "timeline_entry \<Rightarrow> bool" where
  "of_assistant e = is_assistant (te_kind e)"

definition assistant_part :: "timeline \<Rightarrow> timeline_entry list" where
  "assistant_part t = filter of_assistant (tl_entries t)"

definition entry_apart :: "string set \<Rightarrow> u64 set \<Rightarrow> timeline_entry \<Rightarrow> bool" where
  "entry_apart A S e \<longleftrightarrow> (te_event_id e \<in> A \<longleftrightarrow> of_assistant e) \<and> (te_sequence e \<in> S \<longleftrightarrow> of_assistant e)"

definition apart :: "string set \<Rightarrow> u64 set \<Rightarrow> (string \<Rightarrow> u64) \<Rightarrow> timeline \<Rightarrow> bool" where
  "apart A S N t \<longleftrightarrow> sorted (map entry_rank (tl_entries t)) \<and> (\<forall>e \<in> set (tl_entries t). entry_apart A S e)
     \<and> distinct (map ta_event_id (tl_tools t)) \<and> (\<forall>a \<in> set (tl_tools t). N (ta_event_id a) \<in> tl_seen t)
     \<and> (\<forall>a \<in> set (tl_tools t). ta_event_id a \<notin> A \<and> ta_event_id a \<in> te_event_id ` set (tl_entries t))"

definition calm :: "string set \<Rightarrow> u64 set \<Rightarrow> (string \<Rightarrow> u64) \<Rightarrow> u64 \<Rightarrow> timeline \<Rightarrow> timeline \<Rightarrow> bool" where
  "calm A S N s t t' \<longleftrightarrow> apart A S N t' \<and> assistant_part t' = assistant_part t \<and> tl_assistants t' = tl_assistants t
     \<and> tl_seen t \<subseteq> tl_seen t' \<and> tl_seen t' \<subseteq> insert s (tl_seen t)"

lemma calm_refl: "apart A S N t \<Longrightarrow> calm A S N s t t"
  by (auto simp: calm_def)

lemma calm_trans: "calm A S N s t t' \<Longrightarrow> calm A S N s t' t'' \<Longrightarrow> calm A S N s t t''"
  by (auto simp: calm_def)

lemma calm_apart: "calm A S N s t t' \<Longrightarrow> apart A S N t'"
  by (simp add: calm_def)

lemma not_thinking: "\<not> of_assistant e \<Longrightarrow> \<not> is_thinking (te_kind e)"
  by (cases "te_kind e") (auto simp: of_assistant_def)

lemma calm_see: "apart A S N t \<Longrightarrow> calm A S N s t (see s t)"
  by (auto simp: calm_def apart_def assistant_part_def see_def)

lemma calm_put:
  assumes "apart A S N t" and "\<not> of_assistant e" and "entry_apart A S e"
  shows "calm A S N s t (put_entry e t)"
  using assms by (auto simp: calm_def apart_def assistant_part_def put_entry_def sorted_insert_entry filter_insert_entry)

text \<open>One entry that is not the assistant's gets another kind that is not.\<close>

lemma calm_kind:
  assumes "apart A S N t" and "ix < length (tl_entries t)" and "is_assistant k = of_assistant (tl_entries t ! ix)"
    and "of_assistant (tl_entries t ! ix) \<Longrightarrow> k = te_kind (tl_entries t ! ix)"
  shows "calm A S N s t (t\<lparr>tl_entries := (tl_entries t)[ix := (tl_entries t ! ix)\<lparr>te_kind := k\<rparr>]\<rparr>)"
proof -
  let ?e = "tl_entries t ! ix" and ?es = "tl_entries t"
  let ?e' = "?e\<lparr>te_kind := k\<rparr>"
  have same: "of_assistant ?e \<Longrightarrow> ?e' = ?e"
    using assms(4) by simp
  have oa: "of_assistant ?e' = of_assistant ?e"
    using assms(3) by (simp add: of_assistant_def)
  have rank: "entry_rank ?e' = entry_rank ?e"
    using same oa not_thinking [of ?e] not_thinking [of ?e'] by (cases "of_assistant ?e") (auto simp: entry_rank_def)
  have "filter of_assistant (?es[ix := ?e']) = filter of_assistant ?es"
    using filter_update [OF assms(2), of of_assistant ?e'] same oa by simp
  moreover have "map entry_rank (?es[ix := ?e']) = map entry_rank ?es" "map te_event_id (?es[ix := ?e']) = map te_event_id ?es"
    using assms(2) rank by (simp_all add: map_update_same)
  moreover have "entry_apart A S ?e'"
    using assms(1,2) oa by (auto simp: apart_def entry_apart_def)
  moreover have "te_event_id ` set (?es[ix := ?e']) = te_event_id ` set ?es"
    using calculation(3) by (metis list.set_map)
  ultimately show ?thesis
    using assms(1) by (auto simp: calm_def apart_def assistant_part_def dest!: set_update_subset_insert [THEN subsetD])
qed

lemma calm_tools:
  assumes "apart A S N t" and "map ta_event_id as = map ta_event_id (tl_tools t)"
  shows "calm A S N s t (t\<lparr>tl_tools := as\<rparr>)"
proof -
  have "ta_event_id ` set as = ta_event_id ` set (tl_tools t)"
    using assms(2) by (metis list.set_map)
  then have "\<forall>a \<in> set as. ta_event_id a \<in> ta_event_id ` set (tl_tools t)"
    by blast
  then show ?thesis
    using assms by (fastforce simp: calm_def apart_def assistant_part_def)
qed

lemma calm_push:
  assumes "apart A S N t" and "fst place \<notin> A" and "fst place \<in> te_event_id ` set (tl_entries t)"
    and "N (fst place) \<in> tl_seen t" and "fst place \<notin> ta_event_id ` set (tl_tools t)"
  shows "calm A S N s t (push_tool_anchor run call name place completed t)"
  using assms by (auto simp: calm_def apart_def assistant_part_def push_tool_anchor_def)

lemma calm_arguments: "apart A S N t \<Longrightarrow> calm A S N s t (t\<lparr>tl_arguments := m\<rparr>)"
  by (auto simp: calm_def apart_def assistant_part_def)

lemma calm_usages: "apart A S N t \<Longrightarrow> calm A S N s t (t\<lparr>tl_usages := m\<rparr>)"
  by (auto simp: calm_def apart_def assistant_part_def)

text \<open>The entry of a tool anchor is found by its event id, and is not the assistant's.\<close>

lemma tool_identity:
  assumes "apart A S N t" and "a \<in> set (tl_tools t)"
  obtains ix where "entry_index_by_identity (ta_event_id a) s (tl_entries t) = Some ix" and "ix < length (tl_entries t)"
    and "te_event_id (tl_entries t ! ix) = ta_event_id a" and "\<not> of_assistant (tl_entries t ! ix)"
proof -
  have "ta_event_id a \<in> te_event_id ` set (tl_entries t)"
    using assms by (simp add: apart_def)
  then have "position (\<lambda>e. te_event_id e = ta_event_id a) (tl_entries t) \<noteq> None"
    unfolding position_None by auto
  then obtain ix where ix: "position (\<lambda>e. te_event_id e = ta_event_id a) (tl_entries t) = Some ix"
    by blast
  have p: "ix < length (tl_entries t)" "te_event_id (tl_entries t ! ix) = ta_event_id a"
    using position_Some [OF ix] by simp_all
  moreover have "\<not> of_assistant (tl_entries t ! ix)"
    using assms p by (metis apart_def entry_apart_def nth_mem)
  ultimately show ?thesis
    using that ix by (simp add: entry_index_by_identity_def or_else_def)
qed

subsection \<open>Arguments and results of tools\<close>

lemma kind_keeps [simp]:
  "is_assistant (set_arguments x k) = is_assistant k" "is_assistant k \<Longrightarrow> set_arguments x k = k"
  "is_assistant (result_kind y z k) = is_assistant k" "is_assistant k \<Longrightarrow> result_kind y z k = k"
  "is_assistant (rename_tool n k) = is_assistant k"
  by (cases k; auto split: option.split)+

lemma calm_refresh_anchor:
  assumes "apart A S N t" and "a \<in> set (tl_tools t)"
  shows "calm A S N s t (t\<lparr>tl_entries := refresh_anchor m a (tl_entries t)\<rparr>)"
proof -
  obtain ix where ix: "entry_index_by_identity (ta_event_id a) (ta_sequence a) (tl_entries t) = Some ix"
    "ix < length (tl_entries t)" "\<not> of_assistant (tl_entries t ! ix)"
    using tool_identity [OF assms] by metis
  have "calm A S N s t (t\<lparr>tl_entries := (tl_entries t)[ix := (tl_entries t ! ix)\<lparr>te_kind := set_arguments x (te_kind (tl_entries t ! ix))\<rparr>]\<rparr>)"
    for x
    using ix by (intro calm_kind [OF assms(1)]) (simp_all add: of_assistant_def)
  then show ?thesis
    using ix(1) calm_refl [OF assms(1)] by (simp add: refresh_anchor_def split: option.split)
qed

lemma calm_refresh:
  assumes "apart A S N t"
  shows "calm A S N s t (refresh_tool_arguments t)"
proof -
  have "calm A S N s t' (t'\<lparr>tl_entries := fold (refresh_anchor m) as (tl_entries t')\<rparr>)"
    if "apart A S N t'" "set as \<subseteq> set (tl_tools t')" for as m t'
    using that
  proof (induction as arbitrary: t')
    case Nil
    then show ?case by (simp add: calm_refl)
  next
    case (Cons a as)
    let ?t = "t'\<lparr>tl_entries := refresh_anchor m a (tl_entries t')\<rparr>"
    have step: "calm A S N s t' ?t"
      using Cons.prems calm_refresh_anchor by simp
    then have "calm A S N s ?t (?t\<lparr>tl_entries := fold (refresh_anchor m) as (tl_entries ?t)\<rparr>)"
      using Cons.IH [of ?t] Cons.prems(2) calm_apart by fastforce
    then show ?case
      using calm_trans [OF step] by simp
  qed
  then show ?thesis
    using assms by (simp add: refresh_tool_arguments_def)
qed

lemma tool_kind_update_keeps: "tool_kind_update st d n k = Some k' \<Longrightarrow> \<not> is_assistant k \<and> \<not> is_assistant k'"
  by (cases k) (auto simp: Let_def split: option.splits if_splits)

lemma calm_update_tool_entry:
  assumes "apart A S N t" and "update_tool_entry q run call name st d t = (r, t')"
  shows "calm A S N s t t' \<and> (\<forall>ix. r = Some ix \<longrightarrow> ix < length (tl_entries t') \<and> \<not> of_assistant (tl_entries t' ! ix))"
proof (cases "t' = t \<and> r = None")
  case True
  then show ?thesis using calm_refl [OF assms(1)] by simp
next
  case False
  then obtain i a where cand: "filter (\<lambda>(i, a). tool_candidate run call name (tl_entries t) a) (List.enumerate 0 (tl_tools t)) = [(i, a)]"
    using assms(2) by (auto simp: update_tool_entry_def split: list.splits)
  then have "(i, a) \<in> set (List.enumerate 0 (tl_tools t))"
    using set_filter [of "\<lambda>(i, a). tool_candidate run call name (tl_entries t) a" "List.enumerate 0 (tl_tools t)"] by auto
  then have i: "i < length (tl_tools t)" "tl_tools t ! i = a"
    by (auto simp: in_set_enumerate_eq)
  then have a: "a \<in> set (tl_tools t)"
    by auto
  let ?a = "close_anchor q st a"
  let ?t = "t\<lparr>tl_tools := (tl_tools t)[i := ?a]\<rparr>"
  have id: "ta_event_id ?a = ta_event_id a"
    by (simp add: close_anchor_def)
  have step: "calm A S N s t ?t"
    using i id by (intro calm_tools [OF assms(1)]) (simp add: map_update_same)
  obtain ix where ix: "entry_index_by_identity (ta_event_id ?a) (ta_sequence ?a) (tl_entries t) = Some ix"
    "ix < length (tl_entries t)" "\<not> of_assistant (tl_entries t ! ix)"
    using tool_identity [OF assms(1) a] id by metis
  define newer where "newer = (case ta_completed ?a of Some c \<Rightarrow> c < q | None \<Rightarrow> True)"
  have up: "update_tool_entry q run call name st d t =
      (case tool_kind_update st d newer (te_kind (tl_entries t ! ix)) of
         None \<Rightarrow> (None, ?t)
       | Some k \<Rightarrow> (Some ix, ?t\<lparr>tl_entries := (tl_entries t)[ix := (tl_entries t ! ix)\<lparr>te_kind := k\<rparr>]\<rparr>))"
    using cand ix(1) by (auto simp: update_tool_entry_def newer_def Let_def split: option.split)
  show ?thesis
  proof (cases "tool_kind_update st d newer (te_kind (tl_entries t ! ix))")
    case None
    then show ?thesis using up assms(2) step by simp
  next
    case (Some k)
    have "calm A S N s ?t (?t\<lparr>tl_entries := (tl_entries ?t)[ix := (tl_entries ?t ! ix)\<lparr>te_kind := k\<rparr>]\<rparr>)"
      using tool_kind_update_keeps [OF Some] ix calm_apart [OF step] by (intro calm_kind) (auto simp: of_assistant_def)
    then show ?thesis
      using up assms(2) Some calm_trans [OF step] ix(2) tool_kind_update_keeps [OF Some] by (auto simp: of_assistant_def)
  qed
qed

end
