(* ===== verification/TimelineOthers.thy ===== *)
theory TimelineOthers
  imports TimelineCalm
begin

text \<open>Each item and event that is not the assistant's is calm.\<close>

subsection \<open>Deliveries\<close>

text \<open>What reaches a timeline: an item of a history page or a live event.\<close>

datatype delivery = FromPage timeline_item | FromLive app_envelope

definition deliver ::
  "(string \<Rightarrow> json option) \<Rightarrow> (string \<Rightarrow> token_usage option) \<Rightarrow> delivery \<Rightarrow> timeline \<Rightarrow> timeline" where
  "deliver rd ru d t = (case d of FromPage item \<Rightarrow> apply_item rd ru item t | FromLive ev \<Rightarrow> snd (apply_event rd ev t))"

definition deliver_all ::
  "(string \<Rightarrow> json option) \<Rightarrow> (string \<Rightarrow> token_usage option) \<Rightarrow> delivery list \<Rightarrow> timeline \<Rightarrow> timeline" where
  "deliver_all rd ru ds t = fold (deliver rd ru) ds t"

definition delivery_sequence :: "delivery \<Rightarrow> u64" where
  "delivery_sequence d = (case d of FromPage item \<Rightarrow> ti_sequence item | FromLive ev \<Rightarrow> ev_sequence ev)"

definition delivery_event_id :: "delivery \<Rightarrow> string" where
  "delivery_event_id d = (case d of FromPage item \<Rightarrow> ti_event_id item | FromLive ev \<Rightarrow> ev_event_id ev)"

definition assistant_item :: "item_kind \<Rightarrow> bool" where
  "assistant_item k \<longleftrightarrow> k = TkAssistantDelta \<or> k = TkThinkingDelta \<or> k = TkAssistantMessage"

fun assistant_event :: "app_event \<Rightarrow> bool" where
  "assistant_event (EvAssistantDelta _ _ _) = True"
| "assistant_event (EvThinkingDelta _ _ _) = True"
| "assistant_event _ = False"

definition of_others :: "delivery \<Rightarrow> bool" where
  "of_others d = (case d of FromPage item \<Rightarrow> \<not> assistant_item (ti_kind item) | FromLive ev \<Rightarrow> \<not> assistant_event (ev_payload ev))"

subsection \<open>Rows\<close>

lemma not_of_assistant [simp]:
  "\<not> of_assistant (item_entry item (EkUserMessage x) f)" "\<not> of_assistant (item_entry item (EkToolCall n st d g) f)"
  "\<not> of_assistant (item_entry item (EkRunState x) f)" "\<not> of_assistant (event_entry ev (EkToolCall n st d g) f r)"
  "\<not> of_assistant (event_entry ev (EkRunState x) f r)"
  by (simp_all add: of_assistant_def item_entry_def event_entry_def)

lemma apart_entries:
  "ti_event_id item \<notin> A \<Longrightarrow> ti_sequence item \<notin> S \<Longrightarrow> \<not> of_assistant (item_entry item k f) \<Longrightarrow> entry_apart A S (item_entry item k f)"
  "ev_event_id ev \<notin> A \<Longrightarrow> ev_sequence ev \<notin> S \<Longrightarrow> \<not> of_assistant (event_entry ev k f r) \<Longrightarrow> entry_apart A S (event_entry ev k f r)"
  by (simp_all add: entry_apart_def item_entry_def event_entry_def)

lemma entry_ids [simp]:
  "te_event_id (item_entry item k f) = ti_event_id item" "te_event_id (event_entry ev k f r) = ev_event_id ev"
  "tl_entries (put_entry e t) = insert_entry e (tl_entries t)" "tl_tools (put_entry e t) = tl_tools t"
  "tl_entries (see s t) = tl_entries t" "tl_tools (see s t) = tl_tools t"
  "tl_entries (push_tool_anchor run call name place completed t) = tl_entries t"
  by (simp_all add: item_entry_def event_entry_def put_entry_def see_def push_tool_anchor_def)

lemma calm_show:
  assumes "apart A S N t" and "ti_event_id item \<notin> A" and "ti_sequence item \<notin> S" and "\<not> of_assistant (item_entry item k f)"
  shows "calm A S N (ti_sequence item) t (show_item item k f t)"
proof -
  have "calm A S N (ti_sequence item) (see (ti_sequence item) t) (put_entry (item_entry item k f) (see (ti_sequence item) t))"
    using assms apart_entries(1) by (intro calm_put calm_apart [OF calm_see]) auto
  then show ?thesis
    using calm_refl [OF assms(1)] calm_trans [OF calm_see [OF assms(1)]] by (simp add: show_item_def)
qed

lemma anchor_after_own: "te_event_id e = i \<Longrightarrow> anchor_after_insert i s (insert_entry e es) = Some place \<Longrightarrow> fst place = i"
proof -
  assume e: "te_event_id e = i" and p: "anchor_after_insert i s (insert_entry e es) = Some place"
  have "position (\<lambda>x. te_event_id x = i) (insert_entry e es) \<noteq> None"
    unfolding position_None using e by auto
  then obtain ix where ix: "position (\<lambda>x. te_event_id x = i) (insert_entry e es) = Some ix"
    by blast
  then show ?thesis
    using p position_Some [OF ix] by (auto simp: anchor_after_insert_def entry_index_by_identity_def or_else_def)
qed

text \<open>An event id that is new: neither the assistant's nor a tool's, at a sequence just consumed.\<close>

definition fresh_id :: "string set \<Rightarrow> u64 set \<Rightarrow> (string \<Rightarrow> u64) \<Rightarrow> string \<Rightarrow> u64 \<Rightarrow> timeline \<Rightarrow> bool" where
  "fresh_id A S N i q t \<longleftrightarrow> i \<notin> A \<and> q \<notin> S \<and> N i = q \<and> q \<in> tl_seen t \<and> i \<notin> ta_event_id ` set (tl_tools t)"

lemma calm_open_row:
  assumes "apart A S N t" and "fresh_id A S N (ti_event_id item) (ti_sequence item) t"
  shows "calm A S N s t (open_row item call shown t)"
proof -
  let ?st = "case ti_status item of Some x \<Rightarrow> x | None \<Rightarrow> ''running''"
  let ?e = "item_entry item (EkToolCall (tool_name_or item) ?st shown None) None"
  let ?t = "put_entry ?e t"
  have one: "calm A S N s t ?t"
    using assms apart_entries(1) by (intro calm_put) (auto simp: fresh_id_def)
  have "calm A S N s ?t (push_tool_anchor (ti_run item) call (Some (tool_name_or item)) place None ?t)"
    if "anchor_after_insert (ti_event_id item) (ti_sequence item) (tl_entries ?t) = Some place" for place
    using calm_apart [OF one] anchor_after_own [of ?e] that assms(2) by (intro calm_push) (auto simp: fresh_id_def put_entry_def)
  then have two: "calm A S N s ?t (case anchor_after_insert (ti_event_id item) (ti_sequence item) (tl_entries ?t) of
      Some place \<Rightarrow> push_tool_anchor (ti_run item) call (Some (tool_name_or item)) place None ?t | None \<Rightarrow> ?t)"
    using calm_refl [OF calm_apart [OF one]] by (simp split: option.split)
  show ?thesis
    unfolding open_row_def Let_def by (intro calm_trans [OF calm_trans [OF one two]] calm_refresh calm_apart [OF two])
qed

lemma calm_closed_row:
  assumes "apart A S N t" and "fresh_id A S N (ti_event_id item) (ti_sequence item) t"
  shows "calm A S N s t (closed_row item call shown st t)"
proof -
  let ?t = "\<lambda>d. put_entry (item_entry item (EkToolCall (tool_name_or item) st d None) None) t"
  have one: "calm A S N s t (?t d)" for d
    using assms apart_entries(1) by (intro calm_put) (auto simp: fresh_id_def)
  have two: "calm A S N s (?t d) (push_tool_anchor (ti_run item) call (Some (tool_name_or item)) (ti_event_id item, ti_sequence item)
      (Some (ti_sequence item)) (?t d))" for d
    using calm_apart [OF one] assms(2) by (intro calm_push) (auto simp: fresh_id_def put_entry_def)
  show ?thesis
    unfolding closed_row_def Let_def by (rule calm_trans [OF calm_trans [OF one two] calm_refresh [OF calm_apart [OF two]]])
qed

text \<open>A row that moves to its start takes its anchor with it; no other anchor names it.\<close>

lemma calm_adopt:
  assumes ap: "apart A S N t" and fresh: "fresh_id A S N (ti_event_id item) (ti_sequence item) t" and ai: "ai < length (tl_tools t)"
    and ix: "ix < length (tl_entries t)" "te_event_id (tl_entries t ! ix) = ta_event_id (tl_tools t ! ai)"
      "\<not> of_assistant (tl_entries t ! ix)"
  shows "calm A S N s t (adopt_start item ai ix t)"
proof -
  let ?e = "(tl_entries t ! ix)\<lparr>te_sequence := ti_sequence item, te_event_id := ti_event_id item, te_timestamp := ti_timestamp item,
     te_kind := rename_tool (tool_name_or item) (te_kind (tl_entries t ! ix))\<rparr>"
  let ?a = "(tl_tools t ! ai)\<lparr>ta_sequence := ti_sequence item, ta_event_id := ti_event_id item, ta_name := Some (tool_name_or item)\<rparr>"
  let ?es = "insert_entry ?e (remove_nth ix (tl_entries t))"
  let ?as = "(tl_tools t)[ai := ?a]"
  have ids: "map ta_event_id ?as = (map ta_event_id (tl_tools t))[ai := ti_event_id item]"
    by (simp add: map_update)
  have e: "\<not> of_assistant ?e" "entry_apart A S ?e"
    using ix(3) fresh by (simp_all add: of_assistant_def entry_apart_def fresh_id_def)
  have stays: "te_event_id x \<in> te_event_id ` set (remove_nth ix (tl_entries t))"
    if "x \<in> set (tl_entries t)" "te_event_id x \<noteq> te_event_id (tl_entries t ! ix)" for x
  proof -
    have "x \<in> set (take ix (tl_entries t) @ tl_entries t ! ix # drop (Suc ix) (tl_entries t))"
      using that(1) ix(1) by (simp add: id_take_nth_drop [symmetric])
    then show ?thesis
      using that(2) by (auto simp: remove_nth_def)
  qed
  have tools: "ta_event_id a \<notin> A \<and> ta_event_id a \<in> te_event_id ` set ?es \<and> N (ta_event_id a) \<in> tl_seen t" if in_as: "a \<in> set ?as" for a
  proof (cases "ta_event_id a = ti_event_id item")
    case True
    then show ?thesis using fresh by (simp add: fresh_id_def)
  next
    case False
    obtain k where k: "k < length (tl_tools t)" "?as ! k = a"
      using in_as unfolding in_set_conv_nth by auto
    then have "k \<noteq> ai"
      using False ai by auto
    then have a: "a = tl_tools t ! k"
      using k by simp
    then have "ta_event_id a \<noteq> ta_event_id (tl_tools t ! ai)"
      using ap ai k \<open>k \<noteq> ai\<close> nth_eq_iff_index_eq [of "map ta_event_id (tl_tools t)" k ai] by (simp add: apart_def)
    moreover obtain x where "x \<in> set (tl_entries t)" "te_event_id x = ta_event_id a"
      using ap a k(1) unfolding apart_def by (metis imageE nth_mem)
    ultimately have "ta_event_id a \<in> te_event_id ` set (remove_nth ix (tl_entries t))"
      using stays ix(2) by metis
    then show ?thesis
      using ap a k(1) by (auto simp: apart_def)
  qed
  have "sorted (map entry_rank ?es)"
    using ap by (simp add: apart_def sorted_insert_entry sorted_remove_nth)
  moreover have "\<forall>x \<in> set ?es. entry_apart A S x"
    using ap e(2) set_remove_nth [of ix "tl_entries t"] unfolding apart_def by (simp add: subset_iff)
  moreover have "distinct (map ta_event_id ?as)"
    unfolding ids using ap fresh by (intro distinct_list_update) (auto simp: apart_def fresh_id_def)
  ultimately have "apart A S N (t\<lparr>tl_entries := ?es, tl_tools := ?as\<rparr>)"
    using tools unfolding apart_def by simp
  then have one: "calm A S N s t (t\<lparr>tl_entries := ?es, tl_tools := ?as\<rparr>)"
    using e(1) ix(1,3) by (simp add: calm_def assistant_part_def filter_insert_entry filter_remove_nth subset_insertI)
  show ?thesis
    unfolding adopt_start_def Let_def by (intro calm_trans [OF one] calm_refresh calm_apart [OF one])
qed

lemma fresh_after_see:
  assumes "apart A S N t" and "i \<notin> A" and "q \<notin> S" and "N i = q" and "q \<notin> tl_seen t"
  shows "fresh_id A S N i q (see q t)"
  using assms by (auto simp: fresh_id_def apart_def see_def)

lemma update_tool_keeps:
  assumes "update_tool_entry q run call name st d t = (r, t')"
  shows "map ta_event_id (tl_tools t') = map ta_event_id (tl_tools t) \<and> tl_seen t' = tl_seen t"
proof (cases "filter (\<lambda>(i, a). tool_candidate run call name (tl_entries t) a) (List.enumerate 0 (tl_tools t))")
  case (Cons c cs)
  then obtain i a where c: "c = (i, a)" "(i, a) \<in> set (List.enumerate 0 (tl_tools t))"
    using filter_set [of _ "List.enumerate 0 (tl_tools t)"] by (cases c) (metis filter_is_subset list.set_intros(1) subsetD)
  then have "i < length (tl_tools t)" "tl_tools t ! i = a"
    by (auto simp: in_set_enumerate_eq)
  then have "map ta_event_id ((tl_tools t)[i := close_anchor q st a]) = map ta_event_id (tl_tools t)"
    by (simp add: map_update_same close_anchor_def)
  then show ?thesis
    using assms Cons c(1) by (auto simp: update_tool_entry_def Let_def split: list.splits option.splits)
qed (use assms in \<open>simp add: update_tool_entry_def\<close>)

subsection \<open>Items\<close>

lemma calm_item_tool_started:
  assumes "apart A S N t" and "ti_event_id item \<notin> A" and "ti_sequence item \<notin> S" and "N (ti_event_id item) = ti_sequence item"
  shows "calm A S N (ti_sequence item) t (item_tool_started rd item t)"
proof (cases "ti_sequence item \<in> tl_seen t")
  case True
  then show ?thesis using calm_refl [OF assms(1)] by (simp add: item_tool_started_def)
next
  case False
  let ?t = "see (ti_sequence item) t"
  obtain call shown where p: "parse_tool_timeline_context rd (ti_detail item) = (call, shown)"
    by fastforce
  have one: "calm A S N (ti_sequence item) t ?t"
    using calm_see [OF assms(1)] .
  note ap = calm_apart [OF one] and fresh = fresh_after_see [OF assms False]
  note row = calm_trans [OF one calm_open_row [OF ap fresh]]
  have adopt: "calm A S N (ti_sequence item) t (adopt_start item ai ix ?t)"
    if "position P (tl_tools ?t) = Some ai"
      "entry_index_by_identity (ta_event_id (tl_tools ?t ! ai)) (ta_sequence (tl_tools ?t ! ai)) (tl_entries ?t) = Some ix" for P ai ix
  proof -
    have ai: "ai < length (tl_tools ?t)"
      using position_Some [OF that(1)] by simp
    then obtain jx where "entry_index_by_identity (ta_event_id (tl_tools ?t ! ai)) (ta_sequence (tl_tools ?t ! ai)) (tl_entries ?t) = Some jx"
      "jx < length (tl_entries ?t)" "te_event_id (tl_entries ?t ! jx) = ta_event_id (tl_tools ?t ! ai)" "\<not> of_assistant (tl_entries ?t ! jx)"
      using tool_identity [OF ap nth_mem] by metis
    then show ?thesis
      using calm_trans [OF one calm_adopt [OF ap fresh ai]] that(2) by simp
  qed
  show ?thesis
    using False p row adopt by (auto simp: item_tool_started_def Let_def split: option.split)
qed

lemma calm_item_tool_output:
  assumes "apart A S N t"
  shows "calm A S N (ti_sequence item) t (item_tool_output rd item t)"
proof (cases "ti_sequence item \<in> tl_seen t")
  case True
  then show ?thesis using calm_refl [OF assms] by (simp add: item_tool_output_def)
next
  case False
  let ?t = "see (ti_sequence item) t"
  have one: "calm A S N (ti_sequence item) t ?t"
    using calm_see [OF assms] .
  have "calm A S N s ?t (snd (update_tool_entry q run call name st d ?t))" for s q run call name st d
    using calm_update_tool_entry [OF calm_apart [OF one], of q run call name st d] by (metis prod.collapse)
  then show ?thesis
    using False calm_trans [OF one] by (simp add: item_tool_output_def)
qed

lemma calm_item_tool_completed:
  assumes "apart A S N t" and "ti_event_id item \<notin> A" and "ti_sequence item \<notin> S" and "N (ti_event_id item) = ti_sequence item"
  shows "calm A S N (ti_sequence item) t (item_tool_completed rd item t)"
proof -
  let ?t = "see (ti_sequence item) t" and ?s = "ti_sequence item"
  let ?st = "case ti_status item of Some x \<Rightarrow> x | None \<Rightarrow> ''succeeded''"
  obtain call shown where p: "parse_tool_timeline_context rd (ti_detail item) = (call, shown)"
    by fastforce
  obtain r t1 where up: "update_tool_entry ?s (ti_run item) call (ti_tool_name item) (Some ?st) None ?t = (r, t1)"
    by fastforce
  have one: "calm A S N ?s t ?t"
    using calm_see [OF assms(1)] .
  note two = calm_update_tool_entry [OF calm_apart [OF one] up, of ?s]
  have both: "calm A S N ?s t t1"
    using calm_trans [OF one] two by blast
  show ?thesis
  proof (cases r)
    case (Some ix)
    then have ix: "ix < length (tl_entries t1)" "\<not> of_assistant (tl_entries t1 ! ix)"
      using two by simp_all
    let ?t2 = "t1\<lparr>tl_entries := (tl_entries t1)[ix := (tl_entries t1 ! ix)\<lparr>te_kind := result_kind (ti_text item) shown (te_kind (tl_entries t1 ! ix))\<rparr>]\<rparr>"
    have three: "calm A S N ?s t1 ?t2"
      using ix calm_apart [OF both] by (intro calm_kind) (auto simp: of_assistant_def)
    have "calm A S N ?s t1 (replace_tool_result ix item shown t1)"
      unfolding replace_tool_result_def by (intro calm_trans [OF three] calm_refresh calm_apart [OF three])
    then show ?thesis
      using Some up p calm_trans [OF both] by (simp add: item_tool_completed_def Let_def)
  next
    case None
    have "calm A S N ?s t1 (closed_row item call shown ?st t1)" if "?s \<notin> tl_seen t"
    proof (intro calm_closed_row calm_apart [OF both])
      have "ta_event_id ` set (tl_tools t1) = ta_event_id ` set (tl_tools ?t)"
        using update_tool_keeps [OF up] by (metis list.set_map)
      then show "fresh_id A S N (ti_event_id item) ?s t1"
        using fresh_after_see [OF assms that] update_tool_keeps [OF up] by (simp add: fresh_id_def)
    qed
    then show ?thesis
      using None up p both calm_trans [OF both] by (simp add: item_tool_completed_def Let_def)
  qed
qed

lemma calm_item_run_failed:
  assumes "apart A S N t" and "ti_event_id item \<notin> A" and "ti_sequence item \<notin> S"
  shows "calm A S N (ti_sequence item) t (item_run_failed item t)"
proof (cases "ti_sequence item \<in> tl_seen t")
  case True
  have "calm A S N (ti_sequence item) t (t\<lparr>tl_entries := (tl_entries t)[ix := (tl_entries t ! ix)\<lparr>te_kind := EkRunState x\<rparr>]\<rparr>)"
    if "position (\<lambda>e. te_sequence e = ti_sequence item \<and> te_run e = ti_run item) (tl_entries t) = Some ix" for ix x
  proof -
    have ix: "ix < length (tl_entries t)" "te_sequence (tl_entries t ! ix) = ti_sequence item"
      using position_Some [OF that] by simp_all
    then have "\<not> of_assistant (tl_entries t ! ix)"
      using assms(1,3) unfolding apart_def entry_apart_def by (metis nth_mem)
    then show ?thesis
      using ix by (intro calm_kind [OF assms(1)]) (auto simp: of_assistant_def)
  qed
  then show ?thesis
    using True calm_refl [OF assms(1)] by (simp add: item_run_failed_def split: option.split)
next
  case False
  then show ?thesis
    using calm_show [OF assms] by (simp add: item_run_failed_def)
qed

lemma calm_item_other:
  assumes "apart A S N t"
  shows "calm A S N (ti_sequence item) t (item_other rd item t)"
proof -
  have "calm A S N (ti_sequence item) t (refresh_tool_arguments (t\<lparr>tl_arguments := m\<rparr>))" for m
    by (rule calm_trans [OF calm_arguments [OF assms] calm_refresh [OF calm_apart [OF calm_arguments [OF assms]]]])
  then show ?thesis
    using calm_refl [OF assms] by (simp add: item_other_def Let_def split: option.split)
qed

lemma calm_usage: "apart A S N t \<Longrightarrow> calm A S N s t (item_usage ru item t)"
  using calm_refl [of A S N t] calm_usages [of A S N t] by (simp add: item_usage_def split: option.split)

lemma calm_item:
  assumes "apart A S N t" and "ti_event_id item \<notin> A" and "ti_sequence item \<notin> S" and "N (ti_event_id item) = ti_sequence item"
    and "\<not> assistant_item (ti_kind item)"
  shows "calm A S N (ti_sequence item) t (apply_item rd ru item t)"
proof -
  note one = calm_usage [OF assms(1), of "ti_sequence item" ru item]
  note ap = calm_apart [OF one]
  have "calm A S N (ti_sequence item) (item_usage ru item t) (apply_kind rd (ti_kind item) item (item_usage ru item t))"
    using assms(5) calm_show [OF ap assms(2,3)] calm_refl [OF ap] calm_item_tool_started [OF ap assms(2-4)] calm_item_tool_output [OF ap]
      calm_item_tool_completed [OF ap assms(2-4)] calm_item_run_failed [OF ap assms(2,3)] calm_item_other [OF ap]
    by (cases "ti_kind item") (simp_all add: assistant_item_def item_approval_requested_def item_approval_responded_def
        item_diagnostic_def Let_def split: option.split)
  then show ?thesis
    using calm_trans [OF one] by (simp add: apply_item_def)
qed

subsection \<open>Events\<close>

lemma calm_event_tool_started:
  assumes "apart A S N t" and "fresh_id A S N (ev_event_id ev) (ev_sequence ev) t"
  shows "calm A S N s t (event_tool_started ev run call name t)"
proof -
  let ?e = "event_entry ev (EkToolCall name ''running'' None None) None (Some run)"
  have one: "calm A S N s t (put_entry ?e t)"
    using assms apart_entries(2) by (intro calm_put) (auto simp: fresh_id_def)
  have "calm A S N s (put_entry ?e t) (push_tool_anchor (Some run) (Some call) (Some name) place None (put_entry ?e t))"
    if "anchor_after_insert (ev_event_id ev) (ev_sequence ev) (tl_entries (put_entry ?e t)) = Some place" for place
    using calm_apart [OF one] anchor_after_own [of ?e] that assms(2) by (intro calm_push) (auto simp: fresh_id_def put_entry_def)
  then show ?thesis
    using one calm_trans [OF one] by (simp add: event_tool_started_def Let_def split: option.split)
qed

lemma calm_event_tool_completed:
  assumes "apart A S N t" and "fresh_id A S N (ev_event_id ev) (ev_sequence ev) t"
  shows "calm A S N s t (event_tool_completed ev run call success t)"
proof -
  let ?st = "if success then ''succeeded'' else ''failed''"
  obtain r t1 where up: "update_tool_entry (ev_sequence ev) (Some run) (Some call) None (Some ?st) None t = (r, t1)"
    by fastforce
  have one: "calm A S N s t t1"
    using calm_update_tool_entry [OF assms(1) up] by blast
  let ?e = "event_entry ev (EkToolCall call ?st None None) None (Some run)"
  have "ta_event_id ` set (tl_tools t1) = ta_event_id ` set (tl_tools t)"
    using update_tool_keeps [OF up] by (metis list.set_map)
  then have fresh: "fresh_id A S N (ev_event_id ev) (ev_sequence ev) t1"
    using assms(2) update_tool_keeps [OF up] by (simp add: fresh_id_def)
  have two: "calm A S N s t1 (put_entry ?e t1)"
    using calm_apart [OF one] fresh apart_entries(2) by (intro calm_put) (auto simp: fresh_id_def)
  have "calm A S N s (put_entry ?e t1) (push_tool_anchor (Some run) (Some call) None (ev_event_id ev, ev_sequence ev) (Some (ev_sequence ev)) (put_entry ?e t1))"
    using calm_apart [OF two] fresh by (intro calm_push) (auto simp: fresh_id_def put_entry_def)
  then show ?thesis
    using up one calm_trans [OF one calm_trans [OF two]] by (cases r) (simp_all add: event_tool_completed_def Let_def)
qed

lemma calm_enrich:
  assumes "apart A S N t"
  shows "calm A S N s t (enrich_tool_anchor q run call name t)"
proof -
  have "calm A S N s t (t\<lparr>tl_tools := (tl_tools t)[i := (tl_tools t ! i)\<lparr>ta_call := Some call, ta_name := Some name\<rparr>]\<rparr>)"
    if "position P (tl_tools t) = Some i" for i P
    using position_Some [OF that] by (intro calm_tools [OF assms]) (simp add: map_update_same)
  then show ?thesis
    using calm_refl [OF assms] by (simp add: enrich_tool_anchor_def split: option.split)
qed

lemma calm_event:
  assumes "apart A S N t" and "ev_event_id ev \<notin> A" and "ev_sequence ev \<notin> S" and "N (ev_event_id ev) = ev_sequence ev"
    and "\<not> assistant_event (ev_payload ev)"
  shows "calm A S N (ev_sequence ev) t (snd (apply_event rd ev t))"
proof (cases "ev_sequence ev \<in> tl_seen t")
  case True
  then show ?thesis
    using assms(5) calm_refl [OF assms(1)] calm_enrich [OF assms(1)]
    by (cases "ev_payload ev") (simp_all add: apply_event_def split: option.split)
next
  case False
  let ?t = "see (ev_sequence ev) t"
  have one: "calm A S N (ev_sequence ev) t ?t"
    using calm_see [OF assms(1)] .
  note ap = calm_apart [OF one] and fresh = fresh_after_see [OF assms(1-4) False]
  have row: "calm A S N (ev_sequence ev) t (put_entry (event_entry ev (EkRunState x) f r) ?t)" for x f r
    using assms(2,3) apart_entries(2) by (intro calm_trans [OF one] calm_put ap) auto
  have out: "calm A S N (ev_sequence ev) t t'" if "update_tool_entry q run call name st d ?t = (r, t')" for q run call name st d r t'
    using calm_trans [OF one] calm_update_tool_entry [OF ap that] by blast
  show ?thesis
    using False assms(5) calm_refl [OF assms(1)] row out calm_trans [OF one calm_event_tool_started [OF ap fresh]]
      calm_trans [OF one calm_event_tool_completed [OF ap fresh]]
    by (cases "ev_payload ev") (simp_all add: apply_event_def split: option.split prod.split)
qed

lemma calm_delivery:
  assumes "apart A S N t" and "of_others d" and "delivery_event_id d \<notin> A" and "delivery_sequence d \<notin> S"
    and "N (delivery_event_id d) = delivery_sequence d"
  shows "calm A S N (delivery_sequence d) t (deliver rd ru d t)"
  using assms calm_item calm_event
  by (cases d) (simp_all add: of_others_def delivery_event_id_def delivery_sequence_def deliver_def)

end
