(* ===== verification/TimelineStreams.thy ===== *)
theory TimelineStreams
  imports TimelineOthers
begin

text \<open>
  What the timeline should show of the assistant: a function of the set of pieces that have arrived, whatever way
  and order they came.
\<close>

subsection \<open>Pieces\<close>

record fragment =
  fg_sequence :: u64
  fg_event :: string
  fg_time :: string
  fg_run :: string
  fg_message :: string
  fg_thinking :: bool
  fg_text :: string

record committed =
  cm_sequence :: u64
  cm_event :: string
  cm_time :: string
  cm_run :: string
  cm_message :: string
  cm_text :: string
  cm_thought :: string

text \<open>A committed message closes two streams, its text and its thought.\<close>

datatype piece = Fragment fragment | Committed bool committed

definition pieces_of :: "delivery \<Rightarrow> piece list" where
  "pieces_of d =
     (case d of
        FromPage item \<Rightarrow>
          (case (ti_run item, ti_message item) of
             (Some r, Some m) \<Rightarrow>
               (if ti_kind item = TkAssistantDelta \<or> ti_kind item = TkThinkingDelta
                then [Fragment \<lparr>fg_sequence = ti_sequence item, fg_event = ti_event_id item, fg_time = ti_timestamp item, fg_run = r,
                        fg_message = m, fg_thinking = (ti_kind item = TkThinkingDelta), fg_text = or_empty (ti_text item)\<rparr>]
                else if ti_kind item = TkAssistantMessage
                then (let c = \<lparr>cm_sequence = ti_sequence item, cm_event = ti_event_id item, cm_time = ti_timestamp item, cm_run = r,
                        cm_message = m, cm_text = or_empty (ti_text item), cm_thought = or_empty (ti_thinking item)\<rparr>
                      in [Committed False c, Committed True c])
                else [])
           | _ \<Rightarrow> [])
      | FromLive ev \<Rightarrow>
          (let f = \<lambda>r m th x. [Fragment \<lparr>fg_sequence = ev_sequence ev, fg_event = ev_event_id ev,
                  fg_time = dec (unat (ev_timestamp ev)), fg_run = r, fg_message = m, fg_thinking = th, fg_text = x\<rparr>]
           in case ev_payload ev of
                EvAssistantDelta r m x \<Rightarrow> f r m False x
              | EvThinkingDelta r m x \<Rightarrow> f r m True x
              | _ \<Rightarrow> []))"

fun piece_sequence :: "piece \<Rightarrow> u64" where
  "piece_sequence (Fragment f) = fg_sequence f"
| "piece_sequence (Committed _ c) = cm_sequence c"

fun piece_event :: "piece \<Rightarrow> string" where
  "piece_event (Fragment f) = fg_event f"
| "piece_event (Committed _ c) = cm_event c"

datatype stream_key = Stream (sk_run: string) (sk_message: string) (sk_thinking: bool)

fun piece_key :: "piece \<Rightarrow> stream_key" where
  "piece_key (Fragment f) = Stream (fg_run f) (fg_message f) (fg_thinking f)"
| "piece_key (Committed th c) = Stream (cm_run c) (cm_message c) th"

subsection \<open>What is shown\<close>

definition fragments :: "piece list \<Rightarrow> stream_key \<Rightarrow> fragment list" where
  "fragments ps k = sort_key fg_sequence (remdups (List.map_filter
     (\<lambda>p. case p of Fragment f \<Rightarrow> (if piece_key p = k then Some f else None) | Committed _ _ \<Rightarrow> None) ps))"

definition commits :: "piece list \<Rightarrow> stream_key \<Rightarrow> committed list" where
  "commits ps k = List.map_filter
     (\<lambda>p. case p of Committed th c \<Rightarrow> (if piece_key p = k then Some c else None) | Fragment _ \<Rightarrow> None) ps"

definition shown_id :: "stream_key \<Rightarrow> string \<Rightarrow> string" where
  "shown_id k ev = (case k of Stream r m th \<Rightarrow> assistant_event_id ev (Some r) (Some m) th)"

definition shown_entry :: "stream_key \<Rightarrow> u64 \<Rightarrow> string \<Rightarrow> string \<Rightarrow> string \<Rightarrow> timeline_entry" where
  "shown_entry k s ev ts text = (case k of Stream r m th \<Rightarrow> assistant_entry s (shown_id k ev) th text ts (Some r))"

definition stream_entry :: "piece list \<Rightarrow> stream_key \<Rightarrow> timeline_entry option" where
  "stream_entry ps k =
     (case (commits ps k, fragments ps k) of
        ([], []) \<Rightarrow> None
      | ([], f # fs) \<Rightarrow> Some (shown_entry k (fg_sequence f) (fg_event f) (fg_time f) (concat (map fg_text (f # fs))))
      | (c # _, fs) \<Rightarrow>
          (if \<not> sk_thinking k then Some (shown_entry k (cm_sequence c) (cm_event c) (cm_time c) (cm_text c))
           else if cm_thought c = [] then None
           else (case fs of
              [] \<Rightarrow> Some (shown_entry k (cm_sequence c) (cm_event c) (cm_time c) (cm_thought c))
            | f # _ \<Rightarrow> Some (shown_entry k (fg_sequence f) (cm_event c) (fg_time f) (cm_thought c)))))"

text \<open>
  Pieces of one session log: a sequence number has one event and one piece, or the two halves of a committed
  message; event ids are not empty and do not look like the ids of thoughts; a run id has no colon; a message
  is committed once, after its fragments.
\<close>

definition same_piece :: "piece \<Rightarrow> piece \<Rightarrow> bool" where
  "same_piece p q \<longleftrightarrow> p = q \<or> (\<exists>c th th'. p = Committed th c \<and> q = Committed th' c)"

definition lawful_pieces :: "piece set \<Rightarrow> bool" where
  "lawful_pieces L \<longleftrightarrow>
     (\<forall>p \<in> L. \<forall>q \<in> L. (piece_sequence p = piece_sequence q \<or> piece_event p = piece_event q \<longrightarrow> same_piece p q))
     \<and> (\<forall>p \<in> L. piece_event p \<noteq> [] \<and> \<not> starts_with ''thinking:'' (piece_event p) \<and> CHR '':'' \<notin> set (sk_run (piece_key p)))
     \<and> (\<forall>f th c. Fragment f \<in> L \<longrightarrow> Committed th c \<in> L \<longrightarrow> fg_run f = cm_run c \<longrightarrow> fg_message f = cm_message c
          \<longrightarrow> fg_sequence f < cm_sequence c)
     \<and> (\<forall>th c th' c'. Committed th c \<in> L \<longrightarrow> Committed th' c' \<in> L \<longrightarrow> cm_run c = cm_run c' \<longrightarrow> cm_message c = cm_message c'
          \<longrightarrow> c = c')"

lemma lawfulD:
  assumes "lawful_pieces L"
  shows "p \<in> L \<Longrightarrow> q \<in> L \<Longrightarrow> piece_sequence p = piece_sequence q \<or> piece_event p = piece_event q \<Longrightarrow> same_piece p q"
    and "p \<in> L \<Longrightarrow> piece_event p \<noteq> [] \<and> \<not> starts_with ''thinking:'' (piece_event p) \<and> CHR '':'' \<notin> set (sk_run (piece_key p))"
    and "Fragment f \<in> L \<Longrightarrow> Committed th c \<in> L \<Longrightarrow> fg_run f = cm_run c \<Longrightarrow> fg_message f = cm_message c \<Longrightarrow> fg_sequence f < cm_sequence c"
    and "Committed th c \<in> L \<Longrightarrow> Committed th' c' \<in> L \<Longrightarrow> cm_run c = cm_run c' \<Longrightarrow> cm_message c = cm_message c' \<Longrightarrow> c = c'"
  using assms unfolding lawful_pieces_def by blast+

lemma in_map_filter: "y \<in> set (List.map_filter f xs) \<longleftrightarrow> (\<exists>x \<in> set xs. f x = Some y)"
  by (induction xs) (auto simp: List.map_filter_simps split: option.splits)

lemma set_fragments: "f \<in> set (fragments ps k) \<longleftrightarrow> Fragment f \<in> set ps \<and> piece_key (Fragment f) = k"
proof -
  have "(case p of Fragment g \<Rightarrow> (if piece_key p = k then Some g else None) | Committed _ _ \<Rightarrow> None) = Some f
      \<longleftrightarrow> p = Fragment f \<and> piece_key (Fragment f) = k" for p
    by (cases p) auto
  then show ?thesis
    by (auto simp: fragments_def in_map_filter)
qed

lemma set_commits: "c \<in> set (commits ps k) \<longleftrightarrow> Committed (sk_thinking k) c \<in> set ps \<and> piece_key (Committed (sk_thinking k) c) = k"
proof -
  have "(case p of Committed th d \<Rightarrow> (if piece_key p = k then Some d else None) | Fragment _ \<Rightarrow> None) = Some c
      \<longleftrightarrow> p = Committed (sk_thinking k) c \<and> piece_key (Committed (sk_thinking k) c) = k" for p
    by (cases p) auto
  then show ?thesis
    by (auto simp: commits_def in_map_filter)
qed

lemma distinct_fragments: "distinct (fragments ps k)"
  by (simp add: fragments_def)

lemma sequences_distinct:
  assumes "lawful_pieces L" and "set ps \<subseteq> L"
  shows "distinct (map fg_sequence (fragments ps k))"
proof -
  have "inj_on fg_sequence (set (fragments ps k))"
  proof (rule inj_onI)
    fix f g
    assume "f \<in> set (fragments ps k)" "g \<in> set (fragments ps k)" "fg_sequence f = fg_sequence g"
    then show "f = g"
      using assms(2) lawfulD(1) [OF assms(1), of "Fragment f" "Fragment g"] by (auto simp: set_fragments same_piece_def)
  qed
  then show ?thesis
    using distinct_fragments by (simp add: distinct_map)
qed

lemma sorted_fragments: "sorted (map fg_sequence (fragments ps k))"
  by (simp add: fragments_def)

text \<open>Only the set of pieces matters.\<close>

lemma fragments_by_set:
  assumes "lawful_pieces L" and "set ps \<subseteq> L" and "set qs \<subseteq> L" and "\<And>f. piece_key (Fragment f) = k \<Longrightarrow> Fragment f \<in> set ps \<longleftrightarrow> Fragment f \<in> set qs"
  shows "fragments ps k = fragments qs k"
proof -
  have "set (fragments ps k) = set (fragments qs k)"
    using assms(4) by (auto simp: set_fragments)
  moreover have "inj_on fg_sequence (set (fragments ps k) \<union> set (fragments qs k))"
    using sequences_distinct [OF assms(1,2), of k] calculation by (simp add: distinct_map)
  ultimately show ?thesis
    using sequences_distinct [OF assms(1)] assms(2,3) sorted_fragments
    by (intro map_sorted_distinct_set_unique [where f = fg_sequence]) auto
qed

subsection \<open>Entries of different streams\<close>

lemma entry_source:
  assumes "stream_entry ps k = Some e"
  shows "\<exists>p \<in> set ps. piece_key p = k \<and> te_sequence e = piece_sequence p \<and> te_event_id e = shown_id k (piece_event p)
    \<and> is_thinking (te_kind e) = sk_thinking k \<and> of_assistant e"
proof -
  obtain r m th where k: "k = Stream r m th"
    by (cases k)
  have shape: "te_sequence (shown_entry k s ev ts x) = s" "te_event_id (shown_entry k s ev ts x) = shown_id k ev"
    "is_thinking (te_kind (shown_entry k s ev ts x)) = th" "of_assistant (shown_entry k s ev ts x)" for s ev ts x
    by (simp_all add: k shown_entry_def assistant_entry_def text_kind_def of_assistant_def)
  have thought: "th \<Longrightarrow> shown_id k ev = shown_id k ev'" for ev ev'
    by (simp add: k shown_id_def assistant_event_id_def)
  show ?thesis
  proof (cases "commits ps k")
    case Nil
    then obtain f fs where f: "fragments ps k = f # fs"
      using assms by (cases "fragments ps k") (simp_all add: stream_entry_def)
    then have "Fragment f \<in> set ps" "piece_key (Fragment f) = k"
      using set_fragments [of f ps k] by simp_all
    then show ?thesis
      using assms Nil f shape k by (intro bexI [where x = "Fragment f"]) (auto simp: stream_entry_def)
  next
    case (Cons c cs)
    then have c: "Committed th c \<in> set ps" "piece_key (Committed th c) = k"
      using set_commits [of c ps k] k by simp_all
    show ?thesis
    proof (cases "th \<and> fragments ps k \<noteq> []")
      case True
      then obtain f fs where f: "fragments ps k = f # fs"
        by (cases "fragments ps k") simp_all
      then have "Fragment f \<in> set ps" "piece_key (Fragment f) = k"
        using set_fragments [of f ps k] by simp_all
      moreover have "e = shown_entry k (fg_sequence f) (cm_event c) (fg_time f) (cm_thought c)"
        using assms Cons f True k by (simp add: stream_entry_def split: if_splits)
      ultimately show ?thesis
        using shape thought True k by (intro bexI [where x = "Fragment f"]) auto
    next
      case False
      then show ?thesis
        using assms Cons c shape k by (intro bexI [where x = "Committed th c"])
          (auto simp: stream_entry_def split: if_splits list.splits)
    qed
  qed
qed

lemma shown_id_inj:
  assumes "CHR '':'' \<notin> set r" and "CHR '':'' \<notin> set r'" and "shown_id (Stream r m True) x = shown_id (Stream r' m' True) y"
  shows "r = r' \<and> m = m'"
  using assms append_sep_inj [where xs = r and d = "CHR '':''" and ys = r' and us = m and vs = m'] by (fastforce simp: shown_id_def assistant_event_id_def or_empty_def)

lemma shown_id_thinking: "starts_with ''thinking:'' (shown_id (Stream r m True) x)"
  by (simp add: shown_id_def assistant_event_id_def starts_with_def)

lemma shown_id_text [simp]: "shown_id (Stream r m False) x = x"
  by (simp add: shown_id_def assistant_event_id_def)

lemma same_piece_key: "same_piece p q \<Longrightarrow> sk_thinking (piece_key p) = sk_thinking (piece_key q) \<Longrightarrow> piece_key p = piece_key q"
  by (auto simp: same_piece_def)

lemma shown_id_starts: "sk_thinking k \<Longrightarrow> starts_with ''thinking:'' (shown_id k x)"
  by (cases k) (auto simp: shown_id_thinking)

lemma shown_id_plain: "\<not> sk_thinking k \<Longrightarrow> shown_id k x = x"
  by (cases k) simp

lemma id_stream:
  assumes "lawful_pieces L" and "p \<in> L" and "q \<in> L"
    and ids: "shown_id (piece_key p) (piece_event p) = shown_id (piece_key q) (piece_event q)"
  shows "piece_key p = piece_key q"
proof -
  note lp = lawfulD(2) [OF assms(1,2)] and lq = lawfulD(2) [OF assms(1,3)]
  consider "sk_thinking (piece_key p)" "sk_thinking (piece_key q)" | "\<not> sk_thinking (piece_key p)" "\<not> sk_thinking (piece_key q)"
    | "sk_thinking (piece_key p) \<noteq> sk_thinking (piece_key q)"
    by blast
  then show ?thesis
  proof cases
    case 1
    then obtain r m r' m' where k: "piece_key p = Stream r m True" "piece_key q = Stream r' m' True"
      by (cases "piece_key p"; cases "piece_key q") simp
    then show ?thesis
      using ids lp lq shown_id_inj [of r r' m "piece_event p" m' "piece_event q"] by simp
  next
    case 2
    then have "piece_event p = piece_event q"
      using ids by (simp add: shown_id_plain)
    then show ?thesis
      using lawfulD(1) [OF assms(1-3)] 2 by (simp add: same_piece_key)
  next
    case 3
    then have "starts_with ''thinking:'' (piece_event p) \<or> starts_with ''thinking:'' (piece_event q)"
      using ids shown_id_starts [of "piece_key p" "piece_event p"] shown_id_starts [of "piece_key q" "piece_event q"]
      by (cases "sk_thinking (piece_key p)") (simp_all add: shown_id_plain)
    then show ?thesis
      using lp lq by blast
  qed
qed

lemma entry_stream:
  assumes "lawful_pieces L" and "set ps \<subseteq> L" and "stream_entry ps k = Some e" and "stream_entry ps k' = Some e'"
    and "te_event_id e = te_event_id e' \<or> entry_rank e = entry_rank e'"
  shows "k = k'"
proof -
  obtain p where p: "p \<in> L" "piece_key p = k" "te_sequence e = piece_sequence p" "te_event_id e = shown_id k (piece_event p)"
    "is_thinking (te_kind e) = sk_thinking k"
    using entry_source [OF assms(3)] assms(2) by blast
  obtain q where q: "q \<in> L" "piece_key q = k'" "te_sequence e' = piece_sequence q" "te_event_id e' = shown_id k' (piece_event q)"
    "is_thinking (te_kind e') = sk_thinking k'"
    using entry_source [OF assms(4)] assms(2) by blast
  from assms(5) show ?thesis
  proof
    assume "te_event_id e = te_event_id e'"
    then show ?thesis
      using id_stream [OF assms(1) p(1) q(1)] p(2,4) q(2,4) by simp
  next
    assume "entry_rank e = entry_rank e'"
    then show ?thesis
      using same_piece_key [of p q] p(2,3,5) q(2,3,5) lawfulD(1) [OF assms(1) p(1) q(1)] by (simp add: entry_rank_def)
  qed
qed

subsection \<open>One more piece\<close>

lemma other_stream:
  assumes "piece_key p \<noteq> k"
  shows "fragments (ps @ [p]) k = fragments ps k" and "commits (ps @ [p]) k = commits ps k"
  using assms by (cases p; simp add: fragments_def commits_def List.map_filter_def)+

lemma fragments_commit [simp]: "fragments (ps @ [Committed th c]) k = fragments ps k"
  by (simp add: fragments_def List.map_filter_def)

lemma commits_fragment [simp]: "commits (ps @ [Fragment f]) k = commits ps k"
  by (simp add: commits_def List.map_filter_def)

lemma stream_entry_other: "piece_key p \<noteq> k \<Longrightarrow> stream_entry (ps @ [p]) k = stream_entry ps k"
  by (simp add: stream_entry_def other_stream)

lemma fragments_snoc:
  assumes "lawful_pieces L" and "set ps \<subseteq> L" and "Fragment f \<in> L" and "Fragment f \<notin> set ps"
  shows "fragments (ps @ [Fragment f]) (piece_key (Fragment f)) = insort_key fg_sequence f (fragments ps (piece_key (Fragment f)))"
proof -
  let ?k = "piece_key (Fragment f)"
  have "set (fragments (ps @ [Fragment f]) ?k) = set (insort_key fg_sequence f (fragments ps ?k))"
    by (auto simp: set_fragments set_insort_key)
  moreover have "f \<notin> set (fragments ps ?k)"
    using assms(4) by (simp add: set_fragments)
  moreover have "distinct (map fg_sequence (fragments (ps @ [Fragment f]) ?k))"
    using assms by (intro sequences_distinct [where L = L]) auto
  moreover have "distinct (map fg_sequence (insort_key fg_sequence f (fragments ps ?k)))"
    using calculation distinct_fragments [of ps ?k] by (simp add: distinct_map distinct_insort)
  moreover have "inj_on fg_sequence (set (fragments (ps @ [Fragment f]) ?k) \<union> set (insort_key fg_sequence f (fragments ps ?k)))"
    using calculation(1,3) by (simp add: distinct_map)
  ultimately show ?thesis
    using sorted_fragments by (intro map_sorted_distinct_set_unique [where f = fg_sequence]) (auto simp: sorted_insort_key)
qed

definition fragment_pair :: "fragment \<Rightarrow> u64 \<times> string \<times> string \<times> string" where
  "fragment_pair f = (fg_sequence f, fg_event f, fg_time f, fg_text f)"

lemma put_fragment:
  "sorted (map fg_sequence fs) \<Longrightarrow> fg_sequence f \<notin> set (map fg_sequence fs) \<Longrightarrow>
   bt_put (fg_sequence f) (fg_event f, fg_time f, fg_text f) (map fragment_pair fs) = map fragment_pair (insort_key fg_sequence f fs)"
  by (induction fs) (auto simp: fragment_pair_def)

end
