(* ===== verification/TimelineReads.thy ===== *)
theory TimelineReads
  imports TimelineStreams
begin

text \<open>
  The invariant of the reducer: it shows of the assistant exactly what the pieces that arrived say, and its anchors
  know where.
\<close>

subsection \<open>The invariant\<close>

definition assistant_ids :: "piece set \<Rightarrow> string set" where
  "assistant_ids L = {[]} \<union> piece_event ` L \<union> {i. starts_with ''thinking:'' i}"

definition anchor_key :: "assistant_anchor \<Rightarrow> string option \<times> string option \<times> bool" where
  "anchor_key a = (aa_run a, aa_message a, aa_thinking a)"

definition known_key :: "stream_key \<Rightarrow> string option \<times> string option \<times> bool" where
  "known_key k = (case k of Stream r m th \<Rightarrow> (Some r, Some m, th))"

lemma known_key_inj [simp]: "known_key k = known_key k' \<longleftrightarrow> k = k'"
  by (cases k; cases k') (auto simp: known_key_def)

definition anchor_ok :: "piece list \<Rightarrow> stream_key \<Rightarrow> assistant_anchor \<Rightarrow> bool" where
  "anchor_ok ps k a \<longleftrightarrow> anchor_key a = known_key k \<and>
     (case commits ps k of
        c # _ \<Rightarrow> aa_committed a \<and> aa_event_id a = shown_id k (cm_event c)
          \<and> (\<forall>e. stream_entry ps k = Some e \<longrightarrow> aa_sequence a = te_sequence e)
      | [] \<Rightarrow> \<not> aa_committed a \<and> aa_fragments a = map fragment_pair (fragments ps k) \<and>
          (case fragments ps k of
             f # _ \<Rightarrow> aa_sequence a = fg_sequence f \<and> aa_event_id a = shown_id k (fg_event f)
           | [] \<Rightarrow> False))"

definition touched :: "piece list \<Rightarrow> stream_key \<Rightarrow> bool" where
  "touched ps k \<longleftrightarrow> commits ps k \<noteq> [] \<or> fragments ps k \<noteq> []"

definition reads :: "piece set \<Rightarrow> (string \<Rightarrow> u64) \<Rightarrow> piece list \<Rightarrow> timeline \<Rightarrow> bool" where
  "reads L N ps t \<longleftrightarrow> set ps \<subseteq> L \<and> apart (assistant_ids L) (piece_sequence ` L) N t
     \<and> (\<forall>e. e \<in> set (assistant_part t) \<longleftrightarrow> (\<exists>k. stream_entry ps k = Some e)) \<and> distinct (assistant_part t)
     \<and> distinct (map anchor_key (tl_assistants t)) \<and> (\<forall>a \<in> set (tl_assistants t). \<exists>k. anchor_ok ps k a)
     \<and> (\<forall>k. touched ps k \<longrightarrow> (\<exists>a \<in> set (tl_assistants t). anchor_ok ps k a))"

lemma anchor_ok_touched: "anchor_ok ps k a \<Longrightarrow> touched ps k"
  by (auto simp: anchor_ok_def touched_def split: list.splits)

lemma anchor_ok_other:
  assumes "piece_key p \<noteq> k"
  shows "anchor_ok (ps @ [p]) k a = anchor_ok ps k a"
  unfolding anchor_ok_def other_stream [OF assms] stream_entry_other [OF assms] ..

lemma touched_other: "piece_key p \<noteq> k \<Longrightarrow> touched (ps @ [p]) k = touched ps k"
  by (simp add: touched_def other_stream)

text \<open>The step of one stream, given what it does to the anchors and the entries.\<close>

lemma reads_step:
  assumes r: "reads L N ps t" and p: "p \<in> L" "piece_key p = k"
    and ap: "apart (assistant_ids L) (piece_sequence ` L) N t'"
    and anchors: "distinct (map anchor_key (tl_assistants t'))"
      "set (tl_assistants t') = insert a {b \<in> set (tl_assistants t). anchor_key b \<noteq> known_key k}" "anchor_ok (ps @ [p]) k a"
    and entries: "distinct (assistant_part t')"
      "\<And>e. e \<in> set (assistant_part t') \<longleftrightarrow> stream_entry (ps @ [p]) k = Some e \<or> e \<in> set (assistant_part t) \<and> stream_entry ps k \<noteq> Some e"
    and law: "lawful_pieces L"
  shows "reads L N (ps @ [p]) t'"
  unfolding reads_def
proof (intro conjI allI ballI impI)
  show "set (ps @ [p]) \<subseteq> L"
    using r p by (simp add: reads_def)
  fix e
  show "e \<in> set (assistant_part t') \<longleftrightarrow> (\<exists>k'. stream_entry (ps @ [p]) k' = Some e)"
  proof
    assume "e \<in> set (assistant_part t')"
    then consider "stream_entry (ps @ [p]) k = Some e" | k' where "stream_entry ps k' = Some e" "stream_entry ps k \<noteq> Some e"
      using entries(2) r by (auto simp: reads_def)
    then show "\<exists>k'. stream_entry (ps @ [p]) k' = Some e"
    proof cases
      case (2 k')
      then show ?thesis
        using stream_entry_other [of p k' ps] p(2) by metis
    qed blast
  next
    assume "\<exists>k'. stream_entry (ps @ [p]) k' = Some e"
    then obtain k' where k': "stream_entry (ps @ [p]) k' = Some e"
      by blast
    show "e \<in> set (assistant_part t')"
    proof (cases "k' = k")
      case True
      then show ?thesis using k' entries(2) by blast
    next
      case False
      then have e: "stream_entry ps k' = Some e"
        using k' stream_entry_other [of p k' ps] p(2) by simp
      then have "e \<in> set (assistant_part t)"
        using r by (auto simp: reads_def)
      moreover have "stream_entry ps k \<noteq> Some e"
        using False e entry_stream [OF law, of ps k' e k e] r by (auto simp: reads_def)
      ultimately show ?thesis using entries(2) by blast
    qed
  qed
next
  fix b
  assume "b \<in> set (tl_assistants t')"
  then consider "b = a" | k' where "anchor_ok ps k' b" "anchor_key b \<noteq> known_key k"
    using anchors(2) r by (auto simp: reads_def)
  then show "\<exists>k'. anchor_ok (ps @ [p]) k' b"
  proof cases
    case (2 k')
    then have "k' \<noteq> k"
      by (auto simp: anchor_ok_def)
    then show ?thesis
      using 2 anchor_ok_other [of p k' ps b] p(2) by auto
  qed (use anchors(3) in blast)
next
  fix k'
  assume t: "touched (ps @ [p]) k'"
  show "\<exists>b \<in> set (tl_assistants t'). anchor_ok (ps @ [p]) k' b"
  proof (cases "k' = k")
    case True
    then show ?thesis using anchors(2,3) by auto
  next
    case False
    then obtain b where b: "b \<in> set (tl_assistants t)" "anchor_ok ps k' b"
      using t r touched_other [of p k' ps] p(2) by (auto simp: reads_def)
    then have "anchor_key b \<noteq> known_key k"
      using False by (simp add: anchor_ok_def)
    then show ?thesis
      using b False anchors(2) anchor_ok_other [of p k' ps b] p(2) by auto
  qed
qed (use ap anchors(1) entries(1) in simp_all)

subsection \<open>Finding the anchor\<close>

lemma exact_index:
  assumes "\<And>a. a \<in> set as \<Longrightarrow> aa_message a \<noteq> None"
  shows "assistant_anchor_index (Some r) (Some m) th s c as
    = position (\<lambda>a. same_stream (Some r) th a \<and> aa_message a = Some m) as"
proof -
  have "filter (\<lambda>(i, a). same_stream (Some r) th a \<and> aa_message a = None) (List.enumerate 0 as) = []"
    using assms [OF nth_mem] by (fastforce simp: filter_empty_conv in_set_enumerate_eq)
  then show ?thesis
    by (simp add: assistant_anchor_index_def split: option.split)
qed

lemma anchor_lookup:
  assumes "reads L N ps t" and "k = Stream r m th"
  obtains (old) i where "assistant_anchor_index (Some r) (Some m) th s c (tl_assistants t) = Some i" "i < length (tl_assistants t)"
      "anchor_ok ps k (tl_assistants t ! i)"
  | (new) "assistant_anchor_index (Some r) (Some m) th s c (tl_assistants t) = None" "\<not> touched ps k"
      "\<And>a. a \<in> set (tl_assistants t) \<Longrightarrow> anchor_key a \<noteq> known_key k"
proof -
  let ?P = "\<lambda>a. same_stream (Some r) th a \<and> aa_message a = Some m"
  have P: "?P a \<longleftrightarrow> anchor_key a = known_key k" for a
    using assms(2) by (auto simp: same_stream_def anchor_key_def known_key_def)
  have "aa_message a \<noteq> None" if in_as: "a \<in> set (tl_assistants t)" for a
  proof -
    obtain k' where "anchor_ok ps k' a"
      using assms(1) in_as unfolding reads_def by blast
    then show ?thesis
      by (cases k') (simp add: anchor_ok_def anchor_key_def known_key_def)
  qed
  then have index: "assistant_anchor_index (Some r) (Some m) th s c (tl_assistants t) = position ?P (tl_assistants t)"
    by (rule exact_index)
  show ?thesis
  proof (cases "position ?P (tl_assistants t)")
    case None
    then have "anchor_key a \<noteq> known_key k" if "a \<in> set (tl_assistants t)" for a
      using that P by (auto simp: position_None)
    moreover from this have "\<not> touched ps k"
      using assms(1) by (auto simp: reads_def anchor_ok_def)
    ultimately show ?thesis
      using new index None by simp
  next
    case (Some i)
    then have i: "i < length (tl_assistants t)" "anchor_key (tl_assistants t ! i) = known_key k"
      using position_Some [OF Some] P by simp_all
    then obtain k' where "anchor_ok ps k' (tl_assistants t ! i)"
      using assms(1) unfolding reads_def by (metis nth_mem)
    moreover from this have "k' = k"
      using i(2) by (simp add: anchor_ok_def)
    ultimately show ?thesis
      using old index Some i(1) by simp
  qed
qed

subsection \<open>Entries under one stream's step\<close>

lemma anchor_id:
  assumes "anchor_ok ps k a"
  shows "\<exists>q \<in> set ps. piece_key q = k \<and> aa_event_id a = shown_id k (piece_event q)"
proof (cases "commits ps k")
  case Nil
  then obtain f fs where f: "fragments ps k = f # fs"
    using assms by (cases "fragments ps k") (simp_all add: anchor_ok_def)
  then show ?thesis
    using assms Nil set_fragments [of f ps k] by (intro bexI [where x = "Fragment f"]) (simp_all add: anchor_ok_def)
next
  case (Cons c cs)
  then show ?thesis
    using assms set_commits [of c ps k] by (intro bexI [where x = "Committed (sk_thinking k) c"]) (simp_all add: anchor_ok_def)
qed

lemma anchor_entry:
  assumes "anchor_ok ps k a" and "stream_entry ps k = Some e"
  shows "te_event_id e = aa_event_id a \<and> te_sequence e = aa_sequence a"
proof -
  have shape: "te_sequence (shown_entry k s ev ts x) = s" "te_event_id (shown_entry k s ev ts x) = shown_id k ev" for s ev ts x
    by (cases k; simp add: shown_entry_def assistant_entry_def)+
  show ?thesis
    using assms shape by (auto simp: anchor_ok_def stream_entry_def split: list.splits if_splits)
qed

text \<open>Among the assistant's entries the id of an anchor names its stream's entry and no other.\<close>

lemma own_entry:
  assumes "reads L N ps t" and "lawful_pieces L" and "anchor_ok ps k a" and "e \<in> set (assistant_part t)"
  shows "te_event_id e = aa_event_id a \<longleftrightarrow> stream_entry ps k = Some e"
proof
  assume id: "te_event_id e = aa_event_id a"
  obtain k' where k': "stream_entry ps k' = Some e"
    using assms(1,4) unfolding reads_def by blast
  obtain p where p: "p \<in> set ps" "piece_key p = k'" "te_event_id e = shown_id k' (piece_event p)"
    using entry_source [OF k'] by blast
  obtain q where q: "q \<in> set ps" "piece_key q = k" "aa_event_id a = shown_id k (piece_event q)"
    using anchor_id [OF assms(3)] by blast
  have "set ps \<subseteq> L"
    using assms(1) by (simp add: reads_def)
  then have "k' = k"
    using id_stream [OF assms(2), of p q] p q id by auto
  then show "stream_entry ps k = Some e"
    using k' by simp
qed (use anchor_entry [OF assms(3)] in blast)

lemma part_ids:
  assumes "reads L N ps t" and "lawful_pieces L" and "e \<in> set (assistant_part t)"
  shows "te_event_id e \<noteq> []"
proof -
  obtain k where k: "stream_entry ps k = Some e"
    using assms(1,3) unfolding reads_def by blast
  obtain p where p: "p \<in> set ps" "te_event_id e = shown_id k (piece_event p)"
    using entry_source [OF k] by blast
  then have "piece_event p \<noteq> []"
    using lawfulD(2) [OF assms(2)] assms(1) unfolding reads_def by blast
  then show ?thesis
    using p(2) by (cases k; cases "sk_thinking k") (simp_all add: shown_id_def assistant_event_id_def)
qed

lemma anchor_id_assistant: "anchor_ok ps k a \<Longrightarrow> set ps \<subseteq> L \<Longrightarrow> aa_event_id a \<in> assistant_ids L"
  using anchor_id [of ps k a] shown_id_starts [of k] shown_id_plain [of k]
  by (cases "sk_thinking k") (force simp: assistant_ids_def)+

lemma entry_apart_stream:
  assumes "stream_entry ps k = Some e" and "set ps \<subseteq> L"
  shows "entry_apart (assistant_ids L) (piece_sequence ` L) e"
proof -
  obtain p where "p \<in> set ps" "te_sequence e = piece_sequence p" "te_event_id e = shown_id k (piece_event p)" "of_assistant e"
    using entry_source [OF assms(1)] by blast
  then show ?thesis
    using assms(2) shown_id_starts [of k] shown_id_plain [of k]
    by (cases "sk_thinking k") (auto simp: entry_apart_def assistant_ids_def)
qed

text \<open>Dropping the assistant's entries of an id, and inserting one of its entries.\<close>

lemma apart_drop:
  assumes "apart A S N t" and "i \<in> A"
  shows "apart A S N (t\<lparr>tl_entries := drop_entries i (tl_entries t), tl_assistants := as\<rparr>)"
proof -
  have "sorted (map entry_rank (drop_entries i (tl_entries t)))"
    using assms(1) unfolding drop_entries_def apart_def by (simp add: sorted_filter)
  moreover have "ta_event_id a \<in> te_event_id ` set (drop_entries i (tl_entries t))" if "a \<in> set (tl_tools t)" for a
  proof -
    have "ta_event_id a \<noteq> i"
      using assms that unfolding apart_def by blast
    moreover have "ta_event_id a \<in> te_event_id ` set (tl_entries t)"
      using assms(1) that unfolding apart_def by blast
    ultimately show ?thesis
      by (force simp: drop_entries_def)
  qed
  ultimately show ?thesis
    using assms(1) by (simp add: apart_def drop_entries_def)
qed

lemma apart_insert:
  assumes "apart A S N t" and "entry_apart A S e"
  shows "apart A S N (t\<lparr>tl_entries := insert_entry e (tl_entries t), tl_assistants := as\<rparr>)"
  using assms by (simp add: apart_def sorted_insert_entry)

lemma part_drop: "set (filter of_assistant (drop_entries i es)) = {e \<in> set (filter of_assistant es). te_event_id e \<noteq> i}"
  by (auto simp: drop_entries_def)

lemma part_insert: "of_assistant e \<Longrightarrow> set (filter of_assistant (insert_entry e es)) = insert e (set (filter of_assistant es))"
  by auto

lemma distinct_part_drop: "distinct (filter of_assistant es) \<Longrightarrow> distinct (filter of_assistant (drop_entries i es))"
  by (induction es) (auto simp: drop_entries_def)

lemma distinct_part_insert:
  "distinct (filter of_assistant es) \<Longrightarrow> e \<notin> set es \<Longrightarrow> distinct (filter of_assistant (insert_entry e es))"
  by (induction es) auto

lemma anchors_after_remove:
  assumes "distinct (map anchor_key as)" and "i < length as" and "anchor_key (as ! i) = K" and "anchor_key a = K"
  shows "distinct (map anchor_key (remove_nth i as @ [a]))"
    and "set (remove_nth i as @ [a]) = insert a {b \<in> set as. anchor_key b \<noteq> K}"
proof -
  have split: "as = take i as @ as ! i # drop (Suc i) as"
    using assms(2) by (rule id_take_nth_drop)
  have d: "distinct (map anchor_key (take i as @ as ! i # drop (Suc i) as))"
    using assms(1) split by simp
  then show "distinct (map anchor_key (remove_nth i as @ [a]))"
    using assms(3,4) by (auto simp: remove_nth_def)
  have "set as = insert (as ! i) (set (remove_nth i as))"
    by (subst split) (auto simp: remove_nth_def)
  moreover have "anchor_key (as ! i) \<notin> anchor_key ` set (remove_nth i as)"
    using d by (auto simp: remove_nth_def)
  then have "anchor_key b \<noteq> K" if "b \<in> set (remove_nth i as)" for b
    using that assms(3) by (metis imageI)
  ultimately show "set (remove_nth i as @ [a]) = insert a {b \<in> set as. anchor_key b \<noteq> K}"
    using assms(3) by auto
qed

end
