(* ===== verification/TimelineSteps.thy ===== *)
theory TimelineSteps
  imports TimelineReads
begin

text \<open>Fragments and committed messages keep the invariant of the reducer.\<close>

subsection \<open>Entries rewritten\<close>

lemma reads_write:
  assumes r: "reads L N ps t" and law: "lawful_pieces L" and p: "p \<in> L" "piece_key p = k"
    and i: "i \<in> assistant_ids L" "\<And>e. e \<in> set (assistant_part t) \<Longrightarrow> te_event_id e = i \<longleftrightarrow> stream_entry ps k = Some e"
    and new: "stream_entry (ps @ [p]) k = Some e'"
    and anchors: "distinct (map anchor_key as)" "set as = insert a {b \<in> set (tl_assistants t). anchor_key b \<noteq> known_key k}"
      "anchor_ok (ps @ [p]) k a"
  shows "reads L N (ps @ [p]) (t\<lparr>tl_entries := insert_entry e' (drop_entries i (tl_entries t)), tl_assistants := as\<rparr>)"
proof (rule reads_step [OF r p _ _ _ anchors(3) _ _ law])
  have sub: "set (ps @ [p]) \<subseteq> L"
    using r p by (simp add: reads_def)
  have ap: "apart (assistant_ids L) (piece_sequence ` L) N t"
    using r by (simp add: reads_def)
  let ?t = "t\<lparr>tl_entries := drop_entries i (tl_entries t), tl_assistants := as\<rparr>"
  have e': "of_assistant e'"
    using entry_source [OF new] by blast
  show "apart (assistant_ids L) (piece_sequence ` L) N (t\<lparr>tl_entries := insert_entry e' (drop_entries i (tl_entries t)), tl_assistants := as\<rparr>)"
    using apart_insert [OF apart_drop [OF ap i(1)] entry_apart_stream [OF new sub]] by simp
  have "e' \<notin> set (drop_entries i (tl_entries t))"
  proof
    assume "e' \<in> set (drop_entries i (tl_entries t))"
    then have old: "e' \<in> set (assistant_part t)" "te_event_id e' \<noteq> i"
      using e' by (auto simp: drop_entries_def assistant_part_def)
    then obtain k' where k': "stream_entry ps k' = Some e'"
      using r unfolding reads_def by blast
    then have "k' \<noteq> k"
      using i(2) old by auto
    then have "stream_entry (ps @ [p]) k' = Some e'"
      using k' stream_entry_other [of p k' ps] p(2) by simp
    then show False
      using entry_stream [OF law sub _ new] \<open>k' \<noteq> k\<close> by blast
  qed
  moreover have "distinct (filter of_assistant (drop_entries i (tl_entries t)))"
    using r distinct_part_drop by (simp add: reads_def assistant_part_def)
  ultimately show "distinct (assistant_part (t\<lparr>tl_entries := insert_entry e' (drop_entries i (tl_entries t)), tl_assistants := as\<rparr>))"
    using distinct_part_insert by (simp add: assistant_part_def)
  show "e \<in> set (assistant_part (t\<lparr>tl_entries := insert_entry e' (drop_entries i (tl_entries t)), tl_assistants := as\<rparr>))
      \<longleftrightarrow> stream_entry (ps @ [p]) k = Some e \<or> e \<in> set (assistant_part t) \<and> stream_entry ps k \<noteq> Some e" for e
    using part_insert [OF e', of "drop_entries i (tl_entries t)"] part_drop [of i "tl_entries t"] new i(2) [of e]
    by (auto simp: assistant_part_def)
qed (use anchors in simp_all)

lemma reads_erase:
  assumes r: "reads L N ps t" and law: "lawful_pieces L" and p: "p \<in> L" "piece_key p = k"
    and i: "i \<in> assistant_ids L" "\<And>e. e \<in> set (assistant_part t) \<Longrightarrow> te_event_id e = i \<longleftrightarrow> stream_entry ps k = Some e"
    and new: "stream_entry (ps @ [p]) k = None"
    and anchors: "distinct (map anchor_key as)" "set as = insert a {b \<in> set (tl_assistants t). anchor_key b \<noteq> known_key k}"
      "anchor_ok (ps @ [p]) k a"
  shows "reads L N (ps @ [p]) (t\<lparr>tl_entries := drop_entries i (tl_entries t), tl_assistants := as\<rparr>)"
proof (rule reads_step [OF r p _ _ _ anchors(3) _ _ law])
  have ap: "apart (assistant_ids L) (piece_sequence ` L) N t"
    using r by (simp add: reads_def)
  show "apart (assistant_ids L) (piece_sequence ` L) N (t\<lparr>tl_entries := drop_entries i (tl_entries t), tl_assistants := as\<rparr>)"
    using apart_drop [OF ap i(1)] .
  show "distinct (assistant_part (t\<lparr>tl_entries := drop_entries i (tl_entries t), tl_assistants := as\<rparr>))"
    using r distinct_part_drop by (simp add: reads_def assistant_part_def)
  show "e \<in> set (assistant_part (t\<lparr>tl_entries := drop_entries i (tl_entries t), tl_assistants := as\<rparr>))
      \<longleftrightarrow> stream_entry (ps @ [p]) k = Some e \<or> e \<in> set (assistant_part t) \<and> stream_entry ps k \<noteq> Some e" for e
    using part_drop [of i "tl_entries t"] new i(2) [of e] by (auto simp: assistant_part_def)
qed (use anchors in simp_all)

text \<open>The piece changes nothing that is shown.\<close>

lemma reads_same:
  assumes r: "reads L N ps t" and law: "lawful_pieces L" and p: "p \<in> L" "piece_key p = k"
    and same: "stream_entry (ps @ [p]) k = stream_entry ps k"
    and a: "a \<in> set (tl_assistants t)" "anchor_ok (ps @ [p]) k a"
  shows "reads L N (ps @ [p]) t"
proof (rule reads_step [OF r p _ _ _ a(2) _ _ law])
  have key: "anchor_key a = known_key k"
    using a(2) by (simp add: anchor_ok_def)
  have "inj_on anchor_key (set (tl_assistants t))"
    using r by (simp add: reads_def distinct_map)
  then show "set (tl_assistants t) = insert a {b \<in> set (tl_assistants t). anchor_key b \<noteq> known_key k}"
    using a(1) key by (auto simp: inj_on_def)
  show "e \<in> set (assistant_part t) \<longleftrightarrow> stream_entry (ps @ [p]) k = Some e \<or> e \<in> set (assistant_part t) \<and> stream_entry ps k \<noteq> Some e"
    for e
    using r same unfolding reads_def by metis
qed (use r in \<open>simp_all add: reads_def\<close>)

lemma no_empty_ids:
  assumes "reads L N ps t" and "lawful_pieces L"
  shows "drop_entries [] (tl_entries t) = tl_entries t"
proof -
  have "te_event_id e \<noteq> []" if e: "e \<in> set (tl_entries t)" for e
  proof (cases "of_assistant e")
    case True
    then show ?thesis
      using part_ids [OF assms] e by (simp add: assistant_part_def)
  next
    case False
    then show ?thesis
      using assms(1) e unfolding reads_def apart_def entry_apart_def assistant_ids_def by blast
  qed
  then show ?thesis
    by (simp add: drop_entries_def)
qed

lemma empty_id:
  assumes "reads L N ps t" and "lawful_pieces L" and "\<not> touched ps k"
  shows "[] \<in> assistant_ids L" and "e \<in> set (assistant_part t) \<Longrightarrow> te_event_id e = [] \<longleftrightarrow> stream_entry ps k = Some e"
  using part_ids [OF assms(1,2)] assms(3) by (auto simp: assistant_ids_def touched_def stream_entry_def)

lemma anchors_after_update:
  assumes "distinct (map anchor_key as)" and "i < length as" and "anchor_key (as ! i) = K" and "anchor_key a = K"
  shows "distinct (map anchor_key (as[i := a]))" and "set (as[i := a]) = insert a {b \<in> set as. anchor_key b \<noteq> K}"
proof -
  show "distinct (map anchor_key (as[i := a]))"
    using assms by (simp add: map_update_same)
  have "set (as[i := a]) = set (remove_nth i as @ [a])"
    using assms(2) by (auto simp: upd_conv_take_nth_drop remove_nth_def)
  then show "set (as[i := a]) = insert a {b \<in> set as. anchor_key b \<noteq> K}"
    using anchors_after_remove(2) [OF assms] by simp
qed

lemma anchors_after_add:
  assumes "distinct (map anchor_key as)" and "\<forall>b \<in> set as. anchor_key b \<noteq> K" and "anchor_key a = K"
  shows "distinct (map anchor_key (as @ [a]))" and "set (as @ [a]) = insert a {b \<in> set as. anchor_key b \<noteq> K}"
  using assms by auto

lemma anchors_new: "\<not> touched ps k \<Longrightarrow> commits ps k = [] \<and> fragments ps k = []"
  by (simp add: touched_def)

subsection \<open>A fragment\<close>

text \<open>The anchor of an open stream, and the entry it writes.\<close>

definition open_anchor :: "stream_key \<Rightarrow> fragment list \<Rightarrow> assistant_anchor" where
  "open_anchor k fs = \<lparr>aa_run = Some (sk_run k), aa_message = Some (sk_message k), aa_event_id = shown_id k (fg_event (hd fs)),
     aa_sequence = fg_sequence (hd fs), aa_committed = False, aa_thinking = sk_thinking k, aa_fragments = map fragment_pair fs\<rparr>"

definition open_entry :: "stream_key \<Rightarrow> fragment list \<Rightarrow> timeline_entry" where
  "open_entry k fs = shown_entry k (fg_sequence (hd fs)) (fg_event (hd fs)) (fg_time (hd fs)) (concat (map fg_text fs))"

lemma join_stream_eq:
  assumes "k = Stream r m th" and "aa_run a = Some r" and "aa_message a = Some m" and "\<not> aa_committed a" and "aa_thinking a = th"
    and "aa_fragments a = map fragment_pair fs" and "sorted (map fg_sequence fs)" and "fg_sequence f \<notin> set (map fg_sequence fs)"
  shows "join_stream (fg_sequence f) (fg_event f) (fg_time f) (Some r) (Some m) (fg_text f) th a t =
    t\<lparr>tl_entries := insert_entry (open_entry k (insort_key fg_sequence f fs)) (drop_entries (aa_event_id a) (tl_entries t)),
      tl_assistants := tl_assistants t @ [open_anchor k (insort_key fg_sequence f fs)]\<rparr>"
proof -
  obtain g gs where g: "insort_key fg_sequence f fs = g # gs"
    by (cases "insort_key fg_sequence f fs") (metis insort_not_Nil)
  have put: "bt_put (fg_sequence f) (fg_event f, fg_time f, fg_text f) (map fragment_pair fs) = map fragment_pair (g # gs)"
    using put_fragment [OF assms(7,8)] g by simp
  have texts: "map (\<lambda>(_, _, d). d) (bt_values (map fragment_pair hs)) = map fg_text hs" for hs
    by (simp add: bt_values_def fragment_pair_def)
  have "join_stream (fg_sequence f) (fg_event f) (fg_time f) (Some r) (Some m) (fg_text f) th a t =
    t\<lparr>tl_entries := insert_entry (shown_entry k (fg_sequence g) (fg_event g) (fg_time g) (concat (map fg_text (g # gs))))
        (drop_entries (aa_event_id a) (tl_entries t)),
      tl_assistants := tl_assistants t @ [a\<lparr>aa_message := Some m, aa_event_id := shown_id k (fg_event g), aa_sequence := fg_sequence g,
        aa_fragments := map fragment_pair (g # gs)\<rparr>]\<rparr>"
    using assms(1-6) texts [of "g # gs"]
    by (simp add: join_stream_def put Let_def or_else_def shown_entry_def shown_id_def assistant_entry_def fragment_pair_def del: concat.simps)
  then show ?thesis
    using assms(1-5) g by (simp add: open_entry_def open_anchor_def)
qed

lemma open_stream:
  assumes "commits ps k = []" and "fragments ps k \<noteq> []"
  shows "stream_entry ps k = Some (open_entry k (fragments ps k))"
  using assms by (cases "fragments ps k") (simp_all add: stream_entry_def open_entry_def)

lemma open_anchor_ok: "commits ps k = [] \<Longrightarrow> fragments ps k \<noteq> [] \<Longrightarrow> anchor_ok ps k (open_anchor k (fragments ps k))"
  by (cases "fragments ps k"; cases k) (simp_all add: anchor_ok_def open_anchor_def anchor_key_def known_key_def)

lemma fresh_sequence:
  assumes "lawful_pieces L" and "set ps \<subseteq> L" and "Fragment f \<in> L" and "Fragment f \<notin> set ps"
  shows "fg_sequence f \<notin> set (map fg_sequence (fragments ps k))"
proof
  assume "fg_sequence f \<in> set (map fg_sequence (fragments ps k))"
  then obtain g where "Fragment g \<in> set ps" "fg_sequence g = fg_sequence f"
    by (auto simp: set_fragments)
  then show False
    using lawfulD(1) [OF assms(1), of "Fragment f" "Fragment g"] assms(2-4) by (auto simp: same_piece_def)
qed

definition fragment_arrives :: "fragment \<Rightarrow> timeline \<Rightarrow> bool \<times> timeline" where
  "fragment_arrives f t = append_assistant_delta (fg_sequence f) (fg_event f) (fg_time f) (Some (fg_run f)) (Some (fg_message f))
     (fg_text f) (fg_thinking f) t"

lemma reads_fragment_open:
  assumes r: "reads L N ps t" and law: "lawful_pieces L" and f: "Fragment f \<in> L" "Fragment f \<notin> set ps"
    and k: "k = piece_key (Fragment f)" and uncommitted: "commits ps k = []"
  shows "reads L N (ps @ [Fragment f]) (snd (fragment_arrives f t))"
proof -
  let ?ps = "ps @ [Fragment f]"
  have sub: "set ps \<subseteq> L"
    using r by (simp add: reads_def)
  have kk: "k = Stream (fg_run f) (fg_message f) (fg_thinking f)"
    using k by simp
  have fs: "fragments ?ps k = insort_key fg_sequence f (fragments ps k)" "fragments ?ps k \<noteq> []"
    using fragments_snoc [OF law sub f] k by simp_all
  have c: "commits ?ps k = []"
    using uncommitted by simp
  note new = open_stream [OF c fs(2)] and ok = open_anchor_ok [OF c fs(2)]
  note fresh = fresh_sequence [OF law sub f, of k]
  have d: "distinct (map anchor_key (tl_assistants t))"
    using r by (simp add: reads_def)
  have key: "anchor_key (open_anchor k (fragments ?ps k)) = known_key k"
    using ok by (simp add: anchor_ok_def)
  note written = reads_write [OF r law f(1) k [symmetric] _ _ new _ _ ok]
  show ?thesis
  proof (cases rule: anchor_lookup [OF r kk, of "fg_sequence f" False, case_names old new])
    case (old i)
    let ?a = "tl_assistants t ! i"
    have a: "anchor_key ?a = known_key k" "\<not> aa_committed ?a" "aa_fragments ?a = map fragment_pair (fragments ps k)"
      using old(3) uncommitted by (simp_all add: anchor_ok_def)
    have "aa_run ?a = Some (fg_run f)" "aa_message ?a = Some (fg_message f)" "aa_thinking ?a = fg_thinking f"
      using a(1) kk by (simp_all add: anchor_key_def known_key_def)
    then have "snd (fragment_arrives f t) = t\<lparr>tl_entries := insert_entry (open_entry k (fragments ?ps k)) (drop_entries (aa_event_id ?a) (tl_entries t)),
        tl_assistants := remove_nth i (tl_assistants t) @ [open_anchor k (fragments ?ps k)]\<rparr>"
      using old(1) a join_stream_eq [OF kk _ _ a(2) _ a(3) sorted_fragments fresh, of "t\<lparr>tl_assistants := remove_nth i (tl_assistants t)\<rparr>"] fs(1)
      by (simp add: fragment_arrives_def append_assistant_delta_def)
    then show ?thesis
      using written [OF anchor_id_assistant [OF old(3) sub] own_entry [OF r law old(3)] anchors_after_remove [OF d old(2) a(1) key]] by simp
  next
    case fresh_stream: new
    have empty: "fragments ps k = []"
      using anchors_new [OF fresh_stream(2)] by simp
    have "snd (fragment_arrives f t) = t\<lparr>tl_entries := insert_entry (open_entry k (fragments ?ps k)) (drop_entries [] (tl_entries t)),
        tl_assistants := tl_assistants t @ [open_anchor k (fragments ?ps k)]\<rparr>"
      using fresh_stream(1) fs(1) empty join_stream_eq [OF kk, of "new_stream (fg_sequence f) (Some (fg_run f)) (Some (fg_message f)) (fg_thinking f)" "[]" f t]
      by (simp add: fragment_arrives_def append_assistant_delta_def new_stream_def)
    moreover have "\<forall>b \<in> set (tl_assistants t). anchor_key b \<noteq> known_key k"
      using fresh_stream(3) by blast
    ultimately show ?thesis
      using written [OF empty_id [OF r law fresh_stream(2)] anchors_after_add [OF d _ key]] by simp
  qed
qed

text \<open>A fragment of a stream already committed.\<close>

lemma committed_entry:
  assumes "commits ps k = c # cs" and "stream_entry ps k = Some e"
  shows "te_sequence e = (if sk_thinking k then (case fragments ps k of f # _ \<Rightarrow> fg_sequence f | [] \<Rightarrow> cm_sequence c) else cm_sequence c)"
  using assms by (cases k) (auto simp: stream_entry_def shown_entry_def assistant_entry_def split: list.splits if_splits)

lemma remove_only:
  "position P xs = Some i \<Longrightarrow> length (filter P xs) \<le> 1 \<Longrightarrow> remove_nth i xs = filter (\<lambda>x. \<not> P x) xs"
proof (induction xs arbitrary: i)
  case (Cons x xs)
  show ?case
  proof (cases "P x")
    case True
    then have "filter P xs = []"
      using Cons.prems(2) by simp
    then have "filter (\<lambda>x. \<not> P x) xs = xs"
      by (simp add: filter_empty_conv)
    then show ?thesis
      using True Cons.prems(1) by (simp add: remove_nth_def)
  next
    case False
    then obtain j where "position P xs = Some j" "i = Suc j"
      using Cons.prems(1) by auto
    then show ?thesis
      using Cons.IH [of j] Cons.prems(2) False by (simp add: remove_nth_def)
  qed
qed simp

lemma distinct_filter_one:
  assumes "distinct xs" and "\<And>x. x \<in> set xs \<Longrightarrow> P x \<Longrightarrow> x = y"
  shows "length (filter P xs) \<le> 1"
proof -
  have "set (filter P xs) \<subseteq> {y}"
    using assms(2) by auto
  then have "card (set (filter P xs)) \<le> 1"
    using card_mono [of "{y}" "set (filter P xs)"] by simp
  then show ?thesis
    using distinct_card [of "filter P xs"] assms(1) by simp
qed

text \<open>The entry of a stream is the only one of its id, and is found by it.\<close>

lemma stream_position:
  assumes "reads L N ps t" and "lawful_pieces L" and "anchor_ok ps k a" and "stream_entry ps k = Some e"
  obtains ix where "position (\<lambda>x. te_event_id x = aa_event_id a) (tl_entries t) = Some ix" "tl_entries t ! ix = e"
    "remove_nth ix (tl_entries t) = drop_entries (aa_event_id a) (tl_entries t)"
proof -
  let ?P = "\<lambda>x. te_event_id x = aa_event_id a"
  have e: "e \<in> set (assistant_part t)" "?P e"
    using assms(1,4) anchor_entry [OF assms(3,4)] unfolding reads_def by blast+
  have "aa_event_id a \<in> assistant_ids L"
    using anchor_id_assistant [OF assms(3)] assms(1) by (simp add: reads_def)
  then have of_a: "of_assistant x" if "x \<in> set (tl_entries t)" "?P x" for x
    using assms(1) that unfolding reads_def apart_def entry_apart_def by metis
  have only: "x = e" if "x \<in> set (tl_entries t)" "?P x" for x
    using own_entry [OF assms(1-3), of x] of_a that assms(4) by (simp add: assistant_part_def)
  obtain ix where ix: "position ?P (tl_entries t) = Some ix"
    using e position_None [of ?P "tl_entries t"] by (cases "position ?P (tl_entries t)") (auto simp: assistant_part_def)
  have "filter ?P (tl_entries t) = filter ?P (assistant_part t)"
    unfolding assistant_part_def filter_filter using of_a by (intro filter_cong) auto
  moreover have "length (filter ?P (assistant_part t)) \<le> 1"
    using assms(1) only by (intro distinct_filter_one) (auto simp: reads_def assistant_part_def)
  ultimately have "remove_nth ix (tl_entries t) = drop_entries (aa_event_id a) (tl_entries t)"
    using remove_only [OF ix] by (simp add: drop_entries_def)
  moreover have "tl_entries t ! ix = e"
    using position_Some [OF ix] only by simp
  ultimately show ?thesis
    using that ix by blast
qed

lemma reads_fragment_closed:
  assumes r: "reads L N ps t" and law: "lawful_pieces L" and f: "Fragment f \<in> L" "Fragment f \<notin> set ps"
    and k: "k = piece_key (Fragment f)" and c: "commits ps k = c # cs"
  shows "reads L N (ps @ [Fragment f]) (snd (fragment_arrives f t))"
proof -
  let ?ps = "ps @ [Fragment f]" and ?fs = "fragments ps k"
  have sub: "set ps \<subseteq> L"
    using r by (simp add: reads_def)
  have kk: "k = Stream (fg_run f) (fg_message f) (fg_thinking f)"
    using k by simp
  have fs: "fragments ?ps k = insort_key fg_sequence f ?fs"
    using fragments_snoc [OF law sub f] k by simp
  have c': "commits ?ps k = c # cs"
    using c by simp
  have "Committed (sk_thinking k) c \<in> L" "cm_run c = fg_run f" "cm_message c = fg_message f"
    using set_commits [of c ps k] c sub kk by auto
  then have before: "fg_sequence f < cm_sequence c"
    using lawfulD(3) [OF law f(1)] by simp
  obtain i where i: "assistant_anchor_index (Some (fg_run f)) (Some (fg_message f)) (fg_thinking f) (fg_sequence f) False (tl_assistants t) = Some i"
    "i < length (tl_assistants t)" "anchor_ok ps k (tl_assistants t ! i)"
  proof (cases rule: anchor_lookup [OF r kk, of "fg_sequence f" False, case_names old new])
    case new
    then show ?thesis using c by (simp add: touched_def)
  qed (use that in blast)
  let ?a = "tl_assistants t ! i"
  have a: "anchor_key ?a = known_key k" "aa_committed ?a" "aa_event_id ?a = shown_id k (cm_event c)"
    using i(3) c by (simp_all add: anchor_ok_def)
  have late: "snd (fragment_arrives f t) = snd (late_fragment (fg_sequence f) (fg_time f) (fg_thinking f) i t)"
    using i(1) a(2) by (simp add: fragment_arrives_def append_assistant_delta_def)
  show ?thesis
  proof (cases "fg_thinking f \<and> fg_sequence f < aa_sequence ?a \<and> stream_entry ps k \<noteq> None")
    case True
    then obtain e where e: "stream_entry ps k = Some e"
      by blast
    have first: "fg_sequence f < te_sequence e"
      using True anchor_entry [OF i(3) e] by simp
    obtain ix where ix: "position (\<lambda>x. te_event_id x = aa_event_id ?a) (tl_entries t) = Some ix" "tl_entries t ! ix = e"
      "remove_nth ix (tl_entries t) = drop_entries (aa_event_id ?a) (tl_entries t)"
      using stream_position [OF r law i(3) e] .
    let ?e = "e\<lparr>te_sequence := fg_sequence f, te_timestamp := fg_time f\<rparr>"
    have hd: "fragments ?ps k = f # ?fs"
      using committed_entry [OF c e] first True kk fs by (cases ?fs) (auto dest: less_imp_le)
    have new: "stream_entry ?ps k = Some ?e"
      using e c c' hd True kk by (auto simp: stream_entry_def shown_entry_def assistant_entry_def split: list.splits if_splits)
    have ok: "anchor_ok ?ps k (?a\<lparr>aa_sequence := fg_sequence f\<rparr>)"
      using a c' new by (simp add: anchor_ok_def anchor_key_def)
    have d: "distinct (map anchor_key (tl_assistants t))"
      using r by (simp add: reads_def)
    have key: "anchor_key (?a\<lparr>aa_sequence := fg_sequence f\<rparr>) = known_key k"
      using a(1) by (simp add: anchor_key_def)
    have "snd (fragment_arrives f t) = t\<lparr>tl_entries := insert_entry ?e (drop_entries (aa_event_id ?a) (tl_entries t)),
        tl_assistants := (tl_assistants t)[i := ?a\<lparr>aa_sequence := fg_sequence f\<rparr>]\<rparr>"
      using late ix True by (simp add: late_fragment_def Let_def)
    then show ?thesis
      using reads_write [OF r law f(1) k [symmetric] anchor_id_assistant [OF i(3) sub] own_entry [OF r law i(3)] new
          anchors_after_update [OF d i(2) a(1) key] ok] by simp
  next
    case False
    have hd: "hd (fragments ?ps k) = hd ?fs \<and> ?fs \<noteq> []" if "fg_thinking f" "stream_entry ps k = Some e" for e
    proof -
      have "\<not> fg_sequence f < te_sequence e"
        using False that anchor_entry [OF i(3) that(2)] by simp
      then show ?thesis
        using committed_entry [OF c that(2)] that(1) kk fs before fresh_sequence [OF law sub f, of k]
        by (cases ?fs) (auto split: if_splits)
    qed
    have same: "stream_entry ?ps k = stream_entry ps k"
    proof (cases "fg_thinking f \<and> cm_thought c \<noteq> []")
      case True
      then obtain e where "stream_entry ps k = Some e"
        using c kk by (cases ?fs) (simp_all add: stream_entry_def)
      then have "hd (fragments ?ps k) = hd ?fs" "?fs \<noteq> []" "fragments ?ps k \<noteq> []"
        using hd True fs by simp_all
      then show ?thesis
        using c c' by (cases ?fs; cases "fragments ?ps k") (simp_all add: stream_entry_def)
    qed (use c c' kk in \<open>auto simp: stream_entry_def\<close>)
    then have "anchor_ok ?ps k ?a"
      using i(3) c c' by (simp add: anchor_ok_def)
    moreover have "snd (fragment_arrives f t) = t"
    proof -
      have "position (\<lambda>x. te_event_id x = aa_event_id ?a) (tl_entries t) = None" if "stream_entry ps k = None"
        unfolding position_None
      proof
        fix x
        assume x: "x \<in> set (tl_entries t)"
        show "te_event_id x \<noteq> aa_event_id ?a"
        proof
          assume id: "te_event_id x = aa_event_id ?a"
          then have "of_assistant x"
            using r x anchor_id_assistant [OF i(3) sub] unfolding reads_def apart_def entry_apart_def by metis
          then show False
            using own_entry [OF r law i(3), of x] x id that by (simp add: assistant_part_def)
        qed
      qed
      then show ?thesis
        using late False by (auto simp: late_fragment_def Let_def)
    qed
    ultimately show ?thesis
      using reads_same [OF r law f(1) k [symmetric] same, of ?a] i(2) by simp
  qed
qed

lemma reads_fragment:
  assumes "reads L N ps t" and "lawful_pieces L" and "Fragment f \<in> L" and "Fragment f \<notin> set ps"
  shows "reads L N (ps @ [Fragment f]) (snd (fragment_arrives f t))"
  using reads_fragment_open [OF assms refl] reads_fragment_closed [OF assms refl]
  by (cases "commits ps (piece_key (Fragment f))") blast+

subsection \<open>A committed message\<close>

definition item_of :: "committed \<Rightarrow> timeline_item \<Rightarrow> bool" where
  "item_of c item \<longleftrightarrow> ti_sequence item = cm_sequence c \<and> ti_event_id item = cm_event c \<and> ti_timestamp item = cm_time c
     \<and> ti_run item = Some (cm_run c) \<and> ti_message item = Some (cm_message c)"

definition half :: "bool \<Rightarrow> committed \<Rightarrow> string" where
  "half th c = (if th then cm_thought c else cm_text c)"

text \<open>The anchor a commit leaves, at the place \<open>s\<close>.\<close>

definition closed_anchor :: "stream_key \<Rightarrow> u64 \<Rightarrow> string \<Rightarrow> assistant_anchor" where
  "closed_anchor k s ev = \<lparr>aa_run = Some (sk_run k), aa_message = Some (sk_message k), aa_event_id = shown_id k ev, aa_sequence = s,
     aa_committed = True, aa_thinking = sk_thinking k, aa_fragments = []\<rparr>"

lemma commit_eq:
  assumes "item_of c item" and "k = Stream (cm_run c) (cm_message c) th"
    and "assistant_anchor_index (Some (cm_run c)) (Some (cm_message c)) th (cm_sequence c) True (tl_assistants t) = index"
    and "commit_place th (map_option (\<lambda>i. tl_assistants t ! i) index) item (tl_entries t) = (s, ts)"
    and "es = (case index of Some i \<Rightarrow> drop_entries (aa_event_id (tl_assistants t ! i)) (tl_entries t) | None \<Rightarrow> tl_entries t)"
    and "as = (case index of Some i \<Rightarrow> remove_nth i (tl_assistants t) | None \<Rightarrow> tl_assistants t)"
  shows "commit_assistant_text item th text t =
    t\<lparr>tl_entries := (if \<not> th \<or> text \<noteq> [] then insert_entry (shown_entry k s (cm_event c) ts text) es else es),
      tl_assistants := as @ [closed_anchor k s (cm_event c)]\<rparr>"
  using assms by (cases index) (simp_all add: commit_assistant_text_def item_of_def or_else_def shown_entry_def shown_id_def closed_anchor_def Let_def)

lemma closed_anchor_ok:
  assumes "commits ps k = c # cs" and "\<And>e. stream_entry ps k = Some e \<Longrightarrow> te_sequence e = s"
  shows "anchor_ok ps k (closed_anchor k s (cm_event c))"
  using assms by (cases k) (auto simp: anchor_ok_def closed_anchor_def anchor_key_def known_key_def)

lemma commits_snoc:
  assumes "lawful_pieces L" and "set ps \<subseteq> L" and "Committed th c \<in> L" and "Committed th c \<notin> set ps" and "k = piece_key (Committed th c)"
  shows "commits ps k = []" and "commits (ps @ [Committed th c]) k = [c]"
proof -
  have "d \<notin> set (commits ps k)" for d
  proof
    assume "d \<in> set (commits ps k)"
    then have d: "Committed th d \<in> set ps" "cm_run d = cm_run c" "cm_message d = cm_message c"
      using assms(5) by (auto simp: set_commits)
    then have "d = c"
      using lawfulD(4) [OF assms(1), of th d th c] assms(2,3) by auto
    then show False
      using d(1) assms(4) by simp
  qed
  then show "commits ps k = []"
    by (metis list.set_intros(1) neq_Nil_conv)
  then show "commits (ps @ [Committed th c]) k = [c]"
    using assms(5) by (simp add: commits_def List.map_filter_def)
qed

lemma reads_commit:
  assumes r: "reads L N ps t" and law: "lawful_pieces L" and c: "Committed th c \<in> L" "Committed th c \<notin> set ps"
    and item: "item_of c item"
  shows "reads L N (ps @ [Committed th c]) (commit_assistant_text item th (half th c) t)"
proof -
  define k where "k = piece_key (Committed th c)"
  let ?ps = "ps @ [Committed th c]" and ?fs = "fragments ps k"
  have sub: "set ps \<subseteq> L"
    using r by (simp add: reads_def)
  have kk: "k = Stream (cm_run c) (cm_message c) th"
    by (simp add: k_def)
  note cs = commits_snoc [OF law sub c k_def]
  define s where "s = (if th \<and> ?fs \<noteq> [] then fg_sequence (hd ?fs) else cm_sequence c)"
  define ts where "ts = (if th \<and> ?fs \<noteq> [] then fg_time (hd ?fs) else cm_time c)"
  have new: "stream_entry ?ps k = (if \<not> th \<or> half th c \<noteq> [] then Some (shown_entry k s (cm_event c) ts (half th c)) else None)"
    using cs(2) kk by (cases ?fs) (auto simp: stream_entry_def half_def s_def ts_def)
  have ok: "anchor_ok ?ps k (closed_anchor k s (cm_event c))"
    using new kk by (intro closed_anchor_ok [OF cs(2)]) (auto simp: shown_entry_def assistant_entry_def split: if_splits)
  have d: "distinct (map anchor_key (tl_assistants t))"
    using r by (simp add: reads_def)
  have key: "anchor_key (closed_anchor k s (cm_event c)) = known_key k"
    using ok by (simp add: anchor_ok_def)
  have result: "reads L N ?ps (t\<lparr>tl_entries := (if \<not> th \<or> half th c \<noteq> []
        then insert_entry (shown_entry k s (cm_event c) ts (half th c)) (drop_entries i (tl_entries t)) else drop_entries i (tl_entries t)),
      tl_assistants := as\<rparr>)"
    if "i \<in> assistant_ids L" "\<And>e. e \<in> set (assistant_part t) \<Longrightarrow> te_event_id e = i \<longleftrightarrow> stream_entry ps k = Some e"
      "distinct (map anchor_key as)" "set as = insert (closed_anchor k s (cm_event c)) {b \<in> set (tl_assistants t). anchor_key b \<noteq> known_key k}"
    for i as
    using reads_write [OF r law c(1) k_def [symmetric] that(1,2) _ that(3,4) ok]
      reads_erase [OF r law c(1) k_def [symmetric] that(1,2) _ that(3,4) ok] new
    by (cases "\<not> th \<or> half th c \<noteq> []") simp_all
  show ?thesis
  proof (cases rule: anchor_lookup [OF r kk, of "cm_sequence c" True, case_names old new])
    case (old i)
    let ?a = "tl_assistants t ! i"
    have a: "anchor_key ?a = known_key k"
      using old(3) by (simp add: anchor_ok_def)
    have fs: "?fs \<noteq> []"
      using anchor_ok_touched [OF old(3)] cs(1) by (simp add: touched_def)
    note e = open_stream [OF cs(1) fs]
    obtain ix where ix: "position (\<lambda>x. te_event_id x = aa_event_id ?a) (tl_entries t) = Some ix" "tl_entries t ! ix = open_entry k ?fs"
      using stream_position [OF r law old(3) e] by metis
    have "find P xs = map_option (\<lambda>i. xs ! i) (position P xs)" for P and xs :: "timeline_entry list"
      by (induction xs) (auto simp: option.map_comp comp_def split: option.split)
    then have "find (\<lambda>x. te_event_id x = aa_event_id ?a) (tl_entries t) = Some (open_entry k ?fs)"
      using ix by simp
    then have place: "commit_place th (map_option (\<lambda>i. tl_assistants t ! i) (Some i)) item (tl_entries t) = (s, ts)"
      using item fs kk by (simp add: commit_place_def s_def ts_def item_of_def open_entry_def shown_entry_def assistant_entry_def)
    show ?thesis
      unfolding commit_eq [OF item kk old(1) place refl refl]
      using result [OF anchor_id_assistant [OF old(3) sub] own_entry [OF r law old(3)] anchors_after_remove [OF d old(2) a key]]
      by (simp only: option.case)
  next
    case fresh_stream: new
    have place: "commit_place th (map_option (\<lambda>i. tl_assistants t ! i) None) item (tl_entries t) = (s, ts)"
      using anchors_new [OF fresh_stream(2)] item by (simp add: commit_place_def s_def ts_def item_of_def)
    have "\<forall>b \<in> set (tl_assistants t). anchor_key b \<noteq> known_key k"
      using fresh_stream(3) by blast
    then show ?thesis
      unfolding commit_eq [OF item kk fresh_stream(1) place refl refl]
      using result [OF empty_id [OF r law fresh_stream(2)] anchors_after_add [OF d _ key]]
      by (simp only: option.case no_empty_ids [OF r law])
  qed
qed

end
