(* ===== verification/TimelineProps.thy ===== *)
theory TimelineProps
  imports TimelineSteps
begin

text \<open>
  What a timeline shows after any deliveries of a session log: pages in any order, live events between them,
  repetitions included.
\<close>

subsection \<open>Sound deliveries\<close>

text \<open>Live events the timeline does not read.\<close>

definition silent :: "delivery \<Rightarrow> bool" where
  "silent d = (case d of FromLive ev \<Rightarrow> ev_payload ev = EvOther | FromPage _ \<Rightarrow> False)"

definition pieces :: "delivery list \<Rightarrow> piece list" where
  "pieces ds = concat (map pieces_of ds)"

text \<open>
  Deliveries of one session log of the current API: assistant items name their run and message, the pieces are
  lawful, an event id has one sequence, and what is not the assistant's has other ids and sequences.
\<close>

definition sound_log :: "delivery list \<Rightarrow> bool" where
  "sound_log ds \<longleftrightarrow> lawful_pieces (set (pieces ds))
     \<and> (\<forall>d \<in> set ds. \<not> of_others d \<longrightarrow> pieces_of d \<noteq> [])
     \<and> (\<forall>d \<in> set ds. of_others d \<and> \<not> silent d \<longrightarrow>
          delivery_event_id d \<notin> assistant_ids (set (pieces ds)) \<and> delivery_sequence d \<notin> piece_sequence ` set (pieces ds)
          \<and> (\<forall>d' \<in> set ds. of_others d' \<and> \<not> silent d' \<and> delivery_event_id d' = delivery_event_id d
               \<longrightarrow> delivery_sequence d' = delivery_sequence d))"

text \<open>The sequence of an event id.\<close>

definition id_sequence :: "delivery list \<Rightarrow> string \<Rightarrow> u64" where
  "id_sequence ds i =
     (case find (\<lambda>d. of_others d \<and> \<not> silent d \<and> delivery_event_id d = i) ds of Some d \<Rightarrow> delivery_sequence d | None \<Rightarrow> 0)"

lemma id_sequence_of:
  assumes "sound_log ds" and "d \<in> set ds" and "of_others d" and "\<not> silent d"
  shows "id_sequence ds (delivery_event_id d) = delivery_sequence d"
proof -
  let ?P = "\<lambda>x. of_others x \<and> \<not> silent x \<and> delivery_event_id x = delivery_event_id d"
  obtain x where x: "find ?P ds = Some x"
    using assms(2-4) find_None_iff [of ?P ds] by (cases "find ?P ds") auto
  then have "x \<in> set ds" "?P x"
    by (auto simp: find_Some_iff)
  then have "delivery_sequence x = delivery_sequence d"
    using assms unfolding sound_log_def by blast
  then show ?thesis
    using x by (simp add: id_sequence_def)
qed

subsection \<open>Each delivery\<close>

definition renders :: "delivery list \<Rightarrow> piece list \<Rightarrow> timeline \<Rightarrow> bool" where
  "renders ds ps t \<longleftrightarrow> reads (set (pieces ds)) (id_sequence ds) ps t
     \<and> tl_seen t \<inter> piece_sequence ` set (pieces ds) = piece_sequence ` set ps
     \<and> (\<forall>c. Committed False c \<in> set ps \<longleftrightarrow> Committed True c \<in> set ps)"

lemma reads_calm:
  assumes "reads L N ps t" and "calm (assistant_ids L) (piece_sequence ` L) N s t t'"
  shows "reads L N ps t'"
  using assms by (simp add: reads_def calm_def)

lemma reads_see: "reads L N ps t \<Longrightarrow> reads L N ps (see s t)"
  using reads_calm calm_see by (metis reads_def)

lemma seen_append [simp]: "tl_seen (snd (append_assistant_delta s ev ts run m d th t)) = tl_seen t"
  by (simp add: append_assistant_delta_def join_stream_def late_fragment_def Let_def split: option.split prod.split)

lemma seen_commit [simp]: "tl_seen (commit_assistant_text item th x t) = tl_seen t"
  by (simp add: commit_assistant_text_def Let_def split: prod.split)

lemma seen_see [simp]: "tl_seen (see s t) = insert s (tl_seen t)"
  by (simp add: see_def)

lemma meet_same: "B \<subseteq> A \<Longrightarrow> A \<subseteq> insert x B \<Longrightarrow> x \<notin> S \<Longrightarrow> A \<inter> S = B \<inter> S"
  by auto

lemma deliver_others:
  assumes "renders ds ps t" and "sound_log ds" and "d \<in> set ds" and "of_others d"
  shows "renders ds ps (deliver rd ru d t) \<and> pieces_of d = []"
proof -
  have none: "pieces_of d = []"
    using assms(4) by (cases d) (auto simp: pieces_of_def of_others_def assistant_item_def Let_def split: option.split app_event.split)
  show ?thesis
  proof (cases "silent d")
    case True
    then have "deliver rd ru d t = t"
      by (cases d) (simp_all add: silent_def deliver_def apply_event_def)
    then show ?thesis using assms(1) none by simp
  next
    case False
    let ?L = "set (pieces ds)"
    have "delivery_event_id d \<notin> assistant_ids ?L" "delivery_sequence d \<notin> piece_sequence ` ?L"
      using assms(2-4) False unfolding sound_log_def by blast+
    moreover have "apart (assistant_ids ?L) (piece_sequence ` ?L) (id_sequence ds) t"
      using assms(1) by (simp add: renders_def reads_def)
    ultimately have c: "calm (assistant_ids ?L) (piece_sequence ` ?L) (id_sequence ds) (delivery_sequence d) t (deliver rd ru d t)"
      and out: "delivery_sequence d \<notin> piece_sequence ` ?L"
      using id_sequence_of [OF assms(2-4) False] assms(4) by (auto intro: calm_delivery)
    have "tl_seen t \<subseteq> tl_seen (deliver rd ru d t)" "tl_seen (deliver rd ru d t) \<subseteq> insert (delivery_sequence d) (tl_seen t)"
      using c by (simp_all add: calm_def)
    then have "tl_seen (deliver rd ru d t) \<inter> piece_sequence ` ?L = tl_seen t \<inter> piece_sequence ` ?L"
      by (rule meet_same [OF _ _ out])
    moreover have "reads ?L (id_sequence ds) ps (deliver rd ru d t)"
      using assms(1) by (intro reads_calm [OF _ c]) (simp add: renders_def)
    ultimately show ?thesis
      using assms(1) none by (simp add: renders_def)
  qed
qed

text \<open>A sequence is seen exactly when its piece has arrived.\<close>

lemma seen_piece:
  assumes "renders ds ps t" and "lawful_pieces (set (pieces ds))" and "p \<in> set (pieces ds)"
  shows "piece_sequence p \<in> tl_seen t \<longleftrightarrow> p \<in> set ps"
proof
  assume "piece_sequence p \<in> tl_seen t"
  then have "piece_sequence p \<in> piece_sequence ` set ps"
    using assms(1,3) by (auto simp: renders_def)
  then obtain q where q: "q \<in> set ps" "piece_sequence p = piece_sequence q"
    by blast
  moreover have "q \<in> set (pieces ds)"
    using q(1) assms(1) by (auto simp: renders_def reads_def)
  ultimately have "same_piece p q"
    using lawfulD(1) [OF assms(2,3)] by blast
  then show "p \<in> set ps"
    using q(1) assms(1) unfolding same_piece_def renders_def by (metis (full_types))
next
  assume "p \<in> set ps"
  then show "piece_sequence p \<in> tl_seen t"
    using assms(1) by (auto simp: renders_def)
qed

lemma seen_grows:
  assumes "renders ds ps t" and "p \<in> set (pieces ds)" and "piece_sequence p = s"
  shows "insert s (tl_seen t) \<inter> piece_sequence ` set (pieces ds) = insert s (piece_sequence ` set ps)"
  using assms by (auto simp: renders_def)

lemma deliver_live_fragment:
  assumes "pieces_of (FromLive ev) = [Fragment f]"
  shows "deliver rd ru (FromLive ev) t
    = (if fg_sequence f \<in> tl_seen t then t else snd (fragment_arrives f (see (fg_sequence f) t)))"
  using assms by (cases "ev_payload ev") (auto simp: pieces_of_def deliver_def apply_event_def fragment_arrives_def Let_def)

lemma item_usage_assistant [simp]: "assistant_item (ti_kind item) \<Longrightarrow> item_usage ru item t = t"
  by (auto simp: item_usage_def assistant_item_def)

lemma deliver_page_fragment:
  assumes "pieces_of (FromPage item) = [Fragment f]"
  shows "deliver rd ru (FromPage item) t
    = (if fg_sequence f \<in> tl_seen t then t else snd (fragment_arrives f (see (fg_sequence f) t)))"
proof -
  obtain r m where rm: "ti_run item = Some r" "ti_message item = Some m"
    using assms by (cases "ti_run item"; cases "ti_message item") (simp_all add: pieces_of_def)
  have k: "ti_kind item = TkAssistantDelta \<or> ti_kind item = TkThinkingDelta"
    using assms rm by (simp add: pieces_of_def Let_def split: if_splits)
  have f: "f = \<lparr>fg_sequence = ti_sequence item, fg_event = ti_event_id item, fg_time = ti_timestamp item, fg_run = r,
      fg_message = m, fg_thinking = (ti_kind item = TkThinkingDelta), fg_text = or_empty (ti_text item)\<rparr>"
    using assms rm k by (simp add: pieces_of_def)
  show ?thesis
    using k rm by (elim disjE) (simp_all add: f deliver_def apply_item_def item_usage_def item_delta_def fragment_arrives_def)
qed

lemma deliver_fragment:
  assumes "renders ds ps t" and "sound_log ds" and "d \<in> set ds" and "pieces_of d = [Fragment f]"
  shows "\<exists>qs. renders ds qs (deliver rd ru d t) \<and> set qs = insert (Fragment f) (set ps)"
proof -
  let ?L = "set (pieces ds)"
  have law: "lawful_pieces ?L"
    using assms(2) by (simp add: sound_log_def)
  have f: "Fragment f \<in> ?L"
    using assms(3,4) by (force simp: pieces_def)
  have eq: "deliver rd ru d t = (if fg_sequence f \<in> tl_seen t then t else snd (fragment_arrives f (see (fg_sequence f) t)))"
    using assms(4) deliver_page_fragment deliver_live_fragment by (cases d) blast+
  have r: "reads ?L (id_sequence ds) ps t"
    using assms(1) by (simp add: renders_def)
  have known: "fg_sequence f \<in> tl_seen t \<longleftrightarrow> Fragment f \<in> set ps"
    using seen_piece [OF assms(1) law f] by simp
  show ?thesis
  proof (cases "Fragment f \<in> set ps")
    case True
    then show ?thesis
      using assms(1) eq known by (intro exI [where x = ps]) auto
  next
    case False
    have "reads ?L (id_sequence ds) (ps @ [Fragment f]) (snd (fragment_arrives f (see (fg_sequence f) t)))"
      using reads_fragment [OF reads_see [OF r] law f False] .
    moreover have "tl_seen (snd (fragment_arrives f (see (fg_sequence f) t))) = insert (fg_sequence f) (tl_seen t)"
      by (simp add: fragment_arrives_def)
    ultimately have "renders ds (ps @ [Fragment f]) (deliver rd ru d t)"
      using eq known False seen_grows [OF assms(1) f, of "fg_sequence f"] assms(1) by (simp add: renders_def)
    then show ?thesis
      by (intro exI [where x = "ps @ [Fragment f]"]) simp
  qed
qed

lemma deliver_message:
  assumes "pieces_of d = [Committed False c, Committed True c]"
  obtains item where "item_of c item" "\<And>rd ru t. deliver rd ru d t = (if cm_sequence c \<in> tl_seen t then t
    else commit_assistant_text item True (half True c) (commit_assistant_text item False (half False c) (see (cm_sequence c) t)))"
proof (cases d)
  case (FromPage item)
  obtain r m where rm: "ti_run item = Some r" "ti_message item = Some m"
    using assms FromPage by (cases "ti_run item"; cases "ti_message item") (simp_all add: pieces_of_def)
  have k: "ti_kind item = TkAssistantMessage"
    using assms FromPage rm by (simp add: pieces_of_def Let_def split: if_splits)
  have c: "c = \<lparr>cm_sequence = ti_sequence item, cm_event = ti_event_id item, cm_time = ti_timestamp item, cm_run = r,
      cm_message = m, cm_text = or_empty (ti_text item), cm_thought = or_empty (ti_thinking item)\<rparr>"
    using assms FromPage rm k by (simp add: pieces_of_def Let_def)
  show ?thesis
    by (rule that [of item]) (use k rm FromPage in \<open>simp_all add: c item_of_def half_def deliver_def apply_item_def item_usage_def item_message_def\<close>)
next
  case (FromLive ev)
  then show ?thesis
    using assms by (cases "ev_payload ev") (simp_all add: pieces_of_def Let_def)
qed

lemma deliver_commit:
  assumes "renders ds ps t" and "sound_log ds" and "d \<in> set ds" and "pieces_of d = [Committed False c, Committed True c]"
  shows "\<exists>qs. renders ds qs (deliver rd ru d t) \<and> set qs = {Committed False c, Committed True c} \<union> set ps"
proof -
  let ?L = "set (pieces ds)"
  have law: "lawful_pieces ?L"
    using assms(2) by (simp add: sound_log_def)
  have c: "Committed False c \<in> ?L" "Committed True c \<in> ?L"
    using assms(3,4) by (force simp: pieces_def)+
  obtain item where item: "item_of c item" and eq: "deliver rd ru d t = (if cm_sequence c \<in> tl_seen t then t
    else commit_assistant_text item True (half True c) (commit_assistant_text item False (half False c) (see (cm_sequence c) t)))"
    using deliver_message [OF assms(4)] by metis
  have r: "reads ?L (id_sequence ds) ps t"
    using assms(1) by (simp add: renders_def)
  have known: "cm_sequence c \<in> tl_seen t \<longleftrightarrow> Committed False c \<in> set ps" "cm_sequence c \<in> tl_seen t \<longleftrightarrow> Committed True c \<in> set ps"
    using seen_piece [OF assms(1) law c(1)] seen_piece [OF assms(1) law c(2)] by simp_all
  show ?thesis
  proof (cases "cm_sequence c \<in> tl_seen t")
    case True
    then show ?thesis
      using assms(1) eq known by (intro exI [where x = ps]) auto
  next
    case False
    let ?t = "commit_assistant_text item False (half False c) (see (cm_sequence c) t)"
    let ?qs = "(ps @ [Committed False c]) @ [Committed True c]"
    have "reads ?L (id_sequence ds) (ps @ [Committed False c]) ?t"
      using reads_commit [OF reads_see [OF r] law c(1) _ item] False known by blast
    moreover have "Committed True c \<notin> set (ps @ [Committed False c])"
      using False known by simp
    ultimately have "reads ?L (id_sequence ds) ?qs (commit_assistant_text item True (half True c) ?t)"
      using reads_commit [OF _ law c(2) _ item] by blast
    then have "renders ds ?qs (deliver rd ru d t)"
      using eq False seen_grows [OF assms(1) c(1), of "cm_sequence c"] assms(1) by (auto simp: renders_def)
    then show ?thesis
      by (intro exI [where x = ?qs]) auto
  qed
qed

lemma shapes:
  assumes "\<not> of_others d" and "pieces_of d \<noteq> []"
  obtains (fragment) f where "pieces_of d = [Fragment f]" | (committed) c where "pieces_of d = [Committed False c, Committed True c]"
proof (cases d)
  case (FromPage item)
  then obtain r m where "ti_run item = Some r" "ti_message item = Some m"
    using assms(2) by (cases "ti_run item"; cases "ti_message item") (simp_all add: pieces_of_def)
  then show ?thesis
    using assms FromPage that by (simp add: pieces_of_def Let_def split: if_splits)
next
  case (FromLive ev)
  then show ?thesis
    using assms that by (cases "ev_payload ev") (simp_all add: pieces_of_def Let_def)
qed

lemma deliver_one:
  assumes "renders ds ps t" and "sound_log ds" and "d \<in> set ds"
  shows "\<exists>qs. renders ds qs (deliver rd ru d t) \<and> set qs = set (pieces_of d) \<union> set ps"
proof (cases "of_others d")
  case True
  then show ?thesis
    using deliver_others [OF assms True] by (intro exI [where x = ps]) simp
next
  case False
  moreover have "pieces_of d \<noteq> []"
    using False assms unfolding sound_log_def by blast
  ultimately show ?thesis
  proof (cases rule: shapes)
    case (fragment f)
    then show ?thesis using deliver_fragment [OF assms fragment] by simp
  next
    case (committed c)
    then show ?thesis using deliver_commit [OF assms committed] by simp
  qed
qed

lemma deliver_list:
  assumes "sound_log ds" and "set es \<subseteq> set ds" and "renders ds ps t"
  shows "\<exists>qs. renders ds qs (deliver_all rd ru es t) \<and> set qs = set (pieces es) \<union> set ps"
  using assms(2,3)
proof (induction es arbitrary: ps t)
  case Nil
  then show ?case by (auto simp: deliver_all_def pieces_def)
next
  case (Cons d es)
  obtain qs where qs: "renders ds qs (deliver rd ru d t)" "set qs = set (pieces_of d) \<union> set ps"
    using deliver_one [OF Cons.prems(2) assms(1), of d rd ru] Cons.prems(1) by auto
  obtain us where "renders ds us (deliver_all rd ru es (deliver rd ru d t))" "set us = set (pieces es) \<union> set qs"
    using Cons.IH [OF _ qs(1)] Cons.prems(1) by auto
  then show ?case
    using qs(2) by (intro exI [where x = us]) (auto simp: deliver_all_def pieces_def)
qed

lemma renders_empty: "renders ds [] timeline_empty"
  by (simp add: renders_def reads_def apart_def timeline_empty_def assistant_part_def touched_def stream_entry_def fragments_def
      commits_def List.map_filter_def)

lemma renders_log:
  assumes "sound_log ds"
  shows "\<exists>qs. renders ds qs (deliver_all rd ru ds timeline_empty) \<and> set qs = set (pieces ds)"
  using deliver_list [OF assms order_refl renders_empty] by simp

subsection \<open>The set of pieces decides\<close>

lemma commits_by_set:
  assumes "lawful_pieces L" and "set ps \<subseteq> L" and "set ps = set qs" and "commits ps k = c # cs"
  obtains ds where "commits qs k = c # ds"
proof -
  have c: "c \<in> set (commits qs k)" and c_ps: "c \<in> set (commits ps k)"
    using assms(3,4) set_commits [of c ps k] set_commits [of c qs k] by simp_all
  have "d = c" if d: "d \<in> set (commits qs k)" for d
  proof -
    have "Committed (sk_thinking k) d \<in> L" "Committed (sk_thinking k) c \<in> L" "cm_run d = cm_run c" "cm_message d = cm_message c"
      using d c assms(2,3) by (cases k; auto simp: set_commits)+
    then show ?thesis
      using lawfulD(4) [OF assms(1)] by blast
  qed
  moreover obtain e es where e: "commits qs k = e # es"
    using c by (cases "commits qs k") auto
  ultimately have "e = c"
    by simp
  then show ?thesis
    using e that by simp
qed

lemma stream_entry_by_set:
  assumes "lawful_pieces L" and "set ps \<subseteq> L" and "set ps = set qs"
  shows "stream_entry ps k = stream_entry qs k"
proof -
  have fs: "fragments ps k = fragments qs k"
    using fragments_by_set [OF assms(1,2), of qs k] assms(2,3) by simp
  show ?thesis
  proof (cases "commits ps k")
    case Nil
    then have "commits qs k = []"
      using set_commits [of _ ps k] set_commits [of _ qs k] assms(3) by (metis list.set_intros(1) neq_Nil_conv empty_iff list.set(1))
    then show ?thesis
      using Nil fs by (simp add: stream_entry_def)
  next
    case (Cons c cs)
    then obtain es where "commits qs k = c # es"
      using commits_by_set [OF assms] by metis
    then show ?thesis
      using Cons fs by (simp add: stream_entry_def)
  qed
qed

lemma log_shown:
  assumes "sound_log ds"
  shows "sorted (map entry_rank (tl_entries (deliver_all rd ru ds timeline_empty)))"
    and "distinct (assistant_part (deliver_all rd ru ds timeline_empty))"
    and "e \<in> set (assistant_part (deliver_all rd ru ds timeline_empty)) \<longleftrightarrow> (\<exists>k. stream_entry (pieces ds) k = Some e)"
proof -
  have law: "lawful_pieces (set (pieces ds))"
    using assms by (simp add: sound_log_def)
  obtain qs where qs: "renders ds qs (deliver_all rd ru ds timeline_empty)" "set qs = set (pieces ds)"
    using renders_log [OF assms] by blast
  then have r: "reads (set (pieces ds)) (id_sequence ds) qs (deliver_all rd ru ds timeline_empty)"
    by (simp add: renders_def)
  have "stream_entry qs k = stream_entry (pieces ds) k" for k
    using stream_entry_by_set [OF law _ qs(2)] qs(2) by simp
  then show "e \<in> set (assistant_part (deliver_all rd ru ds timeline_empty)) \<longleftrightarrow> (\<exists>k. stream_entry (pieces ds) k = Some e)"
    using r by (simp add: reads_def)
  show "sorted (map entry_rank (tl_entries (deliver_all rd ru ds timeline_empty)))"
    and "distinct (assistant_part (deliver_all rd ru ds timeline_empty))"
    using r by (simp_all add: reads_def apart_def)
qed

lemma log_apart:
  assumes "sound_log ds" and "e \<in> set (tl_entries (deliver_all rd ru ds timeline_empty))"
    and "te_event_id e \<in> assistant_ids (set (pieces ds))"
  shows "of_assistant e"
proof -
  obtain qs where "renders ds qs (deliver_all rd ru ds timeline_empty)"
    using renders_log [OF assms(1)] by blast
  then have "apart (assistant_ids (set (pieces ds))) (piece_sequence ` set (pieces ds)) (id_sequence ds) (deliver_all rd ru ds timeline_empty)"
    by (simp add: renders_def reads_def)
  then have "entry_apart (assistant_ids (set (pieces ds))) (piece_sequence ` set (pieces ds)) e"
    using assms(2) by (simp add: apart_def)
  then show ?thesis
    using assms(3) by (simp add: entry_apart_def)
qed

subsection \<open>Copies of one event\<close>

text \<open>
  The host gives what it sends live an event id and a time of its own, so the live copy of an event and the stored one
  that a page brings agree in the sequence and the content only. A fragment counts once: its first copy stays.
\<close>

definition fragment_of :: "delivery \<Rightarrow> fragment option" where
  "fragment_of d = (case pieces_of d of [Fragment f] \<Rightarrow> Some f | _ \<Rightarrow> None)"

fun first_copies :: "u64 list \<Rightarrow> delivery list \<Rightarrow> delivery list" where
  "first_copies seen [] = []"
| "first_copies seen (d # ds) =
     (case fragment_of d of
        None \<Rightarrow> d # first_copies seen ds
      | Some f \<Rightarrow>
          (if fg_sequence f \<in> set seen then first_copies seen ds else d # first_copies (fg_sequence f # seen) ds))"

lemma fragment_of_iff: "fragment_of d = Some f \<longleftrightarrow> pieces_of d = [Fragment f]"
  by (auto simp: fragment_of_def split: list.splits piece.splits)

lemma deliver_copy:
  "fragment_of d = Some f \<Longrightarrow>
     deliver rd ru d t = (if fg_sequence f \<in> tl_seen t then t else snd (fragment_arrives f (see (fg_sequence f) t)))"
  using deliver_page_fragment deliver_live_fragment by (cases d) (simp_all add: fragment_of_iff)

text \<open>A timeline never forgets a sequence.\<close>

lemma seen_puts [simp]:
  "tl_seen (put_entry e t) = tl_seen t" "tl_seen (refresh_tool_arguments t) = tl_seen t"
  "tl_seen (push_tool_anchor run call name place completed t) = tl_seen t" "tl_seen (item_usage ru item t) = tl_seen t"
  "tl_seen (open_row item call shown t) = tl_seen t" "tl_seen (closed_row item call shown st t) = tl_seen t"
  "tl_seen (adopt_start item ai ix t) = tl_seen t" "tl_seen (replace_tool_result ix item shown t) = tl_seen t"
  "tl_seen (enrich_tool_anchor q r c n t) = tl_seen t" "tl_seen (event_tool_started ev r c n t) = tl_seen t"
  by (simp_all add: put_entry_def refresh_tool_arguments_def push_tool_anchor_def item_usage_def open_row_def closed_row_def
      adopt_start_def replace_tool_result_def enrich_tool_anchor_def event_tool_started_def Let_def split: option.split)

lemma seen_update_pair: "update_tool_entry q run call name st d t = (r, t') \<Longrightarrow> tl_seen t' = tl_seen t"
  by (rule conjunct2 [OF update_tool_keeps])

lemma seen_update [simp]: "tl_seen (snd (update_tool_entry q run call name st d t)) = tl_seen t"
  by (rule seen_update_pair [OF prod.collapse [symmetric]])

lemma seen_items:
  "tl_seen t \<subseteq> tl_seen (show_item item k f t)" "tl_seen t \<subseteq> tl_seen (item_delta item t)"
  "tl_seen t \<subseteq> tl_seen (item_message item t)" "tl_seen t \<subseteq> tl_seen (item_tool_output rd item t)"
  "tl_seen t \<subseteq> tl_seen (item_other rd item t)"
  by (auto simp: show_item_def item_delta_def item_message_def item_tool_output_def item_other_def Let_def split: option.split)

lemma seen_item_tool_started: "tl_seen t \<subseteq> tl_seen (item_tool_started rd item t)"
  by (auto simp: item_tool_started_def Let_def split: option.split prod.split)

lemma seen_item_tool_completed: "tl_seen t \<subseteq> tl_seen (item_tool_completed rd item t)"
proof -
  let ?st = "case ti_status item of Some x \<Rightarrow> x | None \<Rightarrow> ''succeeded''"
  obtain call shown where p: "parse_tool_timeline_context rd (ti_detail item) = (call, shown)"
    by fastforce
  obtain r t1 where up: "update_tool_entry (ti_sequence item) (ti_run item) call (ti_tool_name item) (Some ?st) None (see (ti_sequence item) t) = (r, t1)"
    by fastforce
  then have "tl_seen t1 = insert (ti_sequence item) (tl_seen t)"
    using seen_update_pair [OF up] by simp
  then show ?thesis
    using p up by (cases r) (auto simp: item_tool_completed_def Let_def)
qed

lemma seen_item_run_failed: "tl_seen t \<subseteq> tl_seen (item_run_failed item t)"
  using seen_items(1) by (simp add: item_run_failed_def split: option.split)

lemma seen_item: "tl_seen t \<subseteq> tl_seen (apply_item rd ru item t)"
proof -
  have "tl_seen u \<subseteq> tl_seen (apply_kind rd (ti_kind item) item u)" for u
    using seen_items seen_item_tool_started seen_item_tool_completed seen_item_run_failed
    by (cases "ti_kind item")
      (simp_all add: item_approval_requested_def item_approval_responded_def item_diagnostic_def Let_def split: option.split)
  from this [of "item_usage ru item t"] show ?thesis
    by (simp add: apply_item_def)
qed

lemma seen_tool_event: "tl_seen (event_tool_completed ev run call success t) = tl_seen t"
proof -
  let ?st = "if success then ''succeeded'' else ''failed''"
  obtain r t1 where up: "update_tool_entry (ev_sequence ev) (Some run) (Some call) None (Some ?st) None t = (r, t1)"
    by fastforce
  then show ?thesis
    using seen_update_pair [OF up] by (cases r) (simp_all add: event_tool_completed_def Let_def)
qed

lemma seen_event: "tl_seen t \<subseteq> tl_seen (snd (apply_event rd ev t))"
  by (cases "ev_payload ev") (auto simp: apply_event_def seen_tool_event split: option.split prod.split dest: seen_update_pair)

lemma seen_deliver: "tl_seen t \<subseteq> tl_seen (deliver rd ru d t)"
  using seen_item seen_event by (simp add: deliver_def split: delivery.split)

lemma copies_change_nothing:
  "set seen \<subseteq> tl_seen t \<Longrightarrow> deliver_all rd ru ds t = deliver_all rd ru (first_copies seen ds) t"
proof (induction ds arbitrary: seen t)
  case (Cons d ds)
  have grown: "set seen \<subseteq> tl_seen (deliver rd ru d t)"
    using Cons.prems seen_deliver by blast
  show ?case
  proof (cases "fragment_of d")
    case None
    then show ?thesis
      using Cons.IH [OF grown] by (simp add: deliver_all_def)
  next
    case (Some f)
    then have "fg_sequence f \<in> tl_seen (deliver rd ru d t)"
      by (simp add: deliver_copy fragment_arrives_def)
    then have more: "set (fg_sequence f # seen) \<subseteq> tl_seen (deliver rd ru d t)"
      using grown by simp
    have "deliver rd ru d t = t" if "fg_sequence f \<in> set seen"
      using that Some Cons.prems by (auto simp: deliver_copy)
    then show ?thesis
      using Some Cons.IH [OF Cons.prems] Cons.IH [OF more] by (cases "fg_sequence f \<in> set seen") (simp_all add: deliver_all_def)
  qed
qed (simp add: deliver_all_def)

text \<open>
  Deliveries of one session log of the current API, with the copies as they come: pieces at one sequence have the
  same content, an event id stands for one sequence, and the rest as for a log without copies.
\<close>

definition bare_fragment :: "fragment \<Rightarrow> fragment" where
  "bare_fragment f = f\<lparr>fg_event := [], fg_time := []\<rparr>"

definition bare_committed :: "committed \<Rightarrow> committed" where
  "bare_committed c = c\<lparr>cm_event := [], cm_time := []\<rparr>"

fun bare :: "piece \<Rightarrow> piece" where
  "bare (Fragment f) = Fragment (bare_fragment f)"
| "bare (Committed th c) = Committed th (bare_committed c)"

fun agree :: "piece \<Rightarrow> piece \<Rightarrow> bool" where
  "agree (Fragment f) (Fragment g) \<longleftrightarrow> bare_fragment f = bare_fragment g"
| "agree (Committed _ c) (Committed _ d) \<longleftrightarrow> c = d"
| "agree _ _ \<longleftrightarrow> False"

definition copies_agree :: "piece set \<Rightarrow> bool" where
  "copies_agree L \<longleftrightarrow>
     (\<forall>p \<in> L. \<forall>q \<in> L. (piece_sequence p = piece_sequence q \<longrightarrow> agree p q)
       \<and> (piece_event p = piece_event q \<longrightarrow> piece_sequence p = piece_sequence q))"

definition consistent_pieces :: "piece set \<Rightarrow> bool" where
  "consistent_pieces L \<longleftrightarrow> copies_agree L
     \<and> (\<forall>p \<in> L. piece_event p \<noteq> [] \<and> \<not> starts_with ''thinking:'' (piece_event p) \<and> CHR '':'' \<notin> set (sk_run (piece_key p)))
     \<and> (\<forall>f th c. Fragment f \<in> L \<longrightarrow> Committed th c \<in> L \<longrightarrow> fg_run f = cm_run c \<longrightarrow> fg_message f = cm_message c
          \<longrightarrow> fg_sequence f < cm_sequence c)
     \<and> (\<forall>th c th' c'. Committed th c \<in> L \<longrightarrow> Committed th' c' \<in> L \<longrightarrow> cm_run c = cm_run c' \<longrightarrow> cm_message c = cm_message c'
          \<longrightarrow> c = c')"

definition session_log :: "delivery list \<Rightarrow> bool" where
  "session_log ds \<longleftrightarrow> consistent_pieces (set (pieces ds))
     \<and> (\<forall>d \<in> set ds. \<not> of_others d \<longrightarrow> pieces_of d \<noteq> [])
     \<and> (\<forall>d \<in> set ds. of_others d \<and> \<not> silent d \<longrightarrow>
          delivery_event_id d \<notin> assistant_ids (set (pieces ds)) \<and> delivery_sequence d \<notin> piece_sequence ` set (pieces ds)
          \<and> (\<forall>d' \<in> set ds. of_others d' \<and> \<not> silent d' \<and> delivery_event_id d' = delivery_event_id d
               \<longrightarrow> delivery_sequence d' = delivery_sequence d))"

lemma pieces_Cons: "pieces (d # ds) = pieces_of d @ pieces ds"
  by (simp add: pieces_def)

lemma set_first_copies: "set (first_copies seen ds) \<subseteq> set ds"
  by (induction ds arbitrary: seen) (auto split: option.split)

lemma first_copies_pieces: "set (pieces (first_copies seen ds)) \<subseteq> set (pieces ds)"
  using set_first_copies by (fastforce simp: pieces_def)

lemma first_copies_new: "Fragment f \<in> set (pieces (first_copies seen ds)) \<Longrightarrow> list_all (\<lambda>d. of_others d \<or> pieces_of d \<noteq> []) ds \<Longrightarrow> fg_sequence f \<notin> set seen"
proof (induction ds arbitrary: seen)
  case (Cons d ds)
  have "\<not> of_others d" if "Fragment f \<in> set (pieces_of d)"
    using that by (cases d) (auto simp: pieces_of_def of_others_def assistant_item_def Let_def split: option.splits if_splits app_event.splits)
  then have "pieces_of d = [Fragment f]" if "Fragment f \<in> set (pieces_of d)"
    using that shapes [of d] by (metis empty_iff list.set(1) list.set_intros(1) list.set(2) insert_iff piece.distinct(1))
  then show ?case
    using Cons fragment_of_iff [of d] by (fastforce simp: pieces_Cons split: option.splits if_splits)
qed (simp add: pieces_def)

lemma first_copies_once:
  assumes "list_all (\<lambda>d. of_others d \<or> pieces_of d \<noteq> []) ds"
  shows "Fragment f \<in> set (pieces (first_copies seen ds)) \<Longrightarrow> Fragment g \<in> set (pieces (first_copies seen ds)) \<Longrightarrow>
    fg_sequence f = fg_sequence g \<Longrightarrow> f = g"
  using assms
proof (induction ds arbitrary: seen)
  case (Cons d ds)
  have none: "Fragment h \<notin> set (pieces_of d)" if "fragment_of d = None" for h
    using that shapes [of d] Cons.prems(4)
    by (cases d) (auto simp: fragment_of_def pieces_of_def of_others_def assistant_item_def Let_def split: option.splits if_splits app_event.splits)
  show ?case
  proof (cases "fragment_of d")
    case None
    then show ?thesis
      using Cons none by (simp add: pieces_Cons)
  next
    case (Some h)
    then have h: "pieces_of d = [Fragment h]"
      by (simp add: fragment_of_iff)
    have "Fragment x \<in> set (pieces (first_copies (fg_sequence h # seen) ds)) \<Longrightarrow> fg_sequence x \<noteq> fg_sequence h" for x
      using first_copies_new [of x "fg_sequence h # seen" ds] Cons.prems(4) by simp
    then show ?thesis
      using Cons Some h by (cases "fg_sequence h \<in> set seen") (fastforce simp: pieces_Cons)+
  qed
qed (simp add: pieces_def)

lemma first_copies_cover:
  "Fragment f \<in> set (pieces ds) \<Longrightarrow> list_all (\<lambda>d. of_others d \<or> pieces_of d \<noteq> []) ds \<Longrightarrow>
     fg_sequence f \<in> set seen \<or> (\<exists>g. Fragment g \<in> set (pieces (first_copies seen ds)) \<and> fg_sequence g = fg_sequence f)"
proof (induction ds arbitrary: seen)
  case (Cons d ds)
  show ?case
  proof (cases "fragment_of d")
    case None
    have "Fragment f \<in> set (pieces_of d) \<or> Fragment f \<in> set (pieces ds)"
      using Cons.prems(1) by (simp add: pieces_Cons)
    then show ?thesis
      using Cons None by (auto simp: pieces_Cons)
  next
    case (Some h)
    then have h: "pieces_of d = [Fragment h]"
      by (simp add: fragment_of_iff)
    have "f = h \<or> Fragment f \<in> set (pieces ds)"
      using Cons.prems(1) h by (simp add: pieces_Cons)
    then show ?thesis
      using Cons.prems(2) Some h Cons.IH [of seen] Cons.IH [of "fg_sequence h # seen"]
      by (cases "fg_sequence h \<in> set seen"; cases "f = h") (auto simp: pieces_Cons)
  qed
qed (simp add: pieces_def)

lemma committed_stays: "Committed th c \<in> set (pieces ds) \<Longrightarrow> Committed th c \<in> set (pieces (first_copies seen ds))"
proof (induction ds arbitrary: seen)
  case (Cons d ds)
  then show ?case
    using fragment_of_iff [THEN iffD1, of d] by (cases "fragment_of d") (fastforce simp: pieces_Cons)+
qed (simp add: pieces_def)

lemma consistentD:
  assumes "consistent_pieces L"
  shows "p \<in> L \<Longrightarrow> q \<in> L \<Longrightarrow> piece_sequence p = piece_sequence q \<Longrightarrow> agree p q"
    and "p \<in> L \<Longrightarrow> q \<in> L \<Longrightarrow> piece_event p = piece_event q \<Longrightarrow> piece_sequence p = piece_sequence q"
  using assms unfolding consistent_pieces_def copies_agree_def by blast+

lemma consistent_commits:
  assumes "consistent_pieces L"
  shows "Fragment f \<in> L \<Longrightarrow> Committed th c \<in> L \<Longrightarrow> fg_run f = cm_run c \<Longrightarrow> fg_message f = cm_message c \<Longrightarrow> fg_sequence f < cm_sequence c"
    and "Committed th c \<in> L \<Longrightarrow> Committed th' c' \<in> L \<Longrightarrow> cm_run c = cm_run c' \<Longrightarrow> cm_message c = cm_message c' \<Longrightarrow> c = c'"
  using assms unfolding consistent_pieces_def by blast+

lemma named_deliveries: "session_log ds \<Longrightarrow> list_all (\<lambda>d. of_others d \<or> pieces_of d \<noteq> []) ds"
  by (auto simp: session_log_def list_all_iff)

lemma first_copies_lawful:
  assumes "session_log ds"
  shows "lawful_pieces (set (pieces (first_copies [] ds)))"
proof -
  let ?L = "set (pieces (first_copies [] ds))"
  have cons: "consistent_pieces (set (pieces ds))"
    using assms by (simp add: session_log_def)
  have sub: "?L \<subseteq> set (pieces ds)"
    by (rule first_copies_pieces)
  have "same_piece p q"
    if "p \<in> ?L" "q \<in> ?L" "piece_sequence p = piece_sequence q \<or> piece_event p = piece_event q" for p q
  proof -
    have in_all: "p \<in> set (pieces ds)" "q \<in> set (pieces ds)"
      using that(1,2) sub by blast+
    then have seq: "piece_sequence p = piece_sequence q"
      using that(3) consistentD(2) [OF cons] by blast
    then have "agree p q"
      by (rule consistentD(1) [OF cons in_all])
    then show ?thesis
      using that(1,2) seq first_copies_once [OF named_deliveries [OF assms]]
      by (cases p; cases q) (auto simp: same_piece_def)
  qed
  moreover have "\<forall>p \<in> ?L. piece_event p \<noteq> [] \<and> \<not> starts_with ''thinking:'' (piece_event p) \<and> CHR '':'' \<notin> set (sk_run (piece_key p))"
    using cons sub by (auto simp: consistent_pieces_def)
  moreover have "\<forall>f th c. Fragment f \<in> ?L \<longrightarrow> Committed th c \<in> ?L \<longrightarrow> fg_run f = cm_run c \<longrightarrow> fg_message f = cm_message c
      \<longrightarrow> fg_sequence f < cm_sequence c"
    using consistent_commits(1) [OF cons] sub by blast
  moreover have "\<forall>th c th' c'. Committed th c \<in> ?L \<longrightarrow> Committed th' c' \<in> ?L \<longrightarrow> cm_run c = cm_run c' \<longrightarrow> cm_message c = cm_message c'
      \<longrightarrow> c = c'"
    using consistent_commits(2) [OF cons] sub by blast
  ultimately show ?thesis
    unfolding lawful_pieces_def by blast
qed

lemma sound_first_copies:
  assumes "session_log ds"
  shows "sound_log (first_copies [] ds)"
proof -
  have sub: "set (first_copies [] ds) \<subseteq> set ds" "set (pieces (first_copies [] ds)) \<subseteq> set (pieces ds)"
    by (rule set_first_copies, rule first_copies_pieces)
  then have "assistant_ids (set (pieces (first_copies [] ds))) \<subseteq> assistant_ids (set (pieces ds))"
    by (auto simp: assistant_ids_def)
  then show ?thesis
    using assms first_copies_lawful [OF assms] sub unfolding sound_log_def session_log_def by blast
qed

lemma session_shown:
  assumes "session_log ds"
  shows "sorted (map entry_rank (tl_entries (deliver_all rd ru ds timeline_empty)))"
    and "distinct (assistant_part (deliver_all rd ru ds timeline_empty))"
    and "e \<in> set (assistant_part (deliver_all rd ru ds timeline_empty)) \<longleftrightarrow> (\<exists>k. stream_entry (pieces (first_copies [] ds)) k = Some e)"
  using log_shown [OF sound_first_copies [OF assms]] copies_change_nothing [of "[]" timeline_empty rd ru ds] by simp_all

subsection \<open>What does not depend on the copy\<close>

definition entry_view :: "timeline_entry \<Rightarrow> u64 \<times> entry_kind \<times> string option" where
  "entry_view e = (te_sequence e, te_kind e, te_run e)"

lemma bare_simps [simp]:
  "piece_key (bare p) = piece_key p" "fg_sequence (bare_fragment f) = fg_sequence f" "fg_text (bare_fragment f) = fg_text f"
  "fg_run (bare_fragment f) = fg_run f" "fg_message (bare_fragment f) = fg_message f"
  "fg_thinking (bare_fragment f) = fg_thinking f"
  by (cases p) (simp_all add: bare_fragment_def bare_committed_def)

lemma bare_first_copies:
  assumes "session_log ds"
  shows "bare ` set (pieces (first_copies [] ds)) = bare ` set (pieces ds)"
proof -
  have "bare p \<in> bare ` set (pieces (first_copies [] ds))" if p: "p \<in> set (pieces ds)" for p
  proof (cases p)
    case (Fragment f)
    then obtain g where g: "Fragment g \<in> set (pieces (first_copies [] ds))" "fg_sequence g = fg_sequence f"
      using first_copies_cover [of f ds "[]"] p named_deliveries [OF assms] by auto
    then have "Fragment g \<in> set (pieces ds)"
      using first_copies_pieces by blast
    moreover have "consistent_pieces (set (pieces ds))"
      using assms by (simp add: session_log_def)
    ultimately have "bare (Fragment g) = bare p"
      using consistentD(1) [of _ "Fragment g" p] p g(2) Fragment by fastforce
    then show ?thesis
      using g(1) by (metis imageI)
  next
    case (Committed th c)
    then show ?thesis
      using committed_stays p by blast
  qed
  then show ?thesis
    using first_copies_pieces by blast
qed

lemma bare_fragments:
  assumes "lawful_pieces (set ps)" and "lawful_pieces (set qs)" and "bare ` set ps = bare ` set qs"
  shows "map bare_fragment (fragments ps k) = map bare_fragment (fragments qs k)"
proof -
  have sub: "bare_fragment ` set (fragments xs k) \<subseteq> bare_fragment ` set (fragments ys k)" if "bare ` set xs = bare ` set ys" for xs ys
  proof
    fix b assume "b \<in> bare_fragment ` set (fragments xs k)"
    then obtain f where f: "b = bare_fragment f" "Fragment f \<in> set xs" "piece_key (Fragment f) = k"
      by (auto simp: set_fragments)
    then have "bare (Fragment f) \<in> bare ` set ys"
      using that by blast
    then obtain q where q: "q \<in> set ys" "bare q = Fragment (bare_fragment f)"
      by auto
    have "\<exists>g. q = Fragment g \<and> bare_fragment g = bare_fragment f"
      using q(2) by (cases q) auto
    then obtain g where "q = Fragment g" "bare_fragment g = bare_fragment f"
      by blast
    moreover have "piece_key q = k"
      using q(2) f(3) by (metis bare_simps(1) bare.simps(1))
    ultimately show "b \<in> bare_fragment ` set (fragments ys k)"
      using q(1) f(1) by (auto simp: set_fragments image_iff intro!: bexI [where x = g])
  qed
  have "sorted (map fg_sequence (map bare_fragment (fragments xs k)))" for xs
    using sorted_fragments [of xs k] by (simp add: comp_def)
  moreover have "distinct (map fg_sequence (map bare_fragment (fragments xs k)))" if "lawful_pieces (set xs)" for xs
    using sequences_distinct [OF that order_refl, of k] by (simp add: comp_def)
  moreover have "set (map bare_fragment (fragments ps k)) = set (map bare_fragment (fragments qs k))"
    using sub [OF assms(3)] sub [OF assms(3) [symmetric]] by auto
  moreover from this have "inj_on fg_sequence (set (map bare_fragment (fragments ps k)) \<union> set (map bare_fragment (fragments qs k)))"
    using calculation(2) [OF assms(1)] by (simp only: distinct_map Un_absorb)
  ultimately show ?thesis
    using assms(1,2) by (intro map_sorted_distinct_set_unique [where f = fg_sequence]) auto
qed

lemma bare_is_committed: "bare q = bare (Committed th c) \<Longrightarrow> \<exists>d. q = Committed th d \<and> bare_committed d = bare_committed c"
  by (cases q) auto

lemma bare_committed_same:
  "bare_committed d = bare_committed c \<Longrightarrow> cm_sequence d = cm_sequence c \<and> cm_text d = cm_text c \<and> cm_thought d = cm_thought c
     \<and> cm_run d = cm_run c \<and> cm_message d = cm_message c"
  by (cases c; cases d) (simp add: bare_committed_def)

lemma bare_commit:
  assumes "lawful_pieces (set qs)" and "bare ` set ps = bare ` set qs" and "commits ps k = c # cs"
  obtains c' cs' where "commits qs k = c' # cs'" and "cm_sequence c' = cm_sequence c" and "cm_text c' = cm_text c"
    and "cm_thought c' = cm_thought c"
proof -
  let ?th = "sk_thinking k"
  have c: "Committed ?th c \<in> set ps" "piece_key (Committed ?th c) = k"
    using set_commits [of c ps k] assms(3) by simp_all
  then obtain q where q: "q \<in> set qs" "bare q = bare (Committed ?th c)"
    using assms(2) by (metis imageE imageI)
  then obtain d where d: "q = Committed ?th d" "cm_sequence d = cm_sequence c" "cm_text d = cm_text c" "cm_thought d = cm_thought c"
    "cm_run d = cm_run c" "cm_message d = cm_message c"
    using bare_is_committed [OF q(2)] bare_committed_same by blast
  then have key: "piece_key (Committed ?th d) = k"
    using c(2) by simp
  then have "d \<in> set (commits qs k)"
    using q(1) d(1) set_commits [of d qs k] by simp
  then obtain e es where e: "commits qs k = e # es"
    by (cases "commits qs k") auto
  then have "Committed ?th e \<in> set qs" "piece_key (Committed ?th e) = k"
    using set_commits [of e qs k] by simp_all
  then have "e = d"
    using lawfulD(4) [OF assms(1), of ?th e ?th d] q(1) d(1) key by (metis piece_key.simps(2) stream_key.inject)
  then show ?thesis
    using that e d by simp
qed

lemma shown_view:
  "entry_view (shown_entry (Stream r m th) s i ts x) = (s, text_kind th x, Some r)"
  by (simp add: entry_view_def shown_entry_def assistant_entry_def)

lemma bare_stream_entry:
  assumes "lawful_pieces (set ps)" and "lawful_pieces (set qs)" and "bare ` set ps = bare ` set qs"
  shows "map_option entry_view (stream_entry ps k) = map_option entry_view (stream_entry qs k)"
proof -
  obtain r m th where k: "k = Stream r m th"
    by (cases k)
  have fs: "map bare_fragment (fragments ps k) = map bare_fragment (fragments qs k)"
    by (rule bare_fragments [OF assms])
  have texts: "map fg_text (fragments ps k) = map fg_text (fragments qs k)" "map fg_sequence (fragments ps k) = map fg_sequence (fragments qs k)"
    using arg_cong [OF fs, of "map fg_text"] arg_cong [OF fs, of "map fg_sequence"] by (simp_all add: comp_def)
  show ?thesis
  proof (cases "commits ps k")
    case Nil
    then have "commits qs k = []"
      using bare_commit [OF assms(1) assms(3) [symmetric], of k] by (cases "commits qs k") (auto simp: Nil)
    then show ?thesis
      using Nil texts by (cases "fragments ps k"; cases "fragments qs k") (simp_all add: stream_entry_def k shown_view)
  next
    case (Cons c cs)
    then obtain d ds where "commits qs k = d # ds" "cm_sequence d = cm_sequence c" "cm_text d = cm_text c" "cm_thought d = cm_thought c"
      using bare_commit [OF assms(2,3) Cons] by metis
    then show ?thesis
      using Cons texts by (cases "fragments ps k"; cases "fragments qs k") (simp_all add: stream_entry_def k shown_view)
  qed
qed

definition view_rank :: "u64 \<times> entry_kind \<times> string option \<Rightarrow> u64 \<times> bool" where
  "view_rank v = (fst v, \<not> is_thinking (fst (snd v)))"

lemma view_rank_entry [simp]: "view_rank (entry_view e) = entry_rank e"
  by (simp add: view_rank_def entry_view_def entry_rank_def)

text \<open>The assistant's entries have different places.\<close>

lemma session_ranks:
  assumes "session_log ds"
  shows "distinct (map entry_rank (assistant_part (deliver_all rd ru ds timeline_empty)))"
    and "sorted (map entry_rank (assistant_part (deliver_all rd ru ds timeline_empty)))"
proof -
  let ?es = "assistant_part (deliver_all rd ru ds timeline_empty)"
  have "inj_on entry_rank (set ?es)"
  proof (rule inj_onI)
    fix x y assume xy: "x \<in> set ?es" "y \<in> set ?es" and rank: "entry_rank x = entry_rank y"
    obtain k k' where "stream_entry (pieces (first_copies [] ds)) k = Some x" "stream_entry (pieces (first_copies [] ds)) k' = Some y"
      using session_shown(3) [OF assms] xy by blast
    moreover from this have "k = k'"
      using entry_stream [OF first_copies_lawful [OF assms] order_refl] rank by blast
    ultimately show "x = y"
      by simp
  qed
  then show "distinct (map entry_rank ?es)"
    using session_shown(2) [OF assms] by (simp add: distinct_map)
  show "sorted (map entry_rank ?es)"
    using session_shown(1) [OF assms] by (simp add: assistant_part_def sorted_filter)
qed

lemma session_views:
  assumes "session_log ds"
  shows "v \<in> entry_view ` set (assistant_part (deliver_all rd ru ds timeline_empty))
    \<longleftrightarrow> (\<exists>k. map_option entry_view (stream_entry (pieces (first_copies [] ds)) k) = Some v)"
  unfolding image_iff Bex_def session_shown(3) [OF assms] by auto

lemma same_views:
  assumes "session_log ds" and "session_log es" and "bare ` set (pieces ds) = bare ` set (pieces es)"
  shows "map entry_view (assistant_part (deliver_all rd ru ds timeline_empty))
    = map entry_view (assistant_part (deliver_all rd' ru' es timeline_empty))"
proof -
  let ?x = "assistant_part (deliver_all rd ru ds timeline_empty)" and ?y = "assistant_part (deliver_all rd' ru' es timeline_empty)"
  have "bare ` set (pieces (first_copies [] ds)) = bare ` set (pieces (first_copies [] es))"
    using bare_first_copies [OF assms(1)] bare_first_copies [OF assms(2)] assms(3) by simp
  then have "map_option entry_view (stream_entry (pieces (first_copies [] ds)) k)
      = map_option entry_view (stream_entry (pieces (first_copies [] es)) k)" for k
    by (rule bare_stream_entry [OF first_copies_lawful [OF assms(1)] first_copies_lawful [OF assms(2)]])
  then have same: "set (map entry_view ?x) = set (map entry_view ?y)"
    unfolding set_map by (intro set_eqI) (simp only: session_views [OF assms(1)] session_views [OF assms(2)])
  have ranks: "map view_rank (map entry_view zs) = map entry_rank zs" for zs
    by simp
  have inj: "inj_on view_rank (set (map entry_view ?x) \<union> set (map entry_view ?y))"
    using session_ranks(1) [OF assms(1), of rd ru] unfolding same [symmetric] ranks [symmetric] distinct_map by simp
  show ?thesis
    by (rule map_sorted_distinct_set_unique [OF inj]) (use same session_ranks [OF assms(1)] session_ranks [OF assms(2)] in \<open>simp_all only: ranks\<close>)
qed

subsection \<open>Properties\<close>

text \<open>A log of one answer: a thought, a fragment and the committed message, with the start of the run.\<close>

definition page_item :: "u64 \<Rightarrow> string \<Rightarrow> item_kind \<Rightarrow> string \<Rightarrow> string option \<Rightarrow> timeline_item" where
  "page_item s i k x th = \<lparr>ti_sequence = s, ti_event_id = i, ti_kind = k, ti_run = Some ''r'', ti_text = Some x,
     ti_message = Some ''m'', ti_thinking = th, ti_tool_name = None, ti_status = None, ti_detail = None, ti_timestamp = ''7''\<rparr>"

definition live_event :: "u64 \<Rightarrow> string \<Rightarrow> app_event \<Rightarrow> app_envelope" where
  "live_event s i p = \<lparr>ev_sequence = s, ev_event_id = i, ev_timestamp = 7, ev_payload = p\<rparr>"

definition live_log :: "delivery list" where
  "live_log = [FromLive (live_event 2 ''e2'' (EvThinkingDelta ''r'' ''m'' ''hm'')), FromLive (live_event 1 ''e1'' (EvRunChanged ''r'' RsCreated)),
     FromPage (page_item 4 ''e4'' TkAssistantMessage ''hello'' (Some ''hmm'')), FromLive (live_event 3 ''e3'' (EvAssistantDelta ''r'' ''m'' ''hel''))]"

definition paged_log :: "delivery list" where
  "paged_log = [FromPage (page_item 4 ''e4'' TkAssistantMessage ''hello'' (Some ''hmm'')), FromPage (page_item 3 ''e3'' TkAssistantDelta ''hel'' None),
     FromPage (page_item 2 ''e2'' TkThinkingDelta ''hm'' None), FromPage (page_item 4 ''e4'' TkAssistantMessage ''hello'' (Some ''hmm''))]"

definition log_pieces :: "piece list" where
  "log_pieces =
     (let c = \<lparr>cm_sequence = 4, cm_event = ''e4'', cm_time = ''7'', cm_run = ''r'', cm_message = ''m'', cm_text = ''hello'', cm_thought = ''hmm''\<rparr>
      in [Fragment \<lparr>fg_sequence = 2, fg_event = ''e2'', fg_time = ''7'', fg_run = ''r'', fg_message = ''m'', fg_thinking = True, fg_text = ''hm''\<rparr>,
          Committed False c, Committed True c,
          Fragment \<lparr>fg_sequence = 3, fg_event = ''e3'', fg_time = ''7'', fg_run = ''r'', fg_message = ''m'', fg_thinking = False, fg_text = ''hel''\<rparr>])"

lemma dec_seven: "dec 7 = ''7''"
  by code_simp

lemma live_pieces: "pieces live_log = log_pieces"
  by (simp add: pieces_def live_log_def log_pieces_def pieces_of_def page_item_def live_event_def Let_def or_empty_def dec_seven)

lemma paged_pieces: "set (pieces paged_log) = set log_pieces"
  by (auto simp: pieces_def paged_log_def log_pieces_def pieces_of_def page_item_def Let_def or_empty_def)

lemma lawful_log: "lawful_pieces (set log_pieces)"
  by (auto simp: lawful_pieces_def log_pieces_def same_piece_def starts_with_def Let_def)

lemma sound_live: "sound_log live_log"
  unfolding sound_log_def live_pieces
  by (auto simp: lawful_log) (auto simp: live_log_def log_pieces_def pieces_of_def page_item_def live_event_def of_others_def silent_def assistant_item_def
      delivery_event_id_def delivery_sequence_def assistant_ids_def starts_with_def Let_def)

lemma sound_paged: "sound_log paged_log"
  unfolding sound_log_def paged_pieces
  by (auto simp: lawful_log) (auto simp: paged_log_def pieces_of_def page_item_def of_others_def assistant_item_def Let_def)

text \<open>
  The same with copies: a live fragment under the host's own event id and time, and the stored event from a page.
\<close>

definition mixed_log :: "delivery list" where
  "mixed_log = [FromLive ((live_event 3 ''app-evt-1'' (EvAssistantDelta ''r'' ''m'' ''hel''))\<lparr>ev_timestamp := 8\<rparr>),
     FromPage (page_item 3 ''e3'' TkAssistantDelta ''hel'' None), FromPage (page_item 2 ''e2'' TkThinkingDelta ''hm'' None),
     FromPage (page_item 4 ''e4'' TkAssistantMessage ''hello'' (Some ''hmm'')),
     FromLive (live_event 2 ''app-evt-0'' (EvThinkingDelta ''r'' ''m'' ''hm''))]"

lemma mixed_pieces:
  "set (pieces mixed_log) = set log_pieces \<union>
     {Fragment \<lparr>fg_sequence = 3, fg_event = ''app-evt-1'', fg_time = ''8'', fg_run = ''r'', fg_message = ''m'', fg_thinking = False, fg_text = ''hel''\<rparr>,
      Fragment \<lparr>fg_sequence = 2, fg_event = ''app-evt-0'', fg_time = ''7'', fg_run = ''r'', fg_message = ''m'', fg_thinking = True, fg_text = ''hm''\<rparr>}"
proof -
  have "dec 8 = ''8''"
    by code_simp
  then show ?thesis
    by (auto simp: pieces_def mixed_log_def log_pieces_def pieces_of_def page_item_def live_event_def Let_def or_empty_def dec_seven)
qed

lemma copies_mixed: "copies_agree (set (pieces mixed_log))"
  unfolding mixed_pieces copies_agree_def log_pieces_def Let_def
  by (simp add: bare_fragment_def)

lemma consistent_mixed: "consistent_pieces (set (pieces mixed_log))"
  unfolding consistent_pieces_def
proof (intro conjI copies_mixed)
  show "\<forall>p \<in> set (pieces mixed_log). piece_event p \<noteq> [] \<and> \<not> starts_with ''thinking:'' (piece_event p) \<and> CHR '':'' \<notin> set (sk_run (piece_key p))"
    by (simp add: mixed_pieces log_pieces_def starts_with_def Let_def)
qed (auto simp: mixed_pieces log_pieces_def Let_def)

lemma session_mixed: "session_log mixed_log"
proof -
  have "\<not> of_others d \<and> pieces_of d \<noteq> []" if "d \<in> set mixed_log" for d
    using that by (auto simp: mixed_log_def pieces_of_def page_item_def live_event_def of_others_def assistant_item_def Let_def)
  then show ?thesis
    using consistent_mixed unfolding session_log_def by blast
qed

lemma session_of_sound: "sound_log ds \<Longrightarrow> session_log ds"
proof -
  assume sound: "sound_log ds"
  then have law: "lawful_pieces (set (pieces ds))"
    by (simp add: sound_log_def)
  have "copies_agree (set (pieces ds))"
    unfolding copies_agree_def
  proof (intro ballI conjI impI)
    fix p q assume "p \<in> set (pieces ds)" "q \<in> set (pieces ds)"
    note same = lawfulD(1) [OF law this]
    show "agree p q" if "piece_sequence p = piece_sequence q"
      using same that by (cases p; cases q) (auto simp: same_piece_def)
    show "piece_sequence p = piece_sequence q" if "piece_event p = piece_event q"
      using same that by (auto simp: same_piece_def)
  qed
  then show ?thesis
    using sound unfolding sound_log_def session_log_def lawful_pieces_def consistent_pieces_def by blast
qed

text \<open>
  C15: Whatever mix of history pages and live events of a session log reaches a timeline, in whatever order and with
  whatever repetitions, its entries stay sorted by sequence (a thought before the text at the same place), and what
  it shows of the assistant is exactly one entry for each stream of text or thought: the fragments concatenated in
  the order of their sequences until the message is committed, and then the committed text, a thought staying where
  its first fragment was. A fragment that came both live and in a page shows once, though its copies carry different
  event ids and times: the copy that came first counts. No fragment is lost, and none survives its commit.
\<close>

theorem timeline_shows_each_stream_once:
  assumes "session_log ds"
  shows "sorted (map entry_rank (tl_entries (deliver_all rd ru ds timeline_empty)))
    \<and> distinct (assistant_part (deliver_all rd ru ds timeline_empty))
    \<and> (\<forall>e. e \<in> set (assistant_part (deliver_all rd ru ds timeline_empty))
          \<longleftrightarrow> (\<exists>k. stream_entry (pieces (first_copies [] ds)) k = Some e))"
  using session_shown [OF assms] by simp

theorem timeline_shows_each_stream_once_witness:
  "sorted (map entry_rank (tl_entries (deliver_all (\<lambda>_. None) (\<lambda>_. None) mixed_log timeline_empty)))
    \<and> map te_kind (tl_entries (deliver_all (\<lambda>_. None) (\<lambda>_. None) mixed_log timeline_empty)) = [EkThinking ''hmm'', EkAssistantMessage ''hello'']"
proof
  show "sorted (map entry_rank (tl_entries (deliver_all (\<lambda>_. None) (\<lambda>_. None) mixed_log timeline_empty)))"
    using timeline_shows_each_stream_once [OF session_mixed] by simp
  show "map te_kind (tl_entries (deliver_all (\<lambda>_. None) (\<lambda>_. None) mixed_log timeline_empty)) = [EkThinking ''hmm'', EkAssistantMessage ''hello'']"
    by code_simp
qed

text \<open>
  C16: What a timeline shows of the assistant does not depend on how the log reached it: two clients that have
  received the same pieces of the conversation, whichever of them as live events and whichever in history pages (so
  under different event ids and times), in another order, with other events between and some items twice, show the same
  texts and thoughts of the same runs at the same places in the same order.
\<close>

theorem timeline_ignores_arrival_order:
  assumes "session_log ds" and "session_log es" and "bare ` set (pieces ds) = bare ` set (pieces es)"
  shows "map entry_view (assistant_part (deliver_all rd ru ds timeline_empty))
    = map entry_view (assistant_part (deliver_all rd ru es timeline_empty))"
  using assms by (rule same_views)

theorem timeline_ignores_arrival_order_witness:
  "map entry_view (assistant_part (deliver_all (\<lambda>_. None) (\<lambda>_. None) mixed_log timeline_empty))
    = map entry_view (assistant_part (deliver_all (\<lambda>_. None) (\<lambda>_. None) paged_log timeline_empty))"
  by (rule timeline_ignores_arrival_order [OF session_mixed session_of_sound [OF sound_paged]])
    (simp add: mixed_pieces paged_pieces log_pieces_def bare_fragment_def Let_def insert_commute)

subsection \<open>Reconnecting\<close>

text \<open>
  After a reconnect the client's gap is closed exactly: a replay starts at the first event after the one it saw
  last, ends at the current one and is within what the server still has; a client that is up to date gets nothing;
  a snapshot is asked for only where the client is ahead of the server or the event it needs next is gone. The
  successor of the last seen sequence never wraps around in a replay.
\<close>

theorem resume_closes_the_gap:
  "case compute_resume_disposition earliest current seen of
     ResumeUpToDate c \<Rightarrow> c = current \<and> seen = current
   | ResumeReplay a b \<Rightarrow> {a..b} = {seen<..current} \<and> {a..b} \<subseteq> {earliest..current} \<and> a \<in> {a..b}
   | ResumeSnapshot e \<Rightarrow> e = earliest \<and> (current < seen \<or> unat seen + 1 < unat earliest)"
proof -
  have next_seen: "unat (seen + 1) = Suc (unat seen)" if "seen < current"
  proof -
    have "unat current < 2 ^ LENGTH(64)"
      by (rule unsigned_less)
    then have "Suc (unat seen) < 2 ^ LENGTH(64)"
      using that by (simp add: word_less_nat_alt)
    then show ?thesis
      by (simp add: unat_word_ariths)
  qed
  then have le: "seen + 1 \<le> x \<longleftrightarrow> seen < x" if "seen < current" for x
    using that by (simp add: word_less_nat_alt word_le_nat_alt Suc_le_eq)
  have range: "{seen + 1..current} = {seen<..current}" if "seen < current"
    unfolding atLeastAtMost_def greaterThanAtMost_def atLeast_def greaterThan_def le [OF that] ..
  consider "seen = current" | "current < seen" | "seen < current" "earliest \<le> seen + 1" | "seen < current" "\<not> earliest \<le> seen + 1"
    by fastforce
  then show ?thesis
  proof cases
    case 3
    then have "{seen + 1..current} \<subseteq> {earliest..current}"
      by auto
    then show ?thesis
      using 3 range le [OF 3(1), of current] by (simp add: compute_resume_disposition_def)
  next
    case 4
    then have "unat seen + 1 < unat earliest"
      using next_seen by (simp add: word_le_nat_alt)
    then show ?thesis
      using 4 by (simp add: compute_resume_disposition_def)
  qed (simp_all add: compute_resume_disposition_def less_le_not_le)
qed

subsection \<open>A live start after a paged completion\<close>

definition late_start :: "delivery list" where
  "late_start = [FromPage ((page_item 5 ''e5'' TkToolCompleted ''done'' None)\<lparr>ti_detail := Some ''ctx'', ti_tool_name := Some ''ls''\<rparr>),
     FromLive (live_event 4 ''e4'' (EvToolStarted ''r'' ''c'' ''ls''))]"

text \<open>
  The history arm moves the row of a completion that came first onto its start; the live arm opens a second row that
  stays \<open>running\<close>, and with two anchors for one call later updates of the call match neither.
\<close>

lemma live_start_makes_second_row:
  "map te_kind (tl_entries (deliver_all (\<lambda>_. Some (JObject [(tool_context_id_key, JString ''c'')])) (\<lambda>_. None) late_start timeline_empty))
    = [EkToolCall ''ls'' ''running'' None None, EkToolCall ''ls'' ''succeeded'' (Some ''done'') None]"
  by code_simp

end
