(* ===== verification/TimelineHost.thy ===== *)
theory TimelineHost
  imports TimelineApply ToolScheduler EngineContext
begin

text \<open>
  The host's side of the timeline: a stored event of a run as the item of a history page, \<open>project_event\<close> in
  \<open>crates/protocol/src/projection/mod.rs\<close>. The printing of JSON and the typed form of a server tool event (JSON
  in \<open>agent_event\<close>) are \<open>serde_json\<close>'s and are arguments.
\<close>

subsection \<open>Stored events\<close>

record stored_envelope = envelope +
  se_timestamp :: u64

record citation =
  ci_title :: "string option"
  ci_url :: "string option"
  ci_text :: "string option"

text \<open>The server tool events the timeline reads; all others are \<open>SteOther\<close>.\<close>

datatype server_tool_event =
    SteStarted (ste_call: string) string
  | SteCitationAdded (ste_call: string) citation
  | SteCompleted (ste_call: string)
  | SteFailed (ste_call: string)
  | SteOther (ste_call: string)

record host_codec =
  hc_compact :: "json \<Rightarrow> string"
  hc_pretty :: "json \<Rightarrow> string"
  hc_usage :: "token_usage \<Rightarrow> string"
  hc_server_tool :: "json \<Rightarrow> server_tool_event"

subsection \<open>Texts\<close>

definition append_line :: "string \<Rightarrow> string \<Rightarrow> string" where
  "append_line text s = text @ (if text \<noteq> [] then [CHR 10] else []) @ s"

fun join_text_part :: "content_part \<Rightarrow> string \<Rightarrow> string" where
  "join_text_part (PartText s) text = append_line text s"
| "join_text_part (PartVideo url media) text = append_line text (''[video: '' @ media @ ''] '' @ url)"
| "join_text_part _ text = text"

definition join_text :: "content_part list \<Rightarrow> string" where
  "join_text parts = fold join_text_part parts []"

definition thinking_text_of :: "message \<Rightarrow> string option" where
  "thinking_text_of m =
     (let text = join_with [CHR 10] (List.map_filter (\<lambda>p. case p of PartThinking s _ redacted \<Rightarrow> (if redacted then None else Some s) | _ \<Rightarrow> None)
          (ms_content m))
      in if text = [] then None else Some text)"

definition opt_json :: "json option \<Rightarrow> json" where
  "opt_json v = (case v of Some x \<Rightarrow> x | None \<Rightarrow> JNull)"

definition tool_result_text :: "host_codec \<Rightarrow> string option \<Rightarrow> content_part list \<Rightarrow> json \<Rightarrow> string" where
  "tool_result_text hc name content metadata =
     (let text = join_text content in
      if name = Some ''list_directory''
      then (case (get_str ''path'' metadata, Option.bind (json_get ''total'' metadata) as_u64) of
              (Some path, Some n) \<Rightarrow>
                (let summary = hc_pretty hc (JObject [(''path'', JString path), (''total'', json_nat n),
                       (''offset'', opt_json (json_get ''offset'' metadata)), (''truncated'', opt_json (json_get ''truncated'' metadata))])
                 in if text = [] then summary else summary @ [CHR 10] @ text)
            | _ \<Rightarrow> text)
      else text)"

definition sandbox_timeline_prefix :: string where
  "sandbox_timeline_prefix = [CHR 0xE6, CHR 0xB2, CHR 0x99, CHR 0xE7, CHR 0xAE, CHR 0xB1, CHR 0xE5, CHR 0x9B, CHR 0x9E,
     CHR 0xE9, CHR 0x80, CHR 0x80, CHR 0xEF, CHR 0xBC, CHR 0x9A]"

definition sandbox_timeline_detail :: "json \<Rightarrow> string option" where
  "sandbox_timeline_detail metadata =
     (case json_get ''sandbox'' metadata of
        None \<Rightarrow> None
      | Some sandbox \<Rightarrow>
          (if Option.bind (json_get ''fallback'' sandbox) as_bool = Some True
           then (let named = (\<lambda>k. case get_str k sandbox of Some s \<Rightarrow> s | None \<Rightarrow> ''unknown'') in
                 Some (sandbox_timeline_prefix @ ''isolation='' @ named ''isolation'' @ '' backend='' @ named ''backend''))
           else None))"

definition tool_timeline_context :: "host_codec \<Rightarrow> string \<Rightarrow> string option \<Rightarrow> string" where
  "tool_timeline_context hc call detail =
     hc_compact hc (JObject ((tool_context_id_key, JString call) #
       (case detail of Some d \<Rightarrow> [(tool_context_detail_key, JString d)] | None \<Rightarrow> [])))"

fun decision_status :: "approval_decision \<Rightarrow> string" where
  "decision_status ApprovedOnce = ''approve_once''"
| "decision_status ApprovedForRun = ''approve_for_run''"
| "decision_status Denied = ''deny''"
| "decision_status ApprovalCancelled = ''cancelled''"

subsection \<open>Server tools\<close>

definition citation_text :: "citation \<Rightarrow> string" where
  "citation_text c = join_with [CHR 10] (filter (\<lambda>s. s \<noteq> []) (List.map_filter id [ci_title c, ci_url c, ci_text c]))"

fun project_server_tool_event :: "string \<Rightarrow> server_tool_event \<Rightarrow> app_event option" where
  "project_server_tool_event run (SteStarted call name) = Some (EvToolStarted run call name)"
| "project_server_tool_event run (SteCitationAdded call c) =
     (if citation_text c = [] then None else Some (EvToolOutput run call (citation_text c @ [CHR 10])))"
| "project_server_tool_event run (SteCompleted call) = Some (EvToolCompleted run call True)"
| "project_server_tool_event run (SteFailed call) = Some (EvToolCompleted run call False)"
| "project_server_tool_event run (SteOther call) = None"

subsection \<open>The item of an event\<close>

text \<open>Kind, text, tool name, status and detail.\<close>

type_synonym item_face = "item_kind \<times> string option \<times> string option \<times> string option \<times> string option"

definition server_tool_face :: "host_codec \<Rightarrow> string \<Rightarrow> server_tool_event \<Rightarrow> item_face option" where
  "server_tool_face hc run e =
     (let context = Some (tool_timeline_context hc (ste_call e) None) in
      case project_server_tool_event run e of
        Some (EvToolStarted _ _ name) \<Rightarrow> Some (TkToolStarted, None, Some name, Some ''running'', context)
      | Some (EvToolOutput _ _ delta) \<Rightarrow> Some (TkToolOutput, Some delta, None, None, context)
      | Some (EvToolCompleted _ _ ok) \<Rightarrow> Some (TkToolCompleted, None, None, Some (if ok then ''succeeded'' else ''failed''), context)
      | _ \<Rightarrow> None)"

fun event_face :: "host_codec \<Rightarrow> string \<Rightarrow> agent_event \<Rightarrow> item_face option" where
  "event_face hc run (AeMessageCommitted m) =
     (case ms_role m of
        RoleUser \<Rightarrow> Some (TkUserMessage, Some (join_text (ms_content m)), None, None, None)
      | RoleAssistant \<Rightarrow> Some (TkAssistantMessage, Some (join_text (ms_content m)), None, None, None)
      | _ \<Rightarrow> None)"
| "event_face hc run (AeAssistantTextDelta _ d) = Some (TkAssistantDelta, Some d, None, None, None)"
| "event_face hc run (AeAssistantThinkingDelta _ d) = Some (TkThinkingDelta, Some d, None, None, None)"
| "event_face hc run (AeToolCallStarted call name) =
     Some (TkToolStarted, None, Some name, Some ''running'', Some (tool_timeline_context hc call None))"
| "event_face hc run (AeToolCallArgumentsDelta call d) =
     Some (TkOther, Some d, None, Some ''tool_arguments'', Some (tool_timeline_context hc call None))"
| "event_face hc run (AeToolOutputDelta call _ d) = Some (TkToolOutput, Some d, None, None, Some (tool_timeline_context hc call None))"
| "event_face hc run (AeToolExecutionCompleted call (PartToolResult _ name content failed metadata _)) =
     Some (TkToolCompleted, Some (tool_result_text hc name content metadata), name, Some (if failed then ''failed'' else ''succeeded''),
       Some (tool_timeline_context hc call (sandbox_timeline_detail metadata)))"
| "event_face hc run (AeServerTool v) = server_tool_face hc run (hc_server_tool hc v)"
| "event_face hc run (AeToolApprovalRequested _ reason) = Some (TkApprovalRequested, None, None, Some ''pending'', Some reason)"
| "event_face hc run (AeToolApprovalResponded _ d _) = Some (TkApprovalResponded, None, None, Some (decision_status d), None)"
| "event_face hc run (AeRunStarted _) = Some (TkRunStarted, None, None, None, None)"
| "event_face hc run (AeRunCompleted _ u) = Some (TkRunCompleted, Some (hc_usage hc u), None, None, None)"
| "event_face hc run (AeRunCancelled _ u) = Some (TkRunCancelled, map_option (hc_usage hc) u, None, None, None)"
| "event_face hc run (AeRunFailed e u) = Some (TkRunFailed, map_option (hc_usage hc) u, None, Some ''failed'', Some (ex_message e))"
| "event_face hc run (AeDiagnostic code details) = Some (TkDiagnostic, None, None, None, Some (code @ '': '' @ hc_compact hc details))"
| "event_face hc run (AeCheckpointCreated i _) = Some (TkOther, None, None, None, Some (''checkpoint '' @ i))"
| "event_face hc run (AeForeign k v) =
     (if k = ''checkpoint_rolled_back''
      then map_option (\<lambda>i. (TkOther, None, None, None, Some (''rollback '' @ i))) (get_str ''checkpoint_id'' v) else None)"
| "event_face hc run _ = None"

text \<open>The message an assistant event belongs to and the committed thought.\<close>

fun message_face :: "agent_event \<Rightarrow> string option \<times> string option" where
  "message_face (AeMessageCommitted m) = (if ms_role m = RoleAssistant then (Some (ms_id m), thinking_text_of m) else (None, None))"
| "message_face (AeAssistantTextDelta i _) = (Some i, None)"
| "message_face (AeAssistantThinkingDelta i _) = (Some i, None)"
| "message_face _ = (None, None)"

definition project_event :: "host_codec \<Rightarrow> stored_envelope \<Rightarrow> timeline_item option" where
  "project_event hc en =
     (case event_face hc (en_run en) (en_payload en) of
        None \<Rightarrow> None
      | Some (k, text, tool, st, detail) \<Rightarrow>
          (let (message, thinking) = message_face (en_payload en) in
           Some \<lparr>ti_sequence = en_sequence en, ti_event_id = en_event_id en, ti_kind = k, ti_run = Some (en_run en),
             ti_text = text, ti_message = message, ti_thinking = thinking, ti_tool_name = tool, ti_status = st,
             ti_detail = detail, ti_timestamp = dec (unat (se_timestamp en))\<rparr>))"

end
