(* ===== verification/TimelineHostProps.thy ===== *)
theory TimelineHostProps
  imports TimelineProps TimelineHost
begin

text \<open>
  From the stored log of a session to what its timeline shows: the items the host makes of a log are sound
  deliveries, so the answers the host stored are shown whatever way the pages come.
\<close>

subsection \<open>Stored logs\<close>

fun message_of :: "agent_event \<Rightarrow> string option" where
  "message_of (AeAssistantTextDelta i _) = Some i"
| "message_of (AeAssistantThinkingDelta i _) = Some i"
| "message_of _ = None"

fun commits_message :: "string \<Rightarrow> agent_event \<Rightarrow> bool" where
  "commits_message i (AeMessageCommitted m) = (ms_role m = RoleAssistant \<and> ms_id m = i)"
| "commits_message i _ = False"

text \<open>
  Sequences and event ids are the events' own, event ids are not those of thoughts, run ids have no colon, and a
  message is committed once, after its deltas.
\<close>

definition stored_log :: "stored_envelope list \<Rightarrow> bool" where
  "stored_log es \<longleftrightarrow> distinct (map en_sequence es) \<and> distinct (map en_event_id es)
     \<and> (\<forall>en \<in> set es. en_event_id en \<noteq> [] \<and> \<not> starts_with ''thinking:'' (en_event_id en) \<and> CHR '':'' \<notin> set (en_run en))
     \<and> (\<forall>en \<in> set es. \<forall>en' \<in> set es. \<forall>i. en_run en = en_run en' \<longrightarrow> commits_message i (en_payload en') \<longrightarrow>
          (message_of (en_payload en) = Some i \<longrightarrow> en_sequence en < en_sequence en')
          \<and> (commits_message i (en_payload en) \<longrightarrow> en = en'))"

definition items_of :: "host_codec \<Rightarrow> stored_envelope list \<Rightarrow> timeline_item list" where
  "items_of hc es = List.map_filter (project_event hc) es"

lemma stored_logD:
  assumes "stored_log es" and "en \<in> set es" and "en' \<in> set es"
  shows "en_sequence en = en_sequence en' \<Longrightarrow> en = en'" and "en_event_id en = en_event_id en' \<Longrightarrow> en = en'"
    and "en_event_id en \<noteq> []" and "\<not> starts_with ''thinking:'' (en_event_id en)" and "CHR '':'' \<notin> set (en_run en)"
    and "en_run en = en_run en' \<Longrightarrow> commits_message i (en_payload en') \<Longrightarrow> message_of (en_payload en) = Some i \<Longrightarrow> en_sequence en < en_sequence en'"
    and "en_run en = en_run en' \<Longrightarrow> commits_message i (en_payload en') \<Longrightarrow> commits_message i (en_payload en) \<Longrightarrow> en = en'"
  using assms unfolding stored_log_def by (auto simp: distinct_map inj_on_def)

subsection \<open>The pieces of an event\<close>

definition event_fragment :: "stored_envelope \<Rightarrow> string \<Rightarrow> bool \<Rightarrow> string \<Rightarrow> piece" where
  "event_fragment en i th d = Fragment \<lparr>fg_sequence = en_sequence en, fg_event = en_event_id en,
     fg_time = dec (unat (se_timestamp en)), fg_run = en_run en, fg_message = i, fg_thinking = th, fg_text = d\<rparr>"

definition event_commit :: "stored_envelope \<Rightarrow> message \<Rightarrow> committed" where
  "event_commit en m = \<lparr>cm_sequence = en_sequence en, cm_event = en_event_id en, cm_time = dec (unat (se_timestamp en)),
     cm_run = en_run en, cm_message = ms_id m, cm_text = join_text (ms_content m), cm_thought = or_empty (thinking_text_of m)\<rparr>"

definition event_pieces :: "stored_envelope \<Rightarrow> piece list" where
  "event_pieces en =
     (case en_payload en of
        AeAssistantTextDelta i d \<Rightarrow> [event_fragment en i False d]
      | AeAssistantThinkingDelta i d \<Rightarrow> [event_fragment en i True d]
      | AeMessageCommitted m \<Rightarrow>
          (if ms_role m = RoleAssistant then [Committed False (event_commit en m), Committed True (event_commit en m)] else [])
      | _ \<Rightarrow> [])"

lemma server_tool_kind: "server_tool_face hc run e = Some (k, x) \<Longrightarrow> \<not> assistant_item k"
  by (cases e) (auto simp: server_tool_face_def assistant_item_def split: if_splits)

lemma face_kind:
  "event_face hc run p = Some (k, x) \<Longrightarrow> assistant_item k \<longleftrightarrow> message_of p \<noteq> None \<or> (\<exists>i. commits_message i p)"
  by (induction hc run p rule: event_face.induct)
    (auto simp: assistant_item_def dest!: server_tool_kind split: message_role.splits if_splits)

lemma no_pieces: "message_of (en_payload en) = None \<Longrightarrow> (\<And>i. \<not> commits_message i (en_payload en)) \<Longrightarrow> event_pieces en = []"
  by (cases "en_payload en") (auto simp: event_pieces_def)

lemma assistant_payload:
  assumes "message_of p \<noteq> None \<or> (\<exists>i. commits_message i p)"
  obtains i d where "p = AeAssistantTextDelta i d" | i d where "p = AeAssistantThinkingDelta i d"
    | m where "p = AeMessageCommitted m" "ms_role m = RoleAssistant"
  using assms by (cases p) auto

lemma projected_fields:
  assumes "project_event hc en = Some item" and "event_face hc (en_run en) (en_payload en) = Some (k, x, tool, status, detail)"
  shows "item = \<lparr>ti_sequence = en_sequence en, ti_event_id = en_event_id en, ti_kind = k, ti_run = Some (en_run en), ti_text = x,
    ti_message = fst (message_face (en_payload en)), ti_thinking = snd (message_face (en_payload en)), ti_tool_name = tool,
    ti_status = status, ti_detail = detail, ti_timestamp = dec (unat (se_timestamp en))\<rparr>"
  using assms by (simp add: project_event_def Let_def split: prod.splits)

lemma projected_pieces:
  assumes "project_event hc en = Some item"
  shows "pieces_of (FromPage item) = event_pieces en" and "of_others (FromPage item) \<longleftrightarrow> event_pieces en = []"
proof -
  obtain k x tool status detail where face: "event_face hc (en_run en) (en_payload en) = Some (k, x, tool, status, detail)"
    using assms by (auto simp: project_event_def split: option.splits)
  note item = projected_fields [OF assms face]
  have "pieces_of (FromPage item) = event_pieces en \<and> (of_others (FromPage item) \<longleftrightarrow> event_pieces en = [])"
  proof (cases "assistant_item k")
    case False
    then have "event_pieces en = []"
      using face_kind [OF face] by (intro no_pieces) auto
    then show ?thesis
      using False by (simp add: item of_others_def pieces_of_def assistant_item_def split: option.split)
  next
    case True
    then show ?thesis
    proof (cases rule: assistant_payload [OF iffD1 [OF face_kind [OF face] True], case_names delta thought commit])
      case (delta i d)
      then show ?thesis
        using face by (auto simp: item pieces_of_def event_pieces_def event_fragment_def of_others_def assistant_item_def or_empty_def)
    next
      case (thought i d)
      then show ?thesis
        using face by (auto simp: item pieces_of_def event_pieces_def event_fragment_def of_others_def assistant_item_def or_empty_def)
    next
      case (commit m)
      then show ?thesis
        using face by (auto simp: item pieces_of_def event_pieces_def event_commit_def of_others_def assistant_item_def or_empty_def Let_def)
    qed
  qed
  then show "pieces_of (FromPage item) = event_pieces en" and "of_others (FromPage item) \<longleftrightarrow> event_pieces en = []"
    by simp_all
qed

subsection \<open>Pages of a stored log are sound\<close>

definition drawn_from :: "host_codec \<Rightarrow> stored_envelope list \<Rightarrow> delivery list \<Rightarrow> bool" where
  "drawn_from hc es ds \<longleftrightarrow> set ds \<subseteq> FromPage ` set (items_of hc es)"

lemma drawn:
  assumes "drawn_from hc es ds" and "d \<in> set ds"
  obtains en item where "en \<in> set es" "project_event hc en = Some item" "d = FromPage item"
proof -
  obtain item where item: "item \<in> set (items_of hc es)" "d = FromPage item"
    using assms by (auto simp: drawn_from_def)
  then show ?thesis
    using that by (auto simp: items_of_def in_map_filter)
qed

lemma event_piece:
  assumes "p \<in> set (event_pieces en)"
  shows "piece_sequence p = en_sequence en" and "piece_event p = en_event_id en" and "sk_run (piece_key p) = en_run en"
  using assms by (cases "en_payload en"; auto simp: event_pieces_def event_fragment_def event_commit_def split: if_splits)+

lemma same_event_same_piece: "p \<in> set (event_pieces en) \<Longrightarrow> q \<in> set (event_pieces en) \<Longrightarrow> same_piece p q"
  by (cases "en_payload en") (auto simp: event_pieces_def same_piece_def split: if_splits)

lemma piece_fragment:
  "Fragment f \<in> set (event_pieces en) \<Longrightarrow> message_of (en_payload en) = Some (fg_message f) \<and> fg_run f = en_run en"
  by (cases "en_payload en") (auto simp: event_pieces_def event_fragment_def split: if_splits)

lemma piece_commit:
  assumes "Committed th c \<in> set (event_pieces en)"
  shows "commits_message (cm_message c) (en_payload en)" and "cm_run c = en_run en"
    and "Committed th' d \<in> set (event_pieces en) \<Longrightarrow> d = c"
  using assms by (cases "en_payload en"; auto simp: event_pieces_def event_commit_def event_fragment_def split: if_splits)+

lemma drawn_piece:
  assumes "drawn_from hc es ds" and "p \<in> set (pieces ds)"
  obtains en where "en \<in> set es" "p \<in> set (event_pieces en)"
proof -
  obtain d where d: "d \<in> set ds" "p \<in> set (pieces_of d)"
    using assms(2) by (auto simp: pieces_def)
  obtain en item where "en \<in> set es" "project_event hc en = Some item" "d = FromPage item"
    using drawn [OF assms(1) d(1)] .
  then show ?thesis
    using that d(2) projected_pieces(1) by metis
qed

lemma drawn_lawful:
  assumes "stored_log es" and "drawn_from hc es ds"
  shows "lawful_pieces (set (pieces ds))"
  unfolding lawful_pieces_def
proof (intro conjI ballI allI impI)
  fix p q
  assume "p \<in> set (pieces ds)" "q \<in> set (pieces ds)" and eq: "piece_sequence p = piece_sequence q \<or> piece_event p = piece_event q"
  then obtain en en' where en: "en \<in> set es" "p \<in> set (event_pieces en)" and en': "en' \<in> set es" "q \<in> set (event_pieces en')"
    using drawn_piece [OF assms(2)] by metis
  have "en = en'"
    using eq stored_logD(1,2) [OF assms(1) en(1) en'(1)] event_piece [OF en(2)] event_piece [OF en'(2)] by auto
  then show "same_piece p q"
    using en(2) en'(2) same_event_same_piece by simp
next
  fix p
  assume "p \<in> set (pieces ds)"
  then obtain en where "en \<in> set es" "p \<in> set (event_pieces en)"
    using drawn_piece [OF assms(2)] by metis
  then show "piece_event p \<noteq> []" "\<not> starts_with ''thinking:'' (piece_event p)" "CHR '':'' \<notin> set (sk_run (piece_key p))"
    using stored_logD(3-5) [OF assms(1), of en en] event_piece [of p en] by simp_all
next
  fix f th c
  assume "Fragment f \<in> set (pieces ds)" "Committed th c \<in> set (pieces ds)" and same: "fg_run f = cm_run c" "fg_message f = cm_message c"
  then obtain en en' where en: "en \<in> set es" "Fragment f \<in> set (event_pieces en)" and en': "en' \<in> set es" "Committed th c \<in> set (event_pieces en')"
    using drawn_piece [OF assms(2)] by metis
  then show "fg_sequence f < cm_sequence c"
    using stored_logD(6) [OF assms(1) en(1) en'(1), of "cm_message c"] piece_fragment [OF en(2)] piece_commit(1,2) [OF en'(2)]
      event_piece(1) [OF en(2)] event_piece(1) [OF en'(2)] same by simp
next
  fix th c th' c'
  assume "Committed th c \<in> set (pieces ds)" "Committed th' c' \<in> set (pieces ds)" and same: "cm_run c = cm_run c'" "cm_message c = cm_message c'"
  then obtain en en' where en: "en \<in> set es" "Committed th c \<in> set (event_pieces en)" and en': "en' \<in> set es" "Committed th' c' \<in> set (event_pieces en')"
    using drawn_piece [OF assms(2)] by metis
  then have "en = en'"
    using stored_logD(7) [OF assms(1) en(1) en'(1), of "cm_message c"] piece_commit(1,2) [OF en(2)] piece_commit(1,2) [OF en'(2)] same by simp
  then show "c = c'"
    using piece_commit(3) [OF en'(2)] en(2) by simp
qed

lemma drawn_sound:
  assumes "stored_log es" and "drawn_from hc es ds"
  shows "sound_log ds"
  unfolding sound_log_def
proof (intro conjI ballI impI)
  show "lawful_pieces (set (pieces ds))"
    using drawn_lawful [OF assms] .
  fix d
  assume d: "d \<in> set ds"
  obtain en item where en: "en \<in> set es" "project_event hc en = Some item" "d = FromPage item"
    using drawn [OF assms(2) d] .
  note pieces_en = projected_pieces [OF en(2)]
  have place: "delivery_event_id d = en_event_id en" "delivery_sequence d = en_sequence en"
    using en(2,3) by (auto simp: delivery_event_id_def delivery_sequence_def project_event_def Let_def split: option.splits prod.splits)
  show "\<not> of_others d \<Longrightarrow> pieces_of d \<noteq> []"
    using pieces_en en(3) by simp
  assume others: "of_others d \<and> \<not> silent d"
  have apart: "piece_event p \<noteq> en_event_id en \<and> piece_sequence p \<noteq> en_sequence en" if p: "p \<in> set (pieces ds)" for p
  proof -
    obtain en' where en': "en' \<in> set es" "p \<in> set (event_pieces en')"
      using drawn_piece [OF assms(2) p] .
    then have "en' \<noteq> en"
      using others pieces_en(2) en(3) by auto
    then show ?thesis
      using stored_logD(1,2) [OF assms(1) en'(1) en(1)] event_piece(1,2) [OF en'(2)] by auto
  qed
  then show "delivery_event_id d \<notin> assistant_ids (set (pieces ds))"
    using stored_logD(3,4) [OF assms(1) en(1) en(1)] place by (force simp: assistant_ids_def)
  show "delivery_sequence d \<notin> piece_sequence ` set (pieces ds)"
    using apart place by force
  fix d'
  assume d': "d' \<in> set ds" "of_others d' \<and> \<not> silent d' \<and> delivery_event_id d' = delivery_event_id d"
  obtain en' item' where en': "en' \<in> set es" "project_event hc en' = Some item'" "d' = FromPage item'"
    using drawn [OF assms(2) d'(1)] .
  then have "delivery_event_id d' = en_event_id en'" "delivery_sequence d' = en_sequence en'"
    by (auto simp: delivery_event_id_def delivery_sequence_def project_event_def Let_def split: option.splits prod.splits)
  then show "delivery_sequence d' = delivery_sequence d"
    using d'(2) place stored_logD(2) [OF assms(1) en'(1) en(1)] by simp
qed

subsection \<open>What the host stored is shown\<close>

lemma committed_shown:
  assumes "stored_log es" and "set ds = FromPage ` set (items_of hc es)" and "en \<in> set es"
    and "en_payload en = AeMessageCommitted m" and "ms_role m = RoleAssistant"
  shows "stream_entry (pieces ds) (Stream (en_run en) (ms_id m) False) =
    Some (assistant_entry (en_sequence en) (en_event_id en) False (join_text (ms_content m)) (dec (unat (se_timestamp en))) (Some (en_run en)))"
proof -
  let ?c = "event_commit en m" and ?k = "Stream (en_run en) (ms_id m) False"
  have drawn: "drawn_from hc es ds"
    using assms(2) by (simp add: drawn_from_def)
  have law: "lawful_pieces (set (pieces ds))"
    using drawn_lawful [OF assms(1) drawn] .
  have "project_event hc en \<noteq> None"
    using assms(4,5) by (simp add: project_event_def Let_def)
  then obtain item where item: "project_event hc en = Some item"
    by blast
  then have "item \<in> set (items_of hc es)"
    using assms(3) by (auto simp: items_of_def in_map_filter)
  then have "FromPage item \<in> set ds"
    using assms(2) by simp
  moreover have "Committed False ?c \<in> set (pieces_of (FromPage item))"
    using projected_pieces(1) [OF item] assms(4,5) by (simp add: event_pieces_def)
  ultimately have "Committed False ?c \<in> set (pieces ds)"
    by (auto simp: pieces_def)
  then have c: "?c \<in> set (commits (pieces ds) ?k)"
    using set_commits [of ?c "pieces ds" ?k] by (simp add: event_commit_def)
  then obtain d rest where d: "commits (pieces ds) ?k = d # rest"
    by (cases "commits (pieces ds) ?k") auto
  then have "d \<in> set (commits (pieces ds) ?k)"
    by simp
  then have "Committed False d \<in> set (pieces ds)" "cm_run d = cm_run ?c" "cm_message d = cm_message ?c"
    using set_commits [of d "pieces ds" ?k] by (simp_all add: event_commit_def)
  then have "d = ?c"
    using lawfulD(4) [OF law, of False d False ?c] \<open>Committed False ?c \<in> set (pieces ds)\<close> by blast
  then show ?thesis
    using d by (simp add: stream_entry_def event_commit_def shown_entry_def)
qed

text \<open>
  C17: From the host's log to the client's screen: if the client has received the items of every event of a stored
  session, in whatever order the pages came and however often, then each answer the host committed is on the
  timeline exactly once under its event id, as the committed text of the message at the sequence, the time and the
  run of the event, and nothing else has that id.
\<close>

theorem stored_answers_are_shown:
  assumes "stored_log es" and "set ds = FromPage ` set (items_of hc es)" and "en \<in> set es"
    and "en_payload en = AeMessageCommitted m" and "ms_role m = RoleAssistant"
  shows "filter (\<lambda>e. te_event_id e = en_event_id en) (tl_entries (deliver_all rd ru ds timeline_empty))
    = [\<lparr>te_sequence = en_sequence en, te_event_id = en_event_id en, te_kind = EkAssistantMessage (join_text (ms_content m)),
        te_fork = None, te_timestamp = dec (unat (se_timestamp en)), te_run = Some (en_run en)\<rparr>]"
proof -
  let ?t = "deliver_all rd ru ds timeline_empty" and ?P = "\<lambda>e. te_event_id e = en_event_id en"
  let ?k = "Stream (en_run en) (ms_id m) False"
  let ?e = "assistant_entry (en_sequence en) (en_event_id en) False (join_text (ms_content m)) (dec (unat (se_timestamp en))) (Some (en_run en))"
  have sound: "sound_log ds"
    using assms(2) by (intro drawn_sound [OF assms(1), of hc]) (simp add: drawn_from_def)
  have e: "stream_entry (pieces ds) ?k = Some ?e"
    using committed_shown [OF assms] .
  then have shown: "?e \<in> set (assistant_part ?t)"
    using log_shown(3) [OF sound] by blast
  have id: "en_event_id en \<in> assistant_ids (set (pieces ds))"
    using entry_source [OF e] by (auto simp: assistant_ids_def assistant_entry_def)
  have only: "x = ?e" if x: "x \<in> set (tl_entries ?t)" "?P x" for x
  proof -
    have "x \<in> set (assistant_part ?t)"
      using log_apart [OF sound x(1)] x id by (simp add: assistant_part_def)
    then obtain k where k: "stream_entry (pieces ds) k = Some x"
      using log_shown(3) [OF sound] by blast
    then have "k = ?k"
      using entry_stream [OF _ order_refl k e] x(2) sound by (simp add: assistant_entry_def sound_log_def)
    then show ?thesis
      using k e by simp
  qed
  have "filter ?P (tl_entries ?t) = filter ?P (assistant_part ?t)"
    unfolding assistant_part_def filter_filter using only shown by (intro filter_cong) (auto simp: assistant_part_def)
  moreover have "length (filter ?P (assistant_part ?t)) \<le> 1"
    using log_shown(2) [OF sound] only by (intro distinct_filter_one) (auto simp: assistant_part_def)
  moreover have "?e \<in> set (filter ?P (assistant_part ?t))"
    using shown by (simp add: assistant_entry_def)
  ultimately have "filter ?P (tl_entries ?t) = [?e]"
    by (cases "filter ?P (assistant_part ?t)") auto
  then show ?thesis
    by (simp add: assistant_entry_def text_kind_def)
qed

definition stored :: "u64 \<Rightarrow> string \<Rightarrow> agent_event \<Rightarrow> stored_envelope" where
  "stored s i p = \<lparr>en_schema = 1, en_event_id = i, en_session = ''s'', en_run = ''r'', en_sequence = s, en_parent = None,
     en_payload = p, se_timestamp = 7\<rparr>"

definition answer :: message where
  "answer = \<lparr>ms_id = ''m'', ms_role = RoleAssistant, ms_content = [PartThinking ''hmm'' None False, PartText ''hello'', PartText ''you''],
     ms_meta = meta_default\<rparr>"

definition answer_log :: "stored_envelope list" where
  "answer_log = [stored 1 ''e1'' (AeRunStarted ''u''), stored 2 ''e2'' (AeAssistantTextDelta ''m'' ''hel''),
     stored 3 ''e3'' (AeMessageCommitted answer)]"

definition plain_codec :: host_codec where
  "plain_codec = \<lparr>hc_compact = (\<lambda>_. []), hc_pretty = (\<lambda>_. []), hc_usage = (\<lambda>_. []), hc_server_tool = (\<lambda>_. SteOther [])\<rparr>"

theorem stored_answers_are_shown_witness:
  "filter (\<lambda>e. te_event_id e = ''e3'') (tl_entries (deliver_all (\<lambda>_. None) (\<lambda>_. None)
     (map FromPage (rev (items_of plain_codec answer_log))) timeline_empty))
    = [\<lparr>te_sequence = 3, te_event_id = ''e3'', te_kind = EkAssistantMessage (''hello'' @ [CHR 10] @ ''you''), te_fork = None,
        te_timestamp = ''7'', te_run = Some ''r''\<rparr>]"
proof -
  let ?en = "stored 3 ''e3'' (AeMessageCommitted answer)"
  have log: "stored_log answer_log"
    by (auto simp: stored_log_def answer_log_def stored_def answer_def starts_with_def)
  have joined: "join_text (ms_content answer) = ''hello'' @ [CHR 10] @ ''you''"
    by (simp add: answer_def join_text_def append_line_def)
  show ?thesis
    using stored_answers_are_shown [OF log, of "map FromPage (rev (items_of plain_codec answer_log))" plain_codec ?en answer "\<lambda>_. None" "\<lambda>_. None"]
    by (simp add: answer_log_def joined dec_seven) (simp add: stored_def answer_def dec_seven)
qed

subsection \<open>Tools keep their identity\<close>

lemma tool_context_round_trip:
  assumes "\<And>v. rd (hc_compact hc v) = Some v"
  shows "parse_tool_timeline_context rd (Some (tool_timeline_context hc call detail)) = (Some call, detail)"
  using assms by (cases detail) (auto simp: tool_timeline_context_def parse_tool_timeline_context_def get_str_def
      tool_context_id_key_def tool_context_detail_key_def)

end
