(* ===== verification/GitParse.thy ===== *)
theory GitParse
  imports Prelude
begin

text \<open>
  What the client reads of git's output: \<open>status.rs\<close>, \<open>diff/parser.rs\<close>, the listings of \<open>diff/service.rs\<close> and
  \<open>worktree.rs\<close> in \<open>crates/git/src\<close>. Git itself is not modelled here; its output is the argument.
\<close>

subsection \<open>Pieces of text\<close>

type_synonym u32 = "32 word"

definition u32_max :: nat where
  "u32_max = 4294967295"

text \<open>\<open>str::lines\<close>: a carriage return before the line feed goes as well.\<close>

definition nul :: char where
  "nul = CHR 0x00"

definition line_feed :: char where
  "line_feed = CHR 0x0A"

definition carriage :: char where
  "carriage = CHR 0x0D"

definition drop_cr :: "string \<Rightarrow> string" where
  "drop_cr s = (if s \<noteq> [] \<and> last s = carriage then butlast s else s)"

definition str_lines :: "string \<Rightarrow> string list" where
  "str_lines s =
     (let ps = split_on line_feed s in
      map drop_cr (butlast ps) @ (if last ps = [] then [] else [last ps]))"

text \<open>\<open>str::split_once\<close>.\<close>

definition split_once :: "char \<Rightarrow> string \<Rightarrow> (string \<times> string) option" where
  "split_once c s =
     (case dropWhile (\<lambda>x. x \<noteq> c) s of [] \<Rightarrow> None | _ # r \<Rightarrow> Some (takeWhile (\<lambda>x. x \<noteq> c) s, r))"

text \<open>\<open>str::parse::<u32>\<close>.\<close>

definition parse_u32 :: "string \<Rightarrow> u32 option" where
  "parse_u32 s =
     (let ds = (case s of c # r \<Rightarrow> if c = CHR ''+'' then r else s | [] \<Rightarrow> s)
      in if ds \<noteq> [] \<and> list_all (\<lambda>c. to_digit10 c \<noteq> None) ds \<and> undec ds \<le> u32_max then Some (of_nat (undec ds)) else None)"

lemma parse_u32_code [code]:
  "parse_u32 s =
     (let ds = (case s of c # r \<Rightarrow> if c = CHR ''+'' then r else s | [] \<Rightarrow> s)
      in if ds \<noteq> [] \<and> list_all (\<lambda>c. to_digit10 c \<noteq> None) ds \<and> int (undec ds) \<le> 4294967295 then Some (of_nat (undec ds)) else None)"
  by (simp add: parse_u32_def u32_max_def)

text \<open>The bytes before the first white space or \<open>stop\<close>, and \<open>str::split_whitespace\<close>.\<close>

fun word_of :: "(char \<Rightarrow> bool) \<Rightarrow> string \<Rightarrow> string" where
  "word_of stop [] = []"
| "word_of stop (a # s) =
     (if ws1 a \<or> stop a then []
      else case s of
        [] \<Rightarrow> [a]
      | b # s2 \<Rightarrow>
          (if ws2 a b then []
           else case s2 of
             [] \<Rightarrow> a # word_of stop s
           | c # _ \<Rightarrow> (if ws3 a b c then [] else a # word_of stop s)))"

lemma trim_start_length: "length (trim_start s) \<le> length s"
proof (induction "length s" arbitrary: s rule: less_induct)
  case less
  consider "s = []" | a where "s = [a]" | a b where "s = [a, b]" | a b c t where "s = a # b # c # t"
    by (cases s; cases "tl s"; cases "tl (tl s)") auto
  then show ?case
  proof cases
    case (4 a b c t)
    then show ?thesis
      using less.hyps [of "b # c # t"] less.hyps [of "c # t"] less.hyps [of t] by auto
  next
    case (3 a b)
    then show ?thesis
      using less.hyps [of "[b]"] less.hyps [of "[]"] by auto
  qed auto
qed

function split_whitespace :: "string \<Rightarrow> string list" where
  "split_whitespace s =
     (case word_of (\<lambda>_. False) (trim_start s) of
        [] \<Rightarrow> []
      | w \<Rightarrow> w # split_whitespace (drop (length w) (trim_start s)))"
  by auto
termination
proof (relation "measure length")
  fix s :: string and a w
  assume "word_of (\<lambda>_. False) (trim_start s) = a # w"
  moreover from this have "trim_start s \<noteq> []"
    by auto
  ultimately show "(drop (length (a # w)) (trim_start s), s) \<in> measure length"
    using trim_start_length [of s] by (cases "trim_start s") auto
qed simp

declare split_whitespace.simps [simp del]

subsection \<open>Status\<close>

datatype file_status =
    FsUnmodified | FsAdded | FsModified | FsDeleted | FsRenamed | FsCopied | FsUnmerged | FsTypeChanged | FsUntracked

record file_change =
  fc_path :: string
  fc_previous :: "string option"
  fc_index :: file_status
  fc_worktree :: file_status
  fc_untracked :: bool

definition status_from_code :: "char \<Rightarrow> file_status" where
  "status_from_code c =
     (if c = CHR '' '' then FsUnmodified
      else if c = CHR ''M'' then FsModified
      else if c = CHR ''A'' then FsAdded
      else if c = CHR ''D'' then FsDeleted
      else if c = CHR ''R'' then FsRenamed
      else if c = CHR ''C'' then FsCopied
      else if c = CHR ''U'' then FsUnmerged
      else if c = CHR ''T'' then FsTypeChanged
      else if c = CHR ''?'' then FsUntracked
      else FsUnmodified)"

definition status_change :: "string \<Rightarrow> string option \<Rightarrow> file_change" where
  "status_change e orig = \<lparr>fc_path = drop 3 e, fc_previous = orig, fc_index = status_from_code (e ! 0),
     fc_worktree = status_from_code (e ! 1), fc_untracked = (e ! 0 = CHR ''?'' \<and> e ! 1 = CHR ''?'')\<rparr>"

fun parse_entries :: "string list \<Rightarrow> file_change list" where
  "parse_entries [] = []"
| "parse_entries (e # rest) =
     (if length e < 3 \<or> e ! 2 \<noteq> CHR '' '' then []
      else if e ! 0 = CHR ''R'' \<or> e ! 0 = CHR ''C''
      then (case rest of
              orig # rest' \<Rightarrow> status_change e (Some orig) # parse_entries rest'
            | [] \<Rightarrow> [status_change e None])
      else status_change e None # parse_entries rest)"

definition parse_porcelain :: "string \<Rightarrow> file_change list" where
  "parse_porcelain out = parse_entries (split_on nul out)"

subsection \<open>Hunks\<close>

datatype line_kind = LkContext | LkAddition | LkDeletion

record diff_line =
  dl_kind :: line_kind
  dl_text :: string
  dl_old_no_newline :: bool
  dl_new_no_newline :: bool

record diff_hunk =
  dh_id :: u64
  dh_old_start :: u32
  dh_old_lines :: u32
  dh_new_start :: u32
  dh_new_lines :: u32
  dh_header :: string
  dh_lines :: "diff_line list"

record diff_file =
  df_path :: string
  df_previous :: "string option"
  df_status :: file_status
  df_staged :: bool
  df_binary :: bool
  df_additions :: u32
  df_deletions :: u32
  df_hunks :: "diff_hunk list"

definition is_digit :: "char \<Rightarrow> bool" where
  "is_digit c = (to_digit10 c \<noteq> None)"

definition parse_range :: "string \<Rightarrow> (u32 \<times> u32) option" where
  "parse_range s =
     (let s' = trim_start (dropWhile (\<lambda>c. c = CHR ''-'' \<or> c = CHR ''+'') s);
          token = word_of (\<lambda>c. c = CHR ''@'') s';
          (start, count) = (case split_once (CHR '','') token of Some p \<Rightarrow> p | None \<Rightarrow> (token, ''1''))
      in map_option (\<lambda>n. (n, case parse_u32 count of Some m \<Rightarrow> m | None \<Rightarrow> 1)) (parse_u32 start))"

text \<open>The scan for \<open>sign\<close> and a digit; \<open>prev\<close> says whether the byte before is a digit.\<close>

fun find_range :: "char \<Rightarrow> bool \<Rightarrow> string \<Rightarrow> (u32 \<times> u32) option" where
  "find_range sign prev [] = None"
| "find_range sign prev (b # s) =
     (if b = sign \<and> s \<noteq> [] \<and> is_digit (hd s) \<and> \<not> prev then parse_range s else find_range sign (is_digit b) s)"

definition parse_signed_range :: "string \<Rightarrow> char \<Rightarrow> (u32 \<times> u32) option" where
  "parse_signed_range raw sign = find_range sign False raw"

definition or_zero :: "(u32 \<times> u32) option \<Rightarrow> u32 \<times> u32" where
  "or_zero r = (case r of Some p \<Rightarrow> p | None \<Rightarrow> (0, 0))"

definition parse_hunk_header :: "string \<Rightarrow> u32 \<times> u32 \<times> u32 \<times> u32 \<times> string" where
  "parse_hunk_header raw =
     (let (os, ol) = or_zero (parse_signed_range raw (CHR ''-'')); (ns, nl) = or_zero (parse_signed_range raw (CHR ''+''))
      in (os, ol, ns, nl, raw))"

definition mark_line :: "diff_line \<Rightarrow> diff_line" where
  "mark_line l =
     (case dl_kind l of
        LkDeletion \<Rightarrow> l\<lparr>dl_old_no_newline := True\<rparr>
      | LkAddition \<Rightarrow> l\<lparr>dl_new_no_newline := True\<rparr>
      | LkContext \<Rightarrow> l\<lparr>dl_old_no_newline := True, dl_new_no_newline := True\<rparr>)"

definition apply_no_newline_marker :: "diff_hunk \<Rightarrow> diff_hunk" where
  "apply_no_newline_marker h =
     (if dh_lines h = [] then h else h\<lparr>dh_lines := butlast (dh_lines h) @ [mark_line (last (dh_lines h))]\<rparr>)"

definition no_newline_marker :: string where
  "no_newline_marker = CHR 92 # '' No newline at end of file''"

definition line_kind_of :: "char \<Rightarrow> line_kind option" where
  "line_kind_of c =
     (if c = CHR ''+'' then Some LkAddition else if c = CHR ''-'' then Some LkDeletion
      else if c = CHR '' '' then Some LkContext else None)"

definition content_line :: "string \<Rightarrow> diff_line option" where
  "content_line raw =
     (case raw of
        [] \<Rightarrow> None
      | c # s \<Rightarrow> map_option (\<lambda>k. \<lparr>dl_kind = k, dl_text = s, dl_old_no_newline = False, dl_new_no_newline = False\<rparr>) (line_kind_of c))"

text \<open>One line: the hunks finished so far, the next id and the hunk being read.\<close>

definition start_hunk :: "string \<Rightarrow> u64 \<Rightarrow> diff_hunk" where
  "start_hunk raw i =
     (let (os, ol, ns, nl, h) = parse_hunk_header raw in
      \<lparr>dh_id = i, dh_old_start = os, dh_old_lines = ol, dh_new_start = ns, dh_new_lines = nl, dh_header = h, dh_lines = []\<rparr>)"

definition parse_line :: "string \<Rightarrow> diff_hunk list \<times> u64 \<times> diff_hunk option \<Rightarrow> diff_hunk list \<times> u64 \<times> diff_hunk option" where
  "parse_line raw st =
     (case st of (hs, i, cur) \<Rightarrow>
        if starts_with ''@@'' raw
        then (hs @ (case cur of Some h \<Rightarrow> [h] | None \<Rightarrow> []), i + 1, Some (start_hunk raw i))
        else (case cur of
                None \<Rightarrow> st
              | Some h \<Rightarrow>
                  if starts_with no_newline_marker raw then (hs, i, Some (apply_no_newline_marker h))
                  else (case content_line raw of
                          Some l \<Rightarrow> (hs, i, Some (h\<lparr>dh_lines := dh_lines h @ [l]\<rparr>))
                        | None \<Rightarrow> st)))"

definition parse_unified_with_start :: "string \<Rightarrow> u64 \<Rightarrow> diff_hunk list \<times> u64" where
  "parse_unified_with_start patch start =
     (case fold parse_line (str_lines patch) ([], start, None) of
        (hs, i, cur) \<Rightarrow> (hs @ (case cur of Some h \<Rightarrow> [h] | None \<Rightarrow> []), i))"

definition parse_unified :: "string \<Rightarrow> diff_hunk list" where
  "parse_unified patch = fst (parse_unified_with_start patch 0)"

subsection \<open>File lists\<close>

definition raw_status :: "string \<Rightarrow> file_status" where
  "raw_status header =
     (let ws = split_whitespace header;
          c = (if ws = [] \<or> last ws = [] then CHR '' '' else hd (last ws))
      in if c = CHR ''A'' then FsAdded else if c = CHR ''D'' then FsDeleted else if c = CHR ''R'' then FsRenamed
         else if c = CHR ''C'' then FsCopied else if c = CHR ''T'' then FsTypeChanged else if c = CHR ''U'' then FsUnmerged
         else FsModified)"

definition is_gitlink :: "string \<Rightarrow> bool" where
  "is_gitlink header = list_ex (\<lambda>mode. dropWhile (\<lambda>c. c = CHR '':'') mode = ''160000'') (take 2 (split_whitespace header))"

definition raw_file :: "string \<Rightarrow> bool \<Rightarrow> string \<Rightarrow> string option \<Rightarrow> diff_file" where
  "raw_file header staged path previous = \<lparr>df_path = path, df_previous = previous, df_status = raw_status header, df_staged = staged,
     df_binary = is_gitlink header, df_additions = 0, df_deletions = 0, df_hunks = []\<rparr>"

function parse_raw_tokens :: "bool \<Rightarrow> string list \<Rightarrow> diff_file list" where
  "parse_raw_tokens staged [] = []"
| "parse_raw_tokens staged (header # rest) =
     (if header = [] then parse_raw_tokens staged rest
      else case rest of
        [] \<Rightarrow> []
      | path # rest2 \<Rightarrow>
          (if (raw_status header = FsRenamed \<or> raw_status header = FsCopied) \<and> rest2 \<noteq> [] \<and> hd rest2 \<noteq> []
           then raw_file header staged (hd rest2) (Some path) # parse_raw_tokens staged (tl rest2)
           else (if path = [] then [] else [raw_file header staged path None]) @ parse_raw_tokens staged rest2))"
  by pat_completeness auto
termination
  by (relation "measure (\<lambda>(_, ts). length ts)") auto

definition parse_raw :: "string \<Rightarrow> bool \<Rightarrow> diff_file list" where
  "parse_raw raw staged = parse_raw_tokens staged (split_on nul raw)"

text \<open>One record of \<open>--numstat -z\<close>: \<open>splitn(3, '\t')\<close>.\<close>

definition tab_fields :: "string \<Rightarrow> string \<times> string \<times> string" where
  "tab_fields raw =
     (case split_once (CHR 0x09) raw of
        None \<Rightarrow> (raw, ''0'', [])
      | Some (added, r) \<Rightarrow>
          (case split_once (CHR 0x09) r of None \<Rightarrow> (added, r, []) | Some (deleted, path) \<Rightarrow> (added, deleted, path)))"

definition numstat_of :: "string \<Rightarrow> string \<Rightarrow> u32 \<times> u32 \<times> bool" where
  "numstat_of added deleted =
     (case parse_u32 added of Some n \<Rightarrow> n | None \<Rightarrow> 0, case parse_u32 deleted of Some n \<Rightarrow> n | None \<Rightarrow> 0,
      added = ''-'' \<and> deleted = ''-'')"

function numstat_records :: "string list \<Rightarrow> (string \<times> u32 \<times> u32 \<times> bool) list" where
  "numstat_records [] = []"
| "numstat_records (raw # rest) =
     (if raw = [] then numstat_records rest
      else (let (added, deleted, inline) = tab_fields raw;
                (path, rest') = (if inline = [] then (case drop 1 rest of [] \<Rightarrow> [] | p # _ \<Rightarrow> p, drop 2 rest) else (inline, rest))
            in if path = [] then numstat_records rest' else (path, numstat_of added deleted) # numstat_records rest'))"
  by pat_completeness auto
termination
  by (relation "measure length") (auto split: if_splits)

definition merge_numstat :: "diff_file list \<Rightarrow> string \<Rightarrow> diff_file list" where
  "merge_numstat files numstat =
     (let stats = map_of (rev (numstat_records (split_on nul numstat))) in
      map (\<lambda>f. case stats (df_path f) of
             Some (a, d, bin) \<Rightarrow> f\<lparr>df_additions := a, df_deletions := d, df_binary := df_binary f \<or> bin\<rparr>
           | None \<Rightarrow> f) files)"

subsection \<open>Pages\<close>

record diff_page =
  dp_files :: "diff_file list"
  dp_total :: u64
  dp_page :: u64
  dp_page_size :: u64

text \<open>\<open>None\<close> is the overflow panic of a checked build; without checks the product and the sum wrap.\<close>

definition paginate :: "diff_file list \<Rightarrow> u64 \<Rightarrow> u64 \<Rightarrow> diff_page option" where
  "paginate files page per =
     (let total = length files in
      if per = 0 then Some \<lparr>dp_files = files, dp_total = of_nat total, dp_page = 1, dp_page_size = 0\<rparr>
      else (let p = max page 1; start = (unat p - 1) * unat per in
            if start > u64_max \<or> start + unat per > u64_max \<and> start < total then None
            else Some \<lparr>dp_files = take (unat per) (drop start files), dp_total = of_nat total, dp_page = p, dp_page_size = per\<rparr>))"

subsection \<open>Worktrees\<close>

record worktree =
  wt_path :: string
  wt_branch :: "string option"
  wt_bare :: bool

definition cut_prefix :: "string \<Rightarrow> string \<Rightarrow> string option" where
  "cut_prefix p s = (if starts_with p s then Some (drop (length p) s) else None)"

definition strip_branch_prefix :: "string \<Rightarrow> string" where
  "strip_branch_prefix s = (case cut_prefix ''refs/heads/'' s of Some r \<Rightarrow> r | None \<Rightarrow> s)"

definition worktree_token :: "string \<Rightarrow> worktree list \<times> worktree option \<Rightarrow> worktree list \<times> worktree option" where
  "worktree_token token st =
     (case st of (ws, cur) \<Rightarrow>
        (let done = ws @ (case cur of Some w \<Rightarrow> [w] | None \<Rightarrow> []) in
         if token = [] then (done, None)
         else (case cut_prefix ''worktree '' token of
                 Some r \<Rightarrow> (done, Some \<lparr>wt_path = r, wt_branch = None, wt_bare = False\<rparr>)
               | None \<Rightarrow>
                   if token = ''bare'' then (ws, map_option (\<lambda>w. w\<lparr>wt_bare := True\<rparr>) cur)
                   else (case cut_prefix ''branch '' token of
                           Some r \<Rightarrow> (ws, map_option (\<lambda>w. w\<lparr>wt_branch := Some (strip_branch_prefix r)\<rparr>) cur)
                         | None \<Rightarrow> st))))"

definition parse_worktree_list :: "string \<Rightarrow> worktree list" where
  "parse_worktree_list out =
     (case fold worktree_token (split_on nul out) ([], None) of
        (ws, cur) \<Rightarrow> ws @ (case cur of Some w \<Rightarrow> [w] | None \<Rightarrow> []))"

end
