(* ===== verification/GitService.thy ===== *)
theory GitService
  imports GitParse Utf8
begin

text \<open>
  The client's use of git: \<open>process.rs\<close>, \<open>repo.rs\<close>, \<open>status.rs\<close>, \<open>diff/service.rs\<close> and \<open>worktree.rs\<close> in
  \<open>crates/git/src\<close>, and the text of a session's diff, \<open>crates/app/src/diff.rs\<close>. Git and the file system are a
  record of functions on a state of their own.
\<close>

subsection \<open>Running git\<close>

datatype git_error =
    GitNotFound string
  | NotARepository string
  | GitFailed "int option" string
  | InvalidPositionArgument string string
  | GitTimeout
  | GitCancelled
  | GitIo string
  | GitOther string

text \<open>What a finished process left, its output decoded.\<close>

record process_output =
  po_stdout :: string
  po_stderr :: string
  po_timed_out :: bool
  po_killed :: bool
  po_exit :: "int option"

type_synonym ('w, 'a) git = "'w \<Rightarrow> (git_error, 'a) result \<times> 'w"

definition git_ret :: "'a \<Rightarrow> ('w, 'a) git" where
  "git_ret x = (\<lambda>w. (Inr x, w))"

definition git_fail :: "git_error \<Rightarrow> ('w, 'a) git" where
  "git_fail e = (\<lambda>w. (Inl e, w))"

definition git_then :: "('w, 'a) git \<Rightarrow> ('a \<Rightarrow> ('w, 'b) git) \<Rightarrow> ('w, 'b) git" where
  "git_then m f = (\<lambda>w. case m w of (Inl e, w') \<Rightarrow> (Inl e, w') | (Inr x, w') \<Rightarrow> f x w')"

definition git_lift :: "(git_error, 'a) result \<Rightarrow> ('w, 'a) git" where
  "git_lift r = (\<lambda>w. (r, w))"

text \<open>
  The process runtime with its errors turned into git's, the canonical path or the path itself, and whether a
  directory exists and is not empty.
\<close>

record 'w git_env =
  ge_spawn :: "string \<Rightarrow> string list \<Rightarrow> ('w, process_output) git"
  ge_canon :: "'w \<Rightarrow> string \<Rightarrow> string"
  ge_occupied :: "'w \<Rightarrow> string \<Rightarrow> bool"

definition finish_output :: "process_output \<Rightarrow> (git_error, string \<times> string) result" where
  "finish_output o' =
     (if po_timed_out o' then Inl GitTimeout
      else if po_killed o' \<and> po_exit o' = None then Inl GitCancelled
      else if po_exit o' = Some 0 then Inr (po_stdout o', trim (po_stderr o'))
      else Inl (GitFailed (po_exit o') (trim (po_stderr o'))))"

definition run_with_stderr :: "'w git_env \<Rightarrow> string \<Rightarrow> string list \<Rightarrow> ('w, string \<times> string) git" where
  "run_with_stderr g cwd args = git_then (ge_spawn g cwd args) (\<lambda>o'. git_lift (finish_output o'))"

definition run_git :: "'w git_env \<Rightarrow> string \<Rightarrow> string list \<Rightarrow> ('w, string) git" where
  "run_git g cwd args = git_then (run_with_stderr g cwd args) (\<lambda>(out, _). git_ret out)"

definition validate_position_arg :: "string \<Rightarrow> string \<Rightarrow> (git_error, unit) result" where
  "validate_position_arg name v = (if starts_with ''-'' v then Inl (InvalidPositionArgument name v) else Inr ())"

subsection \<open>Repositories\<close>

datatype git_head = HeadBranch string | HeadDetached string | HeadUnborn

definition is_git_failed :: "git_error \<Rightarrow> bool" where
  "is_git_failed e = (case e of GitFailed _ _ \<Rightarrow> True | _ \<Rightarrow> False)"

definition open_repository :: "'w git_env \<Rightarrow> string \<Rightarrow> ('w, string) git" where
  "open_repository g path = (\<lambda>w.
     case run_with_stderr g path [''rev-parse'', ''--show-toplevel''] w of
       (Inr (out, _), w') \<Rightarrow> (Inr (trim out), w')
     | (Inl e, w') \<Rightarrow> (Inl (if is_git_failed e then NotARepository path else e), w'))"

definition current_head :: "'w git_env \<Rightarrow> string \<Rightarrow> ('w, git_head) git" where
  "current_head g dir = (\<lambda>w.
     case run_with_stderr g dir [''symbolic-ref'', ''--short'', ''HEAD''] w of
       (r, w1) \<Rightarrow>
         (let named = (case r of
              Inr (out, _) \<Rightarrow> Inr (if trim out = [] then None else Some (trim out))
            | Inl e \<Rightarrow> (if is_git_failed e then Inr None else Inl e))
          in case named of
               Inl e \<Rightarrow> (Inl e, w1)
             | Inr branch \<Rightarrow>
                 (case run_git g dir [''rev-parse'', ''--verify'', ''HEAD''] w1 of
                    (Inr sha, w2) \<Rightarrow>
                      (Inr (if trim sha = [] then HeadUnborn
                            else (case branch of Some n \<Rightarrow> HeadBranch n | None \<Rightarrow> HeadDetached (trim sha))), w2)
                  | (Inl e, w2) \<Rightarrow> (if is_git_failed e then (Inr HeadUnborn, w2) else (Inl e, w2)))))"

definition git_status :: "'w git_env \<Rightarrow> string \<Rightarrow> ('w, file_change list) git" where
  "git_status g dir =
     git_then (run_git g dir [''status'', ''--porcelain=v1'', ''-z'', ''--untracked-files=all''])
       (\<lambda>out. git_ret (parse_porcelain out))"

subsection \<open>Diffs\<close>

record diff_options =
  do_staged :: bool
  do_context :: u32
  do_detect_renames :: bool
  do_commit_range :: "string option"

definition default_options :: diff_options where
  "default_options = \<lparr>do_staged = False, do_context = 3, do_detect_renames = True, do_commit_range = None\<rparr>"

definition base_args :: "diff_options \<Rightarrow> (git_error, string list) result" where
  "base_args opts =
     (let flags = (if do_staged opts then [''--cached''] else []) @ (if do_detect_renames opts then [''-M''] else []) in
      case do_commit_range opts of
        None \<Rightarrow> Inr (''diff'' # flags)
      | Some rng \<Rightarrow>
          (case validate_position_arg ''commit_range'' rng of
             Inl e \<Rightarrow> Inl e
           | Inr _ \<Rightarrow> Inr (''diff'' # rng # flags)))"

definition run_diff :: "'w git_env \<Rightarrow> string \<Rightarrow> diff_options \<Rightarrow> string list \<Rightarrow> ('w, string) git" where
  "run_diff g dir opts extra = git_then (git_lift (base_args opts)) (\<lambda>args. run_git g dir (args @ extra))"

definition patch_args :: "diff_options \<Rightarrow> string \<Rightarrow> string list" where
  "patch_args opts path = [''--no-color'', ''-U'' @ dec (unat (do_context opts)), ''--'', path]"

definition untracked_file :: "string \<Rightarrow> diff_file" where
  "untracked_file path = \<lparr>df_path = path, df_previous = None, df_status = FsUntracked, df_staged = False, df_binary = False,
     df_additions = 0, df_deletions = 0, df_hunks = []\<rparr>"

definition add_untracked :: "string \<Rightarrow> diff_file list \<Rightarrow> diff_file list" where
  "add_untracked path files = (if path = [] \<or> path \<in> df_path ` set files then files else files @ [untracked_file path])"

definition append_untracked :: "'w git_env \<Rightarrow> string \<Rightarrow> diff_file list \<Rightarrow> ('w, diff_file list) git" where
  "append_untracked g dir files =
     git_then (run_git g dir [''ls-files'', ''--others'', ''--exclude-standard'', ''-z''])
       (\<lambda>out. git_ret (fold add_untracked (split_on nul out) files))"

definition diff_summary :: "'w git_env \<Rightarrow> string \<Rightarrow> diff_options \<Rightarrow> ('w, diff_file list) git" where
  "diff_summary g dir opts =
     git_then (run_diff g dir opts [''--raw'', ''-z''])
       (\<lambda>raw. git_then (run_diff g dir opts [''--numstat'', ''-z''])
         (\<lambda>numstat. let files = merge_numstat (parse_raw raw (do_staged opts)) numstat in
            if do_staged opts then git_ret files else append_untracked g dir files))"

fun fill_hunks :: "'w git_env \<Rightarrow> string \<Rightarrow> diff_options \<Rightarrow> diff_file list \<Rightarrow> u64 \<Rightarrow> ('w, diff_file list) git" where
  "fill_hunks g dir opts [] i = git_ret []"
| "fill_hunks g dir opts (f # fs) i =
     (if df_binary f \<or> df_status f = FsUntracked
      then git_then (fill_hunks g dir opts fs i) (\<lambda>rest. git_ret (f # rest))
      else git_then (run_diff g dir opts (patch_args opts (df_path f)))
        (\<lambda>patch. case parse_unified_with_start patch i of
           (hunks, j) \<Rightarrow> git_then (fill_hunks g dir opts fs j) (\<lambda>rest. git_ret (f\<lparr>df_hunks := hunks\<rparr> # rest))))"

definition git_diff :: "'w git_env \<Rightarrow> string \<Rightarrow> diff_options \<Rightarrow> ('w, diff_file list) git" where
  "git_diff g dir opts = git_then (diff_summary g dir opts) (\<lambda>files. fill_hunks g dir opts files 0)"

subsection \<open>Worktrees\<close>

text \<open>Paths are equal when their components are: the root, a leading dot and the names between slashes.\<close>

definition path_parts :: "string \<Rightarrow> string list" where
  "path_parts p =
     (let ps = split_on (CHR ''/'') p in
      if starts_with ''/'' p then ''/'' # filter (\<lambda>c. c \<noteq> [] \<and> c \<noteq> ''.'') ps
      else (if hd ps = ''.'' then [''.''] else []) @ filter (\<lambda>c. c \<noteq> [] \<and> c \<noteq> ''.'') ps)"

definition same_path :: "string \<Rightarrow> string \<Rightarrow> bool" where
  "same_path p q \<longleftrightarrow> path_parts p = path_parts q"

definition list_args :: "string list" where
  "list_args = [''worktree'', ''list'', ''--porcelain'', ''-z'']"

definition worktree_list :: "'w git_env \<Rightarrow> string \<Rightarrow> ('w, worktree list) git" where
  "worktree_list g dir =
     git_then (run_git g dir list_args)
       (\<lambda>out w. (Inr (map (\<lambda>t. t\<lparr>wt_path := ge_canon g w (wt_path t)\<rparr>) (parse_worktree_list out)), w))"

definition not_utf8 :: git_error where
  "not_utf8 = GitOther ''worktree path is not valid UTF-8''"

definition checked_path :: "string \<Rightarrow> (git_error, unit) result" where
  "checked_path path = (if \<not> utf8_valid path then Inl not_utf8 else validate_position_arg ''worktree_path'' path)"

definition add_args :: "string \<Rightarrow> string \<Rightarrow> string option \<Rightarrow> string list" where
  "add_args path branch start =
     [''worktree'', ''add'', ''-b'', branch, path] @ (case start of Some s \<Rightarrow> [s] | None \<Rightarrow> [])"

definition check_start :: "string option \<Rightarrow> (git_error, unit) result" where
  "check_start start = (case start of Some s \<Rightarrow> validate_position_arg ''start_point'' s | None \<Rightarrow> Inr ())"

definition worktree_add ::
  "'w git_env \<Rightarrow> string \<Rightarrow> string \<Rightarrow> string \<Rightarrow> string option \<Rightarrow> ('w, worktree) git" where
  "worktree_add g dir path branch start =
     git_then (git_lift (validate_position_arg ''branch'' branch)) (\<lambda>_.
     git_then (git_lift (check_start start)) (\<lambda>_.
     git_then (git_lift (checked_path path)) (\<lambda>_ w.
       if ge_occupied g w path
       then (Inl (GitOther (''worktree target already exists and is non-empty: '' @ path)), w)
       else git_then (run_git g dir (add_args path branch start)) (\<lambda>_ w1.
              git_then (worktree_list g dir)
                (\<lambda>ws. case find (\<lambda>t. same_path (wt_path t) (ge_canon g w1 path)) ws of
                   Some t \<Rightarrow> git_ret t
                 | None \<Rightarrow> git_fail (GitOther ''worktree was added but not found in listing'')) w1) w)))"

definition remove_args :: "bool \<Rightarrow> string \<Rightarrow> string list" where
  "remove_args force path = [''worktree'', ''remove''] @ (if force then [''--force''] else []) @ [path]"

definition worktree_remove :: "'w git_env \<Rightarrow> string \<Rightarrow> string \<Rightarrow> bool \<Rightarrow> ('w, unit) git" where
  "worktree_remove g dir path force =
     git_then (git_lift (checked_path path)) (\<lambda>_ w.
       git_then (worktree_list g dir)
         (\<lambda>ws. if list_ex (\<lambda>t. same_path (wt_path t) (ge_canon g w path)) ws
               then git_then (run_git g dir (remove_args force path)) (\<lambda>_. git_ret ())
               else git_fail (GitOther (''path is not a managed worktree: '' @ path))) w)"

definition worktree_prune :: "'w git_env \<Rightarrow> string \<Rightarrow> ('w, unit) git" where
  "worktree_prune g dir = git_then (run_git g dir [''worktree'', ''prune'']) (\<lambda>_. git_ret ())"

subsection \<open>The text of a diff\<close>

definition line_prefix :: "line_kind \<Rightarrow> char" where
  "line_prefix k = (case k of LkContext \<Rightarrow> CHR '' '' | LkAddition \<Rightarrow> CHR ''+'' | LkDeletion \<Rightarrow> CHR ''-'')"

definition ends_line :: "string \<Rightarrow> bool" where
  "ends_line s \<longleftrightarrow> s \<noteq> [] \<and> last s = line_feed"

definition render_hunk :: "diff_hunk \<Rightarrow> string" where
  "render_hunk h = dh_header h @ (if ends_line (dh_header h) then [] else [line_feed])
     @ concat (map (\<lambda>l. line_prefix (dl_kind l) # dl_text l @ [line_feed]) (dh_lines h))"

definition render_diff_file :: "diff_file \<Rightarrow> string" where
  "render_diff_file f =
     (let old = (case df_previous f of Some p \<Rightarrow> p | None \<Rightarrow> df_path f);
          head = ''--- '' @ old @ [line_feed] @ ''+++ '' @ df_path f @ [line_feed]
      in if df_binary f then head @ ''Binary files differ'' @ [line_feed] else head @ concat (map render_hunk (df_hunks f)))"

fun render_session_diff :: "diff_file list \<Rightarrow> string" where
  "render_session_diff [] = []"
| "render_session_diff [f] = render_diff_file f"
| "render_session_diff (f # fs) = render_diff_file f @ [line_feed] @ render_session_diff fs"

text \<open>Without git: the old text replaced by the new one.\<close>

definition replaced_status :: "string \<Rightarrow> string \<Rightarrow> file_status" where
  "replaced_status old new =
     (if old = [] \<and> new \<noteq> [] then FsAdded else if old \<noteq> [] \<and> new = [] then FsDeleted else FsModified)"

definition trim_end_cr :: "string \<Rightarrow> string" where
  "trim_end_cr s = rev (dropWhile (\<lambda>c. c = carriage) (rev s))"

definition split_lines :: "string \<Rightarrow> string list" where
  "split_lines s = (if s = [] then [] else map trim_end_cr (split_on line_feed s))"

definition plain_line :: "line_kind \<Rightarrow> string \<Rightarrow> diff_line" where
  "plain_line k s = \<lparr>dl_kind = k, dl_text = s, dl_old_no_newline = False, dl_new_no_newline = False\<rparr>"

definition replacement_header :: "u32 \<Rightarrow> u32 \<Rightarrow> string" where
  "replacement_header old new =
     (let at = (\<lambda>n :: u32. (if n = 0 then ''0'' else ''1'') @ '','' @ dec (unat n))
      in ''@@ -'' @ at old @ '' +'' @ at new @ '' @@'')"

definition line_replacement_diff :: "string \<Rightarrow> string \<Rightarrow> string \<Rightarrow> diff_file" where
  "line_replacement_diff path old new =
     (let olds = split_lines old; news = split_lines new; n = of_nat (length olds); m = of_nat (length news)
      in \<lparr>df_path = path, df_previous = None, df_status = replaced_status old new, df_staged = False, df_binary = False,
          df_additions = m, df_deletions = n,
          df_hunks = [\<lparr>dh_id = 1, dh_old_start = (if n = 0 then 0 else 1), dh_old_lines = n,
            dh_new_start = (if m = 0 then 0 else 1), dh_new_lines = m, dh_header = replacement_header n m,
            dh_lines = map (plain_line LkDeletion) olds @ map (plain_line LkAddition) news\<rparr>]\<rparr>)"

text \<open>\<open>lossy\<close> is \<open>String::from_utf8_lossy\<close>.\<close>

definition bytes_to_diff_file :: "(string \<Rightarrow> string) \<Rightarrow> string \<Rightarrow> string \<Rightarrow> string \<Rightarrow> diff_file" where
  "bytes_to_diff_file lossy path old new =
     (if nul \<in> set old \<or> nul \<in> set new
      then \<lparr>df_path = path, df_previous = None, df_status = replaced_status old new, df_staged = False, df_binary = True,
             df_additions = 0, df_deletions = 0, df_hunks = []\<rparr>
      else line_replacement_diff path (lossy old) (lossy new))"

end
