(* ===== verification/GitProps.thy ===== *)
theory GitProps
  imports GitService
begin

text \<open>Git's output is read back, hunks survive printing, and removals are guarded.\<close>

subsection \<open>Splitting\<close>

lemma str_lines_piece: "line_feed \<notin> set l \<Longrightarrow> str_lines (l @ line_feed # s) = drop_cr l # str_lines s"
  by (simp add: str_lines_def split_on_piece Let_def)

lemma str_lines_Nil [simp]: "str_lines [] = []"
  by (simp add: str_lines_def)

subsection \<open>Numbers\<close>

definition dull :: "char \<Rightarrow> bool" where
  "dull c \<longleftrightarrow> (of_char c :: nat) < 128 \<and> \<not> ws1 c \<and> c \<noteq> CHR ''@''"

lemma dull_ws [simp]: "dull a \<Longrightarrow> \<not> ws1 a" "dull a \<Longrightarrow> \<not> ws2 a b" "dull a \<Longrightarrow> \<not> ws3 a b c" "dull a \<Longrightarrow> a \<noteq> CHR ''@''"
  by (auto simp: dull_def ws2_def ws3_def Let_def)

lemma dull_digit:
  assumes "to_digit10 c \<noteq> None"
  shows "dull c" and "c \<noteq> CHR '',''" and "c \<noteq> CHR ''+''" and "c \<noteq> CHR ''-''" and "is_digit c"
  using assms by (auto simp: to_digit10_def dull_def ws1_def Let_def is_digit_def split: if_splits)

lemma dec_chars: "c \<in> set (dec n) \<Longrightarrow> dull c \<and> c \<noteq> CHR '','' \<and> c \<noteq> CHR ''+'' \<and> c \<noteq> CHR ''-'' \<and> is_digit c"
  using dull_digit [OF dec_digits] by blast

lemma dec_hd: "dull (hd (dec n)) \<and> hd (dec n) \<noteq> CHR '','' \<and> hd (dec n) \<noteq> CHR ''+'' \<and> hd (dec n) \<noteq> CHR ''-'' \<and> is_digit (hd (dec n))"
  using dec_chars [of "hd (dec n)" n] by simp

lemma word_of_dull:
  assumes "\<forall>c \<in> set w. dull c" and "ws1 x"
  shows "word_of (\<lambda>c. c = CHR ''@'') (w @ x # s) = w"
  using assms
proof (induction w)
  case (Cons a w)
  then show ?case by (cases "w @ x # s"; cases "tl (w @ x # s)") auto
qed simp

lemma trim_start_dull: "dull a \<Longrightarrow> trim_start (a # s) = a # s"
  by (auto split: list.split)

lemma parse_u32_dec: "parse_u32 (dec (unat (n :: u32))) = Some n"
proof -
  have "unat n < 2 ^ LENGTH(32)"
    by (rule unsigned_less)
  then have "unat n \<le> u32_max"
    by (simp add: u32_max_def)
  moreover have "(case dec (unat n) of c # r \<Rightarrow> if c = CHR ''+'' then r else dec (unat n) | [] \<Rightarrow> dec (unat n)) = dec (unat n)"
    using dec_hd [of "unat n"] by (cases "dec (unat n)") auto
  ultimately show ?thesis
    using dec_digits by (auto simp: parse_u32_def list_all_iff)
qed

text \<open>A range as git writes it: a count of 1 may be left out.\<close>

definition range_text :: "bool \<Rightarrow> u32 \<Rightarrow> u32 \<Rightarrow> string" where
  "range_text short a b = dec (unat a) @ (if short \<and> b = 1 then [] else '','' @ dec (unat b))"

lemma range_text_dull: "c \<in> set (range_text o1 a b) \<Longrightarrow> dull c \<and> c \<noteq> CHR ''+'' \<and> c \<noteq> CHR ''-''"
  using dec_chars [of c "unat a"] dec_chars [of c "unat b"] by (auto simp: range_text_def dull_def ws1_def split: if_splits)

lemma split_range:
  "split_once (CHR '','') (range_text o1 a b) = (if o1 \<and> b = 1 then None else Some (dec (unat a), dec (unat b)))"
proof -
  have d: "\<forall>c \<in> set (dec (unat a)). c \<noteq> CHR '',''"
    using dec_chars by blast
  then have "dropWhile (\<lambda>x. x \<noteq> CHR '','') (dec (unat a)) = []"
    by simp
  then show ?thesis
    using d by (simp add: split_once_def range_text_def dropWhile_append takeWhile_append)
qed

lemma parse_range_text:
  assumes "ws1 x"
  shows "parse_range (range_text o1 a b @ x # s) = Some (a, b)"
proof -
  obtain d ds where d: "range_text o1 a b = d # ds" "dull d" "d \<noteq> CHR ''+''" "d \<noteq> CHR ''-''"
    using dec_hd [of "unat a"] by (cases "dec (unat a)") (auto simp: range_text_def)
  then have "trim_start (dropWhile (\<lambda>c. c = CHR ''-'' \<or> c = CHR ''+'') (range_text o1 a b @ x # s)) = range_text o1 a b @ x # s"
    using trim_start_dull [OF d(2)] by simp
  moreover have "word_of (\<lambda>c. c = CHR ''@'') (range_text o1 a b @ x # s) = range_text o1 a b"
    using range_text_dull assms by (intro word_of_dull) blast+
  moreover have "parse_u32 ''1'' = Some 1"
    using parse_u32_dec [of 1] by (simp add: dec_eval)
  moreover have "range_text o1 a b = dec (unat a)" if "o1 \<and> b = 1"
    using that by (simp add: range_text_def)
  ultimately show ?thesis
    by (auto simp: parse_range_def split_range parse_u32_dec)
qed

lemma find_range_skip:
  "sign \<notin> set xs \<Longrightarrow> find_range sign prev (xs @ rest) = find_range sign (if xs = [] then prev else is_digit (last xs)) rest"
  by (induction xs arbitrary: prev) auto

lemma find_range_hit:
  assumes "ws1 x"
  shows "find_range sign False (sign # range_text o1 a b @ x # s) = Some (a, b)"
  using parse_range_text [OF assms, of o1 a b s] dec_hd [of "unat a"] by (simp add: range_text_def)

lemma find_range_after:
  assumes "sign \<notin> set xs" and "xs \<noteq> []" and "\<not> is_digit (last xs)" and "ws1 x"
  shows "find_range sign False (xs @ sign # range_text o1 a b @ x # s) = Some (a, b)"
  using assms by (simp add: find_range_skip find_range_hit del: find_range.simps)

definition hunk_header :: "bool \<Rightarrow> bool \<Rightarrow> u32 \<Rightarrow> u32 \<Rightarrow> u32 \<Rightarrow> u32 \<Rightarrow> string \<Rightarrow> string" where
  "hunk_header o1 n1 os ol ns nl heading =
     ''@@ -'' @ range_text o1 os ol @ '' +'' @ range_text n1 ns nl @ '' @@'' @ heading"

lemma not_digits: "\<not> is_digit (CHR '' '')" "\<not> is_digit (CHR ''@'')"
  by (simp_all add: is_digit_def to_digit10_def)

lemma header_parsed: "parse_hunk_header (hunk_header o1 n1 os ol ns nl heading) = (os, ol, ns, nl, hunk_header o1 n1 os ol ns nl heading)"
proof -
  let ?rest = "CHR '' '' # ''@@'' @ heading"
  have blank: "ws1 (CHR '' '')"
    by (simp add: ws1_def)
  have old: "hunk_header o1 n1 os ol ns nl heading = ''@@ '' @ CHR ''-'' # range_text o1 os ol @ CHR '' '' # (CHR ''+'' # range_text n1 ns nl @ ?rest)"
    and new: "hunk_header o1 n1 os ol ns nl heading = (''@@ -'' @ range_text o1 os ol @ '' '') @ CHR ''+'' # range_text n1 ns nl @ ?rest"
    by (simp_all add: hunk_header_def)
  have "parse_signed_range (hunk_header o1 n1 os ol ns nl heading) (CHR ''-'') = Some (os, ol)"
    unfolding parse_signed_range_def old by (rule find_range_after) (simp_all add: not_digits blank)
  moreover have "CHR ''+'' \<notin> set (range_text o1 os ol)"
    using range_text_dull by blast
  then have "parse_signed_range (hunk_header o1 n1 os ol ns nl heading) (CHR ''+'') = Some (ns, nl)"
    unfolding parse_signed_range_def new by (intro find_range_after) (simp_all add: not_digits blank)
  ultimately show ?thesis
    by (simp add: parse_hunk_header_def or_zero_def)
qed

subsection \<open>Hunks survive printing\<close>

text \<open>
  A hunk as it comes back: with a new id, without the marks for a missing final newline, which are not printed,
  and without the carriage return before a line break, which \<open>str::lines\<close> takes for a part of it.
\<close>

definition reread_line :: "diff_line \<Rightarrow> diff_line" where
  "reread_line l = plain_line (dl_kind l) (drop_cr (dl_text l))"

definition reread_hunk :: "u64 \<Rightarrow> diff_hunk \<Rightarrow> diff_hunk" where
  "reread_hunk i h = h\<lparr>dh_id := i, dh_header := drop_cr (dh_header h), dh_lines := map reread_line (dh_lines h)\<rparr>"

fun reread_hunks :: "u64 \<Rightarrow> diff_hunk list \<Rightarrow> diff_hunk list" where
  "reread_hunks i [] = []"
| "reread_hunks i (h # hs) = reread_hunk i h # reread_hunks (i + 1) hs"

definition git_header :: "diff_hunk \<Rightarrow> string \<Rightarrow> bool" where
  "git_header h s \<longleftrightarrow>
     (\<exists>o1 n1 heading. s = hunk_header o1 n1 (dh_old_start h) (dh_old_lines h) (dh_new_start h) (dh_new_lines h) heading)"

definition printable_hunk :: "diff_hunk \<Rightarrow> bool" where
  "printable_hunk h \<longleftrightarrow>
     git_header h (dh_header h) \<and> line_feed \<notin> set (dh_header h) \<and> (\<forall>l \<in> set (dh_lines h). line_feed \<notin> set (dl_text l))"

lemma drop_cr_append: "t \<noteq> [] \<Longrightarrow> drop_cr (s @ t) = s @ drop_cr t"
  by (simp add: drop_cr_def butlast_append)

lemma drop_cr_header: "git_header h s \<Longrightarrow> git_header h (drop_cr s)"
proof -
  assume "git_header h s"
  then obtain o1 n1 heading where s: "s = hunk_header o1 n1 (dh_old_start h) (dh_old_lines h) (dh_new_start h) (dh_new_lines h) heading"
    by (auto simp: git_header_def)
  have "drop_cr ('' @@'' @ heading) = '' @@'' @ drop_cr heading"
    by (cases heading) (simp_all add: drop_cr_def carriage_def)
  then have "drop_cr s = hunk_header o1 n1 (dh_old_start h) (dh_old_lines h) (dh_new_start h) (dh_new_lines h) (drop_cr heading)"
    by (simp add: s hunk_header_def drop_cr_append del: append_Cons)
  then show "git_header h (drop_cr s)"
    by (auto simp: git_header_def)
qed

definition printed_line :: "diff_line \<Rightarrow> string" where
  "printed_line l = line_prefix (dl_kind l) # dl_text l"

lemma printed_line_dropped: "drop_cr (printed_line l) = line_prefix (dl_kind l) # drop_cr (dl_text l)"
  by (cases "dl_kind l"; cases "dl_text l") (simp_all add: printed_line_def line_prefix_def drop_cr_def carriage_def)

lemma printed_line_parsed:
  "parse_line (drop_cr (printed_line l)) (hs, i, Some h) = (hs, i, Some (h\<lparr>dh_lines := dh_lines h @ [reread_line l]\<rparr>))"
  unfolding printed_line_dropped
  by (cases "dl_kind l") (simp_all add: line_prefix_def parse_line_def starts_with_def no_newline_marker_def
      content_line_def line_kind_of_def reread_line_def plain_line_def)

lemma printed_lines_parsed:
  "fold parse_line (map (\<lambda>l. drop_cr (printed_line l)) ls) (hs, i, Some h) = (hs, i, Some (h\<lparr>dh_lines := dh_lines h @ map reread_line ls\<rparr>))"
  by (induction ls arbitrary: h) (simp_all add: printed_line_parsed)

lemma header_starts: "starts_with ''@@'' (hunk_header o1 n1 os ol ns nl heading)"
  by (simp add: starts_with_def hunk_header_def)

definition flushed :: "diff_hunk list \<Rightarrow> diff_hunk option \<Rightarrow> diff_hunk list" where
  "flushed hs cur = hs @ (case cur of Some h \<Rightarrow> [h] | None \<Rightarrow> [])"

definition hunk_lines :: "diff_hunk \<Rightarrow> string list" where
  "hunk_lines h = dh_header h # map printed_line (dh_lines h)"

lemma printed_hunk_parsed:
  assumes "printable_hunk h"
  shows "fold parse_line (map drop_cr (hunk_lines h)) (hs, i, cur) = (flushed hs cur, i + 1, Some (reread_hunk i h))"
proof -
  have "git_header h (drop_cr (dh_header h))"
    using assms by (simp add: printable_hunk_def drop_cr_header)
  then obtain o1 n1 heading where
    header: "drop_cr (dh_header h) = hunk_header o1 n1 (dh_old_start h) (dh_old_lines h) (dh_new_start h) (dh_new_lines h) heading"
    by (auto simp: git_header_def)
  have "parse_line (drop_cr (dh_header h)) (hs, i, cur) = (flushed hs cur, i + 1, Some (reread_hunk i h\<lparr>dh_lines := []\<rparr>))"
    by (simp add: header parse_line_def header_starts start_hunk_def header_parsed flushed_def reread_hunk_def)
  then show ?thesis
    using printed_lines_parsed [of "dh_lines h"] by (simp add: hunk_lines_def reread_hunk_def comp_def)
qed

lemma printed_hunks_parsed:
  assumes "\<forall>h \<in> set hunks. printable_hunk h"
  shows "\<exists>hs' cur'. fold parse_line (map drop_cr (concat (map hunk_lines hunks))) (hs, i, cur) = (hs', i + of_nat (length hunks), cur')
    \<and> flushed hs' cur' = flushed hs cur @ reread_hunks i hunks"
  using assms
proof (induction hunks arbitrary: hs i cur)
  case Nil
  then show ?case by simp
next
  case (Cons h hunks)
  have step: "fold parse_line (map drop_cr (hunk_lines h)) (hs, i, cur) = (flushed hs cur, i + 1, Some (reread_hunk i h))"
    using printed_hunk_parsed Cons.prems by simp
  obtain hs' cur' where "fold parse_line (map drop_cr (concat (map hunk_lines hunks))) (flushed hs cur, i + 1, Some (reread_hunk i h))
      = (hs', i + 1 + of_nat (length hunks), cur')"
    and "flushed hs' cur' = flushed (flushed hs cur) (Some (reread_hunk i h)) @ reread_hunks (i + 1) hunks"
    using Cons.IH [of "flushed hs cur" "i + 1" "Some (reread_hunk i h)"] Cons.prems by auto
  then show ?case
    using step by (intro exI [where x = hs'] exI [where x = cur']) (simp add: flushed_def add.assoc)
qed

lemma str_lines_concat:
  "\<forall>l \<in> set ls. line_feed \<notin> set l \<Longrightarrow> str_lines (concat (map (\<lambda>l. l @ [line_feed]) ls)) = map drop_cr ls"
  by (induction ls) (simp_all add: str_lines_piece)

lemma render_hunk_lines:
  assumes "printable_hunk h"
  shows "render_hunk h = concat (map (\<lambda>l. l @ [line_feed]) (hunk_lines h))" and "\<forall>l \<in> set (hunk_lines h). line_feed \<notin> set l"
proof -
  have "line_feed \<notin> set (dh_header h)"
    using assms by (simp add: printable_hunk_def)
  then have "\<not> ends_line (dh_header h)"
    by (metis ends_line_def last_in_set)
  then show "render_hunk h = concat (map (\<lambda>l. l @ [line_feed]) (hunk_lines h))"
    by (simp add: render_hunk_def hunk_lines_def printed_line_def comp_def)
  have "line_prefix k \<noteq> line_feed \<and> line_feed \<noteq> line_prefix k" for k
    by (cases k) (simp_all add: line_prefix_def line_feed_def)
  then show "\<forall>l \<in> set (hunk_lines h). line_feed \<notin> set l"
    using assms by (auto simp: printable_hunk_def hunk_lines_def printed_line_def)
qed

definition file_lines :: "diff_file \<Rightarrow> string list" where
  "file_lines f =
     (''--- '' @ (case df_previous f of Some p \<Rightarrow> p | None \<Rightarrow> df_path f)) # (''+++ '' @ df_path f)
       # (if df_binary f then [''Binary files differ''] else concat (map hunk_lines (df_hunks f)))"

lemma render_file_lines:
  assumes "\<forall>h \<in> set (df_hunks f). printable_hunk h"
  shows "render_diff_file f = concat (map (\<lambda>l. l @ [line_feed]) (file_lines f))"
proof -
  have "concat (map render_hunk hs) = concat (map (\<lambda>l. l @ [line_feed]) (concat (map hunk_lines hs)))"
    if "\<forall>h \<in> set hs. printable_hunk h" for hs
    using that by (induction hs) (simp_all add: render_hunk_lines(1))
  then show ?thesis
    using assms by (simp add: render_diff_file_def file_lines_def Let_def)
qed

lemma dropped_file_head:
  "parse_line (drop_cr (''--- '' @ s)) ([], i, None) = ([], i, None)" "parse_line (drop_cr (''+++ '' @ s)) ([], i, None) = ([], i, None)"
proof -
  have "drop_cr (CHR '' '' # s) \<noteq> []"
    by (cases s) (simp_all add: drop_cr_def carriage_def)
  then have "\<not> starts_with ''@@'' (drop_cr (''--- '' @ s))" "\<not> starts_with ''@@'' (drop_cr (''+++ '' @ s))"
    using drop_cr_append [of "CHR '' '' # s" "''---''"] drop_cr_append [of "CHR '' '' # s" "''+++''"] by (simp_all add: starts_with_def)
  then show "parse_line (drop_cr (''--- '' @ s)) ([], i, None) = ([], i, None)" "parse_line (drop_cr (''+++ '' @ s)) ([], i, None) = ([], i, None)"
    by (simp_all add: parse_line_def)
qed

text \<open>
  C25: A printed diff reads back as it was: parsing the text the client prints for a file gives its hunks, with the
  line counts of their headers and every line with its kind and its text, numbered from the given id; a binary file gives
  none. Headers are git's, in which a count of 1 may be left out, and no path, header or line holds a line
  break. What is not printed is lost: the marks for a missing final newline, and a carriage return at the end of a
  line or header, which the reader takes for a part of the line break. Lines that look like headers (\<open>--- x\<close>, \<open>@@ x\<close>)
  inside a hunk are no exception.
\<close>

theorem printed_diffs_are_read_back:
  assumes "line_feed \<notin> set (df_path f)" and "\<forall>p. df_previous f = Some p \<longrightarrow> line_feed \<notin> set p"
    and "\<forall>h \<in> set (df_hunks f). printable_hunk h"
  shows "parse_unified_with_start (render_diff_file f) i =
    (if df_binary f then ([], i) else (reread_hunks i (df_hunks f), i + of_nat (length (df_hunks f))))"
proof -
  have "\<forall>l \<in> set (file_lines f). line_feed \<notin> set l"
    using assms render_hunk_lines(2) by (auto simp: file_lines_def line_feed_def split: option.split)
  then have lines: "str_lines (render_diff_file f) = map drop_cr (file_lines f)"
    using render_file_lines [OF assms(3)] str_lines_concat by simp
  have "parse_line (drop_cr ''Binary files differ'') ([], i, None) = ([], i, None)"
    by (simp add: drop_cr_def carriage_def parse_line_def starts_with_def)
  then have "fold parse_line (map drop_cr (file_lines f)) ([], i, None)
      = (if df_binary f then ([], i, None) else fold parse_line (map drop_cr (concat (map hunk_lines (df_hunks f)))) ([], i, None))"
    by (simp add: file_lines_def dropped_file_head del: append_Cons)
  moreover obtain hs cur where "fold parse_line (map drop_cr (concat (map hunk_lines (df_hunks f)))) ([], i, None)
      = (hs, i + of_nat (length (df_hunks f)), cur)"
    and "flushed hs cur = reread_hunks i (df_hunks f)"
    using printed_hunks_parsed [OF assms(3), of "[]" i None] by (auto simp: flushed_def)
  ultimately show ?thesis
    by (simp add: parse_unified_with_start_def lines flushed_def)
qed

definition sample_diff :: diff_file where
  "sample_diff = \<lparr>df_path = ''b'', df_previous = Some ''a'', df_status = FsRenamed, df_staged = False, df_binary = False,
     df_additions = 1, df_deletions = 1, df_hunks = [\<lparr>dh_id = 9, dh_old_start = 1, dh_old_lines = 2, dh_new_start = 1, dh_new_lines = 1,
       dh_header = hunk_header False True 1 2 1 1 '' fn -5'', dh_lines = [plain_line LkContext [carriage], plain_line LkDeletion ''-- x'',
         (plain_line LkAddition ''@@ -7'')\<lparr>dl_new_no_newline := True\<rparr>]\<rparr>]\<rparr>"

lemma sample_header: "line_feed \<notin> set (hunk_header False True 1 2 1 1 '' fn -5'')"
  by (simp add: hunk_header_def range_text_def line_feed_def dec_eval)

theorem printed_diffs_are_read_back_witness:
  "parse_unified_with_start (render_diff_file sample_diff) 3 = (reread_hunks 3 (df_hunks sample_diff), 4)"
  using printed_diffs_are_read_back [of sample_diff 3] sample_header
  by (simp add: sample_diff_def printable_hunk_def git_header_def plain_line_def line_feed_def carriage_def) blast

subsection \<open>Status lines\<close>

text \<open>An entry of \<open>git status --porcelain=v1 -z\<close>: the two codes, the path and the original path.\<close>

record status_entry =
  sy_index :: char
  sy_worktree :: char
  sy_path :: string
  sy_original :: "string option"

definition print_entry :: "status_entry \<Rightarrow> string" where
  "print_entry e = [sy_index e, sy_worktree e, CHR '' ''] @ sy_path e @ [nul] @ (case sy_original e of Some p \<Rightarrow> p @ [nul] | None \<Rightarrow> [])"

definition entry_change :: "status_entry \<Rightarrow> file_change" where
  "entry_change e = \<lparr>fc_path = sy_path e, fc_previous = sy_original e, fc_index = status_from_code (sy_index e),
     fc_worktree = status_from_code (sy_worktree e), fc_untracked = (sy_index e = CHR ''?'' \<and> sy_worktree e = CHR ''?'')\<rparr>"

text \<open>The original path is there exactly for a rename or copy in the index.\<close>

definition index_entry :: "status_entry \<Rightarrow> bool" where
  "index_entry e \<longleftrightarrow> sy_index e \<noteq> nul \<and> sy_worktree e \<noteq> nul \<and> nul \<notin> set (sy_path e)
     \<and> (\<forall>p. sy_original e = Some p \<longrightarrow> nul \<notin> set p)
     \<and> (sy_original e \<noteq> None \<longleftrightarrow> sy_index e = CHR ''R'' \<or> sy_index e = CHR ''C'')"

lemma split_entries:
  assumes "index_entry e"
  shows "parse_entries (split_on nul (print_entry e @ s)) = entry_change e # parse_entries (split_on nul s)"
proof (cases "sy_original e")
  case None
  have "split_on nul (([sy_index e, sy_worktree e, CHR '' ''] @ sy_path e) @ nul # s)
      = ([sy_index e, sy_worktree e, CHR '' ''] @ sy_path e) # split_on nul s"
    using assms by (intro split_on_piece) (auto simp: index_entry_def nul_def)
  then show ?thesis
    using assms None by (auto simp: print_entry_def index_entry_def entry_change_def status_change_def)
next
  case (Some p)
  have "split_on nul (([sy_index e, sy_worktree e, CHR '' ''] @ sy_path e) @ nul # p @ nul # s)
      = ([sy_index e, sy_worktree e, CHR '' ''] @ sy_path e) # split_on nul (p @ nul # s)"
    using assms by (intro split_on_piece) (auto simp: index_entry_def nul_def)
  moreover have "split_on nul (p @ nul # s) = p # split_on nul s"
    using assms Some by (intro split_on_piece) (auto simp: index_entry_def)
  ultimately show ?thesis
    using assms Some by (auto simp: print_entry_def index_entry_def entry_change_def status_change_def)
qed

text \<open>
  What git reports is what the client sees: the machine-readable status of any list of changed files, with any
  bytes but NUL in their paths and with the original paths of files renamed or copied in the index, is parsed to
  exactly these changes, in order.
\<close>

theorem status_is_read_back:
  assumes "\<forall>e \<in> set es. index_entry e"
  shows "parse_porcelain (concat (map print_entry es)) = map entry_change es"
proof -
  have "parse_entries (split_on nul (concat (map print_entry es))) = map entry_change es"
    using assms by (induction es) (simp_all add: split_entries)
  then show ?thesis
    by (simp add: parse_porcelain_def)
qed

definition sample_status :: "status_entry list" where
  "sample_status = [\<lparr>sy_index = CHR ''R'', sy_worktree = CHR ''M'', sy_path = ''new'', sy_original = Some ''a b''\<rparr>,
     \<lparr>sy_index = CHR ''?'', sy_worktree = CHR ''?'', sy_path = ''x'', sy_original = None\<rparr>]"

theorem status_is_read_back_witness:
  "map fc_path (parse_porcelain (concat (map print_entry sample_status))) = [''new'', ''x'']"
  using status_is_read_back [of sample_status] by (simp add: sample_status_def index_entry_def nul_def entry_change_def)

text \<open>
  A rename that git sees in the worktree only has its original path as well; the parser takes that path for the next
  entry, and when its third byte is not a space it drops every change after it.
\<close>

lemma worktree_rename_hides_changes:
  "map fc_path (parse_porcelain ('' R new'' @ [nul] @ ''old'' @ [nul] @ '' M other'' @ [nul])) = [''new'']"
  by code_simp

subsection \<open>A snapshot's diff\<close>

lemma trim_end_cr_id: "s = [] \<or> last s \<noteq> carriage \<Longrightarrow> trim_end_cr s = s"
  by (cases s rule: rev_cases) (simp_all add: trim_end_cr_def)

lemma split_on_pieces: "p \<in> set (split_on c s) \<Longrightarrow> set p \<subseteq> set s \<and> c \<notin> set p"
proof (induction s arbitrary: p)
  case (Cons x s)
  obtain y ys where y: "split_on c s = y # ys"
    by (cases "split_on c s") simp_all
  then show ?case
    using Cons.prems Cons.IH by (cases "x = c") (auto, blast+)
qed simp

lemma split_lines_exact:
  assumes "carriage \<notin> set s"
  shows "join_on line_feed (split_lines s) = s"
proof -
  have "map trim_end_cr (split_on line_feed s) = split_on line_feed s"
    using assms split_on_pieces [of _ line_feed s] by (intro map_idI trim_end_cr_id) (metis last_in_set subsetD)
  then show ?thesis
    by (simp add: split_lines_def)
qed

lemma plain_lines:
  "map dl_text (filter (\<lambda>l. dl_kind l = k) (map (plain_line k') ss)) = (if k = k' then ss else [])"
  by (induction ss) (auto simp: plain_line_def)

lemma replacement_texts:
  assumes "carriage \<notin> set old" and "carriage \<notin> set new"
  shows "\<exists>h. df_hunks (line_replacement_diff path old new) = [h]
    \<and> join_on line_feed (map dl_text (filter (\<lambda>l. dl_kind l = LkDeletion) (dh_lines h))) = old
    \<and> join_on line_feed (map dl_text (filter (\<lambda>l. dl_kind l = LkAddition) (dh_lines h))) = new"
  using assms by (simp add: line_replacement_diff_def Let_def plain_lines split_lines_exact)

text \<open>A text that ends its last line is shown with an empty line more than it has.\<close>

lemma final_newline_counts_as_line:
  "df_additions (line_replacement_diff ''f'' [] (''a'' @ [line_feed])) = 2"
  by code_simp

subsection \<open>Hunk ids\<close>

definition ids_from :: "u64 \<Rightarrow> diff_hunk list \<Rightarrow> bool" where
  "ids_from i hs \<longleftrightarrow> map dh_id hs = map (\<lambda>k. i + of_nat k) [0..<length hs]"

lemma ids_from_Nil [simp]: "ids_from i []"
  by (simp add: ids_from_def)

lemma ids_from_append: "ids_from i (hs @ gs) \<longleftrightarrow> ids_from i hs \<and> ids_from (i + of_nat (length hs)) gs"
proof -
  have "map (\<lambda>k. i + of_nat k) [0..<length hs + length gs]
      = map (\<lambda>k. i + of_nat k) [0..<length hs] @ map (\<lambda>k. i + of_nat (length hs) + of_nat k) [0..<length gs]"
    by (rule nth_equalityI) (auto simp: nth_append add.assoc simp flip: of_nat_add)
  then show ?thesis
    by (simp add: ids_from_def)
qed

lemma ids_from_one [simp]: "ids_from i [h] \<longleftrightarrow> dh_id h = i"
  by (simp add: ids_from_def)

definition ids_so_far :: "u64 \<Rightarrow> diff_hunk list \<times> u64 \<times> diff_hunk option \<Rightarrow> bool" where
  "ids_so_far i st = (case st of (hs, j, cur) \<Rightarrow> ids_from i (flushed hs cur) \<and> j = i + of_nat (length (flushed hs cur)))"

lemma start_hunk_id [simp]: "dh_id (start_hunk raw i) = i"
  by (simp add: start_hunk_def split: prod.split)

lemma marker_id [simp]: "dh_id (apply_no_newline_marker h) = dh_id h"
  by (simp add: apply_no_newline_marker_def)

lemma parse_line_ids: "ids_so_far i st \<Longrightarrow> ids_so_far i (parse_line raw st)"
  by (cases st) (auto simp: ids_so_far_def parse_line_def flushed_def ids_from_append add.assoc split: option.splits)

lemma parse_unified_ids:
  assumes "parse_unified_with_start patch i = (hs, j)"
  shows "ids_from i hs" and "j = i + of_nat (length hs)"
proof -
  have keep: "ids_so_far i (fold parse_line ls st)" if "ids_so_far i st" for ls st
    using that by (induction ls arbitrary: st) (simp_all add: parse_line_ids)
  have "ids_so_far i ([], i, None)"
    by (simp add: ids_so_far_def flushed_def)
  from keep [OF this, of "str_lines patch"] show "ids_from i hs" and "j = i + of_nat (length hs)"
    using assms by (auto simp: parse_unified_with_start_def ids_so_far_def flushed_def split: prod.splits)
qed

lemma fill_hunks_ids:
  assumes "fill_hunks g dir opts fs i w = (Inr fs', w')" and "\<forall>f \<in> set fs. df_hunks f = []"
  shows "ids_from i (concat (map df_hunks fs')) \<and> map df_path fs' = map df_path fs"
  using assms
proof (induction fs arbitrary: i w fs')
  case Nil
  then show ?case by (simp add: git_ret_def)
next
  case (Cons f fs)
  show ?case
  proof (cases "df_binary f \<or> df_status f = FsUntracked")
    case True
    then obtain gs where "fill_hunks g dir opts fs i w = (Inr gs, w')" "fs' = f # gs"
      using Cons.prems(1) by (auto simp: git_then_def git_ret_def split: prod.splits sum.splits)
    then show ?thesis
      using Cons.IH [of i w gs] Cons.prems(2) by simp
  next
    case False
    then obtain patch w1 hs j gs where patch: "parse_unified_with_start patch i = (hs, j)" "fill_hunks g dir opts fs j w1 = (Inr gs, w')"
      "fs' = f\<lparr>df_hunks := hs\<rparr> # gs"
      using Cons.prems(1) by (auto simp: git_then_def git_ret_def split: prod.splits sum.splits)
    then show ?thesis
      using Cons.IH [of j w1 gs] Cons.prems(2) parse_unified_ids [OF patch(1)] by (simp add: ids_from_append)
  qed
qed

lemma raw_no_hunks: "f \<in> set (parse_raw_tokens st ts) \<Longrightarrow> df_hunks f = []"
  by (induction st ts rule: parse_raw_tokens.induct) (auto simp: raw_file_def split: list.splits if_splits)

lemma merged_no_hunks: "\<forall>f \<in> set fs. df_hunks f = [] \<Longrightarrow> f \<in> set (merge_numstat fs n) \<Longrightarrow> df_hunks f = []"
  by (auto simp: merge_numstat_def Let_def split: option.splits)

lemma untracked_no_hunks: "\<forall>f \<in> set fs. df_hunks f = [] \<Longrightarrow> \<forall>f \<in> set (fold add_untracked ps fs). df_hunks f = []"
proof (induction ps arbitrary: fs)
  case (Cons p ps)
  then have "\<forall>f \<in> set (add_untracked p fs). df_hunks f = []"
    by (auto simp: add_untracked_def untracked_file_def)
  then show ?case
    using Cons.IH by simp
qed simp

lemma summary_no_hunks:
  assumes "diff_summary g dir opts w = (Inr fs, w')" and "f \<in> set fs"
  shows "df_hunks f = []"
proof -
  have none: "\<forall>f \<in> set (merge_numstat (parse_raw raw st) n). df_hunks f = []" for raw st n
    using raw_no_hunks merged_no_hunks [of "parse_raw raw st" _ n] by (auto simp: parse_raw_def)
  show ?thesis
    using assms none untracked_no_hunks [OF none]
    by (auto simp: diff_summary_def append_untracked_def git_then_def git_ret_def Let_def split: prod.splits sum.splits if_splits)
qed

text \<open>
  Every hunk of a diff has its own id: whatever git answers, a diff that succeeds numbers the hunks of all its
  files from zero without a gap, in the order of the files.
\<close>

theorem hunk_ids_are_consecutive:
  assumes "git_diff g dir opts w = (Inr files, w')"
  shows "map dh_id (concat (map df_hunks files)) = map of_nat [0..<length (concat (map df_hunks files))]"
proof -
  obtain fs w1 where fs: "diff_summary g dir opts w = (Inr fs, w1)" "fill_hunks g dir opts fs 0 w1 = (Inr files, w')"
    using assms by (auto simp: git_diff_def git_then_def split: prod.splits sum.splits)
  have "ids_from 0 (concat (map df_hunks files))"
    using fill_hunks_ids [OF fs(2)] summary_no_hunks [OF fs(1)] by blast
  then show ?thesis
    by (simp add: ids_from_def)
qed

subsection \<open>Removing worktrees\<close>

text \<open>An environment that records the arguments of every git it runs.\<close>

definition recorded :: "'w git_env \<Rightarrow> (string list list \<times> 'w) git_env" where
  "recorded g = \<lparr>ge_spawn = (\<lambda>cwd args (log, w). case ge_spawn g cwd args w of (r, w') \<Rightarrow> (r, log @ [args], w')),
     ge_canon = (\<lambda>(log, w). ge_canon g w), ge_occupied = (\<lambda>(log, w). ge_occupied g w)\<rparr>"

lemma run_recorded:
  "run_git (recorded g) dir args (log, w) = (case run_git g dir args w of (r, w') \<Rightarrow> (r, log @ [args], w'))"
  by (auto simp: run_git_def run_with_stderr_def git_then_def git_lift_def git_ret_def recorded_def split: prod.splits sum.splits)

lemma canon_recorded [simp]: "ge_canon (recorded g) (log, w) = ge_canon g w"
  by (simp add: recorded_def)

lemma remove_not_list: "remove_args force path \<noteq> list_args"
  by (simp add: remove_args_def list_args_def)

text \<open>
  C24: A worktree is removed only when git says it is one: whatever git and the file system do, a removal runs at most
  the listing and then one \<open>git worktree remove\<close> of exactly the given path; it runs that only when the path cannot be
  taken for an option and the listing git has just printed holds a worktree at the same canonical path, and with
  \<open>--force\<close> only when asked to.
\<close>

theorem worktree_removal_is_guarded:
  assumes "worktree_remove (recorded g) dir path force ([], w) = (r, cs, w')"
  shows "(cs = [] \<or> cs = [list_args] \<or> cs = [list_args, remove_args force path])
    \<and> (remove_args force path \<in> set cs \<longrightarrow> \<not> starts_with ''-'' path \<and>
        (\<exists>out w1. run_git g dir list_args w = (Inr out, w1) \<and>
          (\<exists>t \<in> set (parse_worktree_list out). same_path (ge_canon g w1 (wt_path t)) (ge_canon g w path))))"
proof (cases "checked_path path")
  case (Inl e)
  then show ?thesis
    using assms by (simp add: worktree_remove_def git_then_def git_lift_def)
next
  case (Inr u)
  then have plain: "\<not> starts_with ''-'' path"
    by (auto simp: checked_path_def validate_position_arg_def split: if_splits)
  obtain l w1 where listing: "run_git g dir list_args w = (l, w1)"
    by (cases "run_git g dir list_args w")
  show ?thesis
  proof (cases l)
    case (Inl e)
    then show ?thesis
      using assms Inr listing remove_not_list [of force path]
      by (auto simp: worktree_remove_def worktree_list_def git_then_def git_lift_def run_recorded)
  next
    case list: (Inr out)
    show ?thesis
    proof (cases "list_ex (\<lambda>t. same_path (ge_canon g w1 (wt_path t)) (ge_canon g w path)) (parse_worktree_list out)")
      case True
      then show ?thesis
        using assms Inr list listing plain
        by (auto simp: worktree_remove_def worktree_list_def git_then_def git_lift_def git_ret_def run_recorded list_ex_iff split: prod.splits sum.splits)
    next
      case False
      then show ?thesis
        using assms Inr list listing remove_not_list [of force path]
        by (auto simp: worktree_remove_def worktree_list_def git_then_def git_lift_def git_fail_def run_recorded list_ex_iff)
    qed
  qed
qed

text \<open>A git that lists one worktree and accepts everything.\<close>

definition one_worktree :: "unit git_env" where
  "one_worktree = \<lparr>ge_spawn = (\<lambda>_ _ w. (Inr \<lparr>po_stdout = ''worktree /w'' @ [nul] @ ''branch refs/heads/b'' @ [nul] @ [nul], po_stderr = [],
     po_timed_out = False, po_killed = False, po_exit = Some 0\<rparr>, w)), ge_canon = (\<lambda>_ p. p), ge_occupied = (\<lambda>_ _. False)\<rparr>"

lemma one_worktree_removed:
  "worktree_remove (recorded one_worktree) ''/r'' ''/w/'' True ([], ()) = (Inr (), [list_args, remove_args True ''/w/''], ())"
  by code_simp

theorem worktree_removal_is_guarded_witness:
  "\<exists>out. run_git one_worktree ''/r'' list_args () = (Inr out, ()) \<and>
     (\<exists>t \<in> set (parse_worktree_list out). same_path (wt_path t) ''/w/'')"
  using worktree_removal_is_guarded [OF one_worktree_removed] by (auto simp: one_worktree_def)

lemma sample_git_diff:
  "git_diff (\<lparr>ge_spawn = (\<lambda>_ args w. (Inr \<lparr>po_stdout =
       (if ''--raw'' \<in> set args then '':100644 100644 a b M'' @ [nul] @ ''f'' @ [nul]
        else if ''--'' \<in> set args then ''@@ -1 +1 @@'' @ [line_feed] @ ''-a'' @ [line_feed] @ ''@@ -3 +3 @@'' @ [line_feed]
        else []), po_stderr = [], po_timed_out = False, po_killed = False, po_exit = Some 0\<rparr>, w)),
     ge_canon = (\<lambda>_ p. p), ge_occupied = (\<lambda>_ _. False)\<rparr> :: unit git_env) ''/r'' default_options ()
   = (Inr [(raw_file '':100644 100644 a b M'' False ''f'' None)\<lparr>df_hunks :=
        [(start_hunk ''@@ -1 +1 @@'' 0)\<lparr>dh_lines := [plain_line LkDeletion ''a'']\<rparr>, start_hunk ''@@ -3 +3 @@'' 1]\<rparr>], ())"
  by code_simp

theorem hunk_ids_are_consecutive_witness:
  "map dh_id [start_hunk ''@@ -1 +1 @@'' 0, start_hunk ''@@ -3 +3 @@'' 1] = [0, 1]"
  using hunk_ids_are_consecutive [OF sample_git_diff] by (simp add: upt_rec)

end
