(* ===== verification/Base64Url.thy ===== *)
theory Base64Url
  imports Prelude
begin

unbundle bit_operations_syntax

text \<open>
  \<open>crates/auth/src/base64url.rs\<close>: the unpadded URL-safe base64 of the client's secrets and tokens. Byte strings are
  \<open>string\<close>s; the arithmetic is on 32-bit words as in the code.
\<close>

subsection \<open>Model\<close>

definition alphabet :: string where
  "alphabet = ''ABCDEFGHIJKLMNOPQRSTUVWXYZabcdefghijklmnopqrstuvwxyz0123456789-_''"

datatype base64_error = B64Padding | B64InvalidCharacter nat | B64InvalidLastSymbol nat | B64InvalidLength

type_synonym word32 = "32 word"

definition byte_value :: "char \<Rightarrow> word32" where
  "byte_value c = of_nat (of_char c)"

text \<open>The symbol of six bits of \<open>bits\<close>.\<close>

definition symbol_at :: "word32 \<Rightarrow> nat \<Rightarrow> char" where
  "symbol_at bits k = alphabet ! unat (drop_bit k bits AND 0x3f)"

definition chunk_bits :: "word32 \<Rightarrow> word32 \<Rightarrow> word32 \<Rightarrow> word32" where
  "chunk_bits b0 b1 b2 = push_bit 16 b0 OR push_bit 8 b1 OR b2"

fun base64_encode :: "string \<Rightarrow> string" where
  "base64_encode [] = []"
| "base64_encode [a] = (let bits = chunk_bits (byte_value a) 0 0 in [symbol_at bits 18, symbol_at bits 12])"
| "base64_encode [a, b] =
     (let bits = chunk_bits (byte_value a) (byte_value b) 0 in [symbol_at bits 18, symbol_at bits 12, symbol_at bits 6])"
| "base64_encode (a # b # c # s) =
     (let bits = chunk_bits (byte_value a) (byte_value b) (byte_value c)
      in symbol_at bits 18 # symbol_at bits 12 # symbol_at bits 6 # symbol_at bits 0 # base64_encode s)"

definition between :: "char \<Rightarrow> char \<Rightarrow> char \<Rightarrow> bool" where
  "between lo hi c \<longleftrightarrow> (of_char lo :: nat) \<le> of_char c \<and> (of_char c :: nat) \<le> of_char hi"

definition decode_symbol :: "char \<Rightarrow> nat \<Rightarrow> (base64_error, word32) result" where
  "decode_symbol c i =
     (if between (CHR ''A'') (CHR ''Z'') c then Inr (byte_value c - byte_value (CHR ''A''))
      else if between (CHR ''a'') (CHR ''z'') c then Inr (byte_value c - byte_value (CHR ''a'') + 26)
      else if between (CHR ''0'') (CHR ''9'') c then Inr (byte_value c - byte_value (CHR ''0'') + 52)
      else if c = CHR ''-'' then Inr 62
      else if c = CHR ''_'' then Inr 63
      else if c = CHR ''='' then Inl B64Padding
      else Inl (B64InvalidCharacter i))"

text \<open>The loop: the index, the bits not yet written and their number, and the bytes written.\<close>

fun decode_loop :: "string \<Rightarrow> nat \<Rightarrow> word32 \<Rightarrow> nat \<Rightarrow> (base64_error, string \<times> word32) result" where
  "decode_loop [] i buffer n = Inr ([], buffer)"
| "decode_loop (c # s) i buffer n =
     (case decode_symbol c i of
        Inl e \<Rightarrow> Inl e
      | Inr v \<Rightarrow>
          (let buffer' = push_bit 6 buffer OR v; n' = n + 6 in
           if n' \<ge> 8
           then map_sum id (apfst (Cons (char_of (unat (drop_bit (n' - 8) buffer')))))
                  (decode_loop s (Suc i) (buffer' AND (push_bit (n' - 8) 1 - 1)) (n' - 8))
           else decode_loop s (Suc i) buffer' n'))"

definition base64_decode :: "string \<Rightarrow> (base64_error, string) result" where
  "base64_decode s =
     (if length s mod 4 = 1 then Inl B64InvalidLength
      else (case decode_loop s 0 0 0 of
              Inl e \<Rightarrow> Inl e
            | Inr (out, buffer) \<Rightarrow> (if buffer \<noteq> 0 then Inl (B64InvalidLastSymbol (length s - 1)) else Inr out)))"

subsection \<open>Arithmetic\<close>

lemma or_low_word:
  assumes "unat (b :: word32) < 2 ^ n"
  shows "push_bit n a OR b = push_bit n a + b"
proof -
  have "unat (take_bit n b) = unat b"
    using assms by (simp add: unsigned_take_bit_eq take_bit_nat_eq_self)
  then have "take_bit n b = b"
    by (simp add: word_unat_eq_iff)
  then have "push_bit n a AND b = push_bit n a AND take_bit n b"
    by simp
  also have "\<dots> = 0"
    by (rule bit_eqI) (auto simp: bit_simps)
  finally show ?thesis
    by (simp add: disjunctive_add_eq_or)
qed

lemma shifted:
  assumes "unat (a :: word32) * 2 ^ n < 2 ^ 32"
  shows "unat (push_bit n a) = unat a * 2 ^ n"
proof -
  have "unat (push_bit n a) = take_bit 32 (push_bit n (unat a))"
    by (simp only: unsigned_push_bit_eq) simp
  then show ?thesis
    using assms by (simp add: push_bit_eq_mult take_bit_nat_eq_self)
qed

lemma or_shifted:
  assumes "unat (b :: word32) < 2 ^ n" and "unat a * 2 ^ n + unat b < 2 ^ 32"
  shows "unat (push_bit n a OR b) = unat a * 2 ^ n + unat b"
proof -
  have "unat (push_bit n a) = unat a * 2 ^ n"
    using assms(2) by (intro shifted) simp
  then show ?thesis
    using assms(2) by (simp add: or_low_word [OF assms(1)] unat_word_ariths)
qed

lemma low_bits: "unat (x AND (push_bit k 1 - 1) :: word32) = unat x mod 2 ^ k"
proof -
  have "x AND (push_bit k 1 - 1) = take_bit k x"
    by (simp add: take_bit_eq_mask mask_eq_exp_minus_1 push_bit_eq_mult)
  then show ?thesis
    by (simp only: unsigned_take_bit_eq) (simp add: take_bit_eq_mod)
qed

lemma high_bits: "unat (drop_bit k x :: word32) = unat x div 2 ^ k"
proof -
  have "unat x < 2 ^ LENGTH(32)"
    by (rule unsigned_less)
  then show ?thesis
    by (simp only: unsigned_drop_bit_eq) (simp add: drop_bit_eq_div take_bit_nat_eq_self)
qed

lemma six_bits: "unat (drop_bit k x AND 0x3f :: word32) = unat x div 2 ^ k mod 64"
  using low_bits [of "drop_bit k x" 6] by (simp add: high_bits)

definition byte :: "char \<Rightarrow> nat" where
  "byte c = of_char c"

lemma byte_less: "byte c < 256"
  by (simp add: byte_def)

lemma unat_byte [simp]: "unat (byte_value c) = byte c"
  unfolding byte_value_def byte_def [symmetric] using byte_less [of c] by (simp add: unsigned_of_nat take_bit_nat_eq_self)

lemma byte_char [simp]: "char_of (byte c) = c"
  by (simp add: byte_def)

subsection \<open>Symbols\<close>

definition symbol :: "nat \<Rightarrow> char" where
  "symbol k = alphabet ! k"

lemma symbol_at_eq: "symbol_at bits k = symbol (unat bits div 2 ^ k mod 64)"
  by (simp add: symbol_at_def symbol_def six_bits)

lemma symbol_table:
  "list_all (\<lambda>k. map_sum id unat (decode_symbol (alphabet ! k) 0) = Inr k) [0..<64]"
  by code_simp

lemma letter_tables:
  "list_all (\<lambda>k. alphabet ! k = char_of (65 + k)) [0..<26]"
  "list_all (\<lambda>k. alphabet ! (26 + k) = char_of (97 + k)) [0..<26]"
  "list_all (\<lambda>k. alphabet ! (52 + k) = char_of (48 + k)) [0..<10]"
  by code_simp+

lemma marks: "alphabet ! 62 = CHR ''-''" "alphabet ! 63 = CHR ''_''"
  by code_simp+

lemma decode_symbol_index: "decode_symbol c i = Inr v \<longleftrightarrow> decode_symbol c 0 = Inr v"
  by (simp add: decode_symbol_def)

lemma decode_symbol_symbol:
  assumes "k < 64"
  obtains v where "decode_symbol (symbol k) i = Inr v" "unat v = k"
proof -
  have "map_sum id unat (decode_symbol (symbol k) 0) = Inr k"
    using symbol_table assms by (simp add: list_all_iff symbol_def)
  then show ?thesis
    using that decode_symbol_index by auto
qed

lemma ascii_bytes:
  "byte (CHR ''A'') = 65" "byte (CHR ''Z'') = 90" "byte (CHR ''a'') = 97" "byte (CHR ''z'') = 122"
  "byte (CHR ''0'') = 48" "byte (CHR ''9'') = 57"
  by (simp_all add: byte_def)

lemma between_bytes: "between lo hi c \<longleftrightarrow> byte lo \<le> byte c \<and> byte c \<le> byte hi"
  by (simp add: between_def byte_def)

text \<open>A range of bytes that is laid out in the alphabet from \<open>k0\<close>.\<close>

lemma range_symbol:
  assumes "between lo hi c" and "byte hi < byte lo + n" and "k0 + n \<le> 64"
    and "list_all (\<lambda>k. alphabet ! (k0 + k) = char_of (byte lo + k)) [0..<n]"
  shows "unat (byte_value c - byte_value lo + of_nat k0) < 64" and "symbol (unat (byte_value c - byte_value lo + of_nat k0)) = c"
proof -
  obtain k where k: "byte c = byte lo + k"
    using assms(1) by (auto simp: between_bytes le_iff_add)
  then have n: "k < n"
    using assms(1,2) by (simp add: between_bytes)
  have "byte_value c - byte_value lo = of_nat k"
    using k by (simp add: byte_value_def flip: byte_def)
  then have "byte_value c - byte_value lo + of_nat k0 = of_nat (k + k0)"
    by simp
  moreover have "unat (of_nat (k + k0) :: word32) = k + k0"
    using n assms(3) by (simp add: unsigned_of_nat take_bit_nat_eq_self del: of_nat_add)
  ultimately have v: "unat (byte_value c - byte_value lo + of_nat k0) = k0 + k"
    by simp
  then show "unat (byte_value c - byte_value lo + of_nat k0) < 64"
    using n assms(3) by simp
  have "alphabet ! (k0 + k) = char_of (byte c)"
    using assms(4) n k by (simp add: list_all_iff)
  then show "symbol (unat (byte_value c - byte_value lo + of_nat k0)) = c"
    using v by (simp add: symbol_def)
qed

lemma decode_symbol_value:
  assumes "decode_symbol c i = Inr v"
  shows "unat v < 64 \<and> symbol (unat v) = c"
proof -
  note u = range_symbol [of "CHR ''A''" "CHR ''Z''" c 26 0] and l = range_symbol [of "CHR ''a''" "CHR ''z''" c 26 26]
    and d = range_symbol [of "CHR ''0''" "CHR ''9''" c 10 52]
  consider "between (CHR ''A'') (CHR ''Z'') c" "v = byte_value c - byte_value (CHR ''A'')"
    | "between (CHR ''a'') (CHR ''z'') c" "v = byte_value c - byte_value (CHR ''a'') + 26"
    | "between (CHR ''0'') (CHR ''9'') c" "v = byte_value c - byte_value (CHR ''0'') + 52"
    | "c = CHR ''-''" "v = 62" | "c = CHR ''_''" "v = 63"
    using assms by (auto simp: decode_symbol_def split: if_splits)
  then show ?thesis
    using u l d letter_tables marks by cases (simp_all add: ascii_bytes symbol_def)
qed

subsection \<open>The decoder on numbers\<close>

fun number_loop :: "nat list \<Rightarrow> nat \<Rightarrow> nat \<Rightarrow> nat list \<times> nat" where
  "number_loop [] b n = ([], b)"
| "number_loop (v # vs) b n =
     (let b' = b * 64 + v; n' = n + 6 in
      if n' \<ge> 8 then apfst (Cons (b' div 2 ^ (n' - 8))) (number_loop vs (b' mod 2 ^ (n' - 8)) (n' - 8))
      else number_loop vs b' n')"

lemma decode_loop_numbers:
  assumes "\<forall>v \<in> set vs. v < 64" and "unat buffer < 2 ^ n" and "n < 8"
  shows "\<exists>w. decode_loop (map symbol vs) i buffer n = Inr (map char_of (fst (number_loop vs (unat buffer) n)), w)
    \<and> unat w = snd (number_loop vs (unat buffer) n)"
  using assms
proof (induction vs arbitrary: i buffer n)
  case Nil
  then show ?case by simp
next
  case (Cons v vs)
  obtain x where x: "decode_symbol (symbol v) i = Inr x" "unat x = v"
    using decode_symbol_symbol [of v i] Cons.prems(1) by auto
  have pow: "(2 :: nat) ^ n \<le> 2 ^ 7"
    using Cons.prems(3) by (intro power_increasing) simp_all
  have v: "v < 64"
    using Cons.prems(1) by simp
  have b: "unat (push_bit 6 buffer OR x) = unat buffer * 64 + v"
    using or_shifted [of x 6 buffer] x(2) v Cons.prems(2) pow by simp
  show ?case
  proof (cases "n + 6 \<ge> 8")
    case True
    have "unat ((push_bit 6 buffer OR x) AND (push_bit (n + 6 - 8) 1 - 1)) = (unat buffer * 64 + v) mod 2 ^ (n + 6 - 8)"
      by (simp only: low_bits b)
    moreover have "unat (drop_bit (n + 6 - 8) (push_bit 6 buffer OR x)) = (unat buffer * 64 + v) div 2 ^ (n + 6 - 8)"
      by (simp only: high_bits b)
    ultimately show ?thesis
      using True x Cons.prems Cons.IH [of "(push_bit 6 buffer OR x) AND (push_bit (n + 6 - 8) 1 - 1)" "n + 6 - 8" "Suc i"]
      by (auto simp: Let_def)
  next
    case False
    have "unat buffer * 64 + v < 2 ^ (n + 6)"
      using Cons.prems(2) v by (simp add: power_add)
    then show ?thesis
      using False x b Cons.prems Cons.IH [of "push_bit 6 buffer OR x" "n + 6" "Suc i"] by (auto simp: Let_def)
  qed
qed

end
