(* ===== verification/Base64Props.thy ===== *)
theory Base64Props
  imports Base64Url
begin

text \<open>The decoder accepts exactly what the encoder writes, and gives it back.\<close>

subsection \<open>Numbers\<close>

fun number_encode :: "nat list \<Rightarrow> nat list" where
  "number_encode [] = []"
| "number_encode [a] = [a div 4, a mod 4 * 16]"
| "number_encode [a, b] = [a div 4, a mod 4 * 16 + b div 16, b mod 16 * 4]"
| "number_encode (a # b # c # s) = a div 4 # (a mod 4 * 16 + b div 16) # (b mod 16 * 4 + c div 64) # c mod 64 # number_encode s"

lemma step16: "((x :: nat) * 64 + v) div 16 = x * 4 + v div 16" "(x * 64 + v) mod 16 = v mod 16"
proof -
  have "x * 64 + v = v + x * 4 * 16"
    by simp
  then show "(x * 64 + v) div 16 = x * 4 + v div 16" "(x * 64 + v) mod 16 = v mod 16"
    by (simp_all only: div_mult_self1 mod_mult_self1)
qed

lemma step4: "((x :: nat) * 64 + v) div 4 = x * 16 + v div 4" "(x * 64 + v) mod 4 = v mod 4"
proof -
  have "x * 64 + v = v + x * 16 * 4"
    by simp
  then show "(x * 64 + v) div 4 = x * 16 + v div 4" "(x * 64 + v) mod 4 = v mod 4"
    by (simp_all only: div_mult_self1 mod_mult_self1)
qed

lemma loop0: "number_loop (v # vs) b 0 = number_loop vs (b * 64 + v) 6"
  by simp

lemma loop6: "number_loop (v # vs) b 6 = apfst (Cons (b * 4 + v div 16)) (number_loop vs (v mod 16) 4)"
  by (simp add: step16)

lemma loop4: "number_loop (v # vs) b 4 = apfst (Cons (b * 16 + v div 4)) (number_loop vs (v mod 4) 2)"
  by (simp add: step4)

lemma loop2: "number_loop (v # vs) b 2 = apfst (Cons (b * 64 + v)) (number_loop vs 0 0)"
  by simp

lemmas loops = loop0 loop6 loop4 loop2

declare number_loop.simps(2) [simp del]

text \<open>Digits of two numbers put together.\<close>

lemma two_digits: "(x :: nat) < k \<Longrightarrow> (a * k + x) div k = a \<and> (a * k + x) mod k = x"
  by auto

lemma quarter: "(a :: nat) div 4 * 4 + (a mod 4 * 16 + x) div 16 = a" if "x < 16"
  using two_digits [OF that, of "a mod 4"] by simp

lemma encode_numbers_decode:
  "\<forall>b \<in> set bs. b < 256 \<Longrightarrow> number_loop (number_encode bs) 0 0 = (bs, 0)"
proof (induction bs rule: number_encode.induct)
  case (2 a)
  then show ?case by (simp add: loops)
next
  case (3 a b)
  then have "b div 16 < 16"
    by auto
  from two_digits [OF this, of "a mod 4"] show ?case
    by (simp add: loops)
next
  case (4 a b c s)
  then have "b div 16 < 16" "c div 64 < 4"
    by auto
  from two_digits [OF this(1), of "a mod 4"] two_digits [OF this(2), of "b mod 16"] show ?case
    using 4 by (simp add: loops)
qed simp

lemma encode_numbers_range:
  "\<forall>b \<in> set bs. b < 256 \<Longrightarrow> (\<forall>v \<in> set (number_encode bs). v < 64) \<and> length (number_encode bs) mod 4 \<noteq> 1"
proof (induction bs rule: number_encode.induct)
  case (2 a)
  then show ?case by auto
next
  case (3 a b)
  then have "a mod 4 * 16 + b div 16 < 64"
    using mod_less_divisor [of 4 a] by (auto simp: less_mult_imp_div_less)
  then show ?case
    using 3 by auto
next
  case (4 a b c s)
  have "a mod 4 * 16 + b div 16 < 64" "b mod 16 * 4 + c div 64 < 64"
    using 4(2) mod_less_divisor [of 4 a] mod_less_divisor [of 16 b] by (auto; linarith)+
  then show ?case
    using 4 by (auto simp: mod_Suc)
qed simp

lemma decode_numbers_encode:
  "\<forall>v \<in> set vs. v < 64 \<Longrightarrow> length vs mod 4 \<noteq> 1 \<Longrightarrow> number_loop vs 0 0 = (bs, 0) \<Longrightarrow> number_encode bs = vs"
proof (induction "length vs" arbitrary: vs bs rule: less_induct)
  case less
  consider "vs = []" | v where "vs = [v]" | v0 v1 where "vs = [v0, v1]" | v0 v1 v2 where "vs = [v0, v1, v2]"
    | v0 v1 v2 v3 us where "vs = v0 # v1 # v2 # v3 # us"
    by (metis list.exhaust)
  then show ?case
  proof cases
    case (3 v0 v1)
    then have "v1 div 16 < 4" "bs = [v0 * 4 + v1 div 16]" "v1 mod 16 = 0"
      using less.prems by (auto simp: loops)
    moreover from two_digits [OF this(1), of v0] have "v1 div 16 * 16 = v1"
      using calculation(3) by auto
    ultimately show ?thesis
      using two_digits [of "v1 div 16" 4 v0] 3 by simp
  next
    case (4 v0 v1 v2)
    then have "v1 div 16 < 4" "v2 div 4 < 16" "bs = [v0 * 4 + v1 div 16, v1 mod 16 * 16 + v2 div 4]" "v2 mod 4 = 0"
      using less.prems by (auto simp: loops)
    moreover from this(4) have "v2 div 4 * 4 = v2"
      by auto
    ultimately show ?thesis
      using two_digits [of "v1 div 16" 4 v0] two_digits [of "v2 div 4" 16 "v1 mod 16"] 4 by simp
  next
    case (5 v0 v1 v2 v3 us)
    then obtain cs where cs: "number_loop us 0 0 = (cs, 0)"
      and bs: "bs = (v0 * 4 + v1 div 16) # (v1 mod 16 * 16 + v2 div 4) # (v2 mod 4 * 64 + v3) # cs"
      using less.prems(3) by (cases "number_loop us 0 0") (auto simp: loops)
    have "number_encode cs = us"
      using less.hyps [of us cs] less.prems(1,2) cs 5 by (simp add: mod_Suc split: if_splits)
    moreover have "v1 div 16 < 4" "v2 div 4 < 16" "v3 < 64"
      using less.prems(1) 5 by auto
    ultimately show ?thesis
      using two_digits [of "v1 div 16" 4 v0] two_digits [of "v2 div 4" 16 "v1 mod 16"] two_digits [of v3 64 "v2 mod 4"] 5 bs by simp
  qed (use less.prems in auto)
qed

lemma number_loop_bytes:
  "\<forall>v \<in> set vs. v < 64 \<Longrightarrow> b < 2 ^ n \<Longrightarrow> n < 8 \<Longrightarrow> \<forall>x \<in> set (fst (number_loop vs b n)). x < 256"
proof (induction vs b n rule: number_loop.induct)
  case (1 b n)
  then show ?case by simp
next
  case (2 v vs b n)
  have "b * 64 + v < (b + 1) * 64" "v < 64"
    using 2(3) by simp_all
  then have bound: "b * 64 + v < 2 ^ (n + 6)"
    using 2(4) mult_le_mono1 [of "b + 1" "2 ^ n" 64] by (simp add: power_add)
  show ?case
  proof (cases "n + 6 \<ge> 8")
    case True
    obtain m where "n = 2 + m"
      using True le_iff_add [of 2 n] by auto
    then have "(2 :: nat) ^ (n + 6) = 2 ^ 8 * 2 ^ (n + 6 - 8)"
      by (simp add: power_add)
    then have "(b * 64 + v) div 2 ^ (n + 6 - 8) < 256"
      using bound by (simp add: less_mult_imp_div_less)
    moreover have "\<forall>x \<in> set (fst (number_loop vs ((b * 64 + v) mod 2 ^ (n + 6 - 8)) (n + 6 - 8))). x < 256"
      using 2(1) [OF refl refl True] 2(3,5) by simp
    ultimately show ?thesis
      using True by (simp add: number_loop.simps(2) Let_def)
  next
    case False
    then show ?thesis
      using 2(2) [OF refl refl False] 2(3,5) bound by (simp add: number_loop.simps(2) Let_def)
  qed
qed

subsection \<open>Strings\<close>

lemma byte_char_of: "x < 256 \<Longrightarrow> byte (char_of x) = x"
  by (simp add: byte_def)

text \<open>The symbols of a chunk.\<close>

lemma chunk_value: "unat (chunk_bits (byte_value a) x y) = byte a * 65536 + unat x * 256 + unat y"
  if "unat x < 256" and "unat y < 256"
proof -
  have "unat (push_bit 8 x OR y) = unat x * 256 + unat y"
    using that or_shifted [of y 8 x] by simp
  moreover have "chunk_bits (byte_value a) x y = push_bit 16 (byte_value a) OR (push_bit 8 x OR y)"
    by (simp add: chunk_bits_def or.assoc)
  ultimately show ?thesis
    using that byte_less [of a] or_shifted [of "push_bit 8 x OR y" 16 "byte_value a"] by simp
qed

lemma chunk_symbols:
  assumes "b < 256" and "c < (256 :: nat)"
  shows "(a * 65536 + b * 256 + c) div 2 ^ 18 = a div 4" and "(a * 65536 + b * 256 + c) div 2 ^ 12 mod 64 = a mod 4 * 16 + b div 16"
    and "(a * 65536 + b * 256 + c) div 2 ^ 6 mod 64 = b mod 16 * 4 + c div 64" and "(a * 65536 + b * 256 + c) mod 64 = c mod 64"
proof -
  let ?x = "a * 65536 + b * 256 + c"
  have x256: "?x div 256 = a * 256 + b"
  proof -
    have "?x = (a * 256 + b) * 256 + c"
      by simp
    with two_digits [OF assms(2), of "a * 256 + b"] show ?thesis
      by metis
  qed
  then have x65536: "?x div 256 div 256 = a"
    using two_digits [OF assms(1), of a] by simp
  show "?x div 2 ^ 18 = a div 4"
    using x65536 div_mult2_eq [of ?x "256 * 256" 4] div_mult2_eq [of ?x 256 256] by simp
  have "(a * 256 + b) div 16 = a * 16 + b div 16"
    using div_mult_self3 [of 16 "a * 16" b] by simp
  moreover have "b div 16 < 16"
    using assms(1) by auto
  moreover have "(a * 16 + y) mod 64 = a mod 4 * 16 + y" if "y < 16" for y
  proof -
    have "a * 16 + y = a div 4 * 64 + (a mod 4 * 16 + y)"
      using div_mult_mod_eq [of a 4] by linarith
    moreover have "a mod 4 * 16 + y < 64"
      using that mod_less_divisor [of 4 a] by linarith
    ultimately show ?thesis
      using two_digits [of "a mod 4 * 16 + y" 64 "a div 4"] by metis
  qed
  ultimately show "?x div 2 ^ 12 mod 64 = a mod 4 * 16 + b div 16"
    using x256 div_mult2_eq [of ?x 256 16] by simp
  have "?x = (a * 1024 + b * 4) * 64 + c"
    by simp
  then have "?x div 64 = a * 1024 + b * 4 + c div 64"
    using div_mult_self3 [of 64 "a * 1024 + b * 4" c] by simp
  moreover have "a * 1024 + b * 4 + y = (a * 16 + b div 16) * 64 + (b mod 16 * 4 + y)" for y
    by presburger
  moreover have "b mod 16 * 4 + c div 64 < 64"
  proof -
    have "c div 64 < 4"
      using assms(2) by auto
    then show ?thesis
      using mod_less_divisor [of 16 b] by linarith
  qed
  ultimately show "?x div 2 ^ 6 mod 64 = b mod 16 * 4 + c div 64"
    using two_digits [of "b mod 16 * 4 + c div 64" 64 "a * 16 + b div 16"] by simp
  show "?x mod 64 = c mod 64"
    using \<open>?x = (a * 1024 + b * 4) * 64 + c\<close> by (simp only: mod_mult_self3)
qed

lemma encode_numbers: "base64_encode s = map symbol (number_encode (map byte s))"
proof (induction s rule: base64_encode.induct)
  case (2 a)
  have "byte a div 4 < 64"
    using byte_less [of a] by auto
  then show ?case
    using chunk_value [of 0 0 a] chunk_symbols [of 0 0 "byte a"] by (simp add: symbol_at_eq byte_less)
next
  case (3 a b)
  have "byte a div 4 < 64"
    using byte_less [of a] by auto
  with 3 show ?case
    using chunk_value [of "byte_value b" 0 a] chunk_symbols [of "byte b" 0 "byte a"] byte_less [of a] by (simp add: symbol_at_eq byte_less)
next
  case (4 a b c s)
  have "byte a div 4 < 64"
    using byte_less [of a] by auto
  with 4 show ?case
    using chunk_value [of "byte_value b" "byte_value c" a] chunk_symbols [of "byte b" "byte c" "byte a"] byte_less [of a]
    by (simp add: symbol_at_eq byte_less)
qed simp

lemma decoded_symbols:
  "decode_loop s i buffer n = Inr r \<Longrightarrow> \<exists>vs. s = map symbol vs \<and> (\<forall>v \<in> set vs. v < 64)"
proof (induction s i buffer n arbitrary: r rule: decode_loop.induct)
  case (1 i buffer n)
  then show ?case by simp
next
  case (2 c s i buffer n)
  obtain v where v: "decode_symbol c i = Inr v"
    using 2(3) by (cases "decode_symbol c i") simp_all
  obtain vs where "s = map symbol vs" "\<forall>v \<in> set vs. v < 64"
  proof (cases "n + 6 \<ge> 8")
    case True
    obtain a where "decode_loop s (Suc i) ((push_bit 6 buffer OR v) AND (push_bit (n + 6 - 8) 1 - 1)) (n + 6 - 8) = Inr a"
      using 2(3) v True
      by (cases "decode_loop s (Suc i) ((push_bit 6 buffer OR v) AND (push_bit (n + 6 - 8) 1 - 1)) (n + 6 - 8)") (simp_all add: Let_def)
    from 2(1) [OF v refl refl True this] show ?thesis
      using that by blast
  next
    case False
    then have "decode_loop s (Suc i) (push_bit 6 buffer OR v) (n + 6) = Inr r"
      using 2(3) v by (simp add: Let_def)
    from 2(2) [OF v refl refl False this] show ?thesis
      using that by blast
  qed
  then show ?case
    using decode_symbol_value [OF v] by (intro exI [where x = "unat v # vs"]) simp
qed

text \<open>
  C27: The encoding of secrets and tokens loses nothing and is canonical: the decoder accepts a text if and only if it
  is what the encoder writes for some bytes, and gives exactly these bytes. So every byte string survives, and padding,
  foreign characters, impossible lengths and left-over bits are all refused.
\<close>

theorem base64_decodes_exactly_what_is_encoded:
  "base64_decode s = Inr bytes \<longleftrightarrow> s = base64_encode bytes"
proof
  assume s: "s = base64_encode bytes"
  have small: "\<forall>b \<in> set (map byte bytes). b < 256"
    by (simp add: byte_less)
  note range = encode_numbers_range [OF small]
  obtain w where "decode_loop s 0 0 0 = Inr (map char_of (map byte bytes), w)" "unat w = 0"
    using decode_loop_numbers [of "number_encode (map byte bytes)" 0 0 0] range encode_numbers_decode [OF small] s
    by (auto simp: encode_numbers)
  moreover have "length s mod 4 \<noteq> 1"
    using range s by (simp add: encode_numbers)
  ultimately show "base64_decode s = Inr bytes"
    by (simp add: base64_decode_def comp_def unat_eq_zero)
next
  assume d: "base64_decode s = Inr bytes"
  then have loop: "decode_loop s 0 0 0 = Inr (bytes, 0)" and len: "length s mod 4 \<noteq> 1"
    by (auto simp: base64_decode_def split: if_splits sum.splits)
  obtain vs where vs: "s = map symbol vs" "\<forall>v \<in> set vs. v < 64"
    using decoded_symbols [OF loop] by blast
  obtain bs where bs: "number_loop vs 0 0 = (bs, 0)" "bytes = map char_of bs"
    using decode_loop_numbers [OF vs(2), of 0 0 0] loop vs(1) by (cases "number_loop vs 0 0") auto
  have "number_encode bs = vs"
    using decode_numbers_encode [OF vs(2) _ bs(1)] len vs(1) by simp
  moreover have "map byte bytes = bs"
    using number_loop_bytes [OF vs(2), of 0 0] bs by (auto simp: comp_def byte_char_of intro!: map_idI)
  ultimately show "s = base64_encode bytes"
    using vs(1) by (simp add: encode_numbers)
qed

end
