(* ===== verification/WorkspacePath.thy ===== *)
theory WorkspacePath
  imports OrdMap Utf8
begin

text \<open>
  Which file a path from the model stands for: \<open>crates/policy/src/path.rs\<close>, the checks in front of it in
  \<open>crates/workspace/src/path.rs\<close> and the roots of \<open>crates/workspace/src/lib.rs\<close>, as compiled for Unix. A
  \<open>Path\<close> is the list of its components, which is how Rust compares paths. The operating system is a record
  \<open>disk\<close> of functions on a state of its own, so its answers may change between two calls.
\<close>

subsection \<open>Paths\<close>

datatype path_component = RootDir | CurDir | ParentDir | Normal string

type_synonym path = "path_component list"

definition slash :: char where
  "slash = CHR ''/''"

definition is_absolute :: "string \<Rightarrow> bool" where
  "is_absolute s \<longleftrightarrow> s \<noteq> [] \<and> hd s = slash"

text \<open>\<open>Path::components\<close>: empty pieces and dots go, but for a dot at the start.\<close>

definition piece_component :: "bool \<Rightarrow> string \<Rightarrow> path" where
  "piece_component start p =
     (if p = [] then []
      else if p = ''.'' then (if start then [CurDir] else [])
      else if p = ''..'' then [ParentDir]
      else [Normal p])"

definition path_of :: "string \<Rightarrow> path" where
  "path_of s =
     (let ps = split_on slash s in
      if is_absolute s then RootDir # concat (map (piece_component False) ps)
      else piece_component True (hd ps) @ concat (map (piece_component False) (tl ps)))"

definition parent :: "path \<Rightarrow> path option" where
  "parent p = (if p = [] \<or> last p = RootDir then None else Some (butlast p))"

fun component_text :: "path_component \<Rightarrow> string" where
  "component_text RootDir = ''/''"
| "component_text CurDir = ''.''"
| "component_text ParentDir = ''..''"
| "component_text (Normal n) = n"

text \<open>\<open>to_string_lossy\<close>: each broken sequence becomes the replacement character.\<close>

definition replacement :: string where
  "replacement = [CHR 0xEF, CHR 0xBF, CHR 0xBD]"

function lossy :: "string \<Rightarrow> string" where
  "lossy [] = []"
| "lossy (a # s) =
     (case utf8_front_of a s of
        Whole n \<Rightarrow> a # take (n - 1) s @ lossy (drop (n - 1) s)
      | Broken n \<Rightarrow> replacement @ lossy (drop (n - 1) s)
      | Partial \<Rightarrow> replacement)"
  by pat_completeness auto

termination by (relation "measure length") auto

definition path_text :: "path \<Rightarrow> string" where
  "path_text p =
     (case p of
        RootDir # q \<Rightarrow> slash # join_on slash (map component_text q)
      | _ \<Rightarrow> join_on slash (map component_text p))"

definition path_lossy :: "path \<Rightarrow> string" where
  "path_lossy p = lossy (path_text p)"

subsection \<open>The operating system\<close>

datatype io_error = NotFoundError | OtherIoError string

datatype file_kind = RegularFile | DirectoryFile | SymlinkFile | BlockDevice | CharDevice | FifoFile | SocketFile | UnknownFile

record 'w disk =
  dk_canonicalize :: "'w \<Rightarrow> path \<Rightarrow> (io_error, path) result \<times> 'w"
  dk_symlink_kind :: "'w \<Rightarrow> path \<Rightarrow> (io_error, file_kind) result \<times> 'w"
  dk_is_dir :: "'w \<Rightarrow> path \<Rightarrow> bool \<times> 'w"

subsection \<open>\<open>resolve_workspace_path\<close>\<close>

datatype path_error =
    EmptyPath
  | AbsolutePath
  | TraversalPath string
  | SymlinkEscape
  | GitInternals
  | NonRegular
  | NoRoot
  | PathIo io_error

record resolved_path =
  rp_absolute :: path
  rp_root :: path
  rp_relative :: string

definition is_git_component :: "string \<Rightarrow> bool" where
  "is_git_component name \<longleftrightarrow> name = ''.git''"

definition has_git :: "path \<Rightarrow> bool" where
  "has_git p \<longleftrightarrow> list_ex (\<lambda>c. case c of Normal name \<Rightarrow> is_git_component name | _ \<Rightarrow> False) p"

text \<open>The loop over the components, with the stack last name first.\<close>

fun normalize_loop :: "string \<Rightarrow> path \<Rightarrow> string list \<Rightarrow> (path_error, string list) result" where
  "normalize_loop shown [] stack = Inr (rev stack)"
| "normalize_loop shown (CurDir # p) stack = normalize_loop shown p stack"
| "normalize_loop shown (Normal name # p) stack = normalize_loop shown p (name # stack)"
| "normalize_loop shown (ParentDir # p) stack =
     (case stack of [] \<Rightarrow> Inl (TraversalPath shown) | _ # s \<Rightarrow> normalize_loop shown p s)"
| "normalize_loop shown (RootDir # p) stack = Inl (TraversalPath shown)"

definition normalize_components :: "path \<Rightarrow> (path_error, string list) result" where
  "normalize_components p = normalize_loop (path_lossy p) p []"

definition relative_to_root :: "path \<Rightarrow> path \<Rightarrow> path option" where
  "relative_to_root p root = (if take (length root) p = root then Some (drop (length root) p) else None)"

definition path_within_root :: "path \<Rightarrow> path \<Rightarrow> bool" where
  "path_within_root p root \<longleftrightarrow> relative_to_root p root \<noteq> None"

definition within_any_root :: "path \<Rightarrow> path list \<Rightarrow> bool" where
  "within_any_root p roots \<longleftrightarrow> list_ex (path_within_root p) roots"

fun is_forbidden_file_type :: "file_kind \<Rightarrow> bool" where
  "is_forbidden_file_type BlockDevice = True"
| "is_forbidden_file_type CharDevice = True"
| "is_forbidden_file_type FifoFile = True"
| "is_forbidden_file_type SocketFile = True"
| "is_forbidden_file_type _ = False"

function canonicalize_deepest_existing :: "'w disk \<Rightarrow> 'w \<Rightarrow> path \<Rightarrow> (path_error, path) result \<times> 'w" where
  "canonicalize_deepest_existing d w p =
     (case dk_canonicalize d w p of
        (Inr c, w1) \<Rightarrow> (Inr c, w1)
      | (Inl NotFoundError, w1) \<Rightarrow>
          (case parent p of
             None \<Rightarrow> (Inl (PathIo NotFoundError), w1)
           | Some q \<Rightarrow>
               (case canonicalize_deepest_existing d w1 q of
                  (Inl e, w2) \<Rightarrow> (Inl e, w2)
                | (Inr c, w2) \<Rightarrow> (Inr (c @ drop (length q) p), w2)))
      | (Inl e, w1) \<Rightarrow> (Inl (PathIo e), w1))"
  by pat_completeness auto

termination by (relation "measure (\<lambda>(d, w, p). length p)") (auto simp: parent_def split: if_splits)

declare canonicalize_deepest_existing.simps [simp del]

definition matched_root :: "path \<Rightarrow> path list \<Rightarrow> (path_error, resolved_path) result" where
  "matched_root p canon_roots =
     (case find (path_within_root p) canon_roots of
        None \<Rightarrow> Inl SymlinkEscape
      | Some root \<Rightarrow>
          (case relative_to_root p root of
             None \<Rightarrow> Inl SymlinkEscape
           | Some rest \<Rightarrow> Inr \<lparr>rp_absolute = p, rp_root = root, rp_relative = path_lossy rest\<rparr>))"

text \<open>The second canonicalization, of a target that exists.\<close>

definition recheck_target ::
    "'w disk \<Rightarrow> 'w \<Rightarrow> path \<Rightarrow> path list \<Rightarrow> (path_error, path) result \<times> 'w" where
  "recheck_target d w p canon_roots =
     (case dk_canonicalize d w p of
        (Inl _, w1) \<Rightarrow> (Inr p, w1)
      | (Inr c, w1) \<Rightarrow>
          (if \<not> within_any_root c canon_roots then (Inl SymlinkEscape, w1)
           else (case dk_symlink_kind d w1 c of
                   (Inl e, w2) \<Rightarrow> (Inl (PathIo e), w2)
                 | (Inr k, w2) \<Rightarrow> (if is_forbidden_file_type k then Inl NonRegular else Inr c, w2))))"

definition parent_dir :: "path \<Rightarrow> string list \<Rightarrow> path" where
  "parent_dir root normalized =
     (if normalized = [] then root
      else case parent (root @ map Normal normalized) of Some q \<Rightarrow> q | None \<Rightarrow> root)"

definition resolve_against_root ::
    "'w disk \<Rightarrow> 'w \<Rightarrow> path \<Rightarrow> string list \<Rightarrow> path list \<Rightarrow> (path_error, resolved_path) result \<times> 'w" where
  "resolve_against_root d w root normalized canon_roots =
     (case canonicalize_deepest_existing d w (parent_dir root normalized) of
        (Inl e, w1) \<Rightarrow> (Inl e, w1)
      | (Inr canon_parent, w1) \<Rightarrow>
          (let resolved = (if normalized = [] then canon_parent else canon_parent @ [Normal (last normalized)]) in
           if \<not> within_any_root resolved canon_roots then (Inl SymlinkEscape, w1)
           else (case recheck_target d w1 resolved canon_roots of
                   (Inl e, w2) \<Rightarrow> (Inl e, w2)
                 | (Inr p, w2) \<Rightarrow> (matched_root p canon_roots, w2))))"

fun canonical_roots :: "'w disk \<Rightarrow> 'w \<Rightarrow> path list \<Rightarrow> path list \<times> 'w" where
  "canonical_roots d w [] = ([], w)"
| "canonical_roots d w (root # roots) =
     (case dk_canonicalize d w root of
        (Inl _, w1) \<Rightarrow> canonical_roots d w1 roots
      | (Inr c, w1) \<Rightarrow> (case canonical_roots d w1 roots of (cs, w2) \<Rightarrow> (c # cs, w2)))"

fun try_roots ::
    "'w disk \<Rightarrow> 'w \<Rightarrow> path list \<Rightarrow> string list \<Rightarrow> path list \<Rightarrow> path_error \<Rightarrow> (path_error, resolved_path) result \<times> 'w" where
  "try_roots d w [] normalized canon_roots last_err = (Inl last_err, w)"
| "try_roots d w (root # roots) normalized canon_roots last_err =
     (case resolve_against_root d w root normalized canon_roots of
        (Inr r, w1) \<Rightarrow> (Inr r, w1)
      | (Inl e, w1) \<Rightarrow> try_roots d w1 roots normalized canon_roots e)"

definition resolve_workspace_path ::
    "'w disk \<Rightarrow> 'w \<Rightarrow> path list \<Rightarrow> string \<Rightarrow> (path_error, resolved_path) result \<times> 'w" where
  "resolve_workspace_path d w roots relative =
     (if relative = [] then (Inl EmptyPath, w)
      else if is_absolute relative then (Inl AbsolutePath, w)
      else if has_git (path_of relative) then (Inl GitInternals, w)
      else (case normalize_components (path_of relative) of
              Inl e \<Rightarrow> (Inl e, w)
            | Inr normalized \<Rightarrow>
                (if roots = [] then (Inl NoRoot, w)
                 else (case canonical_roots d w roots of
                         (canon_roots, w1) \<Rightarrow>
                           (if canon_roots = [] then (Inl NoRoot, w1)
                            else try_roots d w1 roots normalized canon_roots NoRoot)))))"

subsection \<open>\<open>resolve_relative_path\<close>\<close>

datatype workspace_path_error = ReservedDeviceName string | PolicyPath path_error

definition ascii_letter :: "char \<Rightarrow> bool" where
  "ascii_letter c \<longleftrightarrow> byte_in 65 90 c \<or> byte_in 97 122 c"

text \<open>Windows drives and network shares are refused on every system.\<close>

definition is_absolute_input :: "string \<Rightarrow> bool" where
  "is_absolute_input s \<longleftrightarrow>
     is_absolute s \<or> take 2 s = [CHR 0x5C, CHR 0x5C] \<or> take 2 s = ''//'' \<or>
     (case s of a # b # _ \<Rightarrow> b = CHR '':'' \<and> ascii_letter a | _ \<Rightarrow> False)"

definition reserved_device_names :: "string list" where
  "reserved_device_names =
     [''CON'', ''PRN'', ''AUX'', ''NUL'',
      ''COM1'', ''COM2'', ''COM3'', ''COM4'', ''COM5'', ''COM6'', ''COM7'', ''COM8'', ''COM9'',
      ''LPT1'', ''LPT2'', ''LPT3'', ''LPT4'', ''LPT5'', ''LPT6'', ''LPT7'', ''LPT8'', ''LPT9'']"

definition reserved_device_name :: "string \<Rightarrow> string option" where
  "reserved_device_name name =
     (let raw = lossy name; stripped = List.rev (dropWhile (\<lambda>c. c = CHR ''.'' \<or> c = CHR '' '') (List.rev raw)) in
      if list_ex (\<lambda>r. eq_ignore_case stripped r) reserved_device_names then Some raw else None)"

fun first_reserved :: "path \<Rightarrow> string option" where
  "first_reserved [] = None"
| "first_reserved (Normal name # p) = (case reserved_device_name name of Some r \<Rightarrow> Some r | None \<Rightarrow> first_reserved p)"
| "first_reserved (_ # p) = first_reserved p"

definition resolve_relative_path ::
    "'w disk \<Rightarrow> 'w \<Rightarrow> path list \<Rightarrow> string \<Rightarrow> (workspace_path_error, resolved_path) result \<times> 'w" where
  "resolve_relative_path d w roots relative =
     (if relative = [] then (Inl (PolicyPath EmptyPath), w)
      else if is_absolute_input relative then (Inl (PolicyPath AbsolutePath), w)
      else (case first_reserved (path_of relative) of
              Some r \<Rightarrow> (Inl (ReservedDeviceName r), w)
            | None \<Rightarrow> apfst (map_sum PolicyPath id) (resolve_workspace_path d w roots relative)))"

subsection \<open>Roots of a workspace\<close>

record workspace =
  wk_id :: string
  wk_name :: string
  wk_roots :: "path list"

datatype workspace_error =
    WorkspaceExists string
  | WorkspaceNotFound string
  | NoRoots
  | RootIsNotDirectory path
  | InvalidRoot path io_error

type_synonym workspace_service = "(string, workspace) btree"

definition path_key :: "path \<Rightarrow> string" where
  "path_key p = map (\<lambda>c. if c = CHR 0x5C then slash else c) (path_lossy p)"

definition normalize_root :: "'w disk \<Rightarrow> 'w \<Rightarrow> path \<Rightarrow> (workspace_error, path) result \<times> 'w" where
  "normalize_root d w p =
     (case dk_canonicalize d w p of
        (Inl e, w1) \<Rightarrow> (Inl (InvalidRoot p e), w1)
      | (Inr c, w1) \<Rightarrow> (case dk_is_dir d w1 c of (b, w2) \<Rightarrow> (if b then Inr c else Inl (RootIsNotDirectory c), w2)))"

text \<open>The loop: the keys seen and the roots kept so far.\<close>

fun normalize_roots_loop ::
    "'w disk \<Rightarrow> 'w \<Rightarrow> path list \<Rightarrow> string list \<Rightarrow> path list \<Rightarrow> (workspace_error, path list) result \<times> 'w" where
  "normalize_roots_loop d w [] seen kept = (if kept = [] then Inl NoRoots else Inr kept, w)"
| "normalize_roots_loop d w (p # ps) seen kept =
     (case normalize_root d w p of
        (Inl e, w1) \<Rightarrow> (Inl e, w1)
      | (Inr root, w1) \<Rightarrow>
          (if path_key root \<in> set seen then normalize_roots_loop d w1 ps seen kept
           else normalize_roots_loop d w1 ps (path_key root # seen) (kept @ [root])))"

definition normalize_roots :: "'w disk \<Rightarrow> 'w \<Rightarrow> path list \<Rightarrow> (workspace_error, path list) result \<times> 'w" where
  "normalize_roots d w ps = normalize_roots_loop d w ps [] []"

definition workspace_add ::
    "'w disk \<Rightarrow> 'w \<Rightarrow> workspace_service \<Rightarrow> string \<Rightarrow> string \<Rightarrow> path list
      \<Rightarrow> ((workspace_error, workspace) result \<times> workspace_service) \<times> 'w" where
  "workspace_add d w s i name roots =
     (case normalize_roots d w roots of
        (Inl e, w1) \<Rightarrow> ((Inl e, s), w1)
      | (Inr rs, w1) \<Rightarrow>
          (if bt_has s i then ((Inl (WorkspaceExists i), s), w1)
           else (let k = \<lparr>wk_id = i, wk_name = name, wk_roots = rs\<rparr> in ((Inr k, bt_put i k s), w1))))"

definition workspace_get :: "workspace_service \<Rightarrow> string \<Rightarrow> workspace option" where
  "workspace_get s i = bt_get s i"

text \<open>What the file tools do with a path: \<open>workspace_roots\<close> and \<open>resolve_write_rel\<close> of \<open>crates/tools/src/common.rs\<close>.\<close>

datatype tool_path_error = ToolWorkspace workspace_error | ToolPolicyPath path_error

definition workspace_roots :: "workspace_service \<Rightarrow> string \<Rightarrow> (tool_path_error, path list) result" where
  "workspace_roots s i =
     (case workspace_get s i of None \<Rightarrow> Inl (ToolWorkspace (WorkspaceNotFound i)) | Some k \<Rightarrow> Inr (wk_roots k))"

definition resolve_write_rel :: "'w disk \<Rightarrow> 'w \<Rightarrow> path list \<Rightarrow> string \<Rightarrow> (tool_path_error, path) result \<times> 'w" where
  "resolve_write_rel d w roots relative =
     apfst (map_sum ToolPolicyPath rp_absolute) (resolve_workspace_path d w roots relative)"

end
