(* ===== verification/WorkspaceTree.thy ===== *)
theory WorkspaceTree
  imports WorkspacePath
begin

text \<open>
  A file system for \<open>WorkspacePath\<close>: a tree of directories, files, devices and symbolic links, and the
  \<open>canonicalize\<close> of the standard library over it (\<open>realpath\<close>: links are followed, at most a fixed number of
  them). It interprets the law \<open>canonical_disk\<close>.
\<close>

subsection \<open>The tree\<close>

datatype node = FileNode | DirNode | LinkNode path | SpecialNode file_kind

type_synonym tree = "string list \<Rightarrow> node option"

fun link_target :: "node \<Rightarrow> path option" where
  "link_target (LinkNode q) = Some q"
| "link_target _ = None"

abbreviation is_link :: "node \<Rightarrow> bool" where
  "is_link x \<equiv> link_target x \<noteq> None"

definition tree_wf :: "tree \<Rightarrow> bool" where
  "tree_wf t \<longleftrightarrow>
     t [] = Some DirNode \<and>
     (\<forall>dn n. t (dn @ [n]) \<noteq> None \<longrightarrow> t dn = Some DirNode) \<and>
     (\<forall>dn k. t dn = Some (SpecialNode k) \<longrightarrow> is_forbidden_file_type k)"

function walk :: "tree \<Rightarrow> nat \<Rightarrow> string list \<Rightarrow> path \<Rightarrow> (io_error, string list) result" where
  "walk t l dn [] = Inr dn"
| "walk t l dn (RootDir # p) = walk t l [] p"
| "walk t l dn (CurDir # p) = walk t l dn p"
| "walk t l dn (ParentDir # p) = walk t l (butlast dn) p"
| "walk t l dn (Normal n # p) =
     (if t dn \<noteq> Some DirNode then Inl (OtherIoError ''not a directory'')
      else (case t (dn @ [n]) of
              None \<Rightarrow> Inl NotFoundError
            | Some x \<Rightarrow>
                (case link_target x of
                   None \<Rightarrow> walk t l (dn @ [n]) p
                 | Some q \<Rightarrow> (if l = 0 then Inl (OtherIoError ''too many links'') else walk t (l - 1) dn (q @ p)))))"
  by pat_completeness auto

termination by (relation "measures [\<lambda>(t, l, dn, p). l, \<lambda>(t, l, dn, p). length p]") auto

definition full_path :: "string list \<Rightarrow> path" where
  "full_path ns = RootDir # map Normal ns"

definition names_of :: "path \<Rightarrow> string list" where
  "names_of p = map component_text (tl p)"

definition node_kind :: "node \<Rightarrow> file_kind" where
  "node_kind x = (case x of FileNode \<Rightarrow> RegularFile | DirNode \<Rightarrow> DirectoryFile | LinkNode _ \<Rightarrow> SymlinkFile | SpecialNode k \<Rightarrow> k)"

text \<open>Its state never changes; relative paths start at the directory \<open>cwd\<close>.\<close>

definition tree_disk :: "tree \<Rightarrow> nat \<Rightarrow> string list \<Rightarrow> unit disk" where
  "tree_disk t l cwd =
     \<lparr>dk_canonicalize = (\<lambda>w p. (if p = [] then Inl NotFoundError else map_sum id full_path (walk t l cwd p), w)),
      dk_symlink_kind = (\<lambda>w p. (case t (names_of p) of None \<Rightarrow> Inl NotFoundError | Some x \<Rightarrow> Inr (node_kind x), w)),
      dk_is_dir = (\<lambda>w p. (case walk t l cwd p of Inr c \<Rightarrow> t c = Some DirNode | Inl _ \<Rightarrow> False, w))\<rparr>"

lemma tree_disk_simps [simp]:
  "p \<noteq> [] \<Longrightarrow> dk_canonicalize (tree_disk t l cwd) w p = (map_sum id full_path (walk t l cwd p), w)"
  "dk_canonicalize (tree_disk t l cwd) w [] = (Inl NotFoundError, w)"
  "dk_symlink_kind (tree_disk t l cwd) w p = (case t (names_of p) of None \<Rightarrow> Inl NotFoundError | Some x \<Rightarrow> Inr (node_kind x), w)"
  by (simp_all add: tree_disk_def)

lemma names_of_full [simp]: "names_of (full_path ns) = ns"
  by (simp add: names_of_def full_path_def comp_def)

lemma full_path_simps [simp]: "full_path ns \<noteq> []" "full_path a = full_path b \<longleftrightarrow> a = b"
  by (auto simp: full_path_def inj_map_eq_map inj_def)

lemma full_path_append: "full_path ns @ map Normal ms = full_path (ns @ ms)"
  by (simp add: full_path_def)

lemma walk_full [simp]: "walk t l cwd (full_path ns) = walk t l [] (map Normal ns)"
  by (simp add: full_path_def)

lemma parent_full [simp]: "parent (full_path []) = None" "parent (full_path (ns @ [n])) = Some (full_path ns)"
  by (simp_all add: parent_def full_path_def)

subsection \<open>Places without links\<close>

definition real_place :: "tree \<Rightarrow> string list \<Rightarrow> bool" where
  "real_place t ns \<longleftrightarrow>
     (\<forall>k \<le> length ns. \<exists>x. t (take k ns) = Some x \<and> \<not> is_link x \<and> (k < length ns \<longrightarrow> x = DirNode))"

lemma real_Nil [simp]: "tree_wf t \<Longrightarrow> real_place t []"
  by (simp add: real_place_def tree_wf_def)

lemma real_snoc:
  "real_place t (ns @ [n]) \<longleftrightarrow> real_place t ns \<and> t ns = Some DirNode \<and> (\<exists>x. t (ns @ [n]) = Some x \<and> \<not> is_link x)"
proof
  assume r: "real_place t (ns @ [n])"
  have at: "\<exists>x. t (take k (ns @ [n])) = Some x \<and> \<not> is_link x \<and> (k < Suc (length ns) \<longrightarrow> x = DirNode)" if "k \<le> Suc (length ns)" for k
    using r that by (simp add: real_place_def)
  have "real_place t ns"
    unfolding real_place_def
  proof (intro allI impI)
    fix k assume "k \<le> length ns"
    then show "\<exists>x. t (take k ns) = Some x \<and> \<not> is_link x \<and> (k < length ns \<longrightarrow> x = DirNode)"
      using at [of k] by auto
  qed
  then show "real_place t ns \<and> t ns = Some DirNode \<and> (\<exists>x. t (ns @ [n]) = Some x \<and> \<not> is_link x)"
    using at [of "length ns"] at [of "Suc (length ns)"] by auto
next
  assume r: "real_place t ns \<and> t ns = Some DirNode \<and> (\<exists>x. t (ns @ [n]) = Some x \<and> \<not> is_link x)"
  show "real_place t (ns @ [n])"
    unfolding real_place_def
  proof (intro allI impI)
    fix k assume "k \<le> length (ns @ [n])"
    then consider "k < length ns" | "k = length ns" | "k = Suc (length ns)"
      by fastforce
    then show "\<exists>x. t (take k (ns @ [n])) = Some x \<and> \<not> is_link x \<and> (k < length (ns @ [n]) \<longrightarrow> x = DirNode)"
    proof cases
      case 1
      then show ?thesis
        using r by (auto simp: real_place_def dest!: spec [where x = k])
    qed (use r in auto)
  qed
qed

lemma real_butlast: "real_place t ns \<Longrightarrow> real_place t (butlast ns)"
  by (cases ns rule: rev_cases) (auto simp: real_snoc)

lemma real_take: "real_place t ns \<Longrightarrow> real_place t (take k ns)"
proof (induction ns rule: rev_induct)
  case (snoc n ns)
  then show ?case
    by (cases "k \<le> length ns") (auto simp: real_snoc)
qed simp

text \<open>What \<open>canonicalize\<close> answers is such a place, and a place without links is its own answer.\<close>

lemma walk_Normal_cases [consumes 1, case_names link node]:
  assumes "walk t l dn (Normal n # p) = Inr c"
  obtains x q where "t dn = Some DirNode" "t (dn @ [n]) = Some x" "link_target x = Some q" "l \<noteq> 0" "walk t (l - 1) dn (q @ p) = Inr c"
    | x where "t dn = Some DirNode" "t (dn @ [n]) = Some x" "link_target x = None" "walk t l (dn @ [n]) p = Inr c"
  using assms by (auto split: if_splits option.splits)

lemma walk_real: "walk t l dn p = Inr c \<Longrightarrow> tree_wf t \<Longrightarrow> real_place t dn \<Longrightarrow> real_place t c"
proof (induction t l dn p rule: walk.induct)
  case (5 t l dn n p)
  from 5(3) show ?case
  proof (cases rule: walk_Normal_cases)
    case (link x q)
    then show ?thesis
      using 5(2) [OF _ link(2,3,4)] 5(4,5) by simp
  next
    case (node x)
    then have "real_place t (dn @ [n])"
      using 5(5) by (simp add: real_snoc)
    then show ?thesis
      using 5(1) [OF _ node(2,3)] 5(4) node by simp
  qed
qed (simp_all add: real_butlast)

lemma walk_along: "real_place t (dn @ ns) \<Longrightarrow> walk t l dn (map Normal ns @ p) = walk t l (dn @ ns) p"
proof (induction ns arbitrary: dn)
  case (Cons n ns)
  have "real_place t (dn @ [n])"
    using real_take [OF Cons(2), of "Suc (length dn)"] by simp
  then show ?case
    using Cons(1) [of "dn @ [n]"] Cons(2) by (auto simp: real_snoc)
qed simp

lemma walk_real_place: "real_place t ns \<Longrightarrow> walk t l [] (map Normal ns) = Inr ns"
  using walk_along [of t "[]" ns l "[]"] by simp

lemma walk_then: "walk t l dn p = Inr c \<Longrightarrow> \<exists>l' \<le> l. \<forall>q. walk t l dn (p @ q) = walk t l' c q"
proof (induction t l dn p rule: walk.induct)
  case (5 t l dn n p)
  from 5(3) show ?case
  proof (cases rule: walk_Normal_cases)
    case (link x q)
    then obtain l' where "l' \<le> l - 1" "\<forall>r. walk t (l - 1) dn ((q @ p) @ r) = walk t l' c r"
      using 5(2) [OF _ link(2,3,4)] by auto
    then show ?thesis
      using link by (intro exI [where x = l']) auto
  next
    case (node x)
    then show ?thesis
      using 5(1) [OF _ node(2,3)] by simp
  qed
qed auto

text \<open>With fewer links to follow the answer is the same or there were too many.\<close>

lemma walk_less: "walk t l dn p = Inr c \<Longrightarrow> k \<le> l \<Longrightarrow> walk t k dn p \<in> {Inr c, Inl (OtherIoError ''too many links'')}"
proof (induction t l dn p arbitrary: k rule: walk.induct)
  case (5 t l dn n p)
  from 5(3) show ?case
  proof (cases rule: walk_Normal_cases)
    case (link x q)
    then have "k = 0 \<or> walk t (k - 1) dn (q @ p) \<in> {Inr c, Inl (OtherIoError ''too many links'')}"
      using 5(2) [OF _ link(2,3,4), of "k - 1"] 5(4) by simp
    then show ?thesis
      using link by auto
  next
    case (node x)
    then show ?thesis
      using 5(1) [OF _ node(2,3)] 5(4) by simp
  qed
qed simp_all

end
