(* ===== verification/WorkspaceProps.thy ===== *)
theory WorkspaceProps
  imports WorkspaceTree
begin

text \<open>A path from the model cannot leave the roots, whatever the disk answers, and on a tree with links.\<close>

subsection \<open>Any disk\<close>

lemma matched_root_inside:
  assumes "matched_root p roots = Inr r"
  shows "rp_root r \<in> set roots" and "\<exists>rest. rp_absolute r = rp_root r @ rest \<and> rp_relative r = path_lossy rest"
    and "rp_absolute r = p"
proof -
  from assms obtain root rest where root: "find (path_within_root p) roots = Some root"
    and rest: "relative_to_root p root = Some rest"
    and r: "r = \<lparr>rp_absolute = p, rp_root = root, rp_relative = path_lossy rest\<rparr>"
    by (auto simp: matched_root_def split: option.splits)
  show "rp_root r \<in> set roots"
    using root r by (auto simp: find_Some_iff)
  have "p = root @ rest"
    using rest unfolding relative_to_root_def by (metis append_take_drop_id option.distinct(1) option.inject)
  then show "\<exists>rest. rp_absolute r = rp_root r @ rest \<and> rp_relative r = path_lossy rest" and "rp_absolute r = p"
    using r by auto
qed

lemma resolve_against_inside:
  "resolve_against_root d w root normalized roots = (Inr r, w') \<Longrightarrow> \<exists>p. matched_root p roots = Inr r"
  by (auto simp: resolve_against_root_def Let_def split: prod.splits sum.splits if_splits)

lemma try_roots_inside:
  "try_roots d w rs normalized roots e = (Inr r, w') \<Longrightarrow> \<exists>p. matched_root p roots = Inr r"
  by (induction d w rs normalized roots e rule: try_roots.induct)
     (auto split: prod.splits sum.splits dest: resolve_against_inside)

lemma canonical_roots_answers:
  "c \<in> set (fst (canonical_roots d w roots)) \<Longrightarrow>
     \<exists>root \<in> set roots. \<exists>w1. fst (dk_canonicalize d w1 root) = Inr c"
proof (induction d w roots rule: canonical_roots.induct)
  case (2 d w root roots)
  obtain a w1 where a: "dk_canonicalize d w root = (a, w1)"
    by (cases "dk_canonicalize d w root")
  obtain cs1 w2 where cs1: "canonical_roots d w1 roots = (cs1, w2)"
    by (cases "canonical_roots d w1 roots")
  consider "c \<in> set cs1" | "a = Inr c"
    using 2(3) a cs1 by (cases a) auto
  then show ?case
  proof cases
    case 1
    then show ?thesis
      using 2(1,2) a cs1 by (cases a) auto
  next
    case 2
    then have "fst (dk_canonicalize d w root) = Inr c"
      using a by simp
    then show ?thesis
      by (metis list.set_intros(1))
  qed
qed simp

text \<open>The stack never runs empty: at no point more steps up than names.\<close>

definition climbs :: "path \<Rightarrow> bool" where
  "climbs p \<longleftrightarrow> (\<exists>k. length (filter (\<lambda>c. c \<noteq> ParentDir \<and> c \<noteq> CurDir) (take k p)) < length (filter ((=) ParentDir) (take k p)))"

lemma normalize_loop_stays:
  "normalize_loop s p stack = Inr ns \<Longrightarrow>
     RootDir \<notin> set p \<and>
     (\<forall>k. length (filter ((=) ParentDir) (take k p))
        \<le> length stack + length (filter (\<lambda>c. c \<noteq> ParentDir \<and> c \<noteq> CurDir) (take k p)))"
proof (induction s p stack rule: normalize_loop.induct)
  case (2 s p stack)
  then show ?case
    by (auto simp: take_Cons' split: nat.split)
next
  case (3 s n p stack)
  then show ?case
    by (fastforce simp: take_Cons' split: nat.split)
next
  case (4 s p stack)
  then show ?case
    by (fastforce simp: take_Cons' split: list.splits nat.split)
qed simp_all

lemma resolve_request:
  assumes "resolve_workspace_path d w roots rel = (Inr r, w')"
  obtains normalized cs w1 where "\<not> is_absolute rel" "\<not> has_git (path_of rel)"
    "normalize_components (path_of rel) = Inr normalized" "canonical_roots d w roots = (cs, w1)"
    "try_roots d w1 roots normalized cs NoRoot = (Inr r, w')"
  using assms by (auto simp: resolve_workspace_path_def split: if_splits sum.splits prod.splits)

text \<open>
  C18: Whatever the operating system answers, and however its answers change between the calls: a path that the tools
  accept was relative, named no \<open>.git\<close> and had at no point more steps up than names before them; the absolute path
  it stands for lies, component by component, below what \<open>canonicalize\<close> answered for one of the roots of the
  workspace, and the reported relative path is the rest.
\<close>

theorem accepted_paths_stay_inside:
  assumes "fst (resolve_workspace_path d w roots rel) = Inr r"
  shows "\<not> is_absolute rel \<and> Normal ''.git'' \<notin> set (path_of rel) \<and> \<not> climbs (path_of rel) \<and>
    (\<exists>root \<in> set roots. \<exists>w1 rest. fst (dk_canonicalize d w1 root) = Inr (rp_root r) \<and>
       rp_absolute r = rp_root r @ rest \<and> rp_relative r = path_lossy rest)"
proof -
  obtain w' where "resolve_workspace_path d w roots rel = (Inr r, w')"
    using assms by (cases "resolve_workspace_path d w roots rel") simp
  then obtain normalized cs w1 where req: "\<not> is_absolute rel" "\<not> has_git (path_of rel)"
      "normalize_components (path_of rel) = Inr normalized" "canonical_roots d w roots = (cs, w1)"
      "try_roots d w1 roots normalized cs NoRoot = (Inr r, w')"
    by (rule resolve_request)
  obtain p where p: "matched_root p cs = Inr r"
    using try_roots_inside [OF req(5)] by blast
  note inside = matched_root_inside [OF p]
  obtain root w2 where "root \<in> set roots" "fst (dk_canonicalize d w2 root) = Inr (rp_root r)"
    using canonical_roots_answers [of "rp_root r" d w roots] req(4) inside(1) by auto
  moreover have "\<not> climbs (path_of rel)"
    using normalize_loop_stays [OF req(3) [unfolded normalize_components_def]] by (auto simp: climbs_def not_less)
  moreover have "Normal ''.git'' \<notin> set (path_of rel)"
    using req(2) by (auto simp: has_git_def is_git_component_def list_ex_iff)
  ultimately show ?thesis
    using inside(2) req(1) by blast
qed

subsection \<open>A tree with links\<close>

text \<open>
  \<open>settled\<close>: the names up to \<open>k\<close> exist without a link among them, and the next one does not exist. With no dangling
  link this is what every answer of \<open>canonicalize_deepest_existing\<close> looks like.
\<close>

definition settled :: "tree \<Rightarrow> string list \<Rightarrow> nat \<Rightarrow> bool" where
  "settled t ns k \<longleftrightarrow> k \<le> length ns \<and> real_place t (take k ns) \<and> (k < length ns \<longrightarrow> t (take (Suc k) ns) = None)"

definition links_resolve :: "tree \<Rightarrow> nat \<Rightarrow> bool" where
  "links_resolve t l \<longleftrightarrow>
     l > 0 \<and> (\<forall>dn n q. t (dn @ [n]) = Some (LinkNode q) \<longrightarrow> is_ok (walk t (l - 1) dn q))"

lemma link_target_Some: "link_target x = Some q \<longleftrightarrow> x = LinkNode q"
  by (cases x) simp_all

lemma link_found:
  assumes "links_resolve t l" and "t (dn @ [n]) = Some x" and "link_target x = Some q" and "k < l"
  shows "walk t k dn q \<noteq> Inl NotFoundError" and "k = l - 1 \<Longrightarrow> \<exists>c. walk t k dn q = Inr c"
proof -
  have "x = LinkNode q"
    using assms(3) by (simp add: link_target_Some)
  then have "is_ok (walk t (l - 1) dn q)"
    using assms(1,2) by (simp add: links_resolve_def)
  then obtain c where c: "walk t (l - 1) dn q = Inr c"
    by (cases "walk t (l - 1) dn q") simp_all
  then show "k = l - 1 \<Longrightarrow> \<exists>c. walk t k dn q = Inr c"
    by blast
  have "k \<le> l - 1"
    using assms(4) by simp
  from walk_less [OF c this] show "walk t k dn q \<noteq> Inl NotFoundError"
    by auto
qed

text \<open>What is missing below a place is not there at all.\<close>

lemma missing_name:
  assumes "links_resolve t l" and "walk t k dn [Normal n] = Inl NotFoundError" and "k \<le> l"
  shows "t (dn @ [n]) = None"
proof (cases "t (dn @ [n])")
  case (Some x)
  then have dir: "t dn = Some DirNode"
    using assms(2) by (auto split: if_splits)
  show ?thesis
  proof (cases "link_target x")
    case None
    then show ?thesis
      using assms(2) Some dir by simp
  next
    case (Some q)
    then have "k \<noteq> 0" "walk t (k - 1) dn q = Inl NotFoundError"
      using assms(2) \<open>t (dn @ [n]) = Some x\<close> dir by (auto split: if_splits)
    then have "k - 1 < l"
      using assms(3) by simp
    from link_found(1) [OF assms(1) \<open>t (dn @ [n]) = Some x\<close> Some this] show ?thesis
      using \<open>walk t (k - 1) dn q = Inl NotFoundError\<close> by blast
  qed
qed simp

lemma last_of_full [simp]: "drop (length (full_path ps)) (full_path (ps @ [n])) = [Normal n]"
  by (simp add: full_path_def)

lemma deepest_settled:
  assumes "tree_wf t" and "links_resolve t l"
    and "fst (canonicalize_deepest_existing (tree_disk t l cwd) w (full_path ps)) = Inr c"
  shows "\<exists>ns k. c = full_path ns \<and> settled t ns k \<and> (k = length ns \<longrightarrow> walk t l [] (map Normal ps) = Inr ns)"
  using assms(3)
proof (induction ps arbitrary: c w rule: rev_induct)
  case Nil
  then show ?case
    using assms(1)
    by (intro exI [where x = "[]"] exI [where x = 0])
       (simp add: settled_def canonicalize_deepest_existing.simps [of _ _ "full_path []"])
next
  case (snoc n ps)
  show ?case
  proof (cases "walk t l [] (map Normal (ps @ [n]))")
    case (Inr ns)
    have "real_place t ns"
      using walk_real [OF Inr assms(1)] assms(1) by simp
    moreover have "c = full_path ns"
      using snoc(2) Inr by (simp add: canonicalize_deepest_existing.simps [of _ _ "full_path (ps @ [n])"])
    ultimately show ?thesis
      using Inr by (intro exI [where x = ns] exI [where x = "length ns"]) (simp add: settled_def)
  next
    case (Inl e)
    then have e: "e = NotFoundError"
      using snoc(2)
      by (cases e) (simp_all add: canonicalize_deepest_existing.simps [of _ _ "full_path (ps @ [n])"])
    obtain c1 where c1: "fst (canonicalize_deepest_existing (tree_disk t l cwd) w (full_path ps)) = Inr c1"
      and c: "c = c1 @ [Normal n]"
      using snoc(2) Inl e
      by (auto simp: canonicalize_deepest_existing.simps [of _ _ "full_path (ps @ [n])"] split: prod.splits sum.splits)
    obtain ns k where ns: "c1 = full_path ns" "settled t ns k" "k = length ns \<longrightarrow> walk t l [] (map Normal ps) = Inr ns"
      using snoc(1) [OF c1] by blast
    have "settled t (ns @ [n]) k"
    proof (cases "k = length ns")
      case True
      then obtain l' where "l' \<le> l" "\<forall>q. walk t l [] (map Normal ps @ q) = walk t l' ns q"
        using ns(3) walk_then by blast
      then have "t (ns @ [n]) = None"
        using Inl e missing_name [OF assms(2)] by simp
      then show ?thesis
        using ns(2) True by (simp add: settled_def)
    qed (use ns(2) in \<open>auto simp: settled_def\<close>)
    then show ?thesis
      using c ns(1,2) full_path_append [of ns "[n]"]
      by (intro exI [where x = "ns @ [n]"] exI [where x = k]) (auto simp: settled_def)
  qed
qed

lemma settled_next:
  assumes "tree_wf t" and "links_resolve t l" and "settled t ns k" and "walk t l [] (map Normal (ns @ [n])) = Inl e"
  shows "settled t (ns @ [n]) k"
proof (cases "k = length ns")
  case True
  then have real: "real_place t ns"
    using assms(3) by (simp add: settled_def)
  have "t (ns @ [n]) = None"
  proof (cases "t (ns @ [n])")
    case (Some x)
    then have dir: "t ns = Some DirNode"
      using assms(1) by (auto simp: tree_wf_def)
    have walk: "walk t l ns [Normal n] = Inl e"
      using walk_along [of t "[]" ns l "[Normal n]"] real assms(4) by simp
    show ?thesis
    proof (cases "link_target x")
      case None
      then show ?thesis
        using walk Some dir by simp
    next
      case q: (Some q)
      have "l > 0"
        using assms(2) by (simp add: links_resolve_def)
      then obtain c where "walk t (l - 1) ns q = Inr c"
        using link_found(2) [OF assms(2) Some q, of "l - 1"] by auto
      then show ?thesis
        using walk Some dir q \<open>l > 0\<close> by simp
    qed
  qed simp
  then show ?thesis
    using assms(3) True by (simp add: settled_def)
qed (use assms(3) in \<open>auto simp: settled_def\<close>)

lemma recheck_settled:
  assumes "tree_wf t" and "fst (recheck_target (tree_disk t l cwd) w (full_path ns) roots) = Inr p"
    and "\<And>e. walk t l [] (map Normal ns) = Inl e \<Longrightarrow> settled t ns k"
  shows "\<exists>ms j. p = full_path ms \<and> settled t ms j \<and> (j = length ms \<longrightarrow> t ms \<in> {Some FileNode, Some DirNode})"
proof (cases "walk t l [] (map Normal ns)")
  case (Inl e)
  then have "settled t ns k" "p = full_path ns"
    using assms(2,3) by (auto simp: recheck_target_def)
  moreover from this(1) have "k \<noteq> length ns"
    using walk_real_place [of t ns l] Inl by (auto simp: settled_def)
  ultimately show ?thesis
    by blast
next
  case (Inr ms)
  have real: "real_place t ms"
    using walk_real [OF Inr assms(1)] assms(1) by simp
  then obtain x where x: "t ms = Some x" "link_target x = None"
    by (auto simp: real_place_def dest!: spec [where x = "length ms"])
  have "p = full_path ms \<and> \<not> is_forbidden_file_type (node_kind x)"
    using assms(2) Inr x by (auto simp: recheck_target_def split: if_splits)
  moreover have "x = FileNode \<or> x = DirNode"
    using x assms(1) calculation by (cases x) (auto simp: tree_wf_def node_kind_def)
  ultimately show ?thesis
    using real x by (intro exI [where x = ms] exI [where x = "length ms"]) (auto simp: settled_def)
qed

lemma resolve_against_settled:
  assumes "tree_wf t" and "links_resolve t l"
    and "fst (resolve_against_root (tree_disk t l cwd) w (full_path rs) normalized roots) = Inr r"
  shows "\<exists>ms j. rp_absolute r = full_path ms \<and> settled t ms j \<and> (j = length ms \<longrightarrow> t ms \<in> {Some FileNode, Some DirNode})"
proof -
  let ?d = "tree_disk t l cwd"
  define ps where "ps = rs @ butlast normalized"
  have dir: "parent_dir (full_path rs) normalized = full_path ps"
  proof (cases normalized rule: rev_cases)
    case (snoc ys y)
    then show ?thesis
      using full_path_append [of rs "ys @ [y]"] parent_full(2) [of "rs @ ys" y] by (simp add: parent_dir_def ps_def)
  qed (simp add: parent_dir_def ps_def)
  obtain c w1 where deep: "canonicalize_deepest_existing ?d w (full_path ps) = (Inr c, w1)"
    using assms(3) dir by (auto simp: resolve_against_root_def split: prod.splits sum.splits)
  obtain ns k where ns: "c = full_path ns" "settled t ns k"
    using deepest_settled [OF assms(1,2)] deep by (metis fst_conv)
  define target where "target = (if normalized = [] then ns else ns @ [last normalized])"
  obtain p where p: "fst (recheck_target ?d w1 (full_path target) roots) = Inr p" and r: "matched_root p roots = Inr r"
    using assms(3) dir deep ns(1) full_path_append [of ns "[last normalized]"]
    by (auto simp: resolve_against_root_def target_def Let_def split: prod.splits sum.splits if_splits)
  have "settled t target k" if "walk t l [] (map Normal target) = Inl e" for e
    using that settled_next [OF assms(1,2) ns(2)] ns(2) by (auto simp: target_def split: if_splits)
  from recheck_settled [OF assms(1) p this] show ?thesis
    using matched_root_inside(3) [OF r] by auto
qed

lemma try_roots_settled:
  assumes "tree_wf t" and "links_resolve t l" and "\<forall>root \<in> set rs. \<exists>ns. root = full_path ns"
    and "fst (try_roots (tree_disk t l cwd) w rs normalized roots e) = Inr r"
  shows "\<exists>ms j. rp_absolute r = full_path ms \<and> settled t ms j \<and> (j = length ms \<longrightarrow> t ms \<in> {Some FileNode, Some DirNode})"
  using assms(3,4)
proof (induction rs arbitrary: w e)
  case (Cons root rs)
  obtain ns where root: "root = full_path ns"
    using Cons(2) by auto
  obtain a w1 where a: "resolve_against_root (tree_disk t l cwd) w root normalized roots = (a, w1)"
    by (cases "resolve_against_root (tree_disk t l cwd) w root normalized roots")
  show ?case
  proof (cases a)
    case (Inl e1)
    then show ?thesis
      using Cons(1) [of w1 e1] Cons(2,3) a by auto
  next
    case (Inr r1)
    then have "r1 = r"
      using Cons(3) a by simp
    then show ?thesis
      using resolve_against_settled [OF assms(1,2), of cwd w ns normalized roots r] a Inr root by simp
  qed
qed simp

lemma settled_past_root:
  assumes "settled t (rs @ rest) k" and "real_place t rs"
  shows "length rs \<le> k"
proof (rule ccontr)
  assume "\<not> length rs \<le> k"
  then have "t (take (Suc k) (rs @ rest)) = None"
    using assms(1) by (auto simp: settled_def)
  moreover have "Suc k \<le> length rs"
    using \<open>\<not> length rs \<le> k\<close> by simp
  ultimately show False
    using assms(2) by (auto simp: real_place_def)
qed

text \<open>
  C40: On a file system whose links all lead somewhere, an accepted path is free of surprises: below a root without links
  there is a directory chain without links, up to the end, where the target is a regular file or a directory, or up to a
  name that does not exist. So opening, creating or replacing that path touches what is in the workspace.
\<close>

theorem accepted_paths_meet_no_links:
  assumes "tree_wf t" and "links_resolve t l" and "\<forall>root \<in> set roots. \<exists>ns. root = full_path ns"
    and "fst (resolve_workspace_path (tree_disk t l cwd) w roots rel) = Inr r"
  shows "\<exists>rs rest k. rp_root r = full_path rs \<and> rp_absolute r = full_path (rs @ rest) \<and>
    length rs \<le> k \<and> k \<le> length (rs @ rest) \<and> real_place t (take k (rs @ rest)) \<and>
    (if k = length (rs @ rest) then t (rs @ rest) = Some FileNode \<or> t (rs @ rest) = Some DirNode
     else t (take (Suc k) (rs @ rest)) = None)"
proof -
  let ?d = "tree_disk t l cwd"
  obtain w' where "resolve_workspace_path ?d w roots rel = (Inr r, w')"
    using assms(4) by (cases "resolve_workspace_path ?d w roots rel") simp
  then obtain normalized cs w1 where req: "canonical_roots ?d w roots = (cs, w1)"
      "try_roots ?d w1 roots normalized cs NoRoot = (Inr r, w')"
    by (rule resolve_request)
  obtain p where p: "matched_root p cs = Inr r"
    using try_roots_inside [OF req(2)] by blast
  note inside = matched_root_inside [OF p]
  obtain root w2 where "root \<in> set roots" "fst (dk_canonicalize ?d w2 root) = Inr (rp_root r)"
    using canonical_roots_answers [of "rp_root r" ?d w roots] req(1) inside(1) by auto
  moreover obtain ns0 where "root = full_path ns0"
    using calculation(1) assms(3) by blast
  ultimately obtain rs where rs: "rp_root r = full_path rs" "walk t l [] (map Normal ns0) = Inr rs"
    by auto
  then have real: "real_place t rs"
    using walk_real [OF rs(2) assms(1)] assms(1) by simp
  obtain ms k where ms: "rp_absolute r = full_path ms" "settled t ms k"
      "k = length ms \<longrightarrow> t ms \<in> {Some FileNode, Some DirNode}"
    using try_roots_settled [OF assms(1-3), of cwd w1 normalized cs NoRoot r] req(2) by auto
  obtain q where "full_path ms = full_path rs @ q"
    using inside(2) ms(1) rs(1) by auto
  then obtain rest where rest: "ms = rs @ rest"
    by (auto simp: full_path_def map_eq_append_conv inj_map_eq_map inj_def)
  have "length rs \<le> k"
    using settled_past_root ms(2) real unfolding rest by blast
  then show ?thesis
    using rs(1) ms unfolding rest settled_def
    by (intro exI [where x = rs] exI [where x = rest] exI [where x = k]) (auto split: if_splits)
qed

subsection \<open>Plain paths\<close>

definition plain_name :: "string \<Rightarrow> bool" where
  "plain_name n \<longleftrightarrow> n \<noteq> [] \<and> slash \<notin> set n \<and> n \<noteq> ''.'' \<and> n \<noteq> ''..'' \<and> n \<noteq> ''.git''"

lemma split_join: "ns \<noteq> [] \<Longrightarrow> list_all (\<lambda>n. c \<notin> set n) ns \<Longrightarrow> split_on c (join_on c ns) = ns"
  by (induction c ns rule: join_on.induct) (auto simp: split_on_none split_on_piece)

lemma path_of_plain:
  assumes "ns \<noteq> []" and "list_all plain_name ns"
  shows "path_of (join_on slash ns) = map Normal ns" and "\<not> is_absolute (join_on slash ns)" and "join_on slash ns \<noteq> []"
proof -
  obtain n ms where ns: "ns = n # ms"
    using assms(1) by (cases ns) auto
  then obtain a u where n: "n = a # u" "a \<noteq> slash"
    using assms(2) by (cases n) (auto simp: plain_name_def)
  then have "join_on slash ns \<noteq> [] \<and> hd (join_on slash ns) = a"
    using ns by (cases ms) auto
  then show "join_on slash ns \<noteq> []" and abs: "\<not> is_absolute (join_on slash ns)"
    using n(2) by (auto simp: is_absolute_def)
  have "list_all (\<lambda>n. slash \<notin> set n) ns"
    using assms(2) by (simp add: list_all_iff plain_name_def)
  then have "split_on slash (join_on slash ns) = ns"
    using split_join assms(1) by blast
  moreover have "concat (map (piece_component b) xs) = map Normal xs" if "list_all plain_name xs" for b xs
    using that by (induction xs) (auto simp: piece_component_def plain_name_def)
  moreover have "piece_component True n = [Normal n]"
    using assms(2) ns by (simp add: piece_component_def plain_name_def)
  ultimately show "path_of (join_on slash ns) = map Normal ns"
    using abs assms(2) ns by (simp add: path_of_def Let_def)
qed

lemma normalize_plain: "normalize_loop s (map Normal ns) stack = Inr (List.rev stack @ ns)"
  by (induction ns arbitrary: stack) simp_all

lemma within_full: "path_within_root (full_path (rs @ ns)) (full_path rs)" "relative_to_root (full_path (rs @ ns)) (full_path rs) = Some (map Normal ns)"
  by (simp_all add: path_within_root_def relative_to_root_def full_path_def)

text \<open>
  What is plainly there is found: the path of a file or directory under the root, without links on the way and
  without \<open>.git\<close>, is accepted and stands for exactly that file or directory.
\<close>

theorem plain_paths_resolve:
  assumes "real_place t (rs @ ns)" and "t (rs @ ns) = Some FileNode \<or> t (rs @ ns) = Some DirNode"
    and "ns \<noteq> []" and "list_all plain_name ns"
  shows "fst (resolve_workspace_path (tree_disk t l cwd) w [full_path rs] (join_on slash ns)) =
    Inr \<lparr>rp_absolute = full_path (rs @ ns), rp_root = full_path rs, rp_relative = path_lossy (map Normal ns)\<rparr>"
proof -
  let ?d = "tree_disk t l cwd"
  have along: "walk t l [] (map Normal ms) = Inr ms" if "ms = take k (rs @ ns)" for ms k
    using real_take [OF assms(1), of k] that walk_real_place by blast
  have root: "walk t l [] (map Normal rs) = Inr rs"
    by (rule along [of _ "length rs"]) simp
  have dir: "parent_dir (full_path rs) ns = full_path (rs @ butlast ns)"
    using assms(3) full_path_append [of rs ns] parent_full(2) [of "rs @ butlast ns" "last ns"] by (simp add: parent_dir_def)
  have "walk t l [] (map Normal (rs @ butlast ns)) = Inr (rs @ butlast ns)"
    by (rule along [of _ "length rs + (length ns - 1)"]) (simp add: butlast_conv_take)
  then have deep: "canonicalize_deepest_existing ?d w (full_path (rs @ butlast ns)) = (Inr (full_path (rs @ butlast ns)), w)"
    by (simp add: canonicalize_deepest_existing.simps [of _ _ "full_path (rs @ butlast ns)"])
  have target: "full_path (rs @ butlast ns) @ [Normal (last ns)] = full_path (rs @ ns)"
    using full_path_append [of "rs @ butlast ns" "[last ns]"] assms(3) by simp
  have "walk t l [] (map Normal (rs @ ns)) = Inr (rs @ ns)"
    by (rule along [of _ "length (rs @ ns)"]) simp
  then have "recheck_target ?d w (full_path (rs @ ns)) [full_path rs] = (Inr (full_path (rs @ ns)), w)"
    using assms(2) within_full(1) [of rs ns] by (auto simp: recheck_target_def within_any_root_def node_kind_def)
  then have "resolve_against_root ?d w (full_path rs) ns [full_path rs] =
      (Inr \<lparr>rp_absolute = full_path (rs @ ns), rp_root = full_path rs, rp_relative = path_lossy (map Normal ns)\<rparr>, w)"
    using dir deep target assms(3) within_full [of rs ns]
    by (simp add: resolve_against_root_def Let_def within_any_root_def matched_root_def)
  moreover have "\<not> has_git (map Normal ns)"
    using assms(4) by (auto simp: has_git_def list_ex_iff list_all_iff plain_name_def is_git_component_def)
  ultimately show ?thesis
    using path_of_plain [OF assms(3,4)] root
    by (simp add: resolve_workspace_path_def normalize_components_def normalize_plain)
qed

subsection \<open>A workspace\<close>

definition sample_files :: "(string list \<times> node) list" where
  "sample_files =
     [([], DirNode), ([''w''], DirNode), ([''w'', ''.git''], DirNode), ([''w'', ''.git'', ''config''], FileNode),
      ([''w'', ''a''], DirNode), ([''w'', ''a'', ''b''], FileNode), ([''w'', ''g''], LinkNode [Normal ''.git'']),
      ([''w'', ''n''], LinkNode [Normal ''a''])]"

definition sample_tree :: tree where
  "sample_tree = map_of sample_files"

lemma sample_tree_wf: "tree_wf sample_tree"
proof -
  have "sample_tree dn = Some DirNode" if "sample_tree (dn @ [n]) \<noteq> None" for dn n
  proof -
    have "dn @ [n] \<in> set (map fst sample_files)"
      using that by (simp add: sample_tree_def map_of_eq_None_iff)
    then have "dn = [] \<or> dn = [''w''] \<or> dn = [''w'', ''.git''] \<or> dn = [''w'', ''a'']"
      by (auto simp: sample_files_def append_eq_Cons_conv)
    then show ?thesis
      by (elim disjE) (simp_all add: sample_tree_def sample_files_def)
  qed
  moreover have "sample_tree dn \<noteq> Some (SpecialNode k)" for dn k
    by (auto simp: sample_tree_def sample_files_def dest!: map_of_SomeD)
  ultimately show ?thesis
    by (simp add: tree_wf_def) (simp add: sample_tree_def sample_files_def)
qed

lemma sample_links: "links_resolve sample_tree 40"
  unfolding links_resolve_def
proof (intro conjI allI impI)
  fix dn n q assume "sample_tree (dn @ [n]) = Some (LinkNode q)"
  then have "(dn @ [n], LinkNode q) \<in> set sample_files"
    by (simp add: sample_tree_def map_of_SomeD)
  then consider "dn = [''w'']" "q = [Normal ''.git'']" | "dn = [''w'']" "q = [Normal ''a'']"
    by (auto simp: sample_files_def append_eq_Cons_conv)
  then show "is_ok (walk sample_tree (40 - 1) dn q)"
    by cases (simp_all add: sample_tree_def sample_files_def)
qed simp

lemma sample_resolve:
  "fst (resolve_workspace_path (tree_disk sample_tree 40 []) () [full_path [''w'']] ''n/b'') =
     Inr \<lparr>rp_absolute = full_path [''w'', ''a'', ''b''], rp_root = full_path [''w''], rp_relative = ''a/b''\<rparr>"
  by code_simp

lemma accepted_paths_stay_inside_witness:
  "Normal ''.git'' \<notin> set (path_of ''n/b'') \<and> \<not> climbs (path_of ''n/b'')"
  using accepted_paths_stay_inside [OF sample_resolve] by blast

lemma accepted_paths_meet_no_links_witness:
  "\<exists>rs rest k. full_path [''w''] = full_path rs \<and> full_path [''w'', ''a'', ''b''] = full_path (rs @ rest) \<and>
     length rs \<le> k \<and> real_place sample_tree (take k (rs @ rest))"
  using accepted_paths_meet_no_links [OF sample_tree_wf sample_links _ sample_resolve] by auto

lemma plain_paths_resolve_witness:
  "fst (resolve_workspace_path (tree_disk sample_tree 40 []) () [full_path [''w'']] (join_on slash [''a'', ''b''])) =
     Inr \<lparr>rp_absolute = full_path ([''w''] @ [''a'', ''b'']), rp_root = full_path [''w''],
       rp_relative = path_lossy (map Normal [''a'', ''b''])\<rparr>"
proof (rule plain_paths_resolve)
  show "real_place sample_tree ([''w''] @ [''a'', ''b''])"
    using real_snoc [of sample_tree "[''w'', ''a'']" "''b''"] real_snoc [of sample_tree "[''w'']" "''a''"]
      real_snoc [of sample_tree "[]" "''w''"] sample_tree_wf
    by (simp add: sample_tree_def sample_files_def)
qed (simp_all add: sample_tree_def sample_files_def plain_name_def slash_def)

text \<open>A link to \<open>.git\<close> under another name leads into it: only the request is searched for that name.\<close>

lemma link_reaches_git_internals:
  "fst (resolve_workspace_path (tree_disk sample_tree 40 []) () [full_path [''w'']] ''g/config'') =
     Inr \<lparr>rp_absolute = full_path [''w'', ''.git'', ''config''], rp_root = full_path [''w''], rp_relative = ''.git/config''\<rparr>"
  by code_simp

text \<open>
  A name that \<open>canonicalize\<close> does not find may still be a link, one that leads nowhere yet: the accepted path then goes
  through it, out of the workspace.
\<close>

definition dangling_tree :: tree where
  "dangling_tree = map_of [([], DirNode), ([''w''], DirNode), ([''w'', ''d''], LinkNode (full_path [''new'']))]"

lemma dangling_link_is_accepted:
  "fst (resolve_workspace_path (tree_disk dangling_tree 40 []) () [full_path [''w'']] ''d/x'') =
     Inr \<lparr>rp_absolute = full_path [''w'', ''d'', ''x''], rp_root = full_path [''w''], rp_relative = ''d/x''\<rparr> \<and>
   dangling_tree [''w'', ''d''] = Some (LinkNode (full_path [''new'']))"
  by code_simp

text \<open>A backslash is an ordinary character of a Unix name, but the keys of roots take it for a slash.\<close>

definition backslash_tree :: tree where
  "backslash_tree = map_of
     [([], DirNode), ([''a''], DirNode), ([''a'', ''b''], DirNode), ([[CHR ''a'', CHR 0x5C, CHR ''b'']], DirNode)]"

lemma backslash_root_is_dropped:
  "fst (normalize_roots (tree_disk backslash_tree 40 []) ()
     [full_path [''a'', ''b''], full_path [[CHR ''a'', CHR 0x5C, CHR ''b'']]]) = Inr [full_path [''a'', ''b'']]"
  by code_simp

end
