(* ===== verification/ModelCaps.thy ===== *)
theory ModelCaps
  imports ToolScheduler
begin

text \<open>
  What a model can do and what a request asks of it: the capability types of \<open>crates/domain/src/provider_api.rs\<close>,
  the merge of the declared sources in \<open>crates/models/src/registry.rs\<close> and the negotiation and the gate of
  \<open>negotiate.rs\<close> there. A \<open>BTreeSet\<close> is a set; where one is walked, the order is that of the declaration.
\<close>

subsection \<open>Capabilities\<close>

datatype model_transport = Responses | Messages | ChatCompletions

datatype reasoning_effort = EffortLow | EffortMedium | EffortHigh | EffortXHigh | EffortMax

record reasoning_state =
  rs_signature :: bool
  rs_encrypted :: bool
  rs_interleaved :: bool

record reasoning_capability =
  rc_state :: reasoning_state
  rc_granular :: bool

record model_caps =
  mc_text :: bool
  mc_image_input :: bool
  mc_video_input :: bool
  mc_tool_calls :: bool
  mc_parallel_tool_calls :: bool
  mc_thinking :: bool
  mc_structured_output :: bool
  mc_prompt_cache :: bool
  mc_transport :: model_transport
  mc_image_output :: bool
  mc_hosted :: "tool_tag set"
  mc_citations :: bool
  mc_reasoning :: reasoning_capability
  mc_efforts :: "reasoning_effort list option"

definition reasoning_default :: reasoning_capability where
  "reasoning_default =
     \<lparr>rc_state = \<lparr>rs_signature = False, rs_encrypted = False, rs_interleaved = False\<rparr>, rc_granular = False\<rparr>"

definition caps_default :: model_caps where
  "caps_default =
     \<lparr>mc_text = False, mc_image_input = False, mc_video_input = False, mc_tool_calls = False,
      mc_parallel_tool_calls = False, mc_thinking = False, mc_structured_output = False, mc_prompt_cache = False,
      mc_transport = ChatCompletions, mc_image_output = False, mc_hosted = {}, mc_citations = False,
      mc_reasoning = reasoning_default, mc_efforts = None\<rparr>"

definition is_modern :: "model_transport \<Rightarrow> bool" where
  "is_modern t \<longleftrightarrow> t = Responses \<or> t = Messages"

definition all_tags :: "tool_tag list" where
  "all_tags =
     [TagWebSearch, TagWebFetch, TagFileOrCollectionSearch, TagXSearch, TagCodeExecution, TagHostedShell,
      TagProviderApplyPatch, TagComputerUse, TagImageGeneration, TagServerSideMcp, TagToolSearch, TagMemory,
      TagProgrammaticToolCalling, TagServerSideMultiAgent]"

fun tag_name :: "tool_tag \<Rightarrow> string" where
  "tag_name TagWebSearch = ''WebSearch''"
| "tag_name TagWebFetch = ''WebFetch''"
| "tag_name TagFileOrCollectionSearch = ''FileOrCollectionSearch''"
| "tag_name TagXSearch = ''XSearch''"
| "tag_name TagCodeExecution = ''CodeExecution''"
| "tag_name TagHostedShell = ''HostedShell''"
| "tag_name TagProviderApplyPatch = ''ProviderApplyPatch''"
| "tag_name TagComputerUse = ''ComputerUse''"
| "tag_name TagImageGeneration = ''ImageGeneration''"
| "tag_name TagServerSideMcp = ''ServerSideMcp''"
| "tag_name TagToolSearch = ''ToolSearch''"
| "tag_name TagMemory = ''Memory''"
| "tag_name TagProgrammaticToolCalling = ''ProgrammaticToolCalling''"
| "tag_name TagServerSideMultiAgent = ''ServerSideMultiAgent''"

definition capability_key :: "tool_tag \<Rightarrow> string" where
  "capability_key t = ''tool:'' @ tag_name t"

fun effort_name :: "reasoning_effort \<Rightarrow> string" where
  "effort_name EffortLow = ''Low''"
| "effort_name EffortMedium = ''Medium''"
| "effort_name EffortHigh = ''High''"
| "effort_name EffortXHigh = ''XHigh''"
| "effort_name EffortMax = ''Max''"

text \<open>The names on the wire.\<close>

fun effort_wire :: "reasoning_effort \<Rightarrow> string" where
  "effort_wire EffortLow = ''low''"
| "effort_wire EffortMedium = ''medium''"
| "effort_wire EffortHigh = ''high''"
| "effort_wire EffortXHigh = ''x_high''"
| "effort_wire EffortMax = ''max''"

definition all_efforts :: "reasoning_effort list" where
  "all_efforts = [EffortLow, EffortMedium, EffortHigh, EffortXHigh, EffortMax]"

definition effort_of_wire :: "string \<Rightarrow> reasoning_effort option" where
  "effort_of_wire s = find (\<lambda>e. effort_wire e = s) all_efforts"

fun tag_wire :: "tool_tag \<Rightarrow> string" where
  "tag_wire TagWebSearch = ''web_search''"
| "tag_wire TagWebFetch = ''web_fetch''"
| "tag_wire TagFileOrCollectionSearch = ''file_or_collection_search''"
| "tag_wire TagXSearch = ''x_search''"
| "tag_wire TagCodeExecution = ''code_execution''"
| "tag_wire TagHostedShell = ''hosted_shell''"
| "tag_wire TagProviderApplyPatch = ''provider_apply_patch''"
| "tag_wire TagComputerUse = ''computer_use''"
| "tag_wire TagImageGeneration = ''image_generation''"
| "tag_wire TagServerSideMcp = ''server_side_mcp''"
| "tag_wire TagToolSearch = ''tool_search''"
| "tag_wire TagMemory = ''memory''"
| "tag_wire TagProgrammaticToolCalling = ''programmatic_tool_calling''"
| "tag_wire TagServerSideMultiAgent = ''server_side_multi_agent''"

fun transport_wire :: "model_transport \<Rightarrow> string" where
  "transport_wire Responses = ''responses''"
| "transport_wire Messages = ''messages''"
| "transport_wire ChatCompletions = ''chat_completions''"

definition tag_of_wire :: "string \<Rightarrow> tool_tag option" where
  "tag_of_wire s = find (\<lambda>t. tag_wire t = s) all_tags"

definition transport_of_wire :: "string \<Rightarrow> model_transport option" where
  "transport_of_wire s = find (\<lambda>t. transport_wire t = s) [Responses, Messages, ChatCompletions]"

subsection \<open>To JSON and back\<close>

type_synonym json_object = "(string \<times> json) list"

definition reasoning_to_json :: "reasoning_capability \<Rightarrow> json" where
  "reasoning_to_json r =
     JObject
       [(''state'', JObject
          [(''requires_signature'', JBool (rs_signature (rc_state r))),
           (''requires_encrypted'', JBool (rs_encrypted (rc_state r))),
           (''supports_interleaved'', JBool (rs_interleaved (rc_state r)))]),
        (''supports_granular_effort'', JBool (rc_granular r))]"

definition tags_to_list :: "tool_tag set \<Rightarrow> tool_tag list" where
  "tags_to_list s = filter (\<lambda>t. t \<in> s) all_tags"

definition caps_to_json :: "model_caps \<Rightarrow> json_object" where
  "caps_to_json c =
     [(''text'', JBool (mc_text c)), (''image_input'', JBool (mc_image_input c)),
      (''video_input'', JBool (mc_video_input c)), (''tool_calls'', JBool (mc_tool_calls c)),
      (''parallel_tool_calls'', JBool (mc_parallel_tool_calls c)), (''thinking'', JBool (mc_thinking c)),
      (''structured_output'', JBool (mc_structured_output c)), (''prompt_cache'', JBool (mc_prompt_cache c)),
      (''transport'', JString (transport_wire (mc_transport c))), (''image_output'', JBool (mc_image_output c))] @
     (if mc_hosted c = {} then []
      else [(''hosted_tool_tags'', JArray (map (JString \<circ> tag_wire) (tags_to_list (mc_hosted c))))]) @
     [(''citations'', JBool (mc_citations c)), (''reasoning'', reasoning_to_json (mc_reasoning c))] @
     (case mc_efforts c of
        None \<Rightarrow> []
      | Some es \<Rightarrow> [(''supported_efforts'', JArray (map (JString \<circ> effort_wire) es))])"

text \<open>Reading a field that must be there, one with a default, and lists of names.\<close>

definition need_bool :: "json_object \<Rightarrow> string \<Rightarrow> bool option" where
  "need_bool ob k = Option.bind (map_of ob k) as_bool"

definition read_or :: "'a \<Rightarrow> (json \<Rightarrow> 'a option) \<Rightarrow> json_object \<Rightarrow> string \<Rightarrow> 'a option" where
  "read_or d f ob k = (case map_of ob k of None \<Rightarrow> Some d | Some v \<Rightarrow> f v)"

definition read_name :: "(string \<Rightarrow> 'a option) \<Rightarrow> json \<Rightarrow> 'a option" where
  "read_name f v = Option.bind (as_str v) f"

fun read_all :: "(json \<Rightarrow> 'a option) \<Rightarrow> json list \<Rightarrow> 'a list option" where
  "read_all f [] = Some []"
| "read_all f (v # vs) = Option.bind (f v) (\<lambda>x. map_option (Cons x) (read_all f vs))"

definition read_list :: "(json \<Rightarrow> 'a option) \<Rightarrow> json \<Rightarrow> 'a list option" where
  "read_list f v = Option.bind (as_array v) (read_all f)"

fun as_object :: "json \<Rightarrow> json_object option" where
  "as_object (JObject kvs) = Some kvs"
| "as_object _ = None"

definition state_of_json :: "json \<Rightarrow> reasoning_state option" where
  "state_of_json v =
     Option.bind (as_object v) (\<lambda>ob.
     Option.bind (read_or False as_bool ob ''requires_signature'') (\<lambda>s.
     Option.bind (read_or False as_bool ob ''requires_encrypted'') (\<lambda>e.
     Option.bind (read_or False as_bool ob ''supports_interleaved'') (\<lambda>i.
     Some \<lparr>rs_signature = s, rs_encrypted = e, rs_interleaved = i\<rparr>))))"

definition reasoning_of_json :: "json \<Rightarrow> reasoning_capability option" where
  "reasoning_of_json v =
     Option.bind (as_object v) (\<lambda>ob.
     Option.bind (read_or (rc_state reasoning_default) state_of_json ob ''state'') (\<lambda>s.
     Option.bind (read_or False as_bool ob ''supports_granular_effort'') (\<lambda>g.
     Some \<lparr>rc_state = s, rc_granular = g\<rparr>)))"

fun efforts_of_json :: "json \<Rightarrow> reasoning_effort list option option" where
  "efforts_of_json JNull = Some None"
| "efforts_of_json v = map_option Some (read_list (read_name effort_of_wire) v)"

definition caps_of_json :: "json_object \<Rightarrow> model_caps option" where
  "caps_of_json ob =
     Option.bind (need_bool ob ''text'') (\<lambda>text.
     Option.bind (need_bool ob ''image_input'') (\<lambda>image.
     Option.bind (read_or False as_bool ob ''video_input'') (\<lambda>video.
     Option.bind (need_bool ob ''tool_calls'') (\<lambda>calls.
     Option.bind (need_bool ob ''parallel_tool_calls'') (\<lambda>parallel.
     Option.bind (need_bool ob ''thinking'') (\<lambda>thinking.
     Option.bind (need_bool ob ''structured_output'') (\<lambda>structured.
     Option.bind (need_bool ob ''prompt_cache'') (\<lambda>cache.
     Option.bind (read_or ChatCompletions (read_name transport_of_wire) ob ''transport'') (\<lambda>transport.
     Option.bind (read_or False as_bool ob ''image_output'') (\<lambda>output.
     Option.bind (read_or [] (read_list (read_name tag_of_wire)) ob ''hosted_tool_tags'') (\<lambda>tags.
     Option.bind (read_or False as_bool ob ''citations'') (\<lambda>citations.
     Option.bind (read_or reasoning_default reasoning_of_json ob ''reasoning'') (\<lambda>reasoning.
     Option.bind (read_or None efforts_of_json ob ''supported_efforts'') (\<lambda>efforts.
     Some \<lparr>mc_text = text, mc_image_input = image, mc_video_input = video, mc_tool_calls = calls,
       mc_parallel_tool_calls = parallel, mc_thinking = thinking, mc_structured_output = structured,
       mc_prompt_cache = cache, mc_transport = transport, mc_image_output = output, mc_hosted = set tags,
       mc_citations = citations, mc_reasoning = reasoning, mc_efforts = efforts\<rparr>))))))))))))))"

subsection \<open>Merging the declared sources\<close>

text \<open>The values of arrays are compared by their printed form, which tells values apart.\<close>

fun merge_value :: "json \<Rightarrow> json \<Rightarrow> json option" where
  "merge_value (JBool a) (JBool b) = Some (JBool (a \<and> b))"
| "merge_value (JArray xs) (JArray ys) = Some (JArray (filter (\<lambda>x. x \<in> set ys) xs))"
| "merge_value a b = (if a = b then Some a else None)"

text \<open>One source into the accumulated object: every key is kept, narrowed or removed.\<close>

definition merge_key :: "json_object \<Rightarrow> string \<times> json \<Rightarrow> json_object" where
  "merge_key other kv =
     (case map_of other (fst kv) of
        None \<Rightarrow> [kv]
      | Some v \<Rightarrow> (case merge_value (snd kv) v of Some m \<Rightarrow> [(fst kv, m)] | None \<Rightarrow> []))"

definition merge_object :: "json_object \<Rightarrow> json_object \<Rightarrow> json_object" where
  "merge_object acc other = concat (map (merge_key other) acc)"

definition merge_capabilities :: "model_caps list \<Rightarrow> model_caps" where
  "merge_capabilities sources =
     (case sources of
        [] \<Rightarrow> caps_default
      | [c] \<Rightarrow> c
      | c # cs \<Rightarrow>
          (let acc = fold (\<lambda>s ob. merge_object ob (caps_to_json s)) cs (caps_to_json c);
               tags = fold (\<lambda>s current. current \<inter> mc_hosted s) cs (mc_hosted c)
           in (case caps_of_json acc of Some m \<Rightarrow> m | None \<Rightarrow> caps_default)\<lparr>mc_hosted := tags\<rparr>))"

record capability_evidence =
  ce_model :: string
  ce_provider :: "string option"
  ce_static :: "model_caps option"
  ce_probe :: "model_caps option"
  ce_override :: "model_caps option"

definition present_sources :: "capability_evidence \<Rightarrow> model_caps list" where
  "present_sources e =
     (case ce_static e of Some c \<Rightarrow> [c] | None \<Rightarrow> []) @
     (case ce_probe e of Some c \<Rightarrow> [c] | None \<Rightarrow> []) @
     (case ce_override e of Some c \<Rightarrow> [c] | None \<Rightarrow> [])"

definition merged :: "capability_evidence \<Rightarrow> model_caps" where
  "merged e = merge_capabilities (present_sources e)"

subsection \<open>Negotiation\<close>

record reasoning_config =
  rq_effort :: reasoning_effort
  rq_state :: reasoning_state

record requirements =
  re_video_input :: bool
  re_transport :: "model_transport list"
  re_tools :: "tool_tag set"
  re_reasoning :: "reasoning_config option"
  re_citations :: bool
  re_image_input :: bool

datatype fallback = ClientTool | LegacyTransport | ClampedEffort | Reject string

record resolved_caps =
  rv_requested :: "string set"
  rv_supported :: "string set"
  rv_unsupported :: "string set"
  rv_transport :: model_transport
  rv_fallback :: "(string, fallback) btree"

definition resolved_default :: resolved_caps where
  "resolved_default =
     \<lparr>rv_requested = {}, rv_supported = {}, rv_unsupported = {}, rv_transport = ChatCompletions, rv_fallback = []\<rparr>"

text \<open>One item of a request: it is always requested, and then supported or refused with a reason.\<close>

definition ask :: "string \<Rightarrow> resolved_caps \<Rightarrow> resolved_caps" where
  "ask k r = r\<lparr>rv_requested := insert k (rv_requested r)\<rparr>"

definition grant :: "string \<Rightarrow> resolved_caps \<Rightarrow> resolved_caps" where
  "grant k r = r\<lparr>rv_supported := insert k (rv_supported r)\<rparr>"

definition refuse :: "string \<Rightarrow> string \<Rightarrow> resolved_caps \<Rightarrow> resolved_caps" where
  "refuse k why r =
     r\<lparr>rv_unsupported := insert k (rv_unsupported r), rv_fallback := bt_put k (Reject why) (rv_fallback r)\<rparr>"

definition decide_item :: "bool \<Rightarrow> string \<Rightarrow> string \<Rightarrow> resolved_caps \<Rightarrow> resolved_caps" where
  "decide_item ok k why r = (if ok then grant k (ask k r) else refuse k why (ask k r))"

definition backquoted :: "string \<Rightarrow> string" where
  "backquoted s = [CHR 0x60] @ s @ [CHR 0x60]"

definition choose_transport :: "model_caps \<Rightarrow> model_transport list \<Rightarrow> resolved_caps \<Rightarrow> model_transport \<times> resolved_caps" where
  "choose_transport caps pref r =
     (if mc_transport caps \<in> set pref then (mc_transport caps, r)
      else if mc_transport caps \<noteq> ChatCompletions then (mc_transport caps, r)
      else (ChatCompletions,
            if list_ex is_modern pref then r\<lparr>rv_fallback := bt_put ''transport'' LegacyTransport (rv_fallback r)\<rparr> else r))"

definition decide_state :: "bool \<Rightarrow> bool \<Rightarrow> string \<Rightarrow> string \<Rightarrow> resolved_caps \<Rightarrow> resolved_caps" where
  "decide_state wanted declared k why r = (if wanted \<and> \<not> declared then refuse k why (ask k r) else r)"

definition reasons :: "model_caps \<Rightarrow> bool" where
  "reasons caps \<longleftrightarrow>
     mc_thinking caps \<or> rs_signature (rc_state (mc_reasoning caps)) \<or> rs_encrypted (rc_state (mc_reasoning caps)) \<or>
     rs_interleaved (rc_state (mc_reasoning caps)) \<or> rc_granular (mc_reasoning caps)"

definition needs_clamp :: "reasoning_config \<Rightarrow> model_caps \<Rightarrow> bool" where
  "needs_clamp q caps \<longleftrightarrow> (rq_effort q = EffortXHigh \<or> rq_effort q = EffortMax) \<and> \<not> rc_granular (mc_reasoning caps)"

definition negotiate_reasoning :: "reasoning_config \<Rightarrow> model_caps \<Rightarrow> resolved_caps \<Rightarrow> resolved_caps" where
  "negotiate_reasoning q caps r =
     (let r = ask ''reasoning'' r; have_state = rc_state (mc_reasoning caps); wants = rq_state q in
      if \<not> reasons caps
      then refuse ''reasoning'' (''reasoning effort '' @ effort_name (rq_effort q) @ '' not supported by model'') r
      else
        (let r = (if needs_clamp q caps then r\<lparr>rv_fallback := bt_put ''reasoning.effort'' ClampedEffort (rv_fallback r)\<rparr> else r);
             r = decide_state (rs_signature wants) (rs_signature have_state) ''reasoning.signature''
                   ''signature continuation not supported'' r;
             r = decide_state (rs_encrypted wants) (rs_encrypted have_state) ''reasoning.encrypted''
                   ''encrypted continuation not supported'' r;
             r = decide_state (rs_interleaved wants) (rs_interleaved have_state) ''reasoning.interleaved''
                   ''interleaved thinking not supported'' r
         in grant ''reasoning'' r))"

definition negotiate_tool :: "model_caps \<Rightarrow> tool_tag \<Rightarrow> resolved_caps \<Rightarrow> resolved_caps" where
  "negotiate_tool caps t =
     decide_item (t \<in> mc_hosted caps) (capability_key t)
       (''server tool '' @ backquoted (tag_name t) @ '' not declared by model'')"

definition negotiate :: "capability_evidence \<Rightarrow> requirements \<Rightarrow> resolved_caps" where
  "negotiate e q =
     (let caps = merged e;
          (t, r) = choose_transport caps (re_transport q) resolved_default;
          r = r\<lparr>rv_transport := t\<rparr>;
          r = fold (negotiate_tool caps) (tags_to_list (re_tools q)) r;
          r = (if re_citations q
               then decide_item (mc_citations caps) ''citations'' ''citations not supported by model'' r else r);
          r = (if re_image_input q
               then decide_item (mc_image_input caps) ''image_input''
                      (''model '' @ backquoted (ce_model e) @ '' does not declare image input capability'') r else r);
          r = (if re_video_input q
               then decide_item (mc_video_input caps) ''video_input'' ''model does not declare video input capability'' r
               else r)
      in (case re_reasoning q of None \<Rightarrow> r | Some c \<Rightarrow> negotiate_reasoning c caps r))"

subsection \<open>The older thinking levels\<close>

datatype thinking_level = ThinkOff | ThinkLow | ThinkMedium | ThinkHigh

record thinking_config =
  th_level :: thinking_level
  th_budget :: "u64 option"

fun clamp_effort_to_thinking_level :: "reasoning_effort \<Rightarrow> thinking_level" where
  "clamp_effort_to_thinking_level EffortLow = ThinkLow"
| "clamp_effort_to_thinking_level EffortMedium = ThinkMedium"
| "clamp_effort_to_thinking_level _ = ThinkHigh"

definition clamp_reasoning_to_thinking :: "reasoning_config option \<Rightarrow> thinking_config option \<Rightarrow> thinking_config" where
  "clamp_reasoning_to_thinking q t =
     (case q of
        Some c \<Rightarrow>
          \<lparr>th_level = clamp_effort_to_thinking_level (rq_effort c), th_budget = Option.bind t th_budget\<rparr>
      | None \<Rightarrow> (case t of Some c \<Rightarrow> c | None \<Rightarrow> \<lparr>th_level = ThinkOff, th_budget = None\<rparr>))"

subsection \<open>The gate in front of a request\<close>

text \<open>What the gate reads of a request: its messages and its declarations of server tools.\<close>

record hosted_tool =
  ht_name :: string
  ht_kind :: tool_tag
  ht_capabilities :: "tool_tag list"

record extension_tool =
  et_name :: string
  et_reference :: string
  et_capabilities :: "tool_tag list"

record gated_request =
  gr_messages :: "message list"
  gr_hosted :: "hosted_tool list"
  gr_extensions :: "extension_tool list"

fun content_part_has_image :: "content_part \<Rightarrow> bool" where
  "content_part_has_image (PartImage _ _ _) = True"
| "content_part_has_image (PartToolResult _ _ ps _ _ _) = list_ex content_part_has_image ps"
| "content_part_has_image _ = False"

fun content_part_has_video :: "content_part \<Rightarrow> bool" where
  "content_part_has_video (PartVideo _ _) = True"
| "content_part_has_video (PartToolResult _ _ ps _ _ _) = list_ex content_part_has_video ps"
| "content_part_has_video _ = False"

definition required_tags :: "gated_request \<Rightarrow> tool_tag set" where
  "required_tags r =
     set (concat (map (\<lambda>h. ht_kind h # ht_capabilities h) (gr_hosted r))) \<union>
     set (concat (map (\<lambda>x. et_capabilities x @ (if et_capabilities x = [] then [TagServerSideMcp] else [])) (gr_extensions r)))"

definition all_content :: "gated_request \<Rightarrow> content_part list" where
  "all_content r = concat (map ms_content (gr_messages r))"

definition gate_requirements :: "gated_request \<Rightarrow> requirements" where
  "gate_requirements r =
     \<lparr>re_video_input = list_ex content_part_has_video (all_content r), re_transport = [],
      re_tools = required_tags r, re_reasoning = None, re_citations = False,
      re_image_input = list_ex content_part_has_image (all_content r)\<rparr>"

fun first_reject :: "(string, fallback) btree \<Rightarrow> string option" where
  "first_reject [] = None"
| "first_reject ((k, Reject why) # m) = Some why"
| "first_reject (_ # m) = first_reject m"

definition capability_gate :: "capability_evidence \<Rightarrow> gated_request \<Rightarrow> (provider_error, unit) result" where
  "capability_gate e r =
     (case first_reject (rv_fallback (negotiate e (gate_requirements r))) of
        None \<Rightarrow> Inr ()
      | Some why \<Rightarrow> Inl (provider_error_new PkInvalidRequest why))"

end
