(* ===== verification/ModelRegistry.thy ===== *)
theory ModelRegistry
  imports ModelCaps
begin

text \<open>
  The catalog of models, \<open>crates/models/src/registry.rs\<close>, and its prices, \<open>pricing.rs\<close>: entries and aliases, the
  overrides, the slots of provider probes and the evidence put together from all three. A slot is its place in
  \<open>mr_slots\<close>, so that two holders of one slot share it, as two clones of the \<open>Arc\<close> do.
\<close>

subsection \<open>Prices\<close>

record model_pricing =
  mp_input :: u64
  mp_output :: u64
  mp_cache_read :: u64
  mp_cache_write :: u64
  mp_currency :: string

text \<open>The product is formed in 128 bits, which hold it, and brought back to 64 bits at the top.\<close>

definition scale_price :: "u64 \<Rightarrow> u64 \<Rightarrow> nat" where
  "scale_price tokens price =
     (if tokens = 0 \<or> price = 0 then 0 else min (unat tokens * unat price div 1000000) u64_max)"

definition estimate_cost :: "token_usage \<Rightarrow> model_pricing \<Rightarrow> string \<times> nat" where
  "estimate_cost u p =
     (mp_currency p,
      sat_add (sat_add (sat_add (scale_price (tu_input u) (mp_input p)) (scale_price (tu_output u) (mp_output p)))
        (scale_price (tu_cache_read u) (mp_cache_read p))) (scale_price (tu_cache_write u) (mp_cache_write p)))"

subsection \<open>The catalog\<close>

record catalog_entry =
  en_id :: string
  en_provider :: string
  en_name :: string
  en_window :: u64
  en_max_output :: u64
  en_caps :: model_caps
  en_pricing :: "model_pricing option"
  en_aliases :: "string list"

record model_definition =
  md_id :: string
  md_name :: string
  md_window :: u64
  md_max_output :: u64
  md_caps :: model_caps

definition to_definition :: "catalog_entry \<Rightarrow> model_definition" where
  "to_definition e = \<lparr>md_id = en_id e, md_name = en_name e, md_window = en_window e,
     md_max_output = en_max_output e, md_caps = en_caps e\<rparr>"

datatype registry_error =
    ModelNotFound string
  | DuplicateAlias string string
  | DuplicateModelId string

record provider_probe =
  pb_provider :: string
  pb_definitions :: "model_definition list"

text \<open>An error of a probe is its message; the wakers of a slot are the numbers of the waiting calls.\<close>

datatype probe_state =
    ProbeIdle
  | ProbeInFlight "nat list"
  | ProbeDone "(string, provider_probe) result"

record model_registry =
  mr_entries :: "(string, catalog_entry) btree"
  mr_aliases :: "(string, string) btree"
  mr_overrides :: "(string, model_caps) btree"
  mr_probes :: "(string, nat) btree"
  mr_slots :: "probe_state list"

definition registry_empty :: model_registry where
  "registry_empty = \<lparr>mr_entries = [], mr_aliases = [], mr_overrides = [], mr_probes = [], mr_slots = []\<rparr>"

text \<open>A model id or alias is known by its lower case form.\<close>

definition put_alias :: "string \<Rightarrow> string \<Rightarrow> (string, string) btree \<Rightarrow> (string, string) btree" where
  "put_alias i a m = bt_put (to_lower a) i m"

definition alias_conflict :: "model_registry \<Rightarrow> string \<Rightarrow> string \<Rightarrow> registry_error option" where
  "alias_conflict r i a =
     (if bt_has (mr_entries r) (to_lower a) \<and> to_lower a \<noteq> i then Some (DuplicateAlias a (to_lower a))
      else (case bt_get (mr_aliases r) (to_lower a) of
              Some existing \<Rightarrow> (if existing \<noteq> i then Some (DuplicateAlias a existing) else None)
            | None \<Rightarrow> None))"

fun first_conflict :: "model_registry \<Rightarrow> string \<Rightarrow> string list \<Rightarrow> registry_error option" where
  "first_conflict r i [] = None"
| "first_conflict r i (a # as) = (case alias_conflict r i a of Some e \<Rightarrow> Some e | None \<Rightarrow> first_conflict r i as)"

definition id_conflict :: "model_registry \<Rightarrow> catalog_entry \<Rightarrow> registry_error option" where
  "id_conflict r e =
     (case bt_get (mr_aliases r) (to_lower (en_id e)) of
        Some existing \<Rightarrow> (if existing \<noteq> to_lower (en_id e) then Some (DuplicateAlias (en_id e) existing) else None)
      | None \<Rightarrow> None)"

definition try_register :: "model_registry \<Rightarrow> catalog_entry \<Rightarrow> (registry_error, unit) result \<times> model_registry" where
  "try_register r e =
     (let i = to_lower (en_id e) in
      case id_conflict r e of
        Some err \<Rightarrow> (Inl err, r)
      | None \<Rightarrow>
          (case first_conflict r i (en_aliases e) of
             Some err \<Rightarrow> (Inl err, r)
           | None \<Rightarrow>
               (Inr (),
                r\<lparr>mr_aliases := fold (put_alias i) (en_aliases e) (filter (\<lambda>(a, j). j \<noteq> i) (mr_aliases r)),
                  mr_entries := bt_put i e (mr_entries r)\<rparr>)))"

definition register :: "model_registry \<Rightarrow> catalog_entry \<Rightarrow> (registry_error, unit) result \<times> model_registry" where
  "register = try_register"

text \<open>Without a result: an alias that would hide another model is left out.\<close>

definition put_free_alias :: "model_registry \<Rightarrow> string \<Rightarrow> string \<Rightarrow> (string, string) btree \<Rightarrow> (string, string) btree" where
  "put_free_alias r i a m =
     (if \<not> bt_has (mr_entries r) (to_lower a) \<or> to_lower a = i then bt_put (to_lower a) i m else m)"

definition extend_one :: "catalog_entry \<Rightarrow> model_registry \<Rightarrow> model_registry" where
  "extend_one e r =
     (let i = to_lower (en_id e) in
      r\<lparr>mr_aliases := fold (put_free_alias r i) (en_aliases e) (filter (\<lambda>(a, j). j \<noteq> i \<and> a \<noteq> i) (mr_aliases r)),
        mr_entries := bt_put i e (mr_entries r)\<rparr>)"

definition extend_with :: "model_registry \<Rightarrow> catalog_entry list \<Rightarrow> model_registry" where
  "extend_with r es = fold extend_one es r"

definition merge_one :: "string \<Rightarrow> model_definition \<Rightarrow> model_registry \<Rightarrow> model_registry" where
  "merge_one p d r =
     (case bt_get (mr_entries r) (to_lower (md_id d)) of
        Some e \<Rightarrow>
          (if en_provider e \<noteq> p then r
           else r\<lparr>mr_entries := bt_put (to_lower (md_id d))
                  (e\<lparr>en_name := md_name d, en_window := md_window d, en_max_output := md_max_output d, en_caps := md_caps d\<rparr>)
                  (mr_entries r)\<rparr>)
      | None \<Rightarrow>
          extend_with r
            [\<lparr>en_id = md_id d, en_provider = p, en_name = md_name d, en_window = md_window d,
              en_max_output = md_max_output d, en_caps = md_caps d, en_pricing = None, en_aliases = []\<rparr>])"

definition merge_provider_models :: "model_registry \<Rightarrow> string \<Rightarrow> model_definition list \<Rightarrow> model_registry" where
  "merge_provider_models r p ds = fold (merge_one p) ds r"

definition resolve_model :: "model_registry \<Rightarrow> string \<Rightarrow> catalog_entry option" where
  "resolve_model r m =
     (case bt_get (mr_entries r) (to_lower m) of
        Some e \<Rightarrow> Some e
      | None \<Rightarrow> (case bt_get (mr_aliases r) (to_lower m) of Some i \<Rightarrow> bt_get (mr_entries r) i | None \<Rightarrow> None))"

definition list_models :: "model_registry \<Rightarrow> catalog_entry list" where
  "list_models r = bt_values (mr_entries r)"

definition implies_flag :: "(model_caps \<Rightarrow> bool) \<Rightarrow> model_caps \<Rightarrow> model_caps \<Rightarrow> bool" where
  "implies_flag f required have \<longleftrightarrow> \<not> f required \<or> f have"

definition caps_satisfied :: "model_caps \<Rightarrow> model_caps \<Rightarrow> bool" where
  "caps_satisfied have required \<longleftrightarrow>
     implies_flag mc_text required have \<and> implies_flag mc_image_input required have \<and>
     implies_flag mc_video_input required have \<and> implies_flag mc_image_output required have \<and>
     implies_flag mc_tool_calls required have \<and> implies_flag mc_parallel_tool_calls required have \<and>
     implies_flag mc_thinking required have \<and> implies_flag mc_structured_output required have \<and>
     implies_flag mc_prompt_cache required have \<and> implies_flag mc_citations required have \<and>
     (mc_transport required = ChatCompletions \<or> mc_transport have = mc_transport required) \<and>
     list_all (\<lambda>t. t \<in> mc_hosted have) (tags_to_list (mc_hosted required))"

definition filter_models :: "model_registry \<Rightarrow> model_caps \<Rightarrow> catalog_entry list" where
  "filter_models r required = filter (\<lambda>e. caps_satisfied (en_caps e) required) (list_models r)"

datatype model_purpose = PurposeText | PurposeImageInput | PurposeImageOutput | PurposeVideoInput | PurposeWebSearch

fun require_purpose :: "model_purpose \<Rightarrow> model_caps \<Rightarrow> model_caps" where
  "require_purpose PurposeText c = c\<lparr>mc_text := True\<rparr>"
| "require_purpose PurposeImageInput c = c\<lparr>mc_image_input := True\<rparr>"
| "require_purpose PurposeImageOutput c = c\<lparr>mc_image_output := True\<rparr>"
| "require_purpose PurposeVideoInput c = c\<lparr>mc_video_input := True\<rparr>"
| "require_purpose PurposeWebSearch c = c\<lparr>mc_hosted := insert TagWebSearch (mc_hosted c)\<rparr>"

definition purpose_requirements :: "model_purpose list \<Rightarrow> model_caps" where
  "purpose_requirements ps = fold require_purpose ps caps_default"

definition capabilities_support_purpose :: "model_caps \<Rightarrow> model_purpose \<Rightarrow> bool" where
  "capabilities_support_purpose c p = caps_satisfied c (purpose_requirements [p])"

definition registry_cost :: "model_registry \<Rightarrow> string \<Rightarrow> token_usage \<Rightarrow> (string \<times> nat) option" where
  "registry_cost r m u = Option.bind (resolve_model r m) (\<lambda>e. map_option (estimate_cost u) (en_pricing e))"

subsection \<open>Overrides\<close>

definition canonical_model_id :: "model_registry \<Rightarrow> string \<Rightarrow> string" where
  "canonical_model_id r m = (case resolve_model r m of Some e \<Rightarrow> to_lower (en_id e) | None \<Rightarrow> to_lower m)"

definition set_override :: "model_registry \<Rightarrow> string \<Rightarrow> model_caps \<Rightarrow> model_registry" where
  "set_override r m c = r\<lparr>mr_overrides := bt_put (canonical_model_id r m) c (mr_overrides r)\<rparr>"

definition remove_override :: "model_registry \<Rightarrow> string \<Rightarrow> bool \<times> model_registry" where
  "remove_override r m =
     (let i = canonical_model_id r m in
      (bt_has (mr_overrides r) i, r\<lparr>mr_overrides := bt_del i (mr_overrides r)\<rparr>))"

definition override_for :: "model_registry \<Rightarrow> string \<Rightarrow> model_caps option" where
  "override_for r m = bt_get (mr_overrides r) (canonical_model_id r m)"

subsection \<open>Slots\<close>

text \<open>\<open>probe_slot\<close> makes the slot when there is none.\<close>

definition probe_slot :: "model_registry \<Rightarrow> string \<Rightarrow> nat \<times> model_registry" where
  "probe_slot r p =
     (case bt_get (mr_probes r) p of
        Some s \<Rightarrow> (s, r)
      | None \<Rightarrow>
          (let s = length (mr_slots r) in
           (s, r\<lparr>mr_probes := bt_put p s (mr_probes r), mr_slots := mr_slots r @ [ProbeIdle]\<rparr>)))"

definition slot_cached :: "model_registry \<Rightarrow> nat \<Rightarrow> (string, provider_probe) result option" where
  "slot_cached r s = (case mr_slots r ! s of ProbeDone x \<Rightarrow> Some x | _ \<Rightarrow> None)"

datatype claim_outcome = ClaimWon | ClaimWait | ClaimDone

definition set_slot :: "nat \<Rightarrow> probe_state \<Rightarrow> model_registry \<Rightarrow> model_registry" where
  "set_slot s x r = r\<lparr>mr_slots := (mr_slots r)[s := x]\<rparr>"

definition slot_claim :: "model_registry \<Rightarrow> nat \<Rightarrow> claim_outcome \<times> model_registry" where
  "slot_claim r s =
     (case mr_slots r ! s of
        ProbeIdle \<Rightarrow> (ClaimWon, set_slot s (ProbeInFlight []) r)
      | ProbeInFlight _ \<Rightarrow> (ClaimWait, r)
      | ProbeDone _ \<Rightarrow> (ClaimDone, r))"

text \<open>Both ways to complete a slot give the calls to wake.\<close>

definition slot_complete :: "model_registry \<Rightarrow> nat \<Rightarrow> (string, provider_probe) result \<Rightarrow> nat list \<times> model_registry" where
  "slot_complete r s x =
     ((case mr_slots r ! s of ProbeInFlight ws \<Rightarrow> ws | _ \<Rightarrow> []), set_slot s (ProbeDone x) r)"

definition slot_complete_claimed ::
    "model_registry \<Rightarrow> nat \<Rightarrow> (string, provider_probe) result \<Rightarrow> (bool \<times> nat list) \<times> model_registry" where
  "slot_complete_claimed r s x =
     (case mr_slots r ! s of
        ProbeInFlight ws \<Rightarrow> ((True, ws), set_slot s (ProbeDone x) r)
      | _ \<Rightarrow> ((False, []), r))"

text \<open>One poll of \<open>WaitForProbe\<close> by the call \<open>w\<close>: whether it is ready.\<close>

definition slot_poll :: "model_registry \<Rightarrow> nat \<Rightarrow> nat \<Rightarrow> bool \<times> model_registry" where
  "slot_poll r s w =
     (case mr_slots r ! s of
        ProbeInFlight ws \<Rightarrow> (False, if w \<in> set ws then r else set_slot s (ProbeInFlight (ws @ [w])) r)
      | _ \<Rightarrow> (True, r))"

definition record_probe :: "model_registry \<Rightarrow> string \<Rightarrow> model_definition list \<Rightarrow> (provider_probe \<times> nat list) \<times> model_registry" where
  "record_probe r p ds =
     (let probe = \<lparr>pb_provider = p, pb_definitions = ds\<rparr>; (s, r1) = probe_slot r p;
          (ws, r2) = slot_complete r1 s (Inr probe)
      in ((probe, ws), r2))"

definition clear_probe :: "model_registry \<Rightarrow> string \<Rightarrow> bool \<times> model_registry" where
  "clear_probe r p = (bt_has (mr_probes r) p, r\<lparr>mr_probes := bt_del p (mr_probes r)\<rparr>)"

subsection \<open>Evidence\<close>

definition probe_caps :: "provider_probe \<Rightarrow> string \<Rightarrow> model_caps option" where
  "probe_caps p m =
     map_option md_caps (find (\<lambda>d. to_lower (md_id d) = to_lower m) (pb_definitions p))"

definition probe_capabilities_for :: "model_registry \<Rightarrow> string \<Rightarrow> string \<Rightarrow> model_caps option" where
  "probe_capabilities_for r p m =
     Option.bind (bt_get (mr_probes r) p) (\<lambda>s.
       (case slot_cached r s of Some (Inr probe) \<Rightarrow> probe_caps probe m | _ \<Rightarrow> None))"

fun probe_scan :: "model_registry \<Rightarrow> (string, nat) btree \<Rightarrow> string \<Rightarrow> string option \<times> model_caps option" where
  "probe_scan r [] m = (None, None)"
| "probe_scan r ((p, s) # ps) m =
     (case slot_cached r s of
        Some (Inr probe) \<Rightarrow>
          (case probe_caps probe m of Some c \<Rightarrow> (Some p, Some c) | None \<Rightarrow> probe_scan r ps m)
      | _ \<Rightarrow> probe_scan r ps m)"

definition probe_capabilities_any :: "model_registry \<Rightarrow> string \<Rightarrow> string option \<times> model_caps option" where
  "probe_capabilities_any r m = probe_scan r (mr_probes r) m"

definition registry_evidence :: "model_registry \<Rightarrow> string \<Rightarrow> capability_evidence option" where
  "registry_evidence r m =
     (let entry = resolve_model r m;
          model_id = (case entry of Some e \<Rightarrow> en_id e | None \<Rightarrow> to_lower m);
          key = to_lower model_id;
          st = map_option en_caps entry;
          (provider, probe) = (case entry of
             Some e \<Rightarrow> (Some (en_provider e), probe_capabilities_for r (en_provider e) key)
           | None \<Rightarrow> probe_capabilities_any r key);
          ov = override_for r key
      in if st = None \<and> probe = None \<and> ov = None then None
         else Some \<lparr>ce_model = model_id, ce_provider = provider, ce_static = st, ce_probe = probe, ce_override = ov\<rparr>)"

end
