(* ===== verification/ModelCatalog.thy ===== *)
theory ModelCatalog
  imports ModelRegistry
begin

text \<open>
  The data of \<open>crates/models/src/registry.rs\<close>: what is known by default of a model by its id, and the built-in catalog.
\<close>

subsection \<open>Defaults by model id\<close>

definition default_supported_efforts :: "string \<Rightarrow> reasoning_effort list option" where
  "default_supported_efforts m =
     (if m \<in> set [''glm-5.3'', ''glm-5.2'', ''glm-5.3-flash'', ''kimi-k3'', ''kimi-k2.6'', ''mimo-v2.5'', ''hy3'',
                  ''omen-alpha'', ''qwen3.8-max'', ''qwen3.8-flash'']
      then Some [EffortLow, EffortMedium, EffortHigh, EffortXHigh, EffortMax]
      else if m \<in> set [''deepseek-flash'', ''deepseek-v4-flash'', ''deepseek-v4.1-flash'', ''deepseek-v4-pro'']
      then Some [EffortLow, EffortHigh, EffortMax]
      else if m \<in> set [''kimi-k2.7-code'', ''kimi-for-coding'', ''kimi-for-coding-highspeed'', ''minimax-m3'']
      then Some []
      else if m \<in> set [''qwen3.7-max'', ''qwen3.7-plus'', ''qwen3.6-flash'', ''grok-4.7'', ''grok-4.7-build-fast'', ''grok-4.6'']
      then Some [EffortLow, EffortMedium, EffortHigh, EffortXHigh]
      else if m = ''grok-4.5'' then Some [EffortLow, EffortMedium, EffortHigh]
      else None)"

definition default_image_input :: "string \<Rightarrow> bool option" where
  "default_image_input m =
     (if m \<in> set [''glm-5.3-flash'', ''glm-5.3-flashx'', ''deepseek-v4-flash-vision-exp'', ''omen-alpha'', ''mimo-v2.6-flash'',
                  ''mimo-v2.6-pro'', ''auto'', ''qwen3.8-max'', ''qwen3.8-flash'', ''qwen3.7-plus'', ''qwen3.6-flash'', ''minimax-m3'',
                  ''mimo-v2.5'', ''deepseek-flash'', ''deepseek-v4.1-flash'', ''kimi-k3'', ''k3'', ''k3-256k'', ''kimi-k2.6'',
                  ''kimi-k2.7-code'', ''kimi-k2.7-code-highspeed'', ''kimi-for-coding'', ''kimi-for-coding-highspeed'',
                  ''grok-4.7'', ''grok-4.7-build-fast'', ''grok-4.6'', ''grok-4.5'']
      then Some True
      else if m \<in> set [''glm-4.5'', ''glm-4.5-air'', ''glm-4.6'', ''glm-4.7'', ''glm-5'', ''glm-5-turbo'', ''glm-5.1'', ''glm-5.3'',
                       ''glm-5.2'', ''deepseek-v4-pro'', ''hy3'', ''deepseek-v4-flash'', ''qwen3.7-max'', ''muse-spark-1.2-contributor'',
                       ''muse-spark-1.3-contributor'', ''longcat-2.0'', ''deepseek-v4-flash-0731'']
      then Some False
      else None)"

definition default_image_output :: "string \<Rightarrow> bool option" where
  "default_image_output m = (if m \<in> set [''wan2.7-image'', ''wan2.7-image-pro''] then Some True else None)"

definition default_text :: "string \<Rightarrow> bool option" where
  "default_text m = (if m \<in> set [''wan2.7-image'', ''wan2.7-image-pro''] then Some False else None)"

definition default_hosted_web_search :: "string \<Rightarrow> bool option" where
  "default_hosted_web_search m =
     (if m \<in> set [''grok-4.5'', ''grok-4.6'', ''grok-4.7'', ''grok-4.7-build-fast''] then Some True else None)"

definition with_caps :: "model_definition \<Rightarrow> model_caps \<Rightarrow> model_definition" where
  "with_caps d c = d\<lparr>md_caps := c\<rparr>"

definition apply_default_supported_efforts :: "model_definition \<Rightarrow> model_definition" where
  "apply_default_supported_efforts d =
     (if mc_efforts (md_caps d) = None
      then with_caps d ((md_caps d)\<lparr>mc_efforts := default_supported_efforts (md_id d)\<rparr>) else d)"

definition apply_default_image_input :: "model_definition \<Rightarrow> model_definition" where
  "apply_default_image_input d =
     (if \<not> mc_image_input (md_caps d) \<and> default_image_input (md_id d) = Some True
      then with_caps d ((md_caps d)\<lparr>mc_image_input := True\<rparr>) else d)"

definition apply_default_image_output :: "model_definition \<Rightarrow> model_definition" where
  "apply_default_image_output d =
     (if \<not> mc_image_output (md_caps d) \<and> default_image_output (md_id d) = Some True
      then with_caps d ((md_caps d)\<lparr>mc_image_output := True\<rparr>) else d)"

definition apply_default_text :: "model_definition \<Rightarrow> model_definition" where
  "apply_default_text d =
     (if mc_image_output (md_caps d) \<and> default_text (md_id d) = Some False
      then with_caps d ((md_caps d)\<lparr>mc_text := False\<rparr>) else d)"

definition apply_default_hosted_web_search :: "model_definition \<Rightarrow> model_definition" where
  "apply_default_hosted_web_search d =
     (if mc_transport (md_caps d) = Responses \<and> default_hosted_web_search (md_id d) = Some True
      then with_caps d ((md_caps d)\<lparr>mc_hosted := insert TagWebSearch (mc_hosted (md_caps d))\<rparr>) else d)"

subsection \<open>The built-in catalog\<close>

definition caps_of :: "bool \<Rightarrow> bool \<Rightarrow> bool \<Rightarrow> bool \<Rightarrow> bool \<Rightarrow> bool \<Rightarrow> bool \<Rightarrow> model_caps" where
  "caps_of text image_input tool_calls parallel_tool_calls thinking structured_output prompt_cache =
     caps_default\<lparr>mc_text := text, mc_image_input := image_input, mc_tool_calls := tool_calls,
       mc_parallel_tool_calls := parallel_tool_calls, mc_thinking := thinking,
       mc_structured_output := structured_output, mc_prompt_cache := prompt_cache\<rparr>"

definition text_tools :: model_caps where
  "text_tools = caps_of True False True False False False False"

definition text_image_tools :: model_caps where
  "text_image_tools = caps_of True True True False False False False"

definition catalog_row ::
    "string \<Rightarrow> string \<Rightarrow> string \<Rightarrow> u64 \<Rightarrow> u64 \<Rightarrow> model_caps \<Rightarrow> model_pricing option \<Rightarrow> string list \<Rightarrow> catalog_entry" where
  "catalog_row i p name window max_output c price aliases =
     \<lparr>en_id = i, en_provider = p, en_name = name, en_window = window, en_max_output = max_output, en_caps = c,
      en_pricing = price, en_aliases = aliases\<rparr>"

definition builtin_rows :: "catalog_entry list" where
  "builtin_rows =
     [catalog_row ''glm-5.2'' ''glm-coding'' ''GLM 5.2'' 1000000 131072 text_tools None [''glm''],
      catalog_row ''glm-5.3'' ''glm-coding'' ''GLM 5.3'' 1000000 131072 text_tools None [],
      catalog_row ''glm-5.3-flash'' ''glm-coding'' ''GLM 5.3 Flash'' 1000000 131072 text_image_tools None [],
      catalog_row ''deepseek-v4-pro'' ''opencode-go'' ''DeepSeek V4 Pro'' 1000000 393216 text_tools
        (Some \<lparr>mp_input = 435000, mp_output = 870000, mp_cache_read = 3625, mp_cache_write = 0, mp_currency = ''USD''\<rparr>)
        [''deepseek''],
      catalog_row ''qwen3.8-max'' ''qwen-token-plan'' ''Qwen3.8 Max'' 0 0
        (text_image_tools\<lparr>mc_video_input := True, mc_hosted := {TagWebSearch}, mc_citations := True\<rparr>) None [],
      catalog_row ''deepseek-flash'' ''deepseek'' ''DeepSeek Flash'' 1000000 393216
        (caps_of True True True False True False False) None [],
      catalog_row ''deepseek-chat'' ''deepseek'' ''DeepSeek Chat'' 128000 8192 text_tools None [],
      catalog_row ''deepseek-reasoner'' ''deepseek'' ''DeepSeek Reasoner'' 128000 64000 text_tools None []]"

definition builtin_entries :: "catalog_entry list" where
  "builtin_entries =
     map (\<lambda>e. e\<lparr>en_caps := (en_caps e)\<lparr>mc_efforts := default_supported_efforts (en_id e)\<rparr>\<rparr>) builtin_rows"

definition add_builtin :: "catalog_entry \<Rightarrow> model_registry \<Rightarrow> model_registry" where
  "add_builtin e r =
     (let i = to_lower (en_id e) in
      r\<lparr>mr_aliases := fold (put_alias i) (en_aliases e) (mr_aliases r), mr_entries := bt_put i e (mr_entries r)\<rparr>)"

definition registry_builtin :: model_registry where
  "registry_builtin = fold add_builtin builtin_entries registry_empty"

end
