(* ===== verification/ModelMerge.thy ===== *)
theory ModelMerge
  imports ModelCaps
begin

text \<open>The merge over JSON objects is a merge field by field, and never adds a capability.\<close>

subsection \<open>The reference\<close>

definition all_have :: "(model_caps \<Rightarrow> bool) \<Rightarrow> model_caps list \<Rightarrow> bool" where
  "all_have f cs \<longleftrightarrow> list_all f cs"

definition common_or :: "'a \<Rightarrow> (model_caps \<Rightarrow> 'a) \<Rightarrow> model_caps \<Rightarrow> model_caps list \<Rightarrow> 'a" where
  "common_or d f c cs = (if list_all (\<lambda>s. f s = f c) cs then f c else d)"

text \<open>Only the first source says whether the efforts are declared at all.\<close>

definition common_efforts :: "model_caps \<Rightarrow> model_caps list \<Rightarrow> reasoning_effort list option" where
  "common_efforts c cs =
     map_option (filter (\<lambda>e. list_all (\<lambda>s. case mc_efforts s of None \<Rightarrow> True | Some fs \<Rightarrow> e \<in> set fs) cs)) (mc_efforts c)"

definition merge_fields :: "model_caps \<Rightarrow> model_caps list \<Rightarrow> model_caps" where
  "merge_fields c cs =
     (let both = c # cs in
      \<lparr>mc_text = all_have mc_text both, mc_image_input = all_have mc_image_input both,
       mc_video_input = all_have mc_video_input both, mc_tool_calls = all_have mc_tool_calls both,
       mc_parallel_tool_calls = all_have mc_parallel_tool_calls both, mc_thinking = all_have mc_thinking both,
       mc_structured_output = all_have mc_structured_output both, mc_prompt_cache = all_have mc_prompt_cache both,
       mc_transport = common_or ChatCompletions mc_transport c cs, mc_image_output = all_have mc_image_output both,
       mc_hosted = \<Inter> (mc_hosted ` set both), mc_citations = all_have mc_citations both,
       mc_reasoning = common_or reasoning_default mc_reasoning c cs, mc_efforts = common_efforts c cs\<rparr>)"

subsection \<open>Names\<close>

lemma tag_of_wire_wire [simp]: "tag_of_wire (tag_wire t) = Some t"
  by (cases t) (simp_all add: tag_of_wire_def all_tags_def)

lemma effort_of_wire_wire [simp]: "effort_of_wire (effort_wire e) = Some e"
  by (cases e) (simp_all add: effort_of_wire_def all_efforts_def)

lemma transport_of_wire_wire [simp]: "transport_of_wire (transport_wire t) = Some t"
  by (cases t) (simp_all add: transport_of_wire_def)

lemma wire_inj [simp]: "tag_wire a = tag_wire b \<longleftrightarrow> a = b" "effort_wire d = effort_wire e \<longleftrightarrow> d = e" "transport_wire s = transport_wire t \<longleftrightarrow> s = t"
  by (metis option.inject tag_of_wire_wire, metis option.inject effort_of_wire_wire, metis option.inject transport_of_wire_wire)

lemma read_names:
  assumes "\<And>x. f (w x) = Some x"
  shows "read_list (read_name f) (JArray (map (JString \<circ> w) xs)) = Some xs"
proof -
  have "read_all (read_name f) (map (JString \<circ> w) xs) = Some xs"
    using assms by (induction xs) (simp_all add: read_name_def)
  then show ?thesis
    by (simp add: read_list_def)
qed

lemma filter_names:
  assumes "\<And>x y. w x = w y \<longleftrightarrow> x = y"
  shows "filter (\<lambda>v. v \<in> set (map (JString \<circ> w) ys)) (map (JString \<circ> w) xs) = map (JString \<circ> w) (filter (\<lambda>x. x \<in> set ys) xs)"
  using assms by (induction xs) (auto simp: image_iff)

lemma reasoning_json_inj [simp]: "reasoning_to_json a = reasoning_to_json b \<longleftrightarrow> a = b"
  by (auto simp: reasoning_to_json_def intro!: reasoning_capability.equality reasoning_state.equality)

lemma reasoning_of_to [simp]: "reasoning_of_json (reasoning_to_json r) = Some r"
  by (simp add: reasoning_of_json_def reasoning_to_json_def state_of_json_def read_or_def)

subsection \<open>What is left of an object after some sources\<close>

definition left_over :: "model_caps \<Rightarrow> bool \<Rightarrow> bool \<Rightarrow> tool_tag list option \<Rightarrow> json_object" where
  "left_over c kt kr ts =
     [(''text'', JBool (mc_text c)), (''image_input'', JBool (mc_image_input c)),
      (''video_input'', JBool (mc_video_input c)), (''tool_calls'', JBool (mc_tool_calls c)),
      (''parallel_tool_calls'', JBool (mc_parallel_tool_calls c)), (''thinking'', JBool (mc_thinking c)),
      (''structured_output'', JBool (mc_structured_output c)), (''prompt_cache'', JBool (mc_prompt_cache c))] @
     (if kt then [(''transport'', JString (transport_wire (mc_transport c)))] else []) @
     [(''image_output'', JBool (mc_image_output c))] @
     (case ts of None \<Rightarrow> [] | Some l \<Rightarrow> [(''hosted_tool_tags'', JArray (map (JString \<circ> tag_wire) l))]) @
     [(''citations'', JBool (mc_citations c))] @
     (if kr then [(''reasoning'', reasoning_to_json (mc_reasoning c))] else []) @
     (case mc_efforts c of None \<Rightarrow> [] | Some es \<Rightarrow> [(''supported_efforts'', JArray (map (JString \<circ> effort_wire) es))])"

lemma caps_to_json_left:
  "caps_to_json c = left_over c True True (if mc_hosted c = {} then None else Some (tags_to_list (mc_hosted c)))"
  by (simp add: caps_to_json_def left_over_def)

lemma left_over_lookup:
  "map_of (left_over c kt kr ts) ''text'' = Some (JBool (mc_text c))"
  "map_of (left_over c kt kr ts) ''image_input'' = Some (JBool (mc_image_input c))"
  "map_of (left_over c kt kr ts) ''video_input'' = Some (JBool (mc_video_input c))"
  "map_of (left_over c kt kr ts) ''tool_calls'' = Some (JBool (mc_tool_calls c))"
  "map_of (left_over c kt kr ts) ''parallel_tool_calls'' = Some (JBool (mc_parallel_tool_calls c))"
  "map_of (left_over c kt kr ts) ''thinking'' = Some (JBool (mc_thinking c))"
  "map_of (left_over c kt kr ts) ''structured_output'' = Some (JBool (mc_structured_output c))"
  "map_of (left_over c kt kr ts) ''prompt_cache'' = Some (JBool (mc_prompt_cache c))"
  "map_of (left_over c kt kr ts) ''image_output'' = Some (JBool (mc_image_output c))"
  "map_of (left_over c kt kr ts) ''citations'' = Some (JBool (mc_citations c))"
  by (simp_all add: left_over_def split: option.split)

lemma left_over_lookup_optional:
  "map_of (left_over c kt kr ts) ''transport'' = (if kt then Some (JString (transport_wire (mc_transport c))) else None)"
  "map_of (left_over c kt kr ts) ''reasoning'' = (if kr then Some (reasoning_to_json (mc_reasoning c)) else None)"
  "map_of (left_over c kt kr ts) ''hosted_tool_tags'' = map_option (\<lambda>l. JArray (map (JString \<circ> tag_wire) l)) ts"
  "map_of (left_over c kt kr ts) ''supported_efforts'' = map_option (\<lambda>es. JArray (map (JString \<circ> effort_wire) es)) (mc_efforts c)"
  by (simp_all add: left_over_def split: option.split)

lemmas lookups = left_over_lookup left_over_lookup_optional

lemma efforts_of_names: "efforts_of_json (JArray (map (JString \<circ> effort_wire) es)) = Some (Some es)"
  using read_names [of effort_of_wire effort_wire es] by simp

text \<open>Reading it back never fails.\<close>

lemma left_over_read:
  "caps_of_json (left_over c kt kr ts) =
     Some (c\<lparr>mc_transport := if kt then mc_transport c else ChatCompletions,
             mc_hosted := (case ts of None \<Rightarrow> {} | Some l \<Rightarrow> set l),
             mc_reasoning := if kr then mc_reasoning c else reasoning_default\<rparr>)"
proof -
  have "read_or ChatCompletions (read_name transport_of_wire) (left_over c kt kr ts) ''transport'' =
      Some (if kt then mc_transport c else ChatCompletions)"
    by (simp add: read_or_def lookups read_name_def)
  moreover have "read_or [] (read_list (read_name tag_of_wire)) (left_over c kt kr ts) ''hosted_tool_tags'' =
      Some (case ts of None \<Rightarrow> [] | Some l \<Rightarrow> l)"
    using read_names [of tag_of_wire tag_wire] by (simp add: read_or_def lookups split: option.split)
  moreover have "read_or reasoning_default reasoning_of_json (left_over c kt kr ts) ''reasoning'' =
      Some (if kr then mc_reasoning c else reasoning_default)"
    by (simp add: read_or_def lookups)
  moreover have "read_or None efforts_of_json (left_over c kt kr ts) ''supported_efforts'' = Some (mc_efforts c)"
    using efforts_of_names by (simp add: read_or_def lookups del: efforts_of_json.simps split: option.split)
  ultimately show ?thesis
    by (simp add: caps_of_json_def need_bool_def left_over_lookup read_or_def [of False]) (cases ts, simp_all)
qed

subsection \<open>One more source\<close>

definition narrow_efforts :: "reasoning_effort list option \<Rightarrow> reasoning_effort list option \<Rightarrow> reasoning_effort list option" where
  "narrow_efforts a b =
     map_option (filter (\<lambda>e. case b of None \<Rightarrow> True | Some fs \<Rightarrow> e \<in> set fs)) a"

definition narrow :: "model_caps \<Rightarrow> model_caps \<Rightarrow> model_caps" where
  "narrow s c =
     c\<lparr>mc_text := mc_text c \<and> mc_text s, mc_image_input := mc_image_input c \<and> mc_image_input s,
       mc_video_input := mc_video_input c \<and> mc_video_input s, mc_tool_calls := mc_tool_calls c \<and> mc_tool_calls s,
       mc_parallel_tool_calls := mc_parallel_tool_calls c \<and> mc_parallel_tool_calls s,
       mc_thinking := mc_thinking c \<and> mc_thinking s,
       mc_structured_output := mc_structured_output c \<and> mc_structured_output s,
       mc_prompt_cache := mc_prompt_cache c \<and> mc_prompt_cache s,
       mc_image_output := mc_image_output c \<and> mc_image_output s, mc_citations := mc_citations c \<and> mc_citations s,
       mc_efforts := narrow_efforts (mc_efforts c) (mc_efforts s)\<rparr>"

lemma merge_object_append: "merge_object (a @ b) s = merge_object a s @ merge_object b s"
  by (simp add: merge_object_def)

lemma merge_object_one: "merge_object [kv] s = merge_key s kv"
  by (simp add: merge_object_def)

lemma merge_left_over:
  "\<exists>ts'. merge_object (left_over c kt kr ts) (caps_to_json s) =
     left_over (narrow s c) (kt \<and> mc_transport s = mc_transport c) (kr \<and> mc_reasoning s = mc_reasoning c) ts'"
proof -
  let ?s = "caps_to_json s"
  let ?c = "narrow s c"
  note keys = left_over_lookup [of s True True "if mc_hosted s = {} then None else Some (tags_to_list (mc_hosted s))",
    folded caps_to_json_left]
  have first: "merge_object
       [(''text'', JBool (mc_text c)), (''image_input'', JBool (mc_image_input c)),
        (''video_input'', JBool (mc_video_input c)), (''tool_calls'', JBool (mc_tool_calls c)),
        (''parallel_tool_calls'', JBool (mc_parallel_tool_calls c)), (''thinking'', JBool (mc_thinking c)),
        (''structured_output'', JBool (mc_structured_output c)), (''prompt_cache'', JBool (mc_prompt_cache c))] ?s =
       [(''text'', JBool (mc_text ?c)), (''image_input'', JBool (mc_image_input ?c)),
        (''video_input'', JBool (mc_video_input ?c)), (''tool_calls'', JBool (mc_tool_calls ?c)),
        (''parallel_tool_calls'', JBool (mc_parallel_tool_calls ?c)), (''thinking'', JBool (mc_thinking ?c)),
        (''structured_output'', JBool (mc_structured_output ?c)), (''prompt_cache'', JBool (mc_prompt_cache ?c))]"
    by (simp add: merge_object_def merge_key_def keys narrow_def)
  have out: "merge_object [(''image_output'', JBool (mc_image_output c))] ?s = [(''image_output'', JBool (mc_image_output ?c))]"
    and cites: "merge_object [(''citations'', JBool (mc_citations c))] ?s = [(''citations'', JBool (mc_citations ?c))]"
    by (simp_all add: merge_object_def merge_key_def keys narrow_def)
  have kept: "mc_transport ?c = mc_transport c" "mc_reasoning ?c = mc_reasoning c"
      "mc_efforts ?c = narrow_efforts (mc_efforts c) (mc_efforts s)"
    by (simp_all add: narrow_def)
  have transport: "merge_key ?s (''transport'', JString (transport_wire (mc_transport c))) =
      (if mc_transport s = mc_transport c then [(''transport'', JString (transport_wire (mc_transport c)))] else [])"
    by (auto simp: merge_key_def caps_to_json_left lookups)
  have reasoning: "merge_key ?s (''reasoning'', reasoning_to_json (mc_reasoning c)) =
      (if mc_reasoning s = mc_reasoning c then [(''reasoning'', reasoning_to_json (mc_reasoning c))] else [])"
  proof -
    have "merge_value (reasoning_to_json a) (reasoning_to_json b) = (if a = b then Some (reasoning_to_json a) else None)" for a b
      using reasoning_json_inj [of a b] by (auto simp: reasoning_to_json_def)
    then show ?thesis
      by (auto simp: merge_key_def caps_to_json_left lookups)
  qed
  have efforts: "merge_key ?s (''supported_efforts'', JArray (map (JString \<circ> effort_wire) es)) =
      [(''supported_efforts'', JArray (map (JString \<circ> effort_wire) (filter (\<lambda>e. case mc_efforts s of None \<Rightarrow> True | Some fs \<Rightarrow> e \<in> set fs) es)))]" for es
    using filter_names [of effort_wire] by (simp add: merge_key_def caps_to_json_left lookups split: option.split)
  have tags: "\<exists>l'. merge_key ?s (''hosted_tool_tags'', JArray (map (JString \<circ> tag_wire) l)) = [(''hosted_tool_tags'', JArray (map (JString \<circ> tag_wire) l'))]" for l
    using filter_names [of tag_wire] by (auto simp: merge_key_def caps_to_json_left lookups)
  obtain ts' where ts': "merge_object (case ts of None \<Rightarrow> [] | Some l \<Rightarrow> [(''hosted_tool_tags'', JArray (map (JString \<circ> tag_wire) l))]) ?s =
      (case ts' of None \<Rightarrow> [] | Some l \<Rightarrow> [(''hosted_tool_tags'', JArray (map (JString \<circ> tag_wire) l))])"
  proof (cases ts)
    case None
    then show ?thesis
      using that [of None] by (simp add: merge_object_def)
  next
    case (Some l)
    then show ?thesis
      using that [of "Some l'" for l'] tags [of l] by (auto simp: merge_object_one)
  qed
  have "merge_object (if kt then [(''transport'', JString (transport_wire (mc_transport c)))] else []) ?s =
      (if kt \<and> mc_transport s = mc_transport c then [(''transport'', JString (transport_wire (mc_transport ?c)))] else [])"
    using transport by (simp add: merge_object_one kept) (simp add: merge_object_def)
  moreover have "merge_object (if kr then [(''reasoning'', reasoning_to_json (mc_reasoning c))] else []) ?s =
      (if kr \<and> mc_reasoning s = mc_reasoning c then [(''reasoning'', reasoning_to_json (mc_reasoning ?c))] else [])"
    using reasoning by (simp add: merge_object_one kept) (simp add: merge_object_def)
  moreover have "merge_object (case mc_efforts c of None \<Rightarrow> [] | Some es \<Rightarrow> [(''supported_efforts'', JArray (map (JString \<circ> effort_wire) es))]) ?s =
      (case mc_efforts ?c of None \<Rightarrow> [] | Some es \<Rightarrow> [(''supported_efforts'', JArray (map (JString \<circ> effort_wire) es))])"
    by (cases "mc_efforts c") (simp_all add: merge_object_one kept narrow_efforts_def efforts, simp add: merge_object_def)
  ultimately show ?thesis
    unfolding left_over_def merge_object_append first out cites ts' by (intro exI [where x = ts']) simp
qed

subsection \<open>All sources\<close>

lemma merge_all:
  "\<exists>ts'. fold (\<lambda>s ob. merge_object ob (caps_to_json s)) cs (left_over c kt kr ts) =
     left_over (fold narrow cs c) (kt \<and> list_all (\<lambda>s. mc_transport s = mc_transport c) cs)
       (kr \<and> list_all (\<lambda>s. mc_reasoning s = mc_reasoning c) cs) ts'"
proof (induction cs arbitrary: c kt kr ts)
  case (Cons s cs)
  obtain ts1 where ts1: "merge_object (left_over c kt kr ts) (caps_to_json s) =
      left_over (narrow s c) (kt \<and> mc_transport s = mc_transport c) (kr \<and> mc_reasoning s = mc_reasoning c) ts1"
    using merge_left_over by blast
  have "mc_transport (narrow s c) = mc_transport c" "mc_reasoning (narrow s c) = mc_reasoning c"
    by (simp_all add: narrow_def)
  then show ?case
    using Cons [of "narrow s c" "kt \<and> mc_transport s = mc_transport c" "kr \<and> mc_reasoning s = mc_reasoning c" ts1] ts1
    by (simp add: conj_assoc)
qed auto

lemma fold_narrow_bool:
  assumes "\<And>s c. f (narrow s c) = (f c \<and> f s)"
  shows "f (fold narrow cs c) = all_have f (c # cs)"
  by (induction cs arbitrary: c) (auto simp: assms all_have_def)

lemma fold_narrow_kept: "mc_transport (fold narrow cs c) = mc_transport c" "mc_reasoning (fold narrow cs c) = mc_reasoning c"
  by (induction cs arbitrary: c) (simp_all add: narrow_def)

lemma fold_narrow_efforts: "mc_efforts (fold narrow cs c) = common_efforts c cs"
proof (induction cs arbitrary: c)
  case (Cons s cs)
  then show ?case
    by (cases "mc_efforts c") (simp_all add: common_efforts_def narrow_def narrow_efforts_def)
next
  case Nil
  then show ?case
    by (cases "mc_efforts c") (simp_all add: common_efforts_def)
qed

lemma fold_narrow_fields:
  "mc_text (fold narrow cs c) = all_have mc_text (c # cs)"
  "mc_image_input (fold narrow cs c) = all_have mc_image_input (c # cs)"
  "mc_video_input (fold narrow cs c) = all_have mc_video_input (c # cs)"
  "mc_tool_calls (fold narrow cs c) = all_have mc_tool_calls (c # cs)"
  "mc_parallel_tool_calls (fold narrow cs c) = all_have mc_parallel_tool_calls (c # cs)"
  "mc_thinking (fold narrow cs c) = all_have mc_thinking (c # cs)"
  "mc_structured_output (fold narrow cs c) = all_have mc_structured_output (c # cs)"
  "mc_prompt_cache (fold narrow cs c) = all_have mc_prompt_cache (c # cs)"
  "mc_image_output (fold narrow cs c) = all_have mc_image_output (c # cs)"
  "mc_citations (fold narrow cs c) = all_have mc_citations (c # cs)"
  by (rule fold_narrow_bool, simp add: narrow_def)+

lemma fold_hosted: "fold (\<lambda>s current. current \<inter> mc_hosted s) cs t = t \<inter> \<Inter> (mc_hosted ` set cs)"
  by (induction cs arbitrary: t) auto

lemma merge_reduces: "merge_capabilities (c # s # cs) = merge_fields c (s # cs)"
proof -
  obtain ts' where ts': "fold (\<lambda>s ob. merge_object ob (caps_to_json s)) (s # cs) (caps_to_json c) =
      left_over (fold narrow (s # cs) c) (list_all (\<lambda>s. mc_transport s = mc_transport c) (s # cs))
        (list_all (\<lambda>s. mc_reasoning s = mc_reasoning c) (s # cs)) ts'"
    using merge_all [of "s # cs" c True True] unfolding caps_to_json_left by simp blast
  have "merge_capabilities (c # s # cs) =
      (fold narrow (s # cs) c)\<lparr>mc_transport := common_or ChatCompletions mc_transport c (s # cs),
         mc_hosted := mc_hosted c \<inter> \<Inter> (mc_hosted ` set (s # cs)),
         mc_reasoning := common_or reasoning_default mc_reasoning c (s # cs)\<rparr>"
    unfolding merge_capabilities_def Let_def list.case ts' left_over_read option.case fold_hosted
    by (simp only: fold_narrow_kept common_or_def model_caps.simps) simp
  also have "\<dots> = merge_fields c (s # cs)"
    unfolding merge_fields_def Let_def
    by (rule model_caps.equality) (simp_all add: fold_narrow_fields fold_narrow_efforts del: fold.simps fold_simps)
  finally show ?thesis .
qed

subsection \<open>What the sources declare together\<close>

definition capability_flags :: "(model_caps \<Rightarrow> bool) list" where
  "capability_flags =
     [mc_text, mc_image_input, mc_video_input, mc_tool_calls, mc_parallel_tool_calls, mc_thinking,
      mc_structured_output, mc_prompt_cache, mc_image_output, mc_citations]"

definition agreed :: "'b \<Rightarrow> ('a \<Rightarrow> 'b) \<Rightarrow> 'a list \<Rightarrow> 'b" where
  "agreed d f xs = (case remdups (map f xs) of [v] \<Rightarrow> v | _ \<Rightarrow> d)"

text \<open>A source that lists no efforts does not constrain the others.\<close>

definition listed_efforts :: "model_caps list \<Rightarrow> reasoning_effort set option" where
  "listed_efforts cs =
     (case List.map_filter mc_efforts cs of [] \<Rightarrow> None | l # ls \<Rightarrow> Some (\<Inter> (set ` set (l # ls))))"

text \<open>Nothing is declared that a source does not declare.\<close>

definition adds_nothing :: "model_caps \<Rightarrow> model_caps \<Rightarrow> bool" where
  "adds_nothing m x \<longleftrightarrow>
     (\<forall>f \<in> set capability_flags. f m \<longrightarrow> f x) \<and> mc_hosted m \<subseteq> mc_hosted x
     \<and> (mc_transport m = mc_transport x \<or> mc_transport m = ChatCompletions)
     \<and> (mc_reasoning m = mc_reasoning x \<or> mc_reasoning m = reasoning_default)"

definition first_lists :: "model_caps list \<Rightarrow> bool" where
  "first_lists cs \<longleftrightarrow> mc_efforts (hd cs) \<noteq> None \<or> list_all (\<lambda>x. mc_efforts x = None) cs"

lemma agreed_common: "agreed d f (c # cs) = common_or d f c cs"
proof (cases "list_all (\<lambda>s. f s = f c) cs")
  case True
  then have "remdups (map f (c # cs)) = [f c]"
    by (induction cs) auto
  then show ?thesis
    using True by (simp add: agreed_def common_or_def)
next
  case False
  then obtain s where s: "s \<in> set cs" "f s \<noteq> f c"
    by (auto simp: list_all_iff)
  have "f c \<in> set (remdups (map f (c # cs)))" "f s \<in> set (remdups (map f (c # cs)))"
    using s(1) by simp_all
  then have "set (remdups (map f (c # cs))) \<noteq> {v}" for v
    using s(2) by (metis singletonD)
  then have "\<forall>v. remdups (map f (c # cs)) \<noteq> [v]"
    by (metis list.simps(15) empty_set)
  then have "agreed d f (c # cs) = d"
    unfolding agreed_def by (simp split: list.split del: remdups.simps list.map)
  then show ?thesis
    using False by (simp add: common_or_def)
qed

lemma agreed_from:
  fixes f :: "model_caps \<Rightarrow> 'b"
  assumes "x \<in> set cs"
  shows "agreed d f cs = f x \<or> agreed d f cs = d"
proof (cases cs)
  case (Cons c ds)
  then show ?thesis
    using assms unfolding Cons agreed_common by (auto simp: common_or_def list_all_iff)
qed (use assms in simp)

text \<open>One source is given back; more are merged. Either way the result is the merge of the fields.\<close>

lemma merge_of_sources: "merge_capabilities (c # cs) = merge_fields c cs"
proof (cases cs)
  case Nil
  have "common_efforts c [] = mc_efforts c"
    by (cases "mc_efforts c") (simp_all add: common_efforts_def)
  then show ?thesis
    by (simp add: Nil merge_capabilities_def merge_fields_def all_have_def common_or_def)
next
  case (Cons s ds)
  then show ?thesis
    by (simp add: merge_reduces)
qed

lemma common_efforts_listed:
  assumes "first_lists (c # cs)"
  shows "map_option set (common_efforts c cs) = listed_efforts (c # cs)"
proof (cases "mc_efforts c")
  case None
  then have "list_all (\<lambda>x. mc_efforts x = None) cs"
    using assms by (simp add: first_lists_def)
  then have "List.map_filter mc_efforts cs = []"
    by (induction cs) (simp_all add: map_filter_simps)
  then show ?thesis
    using None by (simp add: common_efforts_def listed_efforts_def map_filter_simps)
next
  case (Some es)
  have "(list_all (\<lambda>s. case mc_efforts s of None \<Rightarrow> True | Some fs \<Rightarrow> e \<in> set fs) cs) =
      (\<forall>l \<in> set (List.map_filter mc_efforts cs). e \<in> set l)" for e
    by (induction cs) (auto simp: map_filter_simps split: option.split)
  then show ?thesis
    by (auto simp: Some common_efforts_def listed_efforts_def map_filter_simps)
qed

lemma listed_efforts_within:
  assumes "listed_efforts cs = map_option set m" and "x \<in> set cs" and "mc_efforts x = Some fs"
  shows "\<exists>es. m = Some es \<and> set es \<subseteq> set fs"
proof -
  have "fs \<in> set (List.map_filter mc_efforts cs)"
    using assms(2,3) by (auto simp: List.map_filter_def image_iff)
  then show ?thesis
    using assms(1) by (cases m) (auto simp: listed_efforts_def split: list.splits)
qed

lemma merged_flags:
  assumes "f \<in> set capability_flags"
  shows "f (merge_fields c cs) \<longleftrightarrow> (\<forall>x \<in> set (c # cs). f x)"
  using assms unfolding capability_flags_def
  by (auto simp: merge_fields_def Let_def all_have_def list_all_iff)

text \<open>
  C22: Merging the declarations of the sources over their JSON objects never adds a capability. Whatever their
  number and order, a Boolean capability is left exactly if every source declares it, the server tools are
  those of all sources, and the transport and the reasoning state are the ones all sources agree on, or else
  the defaults; so nothing is declared that one of the sources does not declare. The efforts are
  those that all sources with a list have in common, where the first source has a list or none has
  one; in the excluded case the code drops the lists of the later sources.
\<close>

theorem merge_is_field_by_field:
  assumes "cs \<noteq> []"
  shows "(\<forall>f \<in> set capability_flags. f (merge_capabilities cs) \<longleftrightarrow> (\<forall>x \<in> set cs. f x))
    \<and> mc_hosted (merge_capabilities cs) = \<Inter> (mc_hosted ` set cs)
    \<and> mc_transport (merge_capabilities cs) = agreed ChatCompletions mc_transport cs
    \<and> mc_reasoning (merge_capabilities cs) = agreed reasoning_default mc_reasoning cs
    \<and> (\<forall>x \<in> set cs. adds_nothing (merge_capabilities cs) x)
    \<and> (first_lists cs \<longrightarrow> map_option set (mc_efforts (merge_capabilities cs)) = listed_efforts cs
        \<and> (\<forall>x \<in> set cs. \<forall>fs. mc_efforts x = Some fs \<longrightarrow>
              (\<exists>es. mc_efforts (merge_capabilities cs) = Some es \<and> set es \<subseteq> set fs)))"
proof -
  let ?m = "merge_capabilities cs"
  obtain c ds where cs: "cs = c # ds"
    using assms by (cases cs) auto
  have m: "merge_capabilities (c # ds) = merge_fields c ds"
    by (rule merge_of_sources)
  have flags: "\<forall>f \<in> set capability_flags. f ?m \<longleftrightarrow> (\<forall>x \<in> set cs. f x)"
    unfolding cs m by (intro ballI) (rule merged_flags)
  have hosted: "mc_hosted ?m = \<Inter> (mc_hosted ` set cs)"
    by (simp add: m cs merge_fields_def Let_def)
  have trans: "mc_transport ?m = agreed ChatCompletions mc_transport cs"
    and reason: "mc_reasoning ?m = agreed reasoning_default mc_reasoning cs"
    by (simp_all add: m cs merge_fields_def Let_def agreed_common)
  have "\<forall>x \<in> set cs. adds_nothing ?m x"
  proof
    fix x
    assume x: "x \<in> set cs"
    have "f x" if "f \<in> set capability_flags" "f ?m" for f
      using bspec [OF flags that(1)] that(2) x by simp
    then have "\<forall>f \<in> set capability_flags. f ?m \<longrightarrow> f x"
      by (intro ballI impI)
    then show "adds_nothing ?m x"
      unfolding adds_nothing_def trans reason hosted
      using agreed_from [OF x, of ChatCompletions mc_transport] agreed_from [OF x, of reasoning_default mc_reasoning] x
      by auto
  qed
  moreover have "map_option set (mc_efforts ?m) = listed_efforts cs
      \<and> (\<forall>x \<in> set cs. \<forall>fs. mc_efforts x = Some fs \<longrightarrow> (\<exists>es. mc_efforts ?m = Some es \<and> set es \<subseteq> set fs))" if "first_lists cs"
  proof -
    have e: "map_option set (mc_efforts ?m) = listed_efforts cs"
      using common_efforts_listed [of c ds] that by (simp add: m cs merge_fields_def Let_def)
    show ?thesis
      using e listed_efforts_within [OF e [symmetric]] by blast
  qed
  ultimately show ?thesis
    using flags hosted trans reason by (intro conjI impI) simp_all
qed

definition three_sources :: "model_caps list" where
  "three_sources =
     [caps_default\<lparr>mc_text := True, mc_thinking := True, mc_efforts := Some [EffortLow, EffortHigh]\<rparr>,
      caps_default\<lparr>mc_text := True, mc_transport := Responses\<rparr>,
      caps_default\<lparr>mc_text := True, mc_efforts := Some [EffortHigh, EffortMax]\<rparr>]"

theorem merge_is_field_by_field_witness:
  "mc_text (merge_capabilities three_sources) \<and> \<not> mc_thinking (merge_capabilities three_sources)
    \<and> mc_transport (merge_capabilities three_sources) = ChatCompletions
    \<and> map_option set (mc_efforts (merge_capabilities three_sources)) = Some {EffortHigh}"
proof -
  have "three_sources \<noteq> []" "first_lists three_sources" "mc_text \<in> set capability_flags" "mc_thinking \<in> set capability_flags"
      "agreed ChatCompletions mc_transport three_sources = ChatCompletions" "listed_efforts three_sources = Some {EffortHigh}"
      "\<forall>x \<in> set three_sources. mc_text x" "\<not> (\<forall>x \<in> set three_sources. mc_thinking x)"
    by (auto simp: three_sources_def first_lists_def capability_flags_def agreed_def listed_efforts_def map_filter_simps
        caps_default_def)
  then show ?thesis
    using merge_is_field_by_field [of three_sources] by simp
qed

end
