(* ===== verification/ModelProps.thy ===== *)
theory ModelProps
  imports ModelMerge
begin

text \<open>Negotiation decides every item once and with a reason, and the gate lets through what all sources declare.\<close>

subsection \<open>Merged sources\<close>

lemma merge_fields_simps [simp]:
  "mc_image_input (merge_fields c cs) = list_all mc_image_input (c # cs)"
  "mc_video_input (merge_fields c cs) = list_all mc_video_input (c # cs)"
  "mc_citations (merge_fields c cs) = list_all mc_citations (c # cs)"
  "mc_hosted (merge_fields c cs) = \<Inter> (mc_hosted ` set (c # cs))"
  by (simp_all add: merge_fields_def all_have_def Let_def)

lemma merged_cases:
  "merged e = (case present_sources e of [] \<Rightarrow> caps_default | [c] \<Rightarrow> c | c # s # cs \<Rightarrow> merge_fields c (s # cs))"
proof (cases "present_sources e")
  case (Cons c ss)
  then show ?thesis
    using merge_reduces by (cases ss) (simp_all add: merged_def merge_capabilities_def)
qed (simp add: merged_def merge_capabilities_def)

definition declared :: "(model_caps \<Rightarrow> bool) \<Rightarrow> capability_evidence \<Rightarrow> bool" where
  "declared f e \<longleftrightarrow> present_sources e \<noteq> [] \<and> list_all f (present_sources e)"

lemma merged_declared:
  "mc_image_input (merged e) \<longleftrightarrow> declared mc_image_input e"
  "mc_video_input (merged e) \<longleftrightarrow> declared mc_video_input e"
  "mc_citations (merged e) \<longleftrightarrow> declared mc_citations e"
  "t \<in> mc_hosted (merged e) \<longleftrightarrow> declared (\<lambda>c. t \<in> mc_hosted c) e"
  unfolding merged_cases declared_def
  by (auto simp: caps_default_def list_all_iff split: list.split)

subsection \<open>The gate\<close>

definition only_rejects :: "(string, fallback) btree \<Rightarrow> bool" where
  "only_rejects m \<longleftrightarrow> list_all (\<lambda>(k, v). \<exists>why. v = Reject why) m"

lemma only_rejects_put: "only_rejects m \<Longrightarrow> only_rejects (bt_put k (Reject why) m)"
  by (induction m) (auto simp: only_rejects_def)

lemma first_reject_None: "only_rejects m \<Longrightarrow> first_reject m = None \<longleftrightarrow> m = []"
  by (cases m rule: first_reject.cases) (auto simp: only_rejects_def)

lemma put_not_Nil: "bt_put k v m \<noteq> []"
  by (cases m) (auto split: if_splits)

lemma decide_fallback:
  "only_rejects (rv_fallback r) \<Longrightarrow> only_rejects (rv_fallback (decide_item ok k why r)) \<and>
     (rv_fallback (decide_item ok k why r) = [] \<longleftrightarrow> ok \<and> rv_fallback r = [])"
  by (auto simp: decide_item_def grant_def refuse_def ask_def only_rejects_put put_not_Nil)

lemma tools_fallback:
  "only_rejects (rv_fallback r) \<Longrightarrow> only_rejects (rv_fallback (fold (negotiate_tool caps) ts r)) \<and>
     (rv_fallback (fold (negotiate_tool caps) ts r) = [] \<longleftrightarrow> set ts \<subseteq> mc_hosted caps \<and> rv_fallback r = [])"
proof (induction ts arbitrary: r)
  case (Cons t ts)
  note d = decide_fallback [OF Cons(2), of "t \<in> mc_hosted caps" "capability_key t"
    "''server tool '' @ backquoted (tag_name t) @ '' not declared by model''", folded negotiate_tool_def]
  show ?case
    using Cons(1) [of "negotiate_tool caps t r"] d by auto
qed simp

lemma set_tags_to_list [simp]: "set (tags_to_list s) = s"
proof -
  have "t \<in> set all_tags" for t
    by (cases t) (simp_all add: all_tags_def)
  then show ?thesis
    by (auto simp: tags_to_list_def)
qed

text \<open>
  C34: A request passes the gate if and only if the model has evidence and every present source, the catalog, the probe
  and the override, declares the image input when the request carries an image anywhere, also inside tool results, the
  video input when it carries a video, and each of the server tools it names.
\<close>

theorem gate_needs_every_source:
  "capability_gate e r = Inr () \<longleftrightarrow>
     (list_ex content_part_has_image (all_content r) \<longrightarrow> declared mc_image_input e) \<and>
     (list_ex content_part_has_video (all_content r) \<longrightarrow> declared mc_video_input e) \<and>
     (\<forall>t \<in> required_tags r. declared (\<lambda>c. t \<in> mc_hosted c) e)"
proof -
  let ?q = "gate_requirements r" and ?caps = "merged e"
  define r1 where "r1 = fold (negotiate_tool ?caps) (tags_to_list (required_tags r)) (resolved_default\<lparr>rv_transport := mc_transport ?caps\<rparr>)"
  define r2 where "r2 = (if re_image_input ?q
      then decide_item (mc_image_input ?caps) ''image_input'' (''model '' @ backquoted (ce_model e) @ '' does not declare image input capability'') r1 else r1)"
  define r3 where "r3 = (if re_video_input ?q
      then decide_item (mc_video_input ?caps) ''video_input'' ''model does not declare video input capability'' r2 else r2)"
  have "choose_transport ?caps [] resolved_default = (mc_transport ?caps, resolved_default)"
    by (simp add: choose_transport_def)
  then have neg: "negotiate e ?q = r3"
    by (simp add: negotiate_def gate_requirements_def r1_def r2_def r3_def Let_def)
  have "only_rejects (rv_fallback (resolved_default\<lparr>rv_transport := mc_transport ?caps\<rparr>))"
    by (simp add: resolved_default_def only_rejects_def)
  from tools_fallback [OF this, of ?caps "tags_to_list (required_tags r)"]
  have f1: "only_rejects (rv_fallback r1)" "rv_fallback r1 = [] \<longleftrightarrow> required_tags r \<subseteq> mc_hosted ?caps"
    unfolding r1_def by (simp_all add: resolved_default_def)
  then have f2: "only_rejects (rv_fallback r2)"
      "rv_fallback r2 = [] \<longleftrightarrow> (re_image_input ?q \<longrightarrow> mc_image_input ?caps) \<and> required_tags r \<subseteq> mc_hosted ?caps"
    using decide_fallback [OF f1(1)] by (auto simp: r2_def)
  then have f3: "only_rejects (rv_fallback r3)"
      "rv_fallback r3 = [] \<longleftrightarrow> (re_video_input ?q \<longrightarrow> mc_video_input ?caps) \<and> (re_image_input ?q \<longrightarrow> mc_image_input ?caps) \<and>
        required_tags r \<subseteq> mc_hosted ?caps"
    using decide_fallback [OF f2(1)] by (auto simp: r3_def)
  have "capability_gate e r = Inr () \<longleftrightarrow> rv_fallback r3 = []"
    using first_reject_None [OF f3(1)] neg by (auto simp: capability_gate_def split: option.split)
  then show ?thesis
    using f3(2) by (auto simp: merged_declared subset_iff gate_requirements_def)
qed

subsection \<open>Negotiation\<close>

definition decided :: "resolved_caps \<Rightarrow> bool" where
  "decided r \<longleftrightarrow>
     rv_requested r = rv_supported r \<union> rv_unsupported r \<and> rv_supported r \<inter> rv_unsupported r = {} \<and>
     (\<forall>k \<in> rv_unsupported r. \<exists>why. bt_get (rv_fallback r) k = Some (Reject why))"

lemma decide_decided:
  assumes "decided r" and "k \<notin> rv_requested r"
  shows "decided (decide_item ok k why r)" and "rv_requested (decide_item ok k why r) = insert k (rv_requested r)"
    and "rv_transport (decide_item ok k why r) = rv_transport r"
    and "rv_supported (decide_item ok k why r) = (if ok then insert k (rv_supported r) else rv_supported r)"
  using assms by (auto simp: decided_def decide_item_def grant_def refuse_def ask_def bt_get_put)

lemma capability_key_inj [simp]: "capability_key a = capability_key b \<longleftrightarrow> a = b"
  by (cases a; cases b) (simp_all add: capability_key_def)

lemma tools_decided:
  assumes "decided r" and "distinct ts" and "\<forall>t \<in> set ts. capability_key t \<notin> rv_requested r"
  shows "decided (fold (negotiate_tool caps) ts r) \<and>
    rv_requested (fold (negotiate_tool caps) ts r) = rv_requested r \<union> capability_key ` set ts \<and>
    rv_supported (fold (negotiate_tool caps) ts r) = rv_supported r \<union> capability_key ` (set ts \<inter> mc_hosted caps) \<and>
    rv_transport (fold (negotiate_tool caps) ts r) = rv_transport r"
  using assms
proof (induction ts arbitrary: r)
  case (Cons t ts)
  have "capability_key t \<notin> rv_requested r"
    using Cons(4) by simp
  note d = decide_decided [OF Cons(2) this, of "t \<in> mc_hosted caps"
    "''server tool '' @ backquoted (tag_name t) @ '' not declared by model''", folded negotiate_tool_def]
  have "\<forall>u \<in> set ts. capability_key u \<notin> rv_requested (negotiate_tool caps t r)"
    using Cons(3,4) d(2) by auto
  then show ?case
    using Cons(1) [OF d(1)] Cons(3) d by auto
qed simp

lemma effort_key_decided:
  "decided r \<Longrightarrow> k \<notin> rv_unsupported r \<Longrightarrow> decided (r\<lparr>rv_fallback := bt_put k v (rv_fallback r)\<rparr>)"
  by (auto simp: decided_def bt_get_put)

lemma decide_if:
  assumes "decided r" and "wanted \<longrightarrow> k \<notin> rv_requested r"
  shows "decided (if wanted then decide_item ok k why r else r)"
    and "rv_requested (if wanted then decide_item ok k why r else r) = rv_requested r \<union> (if wanted then {k} else {})"
    and "rv_transport (if wanted then decide_item ok k why r else r) = rv_transport r"
    and "rv_supported (if wanted then decide_item ok k why r else r) = rv_supported r \<union> (if wanted \<and> ok then {k} else {})"
  using decide_decided [of r k ok why] assms by (cases wanted; cases ok; simp)+

text \<open>The states of reasoning are decided while the reasoning itself, \<open>x\<close>, is still open.\<close>

definition decided_but :: "string \<Rightarrow> resolved_caps \<Rightarrow> bool" where
  "decided_but x r \<longleftrightarrow>
     rv_requested r = insert x (rv_supported r \<union> rv_unsupported r) \<and> x \<notin> rv_supported r \<union> rv_unsupported r \<and>
     rv_supported r \<inter> rv_unsupported r = {} \<and>
     (\<forall>k \<in> rv_unsupported r. \<exists>why. bt_get (rv_fallback r) k = Some (Reject why))"

lemma decide_state_but:
  assumes "decided_but x r" and "k \<notin> rv_requested r"
  shows "decided_but x (decide_state wanted have k why r)"
    and "rv_requested (decide_state wanted have k why r) \<subseteq> insert k (rv_requested r)"
    and "rv_transport (decide_state wanted have k why r) = rv_transport r"
    and "rv_supported (decide_state wanted have k why r) = rv_supported r"
    and "rv_requested r \<subseteq> rv_requested (decide_state wanted have k why r)"
  using assms by (auto simp: decide_state_def decided_but_def refuse_def ask_def bt_get_put)

lemma ask_but: "decided r \<Longrightarrow> x \<notin> rv_requested r \<Longrightarrow> decided_but x (ask x r)"
  by (auto simp: decided_def decided_but_def ask_def)

lemma grant_but: "decided_but x r \<Longrightarrow> decided (grant x r)"
  by (auto simp: decided_def decided_but_def grant_def)

lemma refuse_but: "decided_but x r \<Longrightarrow> decided (refuse x why r)"
  by (auto simp: decided_def decided_but_def refuse_def bt_get_put)

lemma clamp_but:
  "decided_but x r \<Longrightarrow> k \<notin> rv_requested r \<Longrightarrow> decided_but x (r\<lparr>rv_fallback := bt_put k v (rv_fallback r)\<rparr>)"
  by (auto simp: decided_but_def bt_get_put)

definition reasoning_keys :: "string set" where
  "reasoning_keys = {''reasoning.effort'', ''reasoning.signature'', ''reasoning.encrypted'', ''reasoning.interleaved''}"

lemma reasoning_decided:
  assumes "decided r" and "rv_requested r \<inter> insert ''reasoning'' reasoning_keys = {}"
  shows "decided (negotiate_reasoning q caps r) \<and>
    insert ''reasoning'' (rv_requested r) \<subseteq> rv_requested (negotiate_reasoning q caps r) \<and>
    rv_transport (negotiate_reasoning q caps r) = rv_transport r \<and>
    rv_supported (negotiate_reasoning q caps r) = rv_supported r \<union> (if reasons caps then {''reasoning''} else {})"
proof -
  let ?have = "rc_state (mc_reasoning caps)" and ?wants = "rq_state q"
  define r0 where "r0 = ask ''reasoning'' r"
  have r0: "decided_but ''reasoning'' r0"
    using ask_but [OF assms(1)] assms(2) by (auto simp: r0_def)
  have keys0: "rv_requested r0 = insert ''reasoning'' (rv_requested r)" "rv_transport r0 = rv_transport r" "rv_supported r0 = rv_supported r"
    by (simp_all add: r0_def ask_def)
  show ?thesis
  proof (cases "reasons caps")
    case False
    have "negotiate_reasoning q caps r =
        refuse ''reasoning'' (''reasoning effort '' @ effort_name (rq_effort q) @ '' not supported by model'') r0"
      using False by (simp add: negotiate_reasoning_def r0_def Let_def)
    then show ?thesis
      using refuse_but [OF r0] keys0 False by (simp add: refuse_def)
  next
    case True
    define r1 where "r1 = (if needs_clamp q caps then r0\<lparr>rv_fallback := bt_put ''reasoning.effort'' ClampedEffort (rv_fallback r0)\<rparr> else r0)"
    define r2 where "r2 = decide_state (rs_signature ?wants) (rs_signature ?have) ''reasoning.signature'' ''signature continuation not supported'' r1"
    define r3 where "r3 = decide_state (rs_encrypted ?wants) (rs_encrypted ?have) ''reasoning.encrypted'' ''encrypted continuation not supported'' r2"
    define r4 where "r4 = decide_state (rs_interleaved ?wants) (rs_interleaved ?have) ''reasoning.interleaved'' ''interleaved thinking not supported'' r3"
    have r1: "decided_but ''reasoning'' r1" "rv_requested r1 = rv_requested r0" "rv_transport r1 = rv_transport r" "rv_supported r1 = rv_supported r"
      using clamp_but [OF r0] r0 keys0 assms(2) by (auto simp: r1_def reasoning_keys_def)
    have "''reasoning.signature'' \<notin> rv_requested r1"
      using r1(2) keys0(1) assms(2) by (auto simp: reasoning_keys_def)
    note r2 = decide_state_but [OF r1(1) this, of "rs_signature ?wants" "rs_signature ?have" "''signature continuation not supported''", folded r2_def]
    have "''reasoning.encrypted'' \<notin> rv_requested r2"
      using r2(2) r1(2) keys0(1) assms(2) by (auto simp: reasoning_keys_def)
    note r3 = decide_state_but [OF r2(1) this, of "rs_encrypted ?wants" "rs_encrypted ?have" "''encrypted continuation not supported''", folded r3_def]
    have "''reasoning.interleaved'' \<notin> rv_requested r3"
      using r3(2) r2(2) r1(2) keys0(1) assms(2) by (auto simp: reasoning_keys_def)
    note r4 = decide_state_but [OF r3(1) this, of "rs_interleaved ?wants" "rs_interleaved ?have" "''interleaved thinking not supported''", folded r4_def]
    have "negotiate_reasoning q caps r = grant ''reasoning'' r4"
      using True by (simp add: negotiate_reasoning_def r0_def r1_def r2_def r3_def r4_def Let_def)
    then show ?thesis
      using grant_but [OF r4(1)] r1(2-4) r2(3-5) r3(3-5) r4(3-5) keys0(1) True by (auto simp: grant_def)
  qed
qed

lemma capability_key_other: "capability_key t = CHR ''t'' # s \<longleftrightarrow> s = ''ool:'' @ tag_name t"
  by (auto simp: capability_key_def)

lemma capability_key_fresh: "c \<noteq> CHR ''t'' \<Longrightarrow> capability_key t \<noteq> c # s"
  by (simp add: capability_key_def)

lemma choose_plain:
  "\<exists>r. choose_transport caps pref resolved_default = (mc_transport caps, r) \<and>
     rv_requested r = {} \<and> rv_supported r = {} \<and> rv_unsupported r = {}"
  by (cases "mc_transport caps") (simp_all add: choose_transport_def resolved_default_def)

text \<open>All items but the reasoning.\<close>

lemma items_decided:
  obtains r where "decided r" "rv_transport r = mc_transport (merged e)"
    "rv_requested r = capability_key ` re_tools q \<union> (if re_citations q then {''citations''} else {}) \<union>
       (if re_image_input q then {''image_input''} else {}) \<union> (if re_video_input q then {''video_input''} else {})"
    "rv_supported r = capability_key ` (re_tools q \<inter> mc_hosted (merged e)) \<union>
       (if re_citations q \<and> mc_citations (merged e) then {''citations''} else {}) \<union>
       (if re_image_input q \<and> mc_image_input (merged e) then {''image_input''} else {}) \<union>
       (if re_video_input q \<and> mc_video_input (merged e) then {''video_input''} else {})"
    "negotiate e q = (case re_reasoning q of None \<Rightarrow> r | Some c \<Rightarrow> negotiate_reasoning c (merged e) r)"
proof -
  let ?caps = "merged e"
  obtain r00 where r00: "choose_transport ?caps (re_transport q) resolved_default = (mc_transport ?caps, r00)"
    and e00: "rv_requested r00 = {}" "rv_supported r00 = {}" "rv_unsupported r00 = {}"
    using choose_plain by blast
  define r0 where "r0 = r00\<lparr>rv_transport := mc_transport ?caps\<rparr>"
  have d0: "decided r0" "rv_requested r0 = {}" "rv_supported r0 = {}" "rv_transport r0 = mc_transport ?caps"
    using e00 by (simp_all add: r0_def decided_def)
  define r1 where "r1 = fold (negotiate_tool ?caps) (tags_to_list (re_tools q)) r0"
  have "distinct (tags_to_list (re_tools q))"
    unfolding tags_to_list_def by (rule distinct_filter) (simp add: all_tags_def)
  from tools_decided [OF d0(1) this, of ?caps, folded r1_def] d0
  have r1: "decided r1" "rv_requested r1 = capability_key ` re_tools q" "rv_supported r1 = capability_key ` (re_tools q \<inter> mc_hosted ?caps)"
      "rv_transport r1 = mc_transport ?caps"
    by simp_all
  define r2 where "r2 = (if re_citations q then decide_item (mc_citations ?caps) ''citations'' ''citations not supported by model'' r1 else r1)"
  have "re_citations q \<longrightarrow> ''citations'' \<notin> rv_requested r1"
    using r1(2) capability_key_fresh [of "CHR ''c''"] by (auto dest: sym)
  note r2 = decide_if [OF r1(1) this, of "mc_citations ?caps" "''citations not supported by model''", folded r2_def]
  let ?why = "''model '' @ backquoted (ce_model e) @ '' does not declare image input capability''"
  define r3 where "r3 = (if re_image_input q then decide_item (mc_image_input ?caps) ''image_input'' ?why r2 else r2)"
  have "re_image_input q \<longrightarrow> ''image_input'' \<notin> rv_requested r2"
    using r2(2) r1(2) capability_key_fresh [of "CHR ''i''"] by (auto dest: sym)
  note r3 = decide_if [OF r2(1) this, of "mc_image_input ?caps" ?why, folded r3_def]
  define r4 where "r4 = (if re_video_input q then decide_item (mc_video_input ?caps) ''video_input'' ''model does not declare video input capability'' r3 else r3)"
  have "re_video_input q \<longrightarrow> ''video_input'' \<notin> rv_requested r3"
    using r3(2) r2(2) r1(2) capability_key_fresh [of "CHR ''v''"] by (auto dest: sym)
  note r4 = decide_if [OF r3(1) this, of "mc_video_input ?caps" "''model does not declare video input capability''", folded r4_def]
  have neg: "negotiate e q = (case re_reasoning q of None \<Rightarrow> r4 | Some c \<Rightarrow> negotiate_reasoning c ?caps r4)"
    unfolding negotiate_def Let_def r00 prod.case r4_def r3_def r2_def r1_def r0_def ..
  show thesis
    by (rule that [OF r4(1) _ _ _ neg]) (simp_all add: r1 r2 r3 r4)
qed

text \<open>
  C26: Negotiation decides every item of a request exactly once: what is asked is either supported or not supported, never
  both, and what is not supported carries the reason to reject it. Supported is exactly what was asked and all sources
  declare, and the transport chosen is always the one of the merged declaration. Reasoning is declared where the
  merged declaration has thinking or, without it, any of its reasoning flags (a continuation with signature or
  encryption, interleaving, granular efforts); the module's doc asks for thinking alone.
\<close>

theorem negotiation_decides_every_item:
  "rv_requested (negotiate e q) = rv_supported (negotiate e q) \<union> rv_unsupported (negotiate e q) \<and>
   rv_supported (negotiate e q) \<inter> rv_unsupported (negotiate e q) = {} \<and>
   (\<forall>k \<in> rv_unsupported (negotiate e q). \<exists>why. bt_get (rv_fallback (negotiate e q)) k = Some (Reject why)) \<and>
   capability_key ` re_tools q \<union> (if re_citations q then {''citations''} else {}) \<union>
     (if re_image_input q then {''image_input''} else {}) \<union> (if re_video_input q then {''video_input''} else {}) \<union>
     (if re_reasoning q \<noteq> None then {''reasoning''} else {}) \<subseteq> rv_requested (negotiate e q) \<and>
   rv_supported (negotiate e q) =
     capability_key ` {t \<in> re_tools q. declared (\<lambda>c. t \<in> mc_hosted c) e} \<union>
     (if re_citations q \<and> declared mc_citations e then {''citations''} else {}) \<union>
     (if re_image_input q \<and> declared mc_image_input e then {''image_input''} else {}) \<union>
     (if re_video_input q \<and> declared mc_video_input e then {''video_input''} else {}) \<union>
     (if re_reasoning q \<noteq> None \<and> reasons (merged e) then {''reasoning''} else {}) \<and>
   rv_transport (negotiate e q) = mc_transport (merged e)"
proof -
  obtain r where r: "decided r" "rv_transport r = mc_transport (merged e)"
      "rv_requested r = capability_key ` re_tools q \<union> (if re_citations q then {''citations''} else {}) \<union>
         (if re_image_input q then {''image_input''} else {}) \<union> (if re_video_input q then {''video_input''} else {})"
      "rv_supported r = capability_key ` (re_tools q \<inter> mc_hosted (merged e)) \<union>
         (if re_citations q \<and> mc_citations (merged e) then {''citations''} else {}) \<union>
         (if re_image_input q \<and> mc_image_input (merged e) then {''image_input''} else {}) \<union>
         (if re_video_input q \<and> mc_video_input (merged e) then {''video_input''} else {})"
      "negotiate e q = (case re_reasoning q of None \<Rightarrow> r | Some c \<Rightarrow> negotiate_reasoning c (merged e) r)"
    by (rule items_decided)
  have "rv_requested r \<inter> insert ''reasoning'' reasoning_keys = {}"
    using r(3) capability_key_fresh [of "CHR ''r''"] by (auto simp: reasoning_keys_def dest: sym)
  note reasoned = reasoning_decided [OF r(1) this]
  have tools: "re_tools q \<inter> mc_hosted (merged e) = {t \<in> re_tools q. declared (\<lambda>c. t \<in> mc_hosted c) e}"
    by (auto simp: merged_declared)
  have supported: "rv_supported r = capability_key ` {t \<in> re_tools q. declared (\<lambda>c. t \<in> mc_hosted c) e} \<union>
      (if re_citations q \<and> declared mc_citations e then {''citations''} else {}) \<union>
      (if re_image_input q \<and> declared mc_image_input e then {''image_input''} else {}) \<union>
      (if re_video_input q \<and> declared mc_video_input e then {''video_input''} else {})"
    unfolding r(4) tools merged_declared ..
  show ?thesis
  proof (cases "re_reasoning q")
    case None
    then have neg: "negotiate e q = r"
      using r(5) by simp
    show ?thesis
      using r(1) unfolding neg None supported [symmetric] r(3) [symmetric] decided_def r(2) by simp
  next
    case (Some c)
    then have neg: "negotiate e q = negotiate_reasoning c (merged e) r"
      using r(5) by simp
    note d = reasoned [of c "merged e"]
    have "rv_supported (negotiate e q) = rv_supported r \<union> (if re_reasoning q \<noteq> None \<and> reasons (merged e) then {''reasoning''} else {})"
      using d Some unfolding neg by simp
    moreover have "rv_requested r \<union> (if re_reasoning q \<noteq> None then {''reasoning''} else {}) \<subseteq> rv_requested (negotiate e q)"
      using d Some unfolding neg by simp
    moreover have "decided (negotiate e q)" "rv_transport (negotiate e q) = mc_transport (merged e)"
      using d r(2) unfolding neg by simp_all
    ultimately show ?thesis
      unfolding supported [symmetric] r(3) [symmetric] decided_def by blast
  qed
qed

subsection \<open>A model\<close>

definition vision_caps :: model_caps where
  "vision_caps = caps_default\<lparr>mc_text := True, mc_image_input := True, mc_hosted := {TagWebSearch}\<rparr>"

definition vision_evidence :: "model_caps option \<Rightarrow> capability_evidence" where
  "vision_evidence probe =
     \<lparr>ce_model = ''m'', ce_provider = None, ce_static = Some vision_caps, ce_probe = probe, ce_override = None\<rparr>"

definition picture_request :: gated_request where
  "picture_request =
     \<lparr>gr_messages = [\<lparr>ms_id = ''a'', ms_role = RoleTool,
        ms_content = [PartToolResult ''t'' None [PartImage (ImgUrl ''u'') ''image/png'' None] False JNull []], ms_meta = meta_default\<rparr>],
      gr_hosted = [\<lparr>ht_name = ''web_search'', ht_kind = TagWebSearch, ht_capabilities = []\<rparr>], gr_extensions = []\<rparr>"

lemma gate_needs_every_source_witness:
  "capability_gate (vision_evidence None) picture_request = Inr () \<and>
   capability_gate (vision_evidence (Some (vision_caps\<lparr>mc_image_input := False\<rparr>))) picture_request \<noteq> Inr ()"
  unfolding gate_needs_every_source
  by (simp add: vision_evidence_def vision_caps_def picture_request_def declared_def present_sources_def all_content_def
      required_tags_def)

definition tools_request :: requirements where
  "tools_request =
     \<lparr>re_video_input = False, re_transport = [], re_tools = {TagWebSearch, TagCodeExecution}, re_reasoning = None,
      re_citations = True, re_image_input = False\<rparr>"

lemma negotiation_decides_every_item_witness:
  "rv_supported (negotiate (vision_evidence None) tools_request) = {''tool:WebSearch''} \<and>
   rv_unsupported (negotiate (vision_evidence None) tools_request) \<supseteq> {''tool:CodeExecution'', ''citations''}"
proof -
  have "{t \<in> {TagWebSearch, TagCodeExecution}. declared (\<lambda>c. t \<in> mc_hosted c) (vision_evidence None)} = {TagWebSearch}"
    by (auto simp: declared_def present_sources_def vision_evidence_def vision_caps_def)
  moreover have "\<not> declared mc_citations (vision_evidence None)"
    by (simp add: declared_def present_sources_def vision_evidence_def vision_caps_def caps_default_def)
  moreover have "re_tools tools_request = {TagWebSearch, TagCodeExecution}" "re_citations tools_request"
      "\<not> re_image_input tools_request" "\<not> re_video_input tools_request" "re_reasoning tools_request = None"
    by (simp_all add: tools_request_def)
  ultimately show ?thesis
    using negotiation_decides_every_item [of "vision_evidence None" tools_request]
    by (auto simp: capability_key_def)
qed

text \<open>
  Three sources may be present, and the order of the merge shows in the efforts: what a probe or an override lists is
  dropped when the catalog lists nothing, though a source without a list is meant not to constrain the others.
\<close>

lemma first_source_drops_efforts:
  "mc_efforts (merge_capabilities [vision_caps, vision_caps\<lparr>mc_efforts := Some [EffortLow]\<rparr>]) = None \<and>
   mc_efforts (merge_capabilities [vision_caps\<lparr>mc_efforts := Some [EffortLow]\<rparr>, vision_caps]) = Some [EffortLow]"
  by (simp add: merge_reduces merge_fields_def common_efforts_def vision_caps_def caps_default_def Let_def)

text \<open>
  A model without thinking but with a reasoning flag is taken to reason. The doc of the module puts reasoning wholly
  into what is unsupported when thinking is false.
\<close>

definition granular_evidence :: capability_evidence where
  "granular_evidence =
     (vision_evidence None)\<lparr>ce_static := Some (vision_caps\<lparr>mc_reasoning := reasoning_default\<lparr>rc_granular := True\<rparr>\<rparr>)\<rparr>"

lemma reasoning_without_thinking:
  assumes "re_reasoning q \<noteq> None"
  shows "\<not> mc_thinking (merged granular_evidence) \<and> ''reasoning'' \<in> rv_supported (negotiate granular_evidence q)
    \<and> ''reasoning'' \<notin> rv_unsupported (negotiate granular_evidence q)"
proof -
  let ?e = granular_evidence
  have caps: "\<not> mc_thinking (merged ?e)" "reasons (merged ?e)"
    by (simp_all add: merged_cases granular_evidence_def vision_evidence_def present_sources_def vision_caps_def caps_default_def
        reasons_def)
  obtain c where c: "re_reasoning q = Some c"
    using assms by auto
  obtain r where r: "decided r" "negotiate ?e q = negotiate_reasoning c (merged ?e) r"
      "rv_requested r = capability_key ` re_tools q \<union> (if re_citations q then {''citations''} else {}) \<union>
         (if re_image_input q then {''image_input''} else {}) \<union> (if re_video_input q then {''video_input''} else {})"
    by (rule items_decided [of ?e q]) (simp add: c)
  have "rv_requested r \<inter> insert ''reasoning'' reasoning_keys = {}"
    using r(3) capability_key_fresh [of "CHR ''r''"] by (auto simp: reasoning_keys_def dest: sym)
  from reasoning_decided [OF r(1) this, of c "merged ?e"] show ?thesis
    unfolding r(2) using caps by (auto simp: decided_def)
qed

end
