(* ===== verification/ModelRegistryProps.thy ===== *)
theory ModelRegistryProps
  imports ModelCatalog ModelProps
begin

text \<open>The names of the catalog stay unambiguous, evidence does not depend on the name used, and costs are exact.\<close>

subsection \<open>Names\<close>

text \<open>
  Entries are kept under their lower case id, every alias leads to an entry, and no alias hides an entry.
\<close>

definition names_ok :: "(string, catalog_entry) btree \<Rightarrow> (string, string) btree \<Rightarrow> bool" where
  "names_ok es as \<longleftrightarrow>
     (\<forall>k e. bt_get es k = Some e \<longrightarrow> k = to_lower (en_id e)) \<and>
     (\<forall>a i. bt_get as a = Some i \<longrightarrow> to_lower a = a \<and> bt_has es i \<and> (bt_has es a \<longrightarrow> a = i))"

definition registry_wf :: "model_registry \<Rightarrow> bool" where
  "registry_wf r \<longleftrightarrow> bt_wf (mr_aliases r) \<and> names_ok (mr_entries r) (mr_aliases r)"

lemma lower_char: "to_lower (to_lower s) = to_lower s"
proof -
  have "(if ascii_upper c then char_of ((of_char c :: nat) + 32) else c) =
      (let d = (if ascii_upper c then char_of ((of_char c :: nat) + 32) else c) in
       if ascii_upper d then char_of ((of_char d :: nat) + 32) else d)" for c
    by (auto simp: ascii_upper_def Let_def)
  then show ?thesis
    by (simp add: to_lower_def Let_def comp_def)
qed

lemma bt_get_filter:
  assumes "bt_wf m"
  shows "bt_get (filter (\<lambda>(a, j). P a j) m) k = (case bt_get m k of Some v \<Rightarrow> (if P k v then Some v else None) | None \<Rightarrow> None)"
  using assms
proof (induction m)
  case (Cons kv m)
  obtain k' v where kv: "kv = (k', v)"
    by (cases kv)
  have "k' \<notin> set (bt_keys m)"
    using Cons(2) kv by auto
  then have "k = k' \<Longrightarrow> bt_get m k = None"
    by (simp add: bt_get_None_iff)
  then show ?case
    using Cons kv by auto
qed simp

lemma bt_wf_filter: "bt_wf m \<Longrightarrow> bt_wf (filter P m)"
  by (auto simp: bt_wf_def bt_keys_def sorted_wrt_map intro: sorted_wrt_filter)

text \<open>The aliases of one entry, put one by one.\<close>

definition put_aliases :: "string \<Rightarrow> string set \<Rightarrow> (string, string) btree \<Rightarrow> (string, string) btree \<Rightarrow> bool" where
  "put_aliases i X m m' \<longleftrightarrow> bt_wf m' \<and> (\<forall>a. bt_get m' a = (if a \<in> X then Some i else bt_get m a))"

lemma fold_put_alias:
  "bt_wf m \<Longrightarrow> put_aliases i (to_lower ` set as) m (fold (put_alias i) as m)"
proof (induction as arbitrary: m)
  case (Cons a as)
  have "bt_wf (put_alias i a m)"
    using Cons(2) by (simp add: put_alias_def bt_wf_put)
  from Cons(1) [OF this] show ?case
    by (auto simp: put_aliases_def put_alias_def bt_get_put)
qed (simp add: put_aliases_def)

lemma fold_put_free_alias:
  "bt_wf m \<Longrightarrow> put_aliases i {a \<in> to_lower ` set as. \<not> bt_has (mr_entries r) a \<or> a = i} m (fold (put_free_alias r i) as m)"
proof (induction as arbitrary: m)
  case (Cons a as)
  have "bt_wf (put_free_alias r i a m)"
    using Cons(2) by (simp add: put_free_alias_def bt_wf_put)
  from Cons(1) [OF this] show ?case
    by (auto simp: put_aliases_def put_free_alias_def bt_get_put)
qed (simp add: put_aliases_def)

lemma names_ok_entry:
  assumes "names_ok es as" and "bt_wf as" and "put_aliases i X (filter (\<lambda>(a, j). P a j) as) as'" and "i = to_lower (en_id e)"
    and "\<forall>a j. P a j \<longrightarrow> bt_get as a = Some j \<longrightarrow> j \<noteq> i \<and> a \<noteq> i"
    and "\<forall>a \<in> X. to_lower a = a \<and> (bt_has es a \<longrightarrow> a = i)"
  shows "names_ok (bt_put i e es) as'"
proof -
  have get: "bt_get as' a = (if a \<in> X then Some i else (case bt_get as a of Some v \<Rightarrow> (if P a v then Some v else None) | None \<Rightarrow> None))" for a
    using assms(3) by (simp add: put_aliases_def bt_get_filter [OF assms(2)])
  have "to_lower a = a \<and> bt_has (bt_put i e es) j \<and> (bt_has (bt_put i e es) a \<longrightarrow> a = j)" if "bt_get as' a = Some j" for a j
  proof (cases "a \<in> X")
    case True
    then show ?thesis
      using that get [of a] assms(6) by (auto simp: bt_get_put)
  next
    case False
    then have "bt_get as a = Some j" "P a j"
      using that get [of a] by (auto split: option.splits if_splits)
    then show ?thesis
      using assms(1,5) by (auto simp: names_ok_def bt_get_put)
  qed
  then show ?thesis
    using assms(1,4) by (auto simp: names_ok_def bt_get_put)
qed

lemma first_conflict_None:
  "first_conflict r i as = None \<Longrightarrow> a \<in> set as \<Longrightarrow> alias_conflict r i a = None"
  by (induction r i as rule: first_conflict.induct) (auto split: option.splits)

lemma try_register_wf:
  assumes "registry_wf r"
  shows "registry_wf (snd (try_register r e))"
proof -
  let ?i = "to_lower (en_id e)"
  show ?thesis
  proof (cases "id_conflict r e = None \<and> first_conflict r ?i (en_aliases e) = None")
    case True
    have wf: "bt_wf (mr_aliases r)" "names_ok (mr_entries r) (mr_aliases r)"
      using assms by (simp_all add: registry_wf_def)
    let ?m = "filter (\<lambda>(a, j). j \<noteq> ?i) (mr_aliases r)"
    have put: "put_aliases ?i (to_lower ` set (en_aliases e)) ?m (fold (put_alias ?i) (en_aliases e) ?m)"
      by (rule fold_put_alias) (simp add: bt_wf_filter wf)
    have "\<forall>a j. j \<noteq> ?i \<longrightarrow> bt_get (mr_aliases r) a = Some j \<longrightarrow> j \<noteq> ?i \<and> a \<noteq> ?i"
      using True by (auto simp: id_conflict_def split: option.splits if_splits)
    moreover have "\<forall>a \<in> to_lower ` set (en_aliases e). to_lower a = a \<and> (bt_has (mr_entries r) a \<longrightarrow> a = ?i)"
    proof
      fix a assume "a \<in> to_lower ` set (en_aliases e)"
      then obtain b where b: "b \<in> set (en_aliases e)" "a = to_lower b"
        by auto
      then have "alias_conflict r ?i b = None"
        using first_conflict_None True by blast
      then show "to_lower a = a \<and> (bt_has (mr_entries r) a \<longrightarrow> a = ?i)"
        using b(2) by (auto simp: alias_conflict_def lower_char split: if_splits)
    qed
    ultimately have "names_ok (bt_put ?i e (mr_entries r)) (fold (put_alias ?i) (en_aliases e) ?m)"
      using names_ok_entry [OF wf(2,1) put refl] by blast
    then show ?thesis
      using True put by (simp add: try_register_def Let_def registry_wf_def put_aliases_def)
  next
    case False
    then have "snd (try_register r e) = r"
      by (auto simp: try_register_def Let_def split: option.split)
    then show ?thesis
      using assms by simp
  qed
qed

lemma extend_one_wf:
  assumes "registry_wf r"
  shows "registry_wf (extend_one e r)"
proof -
  let ?i = "to_lower (en_id e)"
  have wf: "bt_wf (mr_aliases r)" "names_ok (mr_entries r) (mr_aliases r)"
    using assms by (simp_all add: registry_wf_def)
  let ?m = "filter (\<lambda>(a, j). j \<noteq> ?i \<and> a \<noteq> ?i) (mr_aliases r)"
  have put: "put_aliases ?i {a \<in> to_lower ` set (en_aliases e). \<not> bt_has (mr_entries r) a \<or> a = ?i} ?m
      (fold (put_free_alias r ?i) (en_aliases e) ?m)"
    by (rule fold_put_free_alias) (simp add: bt_wf_filter wf)
  have "names_ok (bt_put ?i e (mr_entries r)) (fold (put_free_alias r ?i) (en_aliases e) ?m)"
    by (rule names_ok_entry [OF wf(2,1) put refl]) (auto simp: lower_char)
  then show ?thesis
    using put by (simp add: extend_one_def Let_def registry_wf_def put_aliases_def)
qed

lemma extend_with_wf: "registry_wf r \<Longrightarrow> registry_wf (extend_with r es)"
  unfolding extend_with_def by (induction es arbitrary: r) (simp_all add: extend_one_wf)

lemma merge_one_wf:
  assumes "registry_wf r"
  shows "registry_wf (merge_one p d r)"
proof (cases "bt_get (mr_entries r) (to_lower (md_id d))")
  case None
  then show ?thesis
    using extend_with_wf [OF assms] by (simp add: merge_one_def)
next
  case (Some e)
  then show ?thesis
    using assms by (auto simp: merge_one_def registry_wf_def names_ok_def bt_get_put)
qed

lemma merge_models_wf: "registry_wf r \<Longrightarrow> registry_wf (merge_provider_models r p ds)"
  unfolding merge_provider_models_def by (induction ds arbitrary: r) (simp_all add: merge_one_wf)

text \<open>Everything a host may do with a catalog.\<close>

datatype catalog_op =
    OpRegister catalog_entry
  | OpExtend "catalog_entry list"
  | OpMerge string "model_definition list"
  | OpOverride string model_caps
  | OpRemoveOverride string
  | OpRecord string "model_definition list"
  | OpClear string

fun catalog_step :: "catalog_op \<Rightarrow> model_registry \<Rightarrow> model_registry" where
  "catalog_step (OpRegister e) r = snd (register r e)"
| "catalog_step (OpExtend es) r = extend_with r es"
| "catalog_step (OpMerge p ds) r = merge_provider_models r p ds"
| "catalog_step (OpOverride m c) r = set_override r m c"
| "catalog_step (OpRemoveOverride m) r = snd (remove_override r m)"
| "catalog_step (OpRecord p ds) r = snd (record_probe r p ds)"
| "catalog_step (OpClear p) r = snd (clear_probe r p)"

lemma same_names_wf: "registry_wf r \<Longrightarrow> mr_entries r' = mr_entries r \<Longrightarrow> mr_aliases r' = mr_aliases r \<Longrightarrow> registry_wf r'"
  by (simp add: registry_wf_def)

lemma record_probe_names [simp]:
  "mr_entries (snd (record_probe r p ds)) = mr_entries r" "mr_aliases (snd (record_probe r p ds)) = mr_aliases r"
  by (simp_all add: record_probe_def probe_slot_def slot_complete_def set_slot_def Let_def split: option.split)

lemma catalog_step_wf: "registry_wf r \<Longrightarrow> registry_wf (catalog_step x r)"
  by (cases x)
     (auto simp: register_def try_register_wf extend_with_wf merge_models_wf set_override_def remove_override_def
        clear_probe_def Let_def elim!: same_names_wf)

lemma put_names:
  assumes "names_ok es as" and "bt_wf as" and "\<not> bt_has as (to_lower (en_id e))"
    and "\<forall>a \<in> set (en_aliases e). \<not> bt_has es (to_lower a)"
  shows "bt_wf (fold (put_alias (to_lower (en_id e))) (en_aliases e) as) \<and>
    names_ok (bt_put (to_lower (en_id e)) e es) (fold (put_alias (to_lower (en_id e))) (en_aliases e) as)"
  using fold_put_alias [OF assms(2), of "to_lower (en_id e)" "en_aliases e"] assms
  by (auto simp: put_aliases_def names_ok_def bt_get_put lower_char)

lemma builtin_wf: "registry_wf registry_builtin"
proof -
  have ok: "list_all (\<lambda>(k, e). k = to_lower (en_id e)) (mr_entries registry_builtin)"
      "list_all (\<lambda>(a, i). to_lower a = a \<and> bt_has (mr_entries registry_builtin) i \<and> \<not> bt_has (mr_entries registry_builtin) a)
         (mr_aliases registry_builtin)"
      "sorted_wrt (<) (map fst (mr_aliases registry_builtin))" "sorted_wrt (<) (map fst (mr_entries registry_builtin))"
    by code_simp+
  then have wf: "bt_wf (mr_aliases registry_builtin)" "bt_wf (mr_entries registry_builtin)"
    by (simp_all add: bt_wf_def bt_keys_def)
  show ?thesis
    using ok(1,2) wf(1) unfolding registry_wf_def names_ok_def
    by (fastforce simp: list_all_iff bt_get_iff_mem [OF wf(1)] bt_get_iff_mem [OF wf(2)])
qed

lemma catalog_run_wf: "registry_wf r \<Longrightarrow> registry_wf (fold catalog_step ops r)"
  by (induction ops arbitrary: r) (simp_all add: catalog_step_wf)

lemma resolve_lower [simp]: "resolve_model r (to_lower m) = resolve_model r m"
  by (simp only: resolve_model_def lower_char)

text \<open>
  C29: The name by which a model is asked for does not matter: whatever was registered, discovered, overridden and
  probed before, an alias or a differently written id leads to an entry that is found under its own id, and evidence,
  override and price are those of that id. And every alias leads to the model it was given to: none is hidden by another
  model or points to one that is gone.
\<close>

theorem names_do_not_matter:
  assumes "r = fold catalog_step ops registry_builtin" and "resolve_model r m = Some e"
  shows "resolve_model r (en_id e) = Some e \<and> registry_evidence r m = registry_evidence r (en_id e) \<and>
    override_for r m = override_for r (en_id e) \<and> registry_cost r m u = registry_cost r (en_id e) u \<and>
    (\<forall>a i. bt_get (mr_aliases r) a = Some i \<longrightarrow> (\<exists>e'. resolve_model r a = Some e' \<and> to_lower (en_id e') = i))"
proof -
  have "registry_wf r"
    unfolding assms(1) by (rule catalog_run_wf [OF builtin_wf])
  then have names: "names_ok (mr_entries r) (mr_aliases r)"
    by (simp add: registry_wf_def)
  obtain k where "bt_get (mr_entries r) k = Some e"
    using assms(2) by (auto simp: resolve_model_def split: option.splits)
  then have "bt_get (mr_entries r) (to_lower (en_id e)) = Some e"
    using names by (auto simp: names_ok_def)
  then have own: "resolve_model r (en_id e) = Some e"
    by (simp add: resolve_model_def)
  moreover have "\<exists>e'. resolve_model r a = Some e' \<and> to_lower (en_id e') = i" if "bt_get (mr_aliases r) a = Some i" for a i
  proof -
    have a: "to_lower a = a" "bt_has (mr_entries r) i" "bt_has (mr_entries r) a \<longrightarrow> a = i"
      using names that by (auto simp: names_ok_def)
    then obtain e' where "bt_get (mr_entries r) i = Some e'"
      by auto
    moreover have "to_lower (en_id e') = i"
      using names calculation by (auto simp: names_ok_def)
    ultimately show ?thesis
      using a that by (cases "bt_get (mr_entries r) a") (auto simp: resolve_model_def)
  qed
  ultimately show ?thesis
    using assms(2) by (simp add: registry_evidence_def override_for_def canonical_model_id_def registry_cost_def Let_def)
qed

lemma names_do_not_matter_witness:
  "resolve_model registry_builtin ''GLM'' = Some (hd builtin_entries) \<and>
   registry_evidence registry_builtin ''GLM'' = registry_evidence registry_builtin ''glm-5.2''"
proof -
  have e: "resolve_model registry_builtin ''GLM'' = Some (hd builtin_entries)" "en_id (hd builtin_entries) = ''glm-5.2''"
    by code_simp+
  show ?thesis
    using names_do_not_matter [of registry_builtin "[]", OF _ e(1)] e by simp
qed

subsection \<open>Prices\<close>

lemma scale_price_eq: "scale_price t p = min (unat t * unat p div 1000000) u64_max"
  by (auto simp: scale_price_def)

lemma sat_add_min: "sat_add (min a u64_max) (min b u64_max) = min (a + b) u64_max"
  by (simp add: sat_add_def min_def)

lemma floor_sum: "((a :: nat) + b + c + d) div n \<le> a div n + b div n + c div n + d div n + 3" if "n > 0"
proof -
  have "x < (x div n + 1) * n" for x
    using that dividend_less_div_times [of n x] by simp
  from this [of a] this [of b] this [of c] this [of d]
  have "a + b + c + d < (a div n + b div n + c div n + d div n + 4) * n"
    by (simp add: algebra_simps)
  then show ?thesis
    using less_mult_imp_div_less by fastforce
qed

lemma floor_sum_le: "(a :: nat) div n + b div n + c div n + d div n \<le> (a + b + c + d) div n"
proof -
  have two: "x div n + y div n \<le> (x + y) div n" for x y :: nat
    by (metis add_mult_distrib div_le_mono div_mult_self_is_m div_times_less_eq_dividend add_mono bot_nat_0.not_eq_extremum div_by_0 add_0)
  show ?thesis
    using two [of a b] two [of "a + b" c] two [of "a + b + c" d] by linarith
qed

definition exact_cost :: "token_usage \<Rightarrow> model_pricing \<Rightarrow> nat" where
  "exact_cost u p =
     (unat (tu_input u) * unat (mp_input p) + unat (tu_output u) * unat (mp_output p) +
      unat (tu_cache_read u) * unat (mp_cache_read p) + unat (tu_cache_write u) * unat (mp_cache_write p)) div 1000000"

text \<open>
  An estimated cost is in the currency of the price, never above the exact cost and at most three millionths below it,
  one for each kind of token but one, and where the exact cost exceeds 64 bits it stays at the top instead of wrapping
  around.
\<close>

theorem cost_is_exact_up_to_rounding:
  "fst (estimate_cost u p) = mp_currency p \<and> snd (estimate_cost u p) \<le> min (exact_cost u p) u64_max \<and>
   min (exact_cost u p) u64_max \<le> snd (estimate_cost u p) + 3"
proof -
  let ?a = "unat (tu_input u) * unat (mp_input p)" and ?b = "unat (tu_output u) * unat (mp_output p)"
  let ?c = "unat (tu_cache_read u) * unat (mp_cache_read p)" and ?d = "unat (tu_cache_write u) * unat (mp_cache_write p)"
  have "snd (estimate_cost u p) = min (?a div 1000000 + ?b div 1000000 + ?c div 1000000 + ?d div 1000000) u64_max"
    by (simp add: estimate_cost_def scale_price_eq sat_add_min)
  moreover have "?a div 1000000 + ?b div 1000000 + ?c div 1000000 + ?d div 1000000 \<le> exact_cost u p"
    unfolding exact_cost_def by (rule floor_sum_le)
  moreover have "exact_cost u p \<le> ?a div 1000000 + ?b div 1000000 + ?c div 1000000 + ?d div 1000000 + 3"
    unfolding exact_cost_def by (rule floor_sum) simp
  ultimately show ?thesis
    by (simp add: estimate_cost_def min_def split: if_splits)
qed

end
