(* ===== verification/ProbeRuns.thy ===== *)
theory ProbeRuns
  imports ModelRegistry
begin

text \<open>
  \<open>ModelRegistry::probe_provider\<close> of \<open>crates/models/src/registry.rs\<close> under interleaving. A call is cut into the
  stretches between two locks or awaits; a list of events is an interleaving of any number of calls with the answers of
  the providers, dropped futures, recorded and cleared probes.
\<close>

subsection \<open>Model\<close>

text \<open>A waiting call is asleep once it has registered its waker, until it is woken.\<close>

datatype probe_phase =
    PhHead nat
  | PhClaim nat
  | PhListing nat
  | PhWaiting nat bool
  | PhReturned "(string, provider_probe) result"
  | PhGone

text \<open>The calls with their providers, and the slots \<open>list_models\<close> was called for, in order.\<close>

record probe_world =
  pw_registry :: model_registry
  pw_calls :: "(string \<times> probe_phase) list"
  pw_listed :: "nat list"

datatype probe_event =
    EvSpawn string
  | EvStep nat
  | EvAnswer nat "(string, model_definition list) result"
  | EvDrop nat
  | EvRecord string "model_definition list"
  | EvClear string

definition wake_call :: "nat list \<Rightarrow> nat \<Rightarrow> string \<times> probe_phase \<Rightarrow> string \<times> probe_phase" where
  "wake_call ws i c =
     (case snd c of PhWaiting s True \<Rightarrow> (if i \<in> set ws then (fst c, PhWaiting s False) else c) | _ \<Rightarrow> c)"

definition wake_calls :: "nat list \<Rightarrow> probe_world \<Rightarrow> probe_world" where
  "wake_calls ws w = w\<lparr>pw_calls := map (\<lambda>i. wake_call ws i (pw_calls w ! i)) [0 ..< length (pw_calls w)]\<rparr>"

definition set_phase :: "nat \<Rightarrow> probe_phase \<Rightarrow> probe_world \<Rightarrow> probe_world" where
  "set_phase i x w = w\<lparr>pw_calls := (pw_calls w)[i := (fst (pw_calls w ! i), x)]\<rparr>"

definition set_registry :: "model_registry \<Rightarrow> probe_world \<Rightarrow> probe_world" where
  "set_registry r w = w\<lparr>pw_registry := r\<rparr>"

text \<open>One stretch of the call \<open>i\<close>.\<close>

definition probe_stretch :: "nat \<Rightarrow> probe_world \<Rightarrow> probe_world" where
  "probe_stretch i w =
     (let r = pw_registry w in
      case snd (pw_calls w ! i) of
        PhHead s \<Rightarrow> (case slot_cached r s of Some x \<Rightarrow> set_phase i (PhReturned x) w | None \<Rightarrow> set_phase i (PhClaim s) w)
      | PhClaim s \<Rightarrow>
          (case slot_claim r s of
             (ClaimWon, r') \<Rightarrow> set_phase i (PhListing s) (set_registry r' w\<lparr>pw_listed := pw_listed w @ [s]\<rparr>)
           | (ClaimWait, r') \<Rightarrow> set_phase i (PhWaiting s False) w
           | (ClaimDone, r') \<Rightarrow> set_phase i (PhHead s) w)
      | PhWaiting s False \<Rightarrow>
          (case slot_poll r s i of
             (True, r') \<Rightarrow> set_phase i (PhHead s) w
           | (False, r') \<Rightarrow> set_phase i (PhWaiting s True) (set_registry r' w))
      | _ \<Rightarrow> w)"

text \<open>The answer to \<open>list_models\<close>, and what the call makes of it.\<close>

definition probe_answer :: "nat \<Rightarrow> (string, model_definition list) result \<Rightarrow> probe_world \<Rightarrow> probe_world" where
  "probe_answer i answer w =
     (case snd (pw_calls w ! i) of
        PhListing s \<Rightarrow>
          (let x = map_sum id (\<lambda>ds. \<lparr>pb_provider = fst (pw_calls w ! i), pb_definitions = ds\<rparr>) answer in
           (case slot_complete_claimed (pw_registry w) s x of
              ((True, ws), r') \<Rightarrow> wake_calls ws (set_phase i (PhReturned x) (set_registry r' w))
            | ((False, ws), r') \<Rightarrow> set_phase i (PhHead s) w))
      | _ \<Rightarrow> w)"

fun probe_do :: "probe_event \<Rightarrow> probe_world \<Rightarrow> probe_world" where
  "probe_do (EvSpawn p) w =
     (case probe_slot (pw_registry w) p of (s, r') \<Rightarrow> w\<lparr>pw_registry := r', pw_calls := pw_calls w @ [(p, PhHead s)]\<rparr>)"
| "probe_do (EvStep i) w = (if i < length (pw_calls w) then probe_stretch i w else w)"
| "probe_do (EvAnswer i x) w = (if i < length (pw_calls w) then probe_answer i x w else w)"
| "probe_do (EvDrop i) w =
     (if i < length (pw_calls w) then
        (case snd (pw_calls w ! i) of PhReturned _ \<Rightarrow> w | _ \<Rightarrow> set_phase i PhGone w)
      else w)"
| "probe_do (EvRecord p ds) w =
     (case record_probe (pw_registry w) p ds of ((_, ws), r') \<Rightarrow> wake_calls ws (set_registry r' w))"
| "probe_do (EvClear p) w = set_registry (snd (clear_probe (pw_registry w) p)) w"

definition probe_run :: "probe_event list \<Rightarrow> probe_world" where
  "probe_run evs = fold probe_do evs \<lparr>pw_registry = registry_empty, pw_calls = [], pw_listed = []\<rparr>"

subsection \<open>The invariant\<close>

abbreviation phase_of :: "probe_world \<Rightarrow> nat \<Rightarrow> probe_phase" where
  "phase_of w i \<equiv> snd (pw_calls w ! i)"

fun phase_slot :: "probe_phase \<Rightarrow> nat option" where
  "phase_slot (PhHead s) = Some s"
| "phase_slot (PhClaim s) = Some s"
| "phase_slot (PhListing s) = Some s"
| "phase_slot (PhWaiting s _) = Some s"
| "phase_slot _ = None"

definition slots_of :: "probe_world \<Rightarrow> probe_state list" where
  "slots_of w = mr_slots (pw_registry w)"

definition slots_ok :: "probe_world \<Rightarrow> bool" where
  "slots_ok w \<longleftrightarrow>
     (\<forall>(p, s) \<in> set (mr_probes (pw_registry w)). s < length (slots_of w)) \<and>
     (\<forall>i s. i < length (pw_calls w) \<longrightarrow> phase_slot (phase_of w i) = Some s \<longrightarrow> s < length (slots_of w))"

definition listed_ok :: "probe_world \<Rightarrow> bool" where
  "listed_ok w \<longleftrightarrow>
     distinct (pw_listed w) \<and>
     (\<forall>s \<in> set (pw_listed w). s < length (slots_of w) \<and> slots_of w ! s \<noteq> ProbeIdle) \<and>
     (\<forall>i s. i < length (pw_calls w) \<longrightarrow> phase_of w i = PhListing s \<longrightarrow> s \<in> set (pw_listed w)) \<and>
     (\<forall>i j s. i < length (pw_calls w) \<longrightarrow> j < length (pw_calls w) \<longrightarrow> phase_of w i = PhListing s \<longrightarrow> phase_of w j = PhListing s \<longrightarrow> i = j)"

definition sleepers_ok :: "probe_world \<Rightarrow> bool" where
  "sleepers_ok w \<longleftrightarrow>
     (\<forall>i s. i < length (pw_calls w) \<longrightarrow> phase_of w i = PhWaiting s True \<longrightarrow>
        (\<exists>ws. slots_of w ! s = ProbeInFlight ws \<and> i \<in> set ws))"

definition probe_ok :: "probe_world \<Rightarrow> bool" where
  "probe_ok w \<longleftrightarrow> slots_ok w \<and> listed_ok w \<and> sleepers_ok w"

lemma bt_set_subset:
  "set (bt_put k v m) \<subseteq> insert (k, v) (set m)" "set (bt_del k m) \<subseteq> set m" "bt_get m k = Some v \<Longrightarrow> (k, v) \<in> set m"
  by (induction m) (auto split: if_splits)

lemmas probe_ok_defs = probe_ok_def slots_ok_def listed_ok_def sleepers_ok_def

lemma set_phase_simps [simp]:
  "length (pw_calls (set_phase i x w)) = length (pw_calls w)" "pw_registry (set_phase i x w) = pw_registry w"
  "pw_listed (set_phase i x w) = pw_listed w" "slots_of (set_phase i x w) = slots_of w"
  by (simp_all add: set_phase_def slots_of_def)

lemma phase_set_phase: "i < length (pw_calls w) \<Longrightarrow> phase_of (set_phase i x w) j = (if j = i then x else phase_of w j)"
  by (simp add: set_phase_def nth_list_update)

lemma set_registry_simps [simp]:
  "pw_calls (set_registry r w) = pw_calls w" "pw_registry (set_registry r w) = r" "pw_listed (set_registry r w) = pw_listed w"
  "slots_of (set_registry r w) = mr_slots r"
  by (simp_all add: set_registry_def slots_of_def)

lemma set_slot_simps [simp]:
  "mr_slots (set_slot s x r) = (mr_slots r)[s := x]" "mr_probes (set_slot s x r) = mr_probes r"
  by (simp_all add: set_slot_def)

lemma wake_simps [simp]:
  "length (pw_calls (wake_calls ws w)) = length (pw_calls w)" "pw_registry (wake_calls ws w) = pw_registry w"
  "pw_listed (wake_calls ws w) = pw_listed w" "slots_of (wake_calls ws w) = slots_of w"
  by (simp_all add: wake_calls_def slots_of_def)

lemma phase_wake:
  "i < length (pw_calls w) \<Longrightarrow>
     phase_of (wake_calls ws w) i = (case phase_of w i of PhWaiting s True \<Rightarrow> PhWaiting s (i \<notin> set ws) | x \<Rightarrow> x)"
  by (auto simp: wake_calls_def wake_call_def split: probe_phase.split bool.split)

lemma phase_wake_iff:
  assumes "i < length (pw_calls w)"
  shows "phase_of (wake_calls ws w) i = PhListing s \<longleftrightarrow> phase_of w i = PhListing s"
    and "phase_slot (phase_of (wake_calls ws w) i) = phase_slot (phase_of w i)"
    and "phase_of (wake_calls ws w) i = PhWaiting s True \<longleftrightarrow> phase_of w i = PhWaiting s True \<and> i \<notin> set ws"
  by (auto simp: phase_wake [OF assms] split: probe_phase.split bool.split)

text \<open>A phase that neither asks a provider nor sleeps.\<close>

lemma ok_set_phase:
  assumes "probe_ok w" and "i < length (pw_calls w)"
    and "phase_slot x = None \<or> phase_slot x = phase_slot (phase_of w i)" and "\<And>s. x \<noteq> PhListing s \<and> x \<noteq> PhWaiting s True"
  shows "probe_ok (set_phase i x w)"
proof -
  have "slots_ok (set_phase i x w)"
    using assms by (auto simp: probe_ok_def slots_ok_def phase_set_phase)
  moreover have "listed_ok (set_phase i x w)"
    using assms unfolding probe_ok_def listed_ok_def by (simp add: phase_set_phase)
  moreover have "sleepers_ok (set_phase i x w)"
    using assms unfolding probe_ok_def sleepers_ok_def by (simp add: phase_set_phase)
  ultimately show ?thesis
    by (simp add: probe_ok_def)
qed

text \<open>A slot is done, and all that slept on it are woken.\<close>

lemma ok_complete:
  assumes "probe_ok w" and "s < length (slots_of w)"
    and "\<And>i. i < length (pw_calls w) \<Longrightarrow> phase_of w i = PhWaiting s True \<Longrightarrow> i \<in> set ws"
  shows "probe_ok (wake_calls ws (set_registry (set_slot s (ProbeDone x) (pw_registry w)) w))"
proof -
  let ?w = "set_registry (set_slot s (ProbeDone x) (pw_registry w)) w"
  have slots: "slots_of ?w = (slots_of w)[s := ProbeDone x]"
    by (simp add: slots_of_def)
  have "slots_ok (wake_calls ws ?w)"
    using assms(1) by (simp add: probe_ok_def slots_ok_def phase_wake_iff slots slots_of_def)
  moreover have "listed_ok (wake_calls ws ?w)"
  proof -
    have "u < length (slots_of ?w) \<and> slots_of ?w ! u \<noteq> ProbeIdle" if "u < length (slots_of w) \<and> slots_of w ! u \<noteq> ProbeIdle" for u
      using that assms(2) unfolding slots by (simp add: nth_list_update)
    then show ?thesis
      using assms(1) unfolding probe_ok_def listed_ok_def wake_simps by (simp add: phase_wake_iff del: set_registry_simps(4))
  qed
  moreover have "sleepers_ok (wake_calls ws ?w)"
    unfolding sleepers_ok_def
  proof (intro allI impI)
    fix i u assume i: "i < length (pw_calls (wake_calls ws ?w))" and sleeps: "phase_of (wake_calls ws ?w) i = PhWaiting u True"
    then have "phase_of w i = PhWaiting u True" "i \<notin> set ws"
      by (simp_all add: phase_wake_iff)
    then have "u \<noteq> s" "\<exists>vs. slots_of w ! u = ProbeInFlight vs \<and> i \<in> set vs"
      using assms(1,3) i by (auto simp: probe_ok_def sleepers_ok_def)
    then show "\<exists>vs. slots_of (wake_calls ws ?w) ! u = ProbeInFlight vs \<and> i \<in> set vs"
      unfolding wake_simps slots by simp
  qed
  ultimately show ?thesis
    by (simp add: probe_ok_def)
qed

lemma ok_claim:
  assumes "probe_ok w" and "i < length (pw_calls w)" and "phase_of w i = PhClaim s" and "slots_of w ! s = ProbeIdle"
  shows "probe_ok (set_phase i (PhListing s) (set_registry (set_slot s (ProbeInFlight []) (pw_registry w)) w\<lparr>pw_listed := pw_listed w @ [s]\<rparr>))"
    (is "probe_ok ?w")
proof -
  have s: "s < length (slots_of w)" "s \<notin> set (pw_listed w)"
    using assms by (auto simp: probe_ok_def slots_ok_def listed_ok_def)
  have slots: "slots_of ?w = (slots_of w)[s := ProbeInFlight []]" and len: "length (pw_calls ?w) = length (pw_calls w)"
    and listed: "pw_listed ?w = pw_listed w @ [s]" and probes: "mr_probes (pw_registry ?w) = mr_probes (pw_registry w)"
    by (simp_all add: slots_of_def set_registry_def set_phase_def)
  have phase: "phase_of ?w j = (if j = i then PhListing s else phase_of w j)" for j
    using assms(2) by (simp add: set_phase_def set_registry_def nth_list_update)
  have "slots_ok ?w"
    using assms(1,2) s unfolding probe_ok_def slots_ok_def len slots phase probes by auto
  moreover have "listed_ok ?w"
  proof -
    have "phase_of w j \<noteq> PhListing s" if "j < length (pw_calls w)" for j
      using assms(1) s(2) that by (auto simp: probe_ok_def listed_ok_def)
    then show ?thesis
      using assms(1) s unfolding probe_ok_def listed_ok_def len slots phase listed by (auto simp: nth_list_update)
  qed
  moreover have "sleepers_ok ?w"
    unfolding sleepers_ok_def
  proof (intro allI impI)
    fix j u assume j: "j < length (pw_calls ?w)" and sleeps: "phase_of ?w j = PhWaiting u True"
    then have "phase_of w j = PhWaiting u True"
      unfolding phase by (simp split: if_splits)
    then obtain ws where "slots_of w ! u = ProbeInFlight ws" "j \<in> set ws"
      using assms(1) j len by (auto simp: probe_ok_def sleepers_ok_def)
    moreover from this(1) have "u \<noteq> s"
      using assms(4) by auto
    ultimately show "\<exists>ws. slots_of ?w ! u = ProbeInFlight ws \<and> j \<in> set ws"
      unfolding slots by simp
  qed
  ultimately show ?thesis
    by (simp add: probe_ok_def)
qed

lemma ok_sleep:
  assumes "probe_ok w" and "i < length (pw_calls w)" and "phase_of w i = PhWaiting s False" and "slots_of w ! s = ProbeInFlight ws"
  shows "probe_ok (set_phase i (PhWaiting s True) (set_registry (snd (slot_poll (pw_registry w) s i)) w))" (is "probe_ok ?w")
proof -
  obtain vs where poll: "slots_of ?w = (slots_of w)[s := ProbeInFlight vs]" "set vs = insert i (set ws)"
  proof (cases "i \<in> set ws")
    case True
    then have "slots_of ?w = (slots_of w)[s := ProbeInFlight ws]"
      using assms(4) by (simp add: slot_poll_def slots_of_def)
        (metis list_update_id)
    then show ?thesis
      using that True by blast
  next
    case False
    then show ?thesis
      using that [of "ws @ [i]"] assms(4) by (simp add: slot_poll_def slots_of_def)
  qed
  have len: "length (pw_calls ?w) = length (pw_calls w)" and listed: "pw_listed ?w = pw_listed w"
    and probes: "mr_probes (pw_registry ?w) = mr_probes (pw_registry w)"
    by (simp_all add: slot_poll_def split: probe_state.split)
  have phase: "phase_of ?w j = (if j = i then PhWaiting s True else phase_of w j)" for j
    using assms(2) by (simp add: set_phase_def set_registry_def nth_list_update)
  have s: "s < length (slots_of w)"
    using assms(1-3) by (auto simp: probe_ok_def slots_ok_def)
  have "slots_ok ?w"
    using assms(1-3) s unfolding probe_ok_def slots_ok_def len poll(1) phase probes by auto
  moreover have "listed_ok ?w"
    using assms(1) s unfolding probe_ok_def listed_ok_def len poll(1) phase listed by (auto simp: nth_list_update)
  moreover have "sleepers_ok ?w"
    using assms(1,4) poll(2) s unfolding probe_ok_def sleepers_ok_def len poll(1) phase by (auto simp: nth_list_update)
  ultimately show ?thesis
    by (simp add: probe_ok_def)
qed

lemma ok_same_slots:
  assumes "probe_ok w" and "mr_slots r = slots_of w" and "set (mr_probes r) \<subseteq> set (mr_probes (pw_registry w))"
  shows "probe_ok (set_registry r w)"
  using assms unfolding probe_ok_defs by auto

subsection \<open>Every event keeps it\<close>

lemma ok_stretch:
  assumes "probe_ok w" and "i < length (pw_calls w)"
  shows "probe_ok (probe_stretch i w)"
proof (cases "phase_of w i")
  case (PhHead s)
  then show ?thesis
    using ok_set_phase [OF assms] by (simp add: probe_stretch_def Let_def split: option.split)
next
  case (PhClaim s)
  then show ?thesis
  proof (cases "mr_slots (pw_registry w) ! s")
    case ProbeIdle
    then show ?thesis
      using ok_claim [OF assms PhClaim] PhClaim by (simp add: probe_stretch_def slot_claim_def slots_of_def Let_def)
  qed (use ok_set_phase [OF assms] PhClaim in \<open>simp_all add: probe_stretch_def slot_claim_def Let_def\<close>)
next
  case (PhWaiting s asleep)
  show ?thesis
  proof (cases asleep)
    case False
    show ?thesis
    proof (cases "mr_slots (pw_registry w) ! s")
      case (ProbeInFlight ws)
      then have "slots_of w ! s = ProbeInFlight ws"
        by (simp add: slots_of_def)
      from ok_sleep [OF assms _ this] show ?thesis
        using PhWaiting False ProbeInFlight by (simp add: probe_stretch_def Let_def slot_poll_def)
    qed (use ok_set_phase [OF assms] PhWaiting False in \<open>simp_all add: probe_stretch_def slot_poll_def Let_def\<close>)
  qed (use assms PhWaiting in \<open>simp add: probe_stretch_def Let_def\<close>)
qed (use assms in \<open>simp_all add: probe_stretch_def Let_def\<close>)

lemma sleeper_registered:
  "probe_ok w \<Longrightarrow> i < length (pw_calls w) \<Longrightarrow> phase_of w i = PhWaiting s True \<Longrightarrow>
     \<exists>ws. slots_of w ! s = ProbeInFlight ws \<and> i \<in> set ws"
  by (simp add: probe_ok_def sleepers_ok_def)

lemma asleep_in_wakers:
  assumes "probe_ok w" and "i < length (pw_calls w)" and "phase_of w i = PhWaiting s True" and "slots_of w ! s = ProbeInFlight ws"
  shows "i \<in> set ws"
  using assms by (auto simp: probe_ok_def sleepers_ok_def)

lemma ok_answer:
  assumes "probe_ok w" and "i < length (pw_calls w)"
  shows "probe_ok (probe_answer i x w)"
proof (cases "phase_of w i")
  case (PhListing s)
  have s: "s < length (slots_of w)"
    using assms PhListing by (auto simp: probe_ok_def slots_ok_def)
  show ?thesis
  proof (cases "mr_slots (pw_registry w) ! s")
    case (ProbeInFlight ws)
    let ?x = "map_sum id (\<lambda>ds. \<lparr>pb_provider = fst (pw_calls w ! i), pb_definitions = ds\<rparr>) x"
    let ?w = "set_phase i (PhReturned ?x) w"
    have ok: "probe_ok ?w"
      by (rule ok_set_phase [OF assms]) simp_all
    have "j \<in> set ws" if "j < length (pw_calls ?w)" "phase_of ?w j = PhWaiting s True" for j
      using that asleep_in_wakers [OF assms(1), of j s ws] ProbeInFlight assms(2)
      by (simp add: phase_set_phase slots_of_def split: if_splits)
    from ok_complete [OF ok _ this] s
    have "probe_ok (wake_calls ws (set_registry (set_slot s (ProbeDone ?x) (pw_registry ?w)) ?w))"
      by simp
    moreover have "set_registry (set_slot s (ProbeDone ?x) (pw_registry ?w)) ?w =
        set_phase i (PhReturned ?x) (set_registry (set_slot s (ProbeDone ?x) (pw_registry w)) w)"
      by (simp add: set_registry_def set_phase_def)
    ultimately show ?thesis
      using PhListing ProbeInFlight by (simp add: probe_answer_def slot_complete_claimed_def Let_def)
  qed (use ok_set_phase [OF assms] PhListing in \<open>simp_all add: probe_answer_def slot_complete_claimed_def Let_def\<close>)
qed (use assms in \<open>simp_all add: probe_answer_def\<close>)

text \<open>The slot of a provider, made when needed, is a new idle one or a known one.\<close>

lemma probe_slot_cases:
  assumes "probe_ok w"
  obtains s where "probe_slot (pw_registry w) p = (s, pw_registry w)" "s < length (slots_of w)"
    | "probe_slot (pw_registry w) p = (length (slots_of w),
         (pw_registry w)\<lparr>mr_probes := bt_put p (length (slots_of w)) (mr_probes (pw_registry w)),
                         mr_slots := slots_of w @ [ProbeIdle]\<rparr>)"
proof (cases "bt_get (mr_probes (pw_registry w)) p")
  case (Some s)
  have "s < length (slots_of w)"
    using assms bt_set_subset(3) [OF Some] unfolding probe_ok_defs by blast
  then show ?thesis
    using that(1) Some by (simp add: probe_slot_def)
qed (use that(2) in \<open>simp add: probe_slot_def slots_of_def Let_def\<close>)

lemma ok_slot:
  assumes "probe_ok w"
  shows "probe_ok (set_registry (snd (probe_slot (pw_registry w) p)) w) \<and>
    fst (probe_slot (pw_registry w) p) < length (mr_slots (snd (probe_slot (pw_registry w) p)))"
  using assms
proof (cases rule: probe_slot_cases [of _ p])
  case (1 s)
  then show ?thesis
    using assms by (simp add: set_registry_def slots_of_def)
next
  case 2
  let ?r = "snd (probe_slot (pw_registry w) p)"
  have slots: "mr_slots ?r = slots_of w @ [ProbeIdle]"
    and probes: "mr_probes ?r = bt_put p (length (slots_of w)) (mr_probes (pw_registry w))"
    using 2 by simp_all
  have "slots_ok (set_registry ?r w)"
    using assms bt_set_subset(1) [of p "length (slots_of w)" "mr_probes (pw_registry w)"]
    by (fastforce simp: probe_ok_def slots_ok_def slots probes less_Suc_eq)
  moreover have "listed_ok (set_registry ?r w)"
    using assms by (simp add: probe_ok_def listed_ok_def slots nth_append less_Suc_eq)
  moreover have "sleepers_ok (set_registry ?r w)"
    unfolding sleepers_ok_def
  proof (intro allI impI)
    fix i s assume i: "i < length (pw_calls (set_registry ?r w))" "phase_of (set_registry ?r w) i = PhWaiting s True"
    then have "s < length (slots_of w)" "\<exists>ws. slots_of w ! s = ProbeInFlight ws \<and> i \<in> set ws"
      using assms by (auto simp: probe_ok_def slots_ok_def sleepers_ok_def)
    then show "\<exists>ws. slots_of (set_registry ?r w) ! s = ProbeInFlight ws \<and> i \<in> set ws"
      by (simp add: slots nth_append)
  qed
  ultimately show ?thesis
    using 2 by (simp add: probe_ok_def)
qed

lemma ok_spawn:
  assumes "probe_ok w" and "s < length (slots_of w)"
  shows "probe_ok (w\<lparr>pw_calls := pw_calls w @ [(p, PhHead s)]\<rparr>)" (is "probe_ok ?w")
proof -
  have slots: "slots_of ?w = slots_of w" "pw_registry ?w = pw_registry w" "pw_listed ?w = pw_listed w"
      "length (pw_calls ?w) = Suc (length (pw_calls w))"
    by (simp_all add: slots_of_def)
  have phase: "snd ((pw_calls w @ [(p, PhHead s)]) ! i) = (if i < length (pw_calls w) then phase_of w i else PhHead s)" if "i < Suc (length (pw_calls w))" for i
    using that by (auto simp: nth_append less_Suc_eq)
  have "slots_ok ?w"
    using assms unfolding probe_ok_def slots_ok_def slots by (auto simp: phase split: if_splits)
  moreover have "listed_ok ?w"
    using assms unfolding probe_ok_def listed_ok_def slots by (auto simp: phase split: if_splits)
  moreover have "sleepers_ok ?w"
    using assms unfolding probe_ok_def sleepers_ok_def slots by (auto simp: phase split: if_splits)
  ultimately show ?thesis
    by (simp add: probe_ok_def)
qed

lemma ok_record:
  assumes "probe_ok w"
  shows "probe_ok (probe_do (EvRecord p ds) w)"
proof -
  obtain s r where sr: "probe_slot (pw_registry w) p = (s, r)"
    by (cases "probe_slot (pw_registry w) p")
  let ?w = "set_registry r w"
  have ok: "probe_ok ?w" and s: "s < length (slots_of ?w)"
    using ok_slot [OF assms, of p] sr by simp_all
  let ?ws = "case mr_slots r ! s of ProbeInFlight ws \<Rightarrow> ws | _ \<Rightarrow> []"
  have "i \<in> set ?ws" if asleep: "i < length (pw_calls ?w)" "phase_of ?w i = PhWaiting s True" for i
  proof -
    obtain ws where "slots_of ?w ! s = ProbeInFlight ws" "i \<in> set ws"
      using sleeper_registered [OF ok asleep] by blast
    then show ?thesis
      by simp
  qed
  from ok_complete [OF ok s this] show ?thesis
    using sr by (simp add: record_probe_def slot_complete_def Let_def set_registry_def)
qed

lemma ok_event: "probe_ok w \<Longrightarrow> probe_ok (probe_do e w)"
proof (cases e)
  case (EvSpawn p)
  assume "probe_ok w"
  from ok_slot [OF this, of p] show ?thesis
    using EvSpawn ok_spawn [of "set_registry (snd (probe_slot (pw_registry w) p)) w" "fst (probe_slot (pw_registry w) p)" p]
    by (simp add: set_registry_def slots_of_def case_prod_beta)
next
  case (EvDrop i)
  assume "probe_ok w"
  then show ?thesis
    using EvDrop ok_set_phase [of w i PhGone] by (cases "phase_of w i") simp_all
next
  case (EvClear p)
  assume "probe_ok w"
  then show ?thesis
    using EvClear ok_same_slots [of w "snd (clear_probe (pw_registry w) p)"] bt_set_subset(2) [of p "mr_probes (pw_registry w)"]
    by (simp add: clear_probe_def slots_of_def)
qed (simp_all add: ok_stretch ok_answer ok_record del: probe_do.simps(5))

lemma probe_run_ok: "probe_ok (probe_run evs)"
proof -
  have "probe_ok (fold probe_do evs w)" if "probe_ok w" for w
    using that by (induction evs arbitrary: w) (simp_all add: ok_event del: probe_do.simps)
  moreover have "probe_ok \<lparr>pw_registry = registry_empty, pw_calls = [], pw_listed = []\<rparr>"
    by (simp add: probe_ok_defs registry_empty_def slots_of_def)
  ultimately show ?thesis
    by (simp add: probe_run_def)
qed

subsection \<open>At most one request, no lost wake-up\<close>

text \<open>
  Under every interleaving of calls, answers, dropped futures, recorded and cleared probes, \<open>list_models\<close> is called at
  most once for each slot, and a call that sleeps on a slot is registered there while the probe is under way: whoever
  completes the slot wakes it.
\<close>

theorem probes_ask_once_and_wake_all:
  "distinct (pw_listed (probe_run evs)) \<and>
   (\<forall>i < length (pw_calls (probe_run evs)). \<forall>s. phase_of (probe_run evs) i = PhWaiting s True \<longrightarrow>
      (\<exists>ws. slots_of (probe_run evs) ! s = ProbeInFlight ws \<and> i \<in> set ws))"
  using probe_run_ok [of evs] by (simp add: probe_ok_def listed_ok_def sleepers_ok_def)

definition sample_probe :: "probe_event list" where
  "sample_probe = [EvSpawn ''p'', EvStep 0, EvStep 0, EvSpawn ''p'', EvStep 1, EvStep 1, EvStep 1]"

lemma sample_probe_state:
  "pw_calls (probe_run sample_probe) = [(''p'', PhListing 0), (''p'', PhWaiting 0 True)]"
  "slots_of (probe_run sample_probe) = [ProbeInFlight [1]]"
  by code_simp+

lemma probes_ask_once_and_wake_all_witness:
  "phase_of (probe_run sample_probe) 1 = PhWaiting 0 True \<and>
   (\<exists>ws. slots_of (probe_run sample_probe) ! 0 = ProbeInFlight ws \<and> 1 \<in> set ws)"
proof -
  have "1 < length (pw_calls (probe_run sample_probe))" "phase_of (probe_run sample_probe) 1 = PhWaiting 0 True"
    by (simp_all add: sample_probe_state)
  then show ?thesis
    using probes_ask_once_and_wake_all [of sample_probe] by blast
qed

subsection \<open>Answers reach the waiting calls\<close>

lemma done_slot_answers:
  assumes "i < length (pw_calls w)" and "phase_of w i = PhWaiting s False" and "slots_of w ! s = ProbeDone x"
  shows "phase_of (probe_do (EvStep i) (probe_do (EvStep i) w)) i = PhReturned x"
proof -
  let ?w = "set_phase i (PhHead s) w"
  have one: "probe_do (EvStep i) w = ?w"
    using assms by (simp add: probe_stretch_def slot_poll_def slots_of_def Let_def)
  have "phase_of ?w i = PhHead s" "i < length (pw_calls ?w)" "slot_cached (pw_registry ?w) s = Some x"
    using assms by (simp_all add: phase_set_phase slot_cached_def slots_of_def)
  then have "probe_do (EvStep i) ?w = set_phase i (PhReturned x) ?w"
    by (simp add: probe_stretch_def Let_def)
  then show ?thesis
    using one assms(1) by (simp add: phase_set_phase)
qed

lemma probe_run_then: "probe_run (evs @ [a, b, c]) = probe_do c (probe_do b (probe_do a (probe_run evs)))"
  by (simp add: probe_run_def del: probe_do.simps)

text \<open>
  C31: A waiting call is answered: in every reachable state where one call asks the provider and another waits for it,
  awake or asleep, the answer of the provider and two stretches of the waiting call make it return that answer.
\<close>

theorem waiting_calls_get_the_answer:
  assumes "w = probe_run evs" and "j < length (pw_calls w)" and "phase_of w j = PhListing s"
    and "i < length (pw_calls w)" and "phase_of w i = PhWaiting s asleep" and "slots_of w ! s = ProbeInFlight ws"
  shows "phase_of (probe_run (evs @ [EvAnswer j answer, EvStep i, EvStep i])) i =
    PhReturned (map_sum id (\<lambda>ds. \<lparr>pb_provider = fst (pw_calls w ! j), pb_definitions = ds\<rparr>) answer)"
proof -
  let ?x = "map_sum id (\<lambda>ds. \<lparr>pb_provider = fst (pw_calls w ! j), pb_definitions = ds\<rparr>) answer"
  let ?v = "set_phase j (PhReturned ?x) (set_registry (set_slot s (ProbeDone ?x) (pw_registry w)) w)"
  have ok: "probe_ok w"
    unfolding assms(1) by (rule probe_run_ok)
  have "i \<noteq> j"
    using assms(3,5) by auto
  have s: "s < length (slots_of w)"
    using ok assms(2,3) by (auto simp: probe_ok_def slots_ok_def)
  have answered: "probe_do (EvAnswer j answer) w = wake_calls ws ?v"
    using assms(2,3,6) by (simp add: probe_answer_def slot_complete_claimed_def slots_of_def Let_def)
  have len: "i < length (pw_calls ?v)"
    using assms(4) by simp
  have "phase_of ?v i = PhWaiting s asleep"
    using assms(2,5) \<open>i \<noteq> j\<close> by (simp add: phase_set_phase)
  moreover have "asleep \<Longrightarrow> i \<in> set ws"
    using asleep_in_wakers [OF ok assms(4) _ assms(6)] assms(5) by simp
  ultimately have "phase_of (wake_calls ws ?v) i = PhWaiting s False"
    using phase_wake [OF len, of ws] by (cases asleep) simp_all
  moreover have "slots_of (wake_calls ws ?v) ! s = ProbeDone ?x"
    using s by (simp add: slots_of_def)
  moreover have "i < length (pw_calls (wake_calls ws ?v))"
    using assms(4) by simp
  ultimately show ?thesis
    unfolding probe_run_then assms(1) [symmetric] answered by (intro done_slot_answers)
qed

lemma waiting_calls_get_the_answer_witness:
  "phase_of (probe_run (sample_probe @ [EvAnswer 0 (Inl ''offline''), EvStep 1, EvStep 1])) 1 = PhReturned (Inl ''offline'')"
  using waiting_calls_get_the_answer [OF refl, of 0 sample_probe 0 1 True "[1]" "Inl ''offline''"]
  by (simp add: sample_probe_state)

subsection \<open>A dropped owner\<close>

text \<open>
  The call that asks may be dropped, as by a timeout around it. The slot then stays in flight: without a recorded probe
  no waiting call ever returns.
\<close>

lemma dropped_owner_blocks_waiters:
  "phase_of (probe_run (sample_probe @ EvDrop 0 # replicate n (EvStep 1))) 1 = PhWaiting 0 True"
proof -
  let ?w = "probe_run (sample_probe @ [EvDrop 0])"
  have calls: "pw_calls ?w = [(''p'', PhGone), (''p'', PhWaiting 0 True)]"
    by code_simp
  then have "probe_do (EvStep 1) ?w = ?w"
    by (simp add: probe_stretch_def Let_def)
  then have "fold probe_do (replicate n (EvStep 1)) ?w = ?w"
    by (induction n) (simp_all del: probe_do.simps)
  moreover have "probe_run (sample_probe @ EvDrop 0 # replicate n (EvStep 1)) = fold probe_do (replicate n (EvStep 1)) ?w"
    by (simp add: probe_run_def del: probe_do.simps)
  ultimately show ?thesis
    by (simp add: calls)
qed

end
