(* ===== verification/Spec2Isabelle.thy ===== *)
theory Spec2Isabelle
  imports PlanProps TaskProps TaskGraphProps LifecycleProps BudgetProps TenantPolicy SupervisorReplay ShellProps
    CredentialPoolLive EngineRuns ToolSchedulerProps SseProps QuotaLedgerProps QuotaReadsSafe
    TimelineHostProps GitProps Base64Props WorkspaceProps
    ModelRegistryProps ProbeRuns
begin

text \<open>
  Pawork is an agent workbench written in Rust. This development models the parts that carry its
  own logic, as executable functions on explicit states, and proves what makes them correct.

  Layout of the library.

  \<^item> \<open>Prelude\<close>: results as sums, 64-bit words and saturating arithmetic, decimal rendering, the
    whitespace of Rust's \<open>trim\<close>. \<open>OrdMap\<close>: \<open>BTreeMap\<close> as a sorted association list, with the
    interface \<open>ordered_map\<close>. \<open>EventSourcing\<close>: runs of commands that persist events, with the
    interface \<open>event_sourced\<close>. \<open>TreeWalk\<close>: the stack-driven walk over a children map.
  \<^item> \<open>PlanModel\<close>, \<open>PlanService\<close>, \<open>PlanProps\<close>: the plan aggregate of \<open>crates/workflow/src/plan\<close>:
    \<open>plan_apply\<close> is \<open>apply\<close>, \<open>plan_replay\<close> is \<open>replay\<close>, and one definition stands for each operation
    of \<open>PlanService\<close>.
  \<^item> \<open>TaskModel\<close>, \<open>TaskManager\<close>, \<open>TaskProps\<close>: the background tasks of \<open>crates/workflow/src/task\<close>.
    A cancellation token is a number, and \<open>tm_cancelled\<close> is the set of tokens triggered. A life of the manager,
    \<open>task_life\<close>, mixes its commands with replays of logs.
  \<^item> \<open>TaskGraph\<close>, \<open>TaskGraphProps\<close>: \<open>crates/orchestration/src/task_graph.rs\<close>.
  \<^item> \<open>Lifecycle\<close>, \<open>LifecycleProps\<close>: the worker state machine, the orchestration events and their
    replay, \<open>crates/orchestration/src/lifecycle.rs\<close>.
  \<^item> \<open>UsageLedger\<close>, \<open>Budget\<close>, \<open>BudgetProps\<close>: usage records and the in-memory ledger of
    \<open>crates/control-plane/src/usage.rs\<close> behind the interface \<open>usage_ledger\<close>, and the budget
    controller of \<open>crates/orchestration/src/budget.rs\<close>, which flushes into any such ledger.
  \<^item> \<open>TenantPolicy\<close>: roles and the in-memory policy engine, \<open>rbac.rs\<close> and \<open>tenant.rs\<close> of
    \<open>crates/control-plane/src\<close>.
  \<^item> \<open>Lease\<close>, \<open>CredentialPool\<close>, \<open>CredentialPoolProps\<close>, \<open>CredentialPoolLive\<close>: the lease state machine and
    the in-memory credential pool of \<open>crates/control-plane/src/credential\<close>, with interleaved
    operations, a projection that may refuse a write, also in the middle of the scan for expired leases, crashes and
    restarts.
  \<^item> \<open>Supervisor\<close>, \<open>SupervisorProps\<close>, \<open>SupervisorReplay\<close>: the agent supervisor of
    \<open>crates/orchestration/src/supervisor\<close>, which uses all of the above but the plans and tasks.
  \<^item> \<open>ShellLexer\<close>, \<open>ShellRisk\<close>, \<open>PolicyGate\<close>, \<open>ShellProps\<close>: the command policy of \<open>crates/policy/src\<close>:
    the tokenizer and the classification of \<open>shell.rs\<close> over bytes, and \<open>PolicyEngine::decide\<close> of
    \<open>engine.rs\<close>.
  \<^item> \<open>Json\<close>, \<open>EngineMsg\<close>, \<open>EngineContext\<close>, \<open>EngineLoop\<close>: the agent engine of \<open>crates/engine/src\<close>.
    \<open>EngineMsg\<close> has the messages and events of \<open>crates/domain/src\<close> and \<open>appender.rs\<close>, \<open>EngineContext\<close>
    is \<open>context/\<close> and the estimates and truncation of \<open>tool_loop/compaction.rs\<close>, \<open>EngineLoop\<close> is
    \<open>tool_loop/\<close>: \<open>run_session\<close> with one definition per phase, and \<open>run_manual_compaction\<close>. The provider,
    the host, the sink and the user are a record \<open>host\<close> of functions on a state of their own, so a
    theorem about every \<open>host\<close> is one about everything they may do between two steps. \<open>EngineProps\<close>
    (what runs, how often the provider is asked), \<open>EnginePairs\<close> (calls and results), \<open>EngineLog\<close> (which
    event closes a run), \<open>EngineRuns\<close> (whole runs, numbering, samples), \<open>EngineTrim\<close> (truncation and
    trimming). The interface \<open>request_law\<close> is what a condition on requests must survive to hold of
    every request, \<open>emission_law\<close> what a condition on the state must survive to hold after a run.
  \<^item> \<open>ToolScheduler\<close>, \<open>ToolSchedulerProps\<close>: \<open>crates/tools/src/scheduler.rs\<close>, the registry of local
    tools and the gate in front of every call, which asks \<open>PolicyGate\<close>. The user, the slots, the
    cancellation and the tools are a record \<open>tool_world\<close> of functions on a state of their own.
  \<^item> \<open>Utf8\<close>, \<open>Sse\<close>, \<open>SseProps\<close>: the parser of event streams, \<open>crates/providers/src/net/sse.rs\<close>, over
    bytes that arrive in chunks; \<open>Utf8\<close> is what it uses of \<open>str::from_utf8\<close>.
  \<^item> \<open>QuotaDomain\<close>, \<open>QuotaLedger\<close>, \<open>QuotaLedgerProps\<close>: the quotas of \<open>crates/control-plane/src/quota\<close> and the
    adapter that derives them from a usage ledger. \<open>QuotaService\<close>, \<open>QuotaReads\<close>: \<open>service.rs\<close> there, with
    one definition for each stretch of \<open>read_impl\<close> and \<open>Singleflight::run\<close> between two locks, atomics or
    awaits; \<open>quota_step_run\<close> lets any call take its next step, so a list of steps is an interleaving.
    A flight is its place in \<open>qx_flights\<close>; its field \<open>fl_key\<close> is read by proofs only. \<open>QuotaReadsProps\<close>,
    \<open>QuotaReadsLive\<close>, \<open>QuotaReadsSafe\<close>: leaders and waiters, wake-ups, and what an answer is about. The
    interface \<open>quota_source\<close> is what the service relies on in an adapter.
  \<^item> \<open>Timeline\<close>, \<open>TimelineFold\<close>, \<open>TimelineApply\<close>: the reducer that clients show a session with,
    \<open>crates/protocol/src/projection/mod.rs\<close>, one definition per kind of history item and live event, and the
    disposition of a reconnect, \<open>resume.rs\<close>. \<open>TimelineHost\<close> is the other end, the item the host makes of a
    stored event. \<open>insert_entry\<close> is \<open>partition_point\<close> on sorted entries, which they are. \<open>TimelineLists\<close>,
    \<open>TimelineCalm\<close>, \<open>TimelineOthers\<close> (what tools, runs and diagnostics leave alone), \<open>TimelineStreams\<close> (what
    should be shown, as a function of the set of pieces), \<open>TimelineReads\<close>, \<open>TimelineSteps\<close> (the invariant and
    each step), \<open>TimelineProps\<close>, \<open>TimelineHostProps\<close>. The live copy and the paged copy of an event share its
    sequence and its content, but not the event id and the time, which the host gives anew (\<open>session_log\<close>).
  \<^item> \<open>GitParse\<close>, \<open>GitService\<close>, \<open>GitProps\<close>: \<open>crates/git/src\<close> and the diff texts of \<open>crates/app/src/diff.rs\<close>. The
    parsers of git's output are functions of its bytes; the calls of git are a small monad \<open>git\<close> over an
    environment \<open>git_env\<close> that may answer anything.
  \<^item> \<open>Base64Url\<close>, \<open>Base64Props\<close>: the base64 of secrets and tokens, \<open>crates/auth/src/base64url.rs\<close>, on 32-bit
    words.
  \<^item> \<open>WorkspacePath\<close>, \<open>WorkspaceTree\<close>, \<open>WorkspaceProps\<close>: which file a path of the model stands for,
    \<open>crates/policy/src/path.rs\<close> and \<open>crates/workspace/src\<close>, over an operating system \<open>disk\<close> that may answer anything;
    \<open>WorkspaceTree\<close> is one such system, a tree with links and \<open>realpath\<close> over it.
  \<^item> \<open>ModelCaps\<close>, \<open>ModelRegistry\<close>, \<open>ModelCatalog\<close>: \<open>crates/models/src\<close>. What a model can do is merged from up to
    three sources over JSON objects, negotiated with a request and checked by the gate; the catalog has entries,
    aliases, overrides, prices and probe slots. \<open>ProbeRuns\<close> interleaves the calls of \<open>probe_provider\<close> as \<open>QuotaReads\<close>
    does its reads. \<open>ModelMerge\<close>, \<open>ModelProps\<close>, \<open>ModelRegistryProps\<close>: the merge against what the sources declare together, negotiation
    and the gate, and names and prices.

  How state is modelled. A struct behind a mutex is a record; an operation takes it and returns the
  new one with a \<open>result\<close>. The supervisor holds several mutexes and awaits between its steps, so its
  calls are cut into the stretches between two awaits, and a run is any interleaving of these
  stretches; what a call still owes after it has left a lock waits in \<open>sv_queues\<close>. The engine is one
  task, and its steps are composed by \<open>and_then\<close>, the \<open>?\<close> of the code. The clock, fresh
  ids, the answers of the credential pool and the fate of each message to the ledger are arguments.

  Fuel. The tool loop recurses on the rounds left. The recursion of \<open>detect_cycle\<close> gets one unit per key and per edge, and the flush loop three;
  both are proved to be enough. The walks over children may run forever in the code and are partial
  functions, whose value \<open>None\<close> is not returning.

  What the lemmas show. For each event-sourced component: replaying what was persisted rebuilds the
  live state. For the plan gate, the task graph, the agent limits and the billing: safety under
  every sequence of operations, and for the supervisor under every interleaving. Where the code
  departs from its own comments, a theorem shows the departure on a concrete run.

  Not modelled: SQL storage, network and operating-system I/O, user interfaces, serialization, and
  the builders that only test code calls (task graph, worktrees and patch merging in the supervisor).
\<close>

end
